(* ===== verification/Prelude.thy ===== *)
theory Prelude
  imports Main "HOL-Library.Char_ord" "HOL-Library.List_Lexorder" "HOL-Library.Word"
begin

text \<open>
  Shared ground of the development: the names of the model's basic types, the collections
  of rewrite rules the component proofs use, generic lemmas on lists that several components
  need, and the contract (a locale) of the de-duplicating list normalisations that occur all
  over the code (\<open>uniqueSorted\<close>, \<open>sortedUnique\<close>, \<open>uniquePositive\<close> and their kin).

  A Go string is a sequence of bytes; it is modelled by HOL's \<open>string\<close>, a list of 8-bit
  characters, ordered lexicographically by byte value as Go's \<open><\<close> on strings orders it.
  An instant is the integer number of nanoseconds since the Unix epoch and a
  \<open>time.Duration\<close> an integer number of nanoseconds.
\<close>

type_synonym instant = int
type_synonym duration = int

named_theorems text_simps \<open>characteristic equations of the string operations\<close>
named_theorems table_simps \<open>what a statement does to the rows of a table\<close>
named_theorems decide_simps \<open>unfolding rules of the decision functions\<close>

subsection \<open>Durations\<close>

definition second :: duration where "second = 1000000000"
definition minute :: duration where "minute = 60 * second"
definition hour :: duration where "hour = 60 * minute"
definition day :: duration where "day = 24 * hour"

lemmas duration_defs = second_def minute_def hour_def day_def

lemma duration_pos [simp]: "0 < second" "0 < minute" "0 < hour" "0 < day"
  by (simp_all add: duration_defs)

subsection \<open>The first occurrence of each element\<close>

text \<open>
  The loop \<open>for _, v := range values { if seen[v] { continue }; seen[v] = true; out = append(out, v) }\<close>.
\<close>

fun uniq_from :: "'a list \<Rightarrow> 'a list \<Rightarrow> 'a list" where
  "uniq_from seen [] = []"
| "uniq_from seen (x # xs) =
     (if x \<in> set seen then uniq_from seen xs else x # uniq_from (x # seen) xs)"

definition uniq :: "'a list \<Rightarrow> 'a list" where
  "uniq xs = uniq_from [] xs"

lemma set_uniq_from: "set (uniq_from seen xs) = set xs - set seen"
  by (induction seen xs rule: uniq_from.induct) auto

lemma distinct_uniq_from: "distinct (uniq_from seen xs)"
  by (induction seen xs rule: uniq_from.induct) (auto simp: set_uniq_from)

lemma set_uniq [simp]: "set (uniq xs) = set xs"
  by (simp add: uniq_def set_uniq_from)

lemma distinct_uniq [simp]: "distinct (uniq xs)"
  by (simp add: uniq_def distinct_uniq_from)

lemma uniq_from_distinct:
  "distinct xs \<Longrightarrow> set xs \<inter> set seen = {} \<Longrightarrow> uniq_from seen xs = xs"
  by (induction seen xs rule: uniq_from.induct) auto

lemma uniq_distinct: "distinct xs \<Longrightarrow> uniq xs = xs"
  by (simp add: uniq_def uniq_from_distinct)

lemma length_uniq_le: "length (uniq xs) \<le> length xs"
  by (metis distinct_card distinct_uniq set_uniq card_length)

lemma set_map_filter: "y \<in> set (List.map_filter f xs) \<longleftrightarrow> (\<exists>x \<in> set xs. f x = Some y)"
  by (induction xs) (auto simp: List.map_filter_def)

subsection \<open>Stable sorting by a comparison\<close>

text \<open>
  \<open>sort.SliceStable\<close> with a \<open>less\<close> function: insertion that keeps the order of elements
  neither of which is less than the other. Where \<open>lt\<close> compares keys of a linear order it is
  \<open>sort_key\<close> of the library.
\<close>

fun insert_stable :: "('a \<Rightarrow> 'a \<Rightarrow> bool) \<Rightarrow> 'a \<Rightarrow> 'a list \<Rightarrow> 'a list" where
  "insert_stable lt x [] = [x]"
| "insert_stable lt x (y # ys) =
     (if lt y x then y # insert_stable lt x ys else x # y # ys)"

definition sort_stable :: "('a \<Rightarrow> 'a \<Rightarrow> bool) \<Rightarrow> 'a list \<Rightarrow> 'a list" where
  "sort_stable lt xs = foldr (insert_stable lt) xs []"

lemma set_insert_stable [simp]: "set (insert_stable lt x xs) = insert x (set xs)"
  by (induction lt x xs rule: insert_stable.induct) auto

lemma length_insert_stable [simp]: "length (insert_stable lt x xs) = Suc (length xs)"
  by (induction lt x xs rule: insert_stable.induct) auto

lemma sort_stable_Nil [simp]: "sort_stable lt [] = []"
  by (simp add: sort_stable_def)

lemma sort_stable_Cons: "sort_stable lt (x # xs) = insert_stable lt x (sort_stable lt xs)"
  by (simp add: sort_stable_def)

lemma set_sort_stable [simp]: "set (sort_stable lt xs) = set xs"
  by (induction xs) (auto simp: sort_stable_Cons)

lemma length_sort_stable [simp]: "length (sort_stable lt xs) = length xs"
  by (induction xs) (auto simp: sort_stable_Cons)

lemma sort_stable_eq_Nil [simp]: "sort_stable lt xs = [] \<longleftrightarrow> xs = []"
  by (metis length_0_conv length_sort_stable)

lemma insert_stable_key:
  fixes f :: "'a \<Rightarrow> 'b :: linorder"
  shows "insert_stable (\<lambda>a b. f a < f b) x xs = insort_key f x xs"
  by (induction xs) (auto simp: not_less)

lemma sort_stable_key:
  fixes f :: "'a \<Rightarrow> 'b :: linorder"
  shows "sort_stable (\<lambda>a b. f a < f b) xs = sort_key f xs"
  by (induction xs) (simp_all add: sort_stable_Cons insert_stable_key sort_key_def)

text \<open>
  With a comparison that is the strict part of a total preorder, no later element of the
  sorted list is less than an earlier one.
\<close>

definition strict_weak :: "('a \<Rightarrow> 'a \<Rightarrow> bool) \<Rightarrow> bool" where
  "strict_weak lt \<longleftrightarrow>
     (\<forall>a b. lt a b \<longrightarrow> \<not> lt b a) \<and> (\<forall>a b c. \<not> lt b a \<and> \<not> lt c b \<longrightarrow> \<not> lt c a)"

lemma strict_weak_asym: "strict_weak lt \<Longrightarrow> lt a b \<Longrightarrow> \<not> lt b a"
  unfolding strict_weak_def by blast

lemma strict_weak_trans: "strict_weak lt \<Longrightarrow> \<not> lt b a \<Longrightarrow> \<not> lt c b \<Longrightarrow> \<not> lt c a"
  unfolding strict_weak_def by blast

lemma sorted_insert_stable:
  assumes sw: "strict_weak lt" and "sorted_wrt (\<lambda>a b. \<not> lt b a) xs"
  shows "sorted_wrt (\<lambda>a b. \<not> lt b a) (insert_stable lt x xs)"
  using assms(2)
proof (induction xs)
  case Nil
  then show ?case by simp
next
  case (Cons y ys)
  show ?case
  proof (cases "lt y x")
    case True
    then have "\<not> lt x y" by (rule strict_weak_asym [OF sw])
    with True Cons show ?thesis by simp
  next
    case False
    have "\<forall>z \<in> set ys. \<not> lt z x"
      using Cons.prems False strict_weak_trans [OF sw, of y x] by simp
    with False Cons.prems show ?thesis by simp
  qed
qed

lemma sorted_sort_stable:
  "strict_weak lt \<Longrightarrow> sorted_wrt (\<lambda>a b. \<not> lt b a) (sort_stable lt xs)"
  by (induction xs) (simp_all add: sort_stable_Cons sorted_insert_stable)

lemma hd_sort_stable_least:
  assumes "strict_weak lt" and "y \<in> set xs"
  shows "\<not> lt y (hd (sort_stable lt xs))"
proof (cases "sort_stable lt xs")
  case Nil
  with assms(2) show ?thesis by simp
next
  case (Cons z zs)
  have "sorted_wrt (\<lambda>a b. \<not> lt b a) (z # zs)"
    using sorted_sort_stable [OF assms(1), of xs] Cons by simp
  moreover have "y \<in> set (z # zs)"
    using assms(2) Cons by (metis set_sort_stable)
  moreover have "\<not> lt z z" using strict_weak_asym [OF assms(1)] by blast
  ultimately show ?thesis using Cons by auto
qed

subsection \<open>The contract of a de-duplicating normalisation\<close>

text \<open>
  Several operations turn a list into the sorted list of its distinct usable elements, after
  cleaning each one (\<open>strings.TrimSpace\<close>, for example). \<open>norm\<close> is the operation, \<open>clean\<close>
  what it does to an element and \<open>keep\<close> which cleaned elements it keeps.
\<close>

locale sorted_set_norm =
  fixes norm :: "'a :: linorder list \<Rightarrow> 'a list"
    and clean :: "'a \<Rightarrow> 'a"
    and keep :: "'a \<Rightarrow> bool"
  assumes norm_set: "set (norm xs) = {y \<in> clean ` set xs. keep y}"
    and norm_sorted: "sorted (norm xs)"
    and norm_distinct: "distinct (norm xs)"
    and clean_idem: "clean (clean x) = clean x"
begin

lemma strictly_sorted: "sorted_wrt (<) (norm xs)"
  using norm_sorted norm_distinct by (simp add: strict_sorted_iff)

lemma determined_by_set:
  "{y \<in> clean ` set xs. keep y} = {y \<in> clean ` set ys. keep y} \<Longrightarrow> norm xs = norm ys"
  by (metis norm_set norm_sorted norm_distinct sorted_distinct_set_unique)

lemma order_irrelevant: "set xs = set ys \<Longrightarrow> norm xs = norm ys"
  by (rule determined_by_set) simp

lemma is_sorted_list_of_set: "norm xs = sorted_list_of_set {y \<in> clean ` set xs. keep y}"
  by (metis norm_set norm_sorted norm_distinct sorted_list_of_set.idem_if_sorted_distinct)

lemma idempotent: "norm (norm xs) = norm xs"
proof (rule determined_by_set)
  have "clean ` {y \<in> clean ` set xs. keep y} = {y \<in> clean ` set xs. keep y}"
    by (auto simp: clean_idem image_iff) (metis clean_idem)
  then show "{y \<in> clean ` set (norm xs). keep y} = {y \<in> clean ` set xs. keep y}"
    by (auto simp: norm_set)
qed

lemma length_le: "length (norm xs) \<le> length xs"
proof -
  have "length (norm xs) = card {y \<in> clean ` set xs. keep y}"
    by (metis norm_set norm_distinct distinct_card)
  also have "\<dots> \<le> card (clean ` set xs)" by (rule card_mono) auto
  also have "\<dots> \<le> card (set xs)" by (rule card_image_le) simp
  also have "\<dots> \<le> length xs" by (rule card_length)
  finally show ?thesis .
qed

end

text \<open>The common body: keep, remove duplicates, sort. Every instance below has this shape.\<close>

definition sorted_uniq :: "'a :: linorder list \<Rightarrow> 'a list" where
  "sorted_uniq xs = sort (uniq xs)"

lemma set_sorted_uniq [simp]: "set (sorted_uniq xs) = set xs"
  by (simp add: sorted_uniq_def)

lemma sorted_sorted_uniq [simp]: "sorted (sorted_uniq xs)"
  by (simp add: sorted_uniq_def)

lemma distinct_sorted_uniq [simp]: "distinct (sorted_uniq xs)"
  by (simp add: sorted_uniq_def)

end
