(* ===== verification/GoText.thy ===== *)
theory GoText
  imports Prelude
begin

text \<open>
  The parts of Go's \<open>strings\<close>, \<open>unicode\<close> and \<open>unicode/utf8\<close> packages that the code uses,
  on byte strings, and the model of \<open>internal/textutil\<close>.

  A string is decoded into its runes, each given by the bytes that encode it
  (\<open>runes\<close>); a byte that starts no valid encoding is a chunk of its own, which is Go's
  \<open>RuneError\<close> of width 1. Case mapping is exact on ASCII and on the four other runes whose
  lower-case, upper-case or folded form is ASCII, so every comparison of a mapped string with
  an ASCII constant (the only use the modelled code makes of it, apart from keeping the mapped
  text) is decided as Go decides it; other runes are kept as they are.
\<close>

subsection \<open>Bytes and runes\<close>

abbreviation byte_of :: "char \<Rightarrow> nat" where
  "byte_of c \<equiv> of_char c"

definition cont_byte :: "char \<Rightarrow> bool" where
  "cont_byte c \<longleftrightarrow> 128 \<le> byte_of c \<and> byte_of c \<le> 191"

text \<open>\<open>utf8.RuneStart\<close>\<close>
definition rune_start :: "char \<Rightarrow> bool" where
  "rune_start c \<longleftrightarrow> \<not> cont_byte c"

text \<open>The number of continuation bytes that follow the first byte of the rune; 0 for an
  ASCII byte and for a byte that starts no valid encoding.\<close>

definition second_ok :: "nat \<Rightarrow> char \<Rightarrow> bool" where
  "second_ok b0 c \<longleftrightarrow>
     (if b0 = 224 then 160 \<le> byte_of c \<and> byte_of c \<le> 191
      else if b0 = 237 then 128 \<le> byte_of c \<and> byte_of c \<le> 159
      else if b0 = 240 then 144 \<le> byte_of c \<and> byte_of c \<le> 191
      else if b0 = 244 then 128 \<le> byte_of c \<and> byte_of c \<le> 143
      else cont_byte c)"

fun rune_tail :: "char \<Rightarrow> string \<Rightarrow> nat" where
  "rune_tail c cs =
     (let b0 = byte_of c in
      if 194 \<le> b0 \<and> b0 \<le> 223 then
        (case cs of c1 # _ \<Rightarrow> if cont_byte c1 then 1 else 0 | [] \<Rightarrow> 0)
      else if 224 \<le> b0 \<and> b0 \<le> 239 then
        (case cs of c1 # c2 # _ \<Rightarrow> if second_ok b0 c1 \<and> cont_byte c2 then 2 else 0 | _ \<Rightarrow> 0)
      else if 240 \<le> b0 \<and> b0 \<le> 244 then
        (case cs of c1 # c2 # c3 # _ \<Rightarrow>
             if second_ok b0 c1 \<and> cont_byte c2 \<and> cont_byte c3 then 3 else 0
         | _ \<Rightarrow> 0)
      else 0)"

declare rune_tail.simps [simp del]

fun runes :: "string \<Rightarrow> string list" where
  "runes [] = []"
| "runes (c # cs) = (c # take (rune_tail c cs) cs) # runes (drop (rune_tail c cs) cs)"

lemma concat_runes [simp]: "concat (runes s) = s"
  by (induction s rule: runes.induct) auto

text \<open>A chunk that is the complete encoding of one rune.\<close>

definition valid_rune :: "string \<Rightarrow> bool" where
  "valid_rune r \<longleftrightarrow>
     (case r of [] \<Rightarrow> False
      | c # cs \<Rightarrow> (byte_of c < 128 \<and> cs = []) \<or> (cs \<noteq> [] \<and> rune_tail c cs = length cs))"

text \<open>\<open>utf8.ValidString\<close>\<close>
definition valid_utf8 :: "string \<Rightarrow> bool" where
  "valid_utf8 s \<longleftrightarrow> list_all valid_rune (runes s)"

lemma rune_tail_append:
  "rune_tail c cs \<noteq> 0 \<Longrightarrow> rune_tail c (cs @ ds) = rune_tail c cs"
  by (auto simp: rune_tail.simps Let_def split: list.splits if_splits)

lemma rune_tail_ascii: "byte_of c < 128 \<Longrightarrow> rune_tail c cs = 0"
  by (simp add: rune_tail.simps)

lemma second_ok_cont: "second_ok b c \<Longrightarrow> cont_byte c"
  by (auto simp: second_ok_def cont_byte_def split: if_splits)

lemma rune_tail_le: "rune_tail c cs \<le> length cs"
  by (auto simp: rune_tail.simps Let_def split: list.splits)

lemma rune_tail_cont: "i < rune_tail c cs \<Longrightarrow> cont_byte (cs ! i)"
  by (auto simp: rune_tail.simps Let_def less_Suc_eq numeral_2_eq_2 numeral_3_eq_3
      split: list.splits if_splits dest: second_ok_cont)

lemma rune_tail_start: "cont_byte c \<Longrightarrow> rune_tail c cs = 0"
  by (auto simp: rune_tail.simps Let_def cont_byte_def)

lemma runes_append:
  assumes "valid_rune r"
  shows "runes (r @ s) = r # runes s"
proof (cases r)
  case Nil
  with assms show ?thesis by (simp add: valid_rune_def)
next
  case (Cons c cs)
  with assms have "rune_tail c (cs @ s) = length cs"
    by (auto simp: valid_rune_def rune_tail_ascii rune_tail_append)
  with Cons show ?thesis by simp
qed

lemma runes_concat: "list_all valid_rune rs \<Longrightarrow> runes (concat rs) = rs"
  by (induction rs) (simp_all add: runes_append)

lemma valid_utf8_concat: "list_all valid_rune rs \<Longrightarrow> valid_utf8 (concat rs)"
  by (simp add: valid_utf8_def runes_concat)

lemma valid_utf8_Nil [simp]: "valid_utf8 []"
  by (simp add: valid_utf8_def)

lemma valid_utf8_obtain:
  assumes "valid_utf8 s"
  obtains rs where "list_all valid_rune rs" and "s = concat rs"
  using assms that [of "runes s"] by (simp add: valid_utf8_def)

lemma valid_utf8_append:
  assumes "valid_utf8 s" and "valid_utf8 t"
  shows "valid_utf8 (s @ t)"
proof -
  obtain rs where rs: "list_all valid_rune rs" "s = concat rs"
    using assms(1) by (rule valid_utf8_obtain)
  obtain ts where ts: "list_all valid_rune ts" "t = concat ts"
    using assms(2) by (rule valid_utf8_obtain)
  have "valid_utf8 (concat (rs @ ts))"
    using rs(1) ts(1) by (intro valid_utf8_concat) simp
  with rs(2) ts(2) show ?thesis by simp
qed

lemma valid_utf8_ascii: "(\<And>c. c \<in> set s \<Longrightarrow> byte_of c < 128) \<Longrightarrow> valid_utf8 s"
proof (induction s)
  case (Cons c s)
  have "valid_rune [c]" using Cons.prems [of c] by (simp add: valid_rune_def)
  moreover have "valid_utf8 s" using Cons by simp
  ultimately show ?case
    using valid_utf8_append [of "[c]" s] by (simp add: valid_utf8_def rune_tail_ascii valid_rune_def)
qed simp

text \<open>Every byte of a rune after its first is a continuation byte, the first is not.\<close>

lemma valid_rune_parts:
  assumes "valid_rune r"
  shows "r \<noteq> []" and "rune_start (hd r)" and "\<forall>c \<in> set (tl r). cont_byte c"
proof -
  obtain c cs where r: "r = c # cs" using assms by (cases r) (auto simp: valid_rune_def)
  show "r \<noteq> []" using r by simp
  have tail: "cs = [] \<and> byte_of c < 128 \<or> cs \<noteq> [] \<and> rune_tail c cs = length cs"
    using assms r by (auto simp: valid_rune_def)
  then have "\<not> cont_byte c"
    using rune_tail_start [of c cs] by (auto simp: cont_byte_def)
  then show "rune_start (hd r)" using r by (simp add: rune_start_def)
  have "cont_byte (cs ! i)" if "i < length cs" for i
    using tail that rune_tail_cont [of i c cs] by auto
  then show "\<forall>c \<in> set (tl r). cont_byte c" using r by (auto simp: in_set_conv_nth)
qed

text \<open>A cut in front of a rune start falls between two runes.\<close>

lemma cut_at_rune_start:
  assumes "list_all valid_rune rs" and "n \<le> length (concat rs)"
    and "n < length (concat rs) \<Longrightarrow> rune_start (concat rs ! n)"
  shows "\<exists>k. take n (concat rs) = concat (take k rs)"
  using assms
proof (induction rs arbitrary: n)
  case Nil
  then show ?case by simp
next
  case (Cons r rs)
  from Cons.prems(1) have r: "valid_rune r" and rs: "list_all valid_rune rs" by simp_all
  consider "n = 0" | "0 < n" "n < length r" | "length r \<le> n" by linarith
  then show ?case
  proof cases
    case 1
    then show ?thesis by (intro exI [of _ 0]) simp
  next
    case 2
    then have eq: "concat (r # rs) ! n = tl r ! (n - 1)"
      using valid_rune_parts(1) [OF r] by (cases r) (auto simp: nth_append nth_Cons')
    have "cont_byte (tl r ! (n - 1))"
      using 2 valid_rune_parts(3) [OF r] by (simp add: nth_mem)
    moreover have "rune_start (tl r ! (n - 1))"
      using Cons.prems(3) 2 eq by simp
    ultimately show ?thesis by (simp add: rune_start_def)
  next
    case 3
    have "\<exists>k. take (n - length r) (concat rs) = concat (take k rs)"
      using Cons.prems 3 rs by (intro Cons.IH) (auto simp: nth_append)
    then obtain k where "take (n - length r) (concat rs) = concat (take k rs)" ..
    with 3 show ?thesis by (intro exI [of _ "Suc k"]) simp
  qed
qed

lemma valid_utf8_take:
  assumes "valid_utf8 s" and "n < length s \<Longrightarrow> rune_start (s ! n)"
  shows "valid_utf8 (take n s)"
proof (cases "n \<le> length s")
  case True
  obtain rs where rs: "list_all valid_rune rs" "s = concat rs"
    using assms(1) by (rule valid_utf8_obtain)
  from cut_at_rune_start [of rs n] obtain k where "take n s = concat (take k rs)"
    using rs True assms(2) by auto
  moreover have "list_all valid_rune (take k rs)"
    using rs(1) by (metis append_take_drop_id list_all_append)
  ultimately show ?thesis by (simp add: valid_utf8_concat)
next
  case False
  with assms(1) show ?thesis by simp
qed

subsection \<open>Classes of runes\<close>

text \<open>\<open>unicode.IsControl\<close>: the runes up to U+001F and U+007F to U+009F.\<close>

definition is_control :: "string \<Rightarrow> bool" where
  "is_control r \<longleftrightarrow>
     (case map byte_of r of
        [b] \<Rightarrow> b < 32 \<or> b = 127
      | [b0, b1] \<Rightarrow> b0 = 194 \<and> b1 \<le> 159
      | _ \<Rightarrow> False)"

text \<open>\<open>strings.IndexFunc(s, unicode.IsControl) >= 0\<close>\<close>
definition has_control :: "string \<Rightarrow> bool" where
  "has_control s \<longleftrightarrow> list_ex is_control (runes s)"

text \<open>\<open>unicode.IsSpace\<close>\<close>
definition is_space :: "string \<Rightarrow> bool" where
  "is_space r \<longleftrightarrow>
     (case map byte_of r of
        [b] \<Rightarrow> (9 \<le> b \<and> b \<le> 13) \<or> b = 32
      | [b0, b1] \<Rightarrow> b0 = 194 \<and> (b1 = 133 \<or> b1 = 160)
      | [b0, b1, b2] \<Rightarrow>
          (b0 = 225 \<and> b1 = 154 \<and> b2 = 128) \<or>
          (b0 = 226 \<and> b1 = 128 \<and> ((128 \<le> b2 \<and> b2 \<le> 138) \<or> b2 = 168 \<or> b2 = 169 \<or> b2 = 175)) \<or>
          (b0 = 226 \<and> b1 = 129 \<and> b2 = 159) \<or>
          (b0 = 227 \<and> b1 = 128 \<and> b2 = 128)
      | _ \<Rightarrow> False)"

text \<open>\<open>strings.TrimSpace\<close>\<close>
definition trim_space :: "string \<Rightarrow> string" where
  "trim_space s = concat (rev (dropWhile is_space (rev (dropWhile is_space (runes s)))))"

text \<open>\<open>strings.Fields\<close>: the maximal runs of runes that are not spaces.\<close>

fun fields_from :: "string \<Rightarrow> string list \<Rightarrow> string list" where
  "fields_from acc [] = (if acc = [] then [] else [acc])"
| "fields_from acc (r # rs) =
     (if is_space r then (if acc = [] then fields_from [] rs else acc # fields_from [] rs)
      else fields_from (acc @ r) rs)"

definition split_fields :: "string \<Rightarrow> string list" where
  "split_fields s = fields_from [] (runes s)"

subsection \<open>Case\<close>

definition lower_char :: "char \<Rightarrow> char" where
  "lower_char c = (if 65 \<le> byte_of c \<and> byte_of c \<le> 90 then char_of (byte_of c + 32) else c)"

definition upper_char :: "char \<Rightarrow> char" where
  "upper_char c = (if 97 \<le> byte_of c \<and> byte_of c \<le> 122 then char_of (byte_of c - 32) else c)"

definition rune_error :: string where
  "rune_error = [CHR 0xEF, CHR 0xBF, CHR 0xBD]"

text \<open>\<open>strings.Map\<close> re-encodes an invalid byte as U+FFFD.\<close>

definition lower_rune :: "string \<Rightarrow> string" where
  "lower_rune r =
     (if \<not> valid_rune r then rune_error
      else if r = [CHR 0xC4, CHR 0xB0] then ''i''
      else if r = [CHR 0xE2, CHR 0x84, CHR 0xAA] then ''k''
      else map lower_char r)"

definition upper_rune :: "string \<Rightarrow> string" where
  "upper_rune r =
     (if \<not> valid_rune r then rune_error
      else if r = [CHR 0xC4, CHR 0xB1] then ''I''
      else if r = [CHR 0xC5, CHR 0xBF] then ''S''
      else map upper_char r)"

definition fold_rune :: "string \<Rightarrow> string" where
  "fold_rune r =
     (if \<not> valid_rune r then rune_error
      else if r = [CHR 0xE2, CHR 0x84, CHR 0xAA] then ''k''
      else if r = [CHR 0xC5, CHR 0xBF] then ''s''
      else map lower_char r)"

definition to_lower :: "string \<Rightarrow> string" where
  "to_lower s = concat (map lower_rune (runes s))"

definition to_upper :: "string \<Rightarrow> string" where
  "to_upper s = concat (map upper_rune (runes s))"

lemma runes_ascii: "\<forall>c \<in> set s. byte_of c < 128 \<Longrightarrow> runes s = map (\<lambda>c. [c]) s"
  by (induction s) (simp_all add: rune_tail_ascii)

lemma drop_none: "(\<forall>x \<in> set xs. \<not> P x) \<Longrightarrow> dropWhile P xs = xs"
  by (cases xs) auto

lemma trim_space_plain:
  assumes "\<forall>c \<in> set s. 32 < byte_of c \<and> byte_of c < 128"
  shows "trim_space s = s"
proof -
  have r: "runes s = map (\<lambda>c. [c]) s" using assms by (intro runes_ascii) auto
  have "\<forall>x \<in> set (map (\<lambda>c. [c]) s). \<not> is_space x"
    using assms by (auto simp: is_space_def)
  then have "dropWhile is_space (map (\<lambda>c. [c]) s) = map (\<lambda>c. [c]) s"
    and "dropWhile is_space (rev (map (\<lambda>c. [c]) s)) = rev (map (\<lambda>c. [c]) s)"
    by (auto simp del: set_map intro!: drop_none)
  then show ?thesis by (simp add: trim_space_def r concat_map_singleton)
qed

text \<open>Trimming keeps a run of the runes, so it can be repeated and adds nothing.\<close>

lemma rune_tail_take: "rune_tail c cs \<noteq> 0 \<Longrightarrow> rune_tail c (take (rune_tail c cs) cs) = rune_tail c cs"
  by (auto simp: rune_tail.simps Let_def numeral_2_eq_2 numeral_3_eq_3 split: list.splits if_splits)

lemma rune_tail_prefix:
  assumes "drop (rune_tail c cs) cs = ds @ es"
  shows "rune_tail c (take (rune_tail c cs) cs @ ds) = rune_tail c cs"
proof (cases "rune_tail c cs = 0")
  case True
  with assms show ?thesis using rune_tail_append [of c ds es] by fastforce
next
  case False
  then have "rune_tail c (take (rune_tail c cs) cs) = rune_tail c cs" by (rule rune_tail_take)
  with False show ?thesis using rune_tail_append [of c "take (rune_tail c cs) cs" ds] by simp
qed

lemma runes_take: "runes (concat (take k (runes s))) = take k (runes s)"
proof (induction s arbitrary: k rule: runes.induct)
  case (2 c cs)
  show ?case
  proof (cases k)
    case (Suc k')
    let ?t = "rune_tail c cs"
    let ?r = "concat (take k' (runes (drop ?t cs)))"
    have "drop ?t cs = ?r @ concat (drop k' (runes (drop ?t cs)))"
      by (metis append_take_drop_id concat_append concat_runes)
    then have "rune_tail c (take ?t cs @ ?r) = ?t" by (rule rune_tail_prefix)
    moreover have "length (take ?t cs) = ?t" using rune_tail_le [of c cs] by simp
    ultimately show ?thesis using Suc 2 by simp
  qed simp
qed simp

lemma runes_drop: "runes (concat (drop k (runes s))) = drop k (runes s)"
proof (induction s arbitrary: k rule: runes.induct)
  case (2 c cs)
  then show ?case by (cases k) simp_all
qed simp

lemma dropWhile_is_drop: "\<exists>k. dropWhile P xs = drop k xs"
  by (metis dropWhile_eq_drop)

lemma runes_trim_left: "runes (concat (dropWhile P (runes s))) = dropWhile P (runes s)"
  using dropWhile_is_drop [of P "runes s"] runes_drop by metis

lemma runes_trim_right:
  assumes "runes (concat rs) = rs"
  shows "runes (concat (rev (dropWhile P (rev rs)))) = rev (dropWhile P (rev rs))"
proof -
  obtain k where "dropWhile P (rev rs) = drop k (rev rs)" using dropWhile_is_drop by blast
  then have "rev (dropWhile P (rev rs)) = take (length rs - k) rs" by (simp add: rev_drop)
  then show ?thesis using runes_take [of "length rs - k" "concat rs"] assms by simp
qed

lemma runes_trim_space:
  "runes (trim_space s) = rev (dropWhile is_space (rev (dropWhile is_space (runes s))))"
  unfolding trim_space_def by (rule runes_trim_right [OF runes_trim_left])

lemma dropWhile_again: "dropWhile P (dropWhile P xs) = dropWhile P xs"
  by (induction xs) simp_all

lemma length_concat_rev: "length (concat (rev xs)) = length (concat xs)"
  by (induction xs) simp_all

lemma trim_space_idem [simp]: "trim_space (trim_space s) = trim_space s"
proof -
  let ?l = "dropWhile is_space (runes s)"
  let ?m = "rev (dropWhile is_space (rev ?l))"
  have "dropWhile is_space ?m = ?m"
  proof (cases ?m)
    case (Cons r rs)
    have "?l \<noteq> []" using Cons by (metis dropWhile.simps(1) list.discI rev.simps(1))
    moreover have "hd ?m = hd ?l"
    proof -
      obtain k where k: "dropWhile is_space (rev ?l) = drop k (rev ?l)" using dropWhile_is_drop by blast
      then have m: "?m = take (length ?l - k) ?l" by (simp add: rev_drop)
      with Cons show ?thesis by (metis hd_take list.discI take_eq_Nil not_gr_zero)
    qed
    ultimately have "\<not> is_space (hd ?m)" by (metis hd_dropWhile)
    with Cons show ?thesis by simp
  next
    case Nil
    then show ?thesis by (simp only: dropWhile.simps)
  qed
  then show ?thesis
    unfolding trim_space_def [of "trim_space s"] runes_trim_space
    by (simp add: trim_space_def dropWhile_again)
qed

lemma trim_space_subset: "set (runes (trim_space s)) \<subseteq> set (runes s)"
  unfolding runes_trim_space by (auto dest!: set_dropWhileD)

lemma length_trim_space: "length (trim_space s) \<le> length s"
proof -
  obtain k where k: "dropWhile is_space (runes s) = drop k (runes s)" using dropWhile_is_drop by blast
  obtain j where j: "dropWhile is_space (rev (drop k (runes s))) = drop j (rev (drop k (runes s)))"
    using dropWhile_is_drop by blast
  have le: "length (concat (drop k xs)) \<le> length (concat xs)" for k and xs :: "string list"
    by (metis append_take_drop_id concat_append length_append le_add2)
  have "length (trim_space s) = length (concat (drop j (rev (drop k (runes s)))))"
    unfolding trim_space_def k j by (rule length_concat_rev)
  also have "\<dots> \<le> length (concat (rev (drop k (runes s))))" by (rule le)
  also have "\<dots> = length (concat (drop k (runes s)))" by (rule length_concat_rev)
  also have "\<dots> \<le> length s" using le [of k "runes s"] by simp
  finally show ?thesis .
qed

lemma valid_utf8_trim_space: "valid_utf8 s \<Longrightarrow> valid_utf8 (trim_space s)"
  unfolding valid_utf8_def list_all_iff using trim_space_subset by blast

lemma has_control_trim_space: "\<not> has_control s \<Longrightarrow> \<not> has_control (trim_space s)"
  unfolding has_control_def list_ex_iff using trim_space_subset by blast

lemma runes_append_ascii:
  assumes "byte_of c < 128"
  shows "runes (s @ c # t) = runes s @ [c] # runes t"
proof (induction s rule: runes.induct)
  case 1
  show ?case using assms by (simp add: rune_tail_ascii)
next
  case (2 b cs)
  have not_cont: "\<not> cont_byte c" using assms by (simp add: cont_byte_def)
  have "rune_tail b (cs @ c # t) = rune_tail b cs"
  proof (cases "rune_tail b (cs @ c # t) \<le> length cs")
    case True
    let ?n = "rune_tail b (cs @ c # t)"
    show ?thesis
    proof (cases "?n = 0")
      case True
      then show ?thesis using rune_tail_append [of b cs "c # t"] by fastforce
    next
      case False
      then have "rune_tail b (take ?n cs) = ?n" using rune_tail_take [OF False] True by simp
      with False rune_tail_append [of b "take ?n cs" "drop ?n cs"] show ?thesis by simp
    qed
  next
    case False
    then have "cont_byte ((cs @ c # t) ! length cs)" by (intro rune_tail_cont [of _ b]) simp
    with not_cont show ?thesis by simp
  qed
  with 2 rune_tail_le [of b cs] show ?case by simp
qed

lemma trim_space_ends:
  assumes "byte_of b < 128" "\<not> is_space [b]" "byte_of c < 128" "\<not> is_space [c]"
  shows "trim_space (b # s @ [c]) = b # s @ [c]"
proof -
  have r: "runes (b # s @ [c]) = [b] # runes s @ [[c]]"
    using runes_append_ascii [OF assms(3), of s "[]"] assms(1) by (simp add: rune_tail_ascii)
  show ?thesis unfolding trim_space_def r using assms by simp
qed

lemma concat_ascii:
  assumes "\<forall>c \<in> set s. byte_of c < 128"
  shows "concat (filter P (runes s)) = filter (\<lambda>c. P [c]) s"
  unfolding runes_ascii [OF assms] by (induction s) simp_all

lemma lower_rune_ascii: "byte_of c < 128 \<Longrightarrow> lower_rune [c] = [lower_char c]"
  by (simp add: lower_rune_def valid_rune_def)

lemma to_lower_ascii: "\<forall>c \<in> set s. byte_of c < 128 \<Longrightarrow> to_lower s = map lower_char s"
  by (induction s) (simp_all add: to_lower_def runes_ascii lower_rune_ascii rune_tail_ascii)

lemma byte_of_char_of: "n < 256 \<Longrightarrow> byte_of (char_of n :: char) = n"
  by simp

lemma lower_char_ascii: "byte_of c < 128 \<Longrightarrow> byte_of (lower_char c) < 128"
  by (auto simp: lower_char_def)

lemma lower_char_idem: "lower_char (lower_char c) = lower_char c"
  by (auto simp: lower_char_def)

lemma to_lower_idem_ascii:
  "\<forall>c \<in> set s. byte_of c < 128 \<Longrightarrow> to_lower (to_lower s) = to_lower s"
  by (simp add: to_lower_ascii lower_char_ascii lower_char_idem)

text \<open>\<open>strings.EqualFold\<close>\<close>
definition equal_fold :: "string \<Rightarrow> string \<Rightarrow> bool" where
  "equal_fold s t \<longleftrightarrow> map fold_rune (runes s) = map fold_rune (runes t)"

lemma equal_fold_refl [simp]: "equal_fold s s"
  by (simp add: equal_fold_def)

lemma equal_fold_sym: "equal_fold s t \<Longrightarrow> equal_fold t s"
  by (simp add: equal_fold_def)

lemma equal_fold_trans: "equal_fold s t \<Longrightarrow> equal_fold t u \<Longrightarrow> equal_fold s u"
  by (simp add: equal_fold_def)

subsection \<open>Searching and splitting by bytes\<close>

definition has_prefix :: "string \<Rightarrow> string \<Rightarrow> bool" where
  "has_prefix s p \<longleftrightarrow> take (length p) s = p"

definition has_suffix :: "string \<Rightarrow> string \<Rightarrow> bool" where
  "has_suffix s p \<longleftrightarrow> length p \<le> length s \<and> drop (length s - length p) s = p"

definition trim_prefix :: "string \<Rightarrow> string \<Rightarrow> string" where
  "trim_prefix s p = (if has_prefix s p then drop (length p) s else s)"

definition trim_suffix :: "string \<Rightarrow> string \<Rightarrow> string" where
  "trim_suffix s p = (if has_suffix s p then take (length s - length p) s else s)"

fun contains :: "string \<Rightarrow> string \<Rightarrow> bool" where
  "contains [] p \<longleftrightarrow> p = []"
| "contains (c # cs) p \<longleftrightarrow> has_prefix (c # cs) p \<or> contains cs p"

text \<open>\<open>strings.ContainsAny\<close> for a set of ASCII bytes.\<close>
definition contains_any :: "string \<Rightarrow> string \<Rightarrow> bool" where
  "contains_any s cs \<longleftrightarrow> list_ex (\<lambda>c. c \<in> set cs) s"

text \<open>The index of the first byte that satisfies a predicate (\<open>IndexByte\<close>, \<open>IndexAny\<close>).\<close>

fun index_of :: "(char \<Rightarrow> bool) \<Rightarrow> string \<Rightarrow> nat option" where
  "index_of p [] = None"
| "index_of p (c # cs) = (if p c then Some 0 else map_option Suc (index_of p cs))"

definition last_index_of :: "(char \<Rightarrow> bool) \<Rightarrow> string \<Rightarrow> nat option" where
  "last_index_of p s = map_option (\<lambda>i. length s - Suc i) (index_of p (rev s))"

text \<open>\<open>strings.Cut\<close> and \<open>strings.Split\<close> at a one-byte separator.\<close>

fun cut :: "char \<Rightarrow> string \<Rightarrow> string \<times> string \<times> bool" where
  "cut sep s =
     (case index_of (\<lambda>c. c = sep) s of
        None \<Rightarrow> (s, [], False)
      | Some i \<Rightarrow> (take i s, drop (Suc i) s, True))"

fun split_from :: "char \<Rightarrow> string \<Rightarrow> string \<Rightarrow> string list" where
  "split_from sep acc [] = [acc]"
| "split_from sep acc (c # cs) =
     (if c = sep then acc # split_from sep [] cs else split_from sep (acc @ [c]) cs)"

definition split :: "char \<Rightarrow> string \<Rightarrow> string list" where
  "split sep s = split_from sep [] s"

fun join :: "string \<Rightarrow> string list \<Rightarrow> string" where
  "join sep [] = []"
| "join sep [x] = x"
| "join sep (x # y # xs) = x @ sep @ join sep (y # xs)"

text \<open>\<open>strings.ReplaceAll(s, string(c), "")\<close>\<close>
definition remove_byte :: "char \<Rightarrow> string \<Rightarrow> string" where
  "remove_byte c s = filter (\<lambda>x. x \<noteq> c) s"

text \<open>\<open>strings.ToLower(strings.ReplaceAll(strings.ReplaceAll(key, "_", ""), "-", ""))\<close>,
  the compact form of a field name, which the code writes out in several places.\<close>

definition compact_name :: "string \<Rightarrow> string" where
  "compact_name s = to_lower (remove_byte (CHR ''-'') (remove_byte (CHR ''_'') s))"

lemma index_of_Some:
  "index_of p s = Some i \<Longrightarrow> i < length s \<and> p (s ! i) \<and> (\<forall>j < i. \<not> p (s ! j))"
proof (induction s arbitrary: i)
  case (Cons c cs)
  then show ?case by (auto simp: nth_Cons' less_Suc_eq_0_disj split: if_splits)
qed simp

lemma index_of_None: "index_of p s = None \<longleftrightarrow> (\<forall>c \<in> set s. \<not> p c)"
  by (induction s) auto

lemma index_of_append:
  "(\<forall>c \<in> set xs. \<not> p c) \<Longrightarrow> index_of p (xs @ ys) = map_option (\<lambda>i. length xs + i) (index_of p ys)"
  by (induction xs; cases "index_of p ys") auto

lemma split_from_join:
  "sep \<notin> set s \<Longrightarrow> split_from sep acc (s @ t) = split_from sep (acc @ s) t"
  by (induction s arbitrary: acc) auto

lemma split_join:
  assumes "xs \<noteq> []" and "\<forall>x \<in> set xs. sep \<notin> set x"
  shows "split sep (join [sep] xs) = xs"
  using assms
proof (induction "[sep]" xs rule: join.induct)
  case (2 x)
  then show ?case using split_from_join [of sep x "[]" "[]"] by (simp add: split_def)
next
  case (3 x y xs)
  then show ?case using split_from_join [of sep x "[]" "sep # join [sep] (y # xs)"]
    by (simp add: split_def)
qed simp

subsection \<open>internal/textutil\<close>

text \<open>The loop \<open>for cut > 0 && !utf8.RuneStart(value[cut]) { cut-- }\<close>.\<close>

fun rune_boundary :: "string \<Rightarrow> nat \<Rightarrow> nat" where
  "rune_boundary s 0 = 0"
| "rune_boundary s (Suc n) = (if rune_start (s ! Suc n) then Suc n else rune_boundary s n)"

definition ellipsis :: string where
  "ellipsis = [CHR 0xE2, CHR 0x80, CHR 0xA6]"

definition truncate_text :: "string \<Rightarrow> int \<Rightarrow> string" where
  "truncate_text s max_bytes =
     (if max_bytes \<le> 0 then []
      else if int (length s) \<le> max_bytes then s
      else if max_bytes < int (length ellipsis) then take (rune_boundary s (nat max_bytes)) s
      else take (rune_boundary s (nat max_bytes - length ellipsis)) s @ ellipsis)"

lemma rune_boundary_le: "rune_boundary s n \<le> n"
  by (induction n) auto

lemma rune_boundary_start:
  "rune_boundary s n = 0 \<or> rune_start (s ! rune_boundary s n)"
  by (induction n) auto

lemma length_ellipsis [simp]: "length ellipsis = 3"
  by (simp add: ellipsis_def)

lemma valid_ellipsis: "valid_utf8 ellipsis"
  by (simp add: valid_utf8_def ellipsis_def rune_tail.simps Let_def second_ok_def cont_byte_def
      valid_rune_def)

lemma truncate_text_length: "0 \<le> n \<Longrightarrow> int (length (truncate_text s n)) \<le> n"
  using rune_boundary_le [of s "nat n"] rune_boundary_le [of s "nat n - 3"]
  by (auto simp: truncate_text_def)

lemma truncate_text_valid:
  assumes "valid_utf8 s"
  shows "valid_utf8 (truncate_text s n)"
proof -
  have cut: "valid_utf8 (take (rune_boundary s k) s)" for k
    using rune_boundary_start [of s k] assms
    by (cases "rune_boundary s k = 0") (auto intro: valid_utf8_take)
  then show ?thesis
    using assms by (auto simp: truncate_text_def intro: valid_utf8_append valid_ellipsis)
qed

end
