(* ===== verification/GoJson.thy ===== *)
theory GoJson
  imports GoText
begin

text \<open>
  JSON values as \<open>encoding/json\<close> decodes them into \<open>any\<close>, and its encoder and decoder.

  An object (\<open>map[string]any\<close>) is the list of its members in strictly ascending key order,
  which is the order \<open>json.Marshal\<close> writes them in, so equal Go maps are equal values here.
  A \<open>float64\<close> is given by its shortest decimal form (sign, significant digits without leading
  or trailing zeros, and the position of the decimal point: \<open>0.d1d2... * 10^point\<close>), the form
  both \<open>strconv.FormatFloat(v, 'f', -1, 64)\<close> and the JSON encoder start from. The decoder reads
  a number literal as the decimal it denotes; this is the float's own shortest form for every
  literal the encoder writes, and for literals of at most 15 significant digits (a longer
  literal would be rounded to the nearest float first). The depth limit of the decoder
  (10000 levels) is not modelled.
\<close>

datatype float64 = F64 (float_neg: bool) (float_digits: "nat list") (float_point: int)

datatype json =
    JNull
  | JBool bool
  | JNum float64
  | JStr string
  | JArr "json list"
  | JObj "(string \<times> json) list"

type_synonym object = "(string \<times> json) list"

subsection \<open>Objects\<close>

definition obj_get :: "object \<Rightarrow> string \<Rightarrow> json option" where
  "obj_get m k = map_of m k"

fun obj_put :: "string \<Rightarrow> json \<Rightarrow> object \<Rightarrow> object" where
  "obj_put k v [] = [(k, v)]"
| "obj_put k v ((k', v') # m) =
     (if k < k' then (k, v) # (k', v') # m
      else if k = k' then (k, v) # m
      else (k', v') # obj_put k v m)"

definition obj_delete :: "string \<Rightarrow> object \<Rightarrow> object" where
  "obj_delete k m = filter (\<lambda>(k', _). k' \<noteq> k) m"

definition obj_keys :: "object \<Rightarrow> string list" where
  "obj_keys m = map fst m"

definition obj_ok :: "object \<Rightarrow> bool" where
  "obj_ok m \<longleftrightarrow> sorted_wrt (<) (obj_keys m)"

lemma obj_keys_simps [simp]:
  "obj_keys [] = []" "obj_keys (e # m) = fst e # obj_keys m"
  by (simp_all add: obj_keys_def)

lemma obj_ok_simps [simp]:
  "obj_ok []" "obj_ok (e # m) \<longleftrightarrow> (\<forall>k \<in> set (obj_keys m). fst e < k) \<and> obj_ok m"
  by (auto simp: obj_ok_def)

lemma obj_put_keys: "set (obj_keys (obj_put k v m)) = insert k (set (obj_keys m))"
  by (induction k v m rule: obj_put.induct) auto

lemma obj_ok_put: "obj_ok m \<Longrightarrow> obj_ok (obj_put k v m)"
  by (induction k v m rule: obj_put.induct) (auto simp: obj_put_keys not_less intro: less_trans)

lemma obj_get_put: "obj_get (obj_put k v m) = (obj_get m)(k \<mapsto> v)"
  by (induction k v m rule: obj_put.induct) (auto simp: obj_get_def fun_eq_iff)

lemma obj_get_delete: "obj_get (obj_delete k m) = (obj_get m)(k := None)"
  by (induction m) (auto simp: obj_get_def obj_delete_def fun_eq_iff)

lemma obj_ok_delete: "obj_ok m \<Longrightarrow> obj_ok (obj_delete k m)"
  by (induction m) (auto simp: obj_delete_def obj_keys_def)

lemma obj_ok_distinct: "obj_ok m \<Longrightarrow> distinct (obj_keys m)"
  by (auto simp: obj_ok_def strict_sorted_iff)

lemma obj_put_last:
  "\<forall>k' \<in> set (obj_keys m). k' < k \<Longrightarrow> obj_put k v m = m @ [(k, v)]"
  by (induction m) auto

subsection \<open>Numbers\<close>

fun nat_digits :: "nat \<Rightarrow> nat list" where
  "nat_digits n = (if n < 10 then [n] else nat_digits (n div 10) @ [n mod 10])"

declare nat_digits.simps [simp del]

definition digit_char :: "nat \<Rightarrow> char" where
  "digit_char d = char_of (48 + d)"

definition nat_text :: "nat \<Rightarrow> string" where
  "nat_text n = map digit_char (nat_digits n)"

text \<open>\<open>strconv.FormatInt(n, 10)\<close>\<close>
definition int_text :: "int \<Rightarrow> string" where
  "int_text n = (if n < 0 then CHR ''-'' # nat_text (nat (- n)) else nat_text (nat n))"

text \<open>\<open>strconv.FormatFloat(v, 'f', -1, 64)\<close>\<close>
fun float_text :: "float64 \<Rightarrow> string" where
  "float_text (F64 neg ds p) =
     (if neg then ''-'' else '''') @
     (if 0 < p
      then map digit_char (take (nat p) ds) @ replicate (nat p - length ds) (CHR ''0'')
      else ''0'') @
     (if p < int (length ds)
      then CHR ''.'' # replicate (nat (- p)) (CHR ''0'') @ map digit_char (drop (nat p) ds)
      else [])"

text \<open>The encoder's format: fixed, or exponential below 1e-6 and from 1e21 on, with the
  exponent written without padding.\<close>
fun json_number :: "float64 \<Rightarrow> string" where
  "json_number (F64 neg ds p) =
     (if ds \<noteq> [] \<and> (p < - 5 \<or> 22 \<le> p)
      then (if neg then ''-'' else '''') @
           digit_char (hd ds) # (if tl ds = [] then [] else CHR ''.'' # map digit_char (tl ds)) @
           CHR ''e'' # (if p - 1 < 0 then CHR ''-'' else CHR ''+'') # nat_text (nat \<bar>p - 1\<bar>)
      else float_text (F64 neg ds p))"

subsection \<open>The encoder\<close>

definition hex_digit :: "nat \<Rightarrow> char" where
  "hex_digit d = (if d < 10 then char_of (48 + d) else char_of (87 + d))"

definition unicode_escape :: "nat \<Rightarrow> string" where
  "unicode_escape n =
     [CHR 0x5C, CHR ''u'', hex_digit (n div 4096 mod 16), hex_digit (n div 256 mod 16),
      hex_digit (n div 16 mod 16), hex_digit (n mod 16)]"

definition escape_rune :: "string \<Rightarrow> string" where
  "escape_rune r =
     (case r of
        [c] \<Rightarrow>
          (let b = byte_of c in
           if b = 34 \<or> b = 92 then [CHR 0x5C, c]
           else if b = 8 then [CHR 0x5C, CHR ''b'']
           else if b = 12 then [CHR 0x5C, CHR ''f'']
           else if b = 10 then [CHR 0x5C, CHR ''n'']
           else if b = 13 then [CHR 0x5C, CHR ''r'']
           else if b = 9 then [CHR 0x5C, CHR ''t'']
           else if b < 32 \<or> b = 60 \<or> b = 62 \<or> b = 38 then unicode_escape b
           else if 128 \<le> b then unicode_escape 65533
           else [c])
      | _ \<Rightarrow>
          if r = [CHR 0xE2, CHR 0x80, CHR 0xA8] then unicode_escape 8232
          else if r = [CHR 0xE2, CHR 0x80, CHR 0xA9] then unicode_escape 8233
          else r)"

definition escape_text :: "string \<Rightarrow> string" where
  "escape_text s = concat (map escape_rune (runes s))"

definition quote_text :: "string \<Rightarrow> string" where
  "quote_text s = CHR 0x22 # escape_text s @ [CHR 0x22]"

text \<open>\<open>json.Marshal\<close>\<close>

fun marshal :: "json \<Rightarrow> string"
  and marshal_items :: "json list \<Rightarrow> string"
  and marshal_members :: "object \<Rightarrow> string" where
  "marshal JNull = ''null''"
| "marshal (JBool b) = (if b then ''true'' else ''false'')"
| "marshal (JNum f) = json_number f"
| "marshal (JStr s) = quote_text s"
| "marshal (JArr xs) = ''['' @ marshal_items xs @ '']''"
| "marshal (JObj m) = ''{'' @ marshal_members m @ ''}''"
| "marshal_items [] = []"
| "marshal_items [x] = marshal x"
| "marshal_items (x # y # xs) = marshal x @ '','' @ marshal_items (y # xs)"
| "marshal_members [] = []"
| "marshal_members [(k, v)] = quote_text k @ '':'' @ marshal v"
| "marshal_members ((k, v) # e # m) =
     quote_text k @ '':'' @ marshal v @ '','' @ marshal_members (e # m)"

subsection \<open>The decoder\<close>

definition json_space :: "char \<Rightarrow> bool" where
  "json_space c \<longleftrightarrow> byte_of c = 32 \<or> byte_of c = 9 \<or> byte_of c = 10 \<or> byte_of c = 13"

definition skip_space :: "string \<Rightarrow> string" where
  "skip_space s = dropWhile json_space s"

definition is_digit :: "char \<Rightarrow> bool" where
  "is_digit c \<longleftrightarrow> 48 \<le> byte_of c \<and> byte_of c \<le> 57"

definition digit_val :: "char \<Rightarrow> nat" where
  "digit_val c = byte_of c - 48"

definition hex_val :: "char \<Rightarrow> nat option" where
  "hex_val c =
     (let b = byte_of c in
      if 48 \<le> b \<and> b \<le> 57 then Some (b - 48)
      else if 97 \<le> b \<and> b \<le> 102 then Some (b - 87)
      else if 65 \<le> b \<and> b \<le> 70 then Some (b - 55)
      else None)"

fun hex4 :: "string \<Rightarrow> nat option" where
  "hex4 [a, b, c, d] =
     (case (hex_val a, hex_val b, hex_val c, hex_val d) of
        (Some w, Some x, Some y, Some z) \<Rightarrow> Some (4096 * w + 256 * x + 16 * y + z)
      | _ \<Rightarrow> None)"
| "hex4 _ = None"

definition utf8_encode :: "nat \<Rightarrow> string" where
  "utf8_encode n =
     (if n < 128 then [char_of n]
      else if n < 2048 then [char_of (192 + n div 64), char_of (128 + n mod 64)]
      else if n < 65536 then
        [char_of (224 + n div 4096), char_of (128 + n div 64 mod 64), char_of (128 + n mod 64)]
      else
        [char_of (240 + n div 262144), char_of (128 + n div 4096 mod 64),
         char_of (128 + n div 64 mod 64), char_of (128 + n mod 64)])"

text \<open>The text of a \<open>\uXXXX\<close> escape and how many further bytes it takes: a surrogate half is
  combined with the escape that follows it, or is U+FFFD.\<close>

definition unescape_unicode :: "nat \<Rightarrow> string \<Rightarrow> string \<times> nat" where
  "unescape_unicode n rest =
     (if n < 55296 \<or> 57343 < n then (utf8_encode n, 0)
      else
        (case (take 2 rest, hex4 (take 4 (drop 2 rest))) of
           ([c, d], Some l) \<Rightarrow>
             if c = CHR 0x5C \<and> d = CHR ''u'' \<and> n < 56320 \<and> 56320 \<le> l \<and> l \<le> 57343
             then (utf8_encode (65536 + (n - 55296) * 1024 + (l - 56320)), 6)
             else (rune_error, 0)
         | _ \<Rightarrow> (rune_error, 0)))"

text \<open>A string literal after its opening quote: its value and the text after the closing one.\<close>

function parse_string :: "string \<Rightarrow> string \<Rightarrow> (string \<times> string) option" where
  "parse_string acc [] = None"
| "parse_string acc (c # cs) =
     (if c = CHR 0x22 then Some (acc, cs)
      else if c = CHR 0x5C then
        (case cs of
           [] \<Rightarrow> None
         | d # ds \<Rightarrow>
             if d = CHR 0x22 \<or> d = CHR 0x5C \<or> d = CHR ''/'' then parse_string (acc @ [d]) ds
             else if d = CHR ''b'' then parse_string (acc @ [CHR 0x08]) ds
             else if d = CHR ''f'' then parse_string (acc @ [CHR 0x0C]) ds
             else if d = CHR ''n'' then parse_string (acc @ [CHR 0x0A]) ds
             else if d = CHR ''r'' then parse_string (acc @ [CHR 0x0D]) ds
             else if d = CHR ''t'' then parse_string (acc @ [CHR 0x09]) ds
             else if d = CHR ''u'' then
               (case hex4 (take 4 ds) of
                  None \<Rightarrow> None
                | Some n \<Rightarrow>
                    (case unescape_unicode n (drop 4 ds) of
                       (t, k) \<Rightarrow> parse_string (acc @ t) (drop (4 + k) ds)))
             else None)
      else if byte_of c < 32 then None
      else if byte_of c < 128 then parse_string (acc @ [c]) cs
      else if rune_tail c cs = 0 then parse_string (acc @ rune_error) cs
      else parse_string (acc @ c # take (rune_tail c cs) cs) (drop (rune_tail c cs) cs))"
  by pat_completeness auto
termination
  by (relation "measure (\<lambda>(acc, s). length s)") auto

fun strip_zeros :: "nat list \<Rightarrow> nat \<times> nat list" where
  "strip_zeros [] = (0, [])"
| "strip_zeros (d # ds) = (if d = 0 then (case strip_zeros ds of (n, es) \<Rightarrow> (Suc n, es)) else (0, d # ds))"

text \<open>The decimal \<open>0.d1d2... * 10^p\<close> with its redundant zeros removed.\<close>
definition normal_float :: "bool \<Rightarrow> nat list \<Rightarrow> int \<Rightarrow> float64" where
  "normal_float neg ds p =
     (case strip_zeros ds of
        (n, es) \<Rightarrow>
          (let fs = rev (snd (strip_zeros (rev es)))
           in if fs = [] then F64 neg [] 0 else F64 neg fs (p - int n)))"

definition digits_value :: "nat list \<Rightarrow> nat" where
  "digits_value ds = foldl (\<lambda>n d. 10 * n + d) 0 ds"

definition parse_exponent :: "string \<Rightarrow> (int \<times> string) option" where
  "parse_exponent s =
     (case s of
        c # cs \<Rightarrow>
          if c = CHR ''e'' \<or> c = CHR ''E'' then
            (let (neg, t) =
               (case cs of
                  d # ds \<Rightarrow> if d = CHR ''-'' then (True, ds) else if d = CHR ''+'' then (False, ds) else (False, cs)
                | [] \<Rightarrow> (False, cs));
               x = takeWhile is_digit t
             in if x = [] then None
                else Some ((if neg then - 1 else 1) * int (digits_value (map digit_val x)), dropWhile is_digit t))
          else Some (0, s)
      | [] \<Rightarrow> Some (0, s))"

definition parse_fraction :: "string \<Rightarrow> (nat list \<times> string) option" where
  "parse_fraction s =
     (case s of
        c # cs \<Rightarrow>
          if c = CHR ''.'' then
            (let x = takeWhile is_digit cs
             in if x = [] then None else Some (map digit_val x, dropWhile is_digit cs))
          else Some ([], s)
      | [] \<Rightarrow> Some ([], s))"

definition parse_number :: "string \<Rightarrow> (json \<times> string) option" where
  "parse_number s =
     (let (neg, t) = (case s of c # cs \<Rightarrow> if c = CHR ''-'' then (True, cs) else (False, s) | [] \<Rightarrow> (False, s));
          x = map digit_val (takeWhile is_digit t);
          (ip, u) = (if x \<noteq> [] \<and> hd x = 0 then ([0], tl t) else (x, dropWhile is_digit t))
      in if ip = [] then None
         else
           (case parse_fraction u of
              None \<Rightarrow> None
            | Some (fp, v) \<Rightarrow>
                (case parse_exponent v of
                   None \<Rightarrow> None
                 | Some (e, w) \<Rightarrow> Some (JNum (normal_float neg (ip @ fp) (int (length ip) + e)), w))))"

fun parse_value :: "nat \<Rightarrow> string \<Rightarrow> (json \<times> string) option"
  and parse_items :: "nat \<Rightarrow> json list \<Rightarrow> string \<Rightarrow> (json \<times> string) option"
  and parse_members :: "nat \<Rightarrow> object \<Rightarrow> string \<Rightarrow> (json \<times> string) option" where
  "parse_value 0 s = None"
| "parse_value (Suc n) s =
     (case skip_space s of
        [] \<Rightarrow> None
      | c # cs \<Rightarrow>
          if c = CHR ''{'' then
            (case skip_space cs of
               d # ds \<Rightarrow> if d = CHR ''}'' then Some (JObj [], ds) else parse_members n [] cs
             | [] \<Rightarrow> None)
          else if c = CHR ''['' then
            (case skip_space cs of
               d # ds \<Rightarrow> if d = CHR '']'' then Some (JArr [], ds) else parse_items n [] cs
             | [] \<Rightarrow> None)
          else if c = CHR 0x22 then
            (case parse_string [] cs of None \<Rightarrow> None | Some (t, r) \<Rightarrow> Some (JStr t, r))
          else if has_prefix (c # cs) ''null'' then Some (JNull, drop 3 cs)
          else if has_prefix (c # cs) ''true'' then Some (JBool True, drop 3 cs)
          else if has_prefix (c # cs) ''false'' then Some (JBool False, drop 4 cs)
          else parse_number (c # cs))"
| "parse_items 0 acc s = None"
| "parse_items (Suc n) acc s =
     (case parse_value n s of
        None \<Rightarrow> None
      | Some (v, r) \<Rightarrow>
          (case skip_space r of
             [] \<Rightarrow> None
           | d # ds \<Rightarrow>
               if d = CHR '','' then parse_items n (acc @ [v]) ds
               else if d = CHR '']'' then Some (JArr (acc @ [v]), ds)
               else None))"
| "parse_members 0 acc s = None"
| "parse_members (Suc n) acc s =
     (case skip_space s of
        c # cs \<Rightarrow>
          if c = CHR 0x22 then
            (case parse_string [] cs of
               None \<Rightarrow> None
             | Some (k, r) \<Rightarrow>
                 (case skip_space r of
                    e # es \<Rightarrow>
                      if e = CHR '':'' then
                        (case parse_value n es of
                           None \<Rightarrow> None
                         | Some (v, r') \<Rightarrow>
                             (case skip_space r' of
                                [] \<Rightarrow> None
                              | d # ds \<Rightarrow>
                                  if d = CHR '','' then parse_members n (obj_put k v acc) ds
                                  else if d = CHR ''}'' then Some (JObj (obj_put k v acc), ds)
                                  else None))
                      else None
                  | [] \<Rightarrow> None))
          else None
      | [] \<Rightarrow> None)"

text \<open>\<open>json.Unmarshal(raw, &v)\<close> for \<open>v any\<close>; \<open>None\<close> is an error. Every second step consumes a
  byte, so the fuel is enough for any input.\<close>

definition unmarshal :: "string \<Rightarrow> json option" where
  "unmarshal s =
     (case parse_value (2 * length s + 2) s of
        None \<Rightarrow> None
      | Some (v, r) \<Rightarrow> if skip_space r = [] then Some v else None)"

text \<open>\<open>json.Unmarshal(raw, &m)\<close> for \<open>m map[string]any\<close>: a JSON null leaves the map nil,
  \<open>None\<close> inside; any other value that is not an object is an error.\<close>

definition unmarshal_object :: "string \<Rightarrow> object option option" where
  "unmarshal_object s =
     (case unmarshal s of
        Some (JObj m) \<Rightarrow> Some (Some m)
      | Some JNull \<Rightarrow> Some None
      | _ \<Rightarrow> None)"

lemmas parser_defs = unmarshal_def parse_number_def parse_fraction_def parse_exponent_def
  normal_float_def digits_value_def skip_space_def json_space_def is_digit_def digit_val_def
  has_prefix_def

end
