(* ===== verification/GoCrypto.thy ===== *)
theory GoCrypto
  imports GoJson
begin

text \<open>
  The parts of \<open>crypto/sha256\<close>, \<open>crypto/hmac\<close>, \<open>encoding/hex\<close> and \<open>encoding/base64\<close> the
  code uses: SHA-256 on 32-bit words, HMAC-SHA-256, the hexadecimal coding and the unpadded
  base64 codings, on byte strings. Random tokens (\<open>crypto/rand\<close>) are arguments of the
  operations that draw them; AES-GCM, Argon2 and Ed25519 are parameters where they occur.
\<close>

unbundle bit_operations_syntax

subsection \<open>SHA-256\<close>

type_synonym u32 = "32 word"

text \<open>
  The constants of the standard (FIPS 180-4, 4.2.2 and 5.3.3) by their definition: the first 32
  bits of the fractional parts of the cube roots of the first 64 primes, and of the square roots
  of the first 8. \<open>int_root k n\<close> is the integer part of the \<open>k\<close>-th root, found bit by bit.
\<close>

definition int_root :: "nat \<Rightarrow> int \<Rightarrow> int" where
  "int_root k n = foldl (\<lambda>r b. if (r + 2 ^ b) ^ k \<le> n then r + 2 ^ b else r) 0 (rev [0..<36])"

definition root_fraction :: "nat \<Rightarrow> int \<Rightarrow> u32" where
  "root_fraction k p = word_of_int (int_root k (p * 2 ^ (32 * k)))"

definition first_primes :: "int list" where
  "first_primes =
    [2, 3, 5, 7, 11, 13, 17, 19, 23, 29, 31, 37, 41, 43, 47, 53, 59, 61, 67, 71, 73, 79, 83, 89, 97,
     101, 103, 107, 109, 113, 127, 131, 137, 139, 149, 151, 157, 163, 167, 173, 179, 181, 191, 193,
     197, 199, 211, 223, 227, 229, 233, 239, 241, 251, 257, 263, 269, 271, 277, 281, 283, 293, 307, 311]"

definition sha_k :: "u32 list" where
  "sha_k = map (root_fraction 3) first_primes"

definition sha_h0 :: "u32 list" where
  "sha_h0 = map (root_fraction 2) (take 8 first_primes)"

definition rotr :: "nat \<Rightarrow> u32 \<Rightarrow> u32" where
  "rotr n x = drop_bit n x OR push_bit (32 - n) x"

definition small_sigma0 :: "u32 \<Rightarrow> u32" where
  "small_sigma0 x = rotr 7 x XOR rotr 18 x XOR drop_bit 3 x"

definition small_sigma1 :: "u32 \<Rightarrow> u32" where
  "small_sigma1 x = rotr 17 x XOR rotr 19 x XOR drop_bit 10 x"

definition big_sigma0 :: "u32 \<Rightarrow> u32" where
  "big_sigma0 x = rotr 2 x XOR rotr 13 x XOR rotr 22 x"

definition big_sigma1 :: "u32 \<Rightarrow> u32" where
  "big_sigma1 x = rotr 6 x XOR rotr 11 x XOR rotr 25 x"

text \<open>The message schedule: 64 words from the 16 of the block.\<close>

fun sha_schedule :: "nat \<Rightarrow> u32 list \<Rightarrow> u32 list" where
  "sha_schedule 0 ws = ws"
| "sha_schedule (Suc n) ws =
     (let t = length ws
      in sha_schedule n
           (ws @ [small_sigma1 (ws ! (t - 2)) + ws ! (t - 7) + small_sigma0 (ws ! (t - 15)) + ws ! (t - 16)]))"

fun sha_round :: "u32 list \<Rightarrow> u32 \<times> u32 \<Rightarrow> u32 list" where
  "sha_round [a, b, c, d, e, f, g, h] (k, w) =
     (let t1 = h + big_sigma1 e + ((e AND f) XOR (NOT e AND g)) + k + w;
          t2 = big_sigma0 a + ((a AND b) XOR (a AND c) XOR (b AND c))
      in [t1 + t2, a, b, c, d + t1, e, f, g])"
| "sha_round st _ = st"

definition sha_block :: "u32 list \<Rightarrow> u32 list \<Rightarrow> u32 list" where
  "sha_block st ws = map2 (+) st (foldl sha_round st (zip sha_k (sha_schedule 48 ws)))"

fun be_bytes :: "nat \<Rightarrow> int \<Rightarrow> int list" where
  "be_bytes 0 x = []"
| "be_bytes (Suc n) x = be_bytes n (x div 256) @ [x mod 256]"

definition sha_pad :: "int list \<Rightarrow> int list" where
  "sha_pad bs =
     bs @ [128] @ replicate ((119 - length bs mod 64) mod 64) 0 @ be_bytes 8 (8 * int (length bs))"

fun be_words :: "int list \<Rightarrow> u32 list" where
  "be_words (a # b # c # d # bs) =
     word_of_int (16777216 * a + 65536 * b + 256 * c + d) # be_words bs"
| "be_words _ = []"

function sha_blocks :: "u32 list \<Rightarrow> u32 list \<Rightarrow> u32 list" where
  "sha_blocks st ws =
     (if length ws < 16 then st else sha_blocks (sha_block st (take 16 ws)) (drop 16 ws))"
  by pat_completeness auto
termination
  by (relation "measure (\<lambda>(st, ws). length ws)") auto

declare sha_blocks.simps [simp del]

text \<open>\<open>sha256.Sum256\<close>, as the string of its 32 bytes.\<close>

definition sha256 :: "string \<Rightarrow> string" where
  "sha256 s =
     concat (map (\<lambda>w. map char_of (be_bytes 4 (uint w)))
       (sha_blocks sha_h0 (be_words (sha_pad (map of_char s)))))"

lemma length_be_bytes [simp]: "length (be_bytes n x) = n"
  by (induction n arbitrary: x) simp_all

lemma length_sha_round: "length (sha_round st kw) = length st"
  by (cases "(st, kw)" rule: sha_round.cases) (auto simp: Let_def)

lemma length_foldl_sha_round: "length (foldl sha_round st kws) = length st"
  by (induction kws arbitrary: st) (simp_all add: length_sha_round)

lemma length_sha_block: "length (sha_block st ws) = length st"
  by (simp add: sha_block_def length_foldl_sha_round)

lemma length_sha_blocks: "length (sha_blocks st ws) = length st"
proof (induction st ws rule: sha_blocks.induct)
  case (1 st ws)
  then show ?case
    by (cases "length ws < 16") (simp_all add: sha_blocks.simps [of st ws] length_sha_block)
qed

lemma length_sha256: "length (sha256 s) = 32"
proof -
  have "length (concat (map (\<lambda>w. map char_of (be_bytes 4 (uint w)) :: string) ws)) = 4 * length ws"
    for ws :: "u32 list"
    by (induction ws) simp_all
  then show ?thesis
    by (simp add: sha256_def length_sha_blocks sha_h0_def first_primes_def)
qed

subsection \<open>HMAC\<close>

definition xor_byte :: "nat \<Rightarrow> char \<Rightarrow> char" where
  "xor_byte n c = char_of (n XOR byte_of c)"

text \<open>\<open>hmac.New(sha256.New, key)\<close>, \<open>Write(msg)\<close>, \<open>Sum(nil)\<close>\<close>

definition hmac_sha256 :: "string \<Rightarrow> string \<Rightarrow> string" where
  "hmac_sha256 key msg =
     (let k0 = (if 64 < length key then sha256 key else key);
          k = k0 @ replicate (64 - length k0) (CHR 0x00)
      in sha256 (map (xor_byte 92) k @ sha256 (map (xor_byte 54) k @ msg)))"

lemma length_hmac: "length (hmac_sha256 key msg) = 32"
  by (simp add: hmac_sha256_def Let_def length_sha256)

subsection \<open>Hexadecimal\<close>

text \<open>\<open>hex.EncodeToString\<close> and \<open>hex.DecodeString\<close>\<close>

definition hex_encode :: "string \<Rightarrow> string" where
  "hex_encode s = concat (map (\<lambda>c. [hex_digit (byte_of c div 16), hex_digit (byte_of c mod 16)]) s)"

fun hex_decode :: "string \<Rightarrow> string option" where
  "hex_decode [] = Some []"
| "hex_decode [c] = None"
| "hex_decode (a # b # s) =
     (case (hex_val a, hex_val b) of
        (Some x, Some y) \<Rightarrow> map_option (\<lambda>t. char_of (16 * x + y) # t) (hex_decode s)
      | _ \<Rightarrow> None)"

lemma length_hex_encode: "length (hex_encode s) = 2 * length s"
  by (induction s) (simp_all add: hex_encode_def)

lemma hex_val_digit: "d < 16 \<Longrightarrow> hex_val (hex_digit d) = Some d"
  by (auto simp: hex_val_def hex_digit_def Let_def)

lemma byte_of_less: "byte_of c < 256"
  using of_char_mod_256 [of c, where ?'a = nat] by (metis mod_less_divisor zero_less_numeral)

lemma hex_round_trip: "hex_decode (hex_encode s) = Some s"
proof (induction s)
  case (Cons c s)
  have "hex_val (hex_digit (byte_of c div 16)) = Some (byte_of c div 16)"
    using byte_of_less [of c] by (intro hex_val_digit) (simp add: less_mult_imp_div_less)
  moreover have "hex_val (hex_digit (byte_of c mod 16)) = Some (byte_of c mod 16)"
    by (intro hex_val_digit) simp
  ultimately show ?case
    using Cons by (simp add: hex_encode_def)
qed (simp add: hex_encode_def)

lemma hex_decode_length: "hex_decode s = Some t \<Longrightarrow> length s = 2 * length t"
  by (induction s arbitrary: t rule: hex_decode.induct) (auto split: option.splits)

lemma hex_encode_inj: "hex_encode s = hex_encode t \<Longrightarrow> s = t"
  using hex_round_trip by (metis option.inject)

lemma hex_val_ascii: "hex_val c = Some n \<Longrightarrow> byte_of c < 128"
  by (auto simp: hex_val_def Let_def split: if_splits)

lemma hex_val_lower: "hex_val (lower_char c) = hex_val c"
  by (auto simp: hex_val_def lower_char_def Let_def)

lemma hex_decode_ascii: "hex_decode s = Some t \<Longrightarrow> \<forall>c \<in> set s. byte_of c < 128"
  by (induction s arbitrary: t rule: hex_decode.induct)
    (auto split: option.splits dest: hex_val_ascii)

lemma hex_decode_lower_map: "hex_decode (map lower_char s) = hex_decode s"
  by (induction s rule: hex_decode.induct) (simp_all add: hex_val_lower split: option.splits)

lemma hex_decode_lower: "hex_decode s = Some t \<Longrightarrow> hex_decode (to_lower s) = Some t"
  using hex_decode_ascii [of s t] by (simp add: to_lower_ascii hex_decode_lower_map)

lemma length_hex_lower: "hex_decode s = Some t \<Longrightarrow> length (to_lower s) = length s"
  using hex_decode_ascii [of s t] by (simp add: to_lower_ascii)

lemma lower_hex_digit: "d < 16 \<Longrightarrow> lower_char (hex_digit d) = hex_digit d"
  by (auto simp: lower_char_def hex_digit_def)

lemma lower_hex_encode: "to_lower (hex_encode s) = hex_encode s"
proof -
  have "map lower_char (hex_encode s) = hex_encode s"
  proof (induction s)
    case (Cons c s)
    have "byte_of c div 16 < 16"
      using byte_of_less [of c] by (simp add: less_mult_imp_div_less)
    then show ?case using Cons by (simp add: hex_encode_def lower_hex_digit)
  qed (simp add: hex_encode_def)
  then show ?thesis
    using hex_decode_ascii [OF hex_round_trip [of s]] by (simp add: to_lower_ascii)
qed

text \<open>The hexadecimal digest of a text.\<close>
definition sha256_hex :: "string \<Rightarrow> string" where
  "sha256_hex s = hex_encode (sha256 s)"

lemma length_sha256_hex: "length (sha256_hex s) = 64"
  by (simp add: sha256_hex_def length_hex_encode length_sha256)

subsection \<open>Base64\<close>

text \<open>\<open>base64.RawURLEncoding\<close> and \<open>base64.RawStdEncoding\<close>: six bits per digit, no padding.\<close>

definition b64_digit :: "bool \<Rightarrow> nat \<Rightarrow> char" where
  "b64_digit url d =
     (if d < 26 then char_of (65 + d)
      else if d < 52 then char_of (71 + d)
      else if d < 62 then char_of (d - 4)
      else if d = 62 then (if url then CHR ''-'' else CHR ''+'')
      else (if url then CHR ''_'' else CHR ''/''))"

fun b64_encode :: "bool \<Rightarrow> string \<Rightarrow> string" where
  "b64_encode url [] = []"
| "b64_encode url [a] =
     (let n = 16 * byte_of a in [b64_digit url (n div 64), b64_digit url (n mod 64)])"
| "b64_encode url [a, b] =
     (let n = 4 * (256 * byte_of a + byte_of b)
      in [b64_digit url (n div 4096), b64_digit url (n div 64 mod 64), b64_digit url (n mod 64)])"
| "b64_encode url (a # b # c # s) =
     (let n = 65536 * byte_of a + 256 * byte_of b + byte_of c
      in b64_digit url (n div 262144) # b64_digit url (n div 4096 mod 64) #
         b64_digit url (n div 64 mod 64) # b64_digit url (n mod 64) # b64_encode url s)"

text \<open>\<open>secret.HashToken\<close>\<close>
definition HashToken :: "string \<Rightarrow> string" where
  "HashToken token = b64_encode True (sha256 token)"

lemma length_b64_encode: "length (b64_encode url s) = (4 * length s + 2) div 3"
  by (induction url s rule: b64_encode.induct) (auto simp: Let_def)

lemma length_HashToken: "length (HashToken token) = 43"
  by (simp add: HashToken_def length_b64_encode length_sha256)

end
