(* ===== verification/GoJson_Laws.thy ===== *)
theory GoJson_Laws
  imports GoCrypto
begin

text \<open>
  The laws of the JSON encoder and decoder: on well-formed values (numbers in their shortest
  form, strings valid UTF-8, object keys in ascending order) the decoder reads back exactly
  what the encoder wrote, so the encoding is injective.
\<close>

subsection \<open>Well-formed values\<close>

fun float_ok :: "float64 \<Rightarrow> bool" where
  "float_ok (F64 neg ds p) \<longleftrightarrow>
     list_all (\<lambda>d. d < 10) ds \<and>
     (if ds = [] then p = 0 else hd ds \<noteq> 0 \<and> last ds \<noteq> 0)"

fun json_ok :: "json \<Rightarrow> bool" where
  "json_ok JNull \<longleftrightarrow> True"
| "json_ok (JBool b) \<longleftrightarrow> True"
| "json_ok (JNum f) \<longleftrightarrow> float_ok f"
| "json_ok (JStr s) \<longleftrightarrow> valid_utf8 s"
| "json_ok (JArr xs) \<longleftrightarrow> (\<forall>x \<in> set xs. json_ok x)"
| "json_ok (JObj m) \<longleftrightarrow> obj_ok m \<and> (\<forall>(k, v) \<in> set m. valid_utf8 k \<and> json_ok v)"

subsection \<open>Strings\<close>

lemma hex4_escape: "n < 65536 \<Longrightarrow>
  hex4 [hex_digit (n div 4096 mod 16), hex_digit (n div 256 mod 16),
        hex_digit (n div 16 mod 16), hex_digit (n mod 16)] = Some n"
proof -
  assume n: "n < 65536"
  define a where "a = n div 16"
  define b where "b = a div 16"
  define c where "c = b div 16"
  have "n = 16 * a + n mod 16" "a = 16 * b + a mod 16" "b = 16 * c + b mod 16"
    by (simp_all add: a_def b_def c_def)
  moreover have "c = n div 4096" and "b = n div 256" and "c mod 16 = c"
    using n by (simp_all add: a_def b_def c_def flip: div_mult2_eq)
  moreover have "n = 16 * a + r \<Longrightarrow> a = 16 * b + s \<Longrightarrow> b = 16 * c + t \<Longrightarrow>
      4096 * c + 256 * t + 16 * s + r = n" for r s t by simp
  ultimately have "4096 * (n div 4096 mod 16) + 256 * (n div 256 mod 16) +
      16 * (n div 16 mod 16) + n mod 16 = n"
    by (metis a_def)
  then show ?thesis
    by (simp only: hex4.simps hex_val_digit mod_less_divisor zero_less_numeral option.case prod.case)
qed

lemma parse_unicode_escape:
  assumes "n < 55296"
  shows "parse_string acc (unicode_escape n @ s) = parse_string (acc @ utf8_encode n) s"
proof -
  have h: "hex4 [hex_digit (n div 4096 mod 16), hex_digit (n div 256 mod 16),
        hex_digit (n div 16 mod 16), hex_digit (n mod 16)] = Some n"
    using assms by (intro hex4_escape) simp
  have u: "unescape_unicode n s = (utf8_encode n, 0)"
    using assms by (simp add: unescape_unicode_def)
  show ?thesis
    by (simp add: unicode_escape_def parse_string.simps(2) [of acc "CHR 0x5C"] h u
        del: parse_string.simps hex4.simps)
qed

lemma byte_iff: "d = byte_of e \<Longrightarrow> byte_of c = d \<longleftrightarrow> c = e"
  by simp

lemmas byte_cases =
  byte_iff [of 34 "CHR 0x22", simplified] byte_iff [of 92 "CHR 0x5C", simplified]
  byte_iff [of 8 "CHR 0x08", simplified] byte_iff [of 12 "CHR 0x0C", simplified]
  byte_iff [of 10 "CHR 0x0A", simplified] byte_iff [of 13 "CHR 0x0D", simplified]
  byte_iff [of 9 "CHR 0x09", simplified]

lemma escape_single:
  assumes "byte_of c < 128"
  shows "parse_string acc (escape_rune [c] @ s) = parse_string (acc @ [c]) s"
proof -
  have enc: "utf8_encode (byte_of c) = [c]"
    using assms by (simp add: utf8_encode_def)
  consider "c = CHR 0x22" | "c = CHR 0x5C" | "c = CHR 0x08" | "c = CHR 0x0C" | "c = CHR 0x0A"
    | "c = CHR 0x0D" | "c = CHR 0x09"
    | "c \<notin> {CHR 0x22, CHR 0x5C, CHR 0x08, CHR 0x0C, CHR 0x0A, CHR 0x0D, CHR 0x09}"
    by blast
  then show ?thesis
  proof cases
    case 8
    show ?thesis
    proof (cases "byte_of c < 32 \<or> byte_of c = 60 \<or> byte_of c = 62 \<or> byte_of c = 38")
      case True
      with 8 assms have "escape_rune [c] = unicode_escape (byte_of c)"
        by (simp add: escape_rune_def Let_def byte_cases)
      then show ?thesis using assms enc by (simp add: parse_unicode_escape)
    next
      case False
      with 8 assms have "escape_rune [c] = [c]"
        by (simp add: escape_rune_def Let_def byte_cases)
      with False 8 assms show ?thesis by simp
    qed
  qed (simp_all add: escape_rune_def)
qed

lemma escape_multi:
  assumes "rune_tail c cs = length cs" and "cs \<noteq> []"
  shows "parse_string acc (escape_rune (c # cs) @ s) = parse_string (acc @ c # cs) s"
proof -
  have big: "194 \<le> byte_of c"
    using assms by (simp add: rune_tail.simps Let_def split: if_splits)
  have tail: "rune_tail c (cs @ s) = length cs"
    using assms rune_tail_append [of c cs s] by simp
  have plain: "parse_string acc ((c # cs) @ s) = parse_string (acc @ c # cs) s"
    using big tail assms(2) by (auto simp del: parse_string.simps simp: parse_string.simps(2) [of acc c])
  have u8: "utf8_encode 8232 = [CHR 0xE2, CHR 0x80, CHR 0xA8]"
    "utf8_encode 8233 = [CHR 0xE2, CHR 0x80, CHR 0xA9]"
    by (simp_all add: utf8_encode_def char_of_eq_iff)
  obtain d ds where cs: "cs = d # ds" using assms(2) by (cases cs) auto
  show ?thesis
    using plain
    by (simp add: escape_rune_def cs u8 [symmetric] parse_unicode_escape del: parse_string.simps)
qed

lemma parse_string_escape:
  assumes "valid_utf8 s"
  shows "parse_string acc (escape_text s @ CHR 0x22 # rest) = Some (acc @ s, rest)"
proof -
  have "list_all valid_rune rs \<Longrightarrow>
      parse_string acc (concat (map escape_rune rs) @ CHR 0x22 # rest) = Some (acc @ concat rs, rest)"
    for rs acc
  proof (induction rs arbitrary: acc)
    case (Cons r rs)
    then have "valid_rune r" by simp
    then obtain c cs where r: "r = c # cs"
      and "byte_of c < 128 \<and> cs = [] \<or> cs \<noteq> [] \<and> rune_tail c cs = length cs"
      by (auto simp: valid_rune_def split: list.splits)
    then have "parse_string acc (escape_rune r @ t) = parse_string (acc @ r) t" for t
      using escape_single escape_multi by (auto simp del: parse_string.simps)
    with Cons show ?case by (simp del: parse_string.simps)
  qed simp
  from this [of "runes s" acc] assms show ?thesis
    by (simp add: valid_utf8_def escape_text_def del: parse_string.simps)
qed

subsection \<open>Numbers\<close>

lemma digit_char_facts: "d < 10 \<Longrightarrow> is_digit (digit_char d) \<and> digit_val (digit_char d) = d"
  by (simp add: is_digit_def digit_char_def digit_val_def)

lemma digits_are_digits:
  "list_all (\<lambda>d. d < 10) ds \<Longrightarrow> list_all is_digit (map digit_char ds)"
  by (induction ds) (simp_all add: digit_char_facts)

lemma digit_vals: "list_all (\<lambda>d. d < 10) ds \<Longrightarrow> map digit_val (map digit_char ds) = ds"
  by (induction ds) (simp_all add: digit_char_facts)

definition no_digit_next :: "string \<Rightarrow> bool" where
  "no_digit_next s \<longleftrightarrow> (case s of [] \<Rightarrow> True | c # cs \<Rightarrow> \<not> is_digit c)"

lemma take_digits:
  assumes "list_all is_digit xs" and "no_digit_next s"
  shows "takeWhile is_digit (xs @ s) = xs" and "dropWhile is_digit (xs @ s) = s"
  using assms by (induction xs) (auto simp: no_digit_next_def split: list.splits)

lemma nat_digits_less: "list_all (\<lambda>d. d < 10) (nat_digits n)"
  by (induction n rule: nat_digits.induct) (simp add: nat_digits.simps)

lemma nat_digits_nonempty: "nat_digits n \<noteq> []"
  by (subst nat_digits.simps) simp

lemma digits_value_append: "digits_value (ds @ [d]) = 10 * digits_value ds + d"
  by (simp add: digits_value_def)

lemma digits_value_nat_digits: "digits_value (nat_digits n) = n"
proof (induction n rule: nat_digits.induct)
  case (1 n)
  show ?case
  proof (cases "n < 10")
    case True
    then show ?thesis by (subst nat_digits.simps) (simp add: digits_value_def)
  next
    case False
    with 1 show ?thesis by (subst nat_digits.simps) (simp add: digits_value_append)
  qed
qed

text \<open>What may follow a number literal without being read as part of it.\<close>

definition number_end :: "string \<Rightarrow> bool" where
  "number_end s \<longleftrightarrow>
     (case s of [] \<Rightarrow> True
      | c # cs \<Rightarrow> \<not> is_digit c \<and> c \<noteq> CHR ''.'' \<and> c \<noteq> CHR ''e'' \<and> c \<noteq> CHR ''E'')"

lemma number_end_no_digit: "number_end s \<Longrightarrow> no_digit_next s"
  by (simp add: number_end_def no_digit_next_def split: list.splits)

lemma parse_exponent_none: "number_end s \<Longrightarrow> parse_exponent s = Some (0, s)"
  by (simp add: number_end_def parse_exponent_def split: list.splits)

lemma parse_exponent_text:
  assumes "number_end s"
  shows "parse_exponent (CHR ''e'' # (if e < 0 then CHR ''-'' else CHR ''+'') # nat_text (nat \<bar>e\<bar>) @ s) =
    Some (e, s)"
proof -
  have t: "takeWhile is_digit (nat_text n @ s) = nat_text n"
    "dropWhile is_digit (nat_text n @ s) = s" for n
    using take_digits [OF digits_are_digits [OF nat_digits_less] number_end_no_digit [OF assms]]
    by (simp_all add: nat_text_def)
  have v: "digits_value (map digit_val (nat_text n)) = n" for n
    by (simp only: nat_text_def digit_vals [OF nat_digits_less] digits_value_nat_digits)
  have ne: "nat_text n \<noteq> []" for n by (simp add: nat_text_def nat_digits_nonempty)
  show ?thesis by (simp add: parse_exponent_def t v ne)
qed

lemma parse_fraction_text:
  assumes "list_all (\<lambda>d. d < 10) fp" and "no_digit_next s"
    and "fp = [] \<Longrightarrow> s = [] \<or> hd s \<noteq> CHR ''.''"
  shows "parse_fraction ((if fp = [] then [] else CHR ''.'' # map digit_char fp) @ s) = Some (fp, s)"
proof (cases "fp = []")
  case True
  with assms(3) show ?thesis by (cases s) (simp_all add: parse_fraction_def)
next
  case False
  with take_digits [OF digits_are_digits [OF assms(1)] assms(2)] digit_vals [OF assms(1)]
  show ?thesis by (simp add: parse_fraction_def)
qed

lemma parse_decimal:
  assumes ip: "list_all (\<lambda>d. d < 10) ip" "ip \<noteq> []" "ip = [0] \<or> hd ip \<noteq> 0"
    and fp: "list_all (\<lambda>d. d < 10) fp"
    and ex: "parse_exponent (x @ s) = Some (e, s)" "no_digit_next (x @ s)"
      "x @ s = [] \<or> hd (x @ s) \<noteq> CHR ''.''"
  shows "parse_number ((if neg then ''-'' else '''') @ map digit_char ip @
      (if fp = [] then [] else CHR ''.'' # map digit_char fp) @ x @ s) =
    Some (JNum (normal_float neg (ip @ fp) (int (length ip) + e)), s)"
proof -
  let ?u = "(if fp = [] then [] else CHR ''.'' # map digit_char fp) @ x @ s"
  have nd: "no_digit_next ?u"
    using ex(2) by (simp add: no_digit_next_def is_digit_def split: list.splits)
  note t = take_digits [OF digits_are_digits [OF ip(1)] nd]
  have fr: "parse_fraction ?u = Some (fp, x @ s)"
    by (rule parse_fraction_text [OF fp ex(2)]) (use ex(3) in blast)
  have nminus: "hd (map digit_char ip) \<noteq> CHR ''-''"
    using ip digit_char_facts [of "hd ip"] by (cases ip) (auto simp: is_digit_def)
  have sign: "(case (if neg then ''-'' else '''') @ map digit_char ip @ ?u of
        [] \<Rightarrow> (False, (if neg then ''-'' else '''') @ map digit_char ip @ ?u)
      | c # cs \<Rightarrow> if c = CHR ''-'' then (True, cs)
          else (False, (if neg then ''-'' else '''') @ map digit_char ip @ ?u)) =
      (neg, map digit_char ip @ ?u)"
    using ip(2) nminus by (cases ip) auto
  have tl0: "ip = [0] \<Longrightarrow> tl (map digit_char ip @ ?u) = ?u" by simp
  have "(if ip \<noteq> [] \<and> hd ip = 0 then ([0], tl (map digit_char ip @ ?u)) else (ip, ?u)) = (ip, ?u)"
    using ip(2,3) by auto
  then show ?thesis
    unfolding parse_number_def sign Let_def prod.case t digit_vals [OF ip(1)]
    using ip(2) ex(1) by (simp add: fr)
qed

lemma strip_zeros_prefix:
  "ds = [] \<or> hd ds \<noteq> 0 \<Longrightarrow> strip_zeros (replicate n 0 @ ds) = (n, ds)"
  by (induction n; cases ds) auto

lemma normal_float_zeros: "normal_float neg (replicate n 0) p = F64 neg [] 0"
  using strip_zeros_prefix [of "[]" n] by (simp add: normal_float_def)

lemma normal_float_strip:
  assumes "ds \<noteq> []" and "hd ds \<noteq> 0" and "last ds \<noteq> 0"
  shows "normal_float neg (replicate m 0 @ ds @ replicate n 0) p = F64 neg ds (p - int m)"
proof -
  have "strip_zeros (replicate m 0 @ ds @ replicate n 0) = (m, ds @ replicate n 0)"
    using assms by (intro strip_zeros_prefix) simp
  moreover have "strip_zeros (replicate n 0 @ rev ds) = (n, rev ds)"
    using assms by (intro strip_zeros_prefix) (simp add: hd_rev)
  ultimately show ?thesis using assms(1) by (simp add: normal_float_def)
qed

lemma parse_number_text:
  assumes ok: "float_ok f" and s: "number_end s"
  shows "parse_number (json_number f @ s) = Some (JNum f, s)"
proof (cases f)
  case f: (F64 neg ds p)
  have dg: "list_all (\<lambda>d. d < 10) ds" using ok f by simp
  have none: "parse_exponent ([] @ s) = Some (0, s)" "no_digit_next ([] @ s)"
    "[] @ s = [] \<or> hd ([] @ s) \<noteq> CHR ''.''"
    using s parse_exponent_none number_end_no_digit
    by (auto simp: number_end_def split: list.splits)
  consider "ds = []" | "ds \<noteq> []" "p < - 5 \<or> 22 \<le> p" | "ds \<noteq> []" "- 5 \<le> p" "p < 22" "p \<le> 0"
    | "ds \<noteq> []" "0 < p" "p < 22" "p < int (length ds)"
    | "ds \<noteq> []" "0 < p" "p < 22" "int (length ds) \<le> p"
    by linarith
  then show ?thesis
  proof cases
    case 1
    with ok f have p: "p = 0" by simp
    have "digit_char 0 = CHR ''0''" by (simp add: digit_char_def char_of_eq_iff)
    from parse_decimal [of "[0]" "[]" "[]" s 0 neg] none 1 f p normal_float_zeros [of neg 1 1]
    show ?thesis using \<open>digit_char 0 = _\<close> by simp
  next
    case 2
    let ?x = "CHR ''e'' # (if p - 1 < 0 then CHR ''-'' else CHR ''+'') # nat_text (nat \<bar>p - 1\<bar>)"
    have nz: "hd ds \<noteq> 0" "last ds \<noteq> 0" using ok f 2 by auto
    have "parse_number ((if neg then ''-'' else '''') @ map digit_char [hd ds] @
      (if tl ds = [] then [] else CHR ''.'' # map digit_char (tl ds)) @ ?x @ s) =
      Some (JNum (normal_float neg ([hd ds] @ tl ds) (int (length [hd ds]) + (p - 1))), s)"
    proof (rule parse_decimal)
      show "list_all (\<lambda>d. d < 10) [hd ds]" "list_all (\<lambda>d. d < 10) (tl ds)"
        using dg 2(1) by (cases ds; simp)+
      show "parse_exponent (?x @ s) = Some (p - 1, s)"
        using parse_exponent_text [OF s, of "p - 1"] by simp
    qed (use nz in \<open>auto simp: no_digit_next_def is_digit_def\<close>)
    moreover have "normal_float neg ds p = F64 neg ds p"
      using normal_float_strip [OF 2(1) nz, of neg 0 0 p] by simp
    ultimately show ?thesis using 2 f by simp
  next
    case 3
    have nz: "hd ds \<noteq> 0" "last ds \<noteq> 0" using ok f 3 by auto
    let ?fp = "replicate (nat (- p)) 0 @ ds"
    have "parse_number ((if neg then ''-'' else '''') @ map digit_char [0] @
      (if ?fp = [] then [] else CHR ''.'' # map digit_char ?fp) @ [] @ s) =
      Some (JNum (normal_float neg ([0] @ ?fp) (int (length [0::nat]) + 0)), s)"
      by (rule parse_decimal) (use dg none in \<open>auto simp: list_all_iff\<close>)
    moreover have "normal_float neg ([0] @ ?fp) 1 = F64 neg ds p"
      using normal_float_strip [OF 3(1) nz, of neg "Suc (nat (- p))" 0 1] 3 by simp
    moreover have "digit_char 0 = CHR ''0''" by (simp add: digit_char_def char_of_eq_iff)
    moreover have "p < int (length ds)" using 3 by (cases ds) auto
    ultimately show ?thesis using 3 f by (cases neg) simp_all
  next
    case 4
    have nz: "hd ds \<noteq> 0" "last ds \<noteq> 0" using ok f 4 by auto
    let ?ip = "take (nat p) ds" and ?fp = "drop (nat p) ds"
    have "parse_number ((if neg then ''-'' else '''') @ map digit_char ?ip @
      (if ?fp = [] then [] else CHR ''.'' # map digit_char ?fp) @ [] @ s) =
      Some (JNum (normal_float neg (?ip @ ?fp) (int (length ?ip) + 0)), s)"
      by (rule parse_decimal)
        (use dg none 4 nz in \<open>auto simp: list_all_iff hd_take dest: in_set_takeD in_set_dropD\<close>)
    moreover have "normal_float neg ds p = F64 neg ds p"
      using normal_float_strip [OF 4(1) nz, of neg 0 0 p] by simp
    moreover have "\<not> length ds \<le> nat p" using 4 by simp
    ultimately show ?thesis using 4 f by (cases neg) simp_all
  next
    case 5
    have nz: "hd ds \<noteq> 0" "last ds \<noteq> 0" using ok f 5 by auto
    let ?ip = "ds @ replicate (nat p - length ds) 0"
    have "parse_number ((if neg then ''-'' else '''') @ map digit_char ?ip @
      (if [] = ([]::nat list) then [] else CHR ''.'' # map digit_char []) @ [] @ s) =
      Some (JNum (normal_float neg (?ip @ []) (int (length ?ip) + 0)), s)"
      by (rule parse_decimal) (use dg none 5 nz in \<open>auto simp: list_all_iff\<close>)
    moreover have "normal_float neg ?ip p = F64 neg ds p"
      using normal_float_strip [OF 5(1) nz, of neg 0 "nat p - length ds" p] by simp
    moreover have "digit_char 0 = CHR ''0''" by (simp add: digit_char_def char_of_eq_iff)
    ultimately show ?thesis using 5 f by simp
  qed
qed

subsection \<open>Values\<close>

text \<open>How a value's text starts: never with a space, and for a number with a digit or a minus.\<close>

lemma json_number_hd:
  assumes "float_ok f"
  shows "\<exists>c cs. json_number f = c # cs \<and> (is_digit c \<or> c = CHR ''-'')"
proof (cases f)
  case f: (F64 neg ds p)
  have "d \<in> set ds \<Longrightarrow> is_digit (digit_char d)" for d
    using assms f digit_char_facts by (simp add: list_all_iff)
  moreover have "is_digit (CHR ''0'')" by (simp add: is_digit_def)
  moreover have "ds \<noteq> [] \<Longrightarrow> 0 < p \<Longrightarrow> \<exists>e es. take (nat p) ds = e # es \<and> e \<in> set ds"
    by (cases ds; cases "nat p") auto
  ultimately show ?thesis
    using assms f by (cases ds) (auto simp: Let_def)
qed

lemma json_space_not:
  "is_digit c \<or> c = CHR ''-'' \<or> c = CHR ''{'' \<or> c = CHR ''['' \<or> c = CHR 0x22 \<or> c = CHR ''n''
   \<or> c = CHR ''t'' \<or> c = CHR ''f'' \<or> c = CHR '','' \<or> c = CHR '']'' \<or> c = CHR ''}'' \<or> c = CHR '':'' \<Longrightarrow>
   \<not> json_space c"
  by (auto simp: json_space_def is_digit_def)

lemma skip_space_id: "\<not> json_space c \<Longrightarrow> skip_space (c # cs) = c # cs"
  by (simp add: skip_space_def)

lemma skip_space_punct [simp]:
  "skip_space (CHR '','' # cs) = CHR '','' # cs" "skip_space (CHR '']'' # cs) = CHR '']'' # cs"
  "skip_space (CHR ''}'' # cs) = CHR ''}'' # cs" "skip_space (CHR '':'' # cs) = CHR '':'' # cs"
  "skip_space (CHR 0x22 # cs) = CHR 0x22 # cs"
  by (simp_all add: skip_space_id json_space_not)

lemma marshal_hd:
  assumes "json_ok v"
  shows "\<exists>c cs. marshal v = c # cs \<and> \<not> json_space c \<and> c \<noteq> CHR '']'' \<and> c \<noteq> CHR ''}'' \<and> c \<noteq> CHR ''<''"
proof (cases v)
  case (JNum f)
  then obtain c cs where "json_number f = c # cs" "is_digit c \<or> c = CHR ''-''"
    using json_number_hd [of f] assms JNum by auto
  moreover from this have "\<not> json_space c" by (intro json_space_not) auto
  ultimately show ?thesis using JNum by (auto simp: is_digit_def)
qed (auto simp: quote_text_def json_space_not)

definition value_end :: "string \<Rightarrow> bool" where
  "value_end s \<longleftrightarrow>
     (case s of [] \<Rightarrow> True | c # cs \<Rightarrow> c = CHR '','' \<or> c = CHR '']'' \<or> c = CHR ''}'')"

lemma value_end_number: "value_end s \<Longrightarrow> number_end s"
  by (auto simp: value_end_def number_end_def is_digit_def split: list.splits)

lemma parse_value_number:
  assumes "float_ok f" and "value_end s"
  shows "parse_value (Suc n) (json_number f @ s) = Some (JNum f, s)"
proof -
  obtain c cs where j: "json_number f = c # cs" and c: "is_digit c \<or> c = CHR ''-''"
    using json_number_hd assms(1) by blast
  have pn: "parse_number (c # cs @ s) = Some (JNum f, s)"
    using parse_number_text [OF assms(1) value_end_number [OF assms(2)]] j by simp
  have c': "\<not> json_space c" "c \<noteq> CHR ''{''" "c \<noteq> CHR ''[''" "c \<noteq> CHR 0x22" "c \<noteq> CHR ''n''"
    "c \<noteq> CHR ''t''" "c \<noteq> CHR ''f''"
    using c json_space_not [of c] by (auto simp: is_digit_def)
  then have "skip_space (json_number f @ s) = c # cs @ s"
    by (simp add: j skip_space_id)
  with c' show ?thesis
    by (simp add: has_prefix_def pn del: parse_items.simps parse_members.simps)
qed

lemma parse_value_string:
  assumes "valid_utf8 t"
  shows "parse_value (Suc n) (quote_text t @ s) = Some (JStr t, s)"
  using parse_string_escape [OF assms, of "[]" s] by (simp add: quote_text_def del: parse_string.simps)

lemma parse_marshal:
  "json_ok v \<Longrightarrow> value_end s \<Longrightarrow> length (marshal v) \<le> n \<Longrightarrow>
     parse_value n (marshal v @ s) = Some (v, s)"
  "\<forall>x \<in> set xs. json_ok x \<Longrightarrow> xs \<noteq> [] \<Longrightarrow> length (marshal_items xs) < n \<Longrightarrow>
     parse_items n ys (marshal_items xs @ '']'' @ s) = Some (JArr (ys @ xs), s)"
  "obj_ok (m0 @ m) \<Longrightarrow> \<forall>(k, v) \<in> set m. valid_utf8 k \<and> json_ok v \<Longrightarrow> m \<noteq> [] \<Longrightarrow>
     length (marshal_members m) < n \<Longrightarrow>
     parse_members n m0 (marshal_members m @ ''}'' @ s) = Some (JObj (m0 @ m), s)"
proof (induction v and xs and m arbitrary: n s and n ys s and n m0 s
    rule: marshal_marshal_items_marshal_members.induct)
  case 1
  then obtain k where "n = Suc k" by (cases n) auto
  then show ?case by (simp add: skip_space_id json_space_not has_prefix_def)
next
  case (2 b)
  then obtain k where "n = Suc k" by (cases n) (auto split: if_splits)
  then show ?case by (auto simp: skip_space_id json_space_not has_prefix_def)
next
  case (3 f)
  then obtain k where "n = Suc k" using json_number_hd [of f] by (cases n) auto
  with 3 parse_value_number show ?case by simp
next
  case (4 t)
  then obtain k where "n = Suc k" by (cases n) (auto simp: quote_text_def)
  with 4 parse_value_string show ?case by simp
next
  case (5 xs)
  then obtain k where n: "n = Suc k" by (cases n) auto
  show ?case
  proof (cases "xs = []")
    case True
    then show ?thesis by (simp add: n skip_space_id json_space_not)
  next
    case False
    then obtain x zs where xs: "xs = x # zs" by (cases xs) auto
    obtain c cs where c: "marshal x = c # cs" "\<not> json_space c" "c \<noteq> CHR '']''"
      using marshal_hd [of x] 5 xs by auto
    have items: "marshal_items xs = c # (cs @ (if zs = [] then [] else '','' @ marshal_items zs))"
      using c xs by (cases zs) auto
    have "parse_items k [] (marshal_items xs @ '']'' @ s) = Some (JArr ([] @ xs), s)"
      using 5 False n by simp
    then show ?thesis
      using c by (simp add: n items skip_space_id json_space_not del: parse_items.simps)
  qed
next
  case (6 m)
  then obtain k where n: "n = Suc k" by (cases n) auto
  show ?case
  proof (cases "m = []")
    case True
    then show ?thesis by (simp add: n skip_space_id json_space_not)
  next
    case False
    then obtain q w zs where m: "m = (q, w) # zs" by (cases m) auto
    have members: "\<exists>cs. marshal_members m = CHR 0x22 # cs"
      using m by (cases zs) (auto simp: quote_text_def)
    have "parse_members k [] (marshal_members m @ ''}'' @ s) = Some (JObj ([] @ m), s)"
      using 6 False n by simp
    then show ?thesis
      using members by (auto simp: n skip_space_id json_space_not simp del: parse_members.simps)
  qed
next
  case 7
  then show ?case by simp
next
  case (8 x)
  then obtain k where n: "n = Suc k" by (cases n) auto
  have "parse_value k (marshal x @ '']'' @ s) = Some (x, '']'' @ s)"
    using 8 n by (simp add: value_end_def)
  then show ?case by (simp add: n)
next
  case (9 x y zs)
  then obtain k where n: "n = Suc k" by (cases n) auto
  have "parse_value k (marshal x @ '','' @ marshal_items (y # zs) @ '']'' @ s) =
      Some (x, '','' @ marshal_items (y # zs) @ '']'' @ s)"
    using 9(1) 9(3-) n by (simp add: value_end_def)
  moreover have "parse_items k (ys @ [x]) (marshal_items (y # zs) @ '']'' @ s) =
      Some (JArr ((ys @ [x]) @ y # zs), s)"
    using 9(2) 9(3-) n by simp
  ultimately show ?case by (simp add: n)
next
  case 10
  then show ?case by simp
next
  case (11 q w)
  then obtain k where n: "n = Suc k" by (cases n) auto
  have pv: "parse_value k (marshal w @ ''}'' @ s) = Some (w, ''}'' @ s)"
    using 11 n by (simp add: value_end_def)
  have ps: "parse_string [] (escape_text q @ CHR 0x22 # t) = Some (q, t)" for t
    using parse_string_escape [of q "[]"] 11 by simp
  have put: "obj_put q w m0 = m0 @ [(q, w)]"
    using 11(2) by (intro obj_put_last) (auto simp: obj_ok_def obj_keys_def sorted_wrt_append)
  show ?case using pv by (simp add: n quote_text_def ps put del: parse_string.simps)
next
  case (12 q w e zs)
  then obtain k where n: "n = Suc k" by (cases n) auto
  have pv: "parse_value k (marshal w @ '','' @ marshal_members (e # zs) @ ''}'' @ s) =
      Some (w, '','' @ marshal_members (e # zs) @ ''}'' @ s)"
    using 12(1) 12(3-) n by (simp add: value_end_def)
  have ps: "parse_string [] (escape_text q @ CHR 0x22 # t) = Some (q, t)" for t
    using parse_string_escape [of q "[]"] 12(4) by simp
  have put: "obj_put q w m0 = m0 @ [(q, w)]"
    using 12(3) by (intro obj_put_last) (auto simp: obj_ok_def obj_keys_def sorted_wrt_append)
  have pm: "parse_members k (m0 @ [(q, w)]) (marshal_members (e # zs) @ ''}'' @ s) =
      Some (JObj ((m0 @ [(q, w)]) @ e # zs), s)"
    using 12(3-) n by (intro 12(2)) auto
  show ?case using pv pm by (simp add: n quote_text_def ps put del: parse_string.simps)
qed

text \<open>The decoder reads back what the encoder wrote.\<close>

lemma unmarshal_marshal:
  assumes "json_ok v"
  shows "unmarshal (marshal v) = Some v"
  using parse_marshal(1) [OF assms, of "[]" "2 * length (marshal v) + 2"]
  by (simp add: unmarshal_def value_end_def skip_space_def)

lemma marshal_inj: "json_ok v \<Longrightarrow> json_ok w \<Longrightarrow> marshal v = marshal w \<longleftrightarrow> v = w"
  by (metis unmarshal_marshal option.inject)

subsection \<open>Decoded values are well formed\<close>

lemma byte_of_char [simp]: "n < 256 \<Longrightarrow> byte_of (char_of n :: char) = n"
  by simp

lemma valid_utf8_rune: "valid_rune r \<Longrightarrow> valid_utf8 r"
  using valid_utf8_concat [of "[r]"] by simp

lemma valid_utf8_encode: "n < 55296 \<or> 57343 < n \<and> n < 1114112 \<Longrightarrow> valid_utf8 (utf8_encode n)"
proof (rule valid_utf8_rune)
  assume n: "n < 55296 \<or> 57343 < n \<and> n < 1114112"
  consider "n < 128" | "128 \<le> n" "n < 2048" | "2048 \<le> n" "n < 65536" | "65536 \<le> n" by linarith
  then show "valid_rune (utf8_encode n)"
  proof cases
    case 1
    then show ?thesis by (simp add: utf8_encode_def valid_rune_def)
  next
    case 2
    then have "n div 64 < 32" "2 \<le> n div 64" by (simp_all add: less_mult_imp_div_less div_greater_zero_iff less_eq_div_iff_mult_less_eq)
    with 2 show ?thesis
      by (simp add: utf8_encode_def valid_rune_def rune_tail.simps Let_def cont_byte_def)
  next
    case 3
    let ?a = "n div 4096" and ?b = "n div 64 mod 64"
    have a: "?a < 16" using 3 by (simp add: less_mult_imp_div_less)
    have b: "?b < 64" by simp
    have "n div 64 = 64 * ?a + ?b"
      using div_mult2_eq [of n 64 64] mult_div_mod_eq [of 64 "n div 64"] by simp
    then have lo: "?a = 0 \<Longrightarrow> 32 \<le> ?b" and hi: "?a = 13 \<Longrightarrow> ?b < 32"
      using 3 n by linarith+
    show ?thesis
      using 3 a b lo hi by (auto simp: utf8_encode_def valid_rune_def rune_tail.simps Let_def cont_byte_def second_ok_def)
  next
    case 4
    let ?a = "n div 262144" and ?b = "n div 4096 mod 64"
    have a: "?a \<le> 4" using 4 n by linarith
    have b: "?b < 64" by simp
    have "n div 4096 = 64 * ?a + ?b"
      using div_mult2_eq [of n 4096 64] mult_div_mod_eq [of 64 "n div 4096"] by simp
    then have lo: "?a = 0 \<Longrightarrow> 16 \<le> ?b" and hi: "?a = 4 \<Longrightarrow> ?b < 16"
      using 4 n by linarith+
    show ?thesis
      using 4 a b lo hi by (auto simp: utf8_encode_def valid_rune_def rune_tail.simps Let_def cont_byte_def second_ok_def)
  qed
qed

lemma hex_val_less: "hex_val c = Some x \<Longrightarrow> x < 16"
  by (auto simp: hex_val_def Let_def split: if_splits)

lemma hex4_less: "hex4 s = Some n \<Longrightarrow> n < 65536"
  by (cases s rule: hex4.cases) (auto split: option.splits dest!: hex_val_less)

lemma valid_rune_error: "valid_utf8 rune_error"
  by (rule valid_utf8_rune) (simp add: rune_error_def valid_rune_def rune_tail.simps Let_def second_ok_def cont_byte_def)

lemma valid_unescape: "n < 65536 \<Longrightarrow> valid_utf8 (fst (unescape_unicode n rest))"
proof -
  assume n: "n < 65536"
  have "65536 + (n - 55296) * 1024 + (l - 56320) < 1114112" if "n < 56320" "l \<le> 57343" for l
    using that by linarith
  with n show ?thesis
    by (auto simp: unescape_unicode_def valid_rune_error intro!: valid_utf8_encode split: list.splits option.splits)
qed

lemma valid_utf8_single: "byte_of b < 128 \<Longrightarrow> valid_utf8 [b]"
  by (intro valid_utf8_rune) (simp add: valid_rune_def)

lemma valid_utf8_chunk: "rune_tail c cs \<noteq> 0 \<Longrightarrow> valid_utf8 (c # take (rune_tail c cs) cs)"
  using rune_tail_le [of c cs] rune_tail_take [of c cs]
  by (intro valid_utf8_rune) (auto simp: valid_rune_def)

text \<open>One step of the string parser: it ends, or it reads a valid text and goes on.\<close>

lemma parse_string_step:
  assumes "parse_string acc (c # cs) = Some (t, r)"
  shows "t = acc \<or> (\<exists>u s. length s \<le> length cs \<and> valid_utf8 u \<and> parse_string (acc @ u) s = Some (t, r))"
proof -
  have go: ?thesis if "valid_utf8 u" "parse_string (acc @ u) s = Some (t, r)" "length s \<le> length cs" for u s
    using that by blast
  consider "c = CHR 0x22" | d ds where "c = CHR 0x5C" "cs = d # ds" | "c = CHR 0x5C" "cs = []"
    | "c \<noteq> CHR 0x22" "c \<noteq> CHR 0x5C" by (cases cs) auto
  then show ?thesis
  proof cases
    case (2 d ds)
    show ?thesis
    proof (cases "d = CHR ''u''")
      case True
      then obtain n where n: "hex4 (take 4 ds) = Some n" using assms 2 by (auto split: option.splits)
      obtain u k where u: "unescape_unicode n (drop 4 ds) = (u, k)" by (cases "unescape_unicode n (drop 4 ds)")
      have "valid_utf8 u" using valid_unescape [OF hex4_less [OF n], of "drop 4 ds"] u by simp
      with assms 2 True n u show ?thesis by (intro go [of u "drop (4 + k) ds"]) simp_all
    next
      case False
      with assms 2 have "\<exists>b \<in> set [CHR 0x22, CHR 0x5C, CHR ''/'', CHR 0x08, CHR 0x0C, CHR 0x0A, CHR 0x0D, CHR 0x09].
          parse_string (acc @ [b]) ds = Some (t, r)" by (auto split: if_splits)
      then obtain b where "parse_string (acc @ [b]) ds = Some (t, r)" "byte_of b < 128" by auto
      with 2 show ?thesis by (intro go [of "[b]" ds]) (simp_all add: valid_utf8_single)
    qed
  next
    case 4
    consider "byte_of c < 128" | "\<not> byte_of c < 128" "rune_tail c cs = 0" | "\<not> byte_of c < 128" "rune_tail c cs \<noteq> 0" by blast
    then show ?thesis
    proof cases
      case 1
      with 4 assms show ?thesis by (intro go [of "[c]" cs]) (simp_all add: valid_utf8_single split: if_splits)
    next
      case 2
      with 4 assms show ?thesis by (intro go [of rune_error cs]) (simp_all add: valid_rune_error split: if_splits)
    next
      case 3
      with 4 assms show ?thesis
        by (intro go [of "c # take (rune_tail c cs) cs" "drop (rune_tail c cs) cs"])
          (simp_all add: valid_utf8_chunk split: if_splits)
    qed
  qed (use assms in simp_all)
qed

lemma parse_string_valid: "valid_utf8 acc \<Longrightarrow> parse_string acc s = Some (t, r) \<Longrightarrow> valid_utf8 t"
proof (induction "length s" arbitrary: acc s rule: less_induct)
  case less
  show ?case
  proof (cases s)
    case Nil
    with less.prems show ?thesis by simp
  next
    case (Cons c cs)
    from less.prems(2) have "parse_string acc (c # cs) = Some (t, r)" unfolding Cons .
    from parse_string_step [OF this] show ?thesis
    proof (elim disjE exE conjE)
      fix u s'
      assume s': "length s' \<le> length cs" "valid_utf8 u" "parse_string (acc @ u) s' = Some (t, r)"
      have "length s' < length s" using s'(1) Cons by simp
      then show ?thesis using valid_utf8_append [OF less.prems(1) s'(2)] s'(3) by (rule less.hyps)
    qed (use less.prems(1) in simp)
  qed
qed

lemma strip_zeros_hd: "snd (strip_zeros ds) = [] \<or> hd (snd (strip_zeros ds)) \<noteq> 0"
  by (induction ds) (auto split: prod.splits)

lemma strip_zeros_suffix: "\<exists>n. snd (strip_zeros ds) = drop n ds"
proof (induction ds)
  case (Cons d ds)
  then obtain n where "snd (strip_zeros ds) = drop n ds" ..
  then show ?case
    by (cases "d = 0") (auto split: prod.splits intro: exI [of _ "Suc n"] exI [of _ 0])
qed simp

lemma normal_float_ok:
  assumes "list_all (\<lambda>d. d < 10) ds"
  shows "float_ok (normal_float neg ds p)"
proof -
  obtain n es where es: "strip_zeros ds = (n, es)" by (cases "strip_zeros ds")
  let ?fs = "rev (snd (strip_zeros (rev es)))"
  obtain k where k: "snd (strip_zeros (rev es)) = drop k (rev es)" using strip_zeros_suffix by blast
  obtain j where j: "es = drop j ds" using strip_zeros_suffix [of ds] es by auto
  have fs: "?fs = take (length es - k) es" unfolding k by (simp add: rev_drop)
  have "set ?fs \<subseteq> set es" unfolding fs by (rule set_take_subset)
  moreover have "set es \<subseteq> set ds" unfolding j by (rule set_drop_subset)
  ultimately have d: "set ?fs \<subseteq> set ds" by simp
  have last: "?fs = [] \<or> last ?fs \<noteq> 0" using strip_zeros_hd [of "rev es"] by (auto simp: last_rev)
  have hd: "?fs = [] \<or> hd ?fs \<noteq> 0"
    using strip_zeros_hd [of ds] unfolding fs es by (auto simp: hd_take)
  show ?thesis
    using assms d last hd by (auto simp: normal_float_def es Let_def list_all_iff)
qed

lemma digits_less: "list_all (\<lambda>d. d < 10) (map digit_val (takeWhile is_digit s))"
  by (induction s) (auto simp: is_digit_def digit_val_def)

lemma parse_fraction_digits: "parse_fraction s = Some (fp, v) \<Longrightarrow> list_all (\<lambda>d. d < 10) fp"
  using digits_less by (auto simp: parse_fraction_def Let_def split: list.splits if_splits)

lemma digit_less: "is_digit c \<Longrightarrow> digit_val c < 10"
  unfolding is_digit_def digit_val_def by linarith

lemma parse_number_ok: "parse_number s = Some (v, r) \<Longrightarrow> json_ok v"
  unfolding parse_number_def Let_def
  by (auto simp: digits_less digit_less dest!: parse_fraction_digits intro!: normal_float_ok
      split: list.splits if_splits option.splits prod.splits simp del: float_ok.simps)

definition members_ok :: "object \<Rightarrow> bool" where
  "members_ok m \<longleftrightarrow> obj_ok m \<and> (\<forall>(k, v) \<in> set m. valid_utf8 k \<and> json_ok v)"

lemma members_ok_put: "members_ok m \<Longrightarrow> valid_utf8 k \<Longrightarrow> json_ok v \<Longrightarrow> members_ok (obj_put k v m)"
proof -
  have "set (obj_put k v m) \<subseteq> insert (k, v) (set m)"
    by (induction k v m rule: obj_put.induct) auto
  then show "members_ok m \<Longrightarrow> valid_utf8 k \<Longrightarrow> json_ok v \<Longrightarrow> members_ok (obj_put k v m)"
    by (auto simp: members_ok_def obj_ok_put)
qed

lemma parse_ok:
  "parse_value n s = Some (v, r) \<Longrightarrow> json_ok v"
  "parse_items n acc s = Some (v, r) \<Longrightarrow> \<forall>x \<in> set acc. json_ok x \<Longrightarrow> json_ok v"
  "parse_members n m s = Some (v, r) \<Longrightarrow> members_ok m \<Longrightarrow> json_ok v"
proof (induction n s and n acc s and n m s arbitrary: v r and v r and v r
    rule: parse_value_parse_items_parse_members.induct)
  case (2 n s)
  have empty: "members_ok []" by (simp add: members_ok_def)
  from 2 empty show ?case
    by (auto split: list.splits if_splits option.splits prod.splits
        dest: parse_number_ok parse_string_valid [OF valid_utf8_Nil])
next
  case (4 n acc s)
  from 4(3) obtain x q d ds where x: "parse_value n s = Some (x, q)" "skip_space q = d # ds"
    and c: "d = CHR '','' \<and> parse_items n (acc @ [x]) ds = Some (v, r) \<or> d = CHR '']'' \<and> v = JArr (acc @ [x])"
    by (auto split: option.splits list.splits if_splits prod.splits)
  have "json_ok x" using 4(1) x(1) by blast
  with 4 x c show ?case by auto
next
  case (6 n m s)
  from 6 show ?case
    by (auto split: list.splits if_splits option.splits prod.splits
        intro: members_ok_put parse_string_valid [OF valid_utf8_Nil]
        simp: members_ok_put parse_string_valid [OF valid_utf8_Nil] simp flip: members_ok_def)
qed simp_all

lemma unmarshal_ok: "unmarshal s = Some v \<Longrightarrow> json_ok v"
  by (auto simp: unmarshal_def simp del: parse_value.simps dest: parse_ok(1) split: option.splits if_splits)

end
