(* ===== verification/GoTime.thy ===== *)
theory GoTime
  imports GoJson
begin

text \<open>
  The part of package \<open>time\<close> that turns an instant into text: the proleptic Gregorian date of
  an instant in UTC and the layout \<open>time.RFC3339Nano\<close>. The zero \<open>time.Time\<close> is midnight on
  the first of January of year 1.
\<close>

definition zero_time :: instant where
  "zero_time = - 62135596800 * second"

text \<open>Year, month and day of a day number, counted from 1970-01-01.\<close>

definition civil_date :: "int \<Rightarrow> int \<times> int \<times> int" where
  "civil_date days =
     (let z = days + 719468;
          era = z div 146097;
          doe = z mod 146097;
          yoe = (doe - doe div 1460 + doe div 36524 - doe div 146096) div 365;
          doy = doe - (365 * yoe + yoe div 4 - yoe div 100);
          mp = (5 * doy + 2) div 153;
          d = doy - (153 * mp + 2) div 5 + 1;
          m = (if mp < 10 then mp + 3 else mp - 9);
          y = yoe + era * 400 + (if m \<le> 2 then 1 else 0)
      in (y, m, d))"

definition padded :: "nat \<Rightarrow> int \<Rightarrow> string" where
  "padded n x = (let t = nat_text (nat x) in replicate (n - length t) (CHR ''0'') @ t)"

definition fraction_text :: "int \<Rightarrow> string" where
  "fraction_text ns =
     (if ns = 0 then []
      else CHR ''.'' # rev (dropWhile (\<lambda>c. c = CHR ''0'') (rev (padded 9 ns))))"

definition rfc3339_nano :: "instant \<Rightarrow> string" where
  "rfc3339_nano t =
     (let days = t div day; secs = (t mod day) div second; ns = t mod second
      in case civil_date days of
           (y, m, d) \<Rightarrow>
             padded 4 y @ ''-'' @ padded 2 m @ ''-'' @ padded 2 d @ ''T'' @
             padded 2 (secs div 3600) @ '':'' @ padded 2 (secs div 60 mod 60) @ '':'' @
             padded 2 (secs mod 60) @ fraction_text ns @ ''Z'')"

text \<open>\<open>time.RFC3339\<close>: no fraction.\<close>

definition rfc3339 :: "instant \<Rightarrow> string" where
  "rfc3339 t = rfc3339_nano (t - t mod second)"

text \<open>The day number of a date.\<close>

definition day_number :: "int \<Rightarrow> int \<Rightarrow> int \<Rightarrow> int" where
  "day_number y0 m d =
     (let y = (if m \<le> 2 then y0 - 1 else y0);
          era = y div 400;
          yoe = y mod 400;
          doy = (153 * (if m > 2 then m - 3 else m + 9) + 2) div 5 + d - 1;
          doe = yoe * 365 + yoe div 4 - yoe div 100 + doy
      in era * 146097 + doe - 719468)"

definition days_in :: "int \<Rightarrow> int \<Rightarrow> int" where
  "days_in m y =
     (if m = 2 then (if y mod 4 = 0 \<and> (y mod 100 \<noteq> 0 \<or> y mod 400 = 0) then 29 else 28)
      else if m \<in> {4, 6, 9, 11} then 30 else 31)"

text \<open>\<open>n\<close> decimal digits, a given byte.\<close>

definition take_number :: "nat \<Rightarrow> string \<Rightarrow> (int \<times> string) option" where
  "take_number n s =
     (if length (take n s) = n \<and> list_all is_digit (take n s)
      then Some (int (digits_value (map digit_val (take n s))), drop n s) else None)"

definition take_byte :: "char \<Rightarrow> string \<Rightarrow> string option" where
  "take_byte c s = (case s of [] \<Rightarrow> None | d # ds \<Rightarrow> if d = c then Some ds else None)"

text \<open>The hour may be a single digit.\<close>

definition take_hour :: "string \<Rightarrow> (int \<times> string) option" where
  "take_hour s = (case take_number 2 s of None \<Rightarrow> take_number 1 s | r \<Rightarrow> r)"

definition take_fraction :: "string \<Rightarrow> int \<times> string" where
  "take_fraction s =
     (case s of
        c # d # ds \<Rightarrow>
          if (c = CHR ''.'' \<or> c = CHR '','') \<and> is_digit d then
            (let ns = take 9 (takeWhile is_digit (d # ds))
             in (int (digits_value (map digit_val ns)) * 10 ^ (9 - length ns),
                 dropWhile is_digit (d # ds)))
          else (0, s)
      | _ \<Rightarrow> (0, s))"

text \<open>The offset from UTC in seconds.\<close>

definition take_zone :: "string \<Rightarrow> (int \<times> string) option" where
  "take_zone s =
     (case s of
        [] \<Rightarrow> None
      | c # cs \<Rightarrow>
          if c = CHR ''Z'' then Some (0, cs)
          else if c = CHR ''+'' \<or> c = CHR ''-'' then
            (case Option.bind (take_number 2 cs) (\<lambda>(h, r). Option.bind (take_byte (CHR '':'') r)
                (\<lambda>r'. map_option (\<lambda>(m, r''). (h, m, r'')) (take_number 2 r'))) of
               None \<Rightarrow> None
             | Some (h, m, r) \<Rightarrow>
                 if 24 < h \<or> 60 < m then None
                 else Some ((if c = CHR ''-'' then - 1 else 1) * (h * 3600 + m * 60), r))
          else None)"

text \<open>\<open>time.Parse(time.RFC3339Nano, s)\<close>: the instant, and the year as written.\<close>

definition parse_rfc3339 :: "string \<Rightarrow> (instant \<times> int) option" where
  "parse_rfc3339 s =
     Option.bind (take_number 4 s) (\<lambda>(y, s).
     Option.bind (take_byte (CHR ''-'') s) (\<lambda>s.
     Option.bind (take_number 2 s) (\<lambda>(mo, s).
     Option.bind (take_byte (CHR ''-'') s) (\<lambda>s.
     Option.bind (take_number 2 s) (\<lambda>(d, s).
     Option.bind (take_byte (CHR ''T'') s) (\<lambda>s.
     Option.bind (take_hour s) (\<lambda>(h, s).
     Option.bind (take_byte (CHR '':'') s) (\<lambda>s.
     Option.bind (take_number 2 s) (\<lambda>(mi, s).
     Option.bind (take_byte (CHR '':'') s) (\<lambda>s.
     Option.bind (take_number 2 s) (\<lambda>(sec, s).
       (case take_fraction s of
          (ns, s) \<Rightarrow>
            (case take_zone s of
               None \<Rightarrow> None
             | Some (off, rest) \<Rightarrow>
                 if rest \<noteq> [] \<or> mo < 1 \<or> 12 < mo \<or> d < 1 \<or> days_in mo y < d
                    \<or> 24 \<le> h \<or> 60 \<le> mi \<or> 60 \<le> sec then None
                 else Some (day_number y mo d * day +
                            (h * 3600 + mi * 60 + sec - off) * second + ns, y))))))))))))))"

end
