(* ===== verification/Model.thy ===== *)
theory Model
  imports GoJson_Laws "HOL-Library.Multiset"
begin

text \<open>
  \<open>internal/model/model.go\<close>, first half: the change records the whole program exchanges and
  the normalisation that decides what of a collected resource is stored and compared: which
  fields are dropped as volatile, which are fingerprinted as secret, and in which order a list
  is kept.

  \<open>normalizeFor\<close> is the source's recursion. The statements of its loop over the members of
  an object are \<open>member_step\<close>, in the source's order: a member is dropped, replaced by a value,
  or normalised in turn. The Go loop visits the members in random order; each contributes to
  its own key only, so the order is immaterial and the members are taken in key order here.
  \<open>json.Marshal\<close> cannot fail on a value built from JSON, so its error branch is absent.
\<close>

subsection \<open>Records of a change\<close>

text \<open>An \<open>any\<close> of a field change: absent (\<open>nil\<close>), \<open>json.RawMessage("null")\<close>, or a value.\<close>

datatype goany = GoNil | RawNull | GoVal json

record field_change =
  Field :: string
  Old :: goany
  New :: goany
  OldPresent :: bool
  NewPresent :: bool

record resource =
  ResID :: string
  ResType :: string
  ResName :: string
  ResCollector :: string
  ResData :: json

record diff_result =
  Fields :: "field_change list"
  FieldsTruncated :: bool
  TotalFields :: nat

subsection \<open>Field names\<close>

definition ignored :: "string list" where
  "ignored =
     [''lastseen'', ''connectedtocontrol'', ''clientconnectivity'', ''endpoints'', ''lastupdated'',
      ''createdat'', ''updatedat'', ''timestamp'', ''requestedat'', ''profilepicurl'']"

definition redactedFields :: "string list" where
  "redactedFields =
     [''accesstoken'', ''clientsecret'', ''secret'', ''signingsecret'', ''token'', ''tokenvalue'',
      ''password'', ''webhooksecret'', ''gcscredentials'', ''s3secretaccesskey'']"

definition collectorFields :: "string \<Rightarrow> string list option" where
  "collectorFields =
     map_of
       [(''devices'',
         [''addresses'', ''id'', ''nodeid'', ''user'', ''name'', ''hostname'', ''clientversion'',
          ''updateavailable'', ''os'', ''created'', ''keyexpirydisabled'', ''expires'',
          ''authorized'', ''isexternal'', ''blocksincomingconnections'', ''enabledroutes'',
          ''advertisedroutes'', ''tags'', ''tailnetlockerror'', ''tailnetlockkey'', ''sshenabled'',
          ''postureidentity'', ''isephemeral'', ''distro'']),
        (''users'',
         [''id'', ''displayname'', ''loginname'', ''profilepicurl'', ''tailnetid'', ''created'',
          ''type'', ''role'', ''status'']),
        (''device_details'', [''postureattributes'', ''deviceinvites'']),
        (''posture'',
         [''provider'', ''cloudid'', ''clientid'', ''tenantid'', ''id'', ''configupdated'', ''status'']),
        (''log_streaming'', [''configuration'', ''network'']),
        (''services'', [''name'', ''displayname'', ''addrs'', ''comment'', ''ports'', ''tags'']),
        (''oauth_apps'',
         [''id'', ''name'', ''description'', ''redirecturis'', ''scopes'', ''allowednodeattributes''])]"

definition collectorFieldAllowed :: "string \<Rightarrow> string \<Rightarrow> bool" where
  "collectorFieldAllowed collector field =
     (case collectorFields collector of None \<Rightarrow> True | Some allowed \<Rightarrow> field \<in> set allowed)"

definition ignoredForCollector :: "string \<Rightarrow> string \<Rightarrow> bool" where
  "ignoredForCollector collector key =
     (if collector = ''devices'' then key \<in> {''multipleconnections'', ''machinekey'', ''nodekey''}
      else if collector = ''users'' then key = ''currentlyconnected''
      else False)"

definition devicePostureDuplicates :: "string list" where
  "devicePostureDuplicates = [''node:tsversion'', ''node:os'', ''node:osversion'']"

definition devicePostureDuplicate :: "string \<Rightarrow> string \<Rightarrow> bool" where
  "devicePostureDuplicate path key =
     (key \<in> set devicePostureDuplicates \<and>
      equal_fold (fst (cut (CHR ''.'') path)) ''postureAttributes'')"

definition postureExpiries :: "string \<Rightarrow> string \<Rightarrow> bool" where
  "postureExpiries path key \<longleftrightarrow> key = ''expiries'' \<and> equal_fold path ''postureAttributes''"

definition tenantKeySection :: "string \<Rightarrow> string \<Rightarrow> bool" where
  "tenantKeySection collector key =
     (if collector = ''policy'' then key \<in> {''groups'', ''tagowners'', ''hosts''}
      else if collector = ''dns'' then key \<in> {''splitdns'', ''nameservers'', ''searchpaths''}
      else False)"

definition orderedArray :: "string \<Rightarrow> string \<Rightarrow> bool" where
  "orderedArray collector path =
     (collector = ''dns'' \<and>
      list_ex (\<lambda>segment. segment = ''nameservers'' \<or> segment = ''searchpaths'')
        (split (CHR ''.'') (compact_name path)))"

subsection \<open>Values that are replaced\<close>

text \<open>The fingerprint of a value that is already a fingerprint, in lower case.\<close>

definition redactedFingerprint :: "json \<Rightarrow> string option" where
  "redactedFingerprint v =
     (case v of
        JObj [(k, JStr encoded)] \<Rightarrow>
          if k = ''redacted_sha256'' \<and> length encoded = 64 \<and> hex_decode encoded \<noteq> None
          then Some (to_lower encoded) else None
      | _ \<Rightarrow> None)"

definition fingerprint :: "string \<Rightarrow> json" where
  "fingerprint encoded = JObj [(''redacted_sha256'', JStr encoded)]"

definition redactedValue :: "json \<Rightarrow> json" where
  "redactedValue v =
     (case redactedFingerprint v of
        Some encoded \<Rightarrow> fingerprint encoded
      | None \<Rightarrow> fingerprint (sha256_hex (marshal v)))"

definition normalizeUserStatus :: "json \<Rightarrow> json" where
  "normalizeUserStatus v =
     (if v = JStr ''active'' \<or> v = JStr ''idle'' then JStr ''enabled'' else v)"

definition legacyUnsupportedLogStream :: "json \<Rightarrow> bool" where
  "legacyUnsupportedLogStream v \<longleftrightarrow> v = JObj [(''unsupported'', JBool True)]"

definition HealthStatusUnavailable :: string where
  "HealthStatusUnavailable = ''unavailable''"

text \<open>\<open>m[k].(string)\<close>, the empty string when the member is absent or not a string.\<close>

definition obj_string :: "object \<Rightarrow> string \<Rightarrow> string" where
  "obj_string m k = (case obj_get m k of Some (JStr s) \<Rightarrow> s | _ \<Rightarrow> '''')"

definition normalizeHealthStatus :: "json \<Rightarrow> json" where
  "normalizeHealthStatus v =
     (case v of
        JObj status \<Rightarrow>
          if obj_get status ''state'' = Some (JStr HealthStatusUnavailable) \<and> length status = 1
          then JObj [(''state'', JStr HealthStatusUnavailable)]
          else
            (let e = obj_string status ''error'';
                 errorMessage = (if e = '''' then obj_string status ''lastError'' else e);
                 state = (if trim_space errorMessage \<noteq> '''' then ''error'' else ''healthy'')
             in JObj [(''state'', JStr state)])
      | _ \<Rightarrow> v)"

subsection \<open>Normalisation\<close>

datatype step = Drop | Replace json | Descend

text \<open>What the loop body does with one member (lines 141 to 195).\<close>

definition member_step :: "string \<Rightarrow> bool \<Rightarrow> bool \<Rightarrow> string \<Rightarrow> string \<Rightarrow> json \<Rightarrow> step" where
  "member_step collector root tenantKeys path key child =
     (let openKeys = tenantKeys \<or> root \<and> collector = ''policy'';
          compact = compact_name key
      in if root \<and> \<not> openKeys \<and> \<not> collectorFieldAllowed collector compact then Drop
         else if collector = ''device_details'' \<and> compact = ''detail'' then Drop
         else if collector = ''device_details'' \<and> devicePostureDuplicate path compact then Drop
         else if collector = ''device_details'' \<and> postureExpiries path compact then Drop
         else if collector = ''log_streaming'' \<and> root \<and> legacyUnsupportedLogStream child
           then Replace (JObj [(''configured'', JBool False)])
         else if tenantKeys then Descend
         else if compact \<in> set redactedFields then Replace (redactedValue child)
         else if compact \<in> set ignored \<or> ignoredForCollector collector compact then Drop
         else if collector = ''users'' \<and> compact = ''status''
           then Replace (normalizeUserStatus child)
         else if (collector = ''posture'' \<or> collector = ''log_streaming'') \<and> compact = ''status''
           then Replace (normalizeHealthStatus child)
         else if contains compact ''url'' \<or> compact = ''endpoint''
           then (case redactedFingerprint child of
                   Some encoded \<Rightarrow> Replace (fingerprint encoded)
                 | None \<Rightarrow> Replace (fingerprint (sha256_hex (marshal child))))
         else Descend)"

definition child_path :: "string \<Rightarrow> string \<Rightarrow> string" where
  "child_path path key = (if path \<noteq> '''' then path @ ''.'' @ key else key)"

definition order_items :: "string \<Rightarrow> string \<Rightarrow> json list \<Rightarrow> json list" where
  "order_items collector path out =
     (if orderedArray collector path then out
      else sort_stable (\<lambda>a b. marshal a < marshal b) out)"

fun normalizeFor :: "string \<Rightarrow> json \<Rightarrow> bool \<Rightarrow> bool \<Rightarrow> string \<Rightarrow> json"
  and normalizeMembers :: "string \<Rightarrow> object \<Rightarrow> bool \<Rightarrow> bool \<Rightarrow> string \<Rightarrow> object"
  and normalizeItems :: "string \<Rightarrow> json list \<Rightarrow> string \<Rightarrow> json list" where
  "normalizeFor collector (JObj m) root tenantKeys path =
     JObj (normalizeMembers collector m root tenantKeys path)"
| "normalizeFor collector (JArr xs) root tenantKeys path =
     JArr (order_items collector path (normalizeItems collector xs path))"
| "normalizeFor collector v root tenantKeys path = v"
| "normalizeMembers collector [] root tenantKeys path = []"
| "normalizeMembers collector ((key, child) # m) root tenantKeys path =
     (case member_step collector root tenantKeys path key child of
        Drop \<Rightarrow> normalizeMembers collector m root tenantKeys path
      | Replace v \<Rightarrow> (key, v) # normalizeMembers collector m root tenantKeys path
      | Descend \<Rightarrow>
          (key, normalizeFor collector child False
                  (tenantKeySection collector (compact_name key)) (child_path path key)) #
          normalizeMembers collector m root tenantKeys path)"
| "normalizeItems collector [] path = []"
| "normalizeItems collector (x # xs) path =
     normalizeFor collector x False False path # normalizeItems collector xs path"

definition NormalizeFor :: "string \<Rightarrow> json \<Rightarrow> json" where
  "NormalizeFor collector v = normalizeFor collector v True False ''''"

definition Normalize :: "json \<Rightarrow> json" where
  "Normalize v = NormalizeFor '''' v"

text \<open>\<open>canonical\<close>: \<open>None\<close> is an error.\<close>

definition canonical :: "json \<Rightarrow> (string \<times> string) option" where
  "canonical v =
     (case unmarshal (marshal v) of
        None \<Rightarrow> None
      | Some normalized \<Rightarrow> (let raw = marshal normalized in Some (raw, sha256_hex raw)))"

definition CanonicalFor :: "string \<Rightarrow> json \<Rightarrow> (string \<times> string) option" where
  "CanonicalFor collector v = canonical (normalizeFor collector v True False '''')"

definition Canonical :: "json \<Rightarrow> (string \<times> string) option" where
  "Canonical v = CanonicalFor '''' v"

definition CanonicalForSection :: "string \<Rightarrow> string \<Rightarrow> json \<Rightarrow> (string \<times> string) option" where
  "CanonicalForSection collector section_name v =
     canonical
       (normalizeFor collector v True (tenantKeySection collector (compact_name section_name)) section_name)"

subsection \<open>Fingerprints\<close>

definition is_fingerprint :: "json \<Rightarrow> bool" where
  "is_fingerprint v \<longleftrightarrow>
     (case v of
        JObj [(k, JStr h)] \<Rightarrow> k = ''redacted_sha256'' \<and> length h = 64 \<and> hex_decode h \<noteq> None
      | _ \<Rightarrow> False)"

lemma redactedFingerprint_Some:
  assumes "redactedFingerprint v = Some h"
  shows "length h = 64" and "hex_decode h \<noteq> None" and "to_lower h = h"
proof -
  from assms obtain e where e: "length e = 64" "hex_decode e \<noteq> None" "h = to_lower e"
    by (auto simp: redactedFingerprint_def split: json.splits list.splits prod.splits if_splits)
  then obtain t where t: "hex_decode e = Some t" by auto
  show "length h = 64" using e length_hex_lower [OF t] by simp
  show "hex_decode h \<noteq> None" using e hex_decode_lower [OF t] by simp
  show "to_lower h = h" using e hex_decode_ascii [OF t] by (simp add: to_lower_idem_ascii)
qed

lemma redactedFingerprint_fingerprint:
  "length h = 64 \<Longrightarrow> hex_decode h \<noteq> None \<Longrightarrow> redactedFingerprint (fingerprint h) = Some (to_lower h)"
  by (simp add: redactedFingerprint_def fingerprint_def)

lemma sha256_hex_facts [simp]:
  "length (sha256_hex s) = 64" "hex_decode (sha256_hex s) = Some (sha256 s)"
  "to_lower (sha256_hex s) = sha256_hex s"
  by (simp_all add: length_sha256_hex)
    (simp_all add: sha256_hex_def hex_round_trip lower_hex_encode)

lemma is_fingerprint_intro:
  "length h = 64 \<Longrightarrow> hex_decode h \<noteq> None \<Longrightarrow> is_fingerprint (fingerprint h)"
  by (simp add: is_fingerprint_def fingerprint_def)

lemma is_fingerprint_redactedValue: "is_fingerprint (redactedValue v)"
  using redactedFingerprint_Some [of v]
  by (auto simp: redactedValue_def intro!: is_fingerprint_intro split: option.splits)

lemma redactedValue_idem: "redactedValue (redactedValue v) = redactedValue v"
  using redactedFingerprint_Some [of v]
  by (auto simp: redactedValue_def redactedFingerprint_fingerprint split: option.splits)

lemma normalizeUserStatus_idem: "normalizeUserStatus (normalizeUserStatus v) = normalizeUserStatus v"
  by (simp add: normalizeUserStatus_def)

subsection \<open>Idempotence\<close>

lemma normalizeItems_map:
  "normalizeItems collector xs path = map (\<lambda>x. normalizeFor collector x False False path) xs"
  by (induction xs) simp_all

lemma set_order_items [simp]: "set (order_items collector path xs) = set xs"
  by (simp add: order_items_def)

lemma length_order_items [simp]: "length (order_items collector path xs) = length xs"
  by (simp add: order_items_def)

lemma order_items_idem: "order_items c p (order_items c p xs) = order_items c p xs"
  by (simp add: order_items_def sort_stable_key sort_key_id_if_sorted)

text \<open>The chain of tests of \<open>member_step\<close> over its conditions, run again on another value of the
  same member.\<close>

lemma member_chain_again:
  assumes "(if b1 then Drop else if b2 then Drop else if b3 then Drop else if b4 then Drop
     else if b5 then Replace r1 else if tk then Descend else if b6 then Replace r2
     else if b7 then Drop else if b8 then Replace r3 else if b9 then Replace r4
     else if b10 then x else Descend) = s"
    and "\<not> b5" and "\<not> b5'" and "\<not> b9"
    and "s = Replace r2 \<Longrightarrow> r2' = r2" and "s = Replace r3 \<Longrightarrow> r3' = r3" and "x = s \<Longrightarrow> x' = s"
    and "s \<noteq> Drop"
  shows "(if b1 then Drop else if b2 then Drop else if b3 then Drop else if b4 then Drop
     else if b5' then Replace r1' else if tk then Descend else if b6 then Replace r2'
     else if b7 then Drop else if b8 then Replace r3' else if b9 then Replace r4'
     else if b10 then x' else Descend) = s"
  using assms by (auto split: if_splits)

lemma url_step_again:
  "(case redactedFingerprint child of Some e \<Rightarrow> Replace (fingerprint e)
     | None \<Rightarrow> Replace (fingerprint (sha256_hex (marshal child)))) = Replace v \<Longrightarrow>
   (case redactedFingerprint v of Some e \<Rightarrow> Replace (fingerprint e)
     | None \<Rightarrow> Replace (fingerprint (sha256_hex (marshal v)))) = Replace v"
  using redactedFingerprint_Some [of child]
  by (auto simp: redactedFingerprint_fingerprint split: option.splits)

lemma member_step_Replace_again:
  assumes "member_step c root tk path key child = Replace v"
    and "c \<noteq> ''posture''" and "c \<noteq> ''log_streaming''"
  shows "member_step c root tk path key v = Replace v"
  unfolding member_step_def Let_def
proof (rule member_chain_again [OF assms(1) [unfolded member_step_def Let_def]])
  show "Replace v = Replace (redactedValue child) \<Longrightarrow> redactedValue v = redactedValue child"
    by (simp only: step.inject redactedValue_idem)
  show "Replace v = Replace (normalizeUserStatus child) \<Longrightarrow>
      normalizeUserStatus v = normalizeUserStatus child"
    by (simp only: step.inject normalizeUserStatus_idem)
qed (use assms(2,3) in \<open>simp_all only: url_step_again simp_thms step.distinct\<close>)

lemma member_step_Descend_again:
  assumes "member_step c root tk path key child = Descend"
    and "c \<noteq> ''posture''" and "c \<noteq> ''log_streaming''"
  shows "member_step c root tk path key v = Descend"
  unfolding member_step_def Let_def
proof (rule member_chain_again [OF assms(1) [unfolded member_step_def Let_def]])
  show "(case redactedFingerprint child of Some e \<Rightarrow> Replace (fingerprint e)
     | None \<Rightarrow> Replace (fingerprint (sha256_hex (marshal child)))) = Descend \<Longrightarrow>
   (case redactedFingerprint v of Some e \<Rightarrow> Replace (fingerprint e)
     | None \<Rightarrow> Replace (fingerprint (sha256_hex (marshal v)))) = Descend"
    by (cases "redactedFingerprint child") simp_all
qed (use assms(2,3) in \<open>simp_all only: simp_thms step.distinct\<close>)

lemma normalize_idem:
  assumes "c \<noteq> ''posture''" and "c \<noteq> ''log_streaming''"
  shows "normalizeFor c (normalizeFor c v root tk path) root tk path = normalizeFor c v root tk path"
    and "normalizeMembers c (normalizeMembers c m root tk path) root tk path =
         normalizeMembers c m root tk path"
    and "normalizeItems c (normalizeItems c xs path) path = normalizeItems c xs path"
  using assms
proof (induction c v root tk path and c m root tk path and c xs path
    rule: normalizeFor_normalizeMembers_normalizeItems.induct)
  case (2 c xs root tk path)
  then have "\<forall>y \<in> set (normalizeItems c xs path). normalizeFor c y False False path = y"
    by (auto simp: normalizeItems_map map_eq_conv)
  then have "normalizeItems c (order_items c path (normalizeItems c xs path)) path =
      order_items c path (normalizeItems c xs path)"
    unfolding normalizeItems_map [of c "order_items c path (normalizeItems c xs path)"]
    by (intro map_idI) simp
  then show ?case by (simp add: order_items_idem)
next
  case (5 c key child m root tk path)
  show ?case
  proof (cases "member_step c root tk path key child")
    case Drop
    then show ?thesis using 5 by simp
  next
    case (Replace v)
    then show ?thesis
      using 5 member_step_Replace_again [OF Replace \<open>c \<noteq> ''posture''\<close> \<open>c \<noteq> ''log_streaming''\<close>] by simp
  next
    case Descend
    then show ?thesis
      using 5 member_step_Descend_again [OF Descend \<open>c \<noteq> ''posture''\<close> \<open>c \<noteq> ''log_streaming''\<close>] by simp
  qed
qed simp_all

subsection \<open>What is never stored\<close>

text \<open>Every member of \<open>v\<close> outside the tenant-keyed sections satisfies \<open>P\<close>, at every depth,
  except inside the \<open>status\<close> of a users, posture or log_streaming resource, which is a value of
  its own.\<close>

definition status_member :: "string \<Rightarrow> string \<Rightarrow> bool" where
  "status_member c name \<longleftrightarrow> c \<in> {''users'', ''posture'', ''log_streaming''} \<and> name = ''status''"

fun all_members :: "(string \<Rightarrow> json \<Rightarrow> bool) \<Rightarrow> string \<Rightarrow> bool \<Rightarrow> json \<Rightarrow> bool" where
  "all_members P c tk (JObj m) \<longleftrightarrow>
     (\<forall>(key, v) \<in> set m.
        (\<not> tk \<longrightarrow> P (compact_name key) v) \<and>
        (\<not> tk \<and> status_member c (compact_name key) \<or>
         all_members P c (tenantKeySection c (compact_name key)) v))"
| "all_members P c tk (JArr xs) \<longleftrightarrow> (\<forall>x \<in> set xs. all_members P c False x)"
| "all_members P c tk v \<longleftrightarrow> True"

text \<open>What may be stored under a member of this compacted name.\<close>

definition storable :: "string \<Rightarrow> string \<Rightarrow> json \<Rightarrow> bool" where
  "storable c name v \<longleftrightarrow>
     (name \<in> set redactedFields \<or> contains name ''url'' \<or> name = ''endpoint'' \<longrightarrow> is_fingerprint v) \<and>
     name \<notin> set ignored \<and> \<not> ignoredForCollector c name"

lemma member_step_result:
  assumes "member_step c root tk path key child = s"
  shows "s = Drop \<or> tk \<and> s = Descend \<or>
    s = Replace (JObj [(''configured'', JBool False)]) \<and> c = ''log_streaming'' \<and> root \<and>
      (tk \<or> collectorFieldAllowed c (compact_name key)) \<or>
    \<not> tk \<and> s = Replace (redactedValue child) \<and> compact_name key \<in> set redactedFields \<or>
    \<not> tk \<and> (\<exists>v. s = Replace v) \<and> status_member c (compact_name key) \<or>
    \<not> tk \<and> (s = Replace (redactedValue child) \<or>
      s = Descend \<and> compact_name key \<notin> set redactedFields \<and>
        \<not> contains (compact_name key) ''url'' \<and> compact_name key \<noteq> ''endpoint'') \<and>
      compact_name key \<notin> set ignored \<and> \<not> ignoredForCollector c (compact_name key)"
proof -
  have url: "(case redactedFingerprint child of Some e \<Rightarrow> Replace (fingerprint e)
     | None \<Rightarrow> Replace (fingerprint (sha256_hex (marshal child)))) = Replace (redactedValue child)"
    by (cases "redactedFingerprint child") (simp_all add: redactedValue_def)
  have pol: "\<not> (c = ''log_streaming'' \<and> c = ''policy'')" by simp
  have gen: "(if root \<and> \<not> (tk \<or> root \<and> p) \<and> \<not> a then Drop else if b2 then Drop else if b3 then Drop
     else if b4 then Drop
     else if l \<and> root \<and> u then Replace r1 else if tk then Descend else if b6 then Replace r2
     else if i1 \<or> i2 then Drop else if us \<and> st then Replace r3 else if (po \<or> l) \<and> st then Replace r4
     else if ur \<or> en then Replace r2 else Descend) = s \<Longrightarrow> \<not> (l \<and> p) \<Longrightarrow>
     s = Drop \<or> tk \<and> s = Descend \<or>
    s = Replace r1 \<and> l \<and> root \<and> (tk \<or> a) \<or>
    \<not> tk \<and> s = Replace r2 \<and> b6 \<or>
    \<not> tk \<and> (\<exists>v. s = Replace v) \<and> ((us \<or> po \<or> l) \<and> st) \<or>
    \<not> tk \<and> (s = Replace r2 \<or> s = Descend \<and> \<not> b6 \<and> \<not> ur \<and> \<not> en) \<and> \<not> i1 \<and> \<not> i2"
    for p a b2 b3 b4 l u r1 b6 r2 i1 i2 us st r3 po r4 ur en
    by (auto split: if_splits)
  show ?thesis
    using gen [OF assms [unfolded member_step_def Let_def url] pol]
    unfolding status_member_def insert_iff empty_iff simp_thms .
qed

lemma configured_storable: "all_members (storable c) c tk (JObj [(''configured'', JBool False)])"
proof -
  have "compact_name ''configured'' = ''configured''" by code_simp
  moreover have "\<not> contains ''configured'' ''url''" by code_simp
  ultimately show ?thesis
    by (simp add: storable_def redactedFields_def ignored_def ignoredForCollector_def)
qed

lemma fingerprint_storable: "all_members (storable c) c tk (redactedValue v)"
proof -
  have "compact_name ''redacted_sha256'' = ''redactedsha256''" by code_simp
  moreover have "\<not> contains ''redactedsha256'' ''url''" by code_simp
  ultimately show ?thesis
    by (auto simp: storable_def redactedFields_def ignored_def ignoredForCollector_def
        redactedValue_def fingerprint_def split: option.splits)
qed

lemma log_streaming_allowed:
  assumes "collectorFieldAllowed ''log_streaming'' name"
  shows "storable ''log_streaming'' name v"
proof -
  from assms have "name = ''configuration'' \<or> name = ''network''"
    by (simp add: collectorFieldAllowed_def collectorFields_def)
  moreover have "\<not> contains ''configuration'' ''url''" "\<not> contains ''network'' ''url''"
    by code_simp+
  ultimately show ?thesis
    by (auto simp: storable_def redactedFields_def ignored_def ignoredForCollector_def)
qed

lemma secret_not_ignored:
  assumes "name \<in> set redactedFields"
  shows "name \<notin> set ignored \<and> \<not> ignoredForCollector c name"
  using assms by (auto simp: redactedFields_def ignored_def ignoredForCollector_def)

lemma status_storable: "storable c ''status'' v"
proof -
  have "\<not> contains ''status'' ''url''" by code_simp
  then show ?thesis
    by (simp add: storable_def redactedFields_def ignored_def ignoredForCollector_def)
qed

lemma member_stored:
  assumes "member_step c root tk path key child = Replace v"
  shows "(\<not> tk \<longrightarrow> storable c (compact_name key) v) \<and>
    (\<not> tk \<and> status_member c (compact_name key) \<or>
     all_members (storable c) c (tenantKeySection c (compact_name key)) v)"
  using member_step_result [OF assms] secret_not_ignored [of "compact_name key" c]
    log_streaming_allowed [of "compact_name key" v] status_storable [of c v]
    is_fingerprint_redactedValue [of child] configured_storable fingerprint_storable
  by (auto simp: storable_def [of c "compact_name key" "redactedValue child"] status_member_def)

lemma normalize_storable:
  "all_members (storable c) c tk (normalizeFor c v root tk path)"
  "\<forall>(key, v) \<in> set (normalizeMembers c m root tk path).
     (\<not> tk \<longrightarrow> storable c (compact_name key) v) \<and>
     (\<not> tk \<and> status_member c (compact_name key) \<or>
      all_members (storable c) c (tenantKeySection c (compact_name key)) v)"
  "\<forall>x \<in> set (normalizeItems c xs path). all_members (storable c) c False x"
proof (induction c v root tk path and c m root tk path and c xs path
    rule: normalizeFor_normalizeMembers_normalizeItems.induct)
  case (5 c key child m root tk path)
  show ?case
  proof (cases "member_step c root tk path key child")
    case Drop
    then show ?thesis using 5 by simp
  next
    case (Replace v)
    then show ?thesis using 5 member_stored [OF Replace] by simp
  next
    case Descend
    then have "\<not> tk \<longrightarrow> storable c (compact_name key) v" for v
      using member_step_result [OF Descend] by (auto simp: storable_def)
    then show ?thesis using 5 Descend by simp
  qed
qed simp_all

subsection \<open>Order of lists\<close>

lemma marshal_items_join: "marshal_items xs = join '','' (map marshal xs)"
  by (induction xs rule: induct_list012) simp_all

lemma map_sort_marshal: "map marshal (sort_key marshal xs) = sort (map marshal xs)"
  by (rule sym, rule properties_for_sort) simp_all

lemma marshal_order_items:
  assumes "\<not> orderedArray c path" and "mset xs = mset ys"
  shows "marshal_items (order_items c path xs) = marshal_items (order_items c path ys)"
proof -
  have "sort (map marshal xs) = sort (map marshal ys)"
    using assms(2) by (metis mset_map sorted_list_of_multiset_mset)
  with assms(1) show ?thesis
    by (simp add: order_items_def sort_stable_key marshal_items_join map_sort_marshal)
qed

subsection \<open>Properties\<close>


text \<open>
  Normalising twice is normalising once, for every collector but the two whose health status
  is summarised. The store relies on it: it normalises the stored snapshot again before it
  compares it with a new observation.
\<close>

theorem normalize_idempotent:
  assumes "c \<noteq> ''posture''" and "c \<noteq> ''log_streaming''"
  shows "NormalizeFor c (NormalizeFor c v) = NormalizeFor c v"
  unfolding NormalizeFor_def by (rule normalize_idem [OF assms])

theorem normalize_idempotent_witness:
  "NormalizeFor ''users'' (NormalizeFor ''users'' (JObj [(''status'', JStr ''idle'')])) =
   NormalizeFor ''users'' (JObj [(''status'', JStr ''idle'')])"
  by (rule normalize_idempotent) simp_all

text \<open>
  C16. The health summary is not idempotent: the summary of a failing status, normalised again,
  reads as healthy. A stored posture or log-streaming snapshot with an error is therefore
  compared as if it had been healthy.
\<close>

theorem health_error_lost:
  assumes "normalizeHealthStatus v = JObj [(''state'', JStr ''error'')]"
  shows "normalizeHealthStatus (normalizeHealthStatus v) = JObj [(''state'', JStr ''healthy'')]"
proof -
  have "trim_space [] = []" by code_simp
  then show ?thesis
    by (simp add: assms normalizeHealthStatus_def[of "JObj _"] obj_get_def obj_string_def
        HealthStatusUnavailable_def)
qed

theorem health_error_lost_witness:
  "normalizeHealthStatus (normalizeHealthStatus (JObj [(''error'', JStr ''boom'')])) =
   JObj [(''state'', JStr ''healthy'')]"
  by (rule health_error_lost) code_simp

text \<open>
  The order in which an API returns an unordered list does not matter: two lists with the
  same elements have the same canonical text.
\<close>

theorem normalize_order_irrelevant:
  assumes "\<not> orderedArray c path" and "mset xs = mset ys"
  shows "marshal (normalizeFor c (JArr xs) root tk path) =
    marshal (normalizeFor c (JArr ys) root tk path)"
proof -
  have "mset (normalizeItems c xs path) = mset (normalizeItems c ys path)"
    unfolding normalizeItems_map mset_map assms(2) ..
  from marshal_order_items [OF assms(1) this] show ?thesis
    by (simp only: normalizeFor.simps marshal.simps)
qed

theorem normalize_order_irrelevant_witness:
  "marshal (normalizeFor ''devices'' (JArr [JStr ''fd7a::1'', JStr ''100.64.0.1'']) False False ''addresses'') =
   marshal (normalizeFor ''devices'' (JArr [JStr ''100.64.0.1'', JStr ''fd7a::1'']) False False ''addresses'')"
  by (rule normalize_order_irrelevant) (simp_all add: orderedArray_def)

text \<open>
  In a section whose keys are names the tenant chose (policy groups, tag owners and hosts;
  split DNS, name servers and search paths) every key survives normalisation, whatever it is
  called: none is redacted or dropped as volatile, and its value is normalised, not replaced.
\<close>

theorem tenant_keys_visible:
  assumes "tenantKeySection c (compact_name sect)"
  shows "\<exists>m'. normalizeFor c (JObj m) True True sect = JObj m' \<and> obj_keys m' = obj_keys m \<and>
    (\<forall>key v. (key, v) \<in> set m \<longrightarrow>
       (key, normalizeFor c v False (tenantKeySection c (compact_name key)) (child_path sect key)) \<in> set m')"
proof -
  from assms have "c = ''policy'' \<or> c = ''dns''"
    by (auto simp: tenantKeySection_def split: if_splits)
  then have "c \<noteq> ''device_details''" and "c \<noteq> ''log_streaming''" by auto
  then have "member_step c True True sect key v = Descend" for key v
    by (simp only: member_step_def Let_def simp_thms if_True if_False)
  then have "obj_keys (normalizeMembers c m True True sect) = obj_keys m \<and>
    (\<forall>key v. (key, v) \<in> set m \<longrightarrow>
       (key, normalizeFor c v False (tenantKeySection c (compact_name key)) (child_path sect key))
         \<in> set (normalizeMembers c m True True sect))"
    by (induction m) auto
  then show ?thesis by simp
qed

theorem tenant_keys_visible_witness:
  "\<exists>m'. normalizeFor ''policy'' (JObj [(''secret'', JArr [])]) True True ''groups'' = JObj m' \<and>
     obj_keys m' = [''secret'']"
proof -
  have "compact_name ''groups'' = ''groups''" by code_simp
  then have "tenantKeySection ''policy'' (compact_name ''groups'')"
    by (simp add: tenantKeySection_def)
  from tenant_keys_visible [OF this, of "[(''secret'', JArr [])]"] show ?thesis
    by (auto simp: obj_keys_def)
qed

end
