(* ===== verification/Model_Diff.thy ===== *)
theory Model_Diff
  imports Model
begin

text \<open>
  \<open>internal/model/model.go\<close>, second half: the field-by-field comparison of two canonical
  values (\<open>DiffDetailedFor\<close>) and the paths it reports.

  \<open>diff\<close> is the source's method on \<open>differ\<close>, its receiver's \<open>result\<close> threaded as a state. A
  member that a Go map lookup does not find is the zero value \<open>nil\<close> with \<open>false\<close>; here it is
  \<open>JNull\<close> with \<open>False\<close>. The recursion ends because each step goes into a member or element of
  one of the two values. \<open>all_changes\<close> is the abstract comparison: the list of every change,
  unbounded; the code's bounded result is proved to be its first 24 entries, its length, and
  whether it was cut.
\<close>

subsection \<open>Paths\<close>

definition maxDiffFields :: nat where "maxDiffFields = 24"

definition maxIdentityBytes :: nat where "maxIdentityBytes = 128"

definition identityKeys :: "string list" where
  "identityKeys = [''id'', ''nodeId'', ''address'']"

definition ElementPath :: "string \<Rightarrow> string \<Rightarrow> string" where
  "ElementPath path ident = path @ ''['' @ ident @ '']''"

text \<open>\<open>None\<close> is \<open>ok = false\<close>.\<close>

definition ElementPathParts :: "string \<Rightarrow> (string \<times> string) option" where
  "ElementPathParts path =
     (if \<not> has_suffix path '']'' then None
      else
        (case last_index_of (\<lambda>c. c = CHR ''['') path of
           None \<Rightarrow> None
         | Some i \<Rightarrow>
             if i = 0 \<or> int i = int (length path) - 2 then None
             else Some (take i path, take (length path - 1 - (i + 1)) (drop (i + 1) path))))"

text \<open>The loop over the runes of a path; brackets are ASCII and occur as runes of their own.\<close>

fun generic_runes :: "bool \<Rightarrow> string list \<Rightarrow> string" where
  "generic_runes inside [] = []"
| "generic_runes inside (r # rs) =
     (if r = ''['' then r @ generic_runes True rs
      else if r = '']'' then r @ generic_runes False rs
      else if \<not> inside then r @ generic_runes inside rs
      else generic_runes inside rs)"

definition GenericPath :: "string \<Rightarrow> string" where
  "GenericPath path = (if \<not> contains path ''['' then path else generic_runes False (runes path))"

definition FieldRoot :: "string \<Rightarrow> string" where
  "FieldRoot path =
     (case index_of (\<lambda>c. c = CHR ''.'' \<or> c = CHR ''['') path of
        Some i \<Rightarrow> take i path
      | None \<Rightarrow> path)"

subsection \<open>The identity of a list element\<close>

definition elementIdentity :: "string \<Rightarrow> json \<Rightarrow> string option" where
  "elementIdentity key element =
     (case element of
        JObj m \<Rightarrow>
          (let checked = (\<lambda>ident.
             if ident = '''' \<or> maxIdentityBytes < length ident \<or> contains_any ident ''[]''
                \<or> has_control ident
             then None else Some ident)
           in case obj_get m key of
                Some (JStr s) \<Rightarrow> checked s
              | Some (JNum f) \<Rightarrow> checked (float_text f)
              | _ \<Rightarrow> None)
      | _ \<Rightarrow> None)"

fun identified_from :: "string \<Rightarrow> string list \<Rightarrow> json list \<Rightarrow> bool" where
  "identified_from key seen [] = True"
| "identified_from key seen (x # xs) =
     (case elementIdentity key x of
        None \<Rightarrow> False
      | Some ident \<Rightarrow> if ident \<in> set seen then False else identified_from key (ident # seen) xs)"

definition identifiedBy :: "string \<Rightarrow> json list \<Rightarrow> bool" where
  "identifiedBy key xs = identified_from key [] xs"

fun first_identity :: "string list \<Rightarrow> json list \<Rightarrow> json list \<Rightarrow> string option" where
  "first_identity [] oldList newList = None"
| "first_identity (key # ks) oldList newList =
     (if identifiedBy key oldList \<and> identifiedBy key newList then Some key
      else first_identity ks oldList newList)"

definition arrayIdentity :: "json list \<Rightarrow> json list \<Rightarrow> string option" where
  "arrayIdentity oldList newList = first_identity identityKeys oldList newList"

subsection \<open>One change\<close>

definition compact :: "json \<Rightarrow> json" where
  "compact v =
     (let raw = marshal v in
      if length raw \<le> 240 then v else JStr (truncate_text raw 240))"

definition compactPreservingNull :: "json \<Rightarrow> goany" where
  "compactPreservingNull v = (if v = JNull then RawNull else GoVal (compact v))"

definition valueChange :: "string \<Rightarrow> json \<Rightarrow> bool \<Rightarrow> json \<Rightarrow> bool \<Rightarrow> field_change" where
  "valueChange path oldValue oldPresent newValue newPresent =
     \<lparr> Field = path,
       Old = (if oldPresent then compactPreservingNull oldValue else GoNil),
       New = (if newPresent then compactPreservingNull newValue else GoNil),
       OldPresent = oldPresent,
       NewPresent = newPresent \<rparr>"

definition diffJSON :: "json \<Rightarrow> bool \<Rightarrow> string" where
  "diffJSON v present = (if \<not> present then ''<missing>'' else marshal v)"

definition empty_result :: diff_result where
  "empty_result = \<lparr> Fields = [], FieldsTruncated = False, TotalFields = 0 \<rparr>"

text \<open>Lines 487 to 492.\<close>

definition add_change :: "diff_result \<Rightarrow> field_change \<Rightarrow> diff_result" where
  "add_change res change =
     (let res = res\<lparr>TotalFields := TotalFields res + 1\<rparr>
      in if length (Fields res) < maxDiffFields then res\<lparr>Fields := Fields res @ [change]\<rparr>
         else res\<lparr>FieldsTruncated := True\<rparr>)"

definition diff_leaf :: "string \<Rightarrow> json \<Rightarrow> bool \<Rightarrow> json \<Rightarrow> bool \<Rightarrow> diff_result \<Rightarrow> diff_result" where
  "diff_leaf path oldValue oldPresent newValue newPresent res =
     (if diffJSON oldValue oldPresent = diffJSON newValue newPresent then res
      else add_change res
             (valueChange (if path = '''' then ''value'' else path) oldValue oldPresent newValue newPresent))"

subsection \<open>The comparison\<close>

text \<open>The two lists to compare (lines 458 to 471): a list that appears from, or disappears into,
  null or absence is compared with the empty list.\<close>

definition as_list :: "json \<Rightarrow> json list option" where
  "as_list v = (case v of JArr xs \<Rightarrow> Some xs | _ \<Rightarrow> None)"

definition list_pair :: "string \<Rightarrow> json \<Rightarrow> json \<Rightarrow> (json list \<times> json list) option" where
  "list_pair path oldValue newValue =
     (case (as_list oldValue, as_list newValue) of
        (Some xs, Some ys) \<Rightarrow> Some (xs, ys)
      | (None, Some ys) \<Rightarrow>
          if path \<noteq> '''' \<and> oldValue = JNull \<and> ys \<noteq> [] then Some ([], ys) else None
      | (Some xs, None) \<Rightarrow>
          if path \<noteq> '''' \<and> newValue = JNull \<and> xs \<noteq> [] then Some (xs, []) else None
      | (None, None) \<Rightarrow> None)"

definition identity_of :: "string \<Rightarrow> json \<Rightarrow> string" where
  "identity_of key v = (case elementIdentity key v of Some ident \<Rightarrow> ident | None \<Rightarrow> '''')"

definition by_identity :: "string \<Rightarrow> json list \<Rightarrow> string \<Rightarrow> json option" where
  "by_identity key xs ident = map_of (rev (map (\<lambda>v. (identity_of key v, v)) xs)) ident"

definition keyed_ids :: "string \<Rightarrow> json list \<Rightarrow> json list \<Rightarrow> string list" where
  "keyed_ids key oldList newList =
     sort (map (identity_of key) oldList @
           filter (\<lambda>ident. by_identity key oldList ident = None) (map (identity_of key) newList))"

definition or_nil :: "json option \<Rightarrow> json" where
  "or_nil v = (case v of Some x \<Rightarrow> x | None \<Rightarrow> JNull)"

text \<open>The comparisons a step continues with: \<open>None\<close> when the two values are compared as one
  value, otherwise the sub-paths with what each side has there.\<close>

type_synonym side = "json \<times> bool"

definition member_parts :: "string \<Rightarrow> object \<Rightarrow> object \<Rightarrow> (string \<times> json option \<times> json option) list" where
  "member_parts path oldMap newMap =
     map (\<lambda>key. (child_path path key, obj_get oldMap key, obj_get newMap key))
       (sorted_uniq (obj_keys oldMap @ obj_keys newMap))"

definition element_parts ::
  "string \<Rightarrow> string \<Rightarrow> json list \<Rightarrow> json list \<Rightarrow> (string \<times> json option \<times> json option) list" where
  "element_parts path key oldList newList =
     map (\<lambda>ident. (ElementPath path ident, by_identity key oldList ident, by_identity key newList ident))
       (keyed_ids key oldList newList)"

definition diff_parts :: "string \<Rightarrow> string \<Rightarrow> json \<Rightarrow> bool \<Rightarrow> json \<Rightarrow> bool \<Rightarrow>
    (string \<times> json option \<times> json option) list option" where
  "diff_parts collector path oldValue oldPresent newValue newPresent =
     (case (oldValue, newValue, oldPresent \<and> newPresent) of
        (JObj oldMap, JObj newMap, True) \<Rightarrow> Some (member_parts path oldMap newMap)
      | _ \<Rightarrow>
          if orderedArray collector path then None
          else
            (case list_pair path oldValue newValue of
               None \<Rightarrow> None
             | Some (oldList, newList) \<Rightarrow>
                 (case arrayIdentity oldList newList of
                    None \<Rightarrow> None
                  | Some key \<Rightarrow> Some (element_parts path key oldList newList))))"

lemma by_identity_in: "by_identity key xs ident = Some v \<Longrightarrow> v \<in> set xs"
  by (auto simp: by_identity_def dest!: map_of_SomeD)

lemma size_list_member: "v \<in> set xs \<Longrightarrow> size v < Suc (size_list size (xs :: json list))"
  by (induction xs) auto

lemma size_obj_member: "obj_get m k = Some v \<Longrightarrow> size v < size (JObj m)"
  by (induction m) (auto simp: obj_get_def split: if_splits)

lemma parts_smaller:
  assumes "diff_parts c path a aP b bP = Some parts" and "part \<in> set parts"
  shows "size (or_nil (fst (snd part))) + size (or_nil (snd (snd part))) < size a + size b"
proof -
  have items: "by_identity key xs i = None \<or>
      (\<exists>v. by_identity key xs i = Some v \<and> size v < Suc (size_list size xs))" for key xs i
    using by_identity_in [of key xs i] size_list_member by (cases "by_identity key xs i") auto
  have elements: "list_pair path a b = Some (xs, ys) \<Longrightarrow>
      size (or_nil (by_identity key xs i)) + size (or_nil (by_identity key ys i)) < size a + size b"
    for key xs ys i
    using items [of key xs i] items [of key ys i]
    by (auto simp: list_pair_def as_list_def or_nil_def by_identity_def
        split: json.splits if_splits option.splits)
  have members: "obj_get m k = None \<or> (\<exists>v. obj_get m k = Some v \<and> size v < size (JObj m))" for m k
    using size_obj_member [of m k] by (cases "obj_get m k") auto
  have "a = JObj m \<Longrightarrow> b = JObj n \<Longrightarrow>
      size (or_nil (obj_get m k)) + size (or_nil (obj_get n k)) < size a + size b" for m n k
    using members [of m k] members [of n k] by (auto simp: or_nil_def)
  with assms elements show ?thesis
    by (auto simp: diff_parts_def member_parts_def element_parts_def
        split: json.splits bool.splits if_splits option.splits prod.splits)
qed

function diff :: "string \<Rightarrow> string \<Rightarrow> json \<Rightarrow> bool \<Rightarrow> json \<Rightarrow> bool \<Rightarrow> diff_result \<Rightarrow> diff_result" where
  "diff collector path oldValue oldPresent newValue newPresent res =
     (case diff_parts collector path oldValue oldPresent newValue newPresent of
        None \<Rightarrow> diff_leaf path oldValue oldPresent newValue newPresent res
      | Some parts \<Rightarrow>
          foldl (\<lambda>res part.
              diff collector (fst part)
                (or_nil (fst (snd part))) (fst (snd part) \<noteq> None)
                (or_nil (snd (snd part))) (snd (snd part) \<noteq> None) res)
            res parts)"
  by pat_completeness auto
termination
  by (relation "measure (\<lambda>(c, p, a, aP, b, bP, res). size a + size b)") (auto dest: parts_smaller)

declare diff.simps [simp del]

definition DiffDetailedFor :: "string \<Rightarrow> string \<Rightarrow> string \<Rightarrow> diff_result" where
  "DiffDetailedFor collector oldRaw newRaw =
     (case (unmarshal oldRaw, unmarshal newRaw) of
        (Some oldValue, Some newValue) \<Rightarrow> diff collector '''' oldValue True newValue True empty_result
      | _ \<Rightarrow>
          \<lparr> Fields = [valueChange ''value'' (JStr oldRaw) True (JStr newRaw) True],
            FieldsTruncated = False, TotalFields = 1 \<rparr>)"

definition DiffDetailed :: "string \<Rightarrow> string \<Rightarrow> diff_result" where
  "DiffDetailed oldRaw newRaw = DiffDetailedFor '''' oldRaw newRaw"

definition Diff :: "string \<Rightarrow> string \<Rightarrow> field_change list" where
  "Diff oldRaw newRaw = Fields (DiffDetailed oldRaw newRaw)"

subsection \<open>The abstract comparison\<close>

function all_changes :: "string \<Rightarrow> string \<Rightarrow> json \<Rightarrow> bool \<Rightarrow> json \<Rightarrow> bool \<Rightarrow> field_change list" where
  "all_changes collector path oldValue oldPresent newValue newPresent =
     (case diff_parts collector path oldValue oldPresent newValue newPresent of
        None \<Rightarrow>
          if diffJSON oldValue oldPresent = diffJSON newValue newPresent then []
          else [valueChange (if path = '''' then ''value'' else path)
                  oldValue oldPresent newValue newPresent]
      | Some parts \<Rightarrow>
          concat (map (\<lambda>part.
              all_changes collector (fst part)
                (or_nil (fst (snd part))) (fst (snd part) \<noteq> None)
                (or_nil (snd (snd part))) (snd (snd part) \<noteq> None)) parts))"
  by pat_completeness auto
termination
  by (relation "measure (\<lambda>(c, p, a, aP, b, bP). size a + size b)") (auto dest: parts_smaller)

declare all_changes.simps [simp del]

lemma diff_adds: "diff c path a aP b bP res = foldl add_change res (all_changes c path a aP b bP)"
proof (induction c path a aP b bP res rule: diff.induct)
  case (1 c path a aP b bP res)
  show ?case
  proof (cases "diff_parts c path a aP b bP")
    case None
    then show ?thesis by (simp add: diff.simps all_changes.simps diff_leaf_def)
  next
    case (Some parts)
    define f where "f = (\<lambda>res part. diff c (fst part)
                (or_nil (fst (snd part))) (fst (snd part) \<noteq> None)
                (or_nil (snd (snd part))) (snd (snd part) \<noteq> None) res)"
    define g where "g = (\<lambda>part. all_changes c (fst part)
                (or_nil (fst (snd part))) (fst (snd part) \<noteq> None)
                (or_nil (snd (snd part))) (snd (snd part) \<noteq> None))"
    have step: "part \<in> set parts \<Longrightarrow> f r part = foldl add_change r (g part)" for part r
      unfolding f_def g_def by (rule 1 [OF Some])
    have "set ps \<subseteq> set parts \<Longrightarrow> foldl f r ps = foldl add_change r (concat (map g ps))" for ps r
      by (induction ps arbitrary: r) (simp_all add: step)
    from this [of parts res] show ?thesis
      by (simp add: diff.simps all_changes.simps Some f_def g_def)
  qed
qed

lemma foldl_add_change:
  "length (Fields res) \<le> maxDiffFields \<Longrightarrow>
   foldl add_change res cs =
     res\<lparr>Fields := Fields res @ take (maxDiffFields - length (Fields res)) cs,
         FieldsTruncated := FieldsTruncated res \<or> maxDiffFields - length (Fields res) < length cs,
         TotalFields := TotalFields res + length cs\<rparr>"
proof (induction cs arbitrary: res)
  case Nil
  then show ?case by simp
next
  case (Cons c cs)
  show ?case
  proof (cases "length (Fields res) < maxDiffFields")
    case True
    then have "maxDiffFields - length (Fields res) = Suc (maxDiffFields - Suc (length (Fields res)))"
      by simp
    with Cons True show ?thesis by (simp add: add_change_def Let_def)
  next
    case False
    with Cons show ?thesis by (simp add: add_change_def Let_def)
  qed
qed

subsection \<open>Canonical values\<close>

lemma hex_utf8: "hex_decode s \<noteq> None \<Longrightarrow> valid_utf8 s"
  using hex_decode_ascii by (auto intro: valid_utf8_ascii)

lemma fingerprint_ok: "json_ok (redactedValue v)"
proof -
  have "valid_utf8 ''redacted_sha256''" by code_simp
  moreover have "valid_utf8 h" if "redactedFingerprint v = Some h" for h
    using redactedFingerprint_Some [OF that] by (intro hex_utf8) simp
  moreover have "valid_utf8 (sha256_hex (marshal v))"
    by (intro hex_utf8) simp
  ultimately show ?thesis
    by (auto simp: redactedValue_def fingerprint_def split: option.splits)
qed

lemma health_ok: "json_ok v \<Longrightarrow> json_ok (normalizeHealthStatus v)"
proof -
  have "valid_utf8 ''state''" "valid_utf8 ''healthy''" "valid_utf8 ''error''" "valid_utf8 ''unavailable''"
    by code_simp+
  then show "json_ok v \<Longrightarrow> json_ok (normalizeHealthStatus v)"
    by (cases v) (simp_all add: normalizeHealthStatus_def HealthStatusUnavailable_def Let_def)
qed

lemma user_status_ok: "json_ok v \<Longrightarrow> json_ok (normalizeUserStatus v)"
proof -
  have "valid_utf8 ''enabled''" by code_simp
  then show "json_ok v \<Longrightarrow> json_ok (normalizeUserStatus v)" by (simp add: normalizeUserStatus_def)
qed

lemma member_step_ok:
  assumes "member_step c root tk path key child = Replace v" and "json_ok child"
  shows "json_ok v"
proof -
  have cfg: "json_ok (JObj [(''configured'', JBool False)])"
  proof -
    have "valid_utf8 ''configured''" by code_simp
    then show ?thesis by simp
  qed
  have url: "(case redactedFingerprint child of Some e \<Rightarrow> Replace (fingerprint e)
     | None \<Rightarrow> Replace (fingerprint (sha256_hex (marshal child)))) = Replace (redactedValue child)"
    by (cases "redactedFingerprint child") (simp_all add: redactedValue_def)
  have gen: "(if b1 then Drop else if b2 then Drop else if b3 then Drop else if b4 then Drop
     else if b5 then Replace r1 else if tk then Descend else if b6 then Replace r2
     else if b7 then Drop else if b8 then Replace r3 else if b9 then Replace r4
     else if b10 then Replace r2 else Descend) = Replace v \<Longrightarrow> v \<in> {r1, r2, r3, r4}"
    for b1 b2 b3 b4 b5 b6 b7 b8 b9 b10 r1 r2 r3 r4
    by (auto split: if_splits)
  show ?thesis
    using gen [OF assms(1) [unfolded member_step_def Let_def url]]
      cfg fingerprint_ok health_ok [OF assms(2)] user_status_ok [OF assms(2)] by blast
qed

fun sorted_arrays :: "json \<Rightarrow> bool" where
  "sorted_arrays (JArr xs) \<longleftrightarrow> sorted (map marshal xs) \<and> (\<forall>x \<in> set xs. sorted_arrays x)"
| "sorted_arrays (JObj m) \<longleftrightarrow> (\<forall>(k, v) \<in> set m. sorted_arrays v)"
| "sorted_arrays v \<longleftrightarrow> True"

lemma normalizeMembers_keys:
  "set (obj_keys (normalizeMembers c m root tk path)) \<subseteq> set (obj_keys m)"
  by (induction m) (auto split: step.splits)

lemma normalize_json_ok:
  "json_ok v \<Longrightarrow> json_ok (normalizeFor c v root tk path)"
  "json_ok (JObj m) \<Longrightarrow> json_ok (JObj (normalizeMembers c m root tk path))"
  "\<forall>x \<in> set xs. json_ok x \<Longrightarrow> \<forall>x \<in> set (normalizeItems c xs path). json_ok x"
proof (induction c v root tk path and c m root tk path and c xs path
    rule: normalizeFor_normalizeMembers_normalizeItems.induct)
  case (5 c key child m root tk path)
  have keys: "\<forall>k \<in> set (obj_keys (normalizeMembers c m root tk path)). key < k"
    using 5(5) normalizeMembers_keys [of c m root tk path] by auto
  show ?case
  proof (cases "member_step c root tk path key child")
    case Drop
    then show ?thesis using 5 by simp
  next
    case (Replace v)
    then show ?thesis using 5 keys member_step_ok [OF Replace] by simp
  next
    case Descend
    then show ?thesis using 5 keys by simp
  qed
qed simp_all

lemma normalize_sorted_arrays:
  assumes "c \<noteq> ''dns''" and "c \<notin> {''users'', ''posture'', ''log_streaming''}"
  shows "sorted_arrays (normalizeFor c v root tk path)"
    and "sorted_arrays (JObj (normalizeMembers c m root tk path))"
    and "\<forall>x \<in> set (normalizeItems c xs path). sorted_arrays x"
  using assms
proof (induction c v root tk path and c m root tk path and c xs path
    rule: normalizeFor_normalizeMembers_normalizeItems.induct)
  case (2 c xs root tk path)
  then have "\<not> orderedArray c path" by (simp add: orderedArray_def)
  then have "sorted (map marshal (order_items c path (normalizeItems c xs path)))"
    by (simp add: order_items_def sort_stable_key)
  with 2 show ?case by simp
next
  case (5 c key child m root tk path)
  show ?case
  proof (cases "member_step c root tk path key child")
    case (Replace v)
    then have "\<not> status_member c (compact_name key)" using 5 by (simp add: status_member_def)
    with member_step_result [OF Replace] have "sorted_arrays v"
      by (auto simp: redactedValue_def fingerprint_def split: option.splits)
    then show ?thesis using 5 Replace by simp
  qed (use 5 in simp_all)
qed simp_all

subsection \<open>Completeness of the comparison\<close>

lemma marshal_not_missing: "json_ok v \<Longrightarrow> marshal v \<noteq> ''<missing>''"
  using marshal_hd [of v] by auto

lemma diffJSON_eq:
  assumes "\<forall>v. a = Some v \<longrightarrow> json_ok v" and "\<forall>v. b = Some v \<longrightarrow> json_ok v"
  shows "diffJSON (or_nil a) (a \<noteq> None) = diffJSON (or_nil b) (b \<noteq> None) \<longleftrightarrow> a = b"
  using assms marshal_not_missing marshal_inj
  by (cases a; cases b) (auto simp: diffJSON_def or_nil_def dest: sym)

lemma identified_from_facts:
  "identified_from key seen xs \<Longrightarrow>
   (\<forall>x \<in> set xs. elementIdentity key x = Some (identity_of key x)) \<and>
   distinct (map (identity_of key) xs) \<and> set (map (identity_of key) xs) \<inter> set seen = {}"
  by (induction key seen xs rule: identified_from.induct)
    (auto simp: identity_of_def split: option.splits if_splits)

lemma identifiedBy_distinct: "identifiedBy key xs \<Longrightarrow> distinct (map (identity_of key) xs)"
  using identified_from_facts by (simp add: identifiedBy_def)

lemma by_identity_iff:
  assumes "distinct (map (identity_of key) xs)"
  shows "by_identity key xs i = Some v \<longleftrightarrow> v \<in> set xs \<and> identity_of key v = i"
proof -
  have "distinct (map fst (rev (map (\<lambda>v. (identity_of key v, v)) xs)))"
    using assms by (simp add: comp_def flip: rev_map)
  then show ?thesis by (auto simp: by_identity_def map_of_eq_Some_iff)
qed

lemma first_identity_identified:
  "first_identity ks xs ys = Some key \<Longrightarrow> identifiedBy key xs \<and> identifiedBy key ys"
  by (induction ks) (auto split: if_splits)

lemma keyed_same_set:
  assumes key: "arrayIdentity xs ys = Some key"
    and same: "\<forall>i \<in> set (keyed_ids key xs ys). by_identity key xs i = by_identity key ys i"
  shows "set xs = set ys"
proof -
  have dx: "distinct (map (identity_of key) xs)" and dy: "distinct (map (identity_of key) ys)"
    using first_identity_identified key identifiedBy_distinct by (auto simp: arrayIdentity_def)
  note ix = by_identity_iff [OF dx] and iy = by_identity_iff [OF dy]
  have sub: "x \<in> set ys" if "x \<in> set xs" for x
  proof -
    have "identity_of key x \<in> set (keyed_ids key xs ys)" using that by (simp add: keyed_ids_def)
    with same ix [of "identity_of key x" x] that have "by_identity key ys (identity_of key x) = Some x"
      by simp
    then show ?thesis by (simp add: iy)
  qed
  have "y \<in> set xs" if y: "y \<in> set ys" for y
  proof (cases "by_identity key xs (identity_of key y)")
    case None
    with y have "identity_of key y \<in> set (keyed_ids key xs ys)" by (simp add: keyed_ids_def)
    with same None have "by_identity key ys (identity_of key y) = None" by simp
    with iy [of "identity_of key y" y] y show ?thesis by simp
  next
    case (Some x)
    then have "x \<in> set xs" and ident: "identity_of key x = identity_of key y" by (simp_all add: ix)
    then have "identity_of key y \<in> identity_of key ` set xs" by (intro image_eqI) simp_all
    then have "identity_of key y \<in> set (keyed_ids key xs ys)"
      by (simp add: keyed_ids_def)
    with same Some have "by_identity key ys (identity_of key y) = Some x" by simp
    with iy [of "identity_of key y" y] y have "x = y" by simp
    with \<open>x \<in> set xs\<close> show ?thesis by simp
  qed
  with sub show ?thesis by blast
qed

lemma keyed_same_list:
  assumes key: "arrayIdentity xs ys = Some key" and "set xs = set ys"
    and ok: "\<forall>x \<in> set xs. json_ok x" "sorted (map marshal xs)" "sorted (map marshal ys)"
  shows "xs = ys"
proof -
  have "distinct xs" "distinct ys"
    using first_identity_identified [OF key [unfolded arrayIdentity_def]] identifiedBy_distinct
    by (auto simp: distinct_map)
  moreover have inj: "inj_on marshal (set xs)" using ok(1) marshal_inj by (auto intro: inj_onI)
  ultimately have "map marshal xs = map marshal ys"
    using assms by (intro sorted_distinct_set_unique) (auto simp: distinct_map)
  then show ?thesis
    using inj assms(2) by (simp add: inj_on_map_eq_map)
qed

lemma obj_ext:
  assumes "obj_ok m" and "obj_ok n" and "\<And>k. obj_get m k = obj_get n k"
  shows "m = n"
proof -
  have keys: "set (obj_keys m) = {k. obj_get m k \<noteq> None}" for m
    by (auto simp: obj_get_def obj_keys_def map_of_eq_None_iff)
  have "obj_keys m = obj_keys n"
    using assms keys by (intro strict_sorted_equal) (auto simp: obj_ok_def)
  then have f: "map fst m = map fst n" and len: "length m = length n"
    by (simp_all add: obj_keys_def) (metis length_map)
  show ?thesis
  proof (rule nth_equalityI [OF len])
    fix i assume i: "i < length m"
    have fst: "fst (m ! i) = fst (n ! i)" using f i len by (metis nth_map)
    have "map_of m (fst (m ! i)) = Some (snd (m ! i))" "map_of n (fst (n ! i)) = Some (snd (n ! i))"
      using i len obj_ok_distinct [OF assms(1)] obj_ok_distinct [OF assms(2)]
      by (simp_all add: obj_keys_def)
    with fst assms(3) [of "fst (m ! i)"] show "m ! i = n ! i"
      by (simp add: obj_get_def prod_eq_iff)
  qed
qed

definition side_ok :: "json option \<Rightarrow> bool" where
  "side_ok a \<longleftrightarrow> (\<forall>v. a = Some v \<longrightarrow> json_ok v \<and> sorted_arrays v)"

lemma parts_same:
  assumes parts: "diff_parts c path (or_nil a) (a \<noteq> None) (or_nil b) (b \<noteq> None) = Some parts"
    and ok: "side_ok a" "side_ok b"
    and same: "\<forall>part \<in> set parts. fst (snd part) = snd (snd part)"
  shows "a = b"
proof (cases "\<exists>m n. a = Some (JObj m) \<and> b = Some (JObj n)")
  case True
  then obtain m n where ab: "a = Some (JObj m)" "b = Some (JObj n)" by blast
  with parts have p: "parts = member_parts path m n"
    by (simp add: diff_parts_def or_nil_def)
  have "obj_get m k = obj_get n k" for k
  proof (cases "k \<in> set (obj_keys m @ obj_keys n)")
    case True
    then have "(child_path path k, obj_get m k, obj_get n k) \<in> set parts"
      by (auto simp: p member_parts_def)
    with same show ?thesis by fastforce
  next
    case False
    then have "obj_get m k = None" "obj_get n k = None"
      by (auto simp: obj_get_def obj_keys_def map_of_eq_None_iff)
    then show ?thesis by simp
  qed
  with ab ok show ?thesis by (auto simp: side_ok_def intro: obj_ext)
next
  case False
  then obtain xs ys key where lp: "list_pair path (or_nil a) (or_nil b) = Some (xs, ys)"
    and key: "arrayIdentity xs ys = Some key" and p: "parts = element_parts path key xs ys"
    using parts
    by (cases a; cases b) (auto simp: diff_parts_def or_nil_def
        split: json.splits bool.splits if_splits option.splits prod.splits)
  have "\<forall>i \<in> set (keyed_ids key xs ys). by_identity key xs i = by_identity key ys i"
    using same by (auto simp: p element_parts_def)
  then have st: "set xs = set ys" by (rule keyed_same_set [OF key])
  then have "or_nil a = JArr xs" "or_nil b = JArr ys"
    using lp by (auto simp: list_pair_def as_list_def split: json.splits if_splits option.splits)
  then have ab: "a = Some (JArr xs)" "b = Some (JArr ys)"
    by (auto simp: or_nil_def split: option.splits)
  with ok have "xs = ys"
    by (intro keyed_same_list [OF key st]) (auto simp: side_ok_def)
  with ab show ?thesis by simp
qed

lemma parts_ok:
  assumes parts: "diff_parts c path (or_nil a) aP (or_nil b) bP = Some parts"
    and ok: "side_ok a" "side_ok b" and part: "part \<in> set parts"
  shows "side_ok (fst (snd part)) \<and> side_ok (snd (snd part))"
proof -
  have members: "side_ok (obj_get m k)" if "json_ok (JObj m)" "sorted_arrays (JObj m)" for m k
    using that by (auto simp: side_ok_def obj_get_def dest!: map_of_SomeD)
  have elements: "side_ok (by_identity key xs i)"
    if "\<forall>x \<in> set xs. json_ok x \<and> sorted_arrays x" for key xs i
    using that by (auto simp: side_ok_def dest!: by_identity_in)
  have lists: "\<forall>x \<in> set xs. json_ok x \<and> sorted_arrays x" "\<forall>y \<in> set ys. json_ok y \<and> sorted_arrays y"
    if "list_pair path (or_nil a) (or_nil b) = Some (xs, ys)" for xs ys
    using that ok
    by (auto simp: list_pair_def as_list_def side_ok_def or_nil_def
        split: json.splits if_splits option.splits)
  have objs: "json_ok (JObj m) \<and> sorted_arrays (JObj m)" if "or_nil a = JObj m" for m
    using that ok by (auto simp: or_nil_def side_ok_def split: option.splits)
  have objs': "json_ok (JObj m) \<and> sorted_arrays (JObj m)" if "or_nil b = JObj m" for m
    using that ok by (auto simp: or_nil_def side_ok_def split: option.splits)
  from parts consider (obj) m n where "or_nil a = JObj m" "or_nil b = JObj n" "parts = member_parts path m n"
    | (list) xs ys key where "list_pair path (or_nil a) (or_nil b) = Some (xs, ys)"
        "parts = element_parts path key xs ys"
    by (auto simp: diff_parts_def split: json.splits bool.splits if_splits option.splits prod.splits)
  then show ?thesis
  proof cases
    case obj
    with part objs [of m] objs' [of n] members show ?thesis by (auto simp: member_parts_def)
  next
    case list
    with part lists [OF list(1)] elements show ?thesis by (auto simp: element_parts_def)
  qed
qed

lemma no_change_same:
  assumes "side_ok a" and "side_ok b"
    and "all_changes c path (or_nil a) (a \<noteq> None) (or_nil b) (b \<noteq> None) = []"
  shows "a = b"
  using assms
proof (induction "size (or_nil a) + size (or_nil b)" arbitrary: a b path rule: less_induct)
  case less
  show ?case
  proof (cases "diff_parts c path (or_nil a) (a \<noteq> None) (or_nil b) (b \<noteq> None)")
    case None
    with less.prems have "diffJSON (or_nil a) (a \<noteq> None) = diffJSON (or_nil b) (b \<noteq> None)"
      by (subst (asm) all_changes.simps) (simp split: if_splits)
    with less.prems show ?thesis
      by (subst (asm) diffJSON_eq) (auto simp: side_ok_def)
  next
    case (Some parts)
    have "fst (snd part) = snd (snd part)" if part: "part \<in> set parts" for part
    proof -
      have "all_changes c (fst part) (or_nil (fst (snd part))) (fst (snd part) \<noteq> None)
          (or_nil (snd (snd part))) (snd (snd part) \<noteq> None) = []"
        using less.prems(3) part
        by (subst (asm) all_changes.simps) (simp add: Some del: not_None_eq)
      with less.hyps [OF parts_smaller [OF Some part]] parts_ok [OF Some less.prems(1,2) part]
      show ?thesis by blast
    qed
    then show ?thesis by (intro parts_same [OF Some less.prems(1,2)]) simp
  qed
qed

lemma same_no_change: "all_changes c path v p v p = []"
proof (induction "size v" arbitrary: v path p rule: less_induct)
  case less
  show ?case
  proof (cases "diff_parts c path v p v p")
    case None
    then show ?thesis by (simp add: all_changes.simps)
  next
    case (Some parts)
    have eq: "fst (snd part) = snd (snd part)" if "part \<in> set parts" for part
      using Some that
      by (auto simp: diff_parts_def member_parts_def element_parts_def list_pair_def as_list_def
          split: json.splits bool.splits if_splits option.splits)
    have "all_changes c (fst part) (or_nil (fst (snd part))) (fst (snd part) \<noteq> None)
          (or_nil (snd (snd part))) (snd (snd part) \<noteq> None) = []" if part: "part \<in> set parts" for part
      unfolding eq [OF part]
      by (rule less) (use parts_smaller [OF Some part] eq [OF part] in simp)
    then show ?thesis by (subst all_changes.simps) (simp add: Some del: not_None_eq)
  qed
qed

subsection \<open>Properties\<close>

text \<open>
  The canonical form of a resource is the JSON text of its normalised value and the SHA-256
  of that text: marshalling, reading back and marshalling again changes nothing, and the text
  determines the normalised value.
\<close>

theorem canonical_text:
  assumes "json_ok v"
  shows "CanonicalFor c v = Some (marshal (NormalizeFor c v), sha256_hex (marshal (NormalizeFor c v))) \<and>
    unmarshal (marshal (NormalizeFor c v)) = Some (NormalizeFor c v)"
  using unmarshal_marshal [OF normalize_json_ok(1) [OF assms]]
  by (simp add: CanonicalFor_def canonical_def NormalizeFor_def Let_def)

theorem canonical_text_witness:
  "CanonicalFor ''devices'' (JObj [(''os'', JStr ''linux'')]) =
   Some (marshal (NormalizeFor ''devices'' (JObj [(''os'', JStr ''linux'')])),
         sha256_hex (marshal (NormalizeFor ''devices'' (JObj [(''os'', JStr ''linux'')]))))"
proof -
  have "json_ok (JObj [(''os'', JStr ''linux'')])" by code_simp
  from canonical_text [OF this, of "''devices''"] show ?thesis by simp
qed

text \<open>
  C15. The bounded result of a comparison is the abstract one cut at 24 fields: it lists the
  first 24 changes in order, counts all of them, and says truthfully whether any was left out.
\<close>

theorem diff_refines:
  assumes "unmarshal oldRaw = Some v" and "unmarshal newRaw = Some w"
  shows "Fields (DiffDetailedFor c oldRaw newRaw) = take 24 (all_changes c '''' v True w True) \<and>
    TotalFields (DiffDetailedFor c oldRaw newRaw) = length (all_changes c '''' v True w True) \<and>
    (FieldsTruncated (DiffDetailedFor c oldRaw newRaw) \<longleftrightarrow>
      24 < length (all_changes c '''' v True w True))"
  using assms
  by (simp_all add: DiffDetailedFor_def diff_adds foldl_add_change empty_result_def maxDiffFields_def)

theorem diff_refines_witness:
  "Fields (DiffDetailedFor ''dns'' ''1'' ''2'') = [valueChange ''value'' (JNum (F64 False [1] 1)) True (JNum (F64 False [2] 1)) True]"
proof -
  have u: "unmarshal ''1'' = Some (JNum (F64 False [1] 1))" "unmarshal ''2'' = Some (JNum (F64 False [2] 1))"
    by code_simp+
  have "diffJSON (JNum (F64 False [1] 1)) True \<noteq> diffJSON (JNum (F64 False [2] 1)) True" by code_simp
  then have "all_changes ''dns'' '''' (JNum (F64 False [1] 1)) True (JNum (F64 False [2] 1)) True =
      [valueChange ''value'' (JNum (F64 False [1] 1)) True (JNum (F64 False [2] 1)) True]"
    by (subst all_changes.simps) (simp add: diff_parts_def list_pair_def as_list_def)
  with diff_refines [OF u, of "''dns''"] show ?thesis by simp
qed



text \<open>
  The path of an identified list element can be taken apart again: the element identities
  the comparison uses contain no bracket, so the list and the identity are recovered exactly.
\<close>

theorem element_path_round_trip:
  assumes "elementIdentity key x = Some ident" and "path \<noteq> ''''"
  shows "ElementPathParts (ElementPath path ident) = Some (path, ident)"
proof -
  from assms(1) have ident: "ident \<noteq> ''''" "\<not> contains_any ident ''[]''"
    by (auto simp: elementIdentity_def Let_def split: json.splits option.splits if_splits)
  then have nb: "\<forall>c \<in> set (CHR '']'' # rev ident). c \<noteq> CHR ''[''"
    by (auto simp: contains_any_def list_ex_iff)
  have "index_of (\<lambda>c. c = CHR ''['') (rev (ElementPath path ident)) = Some (Suc (length ident))"
    using index_of_append [OF nb, of "CHR ''['' # rev path"] by (simp add: ElementPath_def)
  then have "last_index_of (\<lambda>c. c = CHR ''['') (ElementPath path ident) = Some (length path)"
    by (simp add: last_index_of_def ElementPath_def)
  moreover have "has_suffix (ElementPath path ident) '']''"
    by (simp add: has_suffix_def ElementPath_def)
  ultimately show ?thesis
    using ident(1) assms(2) by (simp add: ElementPathParts_def ElementPath_def)
qed

theorem element_path_round_trip_witness:
  "ElementPathParts (ElementPath ''deviceInvites'' ''5861'') = Some (''deviceInvites'', ''5861'')"
proof -
  have "elementIdentity ''id'' (JObj [(''id'', JStr ''5861'')]) = Some ''5861''" by code_simp
  from element_path_round_trip [OF this] show ?thesis by simp
qed

end
