(* ===== verification/Model_Dns.thy ===== *)
theory Model_Dns
  imports Model
begin

text \<open>
  \<open>internal/model/dns.go\<close>: the two upstream shapes of a DNS snapshot and their projection onto
  the settings both can express, so that a change of shape alone is not reported as drift.
  \<open>None\<close> is \<open>transition = false\<close>.
\<close>

datatype dns_shape = DnsShapeUnknown | DnsShapeLegacy | DnsShapeConfiguration

definition legacyUnsupported :: "object \<Rightarrow> bool" where
  "legacyUnsupported m \<longleftrightarrow> m = [(''unsupported'', JBool True)]"

definition list_items :: "json option \<Rightarrow> json list" where
  "list_items v = (case v of Some (JArr xs) \<Rightarrow> xs | _ \<Rightarrow> [])"

fun resolver_address :: "json \<Rightarrow> json option" where
  "resolver_address (JObj resolver) =
     (case obj_get resolver ''address'' of Some (JStr a) \<Rightarrow> Some (JStr a) | _ \<Rightarrow> None)"
| "resolver_address (JStr a) = Some (JStr a)"
| "resolver_address _ = None"

definition resolverAddresses :: "json option \<Rightarrow> json list" where
  "resolverAddresses v = List.map_filter resolver_address (list_items v)"

definition stringValues :: "json option \<Rightarrow> json list" where
  "stringValues v =
     List.map_filter (\<lambda>entry. case entry of JStr t \<Rightarrow> Some (JStr t) | _ \<Rightarrow> None) (list_items v)"

definition json_text :: "json \<Rightarrow> string" where
  "json_text v = (case v of JStr s \<Rightarrow> s | _ \<Rightarrow> '''')"

definition sortedStrings :: "json list \<Rightarrow> json list" where
  "sortedStrings vs = sort_stable (\<lambda>a b. json_text a < json_text b) vs"

definition boolValue :: "json option \<Rightarrow> json" where
  "boolValue v = (case v of Some (JBool b) \<Rightarrow> JBool b | _ \<Rightarrow> JBool False)"

definition is_object :: "json option \<Rightarrow> bool" where
  "is_object v \<longleftrightarrow> (case v of Some (JObj m) \<Rightarrow> True | _ \<Rightarrow> False)"

definition is_list :: "json option \<Rightarrow> bool" where
  "is_list v \<longleftrightarrow> (case v of Some (JArr xs) \<Rightarrow> True | _ \<Rightarrow> False)"

definition object_or_nil :: "json option \<Rightarrow> object" where
  "object_or_nil v = (case v of Some (JObj m) \<Rightarrow> m | _ \<Rightarrow> [])"

definition dnsShape :: "object option \<Rightarrow> dns_shape" where
  "dnsShape v =
     (case v of
        None \<Rightarrow> DnsShapeUnknown
      | Some m \<Rightarrow>
          if obj_get m ''split-dns'' \<noteq> None then DnsShapeLegacy
          else if obj_get m ''searchpaths'' \<noteq> None then DnsShapeLegacy
          else if is_object (obj_get m ''nameservers'') then DnsShapeLegacy
          else if obj_get m ''splitDNS'' \<noteq> None then DnsShapeConfiguration
          else if obj_get m ''searchPaths'' \<noteq> None then DnsShapeConfiguration
          else if is_list (obj_get m ''nameservers'') then DnsShapeConfiguration
          else DnsShapeUnknown)"

text \<open>The closure \<open>section\<close>: either the section is unknown, or it is put into the projection.\<close>

definition put_section :: "object \<Rightarrow> string \<Rightarrow> string \<Rightarrow> (object \<Rightarrow> json) \<Rightarrow>
    object \<times> string list \<Rightarrow> object \<times> string list" where
  "put_section v key name f res =
     (let m = object_or_nil (obj_get v key)
      in if legacyUnsupported m then (fst res, snd res @ [name])
         else (obj_put name (f m) (fst res), snd res))"

definition split_table :: "(json option \<Rightarrow> json list) \<Rightarrow> object \<Rightarrow> json" where
  "split_table addresses_of m =
     JObj (foldl (\<lambda>out (domain, resolvers).
             let addresses = sortedStrings (addresses_of (Some resolvers))
             in if addresses \<noteq> [] then obj_put domain (JArr addresses) out else out) [] m)"

definition projectDNS :: "object \<Rightarrow> dns_shape \<Rightarrow> object \<times> string list" where
  "projectDNS v shape =
     (if shape = DnsShapeLegacy then
        put_section v ''split-dns'' ''splitDNS'' (split_table stringValues)
          (put_section v ''searchpaths'' ''searchPaths'' (\<lambda>m. JArr (stringValues (obj_get m ''searchPaths'')))
            (put_section v ''preferences'' ''magicDNS'' (\<lambda>m. boolValue (obj_get m ''magicDNS''))
              (put_section v ''nameservers'' ''nameservers'' (\<lambda>m. JArr (stringValues (obj_get m ''dns'')))
                ([], []))))
      else
        (obj_put ''splitDNS'' (split_table resolverAddresses (object_or_nil (obj_get v ''splitDNS'')))
           (obj_put ''searchPaths'' (JArr (stringValues (obj_get v ''searchPaths'')))
             (obj_put ''magicDNS''
                (boolValue (obj_get (object_or_nil (obj_get v ''preferences'')) ''magicDNS''))
               (obj_put ''nameservers'' (JArr (resolverAddresses (obj_get v ''nameservers''))) []))),
         []))"

definition delete_all :: "string list \<Rightarrow> object \<Rightarrow> object" where
  "delete_all sections m = foldl (\<lambda>m s. obj_delete s m) m sections"

definition ShapeTransition :: "string \<Rightarrow> string \<Rightarrow> string \<Rightarrow> (string \<times> string) option" where
  "ShapeTransition collector oldRaw newRaw =
     (if collector \<noteq> ''dns'' then None
      else
        (case (unmarshal_object oldRaw, unmarshal_object newRaw) of
           (Some oldValue, Some newValue) \<Rightarrow>
             (case (oldValue, dnsShape oldValue, newValue, dnsShape newValue) of
                (Some oldMap, oldShape, Some newMap, newShape) \<Rightarrow>
                  if oldShape = DnsShapeUnknown \<or> newShape = DnsShapeUnknown \<or> oldShape = newShape
                  then None
                  else
                    (let (oldProjection, oldUnknown) = projectDNS oldMap oldShape;
                         (newProjection, newUnknown) = projectDNS newMap newShape;
                         sections = oldUnknown @ newUnknown
                     in case canonical (JObj (delete_all sections oldProjection)) of
                          None \<Rightarrow> None
                        | Some (oldComparable, _) \<Rightarrow>
                            (case canonical (JObj (delete_all sections newProjection)) of
                               None \<Rightarrow> None
                             | Some (newComparable, _) \<Rightarrow> Some (oldComparable, newComparable)))
              | _ \<Rightarrow> None)
         | _ \<Rightarrow> None))"

subsection \<open>The settings behind a snapshot\<close>

record dns_settings =
  Servers :: "string list"
  Magic :: bool
  Search :: "string list"
  Split :: "(string \<times> string list) list"

definition texts :: "string list \<Rightarrow> json" where
  "texts xs = JArr (map JStr xs)"

definition resolvers :: "(string \<Rightarrow> bool) \<Rightarrow> string list \<Rightarrow> json" where
  "resolvers exit xs =
     JArr (map (\<lambda>a. JObj [(''address'', JStr a), (''useWithExitNode'', JBool (exit a))]) xs)"

text \<open>How the legacy endpoints and the configuration endpoint report the same settings.\<close>

definition legacy_snapshot :: "dns_settings \<Rightarrow> object" where
  "legacy_snapshot s =
     [(''nameservers'', JObj [(''dns'', texts (Servers s))]),
      (''preferences'', JObj [(''magicDNS'', JBool (Magic s))]),
      (''searchpaths'', JObj [(''searchPaths'', texts (Search s))]),
      (''split-dns'', JObj (map (\<lambda>(d, xs). (d, texts xs)) (Split s)))]"

definition configuration_snapshot :: "(string \<Rightarrow> bool) \<Rightarrow> dns_settings \<Rightarrow> object" where
  "configuration_snapshot exit s =
     [(''nameservers'', resolvers exit (Servers s)),
      (''preferences'', JObj [(''magicDNS'', JBool (Magic s)), (''overrideLocalDNS'', JBool False)]),
      (''searchPaths'', texts (Search s)),
      (''splitDNS'', JObj (map (\<lambda>(d, xs). (d, resolvers exit xs)) (Split s)))]"

definition settings_ok :: "dns_settings \<Rightarrow> bool" where
  "settings_ok s \<longleftrightarrow>
     list_all valid_utf8 (Servers s) \<and> list_all valid_utf8 (Search s) \<and>
     sorted_wrt (<) (map fst (Split s)) \<and>
     list_all (\<lambda>(d, xs). valid_utf8 d \<and> xs \<noteq> [] \<and> list_all valid_utf8 xs) (Split s)"

definition projection :: "dns_settings \<Rightarrow> object" where
  "projection s =
     [(''magicDNS'', JBool (Magic s)),
      (''nameservers'', texts (Servers s)),
      (''searchPaths'', texts (Search s)),
      (''splitDNS'', JObj (map (\<lambda>(d, xs). (d, texts (sort xs))) (Split s)))]"

subsection \<open>Lemmas\<close>

lemma stringValues_texts: "stringValues (Some (texts xs)) = map JStr xs"
  by (induction xs) (simp_all add: stringValues_def texts_def list_items_def List.map_filter_def)

lemma resolverAddresses_resolvers: "resolverAddresses (Some (resolvers exit xs)) = map JStr xs"
  by (induction xs)
    (simp_all add: resolverAddresses_def resolvers_def list_items_def List.map_filter_def obj_get_def)

lemma sortedStrings_texts: "sortedStrings (map JStr xs) = map JStr (sort xs)"
proof -
  have "insort_key json_text (JStr x) (map JStr ys) = map JStr (insort x ys)" for x ys
    by (induction ys) (simp_all add: json_text_def)
  then show ?thesis
    unfolding sortedStrings_def sort_stable_key sort_key_def
    by (induction xs) simp_all
qed

lemma split_table_texts:
  assumes "sorted_wrt (<) (map fst sp)" and "list_all (\<lambda>(d, xs). xs \<noteq> []) sp"
    and addr: "\<And>xs. addresses_of (Some (enc xs)) = map JStr xs"
  shows "split_table addresses_of (map (\<lambda>(d, xs). (d, enc xs)) sp) =
    JObj (map (\<lambda>(d, xs). (d, texts (sort xs))) sp)"
proof -
  let ?f = "\<lambda>out (domain, resolvers).
      let addresses = sortedStrings (addresses_of (Some resolvers))
      in if addresses \<noteq> [] then obj_put domain (JArr addresses) out else out"
  have "foldl ?f acc (map (\<lambda>(d, xs). (d, enc xs)) sp) = acc @ map (\<lambda>(d, xs). (d, texts (sort xs))) sp"
    if "\<forall>k \<in> set (obj_keys acc). \<forall>k' \<in> set (map fst sp). k < k'"
      and "sorted_wrt (<) (map fst sp)" and "list_all (\<lambda>(d, xs). xs \<noteq> []) sp" for acc sp
    using that
  proof (induction sp arbitrary: acc)
    case (Cons e sp)
    obtain d xs where e: "e = (d, xs)" by (cases e)
    have "obj_put d (texts (sort xs)) acc = acc @ [(d, texts (sort xs))]"
      using Cons.prems(1) e by (intro obj_put_last) simp
    moreover have "sort xs \<noteq> []"
    proof -
      have "xs \<noteq> []" using Cons.prems(3) e by simp
      then show ?thesis by (metis length_0_conv length_sort)
    qed
    ultimately have "?f acc (d, enc xs) = acc @ [(d, texts (sort xs))]"
      by (simp add: addr sortedStrings_texts texts_def)
    moreover have "\<forall>k \<in> set (obj_keys (acc @ [(d, texts (sort xs))])). \<forall>k' \<in> set (map fst sp). k < k'"
      using Cons.prems e by (auto simp: obj_keys_def)
    ultimately show ?case using Cons e by simp
  qed simp
  from this [of "[]" sp] assms(1,2) show ?thesis by (simp add: split_table_def)
qed

lemma section_order [simp]:
  "''magicDNS'' < ''nameservers''" "\<not> ''nameservers'' < ''magicDNS''"
  "\<not> ''searchPaths'' < ''magicDNS''" "\<not> ''searchPaths'' < ''nameservers''"
  "\<not> ''splitDNS'' < ''magicDNS''" "\<not> ''splitDNS'' < ''nameservers''" "\<not> ''splitDNS'' < ''searchPaths''"
  by code_simp+

lemma project_legacy:
  assumes "settings_ok s"
  shows "dnsShape (Some (legacy_snapshot s)) = DnsShapeLegacy"
    and "projectDNS (legacy_snapshot s) DnsShapeLegacy = (projection s, [])"
proof -
  show "dnsShape (Some (legacy_snapshot s)) = DnsShapeLegacy"
    by (simp add: dnsShape_def legacy_snapshot_def obj_get_def)
  have "split_table stringValues (map (\<lambda>(d, xs). (d, texts xs)) (Split s)) =
      JObj (map (\<lambda>(d, xs). (d, texts (sort xs))) (Split s))"
    using assms by (intro split_table_texts) (auto simp: settings_ok_def stringValues_texts list_all_iff)
  moreover have "\<not> legacyUnsupported (map (\<lambda>(d, xs). (d, texts xs)) (Split s))"
    by (cases "Split s") (auto simp: legacyUnsupported_def texts_def)
  ultimately show "projectDNS (legacy_snapshot s) DnsShapeLegacy = (projection s, [])"
    by (simp add: projectDNS_def legacy_snapshot_def put_section_def object_or_nil_def obj_get_def
        legacyUnsupported_def boolValue_def projection_def stringValues_texts flip: texts_def)
qed

lemma project_configuration:
  assumes "settings_ok s"
  shows "dnsShape (Some (configuration_snapshot exit s)) = DnsShapeConfiguration"
    and "projectDNS (configuration_snapshot exit s) DnsShapeConfiguration = (projection s, [])"
proof -
  show "dnsShape (Some (configuration_snapshot exit s)) = DnsShapeConfiguration"
    by (simp add: dnsShape_def configuration_snapshot_def obj_get_def is_object_def resolvers_def)
  have "split_table resolverAddresses (map (\<lambda>(d, xs). (d, resolvers exit xs)) (Split s)) =
      JObj (map (\<lambda>(d, xs). (d, texts (sort xs))) (Split s))"
    using assms by (intro split_table_texts)
      (auto simp: settings_ok_def resolverAddresses_resolvers list_all_iff)
  then show "projectDNS (configuration_snapshot exit s) DnsShapeConfiguration = (projection s, [])"
    by (simp add: projectDNS_def configuration_snapshot_def object_or_nil_def obj_get_def
        boolValue_def projection_def stringValues_texts resolverAddresses_resolvers flip: texts_def)
qed

lemma texts_ok: "json_ok (texts xs) \<longleftrightarrow> list_all valid_utf8 xs"
  by (simp add: texts_def list_all_iff)

lemma ascii_names:
  "valid_utf8 ''magicDNS''" "valid_utf8 ''nameservers''" "valid_utf8 ''searchPaths''" "valid_utf8 ''splitDNS''"
  "valid_utf8 ''preferences''" "valid_utf8 ''searchpaths''" "valid_utf8 ''split-dns''" "valid_utf8 ''dns''"
  "valid_utf8 ''address''" "valid_utf8 ''useWithExitNode''" "valid_utf8 ''overrideLocalDNS''"
  by code_simp+

lemma name_order:
  "''magicDNS'' < ''searchPaths''" "''magicDNS'' < ''splitDNS''" "''nameservers'' < ''searchPaths''"
  "''nameservers'' < ''splitDNS''" "''searchPaths'' < ''splitDNS''"
  "''nameservers'' < ''preferences''" "''nameservers'' < ''searchpaths''" "''nameservers'' < ''split-dns''"
  "''preferences'' < ''searchpaths''" "''preferences'' < ''split-dns''" "''searchpaths'' < ''split-dns''"
  "''preferences'' < ''searchPaths''" "''preferences'' < ''splitDNS''" "''address'' < ''useWithExitNode''"
  "''magicDNS'' < ''overrideLocalDNS''"
  by code_simp+

lemma json_ok_Nil: "json_ok (JObj [])"
  by simp

lemma json_ok_Cons:
  "json_ok (JObj (e # m)) \<longleftrightarrow>
   (\<forall>k \<in> set (obj_keys m). fst e < k) \<and> valid_utf8 (fst e) \<and> json_ok (snd e) \<and> json_ok (JObj m)"
  by (cases e) auto

lemma split_ok:
  assumes "settings_ok s" and "\<And>xs. xs \<in> snd ` set (Split s) \<Longrightarrow> json_ok (enc xs)"
  shows "json_ok (JObj (map (\<lambda>(d, xs). (d, enc xs)) (Split s)))"
proof -
  have "obj_keys (map (\<lambda>(d, xs). (d, enc xs)) (Split s)) = map fst (Split s)"
    by (simp add: obj_keys_def case_prod_beta)
  then have "obj_ok (map (\<lambda>(d, xs). (d, enc xs)) (Split s))"
    using assms(1) by (simp add: settings_ok_def obj_ok_def)
  moreover have "valid_utf8 d \<and> json_ok (enc xs)" if "(d, xs) \<in> set (Split s)" for d xs
  proof -
    have "xs \<in> snd ` set (Split s)" using that by (intro image_eqI [of _ _ "(d, xs)"]) simp_all
    then show ?thesis using assms that by (auto simp: settings_ok_def list_all_iff)
  qed
  ultimately show ?thesis by auto
qed

lemma snapshots_ok:
  assumes "settings_ok s"
  shows "json_ok (JObj (projection s))" and "json_ok (JObj (legacy_snapshot s))"
    and "json_ok (JObj (configuration_snapshot exit s))"
proof -
  have r: "list_all valid_utf8 xs \<Longrightarrow> json_ok (resolvers exit xs)" for xs
    by (auto simp: resolvers_def list_all_iff ascii_names name_order)
  have v: "list_all valid_utf8 (Servers s)" "list_all valid_utf8 (Search s)"
    using assms by (simp_all add: settings_ok_def)
  have sp: "xs \<in> snd ` set (Split s) \<Longrightarrow> list_all valid_utf8 xs" for xs
    using assms by (auto simp: settings_ok_def list_all_iff)
  have "json_ok (JObj (map (\<lambda>(d, xs). (d, texts (sort xs))) (Split s)))"
    by (rule split_ok [OF assms]) (use sp in \<open>auto simp: texts_ok list_all_iff\<close>)
  then show "json_ok (JObj (projection s))"
    using v by (simp add: projection_def ascii_names name_order texts_ok json_ok_Cons json_ok_Nil del: json_ok.simps(6))
  show "json_ok (JObj (legacy_snapshot s))"
    using v split_ok [OF assms, of texts] sp
    by (simp add: legacy_snapshot_def ascii_names name_order texts_ok json_ok_Cons json_ok_Nil del: json_ok.simps(6))
  show "json_ok (JObj (configuration_snapshot exit s))"
    using v split_ok [OF assms, of "resolvers exit"] sp r
    by (simp add: configuration_snapshot_def ascii_names name_order texts_ok json_ok_Cons json_ok_Nil
        del: json_ok.simps(6))
qed

lemma canonical_ok: "json_ok v \<Longrightarrow> canonical v = Some (marshal v, sha256_hex (marshal v))"
  by (simp add: canonical_def unmarshal_marshal Let_def)

lemma unmarshal_object_ok: "json_ok (JObj m) \<Longrightarrow> unmarshal_object (marshal (JObj m)) = Some (Some m)"
  unfolding unmarshal_object_def by (simp only: unmarshal_marshal) simp

lemma transition_pair:
  assumes "json_ok (JObj m)" and "json_ok (JObj n)"
    and "dnsShape (Some m) = a" and "dnsShape (Some n) = b"
    and "a \<noteq> b" and "a \<noteq> DnsShapeUnknown" and "b \<noteq> DnsShapeUnknown"
    and "projectDNS m a = (p, [])" and "projectDNS n b = (q, [])"
    and "json_ok (JObj p)" and "json_ok (JObj q)"
  shows "ShapeTransition ''dns'' (marshal (JObj m)) (marshal (JObj n)) =
    Some (marshal (JObj p), marshal (JObj q))"
  using assms
  by (simp add: ShapeTransition_def unmarshal_object_ok delete_all_def canonical_ok
      del: marshal.simps json_ok.simps)

definition same_settings :: "dns_settings \<Rightarrow> dns_settings \<Rightarrow> bool" where
  "same_settings s t \<longleftrightarrow>
     Servers s = Servers t \<and> Magic s = Magic t \<and> Search s = Search t \<and>
     map (\<lambda>(d, xs). (d, sort xs)) (Split s) = map (\<lambda>(d, xs). (d, sort xs)) (Split t)"

lemma projection_same: "projection s = projection t \<longleftrightarrow> same_settings s t"
proof -
  have inj: "inj JStr" by (simp add: inj_def)
  have t: "texts xs = texts ys \<longleftrightarrow> xs = ys" for xs ys
    by (simp add: texts_def inj_map_eq_map [OF inj])
  have "inj (\<lambda>(d, xs). (d :: string, texts xs))"
    by (auto simp: inj_def t)
  then have *: "map (\<lambda>(d, xs). (d, texts xs)) A = map (\<lambda>(d, xs). (d, texts xs)) B \<longleftrightarrow> A = B"
    for A B :: "(string \<times> string list) list"
    by (rule inj_map_eq_map)
  have c: "map (\<lambda>(d, xs). (d, texts xs)) (map (\<lambda>(d, xs). (d, sort xs)) A) =
      map (\<lambda>(d, xs). (d, texts (sort xs))) A" for A :: "(string \<times> string list) list"
    by (induction A) auto
  from * [of "map (\<lambda>(d, xs). (d, sort xs)) (Split s)" "map (\<lambda>(d, xs). (d, sort xs)) (Split t)"]
  have "map (\<lambda>(d, xs). (d, texts (sort xs))) (Split s) = map (\<lambda>(d, xs). (d, texts (sort xs))) (Split t) \<longleftrightarrow>
      map (\<lambda>(d, xs). (d, sort xs)) (Split s) = map (\<lambda>(d, xs). (d, sort xs)) (Split t)"
    by (simp only: c)
  then show ?thesis by (auto simp: projection_def same_settings_def t)
qed

subsection \<open>Property\<close>

text \<open>
  When the upstream shape of the DNS configuration changes, in either direction, the two
  snapshots are compared on their common settings only: the texts the store compares are equal
  exactly when the name servers and search paths (in order), MagicDNS and the split-DNS
  addresses are the same. So a change of shape alone is silent and a real change is not.
\<close>

theorem shape_transition_faithful:
  assumes "settings_ok s" and "settings_ok t"
  shows "\<exists>a b a' b'.
    ShapeTransition ''dns'' (marshal (JObj (legacy_snapshot s)))
      (marshal (JObj (configuration_snapshot exit t))) = Some (a, b) \<and>
    ShapeTransition ''dns'' (marshal (JObj (configuration_snapshot exit t)))
      (marshal (JObj (legacy_snapshot s))) = Some (a', b') \<and>
    (a = b \<longleftrightarrow> same_settings s t) \<and> (a' = b' \<longleftrightarrow> same_settings s t)"
proof -
  note s = project_legacy [OF assms(1)] snapshots_ok [OF assms(1)]
  note t = project_configuration [OF assms(2)] snapshots_ok [OF assms(2)]
  have fwd: "ShapeTransition ''dns'' (marshal (JObj (legacy_snapshot s)))
      (marshal (JObj (configuration_snapshot exit t))) =
      Some (marshal (JObj (projection s)), marshal (JObj (projection t)))"
    by (rule transition_pair [OF s(4) t(5) s(1) t(1) _ _ _ s(2) t(2) s(3) t(3)]) simp_all
  have bwd: "ShapeTransition ''dns'' (marshal (JObj (configuration_snapshot exit t)))
      (marshal (JObj (legacy_snapshot s))) =
      Some (marshal (JObj (projection t)), marshal (JObj (projection s)))"
    by (rule transition_pair [OF t(5) s(4) t(1) s(1) _ _ _ t(2) s(2) t(3) s(3)]) simp_all
  have "marshal (JObj (projection s)) = marshal (JObj (projection t)) \<longleftrightarrow> same_settings s t"
    using marshal_inj [OF s(3) t(3)] by (simp only: json.inject projection_same)
  with fwd bwd show ?thesis by (metis (no_types))
qed

definition sample_settings :: dns_settings where
  "sample_settings =
     \<lparr> Servers = [''1.1.1.1'', ''9.9.9.9''], Magic = True, Search = [''corp''],
       Split = [(''internal'', [''100.64.0.2'', ''100.64.0.1''])] \<rparr>"

theorem shape_transition_faithful_witness:
  "\<exists>a. ShapeTransition ''dns'' (marshal (JObj (legacy_snapshot sample_settings)))
     (marshal (JObj (configuration_snapshot (\<lambda>_. False) sample_settings))) = Some (a, a)"
proof -
  have "settings_ok sample_settings" by code_simp
  from shape_transition_faithful [OF this this, of "\<lambda>_. False"] show ?thesis
    by (auto simp: same_settings_def)
qed

end
