(* ===== verification/Model_Severity.thy ===== *)
theory Model_Severity
  imports Model_Diff
begin

text \<open>
  \<open>internal/model/severity.go\<close> and \<open>internal/model/shares.go\<close>: how important a change is, and
  how the share invites of a device are read out of a change's fields.

  The three severities are a linear order (\<open>Rank\<close>). \<open>ShareTransitions\<close> walks over the fields of
  a change with a local state, the transitions found so far and the invites listed by a
  whole-list field; the position of an invite among the transitions, which the source keeps in
  the map \<open>index\<close>, is looked up by its ID. The walk calls itself on the element changes a
  whole-list field expands to; these never expand again, so two levels are the whole recursion
  (\<open>visit_depth\<close> proves that more change nothing).
\<close>

subsection \<open>Severities\<close>

datatype severity = SeverityLow | SeverityMedium | SeverityHigh

definition severity_text :: "severity \<Rightarrow> string" where
  "severity_text s =
     (case s of SeverityLow \<Rightarrow> ''low'' | SeverityMedium \<Rightarrow> ''medium'' | SeverityHigh \<Rightarrow> ''high'')"

text \<open>\<open>Rank\<close> and \<open>AtLeast\<close> of any text of type \<open>Severity\<close>, known or not.\<close>

definition Rank :: "string \<Rightarrow> nat" where
  "Rank s = (if s = ''high'' then 3 else if s = ''medium'' then 2 else 1)"

definition AtLeast :: "string \<Rightarrow> string \<Rightarrow> bool" where
  "AtLeast s minimum \<longleftrightarrow> Rank minimum \<le> Rank s"

instantiation severity :: linorder
begin

definition less_eq_severity :: "severity \<Rightarrow> severity \<Rightarrow> bool" where
  "less_eq_severity s t \<longleftrightarrow> Rank (severity_text s) \<le> Rank (severity_text t)"

definition less_severity :: "severity \<Rightarrow> severity \<Rightarrow> bool" where
  "less_severity s t \<longleftrightarrow> Rank (severity_text s) < Rank (severity_text t)"

instance
proof
  fix s t :: severity
  show "s < t \<longleftrightarrow> s \<le> t \<and> \<not> t \<le> s"
    by (auto simp: less_eq_severity_def less_severity_def)
  show "s \<le> t \<Longrightarrow> t \<le> s \<Longrightarrow> s = t"
    by (cases s; cases t) (simp_all add: less_eq_severity_def severity_text_def Rank_def)
  show "s \<le> t \<or> t \<le> s"
    by (auto simp: less_eq_severity_def)
qed (auto simp: less_eq_severity_def)

end

lemmas severity_order = less_eq_severity_def less_severity_def severity_text_def Rank_def

lemma severity_simps [simp]:
  "SeverityLow < SeverityMedium" "SeverityLow < SeverityHigh" "SeverityMedium < SeverityHigh"
  "\<not> SeverityMedium < SeverityLow" "\<not> SeverityHigh < SeverityMedium" "\<not> SeverityHigh < SeverityLow"
  "\<not> SeverityMedium \<le> SeverityLow" "\<not> SeverityHigh \<le> SeverityLow"
  "\<not> SeverityHigh \<le> SeverityMedium" "SeverityMedium \<le> SeverityHigh"
  "SeverityLow \<le> s" "s \<le> SeverityHigh" "\<not> s < SeverityLow" "\<not> SeverityHigh < s"
  by (simp_all add: severity_order split: severity.splits)

lemma severity_le_low [simp]: "s \<le> SeverityLow \<longleftrightarrow> s = SeverityLow"
  by (cases s) simp_all

lemma max_severity_simps [simp]:
  "max SeverityLow s = s" "max s SeverityLow = s" "max SeverityHigh s = SeverityHigh"
  "max s SeverityHigh = SeverityHigh"
  by (simp_all add: max_def order_antisym)

definition ParseSeverity :: "string \<Rightarrow> severity option" where
  "ParseSeverity v =
     (let s = to_lower (trim_space v)
      in if s = ''low'' then Some SeverityLow
         else if s = ''medium'' then Some SeverityMedium
         else if s = ''high'' then Some SeverityHigh
         else None)"

subsection \<open>Changes\<close>

record attribution =
  ActorLogin :: string
  ActorName :: string
  ActorType :: string
  Origin :: string
  Action :: string
  Target :: string
  OccurredAt :: string

record created_state =
  Role :: string
  Tagged :: bool
  KeyExpiryDisabled :: bool

record device_invite =
  Recipient :: string
  Accepted :: bool
  MultiUse :: bool
  AllowExitNode :: bool

record change =
  Kind :: string
  ChangeCollector :: string
  ResourceID :: string
  ChangeType :: string
  ChangeName :: string
  ChangeFields :: "field_change list"
  ChangeTruncated :: bool
  ChangeTotal :: nat
  ChangeAttribution :: "attribution option"
  Invites :: "string \<Rightarrow> device_invite option"
  CreatedAs :: "created_state option"

text \<open>Type assertions on a recorded value.\<close>

definition isTrue :: "goany \<Rightarrow> bool" where
  "isTrue v \<longleftrightarrow> v = GoVal (JBool True)"

definition isFalse :: "goany \<Rightarrow> bool \<Rightarrow> bool" where
  "isFalse v present \<longleftrightarrow> \<not> present \<and> v = GoNil \<or> v = GoVal (JBool False)"

text \<open>A recorded value as the element of a decoded object: neither kind of null passes a type
  assertion to a bool, a string, a list or an object.\<close>

definition any_json :: "goany \<Rightarrow> json" where
  "any_json v = (case v of GoVal x \<Rightarrow> x | _ \<Rightarrow> JNull)"

definition obj_bool :: "object \<Rightarrow> string \<Rightarrow> bool" where
  "obj_bool m k = (case obj_get m k of Some (JBool b) \<Rightarrow> b | _ \<Rightarrow> False)"

definition CreatedStateOf :: "string \<Rightarrow> string \<Rightarrow> created_state option" where
  "CreatedStateOf collector raw =
     (if collector \<notin> {''users'', ''user_invites'', ''devices''} then None
      else
        (case unmarshal_object raw of
           Some (Some snapshot) \<Rightarrow>
             Some \<lparr> Role = trim_space (obj_string snapshot ''role''),
                    Tagged = (case obj_get snapshot ''tags'' of Some (JArr tags) \<Rightarrow> tags \<noteq> [] | _ \<Rightarrow> False),
                    KeyExpiryDisabled = obj_bool snapshot ''keyExpiryDisabled'' \<rparr>
         | _ \<Rightarrow> None))"

definition privileged :: "created_state option \<Rightarrow> string \<Rightarrow> bool" where
  "privileged s collector =
     (case s of
        None \<Rightarrow> False
      | Some st \<Rightarrow>
          if collector = ''users'' \<or> collector = ''user_invites''
          then Role st \<noteq> '''' \<and> \<not> equal_fold (Role st) ''member''
          else if collector = ''devices'' then Tagged st \<or> KeyExpiryDisabled st
          else False)"

definition highImpactCollectors :: "string list" where
  "highImpactCollectors = [''policy'', ''log_streaming'', ''settings'', ''webhooks'', ''oauth_apps'']"

definition lowImpactDeviceFields :: "string list" where
  "lowImpactDeviceFields = [''clientversion'', ''updateavailable'', ''os'', ''distro'']"

definition fieldRoot :: "string \<Rightarrow> string" where
  "fieldRoot path = compact_name (FieldRoot path)"

subsection \<open>Share invites\<close>

definition shareMetadataFields :: "string list" where
  "shareMetadataFields = [''tailnetid'', ''sharerid'', ''deviceid'', ''acceptedby.id'', ''created'']"

definition ShareFieldResent :: string where
  "ShareFieldResent = ''lastemailsentat''"

definition CompactField :: "string \<Rightarrow> string" where
  "CompactField path = compact_name path"

definition ShareFieldName :: "string \<Rightarrow> string" where
  "ShareFieldName path = trim_suffix (CompactField path) ''.redactedsha256''"

datatype share_kind = ShareCreated | ShareRemoved | ShareChanged

record share_transition =
  ShareID :: string
  ShareKind :: share_kind
  ShareFields :: "field_change list"
  Invite :: device_invite
  InviteKnown :: bool

definition no_invite :: device_invite where
  "no_invite = \<lparr> Recipient = '''', Accepted = False, MultiUse = False, AllowExitNode = False \<rparr>"

definition inviteOf :: "object \<Rightarrow> device_invite" where
  "inviteOf m =
     (let by = (case obj_get m ''acceptedBy'' of Some (JObj b) \<Rightarrow> obj_string b ''loginName'' | _ \<Rightarrow> '''');
          recipient = (if trim_space by = '''' then obj_string m ''email'' else by)
      in \<lparr> Recipient = trim_space recipient,
           Accepted = obj_bool m ''accepted'',
           MultiUse = obj_bool m ''multiUse'',
           AllowExitNode = obj_bool m ''allowExitNode'' \<rparr>)"

definition element_object :: "json \<Rightarrow> object" where
  "element_object v = (case v of JObj m \<Rightarrow> m | _ \<Rightarrow> [])"

text \<open>The loop over the elements of a list: an identity already seen is skipped.\<close>

fun add_invites :: "json list \<Rightarrow> (string \<Rightarrow> device_invite option) \<Rightarrow> (string \<Rightarrow> device_invite option)" where
  "add_invites [] out = out"
| "add_invites (x # xs) out =
     (case elementIdentity ''id'' x of
        None \<Rightarrow> add_invites xs out
      | Some ident \<Rightarrow>
          if out ident \<noteq> None then add_invites xs out
          else add_invites xs (out(ident \<mapsto> inviteOf (element_object x))))"

fun snapshot_invites :: "object \<Rightarrow> (string \<Rightarrow> device_invite option) \<Rightarrow> (string \<Rightarrow> device_invite option)" where
  "snapshot_invites [] out = out"
| "snapshot_invites ((key, v) # m) out =
     (case v of
        JArr xs \<Rightarrow>
          if CompactField key \<noteq> ''deviceinvites'' then snapshot_invites m out
          else snapshot_invites m (add_invites xs out)
      | _ \<Rightarrow> snapshot_invites m out)"

definition raw_invites :: "string \<Rightarrow> (string \<Rightarrow> device_invite option) \<Rightarrow> (string \<Rightarrow> device_invite option)" where
  "raw_invites raw out =
     (case unmarshal_object raw of Some (Some snapshot) \<Rightarrow> snapshot_invites snapshot out | _ \<Rightarrow> out)"

definition DeviceInvites :: "string \<Rightarrow> string \<Rightarrow> (string \<Rightarrow> device_invite option)" where
  "DeviceInvites before after = raw_invites before (raw_invites after (\<lambda>_. None))"

definition inviteList :: "goany \<Rightarrow> bool \<Rightarrow> json list option" where
  "inviteList v present =
     (case unmarshal (marshal (any_json v)) of
        None \<Rightarrow> None
      | Some decoded \<Rightarrow> if decoded = JNull \<or> \<not> present then Some [] else as_list decoded)"

text \<open>\<open>diffKeyed\<close> on its own, as \<open>expandInviteList\<close> calls it.\<close>

definition diffKeyed :: "string \<Rightarrow> string \<Rightarrow> string \<Rightarrow> json list \<Rightarrow> json list \<Rightarrow> diff_result \<Rightarrow> diff_result" where
  "diffKeyed collector path key oldList newList res =
     foldl (\<lambda>res part.
         diff collector (fst part)
           (or_nil (fst (snd part))) (fst (snd part) \<noteq> None)
           (or_nil (snd (snd part))) (snd (snd part) \<noteq> None) res)
       res (element_parts path key oldList newList)"

definition expandInviteList ::
  "string \<Rightarrow> field_change \<Rightarrow> (field_change list \<times> (string \<Rightarrow> device_invite option)) option" where
  "expandInviteList path field =
     (case (inviteList (Old field) (OldPresent field), inviteList (New field) (NewPresent field)) of
        (Some oldList, Some newList) \<Rightarrow>
          if \<not> identifiedBy ''id'' oldList \<or> \<not> identifiedBy ''id'' newList then None
          else
            (let res = diffKeyed '''' path ''id'' oldList newList empty_result
             in if Fields res \<noteq> [] \<and> \<not> FieldsTruncated res
                then Some (Fields res, add_invites oldList (add_invites newList (\<lambda>_. None)))
                else None)
      | _ \<Rightarrow> None)"

end
