(* ===== verification/Model_Shares.thy ===== *)
theory Model_Shares
  imports Model_Severity
begin

text \<open>
  The invite transitions of a changed \<open>device_details\<close> resource (\<open>internal/model/shares.go\<close>)
  and the classification of a change (\<open>Classify\<close> in \<open>internal/model/severity.go\<close>).
\<close>

subsection \<open>One transition per invite\<close>

record share_state =
  Transitions :: "share_transition list"
  Listed :: "string \<Rightarrow> device_invite option"

definition has_transition :: "share_state \<Rightarrow> string \<Rightarrow> bool" where
  "has_transition st ident \<longleftrightarrow> list_ex (\<lambda>t. ShareID t = ident) (Transitions st)"

text \<open>What is known of an invite when its transition is first seen.\<close>

definition first_invite :: "change \<Rightarrow> share_state \<Rightarrow> string \<Rightarrow> json option \<Rightarrow> device_invite option" where
  "first_invite change st ident element =
     (case Invites change ident of
        Some invite \<Rightarrow> Some invite
      | None \<Rightarrow>
          (case Listed st ident of
             Some invite \<Rightarrow> Some invite
           | None \<Rightarrow> (case element of Some (JObj m) \<Rightarrow> Some (inviteOf m) | _ \<Rightarrow> None)))"

definition new_transition :: "string \<Rightarrow> share_kind \<Rightarrow> device_invite option \<Rightarrow> share_transition" where
  "new_transition ident kind invite =
     \<lparr> ShareID = ident, ShareKind = kind, ShareFields = [],
       Invite = (case invite of Some i \<Rightarrow> i | None \<Rightarrow> no_invite),
       InviteKnown = (invite \<noteq> None) \<rparr>"

definition add_share :: "change \<Rightarrow> string \<Rightarrow> share_kind \<Rightarrow> field_change option \<Rightarrow> json option \<Rightarrow>
    share_state \<Rightarrow> share_state" where
  "add_share change ident kind field element st =
     (let st1 = (if has_transition st ident then st
                 else st\<lparr>Transitions := Transitions st @
                          [new_transition ident kind (first_invite change st ident element)]\<rparr>)
      in case field of
           None \<Rightarrow> st1
         | Some f \<Rightarrow>
             st1\<lparr>Transitions :=
                   map (\<lambda>t. if ShareID t = ident then t\<lparr>ShareFields := ShareFields t @ [f]\<rparr> else t)
                     (Transitions st1)\<rparr>)"

definition add_listed :: "(string \<Rightarrow> device_invite option) \<Rightarrow> share_state \<Rightarrow> share_state" where
  "add_listed invites st = st\<lparr>Listed := Listed st ++ invites\<rparr>"

text \<open>An element field: \<open>False\<close> when the path does not name one (lines 388 to 405).\<close>

definition visit_element :: "change \<Rightarrow> field_change \<Rightarrow> string \<Rightarrow> share_state \<Rightarrow> bool \<times> share_state" where
  "visit_element change field remainder st =
     (case index_of (\<lambda>c. c = CHR '']'') remainder of
        None \<Rightarrow> (False, st)
      | Some closing \<Rightarrow>
          if hd remainder \<noteq> CHR ''['' \<or> closing < 2 then (False, st)
          else
            (let ident = take (closing - 1) (drop 1 remainder);
                 inner = drop (closing + 1) remainder
             in if inner = '''' \<and> \<not> OldPresent field \<and> NewPresent field
                then (True, add_share change ident ShareCreated None (Some (any_json (New field))) st)
                else if inner = '''' \<and> OldPresent field \<and> \<not> NewPresent field
                then (True, add_share change ident ShareRemoved None (Some (any_json (Old field))) st)
                else if has_prefix inner ''.'' \<and> 1 < length inner
                then (True, add_share change ident ShareChanged (Some (field\<lparr>Field := drop 1 inner\<rparr>)) None st)
                else (False, st)))"

text \<open>\<open>visit\<close>, down to a depth of nested whole-list fields.\<close>

fun visit :: "nat \<Rightarrow> change \<Rightarrow> field_change \<Rightarrow> share_state \<Rightarrow> bool \<times> share_state" where
  "visit depth change field st =
     (let root = FieldRoot (Field field)
      in if CompactField root \<noteq> ''deviceinvites'' then (False, st)
         else
           (let remainder = drop (length root) (Field field)
            in if remainder = '''' then
                 (case depth of
                    0 \<Rightarrow> (False, st)
                  | Suc n \<Rightarrow>
                      (case expandInviteList root field of
                         None \<Rightarrow> (False, st)
                       | Some (expanded, invites) \<Rightarrow>
                           (True, foldl (\<lambda>st element. snd (visit n change element st))
                                    (add_listed invites st) expanded)))
               else visit_element change field remainder st))"

declare visit.simps [simp del]

fun visit_all :: "change \<Rightarrow> nat \<Rightarrow> field_change list \<Rightarrow> share_state \<times> nat list \<Rightarrow> share_state \<times> nat list" where
  "visit_all change i [] res = res"
| "visit_all change i (field # fs) (st, others) =
     (case visit 2 change field st of
        (handled, st') \<Rightarrow>
          visit_all change (Suc i) fs (st', if handled then others else others @ [i]))"

text \<open>What the changed fields alone say of an invite.\<close>

definition put_field :: "object \<Rightarrow> field_change \<Rightarrow> object" where
  "put_field m field =
     (if \<not> NewPresent field then m
      else
        (let name = CompactField (Field field); v = any_json (New field)
         in if name = ''accepted'' then obj_put ''accepted'' v m
            else if name = ''acceptedby'' then obj_put ''acceptedBy'' v m
            else if name = ''acceptedby.loginname''
              then obj_put ''acceptedBy'' (JObj [(''loginName'', v)]) m
            else if name = ''email'' then obj_put ''email'' v m
            else m))"

definition inviteFromFields :: "field_change list \<Rightarrow> device_invite \<times> bool" where
  "inviteFromFields fs =
     (let invite = inviteOf (foldl put_field [] fs) in (invite, Recipient invite \<noteq> ''''))"

definition complete_transition :: "share_transition \<Rightarrow> share_transition" where
  "complete_transition t =
     (if InviteKnown t then t
      else
        (case inviteFromFields (ShareFields t) of
           (invite, known) \<Rightarrow> t\<lparr>Invite := invite, InviteKnown := known\<rparr>))"

definition ShareTransitions :: "change \<Rightarrow> share_transition list \<times> nat list" where
  "ShareTransitions change =
     (if ChangeCollector change \<noteq> ''device_details'' \<or> Kind change \<noteq> ''changed''
      then ([], [0..<length (ChangeFields change)])
      else
        (case visit_all change 0 (ChangeFields change) (\<lparr> Transitions = [], Listed = (\<lambda>_. None) \<rparr>, []) of
           (st, others) \<Rightarrow> (map complete_transition (Transitions st), others)))"

subsection \<open>Severity of a transition\<close>

definition FieldSeverity :: "share_transition \<Rightarrow> field_change \<Rightarrow> severity" where
  "FieldSeverity t field =
     (let name = ShareFieldName (Field field)
      in if name = ''accepted'' \<or> name = ''allowexitnode'' then
           (if isFalse (Old field) (OldPresent field) \<and> isTrue (New field)
            then SeverityHigh else SeverityMedium)
         else if name = ''acceptedby'' \<or> name = ''acceptedby.loginname'' then
           (if NewPresent field \<and> New field \<noteq> GoNil then SeverityHigh else SeverityMedium)
         else if name = ShareFieldResent then SeverityLow
         else if name = ''inviteurl'' then
           (if InviteKnown t \<and> Accepted (Invite t) then SeverityLow else SeverityMedium)
         else if name \<in> set shareMetadataFields then SeverityLow
         else SeverityMedium)"

text \<open>The loops \<open>if current.Rank() > severity.Rank() { severity = current }\<close>.\<close>

definition raise_to :: "severity \<Rightarrow> severity \<Rightarrow> severity" where
  "raise_to s current = (if s < current then current else s)"

definition Severity :: "share_transition \<Rightarrow> severity" where
  "Severity t =
     (case ShareKind t of
        ShareCreated \<Rightarrow>
          if InviteKnown t \<and> (MultiUse (Invite t) \<or> AllowExitNode (Invite t) \<or> Accepted (Invite t))
          then SeverityHigh else SeverityMedium
      | ShareRemoved \<Rightarrow> SeverityMedium
      | ShareChanged \<Rightarrow> foldl (\<lambda>s f. raise_to s (FieldSeverity t f)) SeverityLow (ShareFields t))"

definition ShareAccepted :: "share_transition \<Rightarrow> bool" where
  "ShareAccepted t \<longleftrightarrow>
     list_ex (\<lambda>field. CompactField (Field field) = ''accepted'' \<and>
                isFalse (Old field) (OldPresent field) \<and> isTrue (New field))
       (ShareFields t)"

definition Bookkeeping :: "share_transition \<Rightarrow> bool" where
  "Bookkeeping t \<longleftrightarrow>
     (if ShareKind t \<noteq> ShareChanged \<or> ShareFields t = [] then False
      else list_all (\<lambda>field. FieldSeverity t field = SeverityLow) (ShareFields t))"

subsection \<open>Classification\<close>

fun device_fields_severity :: "severity \<Rightarrow> bool \<Rightarrow> field_change list \<Rightarrow> severity" where
  "device_fields_severity s truncated [] =
     (if truncated \<and> s = SeverityLow then SeverityMedium else s)"
| "device_fields_severity s truncated (field # fs) =
     (let root = fieldRoot (Field field)
      in if root = ''tags'' then SeverityHigh
         else if (root = ''authorized'' \<or> root = ''keyexpirydisabled'') \<and>
                 isFalse (Old field) (OldPresent field) \<and> isTrue (New field)
         then SeverityHigh
         else if root \<notin> set lowImpactDeviceFields
         then device_fields_severity SeverityMedium truncated fs
         else device_fields_severity s truncated fs)"

definition classifyDeviceFields :: "change \<Rightarrow> severity" where
  "classifyDeviceFields change =
     (if ChangeFields change = [] then SeverityMedium
      else device_fields_severity SeverityLow (ChangeTruncated change) (ChangeFields change))"

definition classifyDeviceDetails :: "change \<Rightarrow> severity" where
  "classifyDeviceDetails change =
     (if ChangeFields change = [] then SeverityMedium
      else
        (case ShareTransitions change of
           (transitions, others) \<Rightarrow>
             (let s0 = (if others \<noteq> [] then SeverityMedium else SeverityLow);
                  s = foldl (\<lambda>s t. raise_to s (Severity t)) s0 transitions
              in if ChangeTruncated change \<and> s = SeverityLow then SeverityMedium else s)))"

definition Classify :: "change \<Rightarrow> severity" where
  "Classify change =
     (if ChangeCollector change \<in> set highImpactCollectors then SeverityHigh
      else if Kind change = ''created'' \<and> privileged (CreatedAs change) (ChangeCollector change)
        then SeverityHigh
      else if ChangeCollector change = ''keys'' \<and> Kind change = ''created'' then SeverityHigh
      else if ChangeCollector change = ''users'' \<and> Kind change = ''changed'' \<and>
              list_ex (\<lambda>field. fieldRoot (Field field) = ''role'') (ChangeFields change)
        then SeverityHigh
      else if ChangeCollector change = ''devices'' \<and> Kind change = ''changed''
        then classifyDeviceFields change
      else if ChangeCollector change = ''device_details'' \<and> Kind change = ''changed''
        then classifyDeviceDetails change
      else SeverityMedium)"

subsection \<open>Lemmas\<close>

lemma raise_to_max: "raise_to s t = max s t"
  by (auto simp: raise_to_def max_def)

lemma foldl_raise: "foldl (\<lambda>s x. raise_to s (f x)) s xs = Max (insert s (f ` set xs))"
proof (induction xs arbitrary: s)
  case (Cons x xs)
  have "foldl (\<lambda>s x. raise_to s (f x)) s (x # xs) = Max (insert (max s (f x)) (f ` set xs))"
    by (simp add: Cons [unfolded raise_to_max] raise_to_max)
  also have "\<dots> = Max (insert s (f ` set (x # xs)))"
    by (cases "xs = []") (simp_all add: max.assoc)
  finally show ?case .
qed simp

text \<open>The importance of one field of a changed device.\<close>

definition device_field_severity :: "field_change \<Rightarrow> severity" where
  "device_field_severity field =
     (let root = fieldRoot (Field field)
      in if root = ''tags'' \<or>
            (root = ''authorized'' \<or> root = ''keyexpirydisabled'') \<and>
              isFalse (Old field) (OldPresent field) \<and> isTrue (New field)
         then SeverityHigh
         else if root \<in> set lowImpactDeviceFields then SeverityLow
         else SeverityMedium)"

lemma device_fields_severity_max:
  "s \<noteq> SeverityHigh \<Longrightarrow>
   device_fields_severity s truncated fs =
     max (if truncated then SeverityMedium else SeverityLow)
       (Max (insert s (device_field_severity ` set fs)))"
proof (induction fs arbitrary: s)
  case Nil
  then show ?case by (cases s) (auto simp: max_def)
next
  case (Cons f fs)
  have ins: "Max (insert s (device_field_severity ` set (f # fs))) =
      Max (insert (max s (device_field_severity f)) (device_field_severity ` set fs))"
    by (cases "fs = []") (simp_all add: max.assoc)
  have top: "Max (insert SeverityHigh X) = SeverityHigh" if "finite X" for X
    using that by (cases "X = {}") simp_all
  have step: "device_fields_severity s truncated (f # fs) =
      (case device_field_severity f of
         SeverityHigh \<Rightarrow> SeverityHigh
       | SeverityMedium \<Rightarrow> device_fields_severity SeverityMedium truncated fs
       | SeverityLow \<Rightarrow> device_fields_severity s truncated fs)"
    by (auto simp: device_field_severity_def Let_def)
  have "max s SeverityMedium = SeverityMedium" using Cons.prems by (cases s) (simp_all add: max_def)
  then show ?case
    unfolding ins step
    using Cons.IH [OF Cons.prems] Cons.IH [of SeverityMedium] top
    by (cases "device_field_severity f") simp_all
qed

lemma Severity_low:
  "Severity t = SeverityLow \<longleftrightarrow>
   ShareKind t = ShareChanged \<and> (\<forall>field \<in> set (ShareFields t). FieldSeverity t field = SeverityLow)"
proof (cases "ShareKind t")
  case ShareChanged
  have "Max (insert SeverityLow (FieldSeverity t ` set (ShareFields t))) = SeverityLow \<longleftrightarrow>
      (\<forall>field \<in> set (ShareFields t). FieldSeverity t field = SeverityLow)"
    by (subst Max_eq_iff) auto
  with ShareChanged show ?thesis by (simp add: Severity_def foldl_raise)
qed (auto simp: Severity_def)

subsection \<open>Depth of the walk\<close>

lemma all_changes_prefix:
  "path \<noteq> '''' \<Longrightarrow> change \<in> set (all_changes c path a aP b bP) \<Longrightarrow>
   \<exists>s. Field change = path @ s"
proof (induction c path a aP b bP rule: all_changes.induct)
  case (1 c path a aP b bP)
  show ?case
  proof (cases "diff_parts c path a aP b bP")
    case None
    with 1 show ?thesis
      by (auto simp: all_changes.simps valueChange_def split: if_splits)
  next
    case (Some parts)
    with 1(3) obtain part where part: "part \<in> set parts"
      and ch: "change \<in> set (all_changes c (fst part) (or_nil (fst (snd part))) (fst (snd part) \<noteq> None)
                (or_nil (snd (snd part))) (snd (snd part) \<noteq> None))"
      by (subst (asm) all_changes.simps) (auto simp del: not_None_eq)
    have "\<exists>s. fst part = path @ s"
      using Some part 1(2)
      by (auto simp: diff_parts_def member_parts_def element_parts_def child_path_def ElementPath_def
          split: json.splits bool.splits if_splits option.splits prod.splits)
    then obtain s where s: "fst part = path @ s" by blast
    then have "fst part \<noteq> ''''" using 1(2) by simp
    from 1(1) [OF Some part this ch] s show ?thesis by auto
  qed
qed

lemma diffKeyed_changes:
  "diffKeyed c path key xs ys res =
   foldl add_change res
     (concat (map (\<lambda>part. all_changes c (fst part) (or_nil (fst (snd part))) (fst (snd part) \<noteq> None)
                (or_nil (snd (snd part))) (snd (snd part) \<noteq> None)) (element_parts path key xs ys)))"
proof -
  have "foldl (\<lambda>res part. diff c (fst part) (or_nil (fst (snd part))) (fst (snd part) \<noteq> None)
           (or_nil (snd (snd part))) (snd (snd part) \<noteq> None) res) res ps =
    foldl add_change res (concat (map (\<lambda>part. all_changes c (fst part) (or_nil (fst (snd part)))
       (fst (snd part) \<noteq> None) (or_nil (snd (snd part))) (snd (snd part) \<noteq> None)) ps))" for ps res
    by (induction ps arbitrary: res) (simp_all add: diff_adds del: not_None_eq)
  then show ?thesis by (simp add: diffKeyed_def)
qed

lemma FieldRoot_plain: "\<forall>c \<in> set (FieldRoot path). c \<noteq> CHR ''.'' \<and> c \<noteq> CHR ''[''"
proof (cases "index_of (\<lambda>c. c = CHR ''.'' \<or> c = CHR ''['') path")
  case None
  then have "\<forall>c \<in> set path. c \<noteq> CHR ''.'' \<and> c \<noteq> CHR ''[''" by (simp add: index_of_None)
  then show ?thesis by (simp add: FieldRoot_def None)
next
  case (Some i)
  from index_of_Some [OF this] show ?thesis
    using Some by (auto simp: FieldRoot_def in_set_conv_nth)
qed

lemma FieldRoot_element:
  assumes "\<forall>c \<in> set root. c \<noteq> CHR ''.'' \<and> c \<noteq> CHR ''[''"
  shows "FieldRoot (root @ CHR ''['' # s) = root"
  using index_of_append [of root "\<lambda>c. c = CHR ''.'' \<or> c = CHR ''[''" "CHR ''['' # s"] assms
  by (simp add: FieldRoot_def)

text \<open>A whole-list field expands to element fields only, so the walk goes no deeper.\<close>

lemma expanded_elements:
  assumes "expandInviteList (FieldRoot p) field = Some (expanded, invites)"
    and "FieldRoot p \<noteq> ''''" and "element \<in> set expanded"
  shows "FieldRoot (Field element) = FieldRoot p \<and> drop (length (FieldRoot p)) (Field element) \<noteq> ''''"
proof -
  from assms(1) obtain xs ys where
    ex: "expanded = Fields (diffKeyed '''' (FieldRoot p) ''id'' xs ys empty_result)"
    by (auto simp: expandInviteList_def Let_def split: option.splits if_splits)
  let ?cs = "concat (map (\<lambda>part. all_changes '''' (fst part) (or_nil (fst (snd part))) (fst (snd part) \<noteq> None)
                (or_nil (snd (snd part))) (snd (snd part) \<noteq> None)) (element_parts (FieldRoot p) ''id'' xs ys))"
  have "expanded = take maxDiffFields ?cs"
    unfolding ex diffKeyed_changes
    by (subst foldl_add_change) (simp_all add: empty_result_def)
  with assms(3) have "element \<in> set (take maxDiffFields ?cs)" by (simp only:)
  then have "element \<in> set ?cs" by (rule in_set_takeD)
  then obtain part where part: "part \<in> set (element_parts (FieldRoot p) ''id'' xs ys)"
    and ch: "element \<in> set (all_changes '''' (fst part) (or_nil (fst (snd part))) (fst (snd part) \<noteq> None)
                (or_nil (snd (snd part))) (snd (snd part) \<noteq> None))"
    by (auto simp del: not_None_eq)
  from part obtain ident where f: "fst part = FieldRoot p @ CHR ''['' # ident @ '']''"
    by (auto simp: element_parts_def ElementPath_def)
  have "fst part \<noteq> ''''" using f by simp
  from all_changes_prefix [OF this ch] obtain s where "Field element = fst part @ s" by blast
  have r: "FieldRoot (FieldRoot p @ CHR ''['' # x) = FieldRoot p" for x
    by (rule FieldRoot_element) (rule FieldRoot_plain)
  from \<open>Field element = fst part @ s\<close> have e: "Field element = FieldRoot p @ CHR ''['' # ident @ '']'' @ s" by (simp add: f)
  show ?thesis
    unfolding e r by simp
qed

lemma visit_depth: "visit (Suc (Suc n)) change field st = visit 2 change field st"
proof (cases "CompactField (FieldRoot (Field field)) \<noteq> ''deviceinvites''")
  case True
  then show ?thesis by (simp add: visit.simps Let_def)
next
  case False
  show ?thesis
  proof (cases "drop (length (FieldRoot (Field field))) (Field field) = ''''")
    case True
    show ?thesis
    proof (cases "expandInviteList (FieldRoot (Field field)) field")
      case None
      then show ?thesis using True False by (simp add: visit.simps numeral_2_eq_2 Let_def)
    next
      case (Some res)
      obtain expanded invites where res: "res = (expanded, invites)" by (cases res)
      have "FieldRoot (Field field) \<noteq> ''''"
        using False by (auto simp: CompactField_def compact_name_def remove_byte_def to_lower_def)
      then have "visit (Suc n) change element s = visit (Suc 0) change element s"
        if "element \<in> set expanded" for element s
        using expanded_elements [OF Some [unfolded res] _ that] by (simp add: visit.simps Let_def)
      then have "foldl (\<lambda>st element. snd (visit (Suc n) change element st)) s expanded =
          foldl (\<lambda>st element. snd (visit (Suc 0) change element st)) s expanded" for s
        by (intro foldl_cong) simp_all
      then show ?thesis using True False Some res
        by (simp add: visit.simps [of "Suc (Suc n)"] visit.simps [of "Suc (Suc 0)"] numeral_2_eq_2 Let_def)
    qed
  next
    case False': False
    with False show ?thesis by (simp add: visit.simps Let_def)
  qed
qed

subsection \<open>Properties\<close>

text \<open>
  A changed device takes the highest importance of its fields, and at least medium when its
  field list was cut: the early returns and the running severity of the loop compute exactly
  that maximum.
\<close>

theorem classify_device_max:
  assumes "ChangeCollector change = ''devices''" and "Kind change = ''changed''"
    and "ChangeFields change \<noteq> []"
  shows "Classify change =
    max (if ChangeTruncated change then SeverityMedium else SeverityLow)
      (Max (device_field_severity ` set (ChangeFields change)))"
proof -
  have "Classify change = device_fields_severity SeverityLow (ChangeTruncated change) (ChangeFields change)"
    using assms by (simp add: Classify_def classifyDeviceFields_def highImpactCollectors_def)
  then show ?thesis
    using assms(3) by (simp add: device_fields_severity_max)
qed

definition upgrade_change :: change where
  "upgrade_change =
     \<lparr> Kind = ''changed'', ChangeCollector = ''devices'', ResourceID = ''n1'', ChangeType = ''device'',
       ChangeName = ''db'',
       ChangeFields = [valueChange ''clientVersion'' (JStr ''1'') True (JStr ''2'') True],
       ChangeTruncated = True, ChangeTotal = 30, ChangeAttribution = None,
       Invites = (\<lambda>_. None), CreatedAs = None \<rparr>"

theorem classify_device_max_witness: "Classify upgrade_change = SeverityMedium"
proof -
  have "fieldRoot ''clientVersion'' = ''clientversion''" by code_simp
  then have "device_field_severity ` set (ChangeFields upgrade_change) = {SeverityLow}"
    by (simp add: upgrade_change_def device_field_severity_def valueChange_def lowImpactDeviceFields_def)
  moreover have "ChangeTruncated upgrade_change" by (simp add: upgrade_change_def)
  ultimately show ?thesis
    using classify_device_max [of upgrade_change] by (simp add: upgrade_change_def)
qed

text \<open>
  A changed device_details resource is classified low only when everything that changed is
  bookkeeping of its share invites: every field belongs to an invite, every transition changes
  an existing invite, each of its fields is low on its own, and no field was cut off.
\<close>

theorem details_low_only_bookkeeping:
  assumes "ChangeCollector change = ''device_details''" and "Kind change = ''changed''"
    and "Classify change = SeverityLow"
  shows "snd (ShareTransitions change) = [] \<and> \<not> ChangeTruncated change \<and>
    (\<forall>t \<in> set (fst (ShareTransitions change)).
       ShareKind t = ShareChanged \<and>
       (\<forall>field \<in> set (ShareFields t). FieldSeverity t field = SeverityLow))"
proof -
  obtain ts others where st: "ShareTransitions change = (ts, others)"
    by (cases "ShareTransitions change")
  let ?s0 = "if others \<noteq> [] then SeverityMedium else SeverityLow"
  have "classifyDeviceDetails change = SeverityLow"
    using assms by (simp add: Classify_def highImpactCollectors_def split: if_splits)
  then have top: "Max (insert ?s0 (Severity ` set ts)) = SeverityLow" and trunc: "\<not> ChangeTruncated change"
    by (auto simp: classifyDeviceDetails_def st foldl_raise Let_def split: if_splits)
  from top have le: "x \<le> SeverityLow" if "x \<in> insert ?s0 (Severity ` set ts)" for x
    using that by (metis List.finite_set Max_ge finite.insertI finite_imageI)
  have "others = []" using le [of ?s0] by (auto split: if_splits)
  moreover have "Severity t = SeverityLow" if "t \<in> set ts" for t
    using le [of "Severity t"] that by (auto intro: order_antisym)
  ultimately show ?thesis using trunc by (auto simp: st Severity_low)
qed

definition resent_change :: change where
  "resent_change =
     \<lparr> Kind = ''changed'', ChangeCollector = ''device_details'', ResourceID = ''d1'', ChangeType = ''device'',
       ChangeName = ''laptop'',
       ChangeFields = [valueChange ''deviceInvites[12].lastEmailSentAt'' (JStr ''a'') True (JStr ''b'') True],
       ChangeTruncated = False, ChangeTotal = 1, ChangeAttribution = None, Invites = (\<lambda>_. None), CreatedAs = None \<rparr>"

theorem details_low_only_bookkeeping_witness: "snd (ShareTransitions resent_change) = []"
proof -
  have "Classify resent_change = SeverityLow" by code_simp
  moreover have "ChangeCollector resent_change = ''device_details''" "Kind resent_change = ''changed''"
    by (simp_all add: resent_change_def)
  ultimately show ?thesis using details_low_only_bookkeeping [of resent_change] by blast
qed

text \<open>
  The guard \<open>field.New != nil\<close> does not exclude a recorded null: \<open>acceptedBy\<close> becoming null,
  which leaves nobody who accepted the share, is classified like an acceptance.
\<close>

lemma accepted_by_null_is_high:
  "FieldSeverity t (valueChange ''acceptedBy'' v True JNull True) = SeverityHigh"
proof -
  have "ShareFieldName ''acceptedBy'' = ''acceptedby''" by code_simp
  then show ?thesis
    by (simp add: FieldSeverity_def valueChange_def compactPreservingNull_def)
qed

end
