(* ===== verification/Model_Attribution.thy ===== *)
theory Model_Attribution
  imports Model_Shares GoTime
begin

text \<open>
  \<open>internal/model/attribution.go\<close>: the bounded record of who made a change, and the
  correlation of a change with the entries of the configuration audit log.

  A set of identifiers (\<open>map[string]bool\<close>) is a list. \<open>UnmarshalAttribution\<close> reads the members
  of a stored record by their exact names, as \<open>MarshalAttribution\<close> writes them (the Go decoder
  would also accept another case).
\<close>

subsection \<open>The record\<close>

definition ActorUnknown :: string where "ActorUnknown = ''actor unknown''"

definition maxAttributionLogin :: nat where "maxAttributionLogin = 254"
definition maxAttributionName :: nat where "maxAttributionName = 128"
definition maxAttributionToken :: nat where "maxAttributionToken = 48"
definition maxAttributionAction :: nat where "maxAttributionAction = 96"
definition maxAttributionTarget :: nat where "maxAttributionTarget = 160"

record audit_entry =
  EventTime :: instant
  EntryOrigin :: string
  EntryActorType :: string
  EntryActorLogin :: string
  EntryActorName :: string
  TargetID :: string
  TargetName :: string
  TargetType :: string
  Property :: string
  EntryAction :: string
  Failed :: bool

definition clean_rune :: "string \<Rightarrow> string" where
  "clean_rune r =
     (if \<not> valid_rune r then rune_error
      else if is_control r \<or> r = [CHR 0xE2, CHR 0x80, CHR 0xA8] \<or> r = [CHR 0xE2, CHR 0x80, CHR 0xA9]
      then '' ''
      else r)"

definition boundText :: "string \<Rightarrow> nat \<Rightarrow> string" where
  "boundText v limit =
     truncate_text (join '' '' (split_fields (concat (map clean_rune (runes v))))) (int limit)"

definition token_char :: "char \<Rightarrow> bool" where
  "token_char c \<longleftrightarrow>
     97 \<le> byte_of c \<and> byte_of c \<le> 122 \<or> 65 \<le> byte_of c \<and> byte_of c \<le> 90 \<or>
     48 \<le> byte_of c \<and> byte_of c \<le> 57 \<or> c \<in> set ''._:-+@''"

text \<open>Every rune kept is ASCII, so the runes kept are the bytes that are token characters.\<close>

definition boundToken :: "string \<Rightarrow> nat \<Rightarrow> string" where
  "boundToken v limit = take limit (filter token_char v)"

definition Bounded :: "attribution \<Rightarrow> attribution" where
  "Bounded a =
     \<lparr> ActorLogin = boundText (ActorLogin a) maxAttributionLogin,
       ActorName = boundText (ActorName a) maxAttributionName,
       ActorType = boundToken (ActorType a) maxAttributionToken,
       Origin = boundToken (Origin a) maxAttributionToken,
       Action = boundToken (Action a) maxAttributionAction,
       Target = boundToken (Target a) maxAttributionTarget,
       OccurredAt = boundToken (OccurredAt a) maxAttributionToken \<rparr>"

definition zero_attribution :: attribution where
  "zero_attribution =
     \<lparr> ActorLogin = '''', ActorName = '''', ActorType = '''', Origin = '''', Action = '''',
       Target = '''', OccurredAt = '''' \<rparr>"

definition IsZero :: "attribution \<Rightarrow> bool" where
  "IsZero a \<longleftrightarrow> a = zero_attribution"

definition NewAttribution :: "audit_entry \<Rightarrow> attribution" where
  "NewAttribution entry =
     (let parts = filter (\<lambda>p. p \<noteq> '''')
            (map trim_space [TargetType entry, EntryAction entry, Property entry]);
          ident = trim_space (TargetID entry);
          target = trim_space (TargetType entry) @ (if ident \<noteq> '''' then '':'' @ ident else '''');
          occurred = (if EventTime entry \<noteq> zero_time then rfc3339_nano (EventTime entry) else '''')
      in Bounded
           \<lparr> ActorLogin = EntryActorLogin entry, ActorName = EntryActorName entry,
             ActorType = EntryActorType entry, Origin = EntryOrigin entry,
             Action = join ''.'' parts, Target = target, OccurredAt = occurred \<rparr>)"

definition label_of :: "(string \<times> string) list \<Rightarrow> string \<Rightarrow> string" where
  "label_of labels v =
     (let s = trim_space v
      in if s = '''' then ''''
         else
           (case map_of labels (to_upper s) of
              Some label \<Rightarrow> label
            | None \<Rightarrow> to_lower (map (\<lambda>c. if c = CHR ''_'' then CHR '' '' else c) s)))"

definition originLabels :: "(string \<times> string) list" where
  "originLabels =
     [(''ADMIN_CONSOLE'', ''admin console''), (''CONFIG_API'', ''API''), (''CONTROL'', ''control plane''),
      (''IDENTITY_PROVIDER'', ''identity provider''), (''NODE'', ''node''),
      (''SUPPORT_REQUEST'', ''support request'')]"

definition OriginLabel :: "string \<Rightarrow> string" where
  "OriginLabel origin_text = label_of originLabels origin_text"

definition actorTypeLabels :: "(string \<times> string) list" where
  "actorTypeLabels =
     [(''USER'', ''user''), (''NODE'', ''node''), (''AUTOMATED_WORKER'', ''automation''),
      (''OAUTH_CLIENT'', ''OAuth client''), (''SCIM'', ''SCIM''),
      (''PAM_SERVICE_ACCOUNT'', ''service account'')]"

definition actorTypeLabel :: "string \<Rightarrow> string" where
  "actorTypeLabel actor_type = label_of actorTypeLabels actor_type"

definition Actor :: "attribution \<Rightarrow> string" where
  "Actor a =
     (let login = trim_space (ActorLogin a); actor_name = trim_space (ActorName a)
      in if login \<noteq> '''' \<and> actor_name \<noteq> '''' \<and> \<not> equal_fold login actor_name
           then login @ '' ('' @ actor_name @ '')''
         else if login \<noteq> '''' then login
         else if actor_name \<noteq> '''' then actor_name
         else if actorTypeLabel (ActorType a) \<noteq> '''' then actorTypeLabel (ActorType a)
         else ActorUnknown)"

definition Display :: "attribution \<Rightarrow> string" where
  "Display a =
     (let label = actorTypeLabel (ActorType a);
          out = (if label \<noteq> '''' \<and> \<not> equal_fold (ActorType a) ''USER'' \<and> Actor a \<noteq> label
                 then Actor a @ '' ['' @ label @ '']'' else Actor a)
      in if OriginLabel (Origin a) \<noteq> '''' then out @ '' via '' @ OriginLabel (Origin a) else out)"

text \<open>The members of the struct in their declared order; the first four are omitted when empty.\<close>

definition attribution_members :: "attribution \<Rightarrow> object" where
  "attribution_members a =
     (if ActorLogin a \<noteq> '''' then [(''actor_login'', JStr (ActorLogin a))] else []) @
     (if ActorName a \<noteq> '''' then [(''actor_name'', JStr (ActorName a))] else []) @
     (if ActorType a \<noteq> '''' then [(''actor_type'', JStr (ActorType a))] else []) @
     (if Origin a \<noteq> '''' then [(''origin'', JStr (Origin a))] else []) @
     [(''action'', JStr (Action a)), (''target'', JStr (Target a)),
      (''occurred_at'', JStr (OccurredAt a))]"

definition MarshalAttribution :: "attribution \<Rightarrow> string" where
  "MarshalAttribution a0 =
     (let a = Bounded a0 in if IsZero a then '''' else marshal (JObj (attribution_members a)))"

definition member_text :: "object \<Rightarrow> string \<Rightarrow> string option" where
  "member_text m k =
     (case obj_get m k of
        None \<Rightarrow> Some ''''
      | Some JNull \<Rightarrow> Some ''''
      | Some (JStr s) \<Rightarrow> Some s
      | _ \<Rightarrow> None)"

definition decode_attribution :: "object \<Rightarrow> attribution option" where
  "decode_attribution m =
     (case (member_text m ''actor_login'', member_text m ''actor_name'', member_text m ''actor_type'',
            member_text m ''origin'', member_text m ''action'', member_text m ''target'',
            member_text m ''occurred_at'') of
        (Some l, Some n, Some t, Some og, Some ac, Some ta, Some oc) \<Rightarrow>
          Some \<lparr> ActorLogin = l, ActorName = n, ActorType = t, Origin = og, Action = ac,
                 Target = ta, OccurredAt = oc \<rparr>
      | _ \<Rightarrow> None)"

definition UnmarshalAttribution :: "string \<Rightarrow> attribution option" where
  "UnmarshalAttribution raw =
     (if trim_space raw = '''' then None
      else
        (case unmarshal_object raw of
           None \<Rightarrow> None
         | Some m \<Rightarrow>
             (case decode_attribution (case m of None \<Rightarrow> [] | Some x \<Rightarrow> x) of
                None \<Rightarrow> None
              | Some a0 \<Rightarrow> (let a = Bounded a0 in if IsZero a then None else Some a))))"

subsection \<open>Correlation\<close>

definition idTargets :: "(string \<times> string list) list" where
  "idTargets =
     [(''devices'', [''NODE'']), (''device_details'', [''NODE'']), (''users'', [''USER'']),
      (''user_invites'', [''INVITE'', ''USER'']), (''keys'', [''API_KEY'']),
      (''webhooks'', [''WEBHOOK_ENDPOINT''])]"

definition tailnetProperties :: "(string \<times> string list) list" where
  "tailnetProperties =
     [(''policy'', [''ACL'']), (''dns'', [''DNS_CONFIG'', ''MAGIC_DNS'']),
      (''contacts'', [''ACCOUNT_EMAIL'', ''SECURITY_EMAIL'', ''SUPPORT_EMAIL'']),
      (''log_streaming'', [''LOGSTREAM_ENDPOINT'']), (''posture'', [''POSTURE_INTEGRATION'']),
      (''settings'',
        [''FILE_SHARING'', ''HTTPS'', ''MACHINE_APPROVAL_NEEDED'', ''MACHINE_AUTH_NEEDED'',
         ''USER_APPROVAL_REQUIRED'', ''MAX_KEY_DURATION'', ''NETWORK_FLOW_LOGGING'',
         ''LOG_EXIT_FLOWS'', ''COLLECT_SERVICES'', ''COLLECT_POSTURE_IDENTITY'',
         ''MULLVAD_VPN'', ''GEOSTEERING''])]"

definition tailnetFieldProperties :: "(string \<times> (string \<times> string list) list) list" where
  "tailnetFieldProperties =
     [(''settings'',
        [(''devicesapprovalon'', [''MACHINE_APPROVAL_NEEDED'', ''MACHINE_AUTH_NEEDED'']),
         (''usersapprovalon'', [''USER_APPROVAL_REQUIRED'']),
         (''deviceskeydurationdays'', [''MAX_KEY_DURATION'']),
         (''networkflowloggingon'', [''NETWORK_FLOW_LOGGING'', ''LOG_EXIT_FLOWS'']),
         (''postureidentitycollectionon'', [''COLLECT_POSTURE_IDENTITY'']),
         (''httpsenabled'', [''HTTPS''])]),
      (''dns'',
        [(''preferences.magicdns'', [''MAGIC_DNS'']), (''magicdns'', [''MAGIC_DNS'']),
         (''nameservers'', [''DNS_CONFIG'']), (''searchpaths'', [''DNS_CONFIG'']),
         (''splitdns'', [''DNS_CONFIG''])])]"

definition deviceFieldProperties :: "(string \<times> string list) list" where
  "deviceFieldProperties =
     [(''tags'', [''ACL_TAGS'']),
      (''enabledRoutes'', [''ALLOWED_IPS'', ''AUTO_APPROVED_ROUTES'', ''EXIT_NODE'']),
      (''advertisedRoutes'', [''ALLOWED_IPS'', ''AUTO_APPROVED_ROUTES'', ''EXIT_NODE'']),
      (''keyExpiryDisabled'', [''KEY_EXPIRY'']),
      (''expires'', [''KEY_EXPIRY_TIME'', ''KEY_EXPIRY'']),
      (''name'', [''MACHINE_NAME'']), (''postureIdentity'', [''POSTURE_IDENTITY'']),
      (''tailnetLockKey'', [''TKA'']), (''tailnetLockError'', [''TKA'']),
      (''postureAttributes'', [''ATTRIBUTES''])]"

definition createActions :: "string list" where
  "createActions =
     [''CREATE'', ''APPROVE'', ''INVITE'', ''LOGIN'', ''RESTORE'', ''JOIN'', ''ACCEPT'', ''ENABLE'']"

definition removeActions :: "string list" where
  "removeActions =
     [''DELETE'', ''REVOKE'', ''EXPIRED'', ''CANCEL'', ''LEAVE'', ''DISABLE'', ''SUSPEND'']"

definition shareTarget :: "string \<Rightarrow> bool" where
  "shareTarget target_type \<longleftrightarrow>
     contains (to_upper target_type) ''INVITE'' \<or> contains (to_upper target_type) ''SHARE''"

definition share_invite_id :: "string \<Rightarrow> string option" where
  "share_invite_id path =
     (let root = FieldRoot path; remainder = drop (length root) path
      in if CompactField root \<noteq> ''deviceinvites'' then None
         else
           (case index_of (\<lambda>c. c = CHR '']'') remainder of
              None \<Rightarrow> None
            | Some closing \<Rightarrow>
                if has_prefix remainder ''['' \<and> 1 < closing
                then Some (take (closing - 1) (drop 1 remainder)) else None))"

definition shareInviteIDs :: "change \<Rightarrow> string list" where
  "shareInviteIDs change =
     (if ChangeCollector change \<noteq> ''device_details'' then []
      else List.map_filter (\<lambda>field. share_invite_id (Field field)) (ChangeFields change))"

definition shareEntryFits :: "change \<Rightarrow> string list \<Rightarrow> string list \<Rightarrow> audit_entry \<Rightarrow> bool" where
  "shareEntryFits change ids invites entry =
     (if invites = [] then False
      else
        (let target = trim_space (TargetID entry); target_name = trim_space (TargetName entry)
         in if target \<noteq> '''' \<and> (target \<in> set invites \<or> target \<in> set ids) then True
            else target_name \<noteq> '''' \<and> equal_fold target_name (trim_space (ChangeName change))))"

definition snapshot_ids :: "string \<Rightarrow> string list" where
  "snapshot_ids raw =
     (if raw = '''' then []
      else
        (case unmarshal_object raw of
           Some (Some m) \<Rightarrow>
             filter (\<lambda>s. s \<noteq> '''')
               (map (\<lambda>key. trim_space (obj_string m key))
                  [''id'', ''nodeId'', ''nodeID'', ''keyId'', ''userId''])
         | _ \<Rightarrow> []))"

definition resourceIDs :: "change \<Rightarrow> string list \<Rightarrow> string list" where
  "resourceIDs change snapshots =
     filter (\<lambda>s. s \<noteq> '''') [trim_space (ResourceID change)] @ concat (map snapshot_ids snapshots)"

definition upper_trimmed :: "string \<Rightarrow> string" where
  "upper_trimmed s = to_upper (trim_space s)"

definition entryTargetsChange :: "change \<Rightarrow> string list \<Rightarrow> audit_entry \<Rightarrow> bool" where
  "entryTargetsChange change ids entry =
     (let target_type = upper_trimmed (TargetType entry);
          by_id = (case map_of idTargets (ChangeCollector change) of
                     Some types \<Rightarrow>
                       if target_type \<notin> set types then False
                       else TargetID entry \<noteq> '''' \<and> trim_space (TargetID entry) \<in> set ids
                   | None \<Rightarrow> TargetID entry \<noteq> '''' \<and> trim_space (TargetID entry) \<in> set ids)
      in case map_of tailnetProperties (ChangeCollector change) of
           Some properties \<Rightarrow>
             if target_type = ''TAILNET'' \<and> upper_trimmed (Property entry) \<in> set properties then True
             else if ChangeCollector change \<noteq> ''posture'' then False
             else by_id
         | None \<Rightarrow> by_id)"

text \<open>The loop of \<open>tailnetEntryFitsFields\<close>: the first field of unknown property accepts.\<close>

fun tailnet_fields_fit :: "(string \<times> string list) list \<Rightarrow> string \<Rightarrow> field_change list \<Rightarrow> bool" where
  "tailnet_fields_fit known property [] = False"
| "tailnet_fields_fit known property (field # fs) =
     (case map_of known (CompactField (Field field)) of
        Some candidates \<Rightarrow>
          if property \<in> set candidates then True else tailnet_fields_fit known property fs
      | None \<Rightarrow>
          (case map_of known (CompactField (FieldRoot (Field field))) of
             None \<Rightarrow> True
           | Some candidates \<Rightarrow>
               if property \<in> set candidates then True else tailnet_fields_fit known property fs))"

definition tailnetEntryFitsFields :: "change \<Rightarrow> audit_entry \<Rightarrow> bool" where
  "tailnetEntryFitsFields change entry =
     (case map_of tailnetFieldProperties (ChangeCollector change) of
        None \<Rightarrow> True
      | Some known \<Rightarrow>
          if Kind change \<noteq> ''changed'' \<or> ChangeTruncated change \<or> ChangeFields change = [] then True
          else tailnet_fields_fit known (upper_trimmed (Property entry)) (ChangeFields change))"

definition device_field_fits :: "string \<Rightarrow> string \<Rightarrow> field_change \<Rightarrow> bool" where
  "device_field_fits action property field \<longleftrightarrow>
     FieldRoot (Field field) = ''authorized'' \<and> action = ''APPROVE'' \<or>
     (case map_of deviceFieldProperties (FieldRoot (Field field)) of
        Some candidates \<Rightarrow> property \<in> set candidates
      | None \<Rightarrow> False)"

definition entryFitsKind :: "change \<Rightarrow> audit_entry \<Rightarrow> bool" where
  "entryFitsKind change entry =
     (let action = upper_trimmed (EntryAction entry)
      in if map_of tailnetProperties (ChangeCollector change) \<noteq> None \<and>
            equal_fold (TargetType entry) ''TAILNET''
         then action \<noteq> ''LOGIN'' \<and> action \<noteq> ''LOGOUT'' \<and> tailnetEntryFitsFields change entry
         else if Kind change = ''created'' then action \<in> set createActions
         else if Kind change = ''removed'' then action \<in> set removeActions
         else if action = ''LOGIN'' \<or> action = ''LOGOUT'' then False
         else if ChangeCollector change \<noteq> ''devices'' \<and> ChangeCollector change \<noteq> ''device_details''
           then True
         else if ChangeTruncated change then shareInviteIDs change = []
         else list_ex (device_field_fits action (upper_trimmed (Property entry))) (ChangeFields change))"

definition kindRank :: "change \<Rightarrow> audit_entry \<Rightarrow> nat" where
  "kindRank change entry =
     (let action = upper_trimmed (EntryAction entry)
      in if Kind change = ''created'' \<and> action = ''CREATE'' \<or> Kind change = ''removed'' \<and> action = ''DELETE''
         then 1 else 0)"

text \<open>The filter of the loop in \<open>Attribute\<close>.\<close>

definition explains :: "change \<Rightarrow> string list \<Rightarrow> string list \<Rightarrow> instant \<Rightarrow> audit_entry \<Rightarrow> bool" where
  "explains change ids shares not_after entry =
     (if Failed entry \<or> not_after \<noteq> zero_time \<and> not_after < EventTime entry then False
      else if ChangeCollector change = ''device_details'' \<and> shareTarget (TargetType entry)
        then shareEntryFits change ids shares entry
      else entryTargetsChange change ids entry \<and> entryFitsKind change entry)"

definition better_entry :: "change \<Rightarrow> audit_entry \<Rightarrow> audit_entry \<Rightarrow> bool" where
  "better_entry change a b =
     (if kindRank change a \<noteq> kindRank change b then kindRank change b < kindRank change a
      else EventTime b < EventTime a)"

definition Attribute :: "change \<Rightarrow> string \<Rightarrow> string \<Rightarrow> audit_entry list \<Rightarrow> instant \<Rightarrow> string list \<Rightarrow>
    attribution option" where
  "Attribute change before after entries not_after related =
     (let ids = resourceIDs change (before # after # related);
          candidates = filter (explains change ids (shareInviteIDs change) not_after) entries
      in if candidates = [] then None
         else Some (NewAttribution (hd (sort_stable (better_entry change) candidates))))"

subsection \<open>Properties\<close>

lemma better_entry_weak: "strict_weak (better_entry change)"
  by (auto simp: strict_weak_def better_entry_def split: if_splits)

lemma attribute_best:
  "let ids = resourceIDs change (before # after # related);
       fits = explains change ids (shareInviteIDs change) not_after
   in case Attribute change before after entries not_after related of
        None \<Rightarrow> \<not> list_ex fits entries
      | Some a \<Rightarrow>
          (\<exists>entry \<in> set entries. a = NewAttribution entry \<and> fits entry \<and> \<not> Failed entry \<and>
             (not_after = zero_time \<or> EventTime entry \<le> not_after) \<and>
             (\<forall>other \<in> set entries. fits other \<longrightarrow> \<not> better_entry change other entry))"
proof -
  define fits where "fits = explains change (resourceIDs change (before # after # related))
      (shareInviteIDs change) not_after"
  define entry where "entry = hd (sort_stable (better_entry change) (filter fits entries))"
  show ?thesis
  proof (cases "filter fits entries = []")
    case True
    then show ?thesis
      by (simp add: Attribute_def fits_def Let_def filter_empty_conv list_ex_iff)
  next
    case False
    then have "entry \<in> set (filter fits entries)"
      unfolding entry_def by (metis hd_in_set set_sort_stable sort_stable_eq_Nil)
    moreover have "\<forall>other \<in> set (filter fits entries). \<not> better_entry change other entry"
      unfolding entry_def by (simp add: hd_sort_stable_least [OF better_entry_weak])
    moreover have "fits e \<Longrightarrow> \<not> Failed e \<and> (not_after = zero_time \<or> EventTime e \<le> not_after)" for e
      by (auto simp: fits_def explains_def split: if_splits)
    moreover have "Attribute change before after entries not_after related = Some (NewAttribution entry)"
      using False by (simp add: Attribute_def entry_def fits_def Let_def)
    ultimately show ?thesis by (auto simp: fits_def Let_def)
  qed
qed

text \<open>
  The entry a change is attributed to is one of the audit log's, succeeded, is not later
  than the change, and is about it; no other such entry fits its kind better, and none that fits
  as well is more recent. Without such an entry the change is not attributed to anyone.
\<close>

theorem attribute_best_entry:
  "let ids = resourceIDs change (before # after # related);
       fits = explains change ids (shareInviteIDs change) not_after
   in case Attribute change before after entries not_after related of
        None \<Rightarrow> \<not> list_ex fits entries
      | Some a \<Rightarrow>
          (\<exists>entry \<in> set entries. a = NewAttribution entry \<and> fits entry \<and> \<not> Failed entry \<and>
             (not_after = zero_time \<or> EventTime entry \<le> not_after) \<and>
             (\<forall>other \<in> set entries. fits other \<longrightarrow> \<not> better_entry change other entry))"
  by (rule attribute_best)

definition sample_change :: change where
  "sample_change =
     \<lparr> Kind = ''created'', ChangeCollector = ''users'', ResourceID = ''u1'', ChangeType = ''user'',
       ChangeName = ''alice'', ChangeFields = [], ChangeTruncated = False, ChangeTotal = 0,
       ChangeAttribution = None, Invites = (\<lambda>_. None), CreatedAs = None \<rparr>"

definition sample_entry :: "bool \<Rightarrow> audit_entry" where
  "sample_entry failed =
     \<lparr> EventTime = 5, EntryOrigin = ''ADMIN_CONSOLE'', EntryActorType = ''USER'',
       EntryActorLogin = ''root@example.com'', EntryActorName = ''Root'', TargetID = ''u1'',
       TargetName = '''', TargetType = ''USER'', Property = '''', EntryAction = ''CREATE'',
       Failed = failed \<rparr>"

theorem attribute_best_entry_witness:
  "\<exists>entry \<in> set [sample_entry True, sample_entry False].
     Attribute sample_change '''' '''' [sample_entry True, sample_entry False] 9 [] =
       Some (NewAttribution entry) \<and> \<not> Failed entry"
proof -
  have "list_ex (explains sample_change (resourceIDs sample_change ['''', ''''])
      (shareInviteIDs sample_change) 9) [sample_entry True, sample_entry False]"
    by code_simp
  with attribute_best_entry [of sample_change "''''" "''''" "[]" 9 "[sample_entry True, sample_entry False]"]
  show ?thesis by (auto simp: Let_def split: option.splits)
qed

text \<open>
  A change that only touches what a device reports about itself (client version, operating
  system, addresses and the like) is never credited to an administrator's edit of the device,
  whatever the audit log holds.
\<close>

theorem node_reported_fields_unattributed:
  assumes "ChangeCollector change = ''devices''" and "Kind change = ''changed''"
    and "\<not> ChangeTruncated change"
    and "\<forall>field \<in> set (ChangeFields change).
      FieldRoot (Field field) \<noteq> ''authorized'' \<and>
      FieldRoot (Field field) \<notin> set (map fst deviceFieldProperties)"
  shows "Attribute change before after entries not_after related = None"
proof -
  have "map_of tailnetProperties ''devices'' = None"
    by (simp add: tailnetProperties_def)
  moreover have "\<not> device_field_fits action property field"
    if "field \<in> set (ChangeFields change)" for field action property
    using assms(4) that map_of_eq_None_iff [of deviceFieldProperties "FieldRoot (Field field)"]
    by (simp add: device_field_fits_def)
  ultimately have "\<not> entryFitsKind change entry" for entry
    using assms(1-3) by (simp add: entryFitsKind_def Let_def list_ex_iff)
  then show ?thesis
    using assms(1) by (simp add: Attribute_def explains_def Let_def)
qed

theorem node_reported_fields_unattributed_witness:
  "Attribute (upgrade_change\<lparr>ChangeTruncated := False\<rparr>) '''' '''' [sample_entry False] 9 [] = None"
proof (rule node_reported_fields_unattributed)
  have "FieldRoot ''clientVersion'' = ''clientVersion''" by code_simp
  then show "\<forall>field \<in> set (ChangeFields (upgrade_change\<lparr>ChangeTruncated := False\<rparr>)).
      FieldRoot (Field field) \<noteq> ''authorized'' \<and>
      FieldRoot (Field field) \<notin> set (map fst deviceFieldProperties)"
    by (simp add: upgrade_change_def valueChange_def deviceFieldProperties_def)
qed (simp_all add: upgrade_change_def)

text \<open>
  A stored or displayed attribution is bounded: each field is at most as long as its
  documented limit, and the fields that are identifiers contain only letters, digits and the
  separators of the audit vocabulary.
\<close>

theorem attribution_bounded:
  "length (ActorLogin (Bounded a)) \<le> 254 \<and> length (ActorName (Bounded a)) \<le> 128 \<and>
   length (ActorType (Bounded a)) \<le> 48 \<and> length (Origin (Bounded a)) \<le> 48 \<and>
   length (Action (Bounded a)) \<le> 96 \<and> length (Target (Bounded a)) \<le> 160 \<and>
   length (OccurredAt (Bounded a)) \<le> 48 \<and>
   list_all token_char (ActorType (Bounded a) @ Origin (Bounded a) @ Action (Bounded a) @
     Target (Bounded a) @ OccurredAt (Bounded a))"
proof -
  have t: "length (boundText v n) \<le> n" for v n
    using truncate_text_length [of "int n"] by (simp add: boundText_def)
  have k: "length (boundToken v n) \<le> n" for v n by (simp add: boundToken_def)
  have c: "list_all token_char (boundToken v n)" for v n
    by (auto simp: boundToken_def list_all_iff dest: in_set_takeD)
  show ?thesis
    using t [of _ 254] t [of _ 128] k [of _ 48] k [of _ 96] k [of _ 160] c
    by (simp add: Bounded_def maxAttributionLogin_def maxAttributionName_def
        maxAttributionToken_def maxAttributionAction_def maxAttributionTarget_def)
qed

end
