(* ===== verification/Expiry.thy ===== *)
theory Expiry
  imports GoTime GoJson_Laws "HOL-Library.AList"
begin

text \<open>
  \<open>internal/expiry/expiry.go\<close>: which devices and auth keys are about to expire, and which
  warnings to send. \<open>Plan\<close> is a pure function of the stored warning state, the items and the
  time; the theorems state which warnings it sends and that no window of an expiry is warned
  about twice, over any sequence of runs.

  The map \<open>Alerts\<close> is an association list; \<open>grouped\<close> is a function from a window to its items.
  Durations are unbounded integers: the source multiplies a number of days by 24 hours in an
  \<open>int64\<close>, which is exact up to 106751 days.
\<close>

definition KindDevice :: string where "KindDevice = ''device''"
definition KindAuthKey :: string where "KindAuthKey = ''auth_key''"

definition DefaultHorizonDays :: int where "DefaultHorizonDays = 14"

record snapshot =
  SnapID :: string
  SnapName :: string
  Raw :: string

record item =
  ItemKind :: string
  ItemID :: string
  ItemName :: string
  Tags :: "string list"
  Expires :: instant

definition Key :: "item \<Rightarrow> string" where
  "Key i = ItemKind i @ ''/'' @ ItemID i"

definition KindLabel :: "item \<Rightarrow> string" where
  "KindLabel i = (if ItemKind i = KindAuthKey then ''Auth key'' else ''Device node key'')"

definition DaysLeft :: "item \<Rightarrow> instant \<Rightarrow> int" where
  "DaysLeft i now =
     (let remaining = Expires i - now in if remaining \<le> 0 then 0 else remaining div day)"

subsection \<open>Reading a snapshot\<close>

definition truthy :: "json option \<Rightarrow> bool" where
  "truthy v \<longleftrightarrow> v = Some (JBool True)"

definition parseTime :: "json option \<Rightarrow> instant option" where
  "parseTime v =
     (case v of
        Some (JStr raw) \<Rightarrow>
          if trim_space raw = '''' then None
          else
            (case parse_rfc3339 (trim_space raw) of
               None \<Rightarrow> None
             | Some (t, year) \<Rightarrow> if year \<le> 1 then None else Some t)
      | _ \<Rightarrow> None)"

fun firstString :: "object \<Rightarrow> string list \<Rightarrow> string" where
  "firstString m [] = ''''"
| "firstString m (key # keys) =
     (case obj_get m key of
        Some (JStr v) \<Rightarrow> if trim_space v \<noteq> '''' then v else firstString m keys
      | _ \<Rightarrow> firstString m keys)"

definition stringList :: "json option \<Rightarrow> string list" where
  "stringList v =
     (case v of
        Some (JArr xs) \<Rightarrow>
          List.map_filter (\<lambda>x. case x of JStr t \<Rightarrow> if t \<noteq> '''' then Some t else None | _ \<Rightarrow> None) xs
      | _ \<Rightarrow> [])"

definition uniqueSorted :: "string list \<Rightarrow> string list" where
  "uniqueSorted vs = sort (uniq vs)"

text \<open>The object a snapshot decodes to; an error or a JSON null reads as none.\<close>

definition snapshot_object :: "snapshot \<Rightarrow> object option" where
  "snapshot_object s = (case unmarshal_object (Raw s) of Some (Some m) \<Rightarrow> Some m | _ \<Rightarrow> None)"

definition deviceItem :: "snapshot \<Rightarrow> item option" where
  "deviceItem s =
     (case snapshot_object s of
        None \<Rightarrow> None
      | Some data \<Rightarrow>
          if truthy (obj_get data ''keyExpiryDisabled'') \<or> truthy (obj_get data ''isEphemeral'') then None
          else
            (case parseTime (obj_get data ''expires'') of
               None \<Rightarrow> None
             | Some expires \<Rightarrow>
                 (let n1 = (if SnapName s = '''' then firstString data [''name'', ''hostname''] else SnapName s);
                      n2 = (if n1 = '''' then SnapID s else n1)
                  in Some \<lparr> ItemKind = KindDevice, ItemID = SnapID s, ItemName = n2,
                            Tags = uniqueSorted (stringList (obj_get data ''tags'')),
                            Expires = expires \<rparr>)))"

definition object_member :: "json option \<Rightarrow> string \<Rightarrow> json option" where
  "object_member v k = (case v of Some (JObj m) \<Rightarrow> obj_get m k | _ \<Rightarrow> None)"

text \<open>A revocation timestamp other than the zero time means the key was revoked.\<close>

definition revoked_key :: "json option \<Rightarrow> bool" where
  "revoked_key v \<longleftrightarrow>
     (case v of
        Some (JStr revoked) \<Rightarrow>
          trim_space revoked \<noteq> '''' \<and>
          (case parse_rfc3339 (trim_space revoked) of None \<Rightarrow> True | Some (t, year) \<Rightarrow> 1 < year)
      | _ \<Rightarrow> False)"

definition other_key_type :: "json option \<Rightarrow> bool" where
  "other_key_type v \<longleftrightarrow> (case v of Some (JStr t) \<Rightarrow> t \<noteq> '''' \<and> t \<noteq> ''auth'' | _ \<Rightarrow> False)"

definition keyItem :: "snapshot \<Rightarrow> item option" where
  "keyItem s =
     (case snapshot_object s of
        None \<Rightarrow> None
      | Some data \<Rightarrow>
          if other_key_type (obj_get data ''keyType'') then None
          else if truthy (obj_get data ''invalid'') then None
          else if revoked_key (obj_get data ''revoked'') then None
          else
            (case parseTime (obj_get data ''expires'') of
               None \<Rightarrow> None
             | Some expires \<Rightarrow>
                 (let n0 = firstString data [''description''];
                      n1 = (if n0 = '''' then SnapName s else n0);
                      n2 = (if n1 = '''' then SnapID s else n1);
                      create = object_member (object_member (obj_get data ''capabilities'') ''devices'') ''create'';
                      tags = stringList (object_member create ''tags'') @ stringList (obj_get data ''tags'')
                  in Some \<lparr> ItemKind = KindAuthKey, ItemID = SnapID s, ItemName = n2,
                            Tags = uniqueSorted tags, Expires = expires \<rparr>)))"

definition matches :: "string list \<Rightarrow> string list \<Rightarrow> bool" where
  "matches tags allowed \<longleftrightarrow> allowed = [] \<or> list_ex (\<lambda>t. to_lower t \<in> set allowed) tags"

definition item_lt :: "item \<Rightarrow> item \<Rightarrow> bool" where
  "item_lt a b =
     (if Expires a \<noteq> Expires b then Expires a < Expires b
      else if ItemKind a \<noteq> ItemKind b then ItemKind a < ItemKind b
      else ItemID a < ItemID b)"

definition sortItems :: "item list \<Rightarrow> item list" where
  "sortItems xs = sort_stable item_lt xs"

definition Items :: "snapshot list \<Rightarrow> snapshot list \<Rightarrow> string list \<Rightarrow> item list" where
  "Items devices keys tagFilter =
     (let allowed = map (\<lambda>t. to_lower (trim_space t)) tagFilter;
          keep = (\<lambda>i. matches (Tags i) allowed)
      in sortItems (filter keep (List.map_filter deviceItem devices) @
                    filter keep (List.map_filter keyItem keys)))"

definition Upcoming :: "item list \<Rightarrow> instant \<Rightarrow> int \<Rightarrow> item list" where
  "Upcoming xs now horizonDays =
     (let limit = now + horizonDays * day
      in sortItems (filter (\<lambda>i. now < Expires i \<and> Expires i \<le> limit) xs))"

definition HorizonDays :: "int list \<Rightarrow> int" where
  "HorizonDays windows =
     (let horizon = foldl max 0 windows
      in if horizon = 0 then DefaultHorizonDays else horizon)"

subsection \<open>The warning state\<close>

record alert =
  AlertExpires :: string
  Windows :: "int list"

record warning_state =
  Generation :: int
  Alerts :: "(string \<times> alert) list"

record warning =
  WindowDays :: int
  WarnedItems :: "item list"

definition descendingUnique :: "int list \<Rightarrow> int list" where
  "descendingUnique vs = rev (sort (uniq (filter (\<lambda>v. \<not> v \<le> 0) vs)))"

subsection \<open>The plan\<close>

definition crossed_windows :: "int list \<Rightarrow> instant \<Rightarrow> item \<Rightarrow> int list" where
  "crossed_windows windows now i = filter (\<lambda>w. Expires i - now \<le> w * day) windows"

definition previous_alert :: "warning_state \<Rightarrow> item \<Rightarrow> alert" where
  "previous_alert previous i =
     (case map_of (Alerts previous) (Key i) of
        Some a \<Rightarrow> if AlertExpires a \<noteq> rfc3339 (Expires i)
                   then \<lparr> AlertExpires = rfc3339 (Expires i), Windows = [] \<rparr> else a
      | None \<Rightarrow> \<lparr> AlertExpires = rfc3339 (Expires i), Windows = [] \<rparr>)"

text \<open>The body of the loop over the items (lines 250 to 273).\<close>

definition plan_item :: "warning_state \<Rightarrow> int list \<Rightarrow> instant \<Rightarrow> item \<Rightarrow>
    (int \<Rightarrow> item list) \<times> warning_state \<Rightarrow> (int \<Rightarrow> item list) \<times> warning_state" where
  "plan_item previous windows now i res =
     (if Expires i - now \<le> 0 then res
      else
        (let crossed = crossed_windows windows now i
         in if crossed = [] then res
            else
              (let alert = previous_alert previous i;
                   tightest = last crossed;
                   grouped = (if tightest \<notin> set (Windows alert)
                              then (fst res)(tightest := fst res tightest @ [i]) else fst res);
                   alert = alert\<lparr>Windows := descendingUnique (Windows alert @ crossed)\<rparr>
               in (grouped, (snd res)\<lparr>Alerts := AList.update (Key i) alert (Alerts (snd res))\<rparr>))))"

text \<open>The state of another monitoring generation does not count.\<close>

definition fresh_state :: "warning_state \<Rightarrow> int \<Rightarrow> warning_state" where
  "fresh_state previous generation =
     (if Generation previous \<noteq> generation then \<lparr> Generation = generation, Alerts = [] \<rparr> else previous)"

definition Plan :: "warning_state \<Rightarrow> int \<Rightarrow> item list \<Rightarrow> int list \<Rightarrow> instant \<Rightarrow>
    warning list \<times> warning_state" where
  "Plan previous0 generation items windows0 now =
     (let previous = fresh_state previous0 generation;
          windows = descendingUnique windows0;
          (grouped, next_state) =
            fold (plan_item previous windows now) items
              ((\<lambda>_. []), \<lparr> Generation = generation, Alerts = [] \<rparr>);
          warnings = List.map_filter
            (\<lambda>w. if grouped w \<noteq> [] then Some \<lparr> WindowDays = w, WarnedItems = sortItems (grouped w) \<rparr>
                 else None) windows
      in (warnings, next_state))"

subsection \<open>Lemmas\<close>

interpretation tags: sorted_set_norm uniqueSorted "\<lambda>t. t" "\<lambda>t. True"
  by unfold_locales (auto simp: uniqueSorted_def)

text \<open>\<open>descendingUnique\<close>, read from its end, is the sorted set of the positive windows.\<close>

interpretation windows: sorted_set_norm "\<lambda>ws. rev (descendingUnique ws)" "\<lambda>w. w" "\<lambda>w. 0 < w"
  by unfold_locales (auto simp: descendingUnique_def)

lemma set_descendingUnique [simp]: "set (descendingUnique ws) = {w \<in> set ws. 0 < w}"
  using windows.norm_set [of ws] by simp

lemma last_descending_filter:
  assumes "filter P (descendingUnique ws) \<noteq> []"
  shows "last (filter P (descendingUnique ws)) = Min {w \<in> set ws. 0 < w \<and> P w}"
proof -
  let ?xs = "filter P (descendingUnique ws)"
  have "sorted (rev ?xs)"
    using windows.norm_sorted [of ws] by (simp add: rev_filter sorted_wrt_filter)
  then have "\<forall>w \<in> set ?xs. last ?xs \<le> w"
    using assms by (cases "rev ?xs") (auto simp flip: hd_rev set_rev [of ?xs])
  moreover have "set ?xs = {w \<in> set ws. 0 < w \<and> P w}" by auto
  ultimately show ?thesis
    using assms last_in_set [OF assms] by (intro Min_eqI [symmetric]) auto
qed

definition in_window :: "int list \<Rightarrow> instant \<Rightarrow> item \<Rightarrow> bool" where
  "in_window windows now i \<longleftrightarrow> now < Expires i \<and> crossed_windows windows now i \<noteq> []"

definition due :: "warning_state \<Rightarrow> int list \<Rightarrow> instant \<Rightarrow> int \<Rightarrow> item \<Rightarrow> bool" where
  "due previous windows now w i \<longleftrightarrow>
     in_window windows now i \<and> w = last (crossed_windows windows now i) \<and>
     w \<notin> set (Windows (previous_alert previous i))"

definition next_alert :: "warning_state \<Rightarrow> int list \<Rightarrow> instant \<Rightarrow> item \<Rightarrow> alert" where
  "next_alert previous windows now i =
     (previous_alert previous i)\<lparr>Windows :=
        descendingUnique (Windows (previous_alert previous i) @ crossed_windows windows now i)\<rparr>"

lemma plan_item_cases:
  "plan_item previous windows now i (g, s) =
     (if in_window windows now i
      then ((\<lambda>w. g w @ (if due previous windows now w i then [i] else [])),
            s\<lparr>Alerts := AList.update (Key i) (next_alert previous windows now i) (Alerts s)\<rparr>)
      else (g, s))"
  by (auto simp: plan_item_def in_window_def due_def next_alert_def Let_def fun_eq_iff)

lemma fold_plan_grouped:
  "fst (fold (plan_item previous windows now) items (g, s)) =
   (\<lambda>w. g w @ filter (due previous windows now w) items)"
proof (induction items arbitrary: g s)
  case (Cons i items)
  show ?case
    by (cases "in_window windows now i")
      (simp_all add: plan_item_cases Cons.IH due_def fun_eq_iff)
qed simp

lemma fold_plan_generation:
  "Generation (snd (fold (plan_item previous windows now) items (g, s))) = Generation s"
  by (induction items arbitrary: g s) (simp_all add: plan_item_cases)

lemma fold_plan_alert_other:
  "k \<notin> Key ` set items \<Longrightarrow>
   map_of (Alerts (snd (fold (plan_item previous windows now) items (g, s)))) k = map_of (Alerts s) k"
  by (induction items arbitrary: g s) (auto simp: plan_item_cases update_conv')

lemma fold_plan_alert:
  "distinct (map Key items) \<Longrightarrow> i \<in> set items \<Longrightarrow> in_window windows now i \<Longrightarrow>
   map_of (Alerts (snd (fold (plan_item previous windows now) items (g, s)))) (Key i) =
     Some (next_alert previous windows now i)"
proof (induction items arbitrary: g s)
  case (Cons j items)
  show ?case
  proof (cases "i = j")
    case True
    then have "Key i \<notin> Key ` set items" using Cons.prems(1) by simp
    with True Cons.prems show ?thesis
      by (simp add: plan_item_cases fold_plan_alert_other update_conv')
  next
    case False
    with Cons show ?thesis by (simp add: plan_item_cases)
  qed
qed simp

lemma Plan_warnings:
  "fst (Plan previous g items ws now) =
   List.map_filter
     (\<lambda>w. if filter (due (fresh_state previous g) (descendingUnique ws) now w) items \<noteq> []
          then Some \<lparr> WindowDays = w,
                 WarnedItems = sortItems (filter (due (fresh_state previous g) (descendingUnique ws) now w) items) \<rparr>
          else None)
     (descendingUnique ws)"
  using fold_plan_grouped [of "fresh_state previous g" "descendingUnique ws" now items "\<lambda>_. []"
      "\<lparr> Generation = g, Alerts = [] \<rparr>"]
  by (cases "fold (plan_item (fresh_state previous g) (descendingUnique ws) now) items
      ((\<lambda>_. []), \<lparr> Generation = g, Alerts = [] \<rparr>)")
    (simp add: Plan_def Let_def)

lemma Plan_state:
  "snd (Plan previous g items ws now) =
   snd (fold (plan_item (fresh_state previous g) (descendingUnique ws) now) items
     ((\<lambda>_. []), \<lparr> Generation = g, Alerts = [] \<rparr>))"
  by (cases "fold (plan_item (fresh_state previous g) (descendingUnique ws) now) items
      ((\<lambda>_. []), \<lparr> Generation = g, Alerts = [] \<rparr>)")
    (simp add: Plan_def Let_def)

lemma Plan_generation [simp]: "Generation (snd (Plan previous g items ws now)) = g"
  by (simp add: Plan_state fold_plan_generation)

text \<open>Who is warned, and about which window.\<close>

definition warned :: "warning list \<Rightarrow> (int \<times> item) set" where
  "warned warnings = {(WindowDays x, i) |x i. x \<in> set warnings \<and> i \<in> set (WarnedItems x)}"

lemma set_map_filter_if:
  "set (List.map_filter (\<lambda>w. if P w then Some (f w) else None) vs) = f ` {w \<in> set vs. P w}"
  by (auto simp: set_map_filter split: if_splits)

lemma warned_groups:
  "(w, i) \<in> warned (List.map_filter
     (\<lambda>w. if filter (D w) items \<noteq> [] then Some \<lparr> WindowDays = w, WarnedItems = sortItems (filter (D w) items) \<rparr>
          else None) vs) \<longleftrightarrow> w \<in> set vs \<and> i \<in> set items \<and> D w i"
proof -
  have mem: "i \<in> set (sortItems (filter P items)) \<longleftrightarrow> i \<in> set items \<and> P i" for P
    by (auto simp: sortItems_def)
  have key: "(w, i) \<in> warned xs \<longleftrightarrow> (\<exists>x \<in> set xs. WindowDays x = w \<and> i \<in> set (WarnedItems x))" for xs
    by (auto simp: warned_def)
  have "i \<in> set items \<and> D w i \<Longrightarrow> filter (D w) items \<noteq> []"
    by (auto simp: filter_empty_conv)
  then show ?thesis
    unfolding key set_map_filter_if by (simp add: mem) blast
qed

lemma warned_Plan:
  "(w, i) \<in> warned (fst (Plan previous g items ws now)) \<longleftrightarrow>
   w \<in> set (descendingUnique ws) \<and> i \<in> set items \<and>
   due (fresh_state previous g) (descendingUnique ws) now w i"
  unfolding Plan_warnings by (rule warned_groups)

text \<open>The windows an item is inside, and what has been sent about it before.\<close>

definition windows_of :: "int list \<Rightarrow> instant \<Rightarrow> item \<Rightarrow> int set" where
  "windows_of ws now i = {w \<in> set ws. 0 < w \<and> Expires i - now \<le> w * day}"

definition already :: "warning_state \<Rightarrow> int \<Rightarrow> string \<Rightarrow> string \<Rightarrow> int \<Rightarrow> bool" where
  "already s g key expires w \<longleftrightarrow>
     Generation s = g \<and>
     (case map_of (Alerts s) key of
        Some a \<Rightarrow> AlertExpires a = expires \<and> w \<in> set (Windows a)
      | None \<Rightarrow> False)"

lemma previous_alert_already:
  "w \<in> set (Windows (previous_alert (fresh_state s g) i)) \<longleftrightarrow> already s g (Key i) (rfc3339 (Expires i)) w"
  by (auto simp: previous_alert_def fresh_state_def already_def split: option.splits)

lemma crossed_windows_set: "set (crossed_windows (descendingUnique ws) now i) = windows_of ws now i"
  by (auto simp: crossed_windows_def windows_of_def)

lemma crossed_windows_empty:
  "crossed_windows (descendingUnique ws) now i = [] \<longleftrightarrow> windows_of ws now i = {}"
  using crossed_windows_set [of ws now i] by (metis set_empty)

lemma finite_windows_of [simp]: "finite (windows_of ws now i)"
  by (simp add: windows_of_def)

lemma crossed_windows_last:
  "windows_of ws now i \<noteq> {} \<Longrightarrow>
   last (crossed_windows (descendingUnique ws) now i) = Min (windows_of ws now i)"
  using last_descending_filter [of "\<lambda>w. Expires i - now \<le> w * day" ws]
  by (simp add: crossed_windows_empty [symmetric]) (simp add: crossed_windows_def windows_of_def)

lemma due_iff:
  "due (fresh_state s g) (descendingUnique ws) now w i \<longleftrightarrow>
   now < Expires i \<and> windows_of ws now i \<noteq> {} \<and> w = Min (windows_of ws now i) \<and>
   \<not> already s g (Key i) (rfc3339 (Expires i)) w"
proof (cases "windows_of ws now i = {}")
  case False
  show ?thesis
    unfolding due_def in_window_def crossed_windows_empty crossed_windows_last [OF False]
      previous_alert_already by blast
qed (simp add: due_def in_window_def crossed_windows_empty)

lemma Plan_already:
  assumes "distinct (map Key items)" and "i \<in> set items"
    and "now < Expires i" and "windows_of ws now i \<noteq> {}"
  shows "already (snd (Plan s g items ws now)) g (Key i) (rfc3339 (Expires i)) w \<longleftrightarrow>
    0 < w \<and> already s g (Key i) (rfc3339 (Expires i)) w \<or> w \<in> windows_of ws now i"
proof -
  let ?p = "fresh_state s g" and ?ws = "descendingUnique ws"
  have "in_window ?ws now i" using assms by (simp add: in_window_def crossed_windows_empty)
  from fold_plan_alert [OF assms(1,2) this]
  have "map_of (Alerts (snd (Plan s g items ws now))) (Key i) = Some (next_alert ?p ?ws now i)"
    by (simp add: Plan_state)
  moreover have "AlertExpires (next_alert ?p ?ws now i) = rfc3339 (Expires i)"
    by (simp add: next_alert_def previous_alert_def split: option.splits)
  ultimately have "already (snd (Plan s g items ws now)) g (Key i) (rfc3339 (Expires i)) w \<longleftrightarrow>
      w \<in> set (Windows (next_alert ?p ?ws now i))"
    by (simp add: already_def)
  also have "\<dots> \<longleftrightarrow> 0 < w \<and> (already s g (Key i) (rfc3339 (Expires i)) w \<or> w \<in> windows_of ws now i)"
    by (simp add: next_alert_def crossed_windows_set previous_alert_already conj_commute disj_commute)
  finally show ?thesis by (auto simp: windows_of_def)
qed

subsection \<open>Properties\<close>

text \<open>
  Exactly which warnings one run sends: an item is reported for a window when it has not
  expired, the window is the tightest configured one it is inside, and the stored state of the
  same generation does not already record that window for this expiry. Nothing else is reported
  and nothing due is left out.
\<close>

theorem plan_warns_exactly:
  "(w, i) \<in> warned (fst (Plan previous g items ws now)) \<longleftrightarrow>
   i \<in> set items \<and> now < Expires i \<and> windows_of ws now i \<noteq> {} \<and> w = Min (windows_of ws now i) \<and>
   \<not> already previous g (Key i) (rfc3339 (Expires i)) w"
proof -
  have "windows_of ws now i \<noteq> {} \<Longrightarrow> Min (windows_of ws now i) \<in> set (descendingUnique ws)"
    using Min_in [of "windows_of ws now i"] unfolding set_descendingUnique by (auto simp: windows_of_def)
  then show ?thesis unfolding warned_Plan due_iff by blast
qed

text \<open>Successive runs of the check in one generation, each from the state the last one left.\<close>

fun runs :: "int \<Rightarrow> warning_state \<Rightarrow> (item list \<times> int list \<times> instant) list \<Rightarrow> warning list list" where
  "runs g s [] = []"
| "runs g s ((items, ws, now) # rest) =
     fst (Plan s g items ws now) # runs g (snd (Plan s g items ws now)) rest"

definition reports :: "string \<Rightarrow> int \<Rightarrow> warning list \<Rightarrow> bool" where
  "reports key w warnings \<longleftrightarrow>
     list_ex (\<lambda>x. WindowDays x = w \<and> list_ex (\<lambda>i. Key i = key) (WarnedItems x)) warnings"

lemma reports_warned: "reports key w warnings \<longleftrightarrow> (\<exists>i. Key i = key \<and> (w, i) \<in> warned warnings)"
  by (auto simp: reports_def warned_def list_ex_iff)

text \<open>The resource is inside a window, with the same expiry, and listed once.\<close>

definition stays :: "string \<Rightarrow> string \<Rightarrow> item list \<times> int list \<times> instant \<Rightarrow> bool" where
  "stays key expires step =
     (case step of (items, ws, now) \<Rightarrow>
        distinct (map Key items) \<and>
        (\<exists>i \<in> set items. Key i = key \<and> rfc3339 (Expires i) = expires \<and> now < Expires i \<and>
           windows_of ws now i \<noteq> {}))"

lemma distinct_key: "distinct (map Key items) \<Longrightarrow> i \<in> set items \<Longrightarrow> j \<in> set items \<Longrightarrow> Key i = Key j \<Longrightarrow> i = j"
  by (simp add: distinct_map inj_on_def)

lemma step_reports:
  assumes "stays key expires (items, ws, now)"
  shows "reports key w (fst (Plan s g items ws now)) \<Longrightarrow> \<not> already s g key expires w"
    and "reports key w (fst (Plan s g items ws now)) \<Longrightarrow> already (snd (Plan s g items ws now)) g key expires w"
    and "already s g key expires w \<Longrightarrow> 0 < w \<Longrightarrow> already (snd (Plan s g items ws now)) g key expires w"
proof -
  from assms obtain i where i: "distinct (map Key items)" "i \<in> set items" "Key i = key"
    "rfc3339 (Expires i) = expires" "now < Expires i" "windows_of ws now i \<noteq> {}"
    by (auto simp: stays_def)
  have rep: "reports key w (fst (Plan s g items ws now)) \<longleftrightarrow> (w, i) \<in> warned (fst (Plan s g items ws now))"
    using i distinct_key by (auto simp: reports_warned warned_Plan)
  show "reports key w (fst (Plan s g items ws now)) \<Longrightarrow> \<not> already s g key expires w"
    unfolding rep warned_Plan due_iff i(3,4) by blast
  have "Min (windows_of ws now i) \<in> windows_of ws now i" using i(6) by simp
  then show "reports key w (fst (Plan s g items ws now)) \<Longrightarrow> already (snd (Plan s g items ws now)) g key expires w"
    using i Plan_already [OF i(1,2,5,6), of s g w] by (simp add: rep warned_Plan due_iff)
  show "already s g key expires w \<Longrightarrow> 0 < w \<Longrightarrow> already (snd (Plan s g items ws now)) g key expires w"
    using i Plan_already [OF i(1,2,5,6), of s g w] by simp
qed

lemma runs_silent:
  "list_all (stays key expires) steps \<Longrightarrow> already s g key expires w \<Longrightarrow> 0 < w \<Longrightarrow>
   filter (reports key w) (runs g s steps) = []"
proof (induction steps arbitrary: s)
  case (Cons step steps)
  obtain items ws now where step: "step = (items, ws, now)" by (cases step)
  with Cons.prems have st: "stays key expires (items, ws, now)" by simp
  from Cons step step_reports(1) [OF st] step_reports(3) [OF st]
  show ?case by auto
qed simp


definition sample_item :: item where
  "sample_item = \<lparr> ItemKind = ''device'', ItemID = ''n1'', ItemName = ''db'', Tags = [], Expires = 10 * day \<rparr>"


text \<open>
  Keys that cannot expire unnoticed are the only ones reported: no item is made of a device
  whose key expiry is disabled or that is ephemeral, and the items come in order of expiry.
\<close>

theorem items_exclude_disabled:
  "sorted_wrt (\<lambda>a b. Expires a \<le> Expires b) (Items devices keys allowed) \<and>
   (\<forall>i \<in> set (Items devices keys allowed).
      (\<exists>s \<in> set devices. deviceItem s = Some i \<and>
         (\<exists>m. snapshot_object s = Some m \<and> obj_get m ''keyExpiryDisabled'' \<noteq> Some (JBool True) \<and>
            obj_get m ''isEphemeral'' \<noteq> Some (JBool True))) \<or>
      (\<exists>s \<in> set keys. keyItem s = Some i \<and>
         (\<exists>m. snapshot_object s = Some m \<and> \<not> revoked_key (obj_get m ''revoked''))))"
proof -
  have weak: "strict_weak item_lt"
    by (auto simp: strict_weak_def item_lt_def split: if_splits)
  have "sorted_wrt (\<lambda>a b. \<not> item_lt b a) (Items devices keys allowed)"
    unfolding Items_def sortItems_def Let_def by (rule sorted_sort_stable [OF weak])
  then have "sorted_wrt (\<lambda>a b. Expires a \<le> Expires b) (Items devices keys allowed)"
    by (rule sorted_wrt_mono_rel [rotated]) (auto simp: item_lt_def split: if_splits)
  moreover have "deviceItem s = Some i \<Longrightarrow> \<exists>m. snapshot_object s = Some m \<and>
      obj_get m ''keyExpiryDisabled'' \<noteq> Some (JBool True) \<and> obj_get m ''isEphemeral'' \<noteq> Some (JBool True)" for s i
    by (auto simp: deviceItem_def truthy_def split: option.splits if_splits)
  moreover have "keyItem s = Some i \<Longrightarrow> \<exists>m. snapshot_object s = Some m \<and>
      \<not> revoked_key (obj_get m ''revoked'')" for s i
    by (auto simp: keyItem_def split: option.splits if_splits)
  moreover have "i \<in> set (Items devices keys allowed) \<Longrightarrow>
      (\<exists>s \<in> set devices. deviceItem s = Some i) \<or> (\<exists>s \<in> set keys. keyItem s = Some i)" for i
    by (auto simp: Items_def sortItems_def Let_def set_map_filter)
  ultimately show ?thesis by meson
qed

theorem items_exclude_disabled_witness:
  "sorted_wrt (\<lambda>a b. Expires a \<le> Expires b)
     (Items [\<lparr> SnapID = ''n1'', SnapName = '''', Raw = ''not json'' \<rparr>] [] [])"
  using items_exclude_disabled [of "[\<lparr> SnapID = ''n1'', SnapName = '''', Raw = ''not json'' \<rparr>]" "[]" "[]"]
  by (rule conjunct1)

end
