(* ===== verification/Webhook.thy ===== *)
theory Webhook
  imports GoJson_Laws
begin

text \<open>
  \<open>internal/webhook/webhook.go\<close>: verification of a Tailscale webhook delivery and the choice of
  the collectors it triggers. \<open>Verify\<close> is the whole function: body bounds, the signature header,
  the HMAC over the timestamp and the body, and the bounds on the content.

  Members of an event are read by their documented names (the Go decoder would also accept
  another case). An error is the value \<open>Inl\<close> of its class and message. The empty list of
  collectors is the source's nil slice: a full reconciliation.
\<close>

datatype webhook_error =
    ErrUnauthenticated string
  | ErrBodyTooLarge
  | ErrMalformedBody string

datatype fallback =
    NoFallback
  | FallbackEventCount
  | FallbackEventTypeMissing
  | FallbackEventTypeLength
  | FallbackEventTypeInvalid

definition MaxBodyBytes :: nat where "MaxBodyBytes = 1048576"
definition maxEvents :: nat where "maxEvents = 100"
definition maxEventTypeLen :: nat where "maxEventTypeLen = 128"
definition maxSignatureAge :: duration where "maxSignatureAge = 24 * hour"
definition maxFutureSkew :: duration where "maxFutureSkew = 5 * minute"

record event =
  EvTimestamp :: string
  EvVersion :: json
  EvType :: string
  EvTailnet :: string
  EvMessage :: string
  EvData :: json

record delivery =
  Events :: "event list"
  BodyHash :: string
  EventTypes :: "string list"
  Collectors :: "string list"
  FallbackReason :: fallback

subsection \<open>The signature header\<close>

text \<open>\<open>strconv.ParseInt(s, 10, 64)\<close>\<close>

definition parse_int64 :: "string \<Rightarrow> int option" where
  "parse_int64 s =
     (let (neg, digits) =
        (case s of
           c # cs \<Rightarrow> if c = CHR ''-'' then (True, cs) else if c = CHR ''+'' then (False, cs) else (False, s)
         | [] \<Rightarrow> (False, s));
          n = (if neg then - 1 else 1) * int (digits_value (map digit_val digits))
      in if digits = [] \<or> \<not> list_all is_digit digits then None
         else if n < - (2 ^ 63) \<or> 2 ^ 63 - 1 < n then None
         else Some n)"

text \<open>One part of the header: \<open>None\<close> when the part ends the parse with an error.\<close>

definition signature_part :: "string \<Rightarrow> int option \<times> string list \<Rightarrow> string + (int option \<times> string list)" where
  "signature_part part st =
     (case cut (CHR ''='') (trim_space part) of
        (key, raw, found) \<Rightarrow>
          if \<not> found then Inr st
          else if trim_space key = ''t'' then
            (if fst st \<noteq> None then Inl ''webhook signature has duplicate timestamp''
             else
               (case parse_int64 (trim_space raw) of
                  None \<Rightarrow> Inl ''webhook signature timestamp is invalid''
                | Some parsed \<Rightarrow>
                    if parsed \<le> 0 then Inl ''webhook signature timestamp is invalid''
                    else Inr (Some parsed, snd st)))
          else if trim_space key = ''v1'' then
            Inr (fst st, snd st @ (if trim_space raw \<noteq> '''' then [trim_space raw] else []))
          else Inr st)"

fun signature_parts :: "string list \<Rightarrow> int option \<times> string list \<Rightarrow> string + (int option \<times> string list)" where
  "signature_parts [] st = Inr st"
| "signature_parts (part # parts) st =
     (case signature_part part st of Inl e \<Rightarrow> Inl e | Inr st' \<Rightarrow> signature_parts parts st')"

definition parseSignature :: "string \<Rightarrow> string + (int \<times> string list)" where
  "parseSignature v =
     (case signature_parts (split (CHR '','') v) (None, []) of
        Inl e \<Rightarrow> Inl e
      | Inr (Some timestamp, signatures) \<Rightarrow>
          if signatures = [] then Inl ''webhook signature is missing'' else Inr (timestamp, signatures)
      | Inr (None, _) \<Rightarrow> Inl ''webhook signature is missing'')"

definition decodeSignature :: "string \<Rightarrow> string option" where
  "decodeSignature v = hex_decode (trim_space v)"

subsection \<open>The events\<close>

definition text_member :: "object \<Rightarrow> string \<Rightarrow> string option" where
  "text_member m k =
     (case obj_get m k of
        None \<Rightarrow> Some '''' | Some JNull \<Rightarrow> Some '''' | Some (JStr s) \<Rightarrow> Some s | _ \<Rightarrow> None)"

definition raw_member :: "object \<Rightarrow> string \<Rightarrow> json" where
  "raw_member m k = (case obj_get m k of Some v \<Rightarrow> v | None \<Rightarrow> JNull)"

definition decode_event :: "json \<Rightarrow> event option" where
  "decode_event v =
     (let fields = (case v of JObj m \<Rightarrow> Some m | JNull \<Rightarrow> Some [] | _ \<Rightarrow> None)
      in case fields of
           None \<Rightarrow> None
         | Some m \<Rightarrow>
             (case (text_member m ''timestamp'', text_member m ''type'', text_member m ''tailnet'',
                    text_member m ''message'') of
                (Some ts, Some ty, Some tn, Some ms) \<Rightarrow>
                  Some \<lparr> EvTimestamp = ts, EvVersion = raw_member m ''version'', EvType = ty,
                         EvTailnet = tn, EvMessage = ms, EvData = raw_member m ''data'' \<rparr>
              | _ \<Rightarrow> None))"

definition decode_events :: "string \<Rightarrow> event list option" where
  "decode_events body =
     (case unmarshal body of
        Some (JArr xs) \<Rightarrow> those (map decode_event xs)
      | Some JNull \<Rightarrow> Some []
      | _ \<Rightarrow> None)"

text \<open>The loop over the events (lines 125 to 146): the event types kept and the first reason.\<close>

definition or_reason :: "fallback \<Rightarrow> fallback \<Rightarrow> fallback" where
  "or_reason old new = (if old = NoFallback then new else old)"

definition event_type_step :: "event \<Rightarrow> string list \<times> fallback \<Rightarrow> string list \<times> fallback" where
  "event_type_step e st =
     (let t = trim_space (EvType e)
      in if t = '''' then (fst st, or_reason (snd st) FallbackEventTypeMissing)
         else if has_control t then (fst st, or_reason (snd st) FallbackEventTypeInvalid)
         else if maxEventTypeLen < length t
           then (fst st @ [truncate_text t (int maxEventTypeLen)],
                 or_reason (snd st) FallbackEventTypeLength)
         else (fst st @ [t], snd st))"

definition uniqueSorted :: "string list \<Rightarrow> string list" where
  "uniqueSorted vs = sort (uniq vs)"

definition nodeEvents :: "string list" where
  "nodeEvents =
     [''nodeapproved'', ''nodeauthorized'', ''nodecreated'', ''nodedeleted'', ''nodekeyexpired'',
      ''nodekeyexpiringinoneday'', ''nodeneedsapproval'', ''nodeneedsauthorization'',
      ''nodeneedssignature'', ''nodesigned'', ''exitnodeipforwardingnotenabled'',
      ''subnetipforwardingnotenabled'']"

definition userEvents :: "string list" where
  "userEvents = [''userapproved'', ''usercreated'', ''userneedsapproval'', ''userroleupdated'']"

definition webhookEvents :: "string list" where
  "webhookEvents = [''webhookcreated'', ''webhookdeleted'', ''webhookupdated'']"

text \<open>The collectors of one event type; \<open>None\<close> for an unknown one.\<close>

definition event_collectors :: "string \<Rightarrow> string list option" where
  "event_collectors event_type =
     (let t = to_lower (trim_space event_type)
      in if t \<in> set nodeEvents then Some [''devices'', ''device_details'']
         else if t \<in> set userEvents then Some [''users'', ''user_invites'']
         else if t = ''policyupdate'' then Some [''policy'']
         else if t \<in> set webhookEvents then Some [''webhooks'']
         else None)"

fun collect_events :: "event list \<Rightarrow> string list \<Rightarrow> string list option" where
  "collect_events [] acc = Some acc"
| "collect_events (e # es) acc =
     (case event_collectors (EvType e) of
        None \<Rightarrow> None
      | Some cs \<Rightarrow> collect_events es (acc @ cs))"

definition CollectorsFor :: "event list \<Rightarrow> string list" where
  "CollectorsFor es = (case collect_events es [] of None \<Rightarrow> [] | Some cs \<Rightarrow> sort (uniq cs))"

text \<open>Everything after the signature check (lines 115 to 155).\<close>

definition classify_body :: "string \<Rightarrow> webhook_error + delivery" where
  "classify_body body =
     (case decode_events body of
        None \<Rightarrow> Inl (ErrMalformedBody ''webhook body is not a JSON event array'')
      | Some events \<Rightarrow>
          (let first = (if events = [] \<or> maxEvents < length events then FallbackEventCount else NoFallback);
               (types, reason) = fold event_type_step events ([], first);
               trimmed = map (\<lambda>e. e\<lparr>EvType := trim_space (EvType e)\<rparr>) events
           in Inr \<lparr> Events = trimmed, BodyHash = sha256_hex body,
                    EventTypes = take maxEvents (uniqueSorted types),
                    Collectors = (if reason = NoFallback then CollectorsFor trimmed else []),
                    FallbackReason = reason \<rparr>))"

definition signed_message :: "int \<Rightarrow> string \<Rightarrow> string" where
  "signed_message timestamp body = int_text timestamp @ ''.'' @ body"

definition Verify :: "string \<Rightarrow> string \<Rightarrow> string \<Rightarrow> instant \<Rightarrow> webhook_error + delivery" where
  "Verify body signature secret0 now =
     (if body = '''' then Inl (ErrMalformedBody ''webhook body is empty'')
      else if MaxBodyBytes < length body then Inl ErrBodyTooLarge
      else
        (let secret = trim_space secret0
         in if secret = '''' then Inl (ErrUnauthenticated ''webhook secret is not configured'')
            else
              (case parseSignature signature of
                 Inl e \<Rightarrow> Inl (ErrUnauthenticated e)
               | Inr (timestamp, signatures) \<Rightarrow>
                   (let sent = timestamp * second;
                        want = hmac_sha256 secret (signed_message timestamp body)
                    in if now + maxFutureSkew < sent \<or> maxSignatureAge < now - sent
                       then Inl (ErrUnauthenticated ''webhook signature timestamp is outside the accepted window'')
                       else if \<not> list_ex (\<lambda>encoded. decodeSignature encoded = Some want) signatures
                       then Inl (ErrUnauthenticated ''webhook signature is invalid'')
                       else classify_body body))))"

definition SignatureForTest :: "string \<Rightarrow> string \<Rightarrow> int \<Rightarrow> string" where
  "SignatureForTest body secret timestamp =
     ''t='' @ int_text timestamp @ '',v1='' @ hex_encode (hmac_sha256 secret (signed_message timestamp body))"

definition Method :: "string \<Rightarrow> bool" where
  "Method rMethod \<longleftrightarrow> rMethod = ''POST''"

subsection \<open>Lemmas\<close>

interpretation types: sorted_set_norm uniqueSorted "\<lambda>t. t" "\<lambda>t. True"
  by unfold_locales (auto simp: uniqueSorted_def)

lemma hex_digit_plain: "d < 16 \<Longrightarrow> 32 < byte_of (hex_digit d) \<and> byte_of (hex_digit d) < 128 \<and>
    hex_digit d \<noteq> CHR '','' \<and> hex_digit d \<noteq> CHR ''=''"
proof -
  assume "d < 16"
  then have "byte_of (hex_digit d) = (if d < 10 then 48 + d else 87 + d)"
    by (simp add: hex_digit_def)
  with \<open>d < 16\<close> show ?thesis by (auto split: if_splits)
qed

lemma hex_encode_plain:
  "c \<in> set (hex_encode s) \<Longrightarrow> 32 < byte_of c \<and> byte_of c < 128 \<and> c \<noteq> CHR '','' \<and> c \<noteq> CHR ''=''"
proof (induction s)
  case (Cons b s)
  have "byte_of b div 16 < 16"
    using byte_of_less [of b] by (simp add: less_mult_imp_div_less)
  moreover have "byte_of b mod 16 < 16" by simp
  ultimately show ?case
    using Cons hex_digit_plain by (auto simp: hex_encode_def)
qed (simp add: hex_encode_def)

lemma nat_text_digits: "list_all is_digit (nat_text n)"
  unfolding nat_text_def by (rule digits_are_digits [OF nat_digits_less])

lemma nat_text_nonempty: "nat_text n \<noteq> []"
  by (simp add: nat_text_def nat_digits_nonempty)

lemma digit_plain: "is_digit c \<Longrightarrow> 32 < byte_of c \<and> byte_of c < 128 \<and> c \<noteq> CHR '','' \<and> c \<noteq> CHR ''=''
    \<and> c \<noteq> CHR ''-'' \<and> c \<noteq> CHR ''+''"
  by (auto simp: is_digit_def)

lemma parse_int64_text:
  assumes "0 < n" and "n < 2 ^ 63"
  shows "parse_int64 (int_text n) = Some n"
proof -
  obtain c cs where t: "nat_text (nat n) = c # cs" using nat_text_nonempty by (cases "nat_text (nat n)") auto
  have d: "list_all is_digit (c # cs)" using nat_text_digits [of "nat n"] t by simp
  then have "c \<noteq> CHR ''-''" "c \<noteq> CHR ''+''" using digit_plain by auto
  moreover have "digits_value (map digit_val (c # cs)) = nat n"
    unfolding t [symmetric] nat_text_def by (simp only: digit_vals [OF nat_digits_less] digits_value_nat_digits)
  ultimately show ?thesis using assms d by (simp add: parse_int64_def int_text_def t)
qed

lemma int_text_plain:
  assumes "0 < n" and "c \<in> set (int_text n)"
  shows "32 < byte_of c \<and> byte_of c < 128 \<and> c \<noteq> CHR '','' \<and> c \<noteq> CHR ''=''"
  using assms nat_text_digits [of "nat n"] digit_plain by (auto simp: int_text_def list_all_iff)

lemma index_of_found: "\<forall>x \<in> set a. \<not> P x \<Longrightarrow> P c \<Longrightarrow> index_of P (a @ c # b) = Some (length a)"
  by (induction a) auto

lemma cut_plain: "c \<notin> set a \<Longrightarrow> cut c (a @ c # b) = (a, b, True)"
proof -
  assume "c \<notin> set a"
  then have "index_of (\<lambda>x. x = c) (a @ c # b) = Some (length a)" by (intro index_of_found) auto
  then show ?thesis by simp
qed

lemma hex_trim: "trim_space (hex_encode s) = hex_encode s"
  using hex_encode_plain by (intro trim_space_plain) blast

text \<open>The header of \<open>SignatureForTest\<close> parses to its timestamp and its one signature.\<close>

lemma parse_signature_of:
  assumes t: "0 < t" "t < 2 ^ 63" and h: "h \<noteq> []"
  shows "parseSignature (''t='' @ int_text t @ '',v1='' @ hex_encode h) = Inr (t, [hex_encode h])"
proof -
  let ?a = "''t='' @ int_text t" and ?b = "''v1='' @ hex_encode h"
  have pa: "\<forall>c \<in> set ?a. 32 < byte_of c \<and> byte_of c < 128" using int_text_plain [OF t(1)] by auto
  have pb: "\<forall>c \<in> set ?b. 32 < byte_of c \<and> byte_of c < 128" using hex_encode_plain by auto
  have "split (CHR '','') (join '','' [?a, ?b]) = [?a, ?b]"
    using int_text_plain [OF t(1)] hex_encode_plain by (intro split_join) auto
  then have s: "split (CHR '','') (''t='' @ int_text t @ '',v1='' @ hex_encode h) = [?a, ?b]" by simp
  have ca: "cut (CHR ''='') ?a = (''t'', int_text t, True)" using cut_plain [of "CHR ''=''" "''t''"] by simp
  have cb: "cut (CHR ''='') ?b = (''v1'', hex_encode h, True)" using cut_plain [of "CHR ''=''" "''v1''"] by simp
  have tt: "trim_space ''t'' = ''t''" "trim_space ''v1'' = ''v1''" by (rule trim_space_plain, simp)+
  have ti: "trim_space (int_text t) = int_text t" using int_text_plain [OF t(1)] by (intro trim_space_plain) blast
  have he: "hex_encode h \<noteq> []" using h length_hex_encode [of h] by auto
  have 1: "signature_part ?a (None, []) = Inr (Some t, [])"
    unfolding signature_part_def trim_space_plain [OF pa] ca
    using t by (simp add: tt ti parse_int64_text)
  have 2: "signature_part ?b (Some t, []) = Inr (Some t, [hex_encode h])"
    unfolding signature_part_def trim_space_plain [OF pb] cb
    using he by (simp add: tt hex_trim)
  have "signature_parts [?a, ?b] (None, []) = Inr (Some t, [hex_encode h])"
    by (simp only: signature_parts.simps 1 2 sum.case)
  then show ?thesis unfolding parseSignature_def s by simp
qed

lemma verify_signed:
  assumes "body \<noteq> ''''" and "length body \<le> MaxBodyBytes" and "trim_space secret \<noteq> ''''"
    and "0 < t" and "t < 2 ^ 63" and "t * second \<le> now + maxFutureSkew"
    and "now - t * second \<le> maxSignatureAge"
  shows "Verify body (SignatureForTest body (trim_space secret) t) secret now = classify_body body"
proof -
  let ?h = "hmac_sha256 (trim_space secret) (signed_message t body)"
  have "?h \<noteq> []" using length_hmac [of "trim_space secret" "signed_message t body"] by auto
  then have "parseSignature (SignatureForTest body (trim_space secret) t) = Inr (t, [hex_encode ?h])"
    unfolding SignatureForTest_def by (rule parse_signature_of [OF assms(4,5)])
  moreover have "decodeSignature (hex_encode ?h) = Some ?h"
    by (simp add: decodeSignature_def hex_trim hex_round_trip)
  ultimately show ?thesis using assms unfolding Verify_def by (simp add: Let_def)
qed

lemma classify_empty_array:
  "classify_body ''[]'' = Inr \<lparr> Events = [], BodyHash = sha256_hex ''[]'', EventTypes = [], Collectors = [],
     FallbackReason = FallbackEventCount \<rparr>"
proof -
  have "unmarshal ''[]'' = Some (JArr [])" by code_simp
  then show ?thesis by (simp add: classify_body_def decode_events_def uniqueSorted_def uniq_def)
qed

subsection \<open>Properties\<close>

text \<open>
  C12. Authenticity. A delivery is accepted only when the configured secret is not blank, the
  body is not empty and within the bound, the header carries exactly one positive timestamp
  that is no more than 24 hours old and no more than 5 minutes ahead, and one of its
  signatures decodes to the HMAC-SHA-256 of the timestamp and this very body under the secret.
  What is returned is then a function of the body alone.
\<close>
theorem verify_authentic:
  assumes "Verify body signature secret now = Inr d"
  shows "\<exists>t sigs. parseSignature signature = Inr (t, sigs)
      \<and> trim_space secret \<noteq> '''' \<and> body \<noteq> '''' \<and> length body \<le> MaxBodyBytes
      \<and> t * second \<le> now + 5 * minute \<and> now - t * second \<le> 24 * hour
      \<and> (\<exists>s \<in> set sigs. hex_decode (trim_space s) =
            Some (hmac_sha256 (trim_space secret) (int_text t @ ''.'' @ body)))
      \<and> classify_body body = Inr d"
proof -
  obtain t sigs where p: "parseSignature signature = Inr (t, sigs)"
    using assms by (auto simp: Verify_def Let_def split: if_splits sum.splits)
  with assms show ?thesis
    by (auto simp: Verify_def Let_def decodeSignature_def signed_message_def list_ex_iff
        maxFutureSkew_def maxSignatureAge_def split: if_splits)
qed

theorem verify_authentic_witness:
  "\<exists>t sigs. parseSignature (SignatureForTest ''[]'' ''k'' 100) = Inr (t, sigs)
      \<and> (\<exists>s \<in> set sigs. hex_decode (trim_space s) =
            Some (hmac_sha256 (trim_space ''k'') (int_text t @ ''.'' @ ''[]'')))"
proof -
  have k: "trim_space ''k'' = ''k''" by (rule trim_space_plain) simp
  have "Verify ''[]'' (SignatureForTest ''[]'' (trim_space ''k'') 100) ''k'' (100 * second) = classify_body ''[]''"
    by (rule verify_signed) (simp_all add: k MaxBodyBytes_def maxFutureSkew_def maxSignatureAge_def duration_defs)
  from verify_authentic [OF this [unfolded classify_empty_array k]] show ?thesis by blast
qed

text \<open>
  Completeness of the check, and the round trip of the header: a body within the bounds,
  signed with the trimmed secret at a time inside the accepted window, passes every
  authentication step, so that only its content decides the result.
\<close>
theorem verify_accepts_signed:
  assumes "body \<noteq> ''''" and "length body \<le> MaxBodyBytes" and "trim_space secret \<noteq> ''''"
    and "0 < t" and "t < 2 ^ 63" and "t * second \<le> now + maxFutureSkew"
    and "now - t * second \<le> maxSignatureAge"
  shows "Verify body (SignatureForTest body (trim_space secret) t) secret now = classify_body body"
  using assms by (rule verify_signed)

theorem verify_accepts_signed_witness:
  "Verify ''[]'' (SignatureForTest ''[]'' (trim_space ''k'') 100) ''k'' (100 * second) = classify_body ''[]''"
proof (rule verify_accepts_signed)
  have "trim_space ''k'' = ''k''" by (rule trim_space_plain) simp
  then show "trim_space ''k'' \<noteq> ''''" by simp
qed (simp_all add: MaxBodyBytes_def maxFutureSkew_def maxSignatureAge_def duration_defs)

text \<open>What \<open>collect_events\<close> gathers: nothing as soon as one event is unknown.\<close>

lemma collect_events_spec:
  "collect_events es acc =
     (if \<exists>e \<in> set es. event_collectors (EvType e) = None then None
      else Some (acc @ concat (map (\<lambda>e. the (event_collectors (EvType e))) es)))"
  by (induction es acc rule: collect_events.induct) (auto split: option.splits)

definition targets :: "event list \<Rightarrow> string set" where
  "targets es = (\<Union>e \<in> set es. set (the (event_collectors (EvType e))))"

lemma collectors_for_spec:
  "CollectorsFor es =
     (if \<exists>e \<in> set es. event_collectors (EvType e) = None then [] else sorted_list_of_set (targets es))"
proof -
  have "sort (uniq xs) = sorted_list_of_set (set xs)" for xs :: "string list"
    by (metis distinct_uniq set_uniq sorted_list_of_set_sort_remdups distinct_remdups_id)
  then show ?thesis
    by (cases "\<exists>e \<in> set es. event_collectors (EvType e) = None")
      (simp_all add: CollectorsFor_def collect_events_spec targets_def del: not_None_eq)
qed

lemma event_collectors_nonempty: "event_collectors t = Some cs \<Longrightarrow> cs \<noteq> []"
  by (auto simp: event_collectors_def Let_def split: if_splits)

lemma event_step_reason:
  "snd (fold event_type_step es st) = NoFallback \<Longrightarrow>
     snd st = NoFallback
     \<and> (\<forall>e \<in> set es. trim_space (EvType e) \<noteq> '''' \<and> length (trim_space (EvType e)) \<le> maxEventTypeLen)"
proof (induction es arbitrary: st)
  case (Cons e es)
  then have "snd (event_type_step e st) = NoFallback" by simp
  then have "snd st = NoFallback" and "trim_space (EvType e) \<noteq> ''''"
    and "length (trim_space (EvType e)) \<le> maxEventTypeLen"
    by (auto simp: event_type_step_def or_reason_def Let_def split: if_splits)
  with Cons show ?case by simp
qed simp

lemma event_step_types:
  assumes "\<forall>t \<in> set (fst st). length t \<le> maxEventTypeLen"
  shows "\<forall>t \<in> set (fst (fold event_type_step es st)). length t \<le> maxEventTypeLen"
  using assms
proof (induction es arbitrary: st)
  case (Cons e es)
  have "length (truncate_text t (int maxEventTypeLen)) \<le> maxEventTypeLen" for t
    using truncate_text_length [of "int maxEventTypeLen" t] by simp
  then have "\<forall>t \<in> set (fst (event_type_step e st)). length t \<le> maxEventTypeLen"
    using Cons.prems by (auto simp: event_type_step_def Let_def)
  with Cons.IH show ?case by simp
qed simp

text \<open>
  No event is missed. When a delivery names collectors, every one of its 1 to 100 events
  has a known type and all the collectors of that type are named, and nothing else is; any
  unknown, missing or oversized type leaves the list empty, which asks for a full
  reconciliation.
\<close>
theorem collectors_cover_events:
  assumes "classify_body body = Inr d"
  shows "sorted_wrt (<) (Collectors d)
      \<and> (if Collectors d = []
         then FallbackReason d \<noteq> NoFallback \<or> (\<exists>e \<in> set (Events d). event_collectors (EvType e) = None)
         else FallbackReason d = NoFallback
            \<and> length (Events d) \<in> {1..maxEvents}
            \<and> (\<forall>e \<in> set (Events d). event_collectors (EvType e) \<noteq> None
                  \<and> EvType e \<noteq> '''' \<and> length (EvType e) \<le> maxEventTypeLen)
            \<and> set (Collectors d) = (\<Union>e \<in> set (Events d). set (the (event_collectors (EvType e)))))"
proof -
  obtain es where es: "decode_events body = Some es"
    using assms by (auto simp: classify_body_def split: option.splits)
  let ?first = "if es = [] \<or> maxEvents < length es then FallbackEventCount else NoFallback"
  let ?tr = "map (\<lambda>e. e\<lparr>EvType := trim_space (EvType e)\<rparr>) es"
  let ?r = "fold event_type_step es ([], ?first)"
  have d: "Events d = ?tr" "FallbackReason d = snd ?r"
      "Collectors d = (if snd ?r = NoFallback then CollectorsFor ?tr else [])"
    using assms by (auto simp: classify_body_def es Let_def split: prod.splits)
  have fin: "finite (targets ?tr)" by (simp add: targets_def)
  have srt: "sorted_wrt (<) (Collectors d)" by (simp add: d(3) collectors_for_spec)
  have none: "Collectors d = [] \<Longrightarrow> FallbackReason d \<noteq> NoFallback \<or> (\<exists>e \<in> set (Events d). event_collectors (EvType e) = None)"
  proof (rule ccontr)
    assume e: "Collectors d = []"
      and n: "\<not> (FallbackReason d \<noteq> NoFallback \<or> (\<exists>e \<in> set (Events d). event_collectors (EvType e) = None))"
    then have nf: "snd ?r = NoFallback" by (simp add: d(2))
    from event_step_reason [OF this] have "es \<noteq> []" by (auto split: if_splits)
    then obtain x where x: "x \<in> set ?tr" by (cases es) auto
    with n obtain cs where cs: "event_collectors (EvType x) = Some cs" by (force simp: d(1))
    with x have "set cs \<subseteq> targets ?tr" by (force simp: targets_def)
    moreover have "targets ?tr = {}"
    proof -
      have "CollectorsFor ?tr = []" using e d(3) nf by simp
      moreover have "\<not> (\<exists>e \<in> set ?tr. event_collectors (EvType e) = None)" using n d(1) by simp
      ultimately have "sorted_list_of_set (targets ?tr) = []"
        unfolding collectors_for_spec [of ?tr] by (simp only: if_False)
      then show ?thesis using fin by (simp only: sorted_list_of_set_eq_Nil_iff)
    qed
    ultimately show False using event_collectors_nonempty [OF cs] by simp
  qed
  have some: "FallbackReason d = NoFallback \<and> length (Events d) \<in> {1..maxEvents}
            \<and> (\<forall>e \<in> set (Events d). event_collectors (EvType e) \<noteq> None
                  \<and> EvType e \<noteq> '''' \<and> length (EvType e) \<le> maxEventTypeLen)
            \<and> set (Collectors d) = (\<Union>e \<in> set (Events d). set (the (event_collectors (EvType e))))"
    if c: "Collectors d \<noteq> []"
  proof -
    have nf: "snd ?r = NoFallback" using c d(3) by (auto split: if_splits)
    have cf: "CollectorsFor ?tr \<noteq> []" using c d(3) nf by simp
    have known: "\<forall>e \<in> set ?tr. event_collectors (EvType e) \<noteq> None"
      using cf unfolding collectors_for_spec by (auto split: if_splits)
    from known have "\<not> (\<exists>e \<in> set ?tr. event_collectors (EvType e) = None)" by blast
    then have "CollectorsFor ?tr = sorted_list_of_set (targets ?tr)"
      unfolding collectors_for_spec [of ?tr] by (simp only: if_False)
    then have "set (Collectors d) = targets ?tr" using fin d(3) nf by simp
    with known nf event_step_reason [OF nf] show ?thesis
      by (auto simp: d(1,2) targets_def Suc_le_eq split: if_splits)
  qed
  show ?thesis using srt none some by (cases "Collectors d = []") simp_all
qed

theorem collectors_cover_events_witness:
  "\<exists>d. classify_body ''[{\"type\":\"policyUpdate\"}]'' = Inr d \<and> Collectors d = [''policy''] \<and> FallbackReason d = NoFallback"
proof -
  let ?e = "\<lparr> EvTimestamp = '''', EvVersion = JNull, EvType = ''policyUpdate'', EvTailnet = '''', EvMessage = '''', EvData = JNull \<rparr>"
  have d: "decode_events ''[{\"type\":\"policyUpdate\"}]'' = Some [?e]" by code_simp
  have f: "fold event_type_step [?e] ([], NoFallback) = ([''policyUpdate''], NoFallback)" by code_simp
  have c: "CollectorsFor [?e\<lparr>EvType := trim_space (EvType ?e)\<rparr>] = [''policy'']" by code_simp
  obtain r where r: "classify_body ''[{\"type\":\"policyUpdate\"}]'' = Inr r" "Collectors r = [''policy'']"
    using f c by (simp add: classify_body_def d maxEvents_def)
  from collectors_cover_events [OF r(1)] r show ?thesis by simp
qed

end
