(* ===== verification/Secret.thy ===== *)
theory Secret
  imports GoCrypto
begin

text \<open>
  \<open>internal/secret\<close>: the envelope of an encrypted value (\<open>secret.go\<close>), the administrator's
  password hash, tokens, and the password policy (\<open>password_policy.go\<close>).

  The primitives of \<open>crypto/aes\<close>, \<open>crypto/cipher\<close> and \<open>golang.org/x/crypto/argon2\<close> are
  parameters: \<open>gcm_seal nonce plain additional\<close>, \<open>gcm_open nonce sealed additional\<close> under the
  box's key, and \<open>argon password salt time memory threads\<close> of 32 bytes. What is drawn from
  \<open>crypto/rand\<close> is an argument.
\<close>

subsection \<open>Decoding base64\<close>

definition b64_val :: "bool \<Rightarrow> char \<Rightarrow> nat option" where
  "b64_val url c =
     (let b = byte_of c
      in if 65 \<le> b \<and> b \<le> 90 then Some (b - 65)
         else if 97 \<le> b \<and> b \<le> 122 then Some (b - 71)
         else if 48 \<le> b \<and> b \<le> 57 then Some (b + 4)
         else if c = (if url then CHR ''-'' else CHR ''+'') then Some 62
         else if c = (if url then CHR ''_'' else CHR ''/'') then Some 63
         else None)"

fun b64_bytes :: "nat list \<Rightarrow> string option" where
  "b64_bytes [] = Some []"
| "b64_bytes [a] = None"
| "b64_bytes [a, b] = Some [char_of (4 * a + b div 16)]"
| "b64_bytes [a, b, c] = Some [char_of (4 * a + b div 16), char_of (16 * (b mod 16) + c div 4)]"
| "b64_bytes (a # b # c # d # ds) =
     (case b64_bytes ds of
        None \<Rightarrow> None
      | Some s \<Rightarrow> Some (char_of (4 * a + b div 16) # char_of (16 * (b mod 16) + c div 4)
                        # char_of (64 * (c mod 4) + d) # s))"

text \<open>The decoder skips line breaks.\<close>

definition b64_decode :: "bool \<Rightarrow> string \<Rightarrow> string option" where
  "b64_decode url s =
     (case those (map (b64_val url) (filter (\<lambda>c. byte_of c \<noteq> 10 \<and> byte_of c \<noteq> 13) s)) of
        None \<Rightarrow> None | Some ds \<Rightarrow> b64_bytes ds)"

fun b64_digits :: "string \<Rightarrow> nat list" where
  "b64_digits [] = []"
| "b64_digits [a] = [byte_of a div 4, 16 * (byte_of a mod 4)]"
| "b64_digits [a, b] = [byte_of a div 4, 16 * (byte_of a mod 4) + byte_of b div 16, 4 * (byte_of b mod 16)]"
| "b64_digits (a # b # c # s) =
     byte_of a div 4 # (16 * (byte_of a mod 4) + byte_of b div 16)
     # (4 * (byte_of b mod 16) + byte_of c div 64) # (byte_of c mod 64) # b64_digits s"

lemma div_mod_unique:
  fixes n q r m :: nat
  shows "n = m * q + r \<Longrightarrow> r < m \<Longrightarrow> n div m = q" and "n = m * q + r \<Longrightarrow> r < m \<Longrightarrow> n mod m = r"
  by simp_all

text \<open>Three bytes as the digits of four sextets: \<open>x = 4q+r\<close>, \<open>y = 16s+t\<close>, \<open>z = 64u+v\<close>.\<close>

lemma b64_split:
  fixes q r s t u v :: nat
  assumes "q < 64" and "r < 4" and "s < 16" and "t < 16" and "u < 4" and "v < 64"
  defines "x \<equiv> 4 * q + r" and "y \<equiv> 16 * s + t" and "z \<equiv> 64 * u + v"
  shows "16 * x div 64 = x div 4 \<and> 16 * x mod 64 = 16 * (x mod 4)
      \<and> 4 * (256 * x + y) div 4096 = x div 4
      \<and> 4 * (256 * x + y) div 64 mod 64 = 16 * (x mod 4) + y div 16
      \<and> 4 * (256 * x + y) mod 64 = 4 * (y mod 16)
      \<and> (65536 * x + 256 * y + z) div 262144 = x div 4
      \<and> (65536 * x + 256 * y + z) div 4096 mod 64 = 16 * (x mod 4) + y div 16
      \<and> (65536 * x + 256 * y + z) div 64 mod 64 = 4 * (y mod 16) + z div 64
      \<and> (65536 * x + 256 * y + z) mod 64 = z mod 64"
proof -
  have p: "x div 4 = q" "x mod 4 = r" "y div 16 = s" "y mod 16 = t" "z div 64 = u" "z mod 64 = v"
    using assms by (simp_all add: x_def y_def z_def)
  let ?m = "4 * (256 * x + y)" and ?n = "65536 * x + 256 * y + z"
  have "16 * x div 64 = q" "16 * x mod 64 = 16 * r"
    by (rule div_mod_unique [of _ 64 _ "16 * r"], use assms in simp_all)+
  moreover have "?m div 4096 = q"
    by (rule div_mod_unique [of _ _ _ "1024 * r + 64 * s + 4 * t"]) (use assms in simp_all)
  moreover have "?m div 64 mod 64 = 16 * r + s"
  proof -
    have e: "?m div 64 = 64 * q + (16 * r + s)"
      by (rule div_mod_unique [of _ _ _ "4 * t"]) (use assms in simp_all)
    show ?thesis unfolding e by (rule div_mod_unique(2) [OF refl]) (use assms in linarith)
  qed
  moreover have "?m mod 64 = 4 * t"
    by (rule div_mod_unique(2) [of _ _ "64 * q + 16 * r + s"]) (use assms in simp_all)
  moreover have "?n div 262144 = q"
    by (rule div_mod_unique [of _ _ _ "65536 * r + 4096 * s + 256 * t + 64 * u + v"]) (use assms in simp_all)
  moreover have "?n div 4096 mod 64 = 16 * r + s"
  proof -
    have e: "?n div 4096 = 64 * q + (16 * r + s)"
      by (rule div_mod_unique [of _ _ _ "256 * t + 64 * u + v"]) (use assms in simp_all)
    show ?thesis unfolding e by (rule div_mod_unique(2) [OF refl]) (use assms in linarith)
  qed
  moreover have "?n div 64 mod 64 = 4 * t + u"
  proof -
    have e: "?n div 64 = 64 * (64 * q + 16 * r + s) + (4 * t + u)"
      by (rule div_mod_unique [of _ _ _ v]) (use assms in simp_all)
    show ?thesis unfolding e by (rule div_mod_unique(2) [OF refl]) (use assms in linarith)
  qed
  moreover have "?n mod 64 = v"
    by (rule div_mod_unique(2) [of _ _ "4096 * q + 1024 * r + 64 * s + 4 * t + u"]) (use assms in simp_all)
  ultimately show ?thesis unfolding p by (intro conjI)
qed

lemma b64_arith:
  fixes x y z :: nat
  assumes "x < 256" and "y < 256" and "z < 256"
  shows "16 * x div 64 = x div 4 \<and> 16 * x mod 64 = 16 * (x mod 4)
      \<and> 4 * (256 * x + y) div 4096 = x div 4
      \<and> 4 * (256 * x + y) div 64 mod 64 = 16 * (x mod 4) + y div 16
      \<and> 4 * (256 * x + y) mod 64 = 4 * (y mod 16)
      \<and> (65536 * x + 256 * y + z) div 262144 = x div 4
      \<and> (65536 * x + 256 * y + z) div 4096 mod 64 = 16 * (x mod 4) + y div 16
      \<and> (65536 * x + 256 * y + z) div 64 mod 64 = 4 * (y mod 16) + z div 64
      \<and> (65536 * x + 256 * y + z) mod 64 = z mod 64"
proof -
  have b: "x div 4 < 64" "x mod 4 < 4" "y div 16 < 16" "y mod 16 < 16" "z div 64 < 4" "z mod 64 < 64"
    using assms by (simp_all add: less_mult_imp_div_less)
  show ?thesis
    using b64_split [OF b] by (simp only: mult_div_mod_eq)
qed

lemmas b64_arith_bytes = b64_arith [OF byte_of_less byte_of_less byte_of_less]

lemma b64_bounds:
  fixes x y :: nat
  assumes "x < 256" and "y < 256"
  shows "x div 4 < 64" and "16 * (x mod 4) < 64" and "16 * (x mod 4) + y div 16 < 64"
    and "4 * (x mod 16) < 64" and "4 * (x mod 16) + y div 64 < 64" and "x mod 64 < 64"
proof -
  have "x mod 4 < 4" "x mod 16 < 16" "y div 16 < 16" "y div 64 < 4"
    using assms by (simp_all add: less_mult_imp_div_less)
  then show "16 * (x mod 4) < 64" "16 * (x mod 4) + y div 16 < 64"
    "4 * (x mod 16) < 64" "4 * (x mod 16) + y div 64 < 64" by linarith+
qed (use assms in \<open>simp_all add: less_mult_imp_div_less\<close>)

lemma b64_joins:
  fixes x y z :: nat
  assumes "x < 256" and "y < 256" and "z < 256"
  shows "4 * (x div 4) + 16 * (x mod 4) div 16 = x"
    and "4 * (x div 4) + (16 * (x mod 4) + y div 16) div 16 = x"
    and "16 * ((16 * (x mod 4) + y div 16) mod 16) + 4 * (y mod 16) div 4 = y"
    and "16 * ((16 * (x mod 4) + y div 16) mod 16) + (4 * (y mod 16) + z div 64) div 4 = y"
    and "64 * ((4 * (y mod 16) + z div 64) mod 4) + z mod 64 = z"
proof -
  have b: "y div 16 < 16" "z div 64 < 4" using assms by (simp_all add: less_mult_imp_div_less)
  have "(16 * (x mod 4) + y div 16) div 16 = x mod 4" "(16 * (x mod 4) + y div 16) mod 16 = y div 16"
    by (rule div_mod_unique, rule refl, rule b)+
  moreover have "(4 * (y mod 16) + z div 64) div 4 = y mod 16" "(4 * (y mod 16) + z div 64) mod 4 = z div 64"
    by (rule div_mod_unique, rule refl, rule b)+
  ultimately show "4 * (x div 4) + 16 * (x mod 4) div 16 = x"
    "4 * (x div 4) + (16 * (x mod 4) + y div 16) div 16 = x"
    "16 * ((16 * (x mod 4) + y div 16) mod 16) + 4 * (y mod 16) div 4 = y"
    "16 * ((16 * (x mod 4) + y div 16) mod 16) + (4 * (y mod 16) + z div 64) div 4 = y"
    "64 * ((4 * (y mod 16) + z div 64) mod 4) + z mod 64 = z"
    by simp_all
qed

lemma b64_encode_digits: "b64_encode url s = map (b64_digit url) (b64_digits s)"
  by (induction url s rule: b64_encode.induct)
    (simp_all only: b64_encode.simps b64_digits.simps Let_def list.map b64_arith_bytes)

lemma b64_digits_less: "\<forall>d \<in> set (b64_digits s). d < 64"
  by (induction s rule: b64_digits.induct)
    (simp_all only: b64_digits.simps list.set ball_simps b64_bounds [OF byte_of_less byte_of_less] simp_thms)

lemma b64_val_digit:
  assumes "d < 64"
  shows "b64_val url (b64_digit url d) = Some d" and "byte_of (b64_digit url d) \<noteq> 10 \<and> byte_of (b64_digit url d) \<noteq> 13"
proof -
  consider "d < 26" | "26 \<le> d" "d < 52" | "52 \<le> d" "d < 62" | "d = 62" | "d = 63" using assms by linarith
  then show "b64_val url (b64_digit url d) = Some d"
    by cases (auto simp: b64_val_def Let_def b64_digit_def)
  consider "d < 26" | "26 \<le> d" "d < 52" | "52 \<le> d" "d < 62" | "d = 62" | "d = 63" using assms by linarith
  then show "byte_of (b64_digit url d) \<noteq> 10 \<and> byte_of (b64_digit url d) \<noteq> 13"
    by cases (auto simp: b64_digit_def)
qed

lemma char_of_byte [simp]: "char_of (byte_of c) = c"
  by simp

lemma b64_bytes_digits: "b64_bytes (b64_digits s) = Some s"
  by (induction s rule: b64_digits.induct)
    (simp_all only: b64_digits.simps b64_bytes.simps option.case char_of_byte
      b64_joins [OF byte_of_less byte_of_less byte_of_less])

lemma those_map_Some: "\<forall>x \<in> set xs. f x = Some (g x) \<Longrightarrow> those (map f xs) = Some (map g xs)"
  by (induction xs) auto

lemma b64_round_trip: "b64_decode url (b64_encode url s) = Some s"
proof -
  let ?ds = "b64_digits s"
  have "filter (\<lambda>c. byte_of c \<noteq> 10 \<and> byte_of c \<noteq> 13) (map (b64_digit url) ?ds) = map (b64_digit url) ?ds"
    using b64_val_digit(2) b64_digits_less by (auto simp: filter_id_conv)
  moreover have "those (map (b64_val url \<circ> b64_digit url) ?ds) = Some (map (\<lambda>d. d) ?ds)"
    using b64_val_digit(1) b64_digits_less by (intro those_map_Some) auto
  ultimately show ?thesis by (simp add: b64_decode_def b64_encode_digits b64_bytes_digits)
qed

subsection \<open>The envelope\<close>

type_synonym gcm_open = "string \<Rightarrow> string \<Rightarrow> string \<Rightarrow> string option"
type_synonym gcm_seal = "string \<Rightarrow> string \<Rightarrow> string \<Rightarrow> string"

definition envelopeVersion :: string where "envelopeVersion = ''v1''"
definition envelopeVersionV2 :: string where "envelopeVersionV2 = ''v2''"

text \<open>\<open>gcm.NonceSize()\<close>\<close>
definition nonce_size :: nat where "nonce_size = 12"

datatype secret_error =
    UnsupportedValue | BindingRequired | DecodeValue | TruncatedValue | DecryptValue

definition v2AdditionalData :: "string \<Rightarrow> string" where
  "v2AdditionalData binding = envelopeVersionV2 @ '':'' @ binding"

definition seal_envelope :: "gcm_seal \<Rightarrow> string \<Rightarrow> string \<Rightarrow> string \<Rightarrow> string \<Rightarrow> string" where
  "seal_envelope gseal version additional plain nonce =
     version @ '':'' @ b64_encode True (nonce @ gseal nonce plain additional)"

definition Seal :: "gcm_seal \<Rightarrow> string \<Rightarrow> string \<Rightarrow> string \<Rightarrow> secret_error + string" where
  "Seal gseal binding plain nonce =
     (if binding = '''' then Inl BindingRequired
      else Inr (seal_envelope gseal envelopeVersionV2 (v2AdditionalData binding) plain nonce))"

definition EncryptLegacy :: "gcm_seal \<Rightarrow> string \<Rightarrow> string \<Rightarrow> string" where
  "EncryptLegacy gseal plain nonce = seal_envelope gseal envelopeVersion envelopeVersion plain nonce"

definition open_body :: "gcm_open \<Rightarrow> string \<Rightarrow> string \<Rightarrow> secret_error + string" where
  "open_body gopen additional encoded =
     (case b64_decode True encoded of
        None \<Rightarrow> Inl DecodeValue
      | Some raw \<Rightarrow>
          if length raw < nonce_size then Inl TruncatedValue
          else (case gopen (take nonce_size raw) (drop nonce_size raw) additional of
                  None \<Rightarrow> Inl DecryptValue | Some plain \<Rightarrow> Inr plain))"

definition Open :: "gcm_open \<Rightarrow> string \<Rightarrow> string \<Rightarrow> secret_error + string" where
  "Open gopen binding envelope =
     (case cut (CHR '':'') envelope of
        (version, encoded, ok) \<Rightarrow>
          if \<not> ok then Inl UnsupportedValue
          else if version = envelopeVersion then open_body gopen envelopeVersion encoded
          else if version = envelopeVersionV2 then
            (if binding = '''' then Inl BindingRequired
             else open_body gopen (v2AdditionalData binding) encoded)
          else Inl UnsupportedValue)"

definition IsCurrentEnvelope :: "string \<Rightarrow> bool" where
  "IsCurrentEnvelope envelope \<longleftrightarrow> take 3 envelope = envelopeVersionV2 @ '':''"

text \<open>\<open>secret.Token\<close>, from the bytes drawn.\<close>

definition Token :: "string \<Rightarrow> string" where
  "Token raw = b64_encode True raw"

lemma cut_version: "c \<notin> set v \<Longrightarrow> cut c (v @ [c] @ rest) = (v, rest, True)"
proof -
  assume "c \<notin> set v"
  then have "index_of (\<lambda>x. x = c) (v @ c # rest) = Some (length v)"
    by (induction v) auto
  then show ?thesis by simp
qed

lemma open_body_sealed:
  assumes "length nonce = nonce_size"
  shows "open_body gopen additional (b64_encode True (nonce @ sealed)) =
     (case gopen nonce sealed additional of None \<Rightarrow> Inl DecryptValue | Some plain \<Rightarrow> Inr plain)"
  using assms by (simp add: open_body_def b64_round_trip)

lemma open_v2:
  assumes "length nonce = nonce_size" and "binding' \<noteq> ''''"
  shows "Open gopen binding' (seal_envelope gseal envelopeVersionV2 a plain nonce) =
     (case gopen nonce (gseal nonce plain a) (v2AdditionalData binding') of
        None \<Rightarrow> Inl DecryptValue | Some x \<Rightarrow> Inr x)"
  unfolding Open_def seal_envelope_def using assms
  by (subst cut_version) (simp_all add: envelopeVersionV2_def envelopeVersion_def open_body_sealed)

lemma open_v1:
  assumes "length nonce = nonce_size"
  shows "Open gopen binding' (envelopeVersion @ '':'' @ b64_encode True (nonce @ sealed)) =
     (case gopen nonce sealed envelopeVersion of None \<Rightarrow> Inl DecryptValue | Some x \<Rightarrow> Inr x)"
  unfolding Open_def using assms
  by (subst cut_version) (simp_all add: envelopeVersion_def open_body_sealed)

text \<open>
  What AES-GCM promises: opening what was sealed gives the text back, and a sealed text opens
  under no additional data but its own.
\<close>

definition gcm_correct :: "gcm_seal \<Rightarrow> gcm_open \<Rightarrow> bool" where
  "gcm_correct gseal gopen \<longleftrightarrow> (\<forall>n p a. gopen n (gseal n p a) a = Some p)"

definition gcm_authentic :: "gcm_seal \<Rightarrow> gcm_open \<Rightarrow> bool" where
  "gcm_authentic gseal gopen \<longleftrightarrow> (\<forall>n p a a'. a' \<noteq> a \<longrightarrow> gopen n (gseal n p a) a' = None)"

text \<open>A concrete instance of the promise, used to show that it can hold.\<close>

definition toy_seal :: gcm_seal where
  "toy_seal n p a = hex_encode a @ ''|'' @ p"

definition toy_open :: gcm_open where
  "toy_open n c a =
     (if takeWhile (\<lambda>x. x \<noteq> CHR ''|'') c = hex_encode a
      then Some (tl (dropWhile (\<lambda>x. x \<noteq> CHR ''|'') c)) else None)"

lemma hex_no_bar: "CHR ''|'' \<notin> set (hex_encode s)"
proof -
  have "hex_digit d \<noteq> CHR ''|''" if "d < 16" for d
  proof
    assume "hex_digit d = CHR ''|''"
    then have "byte_of (hex_digit d) = byte_of (CHR ''|'')" by simp
    with that show False by (auto simp: hex_digit_def split: if_splits)
  qed
  moreover have "byte_of x div 16 < 16" "byte_of x mod 16 < 16" for x
    using byte_of_less [of x] by (simp_all add: less_mult_imp_div_less)
  ultimately have "hex_digit (byte_of x div 16) \<noteq> CHR ''|''" "hex_digit (byte_of x mod 16) \<noteq> CHR ''|''" for x
    by blast+
  then show ?thesis by (force simp: hex_encode_def)
qed

lemma toy_gcm: "gcm_correct toy_seal toy_open" "gcm_authentic toy_seal toy_open"
proof -
  have "takeWhile (\<lambda>x. x \<noteq> CHR ''|'') (hex_encode a @ ''|'' @ p) = hex_encode a"
    "dropWhile (\<lambda>x. x \<noteq> CHR ''|'') (hex_encode a @ ''|'' @ p) = ''|'' @ p" for a p
    using hex_no_bar [of a] by (auto simp: takeWhile_append dropWhile_append)
  then show "gcm_correct toy_seal toy_open" "gcm_authentic toy_seal toy_open"
    unfolding gcm_correct_def gcm_authentic_def toy_seal_def toy_open_def
    using hex_encode_inj by (auto simp: dropWhile_append)
qed

text \<open>
  C11. A sealed value opens exactly where it was stored. An envelope sealed for a binding is a
  current envelope; it opens to the plaintext under the same binding, and under any other
  binding, or relabelled as a legacy \<open>v1\<close> envelope, it does not open at all.
\<close>
theorem envelope_bound_to_place:
  assumes "gcm_correct gseal gopen" and "gcm_authentic gseal gopen"
    and "length nonce = nonce_size" and "Seal gseal binding plain nonce = Inr envelope"
  shows "IsCurrentEnvelope envelope
    \<and> Open gopen binding' envelope =
        (if binding' = '''' then Inl BindingRequired
         else if binding' = binding then Inr plain else Inl DecryptValue)
    \<and> Open gopen binding' (envelopeVersion @ drop 2 envelope) = Inl DecryptValue"
proof -
  have b: "binding \<noteq> ''''" and e: "envelope = seal_envelope gseal envelopeVersionV2 (v2AdditionalData binding) plain nonce"
    using assms(4) by (auto simp: Seal_def split: if_splits)
  have "IsCurrentEnvelope envelope"
    by (simp add: e IsCurrentEnvelope_def seal_envelope_def envelopeVersionV2_def)
  moreover have "Open gopen binding' envelope =
        (if binding' = '''' then Inl BindingRequired
         else if binding' = binding then Inr plain else Inl DecryptValue)"
  proof (cases "binding' = ''''")
    case True
    have "cut (CHR '':'') envelope = (envelopeVersionV2, b64_encode True (nonce @ gseal nonce plain (v2AdditionalData binding)), True)"
      unfolding e seal_envelope_def by (rule cut_version) (simp add: envelopeVersionV2_def)
    with True show ?thesis by (simp add: Open_def envelopeVersion_def envelopeVersionV2_def)
  next
    case False
    have "v2AdditionalData binding' = v2AdditionalData binding \<longleftrightarrow> binding' = binding"
      by (simp add: v2AdditionalData_def)
    then show ?thesis using False assms(1,2) unfolding e open_v2 [OF assms(3) False]
      by (auto simp: gcm_correct_def gcm_authentic_def)
  qed
  moreover have "Open gopen binding' (envelopeVersion @ drop 2 envelope) = Inl DecryptValue"
  proof -
    have d: "drop 2 envelope = '':'' @ b64_encode True (nonce @ gseal nonce plain (v2AdditionalData binding))"
      by (simp add: e seal_envelope_def envelopeVersionV2_def)
    have "envelopeVersion \<noteq> v2AdditionalData binding"
      by (simp add: envelopeVersion_def v2AdditionalData_def envelopeVersionV2_def)
    then have "gopen nonce (gseal nonce plain (v2AdditionalData binding)) envelopeVersion = None"
      using assms(2) by (simp add: gcm_authentic_def)
    then show ?thesis unfolding d open_v1 [OF assms(3)] by simp
  qed
  ultimately show ?thesis by blast
qed

theorem envelope_bound_to_place_witness:
  "Open toy_open ''settings.x:1'' (seal_envelope toy_seal envelopeVersionV2
      (v2AdditionalData ''settings.x:1'') ''pw'' ''abcdefghijkl'') = Inr ''pw''
   \<and> Open toy_open ''settings.y:1'' (seal_envelope toy_seal envelopeVersionV2
      (v2AdditionalData ''settings.x:1'') ''pw'' ''abcdefghijkl'') = Inl DecryptValue"
proof -
  have n: "length ''abcdefghijkl'' = nonce_size" by (simp add: nonce_size_def)
  have s: "Seal toy_seal ''settings.x:1'' ''pw'' ''abcdefghijkl'' =
     Inr (seal_envelope toy_seal envelopeVersionV2 (v2AdditionalData ''settings.x:1'') ''pw'' ''abcdefghijkl'')"
    by (simp add: Seal_def)
  show ?thesis
    using envelope_bound_to_place [OF toy_gcm n s, of "''settings.x:1''"]
      envelope_bound_to_place [OF toy_gcm n s, of "''settings.y:1''"] by simp
qed

subsection \<open>The password policy\<close>

definition MinPasswordRunes :: nat where "MinPasswordRunes = 15"
definition MaxPasswordRunes :: nat where "MaxPasswordRunes = 256"

datatype policy_error =
    ErrPasswordTooShort | ErrPasswordTooLong | ErrPasswordInvalid | ErrPasswordCommon | ErrPasswordRepetitive

definition PasswordPolicyMessage :: "policy_error option \<Rightarrow> string" where
  "PasswordPolicyMessage e =
     (case e of
        Some ErrPasswordTooShort \<Rightarrow> ''Password must be at least 15 characters long. A passphrase of several words is easiest to remember.''
      | Some ErrPasswordTooLong \<Rightarrow> ''Password must be at most 256 characters long.''
      | Some ErrPasswordInvalid \<Rightarrow> ''Password must be valid text without control characters.''
      | Some ErrPasswordCommon \<Rightarrow> ''This password is too common. Choose a less predictable passphrase.''
      | Some ErrPasswordRepetitive \<Rightarrow> ''Password must not repeat a single character or short pattern.''
      | None \<Rightarrow> '''')"

definition normalizePasswordForBlocklist :: "string \<Rightarrow> string" where
  "normalizePasswordForBlocklist password =
     concat (filter (\<lambda>r. \<not> (is_space r \<or> r = ''-'' \<or> r = ''_'' \<or> r = ''.'')) (runes (to_lower password)))"

text \<open>The entries of \<open>common_passwords.txt\<close>, its comment lines left out.\<close>

definition commonPasswordList :: "string list" where
  "commonPasswordList =
     [''123456789012345'', ''1234567890123456'', ''12345678901234567890'', ''123123123123123'',
      ''987654321987654'', ''147258369147258'', ''1q2w3e4r5t6y7u8i'', ''1q2w3e4r5t6y7u8i9o0p'',
      ''q1w2e3r4t5y6u7i8'', ''qwertyuiopasdfgh'', ''qwertyuiopasdfghjkl'',
      ''qwertyuiopasdfghjklzxcvbnm'', ''qwertyuiop123456'', ''qwerty123456789'',
      ''qwertyqwertyqwerty'', ''asdfghjklasdfghjkl'', ''zxcvbnmzxcvbnm123'', ''1qaz2wsx3edc4rfv'',
      ''1qaz2wsx3edc4rfv5tgb'', ''zaq12wsxcde34rfv'', ''passwordpassword'', ''password123456789'',
      ''password12345678'', ''password1234567'', ''password1password1'', ''passw0rdpassw0rd'',
      ''mypasswordis123'', ''thisismypassword'', ''thisisapassword'', ''thisismypassword1'',
      ''mysecretpassword'', ''supersecretpassword'', ''verysecurepassword'', ''securepassword123'',
      ''strongpassword123'', ''mystrongpassword'', ''changemechangeme'', ''changeme12345678'',
      ''changemepassword'', ''letmeinletmein123'', ''iloveyouiloveyou'', ''iloveyou123456789'',
      ''trustno1trustno1'', ''administrator123'', ''administrator1234'', ''administratorpassword'',
      ''adminadminadmin'', ''admin12345678901'', ''adminpassword123'', ''rootpassword1234'',
      ''welcome123456789'', ''welcometothejungle'', ''correcthorsebatterystaple'',
      ''thequickbrownfox'', ''thequickbrownfoxjumpsoverthelazydog'', ''abcdefghijklmnop'',
      ''abcdefghijklmnopqrstuvwxyz'', ''abc123abc123abc123'', ''monkeymonkeymonkey'',
      ''dragondragondragon'', ''sunshinesunshine'', ''footballfootball'', ''baseballbaseball'',
      ''basketballbasketball'', ''superman12345678'', ''batmanbatmanbatman'', ''starwarsstarwars'',
      ''princessprincess'', ''qazwsxedcrfvtgbyhn'', ''michaeljordan23'', ''liverpool1234567'',
      ''manchesterunited'', ''chelseafc1234567'', ''nopasswordneeded'', ''passwordisnotsecure'',
      ''tailstatepassword'', ''tailstateadmin123'', ''tailscalepassword'', ''tailscaleadmin123'']"

definition commonPassword :: "string \<Rightarrow> bool" where
  "commonPassword normalized \<longleftrightarrow>
     list_ex (\<lambda>entry. normalizePasswordForBlocklist (trim_space entry) = normalized) commonPasswordList"

text \<open>The body of the loop of \<open>repetitive\<close>: every rune equals the one \<open>period\<close> places before it.\<close>

definition repeats :: "string list \<Rightarrow> nat \<Rightarrow> bool" where
  "repeats rs period \<longleftrightarrow> list_all (\<lambda>i. rs ! i = rs ! (i - period)) [period..<length rs]"

definition repetitive :: "string \<Rightarrow> bool" where
  "repetitive v \<longleftrightarrow>
     (let rs = runes v
      in list_ex (\<lambda>period. period < length rs \<and> length rs mod period = 0 \<and> repeats rs period) [1, 2, 3])"

definition CheckPasswordPolicy :: "string \<Rightarrow> policy_error option" where
  "CheckPasswordPolicy password =
     (if \<not> valid_utf8 password then Some ErrPasswordInvalid
      else if has_control password then Some ErrPasswordInvalid
      else
        (let n = length (runes password)
         in if n < MinPasswordRunes then Some ErrPasswordTooShort
            else if MaxPasswordRunes < n then Some ErrPasswordTooLong
            else
              (let normalized = normalizePasswordForBlocklist password
               in if repetitive normalized then Some ErrPasswordRepetitive
                  else if commonPassword normalized then Some ErrPasswordCommon
                  else None)))"

subsection \<open>The password hash\<close>

definition minArgon2MemoryKiB :: nat where "minArgon2MemoryKiB = 8 * 1024"
definition maxArgon2MemoryKiB :: nat where "maxArgon2MemoryKiB = 64 * 1024"
definition maxArgon2Time :: nat where "maxArgon2Time = 3"
definition maxArgon2Parallel :: nat where "maxArgon2Parallel = 2"
definition minArgon2SaltBytes :: nat where "minArgon2SaltBytes = 8"
definition maxArgon2SaltBytes :: nat where "maxArgon2SaltBytes = 64"

type_synonym argon = "string \<Rightarrow> string \<Rightarrow> nat \<Rightarrow> nat \<Rightarrow> nat \<Rightarrow> string"

definition hash_header :: string where
  "hash_header = ''m=65536,t=3,p=2''"

definition encode_hash :: "string \<Rightarrow> string \<Rightarrow> string" where
  "encode_hash salt hash =
     ''argon2id$v=19$'' @ hash_header @ ''$'' @ b64_encode False salt @ ''$'' @ b64_encode False hash"

definition PasswordHash :: "argon \<Rightarrow> string \<Rightarrow> string \<Rightarrow> policy_error + string" where
  "PasswordHash argon password salt =
     (case CheckPasswordPolicy password of
        Some e \<Rightarrow> Inl e
      | None \<Rightarrow> Inr (encode_hash salt (argon password salt 3 (64 * 1024) 2)))"

text \<open>\<open>strconv.ParseUint(s, 10, 32)\<close>\<close>

definition parse_uint32 :: "string \<Rightarrow> nat option" where
  "parse_uint32 s =
     (if s = [] \<or> \<not> list_all is_digit s then None
      else (let n = digits_value (map digit_val s) in if n < 2 ^ 32 then Some n else None))"

fun hash_params :: "string list \<Rightarrow> (string \<times> nat) list \<Rightarrow> (string \<times> nat) list option" where
  "hash_params [] params = Some params"
| "hash_params (part # parts) params =
     (case cut (CHR ''='') part of
        (key, raw, ok) \<Rightarrow>
          if \<not> ok \<or> (key \<noteq> ''m'' \<and> key \<noteq> ''t'' \<and> key \<noteq> ''p'') then None
          else
            (case parse_uint32 raw of
               None \<Rightarrow> None
             | Some n \<Rightarrow>
                 if n = 0 then None
                 else if map_of params key \<noteq> None then None
                 else hash_params parts ((key, n) # params)))"

definition param :: "(string \<times> nat) list \<Rightarrow> string \<Rightarrow> nat" where
  "param params key = (case map_of params key of None \<Rightarrow> 0 | Some n \<Rightarrow> n)"

text \<open>The call of Argon2 a stored hash asks for: salt, time, memory, threads and the key wanted;
  \<open>None\<close> where \<open>PasswordMatches\<close> returns false before the call.\<close>

definition argon_request :: "string \<Rightarrow> (string \<times> nat \<times> nat \<times> nat \<times> string) option" where
  "argon_request encoded =
     (case split (CHR ''$'') encoded of
        [p0, p1, p2, p3, p4] \<Rightarrow>
          if p0 \<noteq> ''argon2id'' \<or> p1 \<noteq> ''v=19'' then None
          else
            (case hash_params (split (CHR '','') p2) [] of
               None \<Rightarrow> None
             | Some params \<Rightarrow>
                 if length params \<noteq> 3 \<or> param params ''m'' < minArgon2MemoryKiB
                    \<or> maxArgon2MemoryKiB < param params ''m'' \<or> maxArgon2Time < param params ''t''
                    \<or> maxArgon2Parallel < param params ''p'' then None
                 else
                   (case (b64_decode False p3, b64_decode False p4) of
                      (Some salt, Some want) \<Rightarrow>
                        if length salt < minArgon2SaltBytes \<or> maxArgon2SaltBytes < length salt \<or> length want \<noteq> 32
                        then None
                        else Some (salt, param params ''t'', param params ''m'', param params ''p'', want)
                    | _ \<Rightarrow> None))
      | _ \<Rightarrow> None)"

definition PasswordMatches :: "argon \<Rightarrow> string \<Rightarrow> string \<Rightarrow> bool" where
  "PasswordMatches argon encoded password \<longleftrightarrow>
     (case argon_request encoded of
        None \<Rightarrow> False
      | Some (salt, t, m, p, want) \<Rightarrow> argon password salt t m p = want)"

subsection \<open>Entries of the list\<close>

definition plain_char :: "char \<Rightarrow> bool" where
  "plain_char c \<longleftrightarrow> (48 \<le> byte_of c \<and> byte_of c \<le> 57) \<or> (97 \<le> byte_of c \<and> byte_of c \<le> 122)"

lemma normalize_ascii:
  assumes "\<forall>c \<in> set s. byte_of c < 128"
  shows "normalizePasswordForBlocklist s =
     filter (\<lambda>c. \<not> (is_space [c] \<or> [c] = ''-'' \<or> [c] = ''_'' \<or> [c] = ''.'')) (map lower_char s)"
proof -
  have "\<forall>c \<in> set (map lower_char s). byte_of c < 128" using assms lower_char_ascii by auto
  then show ?thesis unfolding normalizePasswordForBlocklist_def to_lower_ascii [OF assms] by (rule concat_ascii)
qed

lemma plain_entry:
  assumes "list_all plain_char s"
  shows "normalizePasswordForBlocklist (trim_space s) = s"
proof -
  have c: "32 < byte_of c \<and> byte_of c < 128 \<and> lower_char c = c \<and> \<not> is_space [c]
      \<and> c \<noteq> CHR ''-'' \<and> c \<noteq> CHR ''_'' \<and> c \<noteq> CHR ''.''" if "c \<in> set s" for c
    using assms that by (auto simp: list_all_iff plain_char_def lower_char_def is_space_def)
  then have t: "trim_space s = s" by (intro trim_space_plain) blast
  have a: "\<forall>c \<in> set s. byte_of c < 128" using c by blast
  have "map lower_char s = s" using c by (intro map_idI) blast
  then show ?thesis unfolding t normalize_ascii [OF a] using c by (simp add: filter_id_conv)
qed

lemma common_entries: "commonPassword normalized \<longleftrightarrow> normalized \<in> set commonPasswordList"
proof -
  have "list_all (list_all plain_char) commonPasswordList"
    by (simp add: commonPasswordList_def plain_char_def)
  then show ?thesis
    unfolding commonPassword_def using plain_entry by (force simp: list_ex_iff list_all_iff)
qed

subsection \<open>Patterns that repeat\<close>

lemma repeats_iff: "repeats rs p \<longleftrightarrow> (\<forall>i. p \<le> i \<and> i < length rs \<longrightarrow> rs ! i = rs ! (i - p))"
  by (auto simp: repeats_def list_all_iff)

lemma repeats_concat:
  assumes "repeats rs p" and "length rs = k * p"
  shows "rs = concat (replicate k (take p rs))"
  using assms
proof (induction k arbitrary: rs)
  case (Suc k)
  have r: "\<forall>i. p \<le> i \<and> i < length rs \<longrightarrow> rs ! i = rs ! (i - p)"
    using Suc.prems(1) by (simp add: repeats_iff)
  have "repeats (drop p rs) p"
    unfolding repeats_iff
  proof (intro allI impI)
    fix i assume i: "p \<le> i \<and> i < length (drop p rs)"
    then have pl: "p \<le> length rs" by (cases "p \<le> length rs") simp_all
    have "p + i < length rs" using i pl unfolding length_drop by linarith
    then have "rs ! (p + i) = rs ! i" and "rs ! i = rs ! (i - p)" using r i by auto
    moreover have "drop p rs ! i = rs ! (p + i)" by (rule nth_drop [OF pl])
    moreover have "drop p rs ! (i - p) = rs ! (p + (i - p))" by (rule nth_drop [OF pl])
    moreover have "p + (i - p) = i" using i by simp
    ultimately show "drop p rs ! i = drop p rs ! (i - p)" by metis
  qed
  then have d: "drop p rs = concat (replicate k (take p (drop p rs)))"
    using Suc by simp
  have "take p (drop p rs) = take p rs" if "0 < k"
  proof (rule nth_equalityI)
    from that Suc.prems(2) have l: "2 * p \<le> length rs" by (cases k) simp_all
    then show "length (take p (drop p rs)) = length (take p rs)" by simp
    fix i assume "i < length (take p (drop p rs))"
    with l have "i < p" and "p + i < length rs" by simp_all
    with r have "rs ! (p + i) = rs ! i" by (metis add_diff_cancel_left' le_add1)
    with \<open>i < p\<close> \<open>p + i < length rs\<close> show "take p (drop p rs) ! i = take p rs ! i" by simp
  qed
  with d have "drop p rs = concat (replicate k (take p rs))" by (cases "k = 0") simp_all
  then have "take p rs @ drop p rs = concat (replicate (Suc k) (take p rs))" by simp
  then show ?case by simp
qed simp

lemma concat_repeats:
  assumes "rs = concat (replicate k pat)" and "length pat = p"
  shows "repeats rs p"
  unfolding repeats_iff
proof (intro allI impI)
  fix i assume i: "p \<le> i \<and> i < length rs"
  show "rs ! i = rs ! (i - p)"
  proof (cases k)
    case 0
    with assms i show ?thesis by simp
  next
    case (Suc m)
    let ?c = "concat (replicate m pat)"
    have a: "rs = pat @ ?c" using assms Suc by simp
    have "concat (replicate (Suc m) pat) = concat (replicate m pat @ [pat])"
      by (simp only: replicate_Suc replicate_append_same)
    then have "concat (replicate (Suc m) pat) = ?c @ pat" by simp
    then have b: "rs = ?c @ pat" using assms Suc by simp
    have "length rs = p + length ?c" using a assms(2) by simp
    with i have "i - p < length ?c" by linarith
    moreover have "rs ! i = ?c ! (i - p)" using a i assms(2) by (simp add: nth_append)
    ultimately show ?thesis using b by (simp add: nth_append)
  qed
qed

lemma repetitive_iff:
  "repetitive v \<longleftrightarrow>
     (\<exists>pat k. length pat \<in> {1, 2, 3} \<and> 2 \<le> k \<and> runes v = concat (replicate k pat))"
proof
  let ?rs = "runes v"
  assume "repetitive v"
  then obtain p where p: "p \<in> set [1, 2, 3]" "p < length ?rs" "length ?rs mod p = 0" "repeats ?rs p"
    unfolding repetitive_def Let_def list_ex_iff by (elim bexE conjE) (rule that)
  then obtain k where k: "length ?rs = k * p" by (metis mod_0_imp_dvd dvd_def mult.commute)
  have "2 \<le> k" using p k by (cases k) (auto simp: numeral_2_eq_2 not_less_eq_eq)
  moreover have "length (take p ?rs) = p" using p(2) by simp
  ultimately show "\<exists>pat k. length pat \<in> {1, 2, 3} \<and> 2 \<le> k \<and> ?rs = concat (replicate k pat)"
    using p(1) repeats_concat [OF p(4) k]
    by (intro exI [of _ "take p ?rs"] exI [of _ k] conjI) (simp_all only: list.set)
next
  let ?rs = "runes v"
  assume "\<exists>pat k. length pat \<in> {1, 2, 3} \<and> 2 \<le> k \<and> ?rs = concat (replicate k pat)"
  then obtain pat k where pk: "length pat \<in> {1, 2, 3}" "2 \<le> k" "?rs = concat (replicate k pat)" by blast
  have "length ?rs = k * length pat" by (simp add: pk(3) length_concat sum_list_replicate)
  moreover have "repeats ?rs (length pat)" using concat_repeats [OF pk(3) refl] .
  moreover have "length pat < k * length pat" using pk(1,2) by auto
  ultimately show "repetitive v" using pk(1) by (auto simp: repetitive_def Let_def)
qed

text \<open>
  The policy. A new password passes exactly when it is valid UTF-8 without control
  characters, of 15 to 256 characters (runes, not bytes), and what is left of it after folding
  case and dropping separators is neither a pattern of one to three characters repeated two or
  more times nor an entry of the list of common passwords.
\<close>
theorem password_policy_exact:
  "CheckPasswordPolicy password = None \<longleftrightarrow>
     valid_utf8 password \<and> \<not> has_control password
     \<and> length (runes password) \<in> {15..256}
     \<and> \<not> (\<exists>pat k. length pat \<in> {1, 2, 3} \<and> 2 \<le> k
            \<and> runes (normalizePasswordForBlocklist password) = concat (replicate k pat))
     \<and> normalizePasswordForBlocklist password \<notin> set commonPasswordList"
  unfolding CheckPasswordPolicy_def Let_def repetitive_iff [symmetric] common_entries [symmetric]
    MinPasswordRunes_def MaxPasswordRunes_def by (simp split: if_splits)

subsection \<open>Stored hashes\<close>

lemma b64_no_dollar: "CHR ''$'' \<notin> set (b64_encode url s)"
proof
  assume "CHR ''$'' \<in> set (b64_encode url s)"
  then obtain d where "d \<in> set (b64_digits s)" "CHR ''$'' = b64_digit url d"
    by (auto simp: b64_encode_digits)
  then have "b64_val url (CHR ''$'') = Some d" using b64_digits_less b64_val_digit(1) by auto
  then show False by (simp add: b64_val_def Let_def split: if_splits)
qed

lemma header_params:
  "hash_params (split (CHR '','') hash_header) [] = Some [(''p'', 2), (''t'', 3), (''m'', 65536)]"
  by (simp add: hash_header_def split_def parse_uint32_def is_digit_def digit_val_def digits_value_def)

lemma encoded_request:
  assumes "length salt = 16" and "length hash = 32"
  shows "argon_request (encode_hash salt hash) = Some (salt, 3, 64 * 1024, 2, hash)"
proof -
  have "split (CHR ''$'') (join [CHR ''$''] [''argon2id'', ''v=19'', hash_header, b64_encode False salt, b64_encode False hash])
      = [''argon2id'', ''v=19'', hash_header, b64_encode False salt, b64_encode False hash]"
    using b64_no_dollar by (intro split_join) (auto simp: hash_header_def)
  then have s: "split (CHR ''$'') (encode_hash salt hash)
      = [''argon2id'', ''v=19'', hash_header, b64_encode False salt, b64_encode False hash]"
    by (simp add: encode_hash_def)
  show ?thesis using assms
    by (simp add: argon_request_def s header_params b64_round_trip param_def minArgon2MemoryKiB_def
        maxArgon2MemoryKiB_def maxArgon2Time_def maxArgon2Parallel_def minArgon2SaltBytes_def maxArgon2SaltBytes_def)
qed

definition hash_keys :: "string set" where
  "hash_keys = {''m'', ''t'', ''p''}"

definition params_ok :: "(string \<times> nat) list \<Rightarrow> bool" where
  "params_ok params \<longleftrightarrow>
     distinct (map fst params) \<and> fst ` set params \<subseteq> hash_keys \<and> (\<forall>n \<in> snd ` set params. 0 < n)"

lemma params_ok_Nil: "params_ok []"
  by (simp add: params_ok_def)

lemma params_ok_Cons: "params_ok acc \<Longrightarrow> key \<notin> fst ` set acc \<Longrightarrow> key \<in> hash_keys \<Longrightarrow> 0 < n \<Longrightarrow> params_ok ((key, n) # acc)"
  by (simp add: params_ok_def)

lemma hash_params_step:
  assumes "hash_params (part # parts) acc = Some params"
  obtains key n where "key \<in> hash_keys" "0 < n" "key \<notin> fst ` set acc" "hash_params parts ((key, n) # acc) = Some params"
proof -
  obtain key raw ok where c: "cut (CHR ''='') part = (key, raw, ok)" by (metis prod_cases3)
  have k: "key = ''m'' \<or> key = ''t'' \<or> key = ''p''"
    using assms by (simp add: c del: cut.simps split: if_splits)
  then have "key \<in> hash_keys" by (simp add: hash_keys_def)
  moreover obtain n where "parse_uint32 raw = Some n"
    using assms by (simp add: c del: cut.simps split: if_splits option.splits)
  moreover from this have "0 < n" "map_of acc key = None" "hash_params parts ((key, n) # acc) = Some params"
    using assms by (simp_all add: c del: cut.simps split: if_splits)
  ultimately show thesis using that by (simp add: map_of_eq_None_iff)
qed

lemma hash_params_shape: "hash_params parts acc = Some params \<Longrightarrow> params_ok acc \<Longrightarrow> params_ok params"
proof (induction parts arbitrary: acc)
  case (Cons part parts)
  from hash_params_step [OF Cons.prems(1)] obtain key n where
    "key \<in> hash_keys" "0 < n" "key \<notin> fst ` set acc" "hash_params parts ((key, n) # acc) = Some params" .
  with Cons params_ok_Cons show ?case by blast
qed simp

lemma three_params:
  assumes "hash_params parts [] = Some params" and "length params = 3" and "key \<in> hash_keys"
  shows "0 < param params key"
proof -
  have s: "distinct (map fst params)" "fst ` set params \<subseteq> hash_keys" "\<forall>n \<in> snd ` set params. 0 < n"
    using hash_params_shape [OF assms(1) params_ok_Nil] unfolding params_ok_def by blast+
  have "card (fst ` set params) = 3" using s(1) assms(2) by (metis distinct_card length_map set_map)
  moreover have "card hash_keys = 3" "finite hash_keys" by (simp_all add: hash_keys_def)
  ultimately have "fst ` set params = hash_keys"
    using s(2) card_subset_eq [of hash_keys "fst ` set params"] by metis
  then have "map_of params key \<noteq> None" using assms(3) by (simp only: map_of_eq_None_iff) simp
  then obtain n where n: "map_of params key = Some n" by blast
  then have "n \<in> snd ` set params" by (force dest: map_of_SomeD)
  with s(3) have "0 < n" by blast
  with n show ?thesis by (simp add: param_def)
qed

text \<open>
  A password set is a password that matches. The stored form of an accepted password is
  read back with the salt, the cost parameters and the key it was made with, so that a login
  attempt matches exactly when Argon2 gives the same key for it.
\<close>
theorem password_hash_matches:
  assumes "PasswordHash argon password salt = Inr encoded" and "length salt = 16"
    and "length (argon password salt 3 (64 * 1024) 2) = 32"
  shows "CheckPasswordPolicy password = None
    \<and> (PasswordMatches argon encoded attempt \<longleftrightarrow>
         argon attempt salt 3 (64 * 1024) 2 = argon password salt 3 (64 * 1024) 2)"
proof -
  have "CheckPasswordPolicy password = None"
    and e: "encoded = encode_hash salt (argon password salt 3 (64 * 1024) 2)"
    using assms(1) by (auto simp: PasswordHash_def split: option.splits)
  then show ?thesis
    unfolding PasswordMatches_def e encoded_request [OF assms(2,3)] by simp
qed

text \<open>
  A stored hash cannot ask for unbounded work. Whatever the row holds, Argon2 is called
  with 1 to 3 passes, 8 to 64 MiB, 1 or 2 threads and a salt of 8 to 64 bytes, or not at all.
\<close>
theorem argon_work_bounded:
  assumes "argon_request encoded = Some (salt, t, m, p, want)"
  shows "t \<in> {1..3} \<and> m \<in> {8 * 1024..64 * 1024} \<and> p \<in> {1..2} \<and> length salt \<in> {8..64} \<and> length want = 32"
proof -
  obtain parts params where h: "hash_params parts [] = Some params" "length params = 3"
    and v: "t = param params ''t''" "m = param params ''m''" "p = param params ''p''"
    and b: "minArgon2MemoryKiB \<le> m" "m \<le> maxArgon2MemoryKiB" "t \<le> maxArgon2Time" "p \<le> maxArgon2Parallel"
      "minArgon2SaltBytes \<le> length salt" "length salt \<le> maxArgon2SaltBytes" "length want = 32"
    using assms by (auto simp: argon_request_def not_less split: list.splits if_splits option.splits)
  have "0 < t" "0 < p" using three_params [OF h] v by (simp_all add: hash_keys_def)
  with b show ?thesis
    by (simp add: minArgon2MemoryKiB_def maxArgon2MemoryKiB_def maxArgon2Time_def maxArgon2Parallel_def
        minArgon2SaltBytes_def maxArgon2SaltBytes_def)
qed

theorem argon_work_bounded_witness:
  "argon_request (encode_hash (replicate 16 CHR ''s'') (replicate 32 CHR ''h'')) =
     Some (replicate 16 CHR ''s'', 3, 64 * 1024, 2, replicate 32 CHR ''h'')
   \<and> (3::nat) \<in> {1..3} \<and> (2::nat) \<in> {1..2}"
proof -
  have r: "argon_request (encode_hash (replicate 16 CHR ''s'') (replicate 32 CHR ''h'')) =
     Some (replicate 16 CHR ''s'', 3, 64 * 1024, 2, replicate 32 CHR ''h'')"
    by (rule encoded_request) simp_all
  from argon_work_bounded [OF r] r show ?thesis by blast
qed

text \<open>A hash row made by the code, for a password that the policy accepts.\<close>

definition sample_password :: string where
  "sample_password = ''correct zebra battery 7''"

definition flat_argon :: argon where
  "flat_argon password salt t m p = take 32 (password @ replicate 32 CHR 0x00)"

lemma sample_password_policy: "CheckPasswordPolicy sample_password = None"
proof -
  have a: "\<forall>c \<in> set sample_password. byte_of c < 128" by (simp add: sample_password_def)
  have r: "runes sample_password = map (\<lambda>c. [c]) sample_password" by (rule runes_ascii [OF a])
  have n: "normalizePasswordForBlocklist sample_password = ''correctzebrabattery7''"
    unfolding normalize_ascii [OF a]
    by (simp add: sample_password_def lower_char_def is_space_def)
  have "\<not> has_control sample_password"
    unfolding has_control_def r by (simp add: sample_password_def is_control_def)
  moreover have "valid_utf8 sample_password" by (rule valid_utf8_ascii) (use a in blast)
  moreover have "length (runes sample_password) = 23" unfolding r by (simp add: sample_password_def)
  moreover have "\<not> repetitive ''correctzebrabattery7''" by code_simp
  moreover have "\<not> commonPassword ''correctzebrabattery7''"
    unfolding common_entries by (simp add: commonPasswordList_def)
  ultimately show ?thesis
    by (simp add: CheckPasswordPolicy_def n MinPasswordRunes_def MaxPasswordRunes_def)
qed

theorem password_hash_matches_witness:
  "PasswordMatches flat_argon (encode_hash (replicate 16 CHR ''s'') (flat_argon sample_password (replicate 16 CHR ''s'') 3 (64 * 1024) 2)) sample_password
   \<and> \<not> PasswordMatches flat_argon (encode_hash (replicate 16 CHR ''s'') (flat_argon sample_password (replicate 16 CHR ''s'') 3 (64 * 1024) 2)) ''guess''"
proof -
  have h: "PasswordHash flat_argon sample_password (replicate 16 CHR ''s'') =
      Inr (encode_hash (replicate 16 CHR ''s'') (flat_argon sample_password (replicate 16 CHR ''s'') 3 (64 * 1024) 2))"
    by (simp add: PasswordHash_def sample_password_policy)
  have l: "length (replicate 16 CHR ''s'') = 16"
    "length (flat_argon sample_password (replicate 16 CHR ''s'') 3 (64 * 1024) 2) = 32"
    by (simp_all add: flat_argon_def)
  have "flat_argon ''guess'' s 3 (64 * 1024) 2 \<noteq> flat_argon sample_password s 3 (64 * 1024) 2" for s
    by (simp add: flat_argon_def sample_password_def)
  then show ?thesis
    using password_hash_matches [OF h l, of sample_password] password_hash_matches [OF h l, of "''guess''"] by simp
qed

end
