(* ===== verification/Notify_Reasons.thy ===== *)
theory Notify_Reasons
  imports GoJson
begin

text \<open>
  The part of \<open>internal/notify/notify.go\<close> and \<open>internal/notify/slack.go\<close> that turns the failure
  of a delivery into the text that may be persisted. Provider messages can hold response bodies,
  URLs or secrets; the theorems state that only texts of a fixed list are ever kept.
\<close>

record delivery_error =
  Status :: int
  Message :: string
  RetryAfter :: duration
  Permanent :: bool
  Reason :: string

definition messageTooLargeReason :: string where
  "messageTooLargeReason = ''notification rejected by provider: message too large for this destination''"

definition permanentStatusReasons :: "(int \<times> string) list" where
  "permanentStatusReasons =
     [(400, ''notification rejected by provider (HTTP 400)''),
      (401, ''notification rejected by provider (HTTP 401)''),
      (403, ''notification rejected by provider (HTTP 403)''),
      (404, ''notification rejected by provider (HTTP 404)''),
      (410, ''notification rejected by provider (HTTP 410)'')]"

definition messageTooLarge :: "string \<Rightarrow> bool" where
  "messageTooLarge message \<longleftrightarrow>
     (let lower = to_lower message
      in contains lower ''exceeds the max length'' \<or> contains lower ''exceeds max size'' \<or>
         contains lower ''message too long'')"

definition permanentDeliveryFailure :: "string \<Rightarrow> int \<Rightarrow> bool" where
  "permanentDeliveryFailure message status =
     (if map_of permanentStatusReasons status \<noteq> None \<or> status = 413 then True
      else messageTooLarge message)"

definition slackRejectedReason :: string where
  "slackRejectedReason = ''notification rejected by Slack''"

definition slackRetryableErrors :: "string list" where
  "slackRetryableErrors =
     [''ratelimited'', ''rate_limited'', ''internal_error'', ''fatal_error'', ''service_unavailable'',
      ''request_timeout'']"

definition slackErrorReasons :: "(string \<times> string) list" where
  "slackErrorReasons =
     (''msg_too_long'', messageTooLargeReason) #
     map (\<lambda>code. (code, slackRejectedReason @ '' ('' @ code @ '')''))
       [''invalid_auth'', ''not_authed'', ''account_inactive'', ''token_revoked'', ''token_expired'',
        ''no_permission'', ''missing_scope'', ''not_allowed_token_type'', ''team_access_not_granted'',
        ''ekm_access_denied'', ''invalid_token'', ''channel_not_found'', ''not_in_channel'',
        ''is_archived'', ''channel_is_archived'', ''restricted_action'', ''action_prohibited'',
        ''posting_to_general_channel_denied'', ''user_not_found'', ''no_service'', ''no_service_id'',
        ''no_team'', ''team_disabled'', ''invalid_blocks'', ''invalid_blocks_format'',
        ''invalid_attachments'', ''too_many_attachments'', ''invalid_arguments'', ''invalid_payload'',
        ''no_text'']"

definition slackReason :: "string \<Rightarrow> bool" where
  "slackReason reason_text \<longleftrightarrow>
     reason_text = slackRejectedReason \<or> reason_text \<in> set (map snd slackErrorReasons)"

definition httpFailurePrefix :: string where
  "httpFailurePrefix = ''notification delivery failed with HTTP ''"

definition httpFailureReason :: "int \<Rightarrow> string" where
  "httpFailureReason status = httpFailurePrefix @ int_text status"

text \<open>The error as \<open>errors.As\<close> finds it (if it is a \<open>DeliveryError\<close>), and its text. The nil
  error is \<open>None\<close>.\<close>

definition generic_reason :: "string \<Rightarrow> string" where
  "generic_reason text0 =
     (let message = to_lower text0
      in if contains message ''deadline exceeded'' \<or> contains message ''timeout''
           then ''notification delivery timed out''
         else if contains message ''canceled'' \<or> contains message ''cancelled''
           then ''notification delivery canceled''
         else ''notification delivery failed'')"

definition SafeDeliveryError :: "(delivery_error option \<times> string) option \<Rightarrow> string" where
  "SafeDeliveryError err =
     (case err of
        None \<Rightarrow> ''notification delivery failed''
      | Some (None, text0) \<Rightarrow> generic_reason text0
      | Some (Some d, text0) \<Rightarrow>
          (let http = (if 100 \<le> Status d \<and> Status d \<le> 599 then httpFailureReason (Status d)
                       else generic_reason text0)
           in if \<not> Permanent d then http
              else
                (case map_of permanentStatusReasons (Status d) of
                   Some r \<Rightarrow> r
                 | None \<Rightarrow>
                     if slackReason (Reason d) then Reason d
                     else if Status d = 413 \<or> messageTooLarge (Message d) then messageTooLargeReason
                     else http)))"

definition trustedMessages :: "string list" where
  "trustedMessages =
     [''destination disabled'', ''destination removed'', ''delivery retry window expired'',
      ''no notification destination configured'', ''monitoring identity changed'',
      ''collector reconciliation failed'', ''reconciliation retry window expired'',
      ''notification delivery failed'', ''notification delivery timed out'',
      ''notification delivery canceled'', messageTooLargeReason]"

text \<open>The pattern \<open>^notification delivery failed with HTTP ([1-5][0-9]{2})$\<close>: the status.\<close>

definition http_failure_status :: "string \<Rightarrow> int option" where
  "http_failure_status message =
     (let digits = drop (length httpFailurePrefix) message
      in if has_prefix message httpFailurePrefix \<and> length digits = 3 \<and> list_all is_digit digits \<and>
            hd digits \<in> set ''12345''
         then Some (int (digits_value (map digit_val digits)))
         else None)"

definition SafeDeliveryMessage :: "string \<Rightarrow> string" where
  "SafeDeliveryMessage message0 =
     (let message = trim_space message0
      in if message \<in> set trustedMessages then message
         else if message \<in> set (map snd permanentStatusReasons) then message
         else if slackReason message then message
         else
           (case http_failure_status message of
              Some status \<Rightarrow> httpFailureReason status
            | None \<Rightarrow> SafeDeliveryError (Some (None, message))))"

subsection \<open>Property\<close>

text \<open>Every text that may be persisted.\<close>

definition persistable :: "string \<Rightarrow> bool" where
  "persistable r \<longleftrightarrow>
     r \<in> set trustedMessages \<or> r \<in> set (map snd permanentStatusReasons) \<or> slackReason r \<or>
     list_ex (\<lambda>status. r = httpFailureReason status) [100..599]"

lemma persistable_intros:
  "r \<in> set trustedMessages \<Longrightarrow> persistable r"
  "r \<in> set (map snd permanentStatusReasons) \<Longrightarrow> persistable r"
  "slackReason r \<Longrightarrow> persistable r"
  "100 \<le> n \<Longrightarrow> n \<le> 599 \<Longrightarrow> persistable (httpFailureReason n)"
  unfolding persistable_def list_ex_iff set_upto by auto

lemma trusted_reasons:
  "''notification delivery failed'' \<in> set trustedMessages"
  "''notification delivery timed out'' \<in> set trustedMessages"
  "''notification delivery canceled'' \<in> set trustedMessages"
  "messageTooLargeReason \<in> set trustedMessages"
  by (simp_all only: trustedMessages_def list.set insert_iff simp_thms)

lemma generic_reason_persistable: "persistable (generic_reason t)"
  using trusted_reasons by (auto simp: generic_reason_def Let_def intro: persistable_intros(1))

lemma is_digit_val: "is_digit c \<Longrightarrow> digit_val c < 10"
  unfolding is_digit_def digit_val_def by linarith

lemma http_failure_status_range:
  assumes "http_failure_status m = Some n"
  shows "100 \<le> n \<and> n \<le> 599"
proof -
  define ds where "ds = drop (length httpFailurePrefix) m"
  from assms have ds: "length ds = 3" "list_all is_digit ds" "hd ds \<in> set ''12345''"
    and n: "n = int (digits_value (map digit_val ds))"
    by (simp_all only: http_failure_status_def Let_def ds_def split: if_splits) simp_all
  from ds(1) obtain a b c where abc: "ds = [a, b, c]"
    by (auto simp: length_Suc_conv numeral_3_eq_3)
  with ds have "digit_val b < 10" "digit_val c < 10" "1 \<le> digit_val a \<and> digit_val a \<le> 5"
    using is_digit_val by (auto simp: digit_val_def)
  then show ?thesis by (simp add: n abc digits_value_def)
qed

text \<open>
  Whatever a provider answered, only a text of a fixed, finite list is kept as the reason of
  a failed delivery: no response body, URL or secret in the error can reach the database.
\<close>

theorem persisted_reasons_fixed:
  "persistable (SafeDeliveryError err) \<and> persistable (SafeDeliveryMessage message)"
proof -
  have http: "persistable (if 100 \<le> Status d \<and> Status d \<le> 599 then httpFailureReason (Status d)
      else generic_reason t)" for d t
    by (simp add: persistable_intros(4) generic_reason_persistable)
  have status: "map_of permanentStatusReasons n = Some r \<Longrightarrow> persistable r" for n r
    by (rule persistable_intros(2)) (auto dest!: map_of_SomeD intro: rev_image_eqI)
  note base = persistable_intros(1) [OF trusted_reasons(1)] persistable_intros(1) [OF trusted_reasons(4)]
  have err: "persistable (SafeDeliveryError e)" for e
  proof (cases e)
    case None
    then show ?thesis by (simp add: SafeDeliveryError_def base)
  next
    case (Some p)
    obtain d t where p: "p = (d, t)" by (cases p)
    show ?thesis
    proof (cases d)
      case None
      then show ?thesis by (simp add: SafeDeliveryError_def Some p generic_reason_persistable)
    next
      case (Some x)
      define h where "h = (if 100 \<le> Status x \<and> Status x \<le> 599 then httpFailureReason (Status x)
        else generic_reason t)"
      have "SafeDeliveryError e =
          (if \<not> Permanent x then h
           else (case map_of permanentStatusReasons (Status x) of
                   Some r \<Rightarrow> r
                 | None \<Rightarrow> if slackReason (Reason x) then Reason x
                     else if Status x = 413 \<or> messageTooLarge (Message x) then messageTooLargeReason
                     else h))"
        by (simp only: SafeDeliveryError_def \<open>e = Some p\<close> p Some h_def Let_def option.case prod.case)
      moreover have "persistable h" unfolding h_def by (rule http)
      ultimately show ?thesis
        using status [of "Status x"] persistable_intros(3) base by (simp split: option.splits)
    qed
  qed
  have "persistable (SafeDeliveryMessage message)"
  proof (cases "http_failure_status (trim_space message)")
    case None
    then show ?thesis
      using err persistable_intros(1-3) unfolding SafeDeliveryMessage_def Let_def by simp
  next
    case (Some n)
    then show ?thesis
      using http_failure_status_range [OF Some] persistable_intros
      unfolding SafeDeliveryMessage_def Let_def by simp
  qed
  with err show ?thesis by blast
qed

end
