(* ===== verification/Leased_Queue.thy ===== *)
theory Leased_Queue
  imports Prelude
begin

text \<open>
  What the two durable queues of the store share (\<open>outbox\<close> in \<open>internal/store/outbox.go\<close>,
  \<open>webhook_triggers\<close> in \<open>internal/store/webhooks.go\<close>): the effect of an SQL \<open>UPDATE\<close> on the
  rows of a table, and the contract of a queue whose rows are leased to workers with a token.

  A table is the list of its rows in the order of their ids. A statement is a function of the
  table; a transaction is the composition of its statements, and an error leaves the table as
  it was.
\<close>

subsection \<open>Statements on a table\<close>

text \<open>\<open>UPDATE table SET f WHERE p\<close>, and the number of rows it affects.\<close>

definition update_where :: "('r \<Rightarrow> bool) \<Rightarrow> ('r \<Rightarrow> 'r) \<Rightarrow> 'r list \<Rightarrow> 'r list" where
  "update_where p f rows = map (\<lambda>r. if p r then f r else r) rows"

definition rows_affected :: "('r \<Rightarrow> bool) \<Rightarrow> 'r list \<Rightarrow> nat" where
  "rows_affected p rows = length (filter p rows)"

text \<open>\<open>SELECT ... WHERE p ORDER BY id LIMIT n\<close>\<close>

definition select_limit :: "nat \<Rightarrow> ('r \<Rightarrow> bool) \<Rightarrow> 'r list \<Rightarrow> 'r list" where
  "select_limit n p rows = take n (filter p rows)"

lemma update_where_Nil [simp]: "update_where p f [] = []"
  by (simp add: update_where_def)

lemma length_update_where [table_simps, simp]: "length (update_where p f rows) = length rows"
  by (simp add: update_where_def)

lemma nth_update_where [table_simps]:
  "j < length rows \<Longrightarrow> update_where p f rows ! j = (if p (rows ! j) then f (rows ! j) else rows ! j)"
  by (simp add: update_where_def)

lemma map_update_where [table_simps]:
  "(\<And>r. p r \<Longrightarrow> g (f r) = g r) \<Longrightarrow> map g (update_where p f rows) = map g rows"
  by (simp add: update_where_def)

lemma set_update_where [table_simps]:
  "r \<in> set (update_where p f rows) \<longleftrightarrow>
     (\<exists>q \<in> set rows. (p q \<and> r = f q) \<or> (\<not> p q \<and> r = q))"
  by (auto simp: update_where_def image_iff)

lemma update_where_none [table_simps]: "\<forall>r \<in> set rows. \<not> p r \<Longrightarrow> update_where p f rows = rows"
  by (simp add: update_where_def map_idI)

lemma rows_affected_none: "rows_affected p rows = 0 \<longleftrightarrow> (\<forall>r \<in> set rows. \<not> p r)"
  by (simp add: rows_affected_def filter_empty_conv)

lemma rows_affected_distinct:
  assumes "distinct (map k rows)" and "\<And>r. p r \<Longrightarrow> k r = i"
  shows "rows_affected p rows = (if \<exists>r \<in> set rows. p r then 1 else 0)"
  using assms
proof (induction rows)
  case (Cons q rows)
  show ?case
  proof (cases "p q")
    case True
    then have "\<forall>r \<in> set rows. \<not> p r" using Cons.prems by force
    with True show ?thesis by (simp add: rows_affected_def filter_empty_conv)
  next
    case False
    with Cons show ?thesis by (simp add: rows_affected_def)
  qed
qed (simp add: rows_affected_def)

subsection \<open>The lease of a row\<close>

text \<open>
  \<open>db\<close> is the database, \<open>rows\<close> the table of the queue, \<open>holds r t\<close> says that the row is leased
  under the token \<open>t\<close>. \<open>exec\<close> performs any operation of the store on the queue, and
  \<open>issued op\<close> are the tokens the operation draws from the random source. The law: an operation
  leases a row only under a token it issues itself.
\<close>

locale leased_queue =
  fixes rows :: "'db \<Rightarrow> 'r list"
    and rid :: "'r \<Rightarrow> int"
    and holds :: "'r \<Rightarrow> string \<Rightarrow> bool"
    and exec :: "'op \<Rightarrow> 'db \<Rightarrow> 'db"
    and issued :: "'op \<Rightarrow> string set"
  assumes lease_origin:
    "r' \<in> set (rows (exec op db)) \<Longrightarrow> holds r' t \<Longrightarrow>
       t \<in> issued op \<or> (\<exists>r \<in> set (rows db). rid r = rid r' \<and> holds r t)"
begin

definition owns :: "'db \<Rightarrow> int \<Rightarrow> string \<Rightarrow> bool" where
  "owns db i t \<longleftrightarrow> (\<exists>r \<in> set (rows db). rid r = i \<and> holds r t)"

lemma lost_once: "\<not> owns db i t \<Longrightarrow> t \<notin> issued op \<Longrightarrow> \<not> owns (exec op db) i t"
  using lease_origin unfolding owns_def by blast

text \<open>A lease that is lost stays lost, whatever operations follow, unless its token is drawn again.\<close>

lemma lost_stays_lost:
  "\<not> owns db i t \<Longrightarrow> \<forall>op \<in> set ops. t \<notin> issued op \<Longrightarrow> \<not> owns (fold exec ops db) i t"
  by (induction ops arbitrary: db) (simp_all add: lost_once)

end

text \<open>
  The operations of a worker on a row it has claimed: \<open>settle s i t\<close> performs the action \<open>s\<close> on
  the row \<open>i\<close> under the token \<open>t\<close> and reports whether the lease still stood. The law is the
  fence: without the lease nothing changes.
\<close>

locale fenced_queue = leased_queue rows rid holds exec issued
  for rows :: "'db \<Rightarrow> 'r list"
    and rid :: "'r \<Rightarrow> int"
    and holds :: "'r \<Rightarrow> string \<Rightarrow> bool"
    and exec :: "'op \<Rightarrow> 'db \<Rightarrow> 'db"
    and issued :: "'op \<Rightarrow> string set" +
  fixes settle :: "'s \<Rightarrow> int \<Rightarrow> string \<Rightarrow> 'db \<Rightarrow> 'db \<times> bool"
  assumes settle_fenced:
    "(\<forall>r \<in> set (rows db). rid r = i \<longrightarrow> \<not> holds r t) \<Longrightarrow> settle s i t db = (db, False)"
begin

lemma settle_lost: "\<not> owns db i t \<Longrightarrow> settle s i t db = (db, False)"
  by (rule settle_fenced) (auto simp: owns_def)

lemma stale_worker:
  "\<not> owns db i t \<Longrightarrow> \<forall>op \<in> set ops. t \<notin> issued op \<Longrightarrow>
     settle s i t (fold exec ops db) = (fold exec ops db, False)"
  by (rule settle_lost [OF lost_stays_lost])

end

text \<open>
  Claiming. \<open>live now r\<close> says that the row is leased and the lease has not run out at \<open>now\<close>;
  \<open>taken\<close> are the ids a claim at \<open>now\<close> returns. A claim leaves a live row as it is and does not
  return it.
\<close>

locale claimed_queue = fenced_queue rows rid holds exec issued settle
  for rows :: "'db \<Rightarrow> 'r list"
    and rid :: "'r \<Rightarrow> int"
    and holds :: "'r \<Rightarrow> string \<Rightarrow> bool"
    and exec :: "'op \<Rightarrow> 'db \<Rightarrow> 'db"
    and issued :: "'op \<Rightarrow> string set"
    and settle :: "'s \<Rightarrow> int \<Rightarrow> string \<Rightarrow> 'db \<Rightarrow> 'db \<times> bool" +
  fixes live :: "instant \<Rightarrow> 'r \<Rightarrow> bool"
    and claim :: "'c \<Rightarrow> instant \<Rightarrow> 'db \<Rightarrow> 'db \<times> int list"
  assumes ids_distinct: "distinct (map rid (rows db)) \<Longrightarrow> distinct (map rid (rows (fst (claim c now db))))"
    and claim_spares_live: "r \<in> set (rows db) \<Longrightarrow> live now r \<Longrightarrow> r \<in> set (rows (fst (claim c now db)))"
    and claim_takes_idle: "i \<in> set (snd (claim c now db)) \<Longrightarrow>
          \<exists>r \<in> set (rows db). rid r = i \<and> \<not> live now r"
begin

text \<open>Two workers never hold one row: while a lease runs, no claim returns its row.\<close>

lemma claim_excludes_live:
  assumes "distinct (map rid (rows db))" and "r \<in> set (rows db)" and "live now r"
  shows "rid r \<notin> set (snd (claim c now db))"
proof
  assume "rid r \<in> set (snd (claim c now db))"
  then obtain q where "q \<in> set (rows db)" "rid q = rid r" "\<not> live now q"
    using claim_takes_idle by blast
  with assms show False by (metis inj_on_eq_iff distinct_map)
qed

end

end
