(* ===== verification/Store_Outbox.thy ===== *)
theory Store_Outbox
  imports Secret Notify_Reasons Leased_Queue
begin

text \<open>
  The notification queue: \<open>internal/store/outbox.go\<close>, with the statements of
  \<open>internal/store/destinations.go\<close>, \<open>internal/store/settings.go\<close> and
  \<open>internal/store/status.go\<close> that change the queue (disabling and removing a destination, a
  change of the monitored identity, the clean-up phases).

  The database holds the rows of \<open>notification_destinations\<close> and \<open>outbox\<close> in the order of their
  ids, the generation of every event batch and that of the settings row (\<open>None\<close> before the
  setup). Columns that hold a time are instants: \<open>formatTimestamp\<close> writes a fixed-width UTC form,
  whose text order is the order of time. The clock and the random lease tokens are arguments,
  \<open>tok k\<close> the token drawn for the \<open>k\<close>-th row; AES-GCM is the parameter \<open>gopen\<close> or \<open>gseal\<close>.
\<close>

datatype outbox_status = Pending | Processing | Delivered | Dead

record outbox_row =
  OId :: int
  OBatch :: "int option"
  ODest :: int
  OPayload :: string
  OFormat :: string
  OStatus :: outbox_status
  OAttempts :: int
  ONext :: instant
  OFirst :: instant
  OError :: string
  OCreated :: instant
  ODeliveredAt :: "instant option"
  OLeaseUntil :: "instant option"
  OLeaseToken :: string

record dest_row =
  DestID :: int
  DestName :: string
  DestURLEnc :: string
  DestEnabled :: bool
  DestCreated :: instant
  DestUpdated :: instant
  DestDeleted :: "instant option"
  DestFormat :: string

record outbox_db =
  Dests :: "dest_row list"
  NextDestID :: int
  Outbox :: "outbox_row list"
  NextOutboxID :: int
  BatchGeneration :: "(int \<times> int) list"
  Generation :: "int option"

record OutboxItem =
  ItemID :: int
  ItemBatch :: int
  ItemDest :: int
  ItemDestName :: string
  ItemURL :: string
  ItemDestEnabled :: bool
  ItemDestFormat :: string
  ItemPayload :: string
  ItemFormat :: string
  ItemAttempts :: int
  ItemFirst :: instant
  ItemLeaseUntil :: "instant option"
  ItemLeaseToken :: string

definition outboxRetryWindow :: duration where "outboxRetryWindow = 24 * hour"
definition outboxLease :: duration where "outboxLease = 2 * minute"

definition destinationBinding :: "int \<Rightarrow> string" where
  "destinationBinding i = ''notification_destinations.service_url_enc:'' @ int_text i"

text \<open>\<open>s.box.Open(destinationBinding(id), enc)\<close>\<close>
definition open_url :: "gcm_open \<Rightarrow> int \<Rightarrow> string \<Rightarrow> string option" where
  "open_url gopen i enc =
     (case Open gopen (destinationBinding i) enc of Inl _ \<Rightarrow> None | Inr url \<Rightarrow> Some url)"

subsection \<open>Queueing\<close>

definition active_dest :: "dest_row \<Rightarrow> bool" where
  "active_dest d \<longleftrightarrow> DestEnabled d \<and> DestDeleted d = None"

definition new_outbox_row :: "int \<Rightarrow> int option \<Rightarrow> int \<Rightarrow> string \<Rightarrow> string \<Rightarrow> instant \<Rightarrow> outbox_row" where
  "new_outbox_row i batch dest payloadFormat payload now =
     \<lparr> OId = i, OBatch = batch, ODest = dest, OPayload = payload, OFormat = payloadFormat,
       OStatus = Pending, OAttempts = 0, ONext = now, OFirst = now, OError = '''', OCreated = now,
       ODeliveredAt = None, OLeaseUntil = None, OLeaseToken = '''' \<rparr>"

definition insert_outbox :: "int option \<Rightarrow> string \<Rightarrow> string \<Rightarrow> instant \<Rightarrow> dest_row \<Rightarrow> outbox_db \<Rightarrow> outbox_db" where
  "insert_outbox batch payloadFormat payload now d db =
     db\<lparr>Outbox := Outbox db @ [new_outbox_row (NextOutboxID db) batch (DestID d) payloadFormat payload now],
        NextOutboxID := NextOutboxID db + 1\<rparr>"

definition enqueueOutboxTx :: "string \<Rightarrow> string \<Rightarrow> instant \<Rightarrow> int \<Rightarrow> outbox_db \<Rightarrow> outbox_db" where
  "enqueueOutboxTx payloadFormat payload now batchID db =
     fold (insert_outbox (if 0 < batchID then Some batchID else None) payloadFormat payload now)
       (filter active_dest (Dests db)) db"

definition enqueueSystem :: "string \<Rightarrow> string \<Rightarrow> instant \<Rightarrow> outbox_db \<Rightarrow> outbox_db" where
  "enqueueSystem payloadFormat payload now db = enqueueOutboxTx payloadFormat payload now 0 db"

definition PayloadMarkdown :: string where "PayloadMarkdown = ''markdown''"

definition EnqueueSystem :: "string \<Rightarrow> instant \<Rightarrow> outbox_db \<Rightarrow> outbox_db" where
  "EnqueueSystem payload now db = enqueueSystem PayloadMarkdown payload now db"

subsection \<open>Claiming\<close>

definition outbox_lease_over :: "instant \<Rightarrow> outbox_row \<Rightarrow> bool" where
  "outbox_lease_over now r \<longleftrightarrow> (case OLeaseUntil r of None \<Rightarrow> True | Some u \<Rightarrow> u \<le> now)"

definition unlease :: "outbox_row \<Rightarrow> outbox_row" where
  "unlease r = r\<lparr>OLeaseUntil := None, OLeaseToken := ''''\<rparr>"

text \<open>SQLite's \<open>TRIM(s) = ''\<close>: nothing but spaces.\<close>
definition sql_blank :: "string \<Rightarrow> bool" where
  "sql_blank s \<longleftrightarrow> list_all (\<lambda>c. c = CHR 0x20) s"

definition retry_expired :: "instant \<Rightarrow> outbox_row \<Rightarrow> outbox_row" where
  "retry_expired now r =
     (unlease r)\<lparr>OStatus := Dead, ONext := now,
        OError := (if sql_blank (OError r) then ''delivery retry window expired'' else OError r)\<rparr>"

definition expire_leases :: "instant \<Rightarrow> outbox_row list \<Rightarrow> outbox_row list" where
  "expire_leases now rows =
     update_where (\<lambda>r. OStatus r = Processing \<and> outbox_lease_over now r)
       (\<lambda>r. (unlease r)\<lparr>OStatus := Pending\<rparr>) rows"

definition expire_window :: "instant \<Rightarrow> outbox_row list \<Rightarrow> outbox_row list" where
  "expire_window now rows =
     update_where (\<lambda>r. OStatus r = Pending \<and> OFirst r \<le> now - outboxRetryWindow) (retry_expired now) rows"

text \<open>The older rows that hold a row of the same destination back.\<close>

definition holds_back :: "instant \<Rightarrow> outbox_row \<Rightarrow> outbox_row \<Rightarrow> bool" where
  "holds_back now r p \<longleftrightarrow>
     ODest p = ODest r \<and> OId p < OId r
     \<and> (OStatus p = Processing \<or> (OStatus p = Pending \<and> now < ONext p))"

definition dest_of :: "dest_row list \<Rightarrow> outbox_row \<Rightarrow> dest_row option" where
  "dest_of ds r = List.find (\<lambda>d. DestID d = ODest r) ds"

definition claimable :: "instant \<Rightarrow> dest_row list \<Rightarrow> outbox_row list \<Rightarrow> outbox_row \<Rightarrow> bool" where
  "claimable now ds rows r \<longleftrightarrow>
     (case dest_of ds r of
        None \<Rightarrow> False
      | Some d \<Rightarrow>
          OStatus r = Pending \<and> ONext r \<le> now \<and> DestEnabled d \<and> DestDeleted d = None
          \<and> \<not> list_ex (holds_back now r) rows)"

text \<open>\<open>Inl\<close> is the \<open>unreadableDestinationError\<close>: the row and the name of its destination.\<close>

definition readOutboxItem :: "gcm_open \<Rightarrow> dest_row list \<Rightarrow> outbox_row \<Rightarrow> (outbox_row \<times> string) + OutboxItem" where
  "readOutboxItem gopen ds r =
     (case dest_of ds r of
        None \<Rightarrow> Inl (r, '''')
      | Some d \<Rightarrow>
          (let url = (if DestURLEnc d = '''' then Some '''' else open_url gopen (ODest r) (DestURLEnc d))
           in case url of
                None \<Rightarrow> Inl (r, DestName d)
              | Some u \<Rightarrow>
                  Inr \<lparr> ItemID = OId r, ItemBatch = (case OBatch r of None \<Rightarrow> 0 | Some b \<Rightarrow> b),
                        ItemDest = ODest r, ItemDestName = DestName d, ItemURL = u,
                        ItemDestEnabled = DestEnabled d, ItemDestFormat = DestFormat d,
                        ItemPayload = OPayload r, ItemFormat = OFormat r, ItemAttempts = OAttempts r,
                        ItemFirst = OFirst r, ItemLeaseUntil = OLeaseUntil r,
                        ItemLeaseToken = OLeaseToken r \<rparr>))"

definition unreadable_reason :: "int \<Rightarrow> string \<Rightarrow> string" where
  "unreadable_reason dest dest_name =
     ''service URL of destination '' @ int_text dest @ '' ('' @ dest_name @
     '') cannot be decrypted with the current master key; save the destination with its URL again, or disable or remove it''"

definition bury_unreadable :: "instant \<Rightarrow> (outbox_row \<times> string) \<Rightarrow> outbox_row list \<Rightarrow> outbox_row list" where
  "bury_unreadable now u rows =
     update_where (\<lambda>r. OId r = OId (fst u) \<and> OStatus r = Pending)
       (\<lambda>r. (unlease r)\<lparr>OStatus := Dead, ONext := now,
               OError := truncate_text (unreadable_reason (ODest (fst u)) (snd u)) 500\<rparr>) rows"

definition lease_row :: "instant \<Rightarrow> string \<Rightarrow> outbox_row \<Rightarrow> outbox_row" where
  "lease_row until token r =
     r\<lparr>OStatus := Processing, OAttempts := OAttempts r + 1, OLeaseUntil := Some until, OLeaseToken := token\<rparr>"

definition leased_item :: "instant \<Rightarrow> string \<Rightarrow> OutboxItem \<Rightarrow> OutboxItem" where
  "leased_item until token it =
     it\<lparr>ItemAttempts := ItemAttempts it + 1, ItemLeaseToken := token, ItemLeaseUntil := Some until\<rparr>"

text \<open>The loop that leases the rows (lines 147 to 172); an item whose update hits no row is left out.\<close>

fun lease_items :: "instant \<Rightarrow> (nat \<Rightarrow> string) \<Rightarrow> nat \<Rightarrow> OutboxItem list \<Rightarrow> outbox_row list \<Rightarrow> outbox_row list \<times> OutboxItem list" where
  "lease_items until tok k [] rows = (rows, [])"
| "lease_items until tok k (it # its) rows =
     (let p = (\<lambda>r. OId r = ItemID it \<and> OStatus r = Pending);
          (final, claimed) = lease_items until tok (Suc k) its (update_where p (lease_row until (tok k)) rows)
      in (final, (if rows_affected p rows = 1 then [leased_item until (tok k) it] else []) @ claimed))"

definition claim_limit :: "int \<Rightarrow> nat" where
  "claim_limit limit = nat (if limit \<le> 0 then 10 else if 64 < limit then 64 else limit)"

definition lease_length :: "duration option \<Rightarrow> duration" where
  "lease_length lease =
     (case lease of None \<Rightarrow> outboxLease | Some l \<Rightarrow> if second \<le> l then l else outboxLease)"

definition ClaimDueOutbox ::
  "gcm_open \<Rightarrow> int \<Rightarrow> duration option \<Rightarrow> (nat \<Rightarrow> string) \<Rightarrow> instant \<Rightarrow> outbox_db \<Rightarrow> outbox_db \<times> OutboxItem list" where
  "ClaimDueOutbox gopen limit lease tok now db =
     (let rows1 = expire_window now (expire_leases now (Outbox db));
          picked = select_limit (claim_limit limit) (claimable now (Dests db) rows1) rows1;
          read = map (readOutboxItem gopen (Dests db)) picked;
          unreadable = List.map_filter (\<lambda>x. case x of Inl u \<Rightarrow> Some u | Inr _ \<Rightarrow> None) read;
          items = List.map_filter (\<lambda>x. case x of Inl _ \<Rightarrow> None | Inr it \<Rightarrow> Some it) read;
          rows2 = fold (bury_unreadable now) unreadable rows1;
          (rows3, claimed) = lease_items (now + lease_length lease) tok 0 items rows2
      in (db\<lparr>Outbox := rows3\<rparr>, claimed))"

subsection \<open>Settling a claim\<close>

definition owned :: "int \<Rightarrow> string \<Rightarrow> outbox_row \<Rightarrow> bool" where
  "owned i token r \<longleftrightarrow> OId r = i \<and> OStatus r = Processing \<and> OLeaseToken r = token"

text \<open>The statement \<open>UPDATE outbox SET f WHERE id=? AND status='processing' AND lease_token=?\<close>
  with the guard on the claim and the test of the rows affected.\<close>

definition settle_row :: "(outbox_row \<Rightarrow> outbox_row) \<Rightarrow> int \<Rightarrow> string \<Rightarrow> outbox_db \<Rightarrow> outbox_db \<times> bool" where
  "settle_row f i token db =
     (if i \<le> 0 \<or> trim_space token = '''' then (db, False)
      else (db\<lparr>Outbox := update_where (owned i token) f (Outbox db)\<rparr>,
            rows_affected (owned i token) (Outbox db) = 1))"

definition DeliveredClaimedResult :: "instant \<Rightarrow> int \<Rightarrow> string \<Rightarrow> outbox_db \<Rightarrow> outbox_db \<times> bool" where
  "DeliveredClaimedResult now =
     settle_row (\<lambda>r. (unlease r)\<lparr>OStatus := Delivered, ODeliveredAt := Some now, OError := ''''\<rparr>)"

definition RetryClaimedResult :: "instant \<Rightarrow> string \<Rightarrow> bool \<Rightarrow> int \<Rightarrow> string \<Rightarrow> outbox_db \<Rightarrow> outbox_db \<times> bool" where
  "RetryClaimedResult next_attempt message dead =
     settle_row (\<lambda>r. (unlease r)\<lparr>OStatus := (if dead then Dead else Pending), ONext := next_attempt,
                       OError := truncate_text (SafeDeliveryMessage message) 500\<rparr>)"

definition ReleaseClaimed :: "int \<Rightarrow> string \<Rightarrow> outbox_db \<Rightarrow> outbox_db \<times> bool" where
  "ReleaseClaimed =
     settle_row (\<lambda>r. (unlease r)\<lparr>OStatus := Pending, OAttempts := max (OAttempts r - 1) 0\<rparr>)"

definition RenewClaimed :: "instant \<Rightarrow> duration option \<Rightarrow> int \<Rightarrow> string \<Rightarrow> outbox_db \<Rightarrow> outbox_db \<times> bool" where
  "RenewClaimed now lease = settle_row (\<lambda>r. r\<lparr>OLeaseUntil := Some (now + lease_length lease)\<rparr>)"

subsection \<open>Dead letters\<close>

definition retryableDeadOutbox :: "outbox_db \<Rightarrow> outbox_row \<Rightarrow> bool" where
  "retryableDeadOutbox db r \<longleftrightarrow>
     OStatus r = Dead \<and> OError r \<noteq> ''monitoring identity changed''
     \<and> (case OBatch r of
          None \<Rightarrow> True
        | Some b \<Rightarrow>
            \<not> list_ex (\<lambda>(eb, gen). eb = b \<and> (case Generation db of None \<Rightarrow> False | Some g \<Rightarrow> gen \<noteq> g))
                (BatchGeneration db))"

datatype retry_dead_error = DestinationNotFound | ErrDestinationDisabled

definition RetryDeadOutbox :: "instant \<Rightarrow> int \<Rightarrow> outbox_db \<Rightarrow> retry_dead_error + (outbox_db \<times> nat)" where
  "RetryDeadOutbox now dest db =
     (case List.find (\<lambda>d. DestID d = dest \<and> DestDeleted d = None) (Dests db) of
        None \<Rightarrow> Inl DestinationNotFound
      | Some d \<Rightarrow>
          if \<not> DestEnabled d then Inl ErrDestinationDisabled
          else
            (let p = (\<lambda>r. ODest r = dest \<and> retryableDeadOutbox db r)
             in Inr (db\<lparr>Outbox := update_where p
                          (\<lambda>r. (unlease r)\<lparr>OStatus := Pending, OAttempts := 0, OFirst := now, ONext := now,
                                  OError := '''', ODeliveredAt := None\<rparr>) (Outbox db)\<rparr>,
                     rows_affected p (Outbox db))))"

record DestinationDelivery =
  DelID :: int
  DelName :: string
  DelEnabled :: bool
  DelPending :: nat
  DelProcessing :: nat
  DelDead :: nat
  DelRetryableDead :: nat
  DelURLUnreadable :: bool

definition DestinationDeliveries :: "gcm_open \<Rightarrow> outbox_db \<Rightarrow> DestinationDelivery list" where
  "DestinationDeliveries gopen db =
     map (\<lambda>d. let own = filter (\<lambda>r. ODest r = DestID d) (Outbox db)
              in \<lparr> DelID = DestID d, DelName = DestName d, DelEnabled = DestEnabled d,
                   DelPending = length (filter (\<lambda>r. OStatus r = Pending) own),
                   DelProcessing = length (filter (\<lambda>r. OStatus r = Processing) own),
                   DelDead = length (filter (\<lambda>r. OStatus r = Dead) own),
                   DelRetryableDead = length (filter (retryableDeadOutbox db) own),
                   DelURLUnreadable = (DestURLEnc d \<noteq> '''' \<and> open_url gopen (DestID d) (DestURLEnc d) = None) \<rparr>)
       (filter (\<lambda>d. DestDeleted d = None) (Dests db))"

subsection \<open>The other statements on the queue\<close>

definition bury_destination :: "string \<Rightarrow> int \<Rightarrow> outbox_row list \<Rightarrow> outbox_row list" where
  "bury_destination why dest rows =
     update_where (\<lambda>r. ODest r = dest \<and> (OStatus r = Pending \<or> OStatus r = Processing))
       (\<lambda>r. (unlease r)\<lparr>OStatus := Dead, OError := why\<rparr>) rows"

text \<open>\<open>None\<close>: the destination does not exist, and the transaction is rolled back.\<close>

definition SetDestinationEnabled :: "instant \<Rightarrow> int \<Rightarrow> bool \<Rightarrow> outbox_db \<Rightarrow> outbox_db option" where
  "SetDestinationEnabled now dest on db =
     (let p = (\<lambda>d. DestID d = dest \<and> DestDeleted d = None)
      in if rows_affected p (Dests db) = 0 then None
         else Some (db\<lparr>Dests := update_where p (\<lambda>d. d\<lparr>DestEnabled := on, DestUpdated := now\<rparr>) (Dests db),
                       Outbox := (if on then Outbox db
                                  else bury_destination ''destination disabled'' dest (Outbox db))\<rparr>))"

definition DeleteDestination :: "instant \<Rightarrow> int \<Rightarrow> outbox_db \<Rightarrow> outbox_db option" where
  "DeleteDestination now dest db =
     (let p = (\<lambda>d. DestID d = dest \<and> DestDeleted d = None)
      in if rows_affected p (Dests db) = 0 then None
         else Some (db\<lparr>Dests := update_where p
                          (\<lambda>d. d\<lparr>DestEnabled := False, DestURLEnc := '''', DestDeleted := Some now,
                                 DestUpdated := now\<rparr>) (Dests db),
                       Outbox := bury_destination ''destination removed'' dest (Outbox db)\<rparr>))"

text \<open>\<open>saveSettings\<close> when the identity changes (settings.go, lines 155 to 175): the new generation
  and the notifications of the batches of other generations.\<close>

definition change_identity :: "instant \<Rightarrow> int \<Rightarrow> outbox_db \<Rightarrow> outbox_db" where
  "change_identity now generation db =
     db\<lparr>Generation := Some generation,
        Outbox := update_where
          (\<lambda>r. (OStatus r = Pending \<or> OStatus r = Processing)
               \<and> (case OBatch r of None \<Rightarrow> False
                  | Some b \<Rightarrow> list_ex (\<lambda>(eb, gen). eb = b \<and> gen \<noteq> generation) (BatchGeneration db)))
          (\<lambda>r. (unlease r)\<lparr>OStatus := Dead, ONext := now, OError := ''monitoring identity changed''\<rparr>)
          (Outbox db)\<rparr>"

text \<open>The phases of the clean-up on the queue; the rows a batch of the clean-up reaches are chosen
  by \<open>pick\<close> (the statement has a LIMIT and no order).\<close>

definition cleanup_dead_letter :: "(outbox_row \<Rightarrow> bool) \<Rightarrow> instant \<Rightarrow> outbox_db \<Rightarrow> outbox_db" where
  "cleanup_dead_letter pick now db =
     db\<lparr>Outbox := update_where
          (\<lambda>r. pick r \<and> (OStatus r = Pending \<or> OStatus r = Processing) \<and> OFirst r \<le> now - outboxRetryWindow
               \<and> (OStatus r = Pending \<or> outbox_lease_over now r))
          (retry_expired now) (Outbox db)\<rparr>"

definition cleanup_finished :: "(outbox_row \<Rightarrow> bool) \<Rightarrow> duration \<Rightarrow> instant \<Rightarrow> outbox_db \<Rightarrow> outbox_db" where
  "cleanup_finished pick retention now db =
     db\<lparr>Outbox := filter (\<lambda>r. \<not> (pick r \<and>
           ((OStatus r = Delivered \<and> (case ODeliveredAt r of None \<Rightarrow> False | Some at \<Rightarrow> at < now - retention))
            \<or> (OStatus r = Dead \<and> OCreated r < now - retention)))) (Outbox db)\<rparr>"

subsection \<open>Saving a destination\<close>

text \<open>
  \<open>gseal\<close> and \<open>nonce\<close> are AES-GCM and the nonce drawn at the time of the call, \<open>valid\<close> is
  \<open>notify.Validate\<close> (it parses the URL with the delivery library).
\<close>

datatype save_error = NameRequired | InvalidURL | DestinationMissing | SealFailed secret_error

definition insertDestinationTx ::
  "gcm_seal \<Rightarrow> string \<Rightarrow> string \<Rightarrow> string \<Rightarrow> bool \<Rightarrow> instant \<Rightarrow> outbox_db \<Rightarrow> save_error + (outbox_db \<times> int)" where
  "insertDestinationTx gseal nonce dest_name url on now db =
     (case Seal gseal (destinationBinding (NextDestID db)) url nonce of
        Inl e \<Rightarrow> Inl (SealFailed e)
      | Inr encoded \<Rightarrow>
          Inr (db\<lparr>Dests := Dests db @
                     [\<lparr> DestID = NextDestID db, DestName = dest_name, DestURLEnc = encoded, DestEnabled = on,
                        DestCreated = now, DestUpdated = now, DestDeleted = None, DestFormat = '''' \<rparr>],
                  NextDestID := NextDestID db + 1\<rparr>, NextDestID db))"

definition upsertDestinationTx ::
  "gcm_open \<Rightarrow> gcm_seal \<Rightarrow> string \<Rightarrow> int \<Rightarrow> string \<Rightarrow> string \<Rightarrow> bool \<Rightarrow> instant
     \<Rightarrow> outbox_db \<Rightarrow> save_error + (outbox_db \<times> int)" where
  "upsertDestinationTx gopen gseal nonce i dest_name url on now db =
     (if 0 < i then
        (case List.find (\<lambda>d. DestID d = i \<and> DestDeleted d = None) (Dests db) of
           None \<Rightarrow> Inl DestinationMissing
         | Some d \<Rightarrow>
             (case (if open_url gopen i (DestURLEnc d) \<noteq> Some url \<or> \<not> IsCurrentEnvelope (DestURLEnc d)
                    then Seal gseal (destinationBinding i) url nonce
                    else Inr (DestURLEnc d)) of
                Inl e \<Rightarrow> Inl (SealFailed e)
              | Inr encoded \<Rightarrow>
                  Inr (db\<lparr>Dests := update_where (\<lambda>d. DestID d = i \<and> DestDeleted d = None)
                             (\<lambda>d. d\<lparr>DestName := dest_name, DestURLEnc := encoded, DestEnabled := on,
                                    DestUpdated := now\<rparr>) (Dests db)\<rparr>, i)))
      else insertDestinationTx gseal nonce dest_name url on now db)"

definition SaveDestination ::
  "gcm_open \<Rightarrow> gcm_seal \<Rightarrow> string \<Rightarrow> (string \<Rightarrow> bool) \<Rightarrow> int \<Rightarrow> string \<Rightarrow> string \<Rightarrow> bool
     \<Rightarrow> instant \<Rightarrow> outbox_db \<Rightarrow> save_error + (outbox_db \<times> int)" where
  "SaveDestination gopen gseal nonce valid i name0 url0 on now db =
     (let dest_name = trim_space name0; url = trim_space url0
      in if dest_name = '''' then Inl NameRequired
         else if \<not> valid url then Inl InvalidURL
         else
           (case upsertDestinationTx gopen gseal nonce i dest_name url on now db of
              Inl e \<Rightarrow> Inl e
            | Inr (db', j) \<Rightarrow>
                Inr (if on then db'
                     else db'\<lparr>Outbox := bury_destination ''destination disabled'' j (Outbox db')\<rparr>, j)))"

subsection \<open>Every operation as one step\<close>

text \<open>
  \<open>exec\<close> performs one operation; the failing ones leave the database as it was, as the
  rolled-back transaction does. \<open>issued\<close> are the tokens it draws.
\<close>

datatype outbox_op =
    OpEnqueue string string instant int
  | OpClaim gcm_open int "duration option" "nat \<Rightarrow> string" instant
  | OpDelivered instant int string
  | OpRetry instant string bool int string
  | OpRelease int string
  | OpRenew instant "duration option" int string
  | OpRetryDead instant int
  | OpSave gcm_open gcm_seal string "string \<Rightarrow> bool" int string string bool instant
  | OpEnable instant int bool
  | OpDelete instant int
  | OpIdentity instant int
  | OpDeadLetter "outbox_row \<Rightarrow> bool" instant
  | OpFinished "outbox_row \<Rightarrow> bool" duration instant

fun outbox_exec :: "outbox_op \<Rightarrow> outbox_db \<Rightarrow> outbox_db" where
  "outbox_exec (OpEnqueue payloadFormat payload now batch) db = enqueueOutboxTx payloadFormat payload now batch db"
| "outbox_exec (OpClaim gopen limit lease tok now) db = fst (ClaimDueOutbox gopen limit lease tok now db)"
| "outbox_exec (OpDelivered now i t) db = fst (DeliveredClaimedResult now i t db)"
| "outbox_exec (OpRetry at msg dead i t) db = fst (RetryClaimedResult at msg dead i t db)"
| "outbox_exec (OpRelease i t) db = fst (ReleaseClaimed i t db)"
| "outbox_exec (OpRenew now lease i t) db = fst (RenewClaimed now lease i t db)"
| "outbox_exec (OpRetryDead now dest) db =
     (case RetryDeadOutbox now dest db of Inl _ \<Rightarrow> db | Inr (db', _) \<Rightarrow> db')"
| "outbox_exec (OpSave gopen gseal nonce valid i n u on now) db =
     (case SaveDestination gopen gseal nonce valid i n u on now db of Inl _ \<Rightarrow> db | Inr (db', _) \<Rightarrow> db')"
| "outbox_exec (OpEnable now dest on) db =
     (case SetDestinationEnabled now dest on db of None \<Rightarrow> db | Some db' \<Rightarrow> db')"
| "outbox_exec (OpDelete now dest) db = (case DeleteDestination now dest db of None \<Rightarrow> db | Some db' \<Rightarrow> db')"
| "outbox_exec (OpIdentity now gen) db = change_identity now gen db"
| "outbox_exec (OpDeadLetter pick now) db = cleanup_dead_letter pick now db"
| "outbox_exec (OpFinished pick retention now) db = cleanup_finished pick retention now db"

fun outbox_issued :: "outbox_op \<Rightarrow> string set" where
  "outbox_issued (OpClaim gopen limit lease tok now) = range tok"
| "outbox_issued _ = {}"

subsection \<open>Lemmas on the statements\<close>

lemma unlease_simps [simp]:
  "OId (unlease r) = OId r" "ODest (unlease r) = ODest r" "OStatus (unlease r) = OStatus r"
  "OLeaseToken (unlease r) = ''''" "OLeaseUntil (unlease r) = None" "OAttempts (unlease r) = OAttempts r"
  "OFirst (unlease r) = OFirst r" "ONext (unlease r) = ONext r" "OBatch (unlease r) = OBatch r"
  by (simp_all add: unlease_def)

lemma expire_leases_ids [simp]: "map OId (expire_leases now rows) = map OId rows"
  unfolding expire_leases_def by (rule map_update_where) simp

lemma expire_window_ids [simp]: "map OId (expire_window now rows) = map OId rows"
  unfolding expire_window_def by (rule map_update_where) (simp add: retry_expired_def)

lemma bury_unreadable_ids [simp]: "map OId (bury_unreadable now u rows) = map OId rows"
  unfolding bury_unreadable_def by (rule map_update_where) simp

lemma fold_bury_ids [simp]: "map OId (fold (bury_unreadable now) us rows) = map OId rows"
  by (induction us arbitrary: rows) simp_all

lemma lease_items_ids [simp]: "map OId (fst (lease_items until tok k its rows)) = map OId rows"
proof (induction its arbitrary: k rows)
  case (Cons it its)
  have "map OId (update_where (\<lambda>r. OId r = ItemID it \<and> OStatus r = Pending) (lease_row until (tok k)) rows) = map OId rows"
    by (rule map_update_where) (simp add: lease_row_def)
  with Cons show ?case by (simp add: Let_def split: prod.splits) (metis fst_conv)
qed simp

text \<open>A row of the leased table is an old row or the old row leased under one of the tokens.\<close>

lemma lease_items_row:
  "r' \<in> set (fst (lease_items until tok k its rows)) \<Longrightarrow>
     r' \<in> set rows \<or> (\<exists>r \<in> set rows. \<exists>j. OStatus r = Pending \<and> OId r \<in> ItemID ` set its \<and> r' = lease_row until (tok j) r)"
proof (induction its arbitrary: k rows)
  case (Cons it its)
  let ?u = "update_where (\<lambda>r. OId r = ItemID it \<and> OStatus r = Pending) (lease_row until (tok k)) rows"
  have r: "r' \<in> set (fst (lease_items until tok (Suc k) its ?u))"
    using Cons.prems by (simp add: Let_def split: prod.splits)
  have u: "r \<in> set rows \<or> (\<exists>q \<in> set rows. OStatus q = Pending \<and> OId q = ItemID it \<and> r = lease_row until (tok k) q)"
    if "r \<in> set ?u" for r
    using that by (auto simp: set_update_where)
  from Cons.IH [OF r] show ?case
  proof
    assume "r' \<in> set ?u"
    from u [OF this] show ?thesis by auto
  next
    assume "\<exists>r \<in> set ?u. \<exists>j. OStatus r = Pending \<and> OId r \<in> ItemID ` set its \<and> r' = lease_row until (tok j) r"
    then obtain r j where "r \<in> set ?u" "OStatus r = Pending" "OId r \<in> ItemID ` set its" "r' = lease_row until (tok j) r"
      by blast
    moreover from this u [of r] have "r \<in> set rows" by (auto simp: lease_row_def)
    ultimately show ?thesis by auto
  qed
qed simp

subsection \<open>Leases\<close>

definition outbox_holds :: "outbox_row \<Rightarrow> string \<Rightarrow> bool" where
  "outbox_holds r t \<longleftrightarrow> OStatus r = Processing \<and> OLeaseToken r = t"

definition outbox_live :: "instant \<Rightarrow> outbox_row \<Rightarrow> bool" where
  "outbox_live now r \<longleftrightarrow> OStatus r = Processing \<and> \<not> outbox_lease_over now r"

text \<open>An update that leases nothing: a row it leaves leased was leased under the same token.\<close>

definition unleasing :: "(outbox_row \<Rightarrow> outbox_row) \<Rightarrow> bool" where
  "unleasing f \<longleftrightarrow> (\<forall>r. OId (f r) = OId r \<and> (\<forall>t. outbox_holds (f r) t \<longrightarrow> outbox_holds r t))"

lemma update_leases_nothing:
  assumes "unleasing f" and "r' \<in> set (update_where p f rows)" and "outbox_holds r' t"
  shows "\<exists>r \<in> set rows. OId r = OId r' \<and> outbox_holds r t"
  using assms by (auto simp: set_update_where unleasing_def)

lemma settle_origin:
  assumes "unleasing f" and "r' \<in> set (Outbox (fst (settle_row f i token db)))" and "outbox_holds r' t"
  shows "\<exists>r \<in> set (Outbox db). OId r = OId r' \<and> outbox_holds r t"
proof (cases "i \<le> 0 \<or> trim_space token = ''''")
  case True
  with assms(2,3) show ?thesis by (auto simp: settle_row_def)
next
  case False
  with assms(2) have "r' \<in> set (update_where (owned i token) f (Outbox db))" by (simp add: settle_row_def)
  from update_leases_nothing [OF assms(1) this assms(3)] show ?thesis .
qed

lemma enqueue_rows:
  "r \<in> set (Outbox (fold (insert_outbox b pf pl now) ds db)) \<Longrightarrow> r \<in> set (Outbox db) \<or> OStatus r = Pending"
proof (induction ds arbitrary: db)
  case (Cons d ds)
  then have "r \<in> set (Outbox (insert_outbox b pf pl now d db)) \<or> OStatus r = Pending" by simp
  then show ?case by (auto simp: insert_outbox_def new_outbox_row_def)
qed simp

lemma bury_row:
  "r' \<in> set (fold (bury_unreadable now) us rows) \<Longrightarrow>
     r' \<in> set rows \<or> (OStatus r' = Dead \<and> (\<exists>r \<in> set rows. OId r = OId r' \<and> ODest r = ODest r'))"
proof (induction us arbitrary: rows)
  case (Cons u us)
  from Cons.prems have "r' \<in> set (fold (bury_unreadable now) us (bury_unreadable now u rows))" by simp
  from Cons.IH [OF this] show ?case by (fastforce simp: bury_unreadable_def set_update_where)
qed simp

lemma bury_keeps:
  "r \<in> set rows \<Longrightarrow> OStatus r \<noteq> Pending \<or> OId r \<notin> (OId \<circ> fst) ` set us \<Longrightarrow>
     r \<in> set (fold (bury_unreadable now) us rows)"
proof (induction us arbitrary: rows)
  case (Cons u us)
  then have "r \<in> set (bury_unreadable now u rows)"
    by (force simp: bury_unreadable_def set_update_where)
  with Cons show ?case by simp
qed simp

lemma expire_leases_row:
  "r' \<in> set (expire_leases now rows) \<longleftrightarrow>
     (\<exists>r \<in> set rows. r' = (if OStatus r = Processing \<and> outbox_lease_over now r then (unlease r)\<lparr>OStatus := Pending\<rparr> else r))"
  unfolding expire_leases_def set_update_where by auto

lemma expire_window_row:
  "r' \<in> set (expire_window now rows) \<longleftrightarrow>
     (\<exists>r \<in> set rows. r' = (if OStatus r = Pending \<and> OFirst r \<le> now - outboxRetryWindow then retry_expired now r else r))"
  unfolding expire_window_def set_update_where by auto

abbreviation due_rows :: "instant \<Rightarrow> outbox_db \<Rightarrow> outbox_row list" where
  "due_rows now db \<equiv> expire_window now (expire_leases now (Outbox db))"

text \<open>A row of the table after the two expiry statements: pending ones were not live.\<close>

lemma due_row_origin:
  assumes "r' \<in> set (due_rows now db)"
  shows "\<exists>r \<in> set (Outbox db). OId r = OId r' \<and> ODest r = ODest r'
     \<and> (OStatus r' = Processing \<longrightarrow> r' = r) \<and> (OStatus r' = Pending \<longrightarrow> \<not> outbox_live now r \<and> now - outboxRetryWindow < OFirst r)"
proof -
  obtain q where q: "q \<in> set (expire_leases now (Outbox db))"
      "r' = (if OStatus q = Pending \<and> OFirst q \<le> now - outboxRetryWindow then retry_expired now q else q)"
    using assms unfolding expire_window_row by blast
  obtain r where r: "r \<in> set (Outbox db)"
      "q = (if OStatus r = Processing \<and> outbox_lease_over now r then (unlease r)\<lparr>OStatus := Pending\<rparr> else r)"
    using q(1) unfolding expire_leases_row by blast
  have "OId q = OId r \<and> ODest q = ODest r \<and> OFirst q = OFirst r \<and> (OStatus q = Processing \<longrightarrow> q = r)
      \<and> (OStatus q = Pending \<longrightarrow> \<not> outbox_live now r)"
    using r(2) by (simp add: outbox_live_def)
  moreover have "OId r' = OId q \<and> ODest r' = ODest q \<and> (OStatus r' = Processing \<longrightarrow> r' = q)
      \<and> (OStatus r' = Pending \<longrightarrow> r' = q \<and> now - outboxRetryWindow < OFirst q)"
    using q(2) by (auto simp: retry_expired_def)
  ultimately show ?thesis using r(1) by (intro bexI [of _ r]) auto
qed

lemma due_rows_live:
  assumes "r \<in> set (Outbox db)" and "outbox_live now r"
  shows "r \<in> set (due_rows now db)"
proof -
  have s: "OStatus r = Processing" "\<not> outbox_lease_over now r" using assms(2) by (simp_all add: outbox_live_def)
  with assms(1) have "r \<in> set (expire_leases now (Outbox db))"
    unfolding expire_leases_row by (intro bexI [of _ r]) simp_all
  with s show ?thesis unfolding expire_window_row by (intro bexI [of _ r]) simp_all
qed

subsection \<open>The parts of a claim\<close>

definition picked_rows :: "int \<Rightarrow> instant \<Rightarrow> outbox_db \<Rightarrow> outbox_row list" where
  "picked_rows limit now db =
     select_limit (claim_limit limit) (claimable now (Dests db) (due_rows now db)) (due_rows now db)"

definition read_items :: "gcm_open \<Rightarrow> dest_row list \<Rightarrow> outbox_row list \<Rightarrow> OutboxItem list" where
  "read_items gopen ds rows =
     List.map_filter (\<lambda>x. case x of Inl _ \<Rightarrow> None | Inr it \<Rightarrow> Some it) (map (readOutboxItem gopen ds) rows)"

definition read_failures :: "gcm_open \<Rightarrow> dest_row list \<Rightarrow> outbox_row list \<Rightarrow> (outbox_row \<times> string) list" where
  "read_failures gopen ds rows =
     List.map_filter (\<lambda>x. case x of Inl u \<Rightarrow> Some u | Inr _ \<Rightarrow> None) (map (readOutboxItem gopen ds) rows)"

lemma claim_parts:
  "ClaimDueOutbox gopen limit lease tok now db =
     (let p = picked_rows limit now db;
          (rows3, claimed) = lease_items (now + lease_length lease) tok 0 (read_items gopen (Dests db) p)
             (fold (bury_unreadable now) (read_failures gopen (Dests db) p) (due_rows now db))
      in (db\<lparr>Outbox := rows3\<rparr>, claimed))"
  by (simp add: ClaimDueOutbox_def Let_def picked_rows_def read_items_def read_failures_def)

lemma read_item_row:
  "readOutboxItem gopen ds r = Inr it \<Longrightarrow> ItemID it = OId r \<and> ItemDest it = ODest r \<and> ItemAttempts it = OAttempts r
     \<and> ItemFirst it = OFirst r \<and> ItemPayload it = OPayload r"
  by (auto simp: readOutboxItem_def Let_def split: option.splits)

lemma read_failure_row: "readOutboxItem gopen ds r = Inl u \<Longrightarrow> fst u = r"
  by (auto simp: readOutboxItem_def Let_def split: option.splits)

lemma read_items_iff: "it \<in> set (read_items gopen ds rows) \<longleftrightarrow> (\<exists>r \<in> set rows. readOutboxItem gopen ds r = Inr it)"
proof -
  have "(case x of Inl _ \<Rightarrow> None | Inr it \<Rightarrow> Some it) = Some it \<longleftrightarrow> x = Inr it"
    for x :: "(outbox_row \<times> string) + OutboxItem" by (cases x) auto
  then show ?thesis by (simp add: read_items_def set_map_filter image_iff) metis
qed

lemma read_failures_iff: "u \<in> set (read_failures gopen ds rows) \<longleftrightarrow> (\<exists>r \<in> set rows. readOutboxItem gopen ds r = Inl u)"
proof -
  have "(case x of Inl u \<Rightarrow> Some u | Inr _ \<Rightarrow> None) = Some u \<longleftrightarrow> x = Inl u"
    for x :: "(outbox_row \<times> string) + OutboxItem" by (cases x) auto
  then show ?thesis by (simp add: read_failures_def set_map_filter image_iff) metis
qed

text \<open>Rows of one destination are all readable or all not.\<close>

lemma read_same_dest:
  assumes "ODest p = ODest r" and "readOutboxItem gopen ds r = Inr it"
  shows "\<exists>it'. readOutboxItem gopen ds p = Inr it'"
  using assms by (auto simp: readOutboxItem_def dest_of_def Let_def split: option.splits)

lemma picked_claimable:
  "r \<in> set (picked_rows limit now db) \<Longrightarrow>
     r \<in> set (due_rows now db) \<and> claimable now (Dests db) (due_rows now db) r"
  unfolding picked_rows_def select_limit_def by (auto dest: in_set_takeD)

lemma claimable_pending: "claimable now ds rows r \<Longrightarrow> OStatus r = Pending"
  by (simp add: claimable_def split: option.splits)

lemma lease_items_claimed:
  "it' \<in> set (snd (lease_items until tok k its rows)) \<Longrightarrow>
     \<exists>it \<in> set its. \<exists>j. it' = leased_item until (tok j) it"
proof (induction its arbitrary: k rows)
  case (Cons it its)
  let ?p = "\<lambda>r. OId r = ItemID it \<and> OStatus r = Pending"
  have "it' = leased_item until (tok k) it
     \<or> it' \<in> set (snd (lease_items until tok (Suc k) its (update_where ?p (lease_row until (tok k)) rows)))"
    using Cons.prems by (auto simp: Let_def split: prod.splits if_splits)
  then show ?case using Cons.IH by auto
qed simp

lemma lease_items_no_pending:
  "i \<in> ItemID ` set its \<or> (\<forall>r \<in> set rows. OId r = i \<longrightarrow> OStatus r \<noteq> Pending) \<Longrightarrow>
     r' \<in> set (fst (lease_items until tok k its rows)) \<Longrightarrow> OId r' = i \<Longrightarrow> OStatus r' \<noteq> Pending"
proof (induction its arbitrary: k rows)
  case (Cons it its)
  let ?u = "update_where (\<lambda>r. OId r = ItemID it \<and> OStatus r = Pending) (lease_row until (tok k)) rows"
  have r: "r' \<in> set (fst (lease_items until tok (Suc k) its ?u))"
    using Cons.prems by (simp add: Let_def split: prod.splits)
  have "i \<in> ItemID ` set its \<or> (\<forall>r \<in> set ?u. OId r = i \<longrightarrow> OStatus r \<noteq> Pending)"
    using Cons.prems(1) by (auto simp: set_update_where lease_row_def)
  from Cons.IH [OF this r Cons.prems(3)] show ?case .
qed auto

subsection \<open>The queue as an instance of the contracts\<close>

datatype settle_action =
    SettleDelivered instant
  | SettleRetry instant string bool
  | SettleRelease
  | SettleRenew instant "duration option"

fun outbox_settle :: "settle_action \<Rightarrow> int \<Rightarrow> string \<Rightarrow> outbox_db \<Rightarrow> outbox_db \<times> bool" where
  "outbox_settle (SettleDelivered now) i t db = DeliveredClaimedResult now i t db"
| "outbox_settle (SettleRetry at msg dead) i t db = RetryClaimedResult at msg dead i t db"
| "outbox_settle SettleRelease i t db = ReleaseClaimed i t db"
| "outbox_settle (SettleRenew now lease) i t db = RenewClaimed now lease i t db"

lemmas settle_defs = DeliveredClaimedResult_def RetryClaimedResult_def ReleaseClaimed_def RenewClaimed_def

lemma unleasing_status:
  "(\<And>r. OId (f r) = OId r) \<Longrightarrow> (\<And>r. OStatus (f r) \<noteq> Processing) \<Longrightarrow> unleasing f"
  by (simp add: unleasing_def outbox_holds_def)

fun settle_fn :: "settle_action \<Rightarrow> outbox_row \<Rightarrow> outbox_row" where
  "settle_fn (SettleDelivered now) r = (unlease r)\<lparr>OStatus := Delivered, ODeliveredAt := Some now, OError := ''''\<rparr>"
| "settle_fn (SettleRetry at msg dead) r =
     (unlease r)\<lparr>OStatus := (if dead then Dead else Pending), ONext := at,
        OError := truncate_text (SafeDeliveryMessage msg) 500\<rparr>"
| "settle_fn SettleRelease r = (unlease r)\<lparr>OStatus := Pending, OAttempts := max (OAttempts r - 1) 0\<rparr>"
| "settle_fn (SettleRenew now lease) r = r\<lparr>OLeaseUntil := Some (now + lease_length lease)\<rparr>"

lemma settle_is_row: "outbox_settle s i t db = settle_row (settle_fn s) i t db"
  by (cases s) (simp_all add: settle_defs settle_row_def update_where_def)

lemma settle_unleasing: "unleasing (settle_fn s)"
  by (cases s) (auto simp: unleasing_def outbox_holds_def)

lemma settle_fenced_row:
  assumes "\<forall>r \<in> set (Outbox db). OId r = i \<longrightarrow> \<not> outbox_holds r t"
  shows "settle_row f i t db = (db, False)"
proof -
  have n: "\<forall>r \<in> set (Outbox db). \<not> owned i t r" using assms by (auto simp: owned_def outbox_holds_def)
  then have "update_where (owned i t) f (Outbox db) = Outbox db" by (rule update_where_none)
  moreover have "rows_affected (owned i t) (Outbox db) = 0" using n by (simp add: rows_affected_none)
  ultimately show ?thesis by (simp add: settle_row_def)
qed

lemma claim_origin:
  assumes "r' \<in> set (Outbox (fst (ClaimDueOutbox gopen limit lease tok now db)))" and "outbox_holds r' t"
  shows "t \<in> range tok \<or> (\<exists>r \<in> set (Outbox db). OId r = OId r' \<and> outbox_holds r t)"
proof -
  let ?p = "picked_rows limit now db"
  let ?rows2 = "fold (bury_unreadable now) (read_failures gopen (Dests db) ?p) (due_rows now db)"
  have "r' \<in> set (fst (lease_items (now + lease_length lease) tok 0 (read_items gopen (Dests db) ?p) ?rows2))"
    using assms(1) by (simp add: claim_parts Let_def split: prod.splits)
  from lease_items_row [OF this] show ?thesis
  proof
    assume "r' \<in> set ?rows2"
    from bury_row [OF this] assms(2) have "r' \<in> set (due_rows now db)" by (auto simp: outbox_holds_def)
    from due_row_origin [OF this] assms(2) show ?thesis by (auto simp: outbox_holds_def)
  next
    assume "\<exists>r \<in> set ?rows2. \<exists>j. OStatus r = Pending \<and> OId r \<in> ItemID ` set (read_items gopen (Dests db) ?p)
        \<and> r' = lease_row (now + lease_length lease) (tok j) r"
    with assms(2) show ?thesis by (auto simp: outbox_holds_def lease_row_def)
  qed
qed

lemma bury_destination_origin:
  "r' \<in> set (bury_destination why dest rows) \<Longrightarrow> outbox_holds r' t \<Longrightarrow> \<exists>r \<in> set rows. OId r = OId r' \<and> outbox_holds r t"
  unfolding bury_destination_def by (rule update_leases_nothing) (auto intro!: unleasing_status)

lemma outbox_lease_origin:
  assumes "r' \<in> set (Outbox (outbox_exec op db))" and "outbox_holds r' t"
  shows "t \<in> outbox_issued op \<or> (\<exists>r \<in> set (Outbox db). OId r = OId r' \<and> outbox_holds r t)"
proof -
  let ?old = "\<exists>r \<in> set (Outbox db). OId r = OId r' \<and> outbox_holds r t"
  have same: "r' \<in> set (Outbox db) \<Longrightarrow> ?old" using assms(2) by blast
  have upd: "unleasing f \<Longrightarrow> r' \<in> set (update_where p f (Outbox db)) \<Longrightarrow> ?old" for p f
    using update_leases_nothing assms(2) by blast
  have sett: "r' \<in> set (Outbox (fst (outbox_settle s i tk db))) \<Longrightarrow> ?old" for s i tk
    unfolding settle_is_row using settle_origin [OF settle_unleasing _ assms(2)] .
  have bury: "r' \<in> set (bury_destination why dest (Outbox db)) \<Longrightarrow> ?old" for why dest
    using bury_destination_origin assms(2) by blast
  show ?thesis
  proof (cases op)
    case (OpEnqueue pf pl now b)
    with assms show ?thesis by (auto simp: enqueueOutboxTx_def outbox_holds_def dest!: enqueue_rows)
  next
    case (OpClaim gopen limit lease tok now)
    with assms claim_origin show ?thesis by simp
  next
    case (OpDelivered now i tk)
    with assms(1) sett [of "SettleDelivered now" i tk] show ?thesis by simp
  next
    case (OpRetry at msg dead i tk)
    with assms(1) sett [of "SettleRetry at msg dead" i tk] show ?thesis by simp
  next
    case (OpRelease i tk)
    with assms(1) sett [of SettleRelease i tk] show ?thesis by simp
  next
    case (OpRenew now lease i tk)
    with assms(1) sett [of "SettleRenew now lease" i tk] show ?thesis by simp
  next
    case (OpRetryDead now dest)
    have u: "unleasing (\<lambda>r. (unlease r)\<lparr>OStatus := Pending, OAttempts := 0, OFirst := now, ONext := now,
                                  OError := '''', ODeliveredAt := None\<rparr>)" by (intro unleasing_status) simp_all
    from OpRetryDead assms(1) have "?old"
      by (auto simp: RetryDeadOutbox_def Let_def split: option.splits if_splits intro: same upd [OF u])
    then show ?thesis ..
  next
    case (OpSave gopen gseal nonce valid i n u on now)
    with assms(1) same bury show ?thesis
      by (auto simp: SaveDestination_def upsertDestinationTx_def insertDestinationTx_def Let_def
          split: option.splits if_splits sum.splits prod.splits)
  next
    case (OpEnable now dest on)
    with assms(1) same bury show ?thesis
      by (auto simp: SetDestinationEnabled_def Let_def split: option.splits if_splits)
  next
    case (OpDelete now dest)
    with assms(1) same bury show ?thesis
      by (auto simp: DeleteDestination_def Let_def split: option.splits if_splits)
  next
    case (OpIdentity now gen)
    have u: "unleasing (\<lambda>r. (unlease r)\<lparr>OStatus := Dead, ONext := now, OError := ''monitoring identity changed''\<rparr>)"
      by (intro unleasing_status) simp_all
    from OpIdentity assms(1) have "?old" by (auto simp: change_identity_def intro: upd [OF u])
    then show ?thesis ..
  next
    case (OpDeadLetter pick now)
    have u: "unleasing (retry_expired now)" by (intro unleasing_status) (simp_all add: retry_expired_def)
    from OpDeadLetter assms(1) have "?old" by (auto simp: cleanup_dead_letter_def intro: upd [OF u])
    then show ?thesis ..
  next
    case (OpFinished pick retention now)
    with assms(1) same show ?thesis by (auto simp: cleanup_finished_def)
  qed
qed

interpretation outbox: leased_queue Outbox OId outbox_holds outbox_exec outbox_issued
  by unfold_locales (rule outbox_lease_origin)

interpretation outbox: fenced_queue Outbox OId outbox_holds outbox_exec outbox_issued outbox_settle
proof unfold_locales
  fix db :: outbox_db and i t s
  assume "\<forall>r \<in> set (Outbox db). OId r = i \<longrightarrow> \<not> outbox_holds r t"
  then show "outbox_settle s i t db = (db, False)"
    unfolding settle_is_row by (rule settle_fenced_row)
qed

text \<open>What a claim returns and what it leaves alone.\<close>

definition outbox_claim :: "gcm_open \<times> int \<times> duration option \<times> (nat \<Rightarrow> string) \<Rightarrow> instant \<Rightarrow> outbox_db \<Rightarrow> outbox_db \<times> int list" where
  "outbox_claim c now db =
     (case c of (gopen, limit, lease, tok) \<Rightarrow>
        let (db', items) = ClaimDueOutbox gopen limit lease tok now db in (db', map ItemID items))"

lemma claim_rows:
  "Outbox (fst (ClaimDueOutbox gopen limit lease tok now db)) =
     fst (lease_items (now + lease_length lease) tok 0 (read_items gopen (Dests db) (picked_rows limit now db))
       (fold (bury_unreadable now) (read_failures gopen (Dests db) (picked_rows limit now db)) (due_rows now db)))"
  by (simp add: claim_parts Let_def split: prod.splits)

lemma claim_items:
  "snd (ClaimDueOutbox gopen limit lease tok now db) =
     snd (lease_items (now + lease_length lease) tok 0 (read_items gopen (Dests db) (picked_rows limit now db))
       (fold (bury_unreadable now) (read_failures gopen (Dests db) (picked_rows limit now db)) (due_rows now db)))"
  by (simp add: claim_parts Let_def split: prod.splits)

lemma claim_ids: "map OId (Outbox (fst (ClaimDueOutbox gopen limit lease tok now db))) = map OId (Outbox db)"
  by (simp add: claim_rows)

lemma lease_items_keeps:
  "r \<in> set rows \<Longrightarrow> OStatus r \<noteq> Pending \<Longrightarrow> r \<in> set (fst (lease_items until tok k its rows))"
proof (induction its arbitrary: k rows)
  case (Cons it its)
  let ?u = "update_where (\<lambda>r. OId r = ItemID it \<and> OStatus r = Pending) (lease_row until (tok k)) rows"
  have "r \<in> set ?u" using Cons.prems by (auto simp: set_update_where)
  from Cons.IH [OF this Cons.prems(2)] show ?case by (simp add: Let_def case_prod_beta)
qed simp

text \<open>The row behind a returned item.\<close>

lemma claimed_origin:
  assumes "it \<in> set (snd (ClaimDueOutbox gopen limit lease tok now db))"
  obtains r item j where "r \<in> set (picked_rows limit now db)" "readOutboxItem gopen (Dests db) r = Inr item"
    "it = leased_item (now + lease_length lease) (tok j) item" "ItemID it = OId r" "ItemDest it = ODest r"
proof -
  obtain item j where i: "item \<in> set (read_items gopen (Dests db) (picked_rows limit now db))"
      "it = leased_item (now + lease_length lease) (tok j) item"
    using lease_items_claimed [OF assms [unfolded claim_items]] by blast
  then obtain r where "r \<in> set (picked_rows limit now db)" "readOutboxItem gopen (Dests db) r = Inr item"
    by (auto simp: read_items_iff)
  with i read_item_row [of gopen "Dests db" r item] show thesis
    by (intro that [of r item j]) (simp_all add: leased_item_def)
qed

interpretation outbox: claimed_queue Outbox OId outbox_holds outbox_exec outbox_issued outbox_settle outbox_live outbox_claim
proof unfold_locales
  fix db :: outbox_db and c :: "gcm_open \<times> int \<times> duration option \<times> (nat \<Rightarrow> string)" and now :: instant
  obtain gopen limit lease tok where c: "c = (gopen, limit, lease, tok)" by (metis prod_cases4)
  have f: "fst (outbox_claim c now db) = fst (ClaimDueOutbox gopen limit lease tok now db)"
    and s: "snd (outbox_claim c now db) = map ItemID (snd (ClaimDueOutbox gopen limit lease tok now db))"
    by (simp_all add: outbox_claim_def c split: prod.splits)
  show "distinct (map OId (Outbox db)) \<Longrightarrow> distinct (map OId (Outbox (fst (outbox_claim c now db))))"
    by (simp add: f claim_ids)
  show "r \<in> set (Outbox (fst (outbox_claim c now db)))" if "r \<in> set (Outbox db)" "outbox_live now r" for r
  proof -
    have "OStatus r \<noteq> Pending" using that(2) by (simp add: outbox_live_def)
    moreover have "r \<in> set (due_rows now db)" using that by (rule due_rows_live)
    ultimately show ?thesis unfolding f claim_rows by (intro lease_items_keeps bury_keeps) simp_all
  qed
  show "\<exists>r \<in> set (Outbox db). OId r = i \<and> \<not> outbox_live now r" if "i \<in> set (snd (outbox_claim c now db))" for i
  proof -
    from that s obtain it where "it \<in> set (snd (ClaimDueOutbox gopen limit lease tok now db))" "i = ItemID it" by auto
    then obtain r where "r \<in> set (picked_rows limit now db)" "i = OId r" by (auto elim: claimed_origin)
    with picked_claimable claimable_pending have "r \<in> set (due_rows now db)" "OStatus r = Pending" by blast+
    with due_row_origin \<open>i = OId r\<close> show ?thesis by blast
  qed
qed

text \<open>Every item whose row is pending is leased, and its row carries the item's token.\<close>

lemma lease_items_exact:
  assumes "distinct (map OId rows)" and "distinct (map ItemID its)"
    and "\<forall>it \<in> set its. \<exists>r \<in> set rows. OId r = ItemID it \<and> OStatus r = Pending"
  shows "map ItemID (snd (lease_items until tok k its rows)) = map ItemID its
    \<and> (\<forall>it' \<in> set (snd (lease_items until tok k its rows)).
         \<exists>r \<in> set rows. OId r = ItemID it' \<and> OStatus r = Pending
           \<and> lease_row until (ItemLeaseToken it') r \<in> set (fst (lease_items until tok k its rows)))"
  using assms
proof (induction its arbitrary: k rows)
  case (Cons it its)
  let ?p = "\<lambda>r. OId r = ItemID it \<and> OStatus r = Pending"
  let ?u = "update_where ?p (lease_row until (tok k)) rows"
  obtain r where r: "r \<in> set rows" "?p r" using Cons.prems(3) by auto
  have one: "rows_affected ?p rows = 1"
    using rows_affected_distinct [OF Cons.prems(1), of ?p "ItemID it"] r by auto
  have ids: "map OId ?u = map OId rows" by (rule map_update_where) (simp add: lease_row_def)
  have pend: "q \<in> set ?u \<and> OStatus q = Pending \<longleftrightarrow> q \<in> set rows \<and> OStatus q = Pending \<and> OId q \<noteq> ItemID it" for q
    by (auto simp: set_update_where lease_row_def)
  have d: "distinct (map OId ?u)" using Cons.prems(1) ids by simp
  have its: "distinct (map ItemID its)" "ItemID it \<notin> ItemID ` set its" using Cons.prems(2) by auto
  have rest: "\<forall>it2 \<in> set its. \<exists>q \<in> set ?u. OId q = ItemID it2 \<and> OStatus q = Pending"
  proof
    fix it2 assume i2: "it2 \<in> set its"
    then obtain q where q: "q \<in> set rows" "OId q = ItemID it2" "OStatus q = Pending" using Cons.prems(3) by auto
    moreover have "OId q \<noteq> ItemID it" using q(2) i2 its(2) by force
    ultimately show "\<exists>q \<in> set ?u. OId q = ItemID it2 \<and> OStatus q = Pending" using pend by blast
  qed
  note IH = Cons.IH [OF d its(1) rest, of "Suc k"]
  have s: "snd (lease_items until tok k (it # its) rows) = leased_item until (tok k) it # snd (lease_items until tok (Suc k) its ?u)"
    and f: "fst (lease_items until tok k (it # its) rows) = fst (lease_items until tok (Suc k) its ?u)"
    using one by (simp_all add: Let_def case_prod_beta)
  have "lease_row until (tok k) r \<in> set ?u" using r by (auto simp: set_update_where)
  then have "lease_row until (tok k) r \<in> set (fst (lease_items until tok (Suc k) its ?u))"
    by (rule lease_items_keeps) (simp add: lease_row_def)
  moreover have "ItemLeaseToken (leased_item until (tok k) it) = tok k" "ItemID (leased_item until (tok k) it) = ItemID it"
    by (simp_all add: leased_item_def)
  moreover have "\<exists>q \<in> set rows. OId q = ItemID it' \<and> OStatus q = Pending
           \<and> lease_row until (ItemLeaseToken it') q \<in> set (fst (lease_items until tok (Suc k) its ?u))"
    if "it' \<in> set (snd (lease_items until tok (Suc k) its ?u))" for it'
    using IH that pend by blast
  ultimately show ?case unfolding s f using IH r by auto
qed simp

lemma read_items_ids: "map ItemID (read_items gopen ds rows) = map OId (filter (\<lambda>r. \<exists>it. readOutboxItem gopen ds r = Inr it) rows)"
  by (induction rows)
    (auto simp: read_items_def List.map_filter_def dest!: read_item_row split: sum.splits)

lemma picked_ids_distinct:
  assumes "distinct (map OId (Outbox db))"
  shows "distinct (map OId (picked_rows limit now db))"
proof -
  have "distinct (map OId (due_rows now db))" using assms by simp
  then show ?thesis unfolding picked_rows_def select_limit_def
    by (metis distinct_map_filter distinct_take take_map)
qed

text \<open>The table before the leases are written still holds every readable picked row.\<close>

lemma picked_survives:
  assumes "distinct (map OId (Outbox db))" and "it \<in> set (read_items gopen (Dests db) (picked_rows limit now db))"
  shows "\<exists>r \<in> set (fold (bury_unreadable now) (read_failures gopen (Dests db) (picked_rows limit now db)) (due_rows now db)).
     r \<in> set (picked_rows limit now db) \<and> readOutboxItem gopen (Dests db) r = Inr it \<and> OId r = ItemID it \<and> OStatus r = Pending"
proof -
  let ?p = "picked_rows limit now db"
  obtain r where r: "r \<in> set ?p" "readOutboxItem gopen (Dests db) r = Inr it"
    using assms(2) by (auto simp: read_items_iff)
  have "OId r \<notin> (OId \<circ> fst) ` set (read_failures gopen (Dests db) ?p)"
  proof
    assume "OId r \<in> (OId \<circ> fst) ` set (read_failures gopen (Dests db) ?p)"
    then obtain u q where "q \<in> set ?p" "readOutboxItem gopen (Dests db) q = Inl u" "OId (fst u) = OId r"
      by (auto simp: read_failures_iff)
    moreover from this have "fst u = q" by (simp add: read_failure_row)
    ultimately have "q = r"
      using picked_ids_distinct [OF assms(1)] r(1) by (metis inj_on_eq_iff distinct_map)
    with r(2) \<open>readOutboxItem gopen (Dests db) q = Inl u\<close> show False by simp
  qed
  with r picked_claimable [OF r(1)] have
    "r \<in> set (fold (bury_unreadable now) (read_failures gopen (Dests db) ?p) (due_rows now db))"
    by (intro bury_keeps) simp_all
  moreover have "OStatus r = Pending" using picked_claimable [OF r(1)] claimable_pending by blast
  ultimately show ?thesis using r read_item_row [OF r(2)] by metis
qed

lemma claim_exact:
  assumes "distinct (map OId (Outbox db))"
    and "ClaimDueOutbox gopen limit lease tok now db = (db', items)"
  shows "map ItemID items = map ItemID (read_items gopen (Dests db) (picked_rows limit now db))
    \<and> (\<forall>it \<in> set items. \<exists>r \<in> set (due_rows now db). OId r = ItemID it
          \<and> lease_row (now + lease_length lease) (ItemLeaseToken it) r \<in> set (Outbox db'))"
proof -
  let ?p = "picked_rows limit now db"
  let ?rows2 = "fold (bury_unreadable now) (read_failures gopen (Dests db) ?p) (due_rows now db)"
  have 1: "distinct (map OId ?rows2)" using assms(1) by simp
  have 2: "distinct (map ItemID (read_items gopen (Dests db) ?p))"
    unfolding read_items_ids using picked_ids_distinct [OF assms(1)] by (rule distinct_map_filter)
  have 3: "\<forall>it \<in> set (read_items gopen (Dests db) ?p). \<exists>r \<in> set ?rows2. OId r = ItemID it \<and> OStatus r = Pending"
    using picked_survives [OF assms(1)] by blast
  have r: "Outbox db' = fst (lease_items (now + lease_length lease) tok 0 (read_items gopen (Dests db) ?p) ?rows2)"
    "items = snd (lease_items (now + lease_length lease) tok 0 (read_items gopen (Dests db) ?p) ?rows2)"
    using claim_rows [of gopen limit lease tok now db] claim_items [of gopen limit lease tok now db] assms(2) by simp_all
  have old: "q \<in> set (due_rows now db)" if "q \<in> set ?rows2" "OStatus q = Pending" for q
    using bury_row [OF that(1)] that(2) by auto
  show ?thesis unfolding r
    using lease_items_exact [OF 1 2 3, of "now + lease_length lease" tok 0] old by blast
qed

subsection \<open>Properties\<close>

text \<open>
  C5. A worker that lost its lease cannot touch the row. Once the row of a notification is no
  longer leased under the worker's token (it was delivered, retried, released, reclaimed after
  the lease ran out, or its destination was disabled), no call of \<open>DeliveredClaimed\<close>,
  \<open>RetryClaimed\<close>, \<open>ReleaseClaimed\<close> or \<open>RenewClaimed\<close> with that token changes anything, whatever
  operations on the queue come between, as long as the random source does not repeat the token.
\<close>
theorem stale_worker_is_fenced:
  assumes "\<forall>r \<in> set (Outbox db). OId r = i \<longrightarrow> \<not> (OStatus r = Processing \<and> OLeaseToken r = t)"
    and "\<forall>op \<in> set ops. t \<notin> outbox_issued op"
  shows "outbox_settle s i t (fold outbox_exec ops db) = (fold outbox_exec ops db, False)"
proof (rule outbox.stale_worker [OF _ assms(2)])
  show "\<not> outbox.owns db i t" using assms(1) by (auto simp: outbox.owns_def outbox_holds_def)
qed

text \<open>
  Two workers never hold one notification: while the lease of a row runs, a claim by
  anyone leaves the row as it is and does not return it.
\<close>
theorem claim_is_exclusive:
  assumes "distinct (map OId (Outbox db))" and "r \<in> set (Outbox db)"
    and "OStatus r = Processing" and "OLeaseUntil r = Some u" and "now < u"
    and "ClaimDueOutbox gopen limit lease tok now db = (db', items)"
  shows "r \<in> set (Outbox db') \<and> OId r \<notin> ItemID ` set items"
proof -
  have l: "outbox_live now r" using assms(3-5) by (simp add: outbox_live_def outbox_lease_over_def)
  have c: "outbox_claim (gopen, limit, lease, tok) now db = (db', map ItemID items)"
    using assms(6) by (simp add: outbox_claim_def)
  show ?thesis
    using outbox.claim_spares_live [OF assms(2) l, of "(gopen, limit, lease, tok)"]
      outbox.claim_excludes_live [OF assms(1,2) l, of "(gopen, limit, lease, tok)"]
    unfolding c by simp
qed

text \<open>A prefix of the matching rows of a table ordered by id is closed under smaller ids.\<close>

lemma select_limit_closed:
  assumes "sorted_wrt (<) (map OId rows)" and "r \<in> set (select_limit n p rows)"
    and "q \<in> set rows" and "p q" and "OId q < OId r"
  shows "q \<in> set (select_limit n p rows)"
proof -
  let ?f = "filter p rows"
  have s: "sorted_wrt (\<lambda>a b. OId a < OId b) ?f"
    using assms(1) by (simp add: sorted_wrt_map sorted_wrt_filter)
  obtain i where i: "i < n" "i < length ?f" "r = ?f ! i"
    using assms(2) by (auto simp: select_limit_def in_set_conv_nth)
  have "q \<in> set ?f" using assms(3,4) by simp
  then obtain j where j: "j < length ?f" "q = ?f ! j" by (metis in_set_conv_nth)
  have "j < i"
  proof (rule ccontr)
    assume "\<not> j < i"
    then consider "i = j" | "i < j" by linarith
    then show False
    proof cases
      case 2
      then have "OId r < OId q" using sorted_wrt_nth_less [OF s 2 j(1)] i j by simp
      with assms(5) show False by simp
    qed (use assms(5) i j in simp)
  qed
  then have "q = take n ?f ! j" "j < length (take n ?f)" using i j by simp_all
  then show ?thesis unfolding select_limit_def by (metis nth_mem)
qed

lemma claim_order:
  assumes "sorted_wrt (<) (map OId (Outbox db))"
    and "ClaimDueOutbox gopen limit lease tok now db = (db', items)"
    and "it \<in> set items" and "p \<in> set (Outbox db')" and "ODest p = ItemDest it" and "OId p < ItemID it"
  shows "OStatus p = Delivered \<or> OStatus p = Dead \<or> OId p \<in> ItemID ` set items"
proof (rule ccontr)
  assume contra: "\<not> ?thesis"
  have dist: "distinct (map OId (Outbox db))" using assms(1) by (simp add: strict_sorted_iff)
  have eq: "items = snd (ClaimDueOutbox gopen limit lease tok now db)" "db' = fst (ClaimDueOutbox gopen limit lease tok now db)"
    using assms(2) by simp_all
  obtain r item j where r: "r \<in> set (picked_rows limit now db)" "readOutboxItem gopen (Dests db) r = Inr item"
      "ItemID it = OId r" "ItemDest it = ODest r"
    using claimed_origin [OF assms(3) [unfolded eq]] by metis
  have ids: "map ItemID items = map ItemID (read_items gopen (Dests db) (picked_rows limit now db))"
    using claim_exact [OF dist assms(2)] by blast
  have "p \<in> set (fst (lease_items (now + lease_length lease) tok 0 (read_items gopen (Dests db) (picked_rows limit now db))
       (fold (bury_unreadable now) (read_failures gopen (Dests db) (picked_rows limit now db)) (due_rows now db))))"
    using assms(4) by (simp add: eq claim_rows)
  from lease_items_row [OF this]
  have "p \<in> set (fold (bury_unreadable now) (read_failures gopen (Dests db) (picked_rows limit now db)) (due_rows now db))"
  proof
    assume "\<exists>q \<in> set (fold (bury_unreadable now) (read_failures gopen (Dests db) (picked_rows limit now db)) (due_rows now db)).
      \<exists>j. OStatus q = Pending \<and> OId q \<in> ItemID ` set (read_items gopen (Dests db) (picked_rows limit now db))
          \<and> p = lease_row (now + lease_length lease) (tok j) q"
    then have "OId p \<in> ItemID ` set (read_items gopen (Dests db) (picked_rows limit now db))"
      by (auto simp: lease_row_def)
    with ids contra show ?thesis by (metis list.set_map)
  qed
  from bury_row [OF this] contra have p: "p \<in> set (due_rows now db)" by auto
  have older: "ODest p = ODest r" "OId p < OId r" using assms(5,6) r(3,4) by simp_all
  note cr = picked_claimable [OF r(1)]
  have "\<not> holds_back now r p" using cr p by (auto simp: claimable_def list_ex_iff split: option.splits)
  with older contra have due: "OStatus p = Pending" "ONext p \<le> now"
    by (cases "OStatus p"; simp add: holds_back_def)+
  have "\<not> holds_back now p q" if "q \<in> set (due_rows now db)" for q
  proof
    assume "holds_back now p q"
    then have "holds_back now r q" using older by (auto simp: holds_back_def)
    with cr that show False by (auto simp: claimable_def list_ex_iff split: option.splits)
  qed
  then have "claimable now (Dests db) (due_rows now db) p"
    using cr due older by (auto simp: claimable_def dest_of_def list_ex_iff split: option.splits)
  then have "p \<in> set (picked_rows limit now db)"
    using select_limit_closed [of "due_rows now db" r "claim_limit limit" "claimable now (Dests db) (due_rows now db)" p]
      assms(1) r(1) p older(2) unfolding picked_rows_def by simp
  moreover obtain item' where "readOutboxItem gopen (Dests db) p = Inr item'"
    using read_same_dest [OF older(1) r(2)] by blast
  ultimately have "OId p \<in> ItemID ` set (read_items gopen (Dests db) (picked_rows limit now db))"
    using read_item_row by (force simp: read_items_iff)
  with ids contra show False by (metis list.set_map)
qed

text \<open>
  Each destination gets its notifications oldest first. When a claim returns a notification,
  every older notification of the same destination is finished (delivered or dead) or is
  returned by this very claim, where it comes first; none is pending or in flight elsewhere.
\<close>
theorem claim_keeps_order:
  assumes "sorted_wrt (<) (map OId (Outbox db))"
    and "ClaimDueOutbox gopen limit lease tok now db = (db', items)"
    and "it \<in> set items" and "p \<in> set (Outbox db')" and "ODest p = ItemDest it" and "OId p < ItemID it"
  shows "OStatus p = Delivered \<or> OStatus p = Dead \<or> OId p \<in> ItemID ` set items"
  using assms by (rule claim_order)

text \<open>
  What may be sent. A claimed notification was pending and due, was first attempted less
  than 24 hours ago, belongs to a destination that is enabled and not removed and whose service
  URL decrypts; the attempt is counted once, and the row is leased under the item's token for
  the whole lease.
\<close>
theorem claim_is_safe:
  assumes "distinct (map OId (Outbox db))"
    and "ClaimDueOutbox gopen limit lease tok now db = (db', items)" and "it \<in> set items"
  shows "\<exists>r d r'. r \<in> set (due_rows now db) \<and> OId r = ItemID it \<and> OStatus r = Pending \<and> ONext r \<le> now
      \<and> now - 24 * hour < OFirst r
      \<and> dest_of (Dests db) r = Some d \<and> DestEnabled d \<and> DestDeleted d = None
      \<and> (DestURLEnc d = '''' \<or> open_url gopen (DestID d) (DestURLEnc d) = Some (ItemURL it))
      \<and> ItemPayload it = OPayload r \<and> ItemAttempts it = OAttempts r + 1
      \<and> r' \<in> set (Outbox db') \<and> OId r' = ItemID it \<and> OStatus r' = Processing
      \<and> OLeaseToken r' = ItemLeaseToken it \<and> OLeaseUntil r' = Some (now + lease_length lease)"
proof -
  have eq: "items = snd (ClaimDueOutbox gopen limit lease tok now db)" using assms(2) by simp
  obtain r item j where r: "r \<in> set (picked_rows limit now db)" "readOutboxItem gopen (Dests db) r = Inr item"
      "it = leased_item (now + lease_length lease) (tok j) item" "ItemID it = OId r"
    using claimed_origin [OF assms(3) [unfolded eq]] by metis
  note c = picked_claimable [OF r(1)]
  then obtain d where d: "dest_of (Dests db) r = Some d" "DestEnabled d" "DestDeleted d = None" "OStatus r = Pending" "ONext r \<le> now"
    by (auto simp: claimable_def split: option.splits)
  have id: "DestID d = ODest r" using d(1) by (auto simp: dest_of_def find_Some_iff)
  have url: "DestURLEnc d = '''' \<or> open_url gopen (DestID d) (DestURLEnc d) = Some (ItemURL it)"
    using r(2,3) d(1) id by (auto simp: readOutboxItem_def leased_item_def Let_def split: option.splits if_splits)
  have pay: "ItemPayload it = OPayload r" "ItemAttempts it = OAttempts r + 1"
    using read_item_row [OF r(2)] r(3) by (simp_all add: leased_item_def)
  have win: "now - 24 * hour < OFirst r"
  proof -
    obtain q where q: "q \<in> set (expire_leases now (Outbox db))"
        "r = (if OStatus q = Pending \<and> OFirst q \<le> now - outboxRetryWindow then retry_expired now q else q)"
      using c unfolding expire_window_row by blast
    with d(4) show ?thesis by (auto simp: retry_expired_def outboxRetryWindow_def split: if_splits)
  qed
  obtain q where q: "OId q = ItemID it" "lease_row (now + lease_length lease) (ItemLeaseToken it) q \<in> set (Outbox db')"
    using claim_exact [OF assms(1,2)] assms(3) by blast
  show ?thesis
    by (rule exI [of _ r], rule exI [of _ d], rule exI [of _ "lease_row (now + lease_length lease) (ItemLeaseToken it) q"])
      (use c d url pay win q r(4) in \<open>simp add: lease_row_def\<close>)
qed

subsection \<open>The life of a row\<close>

text \<open>
  The state machine of one notification: what any operation may do to a row. Whether a dead
  letter may be retried depends on the generations in the database.
\<close>

inductive row_step :: "outbox_db \<Rightarrow> outbox_row \<Rightarrow> outbox_row \<Rightarrow> bool" for db where
  lease_runs_out: "OStatus r = Processing \<Longrightarrow> outbox_lease_over now r \<Longrightarrow> row_step db r ((unlease r)\<lparr>OStatus := Pending\<rparr>)"
| window_ends: "OStatus r = Pending \<or> (OStatus r = Processing \<and> outbox_lease_over now r)
    \<Longrightarrow> OFirst r \<le> now - outboxRetryWindow \<Longrightarrow> row_step db r (retry_expired now r)"
| url_unreadable: "OStatus r = Pending \<Longrightarrow> row_step db r ((unlease r)\<lparr>OStatus := Dead, ONext := now, OError := why\<rparr>)"
| leased: "OStatus r = Pending \<Longrightarrow> row_step db r (lease_row until token r)"
| settled: "OStatus r = Processing \<Longrightarrow> row_step db r (settle_fn s r)"
| destination_off: "OStatus r = Pending \<or> OStatus r = Processing \<Longrightarrow> row_step db r ((unlease r)\<lparr>OStatus := Dead, OError := why\<rparr>)"
| identity_changed: "OStatus r = Pending \<or> OStatus r = Processing
    \<Longrightarrow> row_step db r ((unlease r)\<lparr>OStatus := Dead, ONext := now, OError := ''monitoring identity changed''\<rparr>)"
| dead_retried: "retryableDeadOutbox db r \<Longrightarrow>
    row_step db r ((unlease r)\<lparr>OStatus := Pending, OAttempts := 0, OFirst := now, ONext := now, OError := '''', ODeliveredAt := None\<rparr>)"

inductive_cases row_step_cases: "row_step db r r'"

lemma row_step_keeps: "row_step db r r' \<Longrightarrow> OId r' = OId r \<and> OBatch r' = OBatch r \<and> ODest r' = ODest r"
proof (induction rule: row_step.induct)
  case (settled r s)
  then show ?case by (cases s) (simp_all add: unlease_def)
qed (simp_all add: unlease_def retry_expired_def lease_row_def)

lemma row_step_not_delivered: "row_step db r r' \<Longrightarrow> OStatus r \<noteq> Delivered"
  by (induction rule: row_step.induct) (auto simp: retryableDeadOutbox_def)

text \<open>One table leads to another when every row of the second is reached from a row of the first.\<close>

definition leads_to :: "outbox_db \<Rightarrow> outbox_row list \<Rightarrow> outbox_row list \<Rightarrow> bool" where
  "leads_to db rows rows' \<longleftrightarrow> (\<forall>r' \<in> set rows'. \<exists>r \<in> set rows. (row_step db)\<^sup>*\<^sup>* r r')"

lemma leads_to_refl [simp]: "leads_to db rows rows"
  by (auto simp: leads_to_def)

lemma leads_to_trans: "leads_to db a b \<Longrightarrow> leads_to db b c \<Longrightarrow> leads_to db a c"
  unfolding leads_to_def by (meson rtranclp_trans)

lemma leads_to_update:
  assumes "\<And>r. p r \<Longrightarrow> row_step db r (f r)"
  shows "leads_to db rows (update_where p f rows)"
  unfolding leads_to_def
proof
  fix r' assume "r' \<in> set (update_where p f rows)"
  then obtain r where "r \<in> set rows" "(p r \<and> r' = f r) \<or> r' = r" unfolding set_update_where by blast
  then have "r \<in> set rows \<and> (row_step db)\<^sup>*\<^sup>* r r'" using assms by auto
  then show "\<exists>r \<in> set rows. (row_step db)\<^sup>*\<^sup>* r r'" by (intro bexI [of _ r]) simp_all
qed

lemma leads_to_expire_leases: "leads_to db rows (expire_leases now rows)"
  unfolding expire_leases_def by (rule leads_to_update) (auto intro: row_step.intros)

lemma leads_to_expire_window: "leads_to db rows (expire_window now rows)"
  unfolding expire_window_def by (rule leads_to_update) (auto intro: row_step.intros)

lemma leads_to_bury: "leads_to db rows (fold (bury_unreadable now) us rows)"
proof (induction us arbitrary: rows)
  case (Cons u us)
  have "leads_to db rows (bury_unreadable now u rows)"
    unfolding bury_unreadable_def by (rule leads_to_update) (auto intro: row_step.intros)
  then show ?case using Cons leads_to_trans by force
qed simp

lemma leads_to_lease: "leads_to db rows (fst (lease_items until tok k its rows))"
proof (induction its arbitrary: k rows)
  case (Cons it its)
  let ?u = "update_where (\<lambda>r. OId r = ItemID it \<and> OStatus r = Pending) (lease_row until (tok k)) rows"
  have "leads_to db rows ?u" by (rule leads_to_update) (auto intro: row_step.intros)
  from leads_to_trans [OF this Cons] show ?case by (simp add: Let_def case_prod_beta)
qed simp

lemma leads_to_claim: "leads_to db (Outbox db) (Outbox (fst (ClaimDueOutbox gopen limit lease tok now db)))"
  unfolding claim_rows
  by (rule leads_to_trans [OF leads_to_trans [OF leads_to_trans [OF leads_to_expire_leases leads_to_expire_window]
        leads_to_bury] leads_to_lease])

lemma leads_to_settle: "leads_to db (Outbox db) (Outbox (fst (outbox_settle s i t db)))"
  unfolding settle_is_row settle_row_def
  by (auto simp: owned_def intro!: leads_to_update row_step.intros)

lemma leads_to_bury_destination: "leads_to db rows (bury_destination why dest rows)"
  unfolding bury_destination_def by (rule leads_to_update) (auto intro: row_step.destination_off)

fun is_enqueue :: "outbox_op \<Rightarrow> bool" where
  "is_enqueue (OpEnqueue _ _ _ _) = True"
| "is_enqueue _ = False"

lemma exec_leads_to:
  assumes "\<not> is_enqueue op"
  shows "leads_to db (Outbox db) (Outbox (outbox_exec op db))"
proof (cases op)
  case (OpClaim gopen limit lease tok now)
  then show ?thesis using leads_to_claim by simp
next
  case (OpDelivered now i tk)
  then show ?thesis using leads_to_settle [of db "SettleDelivered now"] by simp
next
  case (OpRetry at msg dead i tk)
  then show ?thesis using leads_to_settle [of db "SettleRetry at msg dead"] by simp
next
  case (OpRelease i tk)
  then show ?thesis using leads_to_settle [of db SettleRelease] by simp
next
  case (OpRenew now lease i tk)
  then show ?thesis using leads_to_settle [of db "SettleRenew now lease"] by simp
next
  case (OpRetryDead now dest)
  then show ?thesis
    by (auto simp: RetryDeadOutbox_def Let_def split: option.splits intro!: leads_to_update row_step.dead_retried)
next
  case (OpSave gopen gseal nonce valid i n u on now)
  then show ?thesis
    by (auto simp: SaveDestination_def upsertDestinationTx_def insertDestinationTx_def Let_def leads_to_bury_destination
        split: option.splits sum.splits)
next
  case (OpEnable now dest on)
  then show ?thesis by (auto simp: SetDestinationEnabled_def Let_def leads_to_bury_destination)
next
  case (OpDelete now dest)
  then show ?thesis by (auto simp: DeleteDestination_def Let_def leads_to_bury_destination)
next
  case (OpIdentity now gen)
  then show ?thesis by (auto simp: change_identity_def intro!: leads_to_update row_step.identity_changed)
next
  case (OpDeadLetter pick now)
  then show ?thesis by (auto simp: cleanup_dead_letter_def intro!: leads_to_update row_step.window_ends)
next
  case (OpFinished pick retention now)
  then show ?thesis by (auto simp: cleanup_finished_def leads_to_def)
qed (use assms in simp)

lemma enqueued_rows:
  "Outbox (fold (insert_outbox b pf pl now) ds db) =
     Outbox db @ map (\<lambda>(k, d). new_outbox_row (NextOutboxID db + int k) b (DestID d) pf pl now) (enumerate 0 ds)
   \<and> NextOutboxID (fold (insert_outbox b pf pl now) ds db) = NextOutboxID db + int (length ds)"
proof (induction ds arbitrary: db rule: rev_induct)
  case (snoc d ds)
  then show ?case by (simp add: insert_outbox_def enumerate_append_eq)
qed simp

lemma insert_ids:
  "map OId (map (\<lambda>(k, d). new_outbox_row (n + int k) b (DestID d) pf pl now) (enumerate j ds)) = map (\<lambda>k. n + int k) [j..<j + length ds]"
proof (induction ds arbitrary: j)
  case (Cons d ds)
  have "[j..<j + length (d # ds)] = j # [Suc j..<Suc j + length ds]" by (simp add: upt_rec)
  with Cons [of "Suc j"] show ?case by (simp add: new_outbox_row_def del: upt_Suc)
qed simp

lemma settle_ids [simp]: "map OId (Outbox (fst (outbox_settle s i t db))) = map OId (Outbox db)"
proof -
  have "OId (settle_fn s r) = OId r" for r using settle_unleasing [of s] by (simp add: unleasing_def)
  then show ?thesis unfolding settle_is_row settle_row_def by (auto intro!: map_update_where)
qed

lemma bury_destination_ids [simp]: "map OId (bury_destination why dest rows) = map OId rows"
  unfolding bury_destination_def by (rule map_update_where) simp

lemma settle_next [simp]: "NextOutboxID (fst (outbox_settle s i t db)) = NextOutboxID db"
  by (simp add: settle_is_row settle_row_def)

text \<open>An operation other than queueing keeps the ids of the rows, or those of the rows it leaves.\<close>

lemma exec_ids:
  assumes "\<not> is_enqueue op"
  shows "(\<exists>q. map OId (Outbox (outbox_exec op db)) = map OId (filter q (Outbox db)))
     \<and> NextOutboxID (outbox_exec op db) = NextOutboxID db"
proof -
  have all: "map OId rows' = map OId (Outbox db) \<Longrightarrow> \<exists>q. map OId rows' = map OId (filter q (Outbox db))" for rows' :: "outbox_row list"
    by (intro exI [of _ "\<lambda>_. True"]) simp
  show ?thesis
  proof (cases op)
    case (OpClaim gopen limit lease tok now)
    moreover have "NextOutboxID (fst (ClaimDueOutbox gopen limit lease tok now db)) = NextOutboxID db"
      by (simp add: claim_parts Let_def case_prod_beta)
    ultimately show ?thesis using all claim_ids by simp
  next
    case (OpDelivered now i tk)
    then show ?thesis using all settle_ids [of "SettleDelivered now" i tk] settle_next [of "SettleDelivered now" i tk] by simp
  next
    case (OpRetry at msg dead i tk)
    then show ?thesis using all settle_ids [of "SettleRetry at msg dead" i tk] settle_next [of "SettleRetry at msg dead" i tk] by simp
  next
    case (OpRelease i tk)
    then show ?thesis using all settle_ids [of SettleRelease i tk] settle_next [of SettleRelease i tk] by simp
  next
    case (OpRenew now lease i tk)
    then show ?thesis using all settle_ids [of "SettleRenew now lease" i tk] settle_next [of "SettleRenew now lease" i tk] by simp
  next
    case (OpRetryDead now dest)
    then show ?thesis
      by (auto simp: RetryDeadOutbox_def Let_def split: option.splits intro!: all map_update_where)
  next
    case (OpSave gopen gseal nonce valid i n u on now)
    then show ?thesis
      by (auto simp: SaveDestination_def upsertDestinationTx_def insertDestinationTx_def Let_def
          split: option.splits sum.splits intro!: all)
  next
    case (OpEnable now dest on)
    then show ?thesis by (auto simp: SetDestinationEnabled_def Let_def intro!: all)
  next
    case (OpDelete now dest)
    then show ?thesis by (auto simp: DeleteDestination_def Let_def intro!: all)
  next
    case (OpIdentity now gen)
    then show ?thesis by (auto simp: change_identity_def intro!: all map_update_where)
  next
    case (OpDeadLetter pick now)
    then show ?thesis by (auto simp: cleanup_dead_letter_def retry_expired_def intro!: all map_update_where)
  next
    case (OpFinished pick retention now)
    then show ?thesis by (auto simp: cleanup_finished_def)
  qed (use assms in simp)
qed

subsection \<open>Well-formed queues\<close>

definition row_ok :: "outbox_row \<Rightarrow> bool" where
  "row_ok r \<longleftrightarrow>
     0 \<le> OAttempts r \<and> (OStatus r = Processing \<longleftrightarrow> OLeaseUntil r \<noteq> None)
     \<and> (OStatus r \<noteq> Processing \<longrightarrow> OLeaseToken r = '''')"

definition outbox_wf :: "outbox_db \<Rightarrow> bool" where
  "outbox_wf db \<longleftrightarrow>
     sorted_wrt (<) (map OId (Outbox db)) \<and> list_all (\<lambda>r. OId r < NextOutboxID db \<and> row_ok r) (Outbox db)"

lemma row_step_ok: "row_step db r r' \<Longrightarrow> row_ok r \<Longrightarrow> row_ok r'"
proof (induction rule: row_step.induct)
  case (settled r s)
  then show ?case by (cases s) (auto simp: row_ok_def)
qed (auto simp: row_ok_def retry_expired_def lease_row_def)

lemma row_steps_keep:
  "(row_step db)\<^sup>*\<^sup>* r r' \<Longrightarrow> OId r' = OId r \<and> OBatch r' = OBatch r \<and> (row_ok r \<longrightarrow> row_ok r')"
  by (induction rule: rtranclp_induct) (auto dest: row_step_keeps row_step_ok)

lemma enqueue_wf:
  assumes "outbox_wf db"
  shows "outbox_wf (fold (insert_outbox b pf pl now) ds db)"
  using assms
proof (induction ds arbitrary: db)
  case (Cons d ds)
  have "outbox_wf (insert_outbox b pf pl now d db)"
    using Cons.prems
    by (auto simp: outbox_wf_def insert_outbox_def new_outbox_row_def row_ok_def sorted_wrt_append list_all_iff)
  with Cons.IH show ?case by simp
qed simp

lemma exec_wf:
  assumes "outbox_wf db"
  shows "outbox_wf (outbox_exec op db)"
proof (cases "is_enqueue op")
  case True
  then obtain pf pl now b where "op = OpEnqueue pf pl now b" by (cases op) simp_all
  then show ?thesis using enqueue_wf [OF assms] by (simp add: enqueueOutboxTx_def)
next
  case False
  obtain q where q: "map OId (Outbox (outbox_exec op db)) = map OId (filter q (Outbox db))"
      "NextOutboxID (outbox_exec op db) = NextOutboxID db"
    using exec_ids [OF False] by blast
  have "sorted_wrt (<) (map OId (Outbox (outbox_exec op db)))"
    using assms unfolding q(1) by (simp add: outbox_wf_def sorted_wrt_map sorted_wrt_filter)
  moreover have "OId r' < NextOutboxID db \<and> row_ok r'" if "r' \<in> set (Outbox (outbox_exec op db))" for r'
  proof -
    obtain r where "r \<in> set (Outbox db)" "(row_step db)\<^sup>*\<^sup>* r r'"
      using exec_leads_to [OF False] \<open>r' \<in> _\<close> unfolding leads_to_def by blast
    with assms row_steps_keep show ?thesis by (fastforce simp: outbox_wf_def list_all_iff)
  qed
  ultimately show ?thesis unfolding outbox_wf_def q(2) list_all_iff by blast
qed

lemma fold_wf: "outbox_wf db \<Longrightarrow> outbox_wf (fold outbox_exec ops db)"
  by (induction ops arbitrary: db) (simp_all add: exec_wf)

lemma next_id_grows: "NextOutboxID db \<le> NextOutboxID (outbox_exec op db)"
proof (cases "is_enqueue op")
  case True
  then obtain pf pl now b where "op = OpEnqueue pf pl now b" by (cases op) simp_all
  then show ?thesis by (simp add: enqueueOutboxTx_def enqueued_rows)
next
  case False
  from exec_ids [OF this, of db] show ?thesis by simp
qed

text \<open>An id below the next one that no row has is never given to a row again.\<close>

lemma gone_once:
  assumes "\<forall>q \<in> set (Outbox db). OId q \<noteq> i" and "i < NextOutboxID db" and "q \<in> set (Outbox (outbox_exec op db))"
  shows "OId q \<noteq> i"
proof (cases "is_enqueue op")
  case True
  then obtain pf pl now b where "op = OpEnqueue pf pl now b" by (cases op) simp_all
  with assms show ?thesis by (auto simp: enqueueOutboxTx_def enqueued_rows new_outbox_row_def)
next
  case False
  obtain q0 where "q0 \<in> set (Outbox db)" "(row_step db)\<^sup>*\<^sup>* q0 q"
    using exec_leads_to [OF False] assms(3) unfolding leads_to_def by blast
  with assms(1) row_steps_keep show ?thesis by metis
qed

lemma gone_stays_gone:
  "\<forall>q \<in> set (Outbox db). OId q \<noteq> i \<Longrightarrow> i < NextOutboxID db \<Longrightarrow>
     \<forall>q \<in> set (Outbox (fold outbox_exec ops db)). OId q \<noteq> i"
proof (induction ops arbitrary: db)
  case (Cons op ops)
  have "\<forall>q \<in> set (Outbox (outbox_exec op db)). OId q \<noteq> i" using gone_once [OF Cons.prems] by blast
  moreover have "i < NextOutboxID (outbox_exec op db)" using Cons.prems(2) next_id_grows [of db op] by simp
  ultimately show ?case using Cons.IH by simp
qed simp

lemma wf_unique:
  assumes "outbox_wf db" and "r \<in> set (Outbox db)" and "r' \<in> set (Outbox db)" and "OId r' = OId r"
  shows "r' = r"
proof -
  have "distinct (map OId (Outbox db))" using assms(1) by (simp add: outbox_wf_def strict_sorted_iff)
  then show ?thesis using assms(2-4) by (auto simp: distinct_map inj_on_def)
qed

lemma delivered_once:
  assumes "outbox_wf db" and "r \<in> set (Outbox db)" and "OStatus r = Delivered"
    and "r' \<in> set (Outbox (outbox_exec op db))" and "OId r' = OId r"
  shows "r' = r"
proof (cases "is_enqueue op")
  case True
  then obtain pf pl now b where op: "op = OpEnqueue pf pl now b" by (cases op) simp_all
  have w: "outbox_wf (outbox_exec op db)" using exec_wf [OF assms(1)] .
  have "r \<in> set (Outbox (outbox_exec op db))"
    using assms(2) by (simp add: op enqueueOutboxTx_def enqueued_rows)
  from wf_unique [OF w this assms(4,5)] show ?thesis .
next
  case False
  obtain q where q: "q \<in> set (Outbox db)" "(row_step db)\<^sup>*\<^sup>* q r'"
    using exec_leads_to [OF False] assms(4) unfolding leads_to_def by blast
  have "OId q = OId r" using row_steps_keep [OF q(2)] assms(5) by simp
  then have "q = r" by (rule wf_unique [OF assms(1,2) q(1)])
  with q(2) assms(3) show ?thesis
    by (metis converse_rtranclpE row_step_not_delivered)
qed


text \<open>
  Delivered is final. Once a notification is marked delivered, whatever operations follow,
  the row with its id is that row, unchanged, or gone with the retention: it is never leased,
  retried or dead-lettered again.
\<close>
theorem delivered_is_final:
  assumes "outbox_wf db" and "r \<in> set (Outbox db)" and "OStatus r = Delivered"
    and "r' \<in> set (Outbox (fold outbox_exec ops db))" and "OId r' = OId r"
  shows "r' = r"
  using assms
proof (induction ops arbitrary: db)
  case Nil
  then show ?case using wf_unique by simp
next
  case (Cons op ops)
  let ?db = "outbox_exec op db"
  have w: "outbox_wf ?db" using Cons.prems(1) by (rule exec_wf)
  show ?case
  proof (cases "r \<in> set (Outbox ?db)")
    case True
    then show ?thesis using Cons.IH [OF w] Cons.prems by simp
  next
    case False
    have gone: "\<forall>q \<in> set (Outbox ?db). OId q \<noteq> OId r"
      using delivered_once [OF Cons.prems(1-3)] False by blast
    moreover have "OId r < NextOutboxID ?db"
      using Cons.prems(1,2) next_id_grows [of db op] by (auto simp: outbox_wf_def list_all_iff)
    ultimately have "\<forall>q \<in> set (Outbox (fold outbox_exec ops ?db)). OId q \<noteq> OId r"
      by (rule gone_stays_gone)
    then show ?thesis using Cons.prems(4,5) by simp
  qed
qed

subsection \<open>Notifications of another identity\<close>

definition old_generation :: "outbox_db \<Rightarrow> int \<Rightarrow> outbox_row \<Rightarrow> bool" where
  "old_generation db g r \<longleftrightarrow>
     (case OBatch r of None \<Rightarrow> False
      | Some b \<Rightarrow> list_ex (\<lambda>(eb, gen). eb = b \<and> gen \<noteq> g) (BatchGeneration db))"

definition in_play :: "outbox_row \<Rightarrow> bool" where
  "in_play r \<longleftrightarrow> OStatus r = Pending \<or> OStatus r = Processing"

definition quarantined :: "int \<Rightarrow> outbox_db \<Rightarrow> bool" where
  "quarantined g db \<longleftrightarrow> Generation db = Some g \<and> (\<forall>r \<in> set (Outbox db). old_generation db g r \<longrightarrow> \<not> in_play r)"

lemma old_row_stuck: "row_step db r r' \<Longrightarrow> Generation db = Some g \<Longrightarrow> old_generation db g r \<Longrightarrow> in_play r"
  by (induction rule: row_step.induct)
    (auto simp: in_play_def retryableDeadOutbox_def old_generation_def split: option.splits)

lemma settle_generation [simp]:
  "Generation (fst (outbox_settle s i t db)) = Generation db"
  "BatchGeneration (fst (outbox_settle s i t db)) = BatchGeneration db"
  by (simp_all add: settle_is_row settle_row_def)

lemma insert_generation [simp]:
  "Generation (fold (insert_outbox b pf pl now) ds db) = Generation db"
  "BatchGeneration (fold (insert_outbox b pf pl now) ds db) = BatchGeneration db"
  by (induction ds arbitrary: db) (simp_all add: insert_outbox_def)

text \<open>The operations that may follow a change of identity: no further change, and no
  notification queued for a batch of an older generation.\<close>

fun same_identity :: "outbox_db \<Rightarrow> int \<Rightarrow> outbox_op \<Rightarrow> bool" where
  "same_identity db g (OpIdentity _ _) = False"
| "same_identity db g (OpEnqueue _ _ _ b) = (\<not> list_ex (\<lambda>(eb, gen). eb = b \<and> gen \<noteq> g) (BatchGeneration db))"
| "same_identity db g _ = True"

lemma exec_generation:
  assumes "same_identity db g op"
  shows "Generation (outbox_exec op db) = Generation db \<and> BatchGeneration (outbox_exec op db) = BatchGeneration db"
proof (cases op)
  case (OpEnqueue pf pl now b)
  then show ?thesis by (simp add: enqueueOutboxTx_def)
next
  case (OpClaim gopen limit lease tok now)
  then show ?thesis by (simp add: claim_parts Let_def case_prod_beta)
next
  case (OpDelivered now i tk)
  then show ?thesis using settle_generation [of "SettleDelivered now" i tk db] by simp
next
  case (OpRetry at msg dead i tk)
  then show ?thesis using settle_generation [of "SettleRetry at msg dead" i tk db] by simp
next
  case (OpRelease i tk)
  then show ?thesis using settle_generation [of SettleRelease i tk db] by simp
next
  case (OpRenew now lease i tk)
  then show ?thesis using settle_generation [of "SettleRenew now lease" i tk db] by simp
next
  case (OpRetryDead now dest)
  then show ?thesis by (auto simp: RetryDeadOutbox_def Let_def split: option.splits)
next
  case (OpSave gopen gseal nonce valid i n u on now)
  then show ?thesis
    by (auto simp: SaveDestination_def upsertDestinationTx_def insertDestinationTx_def Let_def
        split: option.splits sum.splits)
next
  case (OpEnable now dest on)
  then show ?thesis by (auto simp: SetDestinationEnabled_def Let_def)
next
  case (OpDelete now dest)
  then show ?thesis by (auto simp: DeleteDestination_def Let_def)
next
  case (OpDeadLetter pick now)
  then show ?thesis by (simp add: cleanup_dead_letter_def)
next
  case (OpFinished pick retention now)
  then show ?thesis by (simp add: cleanup_finished_def)
qed (use assms in simp)

lemma enqueue_quarantined:
  assumes "same_identity db g (OpEnqueue pf pl now b)" and "r \<in> set (Outbox (outbox_exec (OpEnqueue pf pl now b) db))"
    and "old_generation db g r"
  shows "r \<in> set (Outbox db)"
  using assms
  by (auto simp: enqueueOutboxTx_def enqueued_rows new_outbox_row_def old_generation_def list_ex_iff split: if_splits)

lemma exec_quarantined:
  assumes "same_identity db g op" and "quarantined g db"
  shows "quarantined g (outbox_exec op db)"
proof -
  have "\<not> in_play r'" if r': "r' \<in> set (Outbox (outbox_exec op db))" "old_generation db g r'" for r'
  proof (cases "is_enqueue op")
    case True
    then obtain pf pl now b where "op = OpEnqueue pf pl now b" by (cases op) simp_all
    with enqueue_quarantined assms r' show ?thesis unfolding quarantined_def by blast
  next
    case False
    obtain r where r: "r \<in> set (Outbox db)" "(row_step db)\<^sup>*\<^sup>* r r'"
      using exec_leads_to [OF False] r'(1) unfolding leads_to_def by blast
    have "old_generation db g r" using row_steps_keep [OF r(2)] r'(2) by (simp add: old_generation_def)
    with assms(2) r(1) have stuck: "\<not> row_step db r q" for q
      using old_row_stuck unfolding quarantined_def by blast
    have "r' = r" using r(2) stuck by (metis converse_rtranclpE)
    with assms(2) r(1) r'(2) show ?thesis unfolding quarantined_def by blast
  qed
  moreover have "old_generation (outbox_exec op db) g r \<longleftrightarrow> old_generation db g r" for r
    using exec_generation [OF assms(1)] by (simp add: old_generation_def split: option.split)
  moreover have "Generation (outbox_exec op db) = Some g"
    using exec_generation [OF assms(1)] assms(2) by (simp add: quarantined_def)
  ultimately show ?thesis unfolding quarantined_def by blast
qed

lemma change_identity_quarantines: "quarantined g (change_identity now g db)"
  by (auto simp: quarantined_def change_identity_def old_generation_def in_play_def set_update_where
      split: option.splits)


subsection \<open>The properties at a concrete database\<close>

definition sample_dest :: dest_row where
  "sample_dest = \<lparr> DestID = 1, DestName = ''ops'', DestURLEnc = '''', DestEnabled = True, DestCreated = 0,
     DestUpdated = 0, DestDeleted = None, DestFormat = '''' \<rparr>"

definition sample_db :: outbox_db where
  "sample_db = EnqueueSystem ''second'' 20 (EnqueueSystem ''first'' 10
     \<lparr> Dests = [sample_dest], NextDestID = 2, Outbox = [], NextOutboxID = 1, BatchGeneration = [], Generation = Some 1 \<rparr>)"

definition sample_tok :: "nat \<Rightarrow> string" where
  "sample_tok k = (if k = 0 then ''aa'' else ''bb'')"

definition sample_claim :: "outbox_db \<times> OutboxItem list" where
  "sample_claim = ClaimDueOutbox (\<lambda>_ _ _. None) 10 None sample_tok 100 sample_db"

lemma sample_claimed:
  "map ItemID (snd sample_claim) = [1, 2]"
  "map OId (Outbox (fst sample_claim)) = [1, 2]"
  "map ODest (Outbox (fst sample_claim)) = [1, 1]" "map ItemDest (snd sample_claim) = [1, 1]"
  "map OLeaseToken (Outbox (fst sample_claim)) = [''aa'', ''bb'']"
  "map OStatus (Outbox (fst sample_claim)) = [Processing, Processing]"
  by code_simp+

lemma sample_result: "ClaimDueOutbox (\<lambda>_ _ _. None) 10 None sample_tok 100 sample_db = (fst sample_claim, snd sample_claim)"
  by (simp add: sample_claim_def)

lemma sample_ids: "map OId (Outbox sample_db) = [1, 2]"
  by code_simp

lemma sample_split:
  obtains p1 p2 i1 i2 where "Outbox (fst sample_claim) = [p1, p2]" "snd sample_claim = [i1, i2]"
    "OId p1 = 1" "OId p2 = 2" "ItemID i1 = 1" "ItemID i2 = 2" "ODest p1 = 1" "ItemDest i2 = 1"
    "OStatus p1 = Processing" "OLeaseToken p1 = ''aa''" "OLeaseToken p2 = ''bb''"
proof -
  obtain p1 p2 where p: "Outbox (fst sample_claim) = [p1, p2]"
    using sample_claimed(2) by (auto simp: map_eq_Cons_conv)
  obtain i1 i2 where i: "snd sample_claim = [i1, i2]"
    using sample_claimed(1) by (auto simp: map_eq_Cons_conv)
  show thesis using sample_claimed p i by (intro that [of p1 p2 i1 i2]) simp_all
qed

theorem claim_keeps_order_witness:
  "1 \<in> ItemID ` set (snd sample_claim) \<and> 2 \<in> ItemID ` set (snd sample_claim)"
proof (rule sample_split)
  fix p1 p2 i1 i2
  assume a: "Outbox (fst sample_claim) = [p1, p2]" "snd sample_claim = [i1, i2]"
    "OId p1 = 1" "OId p2 = 2" "ItemID i1 = 1" "ItemID i2 = 2" "ODest p1 = 1" "ItemDest i2 = 1"
    "OStatus p1 = Processing" "OLeaseToken p1 = ''aa''" "OLeaseToken p2 = ''bb''"
  have "OStatus p1 = Delivered \<or> OStatus p1 = Dead \<or> OId p1 \<in> ItemID ` set (snd sample_claim)"
    by (rule claim_keeps_order [OF _ sample_result, of i2 p1]) (simp_all add: a sample_ids)
  then show ?thesis using a by simp
qed

theorem claim_is_safe_witness:
  "\<exists>r' \<in> set (Outbox (fst sample_claim)). OId r' = 2 \<and> OStatus r' = Processing"
proof (rule sample_split)
  fix p1 p2 i1 i2
  assume a: "Outbox (fst sample_claim) = [p1, p2]" "snd sample_claim = [i1, i2]"
    "OId p1 = 1" "OId p2 = 2" "ItemID i1 = 1" "ItemID i2 = 2" "ODest p1 = 1" "ItemDest i2 = 1"
    "OStatus p1 = Processing" "OLeaseToken p1 = ''aa''" "OLeaseToken p2 = ''bb''"
  have d: "distinct (map OId (Outbox sample_db))" by (simp add: sample_ids)
  have m: "i2 \<in> set (snd sample_claim)" by (simp add: a)
  from claim_is_safe [OF d sample_result m] show ?thesis unfolding a(6) by blast
qed

theorem stale_worker_is_fenced_witness:
  "outbox_settle (SettleDelivered 7) 1 ''zz'' (fold outbox_exec [OpDelivered 120 1 ''aa'', OpEnable 130 1 False] (fst sample_claim))
     = (fold outbox_exec [OpDelivered 120 1 ''aa'', OpEnable 130 1 False] (fst sample_claim), False)"
proof (rule sample_split)
  fix p1 p2 i1 i2
  assume a: "Outbox (fst sample_claim) = [p1, p2]" "snd sample_claim = [i1, i2]"
    "OId p1 = 1" "OId p2 = 2" "ItemID i1 = 1" "ItemID i2 = 2" "ODest p1 = 1" "ItemDest i2 = 1"
    "OStatus p1 = Processing" "OLeaseToken p1 = ''aa''" "OLeaseToken p2 = ''bb''"
  show ?thesis by (rule stale_worker_is_fenced) (simp_all add: a)
qed

theorem claim_is_exclusive_witness:
  "1 \<notin> ItemID ` set (snd (ClaimDueOutbox (\<lambda>_ _ _. None) 10 None (\<lambda>_. ''cc'') 200 (fst sample_claim)))"
proof (rule sample_split)
  fix p1 p2 i1 i2
  assume a: "Outbox (fst sample_claim) = [p1, p2]" "snd sample_claim = [i1, i2]"
    "OId p1 = 1" "OId p2 = 2" "ItemID i1 = 1" "ItemID i2 = 2" "ODest p1 = 1" "ItemDest i2 = 1"
    "OStatus p1 = Processing" "OLeaseToken p1 = ''aa''" "OLeaseToken p2 = ''bb''"
  have "map OLeaseUntil (Outbox (fst sample_claim)) = [Some (100 + outboxLease), Some (100 + outboxLease)]"
    by code_simp
  then have l: "OLeaseUntil p1 = Some (100 + outboxLease)" by (simp add: a)
  have "p1 \<in> set (Outbox (fst (ClaimDueOutbox (\<lambda>_ _ _. None) 10 None (\<lambda>_. ''cc'') 200 (fst sample_claim))))
     \<and> OId p1 \<notin> ItemID ` set (snd (ClaimDueOutbox (\<lambda>_ _ _. None) 10 None (\<lambda>_. ''cc'') 200 (fst sample_claim)))"
    by (rule claim_is_exclusive [OF _ _ _ l _ surjective_pairing])
      (simp_all add: a outboxLease_def duration_defs)
  then show ?thesis by (simp add: a)
qed

lemma sample_claim_wf: "outbox_wf (fst sample_claim)"
proof -
  have "list_all (\<lambda>r. OId r < NextOutboxID (fst sample_claim) \<and> row_ok r) (Outbox (fst sample_claim))" by code_simp
  moreover have "sorted_wrt (<) (map OId (Outbox (fst sample_claim)))" using sample_claimed(2) by simp
  ultimately show ?thesis by (simp add: outbox_wf_def)
qed


definition delivered_db :: outbox_db where
  "delivered_db = fst (DeliveredClaimedResult 110 1 ''aa'' (fst sample_claim))"

theorem delivered_is_final_witness:
  "hd (Outbox (fold outbox_exec [OpRetryDead 120 1, OpDelete 130 1] delivered_db)) = hd (Outbox delivered_db)"
proof (rule delivered_is_final)
  have "outbox_wf (outbox_exec (OpDelivered 110 1 ''aa'') (fst sample_claim))"
    using sample_claim_wf by (rule exec_wf)
  then show "outbox_wf delivered_db" by (simp add: delivered_db_def)
  have l: "length (Outbox delivered_db) = 2" "length (Outbox (fold outbox_exec [OpRetryDead 120 1, OpDelete 130 1] delivered_db)) = 2"
    by code_simp+
  then show "hd (Outbox delivered_db) \<in> set (Outbox delivered_db)"
    "hd (Outbox (fold outbox_exec [OpRetryDead 120 1, OpDelete 130 1] delivered_db)) \<in>
       set (Outbox (fold outbox_exec [OpRetryDead 120 1, OpDelete 130 1] delivered_db))"
    by (metis hd_in_set length_0_conv zero_neq_numeral)+
  show "OStatus (hd (Outbox delivered_db)) = Delivered"
    "OId (hd (Outbox (fold outbox_exec [OpRetryDead 120 1, OpDelete 130 1] delivered_db))) = OId (hd (Outbox delivered_db))"
    by code_simp+
qed

definition switch_db :: outbox_db where
  "switch_db = enqueueOutboxTx ''markdown'' ''change'' 30 5
     \<lparr> Dests = [sample_dest], NextDestID = 2, Outbox = [], NextOutboxID = 1, BatchGeneration = [(5, 1)], Generation = Some 1 \<rparr>"


end
