(* ===== verification/Store_Webhooks.thy ===== *)
theory Store_Webhooks
  imports Webhook Secret Notify_Reasons Leased_Queue
begin

text \<open>
  The durable queue of webhook triggers: \<open>internal/store/webhooks.go\<close> and the statements of
  \<open>internal/store/status.go\<close> that clean it up.

  The database holds the rows of \<open>webhook_triggers\<close> in the order of their ids and the column
  \<open>webhook_secret_enc\<close> of the settings row (\<open>None\<close> before the setup, a NULL read as the empty
  text). The metadata of a row are the JSON texts of the columns, so a damaged row is a value of
  the model; times are instants. An operation that fails is \<open>Inl\<close> and leaves the database as it
  was. The clock and the random lease tokens are arguments.
\<close>

datatype trigger_status = TrigPending | TrigProcessing | TrigProcessed | TrigDead

record trigger_row =
  TId :: int
  TBodyHash :: string
  TReceived :: instant
  TEventsJSON :: string
  TCollectorsJSON :: string
  TStatus :: trigger_status
  TAttempts :: int
  TNext :: instant
  TLeaseUntil :: "instant option"
  TLeaseToken :: string
  TError :: string
  TProcessedAt :: "instant option"

record webhook_db =
  Triggers :: "trigger_row list"
  NextTriggerID :: int
  WebhookSecretEnc :: "string option"

record WebhookTrigger =
  TrigID :: int
  TrigHash :: string
  TrigReceived :: instant
  TrigEvents :: "string list"
  TrigCollectors :: "string list"
  TrigStatus :: trigger_status
  TrigAttempts :: int
  TrigNext :: instant
  TrigLeaseUntil :: "instant option"
  TrigToken :: string
  TrigError :: string
  TrigProcessedAt :: "instant option"

definition sha256HexLength :: nat where "sha256HexLength = 64"
definition maxWebhookEventTypes :: nat where "maxWebhookEventTypes = 100"
definition maxWebhookCollectors :: nat where "maxWebhookCollectors = 32"
definition maxWebhookMetadataValueSize :: nat where "maxWebhookMetadataValueSize = 128"
definition maxWebhookMetadataJSONBytes :: nat where "maxWebhookMetadataJSONBytes = 16 * 1024"

definition webhookTriggerRetryWindow :: duration where "webhookTriggerRetryWindow = 24 * hour"
definition webhookTriggerLease :: duration where "webhookTriggerLease = 2 * minute"
definition webhookTriggerBatchSize :: int where "webhookTriggerBatchSize = 8"

datatype webhook_store_error =
    InvalidBodyHash
  | InvalidMetadataValue
  | MetadataTooLarge
  | MetadataJSONSize
  | MetadataNotArray
  | MetadataUndecodable
  | MetadataTooMany
  | NoRows
  | SecretUnreadable secret_error

subsection \<open>The secret and the status\<close>

definition settingsBinding :: "string \<Rightarrow> string" where
  "settingsBinding column = ''settings.'' @ column @ '':1''"

definition WebhookSecret :: "gcm_open \<Rightarrow> webhook_db \<Rightarrow> webhook_store_error + string" where
  "WebhookSecret gopen db =
     (case WebhookSecretEnc db of
        None \<Rightarrow> Inl NoRows
      | Some encrypted \<Rightarrow>
          if encrypted = '''' then Inr ''''
          else
            (case Open gopen (settingsBinding ''webhook_secret_enc'') encrypted of
               Inl e \<Rightarrow> Inl (SecretUnreadable e)
             | Inr secret \<Rightarrow> Inr secret))"

record WebhookState =
  WhEnabled :: bool
  WhLastAccepted :: "instant option"

definition WebhookStatus :: "webhook_db \<Rightarrow> WebhookState" where
  "WebhookStatus db =
     \<lparr> WhEnabled = (case WebhookSecretEnc db of None \<Rightarrow> False | Some encrypted \<Rightarrow> encrypted \<noteq> ''''),
       WhLastAccepted = (if Triggers db = [] then None else Some (TReceived (last (Triggers db)))) \<rparr>"

subsection \<open>Metadata\<close>

definition sortedUnique :: "string list \<Rightarrow> string list" where
  "sortedUnique vs = sorted_uniq (filter (\<lambda>v. v \<noteq> '''') (map trim_space vs))"

definition uniquePositiveIDs :: "int list \<Rightarrow> int list" where
  "uniquePositiveIDs vs = sorted_uniq (filter (\<lambda>v. 0 < v) vs)"

definition metadata_value_ok :: "string \<Rightarrow> bool" where
  "metadata_value_ok v \<longleftrightarrow> length v \<le> maxWebhookMetadataValueSize \<and> \<not> has_control v"

text \<open>\<open>json.Unmarshal\<close> of one element into a Go \<open>string\<close>: a null leaves it empty.\<close>

definition element_text :: "json \<Rightarrow> string option" where
  "element_text v = (case v of JStr s \<Rightarrow> Some s | JNull \<Rightarrow> Some '''' | _ \<Rightarrow> None)"

definition decode_strings :: "string \<Rightarrow> string list option" where
  "decode_strings raw = (case unmarshal raw of Some (JArr xs) \<Rightarrow> those (map element_text xs) | _ \<Rightarrow> None)"

definition decodeWebhookMetadata :: "string \<Rightarrow> nat \<Rightarrow> webhook_store_error + string list" where
  "decodeWebhookMetadata raw maxValues =
     (let trimmed = trim_space raw
      in if trimmed = '''' \<or> maxWebhookMetadataJSONBytes < length trimmed then Inl MetadataJSONSize
         else if hd trimmed \<noteq> CHR ''['' then Inl MetadataNotArray
         else
           (case decode_strings trimmed of
              None \<Rightarrow> Inl MetadataUndecodable
            | Some vs \<Rightarrow>
                if list_ex (\<lambda>v. \<not> metadata_value_ok v) vs then Inl InvalidMetadataValue
                else if maxValues < length (sortedUnique vs) then Inl MetadataTooMany
                else Inr (sortedUnique vs)))"

definition readWebhookTrigger :: "trigger_row \<Rightarrow> webhook_store_error + WebhookTrigger" where
  "readWebhookTrigger r =
     (case decodeWebhookMetadata (TEventsJSON r) maxWebhookEventTypes of
        Inl e \<Rightarrow> Inl e
      | Inr events \<Rightarrow>
          (case decodeWebhookMetadata (TCollectorsJSON r) maxWebhookCollectors of
             Inl e \<Rightarrow> Inl e
           | Inr collectors \<Rightarrow>
               Inr \<lparr> TrigID = TId r, TrigHash = TBodyHash r, TrigReceived = TReceived r,
                     TrigEvents = events, TrigCollectors = collectors, TrigStatus = TStatus r,
                     TrigAttempts = TAttempts r, TrigNext = TNext r, TrigLeaseUntil = TLeaseUntil r,
                     TrigToken = TLeaseToken r,
                     TrigError = (if trim_space (TError r) = '''' then TError r
                                  else SafeDeliveryMessage (TError r)),
                     TrigProcessedAt = TProcessedAt r \<rparr>))"

subsection \<open>Recording a verified delivery\<close>

definition new_trigger :: "int \<Rightarrow> string \<Rightarrow> string list \<Rightarrow> string list \<Rightarrow> instant \<Rightarrow> trigger_row" where
  "new_trigger i bodyHash events collectors now =
     \<lparr> TId = i, TBodyHash = bodyHash, TReceived = now,
       TEventsJSON = marshal (JArr (map JStr events)),
       TCollectorsJSON = marshal (JArr (map JStr collectors)),
       TStatus = TrigPending, TAttempts = 0, TNext = now, TLeaseUntil = None, TLeaseToken = '''',
       TError = '''', TProcessedAt = None \<rparr>"

definition has_hash :: "string \<Rightarrow> trigger_row \<Rightarrow> bool" where
  "has_hash h r \<longleftrightarrow> TBodyHash r = h"

text \<open>\<open>INSERT ... ON CONFLICT(body_hash) DO NOTHING\<close>\<close>

definition insert_trigger :: "string \<Rightarrow> string list \<Rightarrow> string list \<Rightarrow> instant \<Rightarrow> webhook_db \<Rightarrow> webhook_db" where
  "insert_trigger bodyHash events collectors now db =
     (if list_ex (has_hash bodyHash) (Triggers db) then db
      else db\<lparr>Triggers := Triggers db @ [new_trigger (NextTriggerID db) bodyHash events collectors now],
              NextTriggerID := NextTriggerID db + 1\<rparr>)"

definition RecordWebhookTrigger ::
  "string \<Rightarrow> string list \<Rightarrow> string list \<Rightarrow> instant \<Rightarrow> webhook_db
     \<Rightarrow> webhook_store_error + (webhook_db \<times> WebhookTrigger \<times> bool)" where
  "RecordWebhookTrigger bodyHash0 events0 collectors0 now db =
     (let bodyHash = trim_space bodyHash0
      in if length bodyHash \<noteq> sha256HexLength then Inl InvalidBodyHash
         else if hex_decode bodyHash = None then Inl InvalidBodyHash
         else if list_ex (\<lambda>v. \<not> metadata_value_ok v) (events0 @ collectors0) then Inl InvalidMetadataValue
         else
           (let events = sortedUnique events0; collectors = sortedUnique collectors0
            in if maxWebhookEventTypes < length events \<or> maxWebhookCollectors < length collectors
               then Inl MetadataTooLarge
               else
                 (let created = \<not> list_ex (has_hash bodyHash) (Triggers db);
                      db' = insert_trigger bodyHash events collectors now db
                  in case List.find (has_hash bodyHash) (Triggers db') of
                       None \<Rightarrow> Inl NoRows
                     | Some r \<Rightarrow>
                         (case readWebhookTrigger r of
                            Inl e \<Rightarrow> Inl e
                          | Inr trigger \<Rightarrow> Inr (db', trigger, created)))))"

subsection \<open>Claiming\<close>

definition trigger_lease_over :: "instant \<Rightarrow> trigger_row \<Rightarrow> bool" where
  "trigger_lease_over now r \<longleftrightarrow> (case TLeaseUntil r of None \<Rightarrow> True | Some u \<Rightarrow> u \<le> now)"

definition drop_lease :: "trigger_row \<Rightarrow> trigger_row" where
  "drop_lease r = r\<lparr>TLeaseUntil := None, TLeaseToken := ''''\<rparr>"

definition windowExpired :: string where
  "windowExpired = ''reconciliation retry window expired''"

text \<open>The two statements every claim starts with: leases that ran out end, and triggers older than
  the retry window are given up. \<open>among\<close> is the restriction of the statement to some ids.\<close>

definition requeue_expired :: "(trigger_row \<Rightarrow> bool) \<Rightarrow> instant \<Rightarrow> trigger_row list \<Rightarrow> trigger_row list" where
  "requeue_expired among now rows =
     update_where (\<lambda>r. among r \<and> TStatus r = TrigProcessing \<and> trigger_lease_over now r)
       (\<lambda>r. (drop_lease r)\<lparr>TStatus := TrigPending\<rparr>) rows"

definition give_up_old :: "(trigger_row \<Rightarrow> bool) \<Rightarrow> instant \<Rightarrow> trigger_row list \<Rightarrow> trigger_row list" where
  "give_up_old among now rows =
     update_where (\<lambda>r. among r \<and> (TStatus r = TrigPending \<or> TStatus r = TrigProcessing)
         \<and> TReceived r \<le> now - webhookTriggerRetryWindow
         \<and> (TStatus r = TrigPending \<or> trigger_lease_over now r))
       (\<lambda>r. (drop_lease r)\<lparr>TStatus := TrigDead, TError := windowExpired\<rparr>) rows"

definition due_triggers :: "(trigger_row \<Rightarrow> bool) \<Rightarrow> instant \<Rightarrow> trigger_row list \<Rightarrow> trigger_row list" where
  "due_triggers among now rows = give_up_old among now (requeue_expired among now rows)"

definition trigger_due :: "instant \<Rightarrow> trigger_row \<Rightarrow> bool" where
  "trigger_due now r \<longleftrightarrow> TStatus r = TrigPending \<and> TNext r \<le> now"

definition lease_trigger :: "instant \<Rightarrow> string \<Rightarrow> trigger_row \<Rightarrow> trigger_row" where
  "lease_trigger until token r =
     r\<lparr>TStatus := TrigProcessing, TAttempts := TAttempts r + 1, TLeaseUntil := Some until,
       TLeaseToken := token\<rparr>"

definition trigger_lease_length :: "duration \<Rightarrow> duration" where
  "trigger_lease_length lease = (if lease < second then webhookTriggerLease else lease)"

definition has_id :: "int \<Rightarrow> trigger_row \<Rightarrow> bool" where
  "has_id i r \<longleftrightarrow> TId r = i"

definition ClaimWebhookTrigger ::
  "int \<Rightarrow> duration \<Rightarrow> string \<Rightarrow> instant \<Rightarrow> webhook_db
     \<Rightarrow> webhook_store_error + (webhook_db \<times> WebhookTrigger option)" where
  "ClaimWebhookTrigger i lease token now db =
     (if i \<le> 0 then Inr (db, None)
      else
        (let rows = due_triggers (has_id i) now (Triggers db);
             p = (\<lambda>r. TId r = i \<and> trigger_due now r);
             leased = update_where p (lease_trigger (now + trigger_lease_length lease) token) rows
         in if rows_affected p rows = 0 then Inr (db\<lparr>Triggers := leased\<rparr>, None)
            else
              (case List.find (has_id i) leased of
                 None \<Rightarrow> Inl NoRows
               | Some r \<Rightarrow>
                   (case readWebhookTrigger r of
                      Inl e \<Rightarrow> Inl e
                    | Inr trigger \<Rightarrow>
                        Inr (db\<lparr>Triggers := leased\<rparr>,
                             Some (trigger\<lparr>TrigStatus := TrigProcessing, TrigToken := token\<rparr>))))))"

text \<open>The loop over the rows of the batch, and the one that leases them under the \<open>k\<close>-th token.\<close>

fun read_triggers :: "trigger_row list \<Rightarrow> webhook_store_error + WebhookTrigger list" where
  "read_triggers [] = Inr []"
| "read_triggers (r # rs) =
     (case readWebhookTrigger r of
        Inl e \<Rightarrow> Inl e
      | Inr trigger \<Rightarrow>
          (case read_triggers rs of Inl e \<Rightarrow> Inl e | Inr triggers \<Rightarrow> Inr (trigger # triggers)))"

definition leased_trigger :: "instant \<Rightarrow> string \<Rightarrow> WebhookTrigger \<Rightarrow> WebhookTrigger" where
  "leased_trigger until token trigger =
     trigger\<lparr>TrigStatus := TrigProcessing, TrigToken := token, TrigAttempts := TrigAttempts trigger + 1,
       TrigLeaseUntil := Some until\<rparr>"

fun lease_triggers :: "instant \<Rightarrow> (nat \<Rightarrow> string) \<Rightarrow> nat \<Rightarrow> WebhookTrigger list \<Rightarrow> trigger_row list
    \<Rightarrow> trigger_row list \<times> WebhookTrigger list" where
  "lease_triggers until tok k [] rows = (rows, [])"
| "lease_triggers until tok k (trigger # triggers) rows =
     (let p = (\<lambda>r. TId r = TrigID trigger \<and> TStatus r = TrigPending);
          (final, claimed) =
             lease_triggers until tok (Suc k) triggers (update_where p (lease_trigger until (tok k)) rows)
      in (final, leased_trigger until (tok k) trigger # claimed))"

definition trigger_limit :: "int \<Rightarrow> nat" where
  "trigger_limit limit = nat (min 64 (if limit \<le> 0 then webhookTriggerBatchSize else limit))"

definition ClaimWebhookTriggers ::
  "int \<Rightarrow> duration \<Rightarrow> (nat \<Rightarrow> string) \<Rightarrow> instant \<Rightarrow> webhook_db
     \<Rightarrow> webhook_store_error + (webhook_db \<times> WebhookTrigger list)" where
  "ClaimWebhookTriggers limit lease tok now db =
     (let rows = due_triggers (\<lambda>_. True) now (Triggers db)
      in case read_triggers (select_limit (trigger_limit limit) (trigger_due now) rows) of
           Inl e \<Rightarrow> Inl e
         | Inr triggers \<Rightarrow>
             (let (leased, claimed) =
                    lease_triggers (now + trigger_lease_length lease) tok 0 triggers rows
              in Inr (db\<lparr>Triggers := leased\<rparr>, claimed)))"

definition HasDueWebhookTriggers :: "instant \<Rightarrow> webhook_db \<Rightarrow> bool" where
  "HasDueWebhookTriggers now db \<longleftrightarrow>
     list_ex (\<lambda>r. (TStatus r = TrigPending
                    \<and> (TNext r \<le> now \<or> TReceived r \<le> now - webhookTriggerRetryWindow))
                \<or> (TStatus r = TrigProcessing \<and> trigger_lease_over now r)) (Triggers db)"

subsection \<open>Settling claims\<close>

fun valid_claims_from :: "int set \<Rightarrow> (int \<times> string) list \<Rightarrow> (int \<times> string) list" where
  "valid_claims_from seen [] = []"
| "valid_claims_from seen ((i, token) # claims) =
     (if i \<le> 0 \<or> trim_space token = '''' then valid_claims_from seen claims
      else if i \<in> seen then valid_claims_from seen claims
      else (i, token) # valid_claims_from (insert i seen) claims)"

definition validWebhookClaims :: "(int \<times> string) list \<Rightarrow> (int \<times> string) list" where
  "validWebhookClaims claims = valid_claims_from {} claims"

definition trigger_owned :: "int \<Rightarrow> string \<Rightarrow> trigger_row \<Rightarrow> bool" where
  "trigger_owned i token r \<longleftrightarrow> TId r = i \<and> TStatus r = TrigProcessing \<and> TLeaseToken r = token"

definition complete_claim :: "instant \<Rightarrow> int \<times> string \<Rightarrow> trigger_row list \<Rightarrow> trigger_row list" where
  "complete_claim now c rows =
     update_where (trigger_owned (fst c) (snd c))
       (\<lambda>r. (drop_lease r)\<lparr>TStatus := TrigProcessed, TProcessedAt := Some now, TError := ''''\<rparr>) rows"

definition CompleteClaimedWebhookTriggers :: "instant \<Rightarrow> (int \<times> string) list \<Rightarrow> webhook_db \<Rightarrow> webhook_db" where
  "CompleteClaimedWebhookTriggers now claims db =
     db\<lparr>Triggers := fold (complete_claim now) (validWebhookClaims claims) (Triggers db)\<rparr>"

definition retry_message :: "string \<Rightarrow> string" where
  "retry_message message0 =
     (let message = truncate_text (trim_space message0) 500
      in if message = '''' then '''' else SafeDeliveryMessage message)"

definition retry_claim :: "instant \<Rightarrow> instant \<Rightarrow> string \<Rightarrow> int \<times> string \<Rightarrow> trigger_row list \<Rightarrow> trigger_row list" where
  "retry_claim now next_attempt message c rows =
     (case List.find (has_id (fst c)) rows of
        None \<Rightarrow> rows
      | Some row \<Rightarrow>
          (let dead = (webhookTriggerRetryWindow \<le> now - TReceived row)
           in update_where (trigger_owned (fst c) (snd c))
                (\<lambda>r. (drop_lease r)\<lparr>TStatus := (if dead then TrigDead else TrigPending),
                        TNext := (if dead then now else next_attempt),
                        TError := (if dead \<and> message = '''' then windowExpired else message)\<rparr>) rows))"

definition RetryClaimedWebhookTriggers ::
  "instant \<Rightarrow> instant \<Rightarrow> string \<Rightarrow> (int \<times> string) list \<Rightarrow> webhook_db \<Rightarrow> webhook_db" where
  "RetryClaimedWebhookTriggers now next_attempt message claims db =
     db\<lparr>Triggers := fold (retry_claim now next_attempt (retry_message message))
          (validWebhookClaims claims) (Triggers db)\<rparr>"

subsection \<open>The clean-up\<close>

text \<open>The rows a batch of the clean-up reaches are chosen by \<open>pick\<close>.\<close>

definition cleanup_old_triggers :: "(trigger_row \<Rightarrow> bool) \<Rightarrow> instant \<Rightarrow> webhook_db \<Rightarrow> webhook_db" where
  "cleanup_old_triggers pick now db =
     db\<lparr>Triggers := update_where
          (\<lambda>r. pick r \<and> (TStatus r = TrigPending \<or> TStatus r = TrigProcessing)
               \<and> TReceived r \<le> now - webhookTriggerRetryWindow
               \<and> (TStatus r = TrigPending \<or> trigger_lease_over now r))
          (\<lambda>r. (drop_lease r)\<lparr>TStatus := TrigDead, TNext := now,
                  TError := (if list_all (\<lambda>c. c = CHR 0x20) (TError r) then windowExpired else TError r)\<rparr>)
          (Triggers db)\<rparr>"

definition cleanup_finished_triggers :: "(trigger_row \<Rightarrow> bool) \<Rightarrow> duration \<Rightarrow> instant \<Rightarrow> webhook_db \<Rightarrow> webhook_db" where
  "cleanup_finished_triggers pick retention now db =
     db\<lparr>Triggers := filter
          (\<lambda>r. \<not> (pick r \<and> TReceived r < now - retention
                  \<and> (TStatus r = TrigProcessed \<or> TStatus r = TrigDead))) (Triggers db)\<rparr>"

subsection \<open>The statements on the table\<close>

interpretation metadata: sorted_set_norm sortedUnique trim_space "\<lambda>v. v \<noteq> ''''"
  by unfold_locales (auto simp: sortedUnique_def)

interpretation trigger_ids: sorted_set_norm uniquePositiveIDs "\<lambda>v. v" "\<lambda>v. 0 < v"
  by unfold_locales (auto simp: uniquePositiveIDs_def)

lemma drop_lease_simps [simp]:
  "TId (drop_lease r) = TId r" "TStatus (drop_lease r) = TStatus r" "TLeaseToken (drop_lease r) = ''''"
  "TLeaseUntil (drop_lease r) = None" "TReceived (drop_lease r) = TReceived r"
  "TBodyHash (drop_lease r) = TBodyHash r" "TEventsJSON (drop_lease r) = TEventsJSON r"
  "TCollectorsJSON (drop_lease r) = TCollectorsJSON r" "TNext (drop_lease r) = TNext r"
  "TAttempts (drop_lease r) = TAttempts r"
  by (simp_all add: drop_lease_def)

lemma lease_trigger_simps [simp]:
  "TId (lease_trigger until token r) = TId r" "TStatus (lease_trigger until token r) = TrigProcessing"
  "TLeaseToken (lease_trigger until token r) = token" "TLeaseUntil (lease_trigger until token r) = Some until"
  "TReceived (lease_trigger until token r) = TReceived r" "TBodyHash (lease_trigger until token r) = TBodyHash r"
  "TEventsJSON (lease_trigger until token r) = TEventsJSON r"
  "TCollectorsJSON (lease_trigger until token r) = TCollectorsJSON r"
  by (simp_all add: lease_trigger_def)

text \<open>What identifies a trigger never changes: its id, body hash, time of reception and metadata.\<close>

definition trigger_core :: "trigger_row \<Rightarrow> int \<times> string \<times> instant \<times> string \<times> string" where
  "trigger_core r = (TId r, TBodyHash r, TReceived r, TEventsJSON r, TCollectorsJSON r)"

text \<open>The state of one trigger: the steps an operation may make with a row.\<close>

inductive trigger_step :: "trigger_row \<Rightarrow> trigger_row \<Rightarrow> bool" where
  ts_requeue: "TStatus r = TrigProcessing \<Longrightarrow> TStatus r' = TrigPending \<Longrightarrow> TLeaseToken r' = '''' \<Longrightarrow>
     trigger_core r' = trigger_core r \<Longrightarrow> trigger_step r r'"
| ts_give_up: "TStatus r = TrigPending \<or> TStatus r = TrigProcessing \<Longrightarrow> TStatus r' = TrigDead \<Longrightarrow>
     TLeaseToken r' = '''' \<Longrightarrow> trigger_core r' = trigger_core r \<Longrightarrow> trigger_step r r'"
| ts_lease: "TStatus r = TrigPending \<Longrightarrow> r' = lease_trigger until token r \<Longrightarrow> trigger_step r r'"
| ts_complete: "TStatus r = TrigProcessing \<Longrightarrow> TStatus r' = TrigProcessed \<Longrightarrow> TLeaseToken r' = '''' \<Longrightarrow>
     trigger_core r' = trigger_core r \<Longrightarrow> trigger_step r r'"

inductive_cases trigger_step_cases: "trigger_step r r'"

lemma trigger_step_core: "trigger_step r r' \<Longrightarrow> trigger_core r' = trigger_core r"
  by (induction rule: trigger_step.induct) (simp_all add: trigger_core_def)

lemma trigger_step_open: "trigger_step r r' \<Longrightarrow> TStatus r = TrigPending \<or> TStatus r = TrigProcessing"
  by (induction rule: trigger_step.induct) auto

lemma trigger_steps_core: "trigger_step\<^sup>*\<^sup>* r r' \<Longrightarrow> trigger_core r' = trigger_core r"
  by (induction rule: rtranclp_induct) (simp_all add: trigger_step_core)

lemma trigger_steps_final:
  "trigger_step\<^sup>*\<^sup>* r r' \<Longrightarrow> TStatus r = TrigProcessed \<or> TStatus r = TrigDead \<Longrightarrow> r' = r"
  by (induction rule: converse_rtranclp_induct) (auto dest: trigger_step_open)

text \<open>A table all of whose rows make some of these steps.\<close>

definition evolves :: "trigger_row list \<Rightarrow> trigger_row list \<Rightarrow> bool" where
  "evolves rows rows' \<longleftrightarrow> list_all2 trigger_step\<^sup>*\<^sup>* rows rows'"

lemma evolves_refl [simp]: "evolves rows rows"
  by (simp add: evolves_def list.rel_refl)

lemma evolves_trans: "evolves xs ys \<Longrightarrow> evolves ys zs \<Longrightarrow> evolves xs zs"
  unfolding evolves_def by (rule list_all2_trans [of "trigger_step\<^sup>*\<^sup>*" "trigger_step\<^sup>*\<^sup>*" "trigger_step\<^sup>*\<^sup>*"]) auto

lemma evolves_update: "(\<And>r. r \<in> set rows \<Longrightarrow> p r \<Longrightarrow> trigger_step\<^sup>*\<^sup>* r (f r)) \<Longrightarrow> evolves rows (update_where p f rows)"
  by (simp add: evolves_def update_where_def list_all2_map2 list.rel_refl_strong)

lemma evolves_core: "evolves rows rows' \<Longrightarrow> map trigger_core rows' = map trigger_core rows"
  unfolding evolves_def by (induction rule: list_all2_induct) (simp_all add: trigger_steps_core)

lemma evolves_due: "evolves rows (due_triggers among now rows)"
proof -
  have 1: "evolves rows (requeue_expired among now rows)" for rows
    unfolding requeue_expired_def
    by (rule evolves_update) (auto simp: trigger_core_def intro!: r_into_rtranclp ts_requeue)
  have 2: "evolves rows (give_up_old among now rows)" for rows
    unfolding give_up_old_def
    by (rule evolves_update) (auto simp: trigger_core_def intro!: r_into_rtranclp ts_give_up)
  show ?thesis unfolding due_triggers_def by (rule evolves_trans [OF 1 2])
qed

lemma evolves_complete: "evolves rows (fold (complete_claim now) cs rows)"
proof (induction cs arbitrary: rows)
  case (Cons c cs)
  have "evolves rows (complete_claim now c rows)"
    unfolding complete_claim_def
    by (rule evolves_update) (auto simp: trigger_owned_def trigger_core_def intro!: r_into_rtranclp ts_complete)
  with Cons show ?case by (auto intro: evolves_trans)
qed simp

lemma evolves_retry: "evolves rows (fold (retry_claim now next_attempt message) cs rows)"
proof (induction cs arbitrary: rows)
  case (Cons c cs)
  have "evolves rows (retry_claim now next_attempt message c rows)"
  proof (cases "List.find (has_id (fst c)) rows")
    case (Some row)
    have "trigger_step\<^sup>*\<^sup>* r ((drop_lease r)\<lparr>TStatus := (if dead then TrigDead else TrigPending),
        TNext := n, TError := e\<rparr>)" if "TStatus r = TrigProcessing" for r dead n e
      using that by (cases dead) (auto simp: trigger_core_def intro!: r_into_rtranclp intro: ts_requeue ts_give_up)
    then show ?thesis unfolding retry_claim_def Some option.case Let_def
      by (intro evolves_update) (auto simp: trigger_owned_def)
  qed (simp add: retry_claim_def)
  with Cons show ?case by (auto intro: evolves_trans)
qed simp

text \<open>The loop that writes the leases, row by row: the \<open>j\<close>-th claimed row gets the \<open>j\<close>-th token.\<close>

lemma lease_triggers_rows:
  "fst (lease_triggers until tok k ts rows) =
     map (\<lambda>r. case (if TStatus r = TrigPending
                    then map_of (map (\<lambda>(j, t). (TrigID t, j)) (enumerate k ts)) (TId r) else None) of
                None \<Rightarrow> r | Some j \<Rightarrow> lease_trigger until (tok j) r) rows"
  by (induction ts arbitrary: k rows)
    (auto simp: Let_def case_prod_beta update_where_def map_idI split: option.splits)

lemma lease_triggers_claimed:
  "snd (lease_triggers until tok k ts rows) = map (\<lambda>(j, t). leased_trigger until (tok j) t) (enumerate k ts)"
  by (induction ts arbitrary: k rows) (simp_all add: Let_def case_prod_beta)

lemma evolves_lease: "evolves rows (fst (lease_triggers until tok k ts rows))"
  unfolding lease_triggers_rows evolves_def list_all2_map2
  by (rule list.rel_refl_strong) (auto split: option.splits intro: ts_lease)

subsection \<open>Every operation as one step\<close>

datatype webhook_op =
    HookRecord string "string list" "string list" instant
  | HookClaimOne int duration string instant
  | HookClaim int duration "nat \<Rightarrow> string" instant
  | HookComplete instant "(int \<times> string) list"
  | HookRetry instant instant string "(int \<times> string) list"
  | HookGiveUp "trigger_row \<Rightarrow> bool" instant
  | HookDelete "trigger_row \<Rightarrow> bool" duration instant

fun webhook_exec :: "webhook_op \<Rightarrow> webhook_db \<Rightarrow> webhook_db" where
  "webhook_exec (HookRecord h events collectors now) db =
     (case RecordWebhookTrigger h events collectors now db of Inl _ \<Rightarrow> db | Inr (db', _) \<Rightarrow> db')"
| "webhook_exec (HookClaimOne i lease token now) db =
     (case ClaimWebhookTrigger i lease token now db of Inl _ \<Rightarrow> db | Inr (db', _) \<Rightarrow> db')"
| "webhook_exec (HookClaim limit lease tok now) db =
     (case ClaimWebhookTriggers limit lease tok now db of Inl _ \<Rightarrow> db | Inr (db', _) \<Rightarrow> db')"
| "webhook_exec (HookComplete now claims) db = CompleteClaimedWebhookTriggers now claims db"
| "webhook_exec (HookRetry now next_attempt message claims) db =
     RetryClaimedWebhookTriggers now next_attempt message claims db"
| "webhook_exec (HookGiveUp pick now) db = cleanup_old_triggers pick now db"
| "webhook_exec (HookDelete pick retention now) db = cleanup_finished_triggers pick retention now db"

fun webhook_issued :: "webhook_op \<Rightarrow> string set" where
  "webhook_issued (HookClaimOne i lease token now) = {token}"
| "webhook_issued (HookClaim limit lease tok now) = range tok"
| "webhook_issued _ = {}"

lemma claim_one_evolves:
  "ClaimWebhookTrigger i lease token now db = Inr (db', res) \<Longrightarrow>
     evolves (Triggers db) (Triggers db') \<and> NextTriggerID db' = NextTriggerID db"
proof -
  let ?rows = "due_triggers (has_id i) now (Triggers db)"
  let ?u = "update_where (\<lambda>r. TId r = i \<and> trigger_due now r)
      (lease_trigger (now + trigger_lease_length lease) token) ?rows"
  have "evolves ?rows ?u"
    by (rule evolves_update) (auto simp: trigger_due_def intro!: r_into_rtranclp ts_lease)
  with evolves_due have e: "evolves (Triggers db) ?u" by (rule evolves_trans)
  assume "ClaimWebhookTrigger i lease token now db = Inr (db', res)"
  then have "db' = db \<or> db' = db\<lparr>Triggers := ?u\<rparr>"
    by (auto simp: ClaimWebhookTrigger_def Let_def split: if_splits option.splits sum.splits)
  with e show ?thesis by auto
qed

lemma claim_batch_evolves:
  "ClaimWebhookTriggers limit lease tok now db = Inr (db', res) \<Longrightarrow>
     evolves (Triggers db) (Triggers db') \<and> NextTriggerID db' = NextTriggerID db"
  unfolding ClaimWebhookTriggers_def Let_def
  by (auto simp: case_prod_beta split: sum.splits intro: evolves_trans [OF evolves_due evolves_lease])

lemma give_up_evolves: "evolves (Triggers db) (Triggers (cleanup_old_triggers pick now db))"
  unfolding cleanup_old_triggers_def
  by (simp, rule evolves_update) (auto simp: trigger_core_def intro!: r_into_rtranclp ts_give_up)

text \<open>The three shapes an operation has: the rows evolve, one is added, or finished ones go.\<close>

lemma exec_shape:
  obtains (evolve) "evolves (Triggers db) (Triggers (webhook_exec op db))"
      "NextTriggerID (webhook_exec op db) = NextTriggerID db"
  | (added) h events collectors now row trigger where "row = new_trigger (NextTriggerID db) h events collectors now"
      "readWebhookTrigger row = Inr trigger" "\<not> list_ex (has_hash h) (Triggers db)"
      "webhook_exec op db = db\<lparr>Triggers := Triggers db @ [row], NextTriggerID := NextTriggerID db + 1\<rparr>"
  | (deleted) p pick retention at where "op = HookDelete pick retention at"
      "Triggers (webhook_exec op db) = filter p (Triggers db)"
      "NextTriggerID (webhook_exec op db) = NextTriggerID db"
      "\<forall>r \<in> set (Triggers db). \<not> p r \<longrightarrow> TStatus r = TrigProcessed \<or> TStatus r = TrigDead"
proof (cases op)
  case (HookDelete pick retention now)
  let ?p = "\<lambda>r. \<not> (pick r \<and> TReceived r < now - retention \<and> (TStatus r = TrigProcessed \<or> TStatus r = TrigDead))"
  from HookDelete show ?thesis by (intro deleted [of pick retention now ?p]) (auto simp: cleanup_finished_triggers_def)
next
  case (HookClaimOne i lease token now)
  then show ?thesis using claim_one_evolves [of i lease token now db]
    by (intro evolve) (auto split: sum.splits prod.splits)
next
  case (HookClaim limit lease tok now)
  then show ?thesis using claim_batch_evolves [of limit lease tok now db]
    by (intro evolve) (auto split: sum.splits prod.splits)
next
  case (HookGiveUp pick now)
  then show ?thesis using give_up_evolves by (intro evolve) (auto simp: cleanup_old_triggers_def)
next
  case (HookRecord h0 events0 collectors0 now)
  let ?h = "trim_space h0"
  let ?row = "new_trigger (NextTriggerID db) ?h (sortedUnique events0) (sortedUnique collectors0) now"
  show ?thesis
  proof (cases "RecordWebhookTrigger h0 events0 collectors0 now db")
    case (Inl e)
    with HookRecord show ?thesis by (intro evolve) simp_all
  next
    case (Inr res)
    show ?thesis
    proof (cases "list_ex (has_hash ?h) (Triggers db)")
      case True
      with Inr HookRecord show ?thesis
        by (intro evolve) (auto simp: RecordWebhookTrigger_def insert_trigger_def Let_def
            split: if_splits option.splits sum.splits)
    next
      case False
      then have "List.find (has_hash ?h) (Triggers db @ [?row]) = Some ?row"
        by (auto simp: find_Some_iff list_ex_iff nth_append has_hash_def new_trigger_def
            intro!: exI [of _ "length (Triggers db)"])
      with Inr False HookRecord obtain trigger where "readWebhookTrigger ?row = Inr trigger"
        "webhook_exec op db = db\<lparr>Triggers := Triggers db @ [?row], NextTriggerID := NextTriggerID db + 1\<rparr>"
        by (auto simp: RecordWebhookTrigger_def insert_trigger_def Let_def split: if_splits sum.splits)
      with False show ?thesis by (intro added [of ?row ?h]) simp_all
    qed
  qed
qed (auto simp: CompleteClaimedWebhookTriggers_def RetryClaimedWebhookTriggers_def
    intro: evolve evolves_complete evolves_retry)

subsection \<open>Well-formed queues\<close>

definition trigger_readable :: "trigger_row \<Rightarrow> bool" where
  "trigger_readable r \<longleftrightarrow>
     (\<exists>events. decodeWebhookMetadata (TEventsJSON r) maxWebhookEventTypes = Inr events) \<and>
     (\<exists>collectors. decodeWebhookMetadata (TCollectorsJSON r) maxWebhookCollectors = Inr collectors)"

text \<open>Ids ascend in the order of insertion and stay below the next one, no body is recorded twice,
  every row can be read back, and only a row that is processed holds a lease token.\<close>

definition webhook_wf :: "webhook_db \<Rightarrow> bool" where
  "webhook_wf db \<longleftrightarrow>
     sorted_wrt (<) (map TId (Triggers db)) \<and> 0 < NextTriggerID db
     \<and> (\<forall>r \<in> set (Triggers db). 0 < TId r \<and> TId r < NextTriggerID db \<and> trigger_readable r
          \<and> (TStatus r \<noteq> TrigProcessing \<longrightarrow> TLeaseToken r = ''''))
     \<and> distinct (map TBodyHash (Triggers db))"

lemma readable_iff: "trigger_readable r \<longleftrightarrow> (\<exists>trigger. readWebhookTrigger r = Inr trigger)"
  by (auto simp: trigger_readable_def readWebhookTrigger_def split: sum.splits)

lemma trigger_core_fields:
  assumes "trigger_core r' = trigger_core r"
  shows "TId r' = TId r" "TBodyHash r' = TBodyHash r" "TReceived r' = TReceived r"
    "TEventsJSON r' = TEventsJSON r" "TCollectorsJSON r' = TCollectorsJSON r"
  using assms by (simp_all add: trigger_core_def)

lemma core_fields_map:
  "map trigger_core rows' = map trigger_core rows \<Longrightarrow>
     map TId rows' = map TId rows \<and> map TBodyHash rows' = map TBodyHash rows"
proof -
  assume "map trigger_core rows' = map trigger_core rows"
  then have "map f (map trigger_core rows') = map f (map trigger_core rows)" for f :: "_ \<Rightarrow> 'b" by simp
  from this [of fst] this [of "fst \<circ> snd"] show ?thesis by (simp add: trigger_core_def comp_def)
qed

text \<open>A step leaves no token behind.\<close>

lemma trigger_steps_lease:
  "trigger_step\<^sup>*\<^sup>* r r' \<Longrightarrow> (TStatus r \<noteq> TrigProcessing \<longrightarrow> TLeaseToken r = '''') \<Longrightarrow>
     TStatus r' \<noteq> TrigProcessing \<longrightarrow> TLeaseToken r' = ''''"
  by (induction rule: rtranclp_induct) (auto elim!: trigger_step_cases)

lemma evolves_origin:
  "evolves rows rows' \<Longrightarrow> r' \<in> set rows' \<Longrightarrow> \<exists>r \<in> set rows. trigger_step\<^sup>*\<^sup>* r r'"
  unfolding evolves_def by (metis in_set_conv_nth list_all2_conv_all_nth)

lemma evolves_wf:
  assumes "webhook_wf db" and e: "evolves (Triggers db) (Triggers db')"
    and "NextTriggerID db' = NextTriggerID db"
  shows "webhook_wf db'"
proof -
  have m: "map TId (Triggers db') = map TId (Triggers db)" "map TBodyHash (Triggers db') = map TBodyHash (Triggers db)"
    using core_fields_map [OF evolves_core [OF e]] by simp_all
  have "0 < TId r' \<and> TId r' < NextTriggerID db' \<and> trigger_readable r'
        \<and> (TStatus r' \<noteq> TrigProcessing \<longrightarrow> TLeaseToken r' = '''')" if r': "r' \<in> set (Triggers db')" for r'
  proof -
    obtain r where r: "r \<in> set (Triggers db)" "trigger_step\<^sup>*\<^sup>* r r'" using evolves_origin [OF e r'] by blast
    note c = trigger_core_fields [OF trigger_steps_core [OF r(2)]]
    have "trigger_readable r' = trigger_readable r" by (simp add: trigger_readable_def c)
    with assms r trigger_steps_lease [OF r(2)] c show ?thesis by (simp add: webhook_wf_def)
  qed
  with assms m show ?thesis by (simp add: webhook_wf_def)
qed

lemma hash_fresh: "\<not> list_ex (has_hash h) rows \<longleftrightarrow> h \<notin> TBodyHash ` set rows"
  by (auto simp: list_ex_iff has_hash_def)

lemma webhook_exec_wf: "webhook_wf db \<Longrightarrow> webhook_wf (webhook_exec op db)"
proof (cases rule: exec_shape [of db op])
  case evolve
  then show "webhook_wf db \<Longrightarrow> ?thesis" using evolves_wf by blast
next
  case (added h events collectors now row trigger)
  have r: "TId row = NextTriggerID db" "TBodyHash row = h" "TStatus row = TrigPending" "TLeaseToken row = ''''"
    by (simp_all add: added(1) new_trigger_def)
  have "trigger_readable row" using added(2) readable_iff by blast
  then show "webhook_wf db \<Longrightarrow> ?thesis"
    using added(3) r by (auto simp: webhook_wf_def added(4) sorted_wrt_append hash_fresh)
next
  case (deleted p pick retention at)
  then show "webhook_wf db \<Longrightarrow> ?thesis"
    by (auto simp: webhook_wf_def sorted_wrt_filter sorted_wrt_map distinct_map_filter)
qed

lemma webhook_run_wf: "webhook_wf db \<Longrightarrow> webhook_wf (fold webhook_exec ops db)"
  by (induction ops arbitrary: db) (simp_all add: webhook_exec_wf)

lemma wf_ids: "webhook_wf db \<Longrightarrow> distinct (map TId (Triggers db))"
  by (simp add: webhook_wf_def strict_sorted_iff)

subsection \<open>What a claim finds due\<close>

definition due_row :: "instant \<Rightarrow> trigger_row \<Rightarrow> trigger_row" where
  "due_row now r =
     (let r1 = (if TStatus r = TrigProcessing \<and> trigger_lease_over now r
                then (drop_lease r)\<lparr>TStatus := TrigPending\<rparr> else r)
      in if (TStatus r1 = TrigPending \<or> TStatus r1 = TrigProcessing)
            \<and> TReceived r1 \<le> now - webhookTriggerRetryWindow
            \<and> (TStatus r1 = TrigPending \<or> trigger_lease_over now r1)
         then (drop_lease r1)\<lparr>TStatus := TrigDead, TError := windowExpired\<rparr> else r1)"

lemma due_triggers_map: "due_triggers (\<lambda>_. True) now rows = map (due_row now) rows"
  by (simp add: due_triggers_def give_up_old_def requeue_expired_def update_where_def due_row_def Let_def)

text \<open>A trigger is open to a claim: it waits, or its lease ran out; it was received less than
  24 hours ago; and its next attempt is due.\<close>

definition claim_ready :: "instant \<Rightarrow> trigger_row \<Rightarrow> bool" where
  "claim_ready now r \<longleftrightarrow>
     (TStatus r = TrigPending \<or> TStatus r = TrigProcessing \<and> trigger_lease_over now r)
     \<and> now - webhookTriggerRetryWindow < TReceived r \<and> TNext r \<le> now"

lemma due_row_ready: "trigger_due now (due_row now r) \<longleftrightarrow> claim_ready now r"
  by (auto simp: trigger_due_def due_row_def claim_ready_def trigger_lease_over_def Let_def)

lemma due_row_core [simp]: "trigger_core (due_row now r) = trigger_core r"
  by (simp add: due_row_def trigger_core_def Let_def)

lemma due_row_id [simp]: "TId (due_row now r) = TId r"
  by (simp add: due_row_def Let_def)

lemma read_triggers_ok:
  "\<forall>r \<in> set rs. trigger_readable r \<Longrightarrow>
     \<exists>ts. read_triggers rs = Inr ts \<and> map TrigID ts = map TId rs"
proof (induction rs)
  case (Cons r rs)
  then obtain t ts where "readWebhookTrigger r = Inr t" "read_triggers rs = Inr ts" "map TrigID ts = map TId rs"
    by (auto simp: readable_iff)
  moreover from this(1) have "TrigID t = TId r" by (auto simp: readWebhookTrigger_def split: sum.splits)
  ultimately show ?case by simp
qed simp

lemma picked_triggers:
  "map TId (select_limit n (trigger_due now) (due_triggers (\<lambda>_. True) now rows)) =
     map TId (take n (filter (claim_ready now) rows))"
  by (simp add: select_limit_def due_triggers_map filter_map o_def due_row_ready take_map)

subsection \<open>The queue as an instance of the contracts\<close>

definition trigger_holds :: "trigger_row \<Rightarrow> string \<Rightarrow> bool" where
  "trigger_holds r t \<longleftrightarrow> TStatus r = TrigProcessing \<and> TLeaseToken r = t"

definition trigger_live :: "instant \<Rightarrow> trigger_row \<Rightarrow> bool" where
  "trigger_live now r \<longleftrightarrow> TStatus r = TrigProcessing \<and> \<not> trigger_lease_over now r"

datatype trigger_action = TrigComplete instant | TrigRetry instant instant string

definition settle_triggers :: "trigger_action \<Rightarrow> (int \<times> string) list \<Rightarrow> webhook_db \<Rightarrow> webhook_db" where
  "settle_triggers s claims db =
     (case s of
        TrigComplete now \<Rightarrow> CompleteClaimedWebhookTriggers now claims db
      | TrigRetry now next_attempt message \<Rightarrow> RetryClaimedWebhookTriggers now next_attempt message claims db)"

definition webhook_settle :: "trigger_action \<Rightarrow> int \<Rightarrow> string \<Rightarrow> webhook_db \<Rightarrow> webhook_db \<times> bool" where
  "webhook_settle s i t db =
     (settle_triggers s [(i, t)] db, list_ex (trigger_owned i t) (Triggers db))"

datatype trigger_claim = ClaimOne int duration string | ClaimBatch int duration "nat \<Rightarrow> string"

definition webhook_claim :: "trigger_claim \<Rightarrow> instant \<Rightarrow> webhook_db \<Rightarrow> webhook_db \<times> int list" where
  "webhook_claim c now db =
     (case c of
        ClaimOne i lease token \<Rightarrow>
          (case ClaimWebhookTrigger i lease token now db of
             Inl _ \<Rightarrow> (db, []) | Inr (db', res) \<Rightarrow> (db', map TrigID (case res of None \<Rightarrow> [] | Some t \<Rightarrow> [t])))
      | ClaimBatch limit lease tok \<Rightarrow>
          (case ClaimWebhookTriggers limit lease tok now db of
             Inl _ \<Rightarrow> (db, []) | Inr (db', res) \<Rightarrow> (db', map TrigID res)))"

text \<open>Every statement but the leasing ones only ends leases: a leased row is one that was there.\<close>

lemma update_ends:
  assumes "\<And>r. TStatus (f r) \<noteq> TrigProcessing"
    and "r' \<in> set (update_where p f rows)" and "TStatus r' = TrigProcessing"
  shows "r' \<in> set rows"
  using assms by (auto simp: set_update_where)

lemma due_ends: "r' \<in> set (due_triggers among now rows) \<Longrightarrow> TStatus r' = TrigProcessing \<Longrightarrow> r' \<in> set rows"
  unfolding due_triggers_def give_up_old_def requeue_expired_def
  by (rule update_ends, rule_tac [2] update_ends) simp_all

lemma complete_ends:
  "r' \<in> set (fold (complete_claim now) cs rows) \<Longrightarrow> TStatus r' = TrigProcessing \<Longrightarrow> r' \<in> set rows"
proof (induction cs arbitrary: rows)
  case (Cons c cs)
  then have "r' \<in> set (complete_claim now c rows)" by simp
  then show ?case unfolding complete_claim_def using Cons.prems(2) by (rule update_ends [rotated]) simp
qed simp

lemma retry_ends:
  "r' \<in> set (fold (retry_claim now nx message) cs rows) \<Longrightarrow> TStatus r' = TrigProcessing \<Longrightarrow> r' \<in> set rows"
proof (induction cs arbitrary: rows)
  case (Cons c cs)
  then have r: "r' \<in> set (retry_claim now nx message c rows)" by simp
  show ?case
  proof (cases "List.find (has_id (fst c)) rows")
    case None
    with r show ?thesis by (simp add: retry_claim_def)
  next
    case (Some row)
    from r Cons.prems(2) show ?thesis unfolding retry_claim_def Some option.case Let_def
      by (rule update_ends [rotated]) simp
  qed
qed simp

lemma claim_one_origin:
  assumes "ClaimWebhookTrigger i lease token now db = Inr (db', res)"
    and "r' \<in> set (Triggers db')" and "trigger_holds r' t"
  shows "t = token \<or> r' \<in> set (Triggers db)"
proof -
  let ?rows = "due_triggers (has_id i) now (Triggers db)"
  let ?u = "update_where (\<lambda>r. TId r = i \<and> trigger_due now r)
      (lease_trigger (now + trigger_lease_length lease) token) ?rows"
  have "db' = db \<or> Triggers db' = ?u"
    using assms(1) by (auto simp: ClaimWebhookTrigger_def Let_def split: if_splits option.splits sum.splits)
  then show ?thesis
  proof
    assume "Triggers db' = ?u"
    with assms(2) consider "r' \<in> set ?rows" | r where "r' = lease_trigger (now + trigger_lease_length lease) token r"
      by (auto simp: set_update_where)
    then show ?thesis using due_ends assms(3) by cases (auto simp: trigger_holds_def)
  qed (use assms in auto)
qed

lemma claim_batch_origin:
  assumes "ClaimWebhookTriggers limit lease tok now db = Inr (db', res)"
    and "r' \<in> set (Triggers db')" and "trigger_holds r' t"
  shows "t \<in> range tok \<or> r' \<in> set (Triggers db)"
proof -
  let ?rows = "due_triggers (\<lambda>_. True) now (Triggers db)"
  obtain until ts where "Triggers db' = fst (lease_triggers until tok 0 ts ?rows)"
    using assms(1) by (auto simp: ClaimWebhookTriggers_def Let_def case_prod_beta split: sum.splits)
  with assms(2) consider "r' \<in> set ?rows" | r j where "r' = lease_trigger until (tok j) r"
    by (auto simp: lease_triggers_rows split: option.splits)
  then show ?thesis using due_ends assms(3) by cases (auto simp: trigger_holds_def)
qed

lemma webhook_lease_origin:
  assumes r': "r' \<in> set (Triggers (webhook_exec op db))" and t: "trigger_holds r' t"
  shows "t \<in> webhook_issued op \<or> r' \<in> set (Triggers db)"
proof (cases op)
  case (HookRecord h events collectors now)
  with r' t show ?thesis
    by (auto simp: RecordWebhookTrigger_def insert_trigger_def new_trigger_def trigger_holds_def Let_def
        split: if_splits option.splits sum.splits)
next
  case (HookClaimOne i lease token now)
  with r' t show ?thesis by (auto split: sum.splits dest: claim_one_origin)
next
  case (HookClaim limit lease tok now)
  with r' t show ?thesis by (auto split: sum.splits dest: claim_batch_origin)
next
  case (HookComplete now claims)
  with r' t show ?thesis by (auto simp: CompleteClaimedWebhookTriggers_def trigger_holds_def dest: complete_ends)
next
  case (HookRetry now nx message claims)
  with r' t show ?thesis by (auto simp: RetryClaimedWebhookTriggers_def trigger_holds_def dest: retry_ends)
next
  case (HookGiveUp pick now)
  with r' have "r' \<in> set (Triggers (cleanup_old_triggers pick now db))" by simp
  then have "r' \<in> set (Triggers db)"
    using t unfolding cleanup_old_triggers_def trigger_holds_def by (auto elim!: update_ends [rotated])
  then show ?thesis ..
next
  case (HookDelete pick retention now)
  with r' t show ?thesis by (auto simp: cleanup_finished_triggers_def)
qed

interpretation hooks: leased_queue Triggers TId trigger_holds webhook_exec webhook_issued
  by unfold_locales (blast dest: webhook_lease_origin)

text \<open>A list of claims none of which is still held changes nothing.\<close>

lemma complete_not_owned:
  "\<forall>c \<in> set cs. \<forall>r \<in> set rows. \<not> trigger_owned (fst c) (snd c) r \<Longrightarrow> fold (complete_claim now) cs rows = rows"
  by (induction cs) (simp_all add: complete_claim_def update_where_none)

lemma retry_not_owned:
  "\<forall>c \<in> set cs. \<forall>r \<in> set rows. \<not> trigger_owned (fst c) (snd c) r \<Longrightarrow>
     fold (retry_claim now nx message) cs rows = rows"
proof (induction cs)
  case (Cons c cs)
  then have "retry_claim now nx message c rows = rows"
    by (simp add: retry_claim_def update_where_none Let_def split: option.split)
  with Cons show ?case by simp
qed simp

lemma valid_claims_subset: "set (validWebhookClaims claims) \<subseteq> set claims"
proof -
  have "set (valid_claims_from seen claims) \<subseteq> set claims" for seen
    by (induction seen claims rule: valid_claims_from.induct) auto
  then show ?thesis by (simp add: validWebhookClaims_def)
qed

lemma settle_not_owned:
  assumes "\<forall>c \<in> set claims. \<forall>r \<in> set (Triggers db). \<not> trigger_owned (fst c) (snd c) r"
  shows "settle_triggers s claims db = db"
proof -
  have "\<forall>c \<in> set (validWebhookClaims claims). \<forall>r \<in> set (Triggers db). \<not> trigger_owned (fst c) (snd c) r"
    using assms valid_claims_subset by blast
  then show ?thesis
    by (cases s) (simp_all add: settle_triggers_def CompleteClaimedWebhookTriggers_def
        RetryClaimedWebhookTriggers_def complete_not_owned retry_not_owned)
qed

interpretation hooks: fenced_queue Triggers TId trigger_holds webhook_exec webhook_issued webhook_settle
proof unfold_locales
  fix db :: webhook_db and i t s
  assume "\<forall>r \<in> set (Triggers db). TId r = i \<longrightarrow> \<not> trigger_holds r t"
  then have "\<forall>r \<in> set (Triggers db). \<not> trigger_owned i t r" by (auto simp: trigger_owned_def trigger_holds_def)
  then show "webhook_settle s i t db = (db, False)"
    by (auto simp: webhook_settle_def list_ex_iff settle_not_owned)
qed

lemma ready_not_live: "claim_ready now r \<Longrightarrow> \<not> trigger_live now r"
  by (auto simp: claim_ready_def trigger_live_def)

lemma update_where_keep: "r \<in> set rows \<Longrightarrow> \<not> p r \<Longrightarrow> r \<in> set (update_where p f rows)"
  by (auto simp: set_update_where)

lemma due_keeps_live: "r \<in> set rows \<Longrightarrow> trigger_live now r \<Longrightarrow> r \<in> set (due_triggers among now rows)"
  unfolding due_triggers_def give_up_old_def requeue_expired_def
  by (intro update_where_keep) (simp_all add: trigger_live_def)

lemma claim_batch_result:
  assumes "webhook_wf db"
  obtains ts where "map TrigID ts = map TId (take (trigger_limit limit) (filter (claim_ready now) (Triggers db)))"
    and "ClaimWebhookTriggers limit lease tok now db =
      Inr (db\<lparr>Triggers := fst (lease_triggers (now + trigger_lease_length lease) tok 0 ts
                              (due_triggers (\<lambda>_. True) now (Triggers db)))\<rparr>,
           map (\<lambda>(j, t). leased_trigger (now + trigger_lease_length lease) (tok j) t) (enumerate 0 ts))"
proof -
  let ?rows = "due_triggers (\<lambda>_. True) now (Triggers db)"
  let ?picked = "select_limit (trigger_limit limit) (trigger_due now) ?rows"
  have "trigger_readable r'" if r': "r' \<in> set ?rows" for r'
  proof -
    obtain r where "r \<in> set (Triggers db)" "trigger_step\<^sup>*\<^sup>* r r'"
      using evolves_origin [OF evolves_due r'] by blast
    with assms trigger_core_fields [OF trigger_steps_core [OF this(2)]] show ?thesis
      by (simp add: webhook_wf_def trigger_readable_def)
  qed
  then have "\<forall>r \<in> set ?picked. trigger_readable r"
    by (auto simp: select_limit_def dest!: in_set_takeD)
  then obtain ts where ts: "read_triggers ?picked = Inr ts" "map TrigID ts = map TId ?picked"
    using read_triggers_ok by blast
  show thesis
  proof (rule that)
    show "map TrigID ts = map TId (take (trigger_limit limit) (filter (claim_ready now) (Triggers db)))"
      using ts(2) by (simp add: picked_triggers)
    show "ClaimWebhookTriggers limit lease tok now db =
      Inr (db\<lparr>Triggers := fst (lease_triggers (now + trigger_lease_length lease) tok 0 ts ?rows)\<rparr>,
           map (\<lambda>(j, t). leased_trigger (now + trigger_lease_length lease) (tok j) t) (enumerate 0 ts))"
      using ts(1) by (simp add: ClaimWebhookTriggers_def Let_def case_prod_beta lease_triggers_claimed)
  qed
qed

lemma leased_trigger_simps [simp]:
  "TrigID (leased_trigger until token t) = TrigID t" "TrigToken (leased_trigger until token t) = token"
  by (simp_all add: leased_trigger_def)

lemma enumerate_ids:
  "distinct (map f ts) \<Longrightarrow> (j, t) \<in> set (enumerate k ts) \<Longrightarrow>
     map_of (map (\<lambda>(j, t). (f t, j)) (enumerate k ts)) (f t) = Some j"
proof (induction ts arbitrary: k)
  case (Cons x ts)
  then consider "j = k" "t = x" | "(j, t) \<in> set (enumerate (Suc k) ts)" by auto
  then show ?case
  proof cases
    case 2
    then have "t \<in> set (map snd (enumerate (Suc k) ts))" unfolding set_map by (rule image_eqI [rotated]) simp
    then have "t \<in> set ts" unfolding map_snd_enumerate .
    then have "f t \<in> f ` set ts" by (rule imageI)
    then have "f t \<noteq> f x" using Cons.prems(1) by auto
    with Cons.IH [OF _ 2] Cons.prems(1) show ?thesis by simp
  qed simp
qed simp

lemma due_batch_pending:
  assumes "webhook_wf db" and "r \<in> set (Triggers db)" and "claim_ready now r"
  shows "TStatus (due_row now r) = TrigPending" "due_row now r \<in> set (due_triggers (\<lambda>_. True) now (Triggers db))"
  using assms due_row_ready [of now r] by (auto simp: trigger_due_def due_triggers_map)

text \<open>
  A claim hands out exactly what is due. In a well-formed queue it cannot fail; it returns,
  oldest first and up to the limit, the triggers that wait or whose lease ran out, that were
  received less than 24 hours ago and whose next attempt has come; and the row of the \<open>j\<close>-th is
  then leased under the \<open>j\<close>-th token until the end of the lease.
\<close>
theorem trigger_claim_exact:
  assumes "webhook_wf db"
  shows "\<exists>db' claimed. ClaimWebhookTriggers limit lease tok now db = Inr (db', claimed)
    \<and> map TrigID claimed = map TId (take (trigger_limit limit) (filter (claim_ready now) (Triggers db)))
    \<and> (\<forall>(j, t) \<in> set (enumerate 0 claimed). TrigToken t = tok j
         \<and> (\<exists>r \<in> set (Triggers db'). TId r = TrigID t \<and> TStatus r = TrigProcessing
              \<and> TLeaseToken r = tok j \<and> TLeaseUntil r = Some (now + trigger_lease_length lease)))"
proof -
  let ?until = "now + trigger_lease_length lease"
  let ?rows = "due_triggers (\<lambda>_. True) now (Triggers db)"
  obtain ts where ts: "map TrigID ts = map TId (take (trigger_limit limit) (filter (claim_ready now) (Triggers db)))"
    and res: "ClaimWebhookTriggers limit lease tok now db =
      Inr (db\<lparr>Triggers := fst (lease_triggers ?until tok 0 ts ?rows)\<rparr>,
           map (\<lambda>(j, t). leased_trigger ?until (tok j) t) (enumerate 0 ts))"
    by (rule claim_batch_result [OF assms])
  have d: "distinct (map TrigID ts)"
    unfolding ts using wf_ids [OF assms] by (simp add: distinct_map_filter distinct_take flip: take_map)
  have leased: "\<exists>r \<in> set (fst (lease_triggers ?until tok 0 ts ?rows)). TId r = TrigID t \<and> TStatus r = TrigProcessing
              \<and> TLeaseToken r = tok j \<and> TLeaseUntil r = Some ?until" if t: "(j, t) \<in> set (enumerate 0 ts)" for j t
  proof -
    have "TrigID t \<in> set (map TrigID ts)" using t by (auto simp: in_set_enumerate_eq)
    then obtain r where "r \<in> set (take (trigger_limit limit) (filter (claim_ready now) (Triggers db)))" "TId r = TrigID t"
      unfolding ts by auto
    then have r: "r \<in> set (Triggers db)" "claim_ready now r" "TId r = TrigID t"
      by (auto dest!: in_set_takeD)
    note m = enumerate_ids [OF d t]
    have "lease_trigger ?until (tok j) (due_row now r) \<in> set (fst (lease_triggers ?until tok 0 ts ?rows))"
      unfolding lease_triggers_rows set_map
      by (rule image_eqI [OF _ due_batch_pending(2) [OF assms r(1,2)]])
        (simp add: due_batch_pending(1) [OF assms r(1,2)] r(3) m)
    then show ?thesis using r(3) by (intro bexI [of _ "lease_trigger ?until (tok j) (due_row now r)"]) simp_all
  qed
  have e: "enumerate 0 (map (\<lambda>(j, t). leased_trigger ?until (tok j) t) (enumerate 0 ts)) =
      map (\<lambda>(j, t). (j, leased_trigger ?until (tok j) t)) (enumerate 0 ts)"
    by (simp add: list_eq_iff_nth_eq nth_enumerate_eq)
  have i: "map TrigID (map (\<lambda>(j, t). leased_trigger ?until (tok j) t) (enumerate 0 ts)) = map TrigID ts"
    by (simp add: list_eq_iff_nth_eq nth_enumerate_eq)
  have all: "\<forall>(j, t) \<in> set (map (\<lambda>(j, t). (j, leased_trigger ?until (tok j) t)) (enumerate 0 ts)).
      TrigToken t = tok j \<and> (\<exists>r \<in> set (fst (lease_triggers ?until tok 0 ts ?rows)). TId r = TrigID t
        \<and> TStatus r = TrigProcessing \<and> TLeaseToken r = tok j \<and> TLeaseUntil r = Some ?until)"
    using leased by auto
  show ?thesis
    by (rule exI, rule exI, rule conjI, rule res) (use e i ts all in simp)
qed

lemma due_row_attempts [simp]: "TAttempts (due_row now r) = TAttempts r"
  by (simp add: due_row_def Let_def)

lemma lease_trigger_differs: "TAttempts q = TAttempts r \<Longrightarrow> lease_trigger until token q \<noteq> r"
proof
  assume "TAttempts q = TAttempts r" and "lease_trigger until token q = r"
  then have "TAttempts (lease_trigger until token q) = TAttempts q" by simp
  then show False by (simp add: lease_trigger_def)
qed

text \<open>A row the first two statements of a claim leave alone.\<close>

lemma due_row_fixed:
  "due_row now r = r \<longleftrightarrow>
     \<not> (TStatus r = TrigProcessing \<and> trigger_lease_over now r)
     \<and> \<not> (TStatus r = TrigPending \<and> TReceived r \<le> now - webhookTriggerRetryWindow)"
proof -
  have "TStatus (due_row now r) \<noteq> TStatus r"
    if "TStatus r = TrigProcessing \<and> trigger_lease_over now r
        \<or> TStatus r = TrigPending \<and> TReceived r \<le> now - webhookTriggerRetryWindow"
    using that by (auto simp: due_row_def Let_def)
  moreover have "due_row now r = r"
    if "\<not> (TStatus r = TrigProcessing \<and> trigger_lease_over now r)"
      "\<not> (TStatus r = TrigPending \<and> TReceived r \<le> now - webhookTriggerRetryWindow)"
    using that unfolding due_row_def Let_def by (simp del: not_le) blast
  ultimately show ?thesis by metis
qed

lemma has_due_iff:
  "HasDueWebhookTriggers now db \<longleftrightarrow>
     (\<exists>r \<in> set (Triggers db). due_row now r \<noteq> r \<or> claim_ready now r)"
  unfolding HasDueWebhookTriggers_def list_ex_iff due_row_fixed by (auto simp: claim_ready_def)

lemma trigger_limit_pos: "0 < trigger_limit limit"
  by (simp add: trigger_limit_def webhookTriggerBatchSize_def)

text \<open>
  The probe wakes the worker for a reason. \<open>HasDueWebhookTriggers\<close> answers yes exactly when
  a claim at that time would change the queue, so a worker that asks first neither sleeps over
  work nor spins on triggers another worker holds.
\<close>
theorem trigger_probe_exact:
  assumes "webhook_wf db"
  shows "HasDueWebhookTriggers now db \<longleftrightarrow>
    (\<exists>db' claimed. ClaimWebhookTriggers limit lease tok now db = Inr (db', claimed) \<and> db' \<noteq> db)"
proof -
  let ?until = "now + trigger_lease_length lease"
  let ?ready = "filter (claim_ready now) (Triggers db)"
  obtain ts where ts: "map TrigID ts = map TId (take (trigger_limit limit) ?ready)"
    and res: "ClaimWebhookTriggers limit lease tok now db =
      Inr (db\<lparr>Triggers := fst (lease_triggers ?until tok 0 ts (due_triggers (\<lambda>_. True) now (Triggers db)))\<rparr>,
           map (\<lambda>(j, t). leased_trigger ?until (tok j) t) (enumerate 0 ts))"
    by (rule claim_batch_result [OF assms])
  define g where "g r = (case (if TStatus (due_row now r) = TrigPending
        then map_of (map (\<lambda>(j, t). (TrigID t, j)) (enumerate 0 ts)) (TId r) else None) of
          None \<Rightarrow> due_row now r | Some j \<Rightarrow> lease_trigger ?until (tok j) (due_row now r))" for r
  have rows: "fst (lease_triggers ?until tok 0 ts (due_triggers (\<lambda>_. True) now (Triggers db))) = map g (Triggers db)"
    by (simp add: lease_triggers_rows due_triggers_map g_def o_def)
  have changed: "(\<exists>db' claimed. ClaimWebhookTriggers limit lease tok now db = Inr (db', claimed) \<and> db' \<noteq> db)
      \<longleftrightarrow> (\<exists>r \<in> set (Triggers db). g r \<noteq> r)"
  proof -
    have "db\<lparr>Triggers := map g (Triggers db)\<rparr> = db \<longleftrightarrow> map g (Triggers db) = Triggers db"
      by (cases db) simp
    also have "\<dots> \<longleftrightarrow> (\<forall>r \<in> set (Triggers db). g r = r)"
      using map_eq_conv [of g "Triggers db" id] by simp
    finally show ?thesis unfolding res rows by simp
  qed
  have g_due: "g r = r \<Longrightarrow> due_row now r = r" for r
    using lease_trigger_differs [of "due_row now r" r] by (auto simp: g_def split: option.splits if_splits)
  show ?thesis
  proof
    assume "HasDueWebhookTriggers now db"
    then consider r where "r \<in> set (Triggers db)" "due_row now r \<noteq> r" | "?ready \<noteq> []"
      unfolding has_due_iff by (auto simp: filter_empty_conv)
    then have "\<exists>r \<in> set (Triggers db). g r \<noteq> r"
    proof cases
      case 1
      then show ?thesis using g_due by blast
    next
      case 2
      then obtain q qs where q: "?ready = q # qs" by (cases ?ready) auto
      then have "q \<in> set ?ready" by simp
      then have q': "q \<in> set (Triggers db)" "claim_ready now q" by simp_all
      obtain n where n: "trigger_limit limit = Suc n" using trigger_limit_pos [of limit] by (cases "trigger_limit limit") auto
      have "map TrigID ts = TId q # map TId (take n qs)" unfolding ts n q by simp
      then have "\<exists>t ts'. ts = t # ts' \<and> TrigID t = TId q" by (cases ts) auto
      then have "g q = lease_trigger ?until (tok 0) (due_row now q)"
        using due_batch_pending(1) [OF assms q'] by (auto simp: g_def)
      then have "g q \<noteq> q" using lease_trigger_differs [of "due_row now q" q] by simp
      with q' show ?thesis by blast
    qed
    with changed show "\<exists>db' claimed. ClaimWebhookTriggers limit lease tok now db = Inr (db', claimed) \<and> db' \<noteq> db"
      by blast
  next
    assume "\<exists>db' claimed. ClaimWebhookTriggers limit lease tok now db = Inr (db', claimed) \<and> db' \<noteq> db"
    with changed obtain r where r: "r \<in> set (Triggers db)" "g r \<noteq> r" by blast
    show "HasDueWebhookTriggers now db"
    proof (rule ccontr)
      assume "\<not> HasDueWebhookTriggers now db"
      then have fixed: "\<forall>r \<in> set (Triggers db). due_row now r = r" and "?ready = []"
        by (auto simp: has_due_iff filter_empty_conv)
      then have "ts = []" using ts by simp
      then have "g r = due_row now r" by (simp add: g_def)
      with r fixed show False by simp
    qed
  qed
qed

lemma due_triggers_one:
  "due_triggers (has_id i) now rows = map (\<lambda>r. if TId r = i then due_row now r else r) rows"
  by (auto simp: due_triggers_def give_up_old_def requeue_expired_def update_where_def due_row_def has_id_def Let_def)

lemma read_trigger_id: "readWebhookTrigger r = Inr t \<Longrightarrow> TrigID t = TId r"
  by (auto simp: readWebhookTrigger_def split: sum.splits)

lemma claim_one_result:
  assumes "ClaimWebhookTrigger i lease token now db = Inr (db', Some t)"
  shows "TrigID t = i \<and> TrigToken t = token \<and> (\<exists>r \<in> set (Triggers db). TId r = i \<and> claim_ready now r)"
proof -
  let ?rows = "due_triggers (has_id i) now (Triggers db)"
  let ?p = "\<lambda>r. TId r = i \<and> trigger_due now r"
  let ?u = "update_where ?p (lease_trigger (now + trigger_lease_length lease) token) ?rows"
  have "rows_affected ?p ?rows \<noteq> 0"
    using assms by (auto simp: ClaimWebhookTrigger_def Let_def split: if_splits)
  then obtain q where "q \<in> set ?rows" "?p q" by (auto simp: rows_affected_none simp del: neq0_conv)
  then have "\<exists>r \<in> set (Triggers db). TId r = i \<and> claim_ready now r"
    by (auto simp: due_triggers_one due_row_ready split: if_splits)
  moreover obtain row trigger where "List.find (has_id i) ?u = Some row" "readWebhookTrigger row = Inr trigger"
      "t = trigger\<lparr>TrigStatus := TrigProcessing, TrigToken := token\<rparr>"
    using assms by (auto simp: ClaimWebhookTrigger_def Let_def split: if_splits option.splits sum.splits)
  ultimately show ?thesis by (auto dest!: read_trigger_id simp: find_Some_iff has_id_def)
qed

lemma read_triggers_ids: "read_triggers rs = Inr ts \<Longrightarrow> map TrigID ts = map TId rs"
  by (induction rs arbitrary: ts) (auto dest: read_trigger_id split: sum.splits)

lemma claim_batch_ids:
  assumes "ClaimWebhookTriggers limit lease tok now db = Inr (db', claimed)"
  shows "map TrigID claimed = map TId (take (trigger_limit limit) (filter (claim_ready now) (Triggers db)))"
proof -
  let ?rows = "due_triggers (\<lambda>_. True) now (Triggers db)"
  obtain ts where "read_triggers (select_limit (trigger_limit limit) (trigger_due now) ?rows) = Inr ts"
      "claimed = map (\<lambda>(j, t). leased_trigger (now + trigger_lease_length lease) (tok j) t) (enumerate 0 ts)"
    using assms by (auto simp: ClaimWebhookTriggers_def Let_def case_prod_beta lease_triggers_claimed split: sum.splits)
  moreover from this(1) have "map TrigID ts = map TId (take (trigger_limit limit) (filter (claim_ready now) (Triggers db)))"
    by (simp add: read_triggers_ids picked_triggers)
  moreover have "map TrigID (map (\<lambda>(j, t). leased_trigger u (tok j) t) (enumerate 0 ts)) = map TrigID ts" for u
    by (simp add: list_eq_iff_nth_eq nth_enumerate_eq)
  ultimately show ?thesis by simp
qed

lemma evolves_ids: "evolves rows rows' \<Longrightarrow> map TId rows' = map TId rows"
  using core_fields_map evolves_core by blast

lemma one_keeps_live:
  assumes "r \<in> set (Triggers db)" "trigger_live now r" "ClaimWebhookTrigger i lease token now db = Inr (db', res)"
  shows "r \<in> set (Triggers db')"
proof -
  have "r \<in> set (update_where (\<lambda>r. TId r = i \<and> trigger_due now r)
      (lease_trigger (now + trigger_lease_length lease) token) (due_triggers (has_id i) now (Triggers db)))"
    using due_keeps_live [OF assms(1,2)] assms(2)
    by (intro update_where_keep) (auto simp: trigger_due_def trigger_live_def)
  with assms(1,3) show ?thesis
    by (auto simp: ClaimWebhookTrigger_def Let_def split: if_splits option.splits sum.splits)
qed

lemma batch_keeps_live:
  assumes "r \<in> set (Triggers db)" "trigger_live now r" "ClaimWebhookTriggers limit lease tok now db = Inr (db', res)"
  shows "r \<in> set (Triggers db')"
proof -
  have "r \<in> set (fst (lease_triggers until tok k ts (due_triggers (\<lambda>_. True) now (Triggers db))))" for until k ts
    using due_keeps_live [OF assms(1,2)] assms(2)
    by (auto simp: lease_triggers_rows trigger_live_def intro!: image_eqI [of _ _ r])
  with assms(3) show ?thesis
    by (auto simp: ClaimWebhookTriggers_def Let_def case_prod_beta split: sum.splits)
qed

interpretation hooks: claimed_queue Triggers TId trigger_holds webhook_exec webhook_issued webhook_settle
  trigger_live webhook_claim
proof unfold_locales
  fix db :: webhook_db and c now
  show "distinct (map TId (Triggers (fst (webhook_claim c now db))))" if "distinct (map TId (Triggers db))"
    using that
    by (auto simp: webhook_claim_def dest!: claim_one_evolves claim_batch_evolves evolves_ids
        split: trigger_claim.splits sum.splits)
  show "r \<in> set (Triggers (fst (webhook_claim c now db)))"
    if "r \<in> set (Triggers db)" "trigger_live now r" for r
    using that by (auto simp: webhook_claim_def intro: one_keeps_live batch_keeps_live
        split: trigger_claim.splits sum.splits)
  show "\<exists>r \<in> set (Triggers db). TId r = i \<and> \<not> trigger_live now r" if i: "i \<in> set (snd (webhook_claim c now db))" for i
  proof (cases c)
    case (ClaimOne j lease token)
    with i show ?thesis
      by (auto simp: webhook_claim_def dest!: claim_one_result ready_not_live split: sum.splits option.splits)
  next
    case (ClaimBatch limit lease tok)
    with i obtain db' res where "ClaimWebhookTriggers limit lease tok now db = Inr (db', res)" "i \<in> set (map TrigID res)"
      by (auto simp: webhook_claim_def split: sum.splits)
    then have "i \<in> TId ` set (take (trigger_limit limit) (filter (claim_ready now) (Triggers db)))"
      using claim_batch_ids by (metis set_map)
    then obtain r where "r \<in> set (filter (claim_ready now) (Triggers db))" "i = TId r"
      by (auto dest: in_set_takeD)
    then show ?thesis using ready_not_live by auto
  qed
qed

text \<open>A row of a later queue with an old id is the old row some steps later.\<close>

lemma exec_step_origin:
  assumes "r' \<in> set (Triggers (webhook_exec op db))" and "TId r' < NextTriggerID db"
  shows "\<exists>r \<in> set (Triggers db). trigger_step\<^sup>*\<^sup>* r r'"
proof (cases rule: exec_shape [of db op])
  case evolve
  with assms(1) show ?thesis using evolves_origin by blast
next
  case (added h events collectors now row trigger)
  with assms show ?thesis by (auto simp: new_trigger_def)
next
  case (deleted p pick retention at)
  with assms(1) show ?thesis by auto
qed

lemma next_trigger_grows: "NextTriggerID db \<le> NextTriggerID (webhook_exec op db)"
  by (cases rule: exec_shape [of db op]) simp_all

lemma run_step_origin:
  "r' \<in> set (Triggers (fold webhook_exec ops db)) \<Longrightarrow> TId r' < NextTriggerID db \<Longrightarrow>
     \<exists>r \<in> set (Triggers db). trigger_step\<^sup>*\<^sup>* r r'"
proof (induction ops arbitrary: db)
  case (Cons op ops)
  have "TId r' < NextTriggerID (webhook_exec op db)" using Cons.prems(2) next_trigger_grows [of db op] by linarith
  with Cons obtain q where q: "q \<in> set (Triggers (webhook_exec op db))" "trigger_step\<^sup>*\<^sup>* q r'" by fastforce
  have "TId q = TId r'" using trigger_core_fields(1) [OF trigger_steps_core [OF q(2)]] by simp
  with Cons.prems(2) exec_step_origin [OF q(1)] obtain r where "r \<in> set (Triggers db)" "trigger_step\<^sup>*\<^sup>* r q" by auto
  with q(2) show ?case by (meson rtranclp_trans)
qed auto

lemma run_steps:
  assumes "webhook_wf db" and "r \<in> set (Triggers db)"
    and "r' \<in> set (Triggers (fold webhook_exec ops db))" and "TId r' = TId r"
  shows "trigger_step\<^sup>*\<^sup>* r r'"
proof -
  have "TId r' < NextTriggerID db" using assms by (auto simp: webhook_wf_def)
  with assms(3) obtain q where q: "q \<in> set (Triggers db)" "trigger_step\<^sup>*\<^sup>* q r'" using run_step_origin by blast
  then have "TId q = TId r" using trigger_core_fields(1) [OF trigger_steps_core] assms(4) by metis
  with q(1) assms(1,2) have "q = r" using wf_ids [OF assms(1)] by (auto simp: distinct_map inj_on_def)
  with q(2) show ?thesis by simp
qed

text \<open>
  C9. The queue stays well formed, whatever operations run: ids ascend, no body is recorded
  twice, every row can be read back (so no row ever blocks a claim) and only processed rows hold
  a lease. A trigger that is processed or given up is never changed again.
\<close>
theorem trigger_queue_invariant:
  assumes "webhook_wf db"
  shows "webhook_wf (fold webhook_exec ops db)
    \<and> (\<forall>r \<in> set (Triggers db). TStatus r \<in> {TrigProcessed, TrigDead} \<longrightarrow>
         (\<forall>r' \<in> set (Triggers (fold webhook_exec ops db)). TId r' = TId r \<longrightarrow> r' = r))"
proof -
  have "r' = r" if "r \<in> set (Triggers db)" "TStatus r \<in> {TrigProcessed, TrigDead}"
      "r' \<in> set (Triggers (fold webhook_exec ops db))" "TId r' = TId r" for r r'
    using run_steps [OF assms that(1,3,4)] trigger_steps_final that(2) by blast
  then show ?thesis using webhook_run_wf [OF assms] by blast
qed

text \<open>Recording: the answer is read from the row of the body.\<close>

lemma record_row:
  assumes "RecordWebhookTrigger h events collectors now db = Inr (db', trigger, created)"
  shows "\<exists>r \<in> set (Triggers db'). TBodyHash r = trim_space h \<and> readWebhookTrigger r = Inr trigger"
proof -
  obtain r where "List.find (has_hash (trim_space h)) (Triggers db') = Some r" "readWebhookTrigger r = Inr trigger"
    using assms by (auto simp: RecordWebhookTrigger_def Let_def split: if_splits option.splits sum.splits)
  then show ?thesis by (auto simp: find_Some_iff has_hash_def)
qed

lemma record_again:
  assumes "RecordWebhookTrigger h events collectors now db = Inr (db', trigger, created)"
    and "\<exists>r \<in> set (Triggers db). TBodyHash r = trim_space h"
  shows "db' = db \<and> \<not> created"
proof -
  have "list_ex (has_hash (trim_space h)) (Triggers db)" using assms(2) by (auto simp: list_ex_iff has_hash_def)
  with assms(1) show ?thesis
    by (auto simp: RecordWebhookTrigger_def insert_trigger_def Let_def split: if_splits option.splits sum.splits)
qed

lemma read_core:
  assumes "readWebhookTrigger r = Inr t" and "readWebhookTrigger r' = Inr t'" and "trigger_core r' = trigger_core r"
  shows "TrigID t' = TrigID t \<and> TrigEvents t' = TrigEvents t \<and> TrigCollectors t' = TrigCollectors t"
  using assms trigger_core_fields [OF assms(3)] by (auto simp: readWebhookTrigger_def split: sum.splits)

lemma run_keeps_core:
  "\<forall>op \<in> set ops. \<forall>pick retention at. op \<noteq> HookDelete pick retention at \<Longrightarrow> r \<in> set (Triggers db) \<Longrightarrow>
     \<exists>r' \<in> set (Triggers (fold webhook_exec ops db)). trigger_core r' = trigger_core r"
proof (induction ops arbitrary: db r)
  case (Cons op ops)
  then have rest: "\<forall>op \<in> set ops. \<forall>pick retention at. op \<noteq> HookDelete pick retention at" by simp
  have "\<exists>q \<in> set (Triggers (webhook_exec op db)). trigger_core q = trigger_core r"
  proof (cases rule: exec_shape [of db op])
    case evolve
    from arg_cong [OF evolves_core [OF evolve(1)], of set] have
      "trigger_core ` set (Triggers (webhook_exec op db)) = trigger_core ` set (Triggers db)" by simp
    with imageI [OF Cons.prems(2), of trigger_core]
    have "trigger_core r \<in> trigger_core ` set (Triggers (webhook_exec op db))" by simp
    then show ?thesis by auto
  next
    case (added h events collectors now row trigger)
    with Cons.prems(2) show ?thesis by auto
  next
    case (deleted p pick retention at)
    with Cons.prems(1) show ?thesis by simp
  qed
  then obtain q where q: "q \<in> set (Triggers (webhook_exec op db))" "trigger_core q = trigger_core r" by blast
  from Cons.IH [OF rest q(1)] q(2) show ?case by simp
qed auto

text \<open>
  A delivery is recorded once. After a body has been recorded, and whatever happens to the
  queue except the removal of old finished rows, recording the same body again changes nothing
  and answers with the trigger that stands for it: a provider's retry or a replay of a captured
  request starts no second collection.
\<close>
theorem trigger_recorded_once:
  assumes "webhook_wf db"
    and "RecordWebhookTrigger h events collectors now db = Inr (db1, trigger, created)"
    and "\<forall>op \<in> set ops. \<forall>pick retention at. op \<noteq> HookDelete pick retention at"
    and "RecordWebhookTrigger h events' collectors' now' (fold webhook_exec ops db1) = Inr (db2, trigger', created')"
  shows "db2 = fold webhook_exec ops db1 \<and> \<not> created' \<and> TrigID trigger' = TrigID trigger
    \<and> TrigEvents trigger' = TrigEvents trigger \<and> TrigCollectors trigger' = TrigCollectors trigger"
proof -
  have wf: "webhook_wf db1" using webhook_exec_wf [OF assms(1), of "HookRecord h events collectors now"] assms(2) by simp
  obtain r where r: "r \<in> set (Triggers db1)" "TBodyHash r = trim_space h" "readWebhookTrigger r = Inr trigger"
    using record_row [OF assms(2)] by blast
  obtain r1 where r1: "r1 \<in> set (Triggers (fold webhook_exec ops db1))" "trigger_core r1 = trigger_core r"
    using run_keeps_core [OF assms(3) r(1)] by blast
  obtain r2 where r2: "r2 \<in> set (Triggers db2)" "TBodyHash r2 = trim_space h" "readWebhookTrigger r2 = Inr trigger'"
    using record_row [OF assms(4)] by blast
  have same: "db2 = fold webhook_exec ops db1 \<and> \<not> created'"
    using assms(4) r1(1) trigger_core_fields(2) [OF r1(2)] r(2) by (intro record_again) auto
  have "distinct (map TBodyHash (Triggers (fold webhook_exec ops db1)))"
    using webhook_run_wf [OF wf, of ops] by (simp add: webhook_wf_def)
  then have "r2 = r1" using same r1 r2 r(2) trigger_core_fields(2) [OF r1(2)] by (auto simp: distinct_map inj_on_def)
  with r2(3) have "readWebhookTrigger r1 = Inr trigger'" by simp
  with same r(3) r1(2) show ?thesis using read_core by blast
qed

text \<open>
  A worker whose leases are gone cannot finish or requeue a trigger: a list of claims none of
  whose tokens is current changes nothing, whatever operations came in between, as long as the
  random source does not repeat a token.
\<close>
theorem stale_trigger_worker_fenced:
  assumes "\<forall>(i, t) \<in> set claims. \<not> (\<exists>r \<in> set (Triggers db). TId r = i \<and> TStatus r = TrigProcessing \<and> TLeaseToken r = t)"
    and "\<forall>op \<in> set ops. \<forall>(i, t) \<in> set claims. t \<notin> webhook_issued op"
  shows "settle_triggers s claims (fold webhook_exec ops db) = fold webhook_exec ops db"
proof (rule settle_not_owned, intro ballI)
  fix c r assume c: "c \<in> set claims" and r: "r \<in> set (Triggers (fold webhook_exec ops db))"
  have "\<not> hooks.owns db (fst c) (snd c)"
    using assms(1) c unfolding hooks.owns_def trigger_holds_def by (cases c) fastforce
  moreover have "\<forall>op \<in> set ops. snd c \<notin> webhook_issued op" using assms(2) c by (cases c) fastforce
  ultimately have "\<not> hooks.owns (fold webhook_exec ops db) (fst c) (snd c)" by (rule hooks.lost_stays_lost)
  with r show "\<not> trigger_owned (fst c) (snd c) r"
    by (auto simp: hooks.owns_def trigger_holds_def trigger_owned_def)
qed

subsection \<open>The properties at a concrete input\<close>

definition sample_hash :: string where "sample_hash = replicate 64 (CHR ''0'')"

definition sample_hooks :: webhook_db where
  "sample_hooks =
     \<lparr> Triggers = [new_trigger 1 sample_hash [''policyUpdate''] [''policy''] 0], NextTriggerID = 2,
       WebhookSecretEnc = Some '''' \<rparr>"

lemma sample_read:
  "decodeWebhookMetadata (marshal (JArr (map JStr [''policyUpdate'']))) maxWebhookEventTypes = Inr [''policyUpdate'']"
  "decodeWebhookMetadata (marshal (JArr (map JStr [''policy'']))) maxWebhookCollectors = Inr [''policy'']"
  by code_simp+

lemma sample_hooks_wf: "webhook_wf sample_hooks"
  using sample_read by (simp add: webhook_wf_def sample_hooks_def new_trigger_def trigger_readable_def)

lemma sample_ready: "filter (claim_ready 5) (Triggers sample_hooks) = Triggers sample_hooks"
  by (simp add: sample_hooks_def new_trigger_def claim_ready_def webhookTriggerRetryWindow_def duration_defs)

theorem trigger_claim_exact_witness:
  "\<exists>db' claimed. ClaimWebhookTriggers 0 0 (\<lambda>_. ''t'') 5 sample_hooks = Inr (db', claimed)
    \<and> map TrigID claimed = [1]"
proof -
  have "map TId (take (trigger_limit 0) (filter (claim_ready 5) (Triggers sample_hooks))) = [1]"
    unfolding sample_ready
    by (simp add: sample_hooks_def new_trigger_def trigger_limit_def webhookTriggerBatchSize_def)
  with trigger_claim_exact [OF sample_hooks_wf, of 0 0 "\<lambda>_. ''t''" 5] show ?thesis by auto
qed

theorem trigger_probe_exact_witness:
  "\<exists>db' claimed. ClaimWebhookTriggers 0 0 (\<lambda>_. ''t'') 5 sample_hooks = Inr (db', claimed) \<and> db' \<noteq> sample_hooks"
proof -
  have "HasDueWebhookTriggers 5 sample_hooks"
    by (simp add: HasDueWebhookTriggers_def sample_hooks_def new_trigger_def)
  with trigger_probe_exact [OF sample_hooks_wf, of 5 0 0 "\<lambda>_. ''t''"] show ?thesis by blast
qed

theorem trigger_queue_invariant_witness:
  "webhook_wf (fold webhook_exec [HookClaim 0 0 (\<lambda>_. ''t'') 5, HookComplete 6 [(1, ''t'')]] sample_hooks)"
  using trigger_queue_invariant [OF sample_hooks_wf] by blast

definition empty_hooks :: webhook_db where
  "empty_hooks = \<lparr> Triggers = [], NextTriggerID = 1, WebhookSecretEnc = Some '''' \<rparr>"

lemma sample_record:
  "\<exists>trigger. RecordWebhookTrigger sample_hash [''policyUpdate''] [''policy''] 0 empty_hooks
     = Inr (sample_hooks, trigger, True)"
  "\<exists>trigger. RecordWebhookTrigger sample_hash [''policyUpdate''] [''policy''] 9 sample_hooks
     = Inr (sample_hooks, trigger, False)"
proof -
  have p: "trim_space sample_hash = sample_hash"
    unfolding sample_hash_def by (rule trim_space_plain) simp
  have l: "length sample_hash = 64" by (simp add: sample_hash_def)
  have h: "hex_decode sample_hash \<noteq> None" by code_simp
  have m: "\<not> list_ex (\<lambda>v. \<not> metadata_value_ok v) ([''policyUpdate''] @ [''policy''])" by code_simp
  have s: "sortedUnique [''policyUpdate''] = [''policyUpdate'']" "sortedUnique [''policy''] = [''policy'']"
    by code_simp+
  note defs = RecordWebhookTrigger_def Let_def insert_trigger_def has_hash_def new_trigger_def
    readWebhookTrigger_def maxWebhookEventTypes_def maxWebhookCollectors_def sha256HexLength_def
    sample_hooks_def
  show "\<exists>trigger. RecordWebhookTrigger sample_hash [''policyUpdate''] [''policy''] 0 empty_hooks
     = Inr (sample_hooks, trigger, True)"
    using h m sample_read by (simp add: defs p s l empty_hooks_def)
  show "\<exists>trigger. RecordWebhookTrigger sample_hash [''policyUpdate''] [''policy''] 9 sample_hooks
     = Inr (sample_hooks, trigger, False)"
    using h m sample_read by (simp add: defs p s l)
qed

theorem trigger_recorded_once_witness:
  "\<exists>first again. RecordWebhookTrigger sample_hash [''policyUpdate''] [''policy''] 0 empty_hooks = Inr (sample_hooks, first, True)
    \<and> RecordWebhookTrigger sample_hash [''policyUpdate''] [''policy''] 9 sample_hooks = Inr (sample_hooks, again, False)
    \<and> TrigID again = TrigID first"
proof -
  have "webhook_wf empty_hooks" by (simp add: webhook_wf_def empty_hooks_def)
  from trigger_recorded_once [OF this _ _, of sample_hash "[''policyUpdate'']" "[''policy'']" 0 sample_hooks _ True "[]"]
    sample_record show ?thesis by fastforce
qed

theorem stale_trigger_worker_fenced_witness:
  "settle_triggers (TrigComplete 9) [(1, ''x'')] (fold webhook_exec [HookClaim 0 0 (\<lambda>_. ''y'') 5] sample_hooks)
     = fold webhook_exec [HookClaim 0 0 (\<lambda>_. ''y'') 5] sample_hooks"
  by (rule stale_trigger_worker_fenced) (simp_all add: sample_hooks_def new_trigger_def)

end
