(* ===== verification/Web_Webhook.thy ===== *)
theory Web_Webhook
  imports Store_Webhooks
begin

text \<open>
  The HTTP handler of Tailscale webhooks, \<open>internal/web/webhook.go\<close>: it composes the stored
  secret, the verification of \<open>internal/webhook\<close> and the trigger queue of
  \<open>internal/store/webhooks.go\<close>.

  The request is its method, the outcome of reading its body (the middleware bounds the reader)
  and the signature header; \<open>engine\<close> says whether the monitor runs. The result is the response,
  the counted outcome, the request handed to the monitor, and the database. The clock is read
  twice, by the handler and by the store.
\<close>

datatype webhook_outcome =
    OutcomeAccepted
  | OutcomeContentFallback
  | OutcomeDuplicate
  | OutcomeInvalidSignature
  | OutcomeMalformed
  | OutcomeTooLarge
  | OutcomeNotConfigured
  | OutcomeUnavailable

datatype request_body = RequestBody string | BodyLimitHit | BodyReadFailed

record webhook_response =
  RespCode :: nat
  RespText :: string
  RespTrigger :: "int option"
  RespReconciliation :: string
  RespOutcome :: "webhook_outcome option"

record reconcile_request =
  ReqTriggerID :: int
  ReqTriggerIDs :: "int list"
  ReqCollectors :: "string list"

definition refuse :: "nat \<Rightarrow> string \<Rightarrow> webhook_outcome option \<Rightarrow> webhook_response" where
  "refuse code text outcome =
     \<lparr> RespCode = code, RespText = text, RespTrigger = None, RespReconciliation = '''',
       RespOutcome = outcome \<rparr>"

definition verify_refusal :: "webhook_error \<Rightarrow> webhook_response" where
  "verify_refusal e =
     (case e of
        ErrBodyTooLarge \<Rightarrow> refuse 413 ''webhook body too large'' (Some OutcomeTooLarge)
      | ErrMalformedBody _ \<Rightarrow> refuse 400 ''invalid webhook body'' (Some OutcomeMalformed)
      | ErrUnauthenticated _ \<Rightarrow> refuse 401 ''invalid webhook signature'' (Some OutcomeInvalidSignature))"

definition accept :: "delivery \<Rightarrow> WebhookTrigger \<Rightarrow> bool \<Rightarrow> webhook_response" where
  "accept d trigger created =
     \<lparr> RespCode = 202,
       RespText = (if created then ''accepted'' else ''duplicate''),
       RespTrigger = Some (TrigID trigger),
       RespReconciliation = (if Collectors d = [] then ''full'' else ''targeted''),
       RespOutcome =
         Some (if \<not> created then OutcomeDuplicate
               else if FallbackReason d \<noteq> NoFallback then OutcomeContentFallback
               else OutcomeAccepted) \<rparr>"

definition tailscaleWebhook ::
  "gcm_open \<Rightarrow> bool \<Rightarrow> string \<Rightarrow> request_body \<Rightarrow> string \<Rightarrow> instant \<Rightarrow> instant \<Rightarrow> webhook_db
     \<Rightarrow> webhook_response \<times> reconcile_request option \<times> webhook_db" where
  "tailscaleWebhook gopen engine rMethod request signature now recorded db =
     (if \<not> Method rMethod then (refuse 405 ''method not allowed'' None, None, db)
      else
        (case WebhookSecret gopen db of
           Inl NoRows \<Rightarrow> (refuse 404 ''webhook not configured'' (Some OutcomeNotConfigured), None, db)
         | Inl _ \<Rightarrow> (refuse 503 ''webhook unavailable'' (Some OutcomeUnavailable), None, db)
         | Inr secret \<Rightarrow>
             if secret = '''' then (refuse 404 ''webhook not configured'' (Some OutcomeNotConfigured), None, db)
             else
               (case request of
                  BodyLimitHit \<Rightarrow> (refuse 413 ''webhook body too large'' (Some OutcomeTooLarge), None, db)
                | BodyReadFailed \<Rightarrow> (refuse 400 ''invalid webhook body'' (Some OutcomeMalformed), None, db)
                | RequestBody body \<Rightarrow>
                    (case Verify body signature secret now of
                       Inl e \<Rightarrow> (verify_refusal e, None, db)
                     | Inr d \<Rightarrow>
                         (case RecordWebhookTrigger (BodyHash d) (EventTypes d) (Collectors d) recorded db of
                            Inl _ \<Rightarrow> (refuse 500 ''record webhook'' (Some OutcomeUnavailable), None, db)
                          | Inr (db', trigger, created) \<Rightarrow>
                              (accept d trigger created,
                               (if created \<and> engine
                                then Some \<lparr> ReqTriggerID = TrigID trigger, ReqTriggerIDs = [], ReqCollectors = Collectors d \<rparr>
                                else None),
                               db'))))))"

subsection \<open>Metadata that can be read back\<close>

lemma truncate_text_control:
  assumes "valid_utf8 s" and "\<not> has_control s"
  shows "\<not> has_control (truncate_text s n)"
proof -
  obtain rs where rs: "list_all valid_rune rs" "s = concat rs" using assms(1) by (rule valid_utf8_obtain)
  then have plain: "\<forall>r \<in> set rs. \<not> is_control r"
    using assms(2) by (auto simp: has_control_def list_ex_iff runes_concat)
  have e: "valid_rune ellipsis" "\<not> is_control ellipsis"
    by (simp_all add: ellipsis_def valid_rune_def is_control_def rune_tail.simps Let_def second_ok_def cont_byte_def)
  have cut: "\<not> has_control (take m s @ t)"
    if st: "m < length s \<Longrightarrow> rune_start (s ! m)" and le: "m \<le> length s" and t: "t = [] \<or> t = ellipsis" for m t
  proof -
    obtain k where k: "take m s = concat (take k rs)"
      using cut_at_rune_start [OF rs(1), of m] st le rs(2) by auto
    have v: "list_all valid_rune (take k rs)" using rs(1) by (metis append_take_drop_id list_all_append)
    have "runes (take m s @ t) = take k rs @ (if t = [] then [] else [ellipsis])"
      using runes_concat [OF v] runes_concat [of "take k rs @ [ellipsis]"] v e(1) t by (auto simp: k)
    then show ?thesis using plain e(2) by (auto simp: has_control_def list_ex_iff dest: in_set_takeD)
  qed
  have b: "rune_boundary s k < length s \<Longrightarrow> rune_start (s ! rune_boundary s k)" for k
  proof (cases "rune_boundary s k = 0")
    case True
    assume "rune_boundary s k < length s"
    then obtain r rs' where r: "rs = r # rs'" using rs(2) True by (cases rs) auto
    then have "s ! 0 = hd r" using valid_rune_parts(1) [of r] rs by (cases r) auto
    then show ?thesis using valid_rune_parts(2) [of r] r rs(1) True by simp
  qed (use rune_boundary_start [of s k] in auto)
  have le: "rune_boundary s k \<le> length s" if "k \<le> length s" for k
    using rune_boundary_le [of s k] that by linarith
  show ?thesis
    using assms(2) cut [OF b le, of _ "[]"] cut [OF b le, of _ ellipsis]
    by (auto simp: truncate_text_def has_control_def)
qed

lemma trim_marshal_array: "trim_space (marshal (JArr xs)) = marshal (JArr xs)"
  using trim_space_ends [of "CHR ''[''" "CHR '']''" "marshal_items xs"] by (simp add: is_space_def)

lemma decode_strings_marshal:
  "\<forall>v \<in> set vs. valid_utf8 v \<Longrightarrow> decode_strings (marshal (JArr (map JStr vs))) = Some vs"
proof -
  assume "\<forall>v \<in> set vs. valid_utf8 v"
  then have "unmarshal (marshal (JArr (map JStr vs))) = Some (JArr (map JStr vs))" by (intro unmarshal_marshal) simp
  moreover have "those (map (element_text \<circ> JStr) vs) = Some vs" by (induction vs) (simp_all add: element_text_def)
  ultimately show ?thesis by (simp add: decode_strings_def del: marshal.simps)
qed

lemma decode_metadata_marshal:
  assumes "\<forall>v \<in> set vs. valid_utf8 v \<and> metadata_value_ok v" and "length (sortedUnique vs) \<le> n"
  shows "decodeWebhookMetadata (marshal (JArr (map JStr vs))) n =
    (if maxWebhookMetadataJSONBytes < length (marshal (JArr (map JStr vs))) then Inl MetadataJSONSize
     else Inr (sortedUnique vs))"
proof -
  have "decode_strings (marshal (JArr (map JStr vs))) = Some vs" using assms(1) by (intro decode_strings_marshal) blast
  moreover have "\<not> list_ex (\<lambda>v. \<not> metadata_value_ok v) vs" using assms(1) by (auto simp: list_ex_iff)
  ultimately show ?thesis
    using assms(2) unfolding decodeWebhookMetadata_def Let_def trim_marshal_array by simp
qed

text \<open>Cleaning a list of acceptable values gives acceptable values.\<close>

lemma sorted_unique_ok:
  assumes "\<forall>v \<in> set vs. valid_utf8 v \<and> metadata_value_ok v"
  shows "\<forall>v \<in> set (sortedUnique vs). valid_utf8 v \<and> metadata_value_ok v"
proof
  fix v assume "v \<in> set (sortedUnique vs)"
  then obtain u where u: "u \<in> set vs" "v = trim_space u" by (auto simp: metadata.norm_set)
  with assms have "valid_utf8 u" "length u \<le> maxWebhookMetadataValueSize" "\<not> has_control u"
    by (auto simp: metadata_value_ok_def)
  with u(2) show "valid_utf8 v \<and> metadata_value_ok v"
    using length_trim_space [of u] valid_utf8_trim_space [of u] has_control_trim_space [of u]
    by (simp add: metadata_value_ok_def)
qed

text \<open>What \<open>RecordWebhookTrigger\<close> does with a body hash and acceptable values.\<close>

definition metadata_text :: "string list \<Rightarrow> string" where
  "metadata_text vs = marshal (JArr (map JStr (sortedUnique vs)))"

lemma record_values:
  assumes "length h = 64" and "hex_decode h \<noteq> None" and "trim_space h = h"
    and "\<forall>v \<in> set (events @ collectors). valid_utf8 v \<and> metadata_value_ok v"
    and "length (sortedUnique events) \<le> maxWebhookEventTypes"
    and "length (sortedUnique collectors) \<le> maxWebhookCollectors"
  shows "RecordWebhookTrigger h events collectors now db =
    (let db' = insert_trigger h (sortedUnique events) (sortedUnique collectors) now db
     in case List.find (has_hash h) (Triggers db') of
          None \<Rightarrow> Inl NoRows
        | Some r \<Rightarrow>
            (case readWebhookTrigger r of
               Inl e \<Rightarrow> Inl e
             | Inr trigger \<Rightarrow> Inr (db', trigger, \<not> list_ex (has_hash h) (Triggers db))))"
proof -
  have "\<not> list_ex (\<lambda>v. \<not> metadata_value_ok v) (events @ collectors)" using assms(4) by (auto simp: list_ex_iff)
  moreover obtain y where "hex_decode h = Some y" using assms(2) by auto
  ultimately show ?thesis using assms unfolding RecordWebhookTrigger_def
    by (simp add: Let_def sha256HexLength_def not_less del: list_ex_append)
qed

lemma read_new_trigger:
  assumes "\<forall>v \<in> set (events @ collectors). valid_utf8 v \<and> metadata_value_ok v"
    and "length (sortedUnique events) \<le> maxWebhookEventTypes"
    and "length (sortedUnique collectors) \<le> maxWebhookCollectors"
    and "length (metadata_text collectors) \<le> maxWebhookMetadataJSONBytes"
  shows "readWebhookTrigger (new_trigger i h (sortedUnique events) (sortedUnique collectors) now) =
    (if maxWebhookMetadataJSONBytes < length (metadata_text events) then Inl MetadataJSONSize
     else Inr \<lparr> TrigID = i, TrigHash = h, TrigReceived = now, TrigEvents = sortedUnique events,
            TrigCollectors = sortedUnique collectors, TrigStatus = TrigPending, TrigAttempts = 0,
            TrigNext = now, TrigLeaseUntil = None, TrigToken = '''', TrigError = '''',
            TrigProcessedAt = None \<rparr>)"
proof -
  have ev: "\<forall>v \<in> set (sortedUnique events). valid_utf8 v \<and> metadata_value_ok v"
    and co: "\<forall>v \<in> set (sortedUnique collectors). valid_utf8 v \<and> metadata_value_ok v"
    using assms(1) by (auto intro!: sorted_unique_ok)
  have t: "trim_space '''' = ''''" by (rule trim_space_plain) simp
  show ?thesis
    using decode_metadata_marshal [OF ev, of maxWebhookEventTypes] decode_metadata_marshal [OF co, of maxWebhookCollectors]
      assms(2,3,4)
    by (simp add: readWebhookTrigger_def new_trigger_def metadata.idempotent metadata_text_def t del: marshal.simps)
qed

subsection \<open>What a verified delivery asks the store to record\<close>

lemma decoded_event_type:
  assumes "decode_event v = Some e" and "json_ok v"
  shows "valid_utf8 (EvType e)"
proof -
  have s: "valid_utf8 s" if "obj_get m ''type'' = Some (JStr s)" "json_ok (JObj m)" for m s
    using that by (auto simp: obj_get_def dest!: map_of_SomeD)
  have t: "valid_utf8 s" if "text_member m ''type'' = Some s" "json_ok (JObj m)" for m s
    using that(1) s [OF _ that(2)] by (auto simp: text_member_def split: option.splits json.splits)
  have n: "json_ok (JObj [])" by simp
  show ?thesis
    using assms t t [OF _ n] by (cases v) (auto simp: decode_event_def Let_def split: option.splits)
qed

lemma decoded_event_types:
  assumes "decode_events body = Some es"
  shows "\<forall>e \<in> set es. valid_utf8 (EvType e)"
proof -
  have step: "those (map decode_event xs) = Some es \<Longrightarrow> \<forall>x \<in> set xs. json_ok x \<Longrightarrow> \<forall>e \<in> set es. valid_utf8 (EvType e)"
    for xs es by (induction xs arbitrary: es) (auto split: option.splits intro: decoded_event_type)
  from assms consider "es = []" | xs where "unmarshal body = Some (JArr xs)" "those (map decode_event xs) = Some es"
    by (auto simp: decode_events_def split: option.splits json.splits)
  then show ?thesis using step unmarshal_ok by cases fastforce+
qed

lemma event_step_ok:
  assumes "\<forall>e \<in> set es. valid_utf8 (EvType e)" and "\<forall>t \<in> set (fst st). valid_utf8 t \<and> metadata_value_ok t"
  shows "\<forall>t \<in> set (fst (fold event_type_step es st)). valid_utf8 t \<and> metadata_value_ok t"
  using assms
proof (induction es arbitrary: st)
  case (Cons e es)
  let ?t = "trim_space (EvType e)"
  have v: "valid_utf8 ?t" using Cons.prems(1) by (simp add: valid_utf8_trim_space)
  have l: "length (truncate_text ?t 128) \<le> 128" using truncate_text_length [of 128 ?t] by simp
  have cut: "valid_utf8 (truncate_text ?t 128) \<and> metadata_value_ok (truncate_text ?t 128)" if "\<not> has_control ?t"
    using truncate_text_valid [OF v, of 128] truncate_text_control [OF v that, of 128] l
    by (simp add: metadata_value_ok_def maxWebhookMetadataValueSize_def)
  have ok: "metadata_value_ok ?t" if "\<not> has_control ?t" "\<not> maxEventTypeLen < length ?t"
    using that by (simp add: metadata_value_ok_def maxWebhookMetadataValueSize_def maxEventTypeLen_def)
  have m: "int maxEventTypeLen = 128" by (simp add: maxEventTypeLen_def)
  have "\<forall>t \<in> set (fst (event_type_step e st)). valid_utf8 t \<and> metadata_value_ok t"
    using Cons.prems(2) v cut ok by (simp add: event_type_step_def Let_def m)
  from Cons.IH [OF _ this] Cons.prems(1) show ?case by simp
qed simp

lemma delivery_types_ok:
  assumes "classify_body body = Inr d"
  shows "(\<forall>t \<in> set (EventTypes d). valid_utf8 t \<and> metadata_value_ok t) \<and> length (EventTypes d) \<le> 100
    \<and> BodyHash d = sha256_hex body"
proof -
  obtain es where es: "decode_events body = Some es"
    using assms by (auto simp: classify_body_def split: option.splits)
  let ?st = "if es = [] \<or> maxEvents < length es then FallbackEventCount else NoFallback"
  have d: "EventTypes d = take maxEvents (uniqueSorted (fst (fold event_type_step es ([], ?st))))"
      "BodyHash d = sha256_hex body"
    using assms by (auto simp: classify_body_def es Let_def split: prod.splits)
  show ?thesis
    using event_step_ok [OF decoded_event_types [OF es], of "([], ?st)"] d
    by (auto simp: types.norm_set maxEvents_def dest!: in_set_takeD)
qed


definition collectorNames :: "string list" where
  "collectorNames = [''device_details'', ''devices'', ''policy'', ''user_invites'', ''users'', ''webhooks'']"

lemma event_collectors_names: "event_collectors t = Some cs \<Longrightarrow> set cs \<subseteq> set collectorNames"
  by (auto simp: event_collectors_def collectorNames_def Let_def split: if_splits)

lemma delivery_collectors_names:
  assumes "classify_body body = Inr d"
  shows "set (Collectors d) \<subseteq> set collectorNames \<and> sorted (Collectors d) \<and> distinct (Collectors d)"
proof -
  have "set (CollectorsFor es) \<subseteq> set collectorNames \<and> sorted (CollectorsFor es) \<and> distinct (CollectorsFor es)" for es
  proof (cases "\<exists>e \<in> set es. event_collectors (EvType e) = None")
    case False
    have "targets es \<subseteq> set collectorNames"
      using False event_collectors_names by (fastforce simp: targets_def)
    moreover have "finite (targets es)" by (simp add: targets_def)
    ultimately show ?thesis using False by (simp add: collectors_for_spec del: not_None_eq)
  qed (simp add: collectors_for_spec)
  moreover have "Collectors d = [] \<or> (\<exists>es. Collectors d = CollectorsFor es)"
    using assms by (auto simp: classify_body_def Let_def split: option.splits prod.splits) blast
  ultimately show ?thesis by fastforce
qed

lemma collector_name_ok:
  "c \<in> set collectorNames \<Longrightarrow> valid_utf8 c \<and> metadata_value_ok c \<and> trim_space c = c \<and> c \<noteq> ''''"
proof -
  have "list_all (\<lambda>c. list_all (\<lambda>b. 32 < byte_of b \<and> byte_of b < 127) c \<and> length c \<le> 128 \<and> c \<noteq> '''') collectorNames"
    by code_simp
  moreover assume "c \<in> set collectorNames"
  ultimately have c: "\<forall>b \<in> set c. 32 < byte_of b \<and> byte_of b < 127" "length c \<le> 128" "c \<noteq> ''''"
    by (auto simp: list_all_iff)
  have "runes c = map (\<lambda>b. [b]) c" using c(1) by (intro runes_ascii) auto
  then have "\<not> has_control c" using c(1) by (auto simp: has_control_def list_ex_iff is_control_def)
  moreover have "trim_space c = c" using c(1) by (intro trim_space_plain) auto
  moreover have "valid_utf8 c" using c(1) by (intro valid_utf8_ascii) auto
  ultimately show ?thesis using c by (simp add: metadata_value_ok_def maxWebhookMetadataValueSize_def)
qed

lemma sorted_unique_names:
  assumes "set cs \<subseteq> set collectorNames" and "sorted cs" and "distinct cs"
  shows "sortedUnique cs = cs"
proof (rule sorted_distinct_set_unique)
  show "set (sortedUnique cs) = set cs"
    using assms(1) collector_name_ok by (force simp: metadata.norm_set image_iff)
qed (use assms metadata.norm_sorted metadata.norm_distinct in auto)

text \<open>The longest metadata text of the collectors is far below the limit.\<close>

lemma length_unicode_escape: "length (unicode_escape n) = 6"
  by (simp add: unicode_escape_def)

lemma length_escape_rune: "length (escape_rune r) \<le> 6 * length r"
proof (cases "\<exists>c. r = [c]")
  case True
  then obtain c where "r = [c]" ..
  then show ?thesis by (simp add: escape_rune_def Let_def length_unicode_escape)
next
  case False
  then show ?thesis
    by (auto simp: escape_rune_def length_unicode_escape split: list.split)
qed

lemma length_quote_text: "length (quote_text s) \<le> 6 * length s + 2"
proof -
  have "length (concat (map escape_rune rs)) \<le> 6 * length (concat rs)" for rs
  proof (induction rs)
    case (Cons r rs)
    then show ?case using length_escape_rune [of r] by simp
  qed simp
  from this [of "runes s"] show ?thesis by (simp add: quote_text_def escape_text_def)
qed

lemma length_marshal_items:
  "\<forall>v \<in> set vs. length v \<le> n \<Longrightarrow> length (marshal_items (map JStr vs)) \<le> (6 * n + 3) * length vs"
proof (induction vs)
  case (Cons v vs)
  have "length (quote_text v) \<le> 6 * n + 2" using length_quote_text [of v] Cons.prems by fastforce
  with Cons show ?case by (cases vs) auto
qed simp

lemma collectors_text_short:
  assumes "set cs \<subseteq> set collectorNames" and "sorted cs" and "distinct cs"
  shows "length (metadata_text cs) \<le> maxWebhookMetadataJSONBytes" "length cs \<le> maxWebhookCollectors"
proof -
  have l: "\<forall>c \<in> set cs. length c \<le> 14"
    using assms(1) by (auto simp: collectorNames_def)
  have "card (set cs) \<le> card (set collectorNames)" using assms(1) by (intro card_mono) auto
  also have "\<dots> = 6" by code_simp
  finally have n: "length cs \<le> 6" using distinct_card [OF assms(3)] by simp
  then show "length cs \<le> maxWebhookCollectors" by (simp add: maxWebhookCollectors_def)
  have "length (metadata_text cs) \<le> 2 + (6 * 14 + 3) * length cs"
    using length_marshal_items [OF l] unfolding metadata_text_def sorted_unique_names [OF assms] by simp
  also have "\<dots> \<le> 2 + (6 * 14 + 3) * 6" using n by simp
  finally show "length (metadata_text cs) \<le> maxWebhookMetadataJSONBytes"
    by (simp add: maxWebhookMetadataJSONBytes_def)
qed


lemma find_after: "List.find P xs = None \<Longrightarrow> List.find P (xs @ [y]) = (if P y then Some y else None)"
  by (induction xs) (auto split: if_splits)

text \<open>Hence, for a delivery whose event types fit in the column, the store records it.\<close>

lemma classified: "Verify body signature secret now = Inr d \<Longrightarrow> classify_body body = Inr d"
  by (auto simp: Verify_def Let_def split: if_splits sum.splits)

lemma hex_hash_plain: "trim_space (sha256_hex s) = sha256_hex s"
  unfolding sha256_hex_def by (rule trim_space_plain) (auto dest: hex_encode_plain)

lemma length_sorted_unique: "length vs \<le> n \<Longrightarrow> length (sortedUnique vs) \<le> n"
  using metadata.length_le [of vs] by linarith

lemma record_delivery:
  assumes "classify_body body = Inr d"
  shows "RecordWebhookTrigger (BodyHash d) (EventTypes d) (Collectors d) recorded db =
    (let db' = insert_trigger (sha256_hex body) (sortedUnique (EventTypes d)) (Collectors d) recorded db
     in case List.find (has_hash (sha256_hex body)) (Triggers db') of
          None \<Rightarrow> Inl NoRows
        | Some r \<Rightarrow>
            (case readWebhookTrigger r of
               Inl e \<Rightarrow> Inl e
             | Inr trigger \<Rightarrow> Inr (db', trigger, \<not> list_ex (has_hash (sha256_hex body)) (Triggers db))))"
proof -
  note t = delivery_types_ok [OF assms] and c = delivery_collectors_names [OF assms]
  have cs: "sortedUnique (Collectors d) = Collectors d" using c sorted_unique_names by blast
  have h: "hex_decode (sha256_hex body) = Some (sha256 body)" by (simp add: sha256_hex_def hex_round_trip)
  have "RecordWebhookTrigger (sha256_hex body) (EventTypes d) (Collectors d) recorded db =
    (let db' = insert_trigger (sha256_hex body) (sortedUnique (EventTypes d)) (sortedUnique (Collectors d)) recorded db
     in case List.find (has_hash (sha256_hex body)) (Triggers db') of
          None \<Rightarrow> Inl NoRows
        | Some r \<Rightarrow>
            (case readWebhookTrigger r of
               Inl e \<Rightarrow> Inl e
             | Inr trigger \<Rightarrow> Inr (db', trigger, \<not> list_ex (has_hash (sha256_hex body)) (Triggers db))))"
  proof (rule record_values)
    show "\<forall>v \<in> set (EventTypes d @ Collectors d). valid_utf8 v \<and> metadata_value_ok v"
      using t c collector_name_ok by auto
    show "length (sortedUnique (EventTypes d)) \<le> maxWebhookEventTypes"
      using t by (intro length_sorted_unique) (simp add: maxWebhookEventTypes_def)
    show "length (sortedUnique (Collectors d)) \<le> maxWebhookCollectors"
      unfolding cs using collectors_text_short(2) c by blast
  qed (simp_all add: length_sha256_hex hex_hash_plain h)
  then show ?thesis using t unfolding cs by simp
qed

lemma read_delivery_row:
  assumes "classify_body body = Inr d"
  shows "readWebhookTrigger (new_trigger i h (sortedUnique (EventTypes d)) (Collectors d) recorded) =
    (if maxWebhookMetadataJSONBytes < length (metadata_text (EventTypes d)) then Inl MetadataJSONSize
     else Inr \<lparr> TrigID = i, TrigHash = h, TrigReceived = recorded, TrigEvents = sortedUnique (EventTypes d),
            TrigCollectors = Collectors d, TrigStatus = TrigPending, TrigAttempts = 0,
            TrigNext = recorded, TrigLeaseUntil = None, TrigToken = '''', TrigError = '''',
            TrigProcessedAt = None \<rparr>)"
proof -
  note t = delivery_types_ok [OF assms] and c = delivery_collectors_names [OF assms]
  have cs: "sortedUnique (Collectors d) = Collectors d" using c sorted_unique_names by blast
  have "length (metadata_text (Collectors d)) \<le> maxWebhookMetadataJSONBytes"
    and "length (sortedUnique (Collectors d)) \<le> maxWebhookCollectors"
    unfolding cs using collectors_text_short c by blast+
  moreover have "length (sortedUnique (EventTypes d)) \<le> maxWebhookEventTypes"
    using t by (intro length_sorted_unique) (simp add: maxWebhookEventTypes_def)
  moreover have "\<forall>v \<in> set (EventTypes d @ Collectors d). valid_utf8 v \<and> metadata_value_ok v"
    using t c collector_name_ok by auto
  ultimately show ?thesis
    using read_new_trigger [of "EventTypes d" "Collectors d" i h recorded] unfolding cs by blast
qed

text \<open>What the handler does with an accepted delivery whose body the queue has not seen.\<close>

lemma handler_new_delivery:
  fixes recorded :: instant
  assumes "WebhookSecret gopen db = Inr secret" and "secret \<noteq> ''''"
    and "Verify body signature secret now = Inr d"
    and "length (metadata_text (EventTypes d)) \<le> maxWebhookMetadataJSONBytes"
    and "sha256_hex body \<notin> TBodyHash ` set (Triggers db)"
  defines "row \<equiv> new_trigger (NextTriggerID db) (sha256_hex body) (sortedUnique (EventTypes d)) (Collectors d) recorded"
  shows "\<exists>t. readWebhookTrigger row = Inr t \<and> TrigCollectors t = Collectors d
    \<and> RecordWebhookTrigger (BodyHash d) (EventTypes d) (Collectors d) recorded db =
        Inr (db\<lparr>Triggers := Triggers db @ [row], NextTriggerID := NextTriggerID db + 1\<rparr>, t, True)
    \<and> tailscaleWebhook gopen True ''POST'' (RequestBody body) signature now recorded db =
        (accept d t True,
         Some \<lparr> ReqTriggerID = NextTriggerID db, ReqTriggerIDs = [], ReqCollectors = Collectors d \<rparr>,
         db\<lparr>Triggers := Triggers db @ [row], NextTriggerID := NextTriggerID db + 1\<rparr>)"
proof -
  let ?h = "sha256_hex body"
  let ?db = "db\<lparr>Triggers := Triggers db @ [row], NextTriggerID := NextTriggerID db + 1\<rparr>"
  note cl = classified [OF assms(3)]
  have new: "\<not> list_ex (has_hash ?h) (Triggers db)" using assms(5) by (simp add: hash_fresh)
  have i: "insert_trigger ?h (sortedUnique (EventTypes d)) (Collectors d) recorded db = ?db"
    using new by (simp add: insert_trigger_def row_def)
  have "List.find (has_hash ?h) (Triggers db) = None"
    using new by (auto simp: find_None_iff list_ex_iff)
  then have f: "List.find (has_hash ?h) (Triggers ?db) = Some row"
    by (simp add: find_after has_hash_def new_trigger_def row_def)
  obtain t where t: "readWebhookTrigger row = Inr t" "TrigID t = NextTriggerID db" "TrigCollectors t = Collectors d"
  proof
    show "readWebhookTrigger row = Inr \<lparr> TrigID = NextTriggerID db, TrigHash = ?h, TrigReceived = recorded,
        TrigEvents = sortedUnique (EventTypes d), TrigCollectors = Collectors d, TrigStatus = TrigPending,
        TrigAttempts = 0, TrigNext = recorded, TrigLeaseUntil = None, TrigToken = '''', TrigError = '''',
        TrigProcessedAt = None \<rparr>"
      unfolding row_def read_delivery_row [OF cl] using assms(4) by simp
  qed simp_all
  have rec: "RecordWebhookTrigger (BodyHash d) (EventTypes d) (Collectors d) recorded db = Inr (?db, t, True)"
    unfolding record_delivery [OF cl] Let_def i f by (simp add: t new)
  show ?thesis using assms(1-3) rec t by (auto simp: tailscaleWebhook_def Method_def)
qed

subsection \<open>Properties\<close>


text \<open>22 event types of 128 bytes each, whose JSON text is six times as long.\<close>

definition angleType :: "char \<Rightarrow> string" where
  "angleType c = replicate 127 (CHR ''<'') @ [c]"

definition angleTypes :: "string list" where
  "angleTypes = map angleType ''abcdefghijklmnopqrstuv''"

definition angleBody :: string where
  "angleBody = marshal (JArr (map (\<lambda>t. JObj [(''type'', JStr t)]) angleTypes))"

lemma angle_letters: "t \<in> set angleTypes \<Longrightarrow> \<exists>c. t = angleType c \<and> 97 \<le> byte_of c \<and> byte_of c \<le> 122"
  by (auto simp: angleTypes_def)

lemma angle_plain:
  assumes "t \<in> set angleTypes"
  shows "\<forall>c \<in> set t. 32 < byte_of c \<and> byte_of c < 127" "length t = 128"
proof -
  obtain c where c: "t = angleType c" "97 \<le> byte_of c" "byte_of c \<le> 122" using angle_letters [OF assms] by blast
  then show "\<forall>c \<in> set t. 32 < byte_of c \<and> byte_of c < 127" "length t = 128" by (auto simp: angleType_def)
qed

lemma angle_facts:
  assumes "t \<in> set angleTypes"
  shows "trim_space t = t" "\<not> has_control t" "valid_utf8 t" "t \<noteq> ''''"
proof -
  note a = angle_plain [OF assms]
  show "trim_space t = t" using a by (intro trim_space_plain) auto
  have "runes t = map (\<lambda>b. [b]) t" using a by (intro runes_ascii) auto
  then show "\<not> has_control t" using a by (auto simp: has_control_def list_ex_iff is_control_def)
  show "valid_utf8 t" using a by (intro valid_utf8_ascii) auto
  show "t \<noteq> ''''" using a(2) by auto
qed

lemma angle_quote: "t \<in> set angleTypes \<Longrightarrow> length (quote_text t) = 765"
proof -
  assume t: "t \<in> set angleTypes"
  then obtain c where c: "t = angleType c" "97 \<le> byte_of c" "byte_of c \<le> 122" using angle_letters by blast
  have r: "runes t = map (\<lambda>b. [b]) t" using angle_plain(1) [OF t] by (intro runes_ascii) auto
  have "escape_rune [c] = [c]" using c by (simp add: escape_rune_def Let_def)
  moreover have "escape_rune ''<'' = unicode_escape 60" by (simp add: escape_rune_def Let_def)
  ultimately have "length (concat (map escape_rune (map (\<lambda>b. [b]) (angleType c)))) = 763"
    by (simp add: angleType_def length_concat length_unicode_escape map_replicate_const sum_list_replicate)
  then show ?thesis using r c by (simp add: quote_text_def escape_text_def)
qed

lemma angle_types: "sorted angleTypes" "distinct angleTypes" "length angleTypes = 22"
proof -
  have le: "angleType c \<le> angleType d \<longleftrightarrow> c \<le> d" for c d
  proof -
    have "(replicate n (CHR ''<'') @ [c] \<le> replicate n (CHR ''<'') @ [d]) \<longleftrightarrow> c \<le> d" for n
      by (induction n) (auto simp: le_less)
    then show ?thesis by (simp add: angleType_def)
  qed
  have i: "inj angleType" by (simp add: inj_def angleType_def)
  have "sorted_wrt (\<le>) ''abcdefghijklmnopqrstuv''" by (simp add: less_eq_char_def)
  then show "sorted angleTypes" by (simp add: angleTypes_def sorted_map le)
  have "distinct ''abcdefghijklmnopqrstuv''" by simp
  then show "distinct angleTypes" unfolding angleTypes_def distinct_map using inj_on_subset [OF i subset_UNIV] by blast
  show "length angleTypes = 22" by (simp add: angleTypes_def)
qed

lemma length_items:
  "vs \<noteq> [] \<Longrightarrow> \<forall>v \<in> set vs. length (marshal v) = n \<Longrightarrow> length (marshal_items vs) + 1 = (n + 1) * length vs"
proof (induction vs)
  case (Cons v vs)
  then show ?case by (cases vs) auto
qed simp

lemma angle_sizes: "length (marshal (JArr (map JStr angleTypes))) = 16853" "length angleBody = 17051"
proof -
  have n: "map JStr angleTypes \<noteq> []" "map (\<lambda>t. JObj [(''type'', JStr t)]) angleTypes \<noteq> []"
    using angle_types(3) by auto
  have "length (marshal_items (map JStr angleTypes)) + 1 = (765 + 1) * length (map JStr angleTypes)"
    by (rule length_items [OF n(1)]) (simp add: angle_quote)
  then show "length (marshal (JArr (map JStr angleTypes))) = 16853" using angle_types(3) by simp
  have q: "length (quote_text ''type'') = 6" by code_simp
  have "length (marshal_items (map (\<lambda>t. JObj [(''type'', JStr t)]) angleTypes)) + 1 =
      (774 + 1) * length (map (\<lambda>t. JObj [(''type'', JStr t)]) angleTypes)"
    by (rule length_items [OF n(2)]) (simp add: angle_quote q)
  then show "length angleBody = 17051" using angle_types(3) by (simp add: angleBody_def)
qed


definition angleEvent :: "string \<Rightarrow> event" where
  "angleEvent t =
     \<lparr> EvTimestamp = '''', EvVersion = JNull, EvType = t, EvTailnet = '''', EvMessage = '''', EvData = JNull \<rparr>"

lemma angle_decode: "decode_events angleBody = Some (map angleEvent angleTypes)"
proof -
  let ?v = "\<lambda>t. JObj [(''type'', JStr t)]"
  have "valid_utf8 ''type''" by code_simp
  then have "\<forall>t \<in> set angleTypes. json_ok (?v t)" using angle_facts(3) by simp
  then have "unmarshal angleBody = Some (JArr (map ?v angleTypes))"
    unfolding angleBody_def by (intro unmarshal_marshal) simp
  moreover have "those (map decode_event (map ?v ts)) = Some (map angleEvent ts)" for ts
  proof (induction ts)
    case (Cons t ts)
    have "decode_event (?v t) = Some (angleEvent t)"
      by (simp add: decode_event_def text_member_def raw_member_def obj_get_def angleEvent_def)
    with Cons show ?case by simp
  qed simp
  ultimately show ?thesis by (simp add: decode_events_def)
qed

lemma angle_fold:
  "set ts \<subseteq> set angleTypes \<Longrightarrow> fold event_type_step (map angleEvent ts) (acc, st) = (acc @ ts, st)"
proof (induction ts arbitrary: acc)
  case (Cons t ts)
  then have t: "t \<in> set angleTypes" by simp
  have "event_type_step (angleEvent t) (acc, st) = (acc @ [t], st)"
    using angle_facts [OF t] angle_plain(2) [OF t]
    by (simp add: event_type_step_def angleEvent_def Let_def maxEventTypeLen_def)
  with Cons show ?case by simp
qed simp

lemma angle_delivery:
  obtains d where "classify_body angleBody = Inr d" "EventTypes d = angleTypes"
proof -
  have n: "angleTypes \<noteq> []" using angle_types(3) by auto
  have u: "uniqueSorted angleTypes = angleTypes"
    using angle_types by (simp add: uniqueSorted_def uniq_distinct sorted_sort_id)
  have "\<exists>d. classify_body angleBody = Inr d \<and> EventTypes d = angleTypes"
    using angle_types(3) n
    by (simp add: classify_body_def angle_decode angle_fold u Let_def maxEvents_def)
  then show thesis using that by blast
qed

text \<open>
  C10. Some authentic deliveries are refused. The bound on the stored metadata is checked on its
  JSON text, where a character such as \<open><\<close> takes six bytes, so 22 event types of the accepted
  length 128 exceed it: such a delivery, correctly signed and fresh, is answered 500 and leaves
  no trigger, whatever the queue holds, instead of asking for a full reconciliation.
\<close>
theorem authentic_delivery_refused:
  assumes "WebhookSecret gopen db = Inr secret" and "trim_space secret \<noteq> ''''"
    and "sha256_hex angleBody \<notin> TBodyHash ` set (Triggers db)"
    and "0 < t" and "t < 2 ^ 63" and "t * second \<le> now + maxFutureSkew" and "now - t * second \<le> maxSignatureAge"
  shows "tailscaleWebhook gopen engine ''POST'' (RequestBody angleBody)
      (SignatureForTest angleBody (trim_space secret) t) now recorded db =
    (refuse 500 ''record webhook'' (Some OutcomeUnavailable), None, db)"
proof -
  obtain d where d: "classify_body angleBody = Inr d" "EventTypes d = angleTypes" by (rule angle_delivery)
  have b: "angleBody \<noteq> ''''" "length angleBody \<le> MaxBodyBytes"
    using angle_sizes(2) by (auto simp: MaxBodyBytes_def)
  have v: "Verify angleBody (SignatureForTest angleBody (trim_space secret) t) secret now = Inr d"
    using verify_signed [OF b assms(2,4-7)] d(1) by simp
  have s: "secret \<noteq> ''''" using assms(2) trim_space_plain [of "''''"] by auto
  have su: "sortedUnique angleTypes = angleTypes"
  proof (rule sorted_distinct_set_unique)
    show "set (sortedUnique angleTypes) = set angleTypes"
      using angle_facts by (force simp: metadata.norm_set image_iff)
  qed (use angle_types metadata.norm_sorted metadata.norm_distinct in auto)
  let ?h = "sha256_hex angleBody"
  let ?row = "new_trigger (NextTriggerID db) ?h (sortedUnique (EventTypes d)) (Collectors d) recorded"
  have n: "\<not> list_ex (has_hash ?h) (Triggers db)" using assms(3) by (simp add: hash_fresh)
  then have f: "List.find (has_hash ?h) (Triggers db) = None" by (auto simp: find_None_iff list_ex_iff)
  have r: "readWebhookTrigger ?row = Inl MetadataJSONSize"
    unfolding read_delivery_row [OF d(1)] unfolding metadata_text_def d(2) su angle_sizes(1)
    by (simp add: maxWebhookMetadataJSONBytes_def)
  have "List.find (has_hash ?h) (Triggers (insert_trigger ?h (sortedUnique (EventTypes d)) (Collectors d) recorded db)) = Some ?row"
    using n find_after [OF f, of ?row] by (simp add: insert_trigger_def has_hash_def new_trigger_def)
  then have "RecordWebhookTrigger (BodyHash d) (EventTypes d) (Collectors d) recorded db = Inl MetadataJSONSize"
    unfolding record_delivery [OF d(1)] Let_def by (simp add: r)
  then show ?thesis using assms(1) v s by (simp add: tailscaleWebhook_def Method_def)
qed

subsection \<open>The properties at a concrete input\<close>

definition toy_secret :: string where
  "toy_secret = seal_envelope toy_seal envelopeVersionV2
     (v2AdditionalData (settingsBinding ''webhook_secret_enc'')) ''k'' ''abcdefghijkl''"

definition secret_hooks :: webhook_db where
  "secret_hooks = \<lparr> Triggers = [], NextTriggerID = 1, WebhookSecretEnc = Some toy_secret \<rparr>"

lemma toy_webhook_secret: "WebhookSecret toy_open secret_hooks = Inr ''k''"
proof -
  have "Open toy_open (settingsBinding ''webhook_secret_enc'') toy_secret = Inr ''k''"
    unfolding toy_secret_def using toy_gcm
    by (subst open_v2) (simp_all add: nonce_size_def settingsBinding_def gcm_correct_def)
  moreover have "toy_secret \<noteq> ''''" by (simp add: toy_secret_def seal_envelope_def)
  ultimately show ?thesis by (simp add: WebhookSecret_def secret_hooks_def)
qed

lemma toy_trim: "trim_space ''k'' = ''k''" by (rule trim_space_plain) simp


theorem authentic_delivery_refused_witness:
  "tailscaleWebhook toy_open True ''POST'' (RequestBody angleBody)
      (SignatureForTest angleBody (trim_space ''k'') 100) (100 * second) (100 * second) secret_hooks =
    (refuse 500 ''record webhook'' (Some OutcomeUnavailable), None, secret_hooks)"
  by (rule authentic_delivery_refused [OF toy_webhook_secret])
    (simp_all add: toy_trim secret_hooks_def maxFutureSkew_def maxSignatureAge_def duration_defs)

end
