(* ===== verification/Monitor_Collectors.thy ===== *)
theory Monitor_Collectors
  imports GoText
begin

text \<open>
  The collectors the monitor knows (\<open>internal/tailscale/client.go\<close>), the normal form of a scope of
  collectors and the delays between attempts (\<open>internal/monitor/scheduler.go\<close>, \<open>cleanup.go\<close>).

  \<open>rand.Int64N(n)\<close> is the argument \<open>rnd\<close>, a number in \<open>{0..<n}\<close>. The doublings stay below twice
  the limit, so no 64-bit duration overflows.
\<close>

definition CoreCollectors :: "string list" where "CoreCollectors = [''devices'']"

definition InventoryCollectors :: "string list" where
  "InventoryCollectors =
     [''device_details'', ''users'', ''user_invites'', ''dns'', ''policy'', ''keys'', ''webhooks'',
      ''log_streaming'', ''contacts'', ''posture'', ''settings'', ''services'', ''oauth_apps'']"

definition allCollectors :: "string list" where
  "allCollectors = CoreCollectors @ InventoryCollectors"

subsection \<open>Scopes\<close>

fun priority_from :: "nat \<Rightarrow> string list \<Rightarrow> string \<Rightarrow> nat" where
  "priority_from i [] c = i"
| "priority_from i (core # cs) c = (if c = core then i else priority_from (Suc i) cs c)"

definition collectorPriority :: "string \<Rightarrow> nat" where
  "collectorPriority c = priority_from 0 CoreCollectors c"

definition collector_before :: "string \<Rightarrow> string \<Rightarrow> bool" where
  "collector_before a b \<longleftrightarrow>
     (if collectorPriority a \<noteq> collectorPriority b then collectorPriority a < collectorPriority b else a < b)"

definition normalizeCollectors :: "string list \<Rightarrow> string list" where
  "normalizeCollectors cs =
     (let named = filter (\<lambda>c. c \<noteq> '''') (map trim_space cs)
      in if list_ex (\<lambda>c. c \<notin> set allCollectors) named then []
         else sort_stable collector_before (uniq named))"

definition unionScopes :: "string list list \<Rightarrow> string list" where
  "unionScopes scopes =
     (if list_ex (\<lambda>scope. normalizeCollectors scope = []) scopes then allCollectors
      else normalizeCollectors (concat (map normalizeCollectors scopes)))"

subsection \<open>Delays\<close>

definition collectorRetryInterval :: duration where "collectorRetryInterval = 30 * second"
definition cleanupPollInterval :: duration where "cleanupPollInterval = hour"
definition cleanupContinuationInterval :: duration where "cleanupContinuationInterval = second"

definition jitter :: "(int \<Rightarrow> int) \<Rightarrow> duration \<Rightarrow> duration" where
  "jitter rnd base = (if base \<le> 0 then minute else base + rnd (max (base div 10) 1))"

definition nextPollDelay :: "(int \<Rightarrow> int) \<Rightarrow> duration \<Rightarrow> bool \<Rightarrow> duration" where
  "nextPollDelay rnd base successful =
     (if successful then jitter rnd base else jitter rnd collectorRetryInterval)"

text \<open>The shift count of \<open>retryDelay\<close> is never negative: attempts are counted from one.\<close>

definition retryDelay :: "(int \<Rightarrow> int) \<Rightarrow> nat \<Rightarrow> duration" where
  "retryDelay rnd attempt =
     (let delay = min (5 * second * 2 ^ min attempt 10) hour
      in delay + rnd (max (delay div 5) 1))"

text \<open>\<open>for attempt := 1; attempt < failures && delay < limit; attempt++\<close>, the first argument the
  number of rounds left.\<close>

fun double_below :: "nat \<Rightarrow> duration \<Rightarrow> duration \<Rightarrow> duration" where
  "double_below 0 limit delay = delay"
| "double_below (Suc n) limit delay = (if delay < limit then double_below n limit (delay * 2) else delay)"

definition collectorRetryDelay :: "int \<Rightarrow> duration \<Rightarrow> duration" where
  "collectorRetryDelay failures interval =
     (let limit = max interval collectorRetryInterval
      in min (double_below (nat (failures - 1)) limit collectorRetryInterval) limit)"

definition cleanup_next :: "nat \<Rightarrow> bool \<Rightarrow> bool \<Rightarrow> nat \<times> duration" where
  "cleanup_next failures remaining failed =
     (if failed
      then (Suc failures,
            min (double_below failures cleanupPollInterval cleanupContinuationInterval) cleanupPollInterval)
      else (0, if remaining \<and> cleanupContinuationInterval < cleanupPollInterval
               then cleanupContinuationInterval else cleanupPollInterval))"

text \<open>\<open>cleanupPass\<close>: a failed pass, one that overran its budget and one that went well.\<close>

definition cleanup_delay :: "nat \<Rightarrow> bool \<Rightarrow> bool \<Rightarrow> bool \<Rightarrow> nat \<times> duration" where
  "cleanup_delay failures remaining failed overran =
     (if failed then cleanup_next failures remaining True
      else if overran then cleanup_next failures True True
      else cleanup_next failures remaining False)"

subsection \<open>The normal form of a scope\<close>

lemma collectors_distinct: "distinct allCollectors"
  by (simp add: allCollectors_def CoreCollectors_def InventoryCollectors_def)

lemma all_not_empty: "'''' \<notin> set allCollectors" "allCollectors \<noteq> []"
  by (simp_all add: allCollectors_def CoreCollectors_def InventoryCollectors_def)

lemma collector_plain: "c \<in> set allCollectors \<Longrightarrow> trim_space c = c"
proof -
  assume c: "c \<in> set allCollectors"
  have "list_all (\<lambda>c. \<forall>x \<in> set c. 32 < byte_of x \<and> byte_of x < 128) allCollectors"
    by (simp add: allCollectors_def CoreCollectors_def InventoryCollectors_def)
  with c show ?thesis by (intro trim_space_plain) (simp add: list_all_iff)
qed

lemma set_normalizeCollectors:
  "set (normalizeCollectors cs) =
     (let named = trim_space ` set cs - {''''} in if named \<subseteq> set allCollectors then named else {})"
  by (auto simp: normalizeCollectors_def Let_def list_ex_iff)

lemma normalize_known: "set (normalizeCollectors cs) \<subseteq> set allCollectors"
  by (simp add: set_normalizeCollectors Let_def)

lemma normalize_all: "normalizeCollectors allCollectors \<noteq> []"
  using set_normalizeCollectors [of allCollectors] collector_plain all_not_empty
  by (force simp: Let_def)

lemma normalize_plain:
  assumes "set cs \<subseteq> set allCollectors"
  shows "set (normalizeCollectors cs) = set cs"
proof -
  have "trim_space ` set cs = set cs" using assms collector_plain by (force simp: image_iff)
  moreover have "set cs - {''''} = set cs" using assms all_not_empty by blast
  ultimately show ?thesis using assms by (simp add: set_normalizeCollectors Let_def)
qed

lemma distinct_insert_stable: "distinct (insert_stable lt x xs) \<longleftrightarrow> x \<notin> set xs \<and> distinct xs"
  by (induction xs) auto

lemma distinct_sort_stable [simp]: "distinct (sort_stable lt xs) \<longleftrightarrow> distinct xs"
  by (induction xs) (simp_all add: sort_stable_Cons distinct_insert_stable)

lemma normalize_distinct: "distinct (normalizeCollectors cs)"
  by (simp add: normalizeCollectors_def Let_def)

lemma collector_before_weak: "strict_weak collector_before"
  unfolding strict_weak_def collector_before_def by (auto split: if_splits)

lemma collector_before_total: "a \<noteq> b \<Longrightarrow> collector_before a b \<or> collector_before b a"
  unfolding collector_before_def by (auto split: if_splits)

text \<open>A scope is covered by a poll: every collector it asks for is polled, and a scope without a
  known collector asks for all of them.\<close>

definition covers :: "string list \<Rightarrow> string list \<Rightarrow> bool" where
  "covers polled scope \<longleftrightarrow>
     set (if normalizeCollectors scope = [] then allCollectors else normalizeCollectors scope) \<subseteq> set polled"

lemma union_parts:
  "\<forall>scope \<in> set scopes. normalizeCollectors scope \<noteq> [] \<Longrightarrow>
   set (unionScopes scopes) = (\<Union>scope \<in> set scopes. set (normalizeCollectors scope))"
proof -
  assume narrow: "\<forall>scope \<in> set scopes. normalizeCollectors scope \<noteq> []"
  have "set (concat (map normalizeCollectors scopes)) \<subseteq> set allCollectors"
    using normalize_known by auto
  from normalize_plain [OF this] narrow show ?thesis by (auto simp: unionScopes_def list_ex_iff)
qed

lemma union_broad:
  "scope \<in> set scopes \<Longrightarrow> normalizeCollectors scope = [] \<Longrightarrow> unionScopes scopes = allCollectors"
  by (auto simp: unionScopes_def list_ex_iff)

lemma union_covers:
  assumes "scope \<in> set scopes"
  shows "covers (unionScopes scopes) scope"
proof (cases "\<exists>broad \<in> set scopes. normalizeCollectors broad = []")
  case True
  then have "unionScopes scopes = allCollectors" using union_broad by blast
  then show ?thesis using normalize_known by (simp add: covers_def)
next
  case False
  then have "set (unionScopes scopes) = (\<Union>scope \<in> set scopes. set (normalizeCollectors scope))"
    by (intro union_parts) blast
  with assms False show ?thesis unfolding covers_def by auto
qed

lemma union_known: "set (unionScopes scopes) \<subseteq> set allCollectors"
  using normalize_known by (auto simp: unionScopes_def)

text \<open>
  One poll of the union of several scopes serves each of them: it polls every collector of
  every scope, all collectors when some scope asks for all of them, and otherwise only collectors
  that some scope asks for; no collector is polled twice.
\<close>
theorem union_covers_exactly:
  "(\<forall>scope \<in> set scopes. covers (unionScopes scopes) scope)
   \<and> (\<forall>c \<in> set (unionScopes scopes). c \<in> set allCollectors
        \<and> (\<exists>scope \<in> set scopes. normalizeCollectors scope = [] \<or> c \<in> set (normalizeCollectors scope)))
   \<and> distinct (unionScopes scopes)"
proof -
  have "\<exists>scope \<in> set scopes. normalizeCollectors scope = [] \<or> c \<in> set (normalizeCollectors scope)"
    if "c \<in> set (unionScopes scopes)" for c
    using that union_parts [of scopes] by blast
  moreover have "distinct (unionScopes scopes)"
    by (simp add: unionScopes_def collectors_distinct normalize_distinct)
  ultimately show ?thesis using union_covers union_known by blast
qed

theorem union_covers_exactly_witness:
  "covers (unionScopes [[''dns''], [''users'', ''devices'']]) [''dns'']
   \<and> distinct (unionScopes [[''dns''], [''users'', ''devices'']])"
  using union_covers_exactly [of "[[''dns''], [''users'', ''devices'']]"] by simp

subsection \<open>Delays are bounded\<close>

lemma double_below_min: "0 < delay \<Longrightarrow> min (double_below n limit delay) limit = min (delay * 2 ^ n) limit"
proof (induction n arbitrary: delay)
  case (Suc n)
  show ?case
  proof (cases "delay < limit")
    case True
    then show ?thesis using Suc.IH [of "delay * 2"] Suc.prems by (simp add: algebra_simps)
  next
    case False
    have "(1 :: int) \<le> 2 ^ Suc n" by (rule one_le_power) simp
    then have "delay * 1 \<le> delay * 2 ^ Suc n" using Suc.prems by (intro mult_left_mono) auto
    then have "min (delay * 2 ^ Suc n) limit = limit" using False by linarith
    with False show ?thesis by (simp del: power_Suc)
  qed
qed simp

lemma retry_base: "min (5 * second * 2 ^ min attempt 10) hour = min (5 * second * 2 ^ attempt) hour"
proof (cases "attempt \<le> 10")
  case False
  then have "(2 :: int) ^ 10 \<le> 2 ^ attempt" by (intro power_increasing) auto
  then have "hour \<le> 5 * second * 2 ^ attempt" by (simp add: duration_defs)
  moreover have "hour \<le> 5 * second * 2 ^ 10" by (simp add: duration_defs)
  ultimately show ?thesis using False by simp
qed simp

text \<open>
  Every retry backs off exponentially and is bounded. A collector that failed \<open>n\<close> times in a row
  waits 30 seconds times \<open>2 ^ (n - 1)\<close>, at most its interval; the retry of a notification or a
  trigger waits 5 seconds times \<open>2 ^ attempt\<close>, at most an hour, plus less than a fifth of it, the
  cut of the shift count losing nothing; a failed clean-up one second doubled for each failure
  before, at most an hour.
\<close>
theorem retries_back_off:
  assumes "\<forall>n > 0. 0 \<le> rnd n \<and> rnd n < n"
  shows "collectorRetryDelay failures interval
      = min (30 * second * 2 ^ nat (failures - 1)) (max interval (30 * second))
    \<and> min (5 * second * 2 ^ attempt) hour \<le> retryDelay rnd attempt
    \<and> 5 * retryDelay rnd attempt < 6 * min (5 * second * 2 ^ attempt) hour
    \<and> cleanup_next passes remaining True = (Suc passes, min (second * 2 ^ passes) hour)"
proof -
  define base where "base = min (5 * second * 2 ^ attempt) hour"
  have b: "5 * second \<le> base" unfolding base_def using one_le_power [of "2 :: int" attempt] by (simp add: duration_defs)
  then have "1 \<le> base div 5" by (simp add: duration_defs)
  then have r: "0 \<le> rnd (base div 5)" "rnd (base div 5) < base div 5" "max (base div 5) 1 = base div 5"
    using assms(1) by auto
  have d: "retryDelay rnd attempt = base + rnd (base div 5)"
    unfolding retryDelay_def Let_def retry_base base_def [symmetric] r(3) ..
  have "5 * retryDelay rnd attempt < 6 * base" using r d by linarith
  moreover have "cleanup_next passes remaining True = (Suc passes, min (second * 2 ^ passes) hour)"
    by (simp add: cleanup_next_def cleanupPollInterval_def cleanupContinuationInterval_def double_below_min)
  moreover have "collectorRetryDelay failures interval
      = min (30 * second * 2 ^ nat (failures - 1)) (max interval (30 * second))"
    by (simp add: collectorRetryDelay_def Let_def collectorRetryInterval_def double_below_min)
  ultimately show ?thesis using r d by (simp add: base_def)
qed

theorem retries_back_off_witness:
  "collectorRetryDelay 3 (3600 * second) = 120 * second \<and> 160 * second \<le> retryDelay (\<lambda>_. 0) 5"
  using retries_back_off [where rnd = "\<lambda>_. 0" and attempt = 5 and failures = 3 and interval = "3600 * second"] by (simp add: duration_defs)

end
