(* ===== verification/Monitor_Triggers.thy ===== *)
theory Monitor_Triggers
  imports Monitor_Collectors Web_Webhook
begin

text \<open>
  How the monitor serves webhook triggers (\<open>internal/monitor/triggers.go\<close> and the request queue of
  \<open>engine.go\<close>): requests of the handler wait in a bounded channel and an overflow queue; one pass
  takes them all, claims their rows, polls the union of their collectors once and settles each claim
  on the outcome of its own collectors. Rows no request asks for are claimed by the durable pass.

  The poll is an argument: it gets the collectors and the ids of the triggers and returns its
  outcome and the database it leaves, since the handler and the clean-up go on working while it
  runs. Clock readings and random numbers are indexed by the position of the claim in the pass.
  A store operation that fails (the log is all that happens then) leaves the database unchanged.
\<close>

subsection \<open>Requests\<close>

definition triggerChannelSize :: nat where "triggerChannelSize = 4"
definition maxTriggerOverflow :: nat where "maxTriggerOverflow = 1024"

record request_queue =
  TriggerChan :: "reconcile_request list"
  TriggerOverflow :: "reconcile_request list"
  WakeFlag :: bool

definition Wake :: "request_queue \<Rightarrow> request_queue" where
  "Wake q = q\<lparr>WakeFlag := True\<rparr>"

definition Trigger :: "reconcile_request \<Rightarrow> request_queue \<Rightarrow> request_queue" where
  "Trigger request0 q =
     (let request = request0\<lparr>ReqCollectors := normalizeCollectors (ReqCollectors request0)\<rparr>
      in if length (TriggerChan q) < triggerChannelSize
         then q\<lparr>TriggerChan := TriggerChan q @ [request]\<rparr>
         else
           Wake (if length (TriggerOverflow q) < maxTriggerOverflow
                 then q\<lparr>TriggerOverflow := TriggerOverflow q @ [request]\<rparr> else q))"

definition takeTriggerOverflow :: "request_queue \<Rightarrow> reconcile_request list \<times> request_queue" where
  "takeTriggerOverflow q = (TriggerOverflow q, q\<lparr>TriggerOverflow := []\<rparr>)"

definition takeFastTriggerRequests :: "request_queue \<Rightarrow> reconcile_request list \<times> request_queue" where
  "takeFastTriggerRequests q =
     (let requests = TriggerChan q; (overflow, q') = takeTriggerOverflow (q\<lparr>TriggerChan := []\<rparr>)
      in (requests @ overflow, q'))"

subsection \<open>The outcome of a poll\<close>

record poll_outcome =
  PollSuccess :: bool
  PollCollectors :: "(string \<times> bool) list"

definition succeeds :: "poll_outcome \<Rightarrow> string list \<Rightarrow> bool" where
  "succeeds p collectors0 =
     (let collectors = normalizeCollectors collectors0
      in if collectors = [] then list_all snd (PollCollectors p)
         else list_all (\<lambda>c. map_of (PollCollectors p) c = Some True) collectors)"

subsection \<open>Claims\<close>

definition uniquePositive :: "int list \<Rightarrow> int list" where
  "uniquePositive vs = sorted_uniq (filter (\<lambda>v. 0 < v) vs)"

definition requestTriggerIDs :: "reconcile_request \<Rightarrow> int list" where
  "requestTriggerIDs request =
     uniquePositive (ReqTriggerIDs request @ (if 0 < ReqTriggerID request then [ReqTriggerID request] else []))"

definition webhookTriggerIDs :: "WebhookTrigger list \<Rightarrow> int list" where
  "webhookTriggerIDs claims = uniquePositive (filter (\<lambda>i. 0 < i) (map TrigID claims))"

text \<open>One token and one clock reading for each claim, counted by \<open>k\<close>.\<close>

fun claim_each ::
  "(nat \<Rightarrow> string) \<Rightarrow> (nat \<Rightarrow> instant) \<Rightarrow> nat \<Rightarrow> int list \<Rightarrow> webhook_db \<Rightarrow> webhook_db \<times> WebhookTrigger list" where
  "claim_each tok clock k [] db = (db, [])"
| "claim_each tok clock k (i # ids) db =
     (case ClaimWebhookTrigger i 0 (tok k) (clock k) db of
        Inl _ \<Rightarrow> claim_each tok clock (Suc k) ids db
      | Inr (db', None) \<Rightarrow> claim_each tok clock (Suc k) ids db'
      | Inr (db', Some trigger) \<Rightarrow>
          (let (final, claimed) = claim_each tok clock (Suc k) ids db' in (final, trigger # claimed)))"

definition claimFastTriggerClaims ::
  "(nat \<Rightarrow> string) \<Rightarrow> (nat \<Rightarrow> instant) \<Rightarrow> nat \<Rightarrow> int list \<Rightarrow> webhook_db \<Rightarrow> webhook_db \<times> WebhookTrigger list" where
  "claimFastTriggerClaims tok clock k ids db = claim_each tok clock k (uniquePositive ids) db"

text \<open>The first loop of \<open>processFastTriggers\<close>: the claims of every request, and the scopes of the
  requests without rows.\<close>

fun gather_requests ::
  "(nat \<Rightarrow> string) \<Rightarrow> (nat \<Rightarrow> instant) \<Rightarrow> nat \<Rightarrow> reconcile_request list \<Rightarrow> webhook_db
     \<Rightarrow> webhook_db \<times> WebhookTrigger list \<times> string list list" where
  "gather_requests tok clock k [] db = (db, [], [])"
| "gather_requests tok clock k (request # requests) db =
     (let ids = requestTriggerIDs request;
          (db1, claimed) = claimFastTriggerClaims tok clock k ids db;
          (db2, claims, scopes) = gather_requests tok clock (k + length ids) requests db1
      in (db2, claimed @ claims, if ids = [] then ReqCollectors request # scopes else scopes))"

subsection \<open>Settling\<close>

definition reconciliationFailed :: string where
  "reconciliationFailed = ''collector reconciliation failed''"

text \<open>The engine reads the clock for the next attempt (\<open>at\<close>), the store for the retry window
  (\<open>now\<close>).\<close>

definition finishClaimedTriggers ::
  "(int \<Rightarrow> int) \<Rightarrow> instant \<Rightarrow> instant \<Rightarrow> WebhookTrigger list \<Rightarrow> bool \<Rightarrow> int \<Rightarrow> webhook_db \<Rightarrow> webhook_db" where
  "finishClaimedTriggers rnd at now claims success attempts0 db =
     (if claims = [] then db
      else if success
      then CompleteClaimedWebhookTriggers now (map (\<lambda>c. (TrigID c, TrigToken c)) claims) db
      else
        (let attempts = (if attempts0 \<le> 0 then 1 else attempts0)
         in RetryClaimedWebhookTriggers now (at + retryDelay rnd (nat attempts)) reconciliationFailed
              (map (\<lambda>c. (TrigID c, TrigToken c)) claims) db))"

fun finish_each ::
  "(nat \<Rightarrow> int \<Rightarrow> int) \<Rightarrow> (nat \<Rightarrow> instant) \<Rightarrow> (nat \<Rightarrow> instant) \<Rightarrow> poll_outcome \<Rightarrow> nat \<Rightarrow> WebhookTrigger list
     \<Rightarrow> webhook_db \<Rightarrow> webhook_db" where
  "finish_each rnd at now outcome k [] db = db"
| "finish_each rnd at now outcome k (claim # claims) db =
     finish_each rnd at now outcome (Suc k) claims
       (finishClaimedTriggers (rnd k) (at k) (now k) [claim] (succeeds outcome (TrigCollectors claim))
          (TrigAttempts claim) db)"

subsection \<open>The two passes\<close>

record pass_env =
  PassTokens :: "nat \<Rightarrow> string"
  PassClaimClock :: "nat \<Rightarrow> instant"
  PassRandom :: "nat \<Rightarrow> int \<Rightarrow> int"
  PassRetryClock :: "nat \<Rightarrow> instant"
  PassSettleClock :: "nat \<Rightarrow> instant"

type_synonym poller = "string list \<Rightarrow> int list \<Rightarrow> webhook_db \<Rightarrow> poll_outcome \<times> webhook_db"

definition settle_pass :: "pass_env \<Rightarrow> poller \<Rightarrow> string list list \<Rightarrow> WebhookTrigger list \<Rightarrow> webhook_db \<Rightarrow> webhook_db" where
  "settle_pass env poll scopes claims db =
     (let (outcome, db') = poll (unionScopes scopes) (webhookTriggerIDs claims) db
      in finish_each (PassRandom env) (PassRetryClock env) (PassSettleClock env) outcome 0 claims db')"

definition processFastTriggers ::
  "pass_env \<Rightarrow> poller \<Rightarrow> reconcile_request list \<Rightarrow> request_queue \<Rightarrow> webhook_db \<Rightarrow> bool \<times> request_queue \<times> webhook_db" where
  "processFastTriggers env poll received q db =
     (let (queued, q') = takeFastTriggerRequests q;
          (db1, claims, broad) = gather_requests (PassTokens env) (PassClaimClock env) 0 (received @ queued) db;
          scopes = broad @ map TrigCollectors claims
      in if scopes = [] then (False, q', db1)
         else (True, q', settle_pass env poll scopes claims db1))"

definition processDurableTriggers :: "pass_env \<Rightarrow> poller \<Rightarrow> instant \<Rightarrow> webhook_db \<Rightarrow> bool \<times> webhook_db" where
  "processDurableTriggers env poll now db =
     (if \<not> HasDueWebhookTriggers now db then (False, db)
      else
        (case ClaimWebhookTriggers 0 0 (PassTokens env) (PassClaimClock env 0) db of
           Inl _ \<Rightarrow> (False, db)
         | Inr (db1, triggers) \<Rightarrow>
             if triggers = [] then (False, db1)
             else (True, settle_pass env poll (map TrigCollectors triggers) triggers db1)))"

subsection \<open>What settling does to the rows\<close>

interpretation request_ids: sorted_set_norm uniquePositive "\<lambda>v. v" "\<lambda>v. 0 < v"
  by unfold_locales (auto simp: uniquePositive_def)

definition settled_row :: "(int \<Rightarrow> int) \<Rightarrow> instant \<Rightarrow> instant \<Rightarrow> bool \<Rightarrow> int \<Rightarrow> trigger_row \<Rightarrow> trigger_row" where
  "settled_row rnd at now success attempts r =
     (if success then (drop_lease r)\<lparr>TStatus := TrigProcessed, TProcessedAt := Some now, TError := ''''\<rparr>
      else if webhookTriggerRetryWindow \<le> now - TReceived r
      then (drop_lease r)\<lparr>TStatus := TrigDead, TNext := now, TError := retry_message reconciliationFailed\<rparr>
      else (drop_lease r)\<lparr>TStatus := TrigPending, TNext := at + retryDelay rnd (nat (max 1 attempts)),
              TError := retry_message reconciliationFailed\<rparr>)"

lemma settled_row_simps [simp]:
  "TId (settled_row rnd at now ok attempts r) = TId r"
  "TStatus (settled_row rnd at now ok attempts r) \<noteq> TrigProcessing"
  "TBodyHash (settled_row rnd at now ok attempts r) = TBodyHash r"
  "TAttempts (settled_row rnd at now ok attempts r) = TAttempts r"
  by (simp_all add: settled_row_def)

lemma message_left: "retry_message reconciliationFailed \<noteq> ''''"
  unfolding reconciliationFailed_def by code_simp

text \<open>A claim that can be settled: the store ignores ids that are not positive and blank tokens.\<close>

definition claim_valid :: "WebhookTrigger \<Rightarrow> bool" where
  "claim_valid c \<longleftrightarrow> 0 < TrigID c \<and> trim_space (TrigToken c) \<noteq> ''''"

abbreviation claim_owns :: "WebhookTrigger \<Rightarrow> trigger_row \<Rightarrow> bool" where
  "claim_owns c \<equiv> trigger_owned (TrigID c) (TrigToken c)"

lemma find_own_row:
  "distinct (map TId rows) \<Longrightarrow> r \<in> set rows \<Longrightarrow> List.find (has_id (TId r)) rows = Some r"
  by (induction rows) (auto simp: has_id_def)

lemma finish_one:
  assumes "distinct (map TId (Triggers db))" "claim_valid c"
  shows "Triggers (finishClaimedTriggers rnd at now [c] ok attempts db) =
    update_where (claim_owns c) (settled_row rnd at now ok attempts) (Triggers db)"
proof -
  have v: "validWebhookClaims [(TrigID c, TrigToken c)] = [(TrigID c, TrigToken c)]"
    using assms(2) by (simp add: validWebhookClaims_def claim_valid_def)
  have att: "(if attempts \<le> 0 then 1 else attempts) = max 1 attempts" by simp
  show ?thesis
  proof (cases ok)
    case True
    then show ?thesis
      by (simp add: finishClaimedTriggers_def CompleteClaimedWebhookTriggers_def v complete_claim_def settled_row_def [abs_def])
  next
    case False
    show ?thesis
    proof (cases "List.find (has_id (TrigID c)) (Triggers db)")
      case None
      then have "\<forall>r \<in> set (Triggers db). \<not> claim_owns c r"
        by (auto simp: find_None_iff has_id_def trigger_owned_def)
      then show ?thesis using False None
        by (simp add: finishClaimedTriggers_def RetryClaimedWebhookTriggers_def v retry_claim_def update_where_none)
    next
      case (Some row)
      have same: "r = row" if "r \<in> set (Triggers db)" "claim_owns c r" for r
        using that find_own_row [OF assms(1) that(1)] Some by (simp add: trigger_owned_def)
      then show ?thesis using False Some message_left att
        by (auto simp: finishClaimedTriggers_def RetryClaimedWebhookTriggers_def v retry_claim_def Let_def
            settled_row_def update_where_def)
    qed
  qed
qed

lemma in_enumerate:
  assumes "x \<in> set xs"
  shows "\<exists>j. (j, x) \<in> set (enumerate 0 xs)"
proof -
  obtain j where "j < length xs" "xs ! j = x" using assms by (auto simp: in_set_conv_nth)
  then show ?thesis by (intro exI [of _ j]) (simp add: in_set_enumerate_eq)
qed

lemma finish_one_ids:
  assumes "distinct (map TId (Triggers db))" "claim_valid c"
  shows "map TId (Triggers (finishClaimedTriggers rnd at now [c] ok attempts db)) = map TId (Triggers db)"
  unfolding finish_one [OF assms] by (simp add: map_update_where)

lemma finish_each_ids:
  assumes "distinct (map TId (Triggers db))" "\<forall>c \<in> set claims. claim_valid c"
  shows "map TId (Triggers (finish_each rnd at now outcome k claims db)) = map TId (Triggers db)"
  using assms by (induction claims arbitrary: k db) (simp_all add: finish_one_ids)

lemma finish_each_other:
  assumes "distinct (map TId (Triggers db))" "\<forall>c \<in> set claims. claim_valid c"
    and "r \<in> set (Triggers db)" "\<forall>c \<in> set claims. \<not> claim_owns c r"
  shows "r \<in> set (Triggers (finish_each rnd at now outcome k claims db))"
  using assms
proof (induction claims arbitrary: k db)
  case (Cons c claims)
  let ?db = "finishClaimedTriggers (rnd k) (at k) (now k) [c] (succeeds outcome (TrigCollectors c)) (TrigAttempts c) db"
  have "r \<in> set (Triggers ?db)" using Cons.prems by (simp add: finish_one update_where_keep)
  moreover have "distinct (map TId (Triggers ?db))" using Cons.prems by (simp add: finish_one_ids)
  ultimately show ?case using Cons.IH Cons.prems by simp
qed simp

lemma finish_each_own:
  assumes "distinct (map TId (Triggers db))" "\<forall>c \<in> set claims. claim_valid c" "distinct (map TrigID claims)"
    and "(j, c) \<in> set (enumerate k claims)" "r \<in> set (Triggers db)" "claim_owns c r"
  shows "settled_row (rnd j) (at j) (now j) (succeeds outcome (TrigCollectors c)) (TrigAttempts c) r
    \<in> set (Triggers (finish_each rnd at now outcome k claims db))"
  using assms
proof (induction claims arbitrary: k db)
  case (Cons d claims)
  let ?db = "finishClaimedTriggers (rnd k) (at k) (now k) [d] (succeeds outcome (TrigCollectors d)) (TrigAttempts d) db"
  have ids: "distinct (map TId (Triggers ?db))" using Cons.prems by (simp add: finish_one_ids)
  show ?case
  proof (cases "j = k \<and> c = d")
    case True
    let ?r = "settled_row (rnd j) (at j) (now j) (succeeds outcome (TrigCollectors c)) (TrigAttempts c) r"
    have "?r \<in> set (Triggers ?db)" using Cons.prems True by (auto simp: finish_one set_update_where)
    moreover have "\<forall>c' \<in> set claims. \<not> claim_owns c' ?r" by (simp add: trigger_owned_def)
    ultimately show ?thesis using finish_each_other [OF ids] Cons.prems(2) by simp
  next
    case False
    then have c: "(j, c) \<in> set (enumerate (Suc k) claims)" using Cons.prems(4) by auto
    then have "c \<in> set claims" by (auto simp: in_set_enumerate_eq)
    then have "TrigID c \<noteq> TrigID d" using Cons.prems(3) by (auto simp: image_iff)
    then have "\<not> claim_owns d r" using Cons.prems(6) by (auto simp: trigger_owned_def)
    then have "r \<in> set (Triggers ?db)" using Cons.prems by (simp add: finish_one update_where_keep)
    then show ?thesis using Cons.IH [OF ids _ _ c _ Cons.prems(6)] Cons.prems by simp
  qed
qed simp

text \<open>
  Each claim of a pass is settled on the outcome of its own collectors, whatever the other
  claims of the pass asked for. A row still held by its claim after the poll becomes processed if
  all its collectors succeeded, and otherwise waits for its next attempt or, 24 hours after it was
  received, is given up; in no case does it stay leased. A row that none of the claims holds any
  more, because its lease ran out and another worker has it, is not touched.
\<close>
theorem pass_settles_each_claim:
  assumes "poll (unionScopes scopes) (webhookTriggerIDs claims) db = (outcome, polled)"
    and "distinct (map TId (Triggers polled))" and "distinct (map TrigID claims)"
    and "\<forall>c \<in> set claims. 0 < TrigID c \<and> trim_space (TrigToken c) \<noteq> ''''"
    and "r \<in> set (Triggers polled)" and "r' \<in> set (Triggers (settle_pass env poll scopes claims db))"
    and "TId r' = TId r"
  shows "(\<forall>c \<in> set claims. trigger_owned (TrigID c) (TrigToken c) r \<longrightarrow>
            (if succeeds outcome (TrigCollectors c) then TStatus r' = TrigProcessed
             else TStatus r' = TrigPending \<or> TStatus r' = TrigDead))
    \<and> ((\<forall>c \<in> set claims. \<not> trigger_owned (TrigID c) (TrigToken c) r) \<longrightarrow> r' = r)"
proof -
  let ?final = "finish_each (PassRandom env) (PassRetryClock env) (PassSettleClock env) outcome 0 claims polled"
  have valid: "\<forall>c \<in> set claims. claim_valid c" using assms(4) by (simp add: claim_valid_def)
  have r': "r' \<in> set (Triggers ?final)" using assms(6) by (simp add: settle_pass_def assms(1))
  have ids: "distinct (map TId (Triggers ?final))"
    using finish_each_ids [OF assms(2) valid] assms(2) by simp
  have only: "q = r'" if "q \<in> set (Triggers ?final)" "TId q = TId r" for q
    using ids that r' assms(7) by (auto simp: distinct_map inj_on_def)
  have "TStatus r' = TrigProcessed" if c: "c \<in> set claims" and own: "claim_owns c r" and ok: "succeeds outcome (TrigCollectors c)" for c
  proof -
    obtain j where "(j, c) \<in> set (enumerate 0 claims)" using in_enumerate [OF c] by blast
    from only [OF finish_each_own [OF assms(2) valid assms(3) this assms(5) own]] ok
    show ?thesis by (auto simp: settled_row_def)
  qed
  moreover have "TStatus r' = TrigPending \<or> TStatus r' = TrigDead"
    if c: "c \<in> set claims" and own: "claim_owns c r" and ok: "\<not> succeeds outcome (TrigCollectors c)" for c
  proof -
    obtain j where "(j, c) \<in> set (enumerate 0 claims)" using in_enumerate [OF c] by blast
    from only [OF finish_each_own [OF assms(2) valid assms(3) this assms(5) own]] ok
    show ?thesis by (auto simp: settled_row_def split: if_splits)
  qed
  moreover have "r' = r" if "\<forall>c \<in> set claims. \<not> claim_owns c r"
    using only [OF finish_each_other [OF assms(2) valid assms(5) that]] by simp
  ultimately show ?thesis by auto
qed

text \<open>A row that waits and is due is claimed on request.\<close>

lemma claim_waiting:
  fixes token :: string
  assumes "distinct (map TId (Triggers db))" "r \<in> set (Triggers db)" "0 < TId r"
    and "TStatus r = TrigPending" "TNext r \<le> now" "now - webhookTriggerRetryWindow < TReceived r"
    and "readWebhookTrigger r = Inr t"
  defines "leased \<equiv> lease_trigger (now + webhookTriggerLease) token r"
  shows "\<exists>db' t'. ClaimWebhookTrigger (TId r) 0 token now db = Inr (db', Some t')
    \<and> leased \<in> set (Triggers db') \<and> distinct (map TId (Triggers db'))
    \<and> TrigID t' = TId r \<and> TrigToken t' = token \<and> TrigCollectors t' = TrigCollectors t
    \<and> TrigAttempts t' = TAttempts r + 1"
proof -
  let ?i = "TId r"
  let ?rows = "due_triggers (has_id ?i) now (Triggers db)"
  let ?p = "\<lambda>q. TId q = ?i \<and> trigger_due now q"
  let ?u = "update_where ?p (lease_trigger (now + webhookTriggerLease) token) ?rows"
  have fixed: "due_row now r = r"
    using assms(4,6) by (simp add: due_row_def Let_def)
  have r: "r \<in> set ?rows" using assms(2) fixed by (force simp: due_triggers_one)
  have some: "rows_affected ?p ?rows \<noteq> 0"
    using r assms(4,5) by (auto simp: rows_affected_none trigger_due_def simp del: neq0_conv)
  have lu: "leased \<in> set ?u" using r assms(4,5) by (force simp: set_update_where trigger_due_def leased_def)
  have ids: "distinct (map TId ?u)" using assms(1)
    by (simp add: map_update_where due_triggers_one comp_def if_distrib [of TId] cong: if_cong)
  have f: "List.find (has_id ?i) ?u = Some leased"
    using find_own_row [OF ids lu] by (simp add: leased_def)
  have rd: "readWebhookTrigger leased = Inr (t\<lparr>TrigStatus := TrigProcessing, TrigAttempts := TAttempts r + 1,
      TrigLeaseUntil := Some (now + webhookTriggerLease), TrigToken := token\<rparr>)"
    using assms(7) by (auto simp: readWebhookTrigger_def leased_def lease_trigger_def split: sum.splits)
  have l: "trigger_lease_length 0 = webhookTriggerLease" by (simp add: trigger_lease_length_def)
  show ?thesis
    using assms(3) some f rd lu ids assms(7)
    by (auto simp: ClaimWebhookTrigger_def Let_def l dest: read_trigger_id)
qed

text \<open>A claim whose scope is what was polled succeeds exactly when every collector did.\<close>

lemma succeeds_all:
  assumes "map fst (PollCollectors outcome) = unionScopes [scope]"
  shows "succeeds outcome scope = list_all snd (PollCollectors outcome)"
proof (cases "normalizeCollectors scope = []")
  case False
  let ?ps = "PollCollectors outcome"
  have u: "unionScopes [scope] = normalizeCollectors (normalizeCollectors scope)"
    using False by (simp add: unionScopes_def)
  have s: "set (map fst ?ps) = set (normalizeCollectors scope)"
    unfolding assms u by (rule normalize_plain [OF normalize_known])
  have d: "distinct (map fst ?ps)" unfolding assms u by (rule normalize_distinct)
  have "list_all (\<lambda>c. map_of ?ps c = Some True) (normalizeCollectors scope) \<longleftrightarrow> (\<forall>c \<in> fst ` set ?ps. map_of ?ps c = Some True)"
    using s by (simp add: list_all_iff)
  also have "\<dots> \<longleftrightarrow> (\<forall>x \<in> set ?ps. map_of ?ps (fst x) = Some True)" by blast
  also have "\<dots> \<longleftrightarrow> (\<forall>x \<in> set ?ps. snd x)"
  proof (intro ball_cong refl)
    fix x assume "x \<in> set ?ps"
    then have "map_of ?ps (fst x) = Some (snd x)" using d by (intro map_of_is_SomeI) simp_all
    then show "map_of ?ps (fst x) = Some True \<longleftrightarrow> snd x" by simp
  qed
  also have "\<dots> \<longleftrightarrow> list_all snd ?ps" by (simp add: list_all_iff)
  finally show ?thesis using False by (simp add: succeeds_def)
qed (simp add: succeeds_def)


subsection \<open>The properties at a concrete input\<close>

definition sample_env :: pass_env where
  "sample_env =
     \<lparr> PassTokens = (\<lambda>_. ''t''), PassClaimClock = (\<lambda>_. 101 * second), PassRandom = (\<lambda>_ _. 0),
       PassRetryClock = (\<lambda>_. 102 * second), PassSettleClock = (\<lambda>_. 102 * second) \<rparr>"

definition all_answer :: "string list \<Rightarrow> poll_outcome" where
  "all_answer cs = \<lparr> PollSuccess = True, PollCollectors = map (\<lambda>c. (c, True)) cs \<rparr>"

definition sample_leased :: webhook_db where
  "sample_leased = sample_hooks\<lparr>Triggers := map (lease_trigger (121 * second) ''t'') (Triggers sample_hooks)\<rparr>"

definition sample_hook_claim :: WebhookTrigger where
  "sample_hook_claim =
     \<lparr> TrigID = 1, TrigHash = sample_hash, TrigReceived = 0, TrigEvents = [''policyUpdate''],
       TrigCollectors = [''policy''], TrigStatus = TrigProcessing, TrigAttempts = 1, TrigNext = 0,
       TrigLeaseUntil = Some (121 * second), TrigToken = ''t'', TrigError = '''', TrigProcessedAt = None \<rparr>"

lemma token_t: "trim_space ''t'' = ''t''" by (rule trim_space_plain) simp

theorem pass_settles_each_claim_witness:
  "filter (\<lambda>r'. TId r' = 1 \<and> TStatus r' \<noteq> TrigProcessed)
     (Triggers (settle_pass sample_env (\<lambda>cs ids db. (all_answer cs, db)) [[''policy'']] [sample_hook_claim] sample_leased)) = []"
proof -
  let ?db = "settle_pass sample_env (\<lambda>cs ids db. (all_answer cs, db)) [[''policy'']] [sample_hook_claim] sample_leased"
  have "TStatus r' = TrigProcessed" if r': "r' \<in> set (Triggers ?db)" "TId r' = 1" for r'
  proof -
    let ?r = "hd (Triggers sample_leased)"
    have r: "?r \<in> set (Triggers sample_leased)" "TId ?r = 1" "claim_owns sample_hook_claim ?r"
      by (simp_all add: sample_leased_def sample_hooks_def new_trigger_def lease_trigger_def
          trigger_owned_def sample_hook_claim_def)
    have "unionScopes [[''policy'']] = [''policy'']" by code_simp
    then have ok: "succeeds (all_answer (unionScopes [[''policy'']])) [''policy'']"
      using succeeds_all [of "all_answer (unionScopes [[''policy'']])" "[''policy'']"]
      by (simp add: all_answer_def list_all_iff comp_def)
    from pass_settles_each_claim [OF _ _ _ _ r(1) r'(1)] r r'(2) ok
    show ?thesis
      by (simp add: sample_leased_def sample_hooks_def new_trigger_def token_t sample_hook_claim_def)
  qed
  then show ?thesis by (auto simp: filter_empty_conv)
qed


end
