(* ===== verification/Monitor_Delivery.thy ===== *)
theory Monitor_Delivery
  imports Store_Outbox Monitor_Collectors
begin

text \<open>
  The delivery worker, \<open>internal/monitor/delivery.go\<close>: one tick claims a batch and sends its
  notifications one after the other; after the first failed send to a destination its younger
  notifications go back unsent.

  What becomes of one notification, its rendering (\<open>notify.PrepareFor\<close>) and the network call
  (\<open>notify.Deliver\<close>), is an argument: \<open>NotPrepared\<close> is a payload that cannot be rendered,
  \<open>SendFailed\<close> carries the error as \<open>errors.As\<close> finds it and its text. What other workers do to
  the queue while an item is sent, the renewal of its lease by the goroutine of \<open>startOutboxLease\<close>
  included, is a list of operations. A failing write (which is only logged) leaves the database as
  it was.
\<close>

datatype delivery_result =
    NotPrepared string
  | Sent
  | SendFailed "delivery_error option" string

datatype delivery_entry = HeldBack | Contacted delivery_result

record delivery_env =
  DelivResult :: "OutboxItem \<Rightarrow> delivery_result"
  DelivRandom :: "nat \<Rightarrow> int \<Rightarrow> int"
  DelivSince :: "nat \<Rightarrow> instant"
  DelivNow :: "nat \<Rightarrow> instant"
  DelivStore :: "nat \<Rightarrow> instant"
  DelivOther :: "nat \<Rightarrow> outbox_op list"

definition deliveryBatchSize :: int where "deliveryBatchSize = 10"

definition IsPermanent :: "delivery_error option \<Rightarrow> bool" where
  "IsPermanent err = (case err of None \<Rightarrow> False | Some d \<Rightarrow> Permanent d)"

text \<open>The error a failed delivery is recorded with: its \<open>DeliveryError\<close>, if any, and its text.\<close>

fun send_error :: "delivery_result \<Rightarrow> (delivery_error option \<times> string) option" where
  "send_error (NotPrepared message) =
     Some (Some \<lparr> Status = 0, Message = message, RetryAfter = 0, Permanent = True, Reason = '''' \<rparr>, message)"
| "send_error Sent = None"
| "send_error (SendFailed err message) = Some (err, message)"

fun is_prepared :: "delivery_result \<Rightarrow> bool" where
  "is_prepared (NotPrepared _) = False"
| "is_prepared _ = True"

definition delivery_delay :: "(int \<Rightarrow> int) \<Rightarrow> delivery_error option \<Rightarrow> nat \<Rightarrow> duration" where
  "delivery_delay rnd err attempts =
     (case err of
        Some d \<Rightarrow> if 0 < RetryAfter d then RetryAfter d else retryDelay rnd attempts
      | None \<Rightarrow> retryDelay rnd attempts)"

definition deliverItem :: "delivery_env \<Rightarrow> nat \<Rightarrow> OutboxItem \<Rightarrow> outbox_db \<Rightarrow> outbox_db \<times> bool" where
  "deliverItem env k it db =
     (case send_error (DelivResult env it) of
        None \<Rightarrow> (fst (DeliveredClaimedResult (DelivStore env k) (ItemID it) (ItemLeaseToken it) db), False)
      | Some (err, message) \<Rightarrow>
          (let dead = (24 * hour \<le> DelivSince env k - ItemFirst it \<or> IsPermanent err);
               delay = delivery_delay (DelivRandom env k) err (nat (ItemAttempts it))
           in (fst (RetryClaimedResult (DelivNow env k + delay) (SafeDeliveryError (Some (err, message))) dead
                      (ItemID it) (ItemLeaseToken it) db),
               is_prepared (DelivResult env it))))"

definition releaseItem :: "OutboxItem \<Rightarrow> outbox_db \<Rightarrow> outbox_db" where
  "releaseItem it db = fst (ReleaseClaimed (ItemID it) (ItemLeaseToken it) db)"

text \<open>The loop over the batch. The log says what was done with each item.\<close>

fun deliver_batch ::
  "delivery_env \<Rightarrow> nat \<Rightarrow> int list \<Rightarrow> OutboxItem list \<Rightarrow> outbox_db \<Rightarrow> outbox_db \<times> delivery_entry list" where
  "deliver_batch env k failed [] db = (db, [])"
| "deliver_batch env k failed (it # its) db =
     (let db0 = fold outbox_exec (DelivOther env k) db
      in if ItemDest it \<in> set failed
         then (let (final, log) = deliver_batch env (Suc k) failed its (releaseItem it db0)
               in (final, HeldBack # log))
         else (let (db1, sendFailed) = deliverItem env k it db0;
                   (final, log) =
                     deliver_batch env (Suc k) (if sendFailed then ItemDest it # failed else failed) its db1
               in (final, Contacted (DelivResult env it) # log)))"

definition delivery_tick ::
  "delivery_env \<Rightarrow> gcm_open \<Rightarrow> duration \<Rightarrow> (nat \<Rightarrow> string) \<Rightarrow> instant \<Rightarrow> outbox_db
     \<Rightarrow> outbox_db \<times> OutboxItem list \<times> delivery_entry list" where
  "delivery_tick env gopen deliveryLease tok now db =
     (let (db1, items) =
            ClaimDueOutbox gopen deliveryBatchSize (if 0 < deliveryLease then Some deliveryLease else None) tok now db;
          (db2, log) = deliver_batch env 0 [] items db1
      in (db2, items, log))"

subsection \<open>The log of a batch\<close>

lemma deliver_batch_cons:
  "deliver_batch env k failed (it # its) db =
     (let db0 = fold outbox_exec (DelivOther env k) db;
          held = ItemDest it \<in> set failed;
          bad = (\<not> held \<and> (\<exists>err message. DelivResult env it = SendFailed err message));
          rest = deliver_batch env (Suc k) (if bad then ItemDest it # failed else failed) its
                   (if held then releaseItem it db0 else fst (deliverItem env k it db0))
      in (fst rest, (if held then HeldBack else Contacted (DelivResult env it)) # snd rest))"
  by (cases "DelivResult env it") (simp_all add: Let_def deliverItem_def case_prod_beta split: option.splits)

lemma deliver_batch_length: "length (snd (deliver_batch env k failed its db)) = length its"
  by (induction its arbitrary: k failed db) (simp_all add: deliver_batch_cons Let_def del: deliver_batch.simps(2))

lemma deliver_batch_entry:
  "i < length its \<Longrightarrow>
     snd (deliver_batch env k failed its db) ! i = HeldBack
     \<or> snd (deliver_batch env k failed its db) ! i = Contacted (DelivResult env (its ! i)) \<and> ItemDest (its ! i) \<notin> set failed"
proof (induction its arbitrary: k failed db i)
  case (Cons it its)
  show ?case
  proof (cases i)
    case (Suc j)
    with Cons.prems have "j < length its" by simp
    from Cons.IH [OF this] Suc show ?thesis
      by (simp add: deliver_batch_cons Let_def del: deliver_batch.simps(2)) (smt (verit) list.set_intros(2))
  qed (simp add: deliver_batch_cons Let_def del: deliver_batch.simps(2))
qed simp

lemma deliver_batch_order:
  assumes "i < j" "j < length its" "ItemDest (its ! i) = ItemDest (its ! j)"
    and "snd (deliver_batch env k failed its db) ! j \<noteq> HeldBack"
  shows "snd (deliver_batch env k failed its db) ! i = Contacted (DelivResult env (its ! i))
    \<and> (\<forall>err message. DelivResult env (its ! i) \<noteq> SendFailed err message)"
  using assms
proof (induction its arbitrary: k failed db i j)
  case (Cons it its)
  obtain j' where j: "j = Suc j'" using Cons.prems(1) by (cases j) auto
  show ?case
  proof (cases i)
    case 0
    let ?held = "ItemDest it \<in> set failed"
    let ?bad = "\<not> ?held \<and> (\<exists>err message. DelivResult env it = SendFailed err message)"
    have "ItemDest it \<notin> set (if ?bad then ItemDest it # failed else failed)"
    proof
      assume "ItemDest it \<in> set (if ?bad then ItemDest it # failed else failed)"
      then have "ItemDest (its ! j') \<in> set (if ?bad then ItemDest it # failed else failed)"
        using Cons.prems(3) 0 j by simp
      moreover have "j' < length its" using Cons.prems(2) j by simp
      ultimately have "snd (deliver_batch env k failed (it # its) db) ! j = HeldBack"
        using deliver_batch_entry [of j' its env "Suc k" "if ?bad then ItemDest it # failed else failed"]
        unfolding deliver_batch_cons Let_def j by auto
      with Cons.prems(4) show False by simp
    qed
    then show ?thesis using 0 by (auto simp: deliver_batch_cons Let_def simp del: deliver_batch.simps(2) split: if_splits)
  next
    case (Suc i')
    have "i' < j'" "j' < length its" "ItemDest (its ! i') = ItemDest (its ! j')"
      using Cons.prems(1-3) Suc j by simp_all
    from Cons.IH [OF this] Cons.prems(4) Suc j show ?thesis
      by (simp add: deliver_batch_cons Let_def del: deliver_batch.simps(2))
  qed
qed simp

text \<open>A batch is a run of operations of the queue, so every invariant of the queue survives it.\<close>

lemma deliver_item_op:
  "\<exists>op. fst (deliverItem env k it db) = outbox_exec op db \<and> outbox_issued op = {}"
proof (cases "send_error (DelivResult env it)")
  case None
  then show ?thesis
    by (intro exI [of _ "OpDelivered (DelivStore env k) (ItemID it) (ItemLeaseToken it)"]) (simp add: deliverItem_def)
next
  case (Some e)
  obtain err m where e: "e = (err, m)" by (cases e)
  let ?op = "OpRetry (DelivNow env k + delivery_delay (DelivRandom env k) err (nat (ItemAttempts it)))
      (SafeDeliveryError (Some (err, m))) (24 * hour \<le> DelivSince env k - ItemFirst it \<or> IsPermanent err)
      (ItemID it) (ItemLeaseToken it)"
  show ?thesis by (rule exI [of _ ?op]) (simp add: deliverItem_def Let_def Some e)
qed

lemma release_op: "\<exists>op. releaseItem it db = outbox_exec op db \<and> outbox_issued op = {}"
  by (rule exI [of _ "OpRelease (ItemID it) (ItemLeaseToken it)"]) (simp add: releaseItem_def)

lemma deliver_batch_run:
  "\<exists>ops. fst (deliver_batch env k failed its db) = fold outbox_exec ops db
     \<and> (\<forall>op \<in> set ops. outbox_issued op = {} \<or> (\<exists>j. op \<in> set (DelivOther env j)))"
proof (induction its arbitrary: k failed db)
  case Nil
  show ?case by (rule exI [of _ "[]"]) simp
next
  case (Cons it its)
  let ?db0 = "fold outbox_exec (DelivOther env k) db"
  let ?db1 = "if ItemDest it \<in> set failed then releaseItem it ?db0 else fst (deliverItem env k it ?db0)"
  have "\<exists>op. ?db1 = outbox_exec op ?db0 \<and> outbox_issued op = {}"
    by (cases "ItemDest it \<in> set failed")
      (simp_all only: if_True if_False deliver_item_op release_op)
  then obtain op where op: "?db1 = outbox_exec op ?db0" "outbox_issued op = {}" by blast
  obtain failed' where step: "fst (deliver_batch env k failed (it # its) db) = fst (deliver_batch env (Suc k) failed' its ?db1)"
    by (simp add: deliver_batch_cons Let_def del: deliver_batch.simps(2))
  obtain ops where ops: "fst (deliver_batch env (Suc k) failed' its ?db1) = fold outbox_exec ops ?db1"
      "\<forall>op \<in> set ops. outbox_issued op = {} \<or> (\<exists>j. op \<in> set (DelivOther env j))"
    using Cons.IH [of "Suc k" failed' ?db1] by blast
  show ?case
    by (rule exI [of _ "DelivOther env k @ op # ops"]) (use step ops op in auto)
qed

text \<open>After its turn nobody holds the item's lease any more, and it stays so.\<close>

lemma settled_not_owned:
  assumes "0 < i" "trim_space token \<noteq> ''''" "\<And>r. OId (f r) = OId r" "\<And>r. OStatus (f r) \<noteq> Processing"
  shows "\<not> outbox.owns (fst (settle_row f i token db)) i token"
proof
  assume "outbox.owns (fst (settle_row f i token db)) i token"
  then obtain r' where r': "r' \<in> set (update_where (owned i token) f (Outbox db))" "OId r' = i" "outbox_holds r' token"
    using assms(1,2) by (auto simp: outbox.owns_def settle_row_def)
  then obtain r where r: "r \<in> set (Outbox db)" "r' = (if owned i token r then f r else r)"
    by (auto simp: set_update_where)
  show False
  proof (cases "owned i token r")
    case True
    then show False using r r' assms(4) [of r] by (simp add: outbox_holds_def)
  next
    case False
    then have "r' = r" using r(2) by simp
    then show False using r' False by (auto simp: owned_def outbox_holds_def)
  qed
qed

lemma item_not_owned:
  assumes "0 < ItemID it" "trim_space (ItemLeaseToken it) \<noteq> ''''"
  shows "\<not> outbox.owns (fst (deliverItem env k it db)) (ItemID it) (ItemLeaseToken it)"
    and "\<not> outbox.owns (releaseItem it db) (ItemID it) (ItemLeaseToken it)"
  using assms
  by (simp_all add: deliverItem_def Let_def DeliveredClaimedResult_def RetryClaimedResult_def releaseItem_def
      ReleaseClaimed_def settled_not_owned split: option.split prod.split)

lemma deliver_batch_settles:
  assumes "it \<in> set its" "0 < ItemID it" "trim_space (ItemLeaseToken it) \<noteq> ''''"
    and "\<forall>j. \<forall>op \<in> set (DelivOther env j). ItemLeaseToken it \<notin> outbox_issued op"
  shows "\<not> outbox.owns (fst (deliver_batch env k failed its db)) (ItemID it) (ItemLeaseToken it)"
  using assms(1)
proof (induction its arbitrary: k failed db)
  case (Cons x its)
  let ?db0 = "fold outbox_exec (DelivOther env k) db"
  let ?db1 = "if ItemDest x \<in> set failed then releaseItem x ?db0 else fst (deliverItem env k x ?db0)"
  obtain failed' where step: "fst (deliver_batch env k failed (x # its) db) = fst (deliver_batch env (Suc k) failed' its ?db1)"
    by (simp add: deliver_batch_cons Let_def del: deliver_batch.simps(2))
  show ?case
  proof (cases "it \<in> set its")
    case True
    then show ?thesis unfolding step by (rule Cons.IH)
  next
    case False
    then have "x = it" using Cons.prems by simp
    then have lost: "\<not> outbox.owns ?db1 (ItemID it) (ItemLeaseToken it)"
      using item_not_owned [OF assms(2,3)] by simp
    obtain ops where ops: "fst (deliver_batch env (Suc k) failed' its ?db1) = fold outbox_exec ops ?db1"
        "\<forall>op \<in> set ops. outbox_issued op = {} \<or> (\<exists>j. op \<in> set (DelivOther env j))"
      using deliver_batch_run [of env "Suc k" failed' its ?db1] by blast
    have "\<forall>op \<in> set ops. ItemLeaseToken it \<notin> outbox_issued op" using ops(2) assms(4) by fastforce
    from outbox.lost_stays_lost [OF lost this] show ?thesis unfolding step ops(1) .
  qed
qed simp

lemma claim_sorted:
  assumes "sorted_wrt (<) (map OId (Outbox db))"
    and "ClaimDueOutbox gopen limit lease tok now db = (db', items)"
  shows "sorted_wrt (<) (map ItemID items)"
proof -
  have d: "distinct (map OId (Outbox db))" using assms(1) by (simp add: strict_sorted_iff)
  have "sorted_wrt (<) (map OId (due_rows now db))" using assms(1) by simp
  then have "sorted_wrt (\<lambda>a b. OId a < OId b) (due_rows now db)" by (simp only: sorted_wrt_map)
  then have s: "sorted_wrt (\<lambda>a b. OId a < OId b) (picked_rows limit now db)"
    unfolding picked_rows_def select_limit_def by (intro sorted_wrt_take sorted_wrt_filter)
  have "map ItemID items = map OId (filter (\<lambda>r. \<exists>it. readOutboxItem gopen (Dests db) r = Inr it) (picked_rows limit now db))"
    using claim_exact [OF d assms(2)] by (simp add: read_items_ids)
  with s show ?thesis by (simp add: sorted_wrt_map sorted_wrt_filter)
qed

lemma same_row_dest:
  assumes "distinct (map OId (Outbox db))"
    and "ClaimDueOutbox gopen limit lease tok now db = (db', items)"
    and "it \<in> set items" "p \<in> set (Outbox db')" "OId p = ItemID it"
  shows "ODest p = ItemDest it"
proof -
  obtain r item k where r: "r \<in> set (picked_rows limit now db)" "ItemID it = OId r" "ItemDest it = ODest r"
    using claimed_origin [of it gopen limit lease tok now db] assms(2,3) by (metis snd_conv)
  obtain q where q: "q \<in> set (due_rows now db)" "OId q = ItemID it"
      "lease_row (now + lease_length lease) (ItemLeaseToken it) q \<in> set (Outbox db')"
    using claim_exact [OF assms(1,2)] assms(3) by blast
  have "distinct (map OId (due_rows now db))" using assms(1) by simp
  then have inj: "inj_on OId (set (due_rows now db))" by (simp only: distinct_map)
  have "q = r" using q r picked_claimable [OF r(1)] by (intro inj_onD [OF inj]) simp_all
  moreover have "distinct (map OId (Outbox db'))" using claim_ids [of gopen limit lease tok now db] assms(1,2) by simp
  then have "p = lease_row (now + lease_length lease) (ItemLeaseToken it) q"
    using q assms(4,5) by (auto simp: distinct_map inj_on_def lease_row_def)
  ultimately show ?thesis using r by (simp add: lease_row_def)
qed

subsection \<open>Properties\<close>

text \<open>
  C18. Notifications of one destination never overtake one another. When a tick sends a notification,
  every older notification of the same destination was finished when the batch was claimed, or was
  sent successfully, or given up because it cannot be rendered, earlier in this very tick; in
  particular nothing is sent to a destination after a failed send of an older one.
\<close>
theorem delivery_never_overtakes:
  assumes "sorted_wrt (<) (map OId (Outbox db))"
    and "delivery_tick env gopen deliveryLease tok now db = (db', items, log)"
    and "j < length items" and "log ! j = Contacted result"
    and "p \<in> set (Outbox (fst (ClaimDueOutbox gopen deliveryBatchSize
           (if 0 < deliveryLease then Some deliveryLease else None) tok now db)))"
    and "ODest p = ItemDest (items ! j)" and "OId p < ItemID (items ! j)"
  shows "OStatus p = Delivered \<or> OStatus p = Dead
    \<or> (\<exists>i < j. ItemID (items ! i) = OId p
         \<and> (log ! i = Contacted Sent \<or> (\<exists>message. log ! i = Contacted (NotPrepared message))))"
proof -
  let ?claim = "ClaimDueOutbox gopen deliveryBatchSize (if 0 < deliveryLease then Some deliveryLease else None) tok now db"
  have claim: "?claim = (fst ?claim, items)" and log: "log = snd (deliver_batch env 0 [] items (fst ?claim))"
    using assms(2) by (auto simp: delivery_tick_def Let_def case_prod_beta)
  have it: "items ! j \<in> set items" using assms(3) by simp
  show ?thesis
  proof (cases "OStatus p = Delivered \<or> OStatus p = Dead")
    case False
    then have "OId p \<in> ItemID ` set items"
      using claim_order [OF assms(1) claim it assms(5-7)] by blast
    then obtain i where i: "i < length items" "ItemID (items ! i) = OId p" by (auto simp: in_set_conv_nth)
    have s: "sorted_wrt (<) (map ItemID items)" by (rule claim_sorted [OF assms(1) claim])
    have less: "i < j"
    proof (rule ccontr)
      assume "\<not> i < j"
      then have "ItemID (items ! j) \<le> ItemID (items ! i)"
        using sorted_wrt_nth_less [OF s, of j i] i(1) by (cases "i = j") auto
      with i assms(7) show False by simp
    qed
    have "distinct (map OId (Outbox db))" using assms(1) by (simp add: strict_sorted_iff)
    from same_row_dest [OF this claim _ assms(5), of "items ! i"]
    have dest: "ItemDest (items ! i) = ItemDest (items ! j)" using i assms(6) by simp
    have "log ! j \<noteq> HeldBack" using assms(4) by simp
    from deliver_batch_order [OF less assms(3) dest this [unfolded log]]
    have "log ! i = Contacted (DelivResult env (items ! i))"
      "\<forall>err message. DelivResult env (items ! i) \<noteq> SendFailed err message" by (simp_all add: log)
    with less i(2) show ?thesis by (cases "DelivResult env (items ! i)") auto
  qed auto
qed

text \<open>
  C19. A tick settles everything it claimed. After the batch no notification is still leased under
  a token handed out to this tick (each was delivered, put back for a retry, buried or released),
  whatever the other workers did to the queue in between, as long as no other claim was given
  the same token; and the queue stays well formed.
\<close>
theorem tick_settles_every_item:
  assumes "outbox_wf db"
    and "delivery_tick env gopen deliveryLease tok now db = (db', items, log)"
    and "\<forall>r \<in> set (Outbox db). 0 < OId r" and "\<forall>k. trim_space (tok k) \<noteq> ''''"
    and "\<forall>k j. \<forall>op \<in> set (DelivOther env j). tok k \<notin> outbox_issued op"
  shows "outbox_wf db' \<and> length log = length items
    \<and> (\<forall>it \<in> set items. \<forall>r \<in> set (Outbox db').
         \<not> (OId r = ItemID it \<and> OStatus r = Processing \<and> OLeaseToken r = ItemLeaseToken it))"
proof -
  let ?claim = "ClaimDueOutbox gopen deliveryBatchSize (if 0 < deliveryLease then Some deliveryLease else None) tok now db"
  have claim: "?claim = (fst ?claim, items)" and db': "db' = fst (deliver_batch env 0 [] items (fst ?claim))"
    and log: "log = snd (deliver_batch env 0 [] items (fst ?claim))"
    using assms(2) by (auto simp: delivery_tick_def Let_def case_prod_beta)
  obtain ops where ops: "db' = fold outbox_exec ops (fst ?claim)"
    using deliver_batch_run [of env 0 "[]" items "fst ?claim"] db' by blast
  then have wf: "outbox_wf db'"
    using fold_wf [OF assms(1), of "OpClaim gopen deliveryBatchSize (if 0 < deliveryLease then Some deliveryLease else None) tok now # ops"]
    by simp
  have "\<not> outbox.owns db' (ItemID it) (ItemLeaseToken it)" if it: "it \<in> set items" for it
    unfolding db'
  proof (rule deliver_batch_settles [OF it])
    obtain r item k where r: "r \<in> set (picked_rows deliveryBatchSize now db)" "ItemID it = OId r"
        "it = leased_item (now + lease_length (if 0 < deliveryLease then Some deliveryLease else None)) (tok k) item"
      using claimed_origin [of it gopen deliveryBatchSize _ tok now db] it claim by (metis snd_conv)
    have "\<exists>q \<in> set (Outbox db). OId q = OId r" using due_row_origin picked_claimable [OF r(1)] by blast
    then show "0 < ItemID it" using assms(3) r(2) by fastforce
    have tk: "ItemLeaseToken it = tok k" using r(3) by (simp add: leased_item_def)
    show "trim_space (ItemLeaseToken it) \<noteq> ''''" using assms(4) tk by simp
    show "\<forall>j. \<forall>op \<in> set (DelivOther env j). ItemLeaseToken it \<notin> outbox_issued op" using assms(5) tk by simp
  qed
  then have "\<forall>it \<in> set items. \<forall>r \<in> set (Outbox db').
       \<not> (OId r = ItemID it \<and> OStatus r = Processing \<and> OLeaseToken r = ItemLeaseToken it)"
    unfolding outbox.owns_def outbox_holds_def by blast
  with wf show ?thesis by (simp add: log deliver_batch_length)
qed

subsection \<open>The properties at a concrete input\<close>

lemma sample_claim_token: "map ItemLeaseToken (snd sample_claim) = [''aa'', ''bb'']"
  by code_simp

text \<open>A tick over two notifications of one destination; both are sent, in order.\<close>

definition sample_delivery :: delivery_env where
  "sample_delivery =
     \<lparr> DelivResult = (\<lambda>_. Sent), DelivRandom = (\<lambda>_ _. 0), DelivSince = (\<lambda>_. 101), DelivNow = (\<lambda>_. 101),
       DelivStore = (\<lambda>_. 101), DelivOther = (\<lambda>_. []) \<rparr>"

lemma sample_tick:
  "delivery_tick sample_delivery (\<lambda>_ _ _. None) 0 sample_tok 100 sample_db =
     (fst (deliver_batch sample_delivery 0 [] (snd sample_claim) (fst sample_claim)), snd sample_claim,
      [Contacted Sent, Contacted Sent])"
proof -
  have "snd (deliver_batch sample_delivery 0 [] (snd sample_claim) (fst sample_claim)) = [Contacted Sent, Contacted Sent]"
  proof (rule sample_split)
    fix p1 p2 i1 i2 assume "snd sample_claim = [i1, i2]"
    then show ?thesis by (simp add: sample_delivery_def deliverItem_def)
  qed
  then show ?thesis
    by (simp add: delivery_tick_def deliveryBatchSize_def sample_result Let_def case_prod_beta)
qed

theorem delivery_never_overtakes_witness:
  "\<exists>db' items log. delivery_tick sample_delivery (\<lambda>_ _ _. None) 0 sample_tok 100 sample_db = (db', items, log)
    \<and> ItemID (items ! 1) = 2 \<and> (\<exists>i < 1. ItemID (items ! i) = 1 \<and> log ! i = Contacted Sent)"
proof (rule sample_split)
  fix p1 p2 i1 i2
  assume a: "Outbox (fst sample_claim) = [p1, p2]" "snd sample_claim = [i1, i2]"
    "OId p1 = 1" "OId p2 = 2" "ItemID i1 = 1" "ItemID i2 = 2" "ODest p1 = 1" "ItemDest i2 = 1"
    "OStatus p1 = Processing" "OLeaseToken p1 = ''aa''" "OLeaseToken p2 = ''bb''"
  have "p1 \<in> set (Outbox (fst (ClaimDueOutbox (\<lambda>_ _ _. None) deliveryBatchSize
      (if 0 < (0 :: int) then Some 0 else None) sample_tok 100 sample_db)))"
    by (simp add: deliveryBatchSize_def sample_result a)
  from delivery_never_overtakes [OF _ sample_tick _ _ this, of 1] show ?thesis
    unfolding sample_tick using a by (simp add: sample_ids)
qed

theorem tick_settles_every_item_witness:
  "\<exists>db' items log. delivery_tick sample_delivery (\<lambda>_ _ _. None) 0 sample_tok 100 sample_db = (db', items, log)
    \<and> length items = 2 \<and> filter (\<lambda>r. OId r = 1 \<and> OStatus r = Processing \<and> OLeaseToken r = ''aa'') (Outbox db') = []"
proof (rule sample_split)
  fix p1 p2 i1 i2
  assume a: "Outbox (fst sample_claim) = [p1, p2]" "snd sample_claim = [i1, i2]"
    "OId p1 = 1" "OId p2 = 2" "ItemID i1 = 1" "ItemID i2 = 2" "ODest p1 = 1" "ItemDest i2 = 1"
    "OStatus p1 = Processing" "OLeaseToken p1 = ''aa''" "OLeaseToken p2 = ''bb''"
  have wf: "outbox_wf sample_db" and pos: "\<forall>r \<in> set (Outbox sample_db). 0 < OId r" by code_simp+
  have tk: "trim_space (sample_tok k) \<noteq> ''''" for k
    using trim_space_plain [of "sample_tok k"] by (simp add: sample_tok_def)
  have "ItemLeaseToken i1 = ''aa''" using sample_claim_token a by simp
  then show ?thesis
    using tick_settles_every_item [OF wf sample_tick pos] tk a
    unfolding sample_tick by (simp add: sample_delivery_def filter_empty_conv)
qed

end
