(* ===== verification/Store_Collectors.thy ===== *)
theory Store_Collectors
  imports Store_Outbox Store_Webhooks
begin

text \<open>
  The state of the collectors: the table \<open>collector_state\<close> and its operations in
  \<open>internal/store/status.go\<close> and \<open>snapshots.go\<close> (schedule, failure counts, health).

  The table is the list of its rows, whose key is the generation and the collector. Two rows of
  the table \<open>meta\<close> that the batches use are kept decoded: \<open>GuardSince\<close> (the last success before a
  mass-removal guard engaged, by collector) and \<open>SharedScope\<close> (the generation whose users were
  collected with shared users). The settings row is its generation and the time of its baseline.
  The text of a notice (\<open>messages.CollectorsUnhealthy\<close> and \<open>notify.EncodePayload\<close>) is an argument.
\<close>

record coll_row =
  CGen :: int
  CColl :: string
  CSupported :: bool
  CBaseline :: bool
  CLastSuccess :: "instant option"
  CLastError :: string
  CFailures :: int
  CNotified :: bool
  CNextPoll :: "instant option"
  CDuration :: int
  CPartial :: bool
  CPartialCount :: int

record snap_row =
  SnapGen :: int
  SnapColl :: string
  SnapID :: string
  SnapType :: string
  SnapName :: string
  SnapJSON :: string
  SnapHash :: string
  SnapBytes :: int
  SnapTruncated :: bool
  SnapMissing :: int
  SnapUpdated :: instant

record inventory_db =
  Snapshots :: "snap_row list"
  CollStates :: "coll_row list"
  GuardSince :: "string \<Rightarrow> (int \<times> instant) option"
  SharedScope :: "int option"
  ActiveGeneration :: "int option"
  BaselineAt :: "instant option"

record collector_health =
  HealthCollector :: string
  HealthReason :: string
  HealthDetail :: string

record collector_failure =
  FailCollector :: string
  FailReason :: string
  FailMessage :: string

subsection \<open>Rows\<close>

definition is_coll :: "int \<Rightarrow> string \<Rightarrow> coll_row \<Rightarrow> bool" where
  "is_coll gen c r \<longleftrightarrow> CGen r = gen \<and> CColl r = c"

definition coll_of :: "int \<Rightarrow> string \<Rightarrow> inventory_db \<Rightarrow> coll_row option" where
  "coll_of gen c db = List.find (is_coll gen c) (CollStates db)"

text \<open>A row as the column defaults of the schema make it.\<close>

definition default_coll :: "int \<Rightarrow> string \<Rightarrow> coll_row" where
  "default_coll gen c =
     \<lparr> CGen = gen, CColl = c, CSupported = True, CBaseline = False, CLastSuccess = None,
       CLastError = '''', CFailures = 0, CNotified = False, CNextPoll = None, CDuration = 0,
       CPartial = False, CPartialCount = 0 \<rparr>"

text \<open>\<open>INSERT ... ON CONFLICT(generation,collector) DO UPDATE\<close>: the row to insert and the update of
  an existing one.\<close>

definition put_coll :: "int \<Rightarrow> string \<Rightarrow> coll_row \<Rightarrow> (coll_row \<Rightarrow> coll_row) \<Rightarrow> coll_row list \<Rightarrow> coll_row list" where
  "put_coll gen c fresh upd rows =
     (if list_ex (is_coll gen c) rows then update_where (is_coll gen c) upd rows else rows @ [fresh])"

definition update_coll :: "int \<Rightarrow> string \<Rightarrow> (coll_row \<Rightarrow> coll_row) \<Rightarrow> inventory_db \<Rightarrow> inventory_db" where
  "update_coll gen c upd db = db\<lparr>CollStates := update_where (is_coll gen c) upd (CollStates db)\<rparr>"

definition upsert_coll :: "int \<Rightarrow> string \<Rightarrow> coll_row \<Rightarrow> (coll_row \<Rightarrow> coll_row) \<Rightarrow> inventory_db \<Rightarrow> inventory_db" where
  "upsert_coll gen c fresh upd db = db\<lparr>CollStates := put_coll gen c fresh upd (CollStates db)\<rparr>"

subsection \<open>The schedule\<close>

definition schedule_one :: "int \<Rightarrow> instant \<Rightarrow> string \<Rightarrow> inventory_db \<Rightarrow> inventory_db" where
  "schedule_one gen at c =
     upsert_coll gen c ((default_coll gen c)\<lparr>CNextPoll := Some at\<rparr>) (\<lambda>r. r\<lparr>CNextPoll := Some at\<rparr>)"

definition SetNextPollErr :: "int \<Rightarrow> string list \<Rightarrow> instant \<Rightarrow> inventory_db \<Rightarrow> inventory_db" where
  "SetNextPollErr gen collectors at db =
     (if sortedUnique collectors = [] then db
      else if ActiveGeneration db \<noteq> Some gen then db
      else fold (schedule_one gen at) (sortedUnique collectors) db)"

text \<open>The outcome \<open>(zero, true)\<close> of a collector that is due at once is \<open>DueNow\<close>.\<close>

datatype earliest = NothingDue | DueNow | DueAt instant

fun earliest_of :: "coll_row list \<Rightarrow> earliest \<Rightarrow> earliest" where
  "earliest_of [] best = best"
| "earliest_of (r # rs) best =
     (case CNextPoll r of
        None \<Rightarrow> DueNow
      | Some at \<Rightarrow>
          earliest_of rs (case best of DueAt d \<Rightarrow> if at < d then DueAt at else best | _ \<Rightarrow> DueAt at))"

definition EarliestCollectorDue :: "int \<Rightarrow> string list \<Rightarrow> inventory_db \<Rightarrow> earliest" where
  "EarliestCollectorDue gen collectors db =
     earliest_of (filter (\<lambda>r. CGen r = gen \<and> CColl r \<in> set (sortedUnique collectors)) (CollStates db)) NothingDue"

definition CollectorFailureCounts :: "int \<Rightarrow> string list \<Rightarrow> inventory_db \<Rightarrow> (string \<times> int) list" where
  "CollectorFailureCounts gen collectors db =
     map (\<lambda>r. (CColl r, CFailures r))
       (filter (\<lambda>r. CGen r = gen \<and> CColl r \<in> set (sortedUnique collectors)) (CollStates db))"

definition CollectorDueWithError :: "int \<Rightarrow> string \<Rightarrow> instant \<Rightarrow> inventory_db \<Rightarrow> bool" where
  "CollectorDueWithError gen c now db =
     (case coll_of gen c db of
        None \<Rightarrow> True
      | Some r \<Rightarrow> (case CNextPoll r of None \<Rightarrow> True | Some at \<Rightarrow> at \<le> now))"

definition RecordCollectorPoll :: "int \<Rightarrow> string \<Rightarrow> duration \<Rightarrow> bool \<Rightarrow> inventory_db \<Rightarrow> inventory_db" where
  "RecordCollectorPoll gen c took partial =
     update_coll gen c (\<lambda>r. r\<lparr>CDuration := max took 0 div 1000000, CPartial := partial\<rparr>)"

subsection \<open>Health\<close>

definition CollectorWasUnhealthyWithError :: "int \<Rightarrow> string \<Rightarrow> inventory_db \<Rightarrow> bool" where
  "CollectorWasUnhealthyWithError gen c db =
     (case coll_of gen c db of None \<Rightarrow> False | Some r \<Rightarrow> CNotified r)"

text \<open>One failure: the notice it gives rise to and the row it leaves.\<close>

definition record_failure :: "int \<Rightarrow> collector_failure \<Rightarrow> inventory_db \<Rightarrow> inventory_db \<times> collector_health list" where
  "record_failure gen failure db =
     (let c = FailCollector failure;
          state = coll_of gen c db;
          count = (case state of None \<Rightarrow> 0 | Some r \<Rightarrow> CFailures r) + 1;
          notified = (case state of None \<Rightarrow> False | Some r \<Rightarrow> CNotified r);
          crosses = (3 \<le> count \<and> \<not> notified);
          upd = (\<lambda>r. r\<lparr>CSupported := True, CLastError := FailMessage failure, CFailures := count,
                       CNotified := notified \<or> crosses, CPartial := False, CPartialCount := 0\<rparr>)
      in (upsert_coll gen c (upd (default_coll gen c)) upd db,
          if crosses then [\<lparr> HealthCollector = c, HealthReason = FailReason failure, HealthDetail = '''' \<rparr>] else []))"

fun record_failures :: "int \<Rightarrow> collector_failure list \<Rightarrow> inventory_db \<Rightarrow> inventory_db \<times> collector_health list" where
  "record_failures gen [] db = (db, [])"
| "record_failures gen (failure # failures) db =
     (let (db1, reported) = record_failure gen failure db;
          (db2, others) = record_failures gen failures db1
      in (db2, reported @ others))"

text \<open>\<open>None\<close> in the place of the reports is \<open>active = false\<close>; \<open>Inl\<close> is the error of a missing settings row.\<close>

definition recordCollectorFailuresTx ::
  "int \<Rightarrow> collector_failure list \<Rightarrow> inventory_db \<Rightarrow> webhook_store_error + (inventory_db \<times> collector_health list option)" where
  "recordCollectorFailuresTx gen failures db =
     (case ActiveGeneration db of
        None \<Rightarrow> Inl NoRows
      | Some active \<Rightarrow>
          if active \<noteq> gen then Inr (db, None)
          else (let (db', reported) = record_failures gen failures db in Inr (db', Some reported)))"

definition RecordCollectorHealth ::
  "(collector_health list \<Rightarrow> string \<times> string) \<Rightarrow> int \<Rightarrow> collector_failure list \<Rightarrow> instant \<Rightarrow> inventory_db \<Rightarrow> outbox_db
     \<Rightarrow> webhook_store_error + (inventory_db \<times> outbox_db)" where
  "RecordCollectorHealth render gen failures now db box =
     (case recordCollectorFailuresTx gen failures db of
        Inl e \<Rightarrow> Inl e
      | Inr (_, None) \<Rightarrow> Inr (db, box)
      | Inr (db', Some reported) \<Rightarrow>
          Inr (db', if reported = [] then box
                    else (case render reported of
                            (payloadFormat, payload) \<Rightarrow> enqueueOutboxTx payloadFormat payload now 0 box)))"

definition RecordCollectorFailure ::
  "int \<Rightarrow> string \<Rightarrow> string \<Rightarrow> inventory_db \<Rightarrow> webhook_store_error + (inventory_db \<times> bool)" where
  "RecordCollectorFailure gen c message db =
     (case recordCollectorFailuresTx gen [\<lparr> FailCollector = c, FailReason = '''', FailMessage = message \<rparr>] db of
        Inl e \<Rightarrow> Inl e
      | Inr (_, None) \<Rightarrow> Inr (db, False)
      | Inr (db', Some reported) \<Rightarrow> Inr (db', reported \<noteq> []))"

subsection \<open>The baseline\<close>

definition markBaselineReady :: "int \<Rightarrow> instant \<Rightarrow> inventory_db \<Rightarrow> inventory_db" where
  "markBaselineReady gen now db =
     (let supported = filter (\<lambda>r. CGen r = gen \<and> CSupported r) (CollStates db)
      in if supported \<noteq> [] \<and> list_all CBaseline supported \<and> ActiveGeneration db = Some gen
         then db\<lparr>BaselineAt := (case BaselineAt db of None \<Rightarrow> Some now | Some at \<Rightarrow> Some at)\<rparr> else db)"

end
