(* ===== verification/Store_Snapshots.thy ===== *)
theory Store_Snapshots
  imports Store_Collectors Model_Dns Model_Shares GoTime
begin

text \<open>
  What a poll does to the stored inventory, \<open>internal/store/snapshots.go\<close> (with the bounded values
  of \<open>storage_limits.go\<close>): each collector's result is compared with its snapshots, the differences
  are recorded as changes, and omitted resources are removed on their second omission unless the
  mass-removal guard holds them back.

  A batch is a function of the database; \<open>None\<close> is an error of the canonical form, which rolls the
  transaction back. A query without \<open>ORDER BY\<close> returns the rows in the order of the table. The
  result of a failed collection (\<open>result.Error != nil\<close>) is \<open>CollFailed\<close>.
\<close>

record storage_limits =
  SnapshotBytes :: int
  EventValueBytes :: int
  RejectBytes :: int

record stored_value =
  SVRaw :: string
  SVHash :: string
  SVBytes :: int
  SVTruncated :: bool
  SVRejected :: bool
  SVReason :: string

record collected =
  CollName :: string
  CollResources :: "resource list"
  CollUnsupported :: bool
  CollReason :: string
  CollPartial :: bool
  CollPartialError :: string
  CollPartialCount :: int
  CollFailed :: bool
  CollObserved :: instant

record recorded_change =
  RecChange :: change
  RecBefore :: stored_value
  RecAfter :: stored_value

record truncations =
  SnapshotTruncations :: nat
  EventTruncations :: nat
  OversizedWrites :: nat

record batch_state =
  Inv :: inventory_db
  Recorded :: "recorded_change list"
  Unhealthy :: "collector_health list"
  Truncations :: truncations

record batch_env =
  BatchGen :: int
  BatchNow :: instant
  BatchLimits :: storage_limits

subsection \<open>Bounded values\<close>

definition effectiveValueLimit :: "int \<Rightarrow> int \<Rightarrow> int" where
  "effectiveValueLimit limit reject = (if 0 < reject \<and> reject < limit then reject else limit)"

definition truncationJSON :: "string \<Rightarrow> int \<Rightarrow> int \<Rightarrow> string \<Rightarrow> string" where
  "truncationJSON hash bytes limit reason =
     ''{'' @ quote_text ''_tailstate'' @ '':{'' @ quote_text ''truncated'' @ '':true,''
     @ quote_text ''sha256'' @ '':'' @ quote_text hash @ '',''
     @ quote_text ''bytes'' @ '':'' @ int_text bytes @ '',''
     @ quote_text ''limit'' @ '':'' @ int_text limit @ '',''
     @ quote_text ''reason'' @ '':'' @ quote_text reason @ ''}}''"

definition zero_value :: stored_value where
  "zero_value =
     \<lparr> SVRaw = '''', SVHash = '''', SVBytes = 0, SVTruncated = False, SVRejected = False, SVReason = '''' \<rparr>"

definition boundedValue :: "string \<Rightarrow> string \<Rightarrow> int \<Rightarrow> int \<Rightarrow> stored_value" where
  "boundedValue raw hash limit0 reject =
     (let value = zero_value\<lparr>SVRaw := raw, SVHash := hash, SVBytes := int (length raw)\<rparr>;
          limit = effectiveValueLimit limit0 reject
      in if raw = [] \<or> int (length raw) \<le> limit then value
         else
           (let rejected = (0 < reject \<and> reject < int (length raw));
                reason = (if rejected then ''hard write limit'' else ''byte limit'')
            in value\<lparr>SVTruncated := True, SVReason := reason, SVRejected := rejected,
                     SVRaw := truncationJSON hash (int (length raw)) limit reason\<rparr>))"

definition existingStoredValue :: "string \<Rightarrow> string \<Rightarrow> int \<Rightarrow> bool \<Rightarrow> stored_value" where
  "existingStoredValue raw hash bytes truncated =
     zero_value\<lparr>SVRaw := raw, SVHash := hash,
       SVBytes := (if bytes \<le> 0 \<and> raw \<noteq> [] then int (length raw) else bytes), SVTruncated := truncated\<rparr>"

definition noteTruncation :: "stored_value \<Rightarrow> bool \<Rightarrow> truncations \<Rightarrow> truncations" where
  "noteTruncation v snapshot t =
     (if \<not> SVTruncated v then t
      else
        (let t1 = (if snapshot then t\<lparr>SnapshotTruncations := SnapshotTruncations t + 1\<rparr>
                   else t\<lparr>EventTruncations := EventTruncations t + 1\<rparr>)
         in if SVRejected v then t1\<lparr>OversizedWrites := OversizedWrites t1 + 1\<rparr> else t1))"

subsection \<open>Canonical forms\<close>

definition usable :: "collected \<Rightarrow> bool" where
  "usable result \<longleftrightarrow> \<not> CollFailed result \<and> \<not> CollUnsupported result"

definition canonicalizeResults :: "collected list \<Rightarrow> (string \<times> string) list list option" where
  "canonicalizeResults results =
     those (map (\<lambda>result.
       if usable result then those (map (\<lambda>r. CanonicalFor (CollName result) (ResData r)) (CollResources result))
       else Some []) results)"

definition fetchedAt :: "batch_env \<Rightarrow> collected \<Rightarrow> instant" where
  "fetchedAt env result =
     (if CollObserved result = zero_time \<or> BatchNow env < CollObserved result then BatchNow env
      else CollObserved result)"

subsection \<open>Unsupported collectors\<close>

definition unsupportedConfirmationMessage :: string where
  "unsupportedConfirmationMessage = ''unsupported response pending confirmation''"

definition unsupportedRetryInterval :: duration where "unsupportedRetryInterval = 5 * minute"
definition unsupportedDemotionInterval :: duration where "unsupportedDemotionInterval = 6 * hour"

definition demotionDetail :: "string \<Rightarrow> string" where
  "demotionDetail reason_text =
     (let cause = trim_suffix (trim_prefix reason_text ''unsupported ('') '')''
      in (if cause = reason_text \<or> cause = '''' then ''HTTP 403/404'' else cause)
         @ '' on two consecutive polls; changes are not detected until it answers again, rechecked every 6 hours'')"

definition unsupportedCollector :: "batch_env \<Rightarrow> collected \<Rightarrow> batch_state \<Rightarrow> batch_state" where
  "unsupportedCollector env result a =
     (let gen = BatchGen env; c = CollName result; state = coll_of gen c (Inv a);
          established = (case state of None \<Rightarrow> False | Some r \<Rightarrow> CSupported r \<and> CBaseline r);
          pending = (case state of None \<Rightarrow> False | Some r \<Rightarrow> CLastError r = unsupportedConfirmationMessage)
      in if established \<and> \<not> pending
         then a\<lparr>Inv := update_coll gen c
                  (\<lambda>r. r\<lparr>CSupported := True, CLastError := unsupportedConfirmationMessage, CFailures := 1,
                          CNextPoll := Some (BatchNow env + unsupportedRetryInterval), CPartial := False,
                          CPartialCount := 0\<rparr>) (Inv a)\<rparr>
         else
           (let reason_text = (let t = trim_space (CollReason result) in if t = '''' then ''unsupported'' else t);
                was = (case state of None \<Rightarrow> False | Some r \<Rightarrow> CNotified r);
                announce = (established \<and> \<not> was);
                upd = (\<lambda>r. r\<lparr>CSupported := False, CLastError := reason_text,
                              CNextPoll := Some (BatchNow env + unsupportedDemotionInterval),
                              CPartial := False, CNotified := was \<or> announce\<rparr>)
            in a\<lparr>Inv := upsert_coll gen c (upd (default_coll gen c)) upd (Inv a),
                 Unhealthy := Unhealthy a @
                   (if announce then [\<lparr> HealthCollector = c, HealthReason = ''unsupported'',
                                        HealthDetail = demotionDetail reason_text \<rparr>] else [])\<rparr>))"

subsection \<open>One returned resource\<close>

definition is_snap :: "int \<Rightarrow> string \<Rightarrow> string \<Rightarrow> snap_row \<Rightarrow> bool" where
  "is_snap gen c i r \<longleftrightarrow> SnapGen r = gen \<and> SnapColl r = c \<and> SnapID r = i"

definition snap_of :: "int \<Rightarrow> string \<Rightarrow> string \<Rightarrow> inventory_db \<Rightarrow> snap_row option" where
  "snap_of gen c i db = List.find (is_snap gen c i) (Snapshots db)"

definition isSharedUser :: "resource \<Rightarrow> bool" where
  "isSharedUser r = (case ResData r of JObj m \<Rightarrow> equal_fold (obj_string m ''type'') ''shared'' | _ \<Rightarrow> False)"

definition record_change :: "change \<Rightarrow> stored_value \<Rightarrow> stored_value \<Rightarrow> batch_state \<Rightarrow> batch_state" where
  "record_change change before after a =
     a\<lparr>Recorded := Recorded a @ [\<lparr> RecChange = change, RecBefore = before, RecAfter = after \<rparr>]\<rparr>"

definition write_snapshot :: "batch_env \<Rightarrow> string \<Rightarrow> resource \<Rightarrow> stored_value \<Rightarrow> string \<Rightarrow> snap_row" where
  "write_snapshot env c resource stored hash =
     \<lparr> SnapGen = BatchGen env, SnapColl = c, SnapID = ResID resource, SnapType = ResType resource,
       SnapName = ResName resource, SnapJSON = SVRaw stored, SnapHash = hash, SnapBytes = SVBytes stored,
       SnapTruncated = SVTruncated stored, SnapMissing = 0, SnapUpdated = BatchNow env \<rparr>"

definition insertSnapshot :: "batch_env \<Rightarrow> string \<Rightarrow> resource \<Rightarrow> stored_value \<Rightarrow> string \<Rightarrow> batch_state \<Rightarrow> batch_state" where
  "insertSnapshot env c resource stored hash a =
     a\<lparr>Inv := (Inv a)\<lparr>Snapshots := Snapshots (Inv a) @ [write_snapshot env c resource stored hash]\<rparr>\<rparr>"

definition rewriteSnapshot :: "batch_env \<Rightarrow> string \<Rightarrow> resource \<Rightarrow> stored_value \<Rightarrow> string \<Rightarrow> batch_state \<Rightarrow> batch_state" where
  "rewriteSnapshot env c resource stored hash a =
     a\<lparr>Inv := (Inv a)\<lparr>Snapshots :=
        update_where (is_snap (BatchGen env) c (ResID resource))
          (\<lambda>_. write_snapshot env c resource stored hash) (Snapshots (Inv a))\<rparr>\<rparr>"

text \<open>The stored row as the comparison sees it (lines 342 to 359): its bytes, its hash and its value;
  a row whose hash differs is normalised again first.\<close>

definition comparable_row :: "string \<Rightarrow> string \<Rightarrow> snap_row \<Rightarrow> (string \<times> string \<times> stored_value) option" where
  "comparable_row c hash r =
     (let stored = existingStoredValue (SnapJSON r) (SnapHash r) (SnapBytes r) (SnapTruncated r);
          asis = Some (SnapJSON r, SnapHash r, stored)
      in if SnapHash r = hash \<or> SnapTruncated r then asis
         else
           (case unmarshal (SnapJSON r) of
              None \<Rightarrow> asis
            | Some previous \<Rightarrow>
                (case CanonicalFor c previous of
                   None \<Rightarrow> None
                 | Some (raw, hash') \<Rightarrow>
                     Some (raw, hash', existingStoredValue raw hash' (int (length raw)) False))))"

definition changed_change :: "string \<Rightarrow> resource \<Rightarrow> string \<Rightarrow> string \<Rightarrow> diff_result \<Rightarrow> change" where
  "changed_change c resource oldRaw raw d =
     \<lparr> Kind = ''changed'', ChangeCollector = c, ResourceID = ResID resource, ChangeType = ResType resource,
       ChangeName = ResName resource, ChangeFields = Fields d, ChangeTruncated = FieldsTruncated d,
       ChangeTotal = TotalFields d, ChangeAttribution = None,
       Invites = (if c = ''device_details'' then DeviceInvites oldRaw raw else (\<lambda>_. None)),
       CreatedAs = None \<rparr>"

definition created_change :: "string \<Rightarrow> resource \<Rightarrow> string \<Rightarrow> change" where
  "created_change c resource raw =
     \<lparr> Kind = ''created'', ChangeCollector = c, ResourceID = ResID resource, ChangeType = ResType resource,
       ChangeName = ResName resource, ChangeFields = [], ChangeTruncated = False, ChangeTotal = 0,
       ChangeAttribution = None, Invites = (\<lambda>_. None), CreatedAs = CreatedStateOf c raw \<rparr>"

definition removed_change :: "string \<Rightarrow> snap_row \<Rightarrow> change" where
  "removed_change c r =
     \<lparr> Kind = ''removed'', ChangeCollector = c, ResourceID = SnapID r, ChangeType = SnapType r,
       ChangeName = SnapName r, ChangeFields = [], ChangeTruncated = False, ChangeTotal = 0,
       ChangeAttribution = None, Invites = (\<lambda>_. None), CreatedAs = None \<rparr>"

text \<open>The recording of a differing resource (lines 376 to 394): nothing when only the upstream shape
  differs.\<close>

definition record_difference ::
  "string \<Rightarrow> resource \<Rightarrow> bool \<Rightarrow> string \<Rightarrow> stored_value \<Rightarrow> string \<Rightarrow> string \<Rightarrow> batch_state \<Rightarrow> batch_state" where
  "record_difference c resource baselined oldRaw oldValue raw hash a =
     (let transition = (if SVTruncated oldValue then None else ShapeTransition c oldRaw raw)
      in if \<not> baselined \<or> (case transition of Some (old, new) \<Rightarrow> old = new | None \<Rightarrow> False) then a
         else
           (let d = (case transition of
                       Some (old, new) \<Rightarrow> DiffDetailedFor c old new
                     | None \<Rightarrow> if SVTruncated oldValue then empty_result else DiffDetailedFor c oldRaw raw)
            in record_change (changed_change c resource oldRaw raw d) oldValue
                 (existingStoredValue raw hash (int (length raw)) False) a))"

definition same_row :: "string \<Rightarrow> resource \<Rightarrow> stored_value \<Rightarrow> snap_row \<Rightarrow> bool" where
  "same_row hash resource stored r \<longleftrightarrow>
     SnapHash r = hash \<and> SnapType r = ResType resource \<and> SnapName r = ResName resource \<and> SnapMissing r = 0
     \<and> SnapTruncated r = SVTruncated stored \<and> SnapBytes r = SVBytes stored \<and> SnapJSON r = SVRaw stored"

definition upsertResource ::
  "batch_env \<Rightarrow> string \<Rightarrow> bool \<Rightarrow> bool \<Rightarrow> bool \<Rightarrow> resource \<times> string \<times> string \<Rightarrow> batch_state \<Rightarrow> batch_state option" where
  "upsertResource env c baselined silentLifecycle absorbSharedUsers =
     (\<lambda>(resource, raw, hash) a0.
       let stored = boundedValue raw hash (SnapshotBytes (BatchLimits env)) (RejectBytes (BatchLimits env));
           a = a0\<lparr>Truncations := noteTruncation stored True (Truncations a0)\<rparr>
       in case snap_of (BatchGen env) c (ResID resource) (Inv a) of
            None \<Rightarrow>
              Some (insertSnapshot env c resource stored hash
                (if baselined \<and> \<not> silentLifecycle \<and> \<not> (absorbSharedUsers \<and> isSharedUser resource)
                 then record_change (created_change c resource raw) zero_value
                        (existingStoredValue raw hash (int (length raw)) False) a
                 else a))
          | Some r \<Rightarrow>
              (case comparable_row c hash r of
                 None \<Rightarrow> None
               | Some (oldRaw, oldHash, oldValue) \<Rightarrow>
                   if oldHash \<noteq> hash
                   then Some (rewriteSnapshot env c resource stored hash
                          (record_difference c resource baselined oldRaw oldValue raw hash a))
                   else if same_row hash resource stored r then Some a
                   else Some (rewriteSnapshot env c resource stored hash a)))"

fun upsert_all ::
  "batch_env \<Rightarrow> string \<Rightarrow> bool \<Rightarrow> bool \<Rightarrow> bool \<Rightarrow> (resource \<times> string \<times> string) list \<Rightarrow> batch_state \<Rightarrow> batch_state option" where
  "upsert_all env c b s ab [] a = Some a"
| "upsert_all env c b s ab (x # xs) a =
     (case upsertResource env c b s ab x a of None \<Rightarrow> None | Some a' \<Rightarrow> upsert_all env c b s ab xs a')"

subsection \<open>Omitted resources\<close>

definition removalGuardPrefix :: string where
  "removalGuardPrefix = ''possible mass removal guarded''"

text \<open>The stored rows of a collector that the response omitted.\<close>

definition omitted :: "int \<Rightarrow> string \<Rightarrow> string list \<Rightarrow> inventory_db \<Rightarrow> snap_row list" where
  "omitted gen c seen db =
     filter (\<lambda>r. SnapGen r = gen \<and> SnapColl r = c \<and> SnapID r \<notin> set seen) (Snapshots db)"

definition previous_guard :: "int \<Rightarrow> string \<Rightarrow> inventory_db \<Rightarrow> bool \<times> int" where
  "previous_guard gen c db =
     (case coll_of gen c db of
        None \<Rightarrow> (False, 0)
      | Some r \<Rightarrow> (has_prefix (CLastError r) removalGuardPrefix, CFailures r))"

definition massRemovalGuard :: "batch_env \<Rightarrow> collected \<Rightarrow> string list \<Rightarrow> inventory_db \<Rightarrow> bool \<times> nat" where
  "massRemovalGuard env result seen db =
     (if CollPartial result then (True, 0)
      else
        (let missing = omitted (BatchGen env) (CollName result) seen db;
             missingCount = length missing;
             confirmedMissing = (missing \<noteq> [] \<and> list_all (\<lambda>r. SnapMissing r \<noteq> 0) missing);
             suspicious = (3 \<le> missingCount \<and> length seen < missingCount)
         in if \<not> suspicious \<or> confirmedMissing then (False, missingCount)
            else
              (case previous_guard (BatchGen env) (CollName result) db of
                 (guarded, failures) \<Rightarrow> (\<not> guarded \<or> failures < 2, missingCount))))"

text \<open>The loop over the omitted rows: the second omission in a row removes.\<close>

definition miss_one :: "batch_env \<Rightarrow> string \<Rightarrow> bool \<Rightarrow> snap_row \<Rightarrow> batch_state \<Rightarrow> batch_state" where
  "miss_one env c reported r a =
     (if 2 \<le> SnapMissing r + 1
      then
        (let a1 = (if reported
                   then record_change (removed_change c r)
                          (existingStoredValue (SnapJSON r) (SnapHash r) (SnapBytes r) (SnapTruncated r)) zero_value a
                   else a)
         in a1\<lparr>Inv := (Inv a1)\<lparr>Snapshots :=
              filter (\<lambda>q. \<not> is_snap (BatchGen env) c (SnapID r) q) (Snapshots (Inv a1))\<rparr>\<rparr>)
      else
        a\<lparr>Inv := (Inv a)\<lparr>Snapshots :=
           update_where (is_snap (BatchGen env) c (SnapID r)) (\<lambda>q. q\<lparr>SnapMissing := SnapMissing q + 1\<rparr>)
             (Snapshots (Inv a))\<rparr>\<rparr>)"

definition reconcileMissing :: "batch_env \<Rightarrow> string \<Rightarrow> string list \<Rightarrow> bool \<Rightarrow> bool \<Rightarrow> batch_state \<Rightarrow> batch_state \<times> bool" where
  "reconcileMissing env c seen baselined silentLifecycle a =
     (let missing = omitted (BatchGen env) c seen (Inv a)
      in (fold (miss_one env c (baselined \<and> \<not> silentLifecycle)) missing a,
          list_ex (\<lambda>r. SnapMissing r + 1 < 2) missing))"

subsection \<open>The state of the collector\<close>

definition recordCollectorPartial :: "batch_env \<Rightarrow> collected \<Rightarrow> instant \<Rightarrow> inventory_db \<Rightarrow> inventory_db" where
  "recordCollectorPartial env result fetched =
     (let gen = BatchGen env; c = CollName result;
          message = (let t = trim_space (CollPartialError result)
                     in if t = '''' then ''collector response was partial'' else t);
          count = (if CollPartialCount result < 1 then 1 else CollPartialCount result)
      in upsert_coll gen c
           ((default_coll gen c)\<lparr>CSupported := True, CBaseline := True, CLastSuccess := Some fetched,
              CLastError := message, CFailures := 1, CNotified := False, CPartial := True,
              CPartialCount := count\<rparr>)
           (\<lambda>r. r\<lparr>CSupported := True, CBaseline := True, CLastSuccess := Some fetched,
              CLastError := message, CPartial := True, CPartialCount := count\<rparr>))"

definition recordRemovalGuard ::
  "batch_env \<Rightarrow> string \<Rightarrow> bool \<Rightarrow> nat \<Rightarrow> nat \<Rightarrow> instant \<Rightarrow> batch_state \<Rightarrow> batch_state" where
  "recordRemovalGuard env c baseline missingCount present fetched a =
     (let gen = BatchGen env; state = coll_of gen c (Inv a);
          engaged = (case state of None \<Rightarrow> False | Some r \<Rightarrow> has_prefix (CLastError r) removalGuardPrefix);
          since = (case state of None \<Rightarrow> None | Some r \<Rightarrow> CLastSuccess r);
          message = removalGuardPrefix @ '' ('' @ nat_text missingCount @ '' missing, '' @ nat_text present @ '' present)'';
          a1 = (if engaged then a
                else a\<lparr>Unhealthy := Unhealthy a @
                          [\<lparr> HealthCollector = c, HealthReason = ''possible mass removal'',
                             HealthDetail = nat_text missingCount @ '' of '' @ nat_text (missingCount + present) @
                               '' resources missing from a complete response; removals are reported only if they stay missing'' \<rparr>],
                       Inv := (case since of
                                 None \<Rightarrow> Inv a
                               | Some t \<Rightarrow> (Inv a)\<lparr>GuardSince := (GuardSince (Inv a))(c \<mapsto> (gen, t))\<rparr>)\<rparr>)
      in a1\<lparr>Inv := upsert_coll gen c
            ((default_coll gen c)\<lparr>CSupported := True, CBaseline := baseline, CLastSuccess := Some fetched,
               CLastError := message, CFailures := 1, CNotified := False, CPartial := False, CPartialCount := 0\<rparr>)
            (\<lambda>r. r\<lparr>CSupported := True, CLastSuccess := Some fetched, CLastError := message,
               CFailures := CFailures r + 1, CNotified := False, CPartial := False, CPartialCount := 0\<rparr>)
            (Inv a1)\<rparr>)"

definition recordCollectorSuccess :: "int \<Rightarrow> string \<Rightarrow> instant \<Rightarrow> inventory_db \<Rightarrow> inventory_db" where
  "recordCollectorSuccess gen c fetched =
     (let upd = (\<lambda>r. r\<lparr>CSupported := True, CBaseline := True, CLastSuccess := Some fetched, CLastError := '''',
                         CFailures := 0, CNotified := False, CPartial := False, CPartialCount := 0\<rparr>)
      in upsert_coll gen c (upd (default_coll gen c)) upd)"

definition sharedUsersAbsorption :: "int \<Rightarrow> string \<Rightarrow> bool \<Rightarrow> inventory_db \<Rightarrow> bool \<times> inventory_db" where
  "sharedUsersAbsorption gen c baseline db =
     (if c \<noteq> ''users'' then (False, db)
      else (baseline \<and> SharedScope db \<noteq> Some gen, db\<lparr>SharedScope := Some gen\<rparr>))"

subsection \<open>A collector's result\<close>

definition map_inv :: "(inventory_db \<Rightarrow> inventory_db) \<Rightarrow> batch_state \<Rightarrow> batch_state" where
  "map_inv f a = a\<lparr>Inv := f (Inv a)\<rparr>"

definition seen_ids :: "collected \<Rightarrow> string list" where
  "seen_ids result = uniq (map ResID (CollResources result))"

text \<open>The end of \<open>collector\<close>, after the resources are stored.\<close>

definition finish_collector :: "batch_env \<Rightarrow> collected \<Rightarrow> bool \<Rightarrow> bool \<Rightarrow> batch_state \<Rightarrow> batch_state" where
  "finish_collector env result baseline silentLifecycle a =
     (let gen = BatchGen env; c = CollName result; seen = seen_ids result; fetched = fetchedAt env result;
          (guarded, missingCount) = massRemovalGuard env result seen (Inv a)
      in if \<not> guarded
         then
           (let (a1, pending) =
                  (if \<not> CollPartial result \<and> 0 < missingCount
                   then reconcileMissing env c seen baseline silentLifecycle a else (a, False));
                a2 = (if \<not> CollPartial result \<and> \<not> pending
                      then map_inv (\<lambda>db. db\<lparr>GuardSince := (GuardSince db)(c := None)\<rparr>) a1 else a1)
            in map_inv (recordCollectorSuccess gen c fetched) a2)
         else if CollPartial result then map_inv (recordCollectorPartial env result fetched) a
         else recordRemovalGuard env c baseline missingCount (length seen) fetched a)"

definition collector_baseline :: "int \<Rightarrow> string \<Rightarrow> inventory_db \<Rightarrow> bool" where
  "collector_baseline gen c db = (case coll_of gen c db of None \<Rightarrow> False | Some r \<Rightarrow> CBaseline r)"

definition apply_collector ::
  "batch_env \<Rightarrow> collected \<Rightarrow> (string \<times> string) list \<Rightarrow> batch_state \<Rightarrow> batch_state option" where
  "apply_collector env result canonical_forms a =
     (let c = CollName result;
          baseline = collector_baseline (BatchGen env) c (Inv a);
          (absorb, inv) = sharedUsersAbsorption (BatchGen env) c baseline (Inv a);
          silentLifecycle = (c = ''device_details'');
          items = map (\<lambda>(r, raw, hash). (r, raw, hash)) (zip (CollResources result) canonical_forms)
      in case upsert_all env c baseline silentLifecycle absorb items (a\<lparr>Inv := inv\<rparr>) of
           None \<Rightarrow> None
         | Some a1 \<Rightarrow> Some (finish_collector env result baseline silentLifecycle a1))"

fun apply_results ::
  "batch_env \<Rightarrow> collected list \<Rightarrow> (string \<times> string) list list \<Rightarrow> batch_state \<Rightarrow> batch_state option" where
  "apply_results env (result # results) (forms # rest) a =
     (if CollFailed result then apply_results env results rest a
      else if CollUnsupported result then apply_results env results rest (unsupportedCollector env result a)
      else (case apply_collector env result forms a of
              None \<Rightarrow> None
            | Some a' \<Rightarrow> apply_results env results rest a'))"
| "apply_results env _ _ a = Some a"

definition start_batch :: "inventory_db \<Rightarrow> batch_state" where
  "start_batch db =
     \<lparr> Inv = db, Recorded = [], Unhealthy = [],
       Truncations = \<lparr> SnapshotTruncations = 0, EventTruncations = 0, OversizedWrites = 0 \<rparr> \<rparr>"

end
