(* ===== verification/Store_Snapshots_Laws.thy ===== *)
theory Store_Snapshots_Laws
  imports Store_Snapshots
begin

text \<open>
  What a batch of \<open>Store_Snapshots\<close> promises: it records exactly the differences between the stored
  inventory and the results, it leaves alone what the results do not cover, it removes a resource
  only after two complete responses without it, and it keeps the tables well formed.
\<close>

subsection \<open>What a step on one collector's rows leaves alone\<close>

definition own_rows :: "int \<Rightarrow> string \<Rightarrow> string set \<Rightarrow> snap_row \<Rightarrow> bool" where
  "own_rows gen c ids r \<longleftrightarrow> SnapGen r = gen \<and> SnapColl r = c \<and> SnapID r \<in> ids"

definition other_snaps :: "int \<Rightarrow> string \<Rightarrow> string set \<Rightarrow> inventory_db \<Rightarrow> snap_row list" where
  "other_snaps gen c ids db = filter (\<lambda>r. \<not> own_rows gen c ids r) (Snapshots db)"

definition frame :: "int \<Rightarrow> string \<Rightarrow> string set \<Rightarrow> inventory_db \<Rightarrow> inventory_db \<Rightarrow> bool" where
  "frame gen c ids db db' \<longleftrightarrow>
     other_snaps gen c ids db' = other_snaps gen c ids db \<and> CollStates db' = CollStates db
     \<and> GuardSince db' = GuardSince db \<and> SharedScope db' = SharedScope db
     \<and> ActiveGeneration db' = ActiveGeneration db \<and> BaselineAt db' = BaselineAt db"

lemma frame_refl [simp]: "frame gen c ids db db"
  by (simp add: frame_def)

lemma frame_trans: "frame gen c ids a b \<Longrightarrow> frame gen c ids b d \<Longrightarrow> frame gen c ids a d"
  by (simp add: frame_def)

lemma frame_mono:
  assumes "frame gen c ids db db'" "ids \<subseteq> ids'"
  shows "frame gen c ids' db db'"
proof -
  have "filter (\<lambda>r. \<not> own_rows gen c ids' r) xs =
      filter (\<lambda>r. \<not> own_rows gen c ids' r) (filter (\<lambda>r. \<not> own_rows gen c ids r) xs)" for xs
    using assms(2) by (auto simp: own_rows_def intro!: filter_cong)
  with assms(1) show ?thesis unfolding frame_def other_snaps_def by metis
qed

lemma find_filter: "(\<And>x. P x \<Longrightarrow> Q x) \<Longrightarrow> List.find P (filter Q xs) = List.find P xs"
  by (induction xs) auto

lemma frame_snap_of:
  assumes "frame gen c ids db db'" "\<not> (gen' = gen \<and> c' = c \<and> i \<in> ids)"
  shows "snap_of gen' c' i db' = snap_of gen' c' i db"
proof -
  have "snap_of gen' c' i d = List.find (is_snap gen' c' i) (other_snaps gen c ids d)" for d
    unfolding snap_of_def other_snaps_def
    by (rule find_filter [symmetric]) (use assms(2) in \<open>auto simp: is_snap_def own_rows_def\<close>)
  with assms(1) show ?thesis by (simp add: frame_def)
qed

lemma frame_omitted:
  assumes "frame gen c ids db db'" "\<not> (gen' = gen \<and> c' = c) \<or> ids \<subseteq> set seen"
  shows "omitted gen' c' seen db' = omitted gen' c' seen db"
proof -
  have "omitted gen' c' seen d = filter (\<lambda>r. SnapGen r = gen' \<and> SnapColl r = c' \<and> SnapID r \<notin> set seen)
      (other_snaps gen c ids d)" for d
    unfolding omitted_def other_snaps_def filter_filter
    by (rule filter_cong) (use assms(2) in \<open>auto simp: own_rows_def\<close>)
  with assms(1) show ?thesis by (simp add: frame_def)
qed

lemma frame_coll_of: "frame gen c ids db db' \<Longrightarrow> coll_of gen' c' db' = coll_of gen' c' db"
  by (simp add: coll_of_def frame_def)

subsection \<open>One resource\<close>

lemma write_snapshot_key: "is_snap (BatchGen env) c (ResID resource) (write_snapshot env c resource stored hash)"
  by (simp add: is_snap_def write_snapshot_def)

lemma filter_update_where:
  assumes "\<And>r. P r \<Longrightarrow> \<not> Q r" "\<And>r. P r \<Longrightarrow> \<not> Q (f r)"
  shows "filter Q (update_where P f rows) = filter Q rows"
  using assms by (induction rows) (auto simp: update_where_def)

lemma insert_frame: "frame (BatchGen env) c {ResID resource} (Inv a) (Inv (insertSnapshot env c resource stored hash a))"
  by (simp add: insertSnapshot_def frame_def other_snaps_def own_rows_def write_snapshot_def)

lemma rewrite_frame: "frame (BatchGen env) c {ResID resource} (Inv a) (Inv (rewriteSnapshot env c resource stored hash a))"
  by (auto simp: rewriteSnapshot_def frame_def other_snaps_def own_rows_def is_snap_def write_snapshot_def
      intro!: filter_update_where)

lemma record_simps [simp]:
  "Inv (record_change ch b v a) = Inv a" "Unhealthy (record_change ch b v a) = Unhealthy a"
  "Truncations (record_change ch b v a) = Truncations a"
  by (simp_all add: record_change_def)

lemma difference_simps [simp]:
  "Inv (record_difference c r bl o1 ov raw hash a) = Inv a"
  "Unhealthy (record_difference c r bl o1 ov raw hash a) = Unhealthy a"
  by (simp_all add: record_difference_def Let_def)

lemma snapshot_write_simps [simp]:
  "Recorded (insertSnapshot env c r s h a) = Recorded a" "Recorded (rewriteSnapshot env c r s h a) = Recorded a"
  "Unhealthy (insertSnapshot env c r s h a) = Unhealthy a" "Unhealthy (rewriteSnapshot env c r s h a) = Unhealthy a"
  by (simp_all add: insertSnapshot_def rewriteSnapshot_def)

text \<open>The change one returned resource gives rise to, read off the database it is compared with.\<close>

definition difference_of :: "string \<Rightarrow> resource \<Rightarrow> string \<Rightarrow> stored_value \<Rightarrow> string \<Rightarrow> string \<Rightarrow> recorded_change list" where
  "difference_of c resource oldRaw oldValue raw hash =
     (let transition = (if SVTruncated oldValue then None else ShapeTransition c oldRaw raw)
      in if (case transition of Some (old, new) \<Rightarrow> old = new | None \<Rightarrow> False) then []
         else
           [\<lparr> RecChange = changed_change c resource oldRaw raw
                (case transition of
                   Some (old, new) \<Rightarrow> DiffDetailedFor c old new
                 | None \<Rightarrow> if SVTruncated oldValue then empty_result else DiffDetailedFor c oldRaw raw),
              RecBefore = oldValue, RecAfter = existingStoredValue raw hash (int (length raw)) False \<rparr>])"

definition drift ::
  "int \<Rightarrow> string \<Rightarrow> bool \<Rightarrow> inventory_db \<Rightarrow> resource \<times> string \<times> string \<Rightarrow> recorded_change list" where
  "drift gen c absorb db =
     (\<lambda>(resource, raw, hash).
       case snap_of gen c (ResID resource) db of
         None \<Rightarrow>
           if c = ''device_details'' \<or> absorb \<and> isSharedUser resource then []
           else [\<lparr> RecChange = created_change c resource raw, RecBefore = zero_value,
                   RecAfter = existingStoredValue raw hash (int (length raw)) False \<rparr>]
       | Some r \<Rightarrow>
           (case comparable_row c hash r of
              None \<Rightarrow> []
            | Some (oldRaw, oldHash, oldValue) \<Rightarrow>
                if oldHash \<noteq> hash then difference_of c resource oldRaw oldValue raw hash else []))"

lemma record_difference_recorded:
  "Recorded (record_difference c resource baselined oldRaw oldValue raw hash a) =
     Recorded a @ (if baselined then difference_of c resource oldRaw oldValue raw hash else [])"
  by (auto simp: record_difference_def difference_of_def record_change_def Let_def split: option.splits)

lemma upsert_resource:
  assumes "upsertResource env c baselined (c = ''device_details'') absorb (resource, raw, hash) a = Some a'"
  shows "frame (BatchGen env) c {ResID resource} (Inv a) (Inv a')
    \<and> Recorded a' = Recorded a @ (if baselined then drift (BatchGen env) c absorb (Inv a) (resource, raw, hash) else [])
    \<and> Unhealthy a' = Unhealthy a"
proof -
  let ?g = "BatchGen env"
  let ?stored = "boundedValue raw hash (SnapshotBytes (BatchLimits env)) (RejectBytes (BatchLimits env))"
  let ?a = "a\<lparr>Truncations := noteTruncation ?stored True (Truncations a)\<rparr>"
  have put: "frame ?g c {ResID resource} (Inv a) (Inv (insertSnapshot env c resource ?stored hash b))"
    "frame ?g c {ResID resource} (Inv a) (Inv (rewriteSnapshot env c resource ?stored hash b))" if "Inv b = Inv a" for b
    using insert_frame [of env c resource b] rewrite_frame [of env c resource b] that by simp_all
  show ?thesis
  proof (cases "snap_of ?g c (ResID resource) (Inv a)")
    case None
    define b where "b = (if baselined \<and> c \<noteq> ''device_details'' \<and> \<not> (absorb \<and> isSharedUser resource)
       then record_change (created_change c resource raw) zero_value
              (existingStoredValue raw hash (int (length raw)) False) ?a else ?a)"
    have a': "a' = insertSnapshot env c resource ?stored hash b"
      using assms None by (simp add: upsertResource_def Let_def b_def)
    have "Recorded b = Recorded a @ (if baselined then drift ?g c absorb (Inv a) (resource, raw, hash) else [])"
      using None by (simp add: b_def drift_def record_change_def)
    moreover have "Inv b = Inv a" "Unhealthy b = Unhealthy a" by (simp_all add: b_def)
    ultimately show ?thesis using put by (simp add: a')
  next
    case (Some r)
    then obtain oldRaw oldHash oldValue where cr: "comparable_row c hash r = Some (oldRaw, oldHash, oldValue)"
      using assms by (cases "comparable_row c hash r") (auto simp: upsertResource_def Let_def)
    show ?thesis
    proof (cases "oldHash = hash")
      case False
      then have "a' = rewriteSnapshot env c resource ?stored hash
          (record_difference c resource baselined oldRaw oldValue raw hash ?a)"
        using assms Some cr by (simp add: upsertResource_def Let_def)
      with False Some cr put show ?thesis by (simp add: record_difference_recorded drift_def)
    next
      case True
      then have "a' = ?a \<or> a' = rewriteSnapshot env c resource ?stored hash ?a"
        using assms Some cr by (auto simp: upsertResource_def Let_def split: if_splits)
      with True Some cr put show ?thesis by (auto simp: drift_def)
    qed
  qed
qed

lemma drift_frame:
  assumes "frame gen c ids db db'" "ResID (fst x) \<notin> ids"
  shows "drift gen c absorb db' x = drift gen c absorb db x"
  using assms by (cases x) (simp add: drift_def frame_snap_of)

lemma upsert_all_exact:
  assumes "upsert_all env c baselined (c = ''device_details'') absorb xs a = Some a'"
    and "distinct (map (\<lambda>x. ResID (fst x)) xs)"
  shows "frame (BatchGen env) c (set (map (\<lambda>x. ResID (fst x)) xs)) (Inv a) (Inv a')
    \<and> Recorded a' = Recorded a @ (if baselined then concat (map (drift (BatchGen env) c absorb (Inv a)) xs) else [])
    \<and> Unhealthy a' = Unhealthy a"
  using assms
proof (induction xs arbitrary: a)
  case (Cons x xs)
  obtain resource raw hash where x: "x = (resource, raw, hash)" by (cases x) auto
  obtain a1 where a1: "upsertResource env c baselined (c = ''device_details'') absorb (resource, raw, hash) a = Some a1"
      "upsert_all env c baselined (c = ''device_details'') absorb xs a1 = Some a'"
    using Cons.prems(1) x by (auto split: option.splits)
  note u = upsert_resource [OF a1(1)]
  have "distinct (map (\<lambda>x. ResID (fst x)) xs)" using Cons.prems(2) by simp
  note ih = Cons.IH [OF a1(2) this]
  have "drift (BatchGen env) c absorb (Inv a1) y = drift (BatchGen env) c absorb (Inv a) y" if "y \<in> set xs" for y
    using u Cons.prems(2) x that by (intro drift_frame [of _ _ "{ResID resource}"]) (auto simp: image_iff)
  then have same: "concat (map (drift (BatchGen env) c absorb (Inv a1)) xs) = concat (map (drift (BatchGen env) c absorb (Inv a)) xs)"
    by (metis (no_types, lifting) map_cong)
  have "frame (BatchGen env) c (set (map (\<lambda>x. ResID (fst x)) (x # xs))) (Inv a) (Inv a')"
    using frame_trans [OF frame_mono frame_mono, of _ _ "{ResID resource}"] u ih x by (simp, blast)
  moreover have "Recorded a' = Recorded a @ (if baselined then concat (map (drift (BatchGen env) c absorb (Inv a)) (x # xs)) else [])"
    using u ih unfolding x same by simp
  ultimately show ?case using u ih by simp
qed simp

subsection \<open>The end of a collector\<close>

definition removal_of :: "string \<Rightarrow> snap_row \<Rightarrow> recorded_change" where
  "removal_of c r =
     \<lparr> RecChange = removed_change c r,
       RecBefore = existingStoredValue (SnapJSON r) (SnapHash r) (SnapBytes r) (SnapTruncated r),
       RecAfter = zero_value \<rparr>"

lemma miss_one_recorded:
  "Recorded (miss_one env c reported r a) =
     Recorded a @ (if reported \<and> 2 \<le> SnapMissing r + 1 then [removal_of c r] else [])"
  by (simp add: miss_one_def Let_def record_change_def removal_of_def)

lemma fold_miss_recorded:
  "Recorded (fold (miss_one env c reported) rs a) =
     Recorded a @ (if reported then map (removal_of c) (filter (\<lambda>r. 2 \<le> SnapMissing r + 1) rs) else [])"
  by (induction rs arbitrary: a) (simp_all add: miss_one_recorded)

lemma miss_one_unhealthy [simp]: "Unhealthy (miss_one env c reported r a) = Unhealthy a"
  by (simp add: miss_one_def Let_def)

lemma fold_miss_unhealthy [simp]: "Unhealthy (fold (miss_one env c reported) rs a) = Unhealthy a"
  by (induction rs arbitrary: a) simp_all

lemma miss_one_frame: "frame (BatchGen env) c {SnapID r} (Inv a) (Inv (miss_one env c reported r a))"
proof -
  have "other_snaps (BatchGen env) c {SnapID r} (db\<lparr>Snapshots := filter (\<lambda>q. \<not> is_snap (BatchGen env) c (SnapID r) q) (Snapshots db)\<rparr>)
      = other_snaps (BatchGen env) c {SnapID r} db" for db
    by (auto simp: other_snaps_def own_rows_def is_snap_def intro!: filter_cong)
  moreover have "other_snaps (BatchGen env) c {SnapID r} (db\<lparr>Snapshots := update_where (is_snap (BatchGen env) c (SnapID r))
      (\<lambda>q. q\<lparr>SnapMissing := SnapMissing q + 1\<rparr>) (Snapshots db)\<rparr>) = other_snaps (BatchGen env) c {SnapID r} db" for db
    by (auto simp: other_snaps_def own_rows_def is_snap_def intro!: filter_update_where)
  ultimately show ?thesis by (simp add: miss_one_def Let_def frame_def)
qed

lemma fold_miss_frame: "frame (BatchGen env) c (SnapID ` set rs) (Inv a) (Inv (fold (miss_one env c reported) rs a))"
proof (induction rs arbitrary: a)
  case (Cons r rs)
  have "frame (BatchGen env) c (SnapID ` set (r # rs)) (Inv a) (Inv (miss_one env c reported r a))"
    by (rule frame_mono [OF miss_one_frame]) simp
  moreover have "frame (BatchGen env) c (SnapID ` set (r # rs)) (Inv (miss_one env c reported r a))
      (Inv (fold (miss_one env c reported) rs (miss_one env c reported r a)))"
    by (rule frame_mono [OF Cons.IH]) auto
  ultimately show ?case using frame_trans by simp
qed simp

text \<open>What a whole collector leaves alone.\<close>

definition coll_frame :: "int \<Rightarrow> string \<Rightarrow> inventory_db \<Rightarrow> inventory_db \<Rightarrow> bool" where
  "coll_frame gen c db db' \<longleftrightarrow>
     filter (\<lambda>r. \<not> (SnapGen r = gen \<and> SnapColl r = c)) (Snapshots db') =
       filter (\<lambda>r. \<not> (SnapGen r = gen \<and> SnapColl r = c)) (Snapshots db)
     \<and> (\<forall>gen' c'. \<not> (gen' = gen \<and> c' = c) \<longrightarrow> coll_of gen' c' db' = coll_of gen' c' db)
     \<and> (c \<noteq> ''users'' \<longrightarrow> SharedScope db' = SharedScope db)
     \<and> ActiveGeneration db' = ActiveGeneration db \<and> BaselineAt db' = BaselineAt db"

lemma coll_frame_refl [simp]: "coll_frame gen c db db"
  by (simp add: coll_frame_def)

lemma coll_frame_trans: "coll_frame gen c a b \<Longrightarrow> coll_frame gen c b d \<Longrightarrow> coll_frame gen c a d"
  by (simp add: coll_frame_def)

lemma frame_coll_frame:
  assumes "frame gen c ids db db'"
  shows "coll_frame gen c db db'"
proof -
  let ?q = "\<lambda>r. \<not> (SnapGen r = gen \<and> SnapColl r = c)"
  have "filter ?q (Snapshots d) = filter ?q (other_snaps gen c ids d)" for d
    unfolding other_snaps_def filter_filter by (rule filter_cong) (auto simp: own_rows_def)
  with assms show ?thesis by (simp add: coll_frame_def frame_def coll_of_def)
qed

lemma find_append_other: "\<not> P y \<Longrightarrow> List.find P (xs @ [y]) = List.find P xs"
  by (induction xs) auto

lemma find_put_other:
  assumes "\<not> (gen' = gen \<and> c' = c)" "is_coll gen c fresh" "\<And>r. CGen (upd r) = CGen r \<and> CColl (upd r) = CColl r"
  shows "List.find (is_coll gen' c') (put_coll gen c fresh upd rows) = List.find (is_coll gen' c') rows"
proof -
  have "List.find (is_coll gen' c') (update_where (is_coll gen c) upd rows) = List.find (is_coll gen' c') rows"
    using assms(1,3) by (induction rows) (auto simp: update_where_def is_coll_def)
  moreover have "\<not> is_coll gen' c' fresh" using assms(1,2) by (auto simp: is_coll_def)
  ultimately show ?thesis by (simp add: put_coll_def find_append_other)
qed

lemma upsert_coll_frame:
  assumes "is_coll gen c fresh" "\<And>r. CGen (upd r) = CGen r \<and> CColl (upd r) = CColl r"
  shows "coll_frame gen c db (upsert_coll gen c fresh upd db)"
  using find_put_other [OF _ assms] by (simp add: coll_frame_def upsert_coll_def coll_of_def)

lemma update_coll_frame:
  assumes "\<And>r. CGen (upd r) = CGen r \<and> CColl (upd r) = CColl r"
  shows "coll_frame gen c db (update_coll gen c upd db)"
proof -
  have "List.find (is_coll gen' c') (update_where (is_coll gen c) upd rows) = List.find (is_coll gen' c') rows"
    if "\<not> (gen' = gen \<and> c' = c)" for gen' c' rows
    using assms that by (induction rows) (auto simp: update_where_def is_coll_def)
  then show ?thesis by (simp add: coll_frame_def update_coll_def coll_of_def)
qed

lemma find_update_where:
  assumes "List.find P rows = Some r" "\<And>r. P r \<Longrightarrow> P (f r)"
  shows "List.find P (update_where P f rows) = Some (f r)"
  using assms by (induction rows) (auto simp: update_where_def split: if_splits)

lemma coll_of_upsert:
  assumes "coll_of gen c db = Some r" "\<And>r. CGen (upd r) = CGen r \<and> CColl (upd r) = CColl r"
  shows "coll_of gen c (upsert_coll gen c fresh upd db) = Some (upd r)"
proof -
  have "list_ex (is_coll gen c) (CollStates db)"
    using assms(1) by (auto simp: coll_of_def find_Some_iff list_ex_iff)
  moreover have "List.find (is_coll gen c) (update_where (is_coll gen c) upd (CollStates db)) = Some (upd r)"
    using assms(2) by (intro find_update_where [OF assms(1) [unfolded coll_of_def]]) (simp add: is_coll_def)
  ultimately show ?thesis by (simp add: coll_of_def upsert_coll_def put_coll_def)
qed

lemma default_coll_key [simp]: "CGen (default_coll gen c) = gen" "CColl (default_coll gen c) = c"
  by (simp_all add: default_coll_def)

lemma state_writes_frame:
  "coll_frame (BatchGen env) (CollName result) db (recordCollectorPartial env result fetched db)"
  "coll_frame gen c db (recordCollectorSuccess gen c fetched db)"
  "coll_frame (BatchGen env) c (Inv a) (Inv (recordRemovalGuard env c baseline missing present fetched a))"
  "coll_frame (BatchGen env) (CollName result) (Inv a) (Inv (unsupportedCollector env result a))"
proof -
  show "coll_frame (BatchGen env) (CollName result) db (recordCollectorPartial env result fetched db)"
    unfolding recordCollectorPartial_def Let_def by (rule upsert_coll_frame) (simp_all add: is_coll_def)
  show "coll_frame gen c db (recordCollectorSuccess gen c fetched db)"
    unfolding recordCollectorSuccess_def Let_def by (rule upsert_coll_frame) (simp_all add: is_coll_def)
  have g: "coll_frame (BatchGen env) c db (db\<lparr>GuardSince := gs\<rparr>)" for db gs
    by (simp add: coll_frame_def coll_of_def)
  show "coll_frame (BatchGen env) c (Inv a) (Inv (recordRemovalGuard env c baseline missing present fetched a))"
    unfolding recordRemovalGuard_def Let_def
    by (auto intro!: coll_frame_trans [OF _ upsert_coll_frame] g simp: is_coll_def split: option.splits)
  show "coll_frame (BatchGen env) (CollName result) (Inv a) (Inv (unsupportedCollector env result a))"
    unfolding unsupportedCollector_def Let_def
    by (auto intro!: upsert_coll_frame update_coll_frame simp: is_coll_def)
qed

lemma map_inv_simps [simp]:
  "Inv (map_inv f a) = f (Inv a)" "Recorded (map_inv f a) = Recorded a" "Unhealthy (map_inv f a) = Unhealthy a"
  by (simp_all add: map_inv_def)

lemma guard_recorded [simp]: "Recorded (recordRemovalGuard env c baseline missing present fetched a) = Recorded a"
  by (simp add: recordRemovalGuard_def Let_def)

text \<open>The removals a result confirms, read off the database it is compared with.\<close>

definition removals :: "batch_env \<Rightarrow> inventory_db \<Rightarrow> collected \<Rightarrow> recorded_change list" where
  "removals env db result =
     (let c = CollName result; seen = seen_ids result
      in if \<not> fst (massRemovalGuard env result seen db) \<and> collector_baseline (BatchGen env) c db \<and> c \<noteq> ''device_details''
         then map (removal_of c) (filter (\<lambda>r. 2 \<le> SnapMissing r + 1) (omitted (BatchGen env) c seen db)) else [])"

lemma guard_partial: "CollPartial result \<Longrightarrow> massRemovalGuard env result seen db = (True, 0)"
  by (simp add: massRemovalGuard_def)

lemma guard_count:
  "\<not> fst (massRemovalGuard env result seen db) \<Longrightarrow>
     snd (massRemovalGuard env result seen db) = length (omitted (BatchGen env) (CollName result) seen db)"
  by (auto simp: massRemovalGuard_def Let_def split: if_splits prod.splits)

lemma clear_guard_frame: "coll_frame gen c db (db\<lparr>GuardSince := gs\<rparr>)"
  by (simp add: coll_frame_def coll_of_def)

lemma finish_collector_exact:
  assumes "baseline = collector_baseline (BatchGen env) (CollName result) (Inv a)"
  shows "coll_frame (BatchGen env) (CollName result) (Inv a)
      (Inv (finish_collector env result baseline (CollName result = ''device_details'') a))
    \<and> Recorded (finish_collector env result baseline (CollName result = ''device_details'') a) =
      Recorded a @ removals env (Inv a) result"
proof -
  let ?g = "BatchGen env" and ?c = "CollName result" and ?seen = "seen_ids result" and ?f = "fetchedAt env result"
  let ?m = "massRemovalGuard env result ?seen (Inv a)"
  show ?thesis
  proof (cases "fst ?m")
    case True
    then have "removals env (Inv a) result = []" by (simp add: removals_def Let_def)
    with True show ?thesis
      by (simp add: finish_collector_def Let_def case_prod_beta state_writes_frame)
  next
    case False
    then have complete: "\<not> CollPartial result" using guard_partial by fastforce
    have n: "0 < snd ?m \<longleftrightarrow> omitted ?g ?c ?seen (Inv a) \<noteq> []" using guard_count [OF False] by simp
    define r where "r = (if 0 < snd ?m then reconcileMissing env ?c ?seen baseline (?c = ''device_details'') a else (a, False))"
    define a2 where "a2 = (if snd r then fst r else map_inv (\<lambda>db. db\<lparr>GuardSince := (GuardSince db)(?c := None)\<rparr>) (fst r))"
    have fin: "finish_collector env result baseline (?c = ''device_details'') a = map_inv (recordCollectorSuccess ?g ?c ?f) a2"
      using False complete by (simp add: finish_collector_def Let_def case_prod_beta r_def a2_def)
    have "coll_frame ?g ?c (Inv a) (Inv (fst r))"
      using frame_coll_frame [OF fold_miss_frame] by (simp add: r_def reconcileMissing_def Let_def)
    then have "coll_frame ?g ?c (Inv a) (Inv a2)"
      using coll_frame_trans [OF _ clear_guard_frame] by (simp add: a2_def)
    moreover have "Recorded (fst r) = Recorded a @ removals env (Inv a) result"
      using False assms n by (auto simp: r_def reconcileMissing_def Let_def fold_miss_recorded removals_def)
    ultimately show ?thesis
      using coll_frame_trans [OF _ state_writes_frame(2)] by (simp add: fin a2_def)
  qed
qed

text \<open>The changes of one collector, and of the results of a batch.\<close>

definition collector_changes :: "batch_env \<Rightarrow> inventory_db \<Rightarrow> collected \<Rightarrow> (string \<times> string) list \<Rightarrow> recorded_change list" where
  "collector_changes env db result forms =
     (let c = CollName result; gen = BatchGen env; baseline = collector_baseline gen c db;
          absorb = (c = ''users'' \<and> baseline \<and> SharedScope db \<noteq> Some gen)
      in (if baseline then concat (map (drift gen c absorb db) (zip (CollResources result) forms)) else [])
         @ removals env db result)"

lemma guard_frame:
  assumes "frame (BatchGen env) (CollName result) ids db db'" "ids \<subseteq> set seen"
  shows "massRemovalGuard env result seen db' = massRemovalGuard env result seen db"
  using frame_omitted [OF assms(1), of "BatchGen env" "CollName result" seen] assms(2) frame_coll_of [OF assms(1)]
  by (simp add: massRemovalGuard_def previous_guard_def Let_def)

lemma removals_frame:
  assumes "frame (BatchGen env) (CollName result) ids db db'" "ids \<subseteq> set (seen_ids result)"
  shows "removals env db' result = removals env db result"
  using guard_frame [OF assms] frame_omitted [OF assms(1), of "BatchGen env" "CollName result" "seen_ids result"] assms(2)
    frame_coll_of [OF assms(1)]
  by (simp add: removals_def collector_baseline_def Let_def)

lemma scope_irrelevant:
  "snap_of gen c i (db\<lparr>SharedScope := s\<rparr>) = snap_of gen c i db"
  "coll_of gen c (db\<lparr>SharedScope := s\<rparr>) = coll_of gen c db"
  "omitted gen c seen (db\<lparr>SharedScope := s\<rparr>) = omitted gen c seen db"
  by (simp_all add: snap_of_def coll_of_def omitted_def)

lemma drift_scope: "drift gen c absorb (db\<lparr>SharedScope := s\<rparr>) = drift gen c absorb db"
  by (simp add: drift_def scope_irrelevant fun_eq_iff)

lemma removals_scope: "removals env (db\<lparr>SharedScope := s\<rparr>) result = removals env db result"
  by (simp add: removals_def massRemovalGuard_def previous_guard_def collector_baseline_def scope_irrelevant Let_def)

lemma apply_collector_exact:
  assumes "apply_collector env result forms a = Some a'"
    and "distinct (map ResID (CollResources result))" and "length forms = length (CollResources result)"
  shows "coll_frame (BatchGen env) (CollName result) (Inv a) (Inv a')
    \<and> Recorded a' = Recorded a @ collector_changes env (Inv a) result forms"
proof -
  let ?g = "BatchGen env" and ?c = "CollName result"
  let ?b = "collector_baseline ?g ?c (Inv a)"
  let ?absorb = "?c = ''users'' \<and> ?b \<and> SharedScope (Inv a) \<noteq> Some ?g"
  let ?inv = "snd (sharedUsersAbsorption ?g ?c ?b (Inv a))"
  let ?xs = "zip (CollResources result) forms"
  have ab: "fst (sharedUsersAbsorption ?g ?c ?b (Inv a)) = ?absorb" by (simp add: sharedUsersAbsorption_def)
  have inv: "?inv = Inv a \<or> (?c = ''users'' \<and> ?inv = (Inv a)\<lparr>SharedScope := Some ?g\<rparr>)"
    by (simp add: sharedUsersAbsorption_def)
  have it: "map (\<lambda>(r, raw, hash). (r, raw, hash)) ?xs = ?xs" by (simp add: case_prod_beta)
  obtain a1 where a1: "upsert_all env ?c ?b (?c = ''device_details'') ?absorb ?xs (a\<lparr>Inv := ?inv\<rparr>) = Some a1"
      and a': "a' = finish_collector env result ?b (?c = ''device_details'') a1"
    using assms(1) unfolding apply_collector_def Let_def it case_prod_beta ab
    by (auto split: option.splits)
  have ids: "map (\<lambda>x. ResID (fst x)) ?xs = map ResID (CollResources result)"
    using assms(3) by (simp add: map_fst_zip flip: map_map [unfolded comp_def])
  note u = upsert_all_exact [OF a1 assms(2) [folded ids]]
  have f: "frame ?g ?c (set (map ResID (CollResources result))) ?inv (Inv a1)"
    and rec: "Recorded a1 = Recorded a @ (if ?b then concat (map (drift ?g ?c ?absorb ?inv) ?xs) else [])"
    using u unfolding ids by simp_all
  have "coll_of ?g ?c (Inv a1) = coll_of ?g ?c (Inv a)"
    using frame_coll_of [OF f] inv by (auto simp: scope_irrelevant)
  then have b: "?b = collector_baseline ?g ?c (Inv a1)" by (simp add: collector_baseline_def)
  note fin = finish_collector_exact [OF b]
  have "removals env (Inv a1) result = removals env ?inv result"
    using f by (rule removals_frame) (simp add: seen_ids_def)
  then have rem: "removals env (Inv a1) result = removals env (Inv a) result" using inv by (auto simp: removals_scope)
  have dr: "drift ?g ?c ?absorb ?inv = drift ?g ?c ?absorb (Inv a)" using inv by (auto simp: drift_scope)
  have "coll_frame ?g ?c (Inv a) ?inv" using inv by (auto simp: coll_frame_def coll_of_def)
  then have "coll_frame ?g ?c (Inv a) (Inv a')"
    using frame_coll_frame [OF f] fin unfolding a' by (blast intro: coll_frame_trans)
  moreover have "Recorded a' = Recorded a @ collector_changes env (Inv a) result forms"
    using fin rec [unfolded dr] unfolding a' collector_changes_def Let_def by (simp add: rem)
  ultimately show ?thesis ..
qed

text \<open>Another collector's changes do not depend on the rows of this one.\<close>

lemma coll_frame_snaps:
  assumes "coll_frame gen c db db'" "c' \<noteq> c"
  shows "snap_of gen' c' i db' = snap_of gen' c' i db" "omitted gen' c' seen db' = omitted gen' c' seen db"
proof -
  let ?q = "\<lambda>r. \<not> (SnapGen r = gen \<and> SnapColl r = c)"
  have "snap_of gen' c' i d = List.find (is_snap gen' c' i) (filter ?q (Snapshots d))" for d
    unfolding snap_of_def by (rule find_filter [symmetric]) (use assms(2) in \<open>auto simp: is_snap_def\<close>)
  then show "snap_of gen' c' i db' = snap_of gen' c' i db" using assms(1) by (simp add: coll_frame_def)
  have o: "omitted gen' c' seen d =
      filter (\<lambda>r. SnapGen r = gen' \<and> SnapColl r = c' \<and> SnapID r \<notin> set seen) (filter ?q (Snapshots d))" for d
    unfolding omitted_def filter_filter by (rule filter_cong) (use assms(2) in auto)
  have eq: "filter ?q (Snapshots db') = filter ?q (Snapshots db)" using assms(1) unfolding coll_frame_def by blast
  show "omitted gen' c' seen db' = omitted gen' c' seen db" unfolding o eq by (rule refl)
qed

lemma changes_frame:
  assumes "coll_frame gen c db db'" "CollName result \<noteq> c"
  shows "collector_changes env db' result forms = collector_changes env db result forms"
proof -
  let ?c = "CollName result"
  note s = coll_frame_snaps [OF assms]
  have co: "coll_of gen' ?c db' = coll_of gen' ?c db" for gen' using assms by (simp add: coll_frame_def)
  have sc: "?c = ''users'' \<Longrightarrow> SharedScope db' = SharedScope db" using assms by (auto simp: coll_frame_def)
  have "drift gen' ?c absorb db' = drift gen' ?c absorb db" for gen' absorb
    by (simp add: drift_def s fun_eq_iff)
  moreover have "removals env db' result = removals env db result"
    by (simp add: removals_def massRemovalGuard_def previous_guard_def collector_baseline_def s co Let_def)
  moreover have "(?c = ''users'' \<and> b \<and> SharedScope db' \<noteq> Some g) = (?c = ''users'' \<and> b \<and> SharedScope db \<noteq> Some g)" for b g
    using sc by auto
  ultimately show ?thesis by (simp only: collector_changes_def collector_baseline_def co Let_def)
qed

lemma apply_results_changes:
  assumes "apply_results env results forms a = Some a'"
    and "length forms = length results" and "distinct (map CollName results)"
    and "\<forall>(result, fs) \<in> set (zip results forms). usable result \<longrightarrow>
           distinct (map ResID (CollResources result)) \<and> length fs = length (CollResources result)"
  shows "Recorded a' = Recorded a @ concat (map (\<lambda>(result, fs).
      if usable result then collector_changes env (Inv a) result fs else []) (zip results forms))"
  using assms
proof (induction results arbitrary: forms a)
  case (Cons result results)
  obtain fs rest where fs: "forms = fs # rest" using Cons.prems(2) by (cases forms) auto
  let ?part = "\<lambda>db. \<lambda>(result, fs). if usable result then collector_changes env db result fs else []"
  have rest: "length rest = length results" "distinct (map CollName results)"
    "\<forall>(result, fs) \<in> set (zip results rest). usable result \<longrightarrow>
       distinct (map ResID (CollResources result)) \<and> length fs = length (CollResources result)"
    using Cons.prems fs by auto
  have keep: "map (?part (Inv a1)) (zip results rest) = map (?part (Inv a)) (zip results rest)"
    if "coll_frame (BatchGen env) (CollName result) (Inv a) (Inv a1)" for a1
  proof (rule map_cong [OF refl])
    fix x assume "x \<in> set (zip results rest)"
    then have "fst x \<in> set results" by (metis prod.collapse set_zip_leftD)
    then have "CollName (fst x) \<in> CollName ` set results" by (rule imageI)
    then have "CollName (fst x) \<noteq> CollName result" using Cons.prems(3) by auto
    then show "?part (Inv a1) x = ?part (Inv a) x" using changes_frame [OF that] by (cases x) simp
  qed
  consider "CollFailed result" | "\<not> CollFailed result" "CollUnsupported result" | "usable result"
    by (auto simp: usable_def)
  then show ?case
  proof cases
    case 1
    then show ?thesis using Cons.IH [OF _ rest] Cons.prems(1) fs by (simp add: usable_def)
  next
    case 2
    let ?a1 = "unsupportedCollector env result a"
    have "Recorded ?a1 = Recorded a" by (simp add: unsupportedCollector_def Let_def)
    have kp: "map (?part (Inv ?a1)) (zip results rest) = map (?part (Inv a)) (zip results rest)"
      by (rule keep [OF state_writes_frame(4)])
    have ap: "apply_results env results rest ?a1 = Some a'" using Cons.prems(1) fs 2 by simp
    have un: "\<not> usable result" using 2 by (simp add: usable_def)
    show ?thesis
      using Cons.IH [OF ap rest] \<open>Recorded ?a1 = Recorded a\<close> un unfolding fs zip_Cons_Cons list.map kp by simp
  next
    case 3
    then obtain a1 where a1: "apply_collector env result fs a = Some a1" "apply_results env results rest a1 = Some a'"
      using Cons.prems(1) fs by (auto simp: usable_def split: option.splits)
    have "distinct (map ResID (CollResources result))" "length fs = length (CollResources result)"
      using Cons.prems(4) fs 3 by auto
    note ex = apply_collector_exact [OF a1(1) this]
    have kp: "map (?part (Inv a1)) (zip results rest) = map (?part (Inv a)) (zip results rest)" using keep ex by blast
    show ?thesis using Cons.IH [OF a1(2) rest] ex 3 unfolding fs zip_Cons_Cons list.map kp by simp
  qed
qed simp

subsection \<open>The changes of a batch\<close>

lemma those_lengths: "those xs = Some ys \<Longrightarrow> length ys = length xs"
  by (induction xs arbitrary: ys) (auto split: option.splits)

lemma those_zip:
  assumes "those (map f xs) = Some ys" "(x, y) \<in> set (zip xs ys)"
  shows "f x = Some y"
  using assms by (induction xs arbitrary: ys) (auto split: option.splits)

lemma canonical_lengths:
  assumes "canonicalizeResults results = Some forms"
  shows "length forms = length results"
    "\<forall>(result, fs) \<in> set (zip results forms). usable result \<longrightarrow> length fs = length (CollResources result)"
proof -
  show "length forms = length results"
    using those_lengths [OF assms [unfolded canonicalizeResults_def]] by simp
  have "length fs = length (CollResources result)" if "(result, fs) \<in> set (zip results forms)" "usable result" for result fs
    using those_zip [OF assms [unfolded canonicalizeResults_def] that(1)] that(2)
    by (auto dest: those_lengths)
  then show "\<forall>(result, fs) \<in> set (zip results forms). usable result \<longrightarrow> length fs = length (CollResources result)"
    by auto
qed

lemma start_batch_simps: "Inv (start_batch db) = db" "Recorded (start_batch db) = []" "Unhealthy (start_batch db) = []"
  by (simp_all add: start_batch_def)

text \<open>The canonical forms, result by result.\<close>

definition forms_of :: "collected \<Rightarrow> (string \<times> string) list" where
  "forms_of result =
     map (\<lambda>r. case CanonicalFor (CollName result) (ResData r) of None \<Rightarrow> ('''', '''') | Some f \<Rightarrow> f) (CollResources result)"

lemma those_map: "those (map f xs) = Some ys \<Longrightarrow> ys = map (\<lambda>x. case f x of None \<Rightarrow> d | Some y \<Rightarrow> y) xs"
  by (induction xs arbitrary: ys) (auto split: option.splits)

lemma canonical_forms:
  assumes "canonicalizeResults results = Some forms" "(result, fs) \<in> set (zip results forms)" "usable result"
  shows "fs = forms_of result"
  using those_zip [OF assms(1) [unfolded canonicalizeResults_def] assms(2)] assms(3)
  unfolding forms_of_def by (auto dest: those_map [where d = "('''', '''')"])

lemma batch_changes:
  assumes "canonicalizeResults results = Some forms"
    and "apply_results env results forms (start_batch db) = Some a"
    and "distinct (map CollName results)"
    and "\<forall>result \<in> set results. usable result \<longrightarrow> distinct (map ResID (CollResources result))"
  shows "Recorded a = concat (map (\<lambda>result.
      if usable result then collector_changes env db result (forms_of result) else []) results)"
proof -
  have "\<forall>(result, fs) \<in> set (zip results forms). usable result \<longrightarrow>
      distinct (map ResID (CollResources result)) \<and> length fs = length (CollResources result)"
    using assms(4) canonical_lengths(2) [OF assms(1)] by (auto dest: set_zip_leftD)
  from apply_results_changes [OF assms(2) canonical_lengths(1) [OF assms(1)] assms(3) this, unfolded start_batch_simps]
  have "Recorded a = concat (map (\<lambda>(result, fs).
      if usable result then collector_changes env db result fs else []) (zip results forms))"
    by simp
  also have "map (\<lambda>(result, fs). if usable result then collector_changes env db result fs else []) (zip results forms)
      = map (\<lambda>(result, fs). if usable result then collector_changes env db result (forms_of result) else []) (zip results forms)"
    using canonical_forms [OF assms(1)] by (intro map_cong) auto
  also have "\<dots> = map (\<lambda>result. if usable result then collector_changes env db result (forms_of result) else []) results"
    using canonical_lengths(1) [OF assms(1)] by (simp add: list_eq_iff_nth_eq case_prod_beta)
  finally show ?thesis .
qed

subsection \<open>What is stored\<close>

text \<open>The row of a returned resource: its canonical form, not missing.\<close>

definition stored_as :: "batch_env \<Rightarrow> string \<Rightarrow> resource \<times> string \<times> string \<Rightarrow> snap_row \<Rightarrow> bool" where
  "stored_as env c x r \<longleftrightarrow>
     (case x of (resource, raw, hash) \<Rightarrow>
        (let v = boundedValue raw hash (SnapshotBytes (BatchLimits env)) (RejectBytes (BatchLimits env))
         in SnapHash r = hash \<and> SnapMissing r = 0 \<and> SnapJSON r = SVRaw v \<and> SnapTruncated r = SVTruncated v
            \<and> SnapType r = ResType resource \<and> SnapName r = ResName resource))"

lemma rewritten_row:
  assumes "snap_of (BatchGen env) c (ResID resource) (Inv a) = Some r"
  shows "snap_of (BatchGen env) c (ResID resource) (Inv (rewriteSnapshot env c resource stored hash a))
    = Some (write_snapshot env c resource stored hash)"
  using find_update_where [OF assms [unfolded snap_of_def]] write_snapshot_key
  by (simp add: rewriteSnapshot_def snap_of_def)

lemma find_append_None: "List.find P xs = None \<Longrightarrow> P y \<Longrightarrow> List.find P (xs @ [y]) = Some y"
  by (induction xs) (auto split: if_splits)

lemma upsert_stores:
  assumes "upsertResource env c baselined s absorb (resource, raw, hash) a = Some a'"
  shows "\<exists>r. snap_of (BatchGen env) c (ResID resource) (Inv a') = Some r \<and> stored_as env c (resource, raw, hash) r"
proof -
  let ?g = "BatchGen env"
  let ?stored = "boundedValue raw hash (SnapshotBytes (BatchLimits env)) (RejectBytes (BatchLimits env))"
  let ?a = "a\<lparr>Truncations := noteTruncation ?stored True (Truncations a)\<rparr>"
  have w: "stored_as env c (resource, raw, hash) (write_snapshot env c resource ?stored hash)"
    by (simp add: stored_as_def write_snapshot_def)
  show ?thesis
  proof (cases "snap_of ?g c (ResID resource) (Inv a)")
    case None
    then obtain b where a': "a' = insertSnapshot env c resource ?stored hash b" "Inv b = Inv a"
      using assms by (auto simp: upsertResource_def Let_def)
    have "snap_of ?g c (ResID resource) (Inv a') = Some (write_snapshot env c resource ?stored hash)"
      using find_append_None [OF None [unfolded snap_of_def] write_snapshot_key] by (simp add: a' insertSnapshot_def snap_of_def)
    with w show ?thesis by blast
  next
    case (Some r)
    then obtain oldRaw oldHash oldValue where cr: "comparable_row c hash r = Some (oldRaw, oldHash, oldValue)"
      using assms by (cases "comparable_row c hash r") (auto simp: upsertResource_def Let_def)
    consider b where "a' = rewriteSnapshot env c resource ?stored hash b" "Inv b = Inv a"
      | "a' = ?a" "same_row hash resource ?stored r"
      using assms Some cr by (auto simp: upsertResource_def Let_def split: if_splits)
    then show ?thesis
    proof cases
      case 1
      then show ?thesis using w Some rewritten_row [of env c resource b r] by auto
    next
      case 2
      then show ?thesis using Some by (auto simp: same_row_def stored_as_def)
    qed
  qed
qed

lemma upsert_all_stores:
  assumes "upsert_all env c baselined (c = ''device_details'') absorb xs a = Some a'"
    and "distinct (map (\<lambda>x. ResID (fst x)) xs)" and "x \<in> set xs"
  shows "\<exists>r. snap_of (BatchGen env) c (ResID (fst x)) (Inv a') = Some r \<and> stored_as env c x r"
  using assms
proof (induction xs arbitrary: a)
  case (Cons y xs)
  obtain resource raw hash where y: "y = (resource, raw, hash)" by (cases y) auto
  obtain a1 where a1: "upsertResource env c baselined (c = ''device_details'') absorb (resource, raw, hash) a = Some a1"
      "upsert_all env c baselined (c = ''device_details'') absorb xs a1 = Some a'"
    using Cons.prems(1) y by (auto split: option.splits)
  have d: "distinct (map (\<lambda>x. ResID (fst x)) xs)" using Cons.prems(2) by simp
  show ?case
  proof (cases "x = y")
    case True
    have f: "frame (BatchGen env) c (set (map (\<lambda>x. ResID (fst x)) xs)) (Inv a1) (Inv a')"
      using upsert_all_exact [OF a1(2) d] by simp
    have "ResID resource \<notin> set (map (\<lambda>x. ResID (fst x)) xs)" using Cons.prems(2) y by auto
    then have "snap_of (BatchGen env) c (ResID resource) (Inv a') = snap_of (BatchGen env) c (ResID resource) (Inv a1)"
      by (intro frame_snap_of [OF f]) simp
    with upsert_stores [OF a1(1)] show ?thesis by (simp add: True y)
  next
    case False
    then show ?thesis using Cons.IH [OF a1(2) d] Cons.prems(3) by simp
  qed
qed simp

lemma state_writes_snapshots [simp]:
  "Snapshots (upsert_coll gen c fresh upd db) = Snapshots db"
  "Snapshots (recordCollectorSuccess gen c fetched db) = Snapshots db"
  "Snapshots (recordCollectorPartial env result fetched db) = Snapshots db"
  "Snapshots (Inv (recordRemovalGuard env c baseline missing present fetched a)) = Snapshots (Inv a)"
  "Snapshots (Inv (unsupportedCollector env result a)) = Snapshots (Inv a)"
  by (simp_all add: upsert_coll_def update_coll_def recordCollectorSuccess_def recordCollectorPartial_def
      recordRemovalGuard_def unsupportedCollector_def Let_def split: option.split)

lemma snap_of_cong: "Snapshots db' = Snapshots db \<Longrightarrow> snap_of gen c i db' = snap_of gen c i db"
  by (simp add: snap_of_def)

text \<open>The snapshots after the end of a collector: those of the reconciliation, if it runs.\<close>

lemma finish_snapshots:
  "Snapshots (Inv (finish_collector env result baseline silent a)) =
     (if \<not> fst (massRemovalGuard env result (seen_ids result) (Inv a))
         \<and> omitted (BatchGen env) (CollName result) (seen_ids result) (Inv a) \<noteq> []
      then Snapshots (Inv (fst (reconcileMissing env (CollName result) (seen_ids result) baseline silent a)))
      else Snapshots (Inv a))"
  (is "_ = ?rhs")
proof (cases "fst (massRemovalGuard env result (seen_ids result) (Inv a))")
  case True
  then show ?thesis by (simp add: finish_collector_def Let_def case_prod_beta)
next
  case False
  then have complete: "\<not> CollPartial result" using guard_partial by fastforce
  have n: "0 < snd (massRemovalGuard env result (seen_ids result) (Inv a)) \<longleftrightarrow>
      omitted (BatchGen env) (CollName result) (seen_ids result) (Inv a) \<noteq> []"
    using guard_count [OF False] by simp
  show ?thesis using False complete n by (auto simp: finish_collector_def Let_def case_prod_beta)
qed

lemma omitted_not_seen: "SnapID ` set (omitted gen c seen db) \<inter> set seen = {}"
  by (auto simp: omitted_def)

lemma finish_keeps_seen:
  assumes "i \<in> set (seen_ids result)"
  shows "snap_of (BatchGen env) (CollName result) i (Inv (finish_collector env result baseline silent a))
    = snap_of (BatchGen env) (CollName result) i (Inv a)"
proof -
  let ?o = "omitted (BatchGen env) (CollName result) (seen_ids result) (Inv a)"
  have "i \<notin> SnapID ` set ?o" using omitted_not_seen assms by blast
  then have "snap_of (BatchGen env) (CollName result) i (Inv (fst (reconcileMissing env (CollName result) (seen_ids result) baseline silent a)))
      = snap_of (BatchGen env) (CollName result) i (Inv a)"
    using frame_snap_of [OF fold_miss_frame [of env "CollName result" ?o]] by (simp add: reconcileMissing_def Let_def)
  then show ?thesis
    using finish_snapshots [of env result baseline silent a] by (simp add: snap_of_def split: if_splits)
qed

lemma miss_one_lost:
  assumes "snap_of (BatchGen env) c i (Inv a) \<noteq> None" "snap_of (BatchGen env) c i (Inv (miss_one env c reported r a)) = None"
  shows "SnapID r = i \<and> 2 \<le> SnapMissing r + 1"
proof (rule ccontr)
  assume contra: "\<not> ?thesis"
  show False
  proof (cases "SnapID r = i")
    case True
    with contra have inv: "Inv (miss_one env c reported r a) = (Inv a)\<lparr>Snapshots :=
        update_where (is_snap (BatchGen env) c i) (\<lambda>q. q\<lparr>SnapMissing := SnapMissing q + 1\<rparr>) (Snapshots (Inv a))\<rparr>"
      by (simp add: miss_one_def Let_def)
    obtain q where "snap_of (BatchGen env) c i (Inv a) = Some q" using assms(1) by blast
    from find_update_where [OF this [unfolded snap_of_def], of "\<lambda>q. q\<lparr>SnapMissing := SnapMissing q + 1\<rparr>"]
    have "snap_of (BatchGen env) c i (Inv (miss_one env c reported r a)) \<noteq> None"
      by (simp add: inv snap_of_def is_snap_def)
    with assms(2) show False by simp
  next
    case False
    then show False using assms frame_snap_of [OF miss_one_frame [of env c r]] by simp
  qed
qed

lemma fold_miss_lost:
  assumes "snap_of (BatchGen env) c i (Inv a) \<noteq> None"
    and "snap_of (BatchGen env) c i (Inv (fold (miss_one env c reported) rs a)) = None"
  shows "\<exists>r \<in> set rs. SnapID r = i \<and> 2 \<le> SnapMissing r + 1"
  using assms
proof (induction rs arbitrary: a)
  case (Cons r rs)
  show ?case
  proof (cases "snap_of (BatchGen env) c i (Inv (miss_one env c reported r a)) = None")
    case True
    from miss_one_lost [OF Cons.prems(1) True] show ?thesis by simp
  next
    case False
    from Cons.IH [OF this] Cons.prems(2) show ?thesis by auto
  qed
qed simp

text \<open>Why a batch may drop a row or report a resource removed.\<close>

definition twice_omitted :: "int \<Rightarrow> collected \<Rightarrow> string \<Rightarrow> inventory_db \<Rightarrow> bool" where
  "twice_omitted gen result i db \<longleftrightarrow>
     \<not> CollPartial result \<and> i \<notin> set (map ResID (CollResources result))
     \<and> (\<exists>r \<in> set (Snapshots db). is_snap gen (CollName result) i r \<and> 1 \<le> SnapMissing r)"

lemma omitted_twice:
  assumes "\<not> fst (massRemovalGuard env result (seen_ids result) db)"
    and "r \<in> set (omitted (BatchGen env) (CollName result) (seen_ids result) db)" "2 \<le> SnapMissing r + 1"
  shows "twice_omitted (BatchGen env) result (SnapID r) db"
  using assms guard_partial [of result env "seen_ids result" db]
  by (auto simp: twice_omitted_def omitted_def is_snap_def seen_ids_def)

lemma finish_lost:
  assumes "snap_of (BatchGen env) (CollName result) i (Inv a) \<noteq> None"
    and "snap_of (BatchGen env) (CollName result) i (Inv (finish_collector env result baseline silent a)) = None"
  shows "twice_omitted (BatchGen env) result i (Inv a)"
proof -
  let ?o = "omitted (BatchGen env) (CollName result) (seen_ids result) (Inv a)"
  have run: "\<not> fst (massRemovalGuard env result (seen_ids result) (Inv a))"
    and lost: "snap_of (BatchGen env) (CollName result) i
       (Inv (fold (miss_one env (CollName result) (baseline \<and> \<not> silent)) ?o a)) = None"
    using assms finish_snapshots [of env result baseline silent a]
    by (auto simp: snap_of_def reconcileMissing_def Let_def split: if_splits)
  from fold_miss_lost [OF assms(1) lost] show ?thesis using omitted_twice [OF run] by blast
qed

lemma removals_twice:
  assumes "rc \<in> set (removals env db result)"
  shows "twice_omitted (BatchGen env) result (ResourceID (RecChange rc)) db \<and> ChangeCollector (RecChange rc) = CollName result"
  using assms omitted_twice [of env result db]
  by (auto simp: removals_def Let_def removal_of_def removed_change_def split: if_splits)

lemma apply_collector_parts:
  assumes "apply_collector env result forms a = Some a'" and "length forms = length (CollResources result)"
  obtains a1 absorb s where
    "upsert_all env (CollName result) (collector_baseline (BatchGen env) (CollName result) (Inv a))
       (CollName result = ''device_details'') absorb (zip (CollResources result) forms)
       (a\<lparr>Inv := (Inv a)\<lparr>SharedScope := s\<rparr>\<rparr>) = Some a1"
    "a' = finish_collector env result (collector_baseline (BatchGen env) (CollName result) (Inv a))
       (CollName result = ''device_details'') a1"
    "map (\<lambda>x. ResID (fst x)) (zip (CollResources result) forms) = map ResID (CollResources result)"
proof -
  let ?xs = "zip (CollResources result) forms"
  let ?b = "collector_baseline (BatchGen env) (CollName result) (Inv a)"
  let ?su = "sharedUsersAbsorption (BatchGen env) (CollName result) ?b (Inv a)"
  have it: "map (\<lambda>(r, raw, hash). (r, raw, hash)) ?xs = ?xs" by (simp add: case_prod_beta)
  obtain a1 where a1: "upsert_all env (CollName result) ?b (CollName result = ''device_details'') (fst ?su) ?xs
      (a\<lparr>Inv := snd ?su\<rparr>) = Some a1"
    and a': "a' = finish_collector env result ?b (CollName result = ''device_details'') a1"
    using assms(1) unfolding apply_collector_def Let_def it case_prod_beta by (auto split: option.splits)
  have "snd ?su = (Inv a)\<lparr>SharedScope := SharedScope (snd ?su)\<rparr>" by (simp add: sharedUsersAbsorption_def)
  moreover have "map (\<lambda>x. ResID (fst x)) ?xs = map ResID (CollResources result)"
    using assms(2) by (simp add: map_fst_zip flip: map_map [unfolded comp_def])
  ultimately show thesis using a1 a' by (metis that)
qed

lemma apply_collector_stores:
  assumes "apply_collector env result forms a = Some a'"
    and "distinct (map ResID (CollResources result))" and "length forms = length (CollResources result)"
    and "x \<in> set (zip (CollResources result) forms)"
  shows "\<exists>r. snap_of (BatchGen env) (CollName result) (ResID (fst x)) (Inv a') = Some r \<and> stored_as env (CollName result) x r"
proof (rule apply_collector_parts [OF assms(1,3)])
  fix a1 absorb s
  assume a1: "upsert_all env (CollName result) (collector_baseline (BatchGen env) (CollName result) (Inv a))
       (CollName result = ''device_details'') absorb (zip (CollResources result) forms)
       (a\<lparr>Inv := (Inv a)\<lparr>SharedScope := s\<rparr>\<rparr>) = Some a1"
    and a': "a' = finish_collector env result (collector_baseline (BatchGen env) (CollName result) (Inv a))
       (CollName result = ''device_details'') a1"
    and ids: "map (\<lambda>x. ResID (fst x)) (zip (CollResources result) forms) = map ResID (CollResources result)"
  have "ResID (fst x) \<in> set (map ResID (CollResources result))" using assms(4) by (auto simp flip: ids)
  then have "ResID (fst x) \<in> set (seen_ids result)" by (simp add: seen_ids_def)
  from finish_keeps_seen [OF this] upsert_all_stores [OF a1 assms(2) [folded ids] assms(4)]
  show ?thesis unfolding a' by simp
qed

lemma apply_collector_lost:
  assumes "apply_collector env result forms a = Some a'"
    and "distinct (map ResID (CollResources result))" and "length forms = length (CollResources result)"
    and "snap_of (BatchGen env) (CollName result) i (Inv a) \<noteq> None"
    and "snap_of (BatchGen env) (CollName result) i (Inv a') = None"
  shows "twice_omitted (BatchGen env) result i (Inv a)"
proof (rule apply_collector_parts [OF assms(1,3)])
  fix a1 absorb s
  assume a1: "upsert_all env (CollName result) (collector_baseline (BatchGen env) (CollName result) (Inv a))
       (CollName result = ''device_details'') absorb (zip (CollResources result) forms)
       (a\<lparr>Inv := (Inv a)\<lparr>SharedScope := s\<rparr>\<rparr>) = Some a1"
    and a': "a' = finish_collector env result (collector_baseline (BatchGen env) (CollName result) (Inv a))
       (CollName result = ''device_details'') a1"
    and ids: "map (\<lambda>x. ResID (fst x)) (zip (CollResources result) forms) = map ResID (CollResources result)"
  have f: "frame (BatchGen env) (CollName result) (set (map ResID (CollResources result)))
      ((Inv a)\<lparr>SharedScope := s\<rparr>) (Inv a1)"
    using upsert_all_exact [OF a1 assms(2) [folded ids]] unfolding ids by simp
  have "snap_of (BatchGen env) (CollName result) i (Inv a1) \<noteq> None"
  proof (cases "i \<in> set (map ResID (CollResources result))")
    case True
    then obtain x where "x \<in> set (zip (CollResources result) forms)" "ResID (fst x) = i" by (auto simp flip: ids)
    with upsert_all_stores [OF a1 assms(2) [folded ids]] show ?thesis by fastforce
  next
    case False
    then show ?thesis using frame_snap_of [OF f, of _ _ i] assms(4) by (simp add: scope_irrelevant)
  qed
  from finish_lost [OF this] assms(5) have "twice_omitted (BatchGen env) result i (Inv a1)" unfolding a' by simp
  then obtain r where r: "\<not> CollPartial result" "i \<notin> set (map ResID (CollResources result))"
      "r \<in> set (Snapshots (Inv a1))" "is_snap (BatchGen env) (CollName result) i r" "1 \<le> SnapMissing r"
    by (auto simp: twice_omitted_def)
  have "r \<in> set (other_snaps (BatchGen env) (CollName result) (set (map ResID (CollResources result))) (Inv a1))"
    using r by (auto simp: other_snaps_def own_rows_def is_snap_def)
  moreover have "other_snaps (BatchGen env) (CollName result) (set (map ResID (CollResources result))) (Inv a1)
      = other_snaps (BatchGen env) (CollName result) (set (map ResID (CollResources result))) ((Inv a)\<lparr>SharedScope := s\<rparr>)"
    using f unfolding frame_def by blast
  ultimately have "r \<in> set (other_snaps (BatchGen env) (CollName result) (set (map ResID (CollResources result)))
      ((Inv a)\<lparr>SharedScope := s\<rparr>))" by (simp only:)
  then have "r \<in> set (Snapshots (Inv a))" by (simp add: other_snaps_def)
  with r show ?thesis by (auto simp: twice_omitted_def)
qed

text \<open>The same for a whole batch.\<close>

lemma twice_omitted_frame:
  assumes "coll_frame gen c db db'" "CollName result \<noteq> c" "twice_omitted gen' result i db'"
  shows "twice_omitted gen' result i db"
proof -
  obtain r where r: "r \<in> set (Snapshots db')" "is_snap gen' (CollName result) i r" "1 \<le> SnapMissing r"
    using assms(3) by (auto simp: twice_omitted_def)
  have "r \<in> set (filter (\<lambda>r. \<not> (SnapGen r = gen \<and> SnapColl r = c)) (Snapshots db'))"
    using r assms(2) by (auto simp: is_snap_def)
  then have "r \<in> set (filter (\<lambda>r. \<not> (SnapGen r = gen \<and> SnapColl r = c)) (Snapshots db))"
    using assms(1) unfolding coll_frame_def by metis
  with r assms(3) show ?thesis by (auto simp: twice_omitted_def)
qed

definition batch_input_ok :: "collected list \<Rightarrow> (string \<times> string) list list \<Rightarrow> bool" where
  "batch_input_ok results forms \<longleftrightarrow>
     length forms = length results \<and> distinct (map CollName results)
     \<and> (\<forall>(result, fs) \<in> set (zip results forms). usable result \<longrightarrow>
          distinct (map ResID (CollResources result)) \<and> length fs = length (CollResources result))"

lemma batch_input_tl:
  "batch_input_ok (result # results) (fs # rest) \<Longrightarrow>
     batch_input_ok results rest \<and> CollName result \<notin> CollName ` set results
     \<and> (usable result \<longrightarrow> distinct (map ResID (CollResources result)) \<and> length fs = length (CollResources result))"
  by (auto simp: batch_input_ok_def)

lemma apply_result_step:
  assumes "apply_results env (result # results) (fs # rest) a = Some a'"
    and "batch_input_ok (result # results) (fs # rest)"
  obtains a1 where "apply_results env results rest a1 = Some a'" "coll_frame (BatchGen env) (CollName result) (Inv a) (Inv a1)"
    "usable result \<Longrightarrow> apply_collector env result fs a = Some a1"
    "\<not> usable result \<Longrightarrow> Snapshots (Inv a1) = Snapshots (Inv a)"
proof -
  consider "CollFailed result" | "\<not> CollFailed result" "CollUnsupported result" | "usable result"
    by (auto simp: usable_def)
  then show thesis
  proof cases
    case 1
    then show ?thesis using assms(1) that [of a] by (simp add: usable_def)
  next
    case 2
    then show ?thesis using assms(1) that [of "unsupportedCollector env result a"]
      by (simp add: usable_def state_writes_frame)
  next
    case 3
    then obtain a1 where a1: "apply_collector env result fs a = Some a1" "apply_results env results rest a1 = Some a'"
      using assms(1) by (auto simp: usable_def split: option.splits)
    have "distinct (map ResID (CollResources result))" "length fs = length (CollResources result)"
      using batch_input_tl [OF assms(2)] 3 by blast+
    then show ?thesis using that [of a1] a1 3 apply_collector_exact [OF a1(1)] by blast
  qed
qed

lemma apply_results_frame:
  assumes "apply_results env results forms a = Some a'" "batch_input_ok results forms" "c \<notin> CollName ` set results"
  shows "snap_of gen c i (Inv a') = snap_of gen c i (Inv a)"
  using assms
proof (induction results arbitrary: forms a)
  case (Cons result results)
  obtain fs rest where fs: "forms = fs # rest" using Cons.prems(2) by (cases forms) (auto simp: batch_input_ok_def)
  show ?case
  proof (rule apply_result_step [OF Cons.prems(1,2) [unfolded fs]])
    fix a1
    assume "apply_results env results rest a1 = Some a'" "coll_frame (BatchGen env) (CollName result) (Inv a) (Inv a1)"
    moreover have "batch_input_ok results rest" using batch_input_tl Cons.prems(2) fs by blast
    ultimately show ?thesis using Cons.IH [of rest a1] coll_frame_snaps [of _ "CollName result"] Cons.prems(3) by auto
  qed
qed simp

lemma apply_results_stores:
  assumes "apply_results env results forms a = Some a'" "batch_input_ok results forms"
    and "(result, fs) \<in> set (zip results forms)" "usable result" "x \<in> set (zip (CollResources result) fs)"
  shows "\<exists>r. snap_of (BatchGen env) (CollName result) (ResID (fst x)) (Inv a') = Some r \<and> stored_as env (CollName result) x r"
  using assms
proof (induction results arbitrary: forms a)
  case (Cons res results)
  obtain gs rest where fs: "forms = gs # rest" using Cons.prems(2) by (cases forms) (auto simp: batch_input_ok_def)
  note tl = batch_input_tl [OF Cons.prems(2) [unfolded fs]]
  show ?case
  proof (rule apply_result_step [OF Cons.prems(1,2) [unfolded fs]])
    fix a1
    assume a1: "apply_results env results rest a1 = Some a'" "usable res \<Longrightarrow> apply_collector env res gs a = Some a1"
    show ?thesis
    proof (cases "(result, fs) \<in> set (zip results rest)")
      case True
      then show ?thesis using Cons.IH [OF a1(1)] tl Cons.prems(4,5) by blast
    next
      case False
      then have eq: "result = res" "fs = gs" using Cons.prems(3) \<open>forms = gs # rest\<close> by auto
      have "\<exists>r. snap_of (BatchGen env) (CollName result) (ResID (fst x)) (Inv a1) = Some r \<and> stored_as env (CollName result) x r"
        using apply_collector_stores [of env result fs a a1 x] a1(2) tl Cons.prems(4,5) eq by blast
      moreover have "snap_of (BatchGen env) (CollName result) i (Inv a') = snap_of (BatchGen env) (CollName result) i (Inv a1)" for i
        using apply_results_frame [OF a1(1)] tl eq by blast
      ultimately show ?thesis by simp
    qed
  qed
qed simp

lemma apply_results_lost:
  assumes "apply_results env results forms a = Some a'" "batch_input_ok results forms"
    and "snap_of (BatchGen env) c i (Inv a) \<noteq> None" "snap_of (BatchGen env) c i (Inv a') = None"
  shows "\<exists>result \<in> set results. usable result \<and> CollName result = c \<and> twice_omitted (BatchGen env) result i (Inv a)"
  using assms
proof (induction results arbitrary: forms a)
  case (Cons res results)
  obtain gs rest where fs: "forms = gs # rest" using Cons.prems(2) by (cases forms) (auto simp: batch_input_ok_def)
  note tl = batch_input_tl [OF Cons.prems(2) [unfolded fs]]
  show ?case
  proof (rule apply_result_step [OF Cons.prems(1,2) [unfolded fs]])
    fix a1
    assume a1: "apply_results env results rest a1 = Some a'" "usable res \<Longrightarrow> apply_collector env res gs a = Some a1"
      and fr: "coll_frame (BatchGen env) (CollName res) (Inv a) (Inv a1)"
      and ns: "\<not> usable res \<Longrightarrow> Snapshots (Inv a1) = Snapshots (Inv a)"
    show ?thesis
    proof (cases "CollName res = c")
      case True
      have gone: "snap_of (BatchGen env) c i (Inv a1) = None"
        using apply_results_frame [OF a1(1), of c "BatchGen env" i] tl Cons.prems(4) True by auto
      have us: "usable res"
      proof (rule ccontr)
        assume "\<not> usable res"
        from snap_of_cong [OF ns [OF this], of "BatchGen env" c i] gone Cons.prems(3) show False by simp
      qed
      then have "twice_omitted (BatchGen env) res i (Inv a)"
        using apply_collector_lost [OF a1(2) [OF us], of i, unfolded True] tl us Cons.prems(3) gone by simp
      with us True show ?thesis by auto
    next
      case False
      then have "c \<noteq> CollName res" by simp
      then have keep: "snap_of (BatchGen env) c i (Inv a1) = snap_of (BatchGen env) c i (Inv a)"
        by (rule coll_frame_snaps(1) [OF fr])
      have "batch_input_ok results rest" using tl by blast
      from Cons.IH [OF a1(1) this, unfolded keep, OF Cons.prems(3,4)]
      obtain result where r: "result \<in> set results" "usable result" "CollName result = c" "twice_omitted (BatchGen env) result i (Inv a1)"
        by blast
      have "CollName result \<noteq> CollName res" using r(3) False by simp
      from twice_omitted_frame [OF fr this r(4)] r show ?thesis by auto
    qed
  qed
qed simp

lemma batch_input:
  assumes "canonicalizeResults results = Some forms" "distinct (map CollName results)"
    and "\<forall>result \<in> set results. usable result \<longrightarrow> distinct (map ResID (CollResources result))"
  shows "batch_input_ok results forms"
  using assms canonical_lengths [OF assms(1)] by (auto simp: batch_input_ok_def dest: set_zip_leftD)

lemma in_zip_left: "length ys = length xs \<Longrightarrow> x \<in> set xs \<Longrightarrow> \<exists>y. (x, y) \<in> set (zip xs ys)"
  by (metis in_set_conv_nth in_set_zip fst_conv snd_conv)

lemma drift_kinds:
  "rc \<in> set (drift gen c absorb db x) \<Longrightarrow> Kind (RecChange rc) = ''created'' \<or> Kind (RecChange rc) = ''changed''"
  by (cases x) (auto simp: drift_def difference_of_def created_change_def changed_change_def Let_def
      split: option.splits prod.splits if_splits)

lemma removed_changes:
  assumes "rc \<in> set (collector_changes env db result fs)" "Kind (RecChange rc) = ''removed''"
  shows "rc \<in> set (removals env db result)"
  using assms by (auto simp: collector_changes_def Let_def dest: drift_kinds split: if_splits)

lemma stored_no_drift:
  assumes "snap_of gen c (ResID (fst x)) db = Some r" "stored_as env c x r"
  shows "drift gen c absorb db x = []"
proof -
  obtain resource raw hash where x: "x = (resource, raw, hash)" by (cases x) auto
  have "SnapHash r = hash" using assms(2) by (simp add: stored_as_def x Let_def)
  then have "comparable_row c hash r = Some (SnapJSON r, hash, existingStoredValue (SnapJSON r) hash (SnapBytes r) (SnapTruncated r))"
    by (simp add: comparable_row_def)
  then show ?thesis using assms(1) by (simp add: drift_def x)
qed

subsection \<open>Properties\<close>

text \<open>
  C1. A batch records exactly the drift. Whatever the results of a poll are (each collector once, no
  resource twice in a response), the recorded changes are, collector by collector in the order of
  the results: for each returned resource the difference between its stored snapshot and its new
  canonical form, if the collector has a baseline, then the removals the response confirms, all read
  off the inventory as it was before the batch. Failed and unsupported collectors record nothing, and
  the changes of one collector never depend on those of another.
\<close>
theorem batch_records_exactly:
  assumes "canonicalizeResults results = Some forms"
    and "apply_results env results forms (start_batch db) = Some a"
    and "distinct (map CollName results)"
    and "\<forall>result \<in> set results. usable result \<longrightarrow> distinct (map ResID (CollResources result))"
  shows "Recorded a = concat (map (\<lambda>result.
      if usable result then collector_changes env db result (forms_of result) else []) results)"
  using assms by (rule batch_changes)

text \<open>
  C3. The stored inventory follows the results. After a batch every resource a usable result returned
  is stored under its collector with its canonical form (or, above the size limit, its hash and the
  truncation marker) and counts as present; and repeating the same results, at any later time, then
  reports no resource as created or changed.
\<close>
theorem batch_stores_results:
  assumes "canonicalizeResults results = Some forms"
    and "apply_results env results forms (start_batch db) = Some a"
    and "distinct (map CollName results)"
    and "\<forall>result \<in> set results. usable result \<longrightarrow> distinct (map ResID (CollResources result))"
  shows "(\<forall>result \<in> set results. usable result \<longrightarrow> (\<forall>x \<in> set (zip (CollResources result) (forms_of result)).
        \<exists>r. snap_of (BatchGen env) (CollName result) (ResID (fst x)) (Inv a) = Some r
          \<and> stored_as env (CollName result) x r))
    \<and> (\<forall>env' a'. BatchGen env' = BatchGen env \<longrightarrow>
         apply_results env' results forms (start_batch (Inv a)) = Some a' \<longrightarrow>
         (\<forall>rc \<in> set (Recorded a'). Kind (RecChange rc) = ''removed''))"
proof -
  note input = batch_input [OF assms(1,3,4)]
  have stored: "\<exists>r. snap_of (BatchGen env) (CollName result) (ResID (fst x)) (Inv a) = Some r
      \<and> stored_as env (CollName result) x r"
    if r: "result \<in> set results" "usable result" and x: "x \<in> set (zip (CollResources result) (forms_of result))" for result x
  proof -
    obtain fs where fs: "(result, fs) \<in> set (zip results forms)"
      using in_zip_left [OF canonical_lengths(1) [OF assms(1)] r(1)] by blast
    then have "fs = forms_of result" using canonical_forms [OF assms(1)] r(2) by blast
    with apply_results_stores [OF assms(2) input fs r(2)] x show ?thesis by blast
  qed
  have "Kind (RecChange rc) = ''removed''"
    if g: "BatchGen env' = BatchGen env" and run: "apply_results env' results forms (start_batch (Inv a)) = Some a'"
      and rc: "rc \<in> set (Recorded a')" for env' a' rc
  proof -
    obtain result where r: "result \<in> set results" "usable result"
        "rc \<in> set (collector_changes env' (Inv a) result (forms_of result))"
      using rc batch_changes [OF assms(1) run assms(3,4)] by (auto split: if_splits)
    have "drift (BatchGen env') (CollName result) absorb (Inv a) x = []"
      if "x \<in> set (zip (CollResources result) (forms_of result))" for x absorb
      using stored [OF r(1,2) that] stored_no_drift unfolding g by blast
    then have "rc \<in> set (removals env' (Inv a) result)"
      using r(3) by (auto simp: collector_changes_def Let_def split: if_splits)
    then show ?thesis by (auto simp: removals_def removal_of_def removed_change_def Let_def split: if_splits)
  qed
  with stored show ?thesis by blast
qed


text \<open>
  C29. How long the mass-removal guard holds. Suppose a complete response engages the guard of a
  collector that was not guarded before, whose failure count is \<open>f\<close>. Nothing is removed or counted
  as missing, and the same response is guarded a second time exactly if \<open>f\<close> is zero: the guard
  continues the count of ordinary failures, so one failed poll before shortens it to one response.
\<close>
theorem guard_holds_back:
  assumes "massRemovalGuard env result (seen_ids result) (Inv a) = (True, n)" and "\<not> CollPartial result"
    and "coll_of (BatchGen env) (CollName result) (Inv a) = Some state"
    and "\<not> has_prefix (CLastError state) removalGuardPrefix" and "0 \<le> CFailures state"
    and "a' = finish_collector env result baseline silent a" and "BatchGen env' = BatchGen env"
  shows "Snapshots (Inv a') = Snapshots (Inv a) \<and> Recorded a' = Recorded a
    \<and> (\<exists>h \<in> set (Unhealthy a'). HealthCollector h = CollName result \<and> HealthReason h = ''possible mass removal'')
    \<and> (fst (massRemovalGuard env' result (seen_ids result) (Inv a')) \<longleftrightarrow> CFailures state = 0)"
proof -
  let ?g = "BatchGen env" and ?c = "CollName result" and ?seen = "seen_ids result"
  have a': "a' = recordRemovalGuard env ?c baseline n (length ?seen) (fetchedAt env result) a"
    using assms(1,2,6) by (simp add: finish_collector_def Let_def)
  have snaps: "Snapshots (Inv a') = Snapshots (Inv a)" by (simp add: a')
  define b where "b = (Inv a)\<lparr>GuardSince := (case CLastSuccess state of None \<Rightarrow> GuardSince (Inv a)
      | Some t \<Rightarrow> (GuardSince (Inv a))(?c \<mapsto> (?g, t)))\<rparr>"
  have b: "coll_of ?g ?c b = Some state" using assms(3) by (simp add: b_def coll_of_def)
  have "Inv a' = upsert_coll ?g ?c
      ((default_coll ?g ?c)\<lparr>CSupported := True, CBaseline := baseline, CLastSuccess := Some (fetchedAt env result),
         CLastError := removalGuardPrefix @ '' ('' @ nat_text n @ '' missing, '' @ nat_text (length ?seen) @ '' present)'',
         CFailures := 1, CNotified := False, CPartial := False, CPartialCount := 0\<rparr>)
      (\<lambda>r. r\<lparr>CSupported := True, CLastSuccess := Some (fetchedAt env result),
         CLastError := removalGuardPrefix @ '' ('' @ nat_text n @ '' missing, '' @ nat_text (length ?seen) @ '' present)'',
         CFailures := CFailures r + 1, CNotified := False, CPartial := False, CPartialCount := 0\<rparr>) b"
    using assms(3,4) by (simp add: a' recordRemovalGuard_def Let_def b_def split: option.split)
  then obtain st where st: "coll_of ?g ?c (Inv a') = Some st" "has_prefix (CLastError st) removalGuardPrefix"
      "CFailures st = CFailures state + 1"
    using coll_of_upsert [OF b] by (simp add: has_prefix_def)
  have om: "omitted ?g ?c ?seen (Inv a') = omitted ?g ?c ?seen (Inv a)" by (simp add: omitted_def snaps)
  have "fst (massRemovalGuard env' result ?seen (Inv a')) \<longleftrightarrow> CFailures state + 1 < 2"
    using assms(1,2) st om assms(7)
    by (auto simp: massRemovalGuard_def Let_def previous_guard_def split: if_splits)
  moreover have "\<exists>h \<in> set (Unhealthy a'). HealthCollector h = ?c \<and> HealthReason h = ''possible mass removal''"
    using assms(3,4) by (simp add: a' recordRemovalGuard_def Let_def)
  ultimately show ?thesis using snaps assms(5) by (auto simp: a')
qed

subsection \<open>The properties at a concrete input\<close>

definition sample_snap :: "string \<Rightarrow> int \<Rightarrow> snap_row" where
  "sample_snap i missing =
     \<lparr> SnapGen = 1, SnapColl = ''users'', SnapID = i, SnapType = ''user'', SnapName = i, SnapJSON = ''{}'',
       SnapHash = ''h'', SnapBytes = 2, SnapTruncated = False, SnapMissing = missing, SnapUpdated = 0 \<rparr>"

definition sample_inventory :: "snap_row list \<Rightarrow> inventory_db" where
  "sample_inventory rows =
     \<lparr> Snapshots = rows,
       CollStates = [(default_coll 1 ''users'')\<lparr>CBaseline := True, CFailures := 1, CLastError := ''timeout''\<rparr>],
       GuardSince = (\<lambda>_. None), SharedScope = Some 1, ActiveGeneration = Some 1, BaselineAt = Some 0 \<rparr>"

definition sample_batch :: batch_env where
  "sample_batch =
     \<lparr> BatchGen = 1, BatchNow = 100,
       BatchLimits = \<lparr> SnapshotBytes = 1024, EventValueBytes = 1024, RejectBytes = 4096 \<rparr> \<rparr>"

definition sample_result :: "resource list \<Rightarrow> collected" where
  "sample_result rs =
     \<lparr> CollName = ''users'', CollResources = rs, CollUnsupported = False, CollReason = '''', CollPartial = False,
       CollPartialError = '''', CollPartialCount = 0, CollFailed = False, CollObserved = 99 \<rparr>"

definition sample_user :: resource where
  "sample_user = \<lparr> ResID = ''u1'', ResType = ''user'', ResName = ''u1'', ResCollector = ''users'', ResData = JObj [] \<rparr>"

lemma sample_empty_batch:
  "canonicalizeResults [sample_result []] = Some [[]]"
  "\<exists>a. apply_results sample_batch [sample_result []] [[]] (start_batch (sample_inventory [sample_snap ''u1'' 1])) = Some a"
  by (simp_all add: canonicalizeResults_def apply_collector_def sample_result_def usable_def Let_def case_prod_beta)

lemma sample_empty_changes:
  "map (\<lambda>rc. (Kind (RecChange rc), ResourceID (RecChange rc)))
     (collector_changes sample_batch (sample_inventory [sample_snap ''u1'' 1]) (sample_result []) []) = [(''removed'', ''u1'')]"
  by code_simp

theorem batch_records_exactly_witness:
  "\<exists>a. apply_results sample_batch [sample_result []] [[]] (start_batch (sample_inventory [sample_snap ''u1'' 1])) = Some a
    \<and> map (\<lambda>rc. (Kind (RecChange rc), ResourceID (RecChange rc))) (Recorded a) = [(''removed'', ''u1'')]"
proof -
  obtain a where a: "apply_results sample_batch [sample_result []] [[]] (start_batch (sample_inventory [sample_snap ''u1'' 1])) = Some a"
    using sample_empty_batch(2) by blast
  have "Recorded a = collector_changes sample_batch (sample_inventory [sample_snap ''u1'' 1]) (sample_result []) []"
    using batch_records_exactly [OF sample_empty_batch(1) a]
    by (simp add: sample_result_def usable_def forms_of_def)
  with a sample_empty_changes show ?thesis by auto
qed


lemma sample_canonical: "CanonicalFor ''users'' (JObj []) = Some (''{}'', sha256_hex ''{}'')"
proof -
  have "normalizeFor ''users'' (JObj []) True False '''' = JObj []" by code_simp
  moreover have "unmarshal (marshal (JObj [])) = Some (JObj [])" "marshal (JObj []) = ''{}''" by code_simp+
  ultimately show ?thesis by (simp add: CanonicalFor_def canonical_def Let_def)
qed

theorem batch_stores_results_witness:
  "\<exists>a r. apply_results sample_batch [sample_result [sample_user]] [[(''{}'', sha256_hex ''{}'')]] (start_batch (sample_inventory [])) = Some a
    \<and> snap_of 1 ''users'' ''u1'' (Inv a) = Some r \<and> SnapHash r = sha256_hex ''{}'' \<and> SnapMissing r = 0"
proof -
  have c: "canonicalizeResults [sample_result [sample_user]] = Some [[(''{}'', sha256_hex ''{}'')]]"
    by (simp add: canonicalizeResults_def sample_result_def usable_def sample_user_def sample_canonical)
  have "snap_of 1 ''users'' ''u1'' (sample_inventory []) = None" by (simp add: snap_of_def sample_inventory_def)
  then obtain a where a: "apply_results sample_batch [sample_result [sample_user]] [[(''{}'', sha256_hex ''{}'')]]
      (start_batch (sample_inventory [])) = Some a"
    by (simp add: apply_collector_def upsertResource_def sample_result_def sample_user_def sample_batch_def Let_def
        case_prod_beta sharedUsersAbsorption_def start_batch_def snap_of_def sample_inventory_def)
  have "(sample_user, ''{}'', sha256_hex ''{}'') \<in> set (zip (CollResources (sample_result [sample_user])) (forms_of (sample_result [sample_user])))"
    by (simp add: forms_of_def sample_result_def sample_user_def sample_canonical)
  moreover have "usable (sample_result [sample_user])" by (simp add: sample_result_def usable_def)
  moreover have "distinct (map ResID (CollResources (sample_result [sample_user])))" by (simp add: sample_result_def)
  ultimately obtain r where "snap_of 1 ''users'' ''u1'' (Inv a) = Some r"
      "stored_as sample_batch ''users'' (sample_user, ''{}'', sha256_hex ''{}'') r"
    using batch_stores_results [OF c a]
    by (fastforce simp: sample_batch_def sample_user_def sample_result_def)
  with a show ?thesis by (auto simp: stored_as_def Let_def)
qed

theorem guard_holds_back_witness:
  "let a = start_batch (sample_inventory [sample_snap ''u1'' 0, sample_snap ''u2'' 0, sample_snap ''u3'' 0]);
       a' = finish_collector sample_batch (sample_result []) True False a
   in Snapshots (Inv a') = Snapshots (Inv a) \<and> \<not> fst (massRemovalGuard sample_batch (sample_result []) [] (Inv a'))"
proof -
  let ?a = "start_batch (sample_inventory [sample_snap ''u1'' 0, sample_snap ''u2'' 0, sample_snap ''u3'' 0])"
  let ?a' = "finish_collector sample_batch (sample_result []) True False ?a"
  have e: "seen_ids (sample_result []) = []" by (simp add: seen_ids_def sample_result_def uniq_def)
  have g: "massRemovalGuard sample_batch (sample_result []) (seen_ids (sample_result [])) (Inv ?a) = (True, 3)"
    by code_simp
  have p: "\<not> CollPartial (sample_result [])" by (simp add: sample_result_def)
  have s: "coll_of (BatchGen sample_batch) (CollName (sample_result [])) (Inv ?a) =
      Some ((default_coll 1 ''users'')\<lparr>CBaseline := True, CFailures := 1, CLastError := ''timeout''\<rparr>)"
    by (simp add: start_batch_def sample_inventory_def coll_of_def is_coll_def sample_batch_def sample_result_def default_coll_def)
  have "\<not> has_prefix (CLastError ((default_coll 1 ''users'')\<lparr>CBaseline := True, CFailures := 1, CLastError := ''timeout''\<rparr>)) removalGuardPrefix"
    by code_simp
  from guard_holds_back [OF g p s this _ refl refl] show ?thesis by (simp add: e)
qed

end
