(* ===== verification/Store_Mutes.thy ===== *)
theory Store_Mutes
  imports Model_Shares
begin

text \<open>
  Mute rules, \<open>internal/store/mutes.go\<close>: their normal form, the table of rules, and the set that
  \<open>recordChangeBatch\<close> evaluates against each recorded change.

  \<open>strings.ToLower\<close> is the argument \<open>lower\<close> where its result is compared with text that need not be
  ASCII (tags, resources, field paths), so the results hold for the case mapping of any Unicode
  version. The Go maps of a set of rules are lists; a list of fields holds its collector and its
  compact path. A raw snapshot is decoded as \<open>encoding/json\<close> decodes into a struct: the last member
  whose key folds to \<open>tags\<close> counts, and one of another type is an error.
\<close>

record mute_rule =
  MuteID :: int
  MuteKind :: string
  MuteValue :: string
  MuteCreated :: instant

datatype mute_error =
    MuteValueRequired
  | MuteValueUnprintable
  | MuteBadCollector string
  | MuteBadField
  | MuteBadTag
  | MuteUnknownKind string
  | MuteRuleExists
  | MuteTooMany
  | MuteNotFound

record mute_db =
  MuteRules :: "mute_rule list"
  NextMuteID :: int

record mute_set =
  MuteCollectors :: "string list"
  MuteFields :: "(string \<times> string) list"
  MuteTags :: "string list"
  MuteResources :: "string list"

definition MuteCollector :: string where "MuteCollector = ''collector''"
definition MuteField :: string where "MuteField = ''field''"
definition MuteTag :: string where "MuteTag = ''tag''"
definition MuteResource :: string where "MuteResource = ''resource''"

definition MaxMuteRules :: nat where "MaxMuteRules = 200"

lemmas mute_kinds = MuteCollector_def MuteField_def MuteTag_def MuteResource_def

subsection \<open>Normal form\<close>

definition lower_letter :: "char \<Rightarrow> bool" where
  "lower_letter c \<longleftrightarrow> 97 \<le> byte_of c \<and> byte_of c \<le> 122"

text \<open>\<open>^[a-z][a-z_]{0,31}$\<close>\<close>

definition muteCollectorPattern :: "string \<Rightarrow> bool" where
  "muteCollectorPattern s =
     (case s of
        [] \<Rightarrow> False
      | c # cs \<Rightarrow> lower_letter c \<and> length cs \<le> 31 \<and> list_all (\<lambda>c. lower_letter c \<or> c = CHR ''_'') cs)"

text \<open>\<open>strings.Trim(s, string(c))\<close>\<close>

definition trim_byte :: "char \<Rightarrow> string \<Rightarrow> string" where
  "trim_byte c s = rev (dropWhile (\<lambda>x. x = c) (rev (dropWhile (\<lambda>x. x = c) s)))"

definition NormalizeMuteRule :: "(string \<Rightarrow> string) \<Rightarrow> string \<Rightarrow> string \<Rightarrow> mute_error + (string \<times> string)" where
  "NormalizeMuteRule lower kind0 value0 =
     (let kind = to_lower (trim_space kind0); v = trim_space value0
      in if v = '''' then Inl MuteValueRequired
         else if 256 < length v \<or> has_control v then Inl MuteValueUnprintable
         else if kind = MuteCollector then
           (let collector = to_lower v
            in if muteCollectorPattern collector then Inr (kind, collector) else Inl (MuteBadCollector collector))
         else if kind = MuteField then
           (let (collector0, path0, found) = cut (CHR ''.'') v;
                collector = to_lower collector0; path = trim_byte (CHR ''.'') path0
            in if \<not> found \<or> \<not> muteCollectorPattern collector \<or> path = '''' \<or> contains_any path [CHR '' '', CHR 0x09]
               then Inl MuteBadField else Inr (kind, collector @ ''.'' @ path))
         else if kind = MuteTag then
           (if \<not> has_prefix (lower v) ''tag:'' \<or> length v \<le> 4 \<or> contains_any v [CHR '' '', CHR 0x09, CHR '','']
            then Inl MuteBadTag else Inr (kind, lower v))
         else if kind = MuteResource then Inr (kind, v)
         else Inl (MuteUnknownKind kind))"

subsection \<open>The table of rules\<close>

definition ListMuteRules :: "mute_db \<Rightarrow> mute_rule list" where
  "ListMuteRules db = MuteRules db"

definition AddMuteRule :: "(string \<Rightarrow> string) \<Rightarrow> string \<Rightarrow> string \<Rightarrow> instant \<Rightarrow> mute_db \<Rightarrow> mute_error + (int \<times> mute_db)" where
  "AddMuteRule lower kind0 value0 now db =
     (case NormalizeMuteRule lower kind0 value0 of
        Inl e \<Rightarrow> Inl e
      | Inr (kind, v) \<Rightarrow>
          if list_ex (\<lambda>r. MuteKind r = kind \<and> MuteValue r = v) (MuteRules db) then Inl MuteRuleExists
          else if MaxMuteRules \<le> length (MuteRules db) then Inl MuteTooMany
          else Inr (NextMuteID db,
            db\<lparr>MuteRules := MuteRules db @
                 [\<lparr> MuteID = NextMuteID db, MuteKind = kind, MuteValue = v, MuteCreated = now \<rparr>],
               NextMuteID := NextMuteID db + 1\<rparr>))"

definition DeleteMuteRule :: "int \<Rightarrow> mute_db \<Rightarrow> mute_error + mute_db" where
  "DeleteMuteRule i db =
     (if list_ex (\<lambda>r. MuteID r = i) (MuteRules db)
      then Inr (db\<lparr>MuteRules := filter (\<lambda>r. MuteID r \<noteq> i) (MuteRules db)\<rparr>)
      else Inl MuteNotFound)"

subsection \<open>The evaluated set\<close>

definition compactPath :: "(string \<Rightarrow> string) \<Rightarrow> string \<Rightarrow> string" where
  "compactPath lower path = lower (remove_byte (CHR ''-'') (remove_byte (CHR ''_'') path))"

definition add_mute :: "(string \<Rightarrow> string) \<Rightarrow> mute_rule \<Rightarrow> mute_set \<Rightarrow> mute_set" where
  "add_mute lower r m =
     (if MuteKind r = MuteCollector then m\<lparr>MuteCollectors := MuteCollectors m @ [MuteValue r]\<rparr>
      else if MuteKind r = MuteField then
        (let (collector, path, _) = cut (CHR ''.'') (MuteValue r)
         in m\<lparr>MuteFields := MuteFields m @ [(collector, compactPath lower path)]\<rparr>)
      else if MuteKind r = MuteTag then m\<lparr>MuteTags := MuteTags m @ [lower (MuteValue r)]\<rparr>
      else if MuteKind r = MuteResource then m\<lparr>MuteResources := MuteResources m @ [lower (MuteValue r)]\<rparr>
      else m)"

definition newMuteSet :: "(string \<Rightarrow> string) \<Rightarrow> mute_rule list \<Rightarrow> mute_set" where
  "newMuteSet lower rules =
     fold (add_mute lower) rules \<lparr> MuteCollectors = [], MuteFields = [], MuteTags = [], MuteResources = [] \<rparr>"

definition mute_set_empty :: "mute_set \<Rightarrow> bool" where
  "mute_set_empty m \<longleftrightarrow>
     MuteCollectors m = [] \<and> MuteFields m = [] \<and> MuteTags m = [] \<and> MuteResources m = []"

definition path_covers :: "string \<Rightarrow> string \<Rightarrow> bool" where
  "path_covers rule field \<longleftrightarrow>
     field = rule \<or> has_prefix field (rule @ ''.'') \<or> has_prefix field (rule @ ''['')"

definition fieldMuted :: "(string \<Rightarrow> string) \<Rightarrow> mute_set \<Rightarrow> string \<Rightarrow> string \<Rightarrow> bool" where
  "fieldMuted lower m collector field =
     list_ex (\<lambda>(c, rule). c = collector \<and> path_covers rule (compactPath lower field)) (MuteFields m)"

definition is_array :: "json \<Rightarrow> bool" where
  "is_array v \<longleftrightarrow> (case v of JArr _ \<Rightarrow> True | JNull \<Rightarrow> True | _ \<Rightarrow> False)"

definition string_items :: "json \<Rightarrow> string list" where
  "string_items v =
     (case v of JArr xs \<Rightarrow> List.map_filter (\<lambda>x. case x of JStr s \<Rightarrow> Some s | _ \<Rightarrow> None) xs | _ \<Rightarrow> [])"

definition snapshotTags :: "(string \<Rightarrow> string) \<Rightarrow> string \<Rightarrow> string list" where
  "snapshotTags lower raw =
     (if raw = [] then []
      else
        (case unmarshal_object raw of
           Some (Some members) \<Rightarrow>
             (let tags = map snd (filter (\<lambda>(k, _). equal_fold k ''tags'') members)
              in if tags = [] \<or> \<not> list_all is_array tags then []
                 else map lower (string_items (last tags)))
         | _ \<Rightarrow> []))"

definition sameTags :: "string list \<Rightarrow> string list \<Rightarrow> bool" where
  "sameTags left right \<longleftrightarrow> set left = set right"

definition hasMutedTag :: "(string \<Rightarrow> string) \<Rightarrow> mute_set \<Rightarrow> string \<Rightarrow> bool" where
  "hasMutedTag lower m raw = list_ex (\<lambda>t. t \<in> set (MuteTags m)) (snapshotTags lower raw)"

definition tagMuted :: "(string \<Rightarrow> string) \<Rightarrow> mute_set \<Rightarrow> change \<Rightarrow> string \<Rightarrow> string \<Rightarrow> bool" where
  "tagMuted lower m change before after =
     (if Kind change \<noteq> ''changed'' then hasMutedTag lower m before \<or> hasMutedTag lower m after
      else if \<not> hasMutedTag lower m before \<or> \<not> hasMutedTag lower m after then False
      else if list_ex (\<lambda>f. equal_fold (FieldRoot (Field f)) ''tags'') (ChangeFields change) then False
      else sameTags (snapshotTags lower before) (snapshotTags lower after))"

definition evaluate :: "(string \<Rightarrow> string) \<Rightarrow> mute_set \<Rightarrow> change \<Rightarrow> string \<Rightarrow> string \<Rightarrow> bool \<times> change" where
  "evaluate lower m change before after =
     (if mute_set_empty m then (False, change)
      else if ChangeCollector change \<in> set (MuteCollectors m) then (True, change)
      else if lower (ResourceID change) \<in> set (MuteResources m) then (True, change)
      else if lower (ChangeName change) \<in> set (MuteResources m) \<and> ChangeName change \<noteq> '''' then (True, change)
      else if MuteTags m \<noteq> [] \<and> tagMuted lower m change before after then (True, change)
      else if Kind change \<noteq> ''changed'' \<or> ChangeFields change = []
              \<or> filter (\<lambda>(c, _). c = ChangeCollector change) (MuteFields m) = [] then (False, change)
      else
        (let kept = filter (\<lambda>f. \<not> fieldMuted lower m (ChangeCollector change) (Field f)) (ChangeFields change)
         in if kept = [] \<and> \<not> ChangeTruncated change then (True, change)
            else if length kept = length (ChangeFields change) then (False, change)
            else
              (False, change\<lparr>ChangeFields := kept,
                 ChangeTotal := (if ChangeTruncated change then ChangeTotal change else length kept)\<rparr>)))"

subsection \<open>One rule at a time\<close>

text \<open>What a single rule says of a change: it silences it as a whole, or it covers a field.\<close>

definition rule_silences :: "(string \<Rightarrow> string) \<Rightarrow> change \<Rightarrow> string \<Rightarrow> string \<Rightarrow> mute_rule \<Rightarrow> bool" where
  "rule_silences lower change before after r \<longleftrightarrow>
     MuteKind r = MuteCollector \<and> MuteValue r = ChangeCollector change
     \<or> MuteKind r = MuteResource \<and> (lower (MuteValue r) = lower (ResourceID change)
          \<or> ChangeName change \<noteq> '''' \<and> lower (MuteValue r) = lower (ChangeName change))
     \<or> MuteKind r = MuteTag \<and>
         (if Kind change \<noteq> ''changed''
          then lower (MuteValue r) \<in> set (snapshotTags lower before) \<union> set (snapshotTags lower after)
          else lower (MuteValue r) \<in> set (snapshotTags lower before)
            \<and> set (snapshotTags lower before) = set (snapshotTags lower after)
            \<and> (\<forall>f \<in> set (ChangeFields change). \<not> equal_fold (FieldRoot (Field f)) ''tags''))"

definition rule_covers :: "(string \<Rightarrow> string) \<Rightarrow> string \<Rightarrow> field_change \<Rightarrow> mute_rule \<Rightarrow> bool" where
  "rule_covers lower collector f r \<longleftrightarrow>
     MuteKind r = MuteField
     \<and> (let (c, path, _) = cut (CHR ''.'') (MuteValue r)
        in c = collector \<and> path_covers (compactPath lower path) (compactPath lower (Field f)))"

definition unmuted_fields :: "(string \<Rightarrow> string) \<Rightarrow> mute_rule list \<Rightarrow> change \<Rightarrow> field_change list" where
  "unmuted_fields lower rules change =
     filter (\<lambda>f. \<not> (\<exists>r \<in> set rules. rule_covers lower (ChangeCollector change) f r)) (ChangeFields change)"

lemma fold_mutes:
  "fold (add_mute lower) rules m =
     \<lparr> MuteCollectors = MuteCollectors m @ map MuteValue (filter (\<lambda>r. MuteKind r = MuteCollector) rules),
       MuteFields = MuteFields m @ map (\<lambda>r. let (c, path, _) = cut (CHR ''.'') (MuteValue r) in (c, compactPath lower path))
         (filter (\<lambda>r. MuteKind r = MuteField) rules),
       MuteTags = MuteTags m @ map (\<lambda>r. lower (MuteValue r)) (filter (\<lambda>r. MuteKind r = MuteTag) rules),
       MuteResources = MuteResources m @ map (\<lambda>r. lower (MuteValue r)) (filter (\<lambda>r. MuteKind r = MuteResource) rules) \<rparr>"
  by (induction rules arbitrary: m)
    (simp_all add: add_mute_def mute_kinds Let_def case_prod_beta del: cut.simps)

lemma mute_set_simps:
  "set (MuteCollectors (newMuteSet lower rules)) = {MuteValue r |r. r \<in> set rules \<and> MuteKind r = MuteCollector}"
  "set (MuteTags (newMuteSet lower rules)) = {lower (MuteValue r) |r. r \<in> set rules \<and> MuteKind r = MuteTag}"
  "set (MuteResources (newMuteSet lower rules)) = {lower (MuteValue r) |r. r \<in> set rules \<and> MuteKind r = MuteResource}"
  "set (MuteFields (newMuteSet lower rules)) =
     {(c, compactPath lower path) |r c path found. r \<in> set rules \<and> MuteKind r = MuteField
        \<and> cut (CHR ''.'') (MuteValue r) = (c, path, found)}"
  by (auto simp: newMuteSet_def fold_mutes Let_def case_prod_beta prod_eq_iff image_iff simp del: cut.simps)

lemma fieldMuted_rules:
  "fieldMuted lower (newMuteSet lower rules) collector (Field f)
     \<longleftrightarrow> (\<exists>r \<in> set rules. rule_covers lower collector f r)"
proof -
  have "rule_covers lower collector f r \<longleftrightarrow> MuteKind r = MuteField
      \<and> (\<exists>path found. cut (CHR ''.'') (MuteValue r) = (collector, path, found)
           \<and> path_covers (compactPath lower path) (compactPath lower (Field f)))" for r
    by (cases "cut (CHR ''.'') (MuteValue r)") (simp add: rule_covers_def del: cut.simps)
  then show ?thesis unfolding fieldMuted_def list_ex_iff mute_set_simps by (auto simp del: cut.simps)
qed

lemma tagMuted_rules:
  "tagMuted lower (newMuteSet lower rules) change before after
     \<longleftrightarrow> (\<exists>r \<in> set rules. MuteKind r = MuteTag \<and> rule_silences lower change before after r)"
  by (auto simp: tagMuted_def hasMutedTag_def sameTags_def list_ex_iff mute_set_simps rule_silences_def mute_kinds)

subsection \<open>Properties\<close>

lemma mute_set_silent:
  assumes "mute_set_empty (newMuteSet lower rules)" and "r \<in> set rules"
  shows "\<not> rule_silences lower change before after r" and "\<not> rule_covers lower collector f r"
  using assms
  by (auto simp: mute_set_empty_def newMuteSet_def fold_mutes filter_empty_conv rule_silences_def rule_covers_def)

lemma silences_parts:
  "(\<exists>r \<in> set rules. rule_silences lower change before after r) \<longleftrightarrow>
     ChangeCollector change \<in> set (MuteCollectors (newMuteSet lower rules))
     \<or> lower (ResourceID change) \<in> set (MuteResources (newMuteSet lower rules))
     \<or> ChangeName change \<noteq> '''' \<and> lower (ChangeName change) \<in> set (MuteResources (newMuteSet lower rules))
     \<or> tagMuted lower (newMuteSet lower rules) change before after"
  unfolding tagMuted_rules mute_set_simps
  by (auto simp: rule_silences_def mute_kinds)

lemma tags_needed: "tagMuted lower m change before after \<Longrightarrow> MuteTags m \<noteq> []"
  by (auto simp: tagMuted_def hasMutedTag_def list_ex_iff split: if_splits)

lemma no_field_rule:
  assumes "filter (\<lambda>(c, _). c = ChangeCollector change) (MuteFields (newMuteSet lower rules)) = []"
  shows "unmuted_fields lower rules change = ChangeFields change"
proof -
  have "\<not> fieldMuted lower (newMuteSet lower rules) (ChangeCollector change) (Field f)" for f
    using assms by (auto simp: fieldMuted_def list_ex_iff filter_empty_conv)
  then show ?thesis by (auto simp: unmuted_fields_def filter_id_conv fieldMuted_rules [symmetric])
qed

lemma same_length_filter: "length (filter P xs) = length xs \<longleftrightarrow> filter P xs = xs"
  by (metis filter_True length_filter_less less_irrefl)

lemma mutes_evaluated:
  "evaluate lower (newMuteSet lower rules) change before after =
     (if (\<exists>r \<in> set rules. rule_silences lower change before after r)
         \<or> Kind change = ''changed'' \<and> ChangeFields change \<noteq> [] \<and> \<not> ChangeTruncated change
             \<and> unmuted_fields lower rules change = []
      then (True, change)
      else if Kind change = ''changed'' \<and> unmuted_fields lower rules change \<noteq> ChangeFields change
      then (False, change\<lparr>ChangeFields := unmuted_fields lower rules change,
              ChangeTotal := (if ChangeTruncated change then ChangeTotal change
                              else length (unmuted_fields lower rules change))\<rparr>)
      else (False, change))"
proof (cases "mute_set_empty (newMuteSet lower rules)")
  case True
  then have "unmuted_fields lower rules change = ChangeFields change"
    using mute_set_silent(2) by (auto simp: unmuted_fields_def filter_id_conv)
  with True mute_set_silent(1) show ?thesis by (auto simp: evaluate_def)
next
  case False
  let ?m = "newMuteSet lower rules"
  have kept: "filter (\<lambda>f. \<not> fieldMuted lower ?m (ChangeCollector change) (Field f)) (ChangeFields change)
      = unmuted_fields lower rules change"
    by (simp add: unmuted_fields_def fieldMuted_rules)
  have len: "length (unmuted_fields lower rules change) = length (ChangeFields change)
      \<longleftrightarrow> unmuted_fields lower rules change = ChangeFields change"
    unfolding unmuted_fields_def by (rule same_length_filter)
  have empty: "ChangeFields change = [] \<Longrightarrow> unmuted_fields lower rules change = []"
    by (simp add: unmuted_fields_def)
  show ?thesis
    using no_field_rule [of change lower rules] tags_needed [of lower ?m change before after] empty
    unfolding evaluate_def Let_def kept len silences_parts by (auto simp: False)
qed

text \<open>
  The indexed set of rules means what the rules mean one by one. A change is muted exactly if some
  rule silences it as a whole, or it is a complete list of changed fields each of which some rule
  covers; otherwise what is shown is the change without the covered fields, counted again unless the
  list was cut. In particular neither the order of the rules nor a rule given twice matters.
\<close>
theorem mutes_rule_by_rule:
  "evaluate lower (newMuteSet lower rules) change before after =
     (if (\<exists>r \<in> set rules. rule_silences lower change before after r)
         \<or> Kind change = ''changed'' \<and> ChangeFields change \<noteq> [] \<and> \<not> ChangeTruncated change
             \<and> unmuted_fields lower rules change = []
      then (True, change)
      else if Kind change = ''changed'' \<and> unmuted_fields lower rules change \<noteq> ChangeFields change
      then (False, change\<lparr>ChangeFields := unmuted_fields lower rules change,
              ChangeTotal := (if ChangeTruncated change then ChangeTotal change
                              else length (unmuted_fields lower rules change))\<rparr>)
      else (False, change))"
  by (rule mutes_evaluated)

text \<open>
  The act of tagging is never muted by a tag rule. Whatever tag rules there are, a change of a
  resource whose tags differ before and after, or one of whose changed fields is in its list of tags,
  is shown in full.
\<close>
theorem tagging_is_shown:
  assumes "\<forall>r \<in> set rules. MuteKind r = MuteTag" and "Kind change = ''changed''"
    and "set (snapshotTags lower before) \<noteq> set (snapshotTags lower after)
       \<or> (\<exists>f \<in> set (ChangeFields change). equal_fold (FieldRoot (Field f)) ''tags'')"
  shows "evaluate lower (newMuteSet lower rules) change before after = (False, change)"
proof -
  have "\<not> rule_silences lower change before after r" "\<not> rule_covers lower (ChangeCollector change) f r"
    if "r \<in> set rules" for r f
    using assms that by (auto simp: rule_silences_def rule_covers_def mute_kinds)
  then have "\<not> (\<exists>r \<in> set rules. rule_silences lower change before after r)"
    and "unmuted_fields lower rules change = ChangeFields change"
    by (auto simp: unmuted_fields_def filter_id_conv)
  then show ?thesis unfolding mutes_evaluated by (cases "ChangeFields change = []") simp_all
qed

subsection \<open>The table\<close>

datatype mute_op = OpAddMute string string instant | OpDeleteMute int

definition mute_exec :: "(string \<Rightarrow> string) \<Rightarrow> mute_op \<Rightarrow> mute_db \<Rightarrow> mute_db" where
  "mute_exec lower op db =
     (case op of
        OpAddMute kind v now \<Rightarrow> (case AddMuteRule lower kind v now db of Inl _ \<Rightarrow> db | Inr (_, db') \<Rightarrow> db')
      | OpDeleteMute i \<Rightarrow> (case DeleteMuteRule i db of Inl _ \<Rightarrow> db | Inr db' \<Rightarrow> db'))"

text \<open>A well-formed table: at most 200 rules in the order of their ids, no rule twice, of known kinds.\<close>

definition mute_wf :: "mute_db \<Rightarrow> bool" where
  "mute_wf db \<longleftrightarrow>
     length (MuteRules db) \<le> MaxMuteRules
     \<and> sorted_wrt (<) (map MuteID (MuteRules db)) \<and> list_all (\<lambda>r. MuteID r < NextMuteID db) (MuteRules db)
     \<and> distinct (map (\<lambda>r. (MuteKind r, MuteValue r)) (MuteRules db))
     \<and> list_all (\<lambda>r. MuteKind r \<in> {MuteCollector, MuteField, MuteTag, MuteResource}) (MuteRules db)"

lemma normal_kind:
  "NormalizeMuteRule lower kind0 v0 = Inr (kind, v) \<Longrightarrow> kind \<in> {MuteCollector, MuteField, MuteTag, MuteResource}"
  by (auto simp: NormalizeMuteRule_def Let_def case_prod_beta simp del: cut.simps split: if_splits)

lemma add_mute_wf:
  assumes "mute_wf db" "AddMuteRule lower kind0 v0 now db = Inr (i, db')"
  shows "mute_wf db'"
proof -
  obtain kind v where n: "NormalizeMuteRule lower kind0 v0 = Inr (kind, v)"
    using assms(2) by (auto simp: AddMuteRule_def split: sum.splits)
  with assms(2) have new: "(kind, v) \<notin> (\<lambda>r. (MuteKind r, MuteValue r)) ` set (MuteRules db)"
    and room: "length (MuteRules db) < MaxMuteRules"
    and db': "db' = db\<lparr>MuteRules := MuteRules db @
        [\<lparr> MuteID = NextMuteID db, MuteKind = kind, MuteValue = v, MuteCreated = now \<rparr>], NextMuteID := NextMuteID db + 1\<rparr>"
    by (auto simp: AddMuteRule_def list_ex_iff image_iff split: if_splits)
  have "\<forall>r \<in> set (MuteRules db). MuteID r < NextMuteID db" using assms(1) by (simp add: mute_wf_def list_all_iff)
  then have "\<forall>r \<in> set (MuteRules db). MuteID r < NextMuteID db + 1" by (auto intro: less_trans)
  with assms(1) new room normal_kind [OF n] show ?thesis
    by (simp add: db' mute_wf_def sorted_wrt_append list_all_iff)
qed

lemma delete_mute_wf:
  assumes "mute_wf db" "DeleteMuteRule i db = Inr db'"
  shows "mute_wf db'"
proof -
  have db': "db' = db\<lparr>MuteRules := filter (\<lambda>r. MuteID r \<noteq> i) (MuteRules db)\<rparr>"
    using assms(2) by (simp add: DeleteMuteRule_def split: if_splits)
  have "length (filter (\<lambda>r. MuteID r \<noteq> i) (MuteRules db)) \<le> MaxMuteRules"
    using assms(1) by (intro order_trans [OF length_filter_le]) (simp add: mute_wf_def)
  with assms(1) show ?thesis
    by (auto simp: mute_wf_def db' list_all_iff distinct_map_filter sorted_wrt_map intro: sorted_wrt_filter)
qed

lemma mute_run_wf: "mute_wf db \<Longrightarrow> mute_wf (fold (mute_exec lower) ops db)"
proof (induction ops arbitrary: db)
  case (Cons op ops)
  have "mute_wf (mute_exec lower op db)"
  proof (cases op)
    case (OpAddMute kind v now)
    with Cons.prems add_mute_wf [OF Cons.prems, of lower kind v now] show ?thesis
      by (cases "AddMuteRule lower kind v now db") (auto simp: mute_exec_def)
  next
    case (OpDeleteMute i)
    with Cons.prems delete_mute_wf [OF Cons.prems, of i] show ?thesis
      by (cases "DeleteMuteRule i db") (simp_all add: mute_exec_def)
  qed
  with Cons.IH show ?case by simp
qed simp

subsection \<open>The properties at a concrete input\<close>

definition muted_sample :: change where
  "muted_sample =
     \<lparr> Kind = ''changed'', ChangeCollector = ''devices'', ResourceID = ''d1'', ChangeType = ''device'',
       ChangeName = ''laptop'', ChangeFields =
         [\<lparr> Field = ''clientVersion'', Old = GoVal (JStr ''1''), New = GoVal (JStr ''2''), OldPresent = True, NewPresent = True \<rparr>],
       ChangeTruncated = False, ChangeTotal = 1, ChangeAttribution = None, Invites = (\<lambda>_. None),
       CreatedAs = None \<rparr>"

definition tag_rule :: mute_rule where
  "tag_rule = \<lparr> MuteID = 1, MuteKind = MuteTag, MuteValue = ''tag:ci'', MuteCreated = 0 \<rparr>"

theorem tagging_is_shown_witness:
  "evaluate to_lower (newMuteSet to_lower [tag_rule]) muted_sample
     (marshal (JObj [(''tags'', JArr [])])) (marshal (JObj [(''tags'', JArr [JStr ''tag:ci''])])) = (False, muted_sample)"
proof (rule tagging_is_shown)
  have "snapshotTags to_lower (marshal (JObj [(''tags'', JArr [])])) = []" by code_simp
  moreover have "snapshotTags to_lower (marshal (JObj [(''tags'', JArr [JStr ''tag:ci''])])) = [''tag:ci'']" by code_simp
  ultimately show "set (snapshotTags to_lower (marshal (JObj [(''tags'', JArr [])])))
      \<noteq> set (snapshotTags to_lower (marshal (JObj [(''tags'', JArr [JStr ''tag:ci''])])))
      \<or> (\<exists>f \<in> set (ChangeFields muted_sample). equal_fold (FieldRoot (Field f)) ''tags'')" by simp
qed (simp_all add: tag_rule_def muted_sample_def)

end
