(* ===== verification/Store_Routing.thy ===== *)
theory Store_Routing
  imports Store_Mutes Store_Outbox
begin

text \<open>
  Per-destination routing, \<open>internal/store/routing.go\<close>: the rules a destination selects changes by,
  their form in the columns of its row, and the fan-out of one change batch to the destinations,
  which renders one digest for all destinations with the same rules.

  The routing columns of the destination rows (empty by default) are a function of the destination's
  id. Rendering a list of changes (\<open>digest\<close> and \<open>notify.EncodePayload\<close>) is an argument; \<open>None\<close> is
  its error, which rolls the batch back.
\<close>

record routing_rules =
  MinSeverity :: string
  IncludeCollectors :: "string list"
  ExcludeCollectors :: "string list"
  ChangeKinds :: "string list"

record route_columns =
  RouteMin :: string
  RouteInclude :: string
  RouteExclude :: string
  RouteKinds :: string

datatype routing_error =
    UnknownSeverity string
  | InvalidCollector string
  | InvalidChangeKind string
  | UnknownFormat string
  | DestinationNotFound

definition no_routing :: routing_rules where
  "no_routing = \<lparr> MinSeverity = '''', IncludeCollectors = [], ExcludeCollectors = [], ChangeKinds = [] \<rparr>"

subsection \<open>Normal form\<close>

definition routingCollectorPattern :: "string \<Rightarrow> bool" where
  "routingCollectorPattern s \<longleftrightarrow> muteCollectorPattern s"

definition routingChangeKinds :: "string list" where
  "routingChangeKinds = [''created'', ''changed'', ''removed'']"

definition normalizeRoutingList ::
  "(string \<Rightarrow> routing_error) \<Rightarrow> (string \<Rightarrow> bool) \<Rightarrow> string list \<Rightarrow> routing_error + string list" where
  "normalizeRoutingList err valid vs =
     (let named = filter (\<lambda>v. v \<noteq> '''') (map (\<lambda>v. to_lower (trim_space v)) vs)
      in case List.find (\<lambda>v. \<not> valid v) named of
           Some v \<Rightarrow> Inl (err v)
         | None \<Rightarrow> Inr (sorted_uniq named))"

definition normal_severity :: "string \<Rightarrow> routing_error + string" where
  "normal_severity s =
     (if trim_space s = '''' then Inr ''''
      else
        (case ParseSeverity s of
           None \<Rightarrow> Inl (UnknownSeverity s)
         | Some severity \<Rightarrow> Inr (if severity = SeverityLow then '''' else severity_text severity)))"

definition NormalizeRoutingRules :: "routing_rules \<Rightarrow> routing_error + routing_rules" where
  "NormalizeRoutingRules rules =
     (case normal_severity (MinSeverity rules) of
        Inl e \<Rightarrow> Inl e
      | Inr minimum \<Rightarrow>
          (case normalizeRoutingList InvalidCollector routingCollectorPattern (IncludeCollectors rules) of
             Inl e \<Rightarrow> Inl e
           | Inr incl \<Rightarrow>
               (case normalizeRoutingList InvalidCollector routingCollectorPattern (ExcludeCollectors rules) of
                  Inl e \<Rightarrow> Inl e
                | Inr excl \<Rightarrow>
                    (case normalizeRoutingList InvalidChangeKind (\<lambda>v. v \<in> set routingChangeKinds) (ChangeKinds rules) of
                       Inl e \<Rightarrow> Inl e
                     | Inr kinds \<Rightarrow>
                         Inr \<lparr> MinSeverity = minimum, IncludeCollectors = incl, ExcludeCollectors = excl,
                               ChangeKinds = (if length kinds = length routingChangeKinds then [] else kinds) \<rparr>))))"

definition AllChanges :: "routing_rules \<Rightarrow> bool" where
  "AllChanges r \<longleftrightarrow> (MinSeverity r = '''' \<or> MinSeverity r = severity_text SeverityLow)
     \<and> IncludeCollectors r = [] \<and> ExcludeCollectors r = [] \<and> ChangeKinds r = []"

definition Matches :: "routing_rules \<Rightarrow> change \<Rightarrow> severity \<Rightarrow> bool" where
  "Matches r change severity =
     (if MinSeverity r \<noteq> '''' \<and> \<not> AtLeast (severity_text severity) (MinSeverity r) then False
      else if IncludeCollectors r \<noteq> [] \<and> ChangeCollector change \<notin> set (IncludeCollectors r) then False
      else if ChangeCollector change \<in> set (ExcludeCollectors r) then False
      else if ChangeKinds r \<noteq> [] \<and> Kind change \<notin> set (ChangeKinds r) then False
      else True)"

subsection \<open>Columns\<close>

definition routing_key :: "routing_rules \<Rightarrow> string" where
  "routing_key r = MinSeverity r @ ''|'' @ join '','' (IncludeCollectors r) @ ''|''
     @ join '','' (ExcludeCollectors r) @ ''|'' @ join '','' (ChangeKinds r)"

definition splitRoutingList :: "string \<Rightarrow> string list" where
  "splitRoutingList v = (if trim_space v = '''' then [] else split (CHR '','') v)"

definition routing_columns :: "routing_rules \<Rightarrow> route_columns" where
  "routing_columns r =
     \<lparr> RouteMin = MinSeverity r, RouteInclude = join '','' (IncludeCollectors r),
       RouteExclude = join '','' (ExcludeCollectors r), RouteKinds = join '','' (ChangeKinds r) \<rparr>"

definition routingFromColumns :: "route_columns \<Rightarrow> routing_rules" where
  "routingFromColumns c =
     (case NormalizeRoutingRules
             \<lparr> MinSeverity = RouteMin c, IncludeCollectors = splitRoutingList (RouteInclude c),
               ExcludeCollectors = splitRoutingList (RouteExclude c), ChangeKinds = splitRoutingList (RouteKinds c) \<rparr> of
        Inl _ \<Rightarrow> no_routing
      | Inr rules \<Rightarrow> rules)"

definition touch_destination :: "instant \<Rightarrow> int \<Rightarrow> (dest_row \<Rightarrow> dest_row) \<Rightarrow> outbox_db \<Rightarrow> outbox_db option" where
  "touch_destination now dest upd db =
     (let p = (\<lambda>d. DestID d = dest \<and> DestDeleted d = None)
      in if rows_affected p (Dests db) = 0 then None
         else Some (db\<lparr>Dests := update_where p (\<lambda>d. (upd d)\<lparr>DestUpdated := now\<rparr>) (Dests db)\<rparr>))"

definition ValidateFormat :: "string \<Rightarrow> routing_error + string" where
  "ValidateFormat format0 =
     (let fmt = to_lower (trim_space format0)
      in if fmt \<in> {'''', ''markdown'', ''slack'', ''plain'', ''teams'', ''html''} then Inr fmt
         else Inl (UnknownFormat fmt))"

definition SetDestinationFormat :: "instant \<Rightarrow> int \<Rightarrow> string \<Rightarrow> outbox_db \<Rightarrow> routing_error + outbox_db" where
  "SetDestinationFormat now dest format0 db =
     (case ValidateFormat format0 of
        Inl e \<Rightarrow> Inl e
      | Inr fmt \<Rightarrow>
          (case touch_destination now dest (\<lambda>d. d\<lparr>DestFormat := fmt\<rparr>) db of
             None \<Rightarrow> Inl DestinationNotFound
           | Some db' \<Rightarrow> Inr db'))"

definition SetDestinationRouting ::
  "instant \<Rightarrow> int \<Rightarrow> routing_rules \<Rightarrow> (int \<Rightarrow> route_columns) \<Rightarrow> outbox_db
     \<Rightarrow> routing_error + ((int \<Rightarrow> route_columns) \<times> outbox_db)" where
  "SetDestinationRouting now dest rules0 routes db =
     (case NormalizeRoutingRules rules0 of
        Inl e \<Rightarrow> Inl e
      | Inr rules \<Rightarrow>
          (case touch_destination now dest id db of
             None \<Rightarrow> Inl DestinationNotFound
           | Some db' \<Rightarrow> Inr (routes(dest := routing_columns rules), db')))"

subsection \<open>The fan-out\<close>

type_synonym digest = "change list \<Rightarrow> (string \<times> string) option"

text \<open>The payload a set of rules gives: empty when no change matches.\<close>

definition routed_payload :: "digest \<Rightarrow> (change \<times> severity) list \<Rightarrow> routing_rules \<Rightarrow> (string \<times> string) option" where
  "routed_payload digest changes rules =
     (let shown = map fst (filter (\<lambda>(c, s). Matches rules c s) changes)
      in if shown = [] then Some ('''', '''') else digest shown)"

text \<open>The loop over the destinations, with the payloads rendered so far.\<close>

fun fan_out ::
  "digest \<Rightarrow> (change \<times> severity) list \<Rightarrow> int \<Rightarrow> instant \<Rightarrow> (dest_row \<times> routing_rules) list
     \<Rightarrow> (string \<times> string \<times> string) list \<Rightarrow> outbox_db \<Rightarrow> outbox_db option" where
  "fan_out digest changes batchID now [] payloads db = Some db"
| "fan_out digest changes batchID now ((d, rules) # ds) payloads db =
     (let key = routing_key rules
      in case (case map_of payloads key of
                 Some p \<Rightarrow> Some (p, payloads)
               | None \<Rightarrow> map_option (\<lambda>p. (p, (key, p) # payloads)) (routed_payload digest changes rules)) of
           None \<Rightarrow> None
         | Some ((format, payload), payloads') \<Rightarrow>
             fan_out digest changes batchID now ds payloads'
               (if payload = '''' then db else insert_outbox (Some batchID) format payload now d db))"

definition routed_destinations :: "(int \<Rightarrow> route_columns) \<Rightarrow> outbox_db \<Rightarrow> (dest_row \<times> routing_rules) list" where
  "routed_destinations routes db =
     map (\<lambda>d. (d, routingFromColumns (routes (DestID d)))) (filter active_dest (Dests db))"

definition enqueueDigestTx ::
  "digest \<Rightarrow> (int \<Rightarrow> route_columns) \<Rightarrow> (change \<times> severity) list \<Rightarrow> int \<Rightarrow> instant \<Rightarrow> outbox_db \<Rightarrow> outbox_db option" where
  "enqueueDigestTx digest routes changes batchID now db =
     fan_out digest changes batchID now (routed_destinations routes db) [] db"

subsection \<open>Normal rules\<close>

definition plain_word :: "string \<Rightarrow> bool" where
  "plain_word s \<longleftrightarrow> s \<noteq> [] \<and> list_all (\<lambda>c. lower_letter c \<or> c = CHR ''_'') s"

definition routing_normal :: "routing_rules \<Rightarrow> bool" where
  "routing_normal r \<longleftrightarrow>
     MinSeverity r \<in> {'''', ''medium'', ''high''}
     \<and> (\<forall>vs \<in> {IncludeCollectors r, ExcludeCollectors r, ChangeKinds r}. sorted vs \<and> distinct vs)
     \<and> (\<forall>v \<in> set (IncludeCollectors r) \<union> set (ExcludeCollectors r). muteCollectorPattern v)
     \<and> set (ChangeKinds r) \<subset> set routingChangeKinds"

lemma pattern_word: "muteCollectorPattern v \<Longrightarrow> plain_word v"
  by (auto simp: muteCollectorPattern_def plain_word_def list_all_iff split: list.splits)

lemma kind_word: "v \<in> set routingChangeKinds \<Longrightarrow> plain_word v"
  by (auto simp: routingChangeKinds_def plain_word_def lower_letter_def)

lemma plain_word_facts:
  assumes "plain_word v"
  shows "to_lower (trim_space v) = v" and "CHR '','' \<notin> set v" and "CHR ''|'' \<notin> set v" and "v \<noteq> []"
    and "trim_space v = v"
proof -
  have b: "32 < byte_of c \<and> byte_of c < 128 \<and> lower_char c = c" if "c \<in> set v" for c
    using assms that by (auto simp: plain_word_def list_all_iff lower_letter_def lower_char_def)
  then have t: "trim_space v = v" by (intro trim_space_plain) blast
  then show "trim_space v = v" .
  from t b show "to_lower (trim_space v) = v" by (simp add: to_lower_ascii map_idI)
  show "CHR '','' \<notin> set v" "CHR ''|'' \<notin> set v" "v \<noteq> []"
    using assms by (auto simp: plain_word_def list_all_iff lower_letter_def)
qed

lemma join_plain:
  assumes "\<forall>v \<in> set vs. plain_word v"
  shows "set (join '','' vs) \<subseteq> insert (CHR '','') {c. lower_letter c \<or> c = CHR ''_''}"
  using assms
  by (induction "'',''" vs rule: join.induct) (auto simp: plain_word_def list_all_iff)

lemma split_words:
  assumes "\<forall>v \<in> set vs. plain_word v"
  shows "splitRoutingList (join '','' vs) = vs"
proof (cases vs)
  case (Cons v rest)
  have "set (join '','' vs) \<subseteq> insert (CHR '','') {c. lower_letter c \<or> c = CHR ''_''}" by (rule join_plain [OF assms])
  then have "trim_space (join '','' vs) = join '','' vs"
    by (intro trim_space_plain) (auto simp: lower_letter_def)
  moreover have "join '','' vs \<noteq> []" using Cons assms by (cases rest) (auto simp: plain_word_def)
  ultimately show ?thesis
    using split_join [of vs "CHR '',''"] assms plain_word_facts(2) Cons by (simp add: splitRoutingList_def)
qed (simp add: splitRoutingList_def trim_space_def)

lemma normal_words:
  assumes "routing_normal r"
  shows "\<forall>vs \<in> {IncludeCollectors r, ExcludeCollectors r, ChangeKinds r}. \<forall>v \<in> set vs. plain_word v"
  using assms pattern_word kind_word by (auto simp: routing_normal_def)

lemma normal_list:
  assumes "sorted vs" "distinct vs" "\<forall>v \<in> set vs. plain_word v" "\<forall>v \<in> set vs. valid v"
  shows "normalizeRoutingList err valid vs = Inr vs"
proof -
  have "map (\<lambda>v. to_lower (trim_space v)) vs = vs" using assms(3) by (simp add: map_idI plain_word_facts(1))
  moreover have "filter (\<lambda>v. v \<noteq> []) vs = vs" using assms(3) by (auto simp: filter_id_conv plain_word_def)
  moreover have "List.find (\<lambda>v. \<not> valid v) vs = None" using assms(4) by (simp add: find_None_iff)
  moreover have "sorted_uniq vs = vs" using assms(1,2) by (simp add: sorted_uniq_def uniq_distinct sorted_sort_id)
  ultimately show ?thesis by (simp add: normalizeRoutingList_def)
qed

lemma severity_words:
  "ParseSeverity ''medium'' = Some SeverityMedium" "ParseSeverity ''high'' = Some SeverityHigh"
  "trim_space ''medium'' \<noteq> ''''" "trim_space ''high'' \<noteq> ''''" "trim_space '''' = ''''"
  by code_simp+

lemma normal_again: "routing_normal r \<Longrightarrow> NormalizeRoutingRules r = Inr r"
proof -
  assume n: "routing_normal r"
  have "normal_severity (MinSeverity r) = Inr (MinSeverity r)"
    using n by (auto simp: routing_normal_def normal_severity_def severity_words severity_text_def)
  moreover have "normalizeRoutingList InvalidCollector routingCollectorPattern (IncludeCollectors r) = Inr (IncludeCollectors r)"
    "normalizeRoutingList InvalidCollector routingCollectorPattern (ExcludeCollectors r) = Inr (ExcludeCollectors r)"
    "normalizeRoutingList InvalidChangeKind (\<lambda>v. v \<in> set routingChangeKinds) (ChangeKinds r) = Inr (ChangeKinds r)"
    using n normal_words [OF n] by (auto intro!: normal_list simp: routing_normal_def routingCollectorPattern_def)
  moreover have "length (ChangeKinds r) \<noteq> length routingChangeKinds"
  proof -
    have "card (set (ChangeKinds r)) < card (set routingChangeKinds)"
      using n by (intro psubset_card_mono) (auto simp: routing_normal_def)
    moreover have "card (set routingChangeKinds) = 3" "length routingChangeKinds = 3" by (simp_all add: routingChangeKinds_def)
    ultimately show ?thesis using n by (simp add: routing_normal_def distinct_card)
  qed
  ultimately show ?thesis by (simp add: NormalizeRoutingRules_def)
qed

lemma normalized_list:
  assumes "normalizeRoutingList err valid vs = Inr ws"
  shows "sorted ws" and "distinct ws" and "\<forall>w \<in> set ws. valid w"
  using assms by (auto simp: normalizeRoutingList_def Let_def find_None_iff split: option.splits)

lemma normalize_normal:
  assumes "NormalizeRoutingRules rules = Inr r"
  shows "routing_normal r"
proof -
  obtain incl excl kinds where
    i: "normalizeRoutingList InvalidCollector routingCollectorPattern (IncludeCollectors rules) = Inr incl"
    and e: "normalizeRoutingList InvalidCollector routingCollectorPattern (ExcludeCollectors rules) = Inr excl"
    and k: "normalizeRoutingList InvalidChangeKind (\<lambda>v. v \<in> set routingChangeKinds) (ChangeKinds rules) = Inr kinds"
    and m: "normal_severity (MinSeverity rules) = Inr (MinSeverity r)"
    and r: "IncludeCollectors r = incl" "ExcludeCollectors r = excl"
      "ChangeKinds r = (if length kinds = length routingChangeKinds then [] else kinds)"
    using assms by (auto simp: NormalizeRoutingRules_def split: sum.splits)
  have "MinSeverity r \<in> {'''', ''medium'', ''high''}"
    using m by (auto simp: normal_severity_def severity_text_def split: if_splits option.splits severity.splits)
  moreover have "set (ChangeKinds r) \<subset> set routingChangeKinds"
  proof -
    have "set kinds \<subseteq> set routingChangeKinds" using normalized_list(3) [OF k] by blast
    moreover have "set kinds \<noteq> set routingChangeKinds" if "length kinds \<noteq> length routingChangeKinds"
    proof
      assume "set kinds = set routingChangeKinds"
      then have "card (set kinds) = length routingChangeKinds" by (simp add: routingChangeKinds_def)
      with that distinct_card [OF normalized_list(2) [OF k]] show False by simp
    qed
    moreover have "{} \<subset> set routingChangeKinds" by (simp add: routingChangeKinds_def psubset_eq)
    ultimately show ?thesis unfolding r(3) by (simp add: psubset_eq)
  qed
  moreover have "sorted (ChangeKinds r)" "distinct (ChangeKinds r)" using normalized_list [OF k] by (simp_all add: r(3))
  ultimately show ?thesis
    using normalized_list [OF i] normalized_list [OF e]
    unfolding routing_normal_def by (simp add: r(1,2) routingCollectorPattern_def ball_Un)
qed

lemma no_routing_normal: "routing_normal no_routing"
  by (auto simp: routing_normal_def no_routing_def routingChangeKinds_def)

lemma columns_normal: "routing_normal (routingFromColumns c)"
  by (auto simp: routingFromColumns_def no_routing_normal normalize_normal split: sum.split)

lemma columns_round_trip: "routing_normal r \<Longrightarrow> routingFromColumns (routing_columns r) = r"
  using normal_words [of r] normal_again [of r]
  by (cases r) (simp add: routingFromColumns_def routing_columns_def split_words)

text \<open>The key takes a normal set of rules apart into its columns.\<close>

lemma no_bar:
  assumes "\<forall>v \<in> set vs. plain_word v" shows "CHR ''|'' \<notin> set (join '','' vs)"
  using join_plain [OF assms] by (auto simp: lower_letter_def)

lemma key_columns:
  assumes "routing_normal r"
  shows "split (CHR ''|'') (routing_key r) =
    [RouteMin (routing_columns r), RouteInclude (routing_columns r), RouteExclude (routing_columns r),
     RouteKinds (routing_columns r)]"
proof -
  have k: "routing_key r = join ''|'' [MinSeverity r, join '','' (IncludeCollectors r),
      join '','' (ExcludeCollectors r), join '','' (ChangeKinds r)]"
    by (simp add: routing_key_def)
  have "CHR ''|'' \<notin> set (MinSeverity r)" using assms by (auto simp: routing_normal_def)
  then show ?thesis unfolding k routing_columns_def
    using normal_words [OF assms] no_bar by (subst split_join) auto
qed

lemma key_injective:
  assumes "routing_normal r" "routing_normal r'" "routing_key r = routing_key r'"
  shows "r = r'"
proof -
  have "routing_columns r = routing_columns r'"
    using key_columns [OF assms(1)] key_columns [OF assms(2)] assms(3) by simp
  then show ?thesis using columns_round_trip assms(1,2) by metis
qed

subsection \<open>The fan-out is per destination\<close>

text \<open>What one destination gets, whatever the others are.\<close>

definition sent_to :: "digest \<Rightarrow> (change \<times> severity) list \<Rightarrow> dest_row \<times> routing_rules \<Rightarrow> bool" where
  "sent_to digest changes x \<longleftrightarrow> (\<exists>format payload. routed_payload digest changes (snd x) = Some (format, payload) \<and> payload \<noteq> '''')"

definition send_to ::
  "digest \<Rightarrow> (change \<times> severity) list \<Rightarrow> int \<Rightarrow> instant \<Rightarrow> dest_row \<times> routing_rules \<Rightarrow> outbox_db \<Rightarrow> outbox_db" where
  "send_to digest changes batchID now x =
     (case the (routed_payload digest changes (snd x)) of
        (format, payload) \<Rightarrow> insert_outbox (Some batchID) format payload now (fst x))"

definition cache_ok :: "digest \<Rightarrow> (change \<times> severity) list \<Rightarrow> (string \<times> string \<times> string) list \<Rightarrow> bool" where
  "cache_ok digest changes payloads \<longleftrightarrow>
     (\<forall>r p. routing_normal r \<longrightarrow> map_of payloads (routing_key r) = Some p \<longrightarrow> routed_payload digest changes r = Some p)"

lemma cache_extend:
  assumes "cache_ok digest changes payloads" "routing_normal r" "routed_payload digest changes r = Some p"
  shows "cache_ok digest changes ((routing_key r, p) # payloads)"
  using assms key_injective by (fastforce simp: cache_ok_def)

lemma fan_out_exact:
  assumes "\<forall>x \<in> set ds. routing_normal (snd x)" and "cache_ok digest changes payloads"
  shows "fan_out digest changes batchID now ds payloads db =
    (if list_ex (\<lambda>x. routed_payload digest changes (snd x) = None) ds then None
     else Some (fold (send_to digest changes batchID now) (filter (sent_to digest changes) ds) db))"
  using assms
proof (induction ds arbitrary: payloads db)
  case (Cons x ds)
  obtain d rules where x: "x = (d, rules)" by (cases x)
  have n: "routing_normal rules" using Cons.prems(1) x by simp
  define found where "found = (case map_of payloads (routing_key rules) of
      Some p \<Rightarrow> Some (p, payloads)
    | None \<Rightarrow> map_option (\<lambda>p. (p, (routing_key rules, p) # payloads)) (routed_payload digest changes rules))"
  show ?case
  proof (cases "routed_payload digest changes rules")
    case None
    then have "map_of payloads (routing_key rules) = None"
      using Cons.prems(2) n by (cases "map_of payloads (routing_key rules)") (auto simp: cache_ok_def)
    with None show ?thesis by (simp add: x)
  next
    case (Some p)
    obtain format payload where p: "p = (format, payload)" by (cases p)
    have "\<exists>payloads'. found = Some (p, payloads') \<and> cache_ok digest changes payloads'"
      using Some Cons.prems(2) n cache_extend [OF Cons.prems(2) n Some]
      by (cases "map_of payloads (routing_key rules)") (auto simp: found_def cache_ok_def)
    then obtain payloads' where found: "found = Some (p, payloads')" "cache_ok digest changes payloads'" by blast
    let ?db = "if payload = '''' then db else insert_outbox (Some batchID) format payload now d db"
    have "fan_out digest changes batchID now (x # ds) payloads db =
        fan_out digest changes batchID now ds payloads' ?db"
      using found(1) by (simp add: x p Let_def found_def)
    moreover have "sent_to digest changes x \<longleftrightarrow> payload \<noteq> ''''"
      "payload \<noteq> '''' \<Longrightarrow> send_to digest changes batchID now x db = ?db"
      using Some by (simp_all add: sent_to_def send_to_def x p)
    ultimately show ?thesis
      using Cons.IH [OF _ found(2)] Cons.prems(1) Some by (simp add: x)
  qed
qed simp

lemma enqueue_digest:
  "enqueueDigestTx digest routes changes batchID now db =
    (if list_ex (\<lambda>x. routed_payload digest changes (snd x) = None) (routed_destinations routes db) then None
     else Some (fold (send_to digest changes batchID now)
       (filter (sent_to digest changes) (routed_destinations routes db)) db))"
  unfolding enqueueDigestTx_def
  by (rule fan_out_exact) (auto simp: columns_normal cache_ok_def routed_destinations_def)

subsection \<open>Properties\<close>

text \<open>
  Every destination gets the digest of its own rules. Queueing the digests of a batch fails exactly
  if the digest of some enabled destination cannot be rendered; otherwise it adds one notification for
  each enabled destination whose rules match some of the changes, in the order of their ids, with the
  payload rendered from exactly the changes that match, as if nothing were shared. Sharing one
  rendering between destinations by the text of their rules never mixes two sets of rules up.
\<close>
theorem digest_fan_out:
  "enqueueDigestTx digest routes changes batchID now db =
    (if list_ex (\<lambda>x. routed_payload digest changes (snd x) = None) (routed_destinations routes db) then None
     else Some (fold (send_to digest changes batchID now)
       (filter (sent_to digest changes) (routed_destinations routes db)) db))"
  by (rule enqueue_digest)

text \<open>
  Routing rules survive the database. Rules that were accepted are read back from their columns
  unchanged, normalising them again changes nothing, and setting them for one destination leaves the
  rules of every other destination alone. Columns that cannot be interpreted select every change.
\<close>
theorem routing_round_trip:
  assumes "SetDestinationRouting now dest rules routes db = Inr (routes', db')"
  shows "\<exists>r. NormalizeRoutingRules rules = Inr r \<and> NormalizeRoutingRules r = Inr r
      \<and> routingFromColumns (routes' dest) = r \<and> routes' = routes(dest := routes' dest) \<and> Outbox db' = Outbox db"
proof -
  obtain r where r: "NormalizeRoutingRules rules = Inr r" and routes': "routes' = routes(dest := routing_columns r)"
    and db': "touch_destination now dest id db = Some db'"
    using assms by (auto simp: SetDestinationRouting_def split: sum.splits option.splits)
  have "Outbox db' = Outbox db" using db' by (auto simp: touch_destination_def Let_def split: if_splits)
  with r routes' normalize_normal [OF r] show ?thesis by (auto simp: normal_again columns_round_trip)
qed

theorem routing_round_trip_witness:
  "\<exists>routes' db'. SetDestinationRouting 5 1 no_routing (\<lambda>_. routing_columns no_routing) sample_db = Inr (routes', db')
    \<and> routingFromColumns (routes' 1) = no_routing"
proof -
  have "NormalizeRoutingRules no_routing = Inr no_routing" by (rule normal_again [OF no_routing_normal])
  moreover have "\<exists>db'. touch_destination 5 1 id sample_db = Some db'"
  proof -
    have "rows_affected (\<lambda>d. DestID d = 1 \<and> DestDeleted d = None) (Dests sample_db) = 1" by code_simp
    then show ?thesis by (simp add: touch_destination_def)
  qed
  ultimately obtain routes' db' where
    s: "SetDestinationRouting 5 1 no_routing (\<lambda>_. routing_columns no_routing) sample_db = Inr (routes', db')"
    by (auto simp: SetDestinationRouting_def)
  from routing_round_trip [OF s] s show ?thesis using \<open>NormalizeRoutingRules no_routing = _\<close> by auto
qed

end
