(* ===== verification/Store_Attribution.thy ===== *)
theory Store_Attribution
  imports Store_Snapshots_Laws Model_Attribution
begin

text \<open>
  Crediting the changes of a batch, \<open>internal/store/attribution.go\<close> and the decision whether to look
  at all in \<open>internal/monitor/attribution.go\<close>.

  Before the write transaction \<open>attributionWindow\<close> decides from the stored snapshots whether the
  results can give a change, and how far back the configuration audit log is searched. The lookup
  itself (the network) is an argument; \<open>late\<close> says that it returned after its budget.
\<close>

definition DefaultAttributionBudget :: duration where "DefaultAttributionBudget = 10 * second"
definition AttributionClockSkew :: duration where "AttributionClockSkew = 2 * minute"
definition MaxAttributionWindow :: duration where "MaxAttributionWindow = 24 * hour"
definition AttributionSourceRecheck :: duration where "AttributionSourceRecheck = 6 * hour"

definition AttributionComplete :: string where "AttributionComplete = ''complete''"
definition AttributionUnavailable :: string where "AttributionUnavailable = ''unavailable''"
definition AttributionUnsupported :: string where "AttributionUnsupported = ''unsupported''"

record attribution_window =
  WindowStart :: instant
  WindowEnd :: instant

record attribution_result =
  LookupStatus :: string
  LookupEntries :: "audit_entry list"

record batch_options =
  OptAttribute :: "(attribution_window \<Rightarrow> attribution_result) option"
  OptRemovalLookback :: duration

definition attributionShown :: "string \<Rightarrow> bool" where
  "attributionShown status \<longleftrightarrow> status = AttributionComplete \<or> status = AttributionUnavailable"

definition ChangedBy :: "attribution option \<Rightarrow> string \<Rightarrow> string" where
  "ChangedBy attribution status =
     (case attribution of
        Some a \<Rightarrow> if \<not> IsZero a then Display a else if attributionShown status then ActorUnknown else ''''
      | None \<Rightarrow> if attributionShown status then ActorUnknown else '''')"

subsection \<open>The window\<close>

definition probeSnapshots :: "int \<Rightarrow> string \<Rightarrow> inventory_db \<Rightarrow> (string \<times> string \<times> int) list" where
  "probeSnapshots gen c db =
     map (\<lambda>r. (SnapID r, SnapHash r, SnapMissing r)) (filter (\<lambda>r. SnapGen r = gen \<and> SnapColl r = c) (Snapshots db))"

definition removalGuardSince :: "int \<Rightarrow> string \<Rightarrow> inventory_db \<Rightarrow> instant" where
  "removalGuardSince gen c db =
     (case GuardSince db c of
        None \<Rightarrow> zero_time
      | Some (marked, since) \<Rightarrow> if marked \<noteq> gen then zero_time else since)"

text \<open>The loop over the resources: whether one is new or different, and the snapshots left over.\<close>

fun probe_resources ::
  "(resource \<times> string \<times> string) list \<Rightarrow> (string \<times> string \<times> int) list \<Rightarrow> bool \<times> (string \<times> string \<times> int) list" where
  "probe_resources [] stored = (False, stored)"
| "probe_resources ((resource, raw, hash) # rs) stored =
     (let differs = (case map_of stored (ResID resource) of None \<Rightarrow> True | Some (h, _) \<Rightarrow> h \<noteq> hash);
          (changed, rest) = probe_resources rs (filter (\<lambda>(i, _). i \<noteq> ResID resource) stored)
      in (differs \<or> changed, rest))"

text \<open>How far back one result needs the audit log, if at all.\<close>

definition result_since ::
  "int \<Rightarrow> duration \<Rightarrow> instant \<Rightarrow> inventory_db \<Rightarrow> collected \<Rightarrow> (string \<times> string) list \<Rightarrow> instant option" where
  "result_since gen removalLookback now db result forms =
     (if \<not> usable result then None
      else
        (case coll_of gen (CollName result) db of
           None \<Rightarrow> None
         | Some state \<Rightarrow>
             if \<not> CBaseline state then None
             else
               (let (changed, rest) = probe_resources (zip (CollResources result) forms) (probeSnapshots gen (CollName result) db);
                    removal = (\<not> CollPartial result \<and> list_ex (\<lambda>(_, _, missing). 1 \<le> missing) rest);
                    since0 = (case CLastSuccess state of None \<Rightarrow> now - MaxAttributionWindow | Some t \<Rightarrow> t);
                    guarded = removalGuardSince gen (CollName result) db;
                    since1 = (if removal \<and> guarded \<noteq> zero_time \<and> guarded < since0 then guarded else since0);
                    since2 = since1 - AttributionClockSkew
                in if \<not> changed \<and> \<not> removal then None
                   else Some (if removal then since2 - max removalLookback 0 else since2))))"

fun window_start :: "int \<Rightarrow> duration \<Rightarrow> instant \<Rightarrow> inventory_db \<Rightarrow> (collected \<times> (string \<times> string) list) list
    \<Rightarrow> instant \<times> bool \<Rightarrow> instant \<times> bool" where
  "window_start gen removalLookback now db [] acc = acc"
| "window_start gen removalLookback now db ((result, forms) # rest) (start, needed) =
     window_start gen removalLookback now db rest
       (case result_since gen removalLookback now db result forms of
          None \<Rightarrow> (start, needed)
        | Some since \<Rightarrow> (if start = zero_time \<or> since < start then since else start, True))"

definition attributionWindow ::
  "int \<Rightarrow> collected list \<Rightarrow> (string \<times> string) list list \<Rightarrow> duration \<Rightarrow> instant \<Rightarrow> inventory_db \<Rightarrow> attribution_window option" where
  "attributionWindow gen results forms removalLookback now db =
     (let (start, needed) = window_start gen removalLookback now db (zip results forms) (zero_time, False);
          end_time = now + AttributionClockSkew
      in if \<not> needed then None
         else Some \<lparr> WindowStart = max start (end_time - MaxAttributionWindow), WindowEnd = end_time \<rparr>)"

subsection \<open>The lookup\<close>

definition no_lookup :: attribution_result where
  "no_lookup = \<lparr> LookupStatus = '''', LookupEntries = [] \<rparr>"

definition trusted_result :: "bool \<Rightarrow> attribution_result \<Rightarrow> attribution_result" where
  "trusted_result late result =
     (let known = (LookupStatus result = AttributionComplete \<or> LookupStatus result = AttributionUnsupported);
          status = (if \<not> known \<or> late \<and> LookupStatus result = AttributionComplete then AttributionUnavailable
                    else LookupStatus result)
      in \<lparr> LookupStatus = status,
           LookupEntries = (if status = AttributionComplete then LookupEntries result else []) \<rparr>)"

definition lookupAttribution ::
  "int \<Rightarrow> collected list \<Rightarrow> (string \<times> string) list list \<Rightarrow> batch_options \<Rightarrow> bool \<Rightarrow> instant \<Rightarrow> inventory_db
     \<Rightarrow> attribution_result \<times> attribution_window" where
  "lookupAttribution gen results forms options late now db =
     (let nothing = (no_lookup, \<lparr> WindowStart = zero_time, WindowEnd = zero_time \<rparr>)
      in case OptAttribute options of
           None \<Rightarrow> nothing
         | Some attribute \<Rightarrow>
             (case attributionWindow gen results forms (OptRemovalLookback options) now db of
                None \<Rightarrow> nothing
              | Some window \<Rightarrow> (trusted_result late (attribute window), window)))"

definition attributeChange ::
  "recorded_change \<Rightarrow> attribution_result \<Rightarrow> attribution_window \<Rightarrow> instant \<Rightarrow> string list \<Rightarrow> attribution option" where
  "attributeChange entry lookup window observed related =
     (if LookupStatus lookup \<noteq> AttributionComplete \<or> LookupEntries lookup = [] then None
      else
        (let entries = filter (\<lambda>e. \<not> EventTime e < WindowStart window) (LookupEntries lookup);
             attribute = (\<lambda>not_after. Attribute (RecChange entry) (SVRaw (RecBefore entry)) (SVRaw (RecAfter entry))
                            entries not_after related)
         in case attribute observed of
              Some a \<Rightarrow> Some a
            | None \<Rightarrow> attribute (observed + AttributionClockSkew)))"

subsection \<open>The source\<close>

record attribution_source =
  SourceGeneration :: int
  SourceScopes :: string
  SourceState :: string
  SourceReason :: string
  SourceChecked :: instant
  SourceNext :: instant

definition Checked :: "attribution_source \<Rightarrow> int \<Rightarrow> string \<Rightarrow> bool" where
  "Checked source gen scopes \<longleftrightarrow> SourceState source \<noteq> '''' \<and> SourceGeneration source = gen \<and> SourceScopes source = scopes"

definition AttributionSourceSupported :: string where "AttributionSourceSupported = ''supported''"
definition AttributionSourceUnsupported :: string where "AttributionSourceUnsupported = ''unsupported''"
definition AttributionSourceFailing :: string where "AttributionSourceFailing = ''failing''"

text \<open>The row written, decoded; \<open>None\<close> is the error of an invalid state.\<close>

definition RecordAttributionSource :: "attribution_source \<Rightarrow> attribution_source option" where
  "RecordAttributionSource source =
     (if SourceState source \<in> {AttributionSourceSupported, AttributionSourceUnsupported, AttributionSourceFailing}
      then Some (source\<lparr>SourceReason := truncate_text (trim_space (SourceReason source)) 160\<rparr>) else None)"

text \<open>\<open>batchOptions\<close> of the monitor: whether the log is asked, and the removal lookback. The state of
  the source is \<open>None\<close> when reading it failed.\<close>

definition source_rests :: "attribution_source option \<Rightarrow> int \<Rightarrow> string \<Rightarrow> instant \<Rightarrow> bool" where
  "source_rests source gen scopes now =
     (case source of
        None \<Rightarrow> False
      | Some s \<Rightarrow> Checked s gen scopes \<and> SourceState s = AttributionSourceUnsupported \<and> now < SourceNext s)"

definition removal_lookback :: "duration \<Rightarrow> duration \<Rightarrow> string list \<Rightarrow> duration" where
  "removal_lookback deviceInterval inventoryInterval polled =
     fold (\<lambda>c lookback. max lookback (if c = ''devices'' then deviceInterval else inventoryInterval)) polled 0"

definition batchOptions ::
  "bool \<Rightarrow> (attribution_window \<Rightarrow> attribution_result) \<Rightarrow> attribution_source option \<Rightarrow> int \<Rightarrow> string
     \<Rightarrow> duration \<Rightarrow> duration \<Rightarrow> instant \<Rightarrow> string list \<Rightarrow> batch_options" where
  "batchOptions client attribute source gen scopes deviceInterval inventoryInterval now polled =
     (if \<not> client \<or> source_rests source gen scopes now then \<lparr> OptAttribute = None, OptRemovalLookback = 0 \<rparr>
      else \<lparr> OptAttribute = Some attribute,
             OptRemovalLookback = removal_lookback deviceInterval inventoryInterval polled \<rparr>)"

text \<open>
  What the lookup of the monitor answers, and the state of the source it records, from the answer of the
  configuration audit log. \<open>timed_out\<close> says that the context of the lookup had ended.
\<close>

datatype audit_answer = AuditEntries "audit_entry list" | AuditUnsupported string | AuditFailed string

definition configLookup ::
  "int \<Rightarrow> string \<Rightarrow> instant \<Rightarrow> bool \<Rightarrow> audit_answer \<Rightarrow> attribution_result \<times> attribution_source" where
  "configLookup gen scopes now timed_out answer =
     (let recorded = (\<lambda>state reason next. \<lparr> SourceGeneration = gen, SourceScopes = scopes, SourceState = state,
                        SourceReason = reason, SourceChecked = now, SourceNext = next \<rparr>)
      in case answer of
           AuditEntries entries \<Rightarrow>
             (\<lparr> LookupStatus = AttributionComplete, LookupEntries = entries \<rparr>, recorded AttributionSourceSupported '''' zero_time)
         | AuditUnsupported reason \<Rightarrow>
             (\<lparr> LookupStatus = AttributionUnsupported, LookupEntries = [] \<rparr>,
              recorded AttributionSourceUnsupported reason (now + AttributionSourceRecheck))
         | AuditFailed reason \<Rightarrow>
             (\<lparr> LookupStatus = AttributionUnavailable, LookupEntries = [] \<rparr>,
              recorded AttributionSourceFailing (if timed_out then ''timeout'' else reason) zero_time))"

text \<open>An unsupported audit log rests until its recheck, for this generation and these scopes only.\<close>

lemma unsupported_rests:
  assumes "configLookup gen scopes now timed_out (AuditUnsupported reason) = (result, source)"
    and "RecordAttributionSource source = Some stored" and "later < now + AttributionSourceRecheck"
  shows "source_rests (Some stored) gen' scopes' later \<longleftrightarrow> gen' = gen \<and> scopes' = scopes"
  using assms by (auto simp: configLookup_def source_rests_def RecordAttributionSource_def Checked_def
      AttributionSourceUnsupported_def)

subsection \<open>Every change is looked up\<close>

lemma map_of_probe:
  "map_of (probeSnapshots gen c db) i = map_option (\<lambda>r. (SnapHash r, SnapMissing r)) (snap_of gen c i db)"
proof -
  have "map_of (map (\<lambda>r. (SnapID r, SnapHash r, SnapMissing r)) (filter (\<lambda>r. SnapGen r = gen \<and> SnapColl r = c) rows)) i
      = map_option (\<lambda>r. (SnapHash r, SnapMissing r)) (List.find (is_snap gen c i) rows)" for rows
    by (induction rows) (auto simp: is_snap_def)
  then show ?thesis by (simp add: probeSnapshots_def snap_of_def)
qed

lemma map_of_without: "i \<noteq> j \<Longrightarrow> map_of (filter (\<lambda>(k, _). k \<noteq> j) stored) i = map_of stored i"
  by (induction stored) auto

lemma probe_changed:
  assumes "(resource, raw, hash) \<in> set rs" and "distinct (map (\<lambda>x. ResID (fst x)) rs)"
    and "\<forall>m. map_of stored (ResID resource) \<noteq> Some (hash, m)"
  shows "fst (probe_resources rs stored)"
  using assms
proof (induction rs arbitrary: stored)
  case (Cons x rs)
  obtain r0 raw0 hash0 where x: "x = (r0, raw0, hash0)" by (cases x)
  show ?case
  proof (cases "x = (resource, raw, hash)")
    case True
    then show ?thesis using Cons.prems(3)
      by (cases "map_of stored (ResID resource)") (auto simp: Let_def case_prod_beta)
  next
    case False
    with Cons.prems(1,2) have "(resource, raw, hash) \<in> set rs" "ResID resource \<noteq> ResID r0" by (auto simp: x image_iff)
    with Cons.IH [of "filter (\<lambda>(i, _). i \<noteq> ResID r0) stored"] Cons.prems(2,3) show ?thesis
      by (simp add: x Let_def case_prod_beta map_of_without)
  qed
qed simp

lemma probe_rest: "snd (probe_resources rs stored) = filter (\<lambda>(i, _). i \<notin> (\<lambda>x. ResID (fst x)) ` set rs) stored"
proof (induction rs arbitrary: stored)
  case (Cons x rs)
  have "filter (\<lambda>(i, _). i \<notin> (\<lambda>x. ResID (fst x)) ` set rs) (filter (\<lambda>(i, _). i \<noteq> ResID (fst x)) stored) =
      filter (\<lambda>(i, _). i \<notin> (\<lambda>x. ResID (fst x)) ` set (x # rs)) stored"
    unfolding filter_filter by (rule filter_cong) auto
  then show ?case by (cases x) (simp add: Cons.IH Let_def case_prod_beta)
qed (simp add: case_prod_beta)

lemma difference_collector: "rc \<in> set (difference_of c resource oldRaw oldValue raw hash) \<Longrightarrow> ChangeCollector (RecChange rc) = c"
  by (auto simp: difference_of_def changed_change_def Let_def split: if_splits)

lemma comparable_same: "comparable_row c (SnapHash r) r =
    Some (SnapJSON r, SnapHash r, existingStoredValue (SnapJSON r) (SnapHash r) (SnapBytes r) (SnapTruncated r))"
  by (simp add: comparable_row_def Let_def)

lemma drift_differs:
  assumes "rc \<in> set (drift gen c absorb db (resource, raw, hash))"
  shows "\<forall>m. map_of (probeSnapshots gen c db) (ResID resource) \<noteq> Some (hash, m)" and "ChangeCollector (RecChange rc) = c"
proof -
  show "\<forall>m. map_of (probeSnapshots gen c db) (ResID resource) \<noteq> Some (hash, m)"
  proof (cases "snap_of gen c (ResID resource) db")
    case (Some r)
    have "SnapHash r \<noteq> hash" using assms comparable_same [of c r] by (auto simp: drift_def Some)
    then show ?thesis by (simp add: map_of_probe Some)
  qed (simp add: map_of_probe)
  show "ChangeCollector (RecChange rc) = c"
  proof (cases "snap_of gen c (ResID resource) db")
    case None
    then show ?thesis using assms by (auto simp: drift_def created_change_def split: if_splits)
  next
    case (Some r)
    then show ?thesis using assms difference_collector
      by (cases "comparable_row c hash r") (auto simp: drift_def split: if_splits)
  qed
qed

lemma zip_ids: "length forms = length rs \<Longrightarrow> map (\<lambda>x. ResID (fst x)) (zip rs forms) = map ResID rs"
  by (induction forms rs rule: list_induct2) simp_all

lemma removal_pending:
  assumes "rc \<in> set (removals env db result)" and "length forms = length (CollResources result)"
  shows "\<not> CollPartial result"
    and "list_ex (\<lambda>(_, _, missing). 1 \<le> missing) (snd (probe_resources (zip (CollResources result) forms)
           (probeSnapshots (BatchGen env) (CollName result) db)))"
    and "collector_baseline (BatchGen env) (CollName result) db" and "ChangeCollector (RecChange rc) = CollName result"
proof -
  let ?c = "CollName result"
  have open_guard: "\<not> fst (massRemovalGuard env result (seen_ids result) db)" and base: "collector_baseline (BatchGen env) ?c db"
    and r: "\<exists>r \<in> set (omitted (BatchGen env) ?c (seen_ids result) db). 2 \<le> SnapMissing r + 1 \<and> rc = removal_of ?c r"
    using assms(1) by (auto simp: removals_def Let_def split: if_splits)
  show "\<not> CollPartial result" using open_guard guard_partial by fastforce
  show "collector_baseline (BatchGen env) ?c db" by (rule base)
  obtain r where r': "r \<in> set (omitted (BatchGen env) ?c (seen_ids result) db)" "2 \<le> SnapMissing r + 1" "rc = removal_of ?c r"
    using r by blast
  then show "ChangeCollector (RecChange rc) = ?c" by (simp add: removal_of_def removed_change_def)
  have "(\<lambda>x. ResID (fst x)) ` set (zip (CollResources result) forms) = set (seen_ids result)"
    using arg_cong [OF zip_ids [OF assms(2)], of set] by (simp add: seen_ids_def)
  with r' show "list_ex (\<lambda>(_, _, missing). 1 \<le> missing) (snd (probe_resources (zip (CollResources result) forms)
           (probeSnapshots (BatchGen env) ?c db)))"
    by (fastforce simp: probe_rest probeSnapshots_def omitted_def list_ex_iff)
qed

lemma result_searched:
  assumes rc: "rc \<in> set (collector_changes env db result forms)" and u: "usable result"
    and ids: "distinct (map ResID (CollResources result))" and len: "length forms = length (CollResources result)"
  shows "ChangeCollector (RecChange rc) = CollName result
    \<and> (\<exists>since state. result_since (BatchGen env) lookback now db result forms = Some since
         \<and> coll_of (BatchGen env) (CollName result) db = Some state
         \<and> (\<forall>t. CLastSuccess state = Some t \<longrightarrow> since \<le> t - AttributionClockSkew))"
proof -
  let ?g = "BatchGen env" and ?c = "CollName result"
  let ?p = "probe_resources (zip (CollResources result) forms) (probeSnapshots ?g ?c db)"
  let ?removal = "\<not> CollPartial result \<and> list_ex (\<lambda>(_, _, missing). 1 \<le> missing) (snd ?p)"
  have base: "collector_baseline ?g ?c db" and found: "fst ?p \<or> ?removal" and name: "ChangeCollector (RecChange rc) = ?c"
  proof -
    consider (drift) resource raw hash absorb where "(resource, raw, hash) \<in> set (zip (CollResources result) forms)"
        "rc \<in> set (drift ?g ?c absorb db (resource, raw, hash))" "collector_baseline ?g ?c db"
      | (removed) "rc \<in> set (removals env db result)"
      using rc by (auto simp: collector_changes_def Let_def split: if_splits)
    then have "collector_baseline ?g ?c db \<and> (fst ?p \<or> ?removal) \<and> ChangeCollector (RecChange rc) = ?c"
    proof cases
      case drift
      have "map (\<lambda>x. ResID (fst x)) (zip (CollResources result) forms) = map ResID (CollResources result)"
        by (rule zip_ids [OF len])
      then have "fst ?p" using probe_changed [OF drift(1) _ drift_differs(1) [OF drift(2)]] ids by simp
      with drift drift_differs(2) [OF drift(2)] show ?thesis by blast
    next
      case removed
      then show ?thesis using removal_pending [OF removed len] by blast
    qed
    then show "collector_baseline ?g ?c db" "fst ?p \<or> ?removal" "ChangeCollector (RecChange rc) = ?c" by blast+
  qed
  obtain state where state: "coll_of ?g ?c db = Some state" "CBaseline state"
    using base by (auto simp: collector_baseline_def split: option.splits)
  with found u show ?thesis
    by (auto simp: result_since_def Let_def case_prod_beta name)
qed

lemma window_start_keeps:
  assumes "\<forall>x \<in> set ps. result_since gen lookback now db (fst x) (snd x) \<noteq> Some zero_time"
    and "start \<noteq> zero_time"
  shows "fst (window_start gen lookback now db ps (start, True)) \<le> start
    \<and> snd (window_start gen lookback now db ps (start, True))"
  using assms
proof (induction ps arbitrary: start)
  case (Cons p ps)
  obtain result forms where p: "p = (result, forms)" by (cases p)
  show ?case
  proof (cases "result_since gen lookback now db result forms")
    case None
    with Cons show ?thesis by (simp add: p)
  next
    case (Some since)
    have "since \<noteq> zero_time" using Cons.prems(1) Some by (auto simp: p)
    with Cons.IH [of "if since < start then since else start"] Cons.prems Some show ?thesis
      by (auto simp: p split: if_splits)
  qed
qed simp

lemma window_start_covers:
  assumes "\<forall>x \<in> set ps. result_since gen lookback now db (fst x) (snd x) \<noteq> Some zero_time"
    and "(result, forms) \<in> set ps" and "result_since gen lookback now db result forms = Some since"
  shows "fst (window_start gen lookback now db ps (start, needed)) \<le> since
    \<and> snd (window_start gen lookback now db ps (start, needed))"
  using assms
proof (induction ps arbitrary: start needed)
  case (Cons p ps)
  show ?case
  proof (cases "p = (result, forms)")
    case True
    let ?start = "if start = zero_time \<or> since < start then since else start"
    have "since \<noteq> zero_time" using Cons.prems(1,3) True by auto
    then have "?start \<noteq> zero_time" "?start \<le> since" by auto
    with window_start_keeps [of ps gen lookback now db ?start] Cons.prems True show ?thesis by auto
  next
    case False
    obtain r fs where p: "p = (r, fs)" by (cases p)
    show ?thesis
    proof (cases "result_since gen lookback now db r fs")
      case None
      then show ?thesis using Cons False by (auto simp: p)
    next
      case (Some s)
      then show ?thesis using Cons False by (auto simp: p)
    qed
  qed
qed simp

subsection \<open>Properties\<close>

text \<open>
  C20. No change escapes the search. If a batch records a change, the probe before it (on the same
  inventory) asks for the audit log, and the window searched reaches back to the last success of the
  collector of that change, less the tolerance of the clocks, or for the 24 hours before the end of the
  window, whichever is later. The exception are searches that would begin at the zero time.
\<close>
theorem changes_are_searched:
  assumes "canonicalizeResults results = Some forms"
    and "apply_results env results forms (start_batch db) = Some a"
    and "distinct (map CollName results)"
    and "\<forall>result \<in> set results. usable result \<longrightarrow> distinct (map ResID (CollResources result))"
    and "\<forall>x \<in> set (zip results forms). result_since (BatchGen env) lookback now db (fst x) (snd x) \<noteq> Some zero_time"
    and "rc \<in> set (Recorded a)"
  shows "\<exists>w state. attributionWindow (BatchGen env) results forms lookback now db = Some w
    \<and> WindowEnd w = now + AttributionClockSkew
    \<and> coll_of (BatchGen env) (ChangeCollector (RecChange rc)) db = Some state
    \<and> (\<forall>t. CLastSuccess state = Some t \<longrightarrow>
         WindowStart w \<le> max (t - AttributionClockSkew) (WindowEnd w - MaxAttributionWindow))"
proof -
  obtain result where r: "result \<in> set results" "usable result"
      "rc \<in> set (collector_changes env db result (forms_of result))"
    using assms(6) batch_changes [OF assms(1-4)] by (auto split: if_splits)
  obtain fs where fs: "(result, fs) \<in> set (zip results forms)"
    using in_zip_left [OF canonical_lengths(1) [OF assms(1)] r(1)] by blast
  have f: "fs = forms_of result" "length fs = length (CollResources result)"
    using canonical_forms [OF assms(1) fs r(2)] canonical_lengths(2) [OF assms(1)] fs r(2) by auto
  have ids: "distinct (map ResID (CollResources result))" using assms(4) r(1,2) by blast
  obtain since state where s: "ChangeCollector (RecChange rc) = CollName result"
      "result_since (BatchGen env) lookback now db result fs = Some since"
      "coll_of (BatchGen env) (CollName result) db = Some state"
      "\<forall>t. CLastSuccess state = Some t \<longrightarrow> since \<le> t - AttributionClockSkew"
    using result_searched [OF r(3) [folded f(1)] r(2) ids f(2)] by blast
  from window_start_covers [OF assms(5) fs s(2), of zero_time False] s show ?thesis
    by (auto simp: attributionWindow_def Let_def case_prod_beta)
qed

text \<open>
  A credit is inside the window and never stolen by a later edit. If a change is credited, the
  lookup was complete and the credit is that of a successful entry between the start of the window and
  the tolerance after the fetch; and an entry after the fetch is credited only if no entry in the
  window at or before the fetch explains the change.
\<close>
theorem credit_in_window:
  assumes "attributeChange entry lookup window observed related = Some credit"
    and "observed \<noteq> zero_time" and "observed + AttributionClockSkew \<noteq> zero_time"
  shows "LookupStatus lookup = AttributionComplete
    \<and> (\<exists>e \<in> set (LookupEntries lookup). credit = NewAttribution e \<and> \<not> Failed e
         \<and> WindowStart window \<le> EventTime e \<and> EventTime e \<le> observed + AttributionClockSkew
         \<and> (observed < EventTime e \<longrightarrow> (\<forall>other \<in> set (LookupEntries lookup). WindowStart window \<le> EventTime other \<longrightarrow>
              \<not> explains (RecChange entry)
                  (resourceIDs (RecChange entry) (SVRaw (RecBefore entry) # SVRaw (RecAfter entry) # related))
                  (shareInviteIDs (RecChange entry)) observed other)))"
proof -
  define shares where "shares = shareInviteIDs (RecChange entry)"
  define ids where "ids = resourceIDs (RecChange entry) (SVRaw (RecBefore entry) # SVRaw (RecAfter entry) # related)"
  let ?entries = "filter (\<lambda>e. \<not> EventTime e < WindowStart window) (LookupEntries lookup)"
  let ?at = "\<lambda>t. Attribute (RecChange entry) (SVRaw (RecBefore entry)) (SVRaw (RecAfter entry)) ?entries t related"
  have best: "case ?at t of
        None \<Rightarrow> \<not> list_ex (explains (RecChange entry) ids shares t) ?entries
      | Some c \<Rightarrow> \<exists>e \<in> set ?entries. c = NewAttribution e \<and> \<not> Failed e \<and> (t = zero_time \<or> EventTime e \<le> t)" for t
    using attribute_best [of "RecChange entry" "SVRaw (RecBefore entry)" "SVRaw (RecAfter entry)" related t ?entries]
    by (auto simp: shares_def ids_def Let_def split: option.splits)
  have skew: "0 < AttributionClockSkew" by (simp add: AttributionClockSkew_def duration_defs)
  have complete: "LookupStatus lookup = AttributionComplete" and
    c: "(case ?at observed of Some a \<Rightarrow> Some a | None \<Rightarrow> ?at (observed + AttributionClockSkew)) = Some credit"
    using assms(1) by (auto simp: attributeChange_def Let_def split: if_splits)
  show ?thesis
  proof (cases "?at observed")
    case None
    then have "\<forall>other \<in> set (LookupEntries lookup). WindowStart window \<le> EventTime other \<longrightarrow>
        \<not> explains (RecChange entry) ids shares observed other"
      using best [of observed] by (auto simp: list_ex_iff)
    moreover have "?at (observed + AttributionClockSkew) = Some credit" using c None by simp
    ultimately show ?thesis using best [of "observed + AttributionClockSkew"] assms(3) complete by (auto simp: shares_def ids_def)
  next
    case (Some a)
    then have "a = credit" using c by simp
    with Some best [of observed] assms(2) complete skew show ?thesis by fastforce
  qed
qed

subsection \<open>The properties at a concrete input\<close>

theorem changes_are_searched_witness:
  "\<exists>w. attributionWindow 1 [sample_result []] [[]] 0 100 (sample_inventory [sample_snap ''u1'' 1]) = Some w
    \<and> WindowEnd w = 100 + AttributionClockSkew"
proof -
  let ?db = "sample_inventory [sample_snap ''u1'' 1]"
  obtain a where a: "apply_results sample_batch [sample_result []] [[]] (start_batch ?db) = Some a"
    using sample_empty_batch(2) by blast
  have u: "\<forall>result \<in> set [sample_result []]. usable result \<longrightarrow> distinct (map ResID (CollResources result))"
    and d: "distinct (map CollName [sample_result []])" by (simp_all add: sample_result_def)
  have g: "BatchGen sample_batch = 1" by (simp add: sample_batch_def)
  have "Recorded a = collector_changes sample_batch ?db (sample_result []) []"
    using batch_changes [OF sample_empty_batch(1) a d u] by (simp add: sample_result_def usable_def forms_of_def)
  then obtain rc where rc: "rc \<in> set (Recorded a)"
    using sample_empty_changes by (cases "Recorded a") auto
  have "result_since 1 0 100 ?db (sample_result []) [] \<noteq> Some zero_time" by code_simp
  then have "\<forall>x \<in> set (zip [sample_result []] [[]]).
      result_since (BatchGen sample_batch) 0 100 ?db (fst x) (snd x) \<noteq> Some zero_time" by (simp add: g)
  from changes_are_searched [OF sample_empty_batch(1) a d u this rc] show ?thesis by (auto simp: g)
qed

theorem credit_in_window_witness:
  "attributeChange \<lparr> RecChange = sample_change, RecBefore = zero_value, RecAfter = zero_value \<rparr>
     \<lparr> LookupStatus = ''complete'', LookupEntries = [sample_entry False] \<rparr> \<lparr> WindowStart = 1, WindowEnd = 100 \<rparr> 9 []
       = Some (NewAttribution (sample_entry False))
   \<and> (\<exists>e \<in> set [sample_entry False]. NewAttribution (sample_entry False) = NewAttribution e \<and> 1 \<le> EventTime e)"
proof -
  have a: "attributeChange \<lparr> RecChange = sample_change, RecBefore = zero_value, RecAfter = zero_value \<rparr>
     \<lparr> LookupStatus = ''complete'', LookupEntries = [sample_entry False] \<rparr> \<lparr> WindowStart = 1, WindowEnd = 100 \<rparr> 9 []
       = Some (NewAttribution (sample_entry False))"
    by code_simp
  have z: "(9 :: int) \<noteq> zero_time" "9 + AttributionClockSkew \<noteq> zero_time" by code_simp+
  from credit_in_window [OF a z] a show ?thesis by simp
qed

end
