(* ===== verification/Evidence_Keys.thy ===== *)
theory Evidence_Keys
  imports Secret GoTime
begin

text \<open>
  Key material of the evidence ledger (\<open>internal/store/signing.go\<close>): its text forms, the fingerprint of a
  public key, and the loading or creation of the signing key. Ed25519 is a parameter: a signature is a
  function of the private key and the message, a verification a test of the public key, the message and
  the signature.
\<close>

type_synonym ed25519_sign = "string \<Rightarrow> string \<Rightarrow> string"
type_synonym ed25519_verify = "string \<Rightarrow> string \<Rightarrow> string \<Rightarrow> bool"

subsection \<open>Text forms\<close>

text \<open>The padded encodings: a full last group, in which up to two digits are padding.\<close>

definition b64_body :: "string \<Rightarrow> string" where
  "b64_body t =
     (if has_suffix t ''=='' then take (length t - 2) t else if has_suffix t ''='' then take (length t - 1) t else t)"

definition b64_decode_padded :: "bool \<Rightarrow> string \<Rightarrow> string option" where
  "b64_decode_padded url s =
     (let t = filter (\<lambda>c. byte_of c \<noteq> 10 \<and> byte_of c \<noteq> 13) s
      in if length t mod 4 \<noteq> 0 then None else b64_decode url (b64_body t))"

definition sized :: "nat \<Rightarrow> string option \<Rightarrow> string option" where
  "sized n d = (case d of None \<Rightarrow> None | Some t \<Rightarrow> if length t = n then Some t else None)"

definition decodeKeyMaterial :: "string \<Rightarrow> nat \<Rightarrow> string option" where
  "decodeKeyMaterial value bytes =
     (let v = trim_space value;
          forms = [b64_decode False v, b64_decode_padded False v, b64_decode True v, b64_decode_padded True v,
                   hex_decode v]
      in case List.find (\<lambda>d. sized bytes d \<noteq> None) forms of None \<Rightarrow> None | Some d \<Rightarrow> d)"

definition maxEvidencePublicKeyBytes :: nat where "maxEvidencePublicKeyBytes = 4096"

text \<open>\<open>ed25519.PublicKeySize\<close>, \<open>PrivateKeySize\<close> and \<open>SignatureSize\<close>\<close>

definition PublicKeySize :: nat where "PublicKeySize = 32"
definition PrivateKeySize :: nat where "PrivateKeySize = 64"
definition SignatureSize :: nat where "SignatureSize = 64"

definition ParseEvidencePublicKey :: "string \<Rightarrow> string option" where
  "ParseEvidencePublicKey raw =
     (if maxEvidencePublicKeyBytes < length raw then None
      else if length raw = PublicKeySize then Some raw
      else decodeKeyMaterial raw PublicKeySize)"

definition evidenceKeyID :: "string \<Rightarrow> string" where
  "evidenceKeyID public = ''ed25519:'' @ hex_encode (take 16 (sha256 public))"

subsection \<open>The signing key\<close>

record evidence_key =
  PrivateKey :: string
  PublicKey :: string
  KeyID :: string

definition evidenceSigningPrivateKeyMeta :: string where "evidenceSigningPrivateKeyMeta = ''evidence_signing_private_key_enc''"

definition metaBinding :: "string \<Rightarrow> string" where
  "metaBinding key = ''meta.value:'' @ key"

text \<open>\<open>ed25519.PrivateKey.Public\<close>: the second half of the private key.\<close>

definition key_public :: "string \<Rightarrow> string" where
  "key_public private = drop 32 private"

text \<open>The three rows of \<open>meta\<close>, each present or not.\<close>

record key_rows =
  PrivateRow :: "string option"
  PublicRow :: "string option"
  KeyIDRow :: "string option"

datatype key_error = KeyIncomplete | KeyDecrypt secret_error | KeyDecode | KeyMismatch | KeyFingerprint

definition create_key :: "gcm_seal \<Rightarrow> string \<Rightarrow> string \<Rightarrow> string \<Rightarrow> key_error + (evidence_key \<times> key_rows)" where
  "create_key gseal nonce public private =
     (case Seal gseal (metaBinding evidenceSigningPrivateKeyMeta) (b64_encode False private) nonce of
        Inl e \<Rightarrow> Inl (KeyDecrypt e)
      | Inr envelope \<Rightarrow>
          Inr (\<lparr> PrivateKey = private, PublicKey = public, KeyID = evidenceKeyID public \<rparr>,
               \<lparr> PrivateRow = Some envelope, PublicRow = Some (b64_encode False public),
                 KeyIDRow = Some (evidenceKeyID public) \<rparr>))"

definition load_key :: "gcm_open \<Rightarrow> string \<Rightarrow> string \<Rightarrow> string \<Rightarrow> key_error + evidence_key" where
  "load_key gopen envelope publicEncoded keyID =
     (case Open gopen (metaBinding evidenceSigningPrivateKeyMeta) envelope of
        Inl e \<Rightarrow> Inl (KeyDecrypt e)
      | Inr privateEncoded \<Rightarrow>
          (case (decodeKeyMaterial privateEncoded PrivateKeySize, decodeKeyMaterial publicEncoded PublicKeySize) of
             (Some private, Some public) \<Rightarrow>
               if key_public private \<noteq> public then Inl KeyMismatch
               else if keyID \<noteq> evidenceKeyID public then Inl KeyFingerprint
               else Inr \<lparr> PrivateKey = private, PublicKey = public, KeyID = keyID \<rparr>
           | _ \<Rightarrow> Inl KeyDecode))"

text \<open>\<open>generated\<close> is the key pair drawn if there is none, with the nonce of its envelope.\<close>

definition loadOrCreateEvidenceSigningKey ::
  "gcm_seal \<Rightarrow> gcm_open \<Rightarrow> string \<Rightarrow> string \<times> string \<Rightarrow> key_rows \<Rightarrow> key_error + (evidence_key \<times> key_rows)" where
  "loadOrCreateEvidenceSigningKey gseal gopen nonce generated rows =
     (case (PrivateRow rows, PublicRow rows, KeyIDRow rows) of
        (None, None, None) \<Rightarrow> create_key gseal nonce (fst generated) (snd generated)
      | (Some envelope, Some public, Some keyID) \<Rightarrow>
          (case load_key gopen envelope public keyID of Inl e \<Rightarrow> Inl e | Inr key \<Rightarrow> Inr (key, rows))
      | _ \<Rightarrow> Inl KeyIncomplete)"

subsection \<open>Laws\<close>

lemma trim_b64: "trim_space (b64_encode url s) = b64_encode url s"
proof (rule trim_space_plain)
  have "\<forall>d < 64. 32 < byte_of (b64_digit url d) \<and> byte_of (b64_digit url d) < 128"
    by (auto simp: b64_digit_def byte_of_char_of)
  then show "\<forall>c \<in> set (b64_encode url s). 32 < byte_of c \<and> byte_of c < 128"
    using b64_digits_less by (fastforce simp: b64_encode_digits)
qed

lemma key_material_round_trip: "length s = n \<Longrightarrow> decodeKeyMaterial (b64_encode False s) n = Some s"
  by (simp add: decodeKeyMaterial_def trim_b64 b64_round_trip sized_def Let_def)

lemma key_material_length: "decodeKeyMaterial v n = Some k \<Longrightarrow> length k = n"
  by (auto simp: decodeKeyMaterial_def Let_def sized_def find_Some_iff split: option.splits if_splits)

lemma public_key_length: "ParseEvidencePublicKey raw = Some public \<Longrightarrow> length public = PublicKeySize"
  by (auto simp: ParseEvidencePublicKey_def key_material_length split: if_splits)

lemma key_id_length: "length (evidenceKeyID public) = 40"
  by (simp add: evidenceKeyID_def length_hex_encode length_sha256)

text \<open>A stored key that loads is a matching pair with its own fingerprint.\<close>

lemma load_key_pair:
  assumes "load_key gopen envelope publicEncoded keyID = Inr key"
  shows "length (PrivateKey key) = PrivateKeySize" and "length (PublicKey key) = PublicKeySize"
    and "key_public (PrivateKey key) = PublicKey key" and "KeyID key = evidenceKeyID (PublicKey key)"
  using assms by (auto simp: load_key_def key_material_length split: sum.splits option.splits if_splits)

text \<open>What is created is found again by the next start, unchanged; nothing is ever overwritten.\<close>

lemma created_key_loads:
  assumes "gcm_correct gseal gopen" and "length nonce = nonce_size"
    and "length private = PrivateKeySize" and "length public = PublicKeySize" and "key_public private = public"
    and "create_key gseal nonce public private = Inr (key, rows)"
  shows "loadOrCreateEvidenceSigningKey gseal gopen nonce' generated rows = Inr (key, rows)"
proof -
  let ?b = "metaBinding evidenceSigningPrivateKeyMeta"
  have b: "?b \<noteq> ''''" by (simp add: metaBinding_def)
  have key: "key = \<lparr> PrivateKey = private, PublicKey = public, KeyID = evidenceKeyID public \<rparr>"
    and rows: "rows = \<lparr> PrivateRow = Some (seal_envelope gseal envelopeVersionV2 (v2AdditionalData ?b) (b64_encode False private) nonce),
        PublicRow = Some (b64_encode False public), KeyIDRow = Some (evidenceKeyID public) \<rparr>"
    using assms(6) b by (auto simp: create_key_def Seal_def split: sum.splits if_splits)
  have "Open gopen ?b (seal_envelope gseal envelopeVersionV2 (v2AdditionalData ?b) (b64_encode False private) nonce)
      = Inr (b64_encode False private)"
    using assms(1) open_v2 [OF assms(2) b] by (simp add: gcm_correct_def)
  then show ?thesis
    by (simp add: loadOrCreateEvidenceSigningKey_def rows key load_key_def key_material_round_trip assms)
qed

end
