(* ===== verification/Store_Ledger.thy ===== *)
theory Store_Ledger
  imports Evidence_Keys Model_Attribution Leased_Queue
begin

text \<open>
  The history of changes and its evidence ledger (\<open>internal/store/signing.go\<close>, with the statements of
  \<open>snapshots.go\<close> that insert a batch and those of \<open>status.go\<close> that remove expired history).

  A batch of changes, its events and the webhook triggers it answers are rows of three tables. The
  ledger has one row for each batch: the SHA-256 of a domain, the hash of the row before and the
  canonical JSON of the batch, signed with Ed25519. Rows of the ledger outlive their batch.

  Times of observation are text, as they are stored and hashed; a NULL value of an event is the empty
  string. The rows of \<open>meta\<close> that the ledger uses are kept decoded.
\<close>

subsection \<open>Tables\<close>

record batch_row =
  BatchRowID :: int
  BatchRowGen :: int
  BatchObserved :: string
  BatchChanges :: int
  BatchCreated :: string
  BatchTrigger :: "int option"
  BatchAttribution :: string

record event_row =
  EventID :: int
  EventBatch :: "int option"
  EventGen :: int
  EventObserved :: string
  EventColl :: string
  EventType :: string
  EventRes :: string
  EventName :: string
  EventChanges :: string
  EventBefore :: string
  EventAfter :: string
  EventBeforeHash :: string
  EventAfterHash :: string
  EventBeforeBytes :: int
  EventAfterBytes :: int
  EventBeforeTruncated :: bool
  EventAfterTruncated :: bool
  EventSeverity :: string
  EventMuted :: bool
  EventAttribution :: string

record ledger_row =
  LedgerSequence :: int
  LedgerBatchID :: int
  LedgerGen :: int
  LedgerObserved :: string
  PrevHash :: string
  EntryHash :: string
  LedgerSignature :: string
  LedgerKeyID :: string
  LedgerCreated :: string

record history_db =
  EventBatches :: "batch_row list"
  NextBatch :: int
  BatchTriggers :: "(int \<times> int) list"
  Events :: "event_row list"
  NextEvent :: int
  Ledger :: "ledger_row list"
  NextSequence :: int
  LedgerHead :: "string option"
  BackfillCutoff :: "int option"
  BackfillCursor :: "int option"
  Backfilled :: bool

text \<open>\<open>formatTimestamp\<close> and \<open>observationBound\<close> of \<open>timestamps.go\<close>.\<close>

definition formatTimestamp :: "instant \<Rightarrow> string" where
  "formatTimestamp t =
     (let whole = rfc3339 t in take (length whole - 1) whole @ ''.'' @ padded 9 (t mod second) @ ''Z'')"

definition observationBound :: "instant \<Rightarrow> string" where
  "observationBound t = (let whole = rfc3339 t in take (length whole - 1) whole)"

subsection \<open>The canonical payload of a batch\<close>

record ledger_event =
  LeID :: int
  LeGen :: int
  LeObserved :: string
  LeCollector :: string
  LeType :: string
  LeResource :: string
  LeName :: string
  LeChanges :: string
  LeBefore :: string
  LeAfter :: string
  LeMuted :: bool
  LeAttribution :: "attribution option"

record ledger_batch =
  LbID :: int
  LbGen :: int
  LbObserved :: string
  LbChanges :: int
  LbTrigger :: int
  LbTriggers :: "int list"
  LbEvents :: "ledger_event list"

text \<open>\<open>json.Marshal\<close> of a struct: its members in their order, each already encoded.\<close>

definition struct_text :: "(string \<times> string) list \<Rightarrow> string" where
  "struct_text members = ''{'' @ join '','' (map (\<lambda>(k, v). quote_text k @ '':'' @ v) members) @ ''}''"

definition array_text :: "string list \<Rightarrow> string" where
  "array_text items = ''['' @ join '','' items @ '']''"

definition omit_empty :: "string \<Rightarrow> string \<Rightarrow> (string \<times> string) list" where
  "omit_empty k v = (if v = '''' then [] else [(k, quote_text v)])"

definition evidenceLedgerEvent :: "ledger_event \<Rightarrow> string" where
  "evidenceLedgerEvent e = struct_text
     ([(''id'', int_text (LeID e)), (''generation'', int_text (LeGen e)), (''observed_at'', quote_text (LeObserved e)),
       (''collector'', quote_text (LeCollector e)), (''event_type'', quote_text (LeType e)),
       (''resource_id'', quote_text (LeResource e)), (''name'', quote_text (LeName e))] @
      omit_empty ''changes'' (LeChanges e) @ omit_empty ''before'' (LeBefore e) @ omit_empty ''after'' (LeAfter e) @
      (if LeMuted e then [(''muted'', ''true'')] else []) @
      (case LeAttribution e of None \<Rightarrow> [] | Some a \<Rightarrow> [(''attribution'', marshal (JObj (attribution_members a)))]))"

definition evidenceLedgerBatch :: "ledger_batch \<Rightarrow> string" where
  "evidenceLedgerBatch b = struct_text
     ([(''batch_id'', int_text (LbID b)), (''generation'', int_text (LbGen b)),
       (''observed_at'', quote_text (LbObserved b)), (''change_count'', int_text (LbChanges b))] @
      (if LbTrigger b = 0 then [] else [(''trigger_id'', int_text (LbTrigger b))]) @
      (if LbTriggers b = [] then [] else [(''trigger_ids'', array_text (map int_text (LbTriggers b)))]) @
      [(''events'', if LbEvents b = [] then ''null'' else array_text (map evidenceLedgerEvent (LbEvents b)))])"

definition ledger_event_of :: "event_row \<Rightarrow> ledger_event" where
  "ledger_event_of e =
     \<lparr> LeID = EventID e, LeGen = EventGen e, LeObserved = EventObserved e, LeCollector = EventColl e,
       LeType = EventType e, LeResource = EventRes e, LeName = EventName e, LeChanges = EventChanges e,
       LeBefore = EventBefore e, LeAfter = EventAfter e, LeMuted = EventMuted e,
       LeAttribution = UnmarshalAttribution (EventAttribution e) \<rparr>"

text \<open>The rows a payload is made of, and the payload; \<open>None\<close> is \<open>sql.ErrNoRows\<close>.\<close>

definition batch_of :: "int \<Rightarrow> history_db \<Rightarrow> batch_row option" where
  "batch_of i db = List.find (\<lambda>b. BatchRowID b = i) (EventBatches db)"

definition triggers_of :: "int \<Rightarrow> history_db \<Rightarrow> int list" where
  "triggers_of i db = map snd (filter (\<lambda>(b, _). b = i) (BatchTriggers db))"

definition events_of :: "int \<Rightarrow> history_db \<Rightarrow> event_row list" where
  "events_of i db = filter (\<lambda>e. EventBatch e = Some i) (Events db)"

definition evidenceLedgerPayload :: "int \<Rightarrow> history_db \<Rightarrow> (string \<times> ledger_batch) option" where
  "evidenceLedgerPayload i db =
     (case batch_of i db of
        None \<Rightarrow> None
      | Some b \<Rightarrow>
          (let trigger = (case BatchTrigger b of None \<Rightarrow> 0 | Some t \<Rightarrow> t);
               linked = filter (\<lambda>t. 0 < t) (sort (triggers_of i db));
               triggers = (if linked = [] \<and> 0 < trigger then [trigger] else linked);
               batch = \<lparr> LbID = BatchRowID b, LbGen = BatchRowGen b, LbObserved = BatchObserved b,
                         LbChanges = BatchChanges b, LbTrigger = trigger, LbTriggers = triggers,
                         LbEvents = map ledger_event_of (events_of i db) \<rparr>
           in Some (evidenceLedgerBatch batch, batch)))"

subsection \<open>Appending\<close>

definition newline :: string where "newline = [CHR 0x0A]"

definition evidenceLedgerDomain :: string where "evidenceLedgerDomain = ''tailstate-evidence-ledger-v1'' @ newline"

text \<open>What is hashed, and the digest.\<close>

definition ledger_input :: "string \<Rightarrow> string \<Rightarrow> string" where
  "ledger_input previous payload = evidenceLedgerDomain @ previous @ newline @ payload"

definition ledgerDigest :: "string \<Rightarrow> string \<Rightarrow> string" where
  "ledgerDigest previous payload = sha256 (ledger_input previous payload)"

definition ledgerHeadTx :: "history_db \<Rightarrow> string" where
  "ledgerHeadTx db =
     (if Ledger db \<noteq> [] then EntryHash (last (Ledger db)) else case LedgerHead db of None \<Rightarrow> '''' | Some h \<Rightarrow> h)"

text \<open>\<open>None\<close> is an error: the batch does not exist, or the entry hash is not unique.\<close>

definition appendEvidenceLedgerTx :: "ed25519_sign \<Rightarrow> evidence_key \<Rightarrow> instant \<Rightarrow> int \<Rightarrow> history_db \<Rightarrow> history_db option" where
  "appendEvidenceLedgerTx sign key now batchID db =
     (if list_ex (\<lambda>r. LedgerBatchID r = batchID) (Ledger db) then Some db
      else
        (case evidenceLedgerPayload batchID db of
           None \<Rightarrow> None
         | Some (payload, batch) \<Rightarrow>
             (let previous = ledgerHeadTx db;
                  digest = ledgerDigest previous payload;
                  entryHash = hex_encode digest;
                  row = \<lparr> LedgerSequence = NextSequence db, LedgerBatchID = batchID, LedgerGen = LbGen batch,
                          LedgerObserved = LbObserved batch, PrevHash = previous, EntryHash = entryHash,
                          LedgerSignature = b64_encode False (sign (PrivateKey key) digest),
                          LedgerKeyID = KeyID key, LedgerCreated = formatTimestamp now \<rparr>
              in if list_ex (\<lambda>r. EntryHash r = entryHash) (Ledger db) then None
                 else Some (db\<lparr>Ledger := Ledger db @ [row], NextSequence := NextSequence db + 1,
                               LedgerHead := Some entryHash\<rparr>))))"

subsection \<open>Inserting a batch\<close>

text \<open>The statements of \<open>recordChangeBatch\<close> and \<open>insertEvent\<close>. An event is given without its id and batch.\<close>

definition insertBatch :: "int \<Rightarrow> string \<Rightarrow> int \<Rightarrow> int option \<Rightarrow> string \<Rightarrow> history_db \<Rightarrow> history_db" where
  "insertBatch gen observed changes trigger status db =
     db\<lparr>EventBatches := EventBatches db @
          [\<lparr> BatchRowID = NextBatch db, BatchRowGen = gen, BatchObserved = observed, BatchChanges = changes,
             BatchCreated = observed, BatchTrigger = trigger, BatchAttribution = status \<rparr>],
        NextBatch := NextBatch db + 1\<rparr>"

definition linkTrigger :: "int \<Rightarrow> int \<Rightarrow> history_db \<Rightarrow> history_db" where
  "linkTrigger batchID trigger db =
     (if (batchID, trigger) \<in> set (BatchTriggers db) then db
      else db\<lparr>BatchTriggers := BatchTriggers db @ [(batchID, trigger)]\<rparr>)"

definition insertEventRow :: "int \<Rightarrow> event_row \<Rightarrow> history_db \<Rightarrow> history_db" where
  "insertEventRow batchID e db =
     db\<lparr>Events := Events db @ [e\<lparr>EventID := NextEvent db, EventBatch := Some batchID\<rparr>], NextEvent := NextEvent db + 1\<rparr>"

definition recordHistory ::
  "ed25519_sign \<Rightarrow> evidence_key \<Rightarrow> instant \<Rightarrow> int \<Rightarrow> string \<Rightarrow> int option \<Rightarrow> int list \<Rightarrow> string \<Rightarrow> event_row list
     \<Rightarrow> history_db \<Rightarrow> history_db option" where
  "recordHistory sign key now gen observed trigger triggerIDs status events db =
     (let batchID = NextBatch db;
          db1 = insertBatch gen observed (int (length events)) trigger status db;
          db2 = fold (linkTrigger batchID) triggerIDs db1;
          db3 = fold (insertEventRow batchID) events db2
      in appendEvidenceLedgerTx sign key now batchID db3)"

subsection \<open>Back-filling after a migration\<close>

definition evidenceLedgerBackfillChunkSize :: nat where "evidenceLedgerBackfillChunkSize = 64"

text \<open>A batch is eligible if all of its events are there.\<close>

definition backfill_eligible :: "int \<Rightarrow> int \<Rightarrow> history_db \<Rightarrow> batch_row \<Rightarrow> bool" where
  "backfill_eligible cutoff cursor db b \<longleftrightarrow>
     cursor < BatchRowID b \<and> 0 < BatchChanges b \<and> BatchChanges b = int (length (events_of (BatchRowID b) db))
     \<and> (0 < cutoff \<longrightarrow> BatchRowID b \<le> cutoff)"

definition backfill_chunk :: "int \<Rightarrow> int \<Rightarrow> history_db \<Rightarrow> int list" where
  "backfill_chunk cutoff cursor db =
     map BatchRowID (select_limit evidenceLedgerBackfillChunkSize (backfill_eligible cutoff cursor db) (EventBatches db))"

fun append_all :: "ed25519_sign \<Rightarrow> evidence_key \<Rightarrow> instant \<Rightarrow> int list \<Rightarrow> history_db \<Rightarrow> history_db option" where
  "append_all sign key now [] db = Some db"
| "append_all sign key now (i # ids) db =
     (case appendEvidenceLedgerTx sign key now i db of None \<Rightarrow> None | Some db' \<Rightarrow> append_all sign key now ids db')"

lemma append_tables:
  assumes "appendEvidenceLedgerTx sign key now i db = Some db'"
  shows "EventBatches db' = EventBatches db" and "BatchTriggers db' = BatchTriggers db" and "Events db' = Events db"
    and "NextBatch db' = NextBatch db" and "NextEvent db' = NextEvent db"
  using assms by (auto simp: appendEvidenceLedgerTx_def Let_def split: option.splits if_splits)

lemma append_all_tables:
  assumes "append_all sign key now ids db = Some db'"
  shows "EventBatches db' = EventBatches db \<and> BatchTriggers db' = BatchTriggers db \<and> Events db' = Events db"
  using assms
proof (induction ids arbitrary: db)
  case (Cons i ids)
  then obtain d where "appendEvidenceLedgerTx sign key now i db = Some d" "append_all sign key now ids d = Some db'"
    by (auto split: option.splits)
  with Cons.IH [of d] append_tables [of sign key now i db d] show ?case by simp
qed simp

lemma chunk_in: "i \<in> set (backfill_chunk cutoff cursor db) \<Longrightarrow>
    \<exists>b \<in> set (EventBatches db). BatchRowID b = i \<and> backfill_eligible cutoff cursor db b"
  by (auto simp: backfill_chunk_def select_limit_def dest!: in_set_takeD)

text \<open>The loop, from the stored cursor; the flag is false if it stopped at an error.\<close>

function backfillEvidenceLedgerUpTo ::
  "ed25519_sign \<Rightarrow> evidence_key \<Rightarrow> instant \<Rightarrow> int \<Rightarrow> int \<Rightarrow> history_db \<Rightarrow> history_db \<times> bool" where
  "backfillEvidenceLedgerUpTo sign key now cutoff cursor db =
     (let ids = backfill_chunk cutoff cursor db
      in if ids = [] then (db\<lparr>BackfillCursor := None\<rparr>, True)
         else
           (case append_all sign key now ids db of
              None \<Rightarrow> (db, False)
            | Some db' \<Rightarrow>
                backfillEvidenceLedgerUpTo sign key now cutoff (last ids) (db'\<lparr>BackfillCursor := Some (last ids)\<rparr>)))"
  by pat_completeness auto
termination
proof (relation "measure (\<lambda>(sign, key, now, cutoff, cursor, db). length (filter (\<lambda>b. cursor < BatchRowID b) (EventBatches db)))")
  fix sign :: ed25519_sign and key :: evidence_key and now cutoff cursor db ids db'
  assume ids: "ids = backfill_chunk cutoff cursor db" "ids \<noteq> []"
    and step: "append_all sign key now ids db = Some db'"
  obtain b where b: "b \<in> set (EventBatches db)" "BatchRowID b = last ids" "cursor < last ids"
    using chunk_in [of "last ids" cutoff cursor db] ids by (auto simp: backfill_eligible_def)
  let ?later = "\<lambda>c. filter (\<lambda>b. c < BatchRowID b) (EventBatches db)"
  have "?later (last ids) = filter (\<lambda>b. last ids < BatchRowID b) (?later cursor)" using b(3) by (auto intro!: filter_cong)
  moreover have "b \<in> set (?later cursor)" using b by simp
  ultimately have "length (?later (last ids)) < length (?later cursor)"
    using length_filter_less [of b "?later cursor" "\<lambda>b. last ids < BatchRowID b"] b(2) by simp
  then show "((sign, key, now, cutoff, last ids, db'\<lparr>BackfillCursor := Some (last ids)\<rparr>), (sign, key, now, cutoff, cursor, db))
      \<in> measure (\<lambda>(sign, key, now, cutoff, cursor, db). length (filter (\<lambda>b. cursor < BatchRowID b) (EventBatches db)))"
    using append_all_tables [OF step] by simp
qed simp

declare backfillEvidenceLedgerUpTo.simps [simp del]

text \<open>At start-up: at most once, and only up to the boundary that a migration has set.\<close>

definition backfillEvidenceLedgerOnStartup :: "ed25519_sign \<Rightarrow> evidence_key \<Rightarrow> instant \<Rightarrow> history_db \<Rightarrow> history_db \<times> bool" where
  "backfillEvidenceLedgerOnStartup sign key now db =
     (if Backfilled db then (db, True)
      else
        (let cutoff = (case BackfillCutoff db of None \<Rightarrow> 0 | Some c \<Rightarrow> c);
             db1 = db\<lparr>BackfillCutoff := Some cutoff\<rparr>;
             cursor = (case BackfillCursor db of None \<Rightarrow> 0 | Some c \<Rightarrow> c)
         in if cutoff < 0 then (db, False)
            else if 0 < cutoff then
              (if cursor < 0 then (db1, False)
               else
                 (case backfillEvidenceLedgerUpTo sign key now cutoff cursor db1 of
                    (db2, True) \<Rightarrow> (db2\<lparr>Backfilled := True\<rparr>, True)
                  | (db2, False) \<Rightarrow> (db2, False)))
            else (db1\<lparr>Backfilled := True\<rparr>, True)))"

end
