(* ===== verification/Store_Retention.thy ===== *)
theory Store_Retention
  imports Store_Ledger
begin

text \<open>
  Retention of the history (\<open>internal/store/status.go\<close>): the phases of \<open>cleanupPhases\<close> on
  \<open>event_batches\<close>, \<open>events\<close> and \<open>event_batch_triggers\<close>, and the control of a pass
  (\<open>runCleanupPhase\<close>, \<open>CleanupWithOptions\<close>). The ledger is not among the tables cleaned up.

  The clock is read before each transaction; a transaction either commits, or is rolled back because it
  overran its budget, failed or was cancelled. Which of them, and the times read, are arguments.
\<close>

subsection \<open>The phases of the history\<close>

definition oldest_expired :: "string \<Rightarrow> nat \<Rightarrow> history_db \<Rightarrow> (int \<times> nat) list" where
  "oldest_expired cutoff n db =
     map (\<lambda>b. (BatchRowID b, length (events_of (BatchRowID b) db)))
       (take n (sort_stable (\<lambda>a b. BatchObserved a < BatchObserved b)
          (filter (\<lambda>b. BatchObserved b < cutoff) (EventBatches db))))"

text \<open>Batches are taken while their events fit; the oldest is always taken.\<close>

fun fitting :: "nat \<Rightarrow> nat \<Rightarrow> (int \<times> nat) list \<Rightarrow> int list" where
  "fitting n selected [] = []"
| "fitting n selected ((i, c) # rest) = (if n < selected + c then [] else i # fitting n (selected + c) rest)"

definition expired_batches :: "nat \<Rightarrow> (int \<times> nat) list \<Rightarrow> int list" where
  "expired_batches n candidates =
     (case candidates of [] \<Rightarrow> [] | (i, c) # rest \<Rightarrow> i # fitting n c rest)"

definition delete_batch :: "int \<Rightarrow> history_db \<Rightarrow> history_db" where
  "delete_batch i db =
     db\<lparr>Events := filter (\<lambda>e. EventBatch e \<noteq> Some i) (Events db),
        EventBatches := filter (\<lambda>b. BatchRowID b \<noteq> i) (EventBatches db)\<rparr>"

text \<open>The database and the number of events and batches removed.\<close>

definition deleteExpiredBatches :: "string \<Rightarrow> nat \<Rightarrow> history_db \<Rightarrow> history_db \<times> nat" where
  "deleteExpiredBatches cutoff n db =
     (let ids = expired_batches n (oldest_expired cutoff n db);
          db' = fold delete_batch ids db
      in (db', (length (Events db) - length (Events db')) + length ids))"

definition batch_exists :: "int \<Rightarrow> history_db \<Rightarrow> bool" where
  "batch_exists i db \<longleftrightarrow> list_ex (\<lambda>b. BatchRowID b = i) (EventBatches db)"

definition orphaned :: "string \<Rightarrow> history_db \<Rightarrow> event_row \<Rightarrow> bool" where
  "orphaned cutoff db e \<longleftrightarrow>
     EventObserved e < cutoff \<and> (case EventBatch e of None \<Rightarrow> True | Some i \<Rightarrow> \<not> batch_exists i db)"

definition deleteOrphanEvents :: "string \<Rightarrow> nat \<Rightarrow> history_db \<Rightarrow> history_db \<times> nat" where
  "deleteOrphanEvents cutoff n db =
     (let gone = map EventID (take n (sort_stable (\<lambda>a b. EventObserved a < EventObserved b)
                   (filter (orphaned cutoff db) (Events db))))
      in (db\<lparr>Events := filter (\<lambda>e. EventID e \<notin> set gone) (Events db)\<rparr>, length gone))"

text \<open>Links of batches that are gone, below the first batch that is kept.\<close>

definition first_kept :: "string \<Rightarrow> history_db \<Rightarrow> int" where
  "first_kept cutoff db =
     (case sort_stable (\<lambda>a b. BatchObserved a < BatchObserved b)
             (filter (\<lambda>b. \<not> BatchObserved b < cutoff) (EventBatches db)) of
        [] \<Rightarrow> 9223372036854775807
      | b # _ \<Rightarrow> BatchRowID b)"

definition link_less :: "int \<times> int \<Rightarrow> int \<times> int \<Rightarrow> bool" where
  "link_less l m \<longleftrightarrow> fst l < fst m \<or> fst l = fst m \<and> snd l < snd m"

definition deleteTriggerLinks :: "string \<Rightarrow> nat \<Rightarrow> history_db \<Rightarrow> history_db \<times> nat" where
  "deleteTriggerLinks cutoff n db =
     (let gone = take n (sort_stable link_less
                   (filter (\<lambda>(b, _). b < first_kept cutoff db \<and> \<not> batch_exists b db) (BatchTriggers db)))
      in (db\<lparr>BatchTriggers := filter (\<lambda>l. l \<notin> set gone) (BatchTriggers db)\<rparr>, length gone))"

subsection \<open>A pass\<close>

datatype cleanup_outcome = CleanupDone | CleanupDeferred | CleanupOutOfBudget

datatype transaction_end = Committed | Overrun | Failed | Cancelled

text \<open>
  The budget of a pass: its deadline, the budget of a transaction, that of the escalated retry, and
  whether the retry is spent.
\<close>

record cleanup_budget =
  Deadline :: instant
  TransactionBudget :: duration
  EscalationBudget :: duration
  Escalated :: bool
  CleanupBatchSize :: nat

text \<open>
  A phase: one transaction of at most a number of rows, and whether its oldest candidate is oversized
  (\<open>None\<close> for a phase that is a single statement).
\<close>

record 'db cleanup_phase =
  PhaseStep :: "nat \<Rightarrow> 'db \<Rightarrow> 'db \<times> nat"
  PhaseOversized :: "(nat \<Rightarrow> 'db \<Rightarrow> bool) option"

definition escalationDue :: "'db cleanup_phase \<Rightarrow> cleanup_budget \<Rightarrow> 'db \<Rightarrow> bool" where
  "escalationDue phase budget db =
     (case PhaseOversized phase of
        None \<Rightarrow> False
      | Some oversized \<Rightarrow>
          if Escalated budget \<or> EscalationBudget budget \<le> TransactionBudget budget then False
          else oversized (CleanupBatchSize budget) db)"

text \<open>
  The loop of a phase. Each element of the list is one round: the clock at its start, how its
  transaction ends, and how long and with what end the escalated retry runs if there is one. A phase that
  is still running when the list ends is the last value, \<open>None\<close>.
\<close>

type_synonym cleanup_round = "instant \<times> transaction_end \<times> duration \<times> transaction_end"

fun runCleanupPhase ::
  "'db cleanup_phase \<Rightarrow> cleanup_round list \<Rightarrow> cleanup_budget \<Rightarrow> 'db
     \<Rightarrow> ('db \<times> cleanup_budget \<times> (unit + cleanup_outcome)) option" where
  "runCleanupPhase phase [] budget db = None"
| "runCleanupPhase phase ((now, ending, took, retried) # rounds) budget db =
     (if ending = Cancelled then Some (db, budget, Inl ())
      else if Deadline budget - now < TransactionBudget budget then Some (db, budget, Inr CleanupOutOfBudget)
      else
        (case ending of
           Committed \<Rightarrow>
             (let (db', changed) = PhaseStep phase (CleanupBatchSize budget) db
              in if changed = 0 then Some (db', budget, Inr CleanupDone)
                 else runCleanupPhase phase rounds budget db')
         | Failed \<Rightarrow> Some (db, budget, Inl ())
         | Cancelled \<Rightarrow> Some (db, budget, Inl ())
         | Overrun \<Rightarrow>
             if \<not> escalationDue phase budget db then Some (db, budget, Inr CleanupDeferred)
             else
               (let budget' = budget\<lparr>Escalated := True, Deadline := Deadline budget + took\<rparr>
                in case retried of
                     Committed \<Rightarrow>
                       (let (db', changed) = PhaseStep phase (CleanupBatchSize budget) db
                        in if changed = 0 then Some (db', budget', Inr CleanupDone)
                           else runCleanupPhase phase rounds budget' db')
                   | Failed \<Rightarrow> Some (db, budget', Inl ())
                   | Cancelled \<Rightarrow> Some (db, budget', Inl ())
                   | Overrun \<Rightarrow> Some (db, budget', Inr CleanupDeferred))))"

text \<open>
  A pass over the phases: the database, whether something remains, and whether it failed. Each phase has
  its own rounds.
\<close>

fun run_phases ::
  "('db cleanup_phase \<times> cleanup_round list) list \<Rightarrow> cleanup_budget \<Rightarrow> 'db \<Rightarrow> ('db \<times> bool \<times> bool) option" where
  "run_phases [] budget db = Some (db, False, True)"
| "run_phases ((phase, rounds) # rest) budget db =
     (case runCleanupPhase phase rounds budget db of
        None \<Rightarrow> None
      | Some (db', budget', Inl _) \<Rightarrow> Some (db', False, False)
      | Some (db', budget', Inr outcome) \<Rightarrow>
          if outcome = CleanupOutOfBudget then Some (db', True, True)
          else map_option (\<lambda>(d, remaining, ok). (d, outcome \<noteq> CleanupDone \<or> remaining, ok)) (run_phases rest budget' db'))"

text \<open>\<open>CleanupOptions\<close>, with the defaults of the service.\<close>

record cleanup_options =
  Retention :: duration
  OptBatchSize :: int
  OptTransactionBudget :: duration
  OptPassBudget :: duration

definition defaultCleanupBatchSize :: int where "defaultCleanupBatchSize = 128"
definition defaultCleanupTransactionBudget :: duration where "defaultCleanupTransactionBudget = 250000000"
definition defaultCleanupPassBudget :: duration where "defaultCleanupPassBudget = 2 * second"

definition cleanup_budget_of :: "instant \<Rightarrow> cleanup_options \<Rightarrow> cleanup_budget" where
  "cleanup_budget_of now options =
     (let rows = (if OptBatchSize options \<le> 0 then defaultCleanupBatchSize else min (OptBatchSize options) 1024);
          transaction = (if OptTransactionBudget options \<le> 0 then defaultCleanupTransactionBudget else OptTransactionBudget options);
          whole = (if OptPassBudget options \<le> 0 then defaultCleanupPassBudget else OptPassBudget options)
      in \<lparr> Deadline = now + whole, TransactionBudget = transaction, EscalationBudget = whole,
           Escalated = False, CleanupBatchSize = nat rows \<rparr>)"

text \<open>The phases of \<open>cleanupPhases\<close> on the history, in their order.\<close>

definition history_phases :: "instant \<Rightarrow> duration \<Rightarrow> history_db cleanup_phase list" where
  "history_phases now retention =
     (let cutoff = observationBound (now - retention)
      in [\<lparr> PhaseStep = deleteExpiredBatches cutoff,
            PhaseOversized = Some (\<lambda>n db. case oldest_expired cutoff 1 db of [] \<Rightarrow> False | (_, c) # _ \<Rightarrow> n < c) \<rparr>,
          \<lparr> PhaseStep = deleteOrphanEvents cutoff, PhaseOversized = None \<rparr>,
          \<lparr> PhaseStep = deleteTriggerLinks cutoff, PhaseOversized = None \<rparr>])"

definition CleanupWithOptions ::
  "instant \<Rightarrow> cleanup_options \<Rightarrow> (nat \<Rightarrow> cleanup_round list) \<Rightarrow> history_db \<Rightarrow> (history_db \<times> bool \<times> bool) option" where
  "CleanupWithOptions now options rounds db =
     run_phases (map (\<lambda>(i, phase). (phase, rounds i)) (enumerate 0 (history_phases now (Retention options))))
       (cleanup_budget_of now options) db"

end
