(* ===== verification/Store_Ledger_Laws.thy ===== *)
theory Store_Ledger_Laws
  imports Store_Retention
begin

text \<open>
  The evidence ledger is a chain that grows only at its end, and no operation on the history falsifies
  an entry: neither recording, nor back-filling, nor retention.
\<close>

subsection \<open>Well-formed histories\<close>

definition payload_of :: "int \<Rightarrow> history_db \<Rightarrow> string option" where
  "payload_of i db = map_option fst (evidenceLedgerPayload i db)"

fun ledger_chain :: "string \<Rightarrow> ledger_row list \<Rightarrow> bool" where
  "ledger_chain previous [] \<longleftrightarrow> True"
| "ledger_chain previous (r # rs) \<longleftrightarrow> PrevHash r = previous \<and> ledger_chain (EntryHash r) rs"

definition signed_entry :: "ed25519_sign \<Rightarrow> evidence_key \<Rightarrow> ledger_row \<Rightarrow> bool" where
  "signed_entry sign key r \<longleftrightarrow>
     LedgerKeyID r = KeyID key \<and>
     (\<exists>payload. EntryHash r = hex_encode (ledgerDigest (PrevHash r) payload)
        \<and> LedgerSignature r = b64_encode False (sign (PrivateKey key) (ledgerDigest (PrevHash r) payload)))"

text \<open>An entry is true of the history: the batch it names is gone, or hashes to the entry.\<close>

definition entry_true :: "history_db \<Rightarrow> ledger_row \<Rightarrow> bool" where
  "entry_true db r \<longleftrightarrow>
     (case payload_of (LedgerBatchID r) db of
        None \<Rightarrow> True
      | Some payload \<Rightarrow> EntryHash r = hex_encode (ledgerDigest (PrevHash r) payload))"

definition history_wf :: "history_db \<Rightarrow> bool" where
  "history_wf db \<longleftrightarrow>
     0 < NextBatch db \<and> sorted_wrt (\<lambda>a b. BatchRowID a < BatchRowID b) (EventBatches db)
     \<and> (\<forall>b \<in> set (EventBatches db). 0 < BatchRowID b \<and> BatchRowID b < NextBatch db)
     \<and> (\<forall>l \<in> set (BatchTriggers db). fst l < NextBatch db)
     \<and> (\<forall>e \<in> set (Events db). \<forall>i. EventBatch e = Some i \<longrightarrow> i < NextBatch db)
     \<and> distinct (map EventID (Events db)) \<and> (\<forall>e \<in> set (Events db). EventID e < NextEvent db)"

definition ledger_wf :: "ed25519_sign \<Rightarrow> evidence_key \<Rightarrow> history_db \<Rightarrow> bool" where
  "ledger_wf sign key db \<longleftrightarrow>
     map LedgerSequence (Ledger db) = [1..int (length (Ledger db))] \<and> NextSequence db = int (length (Ledger db)) + 1
     \<and> ledger_chain '''' (Ledger db)
     \<and> LedgerHead db = (if Ledger db = [] then None else Some (EntryHash (last (Ledger db))))
     \<and> distinct (map LedgerBatchID (Ledger db)) \<and> distinct (map EntryHash (Ledger db))
     \<and> (\<forall>r \<in> set (Ledger db). 0 < LedgerBatchID r \<and> LedgerBatchID r < NextBatch db)
     \<and> list_all (signed_entry sign key) (Ledger db) \<and> list_all (entry_true db) (Ledger db)"

definition empty_history :: history_db where
  "empty_history =
     \<lparr> EventBatches = [], NextBatch = 1, BatchTriggers = [], Events = [], NextEvent = 1, Ledger = [], NextSequence = 1,
       LedgerHead = None, BackfillCutoff = None, BackfillCursor = None, Backfilled = False \<rparr>"

lemma empty_history_wf: "history_wf empty_history" "ledger_wf sign key empty_history"
  by (simp_all add: history_wf_def ledger_wf_def empty_history_def)

subsection \<open>The rows of a batch\<close>

lemma find_snoc: "\<not> p x \<Longrightarrow> List.find p (xs @ [x]) = List.find p xs"
  by (induction xs) auto

lemma find_filtered: "(\<And>x. p x \<Longrightarrow> q x) \<Longrightarrow> List.find p (filter q xs) = List.find p xs"
  by (induction xs) auto

lemma payload_rows:
  assumes "batch_of i db' = batch_of i db" and "triggers_of i db' = triggers_of i db" and "events_of i db' = events_of i db"
  shows "payload_of i db' = payload_of i db"
  unfolding payload_of_def evidenceLedgerPayload_def assms ..

lemma payload_gone: "payload_of i db = None \<longleftrightarrow> batch_of i db = None"
  by (cases "batch_of i db") (simp_all add: payload_of_def evidenceLedgerPayload_def Let_def)

lemma batch_of_None: "batch_of i db = None \<longleftrightarrow> \<not> batch_exists i db"
  by (auto simp: batch_of_def batch_exists_def find_None_iff list_ex_iff)

text \<open>A step of the history that touches the ledger nowhere and leaves each batch as it is, or removes it.\<close>

definition history_step :: "history_db \<Rightarrow> history_db \<Rightarrow> bool" where
  "history_step db db' \<longleftrightarrow>
     Ledger db' = Ledger db \<and> NextSequence db' = NextSequence db \<and> LedgerHead db' = LedgerHead db
     \<and> NextBatch db \<le> NextBatch db'
     \<and> (\<forall>i < NextBatch db. payload_of i db' = None \<or> payload_of i db' = payload_of i db)"

lemma history_step_wf: "history_step db db' \<Longrightarrow> ledger_wf sign key db \<Longrightarrow> ledger_wf sign key db'"
  unfolding ledger_wf_def history_step_def list_all_iff entry_true_def
  by (fastforce split: option.splits)

lemma history_step_refl: "history_step db db"
  by (simp add: history_step_def)

lemma history_step_trans: "history_step a b \<Longrightarrow> history_step b c \<Longrightarrow> history_step a c"
  unfolding history_step_def by (metis (no_types, lifting) order.strict_trans2 order.trans)

subsection \<open>Appending\<close>

lemma ledger_chain_append:
  "ledger_chain p (xs @ ys) \<longleftrightarrow> ledger_chain p xs \<and> ledger_chain (if xs = [] then p else EntryHash (last xs)) ys"
  by (induction xs arbitrary: p) auto

lemma append_payload: "appendEvidenceLedgerTx sign key now i db = Some db' \<Longrightarrow> payload_of j db' = payload_of j db"
  using append_tables [of sign key now i db db']
  by (intro payload_rows) (simp_all add: batch_of_def triggers_of_def events_of_def)

lemma append_cases:
  assumes "appendEvidenceLedgerTx sign key now i db = Some db'"
  obtains (present) "db' = db" "list_ex (\<lambda>r. LedgerBatchID r = i) (Ledger db)"
  | (added) payload batch row where "evidenceLedgerPayload i db = Some (payload, batch)"
      "\<not> list_ex (\<lambda>r. LedgerBatchID r = i) (Ledger db)"
      "LedgerSequence row = NextSequence db" "LedgerBatchID row = i" "PrevHash row = ledgerHeadTx db"
      "EntryHash row = hex_encode (ledgerDigest (ledgerHeadTx db) payload)"
      "LedgerSignature row = b64_encode False (sign (PrivateKey key) (ledgerDigest (ledgerHeadTx db) payload))"
      "LedgerKeyID row = KeyID key" "\<not> list_ex (\<lambda>r. EntryHash r = EntryHash row) (Ledger db)"
      "db' = db\<lparr>Ledger := Ledger db @ [row], NextSequence := NextSequence db + 1, LedgerHead := Some (EntryHash row)\<rparr>"
proof (cases "list_ex (\<lambda>r. LedgerBatchID r = i) (Ledger db)")
  case True
  then show ?thesis using assms present by (simp add: appendEvidenceLedgerTx_def)
next
  case False
  then obtain payload batch where p: "evidenceLedgerPayload i db = Some (payload, batch)"
    using assms by (auto simp: appendEvidenceLedgerTx_def split: option.splits)
  define row where "row = \<lparr> LedgerSequence = NextSequence db, LedgerBatchID = i, LedgerGen = LbGen batch,
      LedgerObserved = LbObserved batch, PrevHash = ledgerHeadTx db,
      EntryHash = hex_encode (ledgerDigest (ledgerHeadTx db) payload),
      LedgerSignature = b64_encode False (sign (PrivateKey key) (ledgerDigest (ledgerHeadTx db) payload)),
      LedgerKeyID = KeyID key, LedgerCreated = formatTimestamp now \<rparr>"
  have "\<not> list_ex (\<lambda>r. EntryHash r = EntryHash row) (Ledger db)"
    and "db' = db\<lparr>Ledger := Ledger db @ [row], NextSequence := NextSequence db + 1, LedgerHead := Some (EntryHash row)\<rparr>"
    using assms False p by (auto simp: appendEvidenceLedgerTx_def Let_def row_def split: if_splits)
  then show ?thesis by (intro added [OF p False, of row]) (simp_all add: row_def)
qed

lemma append_wf:
  assumes "appendEvidenceLedgerTx sign key now i db = Some db'" and "ledger_wf sign key db" and "i < NextBatch db"
    and "history_wf db"
  shows "ledger_wf sign key db'" and "history_wf db'" and "NextBatch db' = NextBatch db"
    and "list_ex (\<lambda>r. LedgerBatchID r = i) (Ledger db')"
proof -
  show "history_wf db'" using assms(4) append_tables [OF assms(1)] by (simp add: history_wf_def)
  show "NextBatch db' = NextBatch db" by (rule append_tables(4) [OF assms(1)])
  note payload = append_payload [OF assms(1)]
  show "ledger_wf sign key db'" and "list_ex (\<lambda>r. LedgerBatchID r = i) (Ledger db')"
    using assms(1)
  proof (atomize(full), cases rule: append_cases)
    case present
    then show "ledger_wf sign key db' \<and> list_ex (\<lambda>r. LedgerBatchID r = i) (Ledger db')" using assms(2) by simp
  next
    case (added p batch row)
    have head: "ledgerHeadTx db = (if Ledger db = [] then '''' else EntryHash (last (Ledger db)))"
      using assms(2) by (simp add: ledgerHeadTx_def ledger_wf_def)
    have "batch_of i db \<noteq> None" using added(1) payload_gone [of i db] by (simp add: payload_of_def)
    then have pos: "0 < i" using assms(4) by (auto simp: batch_of_None batch_exists_def history_wf_def list_ex_iff)
    have "signed_entry sign key row" using added by (auto simp: signed_entry_def)
    moreover have "payload_of i db' = Some p" using added(1) payload [of i] by (simp add: payload_of_def)
    then have "entry_true db' row" using added by (simp add: entry_true_def)
    moreover have "entry_true db' = entry_true db" by (simp add: fun_eq_iff entry_true_def payload)
    then have "list_all (entry_true db') (Ledger db)" using assms(2) by (simp add: ledger_wf_def)
    moreover have "[1..int (length (Ledger db)) + 1] = [1..int (length (Ledger db))] @ [int (length (Ledger db)) + 1]"
      by (simp add: upto_rec2)
    ultimately show "ledger_wf sign key db' \<and> list_ex (\<lambda>r. LedgerBatchID r = i) (Ledger db')"
      using assms(2,3) pos added head
      by (auto simp: ledger_wf_def ledger_chain_append list_ex_iff add.commute)
  qed
qed

subsection \<open>Recording\<close>

lemma link_fields:
  "Ledger (fold (linkTrigger n) ts db) = Ledger db \<and> NextSequence (fold (linkTrigger n) ts db) = NextSequence db
   \<and> LedgerHead (fold (linkTrigger n) ts db) = LedgerHead db \<and> NextBatch (fold (linkTrigger n) ts db) = NextBatch db
   \<and> EventBatches (fold (linkTrigger n) ts db) = EventBatches db \<and> Events (fold (linkTrigger n) ts db) = Events db
   \<and> NextEvent (fold (linkTrigger n) ts db) = NextEvent db"
  by (induction ts arbitrary: db) (simp_all add: linkTrigger_def)

lemma link_triggers:
  "set (BatchTriggers (fold (linkTrigger n) ts db)) = set (BatchTriggers db) \<union> (\<lambda>t. (n, t)) ` set ts"
  by (induction ts arbitrary: db) (auto simp: linkTrigger_def)

lemma link_others: "i \<noteq> n \<Longrightarrow> triggers_of i (fold (linkTrigger n) ts db) = triggers_of i db"
proof (induction ts arbitrary: db)
  case (Cons t ts)
  have "triggers_of i (linkTrigger n t db) = triggers_of i db"
    using Cons.prems by (simp add: triggers_of_def linkTrigger_def)
  with Cons show ?case by simp
qed simp

lemma event_fields:
  "Ledger (fold (insertEventRow n) es db) = Ledger db \<and> NextSequence (fold (insertEventRow n) es db) = NextSequence db
   \<and> LedgerHead (fold (insertEventRow n) es db) = LedgerHead db \<and> NextBatch (fold (insertEventRow n) es db) = NextBatch db
   \<and> EventBatches (fold (insertEventRow n) es db) = EventBatches db
   \<and> BatchTriggers (fold (insertEventRow n) es db) = BatchTriggers db"
  by (induction es arbitrary: db) (simp_all add: insertEventRow_def)

lemma events_others: "i \<noteq> n \<Longrightarrow> events_of i (fold (insertEventRow n) es db) = events_of i db"
proof (induction es arbitrary: db)
  case (Cons e es)
  have "events_of i (insertEventRow n e db) = events_of i db"
    using Cons.prems by (simp add: events_of_def insertEventRow_def)
  with Cons show ?case by simp
qed simp

lemma insert_events_wf:
  assumes "distinct (map EventID (Events db))" and "\<forall>e \<in> set (Events db). EventID e < NextEvent db"
    and "\<forall>e \<in> set (Events db). \<forall>i. EventBatch e = Some i \<longrightarrow> i < m" and "n < m"
  shows "distinct (map EventID (Events (fold (insertEventRow n) es db)))
    \<and> (\<forall>e \<in> set (Events (fold (insertEventRow n) es db)). EventID e < NextEvent (fold (insertEventRow n) es db))
    \<and> (\<forall>e \<in> set (Events (fold (insertEventRow n) es db)). \<forall>i. EventBatch e = Some i \<longrightarrow> i < m)"
  using assms
proof (induction es arbitrary: db)
  case (Cons e es)
  have "distinct (map EventID (Events (insertEventRow n e db)))"
    and "\<forall>x \<in> set (Events (insertEventRow n e db)). EventID x < NextEvent (insertEventRow n e db)"
    and "\<forall>x \<in> set (Events (insertEventRow n e db)). \<forall>i. EventBatch x = Some i \<longrightarrow> i < m"
    using Cons.prems by (auto simp: insertEventRow_def)
  from Cons.IH [OF this Cons.prems(4)] show ?case by simp
qed simp

text \<open>The history just before the ledger entry of a new batch.\<close>

definition before_append :: "int \<Rightarrow> string \<Rightarrow> int option \<Rightarrow> int list \<Rightarrow> string \<Rightarrow> event_row list \<Rightarrow> history_db \<Rightarrow> history_db" where
  "before_append gen observed trigger triggerIDs status events db =
     fold (insertEventRow (NextBatch db)) events (fold (linkTrigger (NextBatch db)) triggerIDs
       (insertBatch gen observed (int (length events)) trigger status db))"

lemma recordHistory_append:
  "recordHistory sign key now gen observed trigger triggerIDs status events db =
     appendEvidenceLedgerTx sign key now (NextBatch db) (before_append gen observed trigger triggerIDs status events db)"
  by (simp add: recordHistory_def before_append_def Let_def)

lemmas insert_fields = before_append_def link_fields event_fields insertBatch_def

lemma before_append_rows:
  "Ledger (before_append gen observed trigger triggerIDs status events db) = Ledger db"
  "NextSequence (before_append gen observed trigger triggerIDs status events db) = NextSequence db"
  "LedgerHead (before_append gen observed trigger triggerIDs status events db) = LedgerHead db"
  "NextBatch (before_append gen observed trigger triggerIDs status events db) = NextBatch db + 1"
  by (simp_all add: insert_fields)

lemma before_append_payload:
  assumes i: "i \<noteq> NextBatch db"
  shows "payload_of i (before_append gen observed trigger triggerIDs status events db) = payload_of i db" (is "payload_of i ?d = _")
proof (rule payload_rows)
  show "batch_of i ?d = batch_of i db" using i by (simp add: batch_of_def insert_fields find_snoc)
  show "triggers_of i ?d = triggers_of i db"
    using link_others [OF i, of triggerIDs "insertBatch gen observed (int (length events)) trigger status db"]
    by (simp add: triggers_of_def before_append_def event_fields) (simp add: insertBatch_def)
  have "events_of i ?d = events_of i (fold (linkTrigger (NextBatch db)) triggerIDs
      (insertBatch gen observed (int (length events)) trigger status db))"
    unfolding before_append_def by (rule events_others [OF i])
  then show "events_of i ?d = events_of i db" by (simp add: events_of_def link_fields insertBatch_def)
qed

lemma before_append_wf:
  assumes "history_wf db"
  shows "history_wf (before_append gen observed trigger triggerIDs status events db)"
    and "batch_exists (NextBatch db) (before_append gen observed trigger triggerIDs status events db)"
proof -
  let ?b = "insertBatch gen observed (int (length events)) trigger status db"
  let ?l = "fold (linkTrigger (NextBatch db)) triggerIDs ?b"
  let ?d = "before_append gen observed trigger triggerIDs status events db"
  have rows: "EventBatches ?d = EventBatches ?b" "NextBatch ?d = NextBatch db + 1" "BatchTriggers ?d = BatchTriggers ?l"
    and events: "Events ?l = Events db" "NextEvent ?l = NextEvent db"
    by (simp_all add: insert_fields)
  show "batch_exists (NextBatch db) ?d" by (simp add: batch_exists_def rows insertBatch_def)
  have "\<forall>e \<in> set (Events ?l). \<forall>i. EventBatch e = Some i \<longrightarrow> i < NextBatch db + 1"
    using assms unfolding events history_wf_def by (metis add.commute zless_add1_eq)
  from insert_events_wf [OF _ _ this, of "NextBatch db" events] assms
  have e: "distinct (map EventID (Events ?d)) \<and> (\<forall>e \<in> set (Events ?d). EventID e < NextEvent ?d)
    \<and> (\<forall>e \<in> set (Events ?d). \<forall>i. EventBatch e = Some i \<longrightarrow> i < NextBatch db + 1)"
    unfolding events history_wf_def by (simp add: before_append_def)
  have "fst x < NextBatch db + 1" if "x \<in> set (BatchTriggers ?d)" for x
  proof -
    have "x \<in> set (BatchTriggers db) \<or> fst x = NextBatch db"
      using that link_triggers [of "NextBatch db" triggerIDs ?b] by (auto simp: rows insertBatch_def)
    then show ?thesis using assms by (auto simp: history_wf_def)
  qed
  moreover have "sorted_wrt (\<lambda>a b. BatchRowID a < BatchRowID b) (EventBatches ?d)"
    and "\<forall>b \<in> set (EventBatches ?d). 0 < BatchRowID b \<and> BatchRowID b < NextBatch db + 1"
    using assms by (auto simp: rows insertBatch_def history_wf_def sorted_wrt_append)
  ultimately show "history_wf ?d"
    using assms e unfolding history_wf_def rows(2) by auto
qed

lemma record_wf:
  assumes "recordHistory sign key now gen observed trigger triggerIDs status events db = Some db'"
    and "ledger_wf sign key db" and "history_wf db"
  shows "ledger_wf sign key db'" and "history_wf db'"
proof -
  let ?d = "before_append gen observed trigger triggerIDs status events db"
  have step: "history_step db ?d"
    by (auto simp: history_step_def before_append_rows before_append_payload)
  have "NextBatch db < NextBatch ?d" by (simp add: before_append_rows)
  with append_wf [OF assms(1) [unfolded recordHistory_append] history_step_wf [OF step assms(2)] _ before_append_wf(1) [OF assms(3)]]
  show "ledger_wf sign key db'" "history_wf db'" by blast+
qed

subsection \<open>Back-filling\<close>

lemma append_all_wf:
  assumes "append_all sign key now ids db = Some db'" and "ledger_wf sign key db" and "history_wf db"
    and "\<forall>i \<in> set ids. i < NextBatch db"
  shows "ledger_wf sign key db' \<and> history_wf db' \<and> NextBatch db' = NextBatch db
    \<and> (\<forall>i \<in> set ids. list_ex (\<lambda>r. LedgerBatchID r = i) (Ledger db'))
    \<and> (\<forall>i. list_ex (\<lambda>r. LedgerBatchID r = i) (Ledger db) \<longrightarrow> list_ex (\<lambda>r. LedgerBatchID r = i) (Ledger db'))"
  using assms
proof (induction ids arbitrary: db)
  case (Cons i ids)
  then obtain d where d: "appendEvidenceLedgerTx sign key now i db = Some d" "append_all sign key now ids d = Some db'"
    by (auto split: option.splits)
  have w: "ledger_wf sign key d" "history_wf d" "NextBatch d = NextBatch db" "list_ex (\<lambda>r. LedgerBatchID r = i) (Ledger d)"
    using append_wf [OF d(1) Cons.prems(2) _ Cons.prems(3)] Cons.prems(4) by auto
  have grows: "list_ex (\<lambda>r. LedgerBatchID r = j) (Ledger db) \<longrightarrow> list_ex (\<lambda>r. LedgerBatchID r = j) (Ledger d)" for j
    using d(1) by (cases rule: append_cases) auto
  from Cons.IH [OF d(2) w(1,2)] Cons.prems(4) w(3,4) grows show ?case by auto
qed simp

lemma append_all_entries:
  assumes "append_all sign key now ids db = Some db'" and "list_ex (\<lambda>r. LedgerBatchID r = i) (Ledger db')"
  shows "list_ex (\<lambda>r. LedgerBatchID r = i) (Ledger db) \<or> i \<in> set ids"
  using assms
proof (induction ids arbitrary: db)
  case (Cons j ids)
  then obtain d where d: "appendEvidenceLedgerTx sign key now j db = Some d" "append_all sign key now ids d = Some db'"
    by (auto split: option.splits)
  have "list_ex (\<lambda>r. LedgerBatchID r = i) (Ledger d) \<Longrightarrow> list_ex (\<lambda>r. LedgerBatchID r = i) (Ledger db) \<or> i = j"
    using d(1) by (cases rule: append_cases) auto
  with Cons.IH [OF d(2) Cons.prems(2)] show ?case by auto
qed simp

lemma cursor_only:
  "ledger_wf sign key (db\<lparr>BackfillCursor := c\<rparr>) = ledger_wf sign key db"
  "history_wf (db\<lparr>BackfillCursor := c\<rparr>) = history_wf db"
proof -
  have "payload_of i (db\<lparr>BackfillCursor := c\<rparr>) = payload_of i db" for i
    by (rule payload_rows) (simp_all add: batch_of_def triggers_of_def events_of_def)
  then have "entry_true (db\<lparr>BackfillCursor := c\<rparr>) = entry_true db" by (simp add: fun_eq_iff entry_true_def)
  then show "ledger_wf sign key (db\<lparr>BackfillCursor := c\<rparr>) = ledger_wf sign key db" by (simp add: ledger_wf_def)
qed (simp add: history_wf_def)

lemma eligible_rows:
  assumes "EventBatches db' = EventBatches db" and "Events db' = Events db"
  shows "backfill_eligible cutoff cursor db' = backfill_eligible cutoff cursor db"
  using assms by (simp add: fun_eq_iff backfill_eligible_def events_of_def)

text \<open>The chunks cover the eligible batches, whatever the chunk size, if the rows are in the order of their ids.\<close>

lemma chunk_last:
  assumes "sorted_wrt (\<lambda>a b. BatchRowID a < BatchRowID b) (EventBatches db)"
    and "b \<in> set (EventBatches db)" and "backfill_eligible cutoff cursor db b"
  shows "BatchRowID b \<in> set (backfill_chunk cutoff cursor db)
    \<or> backfill_chunk cutoff cursor db \<noteq> [] \<and> last (backfill_chunk cutoff cursor db) < BatchRowID b"
proof -
  let ?rows = "filter (backfill_eligible cutoff cursor db) (EventBatches db)"
  let ?n = evidenceLedgerBackfillChunkSize
  have s: "sorted_wrt (\<lambda>a b. BatchRowID a < BatchRowID b) ?rows" using assms(1) by (rule sorted_wrt_filter)
  have b: "b \<in> set ?rows" using assms by simp
  then have split: "b \<in> set (take ?n ?rows) \<or> b \<in> set (drop ?n ?rows)"
    by (metis Un_iff append_take_drop_id set_append)
  have "?rows \<noteq> []" using b by (metis empty_iff list.set(1))
  then have "take ?n ?rows \<noteq> []" by (simp add: evidenceLedgerBackfillChunkSize_def)
  moreover have "sorted_wrt (\<lambda>a b. BatchRowID a < BatchRowID b) (take ?n ?rows @ drop ?n ?rows)" using s by simp
  ultimately have "b \<in> set (drop ?n ?rows) \<Longrightarrow> BatchRowID (last (take ?n ?rows)) < BatchRowID b"
    unfolding sorted_wrt_append by simp
  with split \<open>take ?n ?rows \<noteq> []\<close> show ?thesis
    by (auto simp: backfill_chunk_def select_limit_def last_map)
qed

lemma backfill_covers:
  assumes "ledger_wf sign key db" and "history_wf db"
    and "backfillEvidenceLedgerUpTo sign key now cutoff cursor db = (db', ok)"
  shows "ledger_wf sign key db' \<and> history_wf db' \<and> EventBatches db' = EventBatches db
    \<and> (\<forall>i. list_ex (\<lambda>r. LedgerBatchID r = i) (Ledger db) \<longrightarrow> list_ex (\<lambda>r. LedgerBatchID r = i) (Ledger db'))
    \<and> (\<forall>i. list_ex (\<lambda>r. LedgerBatchID r = i) (Ledger db') \<longrightarrow> list_ex (\<lambda>r. LedgerBatchID r = i) (Ledger db)
          \<or> (\<exists>b \<in> set (EventBatches db). BatchRowID b = i \<and> backfill_eligible cutoff cursor db b))
    \<and> (ok \<longrightarrow> (\<forall>b \<in> set (EventBatches db). backfill_eligible cutoff cursor db b \<longrightarrow>
          list_ex (\<lambda>r. LedgerBatchID r = BatchRowID b) (Ledger db')))"
  using assms
proof (induction sign key now cutoff cursor db rule: backfillEvidenceLedgerUpTo.induct)
  case (1 sign key now cutoff cursor db)
  let ?ids = "backfill_chunk cutoff cursor db"
  have sorted: "sorted_wrt (\<lambda>a b. BatchRowID a < BatchRowID b) (EventBatches db)"
    using "1.prems"(2) by (simp add: history_wf_def)
  show ?case
  proof (cases "?ids = []")
    case True
    then have "db' = db\<lparr>BackfillCursor := None\<rparr>"
      using "1.prems"(3) by (subst (asm) backfillEvidenceLedgerUpTo.simps) (simp add: Let_def)
    moreover have "\<not> backfill_eligible cutoff cursor db b" if "b \<in> set (EventBatches db)" for b
      using chunk_last [OF sorted that, of cutoff cursor] True by auto
    ultimately show ?thesis using "1.prems" by (simp add: cursor_only)
  next
    case False
    show ?thesis
    proof (cases "append_all sign key now ?ids db")
      case None
      then have "db' = db \<and> \<not> ok"
        using "1.prems"(3) False by (subst (asm) backfillEvidenceLedgerUpTo.simps) (simp add: Let_def)
      then show ?thesis using "1.prems" by simp
    next
      case (Some d)
      let ?d = "d\<lparr>BackfillCursor := Some (last ?ids)\<rparr>"
      have in_range: "\<forall>i \<in> set ?ids. i < NextBatch db"
        using chunk_in "1.prems"(2) by (fastforce simp: history_wf_def)
      note w = append_all_wf [OF Some "1.prems"(1,2) in_range]
      note rows = append_all_tables [OF Some]
      have r: "backfillEvidenceLedgerUpTo sign key now cutoff (last ?ids) ?d = (db', ok)"
        using "1.prems"(3) False Some by (subst (asm) backfillEvidenceLedgerUpTo.simps) (simp add: Let_def)
      have ih: "ledger_wf sign key db' \<and> history_wf db' \<and> EventBatches db' = EventBatches ?d
        \<and> (\<forall>i. list_ex (\<lambda>r. LedgerBatchID r = i) (Ledger ?d) \<longrightarrow> list_ex (\<lambda>r. LedgerBatchID r = i) (Ledger db'))
        \<and> (\<forall>i. list_ex (\<lambda>r. LedgerBatchID r = i) (Ledger db') \<longrightarrow> list_ex (\<lambda>r. LedgerBatchID r = i) (Ledger ?d)
              \<or> (\<exists>b \<in> set (EventBatches ?d). BatchRowID b = i \<and> backfill_eligible cutoff (last ?ids) ?d b))
        \<and> (ok \<longrightarrow> (\<forall>b \<in> set (EventBatches ?d). backfill_eligible cutoff (last ?ids) ?d b \<longrightarrow>
              list_ex (\<lambda>r. LedgerBatchID r = BatchRowID b) (Ledger db')))"
        using "1.IH" [OF refl False Some] w rows r by (simp add: cursor_only)
      have "list_ex (\<lambda>r. LedgerBatchID r = BatchRowID b) (Ledger db')"
        if ok and b: "b \<in> set (EventBatches db)" "backfill_eligible cutoff cursor db b" for b
      proof (cases "BatchRowID b \<in> set ?ids")
        case True
        with w ih show ?thesis by simp
      next
        case False
        then have "last ?ids < BatchRowID b" using chunk_last [OF sorted b] by blast
        then have "backfill_eligible cutoff (last ?ids) ?d b"
          using b(2) rows by (auto simp: backfill_eligible_def events_of_def)
        with ih rows \<open>ok\<close> b(1) show ?thesis by simp
      qed
      moreover have "list_ex (\<lambda>r. LedgerBatchID r = i) (Ledger db)
          \<or> (\<exists>b \<in> set (EventBatches db). BatchRowID b = i \<and> backfill_eligible cutoff cursor db b)"
        if i: "list_ex (\<lambda>r. LedgerBatchID r = i) (Ledger db')" for i
      proof -
        have "cursor < last ?ids" using chunk_in [of "last ?ids" cutoff cursor db] False by (auto simp: backfill_eligible_def)
        then have later: "backfill_eligible cutoff (last ?ids) ?d b \<Longrightarrow> backfill_eligible cutoff cursor db b" for b
          using rows by (auto simp: backfill_eligible_def events_of_def)
        have "list_ex (\<lambda>r. LedgerBatchID r = i) (Ledger d)
            \<or> (\<exists>b \<in> set (EventBatches db). BatchRowID b = i \<and> backfill_eligible cutoff (last ?ids) ?d b)"
          using ih i rows by simp
        then show ?thesis using append_all_entries [OF Some, of i] later chunk_in [of i cutoff cursor db] by blast
      qed
      ultimately show ?thesis using ih w rows by simp
    qed
  qed
qed

subsection \<open>Retention\<close>

text \<open>A batch that a clean-up leaves keeps its events and its links.\<close>

lemma batch_survives:
  "batch_of i (delete_batch j db) = (if i = j then None else batch_of i db)"
  "triggers_of i (delete_batch j db) = triggers_of i db"
  "i \<noteq> j \<Longrightarrow> events_of i (delete_batch j db) = events_of i db"
proof -
  show "batch_of i (delete_batch j db) = (if i = j then None else batch_of i db)"
    by (auto simp: batch_of_def delete_batch_def find_None_iff intro!: find_filtered)
  show "triggers_of i (delete_batch j db) = triggers_of i db" by (simp add: triggers_of_def delete_batch_def)
  assume "i \<noteq> j"
  then show "events_of i (delete_batch j db) = events_of i db"
    by (auto simp: events_of_def delete_batch_def intro!: filter_cong)
qed

lemma delete_batch_step: "history_step db (delete_batch j db)"
proof -
  have "payload_of i (delete_batch j db) = None \<or> payload_of i (delete_batch j db) = payload_of i db" for i
  proof (cases "i = j")
    case True
    then show ?thesis by (simp add: payload_gone batch_survives)
  next
    case False
    then show ?thesis using payload_rows [of i "delete_batch j db" db] by (simp add: batch_survives)
  qed
  then show ?thesis by (simp add: history_step_def) (simp add: delete_batch_def)
qed

lemma delete_batch_wf: "history_wf db \<Longrightarrow> history_wf (delete_batch j db)"
  by (auto simp: history_wf_def delete_batch_def distinct_map sorted_wrt_filter intro: inj_on_subset)

lemma delete_batches_step: "history_step db (fold delete_batch ids db) \<and> (history_wf db \<longrightarrow> history_wf (fold delete_batch ids db))"
proof (induction ids arbitrary: db)
  case (Cons i ids)
  have "history_step db (fold delete_batch ids (delete_batch i db))"
    using history_step_trans [OF delete_batch_step] Cons by blast
  with Cons show ?case by (simp add: delete_batch_wf)
qed (simp add: history_step_refl)

text \<open>Events and links that belong to no batch are in no payload.\<close>

lemma prune_step:
  assumes rows: "batch_of i db' = batch_of i db"
    and same: "batch_exists i db \<Longrightarrow> triggers_of i db' = triggers_of i db \<and> events_of i db' = events_of i db"
  shows "payload_of i db' = payload_of i db"
proof (cases "batch_exists i db")
  case True
  then show ?thesis using rows same by (intro payload_rows) auto
next
  case False
  then have "payload_of i db = None" "payload_of i db' = None" by (simp_all add: payload_gone batch_of_None rows)
  then show ?thesis by simp
qed

lemma prune_events:
  assumes "\<forall>e \<in> set (Events db). EventID e \<in> gone \<longrightarrow> (\<forall>i. EventBatch e = Some i \<longrightarrow> \<not> batch_exists i db)" and "history_wf db"
  shows "history_step db (db\<lparr>Events := filter (\<lambda>e. EventID e \<notin> gone) (Events db)\<rparr>)" (is "history_step db ?d")
    and "history_wf (db\<lparr>Events := filter (\<lambda>e. EventID e \<notin> gone) (Events db)\<rparr>)"
proof -
  have "payload_of i ?d = payload_of i db" for i
  proof (rule prune_step)
    show "batch_of i ?d = batch_of i db" by (simp add: batch_of_def)
    assume "batch_exists i db"
    then have "events_of i ?d = events_of i db"
      using assms(1) by (auto simp: events_of_def intro!: filter_cong)
    then show "triggers_of i ?d = triggers_of i db \<and> events_of i ?d = events_of i db" by (simp add: triggers_of_def)
  qed
  then show "history_step db ?d" by (simp add: history_step_def)
  show "history_wf ?d" using assms(2) by (auto simp: history_wf_def distinct_map intro: inj_on_subset)
qed

lemma prune_links:
  assumes "\<forall>l \<in> set (BatchTriggers db). l \<in> gone \<longrightarrow> \<not> batch_exists (fst l) db"
  shows "history_step db (db\<lparr>BatchTriggers := filter (\<lambda>l. l \<notin> gone) (BatchTriggers db)\<rparr>)" (is "history_step db ?d")
    and "history_wf db \<Longrightarrow> history_wf (db\<lparr>BatchTriggers := filter (\<lambda>l. l \<notin> gone) (BatchTriggers db)\<rparr>)"
proof -
  have "payload_of i ?d = payload_of i db" for i
  proof (rule prune_step)
    show "batch_of i ?d = batch_of i db" by (simp add: batch_of_def)
    assume "batch_exists i db"
    then have "triggers_of i ?d = triggers_of i db"
      using assms by (auto simp: triggers_of_def intro!: arg_cong [of _ _ "map snd"] filter_cong)
    then show "triggers_of i ?d = triggers_of i db \<and> events_of i ?d = events_of i db" by (simp add: events_of_def)
  qed
  then show "history_step db ?d" by (simp add: history_step_def)
  show "history_wf db \<Longrightarrow> history_wf ?d" by (simp add: history_wf_def)
qed

lemma orphans_step:
  assumes "history_wf db"
  shows "history_step db (fst (deleteOrphanEvents cutoff n db)) \<and> history_wf (fst (deleteOrphanEvents cutoff n db))"
proof -
  define picked where "picked = take n (sort_stable (\<lambda>a b. EventObserved a < EventObserved b) (filter (orphaned cutoff db) (Events db)))"
  have db': "fst (deleteOrphanEvents cutoff n db) = db\<lparr>Events := filter (\<lambda>e. EventID e \<notin> set (map EventID picked)) (Events db)\<rparr>"
    by (simp only: deleteOrphanEvents_def Let_def fst_conv picked_def)
  have picked: "set picked \<subseteq> {x \<in> set (Events db). orphaned cutoff db x}"
    unfolding picked_def by (rule subset_trans [OF set_take_subset]) simp
  have "\<forall>e \<in> set (Events db). EventID e \<in> set (map EventID picked) \<longrightarrow> (\<forall>i. EventBatch e = Some i \<longrightarrow> \<not> batch_exists i db)"
  proof (intro ballI impI allI)
    fix e i assume e: "e \<in> set (Events db)" "EventID e \<in> set (map EventID picked)" "EventBatch e = Some i"
    obtain x where x: "x \<in> set (Events db)" "orphaned cutoff db x" "EventID x = EventID e"
      using e(2) picked by auto
    then have "x = e" using assms e(1) by (auto simp: history_wf_def distinct_map dest: inj_onD)
    with x e(3) show "\<not> batch_exists i db" by (simp add: orphaned_def)
  qed
  from prune_events [OF this assms] show ?thesis by (simp only: db')
qed

lemma links_step:
  "history_step db (fst (deleteTriggerLinks cutoff n db)) \<and> (history_wf db \<longrightarrow> history_wf (fst (deleteTriggerLinks cutoff n db)))"
proof -
  define picked where "picked = take n (sort_stable link_less
      (filter (\<lambda>(b, _). b < first_kept cutoff db \<and> \<not> batch_exists b db) (BatchTriggers db)))"
  have db': "fst (deleteTriggerLinks cutoff n db) = db\<lparr>BatchTriggers := filter (\<lambda>l. l \<notin> set picked) (BatchTriggers db)\<rparr>"
    by (simp only: deleteTriggerLinks_def Let_def fst_conv picked_def)
  have "set picked \<subseteq> {l. \<not> batch_exists (fst l) db}"
    unfolding picked_def by (rule subset_trans [OF set_take_subset]) auto
  then have "\<forall>l \<in> set (BatchTriggers db). l \<in> set picked \<longrightarrow> \<not> batch_exists (fst l) db" by blast
  from prune_links [OF this] show ?thesis unfolding db' by blast
qed

subsection \<open>A pass of retention\<close>

text \<open>What every transaction of the history phases does, and how large the tables are.\<close>

definition history_rows :: "history_db \<Rightarrow> nat" where
  "history_rows db = length (EventBatches db) + length (Events db) + length (BatchTriggers db)"

definition retains :: "history_db \<Rightarrow> history_db \<Rightarrow> bool" where
  "retains db db' \<longleftrightarrow> history_step db db' \<and> NextBatch db' = NextBatch db"

lemma retains_refl: "retains db db"
  by (simp add: retains_def history_step_refl)

lemma retains_trans: "retains a b \<Longrightarrow> retains b c \<Longrightarrow> retains a c"
  using history_step_trans by (auto simp: retains_def)

definition retention_step :: "(nat \<Rightarrow> history_db \<Rightarrow> history_db \<times> nat) \<Rightarrow> bool" where
  "retention_step step \<longleftrightarrow>
     (\<forall>n db. history_wf db \<longrightarrow>
        retains db (fst (step n db)) \<and> history_wf (fst (step n db))
        \<and> history_rows (fst (step n db)) \<le> history_rows db
        \<and> (snd (step n db) \<noteq> 0 \<longrightarrow> history_rows (fst (step n db)) < history_rows db))"

lemma expired_in: "set (expired_batches n cs) \<subseteq> fst ` set cs"
proof -
  have "set (fitting n k cs) \<subseteq> fst ` set cs" for k cs
    by (induction n k cs rule: fitting.induct) auto
  then show ?thesis by (cases cs) (auto simp: expired_batches_def)
qed

lemma oldest_in: "fst ` set (oldest_expired cutoff n db) \<subseteq> BatchRowID ` {b \<in> set (EventBatches db). BatchObserved b < cutoff}"
  by (auto simp: oldest_expired_def dest!: in_set_takeD)

lemma delete_batches_rows:
  "EventBatches (fold delete_batch ids db) = filter (\<lambda>b. BatchRowID b \<notin> set ids) (EventBatches db)"
  "Events (fold delete_batch ids db) = filter (\<lambda>e. \<forall>i. EventBatch e = Some i \<longrightarrow> i \<notin> set ids) (Events db)"
  "BatchTriggers (fold delete_batch ids db) = BatchTriggers db"
  by (induction ids arbitrary: db) (auto simp: delete_batch_def intro!: filter_cong)

lemma delete_batches_next: "NextBatch (fold delete_batch ids db) = NextBatch db"
  by (induction ids arbitrary: db) (simp_all add: delete_batch_def)

lemma filter_shrinks: "x \<in> set xs \<Longrightarrow> \<not> p x \<Longrightarrow> length (filter p xs) < length xs"
  by (rule length_filter_less)

lemma expired_retention: "retention_step (deleteExpiredBatches cutoff)"
  unfolding retention_step_def
proof (intro allI impI)
  fix n db assume wf: "history_wf db"
  define ids where "ids = expired_batches n (oldest_expired cutoff n db)"
  have d: "fst (deleteExpiredBatches cutoff n db) = fold delete_batch ids db"
    "snd (deleteExpiredBatches cutoff n db) = (length (Events db) - length (Events (fold delete_batch ids db))) + length ids"
    by (simp_all add: deleteExpiredBatches_def Let_def ids_def)
  have le: "history_rows (fold delete_batch ids db) \<le> history_rows db"
    unfolding history_rows_def delete_batches_rows by (intro add_mono length_filter_le order_refl)
  have "history_rows (fold delete_batch ids db) < history_rows db" if ne: "ids \<noteq> []"
  proof -
    obtain i where i: "i \<in> set ids" using ne by (cases ids) auto
    then have "i \<in> BatchRowID ` {b \<in> set (EventBatches db). BatchObserved b < cutoff}"
      using expired_in [of n "oldest_expired cutoff n db"] oldest_in [of cutoff n db] unfolding ids_def by blast
    with i obtain b where "b \<in> set (EventBatches db)" "BatchRowID b \<in> set ids" by blast
    then have "length (EventBatches (fold delete_batch ids db)) < length (EventBatches db)"
      unfolding delete_batches_rows by (intro filter_shrinks) auto
    moreover have "length (Events (fold delete_batch ids db)) \<le> length (Events db)"
      unfolding delete_batches_rows by (rule length_filter_le)
    ultimately show ?thesis unfolding history_rows_def delete_batches_rows(3) by linarith
  qed
  moreover have "ids = [] \<Longrightarrow> snd (deleteExpiredBatches cutoff n db) = 0" by (simp add: d)
  ultimately show "retains db (fst (deleteExpiredBatches cutoff n db)) \<and> history_wf (fst (deleteExpiredBatches cutoff n db))
      \<and> history_rows (fst (deleteExpiredBatches cutoff n db)) \<le> history_rows db
      \<and> (snd (deleteExpiredBatches cutoff n db) \<noteq> 0 \<longrightarrow> history_rows (fst (deleteExpiredBatches cutoff n db)) < history_rows db)"
    using delete_batches_step [of db ids] wf le delete_batches_next [of ids db] unfolding d(1) retains_def by metis
qed

lemma orphans_retention: "retention_step (deleteOrphanEvents cutoff)"
  unfolding retention_step_def
proof (intro allI impI)
  fix n db assume wf: "history_wf db"
  define picked where "picked = take n (sort_stable (\<lambda>a b. EventObserved a < EventObserved b) (filter (orphaned cutoff db) (Events db)))"
  have d: "fst (deleteOrphanEvents cutoff n db) = db\<lparr>Events := filter (\<lambda>e. EventID e \<notin> set (map EventID picked)) (Events db)\<rparr>"
    "snd (deleteOrphanEvents cutoff n db) = length picked"
    by (simp_all only: deleteOrphanEvents_def Let_def fst_conv snd_conv picked_def length_map)
  have sub: "set picked \<subseteq> set (Events db)"
    unfolding picked_def by (rule subset_trans [OF set_take_subset]) auto
  have "history_rows (fst (deleteOrphanEvents cutoff n db)) < history_rows db" if ne: "length picked \<noteq> 0"
  proof -
    obtain e where "e \<in> set picked" using ne by (cases picked) auto
    with sub have "length (filter (\<lambda>e. EventID e \<notin> set (map EventID picked)) (Events db)) < length (Events db)"
      by (intro filter_shrinks [of e]) auto
    then show ?thesis by (simp add: history_rows_def d)
  qed
  moreover have "history_rows (fst (deleteOrphanEvents cutoff n db)) \<le> history_rows db"
    and "NextBatch (fst (deleteOrphanEvents cutoff n db)) = NextBatch db"
    unfolding d(1) by (simp_all add: history_rows_def)
  ultimately
  show "retains db (fst (deleteOrphanEvents cutoff n db)) \<and> history_wf (fst (deleteOrphanEvents cutoff n db))
      \<and> history_rows (fst (deleteOrphanEvents cutoff n db)) \<le> history_rows db
      \<and> (snd (deleteOrphanEvents cutoff n db) \<noteq> 0 \<longrightarrow> history_rows (fst (deleteOrphanEvents cutoff n db)) < history_rows db)"
    using orphans_step [OF wf, of cutoff n] d(2) unfolding retains_def by presburger
qed

lemma links_retention: "retention_step (deleteTriggerLinks cutoff)"
  unfolding retention_step_def
proof (intro allI impI)
  fix n db assume wf: "history_wf db"
  define picked where "picked = take n (sort_stable link_less
      (filter (\<lambda>(b, _). b < first_kept cutoff db \<and> \<not> batch_exists b db) (BatchTriggers db)))"
  have d: "fst (deleteTriggerLinks cutoff n db) = db\<lparr>BatchTriggers := filter (\<lambda>l. l \<notin> set picked) (BatchTriggers db)\<rparr>"
    "snd (deleteTriggerLinks cutoff n db) = length picked"
    by (simp_all only: deleteTriggerLinks_def Let_def fst_conv snd_conv picked_def)
  have sub: "set picked \<subseteq> set (BatchTriggers db)"
    unfolding picked_def by (rule subset_trans [OF set_take_subset]) auto
  have "history_rows (fst (deleteTriggerLinks cutoff n db)) < history_rows db" if ne: "length picked \<noteq> 0"
  proof -
    obtain l where "l \<in> set picked" using ne by (cases picked) auto
    with sub have "length (filter (\<lambda>l. l \<notin> set picked) (BatchTriggers db)) < length (BatchTriggers db)"
      by (intro filter_shrinks [of l]) auto
    then show ?thesis by (simp add: history_rows_def d)
  qed
  moreover have "history_rows (fst (deleteTriggerLinks cutoff n db)) \<le> history_rows db"
    and "NextBatch (fst (deleteTriggerLinks cutoff n db)) = NextBatch db"
    unfolding d(1) by (simp_all add: history_rows_def)
  ultimately
  show "retains db (fst (deleteTriggerLinks cutoff n db)) \<and> history_wf (fst (deleteTriggerLinks cutoff n db))
      \<and> history_rows (fst (deleteTriggerLinks cutoff n db)) \<le> history_rows db
      \<and> (snd (deleteTriggerLinks cutoff n db) \<noteq> 0 \<longrightarrow> history_rows (fst (deleteTriggerLinks cutoff n db)) < history_rows db)"
    using links_step [of db cutoff n] wf d(2) unfolding retains_def by presburger
qed

lemma history_phases_retention:
  "phase \<in> set (history_phases now retention) \<Longrightarrow> retention_step (PhaseStep phase)"
  by (auto simp: history_phases_def Let_def expired_retention orphans_retention links_retention)

text \<open>A phase keeps what its transactions keep; and it ends, because each of its transactions removes a row.\<close>

lemma phase_invariant:
  assumes "\<And>n d. P d \<Longrightarrow> P (fst (PhaseStep phase n d))"
    and "runCleanupPhase phase rounds budget db = Some (db', budget', outcome)" and "P db"
  shows "P db'"
  using assms
proof (induction phase rounds budget db rule: runCleanupPhase.induct)
  case (2 phase now ending took retried rounds budget db)
  obtain d changed where d: "PhaseStep phase (CleanupBatchSize budget) db = (d, changed)" by fastforce
  then have "P d" using "2.prems"(1,3) by (metis fst_conv)
  then show ?case
    using "2.prems" "2.IH" d by (auto simp: Let_def split: if_splits transaction_end.splits)
qed simp

lemma phase_keeps:
  assumes "retention_step (PhaseStep phase)" and "runCleanupPhase phase rounds budget db = Some (db', budget', outcome)"
    and "history_wf db"
  shows "retains db db' \<and> history_wf db'"
proof (rule phase_invariant [OF _ assms(2)])
  fix n d assume "retains db d \<and> history_wf d"
  then show "retains db (fst (PhaseStep phase n d)) \<and> history_wf (fst (PhaseStep phase n d))"
    using assms(1) retains_trans unfolding retention_step_def by blast
qed (simp add: assms(3) retains_refl)

lemma phase_done:
  assumes "runCleanupPhase phase rounds budget db = Some (db', budget', Inr CleanupDone)"
  shows "\<exists>d. PhaseStep phase (CleanupBatchSize budget) d = (db', 0)" and "CleanupBatchSize budget' = CleanupBatchSize budget"
proof -
  have "(\<exists>d. PhaseStep phase (CleanupBatchSize budget) d = (db', 0)) \<and> CleanupBatchSize budget' = CleanupBatchSize budget"
    using assms
  proof (induction phase rounds budget db rule: runCleanupPhase.induct)
    case (2 phase now ending took retried rounds budget db)
    obtain d changed where d: "PhaseStep phase (CleanupBatchSize budget) db = (d, changed)" by fastforce
    show ?case
      using "2.prems" "2.IH" d by (auto simp: Let_def split: if_splits transaction_end.splits)
  qed simp
  then show "\<exists>d. PhaseStep phase (CleanupBatchSize budget) d = (db', 0)" "CleanupBatchSize budget' = CleanupBatchSize budget"
    by blast+
qed

lemma phase_ends:
  assumes "retention_step (PhaseStep phase)" and "history_wf db" and "history_rows db < length rounds"
  shows "runCleanupPhase phase rounds budget db \<noteq> None"
  using assms
proof (induction phase rounds budget db rule: runCleanupPhase.induct)
  case (2 phase now ending took retried rounds budget db)
  obtain d changed where d: "PhaseStep phase (CleanupBatchSize budget) db = (d, changed)" by fastforce
  have step: "history_wf d \<and> (changed \<noteq> 0 \<longrightarrow> history_rows d < length rounds)"
    using "2.prems" d unfolding retention_step_def by (metis Suc_less_eq fst_conv length_Cons less_trans_Suc order_less_le_trans snd_conv Suc_leI)
  show ?case
    using "2.prems"(1) "2.IH" d step
    by (auto simp: Let_def split: if_splits transaction_end.splits)
qed simp

subsection \<open>Every operation on the history\<close>

datatype history_op =
    RecordPoll instant int string "int option" "int list" string "event_row list"
  | StartUp instant
  | ExpireBatches string nat
  | ExpireOrphans string nat
  | ExpireLinks string nat

text \<open>A poll that cannot be recorded is rolled back.\<close>

fun history_exec :: "ed25519_sign \<Rightarrow> evidence_key \<Rightarrow> history_op \<Rightarrow> history_db \<Rightarrow> history_db" where
  "history_exec sign key (RecordPoll now gen observed trigger triggerIDs status events) db =
     (case recordHistory sign key now gen observed trigger triggerIDs status events db of None \<Rightarrow> db | Some db' \<Rightarrow> db')"
| "history_exec sign key (StartUp now) db = fst (backfillEvidenceLedgerOnStartup sign key now db)"
| "history_exec sign key (ExpireBatches cutoff n) db = fst (deleteExpiredBatches cutoff n db)"
| "history_exec sign key (ExpireOrphans cutoff n) db = fst (deleteOrphanEvents cutoff n db)"
| "history_exec sign key (ExpireLinks cutoff n) db = fst (deleteTriggerLinks cutoff n db)"

lemma meta_only:
  "ledger_wf sign key (db\<lparr>BackfillCutoff := c\<rparr>) = ledger_wf sign key db" "history_wf (db\<lparr>BackfillCutoff := c\<rparr>) = history_wf db"
  "ledger_wf sign key (db\<lparr>Backfilled := f\<rparr>) = ledger_wf sign key db" "history_wf (db\<lparr>Backfilled := f\<rparr>) = history_wf db"
proof -
  have "payload_of i (db\<lparr>BackfillCutoff := c\<rparr>) = payload_of i db" "payload_of i (db\<lparr>Backfilled := f\<rparr>) = payload_of i db" for i
    by (rule payload_rows; simp add: batch_of_def triggers_of_def events_of_def)+
  then have "entry_true (db\<lparr>BackfillCutoff := c\<rparr>) = entry_true db" "entry_true (db\<lparr>Backfilled := f\<rparr>) = entry_true db"
    by (simp_all add: fun_eq_iff entry_true_def)
  then show "ledger_wf sign key (db\<lparr>BackfillCutoff := c\<rparr>) = ledger_wf sign key db"
    "ledger_wf sign key (db\<lparr>Backfilled := f\<rparr>) = ledger_wf sign key db" by (simp_all add: ledger_wf_def)
qed (simp_all add: history_wf_def)

lemma startup_wf:
  assumes "ledger_wf sign key db" and "history_wf db"
  shows "ledger_wf sign key (fst (backfillEvidenceLedgerOnStartup sign key now db))
    \<and> history_wf (fst (backfillEvidenceLedgerOnStartup sign key now db))"
proof -
  let ?cutoff = "case BackfillCutoff db of None \<Rightarrow> 0 | Some c \<Rightarrow> c"
  let ?cursor = "case BackfillCursor db of None \<Rightarrow> 0 | Some c \<Rightarrow> c"
  let ?db = "db\<lparr>BackfillCutoff := Some ?cutoff\<rparr>"
  obtain d ok where r: "backfillEvidenceLedgerUpTo sign key now ?cutoff ?cursor ?db = (d, ok)" by fastforce
  have "ledger_wf sign key d \<and> history_wf d" using backfill_covers [OF _ _ r] assms by (simp add: meta_only)
  then show ?thesis using assms r
    by (auto simp: backfillEvidenceLedgerOnStartup_def Let_def meta_only split: bool.splits)
qed

lemma retention_wf:
  assumes "retention_step step" and "ledger_wf sign key db \<and> history_wf db"
  shows "ledger_wf sign key (fst (step n db)) \<and> history_wf (fst (step n db))"
  using assms history_step_wf unfolding retention_step_def retains_def by blast

lemma history_exec_wf:
  assumes "ledger_wf sign key db \<and> history_wf db"
  shows "ledger_wf sign key (history_exec sign key op db) \<and> history_wf (history_exec sign key op db)"
proof (cases op)
  case (RecordPoll now gen observed trigger triggerIDs status events)
  then show ?thesis using assms record_wf [of sign key now gen observed trigger triggerIDs status events db]
    by (auto split: option.splits)
qed (use assms startup_wf retention_wf [OF expired_retention] retention_wf [OF orphans_retention]
      retention_wf [OF links_retention] in auto)

lemma append_prefix:
  "appendEvidenceLedgerTx sign key now i db = Some db' \<Longrightarrow> \<exists>new. Ledger db' = Ledger db @ new"
  by (erule append_cases) auto

lemma append_all_prefix: "append_all sign key now ids db = Some db' \<Longrightarrow> \<exists>new. Ledger db' = Ledger db @ new"
proof (induction ids arbitrary: db)
  case (Cons i ids)
  then obtain d where d: "appendEvidenceLedgerTx sign key now i db = Some d" "append_all sign key now ids d = Some db'"
    by (auto split: option.splits)
  from append_prefix [OF d(1)] Cons.IH [OF d(2)] show ?case by auto
qed simp

lemma backfill_prefix: "\<exists>new. Ledger (fst (backfillEvidenceLedgerUpTo sign key now cutoff cursor db)) = Ledger db @ new"
proof (induction sign key now cutoff cursor db rule: backfillEvidenceLedgerUpTo.induct)
  case (1 sign key now cutoff cursor db)
  show ?case
  proof (cases "backfill_chunk cutoff cursor db = [] \<or> append_all sign key now (backfill_chunk cutoff cursor db) db = None")
    case True
    then show ?thesis by (subst backfillEvidenceLedgerUpTo.simps) (auto simp: Let_def)
  next
    case False
    then obtain d where d: "append_all sign key now (backfill_chunk cutoff cursor db) db = Some d" by auto
    from 1 [OF refl _ d] False append_all_prefix [OF d] d show ?thesis
      by (subst backfillEvidenceLedgerUpTo.simps) (auto simp: Let_def)
  qed
qed

lemma history_exec_prefix:
  assumes "history_wf db"
  shows "\<exists>new. Ledger (history_exec sign key op db) = Ledger db @ new"
proof (cases op)
  case (RecordPoll now gen observed trigger triggerIDs status events)
  then show ?thesis
    using append_prefix [of sign key now "NextBatch db" "before_append gen observed trigger triggerIDs status events db"]
    by (auto simp: recordHistory_append before_append_rows split: option.splits)
next
  case (StartUp now)
  let ?cutoff = "case BackfillCutoff db of None \<Rightarrow> 0 | Some c \<Rightarrow> c"
  let ?cursor = "case BackfillCursor db of None \<Rightarrow> 0 | Some c \<Rightarrow> c"
  show ?thesis
    using backfill_prefix [of sign key now ?cutoff ?cursor "db\<lparr>BackfillCutoff := Some ?cutoff\<rparr>"] StartUp
    by (auto simp: backfillEvidenceLedgerOnStartup_def Let_def split: prod.splits bool.splits)
qed (use assms expired_retention orphans_retention links_retention in \<open>auto simp: retention_step_def retains_def history_step_def\<close>)

lemma expired_done:
  assumes "deleteExpiredBatches cutoff n d = (db', 0)" and "0 < n"
  shows "\<forall>b \<in> set (EventBatches db'). \<not> BatchObserved b < cutoff"
proof -
  have ids: "expired_batches n (oldest_expired cutoff n d) = []" and db': "db' = d"
    using assms(1) by (auto simp: deleteExpiredBatches_def Let_def)
  then have "oldest_expired cutoff n d = []" by (auto simp: expired_batches_def split: list.splits prod.splits)
  then have "filter (\<lambda>b. BatchObserved b < cutoff) (EventBatches d) = []" using assms(2) by (simp add: oldest_expired_def)
  then show ?thesis by (simp add: filter_empty_conv db')
qed

lemma later_phases_keep_batches:
  "EventBatches (fst (deleteOrphanEvents cutoff n d)) = EventBatches d"
  "EventBatches (fst (deleteTriggerLinks cutoff n d)) = EventBatches d"
  unfolding deleteOrphanEvents_def deleteTriggerLinks_def Let_def by simp_all

lemma run_phases_keeps:
  assumes "\<forall>p \<in> set ps. retention_step (PhaseStep (fst p))" and "history_wf db"
    and "run_phases ps budget db = Some (db', remaining, ok)"
  shows "retains db db' \<and> history_wf db'"
  using assms
proof (induction ps budget db arbitrary: remaining rule: run_phases.induct)
  case (2 phase rounds rest budget db)
  obtain d budget' outcome where p: "runCleanupPhase phase rounds budget db = Some (d, budget', outcome)"
    using "2.prems"(3) by (auto split: option.splits)
  have d: "retains db d \<and> history_wf d" using phase_keeps [OF _ p "2.prems"(2)] "2.prems"(1) by simp
  show ?case
  proof (cases outcome)
    case (Inl u)
    then show ?thesis using "2.prems"(3) p d by simp
  next
    case (Inr o')
    show ?thesis
    proof (cases "o' = CleanupOutOfBudget")
      case True
      then show ?thesis using "2.prems"(3) p d Inr by simp
    next
      case False
      then obtain r where "run_phases rest budget' d = Some (db', r, ok)" using "2.prems"(3) p Inr by auto
      then have "retains d db' \<and> history_wf db'"
        using "2.IH" [OF p _ _ Inr False] "2.prems"(1) d by simp
      then show ?thesis using d retains_trans by blast
    qed
  qed
qed (simp add: retains_refl)

lemma run_phases_ends:
  assumes "\<forall>p \<in> set ps. retention_step (PhaseStep (fst p)) \<and> history_rows db < length (snd p)" and "history_wf db"
  shows "run_phases ps budget db \<noteq> None"
  using assms
proof (induction ps budget db rule: run_phases.induct)
  case (2 phase rounds rest budget db)
  have r: "retention_step (PhaseStep phase)" using "2.prems"(1) by simp
  obtain d budget' outcome where p: "runCleanupPhase phase rounds budget db = Some (d, budget', outcome)"
    using phase_ends [OF r "2.prems"(2), of rounds budget] "2.prems"(1) by auto
  have d: "history_wf d" using phase_keeps [OF r p "2.prems"(2)] by blast
  have "history_wf d \<and> history_rows d \<le> history_rows db"
  proof (rule phase_invariant [OF _ p])
    fix n e assume "history_wf e \<and> history_rows e \<le> history_rows db"
    then show "history_wf (fst (PhaseStep phase n e)) \<and> history_rows (fst (PhaseStep phase n e)) \<le> history_rows db"
      using r unfolding retention_step_def by (meson order.trans)
  qed (simp add: "2.prems"(2))
  then have rest: "\<forall>p \<in> set rest. retention_step (PhaseStep (fst p)) \<and> history_rows d < length (snd p)"
    using "2.prems"(1) by fastforce
  show ?case
  proof (cases outcome)
    case (Inr o')
    then show ?thesis using p "2.IH" [OF p _ _ Inr] rest d by (cases "o' = CleanupOutOfBudget") auto
  qed (simp add: p)
qed simp

lemma phase_keeps_batches:
  assumes "runCleanupPhase phase rounds budget db = Some (db', budget', outcome)"
    and "\<forall>n d. EventBatches (fst (PhaseStep phase n d)) = EventBatches d"
  shows "EventBatches db' = EventBatches db"
  by (rule phase_invariant [OF _ assms(1), of "\<lambda>d. EventBatches d = EventBatches db"]) (simp_all add: assms(2))

text \<open>A pass with nothing remaining went through each of its phases to the end.\<close>

lemma run_phases_done:
  assumes "run_phases ((phase, rounds) # rest) budget db = Some (db', False, True)"
  shows "\<exists>d budget'. runCleanupPhase phase rounds budget db = Some (d, budget', Inr CleanupDone)
    \<and> run_phases rest budget' d = Some (db', False, True)"
  using assms by (auto split: option.splits sum.splits if_splits)

lemma pass_done:
  assumes "run_phases (map (\<lambda>(i, phase). (phase, rounds i)) (enumerate 0 (history_phases now (Retention options))))
      (cleanup_budget_of now options) db = Some (db', remaining, ok)"
    and "ok" and "\<not> remaining"
  shows "\<forall>b \<in> set (EventBatches db'). \<not> BatchObserved b < observationBound (now - Retention options)"
proof -
  let ?cutoff = "observationBound (now - Retention options)"
  obtain expire orphans links where p: "history_phases now (Retention options) = [expire, orphans, links]"
    and s: "PhaseStep expire = deleteExpiredBatches ?cutoff" "PhaseStep orphans = deleteOrphanEvents ?cutoff"
      "PhaseStep links = deleteTriggerLinks ?cutoff"
    by (simp add: history_phases_def Let_def)
  have r: "run_phases [(expire, rounds 0), (orphans, rounds 1), (links, rounds 2)] (cleanup_budget_of now options) db
      = Some (db', False, True)"
    using assms by (simp add: p numeral_2_eq_2)
  obtain d1 b1 where 1: "runCleanupPhase expire (rounds 0) (cleanup_budget_of now options) db = Some (d1, b1, Inr CleanupDone)"
      "run_phases [(orphans, rounds 1), (links, rounds 2)] b1 d1 = Some (db', False, True)"
    using run_phases_done [OF r] by blast
  obtain d2 b2 where 2: "runCleanupPhase orphans (rounds 1) b1 d1 = Some (d2, b2, Inr CleanupDone)"
      "run_phases [(links, rounds 2)] b2 d2 = Some (db', False, True)"
    using run_phases_done [OF 1(2)] by blast
  obtain d3 b3 where 3: "runCleanupPhase links (rounds 2) b2 d2 = Some (d3, b3, Inr CleanupDone)"
      "run_phases [] b3 d3 = Some (db', False, True)"
    using run_phases_done [OF 2(2)] by blast
  have "0 < CleanupBatchSize (cleanup_budget_of now options)"
    by (simp add: cleanup_budget_of_def Let_def defaultCleanupBatchSize_def)
  then have "\<forall>b \<in> set (EventBatches d1). \<not> BatchObserved b < ?cutoff"
    using phase_done(1) [OF 1(1)] expired_done by (auto simp: s)
  moreover have "EventBatches db' = EventBatches d1"
    using phase_keeps_batches [OF 2(1)] phase_keeps_batches [OF 3(1)] 3(2) by (simp add: s later_phases_keep_batches)
  ultimately show ?thesis by simp
qed

subsection \<open>Properties\<close>

text \<open>
  C21. The ledger only grows, and stays true. Starting from an empty database, after any sequence of
  recorded polls, starts of the service and steps of retention, the entries are numbered from 1 without a
  gap, each entry names the hash of the one before, the stored head is the hash of the last, every entry
  is signed over its hash, no batch has two entries, and every entry whose batch is still stored hashes
  to it. No later operation removes or changes an entry.
\<close>
theorem ledger_grows_truly:
  "ledger_wf sign key (fold (history_exec sign key) ops empty_history)
   \<and> (\<exists>new. Ledger (fold (history_exec sign key) (ops @ later) empty_history)
        = Ledger (fold (history_exec sign key) ops empty_history) @ new)"
proof -
  have wf: "ledger_wf sign key (fold (history_exec sign key) ops db) \<and> history_wf (fold (history_exec sign key) ops db)"
    if "ledger_wf sign key db \<and> history_wf db" for ops db
    using that by (induction ops arbitrary: db) (simp_all add: history_exec_wf)
  have "\<exists>new. Ledger (fold (history_exec sign key) later db) = Ledger db @ new"
    if "ledger_wf sign key db \<and> history_wf db" for db
    using that
  proof (induction later arbitrary: db)
    case (Cons op later)
    obtain new where "Ledger (history_exec sign key op db) = Ledger db @ new"
      using history_exec_prefix Cons.prems by blast
    moreover obtain new' where "Ledger (fold (history_exec sign key) later (history_exec sign key op db))
        = Ledger (history_exec sign key op db) @ new'"
      using Cons.IH [OF history_exec_wf [OF Cons.prems, of op]] by blast
    ultimately show ?case by auto
  qed simp
  with wf [of empty_history ops] empty_history_wf show ?thesis by simp
qed

text \<open>
  C22. Retention never falsifies the ledger. A pass of the clean-up leaves the ledger as it is and every
  entry true: a batch is either stored with exactly the payload it had, or is gone altogether. A pass
  that reports nothing remaining has left no batch from before the cutoff.
\<close>
theorem retention_keeps_ledger_true:
  assumes "ledger_wf sign key db" and "history_wf db"
    and "CleanupWithOptions now options rounds db = Some (db', remaining, ok)"
  shows "Ledger db' = Ledger db \<and> list_all (entry_true db') (Ledger db')
    \<and> (\<forall>i. batch_exists i db' \<longrightarrow> payload_of i db' = payload_of i db)
    \<and> (ok \<and> \<not> remaining \<longrightarrow>
        (\<forall>b \<in> set (EventBatches db'). \<not> BatchObserved b < observationBound (now - Retention options)))"
proof -
  let ?cutoff = "observationBound (now - Retention options)"
  let ?phases = "map (\<lambda>(i, phase). (phase, rounds i)) (enumerate 0 (history_phases now (Retention options)))"
  have r: "run_phases ?phases (cleanup_budget_of now options) db = Some (db', remaining, ok)"
    using assms(3) by (simp add: CleanupWithOptions_def)
  have "\<forall>p \<in> set ?phases. retention_step (PhaseStep (fst p))"
    by (auto simp: in_set_enumerate_eq intro!: history_phases_retention nth_mem)
  from run_phases_keeps [OF this assms(2) r] have step: "history_step db db'" and wf: "history_wf db'"
    and next_batch: "NextBatch db' = NextBatch db" unfolding retains_def by blast+
  have true: "ledger_wf sign key db'" by (rule history_step_wf [OF step assms(1)])
  have "payload_of i db' = payload_of i db" if i: "batch_exists i db'" for i
  proof -
    have "i < NextBatch db" using i wf by (auto simp: batch_exists_def history_wf_def list_ex_iff next_batch)
    moreover have "payload_of i db' \<noteq> None" using i by (simp add: payload_gone batch_of_None)
    ultimately show ?thesis using step unfolding history_step_def by auto
  qed
  moreover have "\<forall>b \<in> set (EventBatches db'). \<not> BatchObserved b < ?cutoff" if "ok" "\<not> remaining"
    using pass_done [OF r that] .
  ultimately show ?thesis using step true by (auto simp: history_step_def ledger_wf_def)
qed

text \<open>
  C23. A pass of retention ends. However its transactions end and whatever the clock shows, each of its
  phases stops after fewer rounds than there are rows in the tables of the history, plus one.
\<close>
theorem retention_pass_ends:
  assumes "history_wf db" and "\<forall>i. history_rows db < length (rounds i)"
  shows "\<exists>db' remaining ok. CleanupWithOptions now options rounds db = Some (db', remaining, ok)"
proof -
  let ?phases = "map (\<lambda>(i, phase). (phase, rounds i)) (enumerate 0 (history_phases now (Retention options)))"
  have "\<forall>p \<in> set ?phases. retention_step (PhaseStep (fst p)) \<and> history_rows db < length (snd p)"
    using assms(2) by (auto simp: in_set_enumerate_eq intro!: history_phases_retention nth_mem)
  from run_phases_ends [OF this assms(1)] show ?thesis by (auto simp: CleanupWithOptions_def)
qed

text \<open>
  Back-filling is exact. The first start after a migration that set a boundary gives a ledger entry
  to every stored batch up to the boundary whose events are all there, and to no other batch; without a
  boundary the start appends nothing, so rows written directly into the database never enter the ledger.
\<close>
theorem backfill_is_exact:
  assumes "ledger_wf sign key db" and "history_wf db" and "\<not> Backfilled db" and "BackfillCursor db = None"
    and "backfillEvidenceLedgerOnStartup sign key now db = (db', True)"
    and cutoff: "cutoff = (case BackfillCutoff db of None \<Rightarrow> 0 | Some c \<Rightarrow> c)"
  shows "Backfilled db' \<and> (\<forall>i. list_ex (\<lambda>r. LedgerBatchID r = i) (Ledger db') \<longleftrightarrow>
      list_ex (\<lambda>r. LedgerBatchID r = i) (Ledger db)
      \<or> 0 < cutoff \<and> (\<exists>b \<in> set (EventBatches db). BatchRowID b = i \<and> backfill_eligible cutoff 0 db b))"
proof (cases "0 < cutoff")
  case True
  let ?db = "db\<lparr>BackfillCutoff := Some cutoff\<rparr>"
  obtain d where r: "backfillEvidenceLedgerUpTo sign key now cutoff 0 ?db = (d, True)" and db': "db' = d\<lparr>Backfilled := True\<rparr>"
    using assms(3-5) True
    by (auto simp: backfillEvidenceLedgerOnStartup_def Let_def cutoff [symmetric] split: prod.splits bool.splits if_splits)
  have e: "backfill_eligible cutoff 0 ?db = backfill_eligible cutoff 0 db" by (rule eligible_rows) simp_all
  from backfill_covers [OF _ _ r] assms(1,2) show ?thesis by (auto simp: meta_only e db' True)
next
  case False
  then show ?thesis using assms(3-5)
    by (auto simp: backfillEvidenceLedgerOnStartup_def Let_def cutoff [symmetric] split: if_splits)
qed

subsection \<open>The properties at a concrete input\<close>

definition old_day :: string where "old_day = ''2020-01-01T00:00:00.000000000Z''"

definition sample_history :: history_db where
  "sample_history = empty_history\<lparr>
     EventBatches := [\<lparr> BatchRowID = 1, BatchRowGen = 1, BatchObserved = old_day, BatchChanges = 1, BatchCreated = old_day,
                        BatchTrigger = None, BatchAttribution = '''' \<rparr>],
     NextBatch := 2, BatchTriggers := [(1, 7)],
     Events := [\<lparr> EventID = 1, EventBatch = Some 1, EventGen = 1, EventObserved = old_day, EventColl = ''users'',
                  EventType = ''created'', EventRes = ''u1'', EventName = ''u1'', EventChanges = '''', EventBefore = '''',
                  EventAfter = '''', EventBeforeHash = '''', EventAfterHash = '''', EventBeforeBytes = 0, EventAfterBytes = 0,
                  EventBeforeTruncated = False, EventAfterTruncated = False, EventSeverity = ''info'', EventMuted = False,
                  EventAttribution = '''' \<rparr>],
     NextEvent := 2, BackfillCutoff := Some 1\<rparr>"

definition sample_rounds :: "nat \<Rightarrow> cleanup_round list" where
  "sample_rounds i = replicate 4 (60000 * day, Committed, 0, Committed)"

definition day_options :: cleanup_options where
  "day_options = \<lparr> Retention = day, OptBatchSize = 0, OptTransactionBudget = 0, OptPassBudget = 0 \<rparr>"

lemma sample_history_wf: "history_wf sample_history" "ledger_wf sign key sample_history"
  by (simp_all add: history_wf_def ledger_wf_def sample_history_def empty_history_def)

theorem retention_keeps_ledger_true_witness:
  "\<exists>db'. CleanupWithOptions (60000 * day) day_options sample_rounds sample_history = Some (db', False, True)
    \<and> EventBatches db' = [] \<and> Ledger db' = Ledger sample_history"
proof -
  let ?cleaned = "sample_history\<lparr>EventBatches := [], Events := [], BatchTriggers := []\<rparr>"
  have r: "CleanupWithOptions (60000 * day) day_options sample_rounds sample_history = Some (?cleaned, False, True)"
    by code_simp
  from retention_keeps_ledger_true [OF sample_history_wf(2) sample_history_wf(1) r] r show ?thesis by auto
qed

theorem retention_pass_ends_witness:
  "\<exists>db' remaining ok. CleanupWithOptions (60000 * day) day_options sample_rounds sample_history = Some (db', remaining, ok)"
  by (rule retention_pass_ends [OF sample_history_wf(1)])
    (simp add: sample_rounds_def history_rows_def sample_history_def)

definition toy_sign :: ed25519_sign where
  "toy_sign private message = replicate 64 (CHR ''s'')"

definition toy_key :: evidence_key where
  "toy_key = \<lparr> PrivateKey = replicate 64 (CHR ''p''), PublicKey = replicate 32 (CHR ''k''),
     KeyID = evidenceKeyID (replicate 32 (CHR ''k'')) \<rparr>"

theorem backfill_is_exact_witness:
  "\<exists>db'. backfillEvidenceLedgerOnStartup toy_sign toy_key 0 sample_history = (db', True)
    \<and> list_ex (\<lambda>r. LedgerBatchID r = 1) (Ledger db') \<and> \<not> list_ex (\<lambda>r. LedgerBatchID r = 2) (Ledger db')"
proof -
  have chunk: "backfill_chunk 1 0 sample_history = [1]" "backfill_chunk 1 1 sample_history = []"
    "\<not> Backfilled sample_history" "BackfillCursor sample_history = None" "BackfillCutoff sample_history = Some 1"
    "sample_history\<lparr>BackfillCutoff := Some 1\<rparr> = sample_history" "Ledger sample_history = []"
    "batch_of 1 sample_history \<noteq> None" by code_simp+
  obtain d where d: "append_all toy_sign toy_key 0 [1] sample_history = Some d"
    using chunk(7,8) payload_gone [of 1 sample_history]
    by (auto simp: appendEvidenceLedgerTx_def Let_def payload_of_def)
  have "backfill_chunk 1 1 (d\<lparr>BackfillCursor := Some 1\<rparr>) = backfill_chunk 1 1 sample_history"
    using append_all_tables [OF d] eligible_rows [of "d\<lparr>BackfillCursor := Some 1\<rparr>" sample_history 1 1]
    by (simp add: backfill_chunk_def)
  with chunk d obtain d' where "backfillEvidenceLedgerUpTo toy_sign toy_key 0 1 0 sample_history = (d', True)"
    by (simp add: backfillEvidenceLedgerUpTo.simps [of toy_sign toy_key 0 1] Let_def)
  then have r: "backfillEvidenceLedgerOnStartup toy_sign toy_key 0 sample_history = (d'\<lparr>Backfilled := True\<rparr>, True)"
    by (simp add: backfillEvidenceLedgerOnStartup_def Let_def chunk(3-5) chunk(6) [simplified])
  note b = backfill_is_exact [OF sample_history_wf(2,1) chunk(3,4) r refl]
  have "\<exists>b \<in> set (EventBatches sample_history). BatchRowID b = 1 \<and> backfill_eligible 1 0 sample_history b"
    and "\<not> (\<exists>b \<in> set (EventBatches sample_history). BatchRowID b = 2)" by code_simp+
  with b r chunk show ?thesis by auto
qed

end
