(* ===== verification/Store_Audit.thy ===== *)
theory Store_Audit
  imports Store_Ledger_Laws
begin

text \<open>
  The read-only audit of the evidence ledger (\<open>internal/store/audit.go\<close>) and the loop of
  \<open>tailstate evidence audit\<close> over its pages (\<open>cmd/tailstate/main.go\<close>). The database audited need not be
  one that the service wrote: nothing is assumed of its rows.
\<close>

subsection \<open>One page\<close>

definition evidenceAuditBatchSize :: int where "evidenceAuditBatchSize = 128"

record audit_options =
  AuditCursor :: int
  AuditLimit :: int
  TrustedPublicKey :: string
  MinSequence :: int
  ExpectHead :: string

record audit_result =
  AuditEntries :: int
  VerifiedEntries :: int
  UnverifiableEntries :: int
  FirstSequence :: int
  LastSequence :: int
  NextCursor :: int
  LatestSequence :: int
  AuditComplete :: bool
  HeadMatches :: bool
  StoredHead :: string
  ObservedHead :: string
  AuditKeyID :: string
  TrustedKey :: bool
  CheckpointVerified :: bool

text \<open>\<open>AuditFailure\<close> is an \<open>EvidenceAuditError\<close>: the sequence and the check that failed.\<close>

datatype audit_error = AuditRefused string | AuditFailure int string

definition NormalizeLedgerHead :: "string \<Rightarrow> string option" where
  "NormalizeLedgerHead value =
     (let head = to_lower (trim_space value)
      in if length head \<noteq> 64 then None
         else case hex_decode head of None \<Rightarrow> None | Some _ \<Rightarrow> Some head)"

definition ledger_rows :: "history_db \<Rightarrow> ledger_row list" where
  "ledger_rows db = sort_key LedgerSequence (Ledger db)"

definition entry_at :: "int \<Rightarrow> history_db \<Rightarrow> ledger_row option" where
  "entry_at s db = List.find (\<lambda>r. LedgerSequence r = s) (Ledger db)"

definition evidenceAuditLatest :: "history_db \<Rightarrow> int \<times> string" where
  "evidenceAuditLatest db =
     (if Ledger db = [] then (0, '''') else (LedgerSequence (last (ledger_rows db)), EntryHash (last (ledger_rows db))))"

definition evidenceAuditStoredHead :: "history_db \<Rightarrow> string" where
  "evidenceAuditStoredHead db = (case LedgerHead db of None \<Rightarrow> '''' | Some h \<Rightarrow> h)"

text \<open>The name of the check that fails, if any.\<close>

definition validateAuditEntry :: "ed25519_verify \<Rightarrow> ledger_row \<Rightarrow> string \<Rightarrow> bool \<Rightarrow> string \<Rightarrow> string option" where
  "validateAuditEntry verify entry public genesis label =
     (if LedgerSequence entry \<le> 0 then Some (label @ '' sequence'')
      else if length (EntryHash entry) \<noteq> 64 then Some (label @ '' hash'')
      else
        (case hex_decode (EntryHash entry) of
           None \<Rightarrow> Some (label @ '' hash'')
         | Some entryHash \<Rightarrow>
             if PrevHash entry \<noteq> '''' \<and> (length (PrevHash entry) \<noteq> 64 \<or> hex_decode (PrevHash entry) = None)
               then Some (label @ '' predecessor'')
             else if PrevHash entry = '''' \<and> \<not> genesis then Some (label @ '' predecessor'')
             else if LedgerKeyID entry \<noteq> evidenceKeyID public then Some (label @ '' key ID'')
             else
               (case decodeKeyMaterial (LedgerSignature entry) SignatureSize of
                  None \<Rightarrow> Some (label @ '' signature'')
                | Some signature \<Rightarrow>
                    if verify public entryHash signature then None else Some (label @ '' signature''))))"

text \<open>The loop over the entries of a page: what is checked of one entry, what is counted, and the loop.\<close>

definition check_entry ::
  "ed25519_verify \<Rightarrow> string \<Rightarrow> history_db \<Rightarrow> ledger_row \<Rightarrow> int \<Rightarrow> string \<Rightarrow> (int \<times> string) option" where
  "check_entry verify public db e expected previous =
     (let s = LedgerSequence e
      in if s \<noteq> expected then Some (s, ''sequence continuity'')
         else if 1 < s \<and> PrevHash e \<noteq> previous then Some (s, ''predecessor hash'')
         else if s = 1 \<and> PrevHash e \<noteq> '''' then Some (s, ''genesis predecessor'')
         else
           (case validateAuditEntry verify e public (s = 1) ''ledger entry'' of
              Some check \<Rightarrow> Some (s, check)
            | None \<Rightarrow>
                if LedgerBatchID e \<le> 0 then Some (s, ''batch reference'')
                else
                  (case evidenceLedgerPayload (LedgerBatchID e) db of
                     None \<Rightarrow> None
                   | Some (payload, _) \<Rightarrow>
                       if hex_encode (ledgerDigest (PrevHash e) payload) \<noteq> EntryHash e
                       then Some (s, ''canonical payload digest'') else None)))"

definition seen_entry :: "ledger_row \<Rightarrow> audit_result \<Rightarrow> audit_result" where
  "seen_entry e r =
     r\<lparr>FirstSequence := (if FirstSequence r = 0 then LedgerSequence e else FirstSequence r), AuditEntries := AuditEntries r + 1\<rparr>"

definition count_entry :: "history_db \<Rightarrow> ledger_row \<Rightarrow> audit_result \<Rightarrow> audit_result" where
  "count_entry db e r =
     r\<lparr>UnverifiableEntries := UnverifiableEntries r + (if evidenceLedgerPayload (LedgerBatchID e) db = None then 1 else 0),
       VerifiedEntries := VerifiedEntries r + 1, LastSequence := LedgerSequence e\<rparr>"

fun audit_entries ::
  "ed25519_verify \<Rightarrow> string \<Rightarrow> history_db \<Rightarrow> ledger_row list \<Rightarrow> int \<Rightarrow> string \<Rightarrow> audit_result
     \<Rightarrow> audit_result \<times> (int \<times> string) option" where
  "audit_entries verify public db [] expected previous r = (r, None)"
| "audit_entries verify public db (e # es) expected previous r =
     (case check_entry verify public db e expected previous of
        Some f \<Rightarrow> (seen_entry e r, Some f)
      | None \<Rightarrow> audit_entries verify public db es (expected + 1) (EntryHash e) (count_entry db e (seen_entry e r)))"

definition verifyAuditCheckpoint :: "history_db \<Rightarrow> int \<Rightarrow> string \<Rightarrow> int \<Rightarrow> (int \<times> string) option" where
  "verifyAuditCheckpoint db minSequence expectHead latest =
     (if latest < minSequence then Some (latest, ''checkpoint length'')
      else if expectHead = '''' then None
      else
        (case entry_at minSequence db of
           None \<Rightarrow> Some (minSequence, ''checkpoint head'')
         | Some e \<Rightarrow> if EntryHash e \<noteq> expectHead then Some (minSequence, ''checkpoint head'') else None))"

definition failed :: "audit_result \<Rightarrow> int \<times> string \<Rightarrow> audit_result \<times> audit_error option" where
  "failed r f = (r, Some (AuditFailure (fst f) (snd f)))"

text \<open>What follows the loop: whether the page reaches the end, and then the head and the checkpoint.\<close>

definition finish_page :: "history_db \<Rightarrow> audit_options \<Rightarrow> string \<Rightarrow> audit_result \<Rightarrow> audit_result \<times> audit_error option" where
  "finish_page db options expectHead r0 =
     (let r = (if AuditEntries r0 = 0 then r0\<lparr>LastSequence := AuditCursor options\<rparr> else r0)
      in if LatestSequence r \<le> LastSequence r then
           (let matches = (if LatestSequence r = 0 then StoredHead r = '''' else StoredHead r = ObservedHead r);
                r1 = r\<lparr>AuditComplete := True, NextCursor := 0, HeadMatches := matches\<rparr>
            in if \<not> matches then failed r1 (LatestSequence r, ''stored ledger head'')
               else if 0 < MinSequence options then
                 (case verifyAuditCheckpoint db (MinSequence options) expectHead (LatestSequence r) of
                    Some f \<Rightarrow> failed r1 f
                  | None \<Rightarrow> (r1\<lparr>CheckpointVerified := True\<rparr>, None))
               else (r1, None))
         else (r\<lparr>AuditComplete := False, NextCursor := LastSequence r\<rparr>, None))"

definition zero_audit :: audit_result where
  "zero_audit = \<lparr> AuditEntries = 0, VerifiedEntries = 0, UnverifiableEntries = 0, FirstSequence = 0, LastSequence = 0,
     NextCursor = 0, LatestSequence = 0, AuditComplete = False, HeadMatches = False, StoredHead = '''',
     ObservedHead = '''', AuditKeyID = '''', TrustedKey = False, CheckpointVerified = False \<rparr>"

definition page_limit :: "int \<Rightarrow> nat" where
  "page_limit limit = nat (min (if limit \<le> 0 then evidenceAuditBatchSize else limit) 1024)"

text \<open>The public key of the audit: the trusted one if it is given, else that of the instance.\<close>

definition audit_key :: "string \<Rightarrow> audit_options \<Rightarrow> string option" where
  "audit_key public options = (if TrustedPublicKey options = '''' then Some public else ParseEvidencePublicKey (TrustedPublicKey options))"

definition page_start :: "audit_options \<Rightarrow> history_db \<Rightarrow> string \<Rightarrow> audit_result" where
  "page_start options db public =
     zero_audit\<lparr>TrustedKey := (TrustedPublicKey options \<noteq> ''''), AuditKeyID := evidenceKeyID public,
       StoredHead := evidenceAuditStoredHead db, LatestSequence := fst (evidenceAuditLatest db),
       ObservedHead := snd (evidenceAuditLatest db)\<rparr>"

text \<open>The page after its anchor: \<open>previous\<close> is the hash of the entry at the cursor.\<close>

definition audit_page ::
  "ed25519_verify \<Rightarrow> string \<Rightarrow> audit_options \<Rightarrow> string \<Rightarrow> string \<Rightarrow> history_db \<Rightarrow> audit_result \<times> audit_error option" where
  "audit_page verify public options expectHead previous db =
     (let rows = take (page_limit (AuditLimit options)) (filter (\<lambda>e. AuditCursor options < LedgerSequence e) (ledger_rows db))
      in case audit_entries verify public db rows (AuditCursor options + 1) previous (page_start options db public) of
           (r, Some f) \<Rightarrow> failed r f
         | (r, None) \<Rightarrow> finish_page db options expectHead r)"

text \<open>The checkpoint hash expected, normalised; \<open>None\<close> if the options are refused.\<close>

definition expected_head :: "audit_options \<Rightarrow> string option" where
  "expected_head options =
     (if AuditCursor options < 0 \<or> MinSequence options < 0 then None
      else if ExpectHead options = '''' then Some ''''
      else if MinSequence options = 0 then None
      else NormalizeLedgerHead (ExpectHead options))"

definition AuditEvidenceLedger ::
  "ed25519_verify \<Rightarrow> string \<Rightarrow> audit_options \<Rightarrow> history_db \<Rightarrow> audit_result \<times> audit_error option" where
  "AuditEvidenceLedger verify own options db =
     (case expected_head options of
        None \<Rightarrow> (zero_audit, Some (AuditRefused ''options''))
      | Some expectHead \<Rightarrow>
          (case audit_key own options of
             None \<Rightarrow> (zero_audit, Some (AuditRefused ''trusted key''))
           | Some public \<Rightarrow>
               if length public \<noteq> PublicKeySize
                 then (zero_audit\<lparr>TrustedKey := (TrustedPublicKey options \<noteq> '''')\<rparr>, Some (AuditRefused ''public key''))
               else if AuditCursor options = 0 then audit_page verify public options expectHead '''' db
               else
                 (case entry_at (AuditCursor options) db of
                    None \<Rightarrow> failed (page_start options db public) (AuditCursor options, ''resume cursor is missing'')
                  | Some anchor \<Rightarrow>
                      (case validateAuditEntry verify anchor public (AuditCursor options = 1) ''resume cursor'' of
                         Some check \<Rightarrow> failed (page_start options db public) (AuditCursor options, check)
                       | None \<Rightarrow> audit_page verify public options expectHead (EntryHash anchor) db))))"

subsection \<open>The whole ledger, page by page\<close>

record audit_totals =
  TotalEntries :: int
  TotalVerified :: int
  TotalUnverifiable :: int
  TotalCheckpoint :: bool

datatype audit_end = AuditError audit_error | NotAdvanced

definition add_page :: "audit_totals \<Rightarrow> audit_result \<Rightarrow> audit_totals" where
  "add_page t r =
     \<lparr> TotalEntries = TotalEntries t + AuditEntries r, TotalVerified = TotalVerified t + VerifiedEntries r,
       TotalUnverifiable = TotalUnverifiable t + UnverifiableEntries r, TotalCheckpoint = CheckpointVerified r \<rparr>"

text \<open>A page that is accepted.\<close>

lemma accepted_page:
  assumes "AuditEvidenceLedger verify own options db = (r, None)"
  obtains public expectHead previous r2 where "audit_key own options = Some public" "length public = PublicKeySize"
    "expected_head options = Some expectHead"
    "AuditCursor options = 0 \<and> previous = ''''
      \<or> AuditCursor options \<noteq> 0 \<and> (\<exists>anchor. entry_at (AuditCursor options) db = Some anchor \<and> previous = EntryHash anchor
           \<and> validateAuditEntry verify anchor public (AuditCursor options = 1) ''resume cursor'' = None)"
    "audit_entries verify public db (take (page_limit (AuditLimit options))
        (filter (\<lambda>e. AuditCursor options < LedgerSequence e) (ledger_rows db))) (AuditCursor options + 1) previous
        (page_start options db public) = (r2, None)"
    "finish_page db options expectHead r2 = (r, None)"
proof -
  obtain expectHead where h: "expected_head options = Some expectHead"
    using assms by (auto simp: AuditEvidenceLedger_def split: option.splits)
  obtain public where k: "audit_key own options = Some public" "length public = PublicKeySize"
    using assms h by (auto simp: AuditEvidenceLedger_def split: option.splits if_splits)
  obtain previous where p: "AuditCursor options = 0 \<and> previous = ''''
      \<or> AuditCursor options \<noteq> 0 \<and> (\<exists>anchor. entry_at (AuditCursor options) db = Some anchor \<and> previous = EntryHash anchor
           \<and> validateAuditEntry verify anchor public (AuditCursor options = 1) ''resume cursor'' = None)"
    and page: "audit_page verify public options expectHead previous db = (r, None)"
  proof (cases "AuditCursor options = 0")
    case True
    then show ?thesis using assms h k that [of "''''"] by (simp add: AuditEvidenceLedger_def)
  next
    case False
    then obtain anchor where a: "entry_at (AuditCursor options) db = Some anchor"
      using assms h k by (auto simp: AuditEvidenceLedger_def failed_def split: option.splits)
    then have "validateAuditEntry verify anchor public (AuditCursor options = 1) ''resume cursor'' = None"
      using assms h k False by (auto simp: AuditEvidenceLedger_def failed_def split: option.splits)
    with a show ?thesis using assms h k False that [of "EntryHash anchor"] by (simp add: AuditEvidenceLedger_def)
  qed
  from page obtain r2 where "audit_entries verify public db (take (page_limit (AuditLimit options))
        (filter (\<lambda>e. AuditCursor options < LedgerSequence e) (ledger_rows db))) (AuditCursor options + 1) previous
        (page_start options db public) = (r2, None)" "finish_page db options expectHead r2 = (r, None)"
    by (auto simp: audit_page_def failed_def Let_def split: prod.splits option.splits)
  then show ?thesis by (rule that [OF k h p])
qed

lemma audit_entries_keep:
  "LatestSequence (fst (audit_entries verify public db es expected previous r)) = LatestSequence r"
  "StoredHead (fst (audit_entries verify public db es expected previous r)) = StoredHead r"
  "ObservedHead (fst (audit_entries verify public db es expected previous r)) = ObservedHead r"
  "CheckpointVerified (fst (audit_entries verify public db es expected previous r)) = CheckpointVerified r"
  by (induction es arbitrary: expected previous r)
    (simp_all add: seen_entry_def count_entry_def split: option.split)

lemma incomplete_page:
  assumes "AuditEvidenceLedger verify own options db = (r, None)" and "\<not> AuditComplete r"
  shows "NextCursor r < fst (evidenceAuditLatest db)"
  using assms(1)
proof (cases rule: accepted_page)
  case (1 public expectHead previous r2)
  then have "NextCursor r < LatestSequence r2"
    using assms(2) by (auto simp: finish_page_def failed_def Let_def split: if_splits option.splits)
  moreover have "LatestSequence r2 = fst (evidenceAuditLatest db)"
    using arg_cong [OF 1(5), of "\<lambda>x. LatestSequence (fst x)"] by (simp add: audit_entries_keep page_start_def)
  ultimately show ?thesis by simp
qed

text \<open>The loop of the command; each page is read from the same database.\<close>

function audit_loop ::
  "ed25519_verify \<Rightarrow> string \<Rightarrow> audit_options \<Rightarrow> history_db \<Rightarrow> int \<Rightarrow> audit_totals \<Rightarrow> audit_end + audit_totals" where
  "audit_loop verify own options db cursor totals =
     (case AuditEvidenceLedger verify own (options\<lparr>AuditCursor := cursor\<rparr>) db of
        (r, Some e) \<Rightarrow> Inl (AuditError e)
      | (r, None) \<Rightarrow>
          if AuditComplete r then Inr (add_page totals r)
          else if NextCursor r \<le> cursor then Inl NotAdvanced
          else audit_loop verify own options db (NextCursor r) (add_page totals r))"
  by pat_completeness auto
termination
proof (relation "measure (\<lambda>(verify, own, options, db, cursor, totals). nat (fst (evidenceAuditLatest db) - cursor))")
  fix verify own db and cursor :: int and totals r e and options :: audit_options
  assume "(r, e) = AuditEvidenceLedger verify own (options\<lparr>AuditCursor := cursor\<rparr>) db" "e = None" "\<not> AuditComplete r"
    and "\<not> NextCursor r \<le> cursor"
  then show "((verify, own, options, db, NextCursor r, add_page totals r), (verify, own, options, db, cursor, totals))
      \<in> measure (\<lambda>(verify, own, options, db, cursor, totals). nat (fst (evidenceAuditLatest db) - cursor))"
    using incomplete_page [of verify own "options\<lparr>AuditCursor := cursor\<rparr>" db r] by simp
qed simp

declare audit_loop.simps [simp del]

definition zero_totals :: audit_totals where
  "zero_totals = \<lparr> TotalEntries = 0, TotalVerified = 0, TotalUnverifiable = 0, TotalCheckpoint = False \<rparr>"

definition evidenceAudit :: "ed25519_verify \<Rightarrow> string \<Rightarrow> audit_options \<Rightarrow> history_db \<Rightarrow> audit_end + audit_totals" where
  "evidenceAudit verify own options db = audit_loop verify own options db 0 zero_totals"

end
