(* ===== verification/Store_Audit_Laws.thy ===== *)
theory Store_Audit_Laws
  imports Store_Audit
begin

text \<open>
  What an audit that ends without an error shows, for any database, and that it does end so for a ledger
  the service wrote.
\<close>

subsection \<open>Linked entries\<close>

fun linked :: "ed25519_verify \<Rightarrow> string \<Rightarrow> history_db \<Rightarrow> ledger_row list \<Rightarrow> int \<Rightarrow> string \<Rightarrow> bool" where
  "linked verify public db [] n previous \<longleftrightarrow> True"
| "linked verify public db (e # es) n previous \<longleftrightarrow>
     check_entry verify public db e n previous = None \<and> linked verify public db es (n + 1) (EntryHash e)"

definition payload_gone_at :: "history_db \<Rightarrow> ledger_row \<Rightarrow> bool" where
  "payload_gone_at db e \<longleftrightarrow> evidenceLedgerPayload (LedgerBatchID e) db = None"

lemma check_entry_None:
  "check_entry verify public db e n previous = None \<longleftrightarrow>
     LedgerSequence e = n \<and> (1 < n \<longrightarrow> PrevHash e = previous) \<and> (n = 1 \<longrightarrow> PrevHash e = '''')
     \<and> validateAuditEntry verify e public (n = 1) ''ledger entry'' = None \<and> 0 < LedgerBatchID e \<and> entry_true db e"
  by (auto simp: check_entry_def Let_def entry_true_def payload_of_def split: option.splits prod.splits)

lemma linked_append:
  "linked verify public db (xs @ ys) n previous \<longleftrightarrow>
     linked verify public db xs n previous
     \<and> linked verify public db ys (n + int (length xs)) (if xs = [] then previous else EntryHash (last xs))"
  by (induction xs arbitrary: n previous) (auto simp: add.assoc add.commute)

lemma linked_sequences: "linked verify public db es n previous \<Longrightarrow> map LedgerSequence es = [n..n + int (length es) - 1]"
proof (induction es arbitrary: n previous)
  case (Cons e es)
  then have "map LedgerSequence es = [n + 1..n + int (length es)]" "LedgerSequence e = n"
    by (auto simp: check_entry_None)
  then show ?case by (simp add: upto_rec1)
qed simp

lemma linked_nth:
  assumes "linked verify public db es n previous" and "i < length es"
  shows "LedgerSequence (es ! i) = n + int i" and "entry_true db (es ! i)"
    and "validateAuditEntry verify (es ! i) public (n + int i = 1) ''ledger entry'' = None"
    and "1 < n + int i \<Longrightarrow> PrevHash (es ! i) = (if i = 0 then previous else EntryHash (es ! (i - 1)))"
    and "n + int i = 1 \<Longrightarrow> PrevHash (es ! i) = ''''"
proof -
  have "es = take i es @ es ! i # drop (Suc i) es" using assms(2) by (simp add: id_take_nth_drop)
  then have c: "check_entry verify public db (es ! i) (n + int i) (if take i es = [] then previous else EntryHash (last (take i es))) = None"
    using assms linked_append [of verify public db "take i es" "es ! i # drop (Suc i) es" n previous] by simp
  have l: "take i es \<noteq> [] \<Longrightarrow> last (take i es) = es ! (i - 1)"
    using assms(2) by (simp add: last_conv_nth)
  show "LedgerSequence (es ! i) = n + int i" "entry_true db (es ! i)"
    "validateAuditEntry verify (es ! i) public (n + int i = 1) ''ledger entry'' = None"
    "1 < n + int i \<Longrightarrow> PrevHash (es ! i) = (if i = 0 then previous else EntryHash (es ! (i - 1)))"
    "n + int i = 1 \<Longrightarrow> PrevHash (es ! i) = ''''"
    using c l assms(2) by (auto simp: check_entry_None split: if_splits)
qed

lemma linked_chain: "linked verify public db es 1 '''' \<Longrightarrow> ledger_chain '''' es"
proof -
  have "linked verify public db es n previous \<Longrightarrow> 0 < n \<Longrightarrow> n = 1 \<longrightarrow> previous = '''' \<Longrightarrow> ledger_chain previous es" for n previous
    by (induction es arbitrary: n previous) (auto simp: check_entry_None)
  then show "linked verify public db es 1 '''' \<Longrightarrow> ledger_chain '''' es" by simp
qed

lemma audit_entries_linked:
  "snd (audit_entries verify public db es n previous r) = None \<longleftrightarrow> linked verify public db es n previous"
  by (induction es arbitrary: n previous r) (auto split: option.splits)

lemma audit_entries_count:
  assumes "audit_entries verify public db es n previous r = (r2, None)"
  shows "AuditEntries r2 = AuditEntries r + int (length es)
    \<and> UnverifiableEntries r2 = UnverifiableEntries r + int (length (filter (payload_gone_at db) es))
    \<and> VerifiedEntries r2 = VerifiedEntries r + int (length es)
    \<and> LastSequence r2 = (if es = [] then LastSequence r else n + int (length es) - 1)"
  using assms
proof (induction es arbitrary: n previous r)
  case (Cons e es)
  then have c: "check_entry verify public db e n previous = None"
    and r: "audit_entries verify public db es (n + 1) (EntryHash e) (count_entry db e (seen_entry e r)) = (r2, None)"
    by (auto split: option.splits)
  from Cons.IH [OF r] c show ?case
    by (auto simp: count_entry_def seen_entry_def payload_gone_at_def check_entry_None)
qed simp

subsection \<open>The rows an audit reads\<close>

text \<open>The sequence is the primary key of the table.\<close>

definition sequence_key :: "history_db \<Rightarrow> bool" where
  "sequence_key db \<longleftrightarrow> distinct (map LedgerSequence (Ledger db))"

definition numbered :: "history_db \<Rightarrow> ledger_row list" where
  "numbered db = filter (\<lambda>e. 0 < LedgerSequence e) (ledger_rows db)"

lemma rows_set [simp]: "set (ledger_rows db) = set (Ledger db)"
  by (simp add: ledger_rows_def)

lemma rows_sorted: "sequence_key db \<Longrightarrow> sorted_wrt (\<lambda>a b. LedgerSequence a < LedgerSequence b) (ledger_rows db)"
proof -
  assume "sequence_key db"
  then have "distinct (map LedgerSequence (ledger_rows db))" by (simp add: sequence_key_def ledger_rows_def distinct_map)
  then have "sorted_wrt (<) (map LedgerSequence (ledger_rows db))"
    by (simp add: strict_sorted_iff ledger_rows_def)
  then show ?thesis by (simp add: sorted_wrt_map)
qed

lemma numbered_sorted: "sequence_key db \<Longrightarrow> sorted_wrt (\<lambda>a b. LedgerSequence a < LedgerSequence b) (numbered db)"
  unfolding numbered_def by (rule sorted_wrt_filter [OF rows_sorted])

lemma same_entry: "sequence_key db \<Longrightarrow> a \<in> set (Ledger db) \<Longrightarrow> b \<in> set (Ledger db) \<Longrightarrow> LedgerSequence a = LedgerSequence b \<Longrightarrow> a = b"
  by (auto simp: sequence_key_def distinct_map dest: inj_onD)

lemma entry_at_Some: "entry_at s db = Some a \<Longrightarrow> a \<in> set (Ledger db) \<and> LedgerSequence a = s"
  by (auto simp: entry_at_def find_Some_iff)

lemma numbered_in: "e \<in> set (numbered db) \<Longrightarrow> e \<in> set (Ledger db) \<and> 0 < LedgerSequence e"
  by (simp add: numbered_def)

text \<open>After entries that are linked from 1, the page starts at the next one.\<close>

lemma page_rows:
  assumes "sequence_key db" and "c \<le> length (numbered db)" and "linked verify public db (take c (numbered db)) 1 ''''"
  shows "filter (\<lambda>e. int c < LedgerSequence e) (ledger_rows db) = drop c (numbered db)"
proof -
  let ?R = "numbered db"
  have front: "map LedgerSequence (take c ?R) = [1..int c]" using linked_sequences [OF assms(3)] assms(2) by simp
  then have low: "\<forall>e \<in> set (take c ?R). \<not> int c < LedgerSequence e"
    by (metis atLeastAtMost_iff image_eqI list.set_map not_less set_upto)
  have high: "int c < LedgerSequence e" if e: "e \<in> set (drop c ?R)" for e
  proof (cases "c = 0")
    case True
    then show ?thesis using e numbered_in by simp
  next
    case False
    have s: "sorted_wrt (\<lambda>a b. LedgerSequence a < LedgerSequence b) (take c ?R @ drop c ?R)"
      using numbered_sorted [OF assms(1)] by simp
    have "int c \<in> set (map LedgerSequence (take c ?R))" unfolding front using False by simp
    then obtain x where "x \<in> set (take c ?R)" "LedgerSequence x = int c" by auto
    with s e show ?thesis unfolding sorted_wrt_append by fastforce
  qed
  have "filter (\<lambda>e. int c < LedgerSequence e) (ledger_rows db) = filter (\<lambda>e. int c < LedgerSequence e) ?R"
    by (auto simp: numbered_def intro!: filter_cong)
  also have "\<dots> = filter (\<lambda>e. int c < LedgerSequence e) (take c ?R) @ filter (\<lambda>e. int c < LedgerSequence e) (drop c ?R)"
    by (metis append_take_drop_id filter_append)
  also have "\<dots> = drop c ?R" using low high by (simp add: filter_empty_conv filter_id_conv)
  finally show ?thesis .
qed

lemma last_row:
  assumes "sequence_key db" and "e \<in> set (numbered db)"
  shows "last (ledger_rows db) = last (numbered db)" and "evidenceAuditLatest db = (LedgerSequence (last (numbered db)), EntryHash (last (numbered db)))"
    and "LedgerSequence e \<le> fst (evidenceAuditLatest db)"
proof -
  have ne: "Ledger db \<noteq> []" "numbered db \<noteq> []" "ledger_rows db \<noteq> []"
    using assms(2) numbered_in [OF assms(2)] by (auto simp flip: set_empty2)
  have split: "ledger_rows db = butlast (ledger_rows db) @ [last (ledger_rows db)]" using ne(3) by simp
  have top: "LedgerSequence x \<le> LedgerSequence (last (ledger_rows db))" if "x \<in> set (Ledger db)" for x
  proof -
    have "x \<in> set (butlast (ledger_rows db)) \<or> x = last (ledger_rows db)"
      using that arg_cong [OF split, of set] by auto
    moreover have "sorted_wrt (\<lambda>a b. LedgerSequence a < LedgerSequence b) (butlast (ledger_rows db) @ [last (ledger_rows db)])"
      using rows_sorted [OF assms(1)] split by simp
    ultimately show ?thesis unfolding sorted_wrt_append by fastforce
  qed
  have "0 < LedgerSequence (last (ledger_rows db))" using top numbered_in [OF assms(2)] by fastforce
  then show last: "last (ledger_rows db) = last (numbered db)"
    unfolding numbered_def by (subst (2) split) simp
  show "evidenceAuditLatest db = (LedgerSequence (last (numbered db)), EntryHash (last (numbered db)))"
    using ne last by (simp add: evidenceAuditLatest_def)
  show "LedgerSequence e \<le> fst (evidenceAuditLatest db)"
    using top numbered_in [OF assms(2)] ne by (simp add: evidenceAuditLatest_def)
qed

subsection \<open>An accepted page\<close>

lemma page_start_fields:
  "LatestSequence (page_start options db public) = fst (evidenceAuditLatest db)"
  "ObservedHead (page_start options db public) = snd (evidenceAuditLatest db)"
  "StoredHead (page_start options db public) = evidenceAuditStoredHead db"
  "AuditEntries (page_start options db public) = 0" "UnverifiableEntries (page_start options db public) = 0"
  "VerifiedEntries (page_start options db public) = 0" "LastSequence (page_start options db public) = 0"
  "CheckpointVerified (page_start options db public) = False"
  by (simp_all add: page_start_def zero_audit_def)

text \<open>An accepted page links the entries it reads to those before it.\<close>

lemma page_links:
  assumes key: "sequence_key db" and c: "c \<le> length (numbered db)" and audit: "audit_key own options = Some public"
    and front: "linked verify public db (take c (numbered db)) 1 ''''"
    and page: "AuditEvidenceLedger verify own (options\<lparr>AuditCursor := int c\<rparr>) db = (r, None)"
  obtains d r2 expectHead where "c \<le> d" "d \<le> length (numbered db)" "linked verify public db (take d (numbered db)) 1 ''''"
    "expected_head (options\<lparr>AuditCursor := int c\<rparr>) = Some expectHead"
    "finish_page db (options\<lparr>AuditCursor := int c\<rparr>) expectHead r2 = (r, None)"
    "AuditEntries r2 = int (d - c)" "AuditEntries r2 = 0 \<or> LastSequence r2 = int d"
    "UnverifiableEntries r2 = int (length (filter (payload_gone_at db) (take (d - c) (drop c (numbered db)))))"
    "LatestSequence r2 = fst (evidenceAuditLatest db)" "ObservedHead r2 = snd (evidenceAuditLatest db)"
    "StoredHead r2 = evidenceAuditStoredHead db" "CheckpointVerified r2 = False"
  using page
proof (cases rule: accepted_page)
  case (1 public' expectHead previous r2)
  let ?R = "numbered db" and ?n = "page_limit (AuditLimit options)"
  have p: "public' = public" using 1(1) audit by (simp add: audit_key_def split: if_splits)
  define es where "es = take ?n (drop c ?R)"
  define d where "d = c + length es"
  have dc: "c \<le> d" "d \<le> length ?R" "length es = d - c" using c by (auto simp: d_def es_def)
  have es0: "es = take (length es) (drop c ?R)"
    unfolding es_def by (cases "?n \<le> length (drop c ?R)") simp_all
  have es: "es = take (d - c) (drop c ?R)" using es0 unfolding dc(3) .
  have run: "audit_entries verify public db es (int c + 1) previous (page_start (options\<lparr>AuditCursor := int c\<rparr>) db public) = (r2, None)"
    using 1(5) page_rows [OF key c front] by (simp add: p es_def)
  have previous: "previous = (if take c ?R = [] then '''' else EntryHash (last (take c ?R)))"
  proof (cases "c = 0")
    case True
    then show ?thesis using 1(4) by simp
  next
    case False
    then obtain a where a: "entry_at (int c) db = Some a" "previous = EntryHash a" using 1(4) by auto
    have ne: "take c ?R \<noteq> []" using False c by auto
    have "length (take c ?R) = c" using c by simp
    then have "last (take c ?R) = take c ?R ! (c - 1)" using ne by (metis last_conv_nth)
    moreover have "LedgerSequence (take c ?R ! (c - 1)) = int c"
      using linked_nth(1) [OF front, of "c - 1"] False c by simp
    ultimately have s: "LedgerSequence (last (take c ?R)) = int c" by simp
    have "last (take c ?R) \<in> set ?R" using ne by (meson in_set_takeD last_in_set)
    then have "a = last (take c ?R)"
      using same_entry [OF key] entry_at_Some [OF a(1)] s numbered_in by metis
    with a ne show ?thesis by simp
  qed
  have "linked verify public db es (int c + 1) previous"
    using run audit_entries_linked [of verify public db es "int c + 1" previous] by (metis snd_conv)
  moreover have "take d ?R = take c ?R @ es" unfolding d_def take_add es0 [symmetric] ..
  ultimately have linked: "linked verify public db (take d ?R) 1 ''''"
    using front c previous by (simp add: linked_append min_absorb2 add.commute)
  note count = audit_entries_count [OF run, unfolded page_start_fields]
  let ?start = "page_start (options\<lparr>AuditCursor := int c\<rparr>) db public"
  note keep = audit_entries_keep [of verify public db es "int c + 1" previous ?start, unfolded run fst_conv page_start_fields]
  have n: "AuditEntries r2 = int (d - c)" using count by (simp add: dc(3))
  have l: "AuditEntries r2 = 0 \<or> LastSequence r2 = int d"
  proof (cases "es = []")
    case True
    then show ?thesis using count by simp
  next
    case False
    then show ?thesis using count by (simp add: d_def)
  qed
  have u: "UnverifiableEntries r2 = int (length (filter (payload_gone_at db) (take (d - c) (drop c ?R))))"
    using count unfolding es [symmetric] by simp
  show ?thesis by (rule that [OF dc(1,2) linked 1(3,6) n l u keep(1,3,2,4)])
qed

text \<open>What the last page adds.\<close>

lemma last_page:
  assumes key: "sequence_key db" and d: "d \<le> length (numbered db)" "linked verify public db (take d (numbered db)) 1 ''''"
    and finish: "finish_page db options expectHead r2 = (r, None)" "AuditComplete r"
    and r2: "LatestSequence r2 = fst (evidenceAuditLatest db)" "ObservedHead r2 = snd (evidenceAuditLatest db)"
      "StoredHead r2 = evidenceAuditStoredHead db"
    and reached: "(if AuditEntries r2 = 0 then AuditCursor options else LastSequence r2) = int d"
  shows "d = length (numbered db)"
    and "numbered db \<noteq> [] \<Longrightarrow> evidenceAuditStoredHead db = EntryHash (last (numbered db))"
    and "0 < MinSequence options \<Longrightarrow> MinSequence options \<le> int (length (numbered db))
      \<and> (expectHead \<noteq> '''' \<longrightarrow> EntryHash (numbered db ! (nat (MinSequence options) - 1)) = expectHead)"
proof -
  let ?R = "numbered db"
  have latest: "fst (evidenceAuditLatest db) \<le> int d"
    using finish r2 reached by (auto simp: finish_page_def failed_def Let_def split: if_splits option.splits)
  show all: "d = length ?R"
  proof (rule ccontr)
    assume "d \<noteq> length ?R"
    then have i: "d < length ?R" using d(1) by simp
    have "?R ! d \<in> set (ledger_rows db)" using i numbered_in by (metis nth_mem rows_set)
    moreover have "?R ! d \<in> set (drop d ?R)" using i by (metis Cons_nth_drop_Suc list.set_intros(1))
    ultimately have "int d < LedgerSequence (?R ! d)" using arg_cong [OF page_rows [OF key d], of set] by auto
    moreover have "LedgerSequence (?R ! d) \<le> fst (evidenceAuditLatest db)" by (rule last_row(3) [OF key nth_mem [OF i]])
    ultimately show False using latest by simp
  qed
  have linked: "linked verify public db ?R 1 ''''" using d(2) all by simp
  show head: "evidenceAuditStoredHead db = EntryHash (last ?R)" if ne: "?R \<noteq> []"
  proof -
    have "fst (evidenceAuditLatest db) \<noteq> 0"
      using last_row(3) [OF key last_in_set [OF ne]] numbered_in [OF last_in_set [OF ne]] by linarith
    then have "evidenceAuditStoredHead db = snd (evidenceAuditLatest db)"
      using finish r2 reached by (auto simp: finish_page_def failed_def Let_def split: if_splits option.splits)
    then show ?thesis using last_row(2) [OF key last_in_set [OF ne]] by simp
  qed
  assume m: "0 < MinSequence options"
  then have check: "verifyAuditCheckpoint db (MinSequence options) expectHead (fst (evidenceAuditLatest db)) = None"
    using finish r2 reached by (auto simp: finish_page_def failed_def Let_def split: if_splits option.splits)
  then have "MinSequence options \<le> fst (evidenceAuditLatest db)" by (auto simp: verifyAuditCheckpoint_def split: if_splits)
  then have le: "MinSequence options \<le> int (length ?R)" using latest all by simp
  have "EntryHash (?R ! (nat (MinSequence options) - 1)) = expectHead" if h: "expectHead \<noteq> ''''"
  proof -
    obtain e where e: "entry_at (MinSequence options) db = Some e" "EntryHash e = expectHead"
      using check h by (auto simp: verifyAuditCheckpoint_def split: if_splits option.splits)
    let ?x = "?R ! (nat (MinSequence options) - 1)"
    have i: "nat (MinSequence options) - 1 < length ?R" using le m by linarith
    have "LedgerSequence ?x = MinSequence options" using linked_nth(1) [OF linked i] m by simp
    then have "?x = e" using same_entry [OF key] entry_at_Some [OF e(1)] numbered_in [OF nth_mem [OF i]] by metis
    with e show ?thesis by simp
  qed
  with le show "MinSequence options \<le> int (length ?R)
      \<and> (expectHead \<noteq> '''' \<longrightarrow> EntryHash (?R ! (nat (MinSequence options) - 1)) = expectHead)" by blast
qed

subsection \<open>The whole audit\<close>

text \<open>The entries that an audit with a checkpoint accepts.\<close>

definition ledger_audited :: "ed25519_verify \<Rightarrow> string \<Rightarrow> audit_options \<Rightarrow> history_db \<Rightarrow> bool" where
  "ledger_audited verify public options db \<longleftrightarrow>
     linked verify public db (numbered db) 1 ''''
     \<and> (numbered db \<noteq> [] \<longrightarrow> evidenceAuditStoredHead db = EntryHash (last (numbered db)))
     \<and> (0 < MinSequence options \<longrightarrow> MinSequence options \<le> int (length (numbered db))
         \<and> (ExpectHead options \<noteq> '''' \<longrightarrow>
              NormalizeLedgerHead (ExpectHead options) = Some (EntryHash (numbered db ! (nat (MinSequence options) - 1)))))"

lemma normalized_head: "NormalizeLedgerHead v = Some h \<Longrightarrow> length h = 64"
  by (auto simp: NormalizeLedgerHead_def Let_def split: if_splits option.splits)

lemma audit_loop_sound:
  assumes "sequence_key db" and "audit_key own options = Some public" and "c \<le> length (numbered db)"
    and "linked verify public db (take c (numbered db)) 1 ''''"
    and "audit_loop verify own options db (int c) totals = Inr result"
  shows "ledger_audited verify public options db
    \<and> TotalEntries result = TotalEntries totals + int (length (numbered db) - c)
    \<and> TotalUnverifiable result = TotalUnverifiable totals + int (length (filter (payload_gone_at db) (drop c (numbered db))))"
  using assms(3-5)
proof (induction "length (numbered db) - c" arbitrary: c totals rule: less_induct)
  case less
  obtain r where page: "AuditEvidenceLedger verify own (options\<lparr>AuditCursor := int c\<rparr>) db = (r, None)"
    using less.prems(3) by (subst (asm) audit_loop.simps) (auto split: option.splits prod.splits)
  obtain d r2 expectHead where d: "c \<le> d" "d \<le> length (numbered db)" "linked verify public db (take d (numbered db)) 1 ''''"
      "expected_head (options\<lparr>AuditCursor := int c\<rparr>) = Some expectHead"
      "finish_page db (options\<lparr>AuditCursor := int c\<rparr>) expectHead r2 = (r, None)"
      "AuditEntries r2 = int (d - c)" "AuditEntries r2 = 0 \<or> LastSequence r2 = int d"
      "UnverifiableEntries r2 = int (length (filter (payload_gone_at db) (take (d - c) (drop c (numbered db)))))"
      "LatestSequence r2 = fst (evidenceAuditLatest db)" "ObservedHead r2 = snd (evidenceAuditLatest db)"
      "StoredHead r2 = evidenceAuditStoredHead db" "CheckpointVerified r2 = False"
    by (rule page_links [OF assms(1) less.prems(1) assms(2) less.prems(2) page])
  have counts: "AuditEntries r = AuditEntries r2" "UnverifiableEntries r = UnverifiableEntries r2"
    using d(5) by (auto simp: finish_page_def failed_def Let_def split: if_splits option.splits)
  show ?case
  proof (cases "AuditComplete r")
    case True
    have "result = add_page totals r"
      using less.prems(3) page True by (subst (asm) audit_loop.simps) simp
    moreover have reached: "(if AuditEntries r2 = 0 then AuditCursor (options\<lparr>AuditCursor := int c\<rparr>) else LastSequence r2) = int d"
      using d(1,6,7) by auto
    note last = last_page [OF assms(1) d(2,3,5) True d(9-11) reached]
    have "ledger_audited verify public options db"
      using last d(3,4) normalized_head [of "ExpectHead options" expectHead]
      by (auto simp: ledger_audited_def expected_head_def split: if_splits)
    ultimately show ?thesis using counts d(1,6,8) last(1) by (simp add: add_page_def)
  next
    case False
    have advance: "c < d" and next_cursor: "NextCursor r = int d"
      and rest: "audit_loop verify own options db (int d) (add_page totals r) = Inr result"
    proof -
      have n: "NextCursor r = (if AuditEntries r2 = 0 then int c else LastSequence r2)"
        using d(5) False by (auto simp: finish_page_def failed_def Let_def split: if_splits option.splits)
      have go: "\<not> NextCursor r \<le> int c" "audit_loop verify own options db (NextCursor r) (add_page totals r) = Inr result"
        using less.prems(3) page False by (subst (asm) audit_loop.simps, auto split: if_splits)+
      then show "NextCursor r = int d" using n d(7) by auto
      with go show "c < d" "audit_loop verify own options db (int d) (add_page totals r) = Inr result" by auto
    qed
    have less_rows: "length (numbered db) - d < length (numbered db) - c" using advance d(2) by simp
    have split: "drop c (numbered db) = take (d - c) (drop c (numbered db)) @ drop d (numbered db)"
      using d(1) by (metis add_diff_inverse_nat append_take_drop_id drop_drop le_add_diff_inverse2 not_less)
    from less.hyps [OF less_rows d(2,3) rest] counts d(1,2,6,8) show ?thesis
      by (subst split) (simp add: add_page_def)
  qed
qed

subsection \<open>A true ledger passes\<close>

lemma validated_signature:
  assumes "validateAuditEntry verify e public genesis label = None"
  shows "LedgerKeyID e = evidenceKeyID public
    \<and> (\<exists>hash signature. hex_decode (EntryHash e) = Some hash \<and> decodeKeyMaterial (LedgerSignature e) SignatureSize = Some signature
         \<and> verify public hash signature)"
  using assms by (auto simp: validateAuditEntry_def split: if_splits option.splits)

lemma validate_label:
  "validateAuditEntry verify e public genesis l = None \<longleftrightarrow> validateAuditEntry verify e public genesis l' = None"
  by (auto simp: validateAuditEntry_def split: option.splits if_splits)

lemma entry_at_numbered:
  assumes "sequence_key db" and "linked verify public db (numbered db) 1 ''''" and "i < length (numbered db)"
  shows "entry_at (int i + 1) db = Some (numbered db ! i)"
proof -
  have s: "LedgerSequence (numbered db ! i) = int i + 1" using linked_nth(1) [OF assms(2,3)] by simp
  have m: "numbered db ! i \<in> set (Ledger db)" using numbered_in [OF nth_mem [OF assms(3)]] by blast
  then obtain a where a: "entry_at (int i + 1) db = Some a"
    using s by (cases "entry_at (int i + 1) db") (auto simp: entry_at_def find_None_iff)
  then show ?thesis using same_entry [OF assms(1)] entry_at_Some [OF a] m s by metis
qed

lemma latest_numbered:
  assumes "sequence_key db" and "linked verify public db (numbered db) 1 ''''" and "numbered db = ledger_rows db"
  shows "fst (evidenceAuditLatest db) = int (length (numbered db))"
    and "numbered db \<noteq> [] \<Longrightarrow> snd (evidenceAuditLatest db) = EntryHash (last (numbered db))"
proof -
  have e: "evidenceAuditLatest db = (LedgerSequence (last (numbered db)), EntryHash (last (numbered db)))"
    and l: "LedgerSequence (last (numbered db)) = int (length (numbered db))" if ne: "numbered db \<noteq> []"
  proof -
    show "evidenceAuditLatest db = (LedgerSequence (last (numbered db)), EntryHash (last (numbered db)))"
      by (rule last_row(2) [OF assms(1) last_in_set [OF ne]])
    show "LedgerSequence (last (numbered db)) = int (length (numbered db))"
      using linked_nth(1) [OF assms(2), of "length (numbered db) - 1"] ne by (simp add: last_conv_nth of_nat_diff Suc_le_eq)
  qed
  have z: "evidenceAuditLatest db = (0, '''')" if "numbered db = []"
    using that assms(3) rows_set [of db] by (simp add: evidenceAuditLatest_def)
  show "fst (evidenceAuditLatest db) = int (length (numbered db))"
    using e l z by (cases "numbered db = []") simp_all
  show "numbered db \<noteq> [] \<Longrightarrow> snd (evidenceAuditLatest db) = EntryHash (last (numbered db))" using e by simp
qed

lemma finish_page_ok:
  assumes key: "sequence_key db" and true: "ledger_audited verify public options db" and rows: "numbered db = ledger_rows db"
    and empty: "numbered db = [] \<longrightarrow> evidenceAuditStoredHead db = ''''"
    and head: "expected_head options = Some expectHead"
    and r2: "LatestSequence r2 = fst (evidenceAuditLatest db)" "ObservedHead r2 = snd (evidenceAuditLatest db)"
      "StoredHead r2 = evidenceAuditStoredHead db"
    and reached: "(if AuditEntries r2 = 0 then AuditCursor options else LastSequence r2) = int d" and d: "d \<le> length (numbered db)"
  shows "snd (finish_page db options expectHead r2) = None"
    and "AuditComplete (fst (finish_page db options expectHead r2)) \<longleftrightarrow> d = length (numbered db)"
    and "d \<noteq> length (numbered db) \<Longrightarrow> NextCursor (fst (finish_page db options expectHead r2)) = int d"
proof -
  let ?R = "numbered db"
  have linked: "linked verify public db ?R 1 ''''" using true by (simp add: ledger_audited_def)
  note latest = latest_numbered [OF key linked rows]
  have matches: "if int (length ?R) = 0 then evidenceAuditStoredHead db = '''' else evidenceAuditStoredHead db = snd (evidenceAuditLatest db)"
    using true empty latest(2) by (auto simp: ledger_audited_def)
  have check: "verifyAuditCheckpoint db (MinSequence options) expectHead (int (length ?R)) = None" if m: "0 < MinSequence options"
  proof -
    have le: "MinSequence options \<le> int (length ?R)"
      and h: "expectHead \<noteq> '''' \<Longrightarrow> EntryHash (?R ! (nat (MinSequence options) - 1)) = expectHead"
      using true head m by (auto simp: ledger_audited_def expected_head_def split: if_splits)
    have i: "nat (MinSequence options) - 1 < length ?R" using le m by linarith
    have "entry_at (MinSequence options) db = Some (?R ! (nat (MinSequence options) - 1))"
      using entry_at_numbered [OF key linked i] m by (simp add: of_nat_diff)
    then show ?thesis using le h by (simp add: verifyAuditCheckpoint_def)
  qed
  show "snd (finish_page db options expectHead r2) = None"
    "AuditComplete (fst (finish_page db options expectHead r2)) \<longleftrightarrow> d = length ?R"
    "d \<noteq> length ?R \<Longrightarrow> NextCursor (fst (finish_page db options expectHead r2)) = int d"
    using r2 latest(1) reached d matches check
    by (auto simp: finish_page_def failed_def Let_def split: option.split)
qed

lemma audit_loop_complete:
  assumes key: "sequence_key db" and audit: "audit_key own options = Some public" "length public = PublicKeySize"
    and true: "ledger_audited verify public options db" and rows: "numbered db = ledger_rows db"
    and empty: "numbered db = [] \<longrightarrow> evidenceAuditStoredHead db = ''''"
    and head: "expected_head (options\<lparr>AuditCursor := 0\<rparr>) = Some expectHead" and c: "c \<le> length (numbered db)"
  shows "\<exists>result. audit_loop verify own options db (int c) totals = Inr result"
  using c
proof (induction "length (numbered db) - c" arbitrary: c totals rule: less_induct)
  case less
  let ?R = "numbered db" and ?o = "options\<lparr>AuditCursor := int c\<rparr>" and ?n = "page_limit (AuditLimit options)"
  have linked: "linked verify public db ?R 1 ''''" using true by (simp add: ledger_audited_def)
  then have parts: "linked verify public db (take c ?R) 1 ''''"
      "linked verify public db (drop c ?R) (1 + int c) (if take c ?R = [] then '''' else EntryHash (last (take c ?R)))"
    using linked_append [of verify public db "take c ?R" "drop c ?R" 1 "''''"] less.prems by simp_all
  define previous where "previous = (if take c ?R = [] then '''' else EntryHash (last (take c ?R)))"
  define es where "es = take ?n (drop c ?R)"
  have es: "linked verify public db es (int c + 1) previous"
    using parts(2) [folded previous_def] linked_append [of verify public db es "drop ?n (drop c ?R)" "1 + int c" previous]
    unfolding es_def append_take_drop_id add.commute [of 1] by blast
  let ?start = "page_start ?o db public"
  obtain r2 where run: "audit_entries verify public db es (int c + 1) previous ?start = (r2, None)"
    using es audit_entries_linked [of verify public db es "int c + 1" previous ?start] by (metis prod.collapse)
  note count = audit_entries_count [OF run, unfolded page_start_fields]
  note keep = audit_entries_keep [of verify public db es "int c + 1" previous ?start, unfolded run fst_conv page_start_fields]
  define d where "d = c + length es"
  have d: "c \<le> d" "d \<le> length ?R" using less.prems by (auto simp: d_def es_def)
  have reached: "(if AuditEntries r2 = 0 then AuditCursor ?o else LastSequence r2) = int d"
    using count by (auto simp: d_def)
  have h: "expected_head ?o = Some expectHead" using head by (auto simp: expected_head_def split: if_splits)
  have page: "audit_page verify public ?o expectHead previous db = finish_page db ?o expectHead r2"
    using run page_rows [OF key less.prems parts(1)] by (simp add: audit_page_def es_def)
  have read: "AuditEvidenceLedger verify own ?o db = finish_page db ?o expectHead r2"
  proof (cases "c = 0")
    case True
    then show ?thesis using page h audit by (simp add: AuditEvidenceLedger_def audit_key_def previous_def split: if_splits)
  next
    case False
    then have i: "c - 1 < length ?R" using less.prems by linarith
    have a: "entry_at (int c) db = Some (?R ! (c - 1))"
      using entry_at_numbered [OF key linked i] False by (simp add: of_nat_diff)
    have "validateAuditEntry verify (?R ! (c - 1)) public (int c = 1) ''ledger entry'' = None"
      using linked_nth(3) [OF linked i] False by (simp add: of_nat_diff)
    then have v: "validateAuditEntry verify (?R ! (c - 1)) public (int c = 1) ''resume cursor'' = None"
      by (simp add: validate_label [of _ _ _ _ "''resume cursor''" "''ledger entry''"])
    have "previous = EntryHash (?R ! (c - 1))"
      using False less.prems by (auto simp: previous_def last_conv_nth min_absorb2)
    then show ?thesis using page h audit a v False
      by (simp add: AuditEvidenceLedger_def audit_key_def split: if_splits)
  qed
  have true': "ledger_audited verify public ?o db" using true by (simp add: ledger_audited_def)
  note fin = finish_page_ok [OF key true' rows empty h keep(1,3,2) reached d(2)]
  obtain r where r: "finish_page db ?o expectHead r2 = (r, None)" using fin(1) by (metis prod.collapse)
  show ?case
  proof (cases "d = length ?R")
    case True
    then show ?thesis using read r fin(2) by (subst audit_loop.simps) simp
  next
    case False
    have "0 < ?n" by (simp add: page_limit_def evidenceAuditBatchSize_def)
    then have "es \<noteq> []" using False less.prems by (auto simp: d_def es_def)
    then have less_rows: "length ?R - d < length ?R - c" "int c < int d" using d(2) False by (cases es; auto simp: d_def)+
    from less.hyps [OF less_rows(1) d(2)] obtain result where
      "audit_loop verify own options db (int d) (add_page totals r) = Inr result" by blast
    then show ?thesis using read r fin(2,3) False less_rows(2) by (subst audit_loop.simps) simp
  qed
qed

text \<open>The ledger the service writes is true in this sense.\<close>

definition ed25519_correct :: "ed25519_sign \<Rightarrow> ed25519_verify \<Rightarrow> evidence_key \<Rightarrow> bool" where
  "ed25519_correct sign verify key \<longleftrightarrow>
     (\<forall>m. length (sign (PrivateKey key) m) = SignatureSize \<and> verify (PublicKey key) m (sign (PrivateKey key) m))"

lemma written_entry_valid:
  assumes "ed25519_correct sign verify key" and "KeyID key = evidenceKeyID (PublicKey key)"
    and "signed_entry sign key r" and "0 < LedgerSequence r"
    and "PrevHash r = '''' \<and> genesis \<or> (\<exists>q. PrevHash r = EntryHash q \<and> signed_entry sign key q)"
  shows "validateAuditEntry verify r (PublicKey key) genesis l = None"
proof -
  obtain payload where p: "EntryHash r = hex_encode (ledgerDigest (PrevHash r) payload)"
      "LedgerSignature r = b64_encode False (sign (PrivateKey key) (ledgerDigest (PrevHash r) payload))" "LedgerKeyID r = KeyID key"
    using assms(3) by (auto simp: signed_entry_def)
  have hash: "length (hex_encode (ledgerDigest x y)) = 64" for x y
    by (simp add: length_hex_encode ledgerDigest_def length_sha256)
  have prev: "PrevHash r = '''' \<and> genesis \<or> PrevHash r \<noteq> '''' \<and> length (PrevHash r) = 64 \<and> hex_decode (PrevHash r) \<noteq> None"
  proof -
    { fix q x assume "PrevHash r = EntryHash q" "EntryHash q = hex_encode (ledgerDigest (PrevHash q) x)"
      then have "length (PrevHash r) = 64" "hex_decode (PrevHash r) \<noteq> None" by (simp_all add: hash hex_round_trip)
      then have "PrevHash r \<noteq> '''' \<and> length (PrevHash r) = 64 \<and> hex_decode (PrevHash r) \<noteq> None" by auto }
    then show ?thesis using assms(5) by (auto simp: signed_entry_def)
  qed
  have "decodeKeyMaterial (LedgerSignature r) SignatureSize = Some (sign (PrivateKey key) (ledgerDigest (PrevHash r) payload))"
    unfolding p(2) using assms(1) by (intro key_material_round_trip) (simp add: ed25519_correct_def)
  moreover have "verify (PublicKey key) (ledgerDigest (PrevHash r) payload) (sign (PrivateKey key) (ledgerDigest (PrevHash r) payload))"
    using assms(1) by (simp add: ed25519_correct_def)
  ultimately show ?thesis using assms(2,4) p(1,3) prev
    by (auto simp: validateAuditEntry_def hash hex_round_trip)
qed

lemma written_linked:
  assumes "ed25519_correct sign verify key" and "KeyID key = evidenceKeyID (PublicKey key)"
    and "map LedgerSequence es = [n..n + int (length es) - 1]" and "0 < n" and "ledger_chain previous es"
    and "list_all (signed_entry sign key) es" and "list_all (entry_true db) es" and "\<forall>e \<in> set es. 0 < LedgerBatchID e"
    and "n = 1 \<and> previous = '''' \<or> 1 < n \<and> (\<exists>q. previous = EntryHash q \<and> signed_entry sign key q)"
  shows "linked verify (PublicKey key) db es n previous"
  using assms(3-9)
proof (induction es arbitrary: n previous)
  case (Cons e es)
  have s: "LedgerSequence e = n" "map LedgerSequence es = [n + 1..(n + 1) + int (length es) - 1]"
    using Cons.prems(1) by (simp_all add: upto_rec1)
  have "validateAuditEntry verify e (PublicKey key) (n = 1) ''ledger entry'' = None"
    by (rule written_entry_valid [OF assms(1,2)]) (use Cons.prems s in auto)
  then have "check_entry verify (PublicKey key) db e n previous = None"
    using Cons.prems s by (auto simp: check_entry_None)
  moreover have "linked verify (PublicKey key) db es (n + 1) (EntryHash e)"
    by (rule Cons.IH [OF s(2)]) (use Cons.prems in auto)
  ultimately show ?case by simp
qed simp

lemma written_ledger:
  assumes "ed25519_correct sign verify key" and "KeyID key = evidenceKeyID (PublicKey key)" and "ledger_wf sign key db"
  shows "sequence_key db" and "ledger_rows db = Ledger db" and "numbered db = Ledger db"
    and "linked verify (PublicKey key) db (Ledger db) 1 ''''"
    and "Ledger db \<noteq> [] \<Longrightarrow> evidenceAuditStoredHead db = EntryHash (last (Ledger db))"
    and "Ledger db = [] \<Longrightarrow> evidenceAuditStoredHead db = ''''"
proof -
  have s: "map LedgerSequence (Ledger db) = [1..int (length (Ledger db))]" using assms(3) by (simp add: ledger_wf_def)
  then show "sequence_key db" by (simp add: sequence_key_def)
  have "sorted (map LedgerSequence (Ledger db))" by (simp add: s)
  then show rows: "ledger_rows db = Ledger db" unfolding ledger_rows_def by (intro properties_for_sort_key) simp_all
  have "\<forall>e \<in> set (Ledger db). 0 < LedgerSequence e"
  proof
    fix e assume "e \<in> set (Ledger db)"
    then have "LedgerSequence e \<in> set [1..int (length (Ledger db))]" unfolding s [symmetric] by simp
    then show "0 < LedgerSequence e" by simp
  qed
  then show "numbered db = Ledger db" by (simp add: numbered_def rows)
  show "linked verify (PublicKey key) db (Ledger db) 1 ''''"
    by (rule written_linked [OF assms(1,2)]) (use assms(3) in \<open>auto simp: ledger_wf_def\<close>)
  show "Ledger db \<noteq> [] \<Longrightarrow> evidenceAuditStoredHead db = EntryHash (last (Ledger db))"
    "Ledger db = [] \<Longrightarrow> evidenceAuditStoredHead db = ''''"
    using assms(3) by (simp_all add: evidenceAuditStoredHead_def ledger_wf_def)
qed

subsection \<open>What a checkpoint pins\<close>

text \<open>What was hashed for the entry of a sequence, when its batch is still stored.\<close>

definition payload_at :: "int \<Rightarrow> history_db \<Rightarrow> string option" where
  "payload_at s db = (case entry_at s db of None \<Rightarrow> None | Some e \<Rightarrow> payload_of (LedgerBatchID e) db)"

definition input_at :: "int \<Rightarrow> history_db \<Rightarrow> string option" where
  "input_at s db =
     (case entry_at s db of
        None \<Rightarrow> None
      | Some e \<Rightarrow> map_option (ledger_input (PrevHash e)) (payload_of (LedgerBatchID e) db))"

definition hash_at :: "int \<Rightarrow> history_db \<Rightarrow> string option" where
  "hash_at s db = map_option EntryHash (entry_at s db)"

lemma ledger_input_inj:
  "length p = length q \<Longrightarrow> ledger_input p x = ledger_input q y \<Longrightarrow> p = q \<and> x = y"
  by (simp add: ledger_input_def)

text \<open>An entry whose payload is stored: its hash is that of its input, and its predecessor is the entry before.\<close>

lemma audited_entry:
  assumes "sequence_key db" and "ledger_audited verify public options db"
    and "\<forall>e \<in> set (numbered db). \<not> payload_gone_at db e" and "i < length (numbered db)"
  obtains e payload where "entry_at (int i + 1) db = Some e" "payload_at (int i + 1) db = Some payload"
    "input_at (int i + 1) db = Some (ledger_input (PrevHash e) payload)" "hash_at (int i + 1) db = Some (EntryHash e)"
    "EntryHash e = hex_encode (sha256 (ledger_input (PrevHash e) payload))"
    "if i = 0 then PrevHash e = '''' else hash_at (int i) db = Some (PrevHash e) \<and> length (PrevHash e) = 64"
proof -
  have linked: "linked verify public db (numbered db) 1 ''''" using assms(2) by (simp add: ledger_audited_def)
  let ?e = "numbered db ! i"
  note n = linked_nth [OF linked assms(4)]
  have e: "entry_at (int i + 1) db = Some ?e" by (rule entry_at_numbered [OF assms(1) linked assms(4)])
  have "\<not> payload_gone_at db ?e" using assms(3,4) by simp
  then obtain payload where p: "payload_of (LedgerBatchID ?e) db = Some payload" by (auto simp: payload_gone_at_def payload_of_def)
  have h: "EntryHash ?e = hex_encode (sha256 (ledger_input (PrevHash ?e) payload))"
    using n(2) p by (simp add: entry_true_def ledgerDigest_def)
  have prev: "if i = 0 then PrevHash ?e = '''' else hash_at (int i) db = Some (PrevHash ?e) \<and> length (PrevHash ?e) = 64"
  proof (cases "i = 0")
    case False
    then have j: "i - 1 < length (numbered db)" using assms(4) by linarith
    have "hash_at (int i) db = Some (EntryHash (numbered db ! (i - 1)))"
      using entry_at_numbered [OF assms(1) linked j] False by (simp add: hash_at_def of_nat_diff)
    moreover have "length (EntryHash (numbered db ! (i - 1))) = 64"
      using linked_nth(3) [OF linked j] by (auto simp: validateAuditEntry_def split: if_splits)
    ultimately show ?thesis using n(4) False by simp
  qed (use n(5) in simp)
  show ?thesis
    by (rule that [OF e _ _ _ h prev]) (simp_all add: payload_at_def input_at_def hash_at_def e p)
qed

lemma pinned_entry:
  assumes A: "sequence_key A" "ledger_audited verifyA keyA optionsA A" "\<forall>e \<in> set (numbered A). \<not> payload_gone_at A e"
    and B: "sequence_key B" "ledger_audited verifyB keyB optionsB B" "\<forall>e \<in> set (numbered B). \<not> payload_gone_at B e"
    and k: "k < length (numbered A)" "k < length (numbered B)" and same: "hash_at (int k + 1) A = hash_at (int k + 1) B"
    and free: "\<And>x y. input_at (int k + 1) A = Some x \<Longrightarrow> input_at (int k + 1) B = Some y \<Longrightarrow> sha256 x = sha256 y \<Longrightarrow> x = y"
  shows "payload_at (int k + 1) A = payload_at (int k + 1) B" and "0 < k \<Longrightarrow> hash_at (int k) A = hash_at (int k) B"
proof -
  obtain e p where "entry_at (int k + 1) A = Some e" and e: "payload_at (int k + 1) A = Some p" "input_at (int k + 1) A = Some (ledger_input (PrevHash e) p)"
      "hash_at (int k + 1) A = Some (EntryHash e)" "EntryHash e = hex_encode (sha256 (ledger_input (PrevHash e) p))"
      "if k = 0 then PrevHash e = '''' else hash_at (int k) A = Some (PrevHash e) \<and> length (PrevHash e) = 64"
    by (rule audited_entry [OF A k(1)])
  obtain f q where "entry_at (int k + 1) B = Some f" and f: "payload_at (int k + 1) B = Some q" "input_at (int k + 1) B = Some (ledger_input (PrevHash f) q)"
      "hash_at (int k + 1) B = Some (EntryHash f)" "EntryHash f = hex_encode (sha256 (ledger_input (PrevHash f) q))"
      "if k = 0 then PrevHash f = '''' else hash_at (int k) B = Some (PrevHash f) \<and> length (PrevHash f) = 64"
    by (rule audited_entry [OF B k(2)])
  have "sha256 (ledger_input (PrevHash e) p) = sha256 (ledger_input (PrevHash f) q)"
    using same e(3,4) f(3,4) by (auto dest: hex_encode_inj)
  then have "ledger_input (PrevHash e) p = ledger_input (PrevHash f) q" by (rule free [OF e(2) f(2)])
  moreover have "length (PrevHash e) = length (PrevHash f)" using e(5) f(5) by (auto split: if_splits)
  ultimately have "PrevHash e = PrevHash f \<and> p = q" by (intro ledger_input_inj)
  then show "payload_at (int k + 1) A = payload_at (int k + 1) B" "0 < k \<Longrightarrow> hash_at (int k) A = hash_at (int k) B"
    using e(1,5) f(1,5) by auto
qed

lemma pinned_history:
  assumes A: "sequence_key A" "ledger_audited verifyA keyA optionsA A" "\<forall>e \<in> set (numbered A). \<not> payload_gone_at A e"
    and B: "sequence_key B" "ledger_audited verifyB keyB optionsB B" "\<forall>e \<in> set (numbered B). \<not> payload_gone_at B e"
    and m: "m < length (numbered A)" "m < length (numbered B)" and same: "hash_at (int m + 1) A = hash_at (int m + 1) B"
    and free: "\<And>s x y. 1 \<le> s \<Longrightarrow> s \<le> int m + 1 \<Longrightarrow> input_at s A = Some x \<Longrightarrow> input_at s B = Some y \<Longrightarrow> sha256 x = sha256 y \<Longrightarrow> x = y"
    and k: "k \<le> m"
  shows "payload_at (int k + 1) A = payload_at (int k + 1) B"
proof -
  have entry: "payload_at (int j + 1) A = payload_at (int j + 1) B \<and> (0 < j \<longrightarrow> hash_at (int j) A = hash_at (int j) B)"
    if j: "j \<le> m" "hash_at (int j + 1) A = hash_at (int j + 1) B" for j
  proof -
    have "j < length (numbered A)" "j < length (numbered B)" using j(1) m by linarith+
    note p = pinned_entry [OF A B this j(2)]
    have "x = y" if "input_at (int j + 1) A = Some x" "input_at (int j + 1) B = Some y" "sha256 x = sha256 y" for x y
      using free [OF _ _ that] j(1) by simp
    with p show ?thesis by blast
  qed
  have "hash_at (int k + 1) A = hash_at (int k + 1) B"
    using k
  proof (induction rule: inc_induct)
    case (step n)
    then show ?case using entry [of "Suc n"] by (simp add: add.commute)
  qed (rule same)
  with entry k show ?thesis by blast
qed

lemma written_audit:
  assumes "ed25519_correct sign verify key" and "KeyID key = evidenceKeyID (PublicKey key)"
    and "length (PublicKey key) = PublicKeySize" and "ledger_wf sign key db" and "TrustedPublicKey options = ''''"
    and "0 \<le> MinSequence options" and "MinSequence options \<le> int (length (Ledger db))"
    and "ExpectHead options = '''' \<or> 0 < MinSequence options
           \<and> NormalizeLedgerHead (ExpectHead options) = Some (EntryHash (Ledger db ! (nat (MinSequence options) - 1)))"
  shows "\<exists>totals. evidenceAudit verify (PublicKey key) options db = Inr totals \<and> TotalEntries totals = int (length (Ledger db))"
proof -
  note w = written_ledger [OF assms(1,2,4)]
  have audited: "ledger_audited verify (PublicKey key) options db"
    using w assms(6-8) by (auto simp: ledger_audited_def)
  have k: "audit_key (PublicKey key) options = Some (PublicKey key)" using assms(5) by (simp add: audit_key_def)
  have "\<exists>h. expected_head (options\<lparr>AuditCursor := 0\<rparr>) = Some h" using assms(6,8) by (auto simp: expected_head_def)
  then obtain totals where r: "audit_loop verify (PublicKey key) options db (int 0) zero_totals = Inr totals"
    using audit_loop_complete [OF w(1) k assms(3) audited _ _ _ le0] w by metis
  have "TotalEntries totals = int (length (Ledger db))"
    using audit_loop_sound [OF w(1) k _ _ r] w(3) by (simp add: zero_totals_def)
  with r show ?thesis by (auto simp: evidenceAudit_def)
qed

lemma audit_has_key: "evidenceAudit verify own options db = Inr totals \<Longrightarrow> \<exists>public. audit_key own options = Some public"
  unfolding evidenceAudit_def
  by (subst (asm) audit_loop.simps)
    (auto simp: AuditEvidenceLedger_def audit_key_def split: option.splits prod.splits if_splits)

text \<open>The audit of a ledger with all of its payloads, and the hash at the checkpoint.\<close>

lemma audit_checkpoint:
  assumes "sequence_key db" and "evidenceAudit verify own options db = Inr totals" and "TotalUnverifiable totals = 0"
    and "MinSequence options = int m + 1" and "ExpectHead options \<noteq> ''''"
  shows "\<exists>public. ledger_audited verify public options db" and "\<forall>e \<in> set (numbered db). \<not> payload_gone_at db e"
    and "m < length (numbered db)" and "hash_at (int m + 1) db = NormalizeLedgerHead (ExpectHead options)"
proof -
  obtain public where k: "audit_key own options = Some public" using audit_has_key [OF assms(2)] by blast
  have run: "audit_loop verify own options db (int 0) zero_totals = Inr totals" using assms(2) by (simp add: evidenceAudit_def)
  note s = audit_loop_sound [OF assms(1) k _ _ run]
  have audited: "ledger_audited verify public options db" using s by simp
  then show "\<exists>public. ledger_audited verify public options db" by blast
  have linked: "linked verify public db (numbered db) 1 ''''" using audited by (simp add: ledger_audited_def)
  show "\<forall>e \<in> set (numbered db). \<not> payload_gone_at db e"
    using s assms(3) by (simp add: zero_totals_def filter_empty_conv)
  show m: "m < length (numbered db)" using audited assms(4) by (simp add: ledger_audited_def)
  have "nat (int m + 1) - 1 = m" by simp
  then show "hash_at (int m + 1) db = NormalizeLedgerHead (ExpectHead options)"
    using entry_at_numbered [OF assms(1) linked m] audited assms(4,5) by (simp add: hash_at_def ledger_audited_def)
qed

subsection \<open>Properties\<close>

text \<open>
  C24. An audit accepts a true ledger only. If \<open>tailstate evidence audit\<close> ends without an error, whatever
  the size of its pages and whoever wrote the database, then its entries are numbered from 1 without a
  gap, each names the hash of the one before, each is signed by the key of the audit over its hash, each
  whose batch is stored hashes to that batch, the stored head is the hash of the last, and the ledger
  reaches the checkpoint and holds its hash there. The totals count all entries, and exactly those whose
  batch is gone as unverifiable.
\<close>
theorem audit_accepts_true_ledgers_only:
  assumes "sequence_key db" and "audit_key own options = Some public"
    and "evidenceAudit verify own options db = Inr totals"
  shows "ledger_chain '''' (numbered db) \<and> map LedgerSequence (numbered db) = [1..int (length (numbered db))]
    \<and> list_all (entry_true db) (numbered db)
    \<and> list_all (\<lambda>e. LedgerKeyID e = evidenceKeyID public
          \<and> (\<exists>hash signature. hex_decode (EntryHash e) = Some hash \<and> decodeKeyMaterial (LedgerSignature e) SignatureSize = Some signature
               \<and> verify public hash signature)) (numbered db)
    \<and> (numbered db \<noteq> [] \<longrightarrow> evidenceAuditStoredHead db = EntryHash (last (numbered db)))
    \<and> (0 < MinSequence options \<and> ExpectHead options \<noteq> '''' \<longrightarrow>
         hash_at (MinSequence options) db = NormalizeLedgerHead (ExpectHead options))
    \<and> TotalEntries totals = int (length (numbered db))
    \<and> TotalUnverifiable totals = int (length (filter (payload_gone_at db) (numbered db)))"
proof -
  have run: "audit_loop verify own options db (int 0) zero_totals = Inr totals" using assms(3) by (simp add: evidenceAudit_def)
  have audited: "ledger_audited verify public options db"
    and totals: "TotalEntries totals = int (length (numbered db))"
      "TotalUnverifiable totals = int (length (filter (payload_gone_at db) (numbered db)))"
    using audit_loop_sound [OF assms(1,2) _ _ run] by (simp_all add: zero_totals_def)
  have linked: "linked verify public db (numbered db) 1 ''''" using audited by (simp add: ledger_audited_def)
  have signed: "LedgerKeyID e = evidenceKeyID public
      \<and> (\<exists>hash signature. hex_decode (EntryHash e) = Some hash \<and> decodeKeyMaterial (LedgerSignature e) SignatureSize = Some signature
           \<and> verify public hash signature)" "entry_true db e" if e: "e \<in> set (numbered db)" for e
  proof -
    obtain i where i: "i < length (numbered db)" "e = numbered db ! i" using e by (auto simp: in_set_conv_nth)
    show "LedgerKeyID e = evidenceKeyID public
      \<and> (\<exists>hash signature. hex_decode (EntryHash e) = Some hash \<and> decodeKeyMaterial (LedgerSignature e) SignatureSize = Some signature
           \<and> verify public hash signature)" "entry_true db e"
      using validated_signature [OF linked_nth(3) [OF linked i(1)]] linked_nth(2) [OF linked i(1)] unfolding i(2) by blast+
  qed
  have "hash_at (MinSequence options) db = NormalizeLedgerHead (ExpectHead options)"
    if m: "0 < MinSequence options" "ExpectHead options \<noteq> ''''"
  proof -
    have le: "MinSequence options \<le> int (length (numbered db))"
      and h: "NormalizeLedgerHead (ExpectHead options) = Some (EntryHash (numbered db ! (nat (MinSequence options) - 1)))"
      using audited m by (simp_all add: ledger_audited_def)
    have i: "nat (MinSequence options) - 1 < length (numbered db)" using le m by linarith
    from entry_at_numbered [OF assms(1) linked i] m h show ?thesis by (simp add: hash_at_def of_nat_diff)
  qed
  moreover have "map LedgerSequence (numbered db) = [1..int (length (numbered db))]"
    using linked_sequences [OF linked] by simp
  ultimately show ?thesis
    using signed totals audited linked_chain [OF linked] by (auto simp: list_all_iff ledger_audited_def)
qed

text \<open>
  A ledger the service wrote passes. For a history reached by the service, an audit with its own key,
  with any page size, and with any checkpoint the ledger has passed, ends without an error and counts
  every entry.
\<close>
theorem written_ledger_passes:
  assumes "ed25519_correct sign verify key" and "KeyID key = evidenceKeyID (PublicKey key)"
    and "length (PublicKey key) = PublicKeySize" and "ledger_wf sign key db" and "TrustedPublicKey options = ''''"
    and "0 \<le> MinSequence options" and "MinSequence options \<le> int (length (Ledger db))"
    and "ExpectHead options = '''' \<or> 0 < MinSequence options
           \<and> NormalizeLedgerHead (ExpectHead options) = Some (EntryHash (Ledger db ! (nat (MinSequence options) - 1)))"
  shows "\<exists>totals. evidenceAudit verify (PublicKey key) options db = Inr totals \<and> TotalEntries totals = int (length (Ledger db))"
  by (rule written_audit [OF assms])


subsection \<open>The properties at a concrete input\<close>

definition toy_verify :: ed25519_verify where
  "toy_verify public message signature \<longleftrightarrow> signature = replicate 64 (CHR ''s'')"

lemma toy_ed25519: "ed25519_correct toy_sign toy_verify toy_key" "KeyID toy_key = evidenceKeyID (PublicKey toy_key)"
    "length (PublicKey toy_key) = PublicKeySize"
  by (simp_all add: ed25519_correct_def toy_sign_def toy_verify_def toy_key_def SignatureSize_def PublicKeySize_def)

text \<open>A ledger of one entry: a poll with one event.\<close>

definition polled_history :: history_db where
  "polled_history = history_exec toy_sign toy_key (RecordPoll 0 1 old_day None [] '''' (Events sample_history)) empty_history"

lemma polled_wf: "ledger_wf toy_sign toy_key polled_history" "history_wf polled_history"
  using history_exec_wf empty_history_wf unfolding polled_history_def by blast+

lemma polled_entry:
  "\<exists>e payload. Ledger polled_history = [e] \<and> LedgerBatchID e = 1 \<and> payload_of 1 polled_history = Some payload
     \<and> EntryHash e = hex_encode (ledgerDigest (PrevHash e) payload)"
proof -
  define d where "d = before_append 1 old_day None [] '''' (Events sample_history) empty_history"
  have d: "Ledger d = []" "ledgerHeadTx d = ''''"
    by (simp_all add: d_def before_append_rows empty_history_def ledgerHeadTx_def)
  have "batch_exists 1 d"
    using before_append_wf(2) [OF empty_history_wf(1), of 1 old_day None "[]" "''''" "Events sample_history"]
    by (simp add: d_def empty_history_def)
  then obtain payload batch where p: "evidenceLedgerPayload 1 d = Some (payload, batch)"
    using payload_gone [of 1 d] by (auto simp: batch_of_None payload_of_def)
  then obtain h where h: "appendEvidenceLedgerTx toy_sign toy_key 0 1 d = Some h"
    by (simp add: appendEvidenceLedgerTx_def d Let_def)
  have polled: "polled_history = h"
    using h by (simp add: polled_history_def recordHistory_append d_def empty_history_def)
  show ?thesis using h
  proof (cases rule: append_cases)
    case (added payload' batch' row)
    then show ?thesis using append_payload [OF h, of 1] by (auto simp: polled d payload_of_def)
  qed (simp add: d)
qed

definition plain_audit :: audit_options where
  "plain_audit = \<lparr> AuditCursor = 0, AuditLimit = 0, TrustedPublicKey = '''', MinSequence = 0, ExpectHead = '''' \<rparr>"

lemma polled_audit: "\<exists>totals. evidenceAudit toy_verify (PublicKey toy_key) plain_audit polled_history = Inr totals"
  using written_audit [OF toy_ed25519 polled_wf(1), of plain_audit] by (auto simp: plain_audit_def)

theorem audit_accepts_true_ledgers_only_witness:
  "\<exists>totals. evidenceAudit toy_verify (PublicKey toy_key) plain_audit polled_history = Inr totals
    \<and> ledger_chain '''' (numbered polled_history) \<and> TotalEntries totals = int (length (numbered polled_history))"
proof -
  obtain totals where r: "evidenceAudit toy_verify (PublicKey toy_key) plain_audit polled_history = Inr totals"
    using polled_audit by blast
  have k: "audit_key (PublicKey toy_key) plain_audit = Some (PublicKey toy_key)" by (simp add: audit_key_def plain_audit_def)
  from audit_accepts_true_ledgers_only [OF written_ledger(1) [OF toy_ed25519(1,2) polled_wf(1)] k r] r show ?thesis by blast
qed

theorem written_ledger_passes_witness:
  "\<exists>totals. evidenceAudit toy_verify (PublicKey toy_key) plain_audit polled_history = Inr totals \<and> TotalEntries totals = 1"
proof -
  obtain e where "Ledger polled_history = [e]" using polled_entry by blast
  with written_ledger_passes [OF toy_ed25519 polled_wf(1), of plain_audit] show ?thesis by (simp add: plain_audit_def)
qed

text \<open>The hash of an entry is in the form a checkpoint is given.\<close>

lemma normalize_entry_hash: "NormalizeLedgerHead (hex_encode (ledgerDigest p x)) = Some (hex_encode (ledgerDigest p x))"
proof -
  have digit: "32 < byte_of (hex_digit d) \<and> byte_of (hex_digit d) < 128" if "d < 16" for d
    using that by (auto simp: hex_digit_def)
  have "byte_of x div 16 < 16" "byte_of x mod 16 < 16" for x
    using byte_of_less [of x] by (simp_all add: less_mult_imp_div_less)
  then have "\<forall>c \<in> set (hex_encode s). 32 < byte_of c \<and> byte_of c < 128" for s
    using digit by (auto simp: hex_encode_def)
  then have "trim_space (hex_encode s) = hex_encode s" for s by (intro trim_space_plain)
  then show ?thesis
    by (simp add: NormalizeLedgerHead_def Let_def lower_hex_encode length_hex_encode ledgerDigest_def length_sha256 hex_round_trip)
qed

definition pinned_audit :: audit_options where
  "pinned_audit = plain_audit\<lparr>MinSequence := 1, ExpectHead := EntryHash (hd (Ledger polled_history))\<rparr>"

lemma pinned_audit_passes:
  "\<exists>totals. evidenceAudit toy_verify (PublicKey toy_key) pinned_audit polled_history = Inr totals \<and> TotalUnverifiable totals = 0"
proof -
  obtain e payload where e: "Ledger polled_history = [e]" "LedgerBatchID e = 1" "payload_of 1 polled_history = Some payload"
    "EntryHash e = hex_encode (ledgerDigest (PrevHash e) payload)" using polled_entry by blast
  obtain totals where r: "evidenceAudit toy_verify (PublicKey toy_key) pinned_audit polled_history = Inr totals"
    using written_audit [OF toy_ed25519 polled_wf(1), of pinned_audit] e normalize_entry_hash
    by (auto simp: pinned_audit_def plain_audit_def)
  note w = written_ledger [OF toy_ed25519(1,2) polled_wf(1)]
  have k: "audit_key (PublicKey toy_key) pinned_audit = Some (PublicKey toy_key)"
    by (simp add: audit_key_def pinned_audit_def plain_audit_def)
  have "TotalUnverifiable totals = 0"
    using audit_loop_sound [OF w(1) k le0, of toy_verify zero_totals totals] r e w(3)
    by (auto simp: evidenceAudit_def zero_totals_def payload_gone_at_def payload_of_def)
  with r show ?thesis by blast
qed


end
