(* ===== verification/Store_Checkpoint.thy ===== *)
theory Store_Checkpoint
  imports Store_Audit_Laws Store_Outbox Webhook
begin

text \<open>
  \<open>internal/store/checkpoint.go\<close>, \<open>internal/monitor/checkpoint.go\<close>: signed statements of the newest ledger
  entry, sent through the notification queue to one chosen destination, so that the head of the ledger is
  kept outside the database.

  The stored schedule is a JSON document of the table \<open>meta\<close>; it is kept decoded, and \<open>UnreadableState\<close>
  stands for a document that cannot be decoded. The message that shows a checkpoint is a parameter:
  its stored form, or \<open>None\<close> if it cannot be encoded.
\<close>

subsection \<open>Checkpoints\<close>

record ledger_checkpoint =
  CpSequence :: int
  CpHead :: string
  CpRecorded :: instant
  CpKeyID :: string
  CpSignature :: string

record checkpoint_state =
  StateSequence :: int
  StateHead :: string
  StateSentAt :: "instant option"

datatype stored_state = ReadableState checkpoint_state | UnreadableState

definition evidenceCheckpointDomain :: string where
  "evidenceCheckpointDomain = ''tailstate-ledger-checkpoint-v1'' @ newline"

definition ledgerCheckpointStatement :: "int \<Rightarrow> string \<Rightarrow> instant \<Rightarrow> string \<Rightarrow> string" where
  "ledgerCheckpointStatement sequence head recordedAt keyID =
     evidenceCheckpointDomain @ int_text sequence @ newline @ head @ newline @ rfc3339 recordedAt @ newline @ keyID"

text \<open>The reason of a refusal.\<close>

definition VerifyLedgerCheckpoint :: "ed25519_verify \<Rightarrow> ledger_checkpoint \<Rightarrow> string \<Rightarrow> string option" where
  "VerifyLedgerCheckpoint verify checkpoint trustedPublic =
     (if length trustedPublic \<noteq> PublicKeySize then Some ''trusted evidence public key must be 32 bytes''
      else if CpKeyID checkpoint \<noteq> evidenceKeyID trustedPublic
        then Some ''checkpoint key ID does not match the trusted public key''
      else
        (case decodeKeyMaterial (CpSignature checkpoint) SignatureSize of
           None \<Rightarrow> Some ''decode checkpoint signature''
         | Some signature \<Rightarrow>
             if verify trustedPublic
                  (ledgerCheckpointStatement (CpSequence checkpoint) (CpHead checkpoint) (CpRecorded checkpoint) (CpKeyID checkpoint))
                  signature
             then None else Some ''checkpoint signature verification failed''))"

subsection \<open>The database\<close>

record checkpoint_db =
  CpHistory :: history_db
  CpQueue :: outbox_db
  CpDestination :: "string option"
  CpState :: "stored_state option"

datatype checkpoint_error =
    SigningKeyUnavailable
  | DestinationNotPositive
  | CheckpointDestinationNotFound
  | CheckpointDestinationDisabled
  | InvalidCheckpointDestination string
  | CheckpointStateUnreadable
  | AnchorMissing int
  | AnchorChanged int
  | CheckpointDestinationUnavailable
  | CheckpointNotEncoded

text \<open>\<open>SELECT enabled FROM notification_destinations WHERE id=? AND deleted_at IS NULL\<close>\<close>

definition enabled_of :: "int \<Rightarrow> outbox_db \<Rightarrow> bool option" where
  "enabled_of i q = map_option DestEnabled (List.find (\<lambda>d. DestID d = i \<and> DestDeleted d = None) (Dests q))"

definition SetEvidenceCheckpointDestination :: "int \<Rightarrow> checkpoint_db \<Rightarrow> checkpoint_error + checkpoint_db" where
  "SetEvidenceCheckpointDestination destinationID db =
     (if destinationID \<le> 0 then Inl DestinationNotPositive
      else
        (case enabled_of destinationID (CpQueue db) of
           None \<Rightarrow> Inl CheckpointDestinationNotFound
         | Some enabled \<Rightarrow>
             if \<not> enabled then Inl CheckpointDestinationDisabled
             else Inr (db\<lparr>CpDestination := Some (int_text destinationID)\<rparr>)))"

definition ClearEvidenceCheckpointDestination :: "checkpoint_db \<Rightarrow> checkpoint_db" where
  "ClearEvidenceCheckpointDestination db = db\<lparr>CpDestination := None\<rparr>"

definition no_checkpoint :: checkpoint_state where
  "no_checkpoint = \<lparr> StateSequence = 0, StateHead = '''', StateSentAt = None \<rparr>"

definition readLedgerCheckpointState :: "checkpoint_db \<Rightarrow> checkpoint_error + checkpoint_state" where
  "readLedgerCheckpointState db =
     (case CpState db of
        None \<Rightarrow> Inr no_checkpoint
      | Some UnreadableState \<Rightarrow> Inl CheckpointStateUnreadable
      | Some (ReadableState state) \<Rightarrow> if StateSequence state < 0 then Inl CheckpointStateUnreadable else Inr state)"

definition checkpoint_destination :: "string \<Rightarrow> checkpoint_error + int" where
  "checkpoint_destination v =
     (case parse_int64 (trim_space v) of
        None \<Rightarrow> Inl (InvalidCheckpointDestination v)
      | Some i \<Rightarrow> if i \<le> 0 then Inl (InvalidCheckpointDestination v) else Inr i)"

subsection \<open>Sending\<close>

text \<open>The entry of the last checkpoint must still carry its head.\<close>

definition check_anchor :: "checkpoint_state \<Rightarrow> history_db \<Rightarrow> checkpoint_error option" where
  "check_anchor state h =
     (if 0 < StateSequence state then
        (case entry_at (StateSequence state) h of
           None \<Rightarrow> Some (AnchorMissing (StateSequence state))
         | Some e \<Rightarrow> if EntryHash e \<noteq> StateHead state then Some (AnchorChanged (StateSequence state)) else None)
      else None)"

definition newest_entry :: "history_db \<Rightarrow> ledger_row option" where
  "newest_entry h = (if Ledger h = [] then None else Some (last (ledger_rows h)))"

text \<open>Too early; a clock that moved backwards makes the checkpoint due.\<close>

definition too_early :: "instant \<Rightarrow> duration \<Rightarrow> checkpoint_state \<Rightarrow> bool" where
  "too_early now interval state \<longleftrightarrow>
     (case StateSentAt state of None \<Rightarrow> False | Some sentAt \<Rightarrow> 0 \<le> now - sentAt \<and> now - sentAt < interval)"

definition sign_checkpoint :: "ed25519_sign \<Rightarrow> evidence_key \<Rightarrow> instant \<Rightarrow> ledger_row \<Rightarrow> ledger_checkpoint" where
  "sign_checkpoint sign key now e =
     \<lparr> CpSequence = LedgerSequence e, CpHead = EntryHash e, CpRecorded = now, CpKeyID = KeyID key,
       CpSignature = b64_encode False (sign (PrivateKey key)
          (ledgerCheckpointStatement (LedgerSequence e) (EntryHash e) now (KeyID key))) \<rparr>"

text \<open>The insertions: the notification for the one destination, and the schedule.\<close>

definition queue_checkpoint ::
  "int \<Rightarrow> string \<Rightarrow> string \<Rightarrow> ledger_checkpoint \<Rightarrow> checkpoint_db \<Rightarrow> checkpoint_db" where
  "queue_checkpoint dest payloadFormat payload checkpoint db =
     (let q = CpQueue db
      in db\<lparr>CpQueue := q\<lparr>Outbox := Outbox q @ [new_outbox_row (NextOutboxID q) None dest payloadFormat payload (CpRecorded checkpoint)],
                         NextOutboxID := NextOutboxID q + 1\<rparr>,
            CpState := Some (ReadableState \<lparr> StateSequence = CpSequence checkpoint, StateHead = CpHead checkpoint,
                         StateSentAt = Some (CpRecorded checkpoint) \<rparr>)\<rparr>)"

text \<open>The database and the checkpoint that was enqueued, if one was due.\<close>

definition EnqueueLedgerCheckpointIfDue ::
  "ed25519_sign \<Rightarrow> evidence_key \<Rightarrow> instant \<Rightarrow> duration \<Rightarrow> (ledger_checkpoint \<Rightarrow> (string \<times> string) option)
     \<Rightarrow> checkpoint_db \<Rightarrow> checkpoint_error + (checkpoint_db \<times> ledger_checkpoint option)" where
  "EnqueueLedgerCheckpointIfDue sign key clock interval message db =
     (if length (PrivateKey key) \<noteq> PrivateKeySize then Inl SigningKeyUnavailable
      else
        (let now = clock - clock mod second
         in case CpDestination db of
              None \<Rightarrow> Inr (db, None)
            | Some v \<Rightarrow>
                (case checkpoint_destination v of
                   Inl e \<Rightarrow> Inl e
                 | Inr destinationID \<Rightarrow>
                     (case readLedgerCheckpointState db of
                        Inl e \<Rightarrow> Inl e
                      | Inr state \<Rightarrow>
                          (case check_anchor state (CpHistory db) of
                             Some e \<Rightarrow> Inl e
                           | None \<Rightarrow>
                               (case newest_entry (CpHistory db) of
                                  None \<Rightarrow> Inr (db, None)
                                | Some e \<Rightarrow>
                                    if LedgerSequence e \<le> StateSequence state then Inr (db, None)
                                    else if too_early now interval state then Inr (db, None)
                                    else if enabled_of destinationID (CpQueue db) \<noteq> Some True then Inl CheckpointDestinationUnavailable
                                    else
                                      (let checkpoint = sign_checkpoint sign key now e
                                       in case message checkpoint of
                                            None \<Rightarrow> Inl CheckpointNotEncoded
                                          | Some (payloadFormat, payload) \<Rightarrow>
                                              Inr (queue_checkpoint destinationID payloadFormat payload checkpoint db, Some checkpoint))))))))"

text \<open>The monitor's interval.\<close>

definition ledgerCheckpointInterval :: duration where "ledgerCheckpointInterval = 6 * hour"

text \<open>A database on which work is done: what is recorded, what is queued, the choice of the destination, and the checks.\<close>

datatype checkpoint_op =
    HistoryOp history_op
  | QueueOp outbox_op
  | ChooseDestination int
  | ClearDestination
  | CheckCheckpoint instant

text \<open>The effect of an operation, and the checkpoint it sends. An operation that fails changes nothing.\<close>

fun checkpoint_exec ::
  "ed25519_sign \<Rightarrow> evidence_key \<Rightarrow> (ledger_checkpoint \<Rightarrow> (string \<times> string) option) \<Rightarrow> checkpoint_op
     \<Rightarrow> checkpoint_db \<Rightarrow> checkpoint_db \<times> ledger_checkpoint option" where
  "checkpoint_exec sign key message (HistoryOp op) db = (db\<lparr>CpHistory := history_exec sign key op (CpHistory db)\<rparr>, None)"
| "checkpoint_exec sign key message (QueueOp op) db = (db\<lparr>CpQueue := outbox_exec op (CpQueue db)\<rparr>, None)"
| "checkpoint_exec sign key message (ChooseDestination i) db =
     ((case SetEvidenceCheckpointDestination i db of Inl _ \<Rightarrow> db | Inr db' \<Rightarrow> db'), None)"
| "checkpoint_exec sign key message ClearDestination db = (ClearEvidenceCheckpointDestination db, None)"
| "checkpoint_exec sign key message (CheckCheckpoint clock) db =
     (case EnqueueLedgerCheckpointIfDue sign key clock ledgerCheckpointInterval message db of
        Inl _ \<Rightarrow> (db, None)
      | Inr r \<Rightarrow> r)"

fun checkpoint_run ::
  "ed25519_sign \<Rightarrow> evidence_key \<Rightarrow> (ledger_checkpoint \<Rightarrow> (string \<times> string) option) \<Rightarrow> checkpoint_op list
     \<Rightarrow> checkpoint_db \<Rightarrow> checkpoint_db \<times> ledger_checkpoint list" where
  "checkpoint_run sign key message [] db = (db, [])"
| "checkpoint_run sign key message (op # ops) db =
     (case checkpoint_exec sign key message op db of
        (db', sent) \<Rightarrow>
          (case checkpoint_run sign key message ops db' of
             (db'', later) \<Rightarrow> (db'', (case sent of None \<Rightarrow> later | Some c \<Rightarrow> c # later))))"

subsection \<open>What was sent\<close>

text \<open>
  Between two checkpoints the ledger has grown, and the interval has passed (unless the clock went
  backwards).
\<close>

definition checkpoint_after :: "ledger_checkpoint \<Rightarrow> ledger_checkpoint \<Rightarrow> bool" where
  "checkpoint_after a b \<longleftrightarrow> CpSequence a < CpSequence b
     \<and> (CpRecorded b < CpRecorded a \<or> ledgerCheckpointInterval \<le> CpRecorded b - CpRecorded a)"

definition anchored_in :: "history_db \<Rightarrow> ledger_checkpoint \<Rightarrow> bool" where
  "anchored_in h c \<longleftrightarrow> 1 \<le> CpSequence c \<and> CpSequence c \<le> int (length (Ledger h))
     \<and> EntryHash (Ledger h ! (nat (CpSequence c) - 1)) = CpHead c"

definition sent_state :: "ledger_checkpoint \<Rightarrow> stored_state" where
  "sent_state c = ReadableState \<lparr> StateSequence = CpSequence c, StateHead = CpHead c, StateSentAt = Some (CpRecorded c) \<rparr>"

definition checkpoints_ok :: "ed25519_sign \<Rightarrow> ed25519_verify \<Rightarrow> evidence_key \<Rightarrow> checkpoint_db \<Rightarrow> ledger_checkpoint list \<Rightarrow> bool" where
  "checkpoints_ok sign verify key db sent \<longleftrightarrow>
     ledger_wf sign key (CpHistory db) \<and> history_wf (CpHistory db)
     \<and> CpState db = (if sent = [] then None else Some (sent_state (last sent)))
     \<and> list_all (\<lambda>c. VerifyLedgerCheckpoint verify c (PublicKey key) = None \<and> anchored_in (CpHistory db) c) sent
     \<and> successively checkpoint_after sent"

lemma sent_checkpoint:
  assumes "EnqueueLedgerCheckpointIfDue sign key clock interval message db = Inr (db', Some c)"
  obtains dest state e payloadFormat payload where "readLedgerCheckpointState db = Inr state"
    "check_anchor state (CpHistory db) = None" "newest_entry (CpHistory db) = Some e" "StateSequence state < LedgerSequence e"
    "\<not> too_early (CpRecorded c) interval state" "c = sign_checkpoint sign key (clock - clock mod second) e"
    "db' = queue_checkpoint dest payloadFormat payload c db" "enabled_of dest (CpQueue db) = Some True"
    "message c = Some (payloadFormat, payload)" "CpRecorded c = clock - clock mod second"
proof -
  from assms show ?thesis unfolding EnqueueLedgerCheckpointIfDue_def Let_def
    by (auto split: if_splits option.splits sum.splits prod.splits simp: sign_checkpoint_def intro!: that)
qed

lemma idle_check: "EnqueueLedgerCheckpointIfDue sign key clock interval message db = Inr (db', None) \<Longrightarrow> db' = db"
  unfolding EnqueueLedgerCheckpointIfDue_def Let_def
  by (auto split: if_splits option.splits sum.splits prod.splits)

lemma signed_checkpoint_verifies:
  assumes "ed25519_correct sign verify key" and "KeyID key = evidenceKeyID (PublicKey key)" and "length (PublicKey key) = PublicKeySize"
  shows "VerifyLedgerCheckpoint verify (sign_checkpoint sign key now e) (PublicKey key) = None"
  using assms by (simp add: VerifyLedgerCheckpoint_def sign_checkpoint_def ed25519_correct_def key_material_round_trip)

lemma newest_of_wf:
  assumes "ledger_wf sign key h" and "newest_entry h = Some e"
  shows "LedgerSequence e = int (length (Ledger h))" and "e = last (Ledger h)" and "Ledger h \<noteq> []"
proof -
  have s: "map LedgerSequence (Ledger h) = [1..int (length (Ledger h))]" using assms(1) by (simp add: ledger_wf_def)
  have "sorted (map LedgerSequence (Ledger h))" by (simp add: s)
  then have rows: "ledger_rows h = Ledger h" unfolding ledger_rows_def by (intro properties_for_sort_key) simp_all
  show ne: "Ledger h \<noteq> []" and e: "e = last (Ledger h)" using assms(2) by (auto simp: newest_entry_def rows split: if_splits)
  have "LedgerSequence (last (Ledger h)) = last (map LedgerSequence (Ledger h))" using ne by (simp add: last_map)
  also have "\<dots> = int (length (Ledger h))" unfolding s using ne by (simp add: upto_rec2 Suc_le_eq)
  finally show "LedgerSequence e = int (length (Ledger h))" by (simp add: e)
qed

lemma anchored_grows: "anchored_in h c \<Longrightarrow> Ledger h' = Ledger h @ new \<Longrightarrow> anchored_in h' c"
  by (auto simp: anchored_in_def nth_append)

lemma checkpoints_ok_exec:
  assumes key: "ed25519_correct sign verify key" "KeyID key = evidenceKeyID (PublicKey key)" "length (PublicKey key) = PublicKeySize"
    and ok: "checkpoints_ok sign verify key db sent" and step: "checkpoint_exec sign key message op db = (db', new)"
  shows "checkpoints_ok sign verify key db' (sent @ (case new of None \<Rightarrow> [] | Some c \<Rightarrow> [c]))"
proof (cases op)
  case (HistoryOp h)
  obtain more_rows where "Ledger (history_exec sign key h (CpHistory db)) = Ledger (CpHistory db) @ more_rows"
    using history_exec_prefix ok unfolding checkpoints_ok_def by blast
  with ok step HistoryOp history_exec_wf [of sign key "CpHistory db" h] show ?thesis
    by (auto simp: checkpoints_ok_def list_all_iff intro: anchored_grows)
next
  case (ChooseDestination i)
  then show ?thesis using ok step
    by (auto simp: checkpoints_ok_def SetEvidenceCheckpointDestination_def split: sum.splits if_splits option.splits)
next
  case (CheckCheckpoint clock)
  show ?thesis
  proof (cases new)
    case None
    then have "db' = db" using step CheckCheckpoint idle_check by (auto split: sum.splits)
    then show ?thesis using ok None by simp
  next
    case (Some c)
    then have r: "EnqueueLedgerCheckpointIfDue sign key clock ledgerCheckpointInterval message db = Inr (db', Some c)"
      using step CheckCheckpoint by (auto split: sum.splits)
    from r show ?thesis
    proof (rule sent_checkpoint)
      fix dest state e payloadFormat payload
      assume s: "readLedgerCheckpointState db = Inr state" "newest_entry (CpHistory db) = Some e"
        "StateSequence state < LedgerSequence e" "\<not> too_early (CpRecorded c) ledgerCheckpointInterval state"
        and c: "c = sign_checkpoint sign key (clock - clock mod second) e"
        and db': "db' = queue_checkpoint dest payloadFormat payload c db"
      have h: "CpHistory db' = CpHistory db" and st: "CpState db' = Some (sent_state c)"
        by (simp_all add: db' queue_checkpoint_def Let_def sent_state_def)
      note e = newest_of_wf [OF _ s(2), of sign key]
      have wf: "ledger_wf sign key (CpHistory db)" using ok by (simp add: checkpoints_ok_def)
      have anchored: "anchored_in (CpHistory db) c"
        using e [OF wf] by (simp add: anchored_in_def c sign_checkpoint_def last_conv_nth Suc_le_eq)
      have after: "checkpoint_after (last sent) c" if "sent \<noteq> []"
        using ok that s c by (auto simp: checkpoints_ok_def readLedgerCheckpointState_def sent_state_def checkpoint_after_def
            sign_checkpoint_def too_early_def split: if_splits)
      show ?thesis using ok Some anchored after signed_checkpoint_verifies [OF key] h st
        by (auto simp: checkpoints_ok_def c successively_append_iff)
    qed
  qed
qed (use ok step in \<open>auto simp: checkpoints_ok_def ClearEvidenceCheckpointDestination_def\<close>)

lemma checkpoints_ok_run:
  assumes key: "ed25519_correct sign verify key" "KeyID key = evidenceKeyID (PublicKey key)" "length (PublicKey key) = PublicKeySize"
    and "checkpoints_ok sign verify key db sent" and "checkpoint_run sign key message ops db = (db', later)"
  shows "checkpoints_ok sign verify key db' (sent @ later)"
  using assms(4,5)
proof (induction ops arbitrary: db sent later)
  case (Cons op ops)
  obtain d new rest where s: "checkpoint_exec sign key message op db = (d, new)" "checkpoint_run sign key message ops d = (db', rest)"
    and later: "later = (case new of None \<Rightarrow> rest | Some c \<Rightarrow> c # rest)"
    using Cons.prems(2) by (auto split: prod.splits)
  from Cons.IH [OF checkpoints_ok_exec [OF key Cons.prems(1) s(1)] s(2)] later show ?case
    by (cases new) simp_all
qed simp

text \<open>A ledger entry has a hash in the form a checkpoint is given.\<close>

lemma anchored_passes:
  assumes key: "ed25519_correct sign verify key" "KeyID key = evidenceKeyID (PublicKey key)" "length (PublicKey key) = PublicKeySize"
    and wf: "ledger_wf sign key h" and c: "anchored_in h c"
  shows "\<exists>totals. evidenceAudit verify (PublicKey key)
      \<lparr> AuditCursor = 0, AuditLimit = limit, TrustedPublicKey = '''', MinSequence = CpSequence c, ExpectHead = CpHead c \<rparr> h = Inr totals"
proof -
  have "Ledger h ! (nat (CpSequence c) - 1) \<in> set (Ledger h)" using c by (intro nth_mem) (simp add: anchored_in_def, linarith)
  then have "signed_entry sign key (Ledger h ! (nat (CpSequence c) - 1))" using wf by (auto simp: ledger_wf_def list_all_iff)
  then have "NormalizeLedgerHead (CpHead c) = Some (CpHead c)" 
    using c normalize_entry_hash by (auto simp: anchored_in_def signed_entry_def)
  then show ?thesis
    using written_audit [OF key wf, of "\<lparr> AuditCursor = 0, AuditLimit = limit, TrustedPublicKey = '''', MinSequence = CpSequence c, ExpectHead = CpHead c \<rparr>"] c
    by (auto simp: anchored_in_def)
qed

lemma trim_int_text: "0 < n \<Longrightarrow> trim_space (int_text n) = int_text n"
proof (rule trim_space_plain)
  assume "0 < n"
  then show "\<forall>c \<in> set (int_text n). 32 < byte_of c \<and> byte_of c < 128"
    using nat_text_digits [of "nat n"] by (auto simp: int_text_def list_all_iff is_digit_def)
qed

lemma due_check:
  assumes "length (PrivateKey key) = PrivateKeySize" and "ledger_wf sign key (CpHistory db)"
    and "0 < dest" and "dest < 2 ^ 63" and "CpDestination db = Some (int_text dest)" and "enabled_of dest (CpQueue db) = Some True"
    and "readLedgerCheckpointState db = Inr state" and "check_anchor state (CpHistory db) = None"
    and "\<forall>c. message c \<noteq> None" and "now = clock - clock mod second"
  shows "\<exists>db' sent. EnqueueLedgerCheckpointIfDue sign key clock interval message db = Inr (db', sent)
    \<and> (sent \<noteq> None \<longleftrightarrow> StateSequence state < int (length (Ledger (CpHistory db))) \<and> Ledger (CpHistory db) \<noteq> [] \<and> \<not> too_early now interval state)
    \<and> (case sent of None \<Rightarrow> db' = db
       | Some c \<Rightarrow> c = sign_checkpoint sign key now (last (Ledger (CpHistory db)))
           \<and> CpState db' = Some (sent_state c) \<and> CpHistory db' = CpHistory db
           \<and> (\<exists>row. Outbox (CpQueue db') = Outbox (CpQueue db) @ [row] \<and> ODest row = dest \<and> OStatus row = Pending
                \<and> message c = Some (OFormat row, OPayload row)))"
proof -
  have parsed: "checkpoint_destination (int_text dest) = Inr dest"
    using assms(3,4) by (simp add: checkpoint_destination_def trim_int_text parse_int64_text)
  show ?thesis
  proof (cases "newest_entry (CpHistory db)")
    case None
    then have "Ledger (CpHistory db) = []" by (auto simp: newest_entry_def split: if_splits)
    then show ?thesis using assms parsed None by (simp add: EnqueueLedgerCheckpointIfDue_def Let_def)
  next
    case (Some e)
    note n = newest_of_wf [OF assms(2) Some]
    let ?c = "sign_checkpoint sign key now e"
    obtain pf pl where m: "message ?c = Some (pf, pl)" using assms(9) by (metis option.exhaust surj_pair)
    show ?thesis
    proof (cases "StateSequence state < LedgerSequence e \<and> \<not> too_early now interval state")
      case True
      then have "EnqueueLedgerCheckpointIfDue sign key clock interval message db = Inr (queue_checkpoint dest pf pl ?c db, Some ?c)"
        using assms(1,5-8) parsed Some m by (simp add: EnqueueLedgerCheckpointIfDue_def Let_def assms(10))
      then show ?thesis using True n m
        by (simp add: queue_checkpoint_def Let_def sent_state_def sign_checkpoint_def new_outbox_row_def)
    next
      case False
      then have "EnqueueLedgerCheckpointIfDue sign key clock interval message db = Inr (db, None)"
        using assms(1,5-8) parsed Some by (auto simp: EnqueueLedgerCheckpointIfDue_def Let_def assms(10))
      then show ?thesis using False n by auto
    qed
  qed
qed

subsection \<open>Properties\<close>

text \<open>
  C30. Every checkpoint ever sent holds. Starting from an empty history, after any sequence of polls,
  starts, clean-ups, operations on the notification queue, changes of the destination and checks at any
  clock, the checkpoints sent have strictly increasing sequences at least six hours apart (unless the
  clock went back), each verifies against the public key of the instance, and an audit of the database
  as it is now accepts each of them.
\<close>
theorem sent_checkpoints_hold:
  assumes "ed25519_correct sign verify key" and "KeyID key = evidenceKeyID (PublicKey key)" and "length (PublicKey key) = PublicKeySize"
    and "CpHistory start = empty_history" and "CpState start = None"
    and "checkpoint_run sign key message ops start = (db, sent)"
  shows "successively checkpoint_after sent
    \<and> list_all (\<lambda>c. VerifyLedgerCheckpoint verify c (PublicKey key) = None
        \<and> (\<exists>totals. evidenceAudit verify (PublicKey key)
              \<lparr> AuditCursor = 0, AuditLimit = limit, TrustedPublicKey = '''', MinSequence = CpSequence c, ExpectHead = CpHead c \<rparr>
              (CpHistory db) = Inr totals)) sent"
proof -
  have "checkpoints_ok sign verify key start []"
    using assms(4,5) empty_history_wf by (simp add: checkpoints_ok_def)
  from checkpoints_ok_run [OF assms(1-3) this assms(6)] have ok: "checkpoints_ok sign verify key db sent" by simp
  then show ?thesis using anchored_passes [OF assms(1-3)] by (auto simp: checkpoints_ok_def list_all_iff)
qed

text \<open>
  C31. A rewritten ledger stops the checkpoints. After a checkpoint is sent, whatever becomes of the
  history and of the notification queue, if the ledger no longer holds its hash at its sequence then every
  later check, at any clock and with any destination, ends with an error or finds checkpoints turned off; it sends
  nothing.
\<close>
theorem rewritten_ledger_stops_checkpoints:
  assumes "EnqueueLedgerCheckpointIfDue sign key clock interval message db = Inr (db', Some c)"
    and "\<forall>e \<in> set (Ledger h). \<not> (LedgerSequence e = CpSequence c \<and> EntryHash e = CpHead c)"
    and "0 < CpSequence c"
  shows "case EnqueueLedgerCheckpointIfDue sign key clock' interval' message' (db'\<lparr>CpHistory := h, CpQueue := q, CpDestination := dest\<rparr>) of
      Inl _ \<Rightarrow> True
    | Inr (db2, sent) \<Rightarrow> dest = None \<and> sent = None \<and> db2 = db'\<lparr>CpHistory := h, CpQueue := q, CpDestination := dest\<rparr>"
proof -
  have st: "CpState db' = Some (sent_state c)"
    using assms(1) by (rule sent_checkpoint) (simp add: queue_checkpoint_def Let_def sent_state_def)
  have "check_anchor \<lparr> StateSequence = CpSequence c, StateHead = CpHead c, StateSentAt = Some (CpRecorded c) \<rparr> h \<noteq> None"
    using assms(2,3) by (auto simp: check_anchor_def dest: entry_at_Some split: option.splits)
  then show ?thesis using assms(3) st
    by (auto simp: EnqueueLedgerCheckpointIfDue_def readLedgerCheckpointState_def sent_state_def Let_def split: option.splits sum.splits)
qed

text \<open>
  When a checkpoint is due. With a usable destination and an anchored schedule, a check of a ledger the
  service wrote sends exactly if the ledger has grown since the last checkpoint and the interval has
  passed or the clock went back; it then signs the newest entry, queues exactly one notification, for the
  chosen destination alone, and records the checkpoint as the last one.
\<close>
theorem checkpoint_due_exactly:
  assumes "length (PrivateKey key) = PrivateKeySize" and "ledger_wf sign key (CpHistory db)"
    and "0 < dest" and "dest < 2 ^ 63" and "CpDestination db = Some (int_text dest)" and "enabled_of dest (CpQueue db) = Some True"
    and "readLedgerCheckpointState db = Inr state" and "check_anchor state (CpHistory db) = None"
    and "\<forall>c. message c \<noteq> None" and "now = clock - clock mod second"
  shows "\<exists>db' sent. EnqueueLedgerCheckpointIfDue sign key clock interval message db = Inr (db', sent)
    \<and> (sent \<noteq> None \<longleftrightarrow> StateSequence state < int (length (Ledger (CpHistory db))) \<and> Ledger (CpHistory db) \<noteq> [] \<and> \<not> too_early now interval state)
    \<and> (case sent of None \<Rightarrow> db' = db
       | Some c \<Rightarrow> c = sign_checkpoint sign key now (last (Ledger (CpHistory db)))
           \<and> CpState db' = Some (sent_state c) \<and> CpHistory db' = CpHistory db
           \<and> (\<exists>row. Outbox (CpQueue db') = Outbox (CpQueue db) @ [row] \<and> ODest row = dest \<and> OStatus row = Pending
                \<and> message c = Some (OFormat row, OPayload row)))"
  by (rule due_check [OF assms])

subsection \<open>The properties at a concrete input\<close>

definition anchor_start :: checkpoint_db where
  "anchor_start = \<lparr> CpHistory = empty_history, CpQueue = sample_db, CpDestination = None, CpState = None \<rparr>"

definition anchor_ready :: checkpoint_db where
  "anchor_ready = \<lparr> CpHistory = polled_history, CpQueue = sample_db, CpDestination = Some (int_text 1), CpState = None \<rparr>"

definition anchor_message :: "ledger_checkpoint \<Rightarrow> (string \<times> string) option" where
  "anchor_message c = Some (''message'', CpHead c)"

lemma anchor_enabled: "enabled_of 1 sample_db = Some True" "enabled_of 1 (CpQueue anchor_start) = Some True"
  by code_simp+

lemma anchor_due:
  "\<exists>db' c. EnqueueLedgerCheckpointIfDue toy_sign toy_key 0 interval anchor_message anchor_ready = Inr (db', Some c)
    \<and> c = sign_checkpoint toy_sign toy_key 0 (last (Ledger polled_history)) \<and> CpHistory db' = polled_history"
proof -
  obtain e where e: "Ledger polled_history = [e]" using polled_entry by blast
  have key: "length (PrivateKey toy_key) = PrivateKeySize" by (simp add: toy_key_def PrivateKeySize_def)
  have wf: "ledger_wf toy_sign toy_key (CpHistory anchor_ready)" using polled_wf by (simp add: anchor_ready_def)
  have "readLedgerCheckpointState anchor_ready = Inr no_checkpoint" by (simp add: readLedgerCheckpointState_def anchor_ready_def)
  from due_check [OF key wf _ _ _ _ this, of 1 anchor_message 0 0 interval] e show ?thesis
    by (auto simp: anchor_ready_def anchor_enabled anchor_message_def no_checkpoint_def check_anchor_def too_early_def split: option.splits)
qed

lemma anchor_prepared:
  "checkpoint_run toy_sign toy_key anchor_message
     [ChooseDestination 1, HistoryOp (RecordPoll 0 1 old_day None [] '''' (history_db.Events sample_history))] anchor_start = (anchor_ready, [])"
  by (simp add: SetEvidenceCheckpointDestination_def anchor_enabled)
    (simp add: anchor_start_def anchor_ready_def polled_history_def split: option.split)

theorem sent_checkpoints_hold_witness:
  "\<exists>db c totals. checkpoint_run toy_sign toy_key anchor_message
       [ChooseDestination 1, HistoryOp (RecordPoll 0 1 old_day None [] '''' (history_db.Events sample_history)), CheckCheckpoint 0] anchor_start = (db, [c])
     \<and> evidenceAudit toy_verify (PublicKey toy_key)
         \<lparr> AuditCursor = 0, AuditLimit = 0, TrustedPublicKey = '''', MinSequence = CpSequence c, ExpectHead = CpHead c \<rparr> (CpHistory db) = Inr totals"
proof -
  obtain db c where d: "EnqueueLedgerCheckpointIfDue toy_sign toy_key 0 ledgerCheckpointInterval anchor_message anchor_ready = Inr (db, Some c)"
    using anchor_due by blast
  have r: "checkpoint_run toy_sign toy_key anchor_message
       [ChooseDestination 1, HistoryOp (RecordPoll 0 1 old_day None [] '''' (history_db.Events sample_history)), CheckCheckpoint 0] anchor_start = (db, [c])"
    using anchor_prepared d by (simp del: EnqueueLedgerCheckpointIfDue_def split: prod.splits)
  have "CpHistory anchor_start = empty_history" "CpState anchor_start = None" by (simp_all add: anchor_start_def)
  from sent_checkpoints_hold [OF toy_ed25519 this r, of 0] r show ?thesis by auto
qed

theorem rewritten_ledger_stops_checkpoints_witness:
  "\<exists>db' c e. EnqueueLedgerCheckpointIfDue toy_sign toy_key 0 ledgerCheckpointInterval anchor_message anchor_ready = Inr (db', Some c)
    \<and> EnqueueLedgerCheckpointIfDue toy_sign toy_key day ledgerCheckpointInterval anchor_message
        (db'\<lparr>CpHistory := empty_history, CpQueue := sample_db, CpDestination := Some (int_text 1)\<rparr>) = Inl e"
proof -
  obtain db c where d: "EnqueueLedgerCheckpointIfDue toy_sign toy_key 0 ledgerCheckpointInterval anchor_message anchor_ready = Inr (db, Some c)"
    and c: "c = sign_checkpoint toy_sign toy_key 0 (last (Ledger polled_history))"
    using anchor_due by blast
  obtain e where e: "Ledger polled_history = [e]" using polled_entry by blast
  have "map LedgerSequence (Ledger polled_history) = [1]" using polled_wf(1) e by (simp add: ledger_wf_def)
  then have "0 < CpSequence c" using c e by (simp add: sign_checkpoint_def)
  from rewritten_ledger_stops_checkpoints [OF d _ this, where h = empty_history and clock' = day and interval' = ledgerCheckpointInterval
      and message' = anchor_message and q = sample_db and dest = "Some (int_text 1)"] d
  show ?thesis by (auto simp: empty_history_def split: sum.splits)
qed

theorem checkpoint_due_exactly_witness:
  "\<exists>db' c row. EnqueueLedgerCheckpointIfDue toy_sign toy_key 0 ledgerCheckpointInterval anchor_message anchor_ready = Inr (db', Some c)
    \<and> Outbox (CpQueue db') = Outbox sample_db @ [row] \<and> ODest row = 1 \<and> OPayload row = CpHead c"
proof -
  obtain e where e: "Ledger polled_history = [e]" using polled_entry by blast
  have key: "length (PrivateKey toy_key) = PrivateKeySize" by (simp add: toy_key_def PrivateKeySize_def)
  have wf: "ledger_wf toy_sign toy_key (CpHistory anchor_ready)" using polled_wf by (simp add: anchor_ready_def)
  have "readLedgerCheckpointState anchor_ready = Inr no_checkpoint" by (simp add: readLedgerCheckpointState_def anchor_ready_def)
  from checkpoint_due_exactly [OF key wf _ _ _ _ this, of 1 anchor_message 0 0 ledgerCheckpointInterval] e show ?thesis
    by (auto simp: anchor_ready_def anchor_enabled anchor_message_def no_checkpoint_def check_anchor_def too_early_def split: option.splits)
qed

end
