(* ===== verification/Store_Batches.thy ===== *)
theory Store_Batches
  imports Store_Snapshots_Laws Store_Attribution Store_Mutes Store_Routing Store_Webhooks Store_Ledger_Laws
begin

text \<open>
  \<open>internal/store/snapshots.go\<close>: \<open>ApplyBatchWithOptions\<close> as a whole. It composes the results of a poll
  (\<open>Store_Snapshots\<close>), their attribution (\<open>Store_Attribution\<close>), the mute rules (\<open>Store_Mutes\<close>), the fan-out
  of the digest (\<open>Store_Routing\<close>) and the evidence ledger (\<open>Store_Ledger\<close>) into one transaction.

  The text of a digest is a parameter: the format and the payload of a digest input, or \<open>None\<close> if it
  cannot be encoded. The lookup of the audit log runs before the transaction, on the inventory as it is
  then.
\<close>

subsection \<open>Data\<close>

record store_db =
  StInventory :: inventory_db
  StHistory :: history_db
  StQueue :: outbox_db
  StRoutes :: "int \<Rightarrow> route_columns"
  StMutes :: mute_db

record digest_input =
  DigestBatch :: int
  DigestObserved :: instant
  DigestChanges :: "change list"
  DigestMuted :: nat
  DigestCounts :: "string \<Rightarrow> nat option"
  DigestAttributed :: bool
  DigestUnavailable :: bool

record change_batch =
  ResultBatch :: int
  ResultGeneration :: int
  ResultObserved :: instant
  ResultCount :: nat
  ResultTrigger :: int
  ResultTriggers :: "int list"
  ResultChanges :: "change list"
  ResultAttribution :: string
  ResultAttributed :: nat
  ResultUnhealthy :: "collector_health list"

definition no_batch :: change_batch where
  "no_batch = \<lparr> ResultBatch = 0, ResultGeneration = 0, ResultObserved = zero_time, ResultCount = 0, ResultTrigger = 0,
     ResultTriggers = [], ResultChanges = [], ResultAttribution = '''', ResultAttributed = 0, ResultUnhealthy = [] \<rparr>"

subsection \<open>An event\<close>

text \<open>\<open>json.Marshal\<close> of the reported fields. No field at all is a nil slice.\<close>

definition any_text :: "goany \<Rightarrow> string option" where
  "any_text v = (case v of GoNil \<Rightarrow> None | RawNull \<Rightarrow> Some ''null'' | GoVal j \<Rightarrow> Some (marshal j))"

definition field_text :: "field_change \<Rightarrow> string" where
  "field_text f = struct_text
     ([(''field'', quote_text (Field f))]
      @ (case any_text (Old f) of None \<Rightarrow> [] | Some v \<Rightarrow> [(''old'', v)])
      @ (case any_text (New f) of None \<Rightarrow> [] | Some v \<Rightarrow> [(''new'', v)])
      @ (if OldPresent f then [(''old_present'', ''true'')] else [])
      @ (if NewPresent f then [(''new_present'', ''true'')] else []))"

definition persistedFields :: "change \<Rightarrow> string" where
  "persistedFields c = struct_text
     ([(''fields'', if ChangeFields c = [] then ''null'' else array_text (map field_text (ChangeFields c)))]
      @ (if ChangeTruncated c then [(''fields_truncated'', ''true'')] else [])
      @ (if ChangeTotal c = 0 then [] else [(''total_fields'', nat_text (ChangeTotal c))]))"

definition event_value :: "storage_limits \<Rightarrow> stored_value \<Rightarrow> stored_value" where
  "event_value limits v = boundedValue (SVRaw v) (SVHash v) (EventValueBytes limits) (RejectBytes limits)"

text \<open>The event and the truncations counted with it.\<close>

definition event_of ::
  "batch_env \<Rightarrow> recorded_change \<Rightarrow> attribution option \<Rightarrow> bool \<Rightarrow> event_row" where
  "event_of env entry credit muted =
     (let c = RecChange entry; before = event_value (BatchLimits env) (RecBefore entry);
          after = event_value (BatchLimits env) (RecAfter entry)
      in \<lparr> EventID = 0, EventBatch = None, EventGen = BatchGen env, EventObserved = formatTimestamp (BatchNow env),
           EventColl = ChangeCollector c, EventType = Kind c, EventRes = ResourceID c, EventName = ChangeName c,
           EventChanges = persistedFields c, EventBefore = SVRaw before, EventAfter = SVRaw after,
           EventBeforeHash = SVHash before, EventAfterHash = SVHash after, EventBeforeBytes = SVBytes before,
           EventAfterBytes = SVBytes after, EventBeforeTruncated = SVTruncated before,
           EventAfterTruncated = SVTruncated after, EventSeverity = severity_text (Classify c), EventMuted = muted,
           EventAttribution = (case credit of None \<Rightarrow> '''' | Some a \<Rightarrow> MarshalAttribution a) \<rparr>)"

definition note_event :: "storage_limits \<Rightarrow> recorded_change \<Rightarrow> truncations \<Rightarrow> truncations" where
  "note_event limits entry t =
     noteTruncation (event_value limits (RecAfter entry)) False (noteTruncation (event_value limits (RecBefore entry)) False t)"

subsection \<open>The changes of a batch\<close>

text \<open>When a collector was fetched: the last of its results that did not fail, else the time of the batch.\<close>

definition fetched_of :: "batch_env \<Rightarrow> collected list \<Rightarrow> string \<Rightarrow> instant" where
  "fetched_of env results c =
     (case filter (\<lambda>r. CollName r = c \<and> \<not> CollFailed r) results of
        [] \<Rightarrow> BatchNow env
      | rs \<Rightarrow> fetchedAt env (last rs))"

definition deviceIdentity :: "int \<Rightarrow> inventory_db \<Rightarrow> change \<Rightarrow> attribution_result \<Rightarrow> string list" where
  "deviceIdentity gen db c lookup =
     (if ChangeCollector c \<noteq> ''device_details'' \<or> LookupStatus lookup \<noteq> AttributionComplete \<or> LookupEntries lookup = [] then []
      else case snap_of gen ''devices'' (ResourceID c) db of None \<Rightarrow> [] | Some r \<Rightarrow> [SnapJSON r])"

text \<open>One recorded change: its credit, whether it is muted, and what is shown of it.\<close>

record judged_change =
  JudgedEntry :: recorded_change
  JudgedCredit :: "attribution option"
  JudgedMuted :: bool
  JudgedShown :: change

definition judge_change ::
  "batch_env \<Rightarrow> collected list \<Rightarrow> attribution_result \<Rightarrow> attribution_window \<Rightarrow> (string \<Rightarrow> string) \<Rightarrow> mute_set
     \<Rightarrow> inventory_db \<Rightarrow> recorded_change \<Rightarrow> judged_change" where
  "judge_change env results lookup window lower mutes db entry =
     (let c = RecChange entry;
          credit = attributeChange entry lookup window (fetched_of env results (ChangeCollector c))
                     (deviceIdentity (BatchGen env) db c lookup);
          (muted, shown) = evaluate lower mutes c (SVRaw (RecBefore entry)) (SVRaw (RecAfter entry))
      in \<lparr> JudgedEntry = entry, JudgedCredit = credit, JudgedMuted = muted, JudgedShown = shown\<lparr>ChangeAttribution := credit\<rparr> \<rparr>)"

definition judged_event :: "batch_env \<Rightarrow> judged_change \<Rightarrow> event_row" where
  "judged_event env j = event_of env (JudgedEntry j) (JudgedCredit j) (JudgedMuted j)"

text \<open>How many resources each collector returned; a later result of a collector replaces an earlier one.\<close>

definition resource_counts :: "collected list \<Rightarrow> string \<Rightarrow> nat option" where
  "resource_counts results =
     fold (\<lambda>r m. if usable r then m(CollName r := Some (length (CollResources r))) else m) results (\<lambda>_. None)"

subsection \<open>Recording the batch\<close>

definition digest_of ::
  "batch_env \<Rightarrow> collected list \<Rightarrow> attribution_result \<Rightarrow> judged_change list \<Rightarrow> int \<Rightarrow> change list \<Rightarrow> digest_input" where
  "digest_of env results lookup judged batchID shown =
     \<lparr> DigestBatch = batchID, DigestObserved = BatchNow env, DigestChanges = shown,
       DigestMuted = length (filter JudgedMuted judged), DigestCounts = resource_counts results,
       DigestAttributed = attributionShown (LookupStatus lookup),
       DigestUnavailable = (LookupStatus lookup = AttributionUnavailable) \<rparr>"

definition notifiable :: "judged_change list \<Rightarrow> (change \<times> severity) list" where
  "notifiable judged = map (\<lambda>j. (JudgedShown j, Classify (JudgedShown j))) (filter (\<lambda>j. \<not> JudgedMuted j) judged)"

definition batch_result :: "batch_env \<Rightarrow> int list \<Rightarrow> recorded_change list \<Rightarrow> change_batch" where
  "batch_result env triggerIDs recorded =
     no_batch\<lparr>ResultGeneration := BatchGen env, ResultObserved := BatchNow env,
       ResultTrigger := (case triggerIDs of t # _ \<Rightarrow> if 0 < t then t else 0 | [] \<Rightarrow> 0), ResultTriggers := triggerIDs,
       ResultChanges := map RecChange recorded\<rparr>"

definition recordChangeBatch ::
  "ed25519_sign \<Rightarrow> evidence_key \<Rightarrow> instant \<Rightarrow> batch_env \<Rightarrow> (string \<Rightarrow> string) \<Rightarrow> (digest_input \<Rightarrow> (string \<times> string) option)
     \<Rightarrow> collected list \<Rightarrow> attribution_result \<Rightarrow> attribution_window \<Rightarrow> int list \<Rightarrow> batch_state \<Rightarrow> store_db
     \<Rightarrow> (store_db \<times> batch_state \<times> change_batch) option" where
  "recordChangeBatch sign key clock env lower digest results lookup window triggerIDs a db =
     (let result = batch_result env triggerIDs (Recorded a)
      in if Recorded a = [] then Some (db, a, result)
         else
           (let batchID = NextBatch (StHistory db);
                trigger = (if 0 < ResultTrigger result then Some (ResultTrigger result) else None);
                mutes = newMuteSet lower (ListMuteRules (StMutes db));
                judged = map (judge_change env results lookup window lower mutes (Inv a)) (Recorded a);
                h1 = insertBatch (BatchGen env) (formatTimestamp (BatchNow env)) (int (length (Recorded a))) trigger
                       (LookupStatus lookup) (StHistory db);
                h2 = fold (linkTrigger batchID) triggerIDs h1;
                h3 = fold (insertEventRow batchID) (map (judged_event env) judged) h2;
                queue = StQueue db;
                queue1 = queue\<lparr>BatchGeneration := BatchGeneration queue @ [(batchID, BatchGen env)]\<rparr>
            in case enqueueDigestTx (\<lambda>shown. digest (digest_of env results lookup judged batchID shown))
                      (StRoutes db) (notifiable judged) batchID (BatchNow env) queue1 of
                 None \<Rightarrow> None
               | Some queue2 \<Rightarrow>
                   (case appendEvidenceLedgerTx sign key clock batchID h3 of
                      None \<Rightarrow> None
                    | Some h4 \<Rightarrow>
                        Some (db\<lparr>StHistory := h4, StQueue := queue2\<rparr>,
                              a\<lparr>Truncations := fold (note_event (BatchLimits env)) (Recorded a) (Truncations a)\<rparr>,
                              result\<lparr>ResultBatch := batchID, ResultCount := length (Recorded a),
                                ResultAttribution := LookupStatus lookup,
                                ResultAttributed := length (filter (\<lambda>j. JudgedCredit j \<noteq> None) judged),
                                ResultChanges := map (\<lambda>j. case JudgedCredit j of None \<Rightarrow> RecChange (JudgedEntry j)
                                  | Some credit \<Rightarrow> (RecChange (JudgedEntry j))\<lparr>ChangeAttribution := Some credit\<rparr>) judged\<rparr>))))"

subsection \<open>The whole batch\<close>

text \<open>
  The lookup reads the inventory before the transaction; \<open>late\<close>, \<open>lookup_now\<close>, \<open>clock\<close> and the time of the
  batch are readings of the clock.
\<close>

definition ApplyBatchWithOptions ::
  "ed25519_sign \<Rightarrow> evidence_key \<Rightarrow> (string \<Rightarrow> string) \<Rightarrow> (digest_input \<Rightarrow> (string \<times> string) option) \<Rightarrow> batch_env
     \<Rightarrow> collected list \<Rightarrow> batch_options \<Rightarrow> bool \<Rightarrow> instant \<Rightarrow> inventory_db \<Rightarrow> instant \<Rightarrow> int list \<Rightarrow> store_db
     \<Rightarrow> (store_db \<times> change_batch \<times> truncations) option" where
  "ApplyBatchWithOptions sign key lower digest env results options late lookup_now probed clock triggerIDs db =
     (case canonicalizeResults results of
        None \<Rightarrow> None
      | Some forms \<Rightarrow>
          (let (lookup, window) = lookupAttribution (BatchGen env) results forms options late lookup_now probed;
               nothing = \<lparr> SnapshotTruncations = 0, EventTruncations = 0, OversizedWrites = 0 \<rparr>
           in if ActiveGeneration (StInventory db) = None then None
              else if ActiveGeneration (StInventory db) \<noteq> Some (BatchGen env) then Some (db, no_batch, nothing)
              else
                (case apply_results env results forms (start_batch (StInventory db)) of
                   None \<Rightarrow> None
                 | Some a \<Rightarrow>
                     (case recordChangeBatch sign key clock env lower digest results lookup window
                             (uniquePositiveIDs triggerIDs) a db of
                        None \<Rightarrow> None
                      | Some (db1, a1, result) \<Rightarrow>
                          Some (db1\<lparr>StInventory := markBaselineReady (BatchGen env) (BatchNow env) (Inv a1)\<rparr>,
                                result\<lparr>ResultUnhealthy := Unhealthy a1\<rparr>, Truncations a1)))))"

end
