(* ===== verification/Store_Batches_Laws.thy ===== *)
theory Store_Batches_Laws
  imports Store_Batches
begin

text \<open>
  What a poll that reports drift does to the history, the ledger and the notification queue, from the
  stored inventory to the queued payloads.
\<close>

subsection \<open>The history of a batch\<close>

definition batch_judged ::
  "batch_env \<Rightarrow> collected list \<Rightarrow> attribution_result \<Rightarrow> attribution_window \<Rightarrow> (string \<Rightarrow> string) \<Rightarrow> batch_state \<Rightarrow> store_db
     \<Rightarrow> judged_change list" where
  "batch_judged env results lookup window lower a db =
     map (judge_change env results lookup window lower (newMuteSet lower (ListMuteRules (StMutes db))) (Inv a)) (Recorded a)"

lemma judged_entries: "map JudgedEntry (batch_judged env results lookup window lower a db) = Recorded a"
  by (simp add: batch_judged_def judge_change_def Let_def case_prod_beta comp_def)

lemma length_judged [simp]: "length (batch_judged env results lookup window lower a db) = length (Recorded a)"
  by (simp add: batch_judged_def)

text \<open>The changes shown to a destination with these rules.\<close>

definition judged_shown :: "judged_change list \<Rightarrow> routing_rules \<Rightarrow> change list" where
  "judged_shown judged rules =
     map JudgedShown (filter (\<lambda>j. \<not> JudgedMuted j \<and> Matches rules (JudgedShown j) (Classify (JudgedShown j))) judged)"

lemma routed_notifiable:
  "routed_payload digest (notifiable judged) rules =
     (if judged_shown judged rules = [] then Some ('''', '''') else digest (judged_shown judged rules))"
proof -
  have "map fst (filter (\<lambda>(c, s). Matches rules c s) (notifiable judged)) = judged_shown judged rules"
    by (induction judged) (auto simp: notifiable_def judged_shown_def)
  then show ?thesis by (simp add: routed_payload_def Let_def)
qed

lemma event_rows:
  "Events (fold (insertEventRow b) es h) =
     Events h @ map (\<lambda>(k, e). e\<lparr>EventID := NextEvent h + int k, EventBatch := Some b\<rparr>) (enumerate 0 es)
   \<and> NextEvent (fold (insertEventRow b) es h) = NextEvent h + int (length es)"
  by (induction es rule: rev_induct) (simp_all add: insertEventRow_def enumerate_append_eq)

lemma recorded_batch:
  assumes "recordChangeBatch sign key clock env lower digest results lookup window triggerIDs a db = Some (db', a', result)"
    and "Recorded a \<noteq> []"
  obtains trigger queue where
    "recordHistory sign key clock (BatchGen env) (formatTimestamp (BatchNow env)) trigger triggerIDs (LookupStatus lookup)
       (map (judged_event env) (batch_judged env results lookup window lower a db)) (StHistory db) = Some (StHistory db')"
    "enqueueDigestTx (\<lambda>shown. digest (digest_of env results lookup (batch_judged env results lookup window lower a db)
         (NextBatch (StHistory db)) shown))
       (StRoutes db) (notifiable (batch_judged env results lookup window lower a db)) (NextBatch (StHistory db)) (BatchNow env)
       queue = Some (StQueue db')"
    "Outbox queue = Outbox (StQueue db)" "Dests queue = Dests (StQueue db)" "StInventory db' = StInventory db"
    "Inv a' = Inv a" "Unhealthy a' = Unhealthy a"
proof -
  let ?q = "(StQueue db)\<lparr>BatchGeneration := BatchGeneration (StQueue db) @ [(NextBatch (StHistory db), BatchGen env)]\<rparr>"
  show ?thesis
    using assms unfolding recordChangeBatch_def Let_def batch_judged_def [symmetric]
    by (auto split: option.splits simp: recordHistory_def Let_def intro!: that [of _ ?q])
qed

lemma quiet_batch:
  assumes "recordChangeBatch sign key clock env lower digest results lookup window triggerIDs a db = Some (db', a', result)"
    and "Recorded a = []"
  shows "db' = db" and "a' = a"
  using assms by (simp_all add: recordChangeBatch_def Let_def)

text \<open>A batch that is applied: its parts.\<close>

lemma applied_batch:
  assumes "ApplyBatchWithOptions sign key lower digest env results options late lookup_now probed clock triggerIDs db = Some (db', result, t)"
    and "canonicalizeResults results = Some forms" and "ActiveGeneration (StInventory db) = Some (BatchGen env)"
  obtains lookup window a db1 a1 result1 where "lookupAttribution (BatchGen env) results forms options late lookup_now probed = (lookup, window)"
    "apply_results env results forms (start_batch (StInventory db)) = Some a"
    "recordChangeBatch sign key clock env lower digest results lookup window (uniquePositiveIDs triggerIDs) a db = Some (db1, a1, result1)"
    "StHistory db' = StHistory db1" "StQueue db' = StQueue db1"
    "StInventory db' = markBaselineReady (BatchGen env) (BatchNow env) (Inv a1)"
  using assms unfolding ApplyBatchWithOptions_def Let_def
  by (auto split: option.splits prod.splits if_splits intro!: that)

subsection \<open>From the inventory to the history\<close>

text \<open>The drift between the stored inventory and the results, read off the inventory before the batch.\<close>

definition batch_drift :: "batch_env \<Rightarrow> inventory_db \<Rightarrow> collected list \<Rightarrow> recorded_change list" where
  "batch_drift env db results =
     concat (map (\<lambda>result. if usable result then collector_changes env db result (forms_of result) else []) results)"

definition event_records :: "batch_env \<Rightarrow> int \<Rightarrow> recorded_change \<Rightarrow> event_row \<Rightarrow> bool" where
  "event_records env batchID entry e \<longleftrightarrow>
     (\<exists>credit muted. e = (event_of env entry credit muted)\<lparr>EventID := EventID e, EventBatch := Some batchID\<rparr>)"

lemma event_records_fields:
  "event_records env b entry e \<Longrightarrow> EventRes e = ResourceID (RecChange entry) \<and> EventType e = Kind (RecChange entry)"
proof -
  assume "event_records env b entry e"
  then obtain credit muted where e: "e = (event_of env entry credit muted)\<lparr>EventID := EventID e, EventBatch := Some b\<rparr>"
    by (auto simp: event_records_def)
  show ?thesis by (subst (1 2) e) (simp add: event_of_def Let_def)
qed

lemma recorded_events:
  "list_all2 (event_records env b) (map JudgedEntry js)
     (map (\<lambda>(k, e). e\<lparr>EventID := n + int k, EventBatch := Some b\<rparr>) (enumerate m (map (judged_event env) js)))"
  by (induction js arbitrary: m) (auto simp: event_records_def judged_event_def)

lemma append_new:
  assumes "recordHistory sign key clock gen observed trigger triggerIDs status events h = Some h'"
    and "ledger_wf sign key h" and "history_wf h"
  shows "\<exists>b entry. EventBatches h' = EventBatches h @ [b] \<and> BatchRowID b = NextBatch h \<and> BatchChanges b = int (length events)
      \<and> BatchObserved b = observed \<and> Ledger h' = Ledger h @ [entry] \<and> LedgerBatchID entry = NextBatch h
      \<and> Events h' = Events h @ map (\<lambda>(k, e). e\<lparr>EventID := NextEvent h + int k, EventBatch := Some (NextBatch h)\<rparr>) (enumerate 0 events)"
proof -
  let ?d = "before_append gen observed trigger triggerIDs status events h"
  have r: "appendEvidenceLedgerTx sign key clock (NextBatch h) ?d = Some h'"
    using assms(1) by (simp add: recordHistory_append)
  have fresh: "\<not> list_ex (\<lambda>r. LedgerBatchID r = NextBatch h) (Ledger ?d)"
    using assms(2) by (auto simp: before_append_rows ledger_wf_def list_ex_iff)
  have batches: "\<exists>b. EventBatches ?d = EventBatches h @ [b] \<and> BatchRowID b = NextBatch h \<and> BatchChanges b = int (length events)
      \<and> BatchObserved b = observed"
    by (simp add: insert_fields)
  have "Events (fold (linkTrigger (NextBatch h)) triggerIDs (insertBatch gen observed (int (length events)) trigger status h)) = Events h"
    "NextEvent (fold (linkTrigger (NextBatch h)) triggerIDs (insertBatch gen observed (int (length events)) trigger status h)) = NextEvent h"
    by (simp_all add: insert_fields)
  then have events: "Events ?d = Events h @ map (\<lambda>(k, e). e\<lparr>EventID := NextEvent h + int k, EventBatch := Some (NextBatch h)\<rparr>) (enumerate 0 events)"
    unfolding before_append_def using event_rows by metis
  from r show ?thesis
  proof (cases rule: append_cases)
    case present
    then show ?thesis using fresh by blast
  next
    case (added payload batch row)
    with batches events show ?thesis by (auto simp: before_append_rows)
  qed
qed

subsection \<open>Properties\<close>

text \<open>
  C32. Drift reaches the history, and nothing else does. For the results of a poll of the active
  generation, the drift is what the results differ in from the stored inventory. A batch without drift
  leaves the history and the notification queue as they are. Otherwise it adds exactly one batch, one
  event for each change of the drift in order, and one ledger entry for the batch; and the ledger is again
  a true signed chain.
\<close>
theorem drift_reaches_history:
  assumes "canonicalizeResults results = Some forms" and "distinct (map CollName results)"
    and "\<forall>result \<in> set results. usable result \<longrightarrow> distinct (map ResID (CollResources result))"
    and "ActiveGeneration (StInventory db) = Some (BatchGen env)"
    and "ledger_wf sign key (StHistory db)" and "history_wf (StHistory db)"
    and "ApplyBatchWithOptions sign key lower digest env results options late lookup_now probed clock triggerIDs db = Some (db', result, t)"
  shows "ledger_wf sign key (StHistory db') \<and> history_wf (StHistory db')
    \<and> (batch_drift env (StInventory db) results = [] \<longrightarrow> StHistory db' = StHistory db \<and> StQueue db' = StQueue db)
    \<and> (batch_drift env (StInventory db) results \<noteq> [] \<longrightarrow>
        (\<exists>b entry events. EventBatches (StHistory db') = EventBatches (StHistory db) @ [b]
          \<and> BatchChanges b = int (length (batch_drift env (StInventory db) results))
          \<and> BatchObserved b = formatTimestamp (BatchNow env)
          \<and> Events (StHistory db') = Events (StHistory db) @ events
          \<and> list_all2 (event_records env (BatchRowID b)) (batch_drift env (StInventory db) results) events
          \<and> Ledger (StHistory db') = Ledger (StHistory db) @ [entry] \<and> LedgerBatchID entry = BatchRowID b))"
  using assms(7,1,4)
proof (rule applied_batch)
  fix lookup window a db1 a1 result1
  assume a: "apply_results env results forms (start_batch (StInventory db)) = Some a"
    and r: "recordChangeBatch sign key clock env lower digest results lookup window (uniquePositiveIDs triggerIDs) a db = Some (db1, a1, result1)"
    and db1: "StHistory db' = StHistory db1" "StQueue db' = StQueue db1"
  have drift: "Recorded a = batch_drift env (StInventory db) results"
    unfolding batch_drift_def by (rule batch_changes [OF assms(1) a assms(2,3)])
  show ?thesis
  proof (cases "Recorded a = []")
    case True
    then show ?thesis using quiet_batch [OF r] drift db1 assms(5,6) by simp
  next
    case False
    let ?judged = "batch_judged env results lookup window lower a db"
    from r False show ?thesis
    proof (rule recorded_batch)
      fix trigger
      assume h: "recordHistory sign key clock (BatchGen env) (formatTimestamp (BatchNow env)) trigger (uniquePositiveIDs triggerIDs)
          (LookupStatus lookup) (map (judged_event env) ?judged) (StHistory db) = Some (StHistory db1)"
      have events: "list_all2 (event_records env (NextBatch (StHistory db))) (Recorded a)
          (map (\<lambda>(k, e). e\<lparr>EventID := NextEvent (StHistory db) + int k, EventBatch := Some (NextBatch (StHistory db))\<rparr>)
             (enumerate 0 (map (judged_event env) ?judged)))"
        using recorded_events [of env "NextBatch (StHistory db)" ?judged] by (simp add: judged_entries)
      from append_new [OF h assms(5,6)] record_wf [OF h assms(5,6)] events False db1 drift show ?thesis by auto
    qed
  qed
qed

text \<open>
  C33. What is sent of a batch. Each enabled destination is queued exactly the digest of the changes that
  no rule mutes and that its routing rules select, shown without their muted fields and with their credit;
  a destination with no such change, and everyone when all changes are muted, is queued nothing.
\<close>
theorem digest_shows_unmuted:
  assumes "recordChangeBatch sign key clock env lower digest results lookup window triggerIDs a db = Some (db', a', result)"
    and "Recorded a \<noteq> []"
  shows "\<exists>rows. Outbox (StQueue db') = Outbox (StQueue db) @ rows
    \<and> list_all (\<lambda>r. OBatch r = Some (NextBatch (StHistory db)) \<and> OStatus r = Pending) rows
    \<and> map (\<lambda>r. (ODest r, OFormat r, OPayload r)) rows =
        concat (map (\<lambda>(d, rules).
          (case judged_shown (batch_judged env results lookup window lower a db) rules of
             [] \<Rightarrow> []
           | shown \<Rightarrow>
               (case digest (digest_of env results lookup (batch_judged env results lookup window lower a db)
                        (NextBatch (StHistory db)) shown) of
                  None \<Rightarrow> []
                | Some (format, payload) \<Rightarrow> if payload = '''' then [] else [(DestID d, format, payload)])))
          (routed_destinations (StRoutes db) (StQueue db)))"
  using assms
proof (rule recorded_batch)
  fix queue
  let ?judged = "batch_judged env results lookup window lower a db" and ?batch = "NextBatch (StHistory db)"
  let ?digest = "\<lambda>shown. digest (digest_of env results lookup ?judged ?batch shown)"
  assume q: "enqueueDigestTx ?digest (StRoutes db) (notifiable ?judged) ?batch (BatchNow env) queue = Some (StQueue db')"
    and queue: "Outbox queue = Outbox (StQueue db)" "Dests queue = Dests (StQueue db)"
  have dests: "routed_destinations (StRoutes db) queue = routed_destinations (StRoutes db) (StQueue db)"
    by (simp add: routed_destinations_def queue)
  have sent: "\<exists>rows. Outbox (fold (send_to ?digest (notifiable ?judged) ?batch (BatchNow env)) (filter (sent_to ?digest (notifiable ?judged)) ds) q0)
        = Outbox q0 @ rows
      \<and> list_all (\<lambda>r. OBatch r = Some ?batch \<and> OStatus r = Pending) rows
      \<and> map (\<lambda>r. (ODest r, OFormat r, OPayload r)) rows =
        concat (map (\<lambda>(d, rules).
          (case judged_shown ?judged rules of
             [] \<Rightarrow> []
           | shown \<Rightarrow> (case ?digest shown of None \<Rightarrow> []
                | Some (format, payload) \<Rightarrow> if payload = '''' then [] else [(DestID d, format, payload)]))) ds)" for ds q0
  proof (induction ds arbitrary: q0)
    case (Cons x ds)
    obtain d rules where x: "x = (d, rules)" by (cases x)
    show ?case
    proof (cases "sent_to ?digest (notifiable ?judged) x")
      case True
      then obtain format payload where p: "routed_payload ?digest (notifiable ?judged) rules = Some (format, payload)" "payload \<noteq> ''''"
        by (auto simp: sent_to_def x)
      then obtain s ss where shown: "judged_shown ?judged rules = s # ss"
        by (cases "judged_shown ?judged rules") (simp_all add: routed_notifiable)
      then have d: "?digest (s # ss) = Some (format, payload)" using p by (simp add: routed_notifiable)
      from Cons.IH [of "insert_outbox (Some ?batch) format payload (BatchNow env) d q0"] True p shown d show ?thesis
        by (auto simp: x send_to_def insert_outbox_def new_outbox_row_def)
    next
      case False
      then have "(case judged_shown ?judged rules of [] \<Rightarrow> []
           | shown \<Rightarrow> (case ?digest shown of None \<Rightarrow> []
                | Some (format, payload) \<Rightarrow> if payload = '''' then [] else [(DestID d, format, payload)])) = []"
        by (auto simp: sent_to_def x routed_notifiable split: list.splits option.splits if_splits)
      then show ?thesis using Cons.IH [of q0] False by (simp add: x)
    qed
  qed simp
  have "StQueue db' = fold (send_to ?digest (notifiable ?judged) ?batch (BatchNow env))
      (filter (sent_to ?digest (notifiable ?judged)) (routed_destinations (StRoutes db) (StQueue db))) queue"
    using q by (simp add: enqueue_digest dests split: if_splits)
  with sent [of "routed_destinations (StRoutes db) (StQueue db)" queue] queue(1) show ?thesis by simp
qed

subsection \<open>The properties at a concrete input\<close>

definition plain_store :: store_db where
  "plain_store = \<lparr> StInventory = sample_inventory [sample_snap ''u1'' 1], StHistory = empty_history, StQueue = sample_db,
     StRoutes = (\<lambda>_. routing_columns no_routing), StMutes = \<lparr> MuteRules = [], NextMuteID = 1 \<rparr> \<rparr>"

definition plain_options :: batch_options where
  "plain_options = \<lparr> OptAttribute = None, OptRemovalLookback = 0 \<rparr>"

definition plain_digest :: "digest_input \<Rightarrow> (string \<times> string) option" where
  "plain_digest i = Some (''message'', ''drift'')"

lemma first_batch_recorded: "\<exists>h. recordHistory sign key clock gen observed trigger triggerIDs status events empty_history = Some h"
proof -
  let ?d = "before_append gen observed trigger triggerIDs status events empty_history"
  have "batch_exists 1 ?d"
    using before_append_wf(2) [OF empty_history_wf(1), of gen observed trigger triggerIDs status events] by (simp add: empty_history_def)
  then obtain payload batch where "evidenceLedgerPayload 1 ?d = Some (payload, batch)"
    using payload_gone [of 1 ?d] by (auto simp: batch_of_None payload_of_def)
  moreover have "NextBatch empty_history = 1" "Ledger ?d = []" by (simp_all add: before_append_rows) (simp_all add: empty_history_def)
  ultimately show ?thesis by (simp add: recordHistory_append appendEvidenceLedgerTx_def Let_def)
qed

lemma plain_record:
  assumes "Recorded a \<noteq> []"
  shows "\<exists>r. recordChangeBatch sign key clock env lower plain_digest results lookup window triggerIDs a plain_store = Some r"
proof -
  let ?judged = "batch_judged env results lookup window lower a plain_store"
  let ?q = "sample_db\<lparr>BatchGeneration := BatchGeneration sample_db @ [(1, BatchGen env)]\<rparr>"
  have n: "NextBatch empty_history = 1" by (simp add: empty_history_def)
  have f: "StHistory plain_store = empty_history" "StQueue plain_store = sample_db" by (simp_all add: plain_store_def)
  have "\<forall>x. routed_payload (\<lambda>shown. plain_digest (digest_of env results lookup ?judged 1 shown)) (notifiable ?judged) (snd x) \<noteq> None"
    by (simp add: routed_notifiable plain_digest_def)
  then have "\<not> list_ex (\<lambda>x. routed_payload (\<lambda>shown. plain_digest (digest_of env results lookup ?judged 1 shown)) (notifiable ?judged) (snd x) = None)
      (routed_destinations (StRoutes plain_store) ?q)"
    by (simp add: list_ex_iff)
  then have q: "\<exists>queue. enqueueDigestTx (\<lambda>shown. plain_digest (digest_of env results lookup ?judged 1 shown))
      (StRoutes plain_store) (notifiable ?judged) 1 (BatchNow env) ?q = Some queue"
    unfolding enqueue_digest by auto
  have "\<exists>h. recordHistory sign key clock (BatchGen env) (formatTimestamp (BatchNow env))
      (if 0 < ResultTrigger (batch_result env triggerIDs (Recorded a)) then Some (ResultTrigger (batch_result env triggerIDs (Recorded a))) else None)
      triggerIDs (LookupStatus lookup) (map (judged_event env) ?judged) empty_history = Some h"
    by (rule first_batch_recorded)
  with q assms show ?thesis
    unfolding recordChangeBatch_def Let_def batch_judged_def [symmetric] recordHistory_def f n by auto
qed

lemma plain_drift:
  "map (\<lambda>rc. ResourceID (RecChange rc)) (batch_drift sample_batch (StInventory plain_store) [sample_result []]) = [''u1'']"
  by code_simp

lemma plain_inputs: "distinct (map CollName [sample_result []])"
    "\<forall>result \<in> set [sample_result []]. usable result \<longrightarrow> distinct (map ResID (CollResources result))"
    "ActiveGeneration (StInventory plain_store) = Some (BatchGen sample_batch)"
  by (simp_all add: sample_result_def plain_store_def sample_inventory_def sample_batch_def)

lemma plain_applied:
  "\<exists>a db1 a1 result1. apply_results sample_batch [sample_result []] [[]] (start_batch (StInventory plain_store)) = Some a
     \<and> Recorded a = batch_drift sample_batch (StInventory plain_store) [sample_result []]
     \<and> recordChangeBatch sign key clock sample_batch lower plain_digest [sample_result []] no_lookup window [] a plain_store = Some (db1, a1, result1)"
proof -
  have s: "StInventory plain_store = sample_inventory [sample_snap ''u1'' 1]" by (simp add: plain_store_def)
  obtain a where a: "apply_results sample_batch [sample_result []] [[]] (start_batch (StInventory plain_store)) = Some a"
    using sample_empty_batch(2) unfolding s by blast
  have drift: "Recorded a = batch_drift sample_batch (StInventory plain_store) [sample_result []]"
    unfolding batch_drift_def by (rule batch_changes [OF sample_empty_batch(1) a plain_inputs(1,2)])
  then have "Recorded a \<noteq> []" using plain_drift by auto
  from plain_record [OF this, of sign key clock sample_batch lower "[sample_result []]" no_lookup window "[]"] a drift show ?thesis by auto
qed

lemma no_trigger_ids: "uniquePositiveIDs [] = []" by code_simp

lemma plain_destinations: "filter active_dest (Dests sample_db) = [sample_dest]" "DestID sample_dest = 1" by code_simp+

theorem drift_reaches_history_witness:
  "\<exists>db' result t e entry. ApplyBatchWithOptions toy_sign toy_key to_lower plain_digest sample_batch [sample_result []] plain_options False 0
       (StInventory plain_store) 0 [] plain_store = Some (db', result, t)
     \<and> Events (StHistory db') = [e] \<and> EventRes e = ''u1'' \<and> EventType e = ''removed'' \<and> Ledger (StHistory db') = [entry]"
proof -
  obtain db' result t where r: "ApplyBatchWithOptions toy_sign toy_key to_lower plain_digest sample_batch [sample_result []] plain_options False 0
       (StInventory plain_store) 0 [] plain_store = Some (db', result, t)"
    using plain_applied [of toy_sign toy_key 0 to_lower "\<lparr> WindowStart = zero_time, WindowEnd = zero_time \<rparr>"] plain_inputs(3) sample_empty_batch(1)
    by (auto simp: ApplyBatchWithOptions_def lookupAttribution_def plain_options_def Let_def no_trigger_ids)
  have h: "StHistory plain_store = empty_history" "Events empty_history = []" "Ledger empty_history = []"
    by (simp_all add: plain_store_def empty_history_def)
  have k: "map (\<lambda>rc. (ResourceID (RecChange rc), Kind (RecChange rc))) (batch_drift sample_batch (StInventory plain_store) [sample_result []]) = [(''u1'', ''removed'')]"
    by code_simp
  then obtain rc where d: "batch_drift sample_batch (StInventory plain_store) [sample_result []] = [rc]"
      "ResourceID (RecChange rc) = ''u1''" "Kind (RecChange rc) = ''removed''" by auto
  from drift_reaches_history [OF sample_empty_batch(1) plain_inputs _ _ r] d h empty_history_wf r show ?thesis
    by (auto simp: list_all2_Cons1 dest: event_records_fields)
qed

theorem digest_shows_unmuted_witness:
  "\<exists>a db' a' result row. recordChangeBatch toy_sign toy_key 0 sample_batch to_lower plain_digest [sample_result []] no_lookup
       \<lparr> WindowStart = zero_time, WindowEnd = zero_time \<rparr> [] a plain_store = Some (db', a', result)
     \<and> Outbox (StQueue db') = Outbox sample_db @ [row] \<and> ODest row = 1 \<and> OPayload row = ''drift''"
proof -
  let ?w = "\<lparr> WindowStart = zero_time, WindowEnd = zero_time \<rparr>"
  obtain a db1 a1 result1 where a: "Recorded a = batch_drift sample_batch (StInventory plain_store) [sample_result []]"
    and r: "recordChangeBatch toy_sign toy_key 0 sample_batch to_lower plain_digest [sample_result []] no_lookup ?w [] a plain_store
        = Some (db1, a1, result1)"
    using plain_applied [of toy_sign toy_key 0 to_lower ?w] by blast
  obtain rc where d: "Recorded a = [rc]" using plain_drift a by auto
  have m: "\<not> JudgedMuted j" if "j \<in> set (batch_judged sample_batch [sample_result []] no_lookup ?w to_lower a plain_store)" for j
    using that by (auto simp: batch_judged_def judge_change_def Let_def plain_store_def ListMuteRules_def newMuteSet_def evaluate_def mute_set_empty_def)
  have dests: "routed_destinations (StRoutes plain_store) (StQueue plain_store) = [(sample_dest, routingFromColumns (routing_columns no_routing))]"
    by (simp add: routed_destinations_def plain_store_def plain_destinations)
  have all: "Matches (routingFromColumns (routing_columns no_routing)) c s" for c s
    by (simp add: columns_round_trip [OF no_routing_normal] Matches_def) (simp add: no_routing_def)
  obtain j where j: "batch_judged sample_batch [sample_result []] no_lookup ?w to_lower a plain_store = [j]"
    by (simp add: batch_judged_def d)
  have shown: "judged_shown [j] rules = [JudgedShown j]" if "rules = routingFromColumns (routing_columns no_routing)" for rules
    using m [of j] all that by (simp add: judged_shown_def j)
  have q: "StQueue plain_store = sample_db" by (simp add: plain_store_def)
  from d digest_shows_unmuted [OF r] obtain rows where rows: "Outbox (StQueue db1) = Outbox sample_db @ rows"
      "map (\<lambda>r. (ODest r, OFormat r, OPayload r)) rows = [(1, ''message'', ''drift'')]"
    by (auto simp: j dests [unfolded q] shown q plain_digest_def plain_destinations)
  then obtain row where "rows = [row]" "ODest row = 1" "OPayload row = ''drift''" by auto
  with rows r show ?thesis by blast
qed

end
