(* ===== verification/Store_Accounts.thy ===== *)
theory Store_Accounts
  imports Secret Leased_Queue
begin

text \<open>
  \<open>internal/store/sessions.go\<close>, \<open>auth.go\<close>, \<open>api_tokens.go\<close>: the administrator's password, the one-time
  tokens that set it, the sessions of the web interface and the tokens of the read-only API. Every token is
  stored as its hash. Random tokens and salts, the clock, and whether a best-effort write succeeds are
  arguments; Argon2 and \<open>unicode.IsPrint\<close> are parameters.
\<close>

subsection \<open>Tables\<close>

record session_row =
  SessionHash :: string
  SessionCSRF :: string
  SessionExpires :: instant
  SessionCreated :: instant
  SessionSeen :: "instant option"

datatype auth_kind = SetupToken | ResetToken

record auth_row =
  AuthHash :: string
  AuthKind :: auth_kind
  AuthCreated :: instant
  AuthExpires :: instant

record api_row =
  ApiID :: int
  ApiName :: string
  ApiHash :: string
  ApiScopes :: string
  ApiCreated :: instant
  ApiExpires :: instant
  ApiRevoked :: "instant option"
  ApiUsed :: "instant option"

text \<open>The row of the administrator is its password hash; the two legacy rows of \<open>meta\<close> are token hashes.\<close>

record account_db =
  AdminHash :: "string option"
  AuthTokens :: "auth_row list"
  LegacySetup :: "string option"
  LegacyReset :: "string option"
  Sessions :: "session_row list"
  ApiTokens :: "api_row list"
  NextApi :: int

datatype account_error =
    TokenUnavailable auth_kind
  | TokenInvalid auth_kind
  | TokenExpired auth_kind
  | AdminConfigured
  | AdminNotConfigured
  | PasswordRefused policy_error
  | CurrentPasswordMismatch
  | HashTaken
  | ApiNameInvalid
  | ApiScopeUnknown string
  | ApiScopeMissing
  | ApiLifetimeInvalid
  | ApiTooMany
  | ApiNotFound
  | ApiInvalid

subsection \<open>Sessions\<close>

definition SessionLifetime :: duration where "SessionLifetime = 12 * hour"
definition SessionIdleTimeout :: duration where "SessionIdleTimeout = 60 * minute"
definition sessionTouchInterval :: duration where "sessionTouchInterval = minute"
definition sessionRefLength :: nat where "sessionRefLength = 12"
definition maxListedSessions :: nat where "maxListedSessions = 200"

record session_info =
  InfoRef :: string
  InfoCreated :: instant
  InfoSeen :: instant
  InfoExpires :: instant
  InfoIdleUntil :: instant
  InfoCurrent :: bool

definition SessionRef :: "string \<Rightarrow> string" where
  "SessionRef token = (if token = '''' then '''' else take sessionRefLength (HashToken token))"

definition CreateSession :: "string \<Rightarrow> string \<Rightarrow> instant \<Rightarrow> account_db \<Rightarrow> account_error + account_db" where
  "CreateSession token csrf now db =
     (if list_ex (\<lambda>r. SessionHash r = HashToken token) (Sessions db) then Inl HashTaken
      else Inr (db\<lparr>Sessions := Sessions db @
        [\<lparr> SessionHash = HashToken token, SessionCSRF = HashToken csrf, SessionExpires = now + SessionLifetime,
           SessionCreated = now, SessionSeen = Some now \<rparr>]\<rparr>))"

definition sessionInfo :: "session_row \<Rightarrow> session_info" where
  "sessionInfo r =
     (let seen = (case SessionSeen r of None \<Rightarrow> SessionCreated r | Some s \<Rightarrow> s)
      in \<lparr> InfoRef = take sessionRefLength (SessionHash r), InfoCreated = SessionCreated r, InfoSeen = seen,
           InfoExpires = SessionExpires r, InfoIdleUntil = seen + SessionIdleTimeout, InfoCurrent = False \<rparr>)"

definition session_of :: "string \<Rightarrow> account_db \<Rightarrow> session_row option" where
  "session_of h db = List.find (\<lambda>r. SessionHash r = h) (Sessions db)"

definition drop_session :: "string \<Rightarrow> account_db \<Rightarrow> account_db" where
  "drop_session h db = db\<lparr>Sessions := filter (\<lambda>r. SessionHash r \<noteq> h) (Sessions db)\<rparr>"

text \<open>\<open>written\<close> says whether the best-effort write of the request succeeds.\<close>

definition AuthenticateSession ::
  "string \<Rightarrow> string \<Rightarrow> bool \<Rightarrow> bool \<Rightarrow> bool \<Rightarrow> instant \<Rightarrow> account_db \<Rightarrow> account_db \<times> session_info option" where
  "AuthenticateSession token csrf requireCSRF activity written now db =
     (if token = '''' then (db, None)
      else
        (case session_of (HashToken token) db of
           None \<Rightarrow> (db, None)
         | Some r \<Rightarrow>
             (let info = sessionInfo r
              in if InfoExpires info \<le> now then (db, None)
                 else if InfoIdleUntil info \<le> now
                   then (if written then drop_session (HashToken token) db else db, None)
                 else if requireCSRF \<and> HashToken csrf \<noteq> SessionCSRF r then (db, None)
                 else if activity \<and> sessionTouchInterval \<le> now - InfoSeen info \<and> written
                   then (db\<lparr>Sessions := update_where (\<lambda>q. SessionHash q = HashToken token)
                               (\<lambda>q. q\<lparr>SessionSeen := Some now\<rparr>) (Sessions db)\<rparr>,
                         Some (info\<lparr>InfoSeen := now, InfoIdleUntil := now + SessionIdleTimeout, InfoCurrent := True\<rparr>))
                 else (db, Some (info\<lparr>InfoCurrent := True\<rparr>)))))"

definition ValidateSession :: "string \<Rightarrow> string \<Rightarrow> bool \<Rightarrow> bool \<Rightarrow> instant \<Rightarrow> account_db \<Rightarrow> account_db \<times> bool" where
  "ValidateSession token csrf requireCSRF written now db =
     (case AuthenticateSession token csrf requireCSRF True written now db of (db', info) \<Rightarrow> (db', info \<noteq> None))"

definition DeleteSession :: "string \<Rightarrow> account_db \<Rightarrow> account_db" where
  "DeleteSession token db = drop_session (HashToken token) db"

definition ListSessions :: "string \<Rightarrow> instant \<Rightarrow> account_db \<Rightarrow> session_info list" where
  "ListSessions currentToken now db =
     (let current = (if currentToken = '''' then '''' else HashToken currentToken);
          rows = take maxListedSessions (sort_stable (\<lambda>a b. SessionExpires b < SessionExpires a)
                   (filter (\<lambda>r. now < SessionExpires r) (Sessions db)));
          live = filter (\<lambda>r. now < InfoIdleUntil (sessionInfo r)) rows
      in sort_stable (\<lambda>a b. InfoSeen b < InfoSeen a)
           (map (\<lambda>r. (sessionInfo r)\<lparr>InfoCurrent := (SessionHash r = current)\<rparr>) live))"

definition RevokeOtherSessions :: "string \<Rightarrow> account_db \<Rightarrow> account_db \<times> nat" where
  "RevokeOtherSessions keepToken db =
     (db\<lparr>Sessions := filter (\<lambda>r. SessionHash r = HashToken keepToken) (Sessions db)\<rparr>,
      length (filter (\<lambda>r. SessionHash r \<noteq> HashToken keepToken) (Sessions db)))"

subsection \<open>API tokens\<close>

definition APIScopes :: "string list" where
  "APIScopes = [''status:read'', ''history:read'', ''evidence:read'']"

definition APITokenPrefix :: string where "APITokenPrefix = ''tsapi_''"
definition MaxAPITokenLifetime :: duration where "MaxAPITokenLifetime = 365 * 24 * hour"
definition MaxActiveAPITokens :: nat where "MaxActiveAPITokens = 25"
definition maxAPITokenNameRunes :: nat where "maxAPITokenNameRunes = 64"
definition apiTokenTouchInterval :: duration where "apiTokenTouchInterval = minute"

record api_token =
  TokenID :: int
  TokenName :: string
  TokenScopes :: "string list"
  TokenCreated :: instant
  TokenExpires :: instant
  TokenRevoked :: "instant option"
  TokenUsed :: "instant option"

definition Active :: "api_token \<Rightarrow> instant \<Rightarrow> bool" where
  "Active t now \<longleftrightarrow> TokenRevoked t = None \<and> now < TokenExpires t"

definition HasScope :: "api_token \<Rightarrow> string \<Rightarrow> bool" where
  "HasScope t scope \<longleftrightarrow> scope \<in> set (TokenScopes t)"

definition Status :: "api_token \<Rightarrow> instant \<Rightarrow> string" where
  "Status t now =
     (if TokenRevoked t \<noteq> None then ''revoked'' else if TokenExpires t \<le> now then ''expired'' else ''active'')"

fun api_scopes :: "string list \<Rightarrow> string list \<Rightarrow> account_error + string list" where
  "api_scopes out [] = Inr out"
| "api_scopes out (s # ss) =
     (let scope = trim_space s
      in if scope \<notin> set APIScopes then Inl (ApiScopeUnknown scope)
         else if scope \<in> set out then api_scopes out ss
         else api_scopes (out @ [scope]) ss)"

definition normalizeAPIScopes :: "string list \<Rightarrow> account_error + string list" where
  "normalizeAPIScopes scopes =
     (case api_scopes [] scopes of
        Inl e \<Rightarrow> Inl e
      | Inr out \<Rightarrow> if out = [] then Inl ApiScopeMissing else Inr (sort_stable (<) out))"

definition validAPITokenName :: "(string \<Rightarrow> bool) \<Rightarrow> string \<Rightarrow> bool" where
  "validAPITokenName isPrint name \<longleftrightarrow>
     name \<noteq> '''' \<and> length (runes name) \<le> maxAPITokenNameRunes \<and> list_all isPrint (runes name)"

text \<open>A row as the program reads it.\<close>

definition scanAPIToken :: "api_row \<Rightarrow> api_token" where
  "scanAPIToken r =
     \<lparr> TokenID = ApiID r, TokenName = ApiName r, TokenScopes = split_fields (ApiScopes r), TokenCreated = ApiCreated r,
       TokenExpires = ApiExpires r, TokenRevoked = ApiRevoked r, TokenUsed = ApiUsed r \<rparr>"

definition active_row :: "instant \<Rightarrow> api_row \<Rightarrow> bool" where
  "active_row now r \<longleftrightarrow> ApiRevoked r = None \<and> now < ApiExpires r"

text \<open>The description of the new token, its secret, and the database.\<close>

definition CreateAPIToken ::
  "(string \<Rightarrow> bool) \<Rightarrow> string \<Rightarrow> string list \<Rightarrow> duration \<Rightarrow> string \<Rightarrow> instant \<Rightarrow> account_db
     \<Rightarrow> account_error + (account_db \<times> api_token \<times> string)" where
  "CreateAPIToken isPrint name0 scopes0 lifetime random now db =
     (let name = trim_space name0
      in if \<not> validAPITokenName isPrint name then Inl ApiNameInvalid
         else
           (case normalizeAPIScopes scopes0 of
              Inl e \<Rightarrow> Inl e
            | Inr scopes \<Rightarrow>
                if lifetime < hour \<or> MaxAPITokenLifetime < lifetime then Inl ApiLifetimeInvalid
                else
                  (let token = APITokenPrefix @ random
                   in if MaxActiveAPITokens \<le> length (filter (active_row now) (ApiTokens db)) then Inl ApiTooMany
                      else if list_ex (\<lambda>r. ApiHash r = HashToken token) (ApiTokens db) then Inl HashTaken
                      else
                        (let row = \<lparr> ApiID = NextApi db, ApiName = name, ApiHash = HashToken token,
                               ApiScopes = join '' '' scopes, ApiCreated = now, ApiExpires = now + lifetime,
                               ApiRevoked = None, ApiUsed = None \<rparr>
                         in Inr (db\<lparr>ApiTokens := ApiTokens db @ [row], NextApi := NextApi db + 1\<rparr>,
                                 \<lparr> TokenID = NextApi db, TokenName = name, TokenScopes = scopes, TokenCreated = now,
                                   TokenExpires = now + lifetime, TokenRevoked = None, TokenUsed = None \<rparr>,
                                 token)))))"

definition ListAPITokens :: "account_db \<Rightarrow> api_token list" where
  "ListAPITokens db = map scanAPIToken (take 200 (rev (ApiTokens db)))"

definition RevokeAPIToken :: "instant \<Rightarrow> int \<Rightarrow> account_db \<Rightarrow> account_error + account_db" where
  "RevokeAPIToken now i db =
     (let p = (\<lambda>r. ApiID r = i \<and> ApiRevoked r = None)
      in if rows_affected p (ApiTokens db) = 0 then Inl ApiNotFound
         else Inr (db\<lparr>ApiTokens := update_where p (\<lambda>r. r\<lparr>ApiRevoked := Some now\<rparr>) (ApiTokens db)\<rparr>))"

definition revokeActiveAPITokens :: "instant \<Rightarrow> account_db \<Rightarrow> account_db \<times> nat" where
  "revokeActiveAPITokens now db =
     (db\<lparr>ApiTokens := update_where (active_row now) (\<lambda>r. r\<lparr>ApiRevoked := Some now\<rparr>) (ApiTokens db)\<rparr>,
      rows_affected (active_row now) (ApiTokens db))"

definition AuthenticateAPIToken ::
  "string \<Rightarrow> bool \<Rightarrow> instant \<Rightarrow> account_db \<Rightarrow> account_db \<times> (account_error + api_token)" where
  "AuthenticateAPIToken presented written now db =
     (if \<not> has_prefix presented APITokenPrefix \<or> 128 < length presented then (db, Inl ApiInvalid)
      else
        (case List.find (\<lambda>r. ApiHash r = HashToken presented) (ApiTokens db) of
           None \<Rightarrow> (db, Inl ApiInvalid)
         | Some r \<Rightarrow>
             (let token = scanAPIToken r
              in if \<not> Active token now then (db, Inl ApiInvalid)
                 else if (case TokenUsed token of None \<Rightarrow> True | Some used \<Rightarrow> apiTokenTouchInterval \<le> now - used) \<and> written
                   then (db\<lparr>ApiTokens := update_where (\<lambda>q. ApiID q = TokenID token)
                               (\<lambda>q. q\<lparr>ApiUsed := Some now\<rparr>) (ApiTokens db)\<rparr>,
                         Inr (token\<lparr>TokenUsed := Some now\<rparr>))
                 else (db, Inr token))))"

subsection \<open>The administrator and the one-time tokens\<close>

definition setupTokenLifetime :: duration where "setupTokenLifetime = 30 * minute"
definition resetTokenLifetime :: duration where "resetTokenLifetime = 30 * minute"

definition AdminExists :: "account_db \<Rightarrow> bool" where
  "AdminExists db \<longleftrightarrow> AdminHash db \<noteq> None"

definition Authenticate :: "argon \<Rightarrow> string \<Rightarrow> account_db \<Rightarrow> bool" where
  "Authenticate argon password db =
     (case AdminHash db of None \<Rightarrow> False | Some h \<Rightarrow> PasswordMatches argon h password)"

definition set_legacy :: "auth_kind \<Rightarrow> string option \<Rightarrow> account_db \<Rightarrow> account_db" where
  "set_legacy kind h db =
     (case kind of SetupToken \<Rightarrow> db\<lparr>LegacySetup := h\<rparr> | ResetToken \<Rightarrow> db\<lparr>LegacyReset := h\<rparr>)"

definition issueAuthToken :: "auth_kind \<Rightarrow> duration \<Rightarrow> string \<Rightarrow> instant \<Rightarrow> account_db \<Rightarrow> account_error + account_db" where
  "issueAuthToken kind lifetime token now db =
     (if kind = SetupToken \<and> AdminExists db then Inl AdminConfigured
      else if kind = ResetToken \<and> \<not> AdminExists db then Inl AdminNotConfigured
      else
        (let others = filter (\<lambda>r. AuthKind r \<noteq> kind) (AuthTokens db)
         in if list_ex (\<lambda>r. AuthHash r = HashToken token) others then Inl HashTaken
            else Inr (set_legacy kind (Some (HashToken token))
              (db\<lparr>AuthTokens := others @ [\<lparr> AuthHash = HashToken token, AuthKind = kind, AuthCreated = now,
                                             AuthExpires = now + lifetime \<rparr>]\<rparr>))))"

definition NewSetupToken :: "string \<Rightarrow> instant \<Rightarrow> account_db \<Rightarrow> account_error + account_db" where
  "NewSetupToken token now db = issueAuthToken SetupToken setupTokenLifetime token now db"

definition NewResetToken :: "string \<Rightarrow> instant \<Rightarrow> account_db \<Rightarrow> account_error + account_db" where
  "NewResetToken token now db = issueAuthToken ResetToken resetTokenLifetime token now db"

text \<open>The newest token of a kind.\<close>

definition newest_token :: "auth_kind \<Rightarrow> account_db \<Rightarrow> auth_row option" where
  "newest_token kind db =
     (case sort_stable (\<lambda>a b. AuthCreated b < AuthCreated a) (filter (\<lambda>r. AuthKind r = kind) (AuthTokens db)) of
        [] \<Rightarrow> None
      | r # _ \<Rightarrow> Some r)"

definition validateAuthToken :: "auth_kind \<Rightarrow> string \<Rightarrow> instant \<Rightarrow> account_db \<Rightarrow> account_error + auth_row" where
  "validateAuthToken kind token now db =
     (case newest_token kind db of
        None \<Rightarrow> Inl (TokenUnavailable kind)
      | Some r \<Rightarrow>
          if HashToken token \<noteq> AuthHash r then Inl (TokenInvalid kind)
          else if AuthExpires r \<le> now then Inl (TokenExpired kind)
          else Inr r)"

definition use_token :: "auth_kind \<Rightarrow> auth_row \<Rightarrow> account_db \<Rightarrow> account_db" where
  "use_token kind r db =
     set_legacy kind None
       (db\<lparr>AuthTokens := filter (\<lambda>q. \<not> (AuthHash q = AuthHash r \<and> AuthKind q = kind)) (AuthTokens db)\<rparr>)"

text \<open>
  The token is checked before the password is hashed, and again in the transaction; the database may
  have changed in between, so both readings are arguments. The revocation of the API tokens reads the
  clock again.
\<close>

definition Claim ::
  "argon \<Rightarrow> string \<Rightarrow> string \<Rightarrow> string \<Rightarrow> instant \<Rightarrow> account_db \<Rightarrow> instant \<Rightarrow> account_db \<Rightarrow> account_error + account_db" where
  "Claim argon token password salt before checked now db =
     (case validateAuthToken SetupToken token before checked of
        Inl e \<Rightarrow> Inl e
      | Inr _ \<Rightarrow>
          (case PasswordHash argon password salt of
             Inl e \<Rightarrow> Inl (PasswordRefused e)
           | Inr hash \<Rightarrow>
               (case validateAuthToken SetupToken token now db of
                  Inl e \<Rightarrow> Inl e
                | Inr r \<Rightarrow>
                    if AdminExists db then Inl AdminConfigured
                    else Inr (use_token SetupToken r (db\<lparr>AdminHash := Some hash\<rparr>)))))"

definition ResetWithToken ::
  "argon \<Rightarrow> string \<Rightarrow> string \<Rightarrow> string \<Rightarrow> instant \<Rightarrow> account_db \<Rightarrow> instant \<Rightarrow> instant \<Rightarrow> account_db
     \<Rightarrow> account_error + (account_db \<times> nat)" where
  "ResetWithToken argon token password salt before checked now revoked db =
     (case validateAuthToken ResetToken token before checked of
        Inl e \<Rightarrow> Inl e
      | Inr _ \<Rightarrow>
          (case PasswordHash argon password salt of
             Inl e \<Rightarrow> Inl (PasswordRefused e)
           | Inr hash \<Rightarrow>
               (case validateAuthToken ResetToken token now db of
                  Inl e \<Rightarrow> Inl e
                | Inr r \<Rightarrow>
                    if \<not> AdminExists db then Inl AdminNotConfigured
                    else Inr (revokeActiveAPITokens revoked
                      (use_token ResetToken r (db\<lparr>AdminHash := Some hash, Sessions := []\<rparr>))))))"

definition close_recovery :: "account_db \<Rightarrow> account_db" where
  "close_recovery db =
     set_legacy ResetToken None (db\<lparr>Sessions := [], AuthTokens := filter (\<lambda>r. AuthKind r \<noteq> ResetToken) (AuthTokens db)\<rparr>)"

text \<open>\<open>ChangePassword\<close>; the current password is compared before the transaction.\<close>

definition ChangePassword ::
  "argon \<Rightarrow> string \<Rightarrow> string \<Rightarrow> string \<Rightarrow> account_db \<Rightarrow> instant \<Rightarrow> account_db \<Rightarrow> account_error + (account_db \<times> nat)" where
  "ChangePassword argon current password salt checked revoked db =
     (case PasswordHash argon password salt of
        Inl e \<Rightarrow> Inl (PasswordRefused e)
      | Inr hash \<Rightarrow>
          if \<not> Authenticate argon current checked then Inl CurrentPasswordMismatch
          else if \<not> AdminExists db then Inl AdminNotConfigured
          else Inr (revokeActiveAPITokens revoked (close_recovery (db\<lparr>AdminHash := Some hash\<rparr>))))"

definition ResetPassword :: "argon \<Rightarrow> string \<Rightarrow> string \<Rightarrow> account_db \<Rightarrow> account_error + account_db" where
  "ResetPassword argon password salt db =
     (case PasswordHash argon password salt of
        Inl e \<Rightarrow> Inl (PasswordRefused e)
      | Inr hash \<Rightarrow>
          if \<not> AdminExists db then Inl AdminNotConfigured
          else Inr (close_recovery (db\<lparr>AdminHash := Some hash\<rparr>)))"

subsection \<open>Clean-up\<close>

text \<open>One transaction of the retention: the rows picked are expired.\<close>

definition cleanup_sessions :: "(session_row \<Rightarrow> bool) \<Rightarrow> instant \<Rightarrow> account_db \<Rightarrow> account_db" where
  "cleanup_sessions pick now db =
     db\<lparr>Sessions := filter (\<lambda>r. \<not> (pick r \<and> SessionExpires r \<le> now)) (Sessions db)\<rparr>"

definition cleanup_auth :: "(auth_row \<Rightarrow> bool) \<Rightarrow> instant \<Rightarrow> account_db \<Rightarrow> account_db" where
  "cleanup_auth pick now db =
     db\<lparr>AuthTokens := filter (\<lambda>r. \<not> (pick r \<and> AuthExpires r \<le> now)) (AuthTokens db)\<rparr>"

definition cleanup_api :: "(api_row \<Rightarrow> bool) \<Rightarrow> duration \<Rightarrow> instant \<Rightarrow> account_db \<Rightarrow> account_db" where
  "cleanup_api pick retention now db =
     db\<lparr>ApiTokens := filter (\<lambda>r. \<not> (pick r \<and> ApiExpires r < now - retention)) (ApiTokens db)\<rparr>"

definition cleanup_meta :: "(auth_kind \<Rightarrow> bool) \<Rightarrow> account_db \<Rightarrow> account_db" where
  "cleanup_meta pick db =
     (let stale = (\<lambda>kind. pick kind \<and> \<not> list_ex (\<lambda>r. AuthKind r = kind) (AuthTokens db))
      in db\<lparr>LegacySetup := (if stale SetupToken then None else LegacySetup db),
            LegacyReset := (if stale ResetToken then None else LegacyReset db)\<rparr>)"

subsection \<open>Operations\<close>

datatype account_op =
    SignIn string string instant
  | Visit string string bool bool bool instant
  | SignOut string
  | SignOutOthers string
  | IssueSetup string instant
  | IssueReset string instant
  | ClaimAdmin argon string string string instant account_db instant
  | ResetByToken argon string string string instant account_db instant instant
  | ChangeByAdmin argon string string string account_db instant
  | ResetByOperator argon string string
  | ApiCreate "string \<Rightarrow> bool" string "string list" duration string instant
  | ApiRequest string bool instant
  | ApiRevoke instant int
  | CleanSessions "session_row \<Rightarrow> bool" instant
  | CleanAuth "auth_row \<Rightarrow> bool" instant
  | CleanApi "api_row \<Rightarrow> bool" duration instant
  | CleanMeta "auth_kind \<Rightarrow> bool"

text \<open>An operation that fails changes nothing.\<close>

definition or_same :: "account_db \<Rightarrow> account_error + account_db \<Rightarrow> account_db" where
  "or_same db r = (case r of Inl _ \<Rightarrow> db | Inr db' \<Rightarrow> db')"

fun account_exec :: "account_op \<Rightarrow> account_db \<Rightarrow> account_db" where
  "account_exec (SignIn token csrf now) db = or_same db (CreateSession token csrf now db)"
| "account_exec (Visit token csrf requireCSRF activity written now) db =
     fst (AuthenticateSession token csrf requireCSRF activity written now db)"
| "account_exec (SignOut token) db = DeleteSession token db"
| "account_exec (SignOutOthers token) db = fst (RevokeOtherSessions token db)"
| "account_exec (IssueSetup token now) db = or_same db (NewSetupToken token now db)"
| "account_exec (IssueReset token now) db = or_same db (NewResetToken token now db)"
| "account_exec (ClaimAdmin argon token password salt before checked now) db =
     or_same db (Claim argon token password salt before checked now db)"
| "account_exec (ResetByToken argon token password salt before checked now revoked) db =
     or_same db (map_sum id fst (ResetWithToken argon token password salt before checked now revoked db))"
| "account_exec (ChangeByAdmin argon current password salt checked revoked) db =
     or_same db (map_sum id fst (ChangePassword argon current password salt checked revoked db))"
| "account_exec (ResetByOperator argon password salt) db = or_same db (ResetPassword argon password salt db)"
| "account_exec (ApiCreate isPrint name scopes lifetime random now) db =
     or_same db (map_sum id fst (CreateAPIToken isPrint name scopes lifetime random now db))"
| "account_exec (ApiRequest presented written now) db = fst (AuthenticateAPIToken presented written now db)"
| "account_exec (ApiRevoke now i) db = or_same db (RevokeAPIToken now i db)"
| "account_exec (CleanSessions pick now) db = cleanup_sessions pick now db"
| "account_exec (CleanAuth pick now) db = cleanup_auth pick now db"
| "account_exec (CleanApi pick retention now) db = cleanup_api pick retention now db"
| "account_exec (CleanMeta pick) db = cleanup_meta pick db"

end
