(* ===== verification/Store_Accounts_Laws.thy ===== *)
theory Store_Accounts_Laws
  imports Store_Accounts
begin

text \<open>
  What the accounts promise over any sequence of operations: how long a session lasts, what a recovery of
  the credentials closes, that an installation is claimed once, and how many API tokens there are.
\<close>

subsection \<open>What an operation does to the sessions\<close>

fun signs_in :: "string \<Rightarrow> account_op \<Rightarrow> bool" where
  "signs_in h (SignIn token csrf now) \<longleftrightarrow> HashToken token = h"
| "signs_in h _ \<longleftrightarrow> False"

fun creates_api :: "string \<Rightarrow> account_op \<Rightarrow> bool" where
  "creates_api h (ApiCreate isPrint name scopes lifetime random now) \<longleftrightarrow> HashToken (APITokenPrefix @ random) = h"
| "creates_api h _ \<longleftrightarrow> False"

fun issues :: "auth_kind \<Rightarrow> string \<Rightarrow> account_op \<Rightarrow> bool" where
  "issues kind h (IssueSetup token now) \<longleftrightarrow> kind = SetupToken \<and> HashToken token = h"
| "issues kind h (IssueReset token now) \<longleftrightarrow> kind = ResetToken \<and> HashToken token = h"
| "issues kind h _ \<longleftrightarrow> False"

lemma set_legacy_fields [simp]:
  "AdminHash (set_legacy k h db) = AdminHash db" "AuthTokens (set_legacy k h db) = AuthTokens db"
  "Sessions (set_legacy k h db) = Sessions db" "ApiTokens (set_legacy k h db) = ApiTokens db" "NextApi (set_legacy k h db) = NextApi db"
  by (simp_all add: set_legacy_def split: auth_kind.split)

lemma revoke_fields [simp]:
  "AdminHash (fst (revokeActiveAPITokens now db)) = AdminHash db" "AuthTokens (fst (revokeActiveAPITokens now db)) = AuthTokens db"
  "Sessions (fst (revokeActiveAPITokens now db)) = Sessions db" "NextApi (fst (revokeActiveAPITokens now db)) = NextApi db"
  "ApiTokens (fst (revokeActiveAPITokens now db)) = update_where (active_row now) (\<lambda>r. r\<lparr>ApiRevoked := Some now\<rparr>) (ApiTokens db)"
  by (simp_all add: revokeActiveAPITokens_def)

lemma or_same_cases:
  obtains "or_same db r = db" | db' where "r = Inr db'" "or_same db r = db'"
  by (cases r) (simp_all add: or_same_def)

text \<open>The sessions after an operation: one is added, or each that is left was there, perhaps seen later.\<close>

definition sessions_from :: "session_row list \<Rightarrow> (string \<Rightarrow> instant set) \<Rightarrow> session_row list \<Rightarrow> bool" where
  "sessions_from old seen new \<longleftrightarrow>
     (\<forall>r \<in> set new. \<exists>q \<in> set old. SessionHash q = SessionHash r \<and> SessionCSRF q = SessionCSRF r
        \<and> SessionExpires q = SessionExpires r \<and> SessionCreated q = SessionCreated r
        \<and> (SessionSeen r = SessionSeen q \<or> (\<exists>s \<in> seen (SessionHash r). SessionSeen r = Some s)))"

lemma sessions_from_filter: "sessions_from old seen (filter p old)" and sessions_from_same: "sessions_from old seen old"
  by (auto simp: sessions_from_def)

lemma recovered:
  assumes "ResetWithToken argon token password salt before checked now revoked db = Inr (db', n)"
  obtains r hash where "validateAuthToken ResetToken token now db = Inr r" "AdminHash db \<noteq> None" "AdminHash db' = Some hash"
    "PasswordHash argon password salt = Inr hash"
    "Sessions db' = []" "AuthTokens db' = filter (\<lambda>q. \<not> (AuthHash q = AuthHash r \<and> AuthKind q = ResetToken)) (AuthTokens db)"
    "ApiTokens db' = update_where (active_row revoked) (\<lambda>r. r\<lparr>ApiRevoked := Some revoked\<rparr>) (ApiTokens db)" "NextApi db' = NextApi db"
proof -
  from assms obtain hash r where h: "PasswordHash argon password salt = Inr hash" "validateAuthToken ResetToken token now db = Inr r"
    "AdminExists db" "revokeActiveAPITokens revoked (use_token ResetToken r (db\<lparr>AdminHash := Some hash, Sessions := []\<rparr>)) = (db', n)"
    by (auto simp: ResetWithToken_def split: sum.splits if_splits)
  then have "db' = fst (revokeActiveAPITokens revoked (use_token ResetToken r (db\<lparr>AdminHash := Some hash, Sessions := []\<rparr>)))" by simp
  then show ?thesis by (intro that [OF h(2) _ _ h(1)]) (use h(3) in \<open>simp_all add: use_token_def AdminExists_def\<close>)
qed

lemma changed:
  assumes "ChangePassword argon current password salt checked revoked db = Inr (db', n)"
  obtains hash where "AdminHash db \<noteq> None" "AdminHash db' = Some hash" "PasswordHash argon password salt = Inr hash"
    "Sessions db' = []" "AuthTokens db' = filter (\<lambda>q. AuthKind q \<noteq> ResetToken) (AuthTokens db)"
    "ApiTokens db' = update_where (active_row revoked) (\<lambda>r. r\<lparr>ApiRevoked := Some revoked\<rparr>) (ApiTokens db)" "NextApi db' = NextApi db"
    "Authenticate argon current checked"
proof -
  from assms obtain hash where h: "PasswordHash argon password salt = Inr hash" "Authenticate argon current checked" "AdminExists db"
    "revokeActiveAPITokens revoked (close_recovery (db\<lparr>AdminHash := Some hash\<rparr>)) = (db', n)"
    by (auto simp: ChangePassword_def split: sum.splits if_splits)
  then have "db' = fst (revokeActiveAPITokens revoked (close_recovery (db\<lparr>AdminHash := Some hash\<rparr>)))" by simp
  then show ?thesis by (intro that [OF _ _ h(1)]) (use h(2,3) in \<open>simp_all add: close_recovery_def AdminExists_def\<close>)
qed

lemma reset_by_operator:
  assumes "ResetPassword argon password salt db = Inr db'"
  obtains hash where "AdminHash db \<noteq> None" "AdminHash db' = Some hash" "Sessions db' = []"
    "AuthTokens db' = filter (\<lambda>q. AuthKind q \<noteq> ResetToken) (AuthTokens db)" "ApiTokens db' = ApiTokens db" "NextApi db' = NextApi db"
  using assms by (auto simp: ResetPassword_def AdminExists_def close_recovery_def split: sum.splits if_splits intro: that)

lemma claimed:
  assumes "Claim argon token password salt before checked now db = Inr db'"
  obtains r hash where "validateAuthToken SetupToken token now db = Inr r" "AdminHash db = None" "AdminHash db' = Some hash"
    "Sessions db' = Sessions db" "ApiTokens db' = ApiTokens db" "NextApi db' = NextApi db"
    "AuthTokens db' = filter (\<lambda>q. \<not> (AuthHash q = AuthHash r \<and> AuthKind q = SetupToken)) (AuthTokens db)"
  using assms by (auto simp: Claim_def AdminExists_def use_token_def split: sum.splits if_splits intro: that)

lemma issued:
  assumes "issueAuthToken kind lifetime token now db = Inr db'"
  shows "AdminHash db' = AdminHash db" "Sessions db' = Sessions db" "ApiTokens db' = ApiTokens db" "NextApi db' = NextApi db"
    "AuthTokens db' = filter (\<lambda>r. AuthKind r \<noteq> kind) (AuthTokens db) @
       [\<lparr> AuthHash = HashToken token, AuthKind = kind, AuthCreated = now, AuthExpires = now + lifetime \<rparr>]"
    "kind = SetupToken \<Longrightarrow> AdminHash db = None"
  using assms by (auto simp: issueAuthToken_def AdminExists_def Let_def split: if_splits)

lemma api_created:
  assumes "CreateAPIToken isPrint name scopes lifetime random now db = Inr (db', t, s)"
  obtains row where "AdminHash db' = AdminHash db" "Sessions db' = Sessions db" "AuthTokens db' = AuthTokens db"
    "ApiTokens db' = ApiTokens db @ [row]" "ApiHash row = HashToken (APITokenPrefix @ random)" "ApiCreated row = now"
    "ApiExpires row = now + lifetime" "hour \<le> lifetime" "lifetime \<le> MaxAPITokenLifetime" "ApiRevoked row = None"
    "length (filter (active_row now) (ApiTokens db)) < MaxActiveAPITokens" "ApiID row = NextApi db" "NextApi db' = NextApi db + 1"
  using assms by (auto simp: CreateAPIToken_def Let_def split: sum.splits if_splits intro: that)

lemma api_request_fields:
  "AdminHash (fst (AuthenticateAPIToken presented written now db)) = AdminHash db"
  "Sessions (fst (AuthenticateAPIToken presented written now db)) = Sessions db"
  "AuthTokens (fst (AuthenticateAPIToken presented written now db)) = AuthTokens db"
  "NextApi (fst (AuthenticateAPIToken presented written now db)) = NextApi db"
  "\<exists>i. ApiTokens (fst (AuthenticateAPIToken presented written now db)) = ApiTokens db
    \<or> ApiTokens (fst (AuthenticateAPIToken presented written now db)) = update_where (\<lambda>q. ApiID q = i) (\<lambda>q. q\<lparr>ApiUsed := Some now\<rparr>) (ApiTokens db)"
  by (auto simp: AuthenticateAPIToken_def Let_def split: option.splits)

lemma visit_fields:
  "AdminHash (fst (AuthenticateSession token csrf rc act wr now db)) = AdminHash db"
  "AuthTokens (fst (AuthenticateSession token csrf rc act wr now db)) = AuthTokens db"
  "ApiTokens (fst (AuthenticateSession token csrf rc act wr now db)) = ApiTokens db"
  "NextApi (fst (AuthenticateSession token csrf rc act wr now db)) = NextApi db"
  by (auto simp: AuthenticateSession_def Let_def drop_session_def split: option.splits)

subsection \<open>Where a session comes from\<close>

definition seen_by :: "account_op \<Rightarrow> string \<Rightarrow> instant set" where
  "seen_by op h = {s. \<exists>token csrf rc wr. op = Visit token csrf rc True wr s \<and> HashToken token = h}"

definition signed_in :: "string \<Rightarrow> string \<Rightarrow> instant \<Rightarrow> session_row" where
  "signed_in token csrf now = \<lparr> SessionHash = HashToken token, SessionCSRF = HashToken csrf, SessionExpires = now + SessionLifetime,
     SessionCreated = now, SessionSeen = Some now \<rparr>"

lemma visit_sessions:
  "sessions_from (Sessions db) (seen_by (Visit token csrf rc act wr now)) (Sessions (fst (AuthenticateSession token csrf rc act wr now db)))"
  by (auto simp: AuthenticateSession_def Let_def drop_session_def sessions_from_def seen_by_def update_where_def split: option.splits)

lemma exec_sessions:
  obtains (kept) "sessions_from (Sessions db) (seen_by op) (Sessions (account_exec op db))"
  | (new) token csrf now where "op = SignIn token csrf now" "Sessions (account_exec op db) = Sessions db @ [signed_in token csrf now]"
proof -
  have "sessions_from (Sessions db) (seen_by op) (Sessions (account_exec op db))
    \<or> (\<exists>token csrf now. op = SignIn token csrf now \<and> Sessions (account_exec op db) = Sessions db @ [signed_in token csrf now])"
  proof (cases op)
    case (SignIn token csrf now)
    then show ?thesis
      by (cases "CreateSession token csrf now db")
        (auto simp: or_same_def CreateSession_def signed_in_def sessions_from_same split: if_splits)
  next
    case (Visit token csrf rc act wr now)
    then show ?thesis using visit_sessions by simp
  next
    case (ResetByToken argon token password salt before checked now revoked)
    then show ?thesis
      by (cases "ResetWithToken argon token password salt before checked now revoked db")
        (auto simp: or_same_def sessions_from_same elim!: recovered intro: sessions_from_filter [of _ _ "\<lambda>_. False", simplified])
  next
    case (ChangeByAdmin argon current password salt checked revoked)
    then show ?thesis
      by (cases "ChangePassword argon current password salt checked revoked db")
        (auto simp: or_same_def sessions_from_same elim!: changed intro: sessions_from_filter [of _ _ "\<lambda>_. False", simplified])
  next
    case (ResetByOperator argon password salt)
    then show ?thesis
      by (cases "ResetPassword argon password salt db")
        (auto simp: or_same_def sessions_from_same elim!: reset_by_operator intro: sessions_from_filter [of _ _ "\<lambda>_. False", simplified])
  next
    case (ClaimAdmin argon token password salt before checked now)
    then show ?thesis
      by (cases "Claim argon token password salt before checked now db") (auto simp: or_same_def sessions_from_same elim!: claimed)
  next
    case (IssueSetup token now)
    then show ?thesis
      by (cases "NewSetupToken token now db") (auto simp: or_same_def sessions_from_same NewSetupToken_def issued)
  next
    case (IssueReset token now)
    then show ?thesis
      by (cases "NewResetToken token now db") (auto simp: or_same_def sessions_from_same NewResetToken_def issued)
  next
    case (ApiCreate isPrint name scopes lifetime random now)
    then show ?thesis
      by (cases "CreateAPIToken isPrint name scopes lifetime random now db")
        (auto simp: or_same_def sessions_from_same elim!: api_created)
  next
    case (ApiRequest presented wr now)
    then show ?thesis by (simp add: api_request_fields sessions_from_same)
  next
    case (ApiRevoke now i)
    then show ?thesis by (auto simp: or_same_def RevokeAPIToken_def Let_def sessions_from_same)
  qed (simp_all add: DeleteSession_def drop_session_def RevokeOtherSessions_def cleanup_sessions_def cleanup_auth_def cleanup_api_def cleanup_meta_def Let_def
      sessions_from_filter sessions_from_same)
  then show thesis using kept new by blast
qed

text \<open>The history of a session: the sign-in that made it, and the last activity it was seen at.\<close>

definition session_explained :: "account_op list \<Rightarrow> session_row \<Rightarrow> bool" where
  "session_explained ops r \<longleftrightarrow>
     (\<exists>token csrf created. SignIn token csrf created \<in> set ops \<and> SessionHash r = HashToken token
        \<and> SessionCSRF r = HashToken csrf \<and> SessionCreated r = created \<and> SessionExpires r = created + SessionLifetime
        \<and> (\<exists>seen. SessionSeen r = Some seen \<and> (seen = created \<or> (\<exists>op \<in> set ops. seen \<in> seen_by op (SessionHash r)))))"

lemma explained_more: "session_explained ops r \<Longrightarrow> session_explained (ops @ more_ops) r"
  by (fastforce simp: session_explained_def)

lemma explained_kept:
  assumes "\<forall>r \<in> set old. session_explained ops r" and "sessions_from old (seen_by op) new"
  shows "\<forall>r \<in> set new. session_explained (ops @ [op]) r"
proof
  fix r assume "r \<in> set new"
  then obtain q where q: "q \<in> set old" "SessionHash q = SessionHash r" "SessionCSRF q = SessionCSRF r"
      "SessionExpires q = SessionExpires r" "SessionCreated q = SessionCreated r"
      "SessionSeen r = SessionSeen q \<or> (\<exists>s \<in> seen_by op (SessionHash r). SessionSeen r = Some s)"
    using assms(2) unfolding sessions_from_def by blast
  have "session_explained ops q" using assms(1) q(1) by blast
  with q(2-6) show "session_explained (ops @ [op]) r" unfolding session_explained_def by fastforce
qed

lemma sessions_explained:
  assumes "Sessions db = []"
  shows "\<forall>r \<in> set (Sessions (fold account_exec ops db)). session_explained ops r"
proof (induction ops rule: rev_induct)
  case (snoc op ops)
  let ?db = "fold account_exec ops db"
  show ?case
  proof (cases rule: exec_sessions [of ?db op])
    case kept
    with explained_kept [OF snoc.IH] show ?thesis by simp
  next
    case (new token csrf now)
    have "session_explained (ops @ [op]) (signed_in token csrf now)"
      by (auto simp: session_explained_def signed_in_def new(1))
    moreover have "\<forall>r \<in> set (Sessions ?db). session_explained (ops @ [op]) r" using snoc.IH explained_more by blast
    ultimately show ?thesis by (auto simp: new(2))
  qed
qed (simp add: assms)

text \<open>What an accepted request shows of the row.\<close>

lemma accepted_session:
  assumes "AuthenticateSession token csrf rc act wr now db = (db', Some info)"
  obtains r where "r \<in> set (Sessions db)" "SessionHash r = HashToken token" "now < SessionExpires r"
    "now < InfoIdleUntil (sessionInfo r)" "rc \<longrightarrow> HashToken csrf = SessionCSRF r" "token \<noteq> ''''"
proof -
  from assms obtain r where "session_of (HashToken token) db = Some r" "now < InfoExpires (sessionInfo r)"
    "now < InfoIdleUntil (sessionInfo r)" "rc \<longrightarrow> HashToken csrf = SessionCSRF r" "token \<noteq> ''''"
    by (auto simp: AuthenticateSession_def Let_def not_le split: option.splits if_splits)
  then show ?thesis
    by (intro that) (auto simp: session_of_def find_Some_iff sessionInfo_def Let_def)
qed

subsection \<open>What an operation does to the other tables\<close>

text \<open>A row of an API token that is not new was there: only its use and its revocation may have been noted.\<close>

definition same_api :: "api_row \<Rightarrow> api_row \<Rightarrow> bool" where
  "same_api q r \<longleftrightarrow> ApiHash q = ApiHash r \<and> ApiID q = ApiID r \<and> ApiCreated q = ApiCreated r \<and> ApiExpires q = ApiExpires r
     \<and> (ApiRevoked q \<noteq> None \<longrightarrow> ApiRevoked r \<noteq> None)"

lemma same_api_refl [simp]: "same_api r r"
  by (simp add: same_api_def)

lemma same_api_trans: "same_api p q \<Longrightarrow> same_api q r \<Longrightarrow> same_api p r"
  by (simp add: same_api_def)

lemma same_api_active: "same_api q r \<Longrightarrow> active_row now r \<Longrightarrow> active_row now q"
  by (auto simp: same_api_def active_row_def)

text \<open>The new list of rows is a sublist of the old one, each row changed that way.\<close>

definition api_from :: "api_row list \<Rightarrow> api_row list \<Rightarrow> bool" where
  "api_from old new \<longleftrightarrow> (\<exists>p f. new = map f (filter p old) \<and> (\<forall>q. same_api q (f q)))"

lemma api_from_same [simp]: "api_from rows rows"
  unfolding api_from_def by (rule exI [of _ "\<lambda>_. True"], rule exI [of _ id]) simp

lemma api_from_filter: "api_from rows (filter p rows)"
  unfolding api_from_def by (rule exI [of _ p], rule exI [of _ id]) simp

lemma api_from_update: "(\<And>q. same_api q (f q)) \<Longrightarrow> api_from rows (update_where p f rows)"
  unfolding api_from_def update_where_def by (rule exI [of _ "\<lambda>_. True"], rule exI [of _ "\<lambda>r. if p r then f r else r"]) simp

lemma api_from_row: "api_from old new \<Longrightarrow> r \<in> set new \<Longrightarrow> \<exists>q \<in> set old. same_api q r"
  by (auto simp: api_from_def) blast

lemma api_from_active:
  assumes "api_from old new"
  shows "length (filter (active_row now) new) \<le> length (filter (active_row now) old)"
proof -
  obtain p f where new: "new = map f (filter p old)" and f: "\<And>q. same_api q (f q)" using assms by (auto simp: api_from_def)
  have "length (filter (active_row now) (map f (filter p rows))) \<le> length (filter (active_row now) rows)" for rows
    by (induction rows) (auto dest: same_api_active [OF f])
  then show ?thesis by (simp add: new)
qed

lemma api_from_revoke: "api_from rows (update_where p (\<lambda>r. r\<lparr>ApiRevoked := Some now\<rparr>) rows)"
  by (rule api_from_update) (simp add: same_api_def)

lemma exec_others:
  obtains (kept) "api_from (ApiTokens db) (ApiTokens (account_exec op db))"
    "\<forall>r \<in> set (AuthTokens (account_exec op db)). r \<in> set (AuthTokens db) \<or> issues (AuthKind r) (AuthHash r) op"
    "AdminHash db \<noteq> None \<longrightarrow> AdminHash (account_exec op db) \<noteq> None"
  | (new) isPrint name scopes lifetime random now row where "op = ApiCreate isPrint name scopes lifetime random now"
    "ApiTokens (account_exec op db) = ApiTokens db @ [row]" "ApiHash row = HashToken (APITokenPrefix @ random)"
    "ApiCreated row = now" "ApiExpires row \<le> now + MaxAPITokenLifetime"
    "length (filter (active_row now) (ApiTokens db)) < MaxActiveAPITokens"
    "AuthTokens (account_exec op db) = AuthTokens db" "AdminHash (account_exec op db) = AdminHash db"
proof (cases "\<exists>isPrint name scopes lifetime random now x. op = ApiCreate isPrint name scopes lifetime random now
    \<and> CreateAPIToken isPrint name scopes lifetime random now db = Inr x")
  case True
  then obtain isPrint name scopes lifetime random now db' t s where op: "op = ApiCreate isPrint name scopes lifetime random now"
    and c: "CreateAPIToken isPrint name scopes lifetime random now db = Inr (db', t, s)" by auto
  show ?thesis
    by (rule api_created [OF c], rule new [OF op]) (auto simp: op c or_same_def)
next
  case False
  have "api_from (ApiTokens db) (ApiTokens (account_exec op db))
    \<and> (\<forall>r \<in> set (AuthTokens (account_exec op db)). r \<in> set (AuthTokens db) \<or> issues (AuthKind r) (AuthHash r) op)
    \<and> (AdminHash db \<noteq> None \<longrightarrow> AdminHash (account_exec op db) \<noteq> None)"
  proof (cases op)
    case (SignIn token csrf now)
    then show ?thesis by (auto simp: or_same_def CreateSession_def)
  next
    case (Visit token csrf rc act wr now)
    then show ?thesis by (simp add: visit_fields)
  next
    case (ResetByToken argon token password salt before checked now revoked)
    then show ?thesis
      by (cases "ResetWithToken argon token password salt before checked now revoked db")
        (auto simp: or_same_def api_from_revoke elim!: recovered)
  next
    case (ChangeByAdmin argon current password salt checked revoked)
    then show ?thesis
      by (cases "ChangePassword argon current password salt checked revoked db")
        (auto simp: or_same_def api_from_revoke elim!: changed)
  next
    case (ResetByOperator argon password salt)
    then show ?thesis
      by (cases "ResetPassword argon password salt db") (auto simp: or_same_def elim!: reset_by_operator)
  next
    case (ClaimAdmin argon token password salt before checked now)
    then show ?thesis
      by (cases "Claim argon token password salt before checked now db") (auto simp: or_same_def elim!: claimed)
  next
    case (IssueSetup token now)
    then show ?thesis
      by (cases "NewSetupToken token now db") (auto simp: or_same_def NewSetupToken_def issued)
  next
    case (IssueReset token now)
    then show ?thesis
      by (cases "NewResetToken token now db") (auto simp: or_same_def NewResetToken_def issued)
  next
    case (ApiCreate isPrint name scopes lifetime random now)
    with False show ?thesis
      by (cases "CreateAPIToken isPrint name scopes lifetime random now db") (auto simp: or_same_def)
  next
    case (ApiRequest presented wr now)
    have "api_from (ApiTokens db) (update_where (\<lambda>q. ApiID q = i) (\<lambda>q. q\<lparr>ApiUsed := Some now\<rparr>) (ApiTokens db))" for i
      by (rule api_from_update) (simp add: same_api_def)
    with api_request_fields(5) [of presented wr now db] have
      "api_from (ApiTokens db) (ApiTokens (fst (AuthenticateAPIToken presented wr now db)))" by (auto simp del: api_request_fields)
    with ApiRequest show ?thesis by (simp add: api_request_fields)
  next
    case (ApiRevoke now i)
    then show ?thesis by (simp add: or_same_def RevokeAPIToken_def Let_def api_from_revoke)
  qed (auto simp: DeleteSession_def drop_session_def RevokeOtherSessions_def cleanup_sessions_def cleanup_auth_def cleanup_api_def cleanup_meta_def Let_def
      api_from_filter)
  then show ?thesis using kept by blast
qed

text \<open>The same over a sequence of operations.\<close>

lemma fold_admin: "AdminHash db \<noteq> None \<Longrightarrow> AdminHash (fold account_exec ops db) \<noteq> None"
proof (induction ops rule: rev_induct)
  case (snoc op ops)
  then show ?case by (cases rule: exec_others [of "fold account_exec ops db" op]) auto
qed simp

lemma fold_auth:
  "r \<in> set (AuthTokens (fold account_exec ops db)) \<Longrightarrow> r \<in> set (AuthTokens db) \<or> list_ex (issues (AuthKind r) (AuthHash r)) ops"
proof (induction ops rule: rev_induct)
  case (snoc op ops)
  then show ?case by (cases rule: exec_others [of "fold account_exec ops db" op]) auto
qed simp

lemma fold_api:
  "r \<in> set (ApiTokens (fold account_exec ops db)) \<Longrightarrow>
     (\<exists>q \<in> set (ApiTokens db). same_api q r) \<or> list_ex (creates_api (ApiHash r)) ops"
proof (induction ops arbitrary: r rule: rev_induct)
  case (snoc op ops)
  let ?db = "fold account_exec ops db"
  show ?case
  proof (cases rule: exec_others [of ?db op])
    case kept
    from api_from_row [OF kept(1)] snoc.prems obtain q where q: "q \<in> set (ApiTokens ?db)" "same_api q r" by auto
    from snoc.IH [OF q(1)] show ?thesis
      using same_api_trans q(2) by (auto simp: same_api_def)
  next
    case (new isPrint name scopes lifetime random now row)
    with snoc show ?thesis by auto
  qed
next
  case Nil
  then show ?case using same_api_refl [of r] by (metis fold_simps(1))
qed

lemma newest_token_in: "newest_token kind db = Some r \<Longrightarrow> r \<in> set (AuthTokens db) \<and> AuthKind r = kind"
  unfolding newest_token_def using set_sort_stable [of "\<lambda>a b. AuthCreated b < AuthCreated a" "filter (\<lambda>r. AuthKind r = kind) (AuthTokens db)"]
  by (auto simp del: set_sort_stable split: list.splits)

lemma valid_token:
  assumes "validateAuthToken kind token now db = Inr r"
  shows "r \<in> set (AuthTokens db)" "AuthKind r = kind" "AuthHash r = HashToken token" "now < AuthExpires r"
proof -
  from assms have *: "newest_token kind db = Some r" "AuthHash r = HashToken token" "now < AuthExpires r"
    by (auto simp: validateAuthToken_def split: option.splits if_splits)
  with newest_token_in [OF *(1)] show "r \<in> set (AuthTokens db)" "AuthKind r = kind" "AuthHash r = HashToken token" "now < AuthExpires r"
    by auto
qed

lemma api_accepted:
  assumes "AuthenticateAPIToken presented written now db = (db', Inr t)"
  obtains r where "r \<in> set (ApiTokens db)" "ApiHash r = HashToken presented" "active_row now r" "TokenID t = ApiID r"
    "TokenScopes t = split_fields (ApiScopes r)"
  using assms by (auto simp: AuthenticateAPIToken_def Let_def find_Some_iff scanAPIToken_def Active_def active_row_def
      split: option.splits if_splits intro: that [OF nth_mem])

subsection \<open>Properties\<close>

text \<open>
  However the database is operated, a request is let in by a session cookie only when that cookie came from a
  sign-in less than twelve hours ago, and the session was last active, at the sign-in or at a later
  request that counts as activity with the same cookie, less than sixty minutes ago. Where the CSRF
  token is required, it is the one of that sign-in.
\<close>

theorem session_bounded:
  assumes "Sessions db = []"
    and "AuthenticateSession token csrf requireCSRF activity written now (fold account_exec ops db) = (db', Some info)"
  shows "\<exists>token' csrf' created seen. SignIn token' csrf' created \<in> set ops \<and> HashToken token' = HashToken token
     \<and> (requireCSRF \<longrightarrow> HashToken csrf' = HashToken csrf) \<and> now < created + SessionLifetime
     \<and> (seen = created \<or> (\<exists>op \<in> set ops. seen \<in> seen_by op (HashToken token))) \<and> now < seen + SessionIdleTimeout"
proof -
  from accepted_session [OF assms(2)] obtain r where r: "r \<in> set (Sessions (fold account_exec ops db))" "SessionHash r = HashToken token"
    "now < SessionExpires r" "now < InfoIdleUntil (sessionInfo r)" "requireCSRF \<longrightarrow> HashToken csrf = SessionCSRF r" by blast
  have "session_explained ops r" using sessions_explained [OF assms(1)] r(1) by blast
  then obtain token' csrf' created seen where signed: "SignIn token' csrf' created \<in> set ops" "SessionHash r = HashToken token'"
      "SessionCSRF r = HashToken csrf'" "SessionExpires r = created + SessionLifetime" "SessionSeen r = Some seen"
      "seen = created \<or> (\<exists>op \<in> set ops. seen \<in> seen_by op (SessionHash r))"
    unfolding session_explained_def by blast
  moreover have "now < seen + SessionIdleTimeout" using r(4) signed(5) by (simp add: sessionInfo_def)
  ultimately show ?thesis using r(2,3,5) by metis
qed

definition example_accounts :: account_db where
  "example_accounts = \<lparr> AdminHash = Some ''old'', AuthTokens = [], LegacySetup = None, LegacyReset = None, Sessions = [],
     ApiTokens = [], NextApi = 1 \<rparr>"

theorem session_bounded_witness:
  "\<exists>token' csrf' created seen. SignIn token' csrf' created \<in> set [SignIn ''t'' ''c'' 0]
     \<and> HashToken token' = HashToken ''t'' \<and> (True \<longrightarrow> HashToken csrf' = HashToken ''c'') \<and> minute < created + SessionLifetime
     \<and> (seen = created \<or> (\<exists>op \<in> set [SignIn ''t'' ''c'' 0]. seen \<in> seen_by op (HashToken ''t''))) \<and> minute < seen + SessionIdleTimeout"
proof (rule session_bounded [where db = example_accounts and activity = False and written = True])
  show "AuthenticateSession ''t'' ''c'' True False True minute (fold account_exec [SignIn ''t'' ''c'' 0] example_accounts)
    = (fold account_exec [SignIn ''t'' ''c'' 0] example_accounts,
       Some ((sessionInfo (signed_in ''t'' ''c'' 0))\<lparr>InfoCurrent := True\<rparr>))"
    by (simp add: example_accounts_def AuthenticateSession_def CreateSession_def or_same_def session_of_def sessionInfo_def signed_in_def
        SessionLifetime_def SessionIdleTimeout_def hour_def minute_def second_def Let_def)
qed (simp add: example_accounts_def)

text \<open>
  C34. A recovery of the administrator's credentials, by a reset token or by changing the password, closes what
  the old credentials had opened: whatever operations follow, no session lets a request in unless it
  comes from a sign-in after the recovery, and no API token is accepted unless it was created after it.
\<close>

theorem recovery_closes_everything:
  assumes "ResetWithToken argon token password salt before checked now revoked db = Inr (db0, n)
      \<or> ChangePassword argon current password salt checked' revoked db = Inr (db0, n)"
    and "revoked \<le> later"
  shows "(snd (AuthenticateSession cookie csrf rc act wr later (fold account_exec ops db0)) \<noteq> None
      \<longrightarrow> list_ex (signs_in (HashToken cookie)) ops)
    \<and> (\<not> isl (snd (AuthenticateAPIToken presented wr later (fold account_exec ops db0)))
      \<longrightarrow> list_ex (creates_api (HashToken presented)) ops)"
proof (intro conjI impI)
  let ?db = "fold account_exec ops db0"
  have closed: "Sessions db0 = []"
    "ApiTokens db0 = update_where (active_row revoked) (\<lambda>r. r\<lparr>ApiRevoked := Some revoked\<rparr>) (ApiTokens db)"
    using assms(1) by (auto elim: recovered changed)
  show "list_ex (signs_in (HashToken cookie)) ops" if in_session: "snd (AuthenticateSession cookie csrf rc act wr later ?db) \<noteq> None"
  proof -
    obtain db1 info where "AuthenticateSession cookie csrf rc act wr later ?db = (db1, Some info)"
      using in_session by (cases "AuthenticateSession cookie csrf rc act wr later ?db") auto
    from accepted_session [OF this] obtain r where r: "r \<in> set (Sessions ?db)" "SessionHash r = HashToken cookie" by blast
    with sessions_explained [OF closed(1)] have "session_explained ops r" by blast
    then obtain token' csrf' created where "SignIn token' csrf' created \<in> set ops" "HashToken token' = HashToken cookie"
      using r(2) unfolding session_explained_def by auto
    then show ?thesis unfolding list_ex_iff by (intro bexI [of _ "SignIn token' csrf' created"]) simp_all
  qed
  show "list_ex (creates_api (HashToken presented)) ops" if accepted: "\<not> isl (snd (AuthenticateAPIToken presented wr later ?db))"
  proof -
    obtain db1 t where "AuthenticateAPIToken presented wr later ?db = (db1, Inr t)"
      using accepted by (cases "AuthenticateAPIToken presented wr later ?db"; cases "snd (AuthenticateAPIToken presented wr later ?db)") auto
    from api_accepted [OF this] obtain r where r: "r \<in> set (ApiTokens ?db)" "ApiHash r = HashToken presented" "active_row later r" by blast
    have "\<not> same_api q r" if "q \<in> set (ApiTokens db0)" for q
    proof
      assume "same_api q r"
      with r(3) have "active_row later q" by (rule same_api_active [rotated])
      with that assms(2) show False by (auto simp: closed(2) update_where_def active_row_def split: if_splits)
    qed
    with fold_api [OF r(1)] r(2) show ?thesis by auto
  qed
qed

definition example_recovery :: account_db where
  "example_recovery = example_accounts\<lparr>
     AuthTokens := [\<lparr> AuthHash = HashToken ''r'', AuthKind = ResetToken, AuthCreated = 0, AuthExpires = resetTokenLifetime \<rparr>],
     Sessions := [signed_in ''t'' ''c'' 0],
     ApiTokens := [\<lparr> ApiID = 1, ApiName = ''n'', ApiHash = HashToken ''tsapi_x'', ApiScopes = ''status:read'', ApiCreated = 0,
       ApiExpires = hour, ApiRevoked = None, ApiUsed = None \<rparr>]\<rparr>"

lemma example_token: "validateAuthToken ResetToken ''r'' 0 example_recovery = Inr
    \<lparr> AuthHash = HashToken ''r'', AuthKind = ResetToken, AuthCreated = 0, AuthExpires = resetTokenLifetime \<rparr>"
  by (simp add: validateAuthToken_def newest_token_def example_recovery_def sort_stable_def resetTokenLifetime_def minute_def second_def)

lemma example_reset: "\<not> isl (ResetWithToken flat_argon ''r'' sample_password ''salt'' 0 example_recovery 0 minute example_recovery)"
  by (simp add: ResetWithToken_def example_token PasswordHash_def sample_password_policy AdminExists_def)
    (simp add: example_recovery_def example_accounts_def)

theorem recovery_closes_everything_witness:
  "\<exists>db0 n. ResetWithToken flat_argon ''r'' sample_password ''salt'' 0 example_recovery 0 minute example_recovery = Inr (db0, n)
     \<and> snd (AuthenticateSession ''t'' ''c'' True False True minute db0) = None
     \<and> isl (snd (AuthenticateAPIToken ''tsapi_x'' True minute db0))"
proof -
  obtain db0 n where r: "ResetWithToken flat_argon ''r'' sample_password ''salt'' 0 example_recovery 0 minute example_recovery = Inr (db0, n)"
    using example_reset by (cases "ResetWithToken flat_argon ''r'' sample_password ''salt'' 0 example_recovery 0 minute example_recovery") auto
  from recovery_closes_everything [where ops = "[]", OF disjI1 [OF r] order_refl] have
    "snd (AuthenticateSession ''t'' ''c'' True False True minute db0) = None"
    "isl (snd (AuthenticateAPIToken ''tsapi_x'' True minute db0))" by auto
  with r show ?thesis by blast
qed

text \<open>
  C35. An installation is claimed once and a one-time token is used once: after a claim, every later claim
  fails and no setup token is issued again; after a reset token has set the password, it sets none
  again unless an operator issues it anew.
\<close>

theorem claimed_once:
  "(\<forall>db0. Claim argon token password salt before checked now db = Inr db0 \<longrightarrow>
      isl (Claim argon' token' password' salt' before' checked' now' (fold account_exec ops db0))
        \<and> NewSetupToken token' now' (fold account_exec ops db0) = Inl AdminConfigured)
   \<and> (\<forall>db0 n. ResetWithToken argon token password salt before checked now revoked db = Inr (db0, n) \<longrightarrow>
      \<not> list_ex (issues ResetToken (HashToken token)) ops \<longrightarrow>
      isl (ResetWithToken argon' token password' salt' before' checked' now' revoked' (fold account_exec ops db0)))"
proof (intro conjI allI impI)
  fix db0 assume "Claim argon token password salt before checked now db = Inr db0"
  then have "AdminExists (fold account_exec ops db0)"
    unfolding AdminExists_def by (intro fold_admin) (auto elim!: claimed)
  then show "isl (Claim argon' token' password' salt' before' checked' now' (fold account_exec ops db0))"
    "NewSetupToken token' now' (fold account_exec ops db0) = Inl AdminConfigured"
    by (auto simp: Claim_def NewSetupToken_def issueAuthToken_def split: sum.split)
next
  fix db0 n assume used: "ResetWithToken argon token password salt before checked now revoked db = Inr (db0, n)"
    and fresh: "\<not> list_ex (issues ResetToken (HashToken token)) ops"
  show "isl (ResetWithToken argon' token password' salt' before' checked' now' revoked' (fold account_exec ops db0))"
  proof (cases "ResetWithToken argon' token password' salt' before' checked' now' revoked' (fold account_exec ops db0)")
    case (Inr x)
    from recovered [OF used] obtain r where r: "validateAuthToken ResetToken token now db = Inr r"
        "AuthTokens db0 = filter (\<lambda>q. \<not> (AuthHash q = AuthHash r \<and> AuthKind q = ResetToken)) (AuthTokens db)" by metis
    from recovered [of argon' token password' salt' before' checked' now' revoked' "fold account_exec ops db0" "fst x" "snd x"] Inr
    obtain q where q: "validateAuthToken ResetToken token now' (fold account_exec ops db0) = Inr q" by (metis prod.collapse)
    have "q \<notin> set (AuthTokens db0)" using valid_token [OF r(1)] valid_token [OF q] by (simp add: r(2))
    with fold_auth [of q ops db0] valid_token [OF q] fresh show ?thesis by simp
  qed simp
qed

theorem claimed_once_witness:
  "\<exists>db0 n. ResetWithToken flat_argon ''r'' sample_password ''salt'' 0 example_recovery 0 minute example_recovery = Inr (db0, n)
     \<and> isl (ResetWithToken flat_argon ''r'' sample_password ''salt'' 1 db0 1 minute db0)"
proof -
  obtain db0 n where r: "ResetWithToken flat_argon ''r'' sample_password ''salt'' 0 example_recovery 0 minute example_recovery = Inr (db0, n)"
    using example_reset by (cases "ResetWithToken flat_argon ''r'' sample_password ''salt'' 0 example_recovery 0 minute example_recovery") auto
  from claimed_once [THEN conjunct2, rule_format, OF r, where ops = "[]"] have
    "isl (ResetWithToken flat_argon ''r'' sample_password ''salt'' 1 db0 1 minute db0)" by auto
  with r show ?thesis by blast
qed

text \<open>The times at which API tokens were created.\<close>

definition api_times :: "account_op list \<Rightarrow> instant list" where
  "api_times ops = concat (map (\<lambda>op. case op of ApiCreate _ _ _ _ _ now \<Rightarrow> [now] | _ \<Rightarrow> []) ops)"

text \<open>
  While the clock does not go back, there are never more than twenty-five active API tokens, whatever is
  asked for, and every token ends within a year of its creation.
\<close>

theorem api_tokens_bounded:
  assumes "ApiTokens db = []" and "sorted (api_times ops @ [now])"
  shows "length (filter (active_row now) (ApiTokens (fold account_exec ops db))) \<le> MaxActiveAPITokens
    \<and> (\<forall>r \<in> set (ApiTokens (fold account_exec ops db)). ApiExpires r \<le> ApiCreated r + MaxAPITokenLifetime)"
  using assms(2)
proof (induction ops arbitrary: now rule: rev_induct)
  case (snoc op ops)
  let ?db = "fold account_exec ops db"
  have before: "sorted (api_times ops @ [now])" using snoc.prems by (auto simp: api_times_def sorted_append)
  show ?case
  proof (cases rule: exec_others [of ?db op])
    case kept
    from api_from_active [OF kept(1), of now] snoc.IH [OF before] api_from_row [OF kept(1)] show ?thesis
      by (fastforce simp: same_api_def)
  next
    case (new isPrint name scopes lifetime random then_now row)
    have le: "then_now \<le> now" using snoc.prems by (simp add: api_times_def new(1) sorted_append)
    have "length (filter (active_row now) rows) \<le> length (filter (active_row then_now) rows)" for rows
      using le by (induction rows) (auto simp: active_row_def)
    from this [of "ApiTokens ?db"] new(6) show ?thesis
      using snoc.IH [OF before] by (auto simp: new(2,4,5))
  qed
qed (simp add: assms(1) MaxActiveAPITokens_def)

theorem api_tokens_bounded_witness:
  "length (filter (active_row 5) (ApiTokens (fold account_exec
     [ApiCreate (\<lambda>_. True) ''n'' [''status:read''] hour ''x'' 0, ApiCreate (\<lambda>_. True) ''n'' [''status:read''] hour ''y'' 3] example_accounts)))
   \<le> MaxActiveAPITokens"
  by (rule api_tokens_bounded [THEN conjunct1]) (simp_all add: api_times_def example_accounts_def)

end
