(* ===== verification/Web_Limits.thy ===== *)
theory Web_Limits
  imports Prelude GoTime "HOL-Library.AList"
begin

text \<open>
  \<open>internal/web/throttle.go\<close>: the throttle of failed credentials per client and over all clients; the request
  budget of an API token in \<open>api.go\<close>; and \<open>reveal.go\<close>, which shows a new API token once. The clock and the
  random reference are arguments. A Go map is a list of its entries, in the order one iteration visits
  them; the bucket of a client (\<open>throttleKey\<close>) is an argument.
\<close>

subsection \<open>WrongAt credentials\<close>

definition maxTrackedLoginIPs :: nat where "maxTrackedLoginIPs = 4096"
definition loginFailureWindow :: duration where "loginFailureWindow = 15 * minute"
definition loginFailuresPerClient :: nat where "loginFailuresPerClient = 5"
definition loginGlobalFailureBudget :: nat where "loginGlobalFailureBudget = 30"
definition loginGlobalBackoffBase :: duration where "loginGlobalBackoffBase = second"
definition loginGlobalBackoffMax :: duration where "loginGlobalBackoffMax = 5 * minute"

record throttle =
  LoginAttempts :: "(string \<times> instant list) list"
  GlobalFailures :: "string \<Rightarrow> instant list"

definition no_failures :: throttle where
  "no_failures = \<lparr> LoginAttempts = [], GlobalFailures = (\<lambda>_. []) \<rparr>"

definition kept_after :: "instant \<Rightarrow> instant list \<Rightarrow> instant list" where
  "kept_after cutoff ts = filter (\<lambda>at. cutoff < at) ts"

definition prune_keys :: "instant \<Rightarrow> (string \<times> instant list) list \<Rightarrow> (string \<times> instant list) list" where
  "prune_keys cutoff attempts = filter (\<lambda>(k, ts). ts \<noteq> []) (map (\<lambda>(k, ts). (k, kept_after cutoff ts)) attempts)"

fun oldest_key :: "string \<Rightarrow> instant \<Rightarrow> (string \<times> instant list) list \<Rightarrow> string" where
  "oldest_key oldestKey oldest [] = oldestKey"
| "oldest_key oldestKey oldest ((key, ts) # rest) =
     (let candidate = hd ts
      in if oldestKey = '''' \<or> candidate < oldest then oldest_key key candidate rest else oldest_key oldestKey oldest rest)"

lemma oldest_key_some: "oldest_key k t rest = k \<or> oldest_key k t rest \<in> set (map fst rest)"
  by (induction k t rest rule: oldest_key.induct) (auto simp: Let_def simp del: set_map)

lemma oldest_key_in: "rest \<noteq> [] \<Longrightarrow> oldest_key '''' t rest \<in> set (map fst rest)"
proof (cases rest)
  case (Cons x xs)
  then show ?thesis using oldest_key_some [of "fst x" "hd (snd x)" xs] by (cases x) (auto simp: Let_def)
qed simp

function evict :: "(string \<times> instant list) list \<Rightarrow> (string \<times> instant list) list" where
  "evict attempts =
     (if maxTrackedLoginIPs < length attempts
        then evict (filter (\<lambda>(k, _). k \<noteq> oldest_key '''' zero_time attempts) attempts)
      else attempts)"
  by auto
termination
proof (relation "measure length")
  fix attempts :: "(string \<times> instant list) list"
  assume "maxTrackedLoginIPs < length attempts"
  then have "attempts \<noteq> []" by auto
  then have "oldest_key '''' zero_time attempts \<in> set (map fst attempts)" by (rule oldest_key_in)
  then have "\<exists>x \<in> set attempts. fst x = oldest_key '''' zero_time attempts" by force
  then show "(filter (\<lambda>(k, _). k \<noteq> oldest_key '''' zero_time attempts) attempts, attempts) \<in> measure length"
    by (auto intro!: length_filter_less simp: split_beta)
qed simp

declare evict.simps [simp del]

definition pruneLoginAttemptsLocked :: "instant \<Rightarrow> throttle \<Rightarrow> throttle" where
  "pruneLoginAttemptsLocked cutoff s =
     \<lparr> LoginAttempts = evict (prune_keys cutoff (LoginAttempts s)),
       GlobalFailures = (\<lambda>action. kept_after cutoff (GlobalFailures s action)) \<rparr>"

definition attempts_of :: "string \<Rightarrow> throttle \<Rightarrow> instant list" where
  "attempts_of key s = (case map_of (LoginAttempts s) key of None \<Rightarrow> [] | Some ts \<Rightarrow> ts)"

definition globalBackoff :: "nat \<Rightarrow> duration" where
  "globalBackoff excess =
     (let e = if 16 < excess then 16 else excess;
          delay = loginGlobalBackoffBase * 2 ^ e
      in if loginGlobalBackoffMax < delay then loginGlobalBackoffMax else delay)"

definition throttled :: "string \<Rightarrow> string \<Rightarrow> instant \<Rightarrow> throttle \<Rightarrow> throttle \<times> duration \<times> bool" where
  "throttled action key now s0 =
     (let s = pruneLoginAttemptsLocked (now - loginFailureWindow) s0;
          attempts = attempts_of key s;
          retry = (if loginFailuresPerClient \<le> length attempts
                     then attempts ! (length attempts - loginFailuresPerClient) + loginFailureWindow - now else 0);
          global = GlobalFailures s action;
          retry = (if loginGlobalFailureBudget \<le> length global
                     then (let wait = last global + globalBackoff (length global - loginGlobalFailureBudget) - now
                           in if retry < wait then wait else retry)
                   else retry)
      in (s, retry, 0 < retry))"

definition recordFailure :: "string \<Rightarrow> string \<Rightarrow> instant \<Rightarrow> throttle \<Rightarrow> throttle" where
  "recordFailure action key now s0 =
     (let s = pruneLoginAttemptsLocked (now - loginFailureWindow) s0;
          global = GlobalFailures s action @ [now];
          limit = loginGlobalFailureBudget + 17;
          global = (if limit < length global then drop (length global - limit) global else global)
      in pruneLoginAttemptsLocked (now - loginFailureWindow)
           \<lparr> LoginAttempts = AList.update key (attempts_of key s @ [now]) (LoginAttempts s),
             GlobalFailures = (GlobalFailures s)(action := global) \<rparr>)"

definition clearFailures :: "string \<Rightarrow> throttle \<Rightarrow> throttle" where
  "clearFailures key s = s\<lparr>LoginAttempts := AList.delete key (LoginAttempts s)\<rparr>"

datatype throttle_op = CheckLimit string string instant | NoteFailure string string instant | NoteSuccess string

fun throttle_exec :: "throttle_op \<Rightarrow> throttle \<Rightarrow> throttle" where
  "throttle_exec (CheckLimit action key now) s = fst (throttled action key now s)"
| "throttle_exec (NoteFailure action key now) s = recordFailure action key now s"
| "throttle_exec (NoteSuccess key) s = clearFailures key s"

subsection \<open>The throttle as a function of the history\<close>

text \<open>The failures of a client since its last success, and those of an action, in order.\<close>

fun client_history :: "string \<Rightarrow> throttle_op list \<Rightarrow> instant list \<Rightarrow> instant list" where
  "client_history key [] past = past"
| "client_history key (NoteFailure action k now # ops) past = client_history key ops (if k = key then past @ [now] else past)"
| "client_history key (NoteSuccess k # ops) past = client_history key ops (if k = key then [] else past)"
| "client_history key (CheckLimit action k now # ops) past = client_history key ops past"

definition global_history :: "string \<Rightarrow> throttle_op list \<Rightarrow> instant list" where
  "global_history action ops = List.map_filter (\<lambda>op. case op of NoteFailure a k now \<Rightarrow> if a = action then Some now else None | _ \<Rightarrow> None) ops"

definition throttle_times :: "throttle_op list \<Rightarrow> instant list" where
  "throttle_times ops = List.map_filter (\<lambda>op. case op of NoteFailure a k now \<Rightarrow> Some now | CheckLimit a k now \<Rightarrow> Some now | NoteSuccess k \<Rightarrow> None) ops"

definition failed_keys :: "throttle_op list \<Rightarrow> string set" where
  "failed_keys ops = {k. \<exists>a now. NoteFailure a k now \<in> set ops}"

text \<open>
  How long a submission has to wait, read off the history: for the client's own failures, and for those of all clients.
\<close>

definition own_wait :: "string \<Rightarrow> instant \<Rightarrow> throttle_op list \<Rightarrow> duration" where
  "own_wait key now ops =
     (let mine = kept_after (now - 15 * minute) (client_history key ops [])
      in if 5 \<le> length mine then mine ! (length mine - 5) + 15 * minute - now else 0)"

definition shared_wait :: "string \<Rightarrow> instant \<Rightarrow> throttle_op list \<Rightarrow> duration" where
  "shared_wait action now ops =
     (let failures = kept_after (now - 15 * minute) (global_history action ops)
      in if 30 \<le> length failures
           then max 0 (last failures + min (5 * minute) (second * 2 ^ min 16 (length failures - 30)) - now) else 0)"

lemma client_history_append: "client_history key (xs @ ys) past = client_history key ys (client_history key xs past)"
  by (induction key xs past rule: client_history.induct) simp_all

lemma global_history_append: "global_history action (xs @ ys) = global_history action xs @ global_history action ys"
  by (simp add: global_history_def List.map_filter_def)

lemma throttle_times_append: "throttle_times (xs @ ys) = throttle_times xs @ throttle_times ys"
  by (simp add: throttle_times_def List.map_filter_def)

lemma throttle_times_one [simp]:
  "throttle_times [CheckLimit action key t] = [t]" "throttle_times [NoteFailure action key t] = [t]" "throttle_times [NoteSuccess key] = []"
  by (simp_all add: throttle_times_def List.map_filter_def)

lemma failed_keys_append: "failed_keys (xs @ ys) = failed_keys xs \<union> failed_keys ys"
  by (auto simp: failed_keys_def)

lemma kept_after_twice: "a \<le> b \<Longrightarrow> kept_after b (kept_after a xs) = kept_after b xs"
  by (simp add: kept_after_def) (metis (mono_tags, lifting) filter_cong order.strict_trans1)

lemma kept_after_append: "kept_after c (xs @ ys) = kept_after c xs @ kept_after c ys"
  by (simp add: kept_after_def)

definition lastn :: "nat \<Rightarrow> 'a list \<Rightarrow> 'a list" where
  "lastn n xs = drop (length xs - n) xs"

lemma length_lastn [simp]: "length (lastn n xs) = min n (length xs)"
  by (simp add: lastn_def)

lemma lastn_append: "lastn n (xs @ ys) = lastn (n - length ys) xs @ lastn n ys"
  by (cases "length ys \<le> n") (simp_all add: lastn_def algebra_simps)

lemma lastn_lastn: "m \<le> n \<Longrightarrow> lastn m (lastn n xs) = lastn m xs"
  by (cases "n \<le> length xs") (simp_all add: lastn_def)

lemma lastn_lastn_append: "lastn n (lastn n xs @ ys) = lastn n (xs @ ys)"
  by (simp add: lastn_append lastn_lastn)

lemma lastn_all: "length xs \<le> n \<Longrightarrow> lastn n xs = xs"
  by (simp add: lastn_def)

lemma lastn_last: "xs \<noteq> [] \<Longrightarrow> 0 < n \<Longrightarrow> last (lastn n xs) = last xs"
  by (simp add: lastn_def last_drop)

lemma kept_lastn: "sorted xs \<Longrightarrow> kept_after c (lastn n xs) = lastn n (kept_after c xs)"
proof (induction xs arbitrary: n rule: rev_induct)
  case (snoc x xs)
  have none: "kept_after c xs = []" if "x \<le> c"
    using that snoc.prems by (auto simp: kept_after_def filter_empty_conv sorted_append)
  show ?case
  proof (cases n)
    case (Suc m)
    with snoc none show ?thesis
      by (cases "c < x") (auto simp: lastn_append kept_after_append sorted_append lastn_all, simp_all add: kept_after_def lastn_def)
  qed (simp add: lastn_def kept_after_def)
qed (simp add: lastn_def kept_after_def)

lemma kept_push:
  assumes "sorted (xs @ [t])" and "kept_after c xs = lastn n (kept_after c ys)"
  shows "kept_after c (lastn n (xs @ [t])) = lastn n (kept_after c (ys @ [t]))"
  using assms(2) by (simp add: kept_lastn [OF assms(1)] kept_after_append lastn_lastn_append)

lemma distinct_evict: "distinct (map fst attempts) \<Longrightarrow> distinct (map fst (evict attempts))"
  by (induction attempts rule: evict.induct) (subst evict.simps, auto simp: distinct_map_filter)

lemma evict_subset: "set (evict attempts) \<subseteq> set attempts"
proof (induction attempts rule: evict.induct)
  case (1 attempts)
  then show ?case by (subst evict.simps) auto
qed

lemma evict_keys: "set (map fst (evict attempts)) \<subseteq> set (map fst attempts)"
  using evict_subset by fastforce

lemma pruned_recent:
  assumes "t \<in> set (attempts_of key (pruneLoginAttemptsLocked c s))"
  shows "c < t"
proof -
  from assms obtain ts where "map_of (evict (prune_keys c (LoginAttempts s))) key = Some ts" and t: "t \<in> set ts"
    by (cases "map_of (evict (prune_keys c (LoginAttempts s))) key") (auto simp: attempts_of_def pruneLoginAttemptsLocked_def)
  then have "(key, ts) \<in> set (prune_keys c (LoginAttempts s))" using evict_subset by (metis map_of_SomeD subsetD)
  with t show ?thesis by (auto simp: prune_keys_def kept_after_def)
qed

lemma prune_keys_keys: "set (map fst (prune_keys c attempts)) \<subseteq> set (map fst attempts)"
  by (force simp: prune_keys_def)

lemma distinct_prune_keys: "distinct (map fst attempts) \<Longrightarrow> distinct (map fst (prune_keys c attempts))"
  unfolding prune_keys_def by (rule distinct_map_filter) (simp add: comp_def split_beta)

lemma prune_keys_of: "distinct (map fst attempts) \<Longrightarrow>
    (case map_of (prune_keys c attempts) key of None \<Rightarrow> [] | Some ts \<Rightarrow> ts)
    = kept_after c (case map_of attempts key of None \<Rightarrow> [] | Some ts \<Rightarrow> ts)"
proof (induction attempts)
  case (Cons x attempts)
  have "map_of attempts (fst x) = None" using Cons.prems by (simp add: map_of_eq_None_iff)
  then have "map_of (prune_keys c attempts) (fst x) = None"
    using prune_keys_keys [of c attempts] by (auto simp: map_of_eq_None_iff)
  with Cons show ?case by (cases x) (auto simp: prune_keys_def kept_after_def)
qed (simp add: prune_keys_def kept_after_def)

text \<open>What the state of the throttle keeps of the history, up to an instant.\<close>

definition tracks :: "throttle_op list \<Rightarrow> instant \<Rightarrow> throttle \<Rightarrow> bool" where
  "tracks ops now s \<longleftrightarrow>
     distinct (map fst (LoginAttempts s)) \<and> set (map fst (LoginAttempts s)) \<subseteq> failed_keys ops
     \<and> (\<forall>action. sorted (GlobalFailures s action @ [now])
          \<and> (\<forall>c \<ge> now - loginFailureWindow. kept_after c (GlobalFailures s action) = lastn 47 (kept_after c (global_history action ops))))
     \<and> (card (failed_keys ops) \<le> maxTrackedLoginIPs \<longrightarrow>
          (\<forall>key. \<forall>c \<ge> now - loginFailureWindow. kept_after c (attempts_of key s) = kept_after c (client_history key ops [])))"

lemma finite_failed_keys: "finite (failed_keys ops)"
proof -
  have "failed_keys ops \<subseteq> (\<lambda>op. case op of NoteFailure a k t \<Rightarrow> k | _ \<Rightarrow> '''') ` set ops"
    by (force simp: failed_keys_def)
  then show ?thesis by (rule finite_subset) simp
qed

lemma evict_small:
  assumes "distinct (map fst attempts)" "set (map fst attempts) \<subseteq> failed_keys ops" "card (failed_keys ops) \<le> maxTrackedLoginIPs"
  shows "evict attempts = attempts"
proof -
  have "length attempts = card (set (map fst attempts))" using distinct_card [OF assms(1)] by simp
  also have "\<dots> \<le> card (failed_keys ops)" using assms(2) finite_failed_keys by (rule card_mono [rotated])
  finally show ?thesis using assms(3) by (subst evict.simps) simp
qed

lemma tracks_prune:
  assumes "tracks ops now s" and "now \<le> later"
  shows "tracks ops later (pruneLoginAttemptsLocked (later - loginFailureWindow) s)"
    and "GlobalFailures (pruneLoginAttemptsLocked (later - loginFailureWindow) s) action
      = lastn 47 (kept_after (later - loginFailureWindow) (global_history action ops))"
    and "card (failed_keys ops) \<le> maxTrackedLoginIPs \<Longrightarrow>
      attempts_of key (pruneLoginAttemptsLocked (later - loginFailureWindow) s)
      = kept_after (later - loginFailureWindow) (client_history key ops [])"
proof -
  let ?c = "later - loginFailureWindow"
  let ?s = "pruneLoginAttemptsLocked ?c s"
  have le: "now - loginFailureWindow \<le> ?c" using assms(2) by simp
  have d: "distinct (map fst (prune_keys ?c (LoginAttempts s)))" "set (map fst (prune_keys ?c (LoginAttempts s))) \<subseteq> failed_keys ops"
    using assms(1) distinct_prune_keys prune_keys_keys unfolding tracks_def by blast+
  have attempts: "attempts_of k ?s = kept_after ?c (client_history k ops [])" if "card (failed_keys ops) \<le> maxTrackedLoginIPs" for k
    using assms(1) that le prune_keys_of [of "LoginAttempts s" ?c k] evict_small [OF d that]
    by (simp add: tracks_def attempts_of_def pruneLoginAttemptsLocked_def)
  then show "card (failed_keys ops) \<le> maxTrackedLoginIPs \<Longrightarrow> attempts_of key ?s = kept_after ?c (client_history key ops [])" .
  have global: "GlobalFailures ?s a = lastn 47 (kept_after ?c (global_history a ops))" for a
    using assms(1) le by (simp add: tracks_def pruneLoginAttemptsLocked_def)
  then show "GlobalFailures ?s action = lastn 47 (kept_after ?c (global_history action ops))" .
  have kept: "kept_after b (GlobalFailures ?s a) = lastn 47 (kept_after b (global_history a ops))" if "?c \<le> b" for a b
  proof -
    have "now - loginFailureWindow \<le> b" using le that by simp
    then have "kept_after b (GlobalFailures s a) = lastn 47 (kept_after b (global_history a ops))" using assms(1) by (simp add: tracks_def)
    then show ?thesis using that by (simp add: pruneLoginAttemptsLocked_def kept_after_twice)
  qed
  have "sorted (GlobalFailures ?s a @ [later])" for a
  proof -
    have "sorted (GlobalFailures s a @ [now])" using assms(1) unfolding tracks_def by blast
    then have "sorted (GlobalFailures s a)" "\<forall>x \<in> set (GlobalFailures s a). x \<le> later"
      using assms(2) by (auto simp: sorted_append)
    then show ?thesis by (simp add: pruneLoginAttemptsLocked_def kept_after_def sorted_append sorted_wrt_filter)
  qed
  moreover have "distinct (map fst (LoginAttempts ?s))" "set (map fst (LoginAttempts ?s)) \<subseteq> failed_keys ops"
    using distinct_evict [OF d(1)] evict_keys d(2) by (auto simp: pruneLoginAttemptsLocked_def)
  ultimately show "tracks ops later ?s"
    unfolding tracks_def using kept attempts by (simp add: kept_after_twice)
qed

lemma tracks_check:
  assumes "tracks ops now s" and "now \<le> later"
  shows "tracks (ops @ [CheckLimit action key later]) later (fst (throttled action key later s))"
  using tracks_prune(1) [OF assms]
  by (simp add: tracks_def throttled_def Let_def client_history_append global_history_append failed_keys_append failed_keys_def
      global_history_def List.map_filter_def)

lemma tracks_clear:
  assumes "tracks ops now s"
  shows "tracks (ops @ [NoteSuccess key]) now (clearFailures key s)"
proof -
  have "attempts_of k (clearFailures key s) = (if k = key then [] else attempts_of k s)" for k
    by (simp add: attempts_of_def clearFailures_def delete_conv')
  moreover have "distinct (map fst (AList.delete key (LoginAttempts s)))"
    using assms unfolding tracks_def by (blast intro: distinct_delete)
  moreover have "set (map fst (AList.delete key (LoginAttempts s))) \<subseteq> failed_keys ops"
    using assms unfolding tracks_def delete_keys by auto
  moreover have "failed_keys (ops @ [NoteSuccess key]) = failed_keys ops" by (auto simp: failed_keys_def)
  moreover have "global_history a (ops @ [NoteSuccess key]) = global_history a ops" for a
    by (simp add: global_history_def List.map_filter_def)
  ultimately show ?thesis using assms unfolding tracks_def
    by (simp add: client_history_append) (auto simp: clearFailures_def kept_after_def)
qed

lemma tracks_failure:
  assumes "tracks ops now s" and "now \<le> later"
  shows "tracks (ops @ [NoteFailure action key later]) later (recordFailure action key later s)"
proof -
  let ?c = "later - loginFailureWindow" and ?ops = "ops @ [NoteFailure action key later]"
  define p where "p = pruneLoginAttemptsLocked ?c s"
  define t where "t = \<lparr> LoginAttempts = AList.update key (attempts_of key p @ [later]) (LoginAttempts p),
    GlobalFailures = (GlobalFailures p)(action := lastn 47 (GlobalFailures p action @ [later])) \<rparr>"
  have p: "tracks ops later p" unfolding p_def by (rule tracks_prune(1) [OF assms])
  have keys: "failed_keys ?ops = insert key (failed_keys ops)" by (auto simp: failed_keys_def)
  have history: "global_history a ?ops = global_history a ops @ (if a = action then [later] else [])"
    "client_history k ?ops [] = client_history k ops [] @ (if k = key then [later] else [])" for a k
    by (simp_all add: global_history_def List.map_filter_def client_history_append)
  have "tracks ?ops later t"
    unfolding tracks_def
  proof (intro conjI allI impI)
    fix a
    have "sorted (GlobalFailures p a @ [later])" using p unfolding tracks_def by blast
    then show sorted_t: "sorted (GlobalFailures t a @ [later])"
      by (auto simp: t_def lastn_def sorted_append dest: in_set_dropD intro: sorted_wrt_drop)
    fix c assume c: "?c \<le> c"
    have "kept_after c (GlobalFailures p a) = lastn 47 (kept_after c (global_history a ops))" using p c unfolding tracks_def by blast
    then show "kept_after c (GlobalFailures t a) = lastn 47 (kept_after c (global_history a ?ops))"
      using kept_push [OF \<open>sorted (GlobalFailures p a @ [later])\<close>] by (cases "a = action") (simp_all add: t_def history)
  next
    show "distinct (map fst (LoginAttempts t))" using p by (simp add: t_def tracks_def distinct_update)
    show "set (map fst (LoginAttempts t)) \<subseteq> failed_keys ?ops"
      using p by (auto simp: t_def tracks_def keys update_keys simp del: set_map split: if_splits)
  next
    fix k c assume "card (failed_keys ?ops) \<le> maxTrackedLoginIPs" and c: "?c \<le> c"
    then have "card (failed_keys ops) \<le> maxTrackedLoginIPs"
      using card_insert_le [of "failed_keys ops" key] keys by simp
    with p c have "kept_after c (attempts_of k p) = kept_after c (client_history k ops [])" unfolding tracks_def by blast
    moreover have "attempts_of k t = attempts_of k p @ (if k = key then [later] else [])"
      by (simp add: attempts_of_def t_def update_conv')
    ultimately show "kept_after c (attempts_of k t) = kept_after c (client_history k ?ops [])"
      by (simp add: history kept_after_append)
  qed
  then have "tracks ?ops later (pruneLoginAttemptsLocked ?c t)" by (rule tracks_prune(1)) simp
  moreover have "recordFailure action key later s = pruneLoginAttemptsLocked ?c t"
    by (simp add: recordFailure_def Let_def t_def p_def lastn_def loginGlobalFailureBudget_def)
  ultimately show ?thesis by simp
qed

lemma tracks_later: "tracks ops now s \<Longrightarrow> now \<le> later \<Longrightarrow> tracks ops later s"
  unfolding tracks_def by (fastforce simp: sorted_append)

lemma tracks_fold:
  "sorted (throttle_times ops @ [now]) \<Longrightarrow> tracks ops now (fold throttle_exec ops no_failures)"
proof (induction ops arbitrary: now rule: rev_induct)
  case Nil
  show ?case
    by (simp add: tracks_def no_failures_def attempts_of_def global_history_def List.map_filter_def kept_after_def lastn_def)
next
  case (snoc op ops)
  show ?case
  proof (cases op)
    case (CheckLimit action key t)
    with snoc.prems have "sorted (throttle_times ops @ [t])" "t \<le> now" by (auto simp: throttle_times_append sorted_append)
    with tracks_later [OF tracks_check [OF snoc.IH [of t] order_refl]] show ?thesis by (simp add: CheckLimit)
  next
    case (NoteFailure action key t)
    with snoc.prems have "sorted (throttle_times ops @ [t])" "t \<le> now" by (auto simp: throttle_times_append sorted_append)
    with tracks_later [OF tracks_failure [OF snoc.IH [of t] order_refl]] show ?thesis by (simp add: NoteFailure)
  next
    case (NoteSuccess key)
    with snoc.prems have "sorted (throttle_times ops @ [now])" by (auto simp: throttle_times_append)
    with snoc.IH [of now] show ?thesis using tracks_clear by (simp add: NoteSuccess)
  qed
qed

lemma throttled_history:
  assumes "sorted (throttle_times ops @ [now])"
  shows "shared_wait action now ops \<le> fst (snd (throttled action key now (fold throttle_exec ops no_failures)))
    \<and> (card (failed_keys ops) \<le> 4096 \<longrightarrow>
        snd (throttled action key now (fold throttle_exec ops no_failures))
        = (max (own_wait key now ops) (shared_wait action now ops), 0 < max (own_wait key now ops) (shared_wait action now ops)))"
proof (intro conjI impI)
  let ?t = "fold throttle_exec ops no_failures"
  let ?s = "pruneLoginAttemptsLocked (now - loginFailureWindow) ?t"
  let ?all = "kept_after (now - loginFailureWindow) (global_history action ops)"
  note t = tracks_fold [OF assms]
  have w: "loginFailureWindow = 15 * minute" by (simp add: loginFailureWindow_def)
  have global: "GlobalFailures ?s action = lastn 47 ?all" by (rule tracks_prune(2) [OF t order_refl])
  have backoff: "globalBackoff (min 47 n - 30) = min (5 * minute) (second * 2 ^ min 16 (n - 30))" for n
    by (auto simp: globalBackoff_def Let_def loginGlobalBackoffBase_def loginGlobalBackoffMax_def min_def)
  have last: "last (GlobalFailures ?s action) = last ?all" if "30 \<le> length ?all"
    using that by (subst global) (rule lastn_last, auto)
  define own where "own = (if 5 \<le> length (attempts_of key ?s)
    then attempts_of key ?s ! (length (attempts_of key ?s) - 5) + 15 * minute - now else 0)"
  have own: "0 \<le> own"
  proof (cases "5 \<le> length (attempts_of key ?s)")
    case True
    then have "length (attempts_of key ?s) - 5 < length (attempts_of key ?s)" by arith
    from pruned_recent [OF nth_mem [OF this]] True show ?thesis unfolding own_def w by simp
  qed (simp add: own_def)
  define wait where "wait = last (GlobalFailures ?s action) + globalBackoff (length (GlobalFailures ?s action) - 30) - now"
  have enough: "30 \<le> length (GlobalFailures ?s action) \<longleftrightarrow> 30 \<le> length ?all" by (simp add: global)
  have code: "fst (snd (throttled action key now ?t))
      = (if 30 \<le> length (GlobalFailures ?s action) then (if own < wait then wait else own) else own)"
    unfolding throttled_def Let_def own_def wait_def loginFailuresPerClient_def loginGlobalFailureBudget_def w by simp
  have shared: "shared_wait action now ops = (if 30 \<le> length ?all then max 0 wait else 0)"
  proof (cases "30 \<le> length ?all")
    case True
    have "length (GlobalFailures ?s action) - 30 = min 47 (length ?all) - 30" by (simp add: global)
    then show ?thesis
      using True unfolding shared_wait_def Let_def wait_def last [OF True] by (simp add: backoff w)
  qed (simp add: shared_wait_def Let_def w)
  have retry: "fst (snd (throttled action key now ?t)) = max own (shared_wait action now ops)"
    using own unfolding code shared enough by auto
  show "shared_wait action now ops \<le> fst (snd (throttled action key now ?t))" by (simp add: retry)
  assume "card (failed_keys ops) \<le> 4096"
  then have "own = own_wait key now ops"
    using tracks_prune(3) [OF t order_refl, of key] by (simp add: own_def own_wait_def w maxTrackedLoginIPs_def Let_def)
  then show "snd (throttled action key now ?t)
        = (max (own_wait key now ops) (shared_wait action now ops), 0 < max (own_wait key now ops) (shared_wait action now ops))"
    using retry by (auto simp: throttled_def Let_def)
qed



subsection \<open>How many guesses there are\<close>

text \<open>How many of the times lie in a span.\<close>

definition within :: "instant \<Rightarrow> instant \<Rightarrow> instant list \<Rightarrow> nat" where
  "within a b ts = length (filter (\<lambda>t. a \<le> t \<and> t < b) ts)"

lemma within_append [simp]: "within a b (xs @ ys) = within a b xs + within a b ys"
  by (simp add: within_def)

lemma within_one [simp]: "within a b [t] = (if a \<le> t \<and> t < b then 1 else 0)"
  by (simp add: within_def)

lemma within_mono: "(\<And>t. t \<in> set ts \<Longrightarrow> a \<le> t \<Longrightarrow> t < b \<Longrightarrow> a' \<le> t \<and> t < b') \<Longrightarrow> within a b ts \<le> within a' b' ts"
  unfolding within_def by (induction ts) auto

lemma within_split: "within a c ts \<le> within a b ts + within b c ts"
  unfolding within_def by (induction ts) auto

text \<open>
  A checked attempt: the throttle is asked, and only if it does not refuse is the credential compared, which
  may fail, pass, or not be reached.
\<close>

datatype attempt_result = NotCompared | WrongAt instant | Passed

datatype attempt = Attempt string string instant attempt_result

fun attempt_ops :: "attempt \<Rightarrow> throttle \<Rightarrow> throttle_op list" where
  "attempt_ops (Attempt action key c r) s =
     CheckLimit action key c #
     (if snd (snd (throttled action key c s)) then []
      else (case r of NotCompared \<Rightarrow> [] | WrongAt f \<Rightarrow> [NoteFailure action key f] | Passed \<Rightarrow> [NoteSuccess key]))"

fun attempts_run :: "attempt list \<Rightarrow> throttle \<Rightarrow> throttle_op list" where
  "attempts_run [] s = []"
| "attempts_run (x # xs) s = attempt_ops x s @ attempts_run xs (fold throttle_exec (attempt_ops x s) s)"

lemma attempts_run_append:
  "attempts_run (xs @ ys) s = attempts_run xs s @ attempts_run ys (fold throttle_exec (attempts_run xs s) s)"
  by (induction xs arbitrary: s) simp_all

definition backoff :: "nat \<Rightarrow> duration" where
  "backoff n = min (5 * minute) (second * 2 ^ min 16 n)"

lemma backoff_mono: "m \<le> n \<Longrightarrow> backoff m \<le> backoff n"
proof -
  assume "m \<le> n"
  then have "(2::int) ^ min 16 m \<le> 2 ^ min 16 n" by (intro power_increasing) auto
  then show ?thesis by (simp add: backoff_def second_def min_le_iff_disj)
qed

text \<open>The failures of an action, the latest first: past the budget, each waits for the one before it.\<close>

fun spaced :: "instant list \<Rightarrow> bool" where
  "spaced [] = True"
| "spaced (f # past) \<longleftrightarrow> spaced past \<and>
     (let n = length (filter (\<lambda>t. f - 15 * minute < t) past) in 30 \<le> n \<longrightarrow> hd past + backoff (n - 30) \<le> f)"

lemma spaced_append: "spaced (xs @ ys) \<Longrightarrow> spaced ys"
  by (induction xs) auto

lemma history_simps:
  "global_history action [] = []" "throttle_times [] = []"
  "global_history action (CheckLimit a k t # ops) = global_history action ops"
  "global_history action (NoteFailure a k t # ops) = (if a = action then t # global_history action ops else global_history action ops)"
  "global_history action (NoteSuccess k # ops) = global_history action ops"
  "throttle_times (CheckLimit a k t # ops) = t # throttle_times ops"
  "throttle_times (NoteFailure a k t # ops) = t # throttle_times ops"
  "throttle_times (NoteSuccess k # ops) = throttle_times ops"
  by (simp_all add: global_history_def throttle_times_def List.map_filter_def)

lemma history_subset: "set (global_history action ops) \<subseteq> set (throttle_times ops)"
proof (induction ops)
  case (Cons op ops)
  then show ?case by (cases op) (auto simp: history_simps)
qed (simp add: history_simps)

lemma history_sorted: "sorted (throttle_times ops) \<Longrightarrow> sorted (global_history action ops)"
proof (induction ops)
  case (Cons op ops)
  with history_subset [of action ops] show ?case by (cases op) (auto simp: history_simps)
qed (simp add: history_simps)

lemma last_kept: "sorted xs \<Longrightarrow> kept_after c xs \<noteq> [] \<Longrightarrow> last (kept_after c xs) = last xs"
proof (induction xs rule: rev_induct)
  case (snoc x xs)
  then show ?case by (cases "c < x") (auto simp: kept_after_def filter_empty_conv sorted_append)
qed (simp add: kept_after_def)

lemma failure_spaced:
  assumes "sorted (throttle_times ops @ [c])" and "c \<le> f"
    and "\<not> snd (snd (throttled action key c (fold throttle_exec ops no_failures)))"
    and "spaced (rev (global_history action ops))"
  shows "spaced (rev (global_history action ops @ [f]))"
proof -
  let ?H = "global_history action ops"
  have "shared_wait action c ops \<le> 0"
    using throttled_history [OF assms(1), of action key] assms(3) by (simp add: throttled_def Let_def)
  then have waited: "30 \<le> length (kept_after (c - 15 * minute) ?H) \<Longrightarrow>
      last (kept_after (c - 15 * minute) ?H) + backoff (length (kept_after (c - 15 * minute) ?H) - 30) \<le> c"
    by (simp add: shared_wait_def Let_def backoff_def)
  let ?n = "length (filter (\<lambda>t. f - 15 * minute < t) ?H)"
  have n: "?n \<le> length (kept_after (c - 15 * minute) ?H)"
  proof -
    have "length (filter (\<lambda>t. f - 15 * minute < t) xs) \<le> length (filter (\<lambda>t. c - 15 * minute < t) xs)" for xs
      using assms(2) by (induction xs) auto
    then show ?thesis by (simp add: kept_after_def)
  qed
  have "hd (rev ?H) + backoff (?n - 30) \<le> f" if "30 \<le> ?n"
  proof -
    have kept: "30 \<le> length (kept_after (c - 15 * minute) ?H)" using n that by simp
    then have "kept_after (c - 15 * minute) ?H \<noteq> []" by auto
    with history_sorted [of ops action] assms(1) have "last (kept_after (c - 15 * minute) ?H) = last ?H" by (simp add: last_kept sorted_append)
    moreover have "backoff (?n - 30) \<le> backoff (length (kept_after (c - 15 * minute) ?H) - 30)" using n by (intro backoff_mono) simp
    ultimately show ?thesis using waited [OF kept] assms(2) by (simp add: hd_rev)
  qed
  then show ?thesis using assms(4) by (simp add: Let_def rev_filter [symmetric])
qed

lemma attempts_spaced:
  "sorted (throttle_times (attempts_run xs no_failures)) \<Longrightarrow> spaced (rev (global_history action (attempts_run xs no_failures)))"
proof (induction xs rule: rev_induct)
  case (snoc x xs)
  let ?ops = "attempts_run xs no_failures"
  obtain a key c r where x: "x = Attempt a key c r" by (cases x)
  have run: "attempts_run (xs @ [x]) no_failures = ?ops @ attempt_ops x (fold throttle_exec ?ops no_failures)"
    by (simp add: attempts_run_append)
  have before: "sorted (throttle_times ?ops @ [c])"
    using snoc.prems unfolding run by (auto simp: x throttle_times_append sorted_append throttle_times_def [of "_ # _"] List.map_filter_def)
  then have IH: "spaced (rev (global_history action ?ops))" using snoc.IH by (simp add: sorted_append)
  show ?case
  proof (cases "\<exists>f. r = WrongAt f \<and> a = action \<and> \<not> snd (snd (throttled a key c (fold throttle_exec ?ops no_failures)))")
    case True
    then obtain f where f: "r = WrongAt f" "a = action" "\<not> snd (snd (throttled a key c (fold throttle_exec ?ops no_failures)))" by blast
    have "c \<le> f"
      using snoc.prems f unfolding run by (auto simp: x throttle_times_append sorted_append throttle_times_def [of "_ # _"] List.map_filter_def)
    from failure_spaced [OF before this f(3) IH [unfolded f(2) [symmetric]]] show ?thesis
      using f unfolding run by (simp add: x global_history_append) (simp add: global_history_def List.map_filter_def)
  next
    case False
    then have "global_history action (attempts_run (xs @ [x]) no_failures) = global_history action ?ops"
      unfolding run by (auto simp: x global_history_append split: attempt_result.split) (auto simp: global_history_def List.map_filter_def)
    then show ?thesis using IH by simp
  qed
qed (simp add: global_history_def List.map_filter_def)

text \<open>In a span of fifteen minutes the waits add up to more than the span after forty failures.\<close>

lemma hd_member: "0 < length xs \<Longrightarrow> hd xs \<in> set xs"
  by (cases xs) auto

lemma spaced_span:
  assumes "sorted_wrt (\<ge>) ts" and "spaced ts"
  shows "spaced (filter (\<lambda>t. a \<le> t \<and> t < b) ts)"
  using assms
proof (induction ts)
  case (Cons f past)
  let ?in = "filter (\<lambda>t. a \<le> t \<and> t < b) past"
  show ?case
  proof (cases "a \<le> f \<and> f < b")
    case True
    have "hd ?in + backoff (length (filter (\<lambda>t. f - 15 * minute < t) ?in) - 30) \<le> f"
      if many: "30 \<le> length (filter (\<lambda>t. f - 15 * minute < t) ?in)"
    proof -
      have "length (filter (\<lambda>t. f - 15 * minute < t) ?in) \<le> length (filter (\<lambda>t. f - 15 * minute < t) past)"
        by (induction past) auto
      then have "hd past + backoff (length (filter (\<lambda>t. f - 15 * minute < t) ?in) - 30) \<le> f"
        using Cons.prems(2) many backoff_mono [OF diff_le_mono, of _ _ 30] by (force simp: Let_def)
      moreover have "hd ?in = hd past"
      proof (cases past)
        case (Cons t rest)
        have "0 < length (filter (\<lambda>t. f - 15 * minute < t) ?in)" using many by linarith
        then have "hd (filter (\<lambda>t. f - 15 * minute < t) ?in) \<in> set (filter (\<lambda>t. f - 15 * minute < t) ?in)" by (rule hd_member)
        then obtain x where "x \<in> set past" "a \<le> x" unfolding set_filter by blast
        then have "a \<le> t" using Cons.prems(1) by (auto simp: Cons)
        then show ?thesis using Cons.prems(1) True by (simp add: Cons)
      qed simp
      ultimately show ?thesis by simp
    qed
    then show ?thesis using True Cons by (auto simp: Let_def)
  qed (use Cons in auto)
qed simp

lemma spaced_grows:
  assumes "spaced ts" and "\<forall>t \<in> set ts. a \<le> t \<and> t < a + 15 * minute" and "length ts = 30 + m"
  shows "a + (\<Sum>k < m. backoff k) \<le> hd ts"
  using assms
proof (induction m arbitrary: ts)
  case 0
  then show ?case by (cases ts) auto
next
  case (Suc m)
  then obtain f past where ts: "ts = f # past" "length past = 30 + m" by (cases ts) auto
  have "filter (\<lambda>t. f - 15 * minute < t) past = past" using Suc.prems(2) by (fastforce simp: ts(1) filter_id_conv)
  then have "hd past + backoff m \<le> f" using Suc.prems(1) ts(2) by (simp add: ts(1) Let_def)
  with Suc.IH [of past] Suc.prems ts show ?case by simp
qed

lemma spaced_bounded:
  assumes "sorted_wrt (\<ge>) ts" and "spaced ts"
  shows "within a (a + 15 * minute) ts \<le> 40"
proof (rule ccontr)
  let ?in = "filter (\<lambda>t. a \<le> t \<and> t < a + 15 * minute) ts"
  assume "\<not> within a (a + 15 * minute) ts \<le> 40"
  then have long: "41 \<le> length ?in" by (simp add: within_def)
  let ?last = "drop (length ?in - 41) ?in"
  have "spaced ?last" using spaced_append [of "take (length ?in - 41) ?in" ?last] spaced_span [OF assms] by simp
  moreover have "\<forall>t \<in> set ?last. a \<le> t \<and> t < a + 15 * minute" by (auto dest: in_set_dropD)
  moreover have len: "length ?last = 30 + 11" using long by simp
  ultimately have "a + (\<Sum>k < 11. backoff k) \<le> hd ?last" by (rule spaced_grows)
  moreover have "hd ?last < a + 15 * minute"
  proof -
    have "0 < length ?last" using len by linarith
    then have "hd ?last \<in> set ?last" by (rule hd_member)
    then have "hd ?last \<in> set ?in" by (rule in_set_dropD)
    then show ?thesis by (simp only: set_filter mem_Collect_eq)
  qed
  moreover have "(\<Sum>k < 11. backoff k) = 1111 * second"
    by (simp add: backoff_def second_def minute_def eval_nat_numeral)
  ultimately show False by (simp add: minute_def second_def)
qed

lemma guesses_bounded:
  assumes "sorted (throttle_times (attempts_run xs no_failures))"
  shows "within a (a + 15 * minute) (global_history action (attempts_run xs no_failures)) \<le> 40"
proof -
  let ?H = "global_history action (attempts_run xs no_failures)"
  have "sorted ?H"
    by (rule history_sorted [OF assms])
  then have "sorted_wrt (\<ge>) (rev ?H)" by (simp add: sorted_wrt_rev)
  from spaced_bounded [OF this attempts_spaced [OF assms]] show ?thesis by (simp add: within_def rev_filter [symmetric])
qed

subsection \<open>The request budget of an API token\<close>

definition apiRequestsPerWindow :: nat where "apiRequestsPerWindow = 60"
definition apiRateWindow :: duration where "apiRateWindow = minute"
definition maxTrackedAPITokens :: nat where "maxTrackedAPITokens = 1024"

record apiWindow =
  WindowStart :: instant
  WindowCount :: nat

text \<open>A token without an entry has the zero window, which began long ago.\<close>

definition apiRateLimit :: "int \<Rightarrow> instant \<Rightarrow> (int \<times> apiWindow) list \<Rightarrow> (int \<times> apiWindow) list \<times> duration option" where
  "apiRateLimit i now windows0 =
     (let windows = (if maxTrackedAPITokens \<le> length windows0
                       then filter (\<lambda>(_, w). \<not> apiRateWindow \<le> now - WindowStart w) windows0 else windows0);
          w = (case map_of windows i of
                 None \<Rightarrow> \<lparr> WindowStart = now, WindowCount = 0 \<rparr>
               | Some w \<Rightarrow> if apiRateWindow \<le> now - WindowStart w then \<lparr> WindowStart = now, WindowCount = 0 \<rparr> else w)
      in if apiRequestsPerWindow \<le> WindowCount w then (AList.update i w windows, Some (WindowStart w + apiRateWindow - now))
         else (AList.update i (w\<lparr>WindowCount := WindowCount w + 1\<rparr>) windows, None))"

text \<open>The requests, with what was answered: the times of those of a token that were let through.\<close>

fun rate_run :: "(int \<times> instant) list \<Rightarrow> (int \<times> apiWindow) list \<Rightarrow> (int \<times> instant) list" where
  "rate_run [] windows = []"
| "rate_run ((i, now) # requests) windows =
     (case apiRateLimit i now windows of
        (windows', None) \<Rightarrow> (i, now) # rate_run requests windows'
      | (windows', Some _) \<Rightarrow> rate_run requests windows')"

text \<open>The last window of a token: it may have been forgotten once it is over.\<close>

definition rate_inv :: "int \<Rightarrow> instant list \<Rightarrow> instant \<Rightarrow> (int \<times> apiWindow) list \<Rightarrow> bool" where
  "rate_inv i ts now windows \<longleftrightarrow> distinct (map fst windows) \<and> (\<forall>t \<in> set ts. t \<le> now)
     \<and> (\<forall>a. within a (a + apiRateWindow) ts \<le> 2 * apiRequestsPerWindow)
     \<and> (\<exists>s. s \<le> now \<and> (\<forall>t \<in> set ts. t < s + apiRateWindow) \<and> within s (s + apiRateWindow) ts \<le> apiRequestsPerWindow
          \<and> within (s - apiRateWindow) s ts \<le> apiRequestsPerWindow
          \<and> (map_of windows i = Some \<lparr> WindowStart = s, WindowCount = within s (s + apiRateWindow) ts \<rparr>
             \<or> map_of windows i = None \<and> s + apiRateWindow \<le> now))"

lemma rate_inv_later: "rate_inv i ts now windows \<Longrightarrow> now \<le> later \<Longrightarrow> rate_inv i ts later windows"
  unfolding rate_inv_def by (meson order_trans)

lemma map_of_filter_value: "distinct (map fst xs) \<Longrightarrow> map_of (filter (\<lambda>(_, v). p v) xs) k
    = (case map_of xs k of None \<Rightarrow> None | Some v \<Rightarrow> if p v then Some v else None)"
  by (induction xs) (auto simp: map_of_eq_None_iff rev_image_eqI split: option.splits)

lemma rate_inv_prune:
  assumes "rate_inv i ts now windows"
  shows "rate_inv i ts now (filter (\<lambda>(_, w). \<not> apiRateWindow \<le> now - WindowStart w) windows)"
proof -
  have d: "distinct (map fst windows)" using assms by (simp add: rate_inv_def)
  from assms obtain s where "s \<le> now" "\<forall>t \<in> set ts. t < s + apiRateWindow" "within s (s + apiRateWindow) ts \<le> apiRequestsPerWindow"
    "within (s - apiRateWindow) s ts \<le> apiRequestsPerWindow"
    "map_of windows i = Some \<lparr> WindowStart = s, WindowCount = within s (s + apiRateWindow) ts \<rparr> \<or> map_of windows i = None \<and> s + apiRateWindow \<le> now"
    unfolding rate_inv_def by blast
  moreover have "map_of (filter (\<lambda>(_, w). \<not> apiRateWindow \<le> now - WindowStart w) windows) i
      = Some \<lparr> WindowStart = s, WindowCount = within s (s + apiRateWindow) ts \<rparr>
    \<or> map_of (filter (\<lambda>(_, w). \<not> apiRateWindow \<le> now - WindowStart w) windows) i = None \<and> s + apiRateWindow \<le> now"
    using calculation(5) by (cases "apiRateWindow \<le> now - s") (auto simp: map_of_filter_value [OF d])
  ultimately show ?thesis
    using assms distinct_map_filter [OF d] unfolding rate_inv_def by blast
qed

lemma rate_inv_step:
  assumes "rate_inv i ts now windows"
  shows "(case apiRateLimit j now windows of (windows', r) \<Rightarrow> rate_inv i (if j = i \<and> r = None then ts @ [now] else ts) now windows')"
proof -
  define ws where "ws = (if maxTrackedAPITokens \<le> length windows
    then filter (\<lambda>(_, w). \<not> apiRateWindow \<le> now - WindowStart w) windows else windows)"
  have inv: "rate_inv i ts now ws" using assms rate_inv_prune by (simp add: ws_def)
  then obtain s where s: "s \<le> now" "\<forall>t \<in> set ts. t < s + apiRateWindow" "within s (s + apiRateWindow) ts \<le> apiRequestsPerWindow"
    "within (s - apiRateWindow) s ts \<le> apiRequestsPerWindow"
    "map_of ws i = Some \<lparr> WindowStart = s, WindowCount = within s (s + apiRateWindow) ts \<rparr> \<or> map_of ws i = None \<and> s + apiRateWindow \<le> now"
    unfolding rate_inv_def by blast
  have d: "distinct (map fst ws)" "\<forall>t \<in> set ts. t \<le> now" "\<And>a. within a (a + apiRateWindow) ts \<le> 2 * apiRequestsPerWindow"
    using inv by (auto simp: rate_inv_def)
  show ?thesis
  proof (cases "j = i")
    case False
    have "rate_inv i ts now (AList.update j w ws)" for w
    proof -
      have "map_of (AList.update j w ws) i = map_of ws i" using False by (simp add: update_conv')
      with inv distinct_update [OF d(1)] show ?thesis unfolding rate_inv_def by presburger
    qed
    then show ?thesis using False by (simp add: apiRateLimit_def ws_def [symmetric] Let_def)
  next
    case True
    show ?thesis
    proof (cases "s + apiRateWindow \<le> now")
      case over: True
      have pos: "0 < apiRateWindow" by (simp add: apiRateWindow_def minute_def second_def)
      have r: "apiRateLimit j now windows = (AList.update i \<lparr> WindowStart = now, WindowCount = 1 \<rparr> ws, None)"
        using s(5) over True by (auto simp: apiRateLimit_def ws_def [symmetric] Let_def apiRequestsPerWindow_def)
      have none: "within now (now + apiRateWindow) ts = 0" using s(2) over by (auto simp: within_def filter_empty_conv)
      have before: "within (now - apiRateWindow) now ts \<le> apiRequestsPerWindow"
        using within_mono [of ts "now - apiRateWindow" now s "s + apiRateWindow"] s(2,3) over by fastforce
      have "within a (a + apiRateWindow) (ts @ [now]) \<le> 2 * apiRequestsPerWindow" for a
        using d(3) [of a] within_mono [of ts a "a + apiRateWindow" s "s + apiRateWindow"] s(2,3) over
        by (auto simp: apiRequestsPerWindow_def)
      then show ?thesis
        using distinct_update [OF d(1)] d(2) pos before none True unfolding r rate_inv_def
        by (auto simp: update_conv' apiRequestsPerWindow_def intro!: exI [of _ now])
    next
      case current: False
      then have w: "map_of ws i = Some \<lparr> WindowStart = s, WindowCount = within s (s + apiRateWindow) ts \<rparr>" using s(5) by blast
      show ?thesis
      proof (cases "apiRequestsPerWindow \<le> within s (s + apiRateWindow) ts")
        case full: True
        then have "apiRateLimit j now windows =
            (AList.update i \<lparr> WindowStart = s, WindowCount = within s (s + apiRateWindow) ts \<rparr> ws, Some (s + apiRateWindow - now))"
          using w current True by (simp add: apiRateLimit_def ws_def [symmetric] Let_def)
        then show ?thesis
          using distinct_update [OF d(1)] inv s unfolding rate_inv_def by (auto simp: update_conv' intro!: exI [of _ s])
      next
        case room: False
        then have r: "apiRateLimit j now windows = (AList.update i \<lparr> WindowStart = s, WindowCount = within s (s + apiRateWindow) ts + 1 \<rparr> ws, None)"
          using w current True by (simp add: apiRateLimit_def ws_def [symmetric] Let_def)
        have "within a (a + apiRateWindow) (ts @ [now]) \<le> 2 * apiRequestsPerWindow" for a
        proof (cases "a \<le> now \<and> now < a + apiRateWindow")
          case near: True
          have "within a (a + apiRateWindow) ts \<le> within (s - apiRateWindow) (s + apiRateWindow) ts"
            using near s(1,2) by (intro within_mono) auto
          also have "\<dots> \<le> within (s - apiRateWindow) s ts + within s (s + apiRateWindow) ts" by (rule within_split)
          finally show ?thesis using s(4) room by auto
        next
          case False
          then show ?thesis using d(3) [of a] by auto
        qed
        moreover have "within (s - apiRateWindow) s [now] = 0" using s(1) by simp
        ultimately show ?thesis
          using distinct_update [OF d(1)] d(2) s(1-4) room current True unfolding r rate_inv_def
          by (auto simp: update_conv' intro!: exI [of _ s])
      qed
    qed
  qed
qed

lemma rate_run_bounded:
  "rate_inv i ts now windows \<Longrightarrow> sorted (now # map snd requests) \<Longrightarrow>
   within a (a + apiRateWindow) (ts @ map snd (filter (\<lambda>r. fst r = i) (rate_run requests windows))) \<le> 2 * apiRequestsPerWindow"
proof (induction requests arbitrary: ts now windows)
  case Nil
  then show ?case by (simp add: rate_inv_def)
next
  case (Cons x requests)
  obtain j t where x: "x = (j, t)" by (cases x)
  obtain windows' r where r: "apiRateLimit j t windows = (windows', r)" by (cases "apiRateLimit j t windows")
  from Cons.prems have "rate_inv i ts t windows" by (auto simp: x intro: rate_inv_later)
  from rate_inv_step [OF this, of j] have step: "rate_inv i (if j = i \<and> r = None then ts @ [t] else ts) t windows'" by (simp add: r)
  have "sorted (t # map snd requests)" using Cons.prems by (simp add: x)
  from Cons.IH [OF step this] r show ?case by (cases r; cases "j = i") (simp_all add: x within_def)
qed

text \<open>
  Whatever requests arrive, no token is let through more than 120 times in any span of a minute: the
  budget of sixty a window, in at most two windows.
\<close>

theorem rate_limit_holds:
  assumes "sorted (map snd requests)"
  shows "within a (a + apiRateWindow) (map snd (filter (\<lambda>r. fst r = i) (rate_run requests []))) \<le> 2 * apiRequestsPerWindow"
proof (cases requests)
  case Nil
  then show ?thesis by (simp add: within_def)
next
  case (Cons x rest)
  have "rate_inv i [] (snd x) []"
    by (auto simp: rate_inv_def within_def apiRateWindow_def minute_def second_def intro!: exI [of _ "snd x - apiRateWindow"])
  from rate_run_bounded [OF this, of requests a] assms show ?thesis by (simp add: Cons)
qed

theorem rate_limit_holds_witness:
  "within 0 (0 + apiRateWindow) (map snd (filter (\<lambda>r. fst r = 7) (rate_run (replicate 500 (7, 3)) []))) \<le> 2 * apiRequestsPerWindow"
  by (rule rate_limit_holds) (simp add: sorted_replicate)

subsection \<open>A new API token is shown once\<close>

definition revealLifetime :: duration where "revealLifetime = 60 * second"
definition maxReveals :: nat where "maxReveals = 64"

record pendingReveal =
  RevealSecret :: string
  RevealSession :: string
  RevealExpires :: instant

definition prune_reveals :: "instant \<Rightarrow> (string \<times> pendingReveal) list \<Rightarrow> (string \<times> pendingReveal) list" where
  "prune_reveals now pending = filter (\<lambda>(_, r). now < RevealExpires r) pending"

text \<open>\<open>put\<close>: the reference is a fresh random token; \<open>None\<close> when too many wait already.\<close>

definition put :: "string \<Rightarrow> string \<Rightarrow> string \<Rightarrow> instant \<Rightarrow> (string \<times> pendingReveal) list
    \<Rightarrow> (string \<times> pendingReveal) list \<times> string option" where
  "put reference secretValue ref now pending0 =
     (let pending = prune_reveals now pending0
      in if maxReveals \<le> length pending then (pending, None)
         else (AList.update reference \<lparr> RevealSecret = secretValue, RevealSession = ref, RevealExpires = now + revealLifetime \<rparr> pending, Some reference))"

definition take_reveal :: "string \<Rightarrow> string \<Rightarrow> instant \<Rightarrow> (string \<times> pendingReveal) list
    \<Rightarrow> (string \<times> pendingReveal) list \<times> string option" where
  "take_reveal reference ref now pending0 =
     (let pending = prune_reveals now pending0
      in case map_of pending reference of
           None \<Rightarrow> (pending, None)
         | Some r \<Rightarrow> if ref = '''' \<or> RevealSession r \<noteq> ref then (pending, None)
                     else (AList.delete reference pending, Some (RevealSecret r)))"

datatype reveal_op = PutReveal string string string instant | TakeReveal string string instant

fun reveal_exec :: "reveal_op \<Rightarrow> (string \<times> pendingReveal) list \<Rightarrow> (string \<times> pendingReveal) list" where
  "reveal_exec (PutReveal reference secretValue ref now) pending = fst (put reference secretValue ref now pending)"
| "reveal_exec (TakeReveal reference ref now) pending = fst (take_reveal reference ref now pending)"

lemma in_update: "(k, v) \<in> set (AList.update k' v' xs) \<Longrightarrow> (k, v) \<in> set xs \<or> k = k' \<and> v = v'"
  by (induction xs) (auto split: if_splits)

lemma in_delete: "x \<in> set (AList.delete k xs) \<Longrightarrow> x \<in> set xs"
  by (induction xs) (auto split: if_splits)

lemma reveal_entries:
  assumes "(reference, r) \<in> set (reveal_exec op pending)"
  shows "(reference, r) \<in> set pending \<or> (\<exists>now. op = PutReveal reference (RevealSecret r) (RevealSession r) now \<and> RevealExpires r = now + revealLifetime)"
  using assms
  by (cases op) (auto simp: put_def take_reveal_def Let_def prune_reveals_def split: option.splits if_splits dest!: in_update in_delete)

lemma reveals_fold:
  "(reference, r) \<in> set (fold reveal_exec ops pending) \<Longrightarrow>
     (reference, r) \<in> set pending \<or> (\<exists>now. PutReveal reference (RevealSecret r) (RevealSession r) now \<in> set ops \<and> RevealExpires r = now + revealLifetime)"
proof (induction ops rule: rev_induct)
  case (snoc op ops)
  then show ?case using reveal_entries [of reference r op "fold reveal_exec ops pending"] by auto
qed simp

lemma taken:
  assumes "take_reveal reference ref now pending = (pending', Some v)"
  obtains r where "(reference, r) \<in> set pending" "now < RevealExpires r" "RevealSession r = ref" "ref \<noteq> ''''" "v = RevealSecret r"
    "pending' = AList.delete reference (prune_reveals now pending)"
  using assms by (auto simp: take_reveal_def Let_def prune_reveals_def split: option.splits if_splits dest!: map_of_SomeD intro: that)

text \<open>
  The secret of a new API token is shown only to the session that created it, within a minute, and once: a
  reference that was redeemed shows nothing more, whatever follows, unless it is drawn again.
\<close>

theorem revealed_once:
  assumes "take_reveal reference ref now (fold reveal_exec ops []) = (pending, Some v)"
  shows "(\<exists>created. PutReveal reference v ref created \<in> set ops \<and> now < created + revealLifetime) \<and> ref \<noteq> ''''
    \<and> ((\<forall>v' ref' t. PutReveal reference v' ref' t \<notin> set later)
        \<longrightarrow> snd (take_reveal reference ref' now' (fold reveal_exec later pending)) = None)"
proof (intro conjI impI)
  from taken [OF assms] obtain r where r: "(reference, r) \<in> set (fold reveal_exec ops [])" "now < RevealExpires r" "RevealSession r = ref"
    "ref \<noteq> ''''" "v = RevealSecret r" "pending = AList.delete reference (prune_reveals now (fold reveal_exec ops []))" by blast
  with reveals_fold [OF r(1)] show "\<exists>created. PutReveal reference v ref created \<in> set ops \<and> now < created + revealLifetime" "ref \<noteq> ''''"
    by auto
  assume fresh: "\<forall>v' ref' t. PutReveal reference v' ref' t \<notin> set later"
  have gone: "(reference, q) \<notin> set pending" for q
    unfolding r(6) by (metis Some_eq_map_of_iff delete_conv fst_conv image_eqI map_of_eq_None_iff fun_upd_same)
  show "snd (take_reveal reference ref' now' (fold reveal_exec later pending)) = None"
  proof (cases "take_reveal reference ref' now' (fold reveal_exec later pending)")
    case (Pair pending' shown)
    show ?thesis
    proof (cases shown)
      case (Some w)
      with Pair obtain q where "(reference, q) \<in> set (fold reveal_exec later pending)" by (auto elim: taken)
      from reveals_fold [OF this] gone fresh show ?thesis by blast
    qed (simp add: Pair)
  qed
qed

theorem revealed_once_witness:
  "snd (take_reveal ''r'' ''me'' 2 (fold reveal_exec [] (fst (take_reveal ''r'' ''me'' 1 (fold reveal_exec [PutReveal ''r'' ''secret'' ''me'' 0] []))))) = None"
  by (rule revealed_once [where v = "''secret''" and ops = "[PutReveal ''r'' ''secret'' ''me'' 0]" and now = 1 and ref = "''me''",
        THEN conjunct2, THEN conjunct2, rule_format])
    (simp_all add: take_reveal_def put_def prune_reveals_def maxReveals_def revealLifetime_def second_def)

end
