(* ===== verification/Web_Challenge.thy ===== *)
theory Web_Challenge
  imports Web_Limits Webhook Secret
begin

text \<open>
  \<open>internal/web/challenge.go\<close>: the signed one-time challenge of the forms of an unauthenticated visitor. The
  key, the random tokens, the clock and the cookie of the request are arguments.
\<close>

definition credentialChallengeLifetime :: duration where "credentialChallengeLifetime = 5 * minute"
definition maxConsumedCredentialChallenges :: nat where "maxConsumedCredentialChallenges = 2 ^ 16"
definition maxCredentialChallengeBytes :: nat where "maxCredentialChallengeBytes = 512"

definition credentialActionSetup :: string where "credentialActionSetup = ''setup''"
definition credentialActionLogin :: string where "credentialActionLogin = ''login''"
definition credentialActionReset :: string where "credentialActionReset = ''reset''"

definition valid_action :: "string \<Rightarrow> bool" where
  "valid_action a \<longleftrightarrow> a = credentialActionSetup \<or> a = credentialActionLogin \<or> a = credentialActionReset"

datatype outcome = Missing | Expired | Invalid | Accepted

definition signCredentialChallenge :: "string \<Rightarrow> string \<Rightarrow> string" where
  "signCredentialChallenge key payload = hmac_sha256 key payload"

definition cookie_payload :: "string \<Rightarrow> string \<Rightarrow> string \<Rightarrow> string" where
  "cookie_payload action binding expires = join ''.'' [''cookie'', action, binding, expires]"

definition credentialChallengeCookieValue :: "string \<Rightarrow> string \<Rightarrow> string \<Rightarrow> string \<Rightarrow> string" where
  "credentialChallengeCookieValue key action binding expires =
     binding @ ''.'' @ expires @ ''.'' @ b64_encode True (signCredentialChallenge key (cookie_payload action binding expires))"

text \<open>A signature, decoded: 32 bytes.\<close>

definition decode_signature :: "string \<Rightarrow> string option" where
  "decode_signature s =
     (case b64_decode True s of None \<Rightarrow> None | Some signature \<Rightarrow> if length signature = 32 then Some signature else None)"

text \<open>\<open>now\<close> is \<open>None\<close> for the zero time, which skips the expiry of the cookie.\<close>

definition credentialChallengeBinding :: "string \<Rightarrow> string \<Rightarrow> string \<Rightarrow> instant option \<Rightarrow> string option" where
  "credentialChallengeBinding key action cookie now =
     (if cookie = '''' \<or> maxCredentialChallengeBytes < length cookie then None
      else
        (case split CHR ''.'' cookie of
           [binding, expires, sig] \<Rightarrow>
             if binding = '''' then None
             else
               (case decode_signature sig of
                  None \<Rightarrow> None
                | Some signature \<Rightarrow>
                    if signature \<noteq> signCredentialChallenge key (cookie_payload action binding expires) then None
                    else
                      (case parse_int64 expires of
                         None \<Rightarrow> None
                       | Some expiresUnix \<Rightarrow>
                           (case now of
                              None \<Rightarrow> Some binding
                            | Some t \<Rightarrow> if expiresUnix * second \<le> t then None else Some binding)))
         | _ \<Rightarrow> None))"

text \<open>The form value and the cookie of a new form.\<close>

definition form_payload :: "string \<Rightarrow> string \<Rightarrow> string \<Rightarrow> string \<Rightarrow> string" where
  "form_payload action nonce binding expires = join ''.'' [action, nonce, binding, expires]"

definition form_value :: "string \<Rightarrow> string \<Rightarrow> string" where
  "form_value key payload = b64_encode True payload @ ''.'' @ b64_encode True (signCredentialChallenge key payload)"

definition issueCredentialChallenge ::
  "string \<Rightarrow> string \<Rightarrow> string option \<Rightarrow> string \<Rightarrow> string \<Rightarrow> instant \<Rightarrow> (string \<times> string) option" where
  "issueCredentialChallenge key action cookie fresh nonce now =
     (if \<not> valid_action action then None
      else if key = '''' then None
      else
        (let existing = (case cookie of None \<Rightarrow> None | Some held \<Rightarrow> credentialChallengeBinding key action held (Some now));
             binding = (case existing of None \<Rightarrow> fresh | Some b \<Rightarrow> b);
             expires = int_text ((now + credentialChallengeLifetime) div second)
         in Some (form_value key (form_payload action nonce binding expires),
                  credentialChallengeCookieValue key action binding expires)))"

text \<open>The nonces that were used, with the expiry of their form.\<close>

record replay_cache =
  Consumed :: "(string \<times> instant) list"
  PrunedAt :: instant

definition pruneConsumedChallengesLocked :: "instant \<Rightarrow> replay_cache \<Rightarrow> replay_cache" where
  "pruneConsumedChallengesLocked now s =
     \<lparr> Consumed = filter (\<lambda>(_, expiresAt). now < expiresAt) (Consumed s), PrunedAt = now \<rparr>"

definition consumeCredentialChallenge :: "string \<Rightarrow> instant \<Rightarrow> instant \<Rightarrow> replay_cache \<Rightarrow> replay_cache \<times> bool" where
  "consumeCredentialChallenge nonce expiresAt now s0 =
     (let s = (if minute \<le> now - PrunedAt s0 \<or> maxConsumedCredentialChallenges \<le> length (Consumed s0)
                 then pruneConsumedChallengesLocked now s0 else s0)
      in if map_of (Consumed s) nonce \<noteq> None then (s, False)
         else if maxConsumedCredentialChallenges \<le> length (Consumed s) then (s, False)
         else (s\<lparr>Consumed := AList.update nonce expiresAt (Consumed s)\<rparr>, True))"

text \<open>What the form value holds, when its signature is good: action, nonce, binding and expiry.\<close>

definition signed_form :: "string \<Rightarrow> string \<Rightarrow> string \<Rightarrow> (string \<times> string \<times> instant) option" where
  "signed_form key action provided =
     (case split CHR ''.'' provided of
        [body, sig] \<Rightarrow>
          (case (b64_decode True body, decode_signature sig) of
             (Some payload, Some signature) \<Rightarrow>
               if signature \<noteq> signCredentialChallenge key payload then None
               else
                 (case split CHR ''.'' payload of
                    [a, nonce, binding, expires] \<Rightarrow>
                      if a \<noteq> action \<or> nonce = '''' then None
                      else
                        (case parse_int64 expires of
                           None \<Rightarrow> None
                         | Some expiresUnix \<Rightarrow> Some (nonce, binding, expiresUnix * second))
                  | _ \<Rightarrow> None)
           | _ \<Rightarrow> None)
      | _ \<Rightarrow> None)"

definition validateCredentialChallenge ::
  "string \<Rightarrow> string \<Rightarrow> string \<Rightarrow> string option \<Rightarrow> instant \<Rightarrow> replay_cache \<Rightarrow> replay_cache \<times> outcome" where
  "validateCredentialChallenge key action form cookie now s =
     (let provided = trim_space form
      in if provided = '''' \<or> cookie = None \<or> cookie = Some '''' then (s, Missing)
         else if maxCredentialChallengeBytes < length provided then (s, Invalid)
         else
           (case signed_form key action provided of
              None \<Rightarrow> (s, Invalid)
            | Some (nonce, bound, expiresAt) \<Rightarrow>
                if expiresAt \<le> now then (s, Expired)
                else if credentialChallengeBinding key action (the cookie) None \<noteq> Some bound then (s, Invalid)
                else
                  (case consumeCredentialChallenge nonce expiresAt now s of
                     (s', ok) \<Rightarrow> (s', if ok then Accepted else Invalid))))"

subsection \<open>A form is used once\<close>

text \<open>A submission: the action of the page, the form value, the cookie, and when it is checked.\<close>

datatype submission = Submission string string "string option" instant

fun submit :: "string \<Rightarrow> submission \<Rightarrow> replay_cache \<Rightarrow> replay_cache" where
  "submit key (Submission action form cookie now) s = fst (validateCredentialChallenge key action form cookie now s)"

fun submitted_at :: "submission \<Rightarrow> instant" where
  "submitted_at (Submission action form cookie now) = now"

definition fresh_cache :: replay_cache where
  "fresh_cache = \<lparr> Consumed = [], PrunedAt = zero_time \<rparr>"

text \<open>A nonce that was used stays used until its form has expired.\<close>

definition used_up :: "string \<Rightarrow> instant \<Rightarrow> instant \<Rightarrow> replay_cache \<Rightarrow> bool" where
  "used_up nonce expiresAt now s \<longleftrightarrow> distinct (map fst (Consumed s)) \<and>
     (expiresAt \<le> now \<or> map_of (Consumed s) nonce = Some expiresAt)"

definition cache_for :: "instant \<Rightarrow> replay_cache \<Rightarrow> replay_cache" where
  "cache_for now s = (if minute \<le> now - PrunedAt s \<or> maxConsumedCredentialChallenges \<le> length (Consumed s)
     then pruneConsumedChallengesLocked now s else s)"

lemma cache_for_keys: "distinct (map fst (Consumed s)) \<Longrightarrow> distinct (map fst (Consumed (cache_for now s)))"
  by (simp add: cache_for_def pruneConsumedChallengesLocked_def distinct_map_filter)

lemma consume_cases:
  "consumeCredentialChallenge nonce expiresAt now s =
    (if map_of (Consumed (cache_for now s)) nonce \<noteq> None \<or> maxConsumedCredentialChallenges \<le> length (Consumed (cache_for now s))
       then (cache_for now s, False)
     else ((cache_for now s)\<lparr>Consumed := AList.update nonce expiresAt (Consumed (cache_for now s))\<rparr>, True))"
  by (simp add: consumeCredentialChallenge_def cache_for_def Let_def)

lemma cache_for_used: "used_up nonce e clock s \<Longrightarrow> clock \<le> now \<Longrightarrow> used_up nonce e now (cache_for now s)"
  by (auto simp: used_up_def cache_for_def pruneConsumedChallengesLocked_def map_of_filter_value distinct_map_filter)

lemma consume_used:
  assumes "used_up nonce e clock s" and "clock \<le> now"
  shows "used_up nonce e now (fst (consumeCredentialChallenge nonce' e' now s))"
proof -
  have c: "used_up nonce e now (cache_for now s)" by (rule cache_for_used [OF assms])
  have "map_of (AList.update nonce' e' xs) nonce = map_of xs nonce" if "map_of xs nonce' = None" "map_of xs nonce = Some v" for xs v
    using that by (auto simp: update_conv')
  with c show ?thesis by (auto simp: consume_cases used_up_def distinct_update simp del: Some_eq_map_of_iff map_of_eq_Some_iff)
qed

lemma submit_used:
  assumes "used_up nonce e clock s" and "clock \<le> submitted_at x"
  shows "used_up nonce e (submitted_at x) (submit key x s)"
proof (cases x)
  case (Submission action form cookie now)
  have "used_up nonce e now s" using assms by (auto simp: used_up_def Submission)
  moreover have "used_up nonce e now (fst (consumeCredentialChallenge nonce' e' now s))" for nonce' e'
    using consume_used assms by (simp add: Submission)
  ultimately show ?thesis
    by (simp add: Submission validateCredentialChallenge_def Let_def split: option.split prod.split)
      (metis fst_conv)
qed

lemma submits_used:
  "used_up nonce e clock s \<Longrightarrow> sorted (clock # map submitted_at xs) \<Longrightarrow> used_up nonce e (last (clock # map submitted_at xs)) (fold (submit key) xs s)"
proof (induction xs arbitrary: clock s)
  case (Cons x xs)
  from submit_used [OF Cons.prems(1), of x key] Cons.prems(2) Cons.IH [of "submitted_at x" "submit key x s"]
  show ?case by simp
qed simp

lemma submits_keys: "distinct (map fst (Consumed s)) \<Longrightarrow> distinct (map fst (Consumed (fold (submit key) xs s)))"
proof (induction xs arbitrary: s)
  case (Cons x xs)
  have "distinct (map fst (Consumed (submit key x s)))"
    using Cons.prems cache_for_keys
    by (cases x) (auto simp: validateCredentialChallenge_def Let_def consume_cases distinct_update split: option.splits)
  then show ?case using Cons.IH by simp
qed simp

lemma accepted_form:
  assumes "validateCredentialChallenge key action form cookie now s = (s', Accepted)"
  obtains nonce bound e where "signed_form key action (trim_space form) = Some (nonce, bound, e)" "now < e"
    "cookie \<noteq> None" "credentialChallengeBinding key action (the cookie) None = Some bound"
    "map_of (Consumed (cache_for now s)) nonce = None"
    "s' = (cache_for now s)\<lparr>Consumed := AList.update nonce e (Consumed (cache_for now s))\<rparr>"
  using assms
  by (auto simp: validateCredentialChallenge_def Let_def consume_cases split: option.splits if_splits prod.splits intro: that)

text \<open>What a form says, whether or not it is signed.\<close>

definition payload_of :: "string \<Rightarrow> string option" where
  "payload_of provided = (case split CHR ''.'' provided of [body, sig] \<Rightarrow> b64_decode True body | _ \<Rightarrow> None)"

definition signature_of :: "string \<Rightarrow> string option" where
  "signature_of provided = (case split CHR ''.'' provided of [body, sig] \<Rightarrow> decode_signature sig | _ \<Rightarrow> None)"

lemma split_from_not_Nil: "split_from sep acc s \<noteq> []"
  by (induction sep acc s rule: split_from.induct) auto

lemma join_Cons: "xs \<noteq> [] \<Longrightarrow> join sep (x # xs) = x @ sep @ join sep xs"
  by (cases xs) simp_all

lemma join_split_from: "join [sep] (split_from sep acc s) = acc @ s"
  by (induction s arbitrary: acc) (simp_all add: join_Cons split_from_not_Nil)

lemma join_split: "join [sep] (split sep s) = s"
  by (simp add: split_def join_split_from)

lemma signed_form_fields:
  assumes "signed_form key action provided = Some (nonce, bound, e)"
  obtains payload expires where "payload_of provided = Some payload" "payload = form_payload action nonce bound expires"
    "split CHR ''.'' payload = [action, nonce, bound, expires]" "parse_int64 expires = Some (e div second)" "e = e div second * second"
    "signature_of provided = Some (signCredentialChallenge key payload)" "nonce \<noteq> ''''"
proof -
  from assms obtain body sig where split: "split CHR ''.'' provided = [body, sig]"
    unfolding signed_form_def by (cases "split CHR ''.'' provided" rule: remdups_adj.cases) (auto split: list.splits)
  then obtain payload where payload: "b64_decode True body = Some payload" "decode_signature sig = Some (signCredentialChallenge key payload)"
    using assms by (auto simp: signed_form_def split: option.splits if_splits list.splits)
  from split payload assms obtain expires where f: "split CHR ''.'' payload = [action, nonce, bound, expires]" "nonce \<noteq> ''''"
      "\<exists>u. parse_int64 expires = Some u \<and> e = u * second"
    by (auto simp: signed_form_def split: option.splits if_splits list.splits)
  have "payload = form_payload action nonce bound expires"
    using join_split [of "CHR ''.''" payload] by (simp add: f(1) form_payload_def)
  moreover have "parse_int64 expires = Some (e div second)" "e = e div second * second" using f(3) by (auto simp: second_def)
  ultimately show ?thesis
    using split payload f by (intro that [of payload expires]) (simp_all add: payload_of_def signature_of_def)
qed

lemma signed_form_same:
  assumes "signed_form key action provided = Some (nonce, bound, e)" and "payload_of provided' = payload_of provided"
    and "signed_form key action' provided' = Some (nonce', bound', e')"
  shows "action' = action \<and> nonce' = nonce \<and> bound' = bound \<and> e' = e"
proof -
  from signed_form_fields [OF assms(1)] obtain expires where
    f: "payload_of provided = Some (form_payload action nonce bound expires)"
      "split CHR ''.'' (form_payload action nonce bound expires) = [action, nonce, bound, expires]"
      "parse_int64 expires = Some (e div second)" "e = e div second * second" by metis
  from signed_form_fields [OF assms(3)] obtain expires' where
    g: "payload_of provided' = Some (form_payload action' nonce' bound' expires')"
      "split CHR ''.'' (form_payload action' nonce' bound' expires') = [action', nonce', bound', expires']"
      "parse_int64 expires' = Some (e' div second)" "e' = e' div second * second" by metis
  from f g assms(2) have "[action', nonce', bound', expires'] = [action, nonce, bound, expires]" by simp
  with f(3,4) g(3,4) show ?thesis by auto
qed

subsection \<open>Every form that was issued can be submitted\<close>

lemma url_plain:
  assumes "c \<in> set (b64_encode True s)"
  shows "32 < byte_of c \<and> byte_of c < 128 \<and> c \<noteq> CHR ''.''"
proof -
  from assms obtain d where "d < 64" "c = b64_digit True d" using b64_digits_less by (auto simp: b64_encode_digits)
  moreover from this have "byte_of c \<noteq> 46" by (auto simp: b64_digit_def byte_of_char_of)
  moreover have "byte_of (CHR ''.'') = 46" by simp
  ultimately show ?thesis by (auto simp: b64_digit_def byte_of_char_of)
qed

lemma length_nat_digits: "n < 10 ^ k \<Longrightarrow> 0 < k \<Longrightarrow> length (nat_digits n) \<le> k"
proof (induction k arbitrary: n)
  case (Suc k)
  show ?case
  proof (cases "n < 10")
    case False
    then have "n div 10 < 10 ^ k" "0 < k" using Suc.prems by (cases k; auto simp: less_mult_imp_div_less)+
    with Suc.IH [of "n div 10"] False show ?thesis by (subst nat_digits.simps) simp
  qed (subst nat_digits.simps, simp)
qed simp

lemma stamp_plain:
  assumes "0 < n" and "n < 2 ^ 62"
  shows "CHR ''.'' \<notin> set (int_text n)" "length (int_text n) \<le> 19" "parse_int64 (int_text n) = Some n"
proof -
  have t: "int_text n = nat_text (nat n)" using assms by (simp add: int_text_def)
  show "CHR ''.'' \<notin> set (int_text n)"
    using nat_text_digits [of "nat n"] unfolding t by (auto simp: list_all_iff is_digit_def)
  have "nat n < 10 ^ 19" using assms by (simp add: nat_less_iff)
  then show "length (int_text n) \<le> 19" unfolding t nat_text_def using length_nat_digits [of "nat n" 19] by simp
  show "parse_int64 (int_text n) = Some n" by (rule parse_int64_text) (use assms in simp_all)
qed

lemma split_fields_of: "\<forall>x \<in> set xs. CHR ''.'' \<notin> set x \<Longrightarrow> xs \<noteq> [] \<Longrightarrow> split CHR ''.'' (join ''.'' xs) = xs"
  by (rule split_join)

text \<open>A random token: the base64 of 32 bytes, without a dot.\<close>

definition token_like :: "string \<Rightarrow> bool" where
  "token_like t \<longleftrightarrow> length t = 43 \<and> CHR ''.'' \<notin> set t"

lemma decode_own_signature: "decode_signature (b64_encode True (signCredentialChallenge key payload)) = Some (signCredentialChallenge key payload)"
  by (simp add: decode_signature_def b64_round_trip signCredentialChallenge_def length_hmac)

lemma own_cookie:
  assumes "token_like binding" and "0 < n" "n < 2 ^ 62"
  shows "credentialChallengeBinding key action (credentialChallengeCookieValue key action binding (int_text n)) now =
    (case now of None \<Rightarrow> Some binding | Some t \<Rightarrow> if n * second \<le> t then None else Some binding)"
proof -
  let ?sig = "b64_encode True (signCredentialChallenge key (cookie_payload action binding (int_text n)))"
  have c: "credentialChallengeCookieValue key action binding (int_text n) = join ''.'' [binding, int_text n, ?sig]"
    by (simp add: credentialChallengeCookieValue_def)
  have s: "split CHR ''.'' (credentialChallengeCookieValue key action binding (int_text n)) = [binding, int_text n, ?sig]"
    unfolding c by (rule split_fields_of) (use assms(1) stamp_plain [OF assms(2,3)] url_plain in \<open>auto simp: token_like_def\<close>)
  have "length ?sig = 43" by (simp add: length_b64_encode signCredentialChallenge_def length_hmac)
  then have "length (credentialChallengeCookieValue key action binding (int_text n)) \<le> 512" "binding \<noteq> ''''"
    using assms(1) stamp_plain(2) [OF assms(2,3)] by (auto simp: credentialChallengeCookieValue_def token_like_def)
  moreover have "credentialChallengeCookieValue key action binding (int_text n) \<noteq> ''''" by (simp add: credentialChallengeCookieValue_def)
  ultimately show ?thesis
    by (simp add: credentialChallengeBinding_def s maxCredentialChallengeBytes_def decode_own_signature stamp_plain(3) [OF assms(2,3)]
        split: option.split)
qed

lemma own_form:
  fixes key :: string
  assumes "token_like nonce" "token_like binding" and "0 < n" "n < 2 ^ 62" and "valid_action action"
  defines "form \<equiv> form_value key (form_payload action nonce binding (int_text n))"
  shows "trim_space form = form" "form \<noteq> ''''" "length form \<le> maxCredentialChallengeBytes"
    "signed_form key action form = Some (nonce, binding, n * second)"
proof -
  let ?payload = "form_payload action nonce binding (int_text n)"
  let ?sig = "b64_encode True (signCredentialChallenge key ?payload)"
  have a: "CHR ''.'' \<notin> set action" "length action = 5"
    using assms(5) by (auto simp: valid_action_def credentialActionSetup_def credentialActionLogin_def credentialActionReset_def)
  have f: "form = join ''.'' [b64_encode True ?payload, ?sig]" by (simp add: form_def form_value_def)
  have dot: "32 < byte_of (CHR ''.'') \<and> byte_of (CHR ''.'') < 128" by simp
  show "trim_space form = form"
    by (rule trim_space_plain) (use url_plain dot in \<open>auto simp: form_def form_value_def\<close>)
  show "form \<noteq> ''''" by (simp add: form_def form_value_def)
  have "length ?payload \<le> 113"
    using assms(1,2) a stamp_plain(2) [OF assms(3,4)] by (simp add: form_payload_def token_like_def)
  then show "length form \<le> maxCredentialChallengeBytes"
    by (simp add: form_def form_value_def length_b64_encode signCredentialChallenge_def length_hmac maxCredentialChallengeBytes_def)
  have "split CHR ''.'' form = [b64_encode True ?payload, ?sig]"
    unfolding f by (rule split_fields_of) (use url_plain in auto)
  moreover have "split CHR ''.'' ?payload = [action, nonce, binding, int_text n]"
    unfolding form_payload_def by (rule split_fields_of) (use assms(1,2) a stamp_plain [OF assms(3,4)] in \<open>auto simp: token_like_def\<close>)
  moreover have "nonce \<noteq> ''''" using assms(1) by (auto simp: token_like_def)
  ultimately show "signed_form key action form = Some (nonce, binding, n * second)"
    by (simp add: signed_form_def b64_round_trip decode_own_signature stamp_plain(3) [OF assms(3,4)])
qed

lemma own_accepted:
  assumes "token_like nonce" "token_like binding" and "0 < n" "n < 2 ^ 62" "0 < m" "m < 2 ^ 62" and "valid_action action"
    and "now < n * second"
    and "map_of (Consumed (cache_for now s)) nonce = None" "length (Consumed (cache_for now s)) < maxConsumedCredentialChallenges"
  shows "snd (validateCredentialChallenge key action (form_value key (form_payload action nonce binding (int_text n)))
      (Some (credentialChallengeCookieValue key action binding (int_text m))) now s) = Accepted"
proof -
  note f = own_form [OF assms(1-4,7), of key]
  have b: "credentialChallengeBinding key action (credentialChallengeCookieValue key action binding (int_text m)) None = Some binding"
    unfolding own_cookie [OF assms(2,5,6)] by simp
  have "credentialChallengeCookieValue key action binding (int_text m) \<noteq> ''''" by (simp add: credentialChallengeCookieValue_def)
  then show ?thesis
    using assms(8-10) by (simp add: validateCredentialChallenge_def Let_def f b consume_cases not_le leD [OF f(3)])
qed

text \<open>
  A form that was issued can be submitted, once, until it expires, also from the older of two tabs: the
  second form keeps the binding of the cookie that the first one set, so the first is accepted with the
  cookie of the second.
\<close>

theorem tabs_can_submit:
  assumes "issueCredentialChallenge key action None fresh nonce t1 = Some (form1, cookie1)"
    and "issueCredentialChallenge key action (Some cookie1) fresh' nonce' t2 = Some (form2, cookie2)"
    and "token_like fresh" "token_like nonce" "token_like nonce'"
    and "0 \<le> t1" "t1 \<le> t2" "t2 < 2 ^ 62" "t2 < (t1 + credentialChallengeLifetime) div second * second"
    and "now < (t1 + credentialChallengeLifetime) div second * second"
    and "map_of (Consumed (cache_for now s)) nonce = None" "length (Consumed (cache_for now s)) < maxConsumedCredentialChallenges"
  shows "snd (validateCredentialChallenge key action form1 (Some cookie1) now s) = Accepted
    \<and> snd (validateCredentialChallenge key action form1 (Some cookie2) now s) = Accepted"
proof -
  let ?n1 = "(t1 + credentialChallengeLifetime) div second" and ?n2 = "(t2 + credentialChallengeLifetime) div second"
  have n1: "0 < ?n1" "?n1 < 2 ^ 62" and n2: "0 < ?n2" "?n2 < 2 ^ 62"
    using assms(6-8) by (simp_all add: credentialChallengeLifetime_def minute_def second_def)
  from assms(1) have va: "valid_action action" and form1: "form1 = form_value key (form_payload action nonce fresh (int_text ?n1))"
    and cookie1: "cookie1 = credentialChallengeCookieValue key action fresh (int_text ?n1)"
    by (auto simp: issueCredentialChallenge_def Let_def split: if_splits)
  have "credentialChallengeBinding key action cookie1 (Some t2) = Some fresh"
    unfolding cookie1 own_cookie [OF assms(3) n1] using assms(9) by simp
  with assms(2) have cookie2: "cookie2 = credentialChallengeCookieValue key action fresh (int_text ?n2)"
    by (auto simp: issueCredentialChallenge_def Let_def split: if_splits)
  show ?thesis
    unfolding form1 using own_accepted [OF assms(4,3) n1 n1 va assms(10-12)] own_accepted [OF assms(4,3) n1 n2 va assms(10-12)]
    by (simp add: cookie1 cookie2)
qed

definition example_token :: "char \<Rightarrow> string" where
  "example_token c = replicate 43 c"

lemma example_token_like: "c \<noteq> CHR ''.'' \<Longrightarrow> token_like (example_token c)"
  by (simp add: token_like_def example_token_def)

theorem tabs_can_submit_witness:
  "\<exists>form1 cookie1 form2 cookie2.
     issueCredentialChallenge ''key'' ''login'' None (example_token CHR ''b'') (example_token CHR ''n'') 0 = Some (form1, cookie1)
     \<and> issueCredentialChallenge ''key'' ''login'' (Some cookie1) (example_token CHR ''c'') (example_token CHR ''m'') minute = Some (form2, cookie2)
     \<and> snd (validateCredentialChallenge ''key'' ''login'' form1 (Some cookie2) (2 * minute) fresh_cache) = Accepted"
proof -
  have some: "\<exists>f c. issueCredentialChallenge ''key'' ''login'' held x y t = Some (f, c)" for held x y t
    by (simp add: issueCredentialChallenge_def valid_action_def credentialActionLogin_def Let_def)
  obtain form1 cookie1 where i1:
    "issueCredentialChallenge ''key'' ''login'' None (example_token CHR ''b'') (example_token CHR ''n'') 0 = Some (form1, cookie1)"
    using some by metis
  obtain form2 cookie2 where i2:
    "issueCredentialChallenge ''key'' ''login'' (Some cookie1) (example_token CHR ''c'') (example_token CHR ''m'') minute = Some (form2, cookie2)"
    using some by metis
  have "snd (validateCredentialChallenge ''key'' ''login'' form1 (Some cookie2) (2 * minute) fresh_cache) = Accepted"
    by (rule tabs_can_submit [OF i1 i2, THEN conjunct2])
      (simp_all add: example_token_like credentialChallengeLifetime_def minute_def second_def cache_for_def fresh_cache_def
        pruneConsumedChallengesLocked_def maxConsumedCredentialChallenges_def)
  with i1 i2 show ?thesis by blast
qed

text \<open>
  C38. A form that is accepted was signed by this process for that page and is not expired, and the cookie that
  comes with it was signed for the same browser. It is accepted once: no later submission of the same
  signed content is, in whatever coding, on whatever page and whatever was submitted in between.
\<close>

theorem challenge_used_once:
  assumes "validateCredentialChallenge key action form cookie now (fold (submit key) past fresh_cache) = (s', Accepted)"
  shows "(\<exists>nonce bound expires. payload_of (trim_space form) = Some (form_payload action nonce bound expires)
      \<and> signature_of (trim_space form) = Some (hmac_sha256 key (form_payload action nonce bound expires))
      \<and> (\<exists>u. parse_int64 expires = Some u \<and> now < u * second)
      \<and> (\<exists>c until sig. cookie = Some c \<and> c = join ''.'' [bound, until, sig]
           \<and> decode_signature sig = Some (hmac_sha256 key (cookie_payload action bound until))))
    \<and> (sorted (now # map submitted_at later @ [now']) \<and> payload_of (trim_space form') = payload_of (trim_space form)
      \<longrightarrow> snd (validateCredentialChallenge key action' form' cookie' now' (fold (submit key) later s')) \<noteq> Accepted)"
proof (intro conjI impI)
  let ?s = "fold (submit key) past fresh_cache"
  from accepted_form [OF assms] obtain nonce bound e where f: "signed_form key action (trim_space form) = Some (nonce, bound, e)" "now < e"
    "cookie \<noteq> None" "credentialChallengeBinding key action (the cookie) None = Some bound"
    "s' = (cache_for now ?s)\<lparr>Consumed := AList.update nonce e (Consumed (cache_for now ?s))\<rparr>" by metis
  from signed_form_fields [OF f(1)] obtain payload expires where p: "payload_of (trim_space form) = Some payload"
    "payload = form_payload action nonce bound expires" "parse_int64 expires = Some (e div second)" "e = e div second * second"
    "signature_of (trim_space form) = Some (signCredentialChallenge key payload)" by metis
  obtain c where c: "cookie = Some c" using f(3) by auto
  have "\<exists>until sig. split CHR ''.'' c = [bound, until, sig] \<and> decode_signature sig = Some (hmac_sha256 key (cookie_payload action bound until))"
    using f(4) by (auto simp: c credentialChallengeBinding_def signCredentialChallenge_def split: option.splits if_splits list.splits)
  then have "\<exists>until sig. c = join ''.'' [bound, until, sig] \<and> decode_signature sig = Some (hmac_sha256 key (cookie_payload action bound until))"
    using join_split [of "CHR ''.''" c] by metis
  then show "\<exists>nonce bound expires. payload_of (trim_space form) = Some (form_payload action nonce bound expires)
      \<and> signature_of (trim_space form) = Some (hmac_sha256 key (form_payload action nonce bound expires))
      \<and> (\<exists>u. parse_int64 expires = Some u \<and> now < u * second)
      \<and> (\<exists>c until sig. cookie = Some c \<and> c = join ''.'' [bound, until, sig]
           \<and> decode_signature sig = Some (hmac_sha256 key (cookie_payload action bound until)))"
    using p f(2) c unfolding signCredentialChallenge_def by metis
  assume later: "sorted (now # map submitted_at later @ [now']) \<and> payload_of (trim_space form') = payload_of (trim_space form)"
  let ?t = "fold (submit key) later s'"
  have "distinct (map fst (Consumed ?s))" by (rule submits_keys) (simp add: fresh_cache_def)
  then have "used_up nonce e now s'"
    unfolding f(5) used_up_def using cache_for_keys by (simp add: distinct_update update_conv')
  then have "used_up nonce e (last (now # map submitted_at later)) ?t" by (rule submits_used) (use later in \<open>simp add: sorted_append\<close>)
  moreover have "last (now # map submitted_at later) \<le> now'" using later by (cases later rule: rev_cases) (auto simp: sorted_append)
  ultimately have used: "used_up nonce e now' (cache_for now' ?t)" by (rule cache_for_used)
  show "snd (validateCredentialChallenge key action' form' cookie' now' ?t) \<noteq> Accepted"
  proof
    assume "snd (validateCredentialChallenge key action' form' cookie' now' ?t) = Accepted"
    then obtain t' where "validateCredentialChallenge key action' form' cookie' now' ?t = (t', Accepted)" by (metis prod.collapse)
    from accepted_form [OF this] obtain nonce' bound' e' where g: "signed_form key action' (trim_space form') = Some (nonce', bound', e')" "now' < e'"
      "map_of (Consumed (cache_for now' ?t)) nonce' = None" by metis
    from signed_form_same [OF f(1) _ g(1)] later have "nonce' = nonce" "e' = e" by auto
    with used g(2,3) show False by (simp add: used_up_def)
  qed
qed

theorem challenge_used_once_witness:
  "let form = form_value ''key'' (form_payload ''login'' (example_token CHR ''n'') (example_token CHR ''b'') (int_text 300));
       cookie = credentialChallengeCookieValue ''key'' ''login'' (example_token CHR ''b'') (int_text 300)
   in snd (validateCredentialChallenge ''key'' ''login'' form (Some cookie) (2 * minute)
        (fst (validateCredentialChallenge ''key'' ''login'' form (Some cookie) minute fresh_cache))) \<noteq> Accepted"
proof -
  let ?form = "form_value ''key'' (form_payload ''login'' (example_token CHR ''n'') (example_token CHR ''b'') (int_text 300))"
  let ?cookie = "credentialChallengeCookieValue ''key'' ''login'' (example_token CHR ''b'') (int_text 300)"
  have "snd (validateCredentialChallenge ''key'' ''login'' ?form (Some ?cookie) minute fresh_cache) = Accepted"
    by (rule own_accepted) (simp_all add: example_token_like valid_action_def credentialActionLogin_def minute_def second_def cache_for_def
        fresh_cache_def pruneConsumedChallengesLocked_def maxConsumedCredentialChallenges_def)
  then have "validateCredentialChallenge ''key'' ''login'' ?form (Some ?cookie) minute (fold (submit ''key'') [] fresh_cache)
      = (fst (validateCredentialChallenge ''key'' ''login'' ?form (Some ?cookie) minute fresh_cache), Accepted)"
    by (metis fold_simps(1) prod.collapse)
  from challenge_used_once [OF this, THEN conjunct2, rule_format, where later = "[]" and now' = "2 * minute" and form' = ?form] show ?thesis
    by (simp add: Let_def minute_def second_def)
qed

end
