(* ===== verification/Web_Login.thy ===== *)
theory Web_Login
  imports Web_Challenge Store_Accounts_Laws
begin

text \<open>
  \<open>internal/web/credential_flow.go\<close>, the handlers of \<open>auth.go\<close> and \<open>account.go\<close> that compare a credential, and
  \<open>apiAuthorize\<close> of \<open>api.go\<close>: what they do to the throttle, the replay cache, the counters and the accounts, and
  which answer they give. The pages and cookies they render are left out. Submissions are handled one
  after another; whether one of the two hashing slots is free is an argument. The clock is read when
  the throttle is asked, when the challenge is checked, and once the credential was compared.
\<close>

record web =
  WebThrottle :: throttle
  WebReplay :: replay_cache
  Rejections :: "string \<Rightarrow> nat"
  ChallengeCounts :: "string \<times> outcome \<Rightarrow> nat"
  RateWindows :: "(int \<times> apiWindow) list"
  Accounts :: account_db

record credential_request =
  Bucket :: string
  FormParsed :: bool
  ChallengeField :: string
  CookieField :: "string option"
  PasswordField :: string
  ConfirmField :: string
  TokenField :: string
  SlotFree :: bool
  AskedAt :: instant
  CheckedAt :: instant
  DoneAt :: instant

datatype response =
    TooMany duration
  | BadForm
  | PolicyPage policy_error
  | ChallengePage
  | BusyAnswer
  | WrongCredential
  | OtherFailure
  | AlreadyClaimed
  | NoSession
  | Redirected string
  | Admitted
  | ScopeMissing

definition currentPasswordThrottle :: string where "currentPasswordThrottle = ''password_change''"
definition apiFailureThrottle :: string where "apiFailureThrottle = ''api''"

definition throttleKey :: "string \<Rightarrow> string \<Rightarrow> string" where
  "throttleKey action address = action @ '':'' @ address"

definition recordCredentialChallenge :: "string \<Rightarrow> outcome \<Rightarrow> web \<Rightarrow> web" where
  "recordCredentialChallenge action result w = w\<lparr>ChallengeCounts := (ChallengeCounts w)((action, result) := ChallengeCounts w (action, result) + 1)\<rparr>"

definition recordCredentialRejection :: "string \<Rightarrow> web \<Rightarrow> web" where
  "recordCredentialRejection action w = w\<lparr>Rejections := (Rejections w)(action := Rejections w action + 1)\<rparr>"

text \<open>\<open>credentialFlow.begin\<close>; without an answer the handler goes on.\<close>

definition begin_flow :: "string \<Rightarrow> string \<Rightarrow> bool \<Rightarrow> credential_request \<Rightarrow> web \<Rightarrow> web \<times> response option" where
  "begin_flow key action setsPassword r w =
     (case throttled action (throttleKey action (Bucket r)) (AskedAt r) (WebThrottle w) of
        (t, retry, limited) \<Rightarrow>
          (let w1 = w\<lparr>WebThrottle := t\<rparr>
           in if limited then (w1, Some (TooMany retry))
              else if \<not> FormParsed r then (w1, Some BadForm)
              else
                (case (if setsPassword then CheckPasswordPolicy (PasswordField r) else None) of
                   Some e \<Rightarrow> (w1, Some (PolicyPage e))
                 | None \<Rightarrow>
                     (case validateCredentialChallenge key action (ChallengeField r) (CookieField r) (CheckedAt r) (WebReplay w1) of
                        (replay, result) \<Rightarrow>
                          (let w2 = recordCredentialChallenge action result (w1\<lparr>WebReplay := replay\<rparr>)
                           in if result \<noteq> Accepted then (w2, Some ChallengePage)
                              else if \<not> SlotFree r then (w2, Some BusyAnswer)
                              else (w2, None))))))"

definition countFailure :: "string \<Rightarrow> credential_request \<Rightarrow> web \<Rightarrow> web" where
  "countFailure action r w =
     recordCredentialRejection action
       (w\<lparr>WebThrottle := recordFailure action (throttleKey action (Bucket r)) (DoneAt r) (WebThrottle w)\<rparr>)"

definition newPassword :: "credential_request \<Rightarrow> bool" where
  "newPassword r \<longleftrightarrow> PasswordField r = ConfirmField r"

definition succeed :: "string \<Rightarrow> credential_request \<Rightarrow> web \<Rightarrow> web" where
  "succeed action r w = w\<lparr>WebThrottle := clearFailures (throttleKey action (Bucket r)) (WebThrottle w)\<rparr>"

text \<open>\<open>startSession\<close>, and the redirect that follows it.\<close>

definition startSession :: "string \<Rightarrow> string \<Rightarrow> instant \<Rightarrow> string \<Rightarrow> web \<Rightarrow> web \<times> response" where
  "startSession token csrf now target w =
     (case CreateSession token csrf now (Accounts w) of
        Inl _ \<Rightarrow> (w, NoSession)
      | Inr db \<Rightarrow> (w\<lparr>Accounts := db\<rparr>, Redirected target))"

definition claim :: "string \<Rightarrow> argon \<Rightarrow> string \<Rightarrow> string \<Rightarrow> string \<Rightarrow> credential_request \<Rightarrow> web \<Rightarrow> web \<times> response" where
  "claim key argon salt token csrf r w =
     (if AdminExists (Accounts w) then (w, AlreadyClaimed)
      else
        (case begin_flow key credentialActionSetup True r w of
           (w1, Some answer) \<Rightarrow> (w1, answer)
         | (w1, None) \<Rightarrow>
             if \<not> newPassword r then (countFailure credentialActionSetup r w1, WrongCredential)
             else
               (case Claim argon (TokenField r) (PasswordField r) salt (CheckedAt r) (Accounts w1) (DoneAt r) (Accounts w1) of
                  Inl _ \<Rightarrow> (countFailure credentialActionSetup r w1, WrongCredential)
                | Inr db \<Rightarrow>
                    startSession token csrf (DoneAt r) ''/settings'' (succeed credentialActionSetup r (w1\<lparr>Accounts := db\<rparr>)))))"

definition loginPost :: "string \<Rightarrow> argon \<Rightarrow> string \<Rightarrow> string \<Rightarrow> string \<Rightarrow> credential_request \<Rightarrow> web \<Rightarrow> web \<times> response" where
  "loginPost key argon nextPage token csrf r w =
     (case begin_flow key credentialActionLogin False r w of
        (w1, Some answer) \<Rightarrow> (w1, answer)
      | (w1, None) \<Rightarrow>
          if \<not> Authenticate argon (PasswordField r) (Accounts w1) then (countFailure credentialActionLogin r w1, WrongCredential)
          else startSession token csrf (DoneAt r) (if nextPage = '''' then ''/'' else nextPage) (succeed credentialActionLogin r w1))"

definition resetPost :: "string \<Rightarrow> argon \<Rightarrow> string \<Rightarrow> credential_request \<Rightarrow> web \<Rightarrow> web \<times> response" where
  "resetPost key argon salt r w =
     (case begin_flow key credentialActionReset True r w of
        (w1, Some answer) \<Rightarrow> (w1, answer)
      | (w1, None) \<Rightarrow>
          if \<not> newPassword r then (countFailure credentialActionReset r w1, WrongCredential)
          else
            (case ResetWithToken argon (TokenField r) (PasswordField r) salt (CheckedAt r) (Accounts w1) (DoneAt r) (DoneAt r) (Accounts w1) of
               Inl _ \<Rightarrow> (countFailure credentialActionReset r w1, WrongCredential)
             | Inr (db, _) \<Rightarrow> (succeed credentialActionReset r (w1\<lparr>Accounts := db\<rparr>), Redirected ''/login'')))"

text \<open>
  The session of a request. A cookie under either naming is accepted, but the session and the CSRF cookie are
  of one naming; a form must repeat the CSRF cookie.
\<close>

definition sessionCookieBase :: string where "sessionCookieBase = ''tailstate_session''"
definition csrfCookieBase :: string where "csrfCookieBase = ''tailstate_csrf''"
definition hostCookiePrefix :: string where "hostCookiePrefix = ''__Host-''"

definition sessionCookies :: "bool \<Rightarrow> (string \<Rightarrow> string option) \<Rightarrow> (string \<times> string) option" where
  "sessionCookies secure cookies =
     (let names = (if secure then [(hostCookiePrefix @ sessionCookieBase, hostCookiePrefix @ csrfCookieBase)] else [])
            @ [(sessionCookieBase, csrfCookieBase)];
          found = List.map_filter (\<lambda>(s, c).
            (case (cookies s, cookies c) of
               (Some token, Some csrf) \<Rightarrow> if token \<noteq> '''' \<and> csrf \<noteq> '''' then Some (token, csrf) else None
             | _ \<Rightarrow> None)) names
      in case found of [] \<Rightarrow> None | x # _ \<Rightarrow> Some x)"

record auth_session =
  AuthToken :: string
  AuthCsrf :: string
  AuthRef :: string

definition session ::
  "bool \<Rightarrow> (string \<Rightarrow> string option) \<Rightarrow> string \<Rightarrow> bool \<Rightarrow> bool \<Rightarrow> bool \<Rightarrow> instant \<Rightarrow> web \<Rightarrow> web \<times> auth_session option" where
  "session secure cookies field requireCSRF activity written now w =
     (case sessionCookies secure cookies of
        None \<Rightarrow> (w, None)
      | Some (token, csrf) \<Rightarrow>
          if requireCSRF \<and> (field = '''' \<or> field \<noteq> csrf) then (w, None)
          else
            (case AuthenticateSession token (if requireCSRF then field else csrf) requireCSRF activity written now (Accounts w) of
               (db, None) \<Rightarrow> (w\<lparr>Accounts := db\<rparr>, None)
             | (db, Some info) \<Rightarrow>
                 (w\<lparr>Accounts := db\<rparr>, Some \<lparr> AuthToken = token, AuthCsrf = csrf, AuthRef = InfoRef info \<rparr>)))"

definition logout :: "bool \<Rightarrow> (string \<Rightarrow> string option) \<Rightarrow> string \<Rightarrow> bool \<Rightarrow> instant \<Rightarrow> web \<Rightarrow> web \<times> response" where
  "logout secure cookies field written now w =
     (case session secure cookies field True True written now w of
        (w1, None) \<Rightarrow> (w1, NoSession)
      | (w1, Some a) \<Rightarrow> (w1\<lparr>Accounts := DeleteSession (AuthToken a) (Accounts w1)\<rparr>, Redirected ''/login''))"

definition sessionsPost :: "bool \<Rightarrow> (string \<Rightarrow> string option) \<Rightarrow> string \<Rightarrow> bool \<Rightarrow> instant \<Rightarrow> web \<Rightarrow> web \<times> response" where
  "sessionsPost secure cookies field written now w =
     (case session secure cookies field True True written now w of
        (w1, None) \<Rightarrow> (w1, NoSession)
      | (w1, Some a) \<Rightarrow> (w1\<lparr>Accounts := fst (RevokeOtherSessions (AuthToken a) (Accounts w1))\<rparr>, Redirected ''/settings''))"

text \<open>The forms of a signed-in administrator that ask for the current password, once the session was accepted.\<close>

definition passwordPost ::
  "argon \<Rightarrow> string \<Rightarrow> string \<Rightarrow> string \<Rightarrow> string \<Rightarrow> credential_request \<Rightarrow> web \<Rightarrow> web \<times> response" where
  "passwordPost argon salt current token csrf r w =
     (let k = throttleKey currentPasswordThrottle (Bucket r)
      in case throttled currentPasswordThrottle k (AskedAt r) (WebThrottle w) of
        (t, retry, limited) \<Rightarrow>
          (let w1 = w\<lparr>WebThrottle := t\<rparr>
           in if limited then (w1, TooMany retry)
              else if \<not> newPassword r then (w1, OtherFailure)
              else
                (case CheckPasswordPolicy (PasswordField r) of
                   Some e \<Rightarrow> (w1, PolicyPage e)
                 | None \<Rightarrow>
                     if \<not> SlotFree r then (w1, BusyAnswer)
                     else
                       (case ChangePassword argon current (PasswordField r) salt (Accounts w1) (DoneAt r) (Accounts w1) of
                          Inl e \<Rightarrow>
                            if e = CurrentPasswordMismatch
                            then (w1\<lparr>WebThrottle := recordFailure currentPasswordThrottle k (DoneAt r) t\<rparr>, WrongCredential)
                            else (w1, OtherFailure)
                        | Inr (db, _) \<Rightarrow>
                            startSession token csrf (DoneAt r) ''/settings''
                              (w1\<lparr>Accounts := db, WebThrottle := clearFailures k t\<rparr>)))))"

definition checkStepUp :: "argon \<Rightarrow> credential_request \<Rightarrow> web \<Rightarrow> web \<times> response" where
  "checkStepUp argon r w =
     (let k = throttleKey currentPasswordThrottle (Bucket r)
      in case throttled currentPasswordThrottle k (AskedAt r) (WebThrottle w) of
        (t, retry, limited) \<Rightarrow>
          (let w1 = w\<lparr>WebThrottle := t\<rparr>
           in if limited then (w1, TooMany retry)
              else if \<not> SlotFree r then (w1, BusyAnswer)
              else if \<not> Authenticate argon (PasswordField r) (Accounts w1)
                then (w1\<lparr>WebThrottle := recordFailure currentPasswordThrottle k (DoneAt r) t\<rparr>, WrongCredential)
              else (w1\<lparr>WebThrottle := clearFailures k t\<rparr>, Admitted)))"

text \<open>The bearer token is in the token field; \<open>written\<close> is the best-effort note of its use.\<close>

definition apiAuthorize :: "string \<Rightarrow> bool \<Rightarrow> credential_request \<Rightarrow> web \<Rightarrow> web \<times> response" where
  "apiAuthorize scope written r w =
     (case AuthenticateAPIToken (TokenField r) written (CheckedAt r) (Accounts w) of
        (db, Inl _) \<Rightarrow>
          (let k = throttleKey apiFailureThrottle (Bucket r)
           in case throttled apiFailureThrottle k (AskedAt r) (WebThrottle w) of
             (t, retry, limited) \<Rightarrow>
               if limited then (w\<lparr>WebThrottle := t, Accounts := db\<rparr>, TooMany retry)
               else (w\<lparr>WebThrottle := recordFailure apiFailureThrottle k (DoneAt r) t, Accounts := db\<rparr>, WrongCredential))
      | (db, Inr token) \<Rightarrow>
          if \<not> HasScope token scope then (w\<lparr>Accounts := db\<rparr>, ScopeMissing)
          else
            (case apiRateLimit (TokenID token) (DoneAt r) (RateWindows w) of
               (windows, Some wait) \<Rightarrow> (w\<lparr>Accounts := db, RateWindows := windows\<rparr>, TooMany wait)
             | (windows, None) \<Rightarrow> (w\<lparr>Accounts := db, RateWindows := windows\<rparr>, Admitted)))"

datatype web_op =
    ClaimPost argon string string string credential_request
  | LoginPost argon string string string credential_request
  | ResetPost argon string credential_request
  | PasswordPost argon string string string string credential_request
  | StepUp argon credential_request
  | ApiCall string bool credential_request
  | LogoutPost bool "string \<Rightarrow> string option" string bool instant
  | SessionsPost bool "string \<Rightarrow> string option" string bool instant
  | AccountStep account_op

fun web_exec :: "string \<Rightarrow> web_op \<Rightarrow> web \<Rightarrow> web \<times> response" where
  "web_exec key (ClaimPost argon salt token csrf r) w = claim key argon salt token csrf r w"
| "web_exec key (LoginPost argon nextPage token csrf r) w = loginPost key argon nextPage token csrf r w"
| "web_exec key (ResetPost argon salt r) w = resetPost key argon salt r w"
| "web_exec key (PasswordPost argon salt current token csrf r) w = passwordPost argon salt current token csrf r w"
| "web_exec key (StepUp argon r) w = checkStepUp argon r w"
| "web_exec key (ApiCall scope written r) w = apiAuthorize scope written r w"
| "web_exec key (LogoutPost secure cookies field written now) w = logout secure cookies field written now w"
| "web_exec key (SessionsPost secure cookies field written now) w = sessionsPost secure cookies field written now w"
| "web_exec key (AccountStep op) w = (w\<lparr>Accounts := account_exec op (Accounts w)\<rparr>, Admitted)"

subsection \<open>How many credentials can be tried\<close>

text \<open>The action and the request of an operation that compares a credential, and the failures of a run.\<close>

fun tried :: "web_op \<Rightarrow> (string \<times> credential_request) option" where
  "tried (ClaimPost argon salt token csrf r) = Some (credentialActionSetup, r)"
| "tried (LoginPost argon nextPage token csrf r) = Some (credentialActionLogin, r)"
| "tried (ResetPost argon salt r) = Some (credentialActionReset, r)"
| "tried (PasswordPost argon salt current token csrf r) = Some (currentPasswordThrottle, r)"
| "tried (StepUp argon r) = Some (currentPasswordThrottle, r)"
| "tried (ApiCall scope written r) = Some (apiFailureThrottle, r)"
| "tried _ = None"

definition wrong_at :: "string \<Rightarrow> string \<Rightarrow> web_op \<Rightarrow> web \<Rightarrow> instant list" where
  "wrong_at key action op w =
     (case tried op of
        None \<Rightarrow> []
      | Some (a, r) \<Rightarrow> if a = action \<and> snd (web_exec key op w) = WrongCredential then [DoneAt r] else [])"

fun wrong_run :: "string \<Rightarrow> string \<Rightarrow> web_op list \<Rightarrow> web \<Rightarrow> instant list" where
  "wrong_run key action [] w = []"
| "wrong_run key action (op # ops) w = wrong_at key action op w @ wrong_run key action ops (fst (web_exec key op w))"

definition op_times :: "web_op list \<Rightarrow> instant list" where
  "op_times ops = concat (map (\<lambda>op. case tried op of None \<Rightarrow> [] | Some (a, r) \<Rightarrow> [AskedAt r, DoneAt r]) ops)"

lemma begin_throttle:
  assumes "begin_flow key action p r w = (w1, answer)"
  shows "WebThrottle w1 = fst (throttled action (throttleKey action (Bucket r)) (AskedAt r) (WebThrottle w))"
    and "Accounts w1 = Accounts w"
    and "answer = None \<Longrightarrow> \<not> snd (snd (throttled action (throttleKey action (Bucket r)) (AskedAt r) (WebThrottle w)))"
    and "answer \<noteq> Some WrongCredential" "answer \<noteq> Some (Redirected target)"
    and "answer = None \<Longrightarrow> snd (validateCredentialChallenge key action (ChallengeField r) (CookieField r) (CheckedAt r) (WebReplay w)) = Accepted"
  using assms
  by (auto simp: begin_flow_def Let_def recordCredentialChallenge_def split: prod.splits if_splits option.splits)

lemma start_throttle:
  "WebThrottle (fst (startSession token csrf now target w)) = WebThrottle w" "snd (startSession token csrf now target w) \<noteq> WrongCredential"
  by (auto simp: startSession_def split: sum.split)

lemma counted [simp]:
  "WebThrottle (countFailure action r w) = recordFailure action (throttleKey action (Bucket r)) (DoneAt r) (WebThrottle w)"
  "Accounts (countFailure action r w) = Accounts w"
  "WebThrottle (succeed action r w) = clearFailures (throttleKey action (Bucket r)) (WebThrottle w)"
  "Accounts (succeed action r w) = Accounts w"
  by (simp_all add: countFailure_def recordCredentialRejection_def succeed_def)

text \<open>Every operation is a checked attempt at its action, or leaves the throttle alone.\<close>

definition is_attempt :: "string \<Rightarrow> credential_request \<Rightarrow> attempt_result \<Rightarrow> web \<Rightarrow> web \<Rightarrow> bool" where
  "is_attempt action r result w w' \<longleftrightarrow>
     (let x = Attempt action (throttleKey action (Bucket r)) (AskedAt r) result
      in WebThrottle w' = fold throttle_exec (attempt_ops x (WebThrottle w)) (WebThrottle w))"

lemma flow_attempt:
  assumes "begin_flow key action p r w = (w1, answer)"
  shows "answer \<noteq> None \<Longrightarrow> WebThrottle w' = WebThrottle w1 \<Longrightarrow> is_attempt action r NotCompared w w'"
    and "answer = None \<Longrightarrow> WebThrottle w' = recordFailure action (throttleKey action (Bucket r)) (DoneAt r) (WebThrottle w1)
      \<Longrightarrow> is_attempt action r (WrongAt (DoneAt r)) w w'"
    and "answer = None \<Longrightarrow> WebThrottle w' = clearFailures (throttleKey action (Bucket r)) (WebThrottle w1)
      \<Longrightarrow> is_attempt action r Passed w w'"
  using begin_throttle [OF assms] by (simp_all add: is_attempt_def)

definition attempted :: "string \<Rightarrow> credential_request \<Rightarrow> web \<Rightarrow> web \<Rightarrow> response \<Rightarrow> bool" where
  "attempted action r w w' answer \<longleftrightarrow>
     (WebThrottle w' = WebThrottle w \<and> answer \<noteq> WrongCredential)
     \<or> (answer = WrongCredential \<and> is_attempt action r (WrongAt (DoneAt r)) w w'
          \<and> \<not> snd (snd (throttled action (throttleKey action (Bucket r)) (AskedAt r) (WebThrottle w))))
     \<or> (answer \<noteq> WrongCredential \<and> (is_attempt action r NotCompared w w' \<or> is_attempt action r Passed w w'))"

lemma exec_attempted:
  assumes "tried op = Some (action, r)"
  shows "attempted action r w (fst (web_exec key op w)) (snd (web_exec key op w))"
proof (cases op)
  case (ClaimPost argon salt token csrf req)
  obtain w1 answer where b: "begin_flow key credentialActionSetup True r w = (w1, answer)" by fastforce
  have op: "op = ClaimPost argon salt token csrf r" "action = credentialActionSetup" using assms ClaimPost by auto
  show ?thesis
    using begin_throttle [OF b] flow_attempt [OF b] start_throttle
    by (cases answer) (auto simp: op claim_def b attempted_def split: sum.split)
next
  case (LoginPost argon nextPage token csrf req)
  obtain w1 answer where b: "begin_flow key credentialActionLogin False r w = (w1, answer)" by fastforce
  have op: "op = LoginPost argon nextPage token csrf r" "action = credentialActionLogin" using assms LoginPost by auto
  show ?thesis
    using begin_throttle [OF b] flow_attempt [OF b] start_throttle
    by (cases answer) (auto simp: op loginPost_def b attempted_def split: sum.split)
next
  case (ResetPost argon salt req)
  obtain w1 answer where b: "begin_flow key credentialActionReset True r w = (w1, answer)" by fastforce
  have op: "op = ResetPost argon salt r" "action = credentialActionReset" using assms ResetPost by auto
  show ?thesis
    using begin_throttle [OF b] flow_attempt [OF b]
    by (cases answer) (auto simp: op resetPost_def b attempted_def split: sum.split)
next
  case (PasswordPost argon salt current token csrf req)
  have op: "op = PasswordPost argon salt current token csrf r" "action = currentPasswordThrottle" using assms PasswordPost by auto
  show ?thesis
    using start_throttle
    by (auto simp: op passwordPost_def Let_def attempted_def is_attempt_def split: sum.split prod.split option.split)
next
  case (StepUp argon req)
  have op: "op = StepUp argon r" "action = currentPasswordThrottle" using assms StepUp by auto
  show ?thesis
    by (auto simp: op checkStepUp_def Let_def attempted_def is_attempt_def split: prod.split)
next
  case (ApiCall scope written req)
  have op: "op = ApiCall scope written r" "action = apiFailureThrottle" using assms ApiCall by auto
  show ?thesis
    by (auto simp: op apiAuthorize_def Let_def attempted_def is_attempt_def split: prod.split sum.split option.split)
qed (use assms in simp_all)

lemma session_throttle:
  "WebThrottle (fst (session secure cookies field rc act wr now w)) = WebThrottle w"
  "sessions_from (Sessions (Accounts w)) (\<lambda>_. UNIV) (Sessions (Accounts (fst (session secure cookies field rc act wr now w))))"
proof -
  have v: "sessions_from (Sessions db) (\<lambda>_. UNIV) (Sessions (fst (AuthenticateSession token csrf rc act wr now db)))" for token csrf db
    using visit_sessions [of db token csrf rc act wr now] unfolding sessions_from_def by fastforce
  show "WebThrottle (fst (session secure cookies field rc act wr now w)) = WebThrottle w"
    by (simp add: session_def split: option.split prod.split)
  show "sessions_from (Sessions (Accounts w)) (\<lambda>_. UNIV) (Sessions (Accounts (fst (session secure cookies field rc act wr now w))))"
    using v [of "Accounts w"] by (auto simp: session_def sessions_from_same split: option.split prod.split) (metis fst_conv)+
qed

lemma out_throttle:
  "WebThrottle (fst (logout secure cookies field wr now w)) = WebThrottle w"
  "WebThrottle (fst (sessionsPost secure cookies field wr now w)) = WebThrottle w"
  using session_throttle(1) [of secure cookies field True True wr now w]
  by (auto simp: logout_def sessionsPost_def split: option.split prod.split)

lemma out_sessions:
  assumes "row \<in> set (Sessions (Accounts (fst (logout secure cookies field wr now w))))
      \<or> row \<in> set (Sessions (Accounts (fst (sessionsPost secure cookies field wr now w))))"
  shows "\<exists>q \<in> set (Sessions (Accounts w)). SessionHash q = SessionHash row"
proof -
  have "row \<in> set (Sessions (Accounts (fst (session secure cookies field True True wr now w))))"
    using assms by (auto simp: logout_def sessionsPost_def DeleteSession_def drop_session_def RevokeOtherSessions_def
        split: option.splits prod.splits)
  with session_throttle(2) [of w secure cookies field True True wr now] show ?thesis unfolding sessions_from_def by blast
qed

lemma exec_run:
  obtains xs where "WebThrottle (fst (web_exec key op w)) = fold throttle_exec (attempts_run xs (WebThrottle w)) (WebThrottle w)"
    "global_history action (attempts_run xs (WebThrottle w)) = wrong_at key action op w"
    "sorted (op_times [op]) \<Longrightarrow> sorted (throttle_times (attempts_run xs (WebThrottle w)))"
    "set (throttle_times (attempts_run xs (WebThrottle w))) \<subseteq> set (op_times [op])"
proof (cases "tried op")
  case None
  then have "WebThrottle (fst (web_exec key op w)) = WebThrottle w" by (cases op) (auto simp: out_throttle)
  then show ?thesis using None by (intro that [of "[]"]) (simp_all add: wrong_at_def history_simps)
next
  case (Some ar)
  then obtain a r where t: "tried op = Some (a, r)" by (cases ar) auto
  let ?k = "throttleKey a (Bucket r)" and ?w' = "fst (web_exec key op w)"
  have times: "op_times [op] = [AskedAt r, DoneAt r]" by (simp add: op_times_def t)
  from exec_attempted [OF t, of w key] consider
      (none) "WebThrottle ?w' = WebThrottle w" "snd (web_exec key op w) \<noteq> WrongCredential"
    | (wrong) "snd (web_exec key op w) = WrongCredential" "is_attempt a r (WrongAt (DoneAt r)) w ?w'"
        "\<not> snd (snd (throttled a ?k (AskedAt r) (WebThrottle w)))"
    | (right) result where "snd (web_exec key op w) \<noteq> WrongCredential" "is_attempt a r result w ?w'" "result = NotCompared \<or> result = Passed"
    unfolding attempted_def by blast
  then show ?thesis
  proof cases
    case none
    then show ?thesis by (intro that [of "[]"]) (simp_all add: wrong_at_def t history_simps)
  next
    case wrong
    then show ?thesis
      by (intro that [of "[Attempt a ?k (AskedAt r) (WrongAt (DoneAt r))]"])
        (simp_all add: is_attempt_def wrong_at_def t history_simps times)
  next
    case right
    then show ?thesis
      by (intro that [of "[Attempt a ?k (AskedAt r) result]"])
        (auto simp: is_attempt_def wrong_at_def t history_simps times)
  qed
qed

lemma web_run:
  "\<exists>xs. global_history action (attempts_run xs (WebThrottle w)) = wrong_run key action ops w
     \<and> (sorted (op_times ops) \<longrightarrow> sorted (throttle_times (attempts_run xs (WebThrottle w))))
     \<and> set (throttle_times (attempts_run xs (WebThrottle w))) \<subseteq> set (op_times ops)"
proof (induction ops arbitrary: w)
  case Nil
  show ?case by (rule exI [of _ "[]"]) (simp add: history_simps)
next
  case (Cons op ops)
  let ?w = "fst (web_exec key op w)"
  obtain xs where x: "WebThrottle ?w = fold throttle_exec (attempts_run xs (WebThrottle w)) (WebThrottle w)"
    "global_history action (attempts_run xs (WebThrottle w)) = wrong_at key action op w"
    "sorted (op_times [op]) \<Longrightarrow> sorted (throttle_times (attempts_run xs (WebThrottle w)))"
    "set (throttle_times (attempts_run xs (WebThrottle w))) \<subseteq> set (op_times [op])"
    by (rule exec_run [of key op w action], rule that)
  from Cons.IH [of ?w] obtain ys where y: "global_history action (attempts_run ys (WebThrottle ?w)) = wrong_run key action ops ?w"
    "sorted (op_times ops) \<longrightarrow> sorted (throttle_times (attempts_run ys (WebThrottle ?w)))"
    "set (throttle_times (attempts_run ys (WebThrottle ?w))) \<subseteq> set (op_times ops)" by blast
  have run: "attempts_run (xs @ ys) (WebThrottle w) = attempts_run xs (WebThrottle w) @ attempts_run ys (WebThrottle ?w)"
    by (simp add: attempts_run_append x(1))
  have times: "op_times (op # ops) = op_times [op] @ op_times ops" by (simp add: op_times_def)
  show ?case
    by (rule exI [of _ "xs @ ys"])
      (use x(2-4) y in \<open>auto simp: run global_history_append throttle_times_append times sorted_append\<close>)
qed


definition example_web :: web where
  "example_web = \<lparr> WebThrottle = no_failures, WebReplay = fresh_cache, Rejections = (\<lambda>_. 0), ChallengeCounts = (\<lambda>_. 0),
     RateWindows = [], Accounts = example_accounts \<rparr>"

definition example_request :: "string \<Rightarrow> instant \<Rightarrow> credential_request" where
  "example_request token t = \<lparr> Bucket = ''10.0.0.1'', FormParsed = True, ChallengeField = '''', CookieField = None, PasswordField = '''',
     ConfirmField = '''', TokenField = token, SlotFree = True, AskedAt = t, CheckedAt = t, DoneAt = t \<rparr>"


subsection \<open>Who gets a session\<close>

lemma started:
  assumes "startSession token csrf now target w = (w', answer)"
  shows "set (Sessions (Accounts w')) \<subseteq> insert (signed_in token csrf now) (set (Sessions (Accounts w)))"
    and "answer = Redirected t \<Longrightarrow> t = target"
  using assms by (auto simp: startSession_def CreateSession_def signed_in_def split: sum.splits if_splits)

text \<open>
  C39. A visitor gets a session only with a credential: when a submission to one of the credential forms leaves a
  session that was not there, it is a login with the administrator's password, a claim with a valid
  setup token of an unclaimed installation, or a password change that gave the current password; and
  neither a login nor a claim gets there with a form this process did not issue, or with one that was used before.
\<close>

theorem sessions_need_credentials:
  assumes "row \<in> set (Sessions (Accounts (fst (web_exec key op w))))" and "\<forall>q \<in> set (Sessions (Accounts w)). SessionHash q \<noteq> SessionHash row"
    and "\<forall>x. op \<noteq> AccountStep x"
  shows "(\<exists>argon nextPage token csrf r. op = LoginPost argon nextPage token csrf r \<and> row = signed_in token csrf (DoneAt r)
        \<and> Authenticate argon (PasswordField r) (Accounts w)
        \<and> snd (validateCredentialChallenge key credentialActionLogin (ChallengeField r) (CookieField r) (CheckedAt r) (WebReplay w)) = Accepted)
    \<or> (\<exists>argon salt token csrf r t. op = ClaimPost argon salt token csrf r \<and> row = signed_in token csrf (DoneAt r)
        \<and> \<not> AdminExists (Accounts w) \<and> validateAuthToken SetupToken (TokenField r) (DoneAt r) (Accounts w) = Inr t
        \<and> snd (validateCredentialChallenge key credentialActionSetup (ChallengeField r) (CookieField r) (CheckedAt r) (WebReplay w)) = Accepted)
    \<or> (\<exists>argon salt current token csrf r. op = PasswordPost argon salt current token csrf r \<and> row = signed_in token csrf (DoneAt r)
        \<and> Authenticate argon current (Accounts w))"
  using assms(3)
proof (cases op)
  case (LoginPost argon nextPage token csrf r)
  obtain w1 answer where b: "begin_flow key credentialActionLogin False r w = (w1, answer)" by fastforce
  from begin_throttle [OF b] assms(1,2) started show ?thesis
    by (cases answer) (auto simp: LoginPost loginPost_def b split: if_splits dest!: started(1) [OF surjective_pairing, THEN subsetD])
next
  case (ClaimPost argon salt token csrf r)
  obtain w1 answer where b: "begin_flow key credentialActionSetup True r w = (w1, answer)" by fastforce
  from begin_throttle [OF b] assms(1,2) show ?thesis
    by (cases answer) (auto simp: ClaimPost claim_def b split: if_splits sum.splits elim!: claimed
      dest!: started(1) [OF surjective_pairing, THEN subsetD])
next
  case (ResetPost argon salt r)
  obtain w1 answer where b: "begin_flow key credentialActionReset True r w = (w1, answer)" by fastforce
  from begin_throttle [OF b] assms(1,2) show ?thesis
    by (cases answer) (auto simp: ResetPost resetPost_def b split: if_splits sum.splits elim!: recovered)
next
  case (PasswordPost argon salt current token csrf r)
  with assms(1,2) show ?thesis
    by (auto simp: PasswordPost passwordPost_def Let_def split: if_splits sum.splits prod.splits option.splits elim!: changed
      dest!: started(1) [OF surjective_pairing, THEN subsetD])
next
  case (StepUp argon r)
  with assms(1,2) show ?thesis by (auto simp: checkStepUp_def Let_def split: if_splits prod.splits)
next
  case (ApiCall scope written r)
  with assms(1,2) api_request_fields(2) [of "TokenField r" written "CheckedAt r" "Accounts w"] show ?thesis
    by (auto simp: apiAuthorize_def Let_def split: if_splits prod.splits sum.splits option.splits)
next
  case (LogoutPost secure cookies field written now)
  with assms(1,2) out_sessions show ?thesis by fastforce
next
  case (SessionsPost secure cookies field written now)
  with assms(1,2) out_sessions show ?thesis by fastforce
qed simp

lemma throttled_fresh: "throttled action key now no_failures = (no_failures, 0, False)"
proof -
  have "evict [] = []" by (subst evict.simps) simp
  then have "pruneLoginAttemptsLocked c no_failures = no_failures" for c
    by (simp add: pruneLoginAttemptsLocked_def no_failures_def prune_keys_def kept_after_def)
  then show ?thesis
    by (simp add: throttled_def attempts_of_def loginFailuresPerClient_def loginGlobalFailureBudget_def) (simp add: no_failures_def)
qed

definition example_form :: "string \<times> string" where
  "example_form = (form_value ''key'' (form_payload ''setup'' (example_token CHR ''n'') (example_token CHR ''b'') (int_text 300)),
     credentialChallengeCookieValue ''key'' ''setup'' (example_token CHR ''b'') (int_text 300))"

definition unclaimed :: web where
  "unclaimed = example_web\<lparr>Accounts := example_accounts\<lparr>AdminHash := None,
     AuthTokens := [\<lparr> AuthHash = HashToken ''s'', AuthKind = SetupToken, AuthCreated = 0, AuthExpires = setupTokenLifetime \<rparr>]\<rparr>\<rparr>"

definition claim_request :: credential_request where
  "claim_request = (example_request ''s'' minute)\<lparr>ChallengeField := fst example_form, CookieField := Some (snd example_form),
     PasswordField := sample_password, ConfirmField := sample_password\<rparr>"

lemma example_accepted:
  "snd (validateCredentialChallenge ''key'' credentialActionSetup (fst example_form) (Some (snd example_form)) minute fresh_cache) = Accepted"
  unfolding example_form_def fst_conv snd_conv credentialActionSetup_def
  by (rule own_accepted) (simp_all add: example_token_like valid_action_def credentialActionSetup_def minute_def second_def cache_for_def
      fresh_cache_def pruneConsumedChallengesLocked_def maxConsumedCredentialChallenges_def)

lemma claim_request_fields:
  "TokenField claim_request = ''s''" "PasswordField claim_request = sample_password" "ConfirmField claim_request = sample_password"
  "CheckedAt claim_request = minute" "DoneAt claim_request = minute"
  by (simp_all add: claim_request_def example_request_def)

lemma unclaimed_fields: "AdminHash (Accounts unclaimed) = None" "Sessions (Accounts unclaimed) = []"
  by (simp_all add: unclaimed_def example_web_def example_accounts_def)

lemma example_begin: "\<exists>w1. begin_flow ''key'' credentialActionSetup True claim_request unclaimed = (w1, None)"
  using example_accepted
  by (auto simp: begin_flow_def throttled_fresh unclaimed_def example_web_def claim_request_def example_request_def sample_password_policy Let_def
      split: prod.splits)

lemma example_claim:
  "signed_in ''t'' ''c'' minute \<in> set (Sessions (Accounts (fst (web_exec ''key'' (ClaimPost flat_argon ''salt'' ''t'' ''c'' claim_request) unclaimed))))"
proof -
  obtain w1 where b: "begin_flow ''key'' credentialActionSetup True claim_request unclaimed = (w1, None)" using example_begin by blast
  have "validateAuthToken SetupToken ''s'' minute (Accounts unclaimed)
      = Inr \<lparr> AuthHash = HashToken ''s'', AuthKind = SetupToken, AuthCreated = 0, AuthExpires = setupTokenLifetime \<rparr>"
    by (simp add: validateAuthToken_def newest_token_def unclaimed_def example_web_def sort_stable_def setupTokenLifetime_def minute_def second_def)
  then have "Claim flat_argon ''s'' sample_password ''salt'' minute (Accounts unclaimed) minute (Accounts unclaimed)
      = Inr (use_token SetupToken \<lparr> AuthHash = HashToken ''s'', AuthKind = SetupToken, AuthCreated = 0, AuthExpires = setupTokenLifetime \<rparr>
          ((Accounts unclaimed)\<lparr>AdminHash := Some (encode_hash ''salt'' (flat_argon sample_password ''salt'' 3 (64 * 1024) 2))\<rparr>))"
    by (simp add: Claim_def PasswordHash_def sample_password_policy AdminExists_def unclaimed_def example_web_def)
  then show ?thesis
    using begin_throttle(2) [OF b]
    by (simp add: claim_def b AdminExists_def newPassword_def claim_request_fields unclaimed_fields startSession_def CreateSession_def
        use_token_def signed_in_def)
qed

theorem sessions_need_credentials_witness:
  "\<not> AdminExists (Accounts unclaimed)
   \<and> snd (validateCredentialChallenge ''key'' credentialActionSetup (fst example_form) (Some (snd example_form)) minute fresh_cache) = Accepted"
  using sessions_need_credentials [OF example_claim]
  by (simp add: unclaimed_fields) (simp add: claim_request_def example_request_def unclaimed_def example_web_def)

end
