(* ===== verification/Store_History.thy ===== *)
theory Store_History
  imports Store_Ledger_Laws Notify_Reasons Webhook
begin

text \<open>
  \<open>internal/store/history.go\<close>: the pages of the recorded history, and the loading of one batch with its
  events and deliveries. A stored JSON text is read by the member names the program writes (Go also
  accepts other cases). \<open>length\<close> of SQLite and the outbox rows of a batch are arguments.
\<close>

subsection \<open>What a page is asked for\<close>

record history_filter =
  FilterCollector :: string
  FilterEventType :: string
  FilterResource :: string
  FilterFrom :: "instant option"
  FilterUntil :: "instant option"
  FilterCursor :: int
  FilterAfter :: int
  FilterLimit :: int
  FilterBatchID :: int
  FilterSeverity :: string

text \<open>\<open>LIKE\<close> with every wildcard of the term escaped: the text contains the term, letters of either case.\<close>

definition like_contains :: "string \<Rightarrow> string \<Rightarrow> bool" where
  "like_contains term s = contains (map lower_char s) (map lower_char term)"

text \<open>\<open>historyEventTerms\<close>: whether there is a term, and the events that satisfy all of them.\<close>

definition event_terms :: "history_filter \<Rightarrow> bool" where
  "event_terms f \<longleftrightarrow> FilterCollector f \<noteq> '''' \<or> FilterEventType f \<noteq> '''' \<or> FilterResource f \<noteq> '''' \<or> FilterSeverity f \<noteq> ''''"

definition event_selected :: "history_filter \<Rightarrow> event_row \<Rightarrow> bool" where
  "event_selected f e \<longleftrightarrow>
     (FilterCollector f \<noteq> '''' \<longrightarrow> EventColl e = FilterCollector f)
     \<and> (FilterEventType f \<noteq> '''' \<longrightarrow> EventType e = FilterEventType f)
     \<and> (FilterResource f \<noteq> '''' \<longrightarrow> like_contains (FilterResource f) (EventRes e) \<or> like_contains (FilterResource f) (EventName e))
     \<and> (FilterSeverity f \<noteq> '''' \<longrightarrow> EventSeverity e = FilterSeverity f)"

definition selected_events :: "history_filter \<Rightarrow> int \<Rightarrow> history_db \<Rightarrow> event_row list" where
  "selected_events f i db = filter (event_selected f) (events_of i db)"

definition batch_selected :: "history_filter \<Rightarrow> history_db \<Rightarrow> batch_row \<Rightarrow> bool" where
  "batch_selected f db b \<longleftrightarrow>
     (0 < FilterBatchID f \<longrightarrow> BatchRowID b = FilterBatchID f)
     \<and> (case FilterFrom f of None \<Rightarrow> True | Some t \<Rightarrow> observationBound t \<le> BatchObserved b)
     \<and> (case FilterUntil f of None \<Rightarrow> True | Some t \<Rightarrow> BatchObserved b < observationBound t)
     \<and> (event_terms f \<longrightarrow> selected_events f (BatchRowID b) db \<noteq> [])"

definition historyHasBatch :: "history_filter \<Rightarrow> bool \<Rightarrow> int \<Rightarrow> history_db \<Rightarrow> bool" where
  "historyHasBatch f newer i db =
     list_ex (\<lambda>b. batch_selected f db b \<and> (if newer then i < BatchRowID b else BatchRowID b < i)) (EventBatches db)"

subsection \<open>The loading of a batch\<close>

record delivery_row =
  DeliveryID :: int
  DeliveryDest :: int
  DeliveryName :: "string option"
  DeliveryStatus :: string
  DeliveryAttempts :: int
  DeliveryError :: string
  DeliveryNext :: string
  DeliveryDone :: string

record history_field =
  HfField :: string
  HfOld :: string
  HfNew :: string
  HfHasOld :: bool
  HfHasNew :: bool

record history_event =
  HeID :: int
  HeBatch :: int
  HeGen :: int
  HeObserved :: instant
  HeCollector :: string
  HeType :: string
  HeResource :: string
  HeName :: string
  HeFields :: "history_field list"
  HeFieldsTruncated :: bool
  HeTotal :: int
  HeBefore :: string
  HeAfter :: string
  HeBeforeHash :: string
  HeAfterHash :: string
  HeBeforeBytes :: int
  HeAfterBytes :: int
  HeBeforeTruncated :: bool
  HeAfterTruncated :: bool
  HeSeverity :: string
  HeMuted :: bool
  HeAttribution :: "attribution option"

record history_delivery =
  HdID :: int
  HdDest :: int
  HdName :: string
  HdStatus :: string
  HdAttempts :: int
  HdError :: string
  HdNext :: "instant option"
  HdDone :: "instant option"

record history_batch =
  HbID :: int
  HbGen :: int
  HbObserved :: instant
  HbChanges :: int
  HbTrigger :: int
  HbTriggers :: "int list"
  HbAttribution :: string
  HbEvents :: "history_event list"
  HbDeliveries :: "history_delivery list"
  HbSequence :: int
  HbPrevHash :: string
  HbHash :: string
  HbSignature :: string
  HbKeyID :: string
  HbPayload :: string

datatype history_error = BatchTimestamp | EventTimestamp | DeliveryTimestamp | FieldsUnreadable | PayloadUnreadable

text \<open>\<open>json.MarshalIndent\<close> with two blanks a level.\<close>

definition indent_line :: "nat \<Rightarrow> string" where
  "indent_line n = CHR 0x0A # replicate (2 * n) CHR '' ''"

fun marshal_indent :: "nat \<Rightarrow> json \<Rightarrow> string"
  and indent_items :: "nat \<Rightarrow> json list \<Rightarrow> string list"
  and indent_members :: "nat \<Rightarrow> object \<Rightarrow> string list" where
  "marshal_indent n (JArr xs) =
     (if xs = [] then ''[]'' else ''['' @ indent_line (n + 1) @ join ('','' @ indent_line (n + 1)) (indent_items (n + 1) xs) @ indent_line n @ '']'')"
| "marshal_indent n (JObj m) =
     (if m = [] then ''{}'' else ''{'' @ indent_line (n + 1) @ join ('','' @ indent_line (n + 1)) (indent_members (n + 1) m) @ indent_line n @ ''}'')"
| "marshal_indent n v = marshal v"
| "indent_items n [] = []"
| "indent_items n (x # xs) = marshal_indent n x # indent_items n xs"
| "indent_members n [] = []"
| "indent_members n ((k, v) # m) = (quote_text k @ '': '' @ marshal_indent n v) # indent_members n m"

definition prettyValue :: "goany \<Rightarrow> string" where
  "prettyValue v = (case v of GoNil \<Rightarrow> ''null'' | RawNull \<Rightarrow> ''null'' | GoVal j \<Rightarrow> marshal_indent 0 j)"

definition prettyJSON :: "string \<Rightarrow> string" where
  "prettyJSON raw = (if raw = '''' then '''' else case unmarshal raw of None \<Rightarrow> raw | Some v \<Rightarrow> marshal_indent 0 v)"

definition formatHistoryFields :: "field_change list \<Rightarrow> history_field list" where
  "formatHistoryFields changed =
     map (\<lambda>f. let hasOld = (OldPresent f \<or> Old f \<noteq> GoNil); hasNew = (NewPresent f \<or> New f \<noteq> GoNil)
              in \<lparr> HfField = Field f, HfOld = (if hasOld then prettyValue (Old f) else ''''),
                   HfNew = (if hasNew then prettyValue (New f) else ''''), HfHasOld = hasOld, HfHasNew = hasNew \<rparr>) changed"

text \<open>Members of a stored object: absent and \<open>null\<close> leave the zero value, another kind is an error.\<close>

definition json_flag :: "object \<Rightarrow> string \<Rightarrow> bool option" where
  "json_flag m k = (case obj_get m k of None \<Rightarrow> Some False | Some JNull \<Rightarrow> Some False | Some (JBool b) \<Rightarrow> Some b | _ \<Rightarrow> None)"

definition json_int :: "object \<Rightarrow> string \<Rightarrow> int option" where
  "json_int m k = (case obj_get m k of None \<Rightarrow> Some 0 | Some JNull \<Rightarrow> Some 0 | Some (JNum v) \<Rightarrow> parse_int64 (json_number v) | _ \<Rightarrow> None)"

definition json_any :: "object \<Rightarrow> string \<Rightarrow> goany" where
  "json_any m k = (case obj_get m k of None \<Rightarrow> GoNil | Some JNull \<Rightarrow> GoNil | Some v \<Rightarrow> GoVal v)"

definition decode_field :: "json \<Rightarrow> field_change option" where
  "decode_field v =
     (case v of
        JNull \<Rightarrow> Some \<lparr> Field = '''', Old = GoNil, New = GoNil, OldPresent = False, NewPresent = False \<rparr>
      | JObj m \<Rightarrow>
          (case (member_text m ''field'', json_flag m ''old_present'', json_flag m ''new_present'') of
             (Some name, Some old_present, Some new_present) \<Rightarrow>
               Some \<lparr> Field = name, Old = json_any m ''old'', New = json_any m ''new'', OldPresent = old_present, NewPresent = new_present \<rparr>
           | _ \<Rightarrow> None)
      | _ \<Rightarrow> None)"

definition decode_fields :: "json \<Rightarrow> field_change list option" where
  "decode_fields v = (case v of JNull \<Rightarrow> Some [] | JArr xs \<Rightarrow> those (map decode_field xs) | _ \<Rightarrow> None)"

definition decode_envelope :: "json \<Rightarrow> (field_change list \<times> bool \<times> int) option" where
  "decode_envelope v =
     (case v of
        JNull \<Rightarrow> Some ([], False, 0)
      | JObj m \<Rightarrow>
          (case (case obj_get m ''fields'' of None \<Rightarrow> Some [] | Some x \<Rightarrow> decode_fields x,
                 json_flag m ''fields_truncated'', json_int m ''total_fields'') of
             (Some changed, Some clipped, Some how_many) \<Rightarrow> Some (changed, clipped, how_many)
           | _ \<Rightarrow> None)
      | _ \<Rightarrow> None)"

text \<open>The stored fields of an event: a list, as older versions wrote it, or an envelope.\<close>

definition stored_fields :: "string \<Rightarrow> (field_change list \<times> bool \<times> int) option" where
  "stored_fields raw =
     (case (case unmarshal raw of None \<Rightarrow> None | Some v \<Rightarrow> decode_fields v) of
        Some changed \<Rightarrow> Some (changed, False, int (length changed))
      | None \<Rightarrow>
          (case (case unmarshal raw of None \<Rightarrow> None | Some v \<Rightarrow> decode_envelope v) of
             None \<Rightarrow> None
           | Some (changed, clipped, how_many) \<Rightarrow> Some (changed, clipped, if how_many = 0 then int (length changed) else how_many)))"

definition decodeStoredFields :: "string \<Rightarrow> (field_change list \<times> bool \<times> int) option" where
  "decodeStoredFields raw =
     (if raw = '''' then Some ([], False, 0)
      else
        (case (case unmarshal raw of None \<Rightarrow> None | Some v \<Rightarrow> decode_fields v) of
           Some changed \<Rightarrow> Some (changed, False, 0)
         | None \<Rightarrow> (case unmarshal raw of None \<Rightarrow> None | Some v \<Rightarrow> decode_envelope v)))"

text \<open>The hash and the size that a truncation marker stands for.\<close>

definition parseTruncationMarker :: "string \<Rightarrow> (string \<times> int) option" where
  "parseTruncationMarker raw =
     (case unmarshal_object raw of
        Some (Some m) \<Rightarrow>
          (case obj_get m ''_tailstate'' of
             Some (JObj t) \<Rightarrow>
               (case (json_flag t ''truncated'', member_text t ''sha256'', json_int t ''bytes'', json_int t ''limit'', member_text t ''reason'') of
                  (Some True, Some hash, Some bytes, Some _, Some _) \<Rightarrow> Some (hash, bytes)
                | _ \<Rightarrow> None)
           | _ \<Rightarrow> None)
      | _ \<Rightarrow> None)"

definition valueHash :: "string \<Rightarrow> string" where
  "valueHash raw = sha256_hex raw"

text \<open>Hash, size and truncation of a stored snapshot, completed from the snapshot itself.\<close>

definition snapshot_metadata :: "string \<Rightarrow> string \<Rightarrow> int \<Rightarrow> bool \<Rightarrow> string \<times> int \<times> bool" where
  "snapshot_metadata raw hash bytes clipped =
     (let marker = parseTruncationMarker raw;
          hash = (case marker of Some (h, _) \<Rightarrow> if hash = '''' then h else hash | None \<Rightarrow> hash);
          bytes = (case marker of Some (_, n) \<Rightarrow> if bytes = 0 then n else bytes | None \<Rightarrow> bytes);
          clipped = (clipped \<or> marker \<noteq> None);
          bytes = (if bytes = 0 \<and> raw \<noteq> '''' then int (length raw) else bytes);
          hash = (if hash = '''' \<and> raw \<noteq> '''' \<and> \<not> clipped then valueHash raw else hash)
      in (hash, bytes, clipped))"

definition load_event :: "event_row \<Rightarrow> history_error + history_event" where
  "load_event e =
     (case (snapshot_metadata (EventBefore e) (EventBeforeHash e) (EventBeforeBytes e) (EventBeforeTruncated e),
            snapshot_metadata (EventAfter e) (EventAfterHash e) (EventAfterBytes e) (EventAfterTruncated e)) of
        ((bhash, bbytes, bcut), (ahash, abytes, acut)) \<Rightarrow>
          (case parse_rfc3339 (EventObserved e) of
             None \<Rightarrow> Inl EventTimestamp
           | Some (t, _) \<Rightarrow>
               (case (if EventChanges e = '''' then Some ([], False, 0) else stored_fields (EventChanges e)) of
                  None \<Rightarrow> Inl FieldsUnreadable
                | Some (changed, clipped, how_many) \<Rightarrow>
                    Inr \<lparr> HeID = EventID e, HeBatch = (case EventBatch e of None \<Rightarrow> 0 | Some b \<Rightarrow> b), HeGen = EventGen e,
                      HeObserved = t, HeCollector = EventColl e, HeType = EventType e, HeResource = EventRes e,
                      HeName = EventName e, HeFields = formatHistoryFields changed, HeFieldsTruncated = clipped, HeTotal = how_many,
                      HeBefore = prettyJSON (EventBefore e), HeAfter = prettyJSON (EventAfter e),
                      HeBeforeHash = bhash, HeAfterHash = ahash, HeBeforeBytes = bbytes, HeAfterBytes = abytes,
                      HeBeforeTruncated = bcut, HeAfterTruncated = acut, HeSeverity = EventSeverity e, HeMuted = EventMuted e,
                      HeAttribution = UnmarshalAttribution (EventAttribution e) \<rparr>)))"

definition parseOptionalTimeStrict :: "string \<Rightarrow> instant option option" where
  "parseOptionalTimeStrict s = (if s = '''' then Some None else case parse_rfc3339 s of None \<Rightarrow> None | Some (t, _) \<Rightarrow> Some (Some t))"

definition load_delivery :: "delivery_row \<Rightarrow> history_error + history_delivery" where
  "load_delivery d =
     (case (parseOptionalTimeStrict (DeliveryNext d), parseOptionalTimeStrict (DeliveryDone d)) of
        (Some nextAttempt, Some deliveredAt) \<Rightarrow>
          Inr \<lparr> HdID = DeliveryID d, HdDest = DeliveryDest d,
                HdName = (case DeliveryName d of None \<Rightarrow> ''Removed destination'' | Some n \<Rightarrow> n), HdStatus = DeliveryStatus d,
                HdAttempts = DeliveryAttempts d,
                HdError = (if trim_space (DeliveryError d) = '''' then DeliveryError d else SafeDeliveryMessage (DeliveryError d)),
                HdNext = nextAttempt, HdDone = deliveredAt \<rparr>
      | _ \<Rightarrow> Inl DeliveryTimestamp)"

fun collect_all :: "('e + 'a) list \<Rightarrow> 'e + 'a list" where
  "collect_all [] = Inr []"
| "collect_all (x # xs) = (case x of Inl e \<Rightarrow> Inl e | Inr y \<Rightarrow> (case collect_all xs of Inl e \<Rightarrow> Inl e | Inr ys \<Rightarrow> Inr (y # ys)))"

definition loadHistoryBatch ::
  "(int \<Rightarrow> delivery_row list) \<Rightarrow> history_filter \<Rightarrow> bool \<Rightarrow> history_db \<Rightarrow> instant \<times> batch_row \<Rightarrow> history_error + history_batch" where
  "loadHistoryBatch deliveries f includePayload db candidate =
     (let (observed, b) = candidate; i = BatchRowID b;
          trigger = (case BatchTrigger b of None \<Rightarrow> 0 | Some t \<Rightarrow> t);
          linked = filter (\<lambda>t. 0 < t) (sort (triggers_of i db));
          triggers = (if linked = [] \<and> 0 < trigger then [trigger] else linked);
          entry = List.find (\<lambda>e. LedgerBatchID e = i) (Ledger db);
          sequence = (case entry of None \<Rightarrow> 0 | Some e \<Rightarrow> LedgerSequence e);
          payload = (if includePayload \<and> 0 < sequence then map_option fst (evidenceLedgerPayload i db) else Some '''')
      in case payload of
           None \<Rightarrow> Inl PayloadUnreadable
         | Some p \<Rightarrow>
             (case (collect_all (map load_event (selected_events f i db)), collect_all (map load_delivery (deliveries i))) of
                (Inl e, _) \<Rightarrow> Inl e
              | (_, Inl e) \<Rightarrow> Inl e
              | (Inr events, Inr sent) \<Rightarrow>
                  Inr \<lparr> HbID = i, HbGen = BatchRowGen b, HbObserved = observed, HbChanges = BatchChanges b, HbTrigger = trigger,
                    HbTriggers = triggers, HbAttribution = BatchAttribution b, HbEvents = events, HbDeliveries = sent,
                    HbSequence = sequence, HbPrevHash = (case entry of None \<Rightarrow> '''' | Some e \<Rightarrow> PrevHash e),
                    HbHash = (case entry of None \<Rightarrow> '''' | Some e \<Rightarrow> EntryHash e),
                    HbSignature = (case entry of None \<Rightarrow> '''' | Some e \<Rightarrow> LedgerSignature e),
                    HbKeyID = (case entry of None \<Rightarrow> '''' | Some e \<Rightarrow> LedgerKeyID e), HbPayload = p \<rparr>))"

subsection \<open>A page\<close>

text \<open>\<open>sql_length\<close> is SQLite's \<open>length\<close> of a column.\<close>

definition event_size :: "(string \<Rightarrow> int) \<Rightarrow> int \<Rightarrow> event_row \<Rightarrow> int" where
  "event_size sql_length overhead e =
     sql_length (EventChanges e) + sql_length (EventBefore e) + sql_length (EventAfter e) + sql_length (EventColl e) + sql_length (EventType e)
       + sql_length (EventRes e) + sql_length (EventName e) + sql_length (EventAttribution e) + overhead"

definition delivery_size :: "(string \<Rightarrow> int) \<Rightarrow> delivery_row \<Rightarrow> int" where
  "delivery_size sql_length d =
     sql_length (DeliveryError d) + sql_length (DeliveryStatus d) + (case DeliveryName d of None \<Rightarrow> sql_length '''' | Some n \<Rightarrow> sql_length n) + 128"

definition historyBatchByteEstimate ::
  "(string \<Rightarrow> int) \<Rightarrow> (int \<Rightarrow> delivery_row list) \<Rightarrow> history_filter \<Rightarrow> bool \<Rightarrow> history_db \<Rightarrow> int \<Rightarrow> int" where
  "historyBatchByteEstimate sql_length deliveries f includePayload db i =
     sum_list (map (event_size sql_length 128) (selected_events f i db))
       + sum_list (map (delivery_size sql_length) (deliveries i))
       + (if includePayload then sum_list (map (event_size sql_length 256) (events_of i db)) * 2 + 2048 else 0)
       + 1024"

record history_page =
  PageBatches :: "history_batch list"
  PageNext :: int
  PageHasNext :: bool
  PagePrev :: int
  PageHasPrev :: bool
  PageTruncated :: bool
  PageBytes :: int

definition page_size :: "history_filter \<Rightarrow> nat" where
  "page_size f = nat (if FilterLimit f \<le> 0 then 20 else if 100 < FilterLimit f then 100 else FilterLimit f)"

definition ascending_page :: "history_filter \<Rightarrow> bool" where
  "ascending_page f \<longleftrightarrow> FilterCursor f \<le> 0 \<and> 0 < FilterAfter f"

text \<open>The batches a page is chosen from, in the order they are read.\<close>

definition page_rows :: "history_filter \<Rightarrow> history_db \<Rightarrow> batch_row list" where
  "page_rows f db =
     (let rows = sort_key BatchRowID (filter (batch_selected f db) (EventBatches db))
      in if 0 < FilterCursor f then rev (filter (\<lambda>b. BatchRowID b < FilterCursor f) rows)
         else if ascending_page f then filter (\<lambda>b. FilterAfter f < BatchRowID b) rows
         else rev rows)"

definition timed :: "batch_row \<Rightarrow> history_error + instant \<times> batch_row" where
  "timed b = (case parse_rfc3339 (BatchObserved b) of None \<Rightarrow> Inl BatchTimestamp | Some (t, _) \<Rightarrow> Inr (t, b))"

text \<open>The loop over the candidates: what was loaded, the bytes read, and whether the budget ended it.\<close>

fun load_within ::
  "(batch_row \<Rightarrow> int) \<Rightarrow> (instant \<times> batch_row \<Rightarrow> history_error + history_batch) \<Rightarrow> bool \<Rightarrow> int \<Rightarrow> int \<Rightarrow> (instant \<times> batch_row) list
     \<Rightarrow> history_error + (history_batch list \<times> int \<times> bool)" where
  "load_within estimate load narrow byteLimit bytesRead [] = Inr ([], bytesRead, False)"
| "load_within estimate load narrow byteLimit bytesRead (c # cs) =
     (if 0 < byteLimit \<and> byteLimit - bytesRead < estimate (snd c) then Inr ([], bytesRead, True)
      else
        (case load c of
           Inl e \<Rightarrow> Inl e
         | Inr batch \<Rightarrow>
             if HbEvents batch = [] then load_within estimate load narrow byteLimit bytesRead cs
             else
               (case load_within estimate load narrow byteLimit (bytesRead + estimate (snd c)) cs of
                  Inl e \<Rightarrow> Inl e
                | Inr (batches, bytes, clipped) \<Rightarrow>
                    Inr ((if narrow then batch\<lparr>HbChanges := int (length (HbEvents batch))\<rparr> else batch) # batches, bytes, clipped))))"

definition finish_ascending :: "history_filter \<Rightarrow> history_db \<Rightarrow> bool \<Rightarrow> batch_row list \<Rightarrow> history_page \<Rightarrow> history_page" where
  "finish_ascending f db beyond candidates page0 =
     (let hasPrev = (beyond \<or> PageTruncated page0); loaded = PageBatches page0;
          prev = (if hasPrev \<and> loaded \<noteq> [] then HbID (last loaded)
                  else if PageTruncated page0 \<and> candidates \<noteq> [] then BatchRowID (hd candidates) - 1
                  else if beyond \<and> candidates \<noteq> [] then BatchRowID (last candidates) else 0);
          shown = rev loaded;
          oldest = (if shown = [] then FilterAfter f + 1 else HbID (last shown));
          hasNext = historyHasBatch f False oldest db
      in page0\<lparr>PageBatches := shown, PageHasPrev := hasPrev, PagePrev := prev, PageHasNext := hasNext,
               PageNext := (if hasNext then oldest else 0)\<rparr>)"

definition finish_descending :: "history_filter \<Rightarrow> history_db \<Rightarrow> bool \<Rightarrow> batch_row list \<Rightarrow> history_page \<Rightarrow> history_page" where
  "finish_descending f db beyond candidates page0 =
     (let hasNext = (beyond \<or> PageTruncated page0); loaded = PageBatches page0;
          after = (if hasNext \<and> loaded \<noteq> [] then HbID (last loaded)
                   else if PageTruncated page0 \<and> candidates \<noteq> [] then BatchRowID (hd candidates) + 1
                   else if beyond \<and> candidates \<noteq> [] then BatchRowID (last candidates) else 0);
          newest = (if loaded = [] then FilterCursor f - 1 else HbID (hd loaded));
          hasPrev = (0 < FilterCursor f \<and> historyHasBatch f True newest db)
      in page0\<lparr>PageHasNext := hasNext, PageNext := after, PageHasPrev := hasPrev, PagePrev := (if hasPrev then newest else 0)\<rparr>)"

definition listHistory ::
  "(string \<Rightarrow> int) \<Rightarrow> (int \<Rightarrow> delivery_row list) \<Rightarrow> history_filter \<Rightarrow> int \<Rightarrow> bool \<Rightarrow> history_db \<Rightarrow> history_error + history_page" where
  "listHistory sql_length deliveries f byteLimit includePayload db =
     (let rows = take (page_size f + 1) (page_rows f db); beyond = (page_size f < length rows);
          estimate = (\<lambda>b. historyBatchByteEstimate sql_length deliveries f includePayload db (BatchRowID b))
      in case collect_all (map timed rows) of
           Inl e \<Rightarrow> Inl e
         | Inr all_candidates \<Rightarrow>
             (let candidates = take (page_size f) all_candidates
              in case load_within estimate (loadHistoryBatch deliveries f includePayload db) (event_terms f) byteLimit 0 candidates of
                   Inl e \<Rightarrow> Inl e
                 | Inr (batches, bytes, clipped) \<Rightarrow>
                     (let page = \<lparr> PageBatches = batches, PageNext = 0, PageHasNext = False, PagePrev = 0, PageHasPrev = False,
                            PageTruncated = clipped, PageBytes = bytes \<rparr>
                      in Inr (if ascending_page f then finish_ascending f db beyond (map snd candidates) page
                              else finish_descending f db beyond (map snd candidates) page))))"

end
