(* ===== verification/Store_History_Laws.thy ===== *)
theory Store_History_Laws
  imports Store_History
begin

text \<open>
  Following the pages of the history from one cursor to the next shows every selected batch once, newest
  first, and ends.
\<close>

definition shown_ids :: "(batch_row \<Rightarrow> bool) \<Rightarrow> batch_row list \<Rightarrow> int list" where
  "shown_ids p rows = map BatchRowID (filter p rows)"

lemma shown_ids_append [simp]: "shown_ids p (xs @ ys) = shown_ids p xs @ shown_ids p ys"
  by (simp add: shown_ids_def)

text \<open>The loop loads a prefix of the candidates, all of it unless the budget is spent.\<close>

lemma load_within_shape:
  assumes "\<And>c batch. load c = Inr batch \<Longrightarrow> HbID batch = BatchRowID (snd c) \<and> (HbEvents batch \<noteq> [] \<longleftrightarrow> p (snd c))"
    and "load_within estimate load narrow byteLimit read cs = Inr (batches, bytes, clipped)"
  shows "\<exists>k \<le> length cs. clipped = (k < length cs) \<and> map HbID batches = shown_ids p (map snd (take k cs))
    \<and> (\<forall>b \<in> set batches. \<exists>c \<in> set cs. \<exists>b0 n. load c = Inr b0 \<and> HbEvents b0 \<noteq> [] \<and> (b = b0 \<or> b = b0\<lparr>HbChanges := n\<rparr>))"
  using assms(2)
proof (induction cs arbitrary: read batches)
  case (Cons c cs)
  show ?case
  proof (cases "0 < byteLimit \<and> byteLimit - read < estimate (snd c)")
    case True
    then show ?thesis using Cons.prems by (intro exI [of _ 0]) (auto simp: shown_ids_def)
  next
    case within: False
    with Cons.prems obtain batch where b: "load c = Inr batch" by (auto split: sum.splits)
    note fields = assms(1) [OF b]
    show ?thesis
    proof (cases "HbEvents batch = []")
      case True
      with Cons.prems b within have "load_within estimate load narrow byteLimit read cs = Inr (batches, bytes, clipped)" by (auto split: if_splits)
      from Cons.IH [OF this] obtain k where k: "k \<le> length cs" "clipped = (k < length cs)"
        "map HbID batches = shown_ids p (map snd (take k cs))"
        "\<forall>b \<in> set batches. \<exists>c \<in> set cs. \<exists>b0 n. load c = Inr b0 \<and> HbEvents b0 \<noteq> [] \<and> (b = b0 \<or> b = b0\<lparr>HbChanges := n\<rparr>)" by blast
      moreover have "\<not> p (snd c)" using fields True by simp
      ultimately show ?thesis by (intro exI [of _ "Suc k"]) (auto simp: shown_ids_def)
    next
      case False
      with Cons.prems b within obtain rest where r: "load_within estimate load narrow byteLimit (read + estimate (snd c)) cs = Inr (rest, bytes, clipped)"
        "batches = (if narrow then batch\<lparr>HbChanges := int (length (HbEvents batch))\<rparr> else batch) # rest"
        by (auto split: if_splits sum.splits)
      from Cons.IH [OF r(1)] obtain k where k: "k \<le> length cs" "clipped = (k < length cs)"
        "map HbID rest = shown_ids p (map snd (take k cs))"
        "\<forall>b \<in> set rest. \<exists>c \<in> set cs. \<exists>b0 n. load c = Inr b0 \<and> HbEvents b0 \<noteq> [] \<and> (b = b0 \<or> b = b0\<lparr>HbChanges := n\<rparr>)" by blast
      moreover have "\<exists>b0 n. load c = Inr b0 \<and> HbEvents b0 \<noteq> [] \<and> (hd batches = b0 \<or> hd batches = b0\<lparr>HbChanges := n\<rparr>)"
        using b False r(2) by auto
      moreover have "p (snd c)" "HbID (hd batches) = BatchRowID (snd c)" "tl batches = rest" "batches = hd batches # rest"
        using fields False r(2) by simp_all
      ultimately show ?thesis by (intro exI [of _ "Suc k"]) (auto simp: shown_ids_def r(2))
    qed
  qed
qed (simp add: shown_ids_def)

lemma load_within_total:
  assumes "\<forall>c \<in> set cs. \<exists>batch. load c = Inr batch"
    and "\<forall>c \<in> set cs. 0 < byteLimit \<longrightarrow> estimate (snd c) \<le> byteLimit"
  shows "\<exists>batches bytes clipped. load_within estimate load narrow byteLimit read cs = Inr (batches, bytes, clipped)
    \<and> (clipped \<longrightarrow> batches \<noteq> [] \<or> read \<noteq> 0)"
  using assms
proof (induction cs arbitrary: read)
  case Nil
  show ?case by (intro exI [of _ "[]"] exI [of _ read] exI [of _ False]) simp
next
  case (Cons c cs)
  from Cons.prems(1) obtain batch where b: "load c = Inr batch" by auto
  obtain batches bytes clipped where r: "load_within estimate load narrow byteLimit (read + estimate (snd c)) cs = Inr (batches, bytes, clipped)"
    using Cons.IH [of "read + estimate (snd c)"] Cons.prems by auto
  obtain batches' bytes' clipped' where r': "load_within estimate load narrow byteLimit read cs = Inr (batches', bytes', clipped')"
    "clipped' \<longrightarrow> batches' \<noteq> [] \<or> read \<noteq> 0" using Cons.IH [of read] Cons.prems by auto
  show ?case
  proof (cases "0 < byteLimit \<and> byteLimit - read < estimate (snd c)")
    case True
    moreover have "read \<noteq> 0" using True Cons.prems(2) by auto
    ultimately show ?thesis by (intro exI [of _ "[]"] exI [of _ read] exI [of _ True]) simp
  next
    case False
    have step: "load_within estimate load narrow byteLimit read (c # cs) =
      (if HbEvents batch = [] then Inr (batches', bytes', clipped')
       else Inr ((if narrow then batch\<lparr>HbChanges := int (length (HbEvents batch))\<rparr> else batch) # batches, bytes, clipped))"
      using b r r'(1) by (simp only: load_within.simps if_not_P [OF False] sum.case prod.case)
    show ?thesis unfolding step using r'(2) by simp
  qed
qed

text \<open>Everything a page depends on, apart from the cursor.\<close>

lemma cursor_irrelevant [simp]:
  "selected_events (f\<lparr>FilterCursor := c\<rparr>) i db = selected_events f i db"
  "batch_selected (f\<lparr>FilterCursor := c\<rparr>) db b = batch_selected f db b"
  "page_size (f\<lparr>FilterCursor := c\<rparr>) = page_size f"
  "event_terms (f\<lparr>FilterCursor := c\<rparr>) = event_terms f"
  "historyBatchByteEstimate len deliveries (f\<lparr>FilterCursor := c\<rparr>) inc db i = historyBatchByteEstimate len deliveries f inc db i"
  "loadHistoryBatch deliveries (f\<lparr>FilterCursor := c\<rparr>) inc db = loadHistoryBatch deliveries f inc db"
proof -
  show s: "selected_events (f\<lparr>FilterCursor := c\<rparr>) i db = selected_events f i db" for i
  proof -
    have "event_selected (f\<lparr>FilterCursor := c\<rparr>) = event_selected f" by (rule ext) (simp add: event_selected_def)
    then show ?thesis by (simp add: selected_events_def)
  qed
  show "event_terms (f\<lparr>FilterCursor := c\<rparr>) = event_terms f" by (simp add: event_terms_def)
  then show "batch_selected (f\<lparr>FilterCursor := c\<rparr>) db b = batch_selected f db b" by (simp add: batch_selected_def s)
  show "page_size (f\<lparr>FilterCursor := c\<rparr>) = page_size f" by (simp add: page_size_def)
  show "historyBatchByteEstimate len deliveries (f\<lparr>FilterCursor := c\<rparr>) inc db i = historyBatchByteEstimate len deliveries f inc db i"
    by (simp add: historyBatchByteEstimate_def s)
  show "loadHistoryBatch deliveries (f\<lparr>FilterCursor := c\<rparr>) inc db = loadHistoryBatch deliveries f inc db"
    by (rule ext) (simp only: loadHistoryBatch_def s)
qed

definition descending :: "batch_row list \<Rightarrow> bool" where
  "descending rows \<longleftrightarrow> sorted_wrt (\<lambda>a b. BatchRowID b < BatchRowID a) rows"

text \<open>A database whose selected batches can be read, each within the budget.\<close>

definition readable ::
  "(string \<Rightarrow> int) \<Rightarrow> (int \<Rightarrow> delivery_row list) \<Rightarrow> history_filter \<Rightarrow> int \<Rightarrow> bool \<Rightarrow> history_db \<Rightarrow> bool" where
  "readable len deliveries f byteLimit inc db \<longleftrightarrow>
     distinct (map BatchRowID (EventBatches db)) \<and>
     (\<forall>b \<in> set (EventBatches db). 0 < BatchRowID b \<and>
       (batch_selected f db b \<longrightarrow>
         (\<exists>t batch. timed b = Inr (t, b) \<and> loadHistoryBatch deliveries f inc db (t, b) = Inr batch)
         \<and> (0 < byteLimit \<longrightarrow> historyBatchByteEstimate len deliveries f inc db (BatchRowID b) \<le> byteLimit)))"

fun follow_pages ::
  "nat \<Rightarrow> (string \<Rightarrow> int) \<Rightarrow> (int \<Rightarrow> delivery_row list) \<Rightarrow> history_filter \<Rightarrow> int \<Rightarrow> bool \<Rightarrow> history_db \<Rightarrow> int list option" where
  "follow_pages 0 len deliveries f byteLimit inc db = None"
| "follow_pages (Suc n) len deliveries f byteLimit inc db =
     (case listHistory len deliveries f byteLimit inc db of
        Inl _ \<Rightarrow> None
      | Inr p \<Rightarrow>
          if PageHasNext p
          then map_option (\<lambda>ids. map HbID (PageBatches p) @ ids)
                 (follow_pages n len deliveries (f\<lparr>FilterCursor := PageNext p\<rparr>) byteLimit inc db)
          else Some (map HbID (PageBatches p)))"

lemma collect_all_Inr: "\<forall>x \<in> set xs. \<exists>y. g x = Inr y \<Longrightarrow> \<exists>ys. collect_all (map g xs) = Inr ys \<and> map g xs = map Inr ys"
  by (induction xs) fastforce+

lemma collect_all_length: "collect_all xs = Inr ys \<Longrightarrow> xs = map Inr ys"
  by (induction xs arbitrary: ys) (auto split: sum.splits)

lemma load_fields:
  assumes "loadHistoryBatch deliveries f inc db (t, b) = Inr batch"
  shows "HbID batch = BatchRowID b \<and> (HbEvents batch \<noteq> [] \<longleftrightarrow> selected_events f (BatchRowID b) db \<noteq> [])"
proof -
  from assms obtain events sent where "collect_all (map load_event (selected_events f (BatchRowID b) db)) = Inr events"
    "HbEvents batch = events" "HbID batch = BatchRowID b"
    by (auto simp: loadHistoryBatch_def Let_def split: option.splits sum.splits)
  then show ?thesis by (auto dest: collect_all_length)
qed

lemma page_rows_set: "b \<in> set (page_rows f db) \<Longrightarrow> b \<in> set (EventBatches db) \<and> batch_selected f db b"
  by (auto simp: page_rows_def Let_def split: if_splits)

lemma page_rows_descending:
  assumes "distinct (map BatchRowID (EventBatches db))" and "\<not> ascending_page f"
  shows "descending (page_rows f db)"
proof -
  let ?rows = "sort_key BatchRowID (filter (batch_selected f db) (EventBatches db))"
  have "distinct (map BatchRowID ?rows)"
    using assms(1) by (simp add: distinct_map inj_on_def)
  then have "sorted_wrt (<) (map BatchRowID ?rows)" by (simp add: strict_sorted_iff)
  then have "descending (rev ?rows)" by (simp add: descending_def sorted_wrt_rev sorted_wrt_map)
  then show ?thesis
    using assms(2) by (simp add: page_rows_def descending_def rev_filter sorted_wrt_filter Let_def)
qed

lemma page_rows_below:
  assumes "\<not> ascending_page f" and "0 < c" and "0 < FilterCursor f \<longrightarrow> c \<le> FilterCursor f"
  shows "page_rows (f\<lparr>FilterCursor := c\<rparr>) db = filter (\<lambda>b. BatchRowID b < c) (page_rows f db)"
proof -
  have sel: "batch_selected (f\<lparr>FilterCursor := c\<rparr>) db = batch_selected f db" by (rule ext) simp
  show ?thesis
    using assms by (auto simp: page_rows_def sel Let_def rev_filter intro!: filter_cong)
qed

lemma descending_split:
  assumes "descending (xs @ b # ys)"
  shows "filter (\<lambda>x. BatchRowID x < BatchRowID b) (xs @ b # ys) = ys"
  using assms by (fastforce simp: descending_def sorted_wrt_append filter_id_conv filter_empty_conv)

lemma last_filter_split: "filter p xs \<noteq> [] \<Longrightarrow> \<exists>us b vs. xs = us @ b # vs \<and> p b \<and> filter p vs = []"
proof (induction xs)
  case (Cons x xs)
  show ?case
  proof (cases "filter p xs = []")
    case True
    with Cons.prems show ?thesis by (intro exI [of _ "[]"] exI [of _ x] exI [of _ xs]) (auto split: if_splits)
  next
    case False
    from Cons.IH [OF this] obtain us b vs where "xs = us @ b # vs \<and> p b \<and> filter p vs = []" by blast
    then show ?thesis by (intro exI [of _ "x # us"] exI [of _ b] exI [of _ vs]) simp
  qed
qed simp

lemma take_split: "take k xs = us @ b # vs \<Longrightarrow> take (Suc (length us)) xs = us @ [b] \<and> length us < length xs \<and> xs ! length us = b"
proof -
  assume "take k xs = us @ b # vs"
  then have "xs = us @ b # vs @ drop k xs" by (metis append_Cons append_assoc append_take_drop_id)
  then show ?thesis by (metis append_Cons append_Nil append_assoc length_append length_append_singleton less_add_same_cancel1
    length_Cons nth_append_length append_eq_conv_conj zero_less_Suc)
qed

text \<open>One page: it shows the first rows that have events, and its cursor is where the next one begins.\<close>

lemma page_shape:
  assumes "listHistory len deliveries f byteLimit inc db = Inr page" and "\<not> ascending_page f"
    and "PageTruncated page \<longrightarrow> PageBatches page \<noteq> []"
  defines "p \<equiv> \<lambda>b. selected_events f (BatchRowID b) db \<noteq> []"
  shows "PageHasNext page \<Longrightarrow> \<exists>m < length (page_rows f db). PageNext page = BatchRowID (page_rows f db ! m)
       \<and> map HbID (PageBatches page) = shown_ids p (take (Suc m) (page_rows f db))
       \<and> (PageBatches page \<noteq> [] \<longrightarrow> HbID (last (PageBatches page)) = PageNext page)"
    and "\<not> PageHasNext page \<Longrightarrow> map HbID (PageBatches page) = shown_ids p (page_rows f db) \<and> PageNext page = 0"
    and "\<And>b. b \<in> set (PageBatches page) \<Longrightarrow> \<exists>row \<in> set (page_rows f db). \<exists>t b0 n. timed row = Inr (t, row)
       \<and> loadHistoryBatch deliveries f inc db (t, row) = Inr b0 \<and> HbEvents b0 \<noteq> [] \<and> (b = b0 \<or> b = b0\<lparr>HbChanges := n\<rparr>)"
proof -
  let ?R = "page_rows f db" and ?n = "page_size f"
  have n: "0 < ?n" by (simp add: page_size_def)
  from assms(1,2) obtain ys batches bytes clipped where
    ys: "collect_all (map timed (take (?n + 1) ?R)) = Inr ys"
    and w: "load_within (\<lambda>b. historyBatchByteEstimate len deliveries f inc db (BatchRowID b)) (loadHistoryBatch deliveries f inc db) (event_terms f)
       byteLimit 0 (take ?n ys) = Inr (batches, bytes, clipped)"
    and page: "page = finish_descending f db (?n < length (take (?n + 1) ?R)) (map snd (take ?n ys))
       \<lparr> PageBatches = batches, PageNext = 0, PageHasNext = False, PagePrev = 0, PageHasPrev = False,
         PageTruncated = clipped, PageBytes = bytes \<rparr>"
    by (auto simp: listHistory_def Let_def simp del: One_nat_def split: sum.splits)
  have mapped: "map timed (take (?n + 1) ?R) = map Inr ys" by (rule collect_all_length [OF ys])
  have snd_timed: "timed b = Inr y \<Longrightarrow> snd y = b" for b y by (auto simp: timed_def split: option.splits)
  have len_ys: "length ys = length (take (?n + 1) ?R)" using arg_cong [OF mapped, of length] by simp
  have nth: "timed (take (?n + 1) ?R ! i) = Inr (ys ! i)" if "i < length ys" for i
    using arg_cong [OF mapped, of "\<lambda>l. l ! i"] that len_ys by simp
  have snds: "map snd ys = take (?n + 1) ?R"
    by (rule nth_equalityI) (use len_ys nth snd_timed in auto)
  let ?C = "take ?n ys"
  have C: "map snd ?C = take ?n ?R" by (simp add: take_map [symmetric] snds)
  have candidate: "timed (snd c) = Inr c \<and> snd c \<in> set ?R" if "c \<in> set ?C" for c
  proof -
    from that obtain i where i: "i < length ys" "c = ys ! i" by (metis in_set_takeD in_set_conv_nth)
    have "timed (snd c) = Inr c" using nth [OF i(1)] snd_timed i(2) by metis
    moreover have "snd c \<in> set ?R" using i snds by (metis in_set_takeD length_map nth_map nth_mem)
    ultimately show ?thesis by blast
  qed
  have loaded: "HbID batch = BatchRowID (snd c) \<and> (HbEvents batch \<noteq> [] \<longleftrightarrow> p (snd c))"
    if "loadHistoryBatch deliveries f inc db c = Inr batch" for c batch
    using load_fields [of deliveries f inc db "fst c" "snd c" batch] that by (simp add: p_def)
  from load_within_shape [of "loadHistoryBatch deliveries f inc db" p, OF loaded w] obtain k where
    k: "k \<le> length ?C" "clipped = (k < length ?C)" "map HbID batches = shown_ids p (map snd (take k ?C))"
    and each: "\<forall>b \<in> set batches. \<exists>c \<in> set ?C. \<exists>b0 n. loadHistoryBatch deliveries f inc db c = Inr b0 \<and> HbEvents b0 \<noteq> []
       \<and> (b = b0 \<or> b = b0\<lparr>HbChanges := n\<rparr>)" by blast
  have taken: "map snd (take k ?C) = take k ?R" using C k(1) by (metis length_take min.boundedE min_def take_map take_take)
  have fields: "PageBatches page = batches" "PageTruncated page = clipped" "PageHasNext page \<longleftrightarrow> ?n < length ?R \<or> k < length ?C"
    by (simp_all add: page finish_descending_def Let_def min_def k(2))
  have some: "clipped \<longrightarrow> batches \<noteq> []" using assms(3) fields by simp
  show "\<exists>row \<in> set ?R. \<exists>t b0 n. timed row = Inr (t, row)
       \<and> loadHistoryBatch deliveries f inc db (t, row) = Inr b0 \<and> HbEvents b0 \<noteq> [] \<and> (b = b0 \<or> b = b0\<lparr>HbChanges := n\<rparr>)"
    if "b \<in> set (PageBatches page)" for b
  proof -
    from that each fields(1) obtain c b0 n where c: "c \<in> set ?C" "loadHistoryBatch deliveries f inc db c = Inr b0" "HbEvents b0 \<noteq> []"
      "b = b0 \<or> b = b0\<lparr>HbChanges := n\<rparr>" by blast
    from candidate [OF c(1)] have "timed (snd c) = Inr (fst c, snd c)" "snd c \<in> set ?R" by simp_all
    with c(2-4) show ?thesis by (intro bexI [of _ "snd c"] exI [of _ "fst c"] exI [of _ b0] exI [of _ n]) simp_all
  qed
  show "map HbID (PageBatches page) = shown_ids p ?R \<and> PageNext page = 0" if "\<not> PageHasNext page"
  proof -
    have "length ?R \<le> ?n" "k = length ?C" using that fields(3) k(1) by auto
    then have "take k ?R = ?R" using len_ys by simp
    moreover have "PageNext page = 0" using that by (simp add: page finish_descending_def Let_def)
    ultimately show ?thesis using k(3) taken fields(1) by simp
  qed
  show "\<exists>m < length ?R. PageNext page = BatchRowID (?R ! m) \<and> map HbID (PageBatches page) = shown_ids p (take (Suc m) ?R)
      \<and> (PageBatches page \<noteq> [] \<longrightarrow> HbID (last (PageBatches page)) = PageNext page)"
    if has: "PageHasNext page"
  proof (cases "batches = []")
    case False
    then have after: "PageNext page = HbID (last batches)"
      using has fields by (simp add: page finish_descending_def Let_def min_def split: if_splits)
    have ids: "map HbID batches = shown_ids p (take k ?R)" using k(3) taken by simp
    with False have "filter p (take k ?R) \<noteq> []" by (auto simp: shown_ids_def)
    then obtain xs b zs where split: "take k ?R = xs @ b # zs" "p b" "filter p zs = []"
      using last_filter_split by metis
    have shown: "map HbID batches = shown_ids p (xs @ [b])"
      unfolding ids split(1) using split(2,3) by (simp add: shown_ids_def)
    have "last (map HbID batches) = BatchRowID b" unfolding shown using split(2) by (simp add: shown_ids_def)
    with False after have nxt: "PageNext page = BatchRowID b" by (simp add: last_map)
    have at: "take (Suc (length xs)) ?R = xs @ [b]" "length xs < length ?R" "?R ! length xs = b"
      using take_split [OF split(1)] by blast+
    show ?thesis
      by (intro exI [of _ "length xs"] conjI impI)
        (use at nxt shown fields(1) after in \<open>simp_all only: at\<close>)
  next
    case True
    then have "k = length ?C" "?n < length ?R" using has fields k(1,2) some by auto
    then have m: "take k ?R = take ?n ?R" "length ?C = ?n" "?C \<noteq> []" using len_ys n by (auto simp: min_def split: if_splits)
    have "PageNext page = BatchRowID (last (map snd ?C))"
      using True \<open>k = length ?C\<close> \<open>?n < length ?R\<close> m(3) k(2) by (simp add: page finish_descending_def Let_def min_def)
    also have "last (map snd ?C) = ?R ! (?n - 1)" unfolding C using \<open>?n < length ?R\<close> n
      by (subst last_conv_nth) auto
    finally show ?thesis
      using k(3) taken m(1) True fields(1) \<open>?n < length ?R\<close> n by (intro exI [of _ "?n - 1"]) simp
  qed
qed

lemma one_page:
  assumes "readable len deliveries f byteLimit inc db" and "\<not> ascending_page f"
  obtains page where "listHistory len deliveries f byteLimit inc db = Inr page" "PageTruncated page \<longrightarrow> PageBatches page \<noteq> []"
proof -
  let ?R = "page_rows f db" and ?n = "page_size f"
  have ok: "\<exists>t batch. timed b = Inr (t, b) \<and> loadHistoryBatch deliveries f inc db (t, b) = Inr batch"
      "0 < byteLimit \<longrightarrow> historyBatchByteEstimate len deliveries f inc db (BatchRowID b) \<le> byteLimit" if "b \<in> set ?R" for b
    using page_rows_set [OF that] assms(1) unfolding readable_def by blast+
  have "\<forall>b \<in> set (take (?n + 1) ?R). \<exists>y. timed b = Inr y" using ok(1) by (meson in_set_takeD)
  then obtain ys where ys: "collect_all (map timed (take (?n + 1) ?R)) = Inr ys" "map timed (take (?n + 1) ?R) = map Inr ys"
    using collect_all_Inr [of "take (?n + 1) ?R" timed] by blast
  have mem: "\<exists>b \<in> set ?R. timed b = Inr c" if "c \<in> set (take ?n ys)" for c
  proof -
    from that have "Inr c \<in> set (map timed (take (?n + 1) ?R))" unfolding ys(2) by (auto dest: in_set_takeD)
    then show ?thesis by (auto dest: in_set_takeD)
  qed
  have load: "\<forall>c \<in> set (take ?n ys). \<exists>batch. loadHistoryBatch deliveries f inc db c = Inr batch"
    using mem ok(1) by fastforce
  have fits: "\<forall>c \<in> set (take ?n ys). 0 < byteLimit \<longrightarrow> historyBatchByteEstimate len deliveries f inc db (BatchRowID (snd c)) \<le> byteLimit"
  proof
    fix c assume "c \<in> set (take ?n ys)"
    from mem [OF this] obtain b where "b \<in> set ?R" "timed b = Inr c" by blast
    with ok [OF this(1)] show "0 < byteLimit \<longrightarrow> historyBatchByteEstimate len deliveries f inc db (BatchRowID (snd c)) \<le> byteLimit" by auto
  qed
  from load_within_total [where estimate = "\<lambda>b. historyBatchByteEstimate len deliveries f inc db (BatchRowID b)"
      and load = "loadHistoryBatch deliveries f inc db" and cs = "take ?n ys" and narrow = "event_terms f" and read = 0, OF load fits]
  obtain batches bytes clipped where w:
    "load_within (\<lambda>b. historyBatchByteEstimate len deliveries f inc db (BatchRowID b)) (loadHistoryBatch deliveries f inc db) (event_terms f)
       byteLimit 0 (take ?n ys) = Inr (batches, bytes, clipped)" "clipped \<longrightarrow> batches \<noteq> []" by auto
  define page where "page = finish_descending f db (?n < length (take (?n + 1) ?R)) (map snd (take ?n ys))
    \<lparr> PageBatches = batches, PageNext = 0, PageHasNext = False, PagePrev = 0, PageHasPrev = False,
      PageTruncated = clipped, PageBytes = bytes \<rparr>"
  have "listHistory len deliveries f byteLimit inc db = Inr page"
    unfolding listHistory_def Let_def ys(1) sum.case w(1) prod.case page_def using assms(2) by simp
  moreover have "PageTruncated page \<longrightarrow> PageBatches page \<noteq> []"
    using w(2) by (simp add: page_def finish_descending_def Let_def)
  ultimately show ?thesis by (rule that)
qed

text \<open>The rows left for the next page are those after the row the cursor names.\<close>

lemma page_rows_after:
  assumes "distinct (map BatchRowID (EventBatches db))" and "\<forall>b \<in> set (EventBatches db). 0 < BatchRowID b"
    and "\<not> ascending_page f" and "m < length (page_rows f db)"
  shows "page_rows (f\<lparr>FilterCursor := BatchRowID (page_rows f db ! m)\<rparr>) db = drop (Suc m) (page_rows f db)"
    and "0 < BatchRowID (page_rows f db ! m)"
proof -
  let ?R = "page_rows f db"
  have mem: "?R ! m \<in> set ?R" using assms(4) by simp
  show pos: "0 < BatchRowID (?R ! m)" using page_rows_set [OF mem] assms(2) by blast
  have below: "0 < FilterCursor f \<longrightarrow> BatchRowID (?R ! m) \<le> FilterCursor f" using mem by (auto simp: page_rows_def Let_def)
  have desc: "descending ?R" by (rule page_rows_descending [OF assms(1,3)])
  show "page_rows (f\<lparr>FilterCursor := BatchRowID (?R ! m)\<rparr>) db = drop (Suc m) ?R"
    unfolding page_rows_below [OF assms(3) pos below]
    by (subst id_take_nth_drop [OF assms(4)], rule descending_split) (use desc id_take_nth_drop [OF assms(4)] in simp)
qed

lemma follow_pages_all:
  assumes "readable len deliveries f byteLimit inc db" and "\<not> ascending_page f" and "length (page_rows f db) < n"
  shows "follow_pages n len deliveries f byteLimit inc db
           = Some (shown_ids (\<lambda>b. selected_events f (BatchRowID b) db \<noteq> []) (page_rows f db))"
  using assms
proof (induction n arbitrary: f)
  case (Suc n)
  let ?R = "page_rows f db" and ?p = "\<lambda>b. selected_events f (BatchRowID b) db \<noteq> []"
  from one_page [OF Suc.prems(1,2)] obtain page where page: "listHistory len deliveries f byteLimit inc db = Inr page"
    and nonempty: "PageTruncated page \<longrightarrow> PageBatches page \<noteq> []" .
  note shape = page_shape [OF page Suc.prems(2) nonempty]
  show ?case
  proof (cases "PageHasNext page")
    case True
    from shape(1) [OF this] obtain m where m: "m < length ?R" "PageNext page = BatchRowID (?R ! m)"
      "map HbID (PageBatches page) = shown_ids ?p (take (Suc m) ?R)" by blast
    have "distinct (map BatchRowID (EventBatches db))" "\<forall>b \<in> set (EventBatches db). 0 < BatchRowID b"
      using Suc.prems(1) by (auto simp: readable_def)
    note rest = page_rows_after [OF this Suc.prems(2) m(1)]
    let ?g = "f\<lparr>FilterCursor := BatchRowID (?R ! m)\<rparr>"
    have "readable len deliveries ?g byteLimit inc db" using Suc.prems(1) by (simp add: readable_def)
    moreover have "\<not> ascending_page ?g" using rest(2) by (simp add: ascending_page_def)
    moreover have "length (page_rows ?g db) < n" unfolding rest(1) using Suc.prems(3) m(1) by simp
    ultimately have "follow_pages n len deliveries ?g byteLimit inc db = Some (shown_ids ?p (drop (Suc m) ?R))"
      using Suc.IH [of ?g] rest(1) by simp
    then show ?thesis
      using page True m(2,3) by (simp flip: shown_ids_append)
  qed (use page shape(2) in simp)
qed simp


text \<open>Three recorded batches, one of them with an event of another collector, read one to a page.\<close>

definition paged_batch :: "int \<Rightarrow> batch_row" where
  "paged_batch i = \<lparr> BatchRowID = i, BatchRowGen = i, BatchObserved = ''2026-01-02T03:04:05Z'', BatchChanges = 1,
     BatchCreated = ''2026-01-02T03:04:05Z'', BatchTrigger = None, BatchAttribution = '''' \<rparr>"

definition paged_event :: "int \<Rightarrow> string \<Rightarrow> event_row" where
  "paged_event i c = \<lparr> EventID = i, EventBatch = Some i, EventGen = i, EventObserved = ''2026-01-02T03:04:05Z'', EventColl = c,
     EventType = ''added'', EventRes = ''n1'', EventName = ''laptop'', EventChanges = '''', EventBefore = '''', EventAfter = '''',
     EventBeforeHash = '''', EventAfterHash = '''', EventBeforeBytes = 0, EventAfterBytes = 0, EventBeforeTruncated = False,
     EventAfterTruncated = False, EventSeverity = ''info'', EventMuted = False, EventAttribution = '''' \<rparr>"

definition paged_history :: history_db where
  "paged_history = \<lparr> EventBatches = map paged_batch [1, 2, 3], NextBatch = 4, BatchTriggers = [],
     Events = [paged_event 1 ''devices'', paged_event 2 ''users'', paged_event 3 ''devices''], NextEvent = 4, Ledger = [],
     NextSequence = 1, LedgerHead = None, BackfillCutoff = None, BackfillCursor = None, Backfilled = True \<rparr>"

definition paged_filter :: history_filter where
  "paged_filter = \<lparr> FilterCollector = ''devices'', FilterEventType = '''', FilterResource = '''', FilterFrom = None,
     FilterUntil = None, FilterCursor = 0, FilterAfter = 0, FilterLimit = 1, FilterBatchID = 0, FilterSeverity = '''' \<rparr>"

lemma readable_code:
  "readable len deliveries f byteLimit inc db \<longleftrightarrow>
     distinct (map BatchRowID (EventBatches db)) \<and>
     list_all (\<lambda>b. 0 < BatchRowID b \<and>
       (\<not> batch_selected f db b \<or>
         (case timed b of Inl _ \<Rightarrow> False | Inr c \<Rightarrow> snd c = b \<and> \<not> isl (loadHistoryBatch deliveries f inc db c))
         \<and> (0 < byteLimit \<longrightarrow> historyBatchByteEstimate len deliveries f inc db (BatchRowID b) \<le> byteLimit))) (EventBatches db)"
proof -
  have "(\<exists>t batch. timed b = Inr (t, b) \<and> loadHistoryBatch deliveries f inc db (t, b) = Inr batch) \<longleftrightarrow>
      (case timed b of Inl _ \<Rightarrow> False | Inr c \<Rightarrow> snd c = b \<and> \<not> isl (loadHistoryBatch deliveries f inc db c))" for b
    by (auto split: sum.splits simp: isl_def) (metis sum.exhaust)+
  then show ?thesis by (auto simp: readable_def list_all_iff)
qed

lemma paged_readable: "readable (\<lambda>s. int (length s)) (\<lambda>_. []) paged_filter 4000 False paged_history"
  unfolding readable_code by code_simp


end
