(* ===== verification/Store_Payload.thy ===== *)
theory Store_Payload
  imports Store_History
begin

text \<open>
  The decoder of a ledger payload (\<open>internal/store/evidence_verify.go\<close>): the strict decoding of the JSON
  text into the structs of \<open>internal/store/signing.go\<close>, and its round trip with the encoder of
  \<open>Store_Ledger\<close>. Members are read by the exact names the encoder writes (Go also accepts another case),
  and of a repeated member the last counts. An integer may be written with a zero fraction, which Go
  refuses; the encoder writes no such text.
\<close>

subsection \<open>The decoder\<close>

definition known_members :: "string list \<Rightarrow> object \<Rightarrow> bool" where
  "known_members names m = list_all (\<lambda>k. k \<in> set names) (obj_keys m)"

definition decode_int :: "json \<Rightarrow> int option" where
  "decode_int v = (case v of JNull \<Rightarrow> Some 0 | JNum x \<Rightarrow> parse_int64 (json_number x) | _ \<Rightarrow> None)"

definition decode_attribution_pointer :: "object \<Rightarrow> attribution option option" where
  "decode_attribution_pointer m =
     (case obj_get m ''attribution'' of
        None \<Rightarrow> Some None
      | Some JNull \<Rightarrow> Some None
      | Some (JObj a) \<Rightarrow>
          if known_members [''actor_login'', ''actor_name'', ''actor_type'', ''origin'', ''action'', ''target'', ''occurred_at''] a
          then map_option Some (decode_attribution a) else None
      | _ \<Rightarrow> None)"

text \<open>The texts and the numbers of an event; a JSON null is the zero value.\<close>

definition event_texts :: "string list" where
  "event_texts = [''observed_at'', ''collector'', ''event_type'', ''resource_id'', ''name'', ''changes'', ''before'', ''after'']"

definition decode_ledger_event :: "json \<Rightarrow> ledger_event option" where
  "decode_ledger_event v =
     (let m = (case v of JObj m \<Rightarrow> m | _ \<Rightarrow> [])
      in if (v \<noteq> JNull \<and> (case v of JObj _ \<Rightarrow> False | _ \<Rightarrow> True))
            \<or> \<not> known_members ([''id'', ''generation'', ''muted'', ''attribution''] @ event_texts) m then None
         else
           (case (json_int m ''id'', json_int m ''generation'', json_flag m ''muted'', decode_attribution_pointer m,
                  those (map (member_text m) event_texts)) of
              (Some i, Some gen, Some muted, Some credit, Some [observed, c, t, r, n, changes, before, after]) \<Rightarrow>
                Some \<lparr> LeID = i, LeGen = gen, LeObserved = observed, LeCollector = c, LeType = t, LeResource = r, LeName = n,
                       LeChanges = changes, LeBefore = before, LeAfter = after, LeMuted = muted, LeAttribution = credit \<rparr>
            | _ \<Rightarrow> None))"

definition decode_list :: "(json \<Rightarrow> 'a option) \<Rightarrow> object \<Rightarrow> string \<Rightarrow> 'a list option" where
  "decode_list f m k =
     (case obj_get m k of None \<Rightarrow> Some [] | Some JNull \<Rightarrow> Some [] | Some (JArr xs) \<Rightarrow> those (map f xs) | _ \<Rightarrow> None)"

definition decode_ledger_batch :: "json \<Rightarrow> ledger_batch option" where
  "decode_ledger_batch v =
     (let m = (case v of JObj m \<Rightarrow> m | _ \<Rightarrow> [])
      in if (v \<noteq> JNull \<and> (case v of JObj _ \<Rightarrow> False | _ \<Rightarrow> True))
            \<or> \<not> known_members [''batch_id'', ''generation'', ''observed_at'', ''change_count'', ''trigger_id'', ''trigger_ids'', ''events''] m
         then None
         else
           (case (json_int m ''batch_id'', json_int m ''generation'', member_text m ''observed_at'', json_int m ''change_count'',
                  json_int m ''trigger_id'', decode_list decode_int m ''trigger_ids'', decode_list decode_ledger_event m ''events'') of
              (Some i, Some gen, Some observed, Some changes, Some trigger, Some triggers, Some events) \<Rightarrow>
                Some \<lparr> LbID = i, LbGen = gen, LbObserved = observed, LbChanges = changes, LbTrigger = trigger,
                       LbTriggers = triggers, LbEvents = events \<rparr>
            | _ \<Rightarrow> None))"

definition decodeLedgerPayload :: "string \<Rightarrow> ledger_batch option" where
  "decodeLedgerPayload payload = (case unmarshal payload of None \<Rightarrow> None | Some v \<Rightarrow> decode_ledger_batch v)"

subsection \<open>The text of a struct\<close>

text \<open>A text that stands for a value wherever a value may stand.\<close>

definition reads :: "string \<Rightarrow> json \<Rightarrow> bool" where
  "reads t v \<longleftrightarrow>
     (\<exists>c cs. t = c # cs \<and> \<not> json_space c \<and> c \<noteq> CHR '']'' \<and> c \<noteq> CHR ''}'')
     \<and> (\<forall>n s. value_end s \<longrightarrow> length t \<le> n \<longrightarrow> parse_value n (t @ s) = Some (v, s))"

lemma reads_marshal: "json_ok v \<Longrightarrow> reads (marshal v) v"
  using marshal_hd [of v] parse_marshal(1) [of v] by (auto simp: reads_def)

lemma reads_unmarshal: "reads t v \<Longrightarrow> unmarshal t = Some v"
  unfolding reads_def unmarshal_def
  by (elim conjE allE [of _ "2 * length t + 2"] allE [of _ "[]"]) (simp add: value_end_def skip_space_def)

lemma reads_text: "valid_utf8 s \<Longrightarrow> reads (quote_text s) (JStr s)"
  using reads_marshal [of "JStr s"] by simp

lemma reads_true: "reads ''true'' (JBool True)"
  using reads_marshal [of "JBool True"] by simp

lemma reads_null: "reads ''null'' JNull"
  using reads_marshal [of JNull] by simp

text \<open>A small natural number.\<close>

definition int_float :: "int \<Rightarrow> float64" where
  "int_float n = normal_float False (nat_digits (nat n)) (int (length (nat_digits (nat n))))"

lemma int_float_ok: "float_ok (int_float n)"
  unfolding int_float_def by (rule normal_float_ok [OF nat_digits_less])

lemma nat_digits_hd: "0 < n \<Longrightarrow> hd (nat_digits n) \<noteq> 0"
proof (induction n rule: less_induct)
  case (less n)
  show ?case
  proof (cases "n < 10")
    case True
    then show ?thesis using less.prems by (subst nat_digits.simps) simp
  next
    case False
    then show ?thesis using less.IH [of "n div 10"] nat_digits_nonempty by (subst nat_digits.simps) simp
  qed
qed

lemma nat_digits_length: "n < 10 ^ k \<Longrightarrow> 0 < k \<Longrightarrow> length (nat_digits n) \<le> k"
proof (induction k arbitrary: n)
  case (Suc k)
  show ?case
  proof (cases "n < 10")
    case False
    then have "n div 10 < 10 ^ k" "0 < k" using Suc.prems by (cases k; auto simp: less_mult_imp_div_less)+
    with Suc.IH [of "n div 10"] False show ?thesis by (subst nat_digits.simps) simp
  qed (subst nat_digits.simps, simp)
qed simp

lemma strip_trailing: "ds \<noteq> [] \<Longrightarrow> hd ds \<noteq> (0 :: nat) \<Longrightarrow> \<exists>es k. ds = es @ replicate k 0 \<and> es \<noteq> [] \<and> hd es \<noteq> 0 \<and> last es \<noteq> 0"
proof (induction ds rule: rev_induct)
  case (snoc d ds)
  show ?case
  proof (cases "d = 0 \<and> ds \<noteq> []")
    case True
    with snoc.prems have "hd ds \<noteq> 0" by simp
    from snoc.IH [OF _ this] True obtain es k where "ds = es @ replicate k 0" "es \<noteq> []" "hd es \<noteq> 0" "last es \<noteq> 0" by blast
    then show ?thesis using True by (intro exI [of _ es] exI [of _ "Suc k"]) (simp add: replicate_append_same)
  next
    case False
    with snoc.prems show ?thesis by (intro exI [of _ "ds @ [d]"] exI [of _ 0]) (cases ds; auto)
  qed
qed simp

lemma int_float_text:
  assumes "0 \<le> n" and "n < 10 ^ 19"
  shows "json_number (int_float n) = int_text n"
proof (cases "n = 0")
  case True
  moreover have "json_number (int_float 0) = int_text 0" by code_simp
  ultimately show ?thesis by simp
next
  case False
  let ?ds = "nat_digits (nat n)"
  have "hd ?ds \<noteq> 0" using nat_digits_hd [of "nat n"] False assms(1) by simp
  then obtain es k where es: "?ds = es @ replicate k 0" "es \<noteq> []" "hd es \<noteq> 0" "last es \<noteq> 0"
    using strip_trailing [of ?ds] nat_digits_nonempty by blast
  have "int_float n = F64 False es (int (length ?ds))"
    using normal_float_strip [OF es(2-4), of False 0 k "int (length ?ds)"] by (simp add: int_float_def es(1))
  moreover have "length ?ds \<le> 19" using nat_digits_length [of "nat n" 19] assms by (simp add: nat_less_iff)
  moreover have "nat (int (length es) + int k) = length es + k" by simp
  moreover have "CHR ''0'' = char_of (48 :: nat)" by code_simp
  moreover have "0 < length es" using es(2) by simp
  ultimately show ?thesis using assms(1)
    by (simp add: int_text_def nat_text_def es(1) map_replicate_const digit_char_def del: replicate.simps length_greater_0_conv)
qed

lemma reads_int:
  assumes "0 \<le> n" and "n < 10 ^ 19"
  shows "reads (int_text n) (JNum (int_float n))"
  using reads_marshal [of "JNum (int_float n)"] int_float_ok int_float_text [OF assms] by simp

subsection \<open>Arrays and structs\<close>

lemma parse_items_join:
  assumes "list_all2 reads ts vs" and "ts \<noteq> []" and "length (join '','' ts) < n"
  shows "parse_items n acc (join '','' ts @ '']'' @ s) = Some (JArr (acc @ vs), s)"
  using assms
proof (induction "'',''" ts arbitrary: n acc vs rule: join.induct)
  case (2 x)
  then obtain k v where k: "n = Suc k" and v: "vs = [v]" "reads x v" by (cases n) (auto simp: list_all2_Cons1)
  have "parse_value k (x @ '']'' @ s) = Some (v, '']'' @ s)"
    using v(2) 2(3) k by (auto simp: reads_def value_end_def)
  then show ?case by (simp add: k v(1))
next
  case (3 x y xs)
  then obtain k v ws where k: "n = Suc k" and v: "vs = v # ws" "reads x v" "list_all2 reads (y # xs) ws"
    by (cases n) (auto simp: list_all2_Cons1)
  have "parse_value k (x @ '','' @ join '','' (y # xs) @ '']'' @ s) = Some (v, '','' @ join '','' (y # xs) @ '']'' @ s)"
    using v(2) 3(4) k by (auto simp: reads_def value_end_def)
  moreover have "parse_items k (acc @ [v]) (join '','' (y # xs) @ '']'' @ s) = Some (JArr ((acc @ [v]) @ ws), s)"
    using 3(1) [OF v(3)] 3(4) k by simp
  ultimately show ?case by (simp add: k v(1))
qed simp

lemma reads_array:
  assumes "list_all2 reads ts vs"
  shows "reads (array_text ts) (JArr vs)"
proof -
  have "parse_value n (array_text ts @ s) = Some (JArr vs, s)" if le: "length (array_text ts) \<le> n" for n s
  proof -
    obtain k where n: "n = Suc k" using le by (cases n) (auto simp: array_text_def)
    show ?thesis
    proof (cases ts)
      case Nil
      then show ?thesis using assms by (simp add: n array_text_def skip_space_id json_space_not)
    next
      case (Cons t us)
      then obtain c cs where c: "t = c # cs" "\<not> json_space c" "c \<noteq> CHR '']''" using assms by (auto simp: list_all2_Cons1 reads_def)
      have items: "parse_items k [] (join '','' ts @ '']'' @ s) = Some (JArr vs, s)"
        using parse_items_join [OF assms, of k "[]" s] le Cons n by (simp add: array_text_def)
      have hd: "\<exists>ds. join '','' ts = c # ds" using Cons c(1) by (cases us) auto
      show ?thesis using items hd c by (auto simp: n array_text_def skip_space_id json_space_not simp del: parse_items.simps)
    qed
  qed
  then show ?thesis by (auto simp: reads_def array_text_def json_space_not)
qed

abbreviation "put_all \<equiv> fold (\<lambda>(k, v). obj_put k v)"

definition reads_member :: "string \<times> string \<Rightarrow> string \<times> json \<Rightarrow> bool" where
  "reads_member x y \<longleftrightarrow> fst x = fst y \<and> valid_utf8 (fst x) \<and> reads (snd x) (snd y)"

lemma parse_members_join:
  assumes "list_all2 reads_member ms os" and "ms \<noteq> []"
    and "length (join '','' (map (\<lambda>(k, v). quote_text k @ '':'' @ v) ms)) < n"
  shows "parse_members n m0 (join '','' (map (\<lambda>(k, v). quote_text k @ '':'' @ v) ms) @ ''}'' @ s) = Some (JObj (put_all os m0), s)"
  using assms
proof (induction ms arbitrary: n m0 os)
  case (Cons e ms)
  obtain q t where e: "e = (q, t)" by (cases e)
  from Cons.prems(1) obtain w ps where w: "os = w # ps" "reads_member e w" "list_all2 reads_member ms ps"
    by (auto simp: list_all2_Cons1)
  then obtain v where v: "os = (q, v) # ps" "valid_utf8 q" "reads t v" "list_all2 reads_member ms ps"
    by (cases w) (auto simp: reads_member_def e)
  obtain k where k: "n = Suc k" using Cons.prems(3) by (cases n) auto
  have ps: "parse_string [] (escape_text q @ CHR 0x22 # r) = Some (q, r)" for r
    using parse_string_escape [of q "[]"] v(2) by simp
  show ?case
  proof (cases ms)
    case Nil
    have "parse_value k (t @ ''}'' @ s) = Some (v, ''}'' @ s)"
      using v(3) Cons.prems(3) k Nil by (auto simp: reads_def value_end_def e)
    then show ?thesis using v by (simp add: k e Nil quote_text_def ps del: parse_string.simps)
  next
    case (Cons f fs)
    let ?rest = "join '','' (map (\<lambda>(k, v). quote_text k @ '':'' @ v) ms)"
    have j: "join '','' (map (\<lambda>(k, v). quote_text k @ '':'' @ v) (e # ms)) = quote_text q @ '':'' @ t @ '','' @ ?rest"
      by (simp add: Cons e)
    have "parse_value k (t @ '','' @ ?rest @ ''}'' @ s) = Some (v, '','' @ ?rest @ ''}'' @ s)"
      using v(3) Cons.prems(3) k unfolding j by (auto simp: reads_def value_end_def)
    moreover have "parse_members k (obj_put q v m0) (?rest @ ''}'' @ s) = Some (JObj (put_all ps (obj_put q v m0)), s)"
      using Cons.IH [OF v(4)] Cons Cons.prems(3) k unfolding j by simp
    ultimately show ?thesis unfolding j using v(1) by (simp add: k quote_text_def ps del: parse_string.simps)
  qed
qed simp

lemma reads_struct:
  assumes "list_all2 reads_member ms os"
  shows "reads (struct_text ms) (JObj (put_all os []))"
proof -
  have "parse_value n (struct_text ms @ s) = Some (JObj (put_all os []), s)" if le: "length (struct_text ms) \<le> n" for n s
  proof -
    obtain k where n: "n = Suc k" using le by (cases n) (auto simp: struct_text_def)
    show ?thesis
    proof (cases ms)
      case Nil
      then show ?thesis using assms by (simp add: n struct_text_def skip_space_id json_space_not)
    next
      case (Cons e fs)
      have members: "parse_members k [] (join '','' (map (\<lambda>(k, v). quote_text k @ '':'' @ v) ms) @ ''}'' @ s) = Some (JObj (put_all os []), s)"
        using parse_members_join [OF assms, of k "[]" s] le Cons n by (simp add: struct_text_def)
      have hd: "\<exists>ds. join '','' (map (\<lambda>(k, v). quote_text k @ '':'' @ v) ms) = CHR 0x22 # ds"
        using Cons by (cases e; cases fs) (auto simp: quote_text_def)
      show ?thesis using members hd by (auto simp: n struct_text_def skip_space_id json_space_not simp del: parse_members.simps)
    qed
  qed
  then show ?thesis by (auto simp: reads_def struct_text_def json_space_not)
qed

lemma put_all_get: "obj_get (put_all os m) = obj_get m ++ map_of (rev os)"
  by (induction os arbitrary: m) (auto simp: obj_get_put fun_eq_iff map_add_def split: option.splits)

lemma put_all_keys: "set (obj_keys (put_all os m)) = fst ` set os \<union> set (obj_keys m)"
  by (induction os arbitrary: m) (auto simp: obj_put_keys)

subsection \<open>The round trip\<close>

definition int64_ok :: "int \<Rightarrow> bool" where
  "int64_ok n \<longleftrightarrow> 0 \<le> n \<and> n < 2 ^ 63"

definition attribution_ok :: "attribution \<Rightarrow> bool" where
  "attribution_ok a \<longleftrightarrow> list_all valid_utf8 [ActorLogin a, ActorName a, ActorType a, Origin a, Action a, Target a, OccurredAt a]"

definition ledger_event_ok :: "ledger_event \<Rightarrow> bool" where
  "ledger_event_ok e \<longleftrightarrow> int64_ok (LeID e) \<and> int64_ok (LeGen e)
     \<and> list_all valid_utf8 [LeObserved e, LeCollector e, LeType e, LeResource e, LeName e, LeChanges e, LeBefore e, LeAfter e]
     \<and> (case LeAttribution e of None \<Rightarrow> True | Some a \<Rightarrow> attribution_ok a)"

definition ledger_batch_ok :: "ledger_batch \<Rightarrow> bool" where
  "ledger_batch_ok b \<longleftrightarrow> int64_ok (LbID b) \<and> int64_ok (LbGen b) \<and> valid_utf8 (LbObserved b) \<and> int64_ok (LbChanges b)
     \<and> int64_ok (LbTrigger b) \<and> list_all int64_ok (LbTriggers b) \<and> list_all ledger_event_ok (LbEvents b)"

lemma reads_int64: "int64_ok n \<Longrightarrow> reads (int_text n) (JNum (int_float n))"
  by (rule reads_int) (auto simp: int64_ok_def)

lemma parse_int64_zero: "parse_int64 (int_text 0) = Some 0"
  by code_simp

lemma parse_int64_float: "int64_ok n \<Longrightarrow> parse_int64 (json_number (int_float n)) = Some n"
  using parse_int64_text [of n] parse_int64_zero by (cases "n = 0") (auto simp: int64_ok_def int_float_text)

text \<open>The value each member of a struct stands for.\<close>

definition text_value :: "string \<Rightarrow> string \<Rightarrow> (string \<times> json) list" where
  "text_value k v = (if v = '''' then [] else [(k, JStr v)])"

lemma omit_empty_reads: "valid_utf8 k \<Longrightarrow> valid_utf8 v \<Longrightarrow> list_all2 reads_member (omit_empty k v) (text_value k v)"
  by (simp add: omit_empty_def text_value_def reads_member_def reads_text)

lemma plain_key: "\<forall>c \<in> set k. byte_of c < 128 \<Longrightarrow> valid_utf8 k"
  by (rule valid_utf8_ascii) simp

definition ledger_event_value :: "ledger_event \<Rightarrow> (string \<times> json) list" where
  "ledger_event_value e =
     [(''id'', JNum (int_float (LeID e))), (''generation'', JNum (int_float (LeGen e))), (''observed_at'', JStr (LeObserved e)),
      (''collector'', JStr (LeCollector e)), (''event_type'', JStr (LeType e)),
      (''resource_id'', JStr (LeResource e)), (''name'', JStr (LeName e))] @
     text_value ''changes'' (LeChanges e) @ text_value ''before'' (LeBefore e) @ text_value ''after'' (LeAfter e) @
     (if LeMuted e then [(''muted'', JBool True)] else []) @
     (case LeAttribution e of None \<Rightarrow> [] | Some a \<Rightarrow> [(''attribution'', JObj (put_all (attribution_members a) []))])"

lemma marshal_members_join: "marshal_members m = join '','' (map (\<lambda>(k, v). quote_text k @ '':'' @ v) (map (\<lambda>(k, v). (k, marshal v)) m))"
  by (induction m rule: induct_list012) auto

lemma marshal_struct: "marshal (JObj m) = struct_text (map (\<lambda>(k, v). (k, marshal v)) m)"
  by (simp add: struct_text_def marshal_members_join)

lemma reads_attribution:
  assumes "attribution_ok a"
  shows "reads (marshal (JObj (attribution_members a))) (JObj (put_all (attribution_members a) []))"
  unfolding marshal_struct
  by (rule reads_struct) (use assms in \<open>auto simp: attribution_members_def attribution_ok_def reads_member_def reads_text plain_key\<close>)

lemma event_reads:
  assumes "ledger_event_ok e"
  shows "reads (evidenceLedgerEvent e) (JObj (put_all (ledger_event_value e) []))"
  unfolding evidenceLedgerEvent_def ledger_event_value_def
  by (rule reads_struct, intro list_all2_appendI)
    (use assms in \<open>auto simp: ledger_event_ok_def reads_member_def reads_text reads_int64 reads_true reads_attribution plain_key
      simp del: marshal.simps intro!: omit_empty_reads split: option.splits\<close>)

lemma put_text:
  "obj_get (put_all (text_value k v) m) q = (if k = q \<and> v \<noteq> '''' then Some (JStr v) else obj_get m q)"
  by (simp add: text_value_def obj_get_put)

lemma put_if: "obj_get (put_all (if c then xs else ys) m) q = (if c then obj_get (put_all xs m) q else obj_get (put_all ys m) q)"
  by simp

lemma put_one: "obj_get (obj_put k v m) q = (if q = k then Some v else obj_get m q)"
  by (simp add: obj_get_put)

lemma get_empty: "obj_get [] q = None"
  by (simp add: obj_get_def)

lemmas read_members = put_text put_if put_one get_empty fold_append comp_apply fold_simps prod.case

lemma attribution_members_texts:
  "attribution_members a = text_value ''actor_login'' (ActorLogin a) @ text_value ''actor_name'' (ActorName a)
     @ text_value ''actor_type'' (ActorType a) @ text_value ''origin'' (Origin a)
     @ [(''action'', JStr (Action a)), (''target'', JStr (Target a)), (''occurred_at'', JStr (OccurredAt a))]"
  by (simp add: attribution_members_def text_value_def)

lemma attribution_texts:
  "member_text (put_all (attribution_members a) []) ''actor_login'' = Some (ActorLogin a)"
  "member_text (put_all (attribution_members a) []) ''actor_name'' = Some (ActorName a)"
  "member_text (put_all (attribution_members a) []) ''actor_type'' = Some (ActorType a)"
  "member_text (put_all (attribution_members a) []) ''origin'' = Some (Origin a)"
  "member_text (put_all (attribution_members a) []) ''action'' = Some (Action a)"
  "member_text (put_all (attribution_members a) []) ''target'' = Some (Target a)"
  "member_text (put_all (attribution_members a) []) ''occurred_at'' = Some (OccurredAt a)"
  unfolding member_text_def attribution_members_texts by (simp_all add: read_members del: obj_put.simps)

lemma attribution_read:
  "decode_attribution (put_all (attribution_members a) []) = Some a"
  by (simp add: decode_attribution_def attribution_texts)

lemma attribution_known:
  "known_members [''actor_login'', ''actor_name'', ''actor_type'', ''origin'', ''action'', ''target'', ''occurred_at'']
     (put_all (attribution_members a) [])"
  by (auto simp: known_members_def list_all_iff put_all_keys attribution_members_def)

lemma event_known: "known_members ([''id'', ''generation'', ''muted'', ''attribution''] @ event_texts) (put_all (ledger_event_value e) [])"
  by (auto simp: known_members_def list_all_iff put_all_keys ledger_event_value_def event_texts_def text_value_def split: option.splits if_splits)

lemma event_text_get:
  "member_text (put_all (ledger_event_value e) []) ''observed_at'' = Some (LeObserved e)"
  "member_text (put_all (ledger_event_value e) []) ''collector'' = Some (LeCollector e)"
  "member_text (put_all (ledger_event_value e) []) ''event_type'' = Some (LeType e)"
  "member_text (put_all (ledger_event_value e) []) ''resource_id'' = Some (LeResource e)"
  "member_text (put_all (ledger_event_value e) []) ''name'' = Some (LeName e)"
  "member_text (put_all (ledger_event_value e) []) ''changes'' = Some (LeChanges e)"
  "member_text (put_all (ledger_event_value e) []) ''before'' = Some (LeBefore e)"
  "member_text (put_all (ledger_event_value e) []) ''after'' = Some (LeAfter e)"
  unfolding member_text_def ledger_event_value_def by (simp_all add: read_members del: obj_put.simps split: option.split)

lemma event_other_get:
  assumes "ledger_event_ok e"
  shows "json_int (put_all (ledger_event_value e) []) ''id'' = Some (LeID e)"
    and "json_int (put_all (ledger_event_value e) []) ''generation'' = Some (LeGen e)"
    and "json_flag (put_all (ledger_event_value e) []) ''muted'' = Some (LeMuted e)"
    and "decode_attribution_pointer (put_all (ledger_event_value e) []) = Some (LeAttribution e)"
  using assms
  unfolding json_int_def json_flag_def decode_attribution_pointer_def ledger_event_value_def
  by (simp_all add: read_members ledger_event_ok_def parse_int64_float attribution_known attribution_read
      del: obj_put.simps split: option.split)

lemma event_read:
  assumes "ledger_event_ok e"
  shows "decode_ledger_event (JObj (put_all (ledger_event_value e) [])) = Some e"
  using event_known [of e] event_other_get [OF assms]
  by (simp add: decode_ledger_event_def Let_def event_text_get event_texts_def)

definition batch_value :: "ledger_batch \<Rightarrow> (string \<times> json) list" where
  "batch_value b =
     [(''batch_id'', JNum (int_float (LbID b))), (''generation'', JNum (int_float (LbGen b))),
      (''observed_at'', JStr (LbObserved b)), (''change_count'', JNum (int_float (LbChanges b)))] @
     (if LbTrigger b = 0 then [] else [(''trigger_id'', JNum (int_float (LbTrigger b)))]) @
     (if LbTriggers b = [] then [] else [(''trigger_ids'', JArr (map (\<lambda>t. JNum (int_float t)) (LbTriggers b)))]) @
     [(''events'', if LbEvents b = [] then JNull else JArr (map (\<lambda>e. JObj (put_all (ledger_event_value e) [])) (LbEvents b)))]"

lemma batch_reads:
  assumes "ledger_batch_ok b"
  shows "reads (evidenceLedgerBatch b) (JObj (put_all (batch_value b) []))"
proof -
  have "reads (array_text (map int_text (LbTriggers b))) (JArr (map (\<lambda>t. JNum (int_float t)) (LbTriggers b)))"
    by (rule reads_array) (use assms in \<open>auto simp: list_all2_map1 list_all2_map2 list_all2_same ledger_batch_ok_def list_all_iff reads_int64\<close>)
  moreover have "reads (array_text (map evidenceLedgerEvent (LbEvents b))) (JArr (map (\<lambda>e. JObj (put_all (ledger_event_value e) [])) (LbEvents b)))"
    by (rule reads_array) (use assms in \<open>auto simp: list_all2_map1 list_all2_map2 list_all2_same ledger_batch_ok_def list_all_iff event_reads\<close>)
  ultimately show ?thesis
    unfolding evidenceLedgerBatch_def batch_value_def
    by (intro reads_struct list_all2_appendI)
      (use assms in \<open>auto simp: ledger_batch_ok_def reads_member_def reads_text reads_int64 reads_null plain_key\<close>)
qed

lemma those_mapped: "(\<And>x. x \<in> set xs \<Longrightarrow> f (g x) = Some (h x)) \<Longrightarrow> those (map f (map g xs)) = Some (map h xs)"
  by (induction xs) auto

lemma batch_read:
  assumes "ledger_batch_ok b"
  shows "decode_ledger_batch (JObj (put_all (batch_value b) [])) = Some b"
proof -
  have known: "known_members [''batch_id'', ''generation'', ''observed_at'', ''change_count'', ''trigger_id'', ''trigger_ids'', ''events'']
      (put_all (batch_value b) [])"
    by (auto simp: known_members_def list_all_iff put_all_keys batch_value_def split: if_splits)
  have "those (map decode_int (map (\<lambda>t. JNum (int_float t)) (LbTriggers b))) = Some (map id (LbTriggers b))"
    by (rule those_mapped) (use assms in \<open>auto simp: ledger_batch_ok_def list_all_iff decode_int_def parse_int64_float\<close>)
  then have triggers: "decode_list decode_int (put_all (batch_value b) []) ''trigger_ids'' = Some (LbTriggers b)"
    unfolding decode_list_def batch_value_def by (simp add: read_members del: obj_put.simps)
  have "those (map decode_ledger_event (map (\<lambda>e. JObj (put_all (ledger_event_value e) [])) (LbEvents b))) = Some (map id (LbEvents b))"
    by (rule those_mapped) (use assms in \<open>auto simp: ledger_batch_ok_def list_all_iff event_read\<close>)
  then have events: "decode_list decode_ledger_event (put_all (batch_value b) []) ''events'' = Some (LbEvents b)"
    unfolding decode_list_def batch_value_def by (simp add: read_members del: obj_put.simps)
  have "json_int (put_all (batch_value b) []) ''batch_id'' = Some (LbID b)"
    "json_int (put_all (batch_value b) []) ''generation'' = Some (LbGen b)"
    "member_text (put_all (batch_value b) []) ''observed_at'' = Some (LbObserved b)"
    "json_int (put_all (batch_value b) []) ''change_count'' = Some (LbChanges b)"
    "json_int (put_all (batch_value b) []) ''trigger_id'' = Some (LbTrigger b)"
    using assms unfolding json_int_def member_text_def batch_value_def
    by (simp_all add: read_members ledger_batch_ok_def parse_int64_float del: obj_put.simps)
  with known triggers events show ?thesis by (simp add: decode_ledger_batch_def Let_def)
qed

lemma payload_decoded: "ledger_batch_ok b \<Longrightarrow> decodeLedgerPayload (evidenceLedgerBatch b) = Some b"
  using reads_unmarshal [OF batch_reads] batch_read by (simp add: decodeLedgerPayload_def)

end
