(* ===== verification/Store_Evidence.thy ===== *)
theory Store_Evidence
  imports Store_Payload Evidence_Keys Store_Attribution
begin

text \<open>
  \<open>internal/store/evidence.go\<close> and \<open>evidence_verify.go\<close>: the evidence packs and their offline verification.

  A \<open>json.RawMessage\<close> is its text, empty if absent; an absent list and an empty one are not told apart, nor
  are a nil and an empty slice. A time is its instant and its offset from UTC in seconds. The decoder of a
  pack's text into its fields (\<open>encoding/json\<close> with unknown fields refused) and Ed25519 are arguments. Where
  the code ranges over a Go map, the model takes the order of the pack; this decides only which of several
  errors is reported.
\<close>

subsection \<open>The pack\<close>

type_synonym stamp = "instant \<times> int"

record evidence_filter =
  EfCollector :: string
  EfEventType :: string
  EfResource :: string
  EfFrom :: string
  EfUntil :: string
  EfCursor :: int
  EfLimit :: int
  EfBatch :: int
  EfSeverity :: string

record evidence_field =
  XfField :: string
  XfOld :: string
  XfNew :: string
  XfOldPresent :: bool
  XfNewPresent :: bool

record evidence_event =
  XeID :: int
  XeBatch :: int
  XeGen :: int
  XeObserved :: stamp
  XeCollector :: string
  XeType :: string
  XeResource :: string
  XeName :: string
  XeFields :: "evidence_field list"
  XeFieldsTruncated :: bool
  XeTotal :: int
  XeBefore :: string
  XeAfter :: string
  XeBeforeHash :: string
  XeAfterHash :: string
  XeBeforeBytes :: int
  XeAfterBytes :: int
  XeBeforeTruncated :: bool
  XeAfterTruncated :: bool
  XeSeverity :: string
  XeMuted :: bool
  XeAttribution :: "attribution option"

record evidence_delivery =
  XdID :: int
  XdDest :: int
  XdName :: string
  XdStatus :: string
  XdAttempts :: int
  XdError :: string
  XdNext :: "stamp option"
  XdDone :: "stamp option"

record evidence_batch =
  XbID :: int
  XbGen :: int
  XbObserved :: stamp
  XbChanges :: int
  XbLedgerChanges :: int
  XbTrigger :: int
  XbTriggers :: "int list"
  XbSequence :: int
  XbPrevHash :: string
  XbHash :: string
  XbSignature :: string
  XbKeyID :: string
  XbPayload :: string
  XbAttribution :: string
  XbEvents :: "evidence_event list"
  XbDeliveries :: "evidence_delivery list"

record evidence_link =
  XlSequence :: int
  XlBatch :: int
  XlPrevHash :: string
  XlHash :: string
  XlSignature :: string
  XlKeyID :: string

record evidence_pack =
  XpFormat :: string
  XpVersion :: int
  XpGenerated :: string
  XpFilter :: evidence_filter
  XpBatches :: "evidence_batch list"
  XpLinks :: "evidence_link list"
  XpTruncated :: bool
  XpNext :: int
  XpContentHash :: string
  XpKeyID :: string
  XpPublicKey :: string
  XpHead :: string
  XpSignature :: string

definition evidencePackFormat :: string where "evidencePackFormat = ''tailstate-drift-evidence''"
definition evidencePackVersion :: int where "evidencePackVersion = 5"
definition evidencePackVersionV4 :: int where "evidencePackVersionV4 = 4"
definition evidencePackVersionV3 :: int where "evidencePackVersionV3 = 3"
definition maxEvidenceBatches :: int where "maxEvidenceBatches = 100"
definition maxEvidenceEvents :: nat where "maxEvidenceEvents = 2000"
definition maxEvidenceBytes :: nat where "maxEvidenceBytes = 5 * 1024 * 1024"
definition maxEvidenceLedgerLinks :: nat where "maxEvidenceLedgerLinks = 10000"

subsection \<open>The text that is hashed\<close>

text \<open>\<open>json.Marshal\<close> of a time: the year must have four digits.\<close>

definition stamp_text :: "stamp \<Rightarrow> string option" where
  "stamp_text stamp =
     (let (t, offset) = stamp; local = t + offset * second; whole = rfc3339_nano local; (y, _, _) = civil_date (local div day)
      in if y < 0 \<or> 9999 < y \<or> 86400 \<le> \<bar>offset\<bar> then None
         else Some (quote_text (take (length whole - 1) whole @
           (if offset = 0 then ''Z''
            else (if offset < 0 then ''-'' else ''+'') @ padded 2 (\<bar>offset\<bar> div 3600) @ '':'' @ padded 2 (\<bar>offset\<bar> div 60 mod 60)))))"

text \<open>A raw message inside a text that is marshalled: without its blanks, the characters of HTML escaped.\<close>

fun squeeze :: "bool \<Rightarrow> bool \<Rightarrow> string \<Rightarrow> string" where
  "squeeze within escaped [] = []"
| "squeeze within escaped (c # cs) =
     (let rest = (if within then squeeze (escaped \<or> c \<noteq> CHR 0x22) (\<not> escaped \<and> c = CHR 0x5C) cs
                  else squeeze (c = CHR 0x22) False cs)
      in if \<not> within \<and> json_space c then rest
         else if c = CHR ''<'' \<or> c = CHR ''>'' \<or> c = CHR ''&'' then unicode_escape (byte_of c) @ rest
         else if c = CHR 0xE2 \<and> take 2 cs = [CHR 0x80, CHR 0xA8] then unicode_escape 8232 @ drop 2 rest
         else if c = CHR 0xE2 \<and> take 2 cs = [CHR 0x80, CHR 0xA9] then unicode_escape 8233 @ drop 2 rest
         else c # rest)"

definition compact_raw :: "string \<Rightarrow> string option" where
  "compact_raw raw = (if unmarshal raw = None then None else Some (squeeze False False raw))"

text \<open>Members of a struct: \<open>None\<close> is an encoding error.\<close>

definition struct_members :: "(string \<times> string) list option list \<Rightarrow> string option" where
  "struct_members ms = map_option (\<lambda>xs. struct_text (concat xs)) (those ms)"

definition member :: "string \<Rightarrow> string \<Rightarrow> (string \<times> string) list option" where
  "member k t = Some [(k, t)]"

definition member_opt :: "string \<Rightarrow> string option \<Rightarrow> (string \<times> string) list option" where
  "member_opt k t = map_option (\<lambda>s. [(k, s)]) t"

definition omit_text :: "string \<Rightarrow> string \<Rightarrow> (string \<times> string) list option" where
  "omit_text k v = Some (omit_empty k v)"

definition omit_int :: "string \<Rightarrow> int \<Rightarrow> (string \<times> string) list option" where
  "omit_int k n = Some (if n = 0 then [] else [(k, int_text n)])"

definition omit_flag :: "string \<Rightarrow> bool \<Rightarrow> (string \<times> string) list option" where
  "omit_flag k b = Some (if b then [(k, ''true'')] else [])"

definition omit_raw :: "string \<Rightarrow> string \<Rightarrow> (string \<times> string) list option" where
  "omit_raw k raw = (if raw = '''' then Some [] else member_opt k (compact_raw raw))"

definition omit_list :: "string \<Rightarrow> string option list \<Rightarrow> (string \<times> string) list option" where
  "omit_list k items = (if items = [] then Some [] else member_opt k (map_option array_text (those items)))"

definition omit_stamp :: "string \<Rightarrow> stamp option \<Rightarrow> (string \<times> string) list option" where
  "omit_stamp k t = (case t of None \<Rightarrow> Some [] | Some u \<Rightarrow> member_opt k (stamp_text u))"

definition filter_text :: "evidence_filter \<Rightarrow> string option" where
  "filter_text f = struct_members
     [omit_text ''collector'' (EfCollector f), omit_text ''event_type'' (EfEventType f), omit_text ''resource'' (EfResource f),
      omit_text ''from'' (EfFrom f), omit_text ''until'' (EfUntil f), omit_int ''cursor'' (EfCursor f),
      member ''limit'' (int_text (EfLimit f)), omit_int ''batch'' (EfBatch f), omit_text ''severity'' (EfSeverity f)]"

definition evidence_field_text :: "evidence_field \<Rightarrow> string option" where
  "evidence_field_text f = struct_members
     [member ''field'' (quote_text (XfField f)), omit_raw ''old'' (XfOld f), omit_raw ''new'' (XfNew f),
      omit_flag ''old_present'' (XfOldPresent f), omit_flag ''new_present'' (XfNewPresent f)]"

definition event_text :: "evidence_event \<Rightarrow> string option" where
  "event_text e = struct_members
     [member ''id'' (int_text (XeID e)), member ''batch_id'' (int_text (XeBatch e)), member ''generation'' (int_text (XeGen e)),
      member_opt ''observed_at'' (stamp_text (XeObserved e)), member ''collector'' (quote_text (XeCollector e)),
      member ''event_type'' (quote_text (XeType e)), member ''resource_id'' (quote_text (XeResource e)),
      member ''name'' (quote_text (XeName e)), omit_list ''fields'' (map evidence_field_text (XeFields e)),
      omit_flag ''fields_truncated'' (XeFieldsTruncated e), omit_int ''total_fields'' (XeTotal e),
      omit_raw ''before'' (XeBefore e), omit_raw ''after'' (XeAfter e),
      omit_text ''before_sha256'' (XeBeforeHash e), omit_text ''after_sha256'' (XeAfterHash e),
      omit_int ''before_bytes'' (XeBeforeBytes e), omit_int ''after_bytes'' (XeAfterBytes e),
      omit_flag ''before_truncated'' (XeBeforeTruncated e), omit_flag ''after_truncated'' (XeAfterTruncated e),
      omit_text ''severity'' (XeSeverity e), omit_flag ''muted'' (XeMuted e),
      (case XeAttribution e of None \<Rightarrow> Some [] | Some a \<Rightarrow> member ''attribution'' (marshal (JObj (attribution_members a))))]"

definition delivery_text :: "evidence_delivery \<Rightarrow> string option" where
  "delivery_text d = struct_members
     [member ''id'' (int_text (XdID d)), member ''destination_id'' (int_text (XdDest d)),
      member ''destination'' (quote_text (XdName d)), member ''status'' (quote_text (XdStatus d)),
      member ''attempts'' (int_text (XdAttempts d)), omit_text ''last_error'' (XdError d),
      omit_stamp ''next_attempt'' (XdNext d), omit_stamp ''delivered_at'' (XdDone d)]"

definition batch_text :: "evidence_batch \<Rightarrow> string option" where
  "batch_text b = struct_members
     [member ''id'' (int_text (XbID b)), member ''generation'' (int_text (XbGen b)),
      member_opt ''observed_at'' (stamp_text (XbObserved b)), member ''change_count'' (int_text (XbChanges b)),
      omit_int ''ledger_change_count'' (XbLedgerChanges b), omit_int ''trigger_id'' (XbTrigger b),
      omit_list ''trigger_ids'' (map (\<lambda>t. Some (int_text t)) (XbTriggers b)), omit_int ''ledger_sequence'' (XbSequence b),
      omit_text ''ledger_prev_hash'' (XbPrevHash b), omit_text ''ledger_hash'' (XbHash b),
      omit_text ''ledger_signature'' (XbSignature b), omit_text ''ledger_key_id'' (XbKeyID b),
      omit_text ''ledger_payload'' (XbPayload b), omit_text ''attribution_status'' (XbAttribution b),
      member_opt ''events'' (map_option array_text (those (map event_text (XbEvents b)))),
      member_opt ''deliveries'' (map_option array_text (those (map delivery_text (XbDeliveries b))))]"

definition link_text :: "evidence_link \<Rightarrow> string option" where
  "link_text l = struct_members
     [member ''sequence'' (int_text (XlSequence l)), member ''batch_id'' (int_text (XlBatch l)),
      member ''prev_hash'' (quote_text (XlPrevHash l)), member ''entry_hash'' (quote_text (XlHash l)),
      member ''signature'' (quote_text (XlSignature l)), member ''key_id'' (quote_text (XlKeyID l))]"

definition evidencePayload :: "evidence_pack \<Rightarrow> string option" where
  "evidencePayload p = struct_members
     [member ''format'' (quote_text (XpFormat p)), member ''version'' (int_text (XpVersion p)),
      member_opt ''filter'' (filter_text (XpFilter p)),
      member_opt ''batches'' (map_option array_text (those (map batch_text (XpBatches p)))),
      omit_list ''ledger_links'' (map link_text (XpLinks p)), member ''truncated'' (if XpTruncated p then ''true'' else ''false''),
      omit_int ''next_cursor'' (XpNext p), omit_text ''ledger_head'' (XpHead p)]"

definition evidenceSignaturePayload :: "evidence_pack \<Rightarrow> string" where
  "evidenceSignaturePayload p =
     ''tailstate-evidence-pack-v'' @ int_text (XpVersion p) @ newline @ XpContentHash p @ newline @ XpHead p @ newline @
     XpGenerated p @ newline @ XpKeyID p"

subsection \<open>Comparisons\<close>

definition canonicalEvidenceJSON :: "string \<Rightarrow> string" where
  "canonicalEvidenceJSON raw = (if raw = '''' then '''' else case unmarshal raw of None \<Rightarrow> raw | Some v \<Rightarrow> marshal v)"

definition equalEvidenceJSON :: "string \<Rightarrow> string \<Rightarrow> bool" where
  "equalEvidenceJSON a b \<longleftrightarrow> canonicalEvidenceJSON a = canonicalEvidenceJSON b"

definition equal_field :: "evidence_field \<Rightarrow> evidence_field \<Rightarrow> bool" where
  "equal_field f g \<longleftrightarrow>
     XfField f = XfField g \<and> XfOldPresent f = XfOldPresent g \<and> XfNewPresent f = XfNewPresent g
     \<and> equalEvidenceJSON (XfOld f) (XfOld g) \<and> equalEvidenceJSON (XfNew f) (XfNew g)"

definition equalEvidenceFields :: "evidence_field list \<Rightarrow> evidence_field list \<Rightarrow> bool" where
  "equalEvidenceFields fs gs \<longleftrightarrow> length fs = length gs \<and> list_all (\<lambda>(f, g). equal_field f g) (zip fs gs)"

text \<open>A shown value as a raw message: a text that is no JSON becomes a JSON string.\<close>

definition evidenceJSON :: "string \<Rightarrow> string" where
  "evidenceJSON v =
     (if trim_space v = '''' then '''' else if unmarshal v \<noteq> None then v else quote_text v)"

definition evidence_field_of :: "history_field \<Rightarrow> evidence_field" where
  "evidence_field_of f =
     \<lparr> XfField = HfField f, XfOld = evidenceJSON (HfOld f), XfNew = evidenceJSON (HfNew f),
       XfOldPresent = HfHasOld f, XfNewPresent = HfHasNew f \<rparr>"

definition evidenceFieldsFromLedger :: "string \<Rightarrow> (evidence_field list \<times> bool \<times> int) option" where
  "evidenceFieldsFromLedger raw =
     (case stored_fields raw of
        None \<Rightarrow> None
      | Some (changed, clipped, how_many) \<Rightarrow> Some (map evidence_field_of (formatHistoryFields changed), clipped, how_many))"

subsection \<open>A shown event against the signed one\<close>

datatype binding_error =
    EventMetadata | EventTimestampMismatch | FieldsUndecodable | MutedMismatch | AttributionMismatch | FieldsMismatch | SnapshotMismatch
  | MetadataForEmpty | TruncationMismatch | SnapshotMetadataMismatch

definition verifyEvidenceSnapshotMetadata :: "string \<Rightarrow> int \<Rightarrow> bool \<Rightarrow> string \<Rightarrow> binding_error option" where
  "verifyEvidenceSnapshotMetadata hash bytes clipped raw =
     (if hash = '''' \<and> bytes = 0 \<and> \<not> clipped then None
      else if raw = '''' then Some MetadataForEmpty
      else
        (case parseTruncationMarker raw of
           Some (h, n) \<Rightarrow> if \<not> clipped \<or> hash \<noteq> h \<or> bytes \<noteq> n then Some TruncationMismatch else None
         | None \<Rightarrow> if clipped \<or> hash \<noteq> valueHash raw \<or> bytes \<noteq> int (length raw) then Some SnapshotMetadataMismatch else None))"

definition same_instant :: "string \<Rightarrow> stamp \<Rightarrow> bool" where
  "same_instant text stamp = (case parse_rfc3339 text of None \<Rightarrow> False | Some (t, _) \<Rightarrow> t = fst stamp)"

definition verifyLedgerEventBinding :: "evidence_event \<Rightarrow> ledger_event \<Rightarrow> int \<Rightarrow> binding_error option" where
  "verifyLedgerEventBinding e le batchID =
     (if XeBatch e \<noteq> batchID \<or> XeGen e \<noteq> LeGen le \<or> XeCollector e \<noteq> LeCollector le \<or> XeType e \<noteq> LeType le
           \<or> XeResource e \<noteq> LeResource le \<or> XeName e \<noteq> LeName le then Some EventMetadata
      else if \<not> same_instant (LeObserved le) (XeObserved e) then Some EventTimestampMismatch
      else
        (case evidenceFieldsFromLedger (LeChanges le) of
           None \<Rightarrow> Some FieldsUndecodable
         | Some (changed, clipped, how_many) \<Rightarrow>
             if XeMuted e \<noteq> LeMuted le then Some MutedMismatch
             else if XeAttribution e \<noteq> LeAttribution le then Some AttributionMismatch
             else if clipped \<noteq> XeFieldsTruncated e \<or> how_many \<noteq> XeTotal e \<or> \<not> equalEvidenceFields changed (XeFields e)
             then Some FieldsMismatch
             else if \<not> equalEvidenceJSON (evidenceJSON (prettyJSON (LeBefore le))) (XeBefore e)
                  \<or> \<not> equalEvidenceJSON (evidenceJSON (prettyJSON (LeAfter le))) (XeAfter e) then Some SnapshotMismatch
             else
               (case verifyEvidenceSnapshotMetadata (XeBeforeHash e) (XeBeforeBytes e) (XeBeforeTruncated e) (LeBefore le) of
                  Some x \<Rightarrow> Some x
                | None \<Rightarrow> verifyEvidenceSnapshotMetadata (XeAfterHash e) (XeAfterBytes e) (XeAfterTruncated e) (LeAfter le))))"

datatype evidence_error =
    PackTooLarge | PackUndecodable | UnsupportedPack | VersionCannotCarry int | InvalidStatus int | AttributedWithoutLookup int
  | CursorMissing | TruncatedEmpty | CursorMismatch | CursorUnexpected | ContentUnencodable | ContentMismatch
  | SignatureIncomplete | PublicKeyUndecodable | FingerprintMismatch | KeyNotTrusted | SignatureUndecodable | SignatureFailed
  | SequenceInvalid int | LedgerMixed | LedgerKeyMismatch int | LedgerHashInvalid int | SequenceTwice int | PrevHashInvalid int
  | ChainMismatch int int | LinksWithoutBatches | LinksMissing | CheckpointMissing int | LinksBeyond int | LinkInvalid int
  | LinkTwice int | LinkKeyMismatch int | LinkPrevInvalid int | GenesisHasPrevious | LinkUnsigned int | LinkSignatureFailed int
  | SequenceGap int int | LinkMismatch int | PayloadMissing int | PayloadUndecodable int | PayloadMetadata int | LedgerHashMismatch int
  | PayloadCount int | PayloadTimestamp int | PayloadTriggers int | PayloadEventTwice int | EventTwice int | EventMissing int
  | EventMismatch int binding_error

definition ledger_changes :: "evidence_batch \<Rightarrow> int" where
  "ledger_changes b = (if XbLedgerChanges b = 0 then XbChanges b else XbLedgerChanges b)"

text \<open>The shown events in turn; \<open>seen\<close> are the ids before.\<close>

fun bind_events :: "ledger_event list \<Rightarrow> int \<Rightarrow> int list \<Rightarrow> evidence_event list \<Rightarrow> evidence_error option" where
  "bind_events les batchID seen [] = None"
| "bind_events les batchID seen (e # es) =
     (if XeID e \<in> set seen then Some (EventTwice (XeID e))
      else
        (case List.find (\<lambda>le. LeID le = XeID e) les of
           None \<Rightarrow> Some (EventMissing (XeID e))
         | Some le \<Rightarrow>
             (case verifyLedgerEventBinding e le batchID of
                Some x \<Rightarrow> Some (EventMismatch (XeID e) x)
              | None \<Rightarrow> bind_events les batchID (XeID e # seen) es)))"

definition verifyLedgerPayloadBinding :: "evidence_batch \<Rightarrow> ledger_batch \<Rightarrow> evidence_error option" where
  "verifyLedgerPayloadBinding b lb =
     (if LbID lb \<noteq> XbID b \<or> LbGen lb \<noteq> XbGen b \<or> LbChanges lb \<noteq> ledger_changes b then Some (PayloadMetadata (XbID b))
      else if int (length (LbEvents lb)) \<noteq> LbChanges lb then Some (PayloadCount (XbID b))
      else if \<not> same_instant (LbObserved lb) (XbObserved b) then Some (PayloadTimestamp (XbID b))
      else if LbTrigger lb \<noteq> XbTrigger b \<or> LbTriggers lb \<noteq> XbTriggers b then Some (PayloadTriggers (XbID b))
      else if \<not> distinct (map LeID (LbEvents lb)) then Some (PayloadEventTwice (XbID b))
      else bind_events (LbEvents lb) (XbID b) [] (XbEvents b))"

subsection \<open>The ledger of a pack\<close>

definition validateLedgerBatchState :: "evidence_batch list \<Rightarrow> evidence_error option" where
  "validateLedgerBatchState bs =
     (case List.find (\<lambda>b. XbSequence b < 0) bs of
        Some b \<Rightarrow> Some (SequenceInvalid (XbID b))
      | None \<Rightarrow>
          if list_ex (\<lambda>b. XbSequence b \<noteq> 0) bs \<and> list_ex (\<lambda>b. XbSequence b = 0) bs then Some LedgerMixed else None)"

definition hash_text :: "string \<Rightarrow> bool" where
  "hash_text h \<longleftrightarrow> length h = 64 \<and> hex_decode h \<noteq> None"

fun check_batches :: "string \<Rightarrow> int list \<Rightarrow> evidence_batch list \<Rightarrow> evidence_error option" where
  "check_batches keyID seen [] = None"
| "check_batches keyID seen (b # bs) =
     (if XbKeyID b \<noteq> '''' \<and> XbKeyID b \<noteq> keyID then Some (LedgerKeyMismatch (XbID b))
      else if 0 < XbSequence b then
        (if \<not> hash_text (XbHash b) then Some (LedgerHashInvalid (XbID b))
         else if XbSequence b \<in> set seen then Some (SequenceTwice (XbSequence b))
         else if XbPrevHash b \<noteq> '''' \<and> \<not> hash_text (XbPrevHash b) then Some (PrevHashInvalid (XbID b))
         else check_batches keyID (XbSequence b # seen) bs)
      else check_batches keyID seen bs)"

fun check_neighbours :: "evidence_batch list \<Rightarrow> evidence_error option" where
  "check_neighbours (newer # older # bs) =
     (if 0 < XbSequence newer \<and> 0 < XbSequence older \<and> XbSequence newer = XbSequence older + 1 \<and> XbPrevHash newer \<noteq> XbHash older
      then Some (ChainMismatch (XbID newer) (XbID older)) else check_neighbours (older # bs))"
| "check_neighbours _ = None"

text \<open>The links in the order of their sequences; \<open>before\<close> is the one before, \<open>seen\<close> are all before.\<close>

definition check_link :: "ed25519_verify \<Rightarrow> string \<Rightarrow> string \<Rightarrow> evidence_link option \<Rightarrow> int list \<Rightarrow> evidence_link \<Rightarrow> evidence_error option" where
  "check_link verify public keyID before seen l =
     (let n = XlSequence l
      in if n \<le> 0 \<or> length (XlHash l) \<noteq> 64 then Some (LinkInvalid n)
         else if n \<in> set seen then Some (LinkTwice n)
         else if XlKeyID l \<noteq> keyID then Some (LinkKeyMismatch n)
         else
           (case hex_decode (XlHash l) of
              None \<Rightarrow> Some (LinkInvalid n)
            | Some digest \<Rightarrow>
                if XlPrevHash l \<noteq> '''' \<and> \<not> hash_text (XlPrevHash l) then Some (LinkPrevInvalid n)
                else if before = None \<and> n = 1 \<and> XlPrevHash l \<noteq> '''' then Some GenesisHasPrevious
                else if XlSignature l = '''' then Some (LinkUnsigned n)
                else
                  (case decodeKeyMaterial (XlSignature l) SignatureSize of
                     None \<Rightarrow> Some (LinkSignatureFailed n)
                   | Some sig \<Rightarrow>
                       if \<not> verify public digest sig then Some (LinkSignatureFailed n)
                       else
                         (case before of
                            None \<Rightarrow> None
                          | Some p \<Rightarrow>
                              if n \<noteq> XlSequence p + 1 then Some (SequenceGap (XlSequence p) n)
                              else if XlPrevHash l \<noteq> XlHash p then Some (ChainMismatch n (XlSequence p)) else None))))"

fun check_links ::
  "ed25519_verify \<Rightarrow> string \<Rightarrow> string \<Rightarrow> evidence_link option \<Rightarrow> int list \<Rightarrow> evidence_link list \<Rightarrow> evidence_error option" where
  "check_links verify public keyID before seen [] = None"
| "check_links verify public keyID before seen (l # ls) =
     (case check_link verify public keyID before seen l of
        Some e \<Rightarrow> Some e
      | None \<Rightarrow> check_links verify public keyID (Some l) (XlSequence l # seen) ls)"

text \<open>A batch against its link and its payload.\<close>

definition check_bound :: "evidence_link list \<Rightarrow> evidence_batch \<Rightarrow> evidence_error option" where
  "check_bound links b =
     (case List.find (\<lambda>l. XlSequence l = XbSequence b) links of
        None \<Rightarrow> Some (LinkMismatch (XbID b))
      | Some l \<Rightarrow>
          if XlBatch l \<noteq> XbID b \<or> XlPrevHash l \<noteq> XbPrevHash b \<or> XlHash l \<noteq> XbHash b
             \<or> XlSignature l \<noteq> XbSignature b \<or> XlKeyID l \<noteq> XbKeyID b then Some (LinkMismatch (XbID b))
          else if XbPayload b = '''' then Some (PayloadMissing (XbID b))
          else
            (case b64_decode False (XbPayload b) of
               None \<Rightarrow> Some (PayloadUndecodable (XbID b))
             | Some payload \<Rightarrow>
                 (case decodeLedgerPayload payload of
                    None \<Rightarrow> Some (PayloadUndecodable (XbID b))
                  | Some lb \<Rightarrow>
                      if LbID lb \<noteq> XbID b \<or> LbGen lb \<noteq> XbGen b \<or> LbChanges lb \<noteq> ledger_changes b then Some (PayloadMetadata (XbID b))
                      else if hex_encode (ledgerDigest (XbPrevHash b) payload) \<noteq> XbHash b then Some (LedgerHashMismatch (XbID b))
                      else verifyLedgerPayloadBinding b lb)))"

fun first_error :: "('a \<Rightarrow> 'e option) \<Rightarrow> 'a list \<Rightarrow> 'e option" where
  "first_error f [] = None"
| "first_error f (x # xs) = (case f x of Some e \<Rightarrow> Some e | None \<Rightarrow> first_error f xs)"

definition ledgerCheckpointSequence :: "int \<Rightarrow> int" where
  "ledgerCheckpointSequence n = (if 1 < n then n - 1 else n)"

definition ledgered :: "evidence_batch list \<Rightarrow> evidence_batch list" where
  "ledgered bs = filter (\<lambda>b. 0 < XbSequence b) bs"

definition verifyLedgerLinks :: "ed25519_verify \<Rightarrow> evidence_pack \<Rightarrow> evidence_error option" where
  "verifyLedgerLinks verify p =
     (case validateLedgerBatchState (XpBatches p) of Some e \<Rightarrow> Some e | None \<Rightarrow>
     (case check_batches (XpKeyID p) [] (XpBatches p) of Some e \<Rightarrow> Some e | None \<Rightarrow>
     (case check_neighbours (XpBatches p) of Some e \<Rightarrow> Some e | None \<Rightarrow>
       (let bound = ledgered (XpBatches p)
        in if bound = [] then (if XpLinks p \<noteq> [] then Some LinksWithoutBatches else None)
           else if XpLinks p = [] then Some LinksMissing
           else
             (let links = sort_key XlSequence (XpLinks p);
                  lowest = Min (set (map XbSequence bound)); highest = Max (set (map XbSequence bound))
              in if XlSequence (hd links) \<noteq> ledgerCheckpointSequence lowest then Some (CheckpointMissing lowest)
                 else if XlSequence (last links) \<noteq> highest then Some (LinksBeyond highest)
                 else
                   (case decodeKeyMaterial (XpPublicKey p) PublicKeySize of
                      None \<Rightarrow> Some PublicKeyUndecodable
                    | Some public \<Rightarrow>
                        (case check_links verify public (XpKeyID p) None [] links of
                           Some e \<Rightarrow> Some e
                         | None \<Rightarrow> first_error (check_bound links) bound)))))))"

subsection \<open>The pack\<close>

definition check_version_event :: "evidence_pack \<Rightarrow> evidence_batch \<Rightarrow> evidence_event \<Rightarrow> evidence_error option" where
  "check_version_event p b e =
     (if XpVersion p = evidencePackVersionV3 \<and> (XeSeverity e \<noteq> '''' \<or> XeMuted e) then Some (VersionCannotCarry (XeID e))
      else if XeAttribution e = None then None
      else if XpVersion p < evidencePackVersion then Some (VersionCannotCarry (XeID e))
      else if XbAttribution b \<noteq> AttributionComplete then Some (AttributedWithoutLookup (XeID e)) else None)"

definition check_version_batch :: "evidence_pack \<Rightarrow> evidence_batch \<Rightarrow> evidence_error option" where
  "check_version_batch p b =
     (if XpVersion p < evidencePackVersion \<and> XbAttribution b \<noteq> '''' then Some (VersionCannotCarry (XbID b))
      else if XbAttribution b \<notin> {'''', AttributionComplete, AttributionUnavailable, AttributionUnsupported}
      then Some (InvalidStatus (XbID b))
      else first_error (check_version_event p b) (XbEvents b))"

definition verifyEvidenceVersionFields :: "evidence_pack \<Rightarrow> evidence_error option" where
  "verifyEvidenceVersionFields p = first_error (check_version_batch p) (XpBatches p)"

definition check_cursor :: "evidence_pack \<Rightarrow> evidence_error option" where
  "check_cursor p =
     (if XpTruncated p then
        (if XpNext p \<le> 0 then Some CursorMissing
         else if XpBatches p = [] then Some TruncatedEmpty
         else if XbID (last (XpBatches p)) \<noteq> XpNext p then Some CursorMismatch else None)
      else if XpNext p \<noteq> 0 then Some CursorUnexpected else None)"

text \<open>The checks on a decoded pack; \<open>trusted\<close> is empty if the key of the pack is accepted.\<close>

definition verify_pack :: "ed25519_verify \<Rightarrow> string \<Rightarrow> evidence_pack \<Rightarrow> evidence_error option" where
  "verify_pack verify trusted p =
     (if XpFormat p \<noteq> evidencePackFormat
         \<or> XpVersion p \<notin> {evidencePackVersion, evidencePackVersionV4, evidencePackVersionV3} then Some UnsupportedPack
      else
        (case verifyEvidenceVersionFields p of Some e \<Rightarrow> Some e | None \<Rightarrow>
        (case check_cursor p of Some e \<Rightarrow> Some e | None \<Rightarrow>
        (case evidencePayload p of None \<Rightarrow> Some ContentUnencodable | Some content \<Rightarrow>
          if XpContentHash p \<noteq> sha256_hex content then Some ContentMismatch
          else if XpKeyID p = '''' \<or> XpPublicKey p = '''' \<or> XpSignature p = '''' then Some SignatureIncomplete
          else
            (case decodeKeyMaterial (XpPublicKey p) PublicKeySize of None \<Rightarrow> Some PublicKeyUndecodable | Some public \<Rightarrow>
              if XpKeyID p \<noteq> evidenceKeyID public then Some FingerprintMismatch
              else if trusted \<noteq> '''' \<and> public \<noteq> trusted then Some KeyNotTrusted
              else
                (case decodeKeyMaterial (XpSignature p) SignatureSize of None \<Rightarrow> Some SignatureUndecodable | Some sig \<Rightarrow>
                  if \<not> verify public (evidenceSignaturePayload p) sig then Some SignatureFailed
                  else verifyLedgerLinks verify p))))))"

definition verifyEvidencePack ::
  "(string \<Rightarrow> evidence_pack option) \<Rightarrow> ed25519_verify \<Rightarrow> string \<Rightarrow> string \<Rightarrow> evidence_error option" where
  "verifyEvidencePack decode verify trusted raw =
     (if maxEvidenceBytes < length raw then Some PackTooLarge
      else case decode raw of None \<Rightarrow> Some PackUndecodable | Some p \<Rightarrow> verify_pack verify trusted p)"

text \<open>\<open>None\<close> inside: the trusted key has not 32 bytes.\<close>

definition VerifyEvidencePackWithKey ::
  "(string \<Rightarrow> evidence_pack option) \<Rightarrow> ed25519_verify \<Rightarrow> string \<Rightarrow> string \<Rightarrow> evidence_error option option" where
  "VerifyEvidencePackWithKey decode verify trusted raw =
     (if length trusted \<noteq> PublicKeySize then None else Some (verifyEvidencePack decode verify trusted raw))"

end
