(* ===== verification/Store_Export.thy ===== *)
theory Store_Export
  imports Store_Evidence
begin

text \<open>
  The export of evidence packs (\<open>internal/store/evidence.go\<close>, and the link segment of \<open>signing.go\<close>). The
  time of the export, the outbox rows of a batch, SQLite's \<open>length\<close> and the limit of the link segment (a
  variable of the code, 10,000) are arguments. Stored times are in UTC, as they are written. The payload of a
  loaded batch is the text that was just encoded, which has no unknown member, so the strict decoder stands
  for the lenient one in \<open>evidenceBatch\<close>.
\<close>

subsection \<open>The indented text of a pack\<close>

text \<open>\<open>json.Indent\<close> of a compact text, two blanks a level; \<open>opened\<close> says that a bracket was just opened.\<close>

fun indent_compact :: "nat \<Rightarrow> bool \<Rightarrow> bool \<Rightarrow> bool \<Rightarrow> string \<Rightarrow> string" where
  "indent_compact depth opened within escaped [] = []"
| "indent_compact depth opened within escaped (c # cs) =
     (if within then c # indent_compact depth False (escaped \<or> c \<noteq> CHR 0x22) (\<not> escaped \<and> c = CHR 0x5C) cs
      else if c = CHR ''}'' \<or> c = CHR '']'' then
        (if opened then c # indent_compact depth False False False cs
         else indent_line (depth - 1) @ c # indent_compact (depth - 1) False False False cs)
      else
        (let depth = (if opened then depth + 1 else depth); lead = (if opened then indent_line depth else [])
         in lead @ c #
           (if c = CHR ''{'' \<or> c = CHR ''['' then indent_compact depth True False False cs
            else if c = CHR '','' then indent_line depth @ indent_compact depth False False False cs
            else if c = CHR '':'' then CHR '' '' # indent_compact depth False False False cs
            else indent_compact depth False (c = CHR 0x22) False cs)))"

definition pack_text :: "evidence_pack \<Rightarrow> string option" where
  "pack_text p = struct_members
     [member ''format'' (quote_text (XpFormat p)), member ''version'' (int_text (XpVersion p)),
      member ''generated_at'' (quote_text (XpGenerated p)), member_opt ''filter'' (filter_text (XpFilter p)),
      member_opt ''batches'' (map_option array_text (those (map batch_text (XpBatches p)))),
      omit_list ''ledger_links'' (map link_text (XpLinks p)), member ''truncated'' (if XpTruncated p then ''true'' else ''false''),
      omit_int ''next_cursor'' (XpNext p), member ''content_sha256'' (quote_text (XpContentHash p)),
      omit_text ''signing_key_id'' (XpKeyID p), omit_text ''signing_public_key'' (XpPublicKey p),
      omit_text ''ledger_head'' (XpHead p), omit_text ''signature'' (XpSignature p)]"

definition signed_pack :: "ed25519_sign \<Rightarrow> evidence_key \<Rightarrow> evidence_pack \<Rightarrow> evidence_pack option" where
  "signed_pack sign key p0 =
     (case evidencePayload p0 of
        None \<Rightarrow> None
      | Some content \<Rightarrow>
          (let p = p0\<lparr>XpContentHash := sha256_hex content, XpKeyID := KeyID key, XpPublicKey := b64_encode False (PublicKey key)\<rparr>
           in Some (p\<lparr>XpSignature := b64_encode False (sign (PrivateKey key) (evidenceSignaturePayload p))\<rparr>)))"

definition signEvidencePack :: "ed25519_sign \<Rightarrow> evidence_key \<Rightarrow> evidence_pack \<Rightarrow> string option" where
  "signEvidencePack sign key p =
     (case signed_pack sign key p of
        None \<Rightarrow> None
      | Some q \<Rightarrow> map_option (\<lambda>t. indent_compact 0 False False False t @ newline) (pack_text q))"

subsection \<open>The batches of a pack\<close>

definition bound_text :: "instant option \<Rightarrow> string" where
  "bound_text t = (case t of None \<Rightarrow> '''' | Some u \<Rightarrow> rfc3339 u)"

definition evidenceFilter :: "history_filter \<Rightarrow> evidence_filter" where
  "evidenceFilter f =
     \<lparr> EfCollector = FilterCollector f, EfEventType = FilterEventType f, EfResource = FilterResource f,
       EfFrom = bound_text (FilterFrom f), EfUntil = bound_text (FilterUntil f), EfCursor = FilterCursor f,
       EfLimit = FilterLimit f, EfBatch = FilterBatchID f, EfSeverity = FilterSeverity f \<rparr>"

definition evidence_event_of :: "history_event \<Rightarrow> evidence_event" where
  "evidence_event_of e =
     \<lparr> XeID = HeID e, XeBatch = HeBatch e, XeGen = HeGen e, XeObserved = (HeObserved e, 0), XeCollector = HeCollector e,
       XeType = HeType e, XeResource = HeResource e, XeName = HeName e, XeFields = map evidence_field_of (HeFields e),
       XeFieldsTruncated = HeFieldsTruncated e, XeTotal = HeTotal e, XeBefore = evidenceJSON (HeBefore e),
       XeAfter = evidenceJSON (HeAfter e), XeBeforeHash = HeBeforeHash e, XeAfterHash = HeAfterHash e,
       XeBeforeBytes = HeBeforeBytes e, XeAfterBytes = HeAfterBytes e, XeBeforeTruncated = HeBeforeTruncated e,
       XeAfterTruncated = HeAfterTruncated e, XeSeverity = HeSeverity e, XeMuted = HeMuted e, XeAttribution = HeAttribution e \<rparr>"

definition evidence_delivery_of :: "history_delivery \<Rightarrow> evidence_delivery" where
  "evidence_delivery_of d =
     \<lparr> XdID = HdID d, XdDest = HdDest d, XdName = HdName d, XdStatus = HdStatus d, XdAttempts = HdAttempts d, XdError = HdError d,
       XdNext = map_option (\<lambda>t. (t, 0)) (HdNext d), XdDone = map_option (\<lambda>t. (t, 0)) (HdDone d) \<rparr>"

definition evidenceBatch :: "history_batch \<Rightarrow> evidence_batch" where
  "evidenceBatch b =
     \<lparr> XbID = HbID b, XbGen = HbGen b, XbObserved = (HbObserved b, 0), XbChanges = HbChanges b,
       XbLedgerChanges = (if HbPayload b = '''' then HbChanges b
                          else case decodeLedgerPayload (HbPayload b) of
                                 None \<Rightarrow> HbChanges b
                               | Some lb \<Rightarrow> if 0 < LbChanges lb then LbChanges lb else HbChanges b),
       XbTrigger = HbTrigger b, XbTriggers = HbTriggers b, XbSequence = HbSequence b, XbPrevHash = HbPrevHash b, XbHash = HbHash b,
       XbSignature = HbSignature b, XbKeyID = HbKeyID b, XbPayload = b64_encode False (HbPayload b),
       XbAttribution = HbAttribution b, XbEvents = map evidence_event_of (HbEvents b),
       XbDeliveries = map evidence_delivery_of (HbDeliveries b) \<rparr>"

subsection \<open>The links\<close>

definition link_of :: "ledger_row \<Rightarrow> evidence_link" where
  "link_of r =
     \<lparr> XlSequence = LedgerSequence r, XlBatch = LedgerBatchID r, XlPrevHash = PrevHash r, XlHash = EntryHash r,
       XlSignature = LedgerSignature r, XlKeyID = LedgerKeyID r \<rparr>"

text \<open>The newest links of the range, in the order of their sequences.\<close>

definition evidenceLedgerLinks :: "int \<Rightarrow> int list \<Rightarrow> history_db \<Rightarrow> evidence_link list" where
  "evidenceLedgerLinks limit sequences db =
     (case filter (\<lambda>n. n \<noteq> 0) sequences of
        [] \<Rightarrow> []
      | ns \<Rightarrow>
          (let start = ledgerCheckpointSequence (Min (set ns)); highest = Max (set ns);
               rows = filter (\<lambda>r. start \<le> LedgerSequence r \<and> LedgerSequence r \<le> highest) (sort_key LedgerSequence (Ledger db))
           in map link_of (rev (take (nat (min limit (highest - start + 1))) (rev rows)))))"

definition evidenceLinksFor :: "evidence_batch list \<Rightarrow> evidence_link list \<Rightarrow> evidence_link list" where
  "evidenceLinksFor bs links =
     (case filter (\<lambda>n. n \<noteq> 0) (map XbSequence bs) of
        [] \<Rightarrow> []
      | ns \<Rightarrow> filter (\<lambda>l. ledgerCheckpointSequence (Min (set ns)) \<le> XlSequence l \<and> XlSequence l \<le> Max (set ns)) links)"

text \<open>How many of the first batches fit; \<open>events\<close> is the number of events before.\<close>

fun batches_within :: "int \<Rightarrow> nat \<Rightarrow> evidence_batch list \<Rightarrow> nat" where
  "batches_within firstLink events [] = 0"
| "batches_within firstLink events (b # bs) =
     (if maxEvidenceEvents < events + length (XbEvents b) then 0
      else if 0 < XbSequence b \<and> ledgerCheckpointSequence (XbSequence b) < firstLink then 0
      else Suc (batches_within firstLink (events + length (XbEvents b)) bs))"

definition evidenceBatchesWithinCaps :: "evidence_batch list \<Rightarrow> evidence_link list \<Rightarrow> nat" where
  "evidenceBatchesWithinCaps bs links = batches_within (case links of [] \<Rightarrow> 0 | l # _ \<Rightarrow> XlSequence l) 0 bs"

subsection \<open>The export\<close>

datatype export_error = HistoryUnreadable history_error | ExportTooLarge | ExportMixed evidence_error | ContinuationUnknown | ExportUnencodable

text \<open>A part of \<open>n\<close> batches.\<close>

definition part :: "history_filter \<Rightarrow> history_page \<Rightarrow> string \<Rightarrow> string \<Rightarrow> evidence_batch list \<Rightarrow> evidence_link list \<Rightarrow> nat \<Rightarrow> evidence_pack" where
  "part f page head generated batches links n =
     \<lparr> XpFormat = evidencePackFormat, XpVersion = evidencePackVersion, XpGenerated = generated, XpFilter = evidenceFilter f,
       XpBatches = take n batches, XpLinks = evidenceLinksFor (take n batches) links,
       XpTruncated = (PageHasNext page \<or> n < length batches),
       XpNext = (if n < length batches then XbID (batches ! (n - 1)) else PageNext page),
       XpContentHash = '''', XpKeyID = '''', XpPublicKey = '''', XpHead = head, XpSignature = '''' \<rparr>"

text \<open>A part is built with its text; the text alone is returned in the end.\<close>

definition build_part :: "ed25519_sign \<Rightarrow> evidence_key \<Rightarrow> (nat \<Rightarrow> evidence_pack) \<Rightarrow> nat \<Rightarrow> export_error + evidence_pack \<times> string" where
  "build_part sign key parts n =
     (let p = parts n
      in if XpTruncated p \<and> (XpNext p \<le> 0 \<or> XpBatches p = [] \<or> XbID (last (XpBatches p)) \<noteq> XpNext p) then Inl ContinuationUnknown
         else case signEvidencePack sign key p of None \<Rightarrow> Inl ExportUnencodable | Some t \<Rightarrow> Inr (p, t))"

text \<open>The search for the largest part that fits, between one that does (or none) and one that does not.\<close>

function search_part ::
  "(nat \<Rightarrow> export_error + evidence_pack \<times> string) \<Rightarrow> nat \<Rightarrow> nat \<Rightarrow> (evidence_pack \<times> string) option
     \<Rightarrow> export_error + evidence_pack \<times> string" where
  "search_part build good bad encoded =
     (if good + 1 < bad then
        (let middle = (good + bad) div 2
         in case build middle of
              Inl e \<Rightarrow> Inl e
            | Inr (p, t) \<Rightarrow>
                if length t \<le> maxEvidenceBytes then search_part build middle bad (Some (p, t)) else search_part build good middle encoded)
      else case encoded of None \<Rightarrow> Inl ExportTooLarge | Some pt \<Rightarrow> Inr pt)"
  by pat_completeness auto
termination
  by (relation "measure (\<lambda>(build, good, bad, encoded). bad - good)") auto

declare search_part.simps [simp del]

definition export_filter :: "history_filter \<Rightarrow> history_filter" where
  "export_filter f =
     f\<lparr>FilterLimit := (if FilterLimit f \<le> 0 \<or> maxEvidenceBatches < FilterLimit f then maxEvidenceBatches else FilterLimit f),
       FilterAfter := 0\<rparr>"

definition export_part ::
  "ed25519_sign \<Rightarrow> evidence_key \<Rightarrow> (string \<Rightarrow> int) \<Rightarrow> (int \<Rightarrow> delivery_row list) \<Rightarrow> int \<Rightarrow> string \<Rightarrow> history_filter \<Rightarrow> history_db
     \<Rightarrow> export_error + evidence_pack \<times> string" where
  "export_part sign key sql_length deliveries limit generated filter0 db =
     (let f = export_filter filter0
      in case listHistory sql_length deliveries f (int maxEvidenceBytes) True db of
           Inl e \<Rightarrow> Inl (HistoryUnreadable e)
         | Inr page \<Rightarrow>
             if PageBatches page = [] \<and> PageTruncated page then Inl ExportTooLarge
             else
               (let links = evidenceLedgerLinks limit (map HbSequence (PageBatches page)) db;
                    batches = map evidenceBatch (PageBatches page);
                    fit = evidenceBatchesWithinCaps batches links;
                    build = build_part sign key (part f page (ledgerHeadTx db) generated batches links)
                in case validateLedgerBatchState batches of
                     Some e \<Rightarrow> Inl (ExportMixed e)
                   | None \<Rightarrow>
                       if fit = 0 \<and> batches \<noteq> [] then Inl ExportTooLarge
                       else
                         (case build fit of
                            Inl e \<Rightarrow> Inl e
                          | Inr (p, t) \<Rightarrow> if length t \<le> maxEvidenceBytes then Inr (p, t) else search_part build 0 fit None)))"

definition ExportEvidencePack ::
  "ed25519_sign \<Rightarrow> evidence_key \<Rightarrow> (string \<Rightarrow> int) \<Rightarrow> (int \<Rightarrow> delivery_row list) \<Rightarrow> int \<Rightarrow> string \<Rightarrow> history_filter \<Rightarrow> history_db
     \<Rightarrow> export_error + string" where
  "ExportEvidencePack sign key sql_length deliveries limit generated filter0 db =
     (case export_part sign key sql_length deliveries limit generated filter0 db of Inl e \<Rightarrow> Inl e | Inr (p, t) \<Rightarrow> Inr t)"

end
