(* ===== verification/Store_Evidence_Laws.thy ===== *)
theory Store_Evidence_Laws
  imports Store_Evidence Store_Audit_Laws
begin

text \<open>
  What an accepted evidence pack shows is recorded history: the batches of an accepted pack are entries of
  the ledger, and their events are the recorded ones.
\<close>

lemma first_error_None: "first_error f xs = None \<longleftrightarrow> (\<forall>x \<in> set xs. f x = None)"
  by (induction xs) (auto split: option.splits)

lemma found: "List.find f xs = Some x \<Longrightarrow> x \<in> set xs \<and> f x"
  by (metis find_Some_iff nth_mem)

lemma verified_pack:
  assumes "verify_pack verify trusted p = None" and "trusted \<noteq> ''''"
  shows "decodeKeyMaterial (XpPublicKey p) PublicKeySize = Some trusted" and "verifyLedgerLinks verify p = None"
    and "XpKeyID p = evidenceKeyID trusted"
  using assms by (auto simp: verify_pack_def split: option.splits if_splits)

lemma check_links_each:
  assumes "check_links verify public keyID before seen ls = None" and "l \<in> set ls"
  shows "\<exists>before seen. check_link verify public keyID before seen l = None"
  using assms by (induction ls arbitrary: before seen) (auto split: option.splits)

lemma checked_link:
  assumes "check_link verify public keyID before seen l = None"
  shows "\<exists>digest sig. hex_decode (XlHash l) = Some digest \<and> decodeKeyMaterial (XlSignature l) SignatureSize = Some sig
           \<and> verify public digest sig" and "XlPrevHash l = '''' \<or> hash_text (XlPrevHash l)"
  using assms by (auto simp: check_link_def Let_def split: option.splits if_splits)

lemma verified_batch:
  assumes "verifyLedgerLinks verify p = None" and "b \<in> set (XpBatches p)" and "0 < XbSequence b"
    and "decodeKeyMaterial (XpPublicKey p) PublicKeySize = Some public"
  obtains digest sig payload lb where "hex_decode (XbHash b) = Some digest" "decodeKeyMaterial (XbSignature b) SignatureSize = Some sig"
    "verify public digest sig" "XbPrevHash b = '''' \<or> hash_text (XbPrevHash b)"
    "b64_decode False (XbPayload b) = Some payload" "decodeLedgerPayload payload = Some lb"
    "XbHash b = hex_encode (ledgerDigest (XbPrevHash b) payload)" "verifyLedgerPayloadBinding b lb = None"
proof -
  let ?links = "sort_key XlSequence (XpLinks p)"
  have bound: "b \<in> set (ledgered (XpBatches p))" using assms(2,3) by (simp add: ledgered_def)
  then have "ledgered (XpBatches p) \<noteq> []" by auto
  with assms(1,4) have links: "check_links verify public (XpKeyID p) None [] ?links = None"
    and each: "first_error (check_bound ?links) (ledgered (XpBatches p)) = None"
    by (auto simp: verifyLedgerLinks_def Let_def split: option.splits if_splits)
  from each bound have c: "check_bound ?links b = None" by (simp add: first_error_None)
  then obtain l payload lb where l: "List.find (\<lambda>l. XlSequence l = XbSequence b) ?links = Some l"
      "XlPrevHash l = XbPrevHash b" "XlHash l = XbHash b" "XlSignature l = XbSignature b"
    and pl: "b64_decode False (XbPayload b) = Some payload" "decodeLedgerPayload payload = Some lb"
      "hex_encode (ledgerDigest (XbPrevHash b) payload) = XbHash b" "verifyLedgerPayloadBinding b lb = None"
    by (auto simp: check_bound_def split: option.splits if_splits)
  from found [OF l(1)] have "l \<in> set ?links" by blast
  from check_links_each [OF links this] obtain before seen where "check_link verify public (XpKeyID p) before seen l = None" by blast
  from checked_link [OF this] l obtain digest sig where "hex_decode (XbHash b) = Some digest"
    "decodeKeyMaterial (XbSignature b) SignatureSize = Some sig" "verify public digest sig" "XbPrevHash b = '''' \<or> hash_text (XbPrevHash b)" by auto
  from that [OF this pl(1,2) pl(3) [symmetric] pl(4)] show ?thesis .
qed

text \<open>The text that is hashed determines the previous hash and the payload.\<close>

lemma chain_previous: "ledger_chain p rs \<Longrightarrow> r \<in> set rs \<Longrightarrow> PrevHash r = p \<or> (\<exists>q \<in> set rs. PrevHash r = EntryHash q)"
  by (induction rs arbitrary: p) auto

lemma written_previous:
  assumes "ledger_wf sign key db" and "r \<in> set (Ledger db)"
  shows "PrevHash r = '''' \<or> hash_text (PrevHash r)"
proof -
  have "hash_text (EntryHash q)" if "q \<in> set (Ledger db)" for q
    using assms(1) that
    by (auto simp: ledger_wf_def list_all_iff signed_entry_def hash_text_def length_hex_encode ledgerDigest_def length_sha256 hex_round_trip)
  moreover have "PrevHash r = '''' \<or> (\<exists>q \<in> set (Ledger db). PrevHash r = EntryHash q)"
    using chain_previous [of "''''" "Ledger db" r] assms by (simp add: ledger_wf_def)
  ultimately show ?thesis by auto
qed

lemma hash_text_first: "hash_text h \<Longrightarrow> \<exists>c cs. h = c # cs \<and> c \<noteq> CHR 0x0A"
proof -
  assume h: "hash_text h"
  then obtain a b s where s: "h = a # b # s" by (cases h; cases "tl h") (auto simp: hash_text_def)
  with h have "hex_val a \<noteq> None" by (auto simp: hash_text_def split: option.splits)
  then have "a \<noteq> CHR 0x0A" by (auto simp: hex_val_def)
  with s show ?thesis by blast
qed

lemma ledger_input_determined:
  assumes "p = '''' \<or> hash_text p" and "q = '''' \<or> hash_text q" and "ledger_input p x = ledger_input q y"
  shows "p = q \<and> x = y"
proof -
  have "p @ newline @ x = q @ newline @ y" using assms(3) by (simp add: ledger_input_def)
  then have "length p = length q" using assms(1,2) hash_text_first by (fastforce simp: hash_text_def newline_def)
  then show ?thesis by (rule ledger_input_inj [OF _ assms(3)])
qed

subsection \<open>The recorded events\<close>

text \<open>The event shows the row.\<close>

definition shows_event :: "event_row \<Rightarrow> evidence_event \<Rightarrow> bool" where
  "shows_event row e \<longleftrightarrow>
     XeID e = EventID row \<and> XeGen e = EventGen row \<and> XeCollector e = EventColl row \<and> XeType e = EventType row
     \<and> XeResource e = EventRes row \<and> XeName e = EventName row \<and> XeMuted e = EventMuted row
     \<and> XeAttribution e = UnmarshalAttribution (EventAttribution row) \<and> same_instant (EventObserved row) (XeObserved e)
     \<and> (\<exists>shown. evidenceFieldsFromLedger (EventChanges row) = Some (shown, XeFieldsTruncated e, XeTotal e)
          \<and> equalEvidenceFields shown (XeFields e))
     \<and> equalEvidenceJSON (evidenceJSON (prettyJSON (EventBefore row))) (XeBefore e)
     \<and> equalEvidenceJSON (evidenceJSON (prettyJSON (EventAfter row))) (XeAfter e)"

lemma bound_event:
  assumes "verifyLedgerEventBinding e (ledger_event_of row) i = None" and "XeID e = EventID row"
  shows "shows_event row e"
  using assms by (auto simp: verifyLedgerEventBinding_def shows_event_def ledger_event_of_def split: option.splits if_splits)

lemma bind_events_each:
  assumes "bind_events les i seen es = None" and "e \<in> set es"
  shows "\<exists>le \<in> set les. LeID le = XeID e \<and> verifyLedgerEventBinding e le i = None"
  using assms
proof (induction es arbitrary: seen)
  case (Cons x es)
  then obtain le where le: "List.find (\<lambda>le. LeID le = XeID x) les = Some le" "verifyLedgerEventBinding x le i = None"
    "bind_events les i (XeID x # seen) es = None" by (auto split: if_splits option.splits)
  show ?case
  proof (cases "e = x")
    case True
    then show ?thesis using found [OF le(1)] le(2) by auto
  next
    case False
    then show ?thesis using Cons.IH [OF le(3)] Cons.prems(2) by simp
  qed
qed simp

text \<open>The batch shows the recorded batch.\<close>

definition shows_batch :: "history_db \<Rightarrow> evidence_batch \<Rightarrow> bool" where
  "shows_batch db b \<longleftrightarrow>
     (\<exists>row \<in> set (EventBatches db). BatchRowID row = XbID b \<and> BatchRowGen row = XbGen b \<and> BatchChanges row = ledger_changes b
        \<and> same_instant (BatchObserved row) (XbObserved b))
     \<and> payload_of (XbID b) db = b64_decode False (XbPayload b)
     \<and> distinct (map XeID (XbEvents b))
     \<and> (\<forall>e \<in> set (XbEvents b). \<exists>row \<in> set (events_of (XbID b) db). shows_event row e)"

lemma bind_events_distinct:
  "bind_events les i seen es = None \<Longrightarrow> distinct (map XeID es) \<and> set (map XeID es) \<inter> set seen = {}"
proof (induction es arbitrary: seen)
  case (Cons e es)
  then have "XeID e \<notin> set seen" "bind_events les i (XeID e # seen) es = None" by (auto split: if_splits option.splits)
  with Cons.IH [of "XeID e # seen"] show ?case by auto
qed simp

lemma bound_batch:
  assumes "evidenceLedgerPayload i db = Some (payload, lb)" and "verifyLedgerPayloadBinding b lb = None"
    and "b64_decode False (XbPayload b) = Some payload"
  shows "XbID b = i \<and> shows_batch db b"
proof -
  from assms(1) obtain row where row: "batch_of i db = Some row" "LbID lb = BatchRowID row" "LbGen lb = BatchRowGen row"
      "LbObserved lb = BatchObserved row" "LbChanges lb = BatchChanges row" "LbEvents lb = map ledger_event_of (events_of i db)"
    by (auto simp: evidenceLedgerPayload_def Let_def split: option.splits)
  from row(1) have mem: "row \<in> set (EventBatches db)" "BatchRowID row = i" using found [OF row(1) [unfolded batch_of_def]] by simp_all
  from assms(2) have b: "LbID lb = XbID b" "LbGen lb = XbGen b" "LbChanges lb = ledger_changes b" "same_instant (LbObserved lb) (XbObserved b)"
      "bind_events (LbEvents lb) (XbID b) [] (XbEvents b) = None"
    by (auto simp: verifyLedgerPayloadBinding_def split: if_splits)
  have id: "XbID b = i" using b(1) row(2) mem(2) by simp
  have "\<exists>row \<in> set (events_of (XbID b) db). shows_event row e" if "e \<in> set (XbEvents b)" for e
  proof -
    from bind_events_each [OF b(5) that] row(6) obtain r where r: "r \<in> set (events_of i db)" "LeID (ledger_event_of r) = XeID e"
      "verifyLedgerEventBinding e (ledger_event_of r) (XbID b) = None" by auto
    have "XeID e = EventID r" using r(2) by (simp add: ledger_event_of_def)
    from bound_event [OF r(3) this] r(1) id show ?thesis by blast
  qed
  moreover have "payload_of i db = Some payload" using assms(1) by (simp add: payload_of_def)
  moreover have "\<exists>row \<in> set (EventBatches db). BatchRowID row = XbID b \<and> BatchRowGen row = XbGen b \<and> BatchChanges row = ledger_changes b
        \<and> same_instant (BatchObserved row) (XbObserved b)"
    by (rule bexI [OF _ mem(1)]) (use mem(2) id row(3-5) b(2-4) in simp)
  moreover note bind_events_distinct [OF b(5), THEN conjunct1]
  ultimately show ?thesis using id assms(3) by (simp add: shows_batch_def)
qed

text \<open>The stored rows are text that a payload can carry.\<close>

definition recordable :: "history_db \<Rightarrow> bool" where
  "recordable db \<longleftrightarrow>
     (\<forall>r \<in> set (Ledger db). case evidenceLedgerPayload (LedgerBatchID r) db of None \<Rightarrow> True | Some (_, lb) \<Rightarrow> ledger_batch_ok lb)"

end
