(* ===== verification/Store_Export_Laws.thy ===== *)
theory Store_Export_Laws
  imports Store_Export Store_Evidence_Laws Store_History_Laws
begin

text \<open>
  The part an export chooses; and the parts of an export that follow one another show
  every selected batch once.
\<close>

subsection \<open>The chosen part\<close>

lemma search_part_result:
  assumes "search_part build good bad encoded = Inr r"
    and "\<And>pt. encoded = Some pt \<Longrightarrow> P pt" and "\<And>n p t. 0 < n \<Longrightarrow> n < bad \<Longrightarrow> build n = Inr (p, t) \<Longrightarrow> length t \<le> maxEvidenceBytes \<Longrightarrow> P (p, t)"
  shows "P r"
  using assms
proof (induction build good bad encoded rule: search_part.induct)
  case (1 build good bad encoded)
  let ?m = "(good + bad) div 2"
  show ?case
  proof (cases "good + 1 < bad")
    case False
    then show ?thesis using 1(3,4) by (subst (asm) search_part.simps) (auto split: option.splits)
  next
    case True
    then obtain p t where b: "build ?m = Inr (p, t)"
      using 1(3) by (subst (asm) search_part.simps) (auto simp: Let_def split: sum.splits)
    have m: "0 < ?m" "?m < bad" using True by auto
    show ?thesis
    proof (cases "length t \<le> maxEvidenceBytes")
      case small: True
      then have "search_part build ?m bad (Some (p, t)) = Inr r" using 1(3) True b by (subst (asm) search_part.simps) (simp add: Let_def)
      then show ?thesis using 1(1) [OF True refl b refl small] 1(5) [OF m b small] 1(5) by blast
    next
      case large: False
      then have "search_part build good ?m encoded = Inr r" using 1(3) True b by (subst (asm) search_part.simps) (simp add: Let_def)
      then show ?thesis using 1(2) [OF True refl b refl large] 1(4,5) m by (meson less_trans)
    qed
  qed
qed

text \<open>An export is a part of the page, of at least one batch unless there is none, within the limit.\<close>

lemma exported:
  assumes "export_part sign key len deliveries limit generated filter0 db = Inr (p, t)"
  obtains page n where "listHistory len deliveries (export_filter filter0) (int maxEvidenceBytes) True db = Inr page"
    "PageTruncated page \<longrightarrow> PageBatches page \<noteq> []" "validateLedgerBatchState (map evidenceBatch (PageBatches page)) = None"
    "n \<le> evidenceBatchesWithinCaps (map evidenceBatch (PageBatches page)) (evidenceLedgerLinks limit (map HbSequence (PageBatches page)) db)"
    "0 < n \<or> PageBatches page = []"
    "p = part (export_filter filter0) page (ledgerHeadTx db) generated (map evidenceBatch (PageBatches page))
           (evidenceLedgerLinks limit (map HbSequence (PageBatches page)) db) n"
    "check_cursor p = None \<or> \<not> XpTruncated p" "signEvidencePack sign key p = Some t" "length t \<le> maxEvidenceBytes"
proof -
  let ?f = "export_filter filter0"
  from assms obtain page where page: "listHistory len deliveries ?f (int maxEvidenceBytes) True db = Inr page"
    "PageTruncated page \<longrightarrow> PageBatches page \<noteq> []"
    by (auto simp: export_part_def Let_def split: sum.splits if_splits)
  define links where "links = evidenceLedgerLinks limit (map HbSequence (PageBatches page)) db"
  define batches where "batches = map evidenceBatch (PageBatches page)"
  define fit where "fit = evidenceBatchesWithinCaps batches links"
  define parts where "parts = part ?f page (ledgerHeadTx db) generated batches links"
  define build where "build = build_part sign key parts"
  have "\<not> (PageBatches page = [] \<and> PageTruncated page)" using page(2) by auto
  then have "export_part sign key len deliveries limit generated filter0 db =
    (case validateLedgerBatchState batches of Some e \<Rightarrow> Inl (ExportMixed e)
     | None \<Rightarrow> if fit = 0 \<and> batches \<noteq> [] then Inl ExportTooLarge
         else (case build fit of Inl e \<Rightarrow> Inl e
               | Inr (p, t) \<Rightarrow> if length t \<le> maxEvidenceBytes then Inr (p, t) else search_part build 0 fit None))"
    by (simp only: export_part_def Let_def page(1) sum.case if_False links_def batches_def fit_def parts_def build_def)
  with assms have valid: "validateLedgerBatchState batches = None" and fit: "fit = 0 \<longrightarrow> batches = []"
    and found: "(case build fit of Inl e \<Rightarrow> Inl e
        | Inr (p, t) \<Rightarrow> if length t \<le> maxEvidenceBytes then Inr (p, t) else search_part build 0 fit None) = Inr (p, t)"
    by (auto split: option.splits if_splits)
  let ?P = "\<lambda>(p, t). \<exists>n. (0 < n \<or> batches = []) \<and> n \<le> fit \<and> build n = Inr (p, t) \<and> length t \<le> maxEvidenceBytes"
  have "?P (p, t)"
  proof (cases "build fit")
    case (Inr pt)
    obtain p' t' where pt: "pt = (p', t')" by (cases pt)
    show ?thesis
    proof (cases "length t' \<le> maxEvidenceBytes")
      case True
      then show ?thesis using found Inr pt fit by auto
    next
      case False
      then have "search_part build 0 fit None = Inr (p, t)" using found Inr pt by simp
      then show ?thesis by (rule search_part_result [where P = ?P]) (auto intro: less_imp_le)
    qed
  qed (use found in simp)
  then obtain n where n: "0 < n \<or> batches = []" "n \<le> fit" "build n = Inr (p, t)" "length t \<le> maxEvidenceBytes" by blast
  from n(3) have p: "p = parts n" "signEvidencePack sign key p = Some t"
    "\<not> (XpTruncated p \<and> (XpNext p \<le> 0 \<or> XpBatches p = [] \<or> XbID (last (XpBatches p)) \<noteq> XpNext p))"
    by (auto simp: build_def build_part_def Let_def split: if_splits option.splits)
  from p(3) have "check_cursor p = None \<or> \<not> XpTruncated p" by (auto simp: check_cursor_def)
  with page valid n p show ?thesis
    by (intro that [of page n]) (simp_all add: batches_def links_def fit_def parts_def)
qed

subsection \<open>The parts that follow one another\<close>

lemma take_filter:
  assumes "0 < n" and "n \<le> length (filter p xs)"
  shows "\<exists>m < length xs. filter p xs ! (n - 1) = xs ! m \<and> take n (filter p xs) = filter p (take (Suc m) xs)"
  using assms
proof (induction xs arbitrary: n)
  case (Cons x xs)
  show ?case
  proof (cases "p x \<and> n = 1")
    case True
    then show ?thesis by (intro exI [of _ 0]) simp
  next
    case False
    define k where "k = (if p x then n - 1 else n)"
    have "0 < k" "k \<le> length (filter p xs)" using False Cons.prems by (auto simp: k_def split: if_splits)
    from Cons.IH [OF this] obtain m where m: "m < length xs" "filter p xs ! (k - 1) = xs ! m" "take k (filter p xs) = filter p (take (Suc m) xs)"
      by blast
    have "n = (if p x then Suc k else k)" using Cons.prems by (auto simp: k_def)
    with m \<open>0 < k\<close> show ?thesis by (intro exI [of _ "Suc m"]) (auto simp: nth_Cons')
  qed
qed simp

lemma within_length: "batches_within firstLink n bs \<le> length bs"
  by (induction bs arbitrary: n) auto

lemma batch_id [simp]: "XbID (evidenceBatch b) = HbID b"
  by (simp add: evidenceBatch_def)

lemma part_fields [simp]:
  "XpBatches (part f page head g bs ls n) = take n bs" "XpFormat (part f page head g bs ls n) = evidencePackFormat"
  "XpVersion (part f page head g bs ls n) = evidencePackVersion" "XpLinks (part f page head g bs ls n) = evidenceLinksFor (take n bs) ls"
  "XpTruncated (part f page head g bs ls n) = (PageHasNext page \<or> n < length bs)"
  "XpNext (part f page head g bs ls n) = (if n < length bs then XbID (bs ! (n - 1)) else PageNext page)"
  by (simp_all add: part_def)

lemma export_descends: "\<not> ascending_page (export_filter f)"
  by (simp add: ascending_page_def export_filter_def)

lemma one_part:
  assumes "export_part sign key len deliveries limit generated filter0 db = Inr (p, t)"
  defines "f \<equiv> export_filter filter0"
  defines "shown \<equiv> shown_ids (\<lambda>b. selected_events f (BatchRowID b) db \<noteq> [])"
  shows "XpTruncated p \<Longrightarrow> \<exists>m < length (page_rows f db). XpNext p = BatchRowID (page_rows f db ! m)
       \<and> map XbID (XpBatches p) = shown (take (Suc m) (page_rows f db))"
    and "\<not> XpTruncated p \<Longrightarrow> map XbID (XpBatches p) = shown (page_rows f db)"
proof -
  let ?R = "page_rows f db" and ?s = "\<lambda>b. selected_events f (BatchRowID b) db \<noteq> []"
  obtain page n where
    page: "listHistory len deliveries f (int maxEvidenceBytes) True db = Inr page" "PageTruncated page \<longrightarrow> PageBatches page \<noteq> []"
      "validateLedgerBatchState (map evidenceBatch (PageBatches page)) = None"
    and fit: "n \<le> evidenceBatchesWithinCaps (map evidenceBatch (PageBatches page)) (evidenceLedgerLinks limit (map HbSequence (PageBatches page)) db)"
    and some: "0 < n \<or> PageBatches page = []"
    and p: "p = part f page (ledgerHeadTx db) generated (map evidenceBatch (PageBatches page))
           (evidenceLedgerLinks limit (map HbSequence (PageBatches page)) db) n"
      "check_cursor p = None \<or> \<not> XpTruncated p" "signEvidencePack sign key p = Some t" "length t \<le> maxEvidenceBytes"
    unfolding f_def by (rule exported [OF assms(1)])
  from fit within_length have "n \<le> length (PageBatches page)"
    unfolding evidenceBatchesWithinCaps_def by (metis le_trans length_map)
  note n = this some
  note shape = page_shape [OF page(1) export_descends [of filter0, folded f_def] page(2), folded shown_def]
  have ids: "map XbID (XpBatches p) = take n (map HbID (PageBatches page))" by (simp add: p(1) take_map comp_def)
  show "map XbID (XpBatches p) = shown ?R" if whole: "\<not> XpTruncated p"
  proof -
    have "take n (map HbID (PageBatches page)) = map HbID (PageBatches page)" using whole by (simp add: p(1))
    moreover have "\<not> PageHasNext page" using whole by (simp add: p(1))
    ultimately show ?thesis using ids shape(2) by metis
  qed
  show "\<exists>m < length ?R. XpNext p = BatchRowID (?R ! m) \<and> map XbID (XpBatches p) = shown (take (Suc m) ?R)" if cut: "XpTruncated p"
  proof (cases "n < length (PageBatches page)")
    case False
    then have "PageHasNext page" "take n (map HbID (PageBatches page)) = map HbID (PageBatches page)" "XpNext p = PageNext page" using cut by (simp_all add: p(1))
    with shape(1) ids show ?thesis by auto
  next
    case True
    obtain j where j: "map HbID (PageBatches page) = shown (take j ?R)"
    proof (cases "PageHasNext page")
      case True
      with shape(1) that show ?thesis by blast
    next
      case False
      with shape(2) that [of "length ?R"] show ?thesis by simp
    qed
    have bounds: "0 < n" "n \<le> length (filter ?s (take j ?R))" using True n(2) arg_cong [OF j, of length] by (auto simp: shown_def shown_ids_def)
    from take_filter [OF bounds] obtain m where m: "m < length (take j ?R)" "filter ?s (take j ?R) ! (n - 1) = take j ?R ! m"
      "take n (filter ?s (take j ?R)) = filter ?s (take (Suc m) (take j ?R))" by blast
    have "XpNext p = map HbID (PageBatches page) ! (n - 1)" using True by (simp add: p(1))
    also have "\<dots> = BatchRowID (?R ! m)" unfolding j using m(1,2) bounds by (simp add: shown_def shown_ids_def)
    finally have "XpNext p = BatchRowID (?R ! m)" .
    moreover have "map XbID (XpBatches p) = shown (take (Suc m) ?R)"
    proof -
      have "take (Suc m) (take j ?R) = take (Suc m) ?R" using m(1) by (simp add: min_def split: if_splits)
      then show ?thesis unfolding ids j using m(3) by (simp add: shown_def shown_ids_def take_map)
    qed
    ultimately show ?thesis using m(1) by auto
  qed
qed

fun follow_parts :: "nat \<Rightarrow> (history_filter \<Rightarrow> export_error + evidence_pack \<times> string) \<Rightarrow> history_filter \<Rightarrow> (export_error + int list) option" where
  "follow_parts 0 export f = None"
| "follow_parts (Suc n) export f =
     (case export f of
        Inl e \<Rightarrow> Some (Inl e)
      | Inr (p, t) \<Rightarrow>
          if XpTruncated p
          then map_option (\<lambda>r. case r of Inl e \<Rightarrow> Inl e | Inr ids \<Rightarrow> Inr (map XbID (XpBatches p) @ ids))
                 (follow_parts n export (f\<lparr>FilterCursor := XpNext p\<rparr>))
          else Some (Inr (map XbID (XpBatches p))))"

lemma follow_parts_all:
  assumes "history_wf db" and "length (page_rows (export_filter f) db) < n"
  shows "\<exists>r. follow_parts n (\<lambda>f. export_part sign key len deliveries limit generated f db) f = Some r
    \<and> (\<forall>ids. r = Inr ids \<longrightarrow>
         ids = shown_ids (\<lambda>b. selected_events (export_filter f) (BatchRowID b) db \<noteq> []) (page_rows (export_filter f) db))"
  using assms(2)
proof (induction n arbitrary: f)
  case (Suc n)
  let ?export = "\<lambda>f. export_part sign key len deliveries limit generated f db"
  let ?f = "export_filter f"
  let ?R = "page_rows ?f db" and ?shown = "shown_ids (\<lambda>b. selected_events ?f (BatchRowID b) db \<noteq> [])"
  show ?case
  proof (cases "?export f")
    case (Inr pt)
    obtain p t where pt: "pt = (p, t)" by (cases pt)
    note part = one_part [OF Inr [unfolded pt]]
    show ?thesis
    proof (cases "XpTruncated p")
      case True
      from part(1) [OF this] obtain m where m: "m < length ?R" "XpNext p = BatchRowID (?R ! m)"
        "map XbID (XpBatches p) = ?shown (take (Suc m) ?R)" by blast
      let ?g = "f\<lparr>FilterCursor := BatchRowID (?R ! m)\<rparr>"
      have g: "export_filter ?g = ?f\<lparr>FilterCursor := BatchRowID (?R ! m)\<rparr>" by (simp add: export_filter_def)
      have wf: "distinct (map BatchRowID (EventBatches db))" "\<forall>b \<in> set (EventBatches db). 0 < BatchRowID b"
        using assms(1) by (auto simp: history_wf_def strict_sorted_iff sorted_wrt_map [symmetric])
      have rest: "page_rows (export_filter ?g) db = drop (Suc m) ?R"
        unfolding g by (rule page_rows_after(1) [OF wf export_descends m(1)])
      then have "length (page_rows (export_filter ?g) db) < n" using Suc.prems m(1) by simp
      from Suc.IH [OF this] obtain r where r: "follow_parts n ?export ?g = Some r"
        "\<forall>ids. r = Inr ids \<longrightarrow> ids = ?shown (drop (Suc m) ?R)" unfolding rest by (auto simp: g)
      show ?thesis
      proof (cases r)
        case (Inr ids)
        with r(2) m(3) have "map XbID (XpBatches p) @ ids = ?shown ?R" by (simp flip: shown_ids_append)
        then show ?thesis using r(1) Inr True m(2) \<open>?export f = Inr pt\<close> pt by simp
      qed (use r(1) True m(2) \<open>?export f = Inr pt\<close> pt in simp)
    qed (use Inr pt part(2) in simp)
  qed simp
qed simp

end
