(* ===== verification/Store_Export_Verified.thy ===== *)
theory Store_Export_Verified
  imports Store_Export_Laws
begin

text \<open>What the exporter writes, the verifier accepts.\<close>

subsection \<open>A shown event\<close>

text \<open>
  The hash, the size and the truncation flag that are stored with a snapshot: those of the snapshot, or
  absent, as older versions left them.
\<close>

definition columns_ok :: "string \<Rightarrow> string \<Rightarrow> int \<Rightarrow> bool \<Rightarrow> bool" where
  "columns_ok raw hash bytes clipped \<longleftrightarrow>
     (if raw = '''' then hash = '''' \<and> bytes = 0 \<and> \<not> clipped
      else case parseTruncationMarker raw of
             Some (h, n) \<Rightarrow> n \<noteq> 0 \<and> (hash = '''' \<or> hash = h) \<and> (bytes = 0 \<or> bytes = n)
           | None \<Rightarrow> \<not> clipped \<and> (hash = '''' \<or> hash = valueHash raw) \<and> (bytes = 0 \<or> bytes = int (length raw)))"

definition event_exportable :: "event_row \<Rightarrow> bool" where
  "event_exportable e \<longleftrightarrow> EventChanges e \<noteq> ''''
     \<and> columns_ok (EventBefore e) (EventBeforeHash e) (EventBeforeBytes e) (EventBeforeTruncated e)
     \<and> columns_ok (EventAfter e) (EventAfterHash e) (EventAfterBytes e) (EventAfterTruncated e)"

lemma marker_of_empty: "parseTruncationMarker [] = None"
  by code_simp

lemma valueHash_text: "valueHash raw \<noteq> ''''"
proof -
  have "length (valueHash raw) = 64" by (simp add: valueHash_def sha256_hex_def length_hex_encode length_sha256)
  then show ?thesis by auto
qed

lemma columns_verified:
  assumes "columns_ok raw hash bytes clipped" and "snapshot_metadata raw hash bytes clipped = (h, n, c)"
  shows "verifyEvidenceSnapshotMetadata h n c raw = None"
proof (cases "raw = ''''")
  case True
  then show ?thesis using assms
    by (auto simp: columns_ok_def snapshot_metadata_def verifyEvidenceSnapshotMetadata_def marker_of_empty Let_def)
next
  case False
  show ?thesis
  proof (cases "parseTruncationMarker raw")
    case None
    then show ?thesis using assms False valueHash_text [of raw]
      by (auto simp: columns_ok_def snapshot_metadata_def verifyEvidenceSnapshotMetadata_def Let_def split: if_splits)
  next
    case (Some m)
    then show ?thesis using assms False
      by (cases m) (auto simp: columns_ok_def snapshot_metadata_def verifyEvidenceSnapshotMetadata_def Let_def split: if_splits)
  qed
qed

lemma equal_JSON_refl [simp]: "equalEvidenceJSON v v"
  by (simp add: equalEvidenceJSON_def)

lemma equal_fields_refl [simp]: "equalEvidenceFields fs fs"
  by (auto simp: equalEvidenceFields_def equal_field_def list_all_iff zip_same)

lemma loaded_event:
  assumes "load_event e = Inr he" and "event_exportable e" and "EventBatch e = Some i"
  shows "verifyLedgerEventBinding (evidence_event_of he) (ledger_event_of e) i = None" and "XeID (evidence_event_of he) = EventID e"
    and "XeAttribution (evidence_event_of he) = UnmarshalAttribution (EventAttribution e)"
proof -
  obtain bh bn bc where b: "snapshot_metadata (EventBefore e) (EventBeforeHash e) (EventBeforeBytes e) (EventBeforeTruncated e) = (bh, bn, bc)"
    by (cases "snapshot_metadata (EventBefore e) (EventBeforeHash e) (EventBeforeBytes e) (EventBeforeTruncated e)") auto
  obtain ah an ac where a: "snapshot_metadata (EventAfter e) (EventAfterHash e) (EventAfterBytes e) (EventAfterTruncated e) = (ah, an, ac)"
    by (cases "snapshot_metadata (EventAfter e) (EventAfterHash e) (EventAfterBytes e) (EventAfterTruncated e)") auto
  from assms(1,2) obtain t y changed clipped how_many where
    t: "parse_rfc3339 (EventObserved e) = Some (t, y)" and fields: "stored_fields (EventChanges e) = Some (changed, clipped, how_many)"
    and he: "he = \<lparr> HeID = EventID e, HeBatch = (case EventBatch e of None \<Rightarrow> 0 | Some b \<Rightarrow> b), HeGen = EventGen e,
                      HeObserved = t, HeCollector = EventColl e, HeType = EventType e, HeResource = EventRes e,
                      HeName = EventName e, HeFields = formatHistoryFields changed, HeFieldsTruncated = clipped, HeTotal = how_many,
                      HeBefore = prettyJSON (EventBefore e), HeAfter = prettyJSON (EventAfter e),
                      HeBeforeHash = bh, HeAfterHash = ah, HeBeforeBytes = bn, HeAfterBytes = an,
                      HeBeforeTruncated = bc, HeAfterTruncated = ac, HeSeverity = EventSeverity e, HeMuted = EventMuted e,
                      HeAttribution = UnmarshalAttribution (EventAttribution e) \<rparr>"
    by (auto simp: load_event_def a b event_exportable_def split: option.splits)
  have "verifyEvidenceSnapshotMetadata bh bn bc (EventBefore e) = None" "verifyEvidenceSnapshotMetadata ah an ac (EventAfter e) = None"
    using columns_verified [OF _ b] columns_verified [OF _ a] assms(2) by (simp_all add: event_exportable_def)
  with t fields show "verifyLedgerEventBinding (evidence_event_of he) (ledger_event_of e) i = None"
    by (simp add: he evidence_event_of_def ledger_event_of_def verifyLedgerEventBinding_def same_instant_def
        evidenceFieldsFromLedger_def assms(3))
  show "XeID (evidence_event_of he) = EventID e" "XeAttribution (evidence_event_of he) = UnmarshalAttribution (EventAttribution e)"
    by (simp_all add: he evidence_event_of_def)
qed

subsection \<open>A shown batch\<close>

lemma find_distinct: "distinct (map key xs) \<Longrightarrow> x \<in> set xs \<Longrightarrow> List.find (\<lambda>y. key y = key x) xs = Some x"
  by (induction xs) (auto split: if_splits)

lemma bind_events_ok:
  assumes "\<And>e. e \<in> set es \<Longrightarrow> \<exists>le. List.find (\<lambda>le. LeID le = XeID e) les = Some le \<and> verifyLedgerEventBinding e le i = None"
    and "distinct (map XeID es)" and "set (map XeID es) \<inter> set seen = {}"
  shows "bind_events les i seen es = None"
  using assms
proof (induction es arbitrary: seen)
  case (Cons e es)
  from Cons.prems(1) [of e] obtain le where "List.find (\<lambda>le. LeID le = XeID e) les = Some le" "verifyLedgerEventBinding e le i = None" by auto
  moreover have "bind_events les i (XeID e # seen) es = None"
    by (rule Cons.IH) (use Cons.prems in auto)
  ultimately show ?case using Cons.prems(3) by simp
qed simp

definition batch_exportable :: "history_db \<Rightarrow> batch_row \<Rightarrow> bool" where
  "batch_exportable db b \<longleftrightarrow>
     BatchAttribution b \<in> {'''', AttributionComplete, AttributionUnavailable, AttributionUnsupported}
     \<and> ((\<exists>r \<in> set (Ledger db). LedgerBatchID r = BatchRowID b) \<longrightarrow> BatchChanges b = int (length (events_of (BatchRowID b) db)))
     \<and> (\<forall>e \<in> set (events_of (BatchRowID b) db). event_exportable e
          \<and> (UnmarshalAttribution (EventAttribution e) \<noteq> None \<longrightarrow> BatchAttribution b = AttributionComplete))"

text \<open>What a loaded batch is made of.\<close>

lemma loaded_batch:
  assumes "loadHistoryBatch deliveries f True db (t, row) = Inr b"
  obtains events where "collect_all (map load_event (selected_events f (BatchRowID row) db)) = Inr events" "HbEvents b = events"
    "HbID b = BatchRowID row" "HbGen b = BatchRowGen row" "HbObserved b = t" "HbAttribution b = BatchAttribution row"
    "HbChanges b = BatchChanges row"
    "HbSequence b = (case List.find (\<lambda>e. LedgerBatchID e = BatchRowID row) (Ledger db) of None \<Rightarrow> 0 | Some e \<Rightarrow> LedgerSequence e)"
    "List.find (\<lambda>e. LedgerBatchID e = BatchRowID row) (Ledger db) = None \<longrightarrow> HbKeyID b = ''''"
    "\<And>e. List.find (\<lambda>e. LedgerBatchID e = BatchRowID row) (Ledger db) = Some e \<Longrightarrow>
       HbPrevHash b = PrevHash e \<and> HbHash b = EntryHash e \<and> HbSignature b = LedgerSignature e \<and> HbKeyID b = LedgerKeyID e
       \<and> (0 < LedgerSequence e \<longrightarrow> map_option fst (evidenceLedgerPayload (BatchRowID row) db) = Some (HbPayload b))"
    "batch_of (BatchRowID row) db = Some row \<Longrightarrow> \<exists>payload lb. evidenceLedgerPayload (BatchRowID row) db = Some (payload, lb)
       \<and> HbTrigger b = LbTrigger lb \<and> HbTriggers b = LbTriggers lb"
  using assms
  by (auto simp: loadHistoryBatch_def evidenceLedgerPayload_def Let_def split: option.splits sum.splits if_splits)

text \<open>The events of a loaded batch bind to the payload.\<close>

lemma distinct_filtered: "distinct (map key xs) \<Longrightarrow> distinct (map key (filter p xs))"
  by (simp add: distinct_map_filter)

lemma loaded_events_bound:
  assumes "collect_all (map load_event (selected_events f i db)) = Inr events"
    and "\<forall>e \<in> set (events_of i db). event_exportable e" and "distinct (map EventID (history_db.Events db))"
  shows "bind_events (map ledger_event_of (events_of i db)) i [] (map evidence_event_of events) = None"
proof (rule bind_events_ok)
  let ?les = "map ledger_event_of (events_of i db)"
  have mapped: "map load_event (selected_events f i db) = map Inr events" by (rule collect_all_length [OF assms(1)])
  have ids: "distinct (map EventID (events_of i db))" unfolding events_of_def by (rule distinct_filtered [OF assms(3)])
  have row: "\<exists>row \<in> set (selected_events f i db). load_event row = Inr he" if "he \<in> set events" for he
  proof -
    from that have "Inr he \<in> set (map load_event (selected_events f i db))" unfolding mapped by simp
    then show ?thesis by auto
  qed
  have member: "row \<in> set (events_of i db) \<and> EventBatch row = Some i" if "row \<in> set (selected_events f i db)" for row
    using that by (auto simp: selected_events_def events_of_def)
  show "\<exists>le. List.find (\<lambda>le. LeID le = XeID e) ?les = Some le \<and> verifyLedgerEventBinding e le i = None"
    if e: "e \<in> set (map evidence_event_of events)" for e
  proof -
    from e obtain he where he: "he \<in> set events" "e = evidence_event_of he" by auto
    from row [OF he(1)] he(2) obtain r where r: "r \<in> set (selected_events f i db)" "load_event r = Inr he" "e = evidence_event_of he" by blast
    note facts = loaded_event [OF r(2) _ conjunct2 [OF member [OF r(1)]], folded r(3)]
    have exportable: "event_exportable r" using assms(2) member [OF r(1)] by blast
    have "List.find (\<lambda>le. LeID le = LeID (ledger_event_of r)) ?les = Some (ledger_event_of r)"
      by (rule find_distinct) (use ids member [OF r(1)] in \<open>simp_all add: comp_def ledger_event_of_def\<close>)
    moreover have "LeID (ledger_event_of r) = XeID e" using facts(2) [OF exportable] by (simp add: ledger_event_of_def)
    ultimately show ?thesis using facts(1) [OF exportable] by auto
  qed
  have "map (\<lambda>e. XeID (evidence_event_of e)) events = map EventID (selected_events f i db)"
  proof (rule nth_equalityI)
    show "length (map (\<lambda>e. XeID (evidence_event_of e)) events) = length (map EventID (selected_events f i db))"
      using arg_cong [OF mapped, of length] by simp
    fix k assume k: "k < length (map (\<lambda>e. XeID (evidence_event_of e)) events)"
    with arg_cong [OF mapped, of length] have k': "k < length (selected_events f i db)" by simp
    have l: "load_event (selected_events f i db ! k) = Inr (events ! k)"
      using arg_cong [OF mapped, of "\<lambda>l. l ! k"] k k' by simp
    have m: "selected_events f i db ! k \<in> set (selected_events f i db)" using k' by simp
    show "map (\<lambda>e. XeID (evidence_event_of e)) events ! k = map EventID (selected_events f i db) ! k"
      using loaded_event(2) [OF l _ conjunct2 [OF member [OF m]]] assms(2) member [OF m] k k' by simp
  qed
  moreover have "distinct (map EventID (selected_events f i db))"
    unfolding selected_events_def by (rule distinct_filtered [OF ids])
  ultimately show "distinct (map XeID (map evidence_event_of events))" by (simp add: comp_def)
qed simp

lemma loaded_bound:
  assumes "ledger_wf sign key db" and "history_wf db" and "recordable db" and "row \<in> set (EventBatches db)"
    and "batch_exportable db row" and "timed row = Inr (t, row)" and "loadHistoryBatch deliveries f True db (t, row) = Inr b0"
    and "HbEvents b0 \<noteq> []" and "b = b0 \<or> b = b0\<lparr>HbChanges := n\<rparr>"
    and "e \<in> set (Ledger db)" and "LedgerBatchID e = BatchRowID row"
    and "List.find (\<lambda>l. XlSequence l = LedgerSequence e) links = Some (link_of e)"
  shows "check_bound links (evidenceBatch b) = None" and "HbSequence b = LedgerSequence e" and "HbID b = BatchRowID row"
    and "HbPrevHash b = PrevHash e" and "HbHash b = EntryHash e" and "HbKeyID b = LedgerKeyID e"
proof -
  let ?i = "BatchRowID row"
  have ids: "distinct (map BatchRowID (EventBatches db))" "distinct (map EventID (history_db.Events db))"
    using assms(2) by (auto simp: history_wf_def strict_sorted_iff sorted_wrt_map [symmetric])
  have batch: "batch_of ?i db = Some row" unfolding batch_of_def by (rule find_distinct [OF ids(1) assms(4)])
  have "distinct (map LedgerBatchID (Ledger db))" using assms(1) by (simp add: ledger_wf_def)
  from find_distinct [OF this assms(10)] have entry: "List.find (\<lambda>e. LedgerBatchID e = ?i) (Ledger db) = Some e" by (simp add: assms(11))
  have "LedgerSequence e \<in> set [1..int (length (Ledger db))]"
    using assms(1,10) unfolding ledger_wf_def by (metis image_eqI list.set_map)
  then have positive: "0 < LedgerSequence e" by simp
  obtain payload lb where lb: "evidenceLedgerPayload ?i db = Some (payload, lb)" "HbTrigger b0 = LbTrigger lb" "HbTriggers b0 = LbTriggers lb"
    by (rule loaded_batch [OF assms(7)]) (use batch in blast)
  obtain events where events: "collect_all (map load_event (selected_events f ?i db)) = Inr events" "HbEvents b0 = events"
    by (rule loaded_batch [OF assms(7)])
  have fields: "HbID b0 = ?i" "HbGen b0 = BatchRowGen row" "HbObserved b0 = t" "HbSequence b0 = LedgerSequence e"
    "HbPrevHash b0 = PrevHash e" "HbHash b0 = EntryHash e" "HbSignature b0 = LedgerSignature e" "HbKeyID b0 = LedgerKeyID e"
    "HbPayload b0 = payload"
    by (rule loaded_batch [OF assms(7)], use entry positive lb(1) in simp)+
  have b: "HbID b = HbID b0" "HbGen b = HbGen b0" "HbObserved b = HbObserved b0" "HbSequence b = HbSequence b0" "HbPrevHash b = HbPrevHash b0"
    "HbHash b = HbHash b0" "HbSignature b = HbSignature b0" "HbKeyID b = HbKeyID b0" "HbPayload b = HbPayload b0"
    "HbTrigger b = HbTrigger b0" "HbTriggers b = HbTriggers b0" "HbEvents b = HbEvents b0"
    using assms(9) by auto
  show "HbSequence b = LedgerSequence e" "HbID b = BatchRowID row" "HbPrevHash b = PrevHash e" "HbHash b = EntryHash e" "HbKeyID b = LedgerKeyID e"
    using b fields by simp_all
  have payload: "payload = evidenceLedgerBatch lb" "LbID lb = ?i" "LbGen lb = BatchRowGen row" "LbObserved lb = BatchObserved row"
    "LbChanges lb = BatchChanges row" "LbEvents lb = map ledger_event_of (events_of ?i db)"
    using lb(1) batch by (auto simp: evidenceLedgerPayload_def Let_def batch_of_def dest: found)
  have "ledger_batch_ok lb" using assms(3,10,11) lb(1) by (force simp: recordable_def)
  then have decoded: "decodeLedgerPayload payload = Some lb" using payload_decoded payload(1) by simp
  have count: "BatchChanges row = int (length (events_of ?i db))"
    using assms(5,10,11) by (auto simp: batch_exportable_def)
  have "selected_events f ?i db \<noteq> []" using load_fields [OF assms(7)] assms(8) by simp
  then have "events_of ?i db \<noteq> []" by (auto simp: selected_events_def)
  then have changes: "0 < LbChanges lb" using payload(5) count by simp
  have nonempty: "payload \<noteq> ''''" unfolding payload(1) by (simp add: evidenceLedgerBatch_def struct_text_def)
  then have encoded: "b64_encode False payload \<noteq> ''''" using b64_round_trip [of False payload] by (metis b64_round_trip b64_encode.simps(1) option.inject)
  have "payload_of (LedgerBatchID e) db = Some payload" by (simp add: payload_of_def assms(11) lb(1))
  then have hash: "EntryHash e = hex_encode (ledgerDigest (PrevHash e) payload)"
    using assms(1,10) by (auto simp: ledger_wf_def list_all_iff entry_true_def)
  have time: "same_instant (BatchObserved row) (t, 0)" using assms(6) by (auto simp: timed_def same_instant_def split: option.splits)
  have bound: "bind_events (LbEvents lb) ?i [] (map evidence_event_of events) = None"
    unfolding payload(6) by (rule loaded_events_bound [OF events(1)]) (use assms(5) ids(2) in \<open>auto simp: batch_exportable_def\<close>)
  have "distinct (map LeID (LbEvents lb))"
    unfolding payload(6) using distinct_filtered [OF ids(2)] by (simp add: comp_def ledger_event_of_def events_of_def)
  with bound time changes payload lb(2,3) count fields b decoded nonempty events(2) have
    "verifyLedgerPayloadBinding (evidenceBatch b) lb = None"
    by (simp add: verifyLedgerPayloadBinding_def evidenceBatch_def ledger_changes_def)
  with assms(11,12) fields b decoded encoded nonempty hash payload(2,3) changes show "check_bound links (evidenceBatch b) = None"
    by (simp add: check_bound_def evidenceBatch_def link_of_def b64_round_trip ledger_changes_def)
qed

subsection \<open>The links\<close>

text \<open>A contiguous piece of the ledger passes the checks of its links.\<close>

lemma own_link:
  assumes "ed25519_correct sign verify key" and "KeyID key = evidenceKeyID (PublicKey key)" and "signed_entry sign key r"
    and "0 < LedgerSequence r" and "LedgerSequence r \<notin> set seen" and "PrevHash r = '''' \<or> hash_text (PrevHash r)"
    and "before = None \<and> (LedgerSequence r = 1 \<longrightarrow> PrevHash r = '''')
         \<or> (\<exists>q. before = Some (link_of q) \<and> LedgerSequence r = LedgerSequence q + 1 \<and> PrevHash r = EntryHash q)"
  shows "check_link verify (PublicKey key) (KeyID key) before seen (link_of r) = None"
proof -
  obtain payload where p: "EntryHash r = hex_encode (ledgerDigest (PrevHash r) payload)"
      "LedgerSignature r = b64_encode False (sign (PrivateKey key) (ledgerDigest (PrevHash r) payload))" "LedgerKeyID r = KeyID key"
    using assms(3) by (auto simp: signed_entry_def)
  have length: "length (hex_encode (ledgerDigest x y)) = 64" for x y
    by (simp add: length_hex_encode ledgerDigest_def length_sha256)
  have signature: "decodeKeyMaterial (LedgerSignature r) SignatureSize = Some (sign (PrivateKey key) (ledgerDigest (PrevHash r) payload))"
    unfolding p(2) using assms(1) by (intro key_material_round_trip) (simp add: ed25519_correct_def)
  moreover have "LedgerSignature r \<noteq> ''''"
  proof
    assume "LedgerSignature r = ''''"
    with signature have "decodeKeyMaterial '''' SignatureSize \<noteq> None" by simp
    moreover have "decodeKeyMaterial '''' SignatureSize = None" by code_simp
    ultimately show False by simp
  qed
  moreover have "verify (PublicKey key) (ledgerDigest (PrevHash r) payload) (sign (PrivateKey key) (ledgerDigest (PrevHash r) payload))"
    using assms(1) by (simp add: ed25519_correct_def)
  moreover have "hex_decode (EntryHash r) = Some (ledgerDigest (PrevHash r) payload)" "length (EntryHash r) = 64"
    unfolding p(1) by (rule hex_round_trip, rule length)
  ultimately have own: "check_link verify (PublicKey key) (KeyID key) before seen (link_of r) =
      (if before = None \<and> LedgerSequence r = 1 \<and> PrevHash r \<noteq> [] then Some GenesisHasPrevious
       else case before of None \<Rightarrow> None
         | Some p \<Rightarrow> if LedgerSequence r \<noteq> XlSequence p + 1 then Some (SequenceGap (XlSequence p) (LedgerSequence r))
                    else if PrevHash r \<noteq> XlHash p then Some (ChainMismatch (LedgerSequence r) (XlSequence p)) else None)"
    using assms(4-6) p(3) by (elim disjE) (simp_all add: check_link_def link_of_def Let_def split: option.split)
  show ?thesis using assms(7)
  proof
    assume "before = None \<and> (LedgerSequence r = 1 \<longrightarrow> PrevHash r = [])"
    then show ?thesis unfolding own by simp
  next
    assume "\<exists>q. before = Some (link_of q) \<and> LedgerSequence r = LedgerSequence q + 1 \<and> PrevHash r = EntryHash q"
    then obtain q where "before = Some (link_of q)" "LedgerSequence r = LedgerSequence q + 1" "PrevHash r = EntryHash q" by blast
    then show ?thesis unfolding own by (simp add: link_of_def)
  qed
qed

lemma own_links:
  assumes "ed25519_correct sign verify key" and "KeyID key = evidenceKeyID (PublicKey key)"
    and "map LedgerSequence rs = [m..m + int (length rs) - 1]" and "0 < m" and "ledger_chain previous rs" and "list_all (signed_entry sign key) rs"
    and "previous = '''' \<or> hash_text previous" and "\<forall>n \<in> set seen. n < m"
    and "before = None \<and> (m = 1 \<longrightarrow> previous = '''') \<or> (\<exists>q. before = Some (link_of q) \<and> m = LedgerSequence q + 1 \<and> previous = EntryHash q)"
  shows "check_links verify (PublicKey key) (KeyID key) before seen (map link_of rs) = None"
  using assms(3-)
proof (induction rs arbitrary: m previous before seen)
  case (Cons r rs)
  have s: "LedgerSequence r = m" "map LedgerSequence rs = [m + 1..(m + 1) + int (length rs) - 1]"
    using Cons.prems(1) by (simp_all add: upto_rec1)
  have "check_link verify (PublicKey key) (KeyID key) before seen (link_of r) = None"
    by (rule own_link [OF assms(1,2)]) (use Cons.prems s in auto)
  moreover have "hash_text (EntryHash r)"
    using Cons.prems(4) by (auto simp: signed_entry_def hash_text_def length_hex_encode ledgerDigest_def length_sha256 hex_round_trip)
  then have "check_links verify (PublicKey key) (KeyID key) (Some (link_of r)) (m # seen) (map link_of rs) = None"
    by (intro Cons.IH [where previous = "EntryHash r" and m = "m + 1"]) (use Cons.prems s in auto)
  moreover have "XlSequence (link_of r) = m" using s(1) by (simp add: link_of_def)
  ultimately show ?case by simp
qed simp

text \<open>The entries of a range of sequences are a piece of the ledger.\<close>

lemma sequence_range:
  assumes "map LedgerSequence rs = [1..int (length rs)]" and "1 \<le> lo" and "lo \<le> hi" and "hi \<le> int (length rs)"
  shows "filter (\<lambda>r. lo \<le> LedgerSequence r \<and> LedgerSequence r \<le> hi) rs = take (nat (hi - lo + 1)) (drop (nat (lo - 1)) rs)"
proof -
  obtain a where a: "lo = int a + 1" using zle_iff_zadd [of 1 lo] assms(2) by (auto simp: add.commute)
  obtain k where k: "hi = int a + int k" using zle_iff_zadd [of "int a" hi] assms(3) a by auto
  have nth: "LedgerSequence (rs ! i) = int i + 1" if "i < length rs" for i
    using arg_cong [OF assms(1), of "\<lambda>l. l ! i"] that by simp
  have split: "rs = take a rs @ take k (drop a rs) @ drop (k + a) rs"
    by (metis append_take_drop_id drop_drop)
  let ?p = "\<lambda>r. lo \<le> LedgerSequence r \<and> LedgerSequence r \<le> hi"
  have "filter ?p (take a rs) = []"
    using nth a by (auto simp: filter_empty_conv in_set_conv_nth)
  moreover have "filter ?p (drop (k + a) rs) = []"
    using nth k by (auto simp: filter_empty_conv in_set_conv_nth)
  moreover have "filter ?p (take k (drop a rs)) = take k (drop a rs)"
    using nth a k by (auto simp: filter_id_conv in_set_conv_nth)
  ultimately have "filter ?p rs = take k (drop a rs)" by (subst split) (simp only: filter_append append_Nil append_Nil2)
  then show ?thesis using a k by (simp add: nat_add_distrib)
qed

lemma chain_piece:
  assumes "ledger_chain previous rs" and "a < length rs"
  shows "ledger_chain (if a = 0 then previous else EntryHash (rs ! (a - 1))) (take k (drop a rs))"
proof -
  have "rs = take a rs @ take k (drop a rs) @ drop (k + a) rs"
    by (metis append_take_drop_id drop_drop)
  with assms(1) have "ledger_chain (if take a rs = [] then previous else EntryHash (last (take a rs))) (take k (drop a rs))"
    by (metis ledger_chain_append)
  moreover have "take a rs \<noteq> [] \<Longrightarrow> last (take a rs) = rs ! (a - 1)" using assms(2) by (simp add: last_conv_nth min_def)
  ultimately show ?thesis using assms(2) by (auto split: if_splits)
qed

text \<open>The segment of the links that a part carries: all entries of its range.\<close>

lemma within_first:
  assumes "n \<le> batches_within firstLink count0 bs" and "b \<in> set (take n bs)" and "0 < XbSequence b"
  shows "firstLink \<le> ledgerCheckpointSequence (XbSequence b)"
  using assms
proof (induction bs arbitrary: n count0)
  case (Cons x bs)
  then obtain k where k: "n = Suc k" by (cases n) auto
  with Cons.prems(1) have w: "k \<le> batches_within firstLink (count0 + length (XbEvents x)) bs"
      "\<not> (0 < XbSequence x \<and> ledgerCheckpointSequence (XbSequence x) < firstLink)"
    by (auto split: if_splits)
  show ?case
  proof (cases "b = x")
    case True
    then show ?thesis using w(2) Cons.prems(3) by auto
  next
    case False
    then show ?thesis using Cons.IH [OF w(1)] Cons.prems(2,3) k by simp
  qed
qed simp

lemma checkpoint_mono: "a \<le> b \<Longrightarrow> 1 \<le> a \<Longrightarrow> ledgerCheckpointSequence a \<le> ledgerCheckpointSequence b"
  by (auto simp: ledgerCheckpointSequence_def)

lemma checkpoint_range: "1 \<le> a \<Longrightarrow> 1 \<le> ledgerCheckpointSequence a \<and> ledgerCheckpointSequence a \<le> a"
  by (auto simp: ledgerCheckpointSequence_def)

lemma rev_take_rev: "rev (take k (rev xs)) = drop (length xs - k) xs"
  by (simp add: take_rev)

lemma filter_suffix:
  assumes "sorted_wrt (\<lambda>a b. key a < key b) rows" and "d < length rows" and "key (rows ! d) \<le> (lo :: int)" and "\<And>r. q r \<Longrightarrow> lo \<le> key r"
  shows "filter q (drop d rows) = filter q rows"
proof -
  have split: "rows = take d rows @ rows ! d # drop (Suc d) rows" using assms(2) by (simp add: id_take_nth_drop [symmetric])
  have "sorted_wrt (\<lambda>a b. key a < key b) (take d rows @ rows ! d # drop (Suc d) rows)" using assms(1) split by simp
  then have "\<forall>r \<in> set (take d rows). key r < key (rows ! d)" by (simp add: sorted_wrt_append)
  then have "filter q (take d rows) = []" using assms(3,4) by (fastforce simp: filter_empty_conv)
  then show ?thesis by (metis append_take_drop_id filter_append append_Nil)
qed

lemma case_nonempty: "xs \<noteq> [] \<Longrightarrow> (case xs of [] \<Rightarrow> z | a # l \<Rightarrow> f (a # l)) = f xs"
  by (cases xs) auto

lemma part_links:
  fixes db bs n limit
  defines "links \<equiv> evidenceLedgerLinks limit (map XbSequence bs) db" and "ns \<equiv> map XbSequence (take n bs)"
  defines "lo \<equiv> ledgerCheckpointSequence (Min (set ns))" and "hi \<equiv> Max (set ns)"
  assumes "map LedgerSequence (Ledger db) = [1..int (length (Ledger db))]"
    and "\<forall>b \<in> set bs. 1 \<le> XbSequence b \<and> XbSequence b \<le> int (length (Ledger db))"
    and "n \<le> evidenceBatchesWithinCaps bs links" and "ns \<noteq> []" and "0 < limit"
  shows "evidenceLinksFor (take n bs) links = map link_of (filter (\<lambda>r. lo \<le> LedgerSequence r \<and> LedgerSequence r \<le> hi) (Ledger db))"
proof -
  let ?all = "map XbSequence bs" and ?L = "Ledger db"
  let ?start = "ledgerCheckpointSequence (Min (set ?all))" and ?highest = "Max (set ?all)"
  let ?in = "\<lambda>r. lo \<le> LedgerSequence r \<and> LedgerSequence r \<le> hi"
  let ?rows = "filter (\<lambda>r. ?start \<le> LedgerSequence r \<and> LedgerSequence r \<le> ?highest) ?L"
  have bs: "set ns \<subseteq> set ?all" "?all \<noteq> []" using assms(8) by (auto simp: ns_def dest: in_set_takeD)
  have positive: "\<forall>x \<in> set ?all. 1 \<le> x \<and> x \<le> int (length ?L)" using assms(6) by auto
  have nonzero: "filter (\<lambda>n. n \<noteq> 0) ?all = ?all" "filter (\<lambda>n. n \<noteq> 0) ns = ns"
    using positive bs(1) by (force simp: filter_id_conv)+
  have "sorted (map LedgerSequence ?L)" unfolding assms(5) by simp
  then have id: "sort_key LedgerSequence ?L = ?L" by (simp add: sorted_sort_id sort_key_id_if_sorted)
  define d where "d = length ?rows - nat (min limit (?highest - ?start + 1))"
  have links: "links = map link_of (drop d ?rows)"
    unfolding links_def evidenceLedgerLinks_def nonzero(1) Let_def id rev_take_rev d_def by (rule case_nonempty [OF bs(2)])
  have mins: "Min (set ?all) \<le> Min (set ns)" "Max (set ns) \<le> Max (set ?all)" "1 \<le> Min (set ?all)" "Min (set ?all) \<le> Max (set ?all)"
    "1 \<le> Min (set ns)" "Max (set ?all) \<le> int (length ?L)"
    using bs positive assms(8) Min_antimono [OF bs(1)] Max_mono [OF bs(1)] by (auto intro: Min_in Max_in simp del: set_map)
  have strict: "sorted_wrt (\<lambda>a b. LedgerSequence a < LedgerSequence b) ?rows"
  proof -
    have "sorted_wrt (<) (map LedgerSequence ?L)" unfolding assms(5) by simp
    then show ?thesis by (simp add: sorted_wrt_map sorted_wrt_filter)
  qed
  have "?highest \<in> set (map LedgerSequence ?L)" unfolding assms(5) using mins by simp
  then obtain top where "top \<in> set ?L" "LedgerSequence top = ?highest" by auto
  moreover have start: "?start \<le> ?highest" "?start \<le> lo" "hi \<le> ?highest"
    using mins checkpoint_range [of "Min (set ?all)"] checkpoint_mono [OF mins(1,3)] by (simp_all add: lo_def hi_def)
  ultimately have top: "top \<in> set ?rows" by simp
  have "?rows \<noteq> []"
  proof
    assume none: "?rows = []"
    from top show False unfolding none by simp
  qed
  moreover have "0 < nat (min limit (?highest - ?start + 1))" using start(1) assms(9) by simp
  ultimately have d: "d < length ?rows" by (simp add: d_def)
  have drop: "drop d ?rows = ?rows ! d # drop (Suc d) ?rows" using d by (simp add: Cons_nth_drop_Suc)
  have first: "n \<le> batches_within (LedgerSequence (?rows ! d)) 0 bs"
    using assms(7) unfolding evidenceBatchesWithinCaps_def links drop by (simp add: link_of_def)
  have "Min (set ns) \<in> set ns" using assms(8) by (intro Min_in) auto
  then obtain b where "b \<in> set (take n bs)" "XbSequence b = Min (set ns)" by (auto simp: ns_def)
  then have low: "LedgerSequence (?rows ! d) \<le> lo" using within_first [OF first, of b] mins(5) by (simp add: lo_def)
  have "filter ?in (drop d ?rows) = filter ?in ?rows" by (rule filter_suffix [OF strict d low]) simp
  also have "\<dots> = filter ?in ?L" using start(2,3) by (auto intro: filter_cong)
  finally have piece: "filter ?in (drop d ?rows) = filter ?in ?L" .
  have "evidenceLinksFor (take n bs) links = filter (\<lambda>l. lo \<le> XlSequence l \<and> XlSequence l \<le> hi) links"
    unfolding evidenceLinksFor_def ns_def [symmetric] nonzero(2) lo_def hi_def by (rule case_nonempty [OF assms(8)])
  also have "\<dots> = map link_of (filter ?in (drop d ?rows))" unfolding links by (simp add: filter_map comp_def link_of_def)
  finally show ?thesis unfolding piece .
qed

subsection \<open>The ledger of a part\<close>

lemma check_batches_ok:
  assumes "\<forall>b \<in> set bs. 0 < XbSequence b \<and> XbKeyID b = keyID \<and> hash_text (XbHash b) \<and> (XbPrevHash b = '''' \<or> hash_text (XbPrevHash b))"
    and "distinct (map XbSequence bs)" and "set (map XbSequence bs) \<inter> set seen = {}"
  shows "check_batches keyID seen bs = None"
  using assms by (induction bs arbitrary: seen) auto

lemma check_batches_unledgered:
  "\<forall>b \<in> set bs. XbSequence b = 0 \<and> XbKeyID b = '''' \<Longrightarrow> check_batches keyID seen bs = None"
  by (induction bs) auto

lemma check_neighbours_ok:
  assumes "\<And>a b. a \<in> set bs \<Longrightarrow> b \<in> set bs \<Longrightarrow> 0 < XbSequence a \<Longrightarrow> 0 < XbSequence b \<Longrightarrow> XbSequence a = XbSequence b + 1 \<Longrightarrow> XbPrevHash a = XbHash b"
  shows "check_neighbours bs = None"
  using assms
proof (induction bs rule: check_neighbours.induct)
  case (1 newer older bs)
  have ok: "\<not> (0 < XbSequence newer \<and> 0 < XbSequence older \<and> XbSequence newer = XbSequence older + 1 \<and> XbPrevHash newer \<noteq> XbHash older)"
    using 1(2) [of newer older] by auto
  moreover have "check_neighbours (older # bs) = None" by (rule 1(1) [OF ok]) (rule 1(2), simp_all)
  ultimately show ?case by simp
qed simp_all

text \<open>Consecutive entries are chained.\<close>

lemma entry_index:
  assumes "map LedgerSequence rs = [1..int (length rs)]" and "r \<in> set rs"
  shows "\<exists>i < length rs. r = rs ! i \<and> LedgerSequence r = int i + 1"
proof -
  from assms(2) obtain i where i: "i < length rs" "r = rs ! i" by (auto simp: in_set_conv_nth)
  with arg_cong [OF assms(1), of "\<lambda>l. l ! i"] show ?thesis by auto
qed

lemma entries_chained:
  assumes "map LedgerSequence rs = [1..int (length rs)]" and "ledger_chain previous rs"
    and "a \<in> set rs" and "b \<in> set rs" and "LedgerSequence a = LedgerSequence b + 1"
  shows "PrevHash a = EntryHash b"
proof -
  from entry_index [OF assms(1,3)] entry_index [OF assms(1,4)] obtain i j where
    i: "i < length rs" "a = rs ! i" "LedgerSequence a = int i + 1" and j: "j < length rs" "b = rs ! j" "LedgerSequence b = int j + 1" by blast
  have "i = Suc j" using assms(5) i(3) j(3) by simp
  then show ?thesis using chain_piece [OF assms(2) i(1), of 1] i(1,2) j(2) by (simp add: take_Suc hd_drop_conv_nth)
qed

text \<open>What is known of a ledgered batch of a page.\<close>

definition entry_of :: "history_db \<Rightarrow> evidence_batch \<Rightarrow> ledger_row \<Rightarrow> bool" where
  "entry_of db b r \<longleftrightarrow> r \<in> set (Ledger db) \<and> XbSequence b = LedgerSequence r \<and> XbID b = LedgerBatchID r \<and> XbPrevHash b = PrevHash r
     \<and> XbHash b = EntryHash r \<and> XbKeyID b = LedgerKeyID r
     \<and> (\<forall>links. List.find (\<lambda>l. XlSequence l = LedgerSequence r) links = Some (link_of r) \<longrightarrow> check_bound links b = None)"

lemma own_ledger_verified:
  assumes "ed25519_correct sign verify key" and "KeyID key = evidenceKeyID (PublicKey key)" and "length (PublicKey key) = PublicKeySize"
    and "ledger_wf sign key db" and "0 < limit"
    and "XpBatches p = take n bs" and "XpLinks p = evidenceLinksFor (take n bs) (evidenceLedgerLinks limit (map XbSequence bs) db)"
    and "XpKeyID p = KeyID key" and "XpPublicKey p = b64_encode False (PublicKey key)"
    and "n \<le> evidenceBatchesWithinCaps bs (evidenceLedgerLinks limit (map XbSequence bs) db)"
    and "validateLedgerBatchState bs = None" and "distinct (map XbID bs)"
    and "\<And>b. b \<in> set bs \<Longrightarrow> (\<exists>r. entry_of db b r) \<or> XbSequence b = 0 \<and> XbKeyID b = ''''"
  shows "verifyLedgerLinks verify p = None"
proof -
  let ?L = "Ledger db" and ?bs = "take n bs"
  have wf: "map LedgerSequence ?L = [1..int (length ?L)]" "ledger_chain '''' ?L" "list_all (signed_entry sign key) ?L"
    using assms(4) by (simp_all add: ledger_wf_def)
  have range: "1 \<le> LedgerSequence r \<and> LedgerSequence r \<le> int (length ?L)" if "r \<in> set ?L" for r
    using entry_index [OF wf(1) that] by auto
  have nonneg: "0 \<le> XbSequence b" if "b \<in> set bs" for b
    using assms(13) [OF that] range by (force simp: entry_of_def)
  have mixed: "\<not> (list_ex (\<lambda>b. XbSequence b \<noteq> 0) bs \<and> list_ex (\<lambda>b. XbSequence b = 0) bs)"
    using assms(11) by (auto simp: validateLedgerBatchState_def split: option.splits if_splits)
  have none: "List.find (\<lambda>b. XbSequence b < 0) ?bs = None"
    using nonneg by (auto simp: find_None_iff not_less dest: in_set_takeD)
  have valid: "validateLedgerBatchState ?bs = None"
    using mixed none by (auto simp: validateLedgerBatchState_def list_ex_iff dest: in_set_takeD)
  show ?thesis
  proof (cases "\<exists>b \<in> set ?bs. XbSequence b \<noteq> 0")
    case False
    then have plain: "\<forall>b \<in> set ?bs. XbSequence b = 0 \<and> XbKeyID b = ''''"
    proof -
      have "XbKeyID b = ''''" if "b \<in> set ?bs" for b
      proof -
        from that have "b \<in> set bs" "XbSequence b = 0" using False by (auto dest: in_set_takeD)
        with assms(13) [of b] range show ?thesis by (force simp: entry_of_def)
      qed
      with False show ?thesis by blast
    qed
    have "filter (\<lambda>n. n \<noteq> 0) (map XbSequence ?bs) = []" using plain by (auto simp: filter_empty_conv)
    then have "XpLinks p = []" by (simp only: assms(7) evidenceLinksFor_def list.case)
    moreover have "ledgered ?bs = []" using plain by (auto simp: ledgered_def filter_empty_conv)
    moreover have "check_neighbours ?bs = None" by (rule check_neighbours_ok) (use plain in auto)
    ultimately show ?thesis using valid check_batches_unledgered [OF plain] by (simp add: verifyLedgerLinks_def assms(6))
  next
    case True
    then have "list_ex (\<lambda>b. XbSequence b \<noteq> 0) bs" by (auto simp: list_ex_iff dest: in_set_takeD)
    with mixed have nonzero: "\<forall>b \<in> set bs. XbSequence b \<noteq> 0" by (auto simp: list_ex_iff)
    have entry: "\<exists>r. entry_of db b r" if "b \<in> set bs" for b using assms(13) [OF that] nonzero that by blast
    have entry': "\<exists>r. entry_of db b r" if "b \<in> set ?bs" for b using entry in_set_takeD [OF that] by blast
    have sequences: "\<forall>b \<in> set bs. 1 \<le> XbSequence b \<and> XbSequence b \<le> int (length ?L)" using entry range by (force simp: entry_of_def)
    let ?ns = "map XbSequence ?bs"
    let ?lo = "ledgerCheckpointSequence (Min (set ?ns))" and ?hi = "Max (set ?ns)"
    have ns: "?ns \<noteq> []" using True by (auto simp del: take_eq_Nil)
    define piece where "piece = filter (\<lambda>r. ?lo \<le> LedgerSequence r \<and> LedgerSequence r \<le> ?hi) ?L"
    have links: "XpLinks p = map link_of piece"
      unfolding assms(7) piece_def by (rule part_links [OF wf(1) sequences assms(10) ns assms(5)])
    have "Min (set ?ns) \<in> set ?ns" "?hi \<in> set ?ns" using ns by (auto intro: Min_in Max_in simp del: set_map take_eq_Nil)
    then have ends: "1 \<le> Min (set ?ns)" "?hi \<le> int (length ?L)" "Min (set ?ns) \<le> ?hi"
      using sequences by (auto dest: in_set_takeD)
    then have lo: "1 \<le> ?lo" "?lo \<le> ?hi" using checkpoint_range [OF ends(1)] by simp_all
    define a where "a = nat (?lo - 1)"
    have piece: "piece = take (nat (?hi - ?lo + 1)) (drop a ?L)"
      unfolding piece_def a_def by (rule sequence_range [OF wf(1) lo ends(2)])
    have a: "a < length ?L" "?lo = int a + 1" using lo ends(2) by (simp_all add: a_def)
    have numbers: "map LedgerSequence piece = [?lo..?hi]"
    proof (rule nth_equalityI)
      show "length (map LedgerSequence piece) = length [?lo..?hi]" using a ends(2) lo(2) unfolding piece by simp
      fix i assume "i < length (map LedgerSequence piece)"
      then have "i < nat (?hi - ?lo + 1) \<and> i < length ?L - a" unfolding piece by simp
      then have i: "i < nat (?hi - ?lo + 1)" "a + i < length ?L" by linarith+
      have "map LedgerSequence piece ! i = map LedgerSequence ?L ! (a + i)" using i unfolding piece by simp
      also have "\<dots> = ?lo + int i" unfolding wf(1) using i(2) a(2) by simp
      also have "\<dots> = [?lo..?hi] ! i" using i(1) by simp
      finally show "map LedgerSequence piece ! i = [?lo..?hi] ! i" .
    qed
    have numbers': "map XlSequence (map link_of piece) = [?lo..?hi]" using numbers by (simp add: comp_def link_of_def)
    have sorted: "sort_key XlSequence (map link_of piece) = map link_of piece"
      by (rule sort_key_id_if_sorted) (simp only: numbers' sorted_upto)
    have nonempty: "piece \<noteq> []" using numbers lo(2) by auto
    have "hd (map XlSequence (map link_of piece)) = ?lo" unfolding numbers' by (subst upto_rec1 [OF lo(2)]) simp
    moreover have "last (map XlSequence (map link_of piece)) = ?hi" unfolding numbers' by (subst upto_rec2 [OF lo(2)]) simp
    ultimately have hd_last: "XlSequence (hd (map link_of piece)) = ?lo" "XlSequence (last (map link_of piece)) = ?hi"
      using nonempty by (simp_all add: hd_map last_map)
    let ?previous = "if a = 0 then '''' else EntryHash (?L ! (a - 1))"
    have hash: "hash_text (EntryHash r)" if "r \<in> set ?L" for r
      using wf(3) that
      by (auto simp: list_all_iff signed_entry_def hash_text_def length_hex_encode ledgerDigest_def length_sha256 hex_round_trip)
    have chain: "ledger_chain ?previous piece" unfolding piece by (rule chain_piece [OF wf(2) a(1)])
    have checked: "check_links verify (PublicKey key) (KeyID key) None [] (map link_of piece) = None"
    proof (rule own_links [OF assms(1,2) _ _ chain])
      show "map LedgerSequence piece = [?lo..?lo + int (length piece) - 1]"
      proof -
        have "length piece = nat (?hi - ?lo + 1)" using arg_cong [OF numbers, of length] by simp
        then have "?lo + int (length piece) - 1 = ?hi" using lo(2) by simp
        with numbers show ?thesis by (simp only:)
      qed
      show "0 < ?lo" using lo(1) by simp
      show "list_all (signed_entry sign key) piece" using wf(3) by (simp add: piece_def list_all_iff)
      show "?previous = '''' \<or> hash_text ?previous" using hash a(1) by simp
      show "\<forall>n \<in> set []. n < ?lo" by simp
      show "None = None \<and> (?lo = 1 \<longrightarrow> ?previous = '''')
         \<or> (\<exists>q. None = Some (link_of q) \<and> ?lo = LedgerSequence q + 1 \<and> ?previous = EntryHash q)" using a(2) by simp
    qed
    have bound: "check_bound (map link_of piece) b = None" if b: "b \<in> set ?bs" for b
    proof -
      obtain r where r: "entry_of db b r" using entry' [OF b] by blast
      have "XbSequence b \<in> set ?ns" using b by simp
      then have "Min (set ?ns) \<le> XbSequence b" "XbSequence b \<le> ?hi" by (simp_all del: set_map)
      then have "r \<in> set piece" using r checkpoint_range [OF ends(1)] by (auto simp: piece_def entry_of_def simp del: set_map)
      then have "link_of r \<in> set (map link_of piece)" by simp
      moreover have "distinct (map XlSequence (map link_of piece))" unfolding numbers' by simp
      ultimately have "List.find (\<lambda>l. XlSequence l = XlSequence (link_of r)) (map link_of piece) = Some (link_of r)"
        by (intro find_distinct)
      then show ?thesis using r by (simp add: entry_of_def link_of_def)
    qed
    have "check_batches (KeyID key) [] ?bs = None"
    proof (rule check_batches_ok)
      show "\<forall>b \<in> set ?bs. 0 < XbSequence b \<and> XbKeyID b = KeyID key \<and> hash_text (XbHash b) \<and> (XbPrevHash b = '''' \<or> hash_text (XbPrevHash b))"
      proof
        fix b assume b: "b \<in> set ?bs"
        then obtain r where r: "entry_of db b r" using entry' by blast
        then have "r \<in> set ?L" by (simp add: entry_of_def)
        then show "0 < XbSequence b \<and> XbKeyID b = KeyID key \<and> hash_text (XbHash b) \<and> (XbPrevHash b = '''' \<or> hash_text (XbPrevHash b))"
          using r range [of r] hash [of r] written_previous [OF assms(4), of r] wf(3)
          by (auto simp: entry_of_def list_all_iff signed_entry_def)
      qed
      have "x = y" if xy: "x \<in> set bs" "y \<in> set bs" "XbSequence x = XbSequence y" for x y
      proof -
        obtain r q where rq: "entry_of db x r" "entry_of db y q" using entry xy(1,2) by blast
        then have "r = q" using entry_index [OF wf(1), of r] entry_index [OF wf(1), of q] xy(3) by (auto simp: entry_of_def)
        then have "XbID x = XbID y" using rq by (simp add: entry_of_def)
        then show ?thesis using assms(12) xy(1,2) by (auto simp: distinct_map inj_on_def)
      qed
      then have "distinct (map XbSequence bs)" using assms(12) by (auto simp: distinct_map inj_on_def)
      then show "distinct ?ns" by (simp add: distinct_take take_map [symmetric])
    qed simp
    moreover have "check_neighbours ?bs = None"
    proof (rule check_neighbours_ok)
      fix x y assume xy: "x \<in> set ?bs" "y \<in> set ?bs" "XbSequence x = XbSequence y + 1"
      then obtain r q where "entry_of db x r" "entry_of db y q" using entry' by blast
      then show "XbPrevHash x = XbHash y" using entries_chained [OF wf(1,2), of r q] xy(3) by (simp add: entry_of_def)
    qed
    moreover have "ledgered ?bs = ?bs" using sequences by (force simp: ledgered_def filter_id_conv dest: in_set_takeD)
    moreover have "decodeKeyMaterial (b64_encode False (PublicKey key)) PublicKeySize = Some (PublicKey key)"
      by (rule key_material_round_trip [OF assms(3)])
    moreover have "first_error (check_bound (map link_of piece)) ?bs = None" using bound by (simp add: first_error_None)
    moreover have "?bs \<noteq> []" using ns by auto
    ultimately show ?thesis
      unfolding verifyLedgerLinks_def assms(6,8,9) links Let_def sorted hd_last
      using valid checked nonempty by simp
  qed
qed

subsection \<open>The pack\<close>

text \<open>A database whose batches an export can show.\<close>

definition exportable :: "history_db \<Rightarrow> bool" where
  "exportable db \<longleftrightarrow> recordable db \<and> (\<forall>b \<in> set (EventBatches db). batch_exportable db b)"

lemma page_entry:
  assumes "ledger_wf sign key db" and "history_wf db" and "exportable db" and "row \<in> set (EventBatches db)" and "timed row = Inr (t, row)"
    and "loadHistoryBatch deliveries f True db (t, row) = Inr b0" and "HbEvents b0 \<noteq> []" and "b = b0 \<or> b = b0\<lparr>HbChanges := n\<rparr>"
  shows "(\<exists>r. entry_of db (evidenceBatch b) r) \<or> XbSequence (evidenceBatch b) = 0 \<and> XbKeyID (evidenceBatch b) = ''''"
proof (cases "List.find (\<lambda>e. LedgerBatchID e = BatchRowID row) (Ledger db)")
  case None
  have "HbSequence b0 = 0" by (rule loaded_batch [OF assms(6)]) (use None in simp)
  moreover have "HbKeyID b0 = ''''" by (rule loaded_batch [OF assms(6)]) (use None in simp)
  ultimately show ?thesis using assms(8) by (auto simp: evidenceBatch_def)
next
  case (Some e)
  then have e: "e \<in> set (Ledger db)" "LedgerBatchID e = BatchRowID row" using found [OF Some] by simp_all
  have ok: "recordable db" "batch_exportable db row" using assms(3,4) by (simp_all add: exportable_def)
  note bound = loaded_bound [OF assms(1,2) ok(1) assms(4) ok(2) assms(5-8) e]
  have "List.find (\<lambda>l. XlSequence l = LedgerSequence e) [link_of e] = Some (link_of e)" by (simp add: link_of_def)
  note fields = bound(2-) [OF this]
  have "entry_of db (evidenceBatch b) e"
    unfolding entry_of_def using e fields bound(1) by (simp add: evidenceBatch_def)
  then show ?thesis by blast
qed

lemma page_version:
  assumes "exportable db" and "row \<in> set (EventBatches db)" and "loadHistoryBatch deliveries f True db (t, row) = Inr b0"
    and "b = b0 \<or> b = b0\<lparr>HbChanges := n\<rparr>" and "XpVersion p = evidencePackVersion"
  shows "check_version_batch p (evidenceBatch b) = None"
proof -
  have ok: "batch_exportable db row" using assms(1,2) by (simp add: exportable_def)
  obtain events where events: "collect_all (map load_event (selected_events f (BatchRowID row) db)) = Inr events" "HbEvents b0 = events"
    by (rule loaded_batch [OF assms(3)])
  have status: "HbAttribution b0 = BatchAttribution row" by (rule loaded_batch [OF assms(3)])
  have "XeAttribution (evidence_event_of he) = None \<or> BatchAttribution row = AttributionComplete" if "he \<in> set events" for he
  proof -
    from that collect_all_length [OF events(1)] have "Inr he \<in> set (map load_event (selected_events f (BatchRowID row) db))" by simp
    then obtain r where r: "r \<in> set (selected_events f (BatchRowID row) db)" "load_event r = Inr he" by auto
    then have "r \<in> set (events_of (BatchRowID row) db)" "EventBatch r = Some (BatchRowID row)" by (auto simp: selected_events_def events_of_def)
    then show ?thesis using ok loaded_event(3) [OF r(2)] by (auto simp: batch_exportable_def)
  qed
  then show ?thesis
    using ok status assms(4,5) events(2)
    by (auto simp: check_version_batch_def check_version_event_def first_error_None evidenceBatch_def batch_exportable_def
        evidencePackVersion_def evidencePackVersionV3_def)
qed

lemma signed_pack_fields:
  assumes "signed_pack sign key p = Some q"
  obtains content where "evidencePayload p = Some content" "XpContentHash q = sha256_hex content" "XpKeyID q = KeyID key"
    "XpPublicKey q = b64_encode False (PublicKey key)" "XpSignature q = b64_encode False (sign (PrivateKey key) (evidenceSignaturePayload q))"
    "XpFormat q = XpFormat p" "XpVersion q = XpVersion p" "XpBatches q = XpBatches p" "XpLinks q = XpLinks p"
    "XpTruncated q = XpTruncated p" "XpNext q = XpNext p" "evidencePayload q = evidencePayload p"
proof -
  from assms obtain content where c: "evidencePayload p = Some content" by (auto simp: signed_pack_def split: option.splits)
  with assms show ?thesis
    by (intro that [of content]) (auto simp: signed_pack_def Let_def evidenceSignaturePayload_def evidencePayload_def)
qed

lemma descending_distinct: "sorted_wrt (>) (xs :: int list) \<Longrightarrow> distinct xs"
  by (induction xs) auto

lemma b64_nonempty: "s \<noteq> [] \<Longrightarrow> b64_encode url s \<noteq> []"
  using length_b64_encode [of url s] by (cases s) auto

lemma exported_verified:
  assumes "export_part sign key len deliveries limit generated filter0 db = Inr (p, t)"
    and "ed25519_correct sign verify key" and "KeyID key = evidenceKeyID (PublicKey key)" and "length (PublicKey key) = PublicKeySize"
    and "ledger_wf sign key db" and "history_wf db" and "exportable db" and "0 < limit"
  obtains q content where "signed_pack sign key p = Some q" "pack_text q = Some content"
    "t = indent_compact 0 False False False content @ newline" "length t \<le> maxEvidenceBytes"
    "verify_pack verify (PublicKey key) q = None"
proof -
  let ?f = "export_filter filter0"
  obtain page n where
    page: "listHistory len deliveries ?f (int maxEvidenceBytes) True db = Inr page" "PageTruncated page \<longrightarrow> PageBatches page \<noteq> []"
      "validateLedgerBatchState (map evidenceBatch (PageBatches page)) = None"
    and fit: "n \<le> evidenceBatchesWithinCaps (map evidenceBatch (PageBatches page)) (evidenceLedgerLinks limit (map HbSequence (PageBatches page)) db)"
    and some: "0 < n \<or> PageBatches page = []"
    and p: "p = part ?f page (ledgerHeadTx db) generated (map evidenceBatch (PageBatches page))
           (evidenceLedgerLinks limit (map HbSequence (PageBatches page)) db) n"
      "check_cursor p = None \<or> \<not> XpTruncated p" "signEvidencePack sign key p = Some t" "length t \<le> maxEvidenceBytes"
    by (rule exported [OF assms(1)])
  let ?bs = "map evidenceBatch (PageBatches page)"
  from p(3) obtain q content where q: "signed_pack sign key p = Some q" "pack_text q = Some content"
    "t = indent_compact 0 False False False content @ newline" by (auto simp: signEvidencePack_def split: option.splits)
  obtain hashed where f: "evidencePayload p = Some hashed" "XpContentHash q = sha256_hex hashed" "XpKeyID q = KeyID key"
    "XpPublicKey q = b64_encode False (PublicKey key)" "XpSignature q = b64_encode False (sign (PrivateKey key) (evidenceSignaturePayload q))"
    "XpFormat q = XpFormat p" "XpVersion q = XpVersion p" "XpBatches q = XpBatches p" "XpLinks q = XpLinks p"
    "XpTruncated q = XpTruncated p" "XpNext q = XpNext p" "evidencePayload q = evidencePayload p"
    by (rule signed_pack_fields [OF q(1)])
  note shape = page_shape [OF page(1) export_descends page(2)]
  have loaded: "\<exists>row \<in> set (EventBatches db). \<exists>t b0 m. timed row = Inr (t, row) \<and> loadHistoryBatch deliveries ?f True db (t, row) = Inr b0
      \<and> HbEvents b0 \<noteq> [] \<and> (b = b0 \<or> b = b0\<lparr>HbChanges := m\<rparr>)" if "b \<in> set (PageBatches page)" for b
    using shape(3) [OF that] page_rows_set by blast
  have entries: "(\<exists>r. entry_of db b r) \<or> XbSequence b = 0 \<and> XbKeyID b = ''''" if "b \<in> set ?bs" for b
  proof -
    from that obtain hb where hb: "hb \<in> set (PageBatches page)" "b = evidenceBatch hb" by auto
    from loaded [OF hb(1)] obtain row t b0 m where "row \<in> set (EventBatches db)" "timed row = Inr (t, row)"
      "loadHistoryBatch deliveries ?f True db (t, row) = Inr b0" "HbEvents b0 \<noteq> []" "hb = b0 \<or> hb = b0\<lparr>HbChanges := m\<rparr>" by blast
    from page_entry [OF assms(5,6,7) this] show ?thesis unfolding hb(2) .
  qed
  have versions: "verifyEvidenceVersionFields q = None"
    unfolding verifyEvidenceVersionFields_def first_error_None
  proof
    fix b assume "b \<in> set (XpBatches q)"
    then have "b \<in> set ?bs" unfolding f(8) p(1) part_fields(1) by (rule in_set_takeD)
    then obtain hb where hb: "hb \<in> set (PageBatches page)" "b = evidenceBatch hb" by auto
    from loaded [OF hb(1)] obtain row t b0 m where "row \<in> set (EventBatches db)"
      "loadHistoryBatch deliveries ?f True db (t, row) = Inr b0" "hb = b0 \<or> hb = b0\<lparr>HbChanges := m\<rparr>" by blast
    from page_version [OF assms(7) this] show "check_version_batch q b = None" unfolding hb(2) by (simp add: f(7) p(1))
  qed
  have cursor: "check_cursor q = None"
  proof (cases "XpTruncated p")
    case True
    with p(2) have "check_cursor p = None" by blast
    then show ?thesis unfolding check_cursor_def f(8,10,11) .
  next
    case False
    then have "XpNext p = 0" using shape(2) by (simp add: p(1))
    with False show ?thesis by (simp add: check_cursor_def f(10,11))
  qed
  have distinct: "distinct (map XbID ?bs)"
  proof -
    have "distinct (map BatchRowID (EventBatches db))"
      using assms(6) by (auto simp: history_wf_def strict_sorted_iff sorted_wrt_map [symmetric])
    from page_rows_descending [OF this export_descends] have "sorted_wrt (>) (map BatchRowID (page_rows ?f db))"
      by (simp add: descending_def sorted_wrt_map)
    then have rows: "distinct (map BatchRowID (page_rows ?f db))" by (rule descending_distinct)
    have shown: "distinct (shown_ids x (take m (page_rows ?f db)))" for x m
      unfolding shown_ids_def by (rule distinct_filtered) (use rows distinct_take in \<open>simp add: take_map [symmetric]\<close>)
    have "distinct (map HbID (PageBatches page))"
    proof (cases "PageHasNext page")
      case True
      with shape(1) shown show ?thesis by force
    next
      case False
      with shape(2) shown [of _ "length (page_rows ?f db)"] show ?thesis by simp
    qed
    then show ?thesis by (simp add: comp_def)
  qed
  have "verifyLedgerLinks verify q = None"
    by (rule own_ledger_verified [OF assms(2-5,8) _ _ f(3,4) _ page(3) distinct entries])
      (use fit in \<open>simp_all add: f(8,9) p(1) comp_def evidenceBatch_def\<close>)
  moreover have "decodeKeyMaterial (XpPublicKey q) PublicKeySize = Some (PublicKey key)"
    unfolding f(4) by (rule key_material_round_trip [OF assms(4)])
  moreover have "decodeKeyMaterial (XpSignature q) SignatureSize = Some (sign (PrivateKey key) (evidenceSignaturePayload q))"
    unfolding f(5) using assms(2) by (intro key_material_round_trip) (simp add: ed25519_correct_def)
  moreover have "verify (PublicKey key) (evidenceSignaturePayload q) (sign (PrivateKey key) (evidenceSignaturePayload q))"
    using assms(2) by (simp add: ed25519_correct_def)
  moreover have "XpKeyID q \<noteq> ''''" "XpPublicKey q \<noteq> ''''" "XpSignature q \<noteq> ''''"
  proof -
    show "XpKeyID q \<noteq> ''''" unfolding f(3) assms(3) using key_id_length [of "PublicKey key"] by auto
    show "XpPublicKey q \<noteq> ''''" unfolding f(4) using assms(4) by (intro b64_nonempty) (auto simp: PublicKeySize_def)
    have "length (sign (PrivateKey key) (evidenceSignaturePayload q)) = SignatureSize" using assms(2) by (simp add: ed25519_correct_def)
    then show "XpSignature q \<noteq> ''''" unfolding f(5) by (intro b64_nonempty) (auto simp: SignatureSize_def)
  qed
  ultimately have "verify_pack verify (PublicKey key) q = None"
    using versions cursor f(1,2,3,6,7,12) assms(3) by (simp add: verify_pack_def p(1))
  with q p(4) show ?thesis by (rule that)
qed

end
