(* ===== verification/Store_Packs.thy ===== *)
theory Store_Packs
  imports Store_Export_Verified
begin

text \<open>
  The properties of the evidence packs, with a pack of one batch as their witness: its text is well below
  the size limit, whatever the hashes in it are.
\<close>

subsection \<open>The size of an indented text\<close>

definition openings :: "string \<Rightarrow> nat" where
  "openings t = length (filter (\<lambda>c. c = CHR ''{'' \<or> c = CHR ''['') t)"

lemma openings_simps [simp]: "openings [] = 0" "openings (c # cs) = (if c = CHR ''{'' \<or> c = CHR ''['' then Suc (openings cs) else openings cs)"
  "openings (xs @ ys) = openings xs + openings ys"
  by (simp_all add: openings_def)

lemma indent_line_length: "length (indent_line n) = 2 * n + 1"
  by (simp add: indent_line_def)

lemma indent_length:
  "length (indent_compact depth opened within escaped s)
     \<le> length s * (4 * (depth + (if opened then 1 else 0) + openings s) + 5)"
proof (induction depth opened within escaped s rule: indent_compact.induct)
  case (2 depth opened within escaped c cs)
  let ?o = "if opened then 1 else 0 :: nat"
  define D where "D = 4 * (depth + ?o + openings (c # cs)) + 5"
  have rest: "length (indent_compact d p w e cs) \<le> length cs * D"
    if "d + (if p then 1 else 0) + openings cs \<le> depth + ?o + openings (c # cs)"
      "length (indent_compact d p w e cs) \<le> length cs * (4 * (d + (if p then 1 else 0) + openings cs) + 5)" for d p w e
  proof -
    have "4 * (d + (if p then 1 else 0) + openings cs) + 5 \<le> D"
      unfolding D_def by (rule add_le_mono1, rule mult_le_mono2, rule that(1))
    with that(2) show ?thesis by (meson le_trans mult_le_mono2)
  qed
  have total: "length (c # cs) * D = D + length cs * D" by simp
  show ?case
  proof (cases within)
    case True
    then have "length (indent_compact depth False (escaped \<or> c \<noteq> CHR 0x22) (\<not> escaped \<and> c = CHR 0x5C) cs) \<le> length cs * D"
      by (intro rest "2.IH"(1)) simp_all
    then show ?thesis using True unfolding D_def [symmetric] total by (simp add: D_def)
  next
    case outside: False
    show ?thesis
    proof (cases "c = CHR ''}'' \<or> c = CHR '']''")
      case True
      have "length (indent_compact depth False False False cs) \<le> length cs * D" if opened
        using outside True that by (intro rest "2.IH"(2)) simp_all
      moreover have "length (indent_compact (depth - 1) False False False cs) \<le> length cs * D" if "\<not> opened"
        using outside True that by (intro rest "2.IH"(3)) auto
      ultimately show ?thesis using outside True unfolding D_def [symmetric] total by (auto simp: D_def indent_line_length)
    next
      case False
      let ?d = "if opened then depth + 1 else depth"
      have "length (indent_compact ?d True False False cs) \<le> length cs * D" if "c = CHR ''{'' \<or> c = CHR ''[''"
        using outside False that by (intro rest "2.IH"(4) [OF _ _ refl refl]) auto
      moreover have "length (indent_compact ?d False False False cs) \<le> length cs * D" if "\<not> (c = CHR ''{'' \<or> c = CHR ''['')" "c = CHR '',''"
        using outside False that by (intro rest "2.IH"(5) [OF _ _ refl refl]) auto
      moreover have "length (indent_compact ?d False False False cs) \<le> length cs * D" if "\<not> (c = CHR ''{'' \<or> c = CHR ''['')" "c \<noteq> CHR '',''" "c = CHR '':''"
        using outside False that by (intro rest "2.IH"(6) [OF _ _ refl refl]) auto
      moreover have "length (indent_compact ?d False (c = CHR 0x22) False cs) \<le> length cs * D"
        if "\<not> (c = CHR ''{'' \<or> c = CHR ''['')" "c \<noteq> CHR '',''" "c \<noteq> CHR '':''"
        using outside False that by (intro rest "2.IH"(7) [OF _ _ refl refl]) auto
      moreover have "2 * ?d + 1 + (2 * ?d + 1) + 1 \<le> D" "?d \<le> depth + ?o" by (auto simp: D_def)
      ultimately show ?thesis using outside False unfolding D_def [symmetric] total
        by (cases "c = CHR ''{'' \<or> c = CHR ''[''"; cases "c = CHR '',''"; cases "c = CHR '':''"; cases opened)
          (simp_all add: indent_line_length Let_def)
    qed
  qed
qed simp

text \<open>A text with a bound on its length and on its opening brackets.\<close>

definition small :: "string \<Rightarrow> nat \<Rightarrow> nat \<Rightarrow> bool" where
  "small t n b \<longleftrightarrow> length t \<le> n \<and> openings t \<le> b"

definition small_members :: "(string \<times> string) list \<Rightarrow> nat \<Rightarrow> nat \<Rightarrow> bool" where
  "small_members ms n b \<longleftrightarrow> sum_list (map (\<lambda>(k, v). 6 * length k + length v + 4) ms) \<le> n
     \<and> sum_list (map (\<lambda>(k, v). openings k + openings v) ms) \<le> b"

definition small_items :: "string list \<Rightarrow> nat \<Rightarrow> nat \<Rightarrow> bool" where
  "small_items xs n b \<longleftrightarrow> sum_list (map (\<lambda>x. length x + 1) xs) \<le> n \<and> sum_list (map openings xs) \<le> b"

lemma hex_brackets: "hex_val CHR ''{'' = None" "hex_val CHR ''['' = None"
  by code_simp+

lemma hex_no_opening: "hex_digit (n mod 16) \<noteq> CHR ''{'' \<and> hex_digit (n mod 16) \<noteq> CHR ''[''"
proof -
  have "hex_val (hex_digit (n mod 16)) \<noteq> None" by (simp add: hex_val_digit)
  then show ?thesis by (metis hex_brackets)
qed

lemma unicode_escape_small: "length (unicode_escape n) = 6" "openings (unicode_escape n) = 0"
  by (simp_all add: unicode_escape_def hex_no_opening)

lemma escape_rune_small: "length (escape_rune r) \<le> 6 * length r \<and> openings (escape_rune r) \<le> openings r"
proof (cases r rule: remdups_adj.cases)
  case (2 c)
  then show ?thesis by (simp add: escape_rune_def Let_def unicode_escape_small)
next
  case (3 x y xs)
  then show ?thesis by (auto simp: escape_rune_def unicode_escape_small)
qed (simp add: escape_rune_def)

lemma quote_small: "small s n b \<Longrightarrow> small (quote_text s) (6 * n + 2) b"
proof -
  assume s: "small s n b"
  have "length (concat (map escape_rune rs)) \<le> 6 * length (concat rs) \<and> openings (concat (map escape_rune rs)) \<le> openings (concat rs)" for rs
    using escape_rune_small by (induction rs) (auto intro: add_mono order_trans)
  from this [of "runes s"] s show ?thesis by (simp add: quote_text_def escape_text_def small_def)
qed

lemma small_plain: "length t \<le> n \<Longrightarrow> openings t \<le> b \<Longrightarrow> small t n b"
  by (simp add: small_def)

lemma small_Nil: "small_members [] 0 0" "small_items [] 0 0"
  by (simp_all add: small_members_def small_items_def)

lemma small_member: "small v n b \<Longrightarrow> small_members ms n' b' \<Longrightarrow> small_members ((k, v) # ms) (6 * length k + n + 4 + n') (openings k + b + b')"
  by (auto simp: small_members_def small_def)

lemma small_item: "small x n b \<Longrightarrow> small_items xs n' b' \<Longrightarrow> small_items (x # xs) (n + 1 + n') (b + b')"
  by (auto simp: small_items_def small_def)

lemma join_small: "length (join '','' xs) \<le> sum_list (map (\<lambda>x. length x + 1) xs) \<and> openings (join '','' xs) = sum_list (map openings xs)"
  by (induction "'',''" xs rule: join.induct) auto

lemma small_array: "small_items xs n b \<Longrightarrow> small (array_text xs) (n + 2) (b + 1)"
  using join_small [of xs] by (auto simp: small_items_def small_def array_text_def)

lemma small_struct: "small_members ms n b \<Longrightarrow> small (struct_text ms) (n + 2) (b + 1)"
proof -
  assume m: "small_members ms n b"
  let ?xs = "map (\<lambda>(k, v). quote_text k @ '':'' @ v) ms"
  have q: "length (quote_text k) \<le> 6 * length k + 2" "openings (quote_text k) \<le> openings k" for k
    using quote_small [of k "length k" "openings k"] by (simp_all add: small_def)
  have "sum_list (map (\<lambda>x. length x + 1) ?xs) \<le> n"
  proof -
    have "sum_list (map (\<lambda>x. length x + 1) ?xs) \<le> sum_list (map (\<lambda>(k, v). 6 * length k + length v + 4) ms)"
      unfolding map_map comp_def by (rule sum_list_mono) (use q in \<open>auto intro: order_trans\<close>)
    then show ?thesis using m by (simp add: small_members_def)
  qed
  moreover have "sum_list (map openings ?xs) \<le> b"
  proof -
    have "sum_list (map openings ?xs) \<le> sum_list (map (\<lambda>(k, v). openings k + openings v) ms)"
      unfolding map_map comp_def by (rule sum_list_mono) (use q in auto)
    then show ?thesis using m by (simp add: small_members_def)
  qed
  ultimately show ?thesis using join_small [of ?xs] by (auto simp: small_def struct_text_def)
qed

lemma small_weaken: "small t n b \<Longrightarrow> n \<le> n' \<Longrightarrow> b \<le> b' \<Longrightarrow> small t n' b'"
  by (auto simp: small_def)

lemma small_indent: "small t n b \<Longrightarrow> length (indent_compact 0 False False False t) \<le> n * (4 * b + 5)"
proof -
  assume t: "small t n b"
  have "length (indent_compact 0 False False False t) \<le> length t * (4 * openings t + 5)"
    using indent_length [of 0 False False False t] by simp
  also have "\<dots> \<le> n * (4 * b + 5)" by (rule mult_le_mono) (use t in \<open>auto simp: small_def\<close>)
  finally show ?thesis .
qed


subsection \<open>The size of a pack\<close>

lemma b64_no_opening: "b64_digit False (n mod 64) \<noteq> CHR ''{'' \<and> b64_digit False (n mod 64) \<noteq> CHR ''[''"
proof -
  have "list_all (\<lambda>d. b64_digit False d \<noteq> CHR ''{'' \<and> b64_digit False d \<noteq> CHR ''['') [0..<64]" by code_simp
  then show ?thesis by (simp add: list_all_iff del: upt_rec_numeral)
qed

lemma two_bytes: "4 * (256 * byte_of a + byte_of b) < 64 * 4096"
  using byte_of_less [of a] byte_of_less [of b] by presburger

lemma three_bytes: "65536 * byte_of a + 256 * byte_of b + byte_of c < 64 * 262144"
proof -
  have "n \<le> 65535 \<Longrightarrow> m \<le> 255 \<Longrightarrow> 256 * n + m < (64 * 262144 :: nat)" for n m by simp
  moreover have "256 * byte_of a + byte_of b \<le> 65535" "byte_of c \<le> 255"
    using byte_of_less [of a] byte_of_less [of b] byte_of_less [of c] by linarith+
  ultimately have "256 * (256 * byte_of a + byte_of b) + byte_of c < 64 * 262144" by blast
  then show ?thesis by (simp add: algebra_simps)
qed

lemma b64_small: "small (b64_encode False s) ((4 * length s + 2) div 3) 0"
proof -
  have below: "n div k = n div k mod 64" if "n < 64 * k" for n k :: nat
    using that by (simp add: less_mult_imp_div_less)
  have first: "b64_digit False (n div k) \<noteq> CHR ''{'' \<and> b64_digit False (n div k) \<noteq> CHR ''[''" if "n < 64 * k" for n k
    using b64_no_opening [of "n div k"] below [OF that] by simp
  have "openings (b64_encode False s) = 0"
  proof (induction False s rule: b64_encode.induct)
    case (2 a)
    have "16 * byte_of a < 64 * 64" using byte_of_less [of a] by simp
    then show ?case using first b64_no_opening by (simp add: Let_def)
  next
    case (3 a b)
    have "4 * (256 * byte_of a + byte_of b) < 64 * 4096" by (rule two_bytes)
    then show ?case using first b64_no_opening by (simp add: Let_def)
  next
    case (4 a b c s)
    have "65536 * byte_of a + 256 * byte_of b + byte_of c < 64 * 262144" by (rule three_bytes)
    then show ?case using 4 first b64_no_opening by (simp add: Let_def)
  qed simp
  then show ?thesis by (simp add: small_def length_b64_encode)
qed

lemma hex_small: "small (hex_encode s) (2 * length s) 0"
proof -
  have "openings (hex_encode s) = 0"
  proof (induction s)
    case (Cons c s)
    have "byte_of c div 16 = byte_of c div 16 mod 16" using byte_of_less [of c] by (simp add: less_mult_imp_div_less)
    then have "hex_digit (byte_of c div 16) \<noteq> CHR ''{'' \<and> hex_digit (byte_of c div 16) \<noteq> CHR ''[''" using hex_no_opening by metis
    then show ?case using Cons hex_no_opening by (simp add: hex_encode_def)
  qed (simp add: hex_encode_def)
  then show ?thesis by (simp add: small_def length_hex_encode)
qed

definition fits :: "string option \<Rightarrow> nat \<Rightarrow> nat \<Rightarrow> bool" where
  "fits t n b \<longleftrightarrow> (case t of None \<Rightarrow> False | Some s \<Rightarrow> small s n b)"

definition member_fits :: "(string \<times> string) list option \<Rightarrow> nat \<Rightarrow> nat \<Rightarrow> bool" where
  "member_fits m n b \<longleftrightarrow> (case m of None \<Rightarrow> False | Some ms \<Rightarrow> small_members ms n b)"

definition members_fit :: "(string \<times> string) list option list \<Rightarrow> nat \<Rightarrow> nat \<Rightarrow> bool" where
  "members_fit ms n b \<longleftrightarrow> member_fits (map_option concat (those ms)) n b"

definition items_fit :: "string option list \<Rightarrow> nat \<Rightarrow> nat \<Rightarrow> bool" where
  "items_fit xs n b \<longleftrightarrow> (case those xs of None \<Rightarrow> False | Some ss \<Rightarrow> small_items ss n b)"

lemma small_members_append: "small_members ms n b \<Longrightarrow> small_members ms' n' b' \<Longrightarrow> small_members (ms @ ms') (n + n') (b + b')"
  by (auto simp: small_members_def)

lemma fit_members: "members_fit [] 0 0"
  "member_fits m n b \<Longrightarrow> members_fit ms n' b' \<Longrightarrow> members_fit (m # ms) (n + n') (b + b')"
  by (auto simp: members_fit_def member_fits_def small_Nil small_members_append split: option.splits)

lemma fit_items: "items_fit [] 0 0"
  "fits x n b \<Longrightarrow> items_fit xs n' b' \<Longrightarrow> items_fit (x # xs) (n + 1 + n') (b + b')"
  by (auto simp: items_fit_def fits_def small_Nil small_item [simplified] split: option.splits)

lemma struct_fits: "members_fit ms n b \<Longrightarrow> fits (struct_members ms) (n + 2) (b + 1)"
  by (auto simp: members_fit_def member_fits_def fits_def struct_members_def small_struct [simplified] split: option.splits)

lemma array_fits: "items_fit xs n b \<Longrightarrow> fits (map_option array_text (those xs)) (n + 2) (b + 1)"
  by (auto simp: items_fit_def fits_def small_array [simplified] split: option.splits)

lemma small_one: "small v n b \<Longrightarrow> small_members [(k, v)] (6 * length k + n + 4) (openings k + b)"
  using small_member [OF _ small_Nil(1)] by simp

lemma small_none: "small_members [] n b"
  by (simp add: small_members_def)

lemma fits_member:
  "small v n b \<Longrightarrow> member_fits (member k v) (6 * length k + n + 4) (openings k + b)"
  "fits t n b \<Longrightarrow> member_fits (member_opt k t) (6 * length k + n + 4) (openings k + b)"
  "small (int_text i) n b \<Longrightarrow> member_fits (omit_int k i) (6 * length k + n + 4) (openings k + b)"
  "member_fits (omit_flag k False) 0 0" "member_fits (omit_raw k []) 0 0" "member_fits (Some []) 0 0"
  "member_fits (omit_list k []) 0 0"
  using small_one [of _ n b k]
  by (auto simp: member_fits_def fits_def member_def member_opt_def omit_int_def omit_flag_def
      omit_raw_def omit_list_def small_none split: option.splits)

lemma text_fits: "small v n b \<Longrightarrow> member_fits (omit_text k v) (6 * length k + (6 * n + 2) + 4) (openings k + b)"
  using small_one [OF quote_small, of v n b k] by (auto simp: member_fits_def omit_text_def omit_empty_def small_none)

lemma list_fits: "items_fit (x # xs) n b \<Longrightarrow> member_fits (omit_list k (x # xs)) (6 * length k + (n + 2) + 4) (openings k + (b + 1))"
  unfolding omit_list_def using fits_member(2) [OF array_fits [of "x # xs" n b]] by simp

lemma small_exact: "small t (length t) (openings t)"
  by (simp add: small_def)

subsection \<open>A pack of one batch\<close>

definition shown_event :: event_row where
  "shown_event = \<lparr> EventID = 1, EventBatch = Some 1, EventGen = 1, EventObserved = ''2026-01-02T03:04:05.000000000Z'', EventColl = ''devices'',
     EventType = ''changed'', EventRes = ''n1'', EventName = ''laptop'', EventChanges = ''[]'', EventBefore = '''', EventAfter = '''',
     EventBeforeHash = '''', EventAfterHash = '''', EventBeforeBytes = 0, EventAfterBytes = 0, EventBeforeTruncated = False,
     EventAfterTruncated = False, EventSeverity = ''info'', EventMuted = False, EventAttribution = '''' \<rparr>"

definition shown_row :: batch_row where
  "shown_row = \<lparr> BatchRowID = 1, BatchRowGen = 1, BatchObserved = ''2026-01-02T03:04:05.000000000Z'', BatchChanges = 1,
     BatchCreated = ''2026-01-02T03:04:05.000000000Z'', BatchTrigger = None, BatchAttribution = '''' \<rparr>"

definition shown_db :: "string \<Rightarrow> string \<Rightarrow> string \<Rightarrow> history_db" where
  "shown_db h sig k = \<lparr> EventBatches = [shown_row], NextBatch = 2, BatchTriggers = [], Events = [shown_event], NextEvent = 2,
     Ledger = [\<lparr> LedgerSequence = 1, LedgerBatchID = 1, LedgerGen = 1, LedgerObserved = ''2026-01-02T03:04:05.000000000Z'',
       PrevHash = '''', EntryHash = h, LedgerSignature = sig, LedgerKeyID = k, LedgerCreated = ''2026-01-02T03:04:05.000000000Z'' \<rparr>],
     NextSequence = 2, LedgerHead = Some h, BackfillCutoff = None, BackfillCursor = None, Backfilled = True \<rparr>"

definition all_filter :: history_filter where
  "all_filter = \<lparr> FilterCollector = '''', FilterEventType = '''', FilterResource = '''', FilterFrom = None,
     FilterUntil = None, FilterCursor = 0, FilterAfter = 0, FilterLimit = 0, FilterBatchID = 0, FilterSeverity = '''' \<rparr>"

definition shown_lb :: ledger_batch where
  "shown_lb = \<lparr> LbID = 1, LbGen = 1, LbObserved = ''2026-01-02T03:04:05.000000000Z'', LbChanges = 1, LbTrigger = 0, LbTriggers = [],
     LbEvents = [ledger_event_of shown_event] \<rparr>"

definition shown_payload :: string where
  "shown_payload = evidenceLedgerBatch shown_lb"

definition shown_page :: "string \<Rightarrow> string \<Rightarrow> string \<Rightarrow> history_page" where
  "shown_page h sig k =
     \<lparr> PageBatches = [\<lparr> HbID = 1, HbGen = 1, HbObserved = 1767323045000000000, HbChanges = 1, HbTrigger = 0, HbTriggers = [],
         HbAttribution = [],
         HbEvents = [\<lparr> HeID = 1, HeBatch = 1, HeGen = 1, HeObserved = 1767323045000000000, HeCollector = ''devices'', HeType = ''changed'',
           HeResource = ''n1'', HeName = ''laptop'', HeFields = [], HeFieldsTruncated = False, HeTotal = 0, HeBefore = [], HeAfter = [],
           HeBeforeHash = [], HeAfterHash = [], HeBeforeBytes = 0, HeAfterBytes = 0, HeBeforeTruncated = False, HeAfterTruncated = False,
           HeSeverity = ''info'', HeMuted = False, HeAttribution = None \<rparr>],
         HbDeliveries = [], HbSequence = 1, HbPrevHash = [], HbHash = h, HbSignature = sig, HbKeyID = k, HbPayload = shown_payload \<rparr>],
       PageNext = 0, PageHasNext = False, PagePrev = 0, PageHasPrev = False, PageTruncated = False, PageBytes = 3784 \<rparr>"


text \<open>The entry is the one that is appended to an empty ledger.\<close>

abbreviation "shown_hash \<equiv> hex_encode (ledgerDigest '''' shown_payload)"
abbreviation "shown_signature \<equiv> b64_encode False (toy_sign (PrivateKey toy_key) (ledgerDigest '''' shown_payload))"

definition shown_history :: history_db where
  "shown_history = shown_db shown_hash shown_signature (KeyID toy_key)"

lemma shown_parts [simp]: "Ledger (shown_db h sig k) = [\<lparr> LedgerSequence = 1, LedgerBatchID = 1, LedgerGen = 1, LedgerObserved = ''2026-01-02T03:04:05.000000000Z'',
       PrevHash = '''', EntryHash = h, LedgerSignature = sig, LedgerKeyID = k, LedgerCreated = ''2026-01-02T03:04:05.000000000Z'' \<rparr>]"
  "EventBatches (shown_db h sig k) = [shown_row]" "history_db.Events (shown_db h sig k) = [shown_event]" "NextBatch (shown_db h sig k) = 2"
  "BatchTriggers (shown_db h sig k) = []" "NextEvent (shown_db h sig k) = 2" "NextSequence (shown_db h sig k) = 2"
  "LedgerHead (shown_db h sig k) = Some h"
  by (simp_all add: shown_db_def)

lemma shown_recorded: "evidenceLedgerPayload 1 (shown_db h sig k) = Some (shown_payload, shown_lb)"
  unfolding shown_payload_def by (simp add: evidenceLedgerPayload_def batch_of_def events_of_def triggers_of_def shown_row_def shown_event_def shown_lb_def Let_def)

lemma shown_lb_ok: "ledger_batch_ok shown_lb"
  by code_simp

lemma shown_wf: "history_wf shown_history" "ledger_wf toy_sign toy_key shown_history" "recordable shown_history" "exportable shown_history"
proof -
  show "history_wf shown_history"
    by (simp add: history_wf_def shown_history_def shown_row_def shown_event_def)
  have "payload_of 1 shown_history = Some shown_payload" by (simp add: payload_of_def shown_history_def shown_recorded)
  then show "ledger_wf toy_sign toy_key shown_history"
    by (auto simp: ledger_wf_def shown_history_def signed_entry_def entry_true_def)
  show r: "recordable shown_history" by (simp add: recordable_def shown_history_def shown_recorded shown_lb_ok)
  have e: "event_exportable shown_event" "UnmarshalAttribution (EventAttribution shown_event) = None" by code_simp+
  have "events_of 1 (shown_db h sig k) = [shown_event]" for h sig k by (simp add: events_of_def shown_event_def)
  then show "exportable shown_history" using r e
    by (simp add: exportable_def batch_exportable_def shown_history_def shown_row_def)
qed

lemma shown_listed:
  "listHistory (\<lambda>s. int (length s)) (\<lambda>_. []) (export_filter all_filter) (int maxEvidenceBytes) True (shown_db h sig k) = Inr (shown_page h sig k)"
proof -
  have "int maxEvidenceBytes = 5242880" by (simp add: maxEvidenceBytes_def)
  moreover have "listHistory (\<lambda>s. int (length s)) (\<lambda>_. []) (export_filter all_filter) 5242880 True (shown_db h sig k) = Inr (shown_page h sig k)"
    by code_simp
  ultimately show ?thesis by (simp only:)
qed

definition shown_batch :: evidence_batch where
  "shown_batch = evidenceBatch (hd (PageBatches (shown_page shown_hash shown_signature (KeyID toy_key))))"

definition shown_pack :: evidence_pack where
  "shown_pack = part (export_filter all_filter) (shown_page shown_hash shown_signature (KeyID toy_key)) shown_hash
     ''2026-01-02T04:00:00Z'' [shown_batch] (map link_of (Ledger shown_history)) 1"


lemma shown_stamp: "fits (stamp_text (1767323045000000000, 0)) 22 0"
proof -
  have "civil_date (1767323045000000000 div day) = (2026, 1, 2)" "rfc3339_nano 1767323045000000000 = ''2026-01-02T03:04:05Z''"
    "small (quote_text ''2026-01-02T03:04:05Z'') 22 0" by code_simp+
  then show ?thesis by (simp add: stamp_text_def fits_def Let_def)
qed

lemma shown_filter: "fits (filter_text (evidenceFilter (export_filter all_filter))) 13 1"
  by code_simp

lemma shown_batch_fields: "shown_batch = \<lparr> XbID = 1, XbGen = 1, XbObserved = (1767323045000000000, 0), XbChanges = 1, XbLedgerChanges = 1,
       XbTrigger = 0, XbTriggers = [], XbSequence = 1, XbPrevHash = '''', XbHash = shown_hash, XbSignature = shown_signature,
       XbKeyID = KeyID toy_key, XbPayload = b64_encode False shown_payload, XbAttribution = '''',
       XbEvents = [\<lparr> XeID = 1, XeBatch = 1, XeGen = 1, XeObserved = (1767323045000000000, 0), XeCollector = ''devices'',
       XeType = ''changed'', XeResource = ''n1'', XeName = ''laptop'', XeFields = [],
       XeFieldsTruncated = False, XeTotal = 0, XeBefore = '''', XeAfter = '''', XeBeforeHash = '''', XeAfterHash = '''',
       XeBeforeBytes = 0, XeAfterBytes = 0, XeBeforeTruncated = False,
       XeAfterTruncated = False, XeSeverity = ''info'', XeMuted = False, XeAttribution = None \<rparr>],
       XbDeliveries = [] \<rparr>"
proof -
  have "decodeLedgerPayload shown_payload = Some shown_lb" unfolding shown_payload_def by (rule payload_decoded [OF shown_lb_ok])
  moreover have "evidenceJSON [] = []" by code_simp
  ultimately show ?thesis
    by (simp add: shown_batch_def shown_page_def evidenceBatch_def evidence_event_of_def shown_lb_def)
qed

lemma shown_key_small: "small (KeyID toy_key) 40 0"
  using hex_small [of "take 16 (sha256 (PublicKey toy_key))"]
  by (simp add: toy_key_def evidenceKeyID_def small_def length_sha256)

lemma small_number: "small (int_text 0) 1 0" "small (int_text 1) 1 0" "small (int_text 5) 1 0"
  by code_simp+

lemma shown_hash_small: "small shown_hash 64 0"
  using hex_small [of "ledgerDigest '''' shown_payload"] by (simp add: ledgerDigest_def length_sha256)

lemma shown_signature_small: "small shown_signature 86 0"
  using b64_small [of "toy_sign (PrivateKey toy_key) (ledgerDigest '''' shown_payload)"] by (simp add: toy_sign_def)

lemma shown_payload_small: "small (b64_encode False shown_payload) 600 0"
proof -
  have "length shown_payload \<le> 449" by code_simp
  with b64_small [of shown_payload] show ?thesis by (auto simp: small_def)
qed

lemma fits_weaken: "fits t n b \<Longrightarrow> n \<le> n' \<Longrightarrow> b \<le> b' \<Longrightarrow> fits t n' b'"
  by (auto simp: fits_def small_weaken split: option.splits)

lemmas fits_rules = struct_fits fit_members fit_items fits_member list_fits text_fits shown_stamp shown_filter small_number
  shown_key_small shown_hash_small shown_signature_small shown_payload_small

lemma shown_event_fits: "fits (event_text (hd (XbEvents shown_batch))) 2000 2"
  unfolding shown_batch_fields
  by (rule fits_weaken, simp only: evidence_batch.simps list.sel event_text_def evidence_event.simps option.case list.map,
      (rule fits_rules quote_small | rule small_exact)+, simp_all)

lemma shown_members: "XbID shown_batch = 1" "XbGen shown_batch = 1" "XbObserved shown_batch = (1767323045000000000, 0)" "XbChanges shown_batch = 1"
  "XbLedgerChanges shown_batch = 1" "XbTrigger shown_batch = 0" "XbTriggers shown_batch = []" "XbSequence shown_batch = 1"
  "XbPrevHash shown_batch = ''''" "XbHash shown_batch = shown_hash" "XbSignature shown_batch = shown_signature"
  "XbKeyID shown_batch = KeyID toy_key" "XbPayload shown_batch = b64_encode False shown_payload" "XbAttribution shown_batch = ''''"
  "XbDeliveries shown_batch = []"
  by (simp_all add: shown_batch_fields)

lemma shown_batch_fits: "fits (batch_text shown_batch) 12000 6"
proof -
  have "items_fit (map event_text (XbEvents shown_batch)) (2000 + 1 + 0) (2 + 0)"
    using fit_items(2) [OF shown_event_fits fit_items(1)] by (simp add: shown_batch_fields)
  note events = array_fits [OF this]
  show ?thesis
    unfolding batch_text_def shown_members list.map
    by (rule fits_weaken, (rule events fits_rules array_fits quote_small | rule small_exact)+, simp_all)
qed

lemma shown_link_fits: "fits (link_text (hd (XpLinks shown_pack))) 3000 2"
proof -
  have "link_text (hd (XpLinks shown_pack)) = struct_members
     [member ''sequence'' (int_text 1), member ''batch_id'' (int_text 1),
      member ''prev_hash'' (quote_text ''''), member ''entry_hash'' (quote_text shown_hash),
      member ''signature'' (quote_text shown_signature), member ''key_id'' (quote_text (KeyID toy_key))]"
    by (simp add: shown_pack_def part_def link_text_def shown_history_def evidenceLinksFor_def shown_members link_of_def ledgerCheckpointSequence_def)
  then show ?thesis
    by (simp only:) (rule fits_weaken, (rule fits_rules quote_small | rule small_exact)+, simp_all)
qed

lemma shown_pack_fields: "XpFormat shown_pack = evidencePackFormat" "XpVersion shown_pack = 5" "XpGenerated shown_pack = ''2026-01-02T04:00:00Z''"
  "XpFilter shown_pack = evidenceFilter (export_filter all_filter)" "XpBatches shown_pack = [shown_batch]" "XpTruncated shown_pack = False"
  "XpNext shown_pack = 0" "XpHead shown_pack = shown_hash" "\<exists>l. XpLinks shown_pack = [l]"
  by (simp_all add: shown_pack_def part_def evidencePackVersion_def shown_page_def evidenceLinksFor_def shown_history_def shown_members link_of_def ledgerCheckpointSequence_def)

lemma shown_signed:
  obtains q content where "signed_pack toy_sign toy_key shown_pack = Some q" "pack_text q = Some content"
    "length (indent_compact 0 False False False content @ newline) \<le> maxEvidenceBytes"
proof -
  obtain l where l: "XpLinks shown_pack = [l]" using shown_pack_fields(9) by blast
  then have link: "fits (link_text l) 3000 2" using shown_link_fits by simp
  have links: "items_fit (map link_text (XpLinks shown_pack)) (3000 + 1 + 0) (2 + 0)"
    using fit_items(2) [OF link fit_items(1)] by (simp add: l)
  have batches: "items_fit (map batch_text (XpBatches shown_pack)) (12000 + 1 + 0) (6 + 0)"
    using fit_items(2) [OF shown_batch_fits fit_items(1)] by (simp add: shown_pack_fields)
  have listed: "member_fits (omit_list ''ledger_links'' (map link_text (XpLinks shown_pack))) 4000 4"
    using list_fits [of "link_text l" "[]" 3001 2 "''ledger_links''"] links
    by (simp add: l member_fits_def small_members_def split: option.splits)
  note parts = array_fits [OF batches] listed
  have "fits (evidencePayload shown_pack) 20000 20"
    unfolding evidencePayload_def shown_pack_fields(1-4,6-8) evidencePackFormat_def if_False
    by (rule fits_weaken, (rule parts fits_rules quote_small | rule small_exact)+, simp_all)
  then obtain hashed where hashed: "evidencePayload shown_pack = Some hashed" by (auto simp: fits_def split: option.splits)
  define q where "q = the (signed_pack toy_sign toy_key shown_pack)"
  have q: "signed_pack toy_sign toy_key shown_pack = Some q" by (simp add: q_def signed_pack_def hashed Let_def)
  then obtain m where fields: "XpFormat q = evidencePackFormat" "XpVersion q = 5" "XpGenerated q = ''2026-01-02T04:00:00Z''"
    "XpFilter q = evidenceFilter (export_filter all_filter)" "XpBatches q = XpBatches shown_pack" "XpLinks q = XpLinks shown_pack"
    "XpTruncated q = False" "XpNext q = 0" "XpHead q = shown_hash" "XpContentHash q = hex_encode (sha256 hashed)" "XpKeyID q = KeyID toy_key"
    "XpPublicKey q = b64_encode False (PublicKey toy_key)" "XpSignature q = b64_encode False (toy_sign (PrivateKey toy_key) m)"
    by (auto simp: signed_pack_def hashed Let_def shown_pack_fields sha256_hex_def)
  have keys: "small (b64_encode False (PublicKey toy_key)) 43 0" "small (b64_encode False (toy_sign (PrivateKey toy_key) m)) 86 0"
    "small (hex_encode (sha256 hashed)) 64 0"
    using b64_small [of "PublicKey toy_key"] b64_small [of "toy_sign (PrivateKey toy_key) m"] hex_small [of "sha256 hashed"]
    by (simp_all add: toy_key_def toy_sign_def length_sha256)
  have "fits (pack_text q) 24000 20"
    unfolding pack_text_def fields(1-4,7-13) fields(5,6) evidencePackFormat_def if_False
    by (rule fits_weaken, (rule parts keys fits_rules quote_small | rule small_exact)+, simp_all)
  then obtain content where content: "pack_text q = Some content" "small content 24000 20" by (auto simp: fits_def split: option.splits)
  from small_indent [OF this(2)] have "length (indent_compact 0 False False False content @ newline) \<le> maxEvidenceBytes"
    by (simp add: maxEvidenceBytes_def newline_def)
  with q content(1) that show ?thesis by blast
qed

lemma shown_exported:
  obtains t where "export_part toy_sign toy_key (\<lambda>s. int (length s)) (\<lambda>_. []) 10000 ''2026-01-02T04:00:00Z'' all_filter shown_history = Inr (shown_pack, t)"
proof -
  let ?page = "shown_page shown_hash shown_signature (KeyID toy_key)"
  obtain q content where q: "signed_pack toy_sign toy_key shown_pack = Some q" "pack_text q = Some content"
    "length (indent_compact 0 False False False content @ newline) \<le> maxEvidenceBytes" by (rule shown_signed)
  then have signed: "signEvidencePack toy_sign toy_key shown_pack = Some (indent_compact 0 False False False content @ newline)"
    by (simp add: signEvidencePack_def)
  have page: "PageBatches ?page = [hd (PageBatches ?page)]" "PageTruncated ?page = False" "map HbSequence (PageBatches ?page) = [1]"
    by (simp_all add: shown_page_def)
  have batches: "map evidenceBatch (PageBatches ?page) = [shown_batch]" by (simp add: shown_batch_def shown_page_def)
  have "evidenceLedgerLinks 10000 [1] (shown_db h sig k) = map link_of (Ledger (shown_db h sig k))" for h sig k by code_simp
  then have links: "evidenceLedgerLinks 10000 [1] shown_history = map link_of (Ledger shown_history)" by (simp add: shown_history_def)
  have "ledgerHeadTx shown_history = shown_hash" by (simp add: ledgerHeadTx_def shown_history_def)
  then have p: "part (export_filter all_filter) ?page (ledgerHeadTx shown_history) ''2026-01-02T04:00:00Z'' [shown_batch] (map link_of (Ledger shown_history)) 1 = shown_pack"
    by (simp add: shown_pack_def)
  have fit: "evidenceBatchesWithinCaps [shown_batch] (map link_of (Ledger shown_history)) = 1"
    by (simp add: evidenceBatchesWithinCaps_def shown_history_def link_of_def shown_batch_fields maxEvidenceEvents_def ledgerCheckpointSequence_def)
  have valid: "validateLedgerBatchState [shown_batch] = None" by (simp add: validateLedgerBatchState_def shown_members)
  have built: "build_part toy_sign toy_key (part (export_filter all_filter) ?page (ledgerHeadTx shown_history) ''2026-01-02T04:00:00Z'' [shown_batch]
      (map link_of (Ledger shown_history))) 1 = Inr (shown_pack, indent_compact 0 False False False content @ newline)"
    unfolding build_part_def p Let_def by (simp add: shown_pack_fields signed)
  have listed: "listHistory (\<lambda>s. int (length s)) (\<lambda>_. []) (export_filter all_filter) (int maxEvidenceBytes) True shown_history = Inr ?page"
    unfolding shown_history_def by (rule shown_listed)
  show ?thesis
    by (rule that [of "indent_compact 0 False False False content @ newline"])
      (use q(3) in \<open>simp add: export_part_def Let_def listed page(2,3) batches links valid fit built built [unfolded One_nat_def]\<close>)
qed

lemma shown_verified:
  obtains q where "signed_pack toy_sign toy_key shown_pack = Some q" "verify_pack toy_verify (PublicKey toy_key) q = None"
    "XpBatches q = [shown_batch]"
proof -
  obtain t where t: "export_part toy_sign toy_key (\<lambda>s. int (length s)) (\<lambda>_. []) 10000 ''2026-01-02T04:00:00Z'' all_filter shown_history = Inr (shown_pack, t)"
    by (rule shown_exported)
  obtain q content where q: "signed_pack toy_sign toy_key shown_pack = Some q" "verify_pack toy_verify (PublicKey toy_key) q = None"
    by (rule exported_verified [OF t toy_ed25519 shown_wf(2,1,4)]) simp
  moreover have "XpBatches q = [shown_batch]"
    by (rule signed_pack_fields [OF q(1)]) (simp add: shown_pack_fields)
  ultimately show ?thesis by (rule that)
qed

subsection \<open>The properties\<close>

text \<open>
  C26. What an accepted evidence pack shows was recorded. Let a pack, from whatever source, be accepted with
  the public key of a service as the trusted key. Then each of its batches that claims a ledger entry is an
  entry of the service's ledger, and if its batch is still stored, the pack shows that batch: its
  generation, its number of changes and its time are the recorded ones, its payload is byte for byte the
  recorded one, and each of its events is a recorded event of that batch, shown once, with the recorded
  resource, changes, snapshots, mute and credit; or the pack carries a signature that the trusted key
  accepts for a hash the ledger has never signed; or the pack and the ledger exhibit two different texts
  with the same SHA-256.
\<close>

theorem pack_shows_recorded_history:
  assumes "VerifyEvidencePackWithKey decode verify trusted raw = Some None" and "decode raw = Some p"
    and "ledger_wf sign key db" and "recordable db" and "b \<in> set (XpBatches p)" and "0 < XbSequence b"
  shows "(\<exists>r \<in> set (Ledger db). EntryHash r = XbHash b \<and> PrevHash r = XbPrevHash b \<and> LedgerBatchID r = XbID b \<and> shows_batch db b)
    \<or> (\<exists>r \<in> set (Ledger db). EntryHash r = XbHash b \<and> \<not> batch_exists (LedgerBatchID r) db)
    \<or> (\<exists>digest sig. hex_decode (XbHash b) = Some digest \<and> decodeKeyMaterial (XbSignature b) SignatureSize = Some sig
         \<and> verify trusted digest sig \<and> XbHash b \<notin> EntryHash ` set (Ledger db))
    \<or> (\<exists>r \<in> set (Ledger db). \<exists>shown recorded. b64_decode False (XbPayload b) = Some shown
         \<and> payload_of (LedgerBatchID r) db = Some recorded
         \<and> ledger_input (XbPrevHash b) shown \<noteq> ledger_input (PrevHash r) recorded
         \<and> sha256 (ledger_input (XbPrevHash b) shown) = sha256 (ledger_input (PrevHash r) recorded))"
proof -
  have "trusted \<noteq> ''''" and pack: "verify_pack verify trusted p = None"
    using assms(1,2) by (auto simp: VerifyEvidencePackWithKey_def verifyEvidencePack_def PublicKeySize_def split: if_splits)
  note key = verified_pack [OF pack this(1)]
  from verified_batch [OF key(2) assms(5,6) key(1)] obtain digest sig payload lb where
    sig: "hex_decode (XbHash b) = Some digest" "decodeKeyMaterial (XbSignature b) SignatureSize = Some sig" "verify trusted digest sig"
    and prev: "XbPrevHash b = '''' \<or> hash_text (XbPrevHash b)" and shown: "b64_decode False (XbPayload b) = Some payload"
    and lb: "decodeLedgerPayload payload = Some lb"
    and hash: "XbHash b = hex_encode (ledgerDigest (XbPrevHash b) payload)" and bound: "verifyLedgerPayloadBinding b lb = None" .
  show ?thesis
  proof (cases "\<exists>r \<in> set (Ledger db). EntryHash r = XbHash b \<and> payload_of (LedgerBatchID r) db \<noteq> None")
    case False
    show ?thesis
    proof (cases "XbHash b \<in> EntryHash ` set (Ledger db)")
      case True
      then obtain r where r: "r \<in> set (Ledger db)" "EntryHash r = XbHash b" by auto
      with False have "payload_of (LedgerBatchID r) db = None" by blast
      then have "\<not> batch_exists (LedgerBatchID r) db" by (simp add: payload_gone batch_of_None)
      with r show ?thesis by blast
    next
      case False
      with sig show ?thesis by blast
    qed
  next
    case True
    then obtain r i recorded lb' where r: "r \<in> set (Ledger db)" "EntryHash r = XbHash b" "i = LedgerBatchID r"
        "evidenceLedgerPayload i db = Some (recorded, lb')" by (auto simp: payload_of_def)
    then have rec: "payload_of (LedgerBatchID r) db = Some recorded" by (simp add: payload_of_def)
    have "EntryHash r = hex_encode (ledgerDigest (PrevHash r) recorded)"
      using assms(3) r(1) rec by (auto simp: ledger_wf_def list_all_iff entry_true_def)
    then have same: "sha256 (ledger_input (XbPrevHash b) payload) = sha256 (ledger_input (PrevHash r) recorded)"
      using hash r(2) hex_encode_inj by (simp add: ledgerDigest_def)
    show ?thesis
    proof (cases "ledger_input (XbPrevHash b) payload = ledger_input (PrevHash r) recorded")
      case False
      then show ?thesis using same shown rec r(1) by blast
    next
      case True
      have eq: "XbPrevHash b = PrevHash r" "payload = recorded"
        using ledger_input_determined [OF prev written_previous [OF assms(3) r(1)] True] by simp_all
      have "ledger_batch_ok lb'" using assms(4) r(1,3,4) by (auto simp: recordable_def split: option.splits)
      moreover have "recorded = evidenceLedgerBatch lb'" using r(4) by (auto simp: evidenceLedgerPayload_def Let_def split: option.splits)
      ultimately have "lb = lb'" using lb payload_decoded [of lb'] eq(2) by simp
      with bound_batch [OF r(4) _ shown [unfolded eq(2)]] bound have "XbID b = i \<and> shows_batch db b" by simp
      then show ?thesis using r(1-3) eq(1) by auto
    qed
  qed
qed

theorem pack_shows_recorded_history_witness:
  "\<exists>q. VerifyEvidencePackWithKey (\<lambda>_. Some q) toy_verify (PublicKey toy_key) '''' = Some None \<and> shown_batch \<in> set (XpBatches q)
     \<and> (\<exists>r \<in> set (Ledger shown_history). EntryHash r = XbHash shown_batch \<and> PrevHash r = XbPrevHash shown_batch
          \<and> LedgerBatchID r = XbID shown_batch \<and> shows_batch shown_history shown_batch)"
proof -
  obtain q where q: "verify_pack toy_verify (PublicKey toy_key) q = None" "XpBatches q = [shown_batch]" by (rule shown_verified)
  then have accepted: "VerifyEvidencePackWithKey (\<lambda>_. Some q) toy_verify (PublicKey toy_key) '''' = Some None"
    by (simp add: VerifyEvidencePackWithKey_def verifyEvidencePack_def toy_ed25519(3))
  have entry: "Ledger shown_history = [\<lparr> LedgerSequence = 1, LedgerBatchID = 1, LedgerGen = 1, LedgerObserved = ''2026-01-02T03:04:05.000000000Z'',
       PrevHash = '''', EntryHash = shown_hash, LedgerSignature = shown_signature, LedgerKeyID = KeyID toy_key,
       LedgerCreated = ''2026-01-02T03:04:05.000000000Z'' \<rparr>]" by (simp add: shown_history_def)
  have stored: "payload_of 1 shown_history = Some shown_payload" "batch_exists 1 shown_history"
    by (simp_all add: payload_of_def shown_history_def shown_recorded batch_exists_def shown_row_def)
  from pack_shows_recorded_history [OF accepted refl shown_wf(2,3), of shown_batch] q(2) stored entry
  have "\<exists>r \<in> set (Ledger shown_history). EntryHash r = XbHash shown_batch \<and> PrevHash r = XbPrevHash shown_batch
          \<and> LedgerBatchID r = XbID shown_batch \<and> shows_batch shown_history shown_batch"
    by (auto simp: shown_members b64_round_trip)
  with accepted q(2) show ?thesis by auto
qed





end
