(* ===== verification/Spec2Isabelle.thy ===== *)
theory Spec2Isabelle
  imports GoJson_Laws GoTime Model Model_Diff Model_Dns Model_Shares Model_Attribution Expiry
    Webhook Secret Notify_Reasons Store_Outbox Web_Webhook Monitor_Triggers Monitor_Delivery
    Store_Snapshots_Laws Store_Mutes Store_Routing Store_Attribution Store_Checkpoint Store_Batches_Laws Store_Accounts_Laws
    Web_Login Store_History_Laws Store_Packs
begin

text \<open>
  TailState watches a Tailscale tailnet: it collects its resources from the API, compares each
  with the stored snapshot, keeps the differences in a ledger, and sends notifications about them
  through a durable queue. A signed webhook can trigger a collection early.

  This development models the part of the program that decides what is stored, what is reported,
  how important it is, to whom it is credited, and what is sent to whom in which order.

  Ground theories. \<open>Prelude\<close>: types, list lemmas and the contract of the de-duplicating
  normalisations. \<open>GoText\<close>: Go's strings, UTF-8 and \<open>internal/textutil\<close>. \<open>GoJson\<close> and
  \<open>GoJson_Laws\<close>: JSON values, the encoder, the decoder and their round trip. \<open>GoCrypto\<close>: SHA-256,
  HMAC, hexadecimal and base64 codings. \<open>GoTime\<close>: the text of an instant.

  Components, by the source they model:

  \<^item> \<open>Model\<close>, \<open>Model_Diff\<close> (\<open>internal/model/model.go\<close>): what a snapshot keeps
    (\<open>NormalizeFor\<close>, \<open>CanonicalFor\<close>) and how two are compared (\<open>DiffDetailedFor\<close>). Secrets and
    volatile fields are shown absent, the order of unordered lists irrelevant, the bounded
    comparison a cut of the complete one, and the complete one exact.
  \<^item> \<open>Model_Dns\<close> (\<open>dns.go\<close>): the two upstream shapes of a DNS snapshot.
  \<^item> \<open>Model_Severity\<close>, \<open>Model_Shares\<close> (\<open>severity.go\<close>, \<open>shares.go\<close>): share invites read out of a
    change, and \<open>Classify\<close>.
  \<^item> \<open>Model_Attribution\<close> (\<open>attribution.go\<close>): the audit-log entry a change is credited to.
  \<^item> \<open>Expiry\<close> (\<open>internal/expiry\<close>): which keys and devices are about to expire and which warnings
    are sent, over any sequence of runs.
  \<^item> \<open>Webhook\<close> (\<open>internal/webhook\<close>): verification of a delivery and the collectors it triggers.
  \<^item> \<open>Secret\<close> (\<open>internal/secret\<close>): encrypted values bound to their place, the administrator's
    password hash and policy.
  \<^item> \<open>Notify_Reasons\<close> (\<open>internal/notify/notify.go\<close>, \<open>slack.go\<close>): what may be kept of a failed delivery.
  \<^item> \<open>Leased_Queue\<close>: statements on a table and the contract of a leased queue (three locales).
  \<^item> \<open>Store_Outbox\<close> (\<open>internal/store/outbox.go\<close> and the statements of \<open>destinations.go\<close>,
    \<open>settings.go\<close>, \<open>status.go\<close> on the queue): the notification queue as a state machine.
  \<^item> \<open>Store_Webhooks\<close> (\<open>internal/store/webhooks.go\<close>): the durable queue of webhook triggers; a second
    instance of the contracts of \<open>Leased_Queue\<close>.
  \<^item> \<open>Web_Webhook\<close> (\<open>internal/web/webhook.go\<close>): the handler that composes the secret, the
    verification and the trigger queue; what becomes of a signed delivery.
  \<^item> \<open>Monitor_Collectors\<close> (\<open>internal/monitor/scheduler.go\<close>, \<open>cleanup.go\<close>): scopes of collectors, their
    union, and the delays between attempts.
  \<^item> \<open>Monitor_Triggers\<close> (\<open>internal/monitor/triggers.go\<close>): the in-memory requests, the claims of their
    triggers, one poll of the union of the scopes (the poll is an argument) and the settlement of
    each claim; composed with \<open>Web_Webhook\<close>, the way of a delivery from the request to the
    processed trigger.
  \<^item> \<open>Monitor_Delivery\<close> (\<open>internal/monitor/delivery.go\<close>): one tick of the delivery worker over the
    notification queue; order per destination, and that no claimed item is left leased.
  \<^item> \<open>Store_Collectors\<close> (\<open>internal/store/status.go\<close>, \<open>snapshots.go\<close>): the table \<open>collector_state\<close>,
    the schedule, failure counts and health of each collector.
  \<^item> \<open>Store_Snapshots\<close>, \<open>Store_Snapshots_Laws\<close> (\<open>internal/store/snapshots.go\<close>, \<open>storage_limits.go\<close>):
    what a poll does to the stored inventory, and which changes it records: a specification read off
    the inventory before the batch, which the detailed model meets.
  \<^item> \<open>Store_Mutes\<close> (\<open>internal/store/mutes.go\<close>): mute rules and their evaluation, equal to asking each
    rule in turn.
  \<^item> \<open>Store_Routing\<close> (\<open>internal/store/routing.go\<close>): per-destination routing rules, their columns, and
    the queueing of one digest per destination; sharing renderings is invisible.
  \<^item> \<open>Store_Attribution\<close> (\<open>internal/store/attribution.go\<close>, \<open>internal/monitor/attribution.go\<close>): when the
    configuration audit log is searched, how far back, and what is credited to whom.
  \<^item> \<open>Evidence_Keys\<close> (\<open>internal/store/signing.go\<close>): the signing key of the instance, at rest and loaded.
  \<^item> \<open>Store_Ledger\<close>, \<open>Store_Ledger_Laws\<close> (\<open>signing.go\<close>, the insertions of \<open>snapshots.go\<close>): batches,
    events and the hash-chained, signed ledger over them: how it grows, and the back-fill after a
    migration. Every entry stays true of its batch as long as the batch is stored.
  \<^item> \<open>Store_Retention\<close> (\<open>internal/store/status.go\<close>): the clean-up of the history in short
    transactions, its budgets and its escalated retry; a transaction may commit, overrun, fail or be
    cancelled at any point.
  \<^item> \<open>Store_Audit\<close>, \<open>Store_Audit_Laws\<close> (\<open>internal/store/audit.go\<close>, \<open>cmd/tailstate/main.go\<close>): the audit of
    the ledger page by page; what it proves of any database, that it accepts what the service wrote, and
    what a checkpoint kept outside the database pins.
  \<^item> \<open>Store_Batches\<close>, \<open>Store_Batches_Laws\<close> (\<open>internal/store/snapshots.go\<close>): \<open>ApplyBatchWithOptions\<close> as a whole,
    the composition of the parts above in one transaction; from the drift of the inventory to the history,
    the ledger and the payloads queued.
  \<^item> \<open>Store_Checkpoint\<close> (\<open>internal/store/checkpoint.go\<close>): signed statements of the head of the ledger, sent to
    one destination; every one ever sent is accepted by a later audit.
  \<^item> \<open>Store_Accounts\<close>, \<open>Store_Accounts_Laws\<close> (\<open>internal/store/sessions.go\<close>, \<open>auth.go\<close>, \<open>api_tokens.go\<close>): the
    administrator, the one-time tokens, the sessions and the API tokens; what holds of them over any
    sequence of operations.
  \<^item> \<open>Store_History\<close> (\<open>internal/store/history.go\<close>): the filters, the byte budget and the cursors of a
    page of the recorded history, and the loading of a batch. \<open>Store_History_Laws\<close>: the pages that follow
    one another show every selected batch once; the fuel of \<open>follow_pages\<close> is the number of selected batches
    plus one, enough because each page but the last starts the next one below a row it has passed.
  \<^item> \<open>Store_Payload\<close>, \<open>Store_Evidence\<close> (\<open>internal/store/evidence_verify.go\<close>, the types of \<open>evidence.go\<close>): the
    strict decoder of a ledger payload, the evidence packs, the text that is hashed and signed, and the
    offline verifier. The decoder of a pack's text is an argument. \<open>Store_Evidence_Laws\<close>: what a bound batch
    of an accepted pack shows was recorded.
  \<^item> \<open>Store_Export\<close> (\<open>evidence.go\<close>, \<open>evidenceLedgerLinks\<close> of \<open>signing.go\<close>): the export in signed parts, with the
    search for the largest part below the size limit. \<open>Store_Export_Laws\<close>: the parts that follow one another;
    the fuel of \<open>follow_parts\<close> is the number of selected batches plus one, enough as each part shows at least
    one. \<open>Store_Export_Verified\<close>: each check of the verifier holds of a part the exporter wrote. \<open>Store_Packs\<close>:
    the three properties, with an exported pack of one batch.
  \<^item> \<open>Web_Limits\<close> (\<open>internal/web/throttle.go\<close>, \<open>api.go\<close>, \<open>reveal.go\<close>): the throttle of failed credentials and
    its equivalence with the history of failures, the request budget of API tokens, and the one-time
    display of a new one. \<open>Web_Challenge\<close> (\<open>challenge.go\<close>): the signed one-time challenge of the forms.
    \<open>Web_Login\<close> (\<open>credential_flow.go\<close>, \<open>auth.go\<close>, \<open>account.go\<close>, \<open>api.go\<close>): the handlers that compose these with the
    accounts; how many credentials can be tried, and who gets a session.

  Conventions. A Go string is a list of bytes. An instant and a duration are integers (nanoseconds).
  The clock (\<open>time.Now\<close>) and random tokens (\<open>crypto/rand\<close>) are arguments; AES-GCM, Argon2,
  Ed25519 and \<open>notify.Validate\<close> are parameters with their documented behaviour as hypotheses. An SQL table is
  the list of its rows in the order of their ids, a transaction a function of the database; a
  failing transaction leaves the database as it was.

  Bounds. Recursions are structural or have a measure; the only cut one is the walk over share
  invites (\<open>Model_Shares\<close>), two levels deep, which \<open>visit_depth\<close> shows to be enough. The rounds of a clean-up
  phase are a list of what each transaction meets; \<open>retention_pass_ends\<close> bounds their number.

  Not modelled: the HTTP client of the Tailscale API and the senders of notifications (network
  I/O), the rendering of the web pages, the command line, migrations, backup and compaction (SQL and files), and
  the goroutines of the monitor around the modelled operations.
\<close>

end
